(* ===== verification/Prelude.thy ===== *)
theory Prelude
  imports Main "HOL-Library.Word"
begin

text \<open>
  What every component shares: the exceptions of the source as a datatype, a Python method
  as a function from the state of its object to a result and the state it leaves behind,
  the combinators that compose methods in the order the source runs their statements, and
  the judgement \<open>safe\<close> with which the invariants of composed methods are proved.

  A method that raises keeps the mutations it has made so far, as in Python: the state is
  returned beside the exception, not inside the successful result.
\<close>

section \<open>Exceptions\<close>

text \<open>
  The messages of the source's \<open>raise\<close> statements carry values for the log only; the
  model keeps which statement raised. \<open>ValidationError\<close> is the class of the security package,
  \<open>ChainValidationError\<close> that of the chain's exceptions, and \<open>PlainException\<close> stands for
  \<open>raise Exception(...)\<close>. \<open>OutOfFuel\<close> is no exception of the source: it is
  the value of a run whose fuel ended, and nothing in the model catches it.
\<close>

datatype vm_cause =
    StackOverflow | StackUnderflow | StackRange
  | MemoryLimit | StorageLimit
  | OutOfGas | InvalidOpcode | UnimplementedOpcode | InvalidJump
  | StaticViolation | ReturnDataBounds
  | ExecutionTimeout | InstructionLimit
  | PrecompileInput | PrecompileDependency | PrecompileProof
  | NegativeOperand | AmountOverflow | AmountUnderflow | DivisionByZero | RangeViolation
  | TokenPaused | CallerNotOwner | ZeroAddress | InvalidAmount | InvalidMetadata
  | InsufficientBalance | InsufficientAllowance | SupplyCapExceeded
  | PermitExpired | PermitMalformed | UnknownSelector | NativeValueRejected
  | UnsupportedContract | HookReverted | HookRejected | MissingAddress
  | CodeTooLarge | IntrinsicGas | CodeDepositGas | StaticDeployment
  | NonexistentToken | AlreadyMinted | NotApproved | SelfApproval

datatype exn =
    VMExecutionError vm_cause
  | ValueError
  | OverflowError
  | TypeError
  | KeyError
  | AttributeError
  | FinalityConfigurationError
  | FinalityValidationError
  | UTXOValidationError
  | InvalidOperation
  | ZeroDivisionError
  | IndexError
  | MiningAbortedError
  | TransactionValidationError
  | ValidationError
  | ImportError
  | ChainReorgError
  | ChainValidationError
  | StorageError
  | RuntimeError
  | PlainException
  | OutOfFuel

section \<open>Methods\<close>

type_synonym ('s, 'a) meth = "'s \<Rightarrow> (exn + 'a) \<times> 's"

named_theorems meth_simps "equations that evaluate composed methods"

definition ret :: "'a \<Rightarrow> ('s, 'a) meth" where
  [meth_simps]: "ret a s = (Inr a, s)"

definition raise :: "exn \<Rightarrow> ('s, 'a) meth" where
  [meth_simps]: "raise e s = (Inl e, s)"

definition and_then :: "('s, 'a) meth \<Rightarrow> ('a \<Rightarrow> ('s, 'b) meth) \<Rightarrow> ('s, 'b) meth" where
  [meth_simps]: "and_then m k s =
     (case m s of (Inl e, t) \<Rightarrow> (Inl e, t) | (Inr a, t) \<Rightarrow> k a t)"

definition reads :: "('s \<Rightarrow> 'a) \<Rightarrow> ('s, 'a) meth" where
  [meth_simps]: "reads f s = (Inr (f s), s)"

definition modify :: "('s \<Rightarrow> 's) \<Rightarrow> ('s, unit) meth" where
  [meth_simps]: "modify f s = (Inr (), f s)"

definition lift_result :: "exn + 'a \<Rightarrow> ('s, 'a) meth" where
  [meth_simps]: "lift_result r s = (r, s)"

text \<open>\<open>if b: raise e\<close>\<close>

definition raise_if :: "('s \<Rightarrow> bool) \<Rightarrow> exn \<Rightarrow> ('s, unit) meth" where
  [meth_simps]: "raise_if b e s = (if b s then (Inl e, s) else (Inr (), s))"

text \<open>\<open>try: m except VMExecutionError: h\<close>. Other exceptions pass through.\<close>

definition catch_vm :: "('s, 'a) meth \<Rightarrow> ('s, 'a) meth \<Rightarrow> ('s, 'a) meth" where
  [meth_simps]: "catch_vm m h s =
     (case m s of
        (Inl (VMExecutionError c), t) \<Rightarrow> h t
      | (Inl e, t) \<Rightarrow> (Inl e, t)
      | (Inr a, t) \<Rightarrow> (Inr a, t))"

text \<open>Statements in a row.\<close>

primrec seq :: "('s, unit) meth list \<Rightarrow> ('s, unit) meth" where
  "seq [] = ret ()"
| "seq (m # ms) = and_then m (\<lambda>_. seq ms)"

declare seq.simps [meth_simps]

text \<open>
  A method of a component run on the object that holds it: \<open>get\<close> reads the component and
  \<open>upd\<close> is the record's update function of that field.
\<close>

definition zoom ::
    "('s \<Rightarrow> 'c) \<Rightarrow> (('c \<Rightarrow> 'c) \<Rightarrow> 's \<Rightarrow> 's) \<Rightarrow> ('c, 'a) meth \<Rightarrow> ('s, 'a) meth" where
  [meth_simps]: "zoom get upd m s = (case m (get s) of (r, c) \<Rightarrow> (r, upd (\<lambda>_. c) s))"

lemma and_then_assoc: "and_then (and_then m f) g = and_then m (\<lambda>a. and_then (f a) g)"
  by (rule ext) (simp add: and_then_def split: prod.splits sum.splits)

lemma and_then_ret [simp]: "and_then (ret a) k = k a"
  by (rule ext) (simp add: and_then_def ret_def)

lemma and_then_raise [simp]: "and_then (raise e) k = raise e"
  by (rule ext) (simp add: and_then_def raise_def)

lemma and_then_Inr: "m s = (Inr a, t) \<Longrightarrow> and_then m k s = k a t"
  by (simp add: and_then_def)

lemma and_then_Inl: "m s = (Inl e, t) \<Longrightarrow> and_then m k s = (Inl e, t)"
  by (simp add: and_then_def)

lemma map_sum_Inr: "map_sum f g r = Inr y \<longleftrightarrow> (\<exists>z. r = Inr z \<and> y = g z)"
  by (cases r) auto

section \<open>The judgement for invariants of methods\<close>

text \<open>
  \<open>safe I R A m V\<close>: from a state with \<open>I\<close>, the method \<open>m\<close> ends (returning or raising)
  in a state with \<open>I\<close> that \<open>R\<close> relates to the first; a returned value satisfies \<open>V\<close>
  and a raised exception satisfies \<open>A\<close>.
\<close>

definition safe ::
    "('s \<Rightarrow> bool) \<Rightarrow> ('s \<Rightarrow> 's \<Rightarrow> bool) \<Rightarrow> (exn \<Rightarrow> bool) \<Rightarrow> ('s, 'a) meth \<Rightarrow> ('a \<Rightarrow> bool) \<Rightarrow> bool" where
  "safe I R A m V \<longleftrightarrow>
     (\<forall>s. I s \<longrightarrow> (case m s of (r, t) \<Rightarrow>
        I t \<and> R s t \<and> (case r of Inl e \<Rightarrow> A e | Inr a \<Rightarrow> V a)))"

lemma safeI:
  assumes "\<And>s r t. I s \<Longrightarrow> m s = (r, t) \<Longrightarrow>
     I t \<and> R s t \<and> (case r of Inl e \<Rightarrow> A e | Inr a \<Rightarrow> V a)"
  shows "safe I R A m V"
  using assms by (auto simp: safe_def)

lemma safeD:
  assumes "safe I R A m V" and "I s" and "m s = (r, t)"
  shows "I t" and "R s t" and "r = Inl e \<Longrightarrow> A e" and "r = Inr a \<Longrightarrow> V a"
  using assms by (auto simp: safe_def)

lemma safe_weaken:
  assumes "safe I R A m V" and "\<And>a. V a \<Longrightarrow> W a"
  shows "safe I R A m W"
proof (rule safeI)
  fix s r t
  assume "I s" and "m s = (r, t)"
  from safeD [OF assms(1) this] assms(2)
  show "I t \<and> R s t \<and> (case r of Inl e \<Rightarrow> A e | Inr a \<Rightarrow> W a)"
    by (auto split: sum.splits)
qed

locale safety =
  fixes I :: "'s \<Rightarrow> bool"
    and R :: "'s \<Rightarrow> 's \<Rightarrow> bool"
    and A :: "exn \<Rightarrow> bool"
  assumes R_refl: "I s \<Longrightarrow> R s s"
    and R_trans: "R s t \<Longrightarrow> R t u \<Longrightarrow> R s u"
begin

lemma safe_ret: "V a \<Longrightarrow> safe I R A (ret a) V"
  by (simp add: safe_def ret_def R_refl)

lemma safe_raise: "A e \<Longrightarrow> safe I R A (raise e) V"
  by (simp add: safe_def raise_def R_refl)

lemma safe_reads: "(\<And>s. I s \<Longrightarrow> V (f s)) \<Longrightarrow> safe I R A (reads f) V"
  by (simp add: safe_def reads_def R_refl)

lemma safe_modify: "(\<And>s. I s \<Longrightarrow> I (f s) \<and> R s (f s)) \<Longrightarrow> safe I R A (modify f) (\<lambda>_. True)"
  by (simp add: safe_def modify_def)

lemma safe_lift_result:
  "(\<And>e. r = Inl e \<Longrightarrow> A e) \<Longrightarrow> (\<And>a. r = Inr a \<Longrightarrow> V a) \<Longrightarrow> safe I R A (lift_result r) V"
  by (cases r) (simp_all add: safe_def lift_result_def R_refl)

lemma safe_and_then:
  assumes m: "safe I R A m V" and k: "\<And>a. V a \<Longrightarrow> safe I R A (k a) W"
  shows "safe I R A (and_then m k) W"
proof (rule safeI)
  fix s r u
  assume s: "I s" and run: "and_then m k s = (r, u)"
  obtain q t where q: "m s = (q, t)" by fastforce
  note mD = safeD [OF m s q]
  show "I u \<and> R s u \<and> (case r of Inl e \<Rightarrow> A e | Inr a \<Rightarrow> W a)"
  proof (cases q)
    case (Inl e)
    with run q mD show ?thesis by (auto simp: and_then_def)
  next
    case (Inr a)
    with run q have "k a t = (r, u)" by (simp add: and_then_def)
    with safeD [OF k [OF mD(4) [OF Inr]] mD(1)] mD(2) show ?thesis
      by (auto intro: R_trans split: sum.splits)
  qed
qed

lemma safe_and_then_any:
  "safe I R A m V \<Longrightarrow> (\<And>a. safe I R A (k a) W) \<Longrightarrow> safe I R A (and_then m k) W"
  by (rule safe_and_then)

lemma safe_seq_Nil: "safe I R A (seq []) (\<lambda>_. True)"
  by (simp add: safe_ret)

lemma safe_seq_Cons:
  "safe I R A m (\<lambda>_. True) \<Longrightarrow> safe I R A (seq ms) (\<lambda>_. True) \<Longrightarrow> safe I R A (seq (m # ms)) (\<lambda>_. True)"
  by (simp add: safe_and_then_any)

lemma safe_if:
  "(b \<Longrightarrow> safe I R A m V) \<Longrightarrow> (\<not> b \<Longrightarrow> safe I R A n V) \<Longrightarrow> safe I R A (if b then m else n) V"
  by simp

lemma safe_catch_vm:
  assumes m: "safe I R A m V" and h: "safe I R A h V"
  shows "safe I R A (catch_vm m h) V"
proof (rule safeI)
  fix s r u
  assume s: "I s" and run: "catch_vm m h s = (r, u)"
  obtain q t where q: "m s = (q, t)" by fastforce
  note mD = safeD [OF m s q]
  show "I u \<and> R s u \<and> (case r of Inl e \<Rightarrow> A e | Inr a \<Rightarrow> V a)"
  proof (cases "\<exists>c. q = Inl (VMExecutionError c)")
    case True
    with run q have "h t = (r, u)" by (auto simp: catch_vm_def)
    with safeD [OF h mD(1)] mD(2) show ?thesis
      by (auto intro: R_trans split: sum.splits)
  next
    case False
    with run q have "r = q" "u = t"
      by (auto simp: catch_vm_def split: sum.splits exn.splits)
    with mD show ?thesis by (auto split: sum.splits)
  qed
qed

end

end
