(* ===== verification/PyBytes.thy ===== *)
theory PyBytes
  imports Prelude
begin

text \<open>
  The parts of Python's \<open>int\<close>, \<open>bytes\<close> and \<open>str\<close> that the virtual machine uses:
  big-endian conversion, slices, hexadecimal text and the parsing of integers. A \<open>bytes\<close>
  value is a list of 8-bit words, a \<open>str\<close> is a list of characters.
\<close>

unbundle bit_operations_syntax

type_synonym byte = "8 word"

section \<open>Big-endian integers\<close>

definition from_bytes :: "byte list \<Rightarrow> int" where
  "from_bytes bs = foldl (\<lambda>acc b. acc * 256 + uint b) 0 bs"

primrec be_bytes :: "nat \<Rightarrow> int \<Rightarrow> byte list" where
  "be_bytes 0 v = []"
| "be_bytes (Suc n) v = be_bytes n (v div 256) @ [word_of_int v]"

text \<open>\<open>int.to_bytes(n, "big")\<close> raises OverflowError on a negative or too large value.\<close>

definition to_bytes :: "nat \<Rightarrow> int \<Rightarrow> exn + byte list" where
  "to_bytes n v = (if v < 0 \<or> v \<ge> 256 ^ n then Inl OverflowError else Inr (be_bytes n v))"

lemma length_be_bytes [simp]: "length (be_bytes n v) = n"
  by (induction n arbitrary: v) auto

lemma be_bytes_eq_Nil [simp]: "be_bytes n v = [] \<longleftrightarrow> n = 0"
  by (metis length_0_conv length_be_bytes)

lemma from_bytes_Nil [simp]: "from_bytes [] = 0"
  by (simp add: from_bytes_def)

lemma from_bytes_snoc: "from_bytes (bs @ [b]) = from_bytes bs * 256 + uint b"
  by (simp add: from_bytes_def)

lemma from_bytes_be_bytes: "from_bytes (be_bytes n v) = v mod 256 ^ n"
proof (induction n arbitrary: v)
  case 0
  show ?case by simp
next
  case (Suc n)
  have "from_bytes (be_bytes (Suc n) v) = (v div 256 mod 256 ^ n) * 256 + v mod 256"
    by (simp add: from_bytes_snoc Suc.IH uint_word_of_int)
  also have "\<dots> = v mod (256 * 256 ^ n)"
    by (subst zmod_zmult2_eq) auto
  finally show ?case by simp
qed

lemma from_bytes_range: "0 \<le> from_bytes bs" "from_bytes bs < 256 ^ length bs"
proof (induction bs rule: rev_induct)
  case Nil
  case 1 show ?case by simp
  case 2 show ?case by simp
next
  case (snoc b bs)
  have b: "0 \<le> uint b" "uint b < 256" using uint_bounded [of b] by simp_all
  case 1 show ?case using snoc.IH(1) b by (simp add: from_bytes_snoc)
  case 2 show ?case using snoc.IH b by (simp add: from_bytes_snoc)
qed

lemma be_bytes_from_bytes: "be_bytes (length bs) (from_bytes bs) = bs"
proof (induction bs rule: rev_induct)
  case Nil
  show ?case by simp
next
  case (snoc b bs)
  have b: "0 \<le> uint b" "uint b < 256" using uint_bounded [of b] by simp_all
  have div: "(from_bytes bs * 256 + uint b) div 256 = from_bytes bs"
    using b by simp
  have "word_of_int (from_bytes bs * 256 + uint b) = (word_of_int (uint b) :: byte)"
    by (subst word_of_int_eq_iff) (simp add: take_bit_eq_mod)
  then show ?case by (simp add: from_bytes_snoc div snoc.IH)
qed

lemma to_bytes_in_range: "0 \<le> v \<Longrightarrow> v < 256 ^ n \<Longrightarrow> to_bytes n v = Inr (be_bytes n v)"
  by (simp add: to_bytes_def)

section \<open>Slices and padding\<close>

text \<open>\<open>xs[i:j]\<close> and \<open>xs[i:j] = ys\<close> for non-negative bounds.\<close>

definition slice :: "nat \<Rightarrow> nat \<Rightarrow> 'a list \<Rightarrow> 'a list" where
  "slice i j xs = take (j - i) (drop i xs)"

definition slice_assign :: "nat \<Rightarrow> nat \<Rightarrow> 'a list \<Rightarrow> 'a list \<Rightarrow> 'a list" where
  "slice_assign i j ys xs = take i xs @ ys @ drop (max i j) xs"

text \<open>\<open>bytes(n)\<close>: \<open>n\<close> zero bytes.\<close>

definition zeros :: "nat \<Rightarrow> byte list" where
  "zeros n = replicate n 0"

lemma length_zeros [simp]: "length (zeros n) = n"
  by (simp add: zeros_def)

lemma length_slice [simp]: "length (slice i j xs) = min (j - i) (length xs - i)"
  by (simp add: slice_def)

lemma length_slice_assign:
  "j \<le> length xs \<Longrightarrow> i + length ys = j \<Longrightarrow> length (slice_assign i j ys xs) = length xs"
  by (simp add: slice_assign_def)

lemma nth_slice: "k < j - i \<Longrightarrow> i + k < length xs \<Longrightarrow> slice i j xs ! k = xs ! (i + k)"
  by (simp add: slice_def)

lemma nth_slice_assign:
  assumes "i + length ys \<le> length xs" and "k < length xs"
  shows "slice_assign i (i + length ys) ys xs ! k =
    (if i \<le> k \<and> k < i + length ys then ys ! (k - i) else xs ! k)"
  using assms by (auto simp: slice_assign_def nth_append max_def)

lemma slice_slice_assign:
  "i + length ys \<le> length xs \<Longrightarrow> slice i (i + length ys) (slice_assign i (i + length ys) ys xs) = ys"
  by (simp add: slice_def slice_assign_def max_def)

section \<open>Hexadecimal text\<close>

definition hex_digit :: "nat \<Rightarrow> char" where
  "hex_digit n = (if n < 10 then char_of (48 + n) else char_of (87 + n))"

fun hex_nat :: "nat \<Rightarrow> string" where
  "hex_nat n = (if n < 16 then [hex_digit n] else hex_nat (n div 16) @ [hex_digit (n mod 16)])"

declare hex_nat.simps [simp del]

definition zfill :: "nat \<Rightarrow> string \<Rightarrow> string" where
  "zfill w s = replicate (w - length s) (CHR ''0'') @ s"

text \<open>The format \<open>f"0x{v:0wx}"\<close> of a non-negative integer.\<close>

definition format_hex :: "nat \<Rightarrow> int \<Rightarrow> string" where
  "format_hex w v = ''0x'' @ zfill w (hex_nat (nat v))"

text \<open>\<open>bytes.hex()\<close>.\<close>

definition hex_of_bytes :: "byte list \<Rightarrow> string" where
  "hex_of_bytes bs =
     concat (map (\<lambda>b. [hex_digit (unat b div 16), hex_digit (unat b mod 16)]) bs)"

definition digit_val :: "char \<Rightarrow> int option" where
  "digit_val c = (let k = of_char c :: nat in
     if 48 \<le> k \<and> k \<le> 57 then Some (int k - 48)
     else if 97 \<le> k \<and> k \<le> 122 then Some (int k - 87)
     else if 65 \<le> k \<and> k \<le> 90 then Some (int k - 55)
     else None)"

definition is_space :: "char \<Rightarrow> bool" where
  "is_space c = (c \<in> {CHR '' '', CHR 0x09, CHR 0x0A, CHR 0x0B, CHR 0x0C, CHR 0x0D})"

text \<open>Text has some more white space than bytes: the separators below space, NEL and NBSP.\<close>

definition is_text_space :: "char \<Rightarrow> bool" where
  "is_text_space c = (is_space c \<or> c \<in> {CHR 0x1C, CHR 0x1D, CHR 0x1E, CHR 0x1F, CHR 0x85, CHR 0xA0})"

definition strip :: "string \<Rightarrow> string" where
  "strip s = rev (dropWhile is_text_space (rev (dropWhile is_text_space s)))"

text \<open>
  Digits with single underscores between them; the flag says whether the last character was
  a digit (the text may end or an underscore may follow).
\<close>

fun parse_digits :: "int \<Rightarrow> bool \<Rightarrow> int \<Rightarrow> string \<Rightarrow> exn + int" where
  "parse_digits base ok acc [] = (if ok then Inr acc else Inl ValueError)"
| "parse_digits base ok acc (c # cs) =
     (if c = CHR ''_'' then (if ok then parse_digits base False acc cs else Inl ValueError)
      else case digit_val c of
             None \<Rightarrow> Inl ValueError
           | Some d \<Rightarrow> if d < base then parse_digits base True (acc * base + d) cs
                       else Inl ValueError)"

definition starts_with :: "string \<Rightarrow> string \<Rightarrow> bool" where
  "starts_with p s = (take (length p) s = p)"

text \<open>\<open>int(s, base)\<close> for the bases 10 and 16 the source uses.\<close>

definition parse_unsigned :: "int \<Rightarrow> string \<Rightarrow> exn + int" where
  "parse_unsigned base s =
     (if base = 16 \<and> (starts_with ''0x'' s \<or> starts_with ''0X'' s) then
        (let rest = drop 2 s in
         if starts_with ''_'' rest then parse_digits base False 0 (drop 1 rest)
         else parse_digits base False 0 rest)
      else parse_digits base False 0 s)"

definition parse_int :: "int \<Rightarrow> string \<Rightarrow> exn + int" where
  "parse_int base s =
     (let t = strip s in
      if starts_with ''-'' t then map_sum id uminus (parse_unsigned base (drop 1 t))
      else if starts_with ''+'' t then parse_unsigned base (drop 1 t)
      else parse_unsigned base t)"

text \<open>\<open>bytes.fromhex(s)\<close>: pairs of digits, with white space allowed between the pairs.\<close>

definition nibble :: "char \<Rightarrow> int option" where
  "nibble c = (case digit_val c of Some d \<Rightarrow> if d < 16 then Some d else None | None \<Rightarrow> None)"

fun fromhex :: "string \<Rightarrow> exn + byte list" where
  "fromhex [] = Inr []"
| "fromhex [c] = (if is_space c then Inr [] else Inl ValueError)"
| "fromhex (c # d # cs) =
     (if is_space c then fromhex (d # cs)
      else case (nibble c, nibble d) of
        (Some h, Some l) \<Rightarrow> map_sum id (\<lambda>bs. word_of_int (16 * h + l) # bs) (fromhex cs)
      | _ \<Rightarrow> Inl ValueError)"

definition to_upper :: "string \<Rightarrow> string" where
  "to_upper s = map (\<lambda>c. let k = of_char c :: nat in
     if 97 \<le> k \<and> k \<le> 122 then char_of (k - 32) else c) s"

definition to_lower :: "string \<Rightarrow> string" where
  "to_lower s = map (\<lambda>c. let k = of_char c :: nat in
     if 65 \<le> k \<and> k \<le> 90 then char_of (k + 32) else c) s"

subsection \<open>Round trips\<close>

lemma of_char_hex_digit: "n < 16 \<Longrightarrow> of_char (hex_digit n) = (if n < 10 then 48 + n else 87 + n)"
  by (simp add: hex_digit_def)

lemma digit_val_hex_digit: "n < 16 \<Longrightarrow> digit_val (hex_digit n) = Some (int n)"
  by (simp add: digit_val_def of_char_hex_digit)

lemma hex_digit_neq:
  assumes "n < 16" and "(of_char c :: nat) < 48 \<or> 57 < (of_char c :: nat) \<and> (of_char c :: nat) < 97 \<or> 102 < (of_char c :: nat)"
  shows "hex_digit n \<noteq> c"
proof
  assume "hex_digit n = c"
  with assms of_char_hex_digit [OF assms(1)] show False by (auto split: if_splits)
qed

lemma hex_digit_plain:
  assumes "n < 16"
  shows "\<not> is_space (hex_digit n)" and "hex_digit n \<noteq> CHR ''_''"
    and "hex_digit n \<noteq> CHR ''-''" and "hex_digit n \<noteq> CHR ''+''"
    and "hex_digit n \<noteq> CHR ''x''" and "hex_digit n \<noteq> CHR ''X''"
  using hex_digit_neq [OF assms] by (simp_all add: is_space_def)

lemma hex_digit_no_text_space: "n < 16 \<Longrightarrow> \<not> is_text_space (hex_digit n)"
  using hex_digit_plain(1) hex_digit_neq by (simp add: is_text_space_def)

lemma hex_nat_nonempty: "hex_nat n \<noteq> []"
  by (subst hex_nat.simps) simp

lemma parse_digits_hex:
  assumes "\<forall>c \<in> set s. \<exists>n < 16. c = hex_digit n" and "s \<noteq> [] \<or> ok"
  shows "\<exists>v. parse_digits 16 ok acc s = Inr v"
  using assms
proof (induction s arbitrary: ok acc)
  case Nil
  then show ?case by simp
next
  case (Cons c cs)
  from Cons.prems obtain n where n: "n < 16" and c: "c = hex_digit n" by auto
  have "\<exists>v. parse_digits 16 True (acc * 16 + int n) cs = Inr v"
    using Cons.IH Cons.prems by simp
  moreover have "c \<noteq> CHR ''_''" using hex_digit_plain [OF n] c by simp
  ultimately show ?case using n c by (simp add: digit_val_hex_digit)
qed

lemma parse_digits_append:
  assumes "parse_digits base ok acc s = Inr v" and "t \<noteq> []" and "hd t \<noteq> CHR ''_''"
    and "s \<noteq> [] \<or> ok"
  shows "parse_digits base ok acc (s @ t) = parse_digits base True v t"
  using assms
proof (induction base ok acc s rule: parse_digits.induct)
  case (1 base ok acc)
  then show ?case by (auto split: if_splits)
next
  case (2 base ok acc c cs)
  show ?case
  proof (cases "cs = []")
    case True
    with 2 show ?thesis by (auto split: if_splits option.splits)
  next
    case False
    with 2 show ?thesis by (auto split: if_splits option.splits)
  qed
qed

lemma hex_nat_digits: "\<forall>c \<in> set (hex_nat n). \<exists>k < 16. c = hex_digit k"
proof (induction n rule: hex_nat.induct)
  case (1 n)
  show ?case
  proof (cases "n < 16")
    case True
    then show ?thesis by (auto simp: hex_nat.simps [of n])
  next
    case False
    have "n mod 16 < 16" by simp
    then have "\<exists>k<16. hex_digit (n mod 16) = hex_digit k" by blast
    with 1 False show ?thesis by (auto simp: hex_nat.simps [of n])
  qed
qed

lemma parse_digits_hex_nat: "parse_digits 16 ok 0 (hex_nat n) = Inr (int n)"
proof (induction n arbitrary: ok rule: hex_nat.induct)
  case (1 n)
  show ?case
  proof (cases "n < 16")
    case True
    then show ?thesis
      using hex_digit_plain [OF True] by (auto simp: hex_nat.simps [of n] digit_val_hex_digit)
  next
    case False
    let ?d = "hex_digit (n mod 16)"
    have d: "n mod 16 < 16" by simp
    have "parse_digits 16 ok 0 (hex_nat (n div 16) @ [?d]) = parse_digits 16 True (int (n div 16)) [?d]"
      by (rule parse_digits_append) (use False 1 hex_digit_plain [OF d] hex_nat_nonempty in auto)
    also have "\<dots> = Inr (int (n div 16) * 16 + int (n mod 16))"
      using hex_digit_plain [OF d] by (auto simp: digit_val_hex_digit [OF d])
    also have "int (n div 16) * 16 + int (n mod 16) = int n"
      by (simp add: zdiv_int zmod_int)
    finally show ?thesis using False by (simp add: hex_nat.simps [of n])
  qed
qed

lemma parse_digits_zeros:
  "s \<noteq> [] \<Longrightarrow> parse_digits 16 False 0 s = Inr v \<Longrightarrow> parse_digits 16 ok 0 (replicate k (CHR ''0'') @ s) = Inr v"
proof (induction k arbitrary: ok)
  case 0
  have "hd s \<noteq> CHR ''_''" using 0 by (cases s) auto
  with 0 show ?case by (cases s) auto
next
  case (Suc k)
  have "digit_val (CHR ''0'') = Some 0" by code_simp
  with Suc show ?case by simp
qed

lemma strip_plain:
  assumes "s \<noteq> []" and "\<not> is_text_space (hd s)" and "\<not> is_text_space (last s)"
  shows "strip s = s"
proof -
  have l: "dropWhile is_text_space s = s"
    using assms by (cases s) auto
  have "dropWhile is_text_space (rev s) = rev s"
    using assms by (cases s rule: rev_cases) auto
  with l show ?thesis by (simp add: strip_def)
qed

text \<open>Formatting and parsing agree: the machine recovers the word it formatted.\<close>

lemma parse_digits_head: "parse_digits base False acc s = Inr v \<Longrightarrow> s \<noteq> [] \<and> hd s \<noteq> CHR ''_''"
  by (cases s) auto

lemma parse_int_prefixed:
  assumes s: "parse_digits 16 False 0 s = Inr v" and last: "\<not> is_text_space (last s)"
  shows "parse_int 16 (''0x'' @ s) = Inr v"
proof -
  from parse_digits_head [OF s] obtain c cs where [simp]: "s = c # cs" and c: "c \<noteq> CHR ''_''"
    by (cases s) auto
  have "strip (''0x'' @ s) = ''0x'' @ s"
    by (rule strip_plain) (use last in \<open>simp_all add: is_text_space_def is_space_def\<close>)
  moreover have "parse_unsigned 16 (''0x'' @ s) = Inr v"
    using s c by (simp add: parse_unsigned_def starts_with_def)
  ultimately show ?thesis
    by (simp add: parse_int_def starts_with_def)
qed

lemma parse_format_hex:
  assumes "0 \<le> v"
  shows "parse_int 16 (format_hex w v) = Inr v"
proof -
  let ?h = "hex_nat (nat v)"
  have "parse_digits 16 False 0 (zfill w ?h) = Inr v"
    unfolding zfill_def
    by (rule parse_digits_zeros) (use assms in \<open>simp_all add: hex_nat_nonempty parse_digits_hex_nat\<close>)
  moreover obtain k where "k < 16" "last ?h = hex_digit k"
    using hex_nat_digits [of "nat v"] last_in_set [OF hex_nat_nonempty [of "nat v"]] by blast
  then have "\<not> is_text_space (last (zfill w ?h))"
    by (simp add: zfill_def hex_nat_nonempty hex_digit_no_text_space)
  ultimately show ?thesis
    unfolding format_hex_def by (rule parse_int_prefixed)
qed

lemma fromhex_hex_of_bytes: "fromhex (hex_of_bytes bs) = Inr bs"
proof (induction bs)
  case Nil
  show ?case by (simp add: hex_of_bytes_def)
next
  case (Cons b bs)
  have lt: "unat b div 16 < 16" "unat b mod 16 < 16"
    using unsigned_less [of b, where ?'a = nat] by (simp_all add: less_mult_imp_div_less)
  have "16 * int (unat b div 16) + int (unat b mod 16) = int (16 * (unat b div 16) + unat b mod 16)"
    by (simp only: of_nat_add of_nat_mult of_nat_numeral)
  also have "\<dots> = uint b"
    by (simp only: mult_div_mod_eq uint_nat)
  finally have "16 * int (unat b div 16) + int (unat b mod 16) = uint b" .
  then have w: "(word_of_int (16 * int (unat b div 16) + int (unat b mod 16)) :: byte) = b"
    by (simp only: word_of_int_uint)
  have step: "hex_of_bytes (b # bs) = hex_digit (unat b div 16) # hex_digit (unat b mod 16) # hex_of_bytes bs"
    by (simp add: hex_of_bytes_def)
  show ?case
    unfolding step
    using lt Cons.IH w by (simp add: nibble_def digit_val_hex_digit hex_digit_plain)
qed

end
