(* ===== verification/EvmStack.thy ===== *)
theory EvmStack
  imports PyBytes
begin

text \<open>
  \<open>src/xai/core/vm/evm/stack.py\<close>: the operand stack of the virtual machine and the
  conversions between unsigned and two's complement 256-bit values.

  The source keeps the items in a Python list with the top at the end; the model keeps the
  same items with the top first, so the source's \<open>_stack[-k]\<close> is \<open>items ! (k - 1)\<close>.
\<close>

unbundle bit_operations_syntax

section \<open>Constants and state\<close>

definition MAX_STACK_DEPTH :: nat where "MAX_STACK_DEPTH = 1024"
definition UINT256_MAX :: int where "UINT256_MAX = 2 ^ 256 - 1"
definition INT256_MAX :: int where "INT256_MAX = 2 ^ 255 - 1"

record evm_stack =
  items :: "int list"
  max_depth :: nat

definition new_stack :: evm_stack where
  "new_stack = \<lparr>items = [], max_depth = MAX_STACK_DEPTH\<rparr>"

section \<open>Operations\<close>

definition stack_push :: "int \<Rightarrow> (evm_stack, unit) meth" where
  "stack_push value s =
     (if length (items s) \<ge> max_depth s then raise (VMExecutionError StackOverflow) s
      else (Inr (), s\<lparr>items := (value AND UINT256_MAX) # items s\<rparr>))"

definition stack_pop :: "(evm_stack, int) meth" where
  "stack_pop s =
     (case items s of
        [] \<Rightarrow> raise (VMExecutionError StackUnderflow) s
      | v # vs \<Rightarrow> (Inr v, s\<lparr>items := vs\<rparr>))"

definition stack_peek :: "nat \<Rightarrow> (evm_stack, int) meth" where
  "stack_peek depth s =
     (if depth \<ge> length (items s) then raise (VMExecutionError StackRange) s
      else (Inr (items s ! depth), s))"

definition stack_dup :: "int \<Rightarrow> (evm_stack, unit) meth" where
  "stack_dup position s =
     (if position < 1 \<or> position > int (length (items s)) then raise (VMExecutionError StackRange) s
      else if length (items s) \<ge> max_depth s then raise (VMExecutionError StackOverflow) s
      else (Inr (), s\<lparr>items := items s ! nat (position - 1) # items s\<rparr>))"

definition stack_swap :: "int \<Rightarrow> (evm_stack, unit) meth" where
  "stack_swap position s =
     (if position < 1 \<or> position > int (length (items s)) - 1
      then raise (VMExecutionError StackRange) s
      else (Inr (), s\<lparr>items :=
             (items s)[0 := items s ! nat position, nat position := items s ! 0]\<rparr>))"

text \<open>\<open>pop_n\<close> checks the whole count first, then pops one item at a time.\<close>

definition stack_pop_n :: "nat \<Rightarrow> (evm_stack, int list) meth" where
  "stack_pop_n n s =
     (if n > length (items s) then raise (VMExecutionError StackUnderflow) s
      else (Inr (take n (items s)), s\<lparr>items := drop n (items s)\<rparr>))"

definition stack_push_n :: "int list \<Rightarrow> (evm_stack, unit) meth" where
  "stack_push_n values s =
     (if length (items s) + length values > max_depth s then raise (VMExecutionError StackOverflow) s
      else seq (map stack_push values) s)"

definition stack_depth :: "evm_stack \<Rightarrow> nat" where
  "stack_depth s = length (items s)"

definition stack_is_empty :: "evm_stack \<Rightarrow> bool" where
  "stack_is_empty s = (length (items s) = 0)"

definition stack_clear :: "(evm_stack, unit) meth" where
  "stack_clear s = (Inr (), s\<lparr>items := []\<rparr>)"

definition to_signed :: "int \<Rightarrow> int" where
  "to_signed value = (if value > INT256_MAX then value - (UINT256_MAX + 1) else value)"

definition to_unsigned :: "int \<Rightarrow> int" where
  "to_unsigned value = (if value < 0 then value + (UINT256_MAX + 1) else value AND UINT256_MAX)"

definition sign_extend :: "int \<Rightarrow> int \<Rightarrow> int" where
  "sign_extend value byte_size =
     (if byte_size \<ge> 32 then value AND UINT256_MAX
      else let bit_size = nat ((byte_size + 1) * 8);
               sign_bit = push_bit (bit_size - 1) 1;
               mask = push_bit bit_size 1 - 1;
               v = value AND mask
           in if v AND sign_bit \<noteq> 0 then v OR (UINT256_MAX XOR mask) else v)"

lemmas stack_defs = stack_push_def stack_pop_def stack_peek_def stack_dup_def stack_swap_def
  stack_pop_n_def stack_push_n_def stack_clear_def

section \<open>Machine words\<close>

type_synonym word256 = "256 word"

definition is_word :: "int \<Rightarrow> bool" where
  "is_word v \<longleftrightarrow> 0 \<le> v \<and> v < 2 ^ 256"

lemma UINT256_MAX_mask: "UINT256_MAX = mask 256"
  by (simp add: UINT256_MAX_def mask_eq_exp_minus_1)

lemma and_UINT256_MAX: "v AND UINT256_MAX = v mod 2 ^ 256"
  by (simp only: UINT256_MAX_mask take_bit_eq_mask [symmetric] take_bit_eq_mod)

lemma is_word_and_max [simp]: "is_word (v AND UINT256_MAX)"
  by (simp add: is_word_def and_UINT256_MAX)

lemma and_max_id: "is_word v \<Longrightarrow> v AND UINT256_MAX = v"
  by (simp add: is_word_def and_UINT256_MAX)

lemma is_word_uint [simp]: "is_word (uint (w :: word256))"
  using uint_bounded [of w] by (simp add: is_word_def)

lemma uint_of_word: "is_word v \<Longrightarrow> uint (word_of_int v :: word256) = v"
  by (simp add: is_word_def uint_word_of_int)

lemma to_signed_sint: "to_signed (uint (w :: word256)) = sint w"
proof -
  have top: "bit (uint w) 255 \<longleftrightarrow> \<not> uint w < 2 ^ 255"
  proof (cases "uint w < 2 ^ 255")
    case True
    then show ?thesis by (simp add: bit_iff_odd)
  next
    case False
    have "uint w div 2 ^ 255 < 2"
      using uint_bounded [of w] by (simp add: div_less_iff_less_mult)
    moreover have "1 \<le> uint w div 2 ^ 255"
      using False pos_imp_zdiv_pos_iff [of "2 ^ 255" "uint w"] by simp
    ultimately have "uint w div 2 ^ 255 = 1" by linarith
    with False show ?thesis by (simp add: bit_iff_odd)
  qed
  have "sint w = signed_take_bit 255 (uint w)"
    by (simp add: sint_uint)
  also have "\<dots> = take_bit 256 (uint w) - 2 ^ 256 * of_bool (bit (uint w) 255)"
    by (simp add: signed_take_bit_eq_take_bit_minus)
  also have "take_bit 256 (uint w) = uint w"
    using uint_bounded [of w] by (simp add: take_bit_eq_mod)
  finally show ?thesis
    using top by (simp add: to_signed_def INT256_MAX_def UINT256_MAX_def)
qed

lemma to_unsigned_mod:
  assumes "- (2 ^ 256) \<le> v"
  shows "to_unsigned v = v mod 2 ^ 256"
proof (cases "v < 0")
  case True
  with assms have "(v + 2 ^ 256) mod 2 ^ 256 = v + 2 ^ 256"
    by (intro mod_pos_pos_trivial) simp_all
  then have "v mod 2 ^ 256 = v + 2 ^ 256"
    by (simp only: mod_add_self2)
  with True show ?thesis by (simp add: to_unsigned_def UINT256_MAX_def)
next
  case False
  then show ?thesis by (simp add: to_unsigned_def and_UINT256_MAX)
qed

lemma sign_extend_signed_take_bit:
  assumes "0 \<le> b" and "b < 32"
  shows "sign_extend v b = take_bit 256 (signed_take_bit (nat (8 * b + 7)) v)"
proof -
  define n where "n = nat (8 * b + 7)"
  have n: "nat ((b + 1) * 8) = Suc n" "n < 256"
    using assms by (simp_all add: n_def algebra_simps nat_add_distrib)
  have mask: "push_bit (Suc n) 1 - 1 = (mask (Suc n) :: int)"
    by (simp add: mask_eq_exp_minus_1 push_bit_eq_mult)
  have low: "v AND mask (Suc n) = take_bit (Suc n) v"
    by (simp add: take_bit_eq_mask)
  have sign: "take_bit (Suc n) v AND push_bit n 1 \<noteq> 0 \<longleftrightarrow> bit v n"
    unfolding bit_iff_and_push_bit_not_eq_0 [of "take_bit (Suc n) v" n, symmetric]
    by (simp add: bit_take_bit_iff)
  have "sign_extend v b =
    (if bit v n then take_bit (Suc n) v OR (mask 256 XOR mask (Suc n)) else take_bit (Suc n) v)"
    using assms(2)
    by (simp only: sign_extend_def Let_def n mask low sign UINT256_MAX_mask diff_Suc_1
        not_le [symmetric] if_False)
  also have "\<dots> = take_bit 256 (signed_take_bit n v)"
  proof (rule bit_eqI)
    fix m
    show "bit (if bit v n then take_bit (Suc n) v OR (mask 256 XOR mask (Suc n)) else take_bit (Suc n) v) m
      = bit (take_bit 256 (signed_take_bit n v)) m"
      using n(2) by (auto simp: bit_or_iff bit_xor_iff bit_mask_iff bit_take_bit_iff
          bit_signed_take_bit_iff min_def less_Suc_eq)
  qed
  finally show ?thesis by (simp add: n_def)
qed

section \<open>Well-formed stacks\<close>

definition wf_stack :: "evm_stack \<Rightarrow> bool" where
  "wf_stack s \<longleftrightarrow> (\<forall>v \<in> set (items s). is_word v) \<and> length (items s) \<le> max_depth s"

lemma wf_new_stack [simp]: "wf_stack new_stack"
  by (simp add: wf_stack_def new_stack_def)

lemma wf_stack_push: "wf_stack s \<Longrightarrow> wf_stack (snd (stack_push v s))"
  by (simp add: stack_push_def raise_def wf_stack_def)

lemma wf_stack_pop: "wf_stack s \<Longrightarrow> wf_stack (snd (stack_pop s))"
  by (auto simp: stack_pop_def raise_def wf_stack_def split: list.splits)

lemma wf_stack_dup: "wf_stack s \<Longrightarrow> wf_stack (snd (stack_dup p s))"
  by (auto simp: stack_dup_def raise_def wf_stack_def)

lemma set_swap_subset:
  assumes "i < length xs" and "j < length xs"
  shows "set (xs[i := xs ! j, j := xs ! i]) \<subseteq> set xs"
  using assms by (meson nth_mem set_update_subsetI subset_refl)

lemma wf_stack_swap:
  assumes "wf_stack s"
  shows "wf_stack (snd (stack_swap p s))"
proof (cases "p < 1 \<or> p > int (length (items s)) - 1")
  case True
  with assms show ?thesis by (simp add: stack_swap_def raise_def)
next
  case False
  then have "set ((items s)[0 := items s ! nat p, nat p := items s ! 0]) \<subseteq> set (items s)"
    by (intro set_swap_subset) auto
  with False assms show ?thesis
    unfolding stack_swap_def wf_stack_def by (simp, blast)
qed

lemma wf_stack_pop_n: "wf_stack s \<Longrightarrow> wf_stack (snd (stack_pop_n n s))"
  by (auto simp: stack_pop_n_def raise_def wf_stack_def dest: in_set_dropD)

lemma wf_stack_push_seq: "wf_stack s \<Longrightarrow> wf_stack (snd (seq (map stack_push vs) s))"
proof (induction vs arbitrary: s)
  case Nil
  then show ?case by (simp add: ret_def)
next
  case (Cons v vs)
  from wf_stack_push [OF Cons.prems, of v] Cons.IH show ?case
    by (auto simp: and_then_def split: prod.splits sum.splits)
qed

lemma wf_stack_push_n: "wf_stack s \<Longrightarrow> wf_stack (snd (stack_push_n vs s))"
  by (simp add: stack_push_n_def raise_def wf_stack_push_seq)

lemma wf_stack_pop_value: "wf_stack s \<Longrightarrow> stack_pop s = (Inr v, t) \<Longrightarrow> is_word v"
  by (auto simp: stack_pop_def raise_def wf_stack_def split: list.splits)

lemma wf_stack_peek_value: "wf_stack s \<Longrightarrow> stack_peek d s = (Inr v, t) \<Longrightarrow> is_word v \<and> t = s"
  by (auto simp: stack_peek_def raise_def wf_stack_def split: if_splits)

lemma stack_max_depth_frame:
  "max_depth (snd (stack_push v s)) = max_depth s"
  "max_depth (snd (stack_pop s)) = max_depth s"
  "max_depth (snd (stack_dup p s)) = max_depth s"
  "max_depth (snd (stack_swap p s)) = max_depth s"
  "max_depth (snd (stack_pop_n n s)) = max_depth s"
  by (simp_all add: stack_defs raise_def split: list.splits)

lemma push_all:
  "length (items s) + length vs \<le> max_depth s \<Longrightarrow>
   seq (map stack_push vs) s = (Inr (), s\<lparr>items := rev (map (\<lambda>v. v AND UINT256_MAX) vs) @ items s\<rparr>)"
  by (induction vs arbitrary: s) (simp_all add: ret_def and_then_def stack_push_def)

text \<open>The stacks the operations can build, for any arguments.\<close>

inductive stack_reachable :: "evm_stack \<Rightarrow> bool" where
  new: "stack_reachable new_stack"
| push: "stack_reachable s \<Longrightarrow> stack_reachable (snd (stack_push v s))"
| pop: "stack_reachable s \<Longrightarrow> stack_reachable (snd (stack_pop s))"
| dup: "stack_reachable s \<Longrightarrow> stack_reachable (snd (stack_dup p s))"
| swap: "stack_reachable s \<Longrightarrow> stack_reachable (snd (stack_swap p s))"
| pop_n: "stack_reachable s \<Longrightarrow> stack_reachable (snd (stack_pop_n n s))"
| push_n: "stack_reachable s \<Longrightarrow> stack_reachable (snd (stack_push_n vs s))"
| clear: "stack_reachable s \<Longrightarrow> stack_reachable (snd (stack_clear s))"

lemma stack_push_seq_depth: "max_depth (snd (seq (map stack_push vs) s)) = max_depth s"
  by (induction vs arbitrary: s)
    (auto simp: ret_def and_then_def stack_push_def raise_def split: prod.splits sum.splits)

lemma stack_reachable_inv: "stack_reachable s \<Longrightarrow> wf_stack s \<and> max_depth s = MAX_STACK_DEPTH"
proof (induction rule: stack_reachable.induct)
  case new
  show ?case by (simp add: new_stack_def wf_stack_def)
next
  case (push_n s vs)
  then show ?case
    by (simp add: wf_stack_push_n) (simp add: stack_push_n_def raise_def stack_push_seq_depth)
next
  case (clear s)
  then show ?case by (simp add: stack_clear_def wf_stack_def)
qed (simp_all add: wf_stack_push wf_stack_pop wf_stack_dup wf_stack_swap wf_stack_pop_n stack_max_depth_frame)

section \<open>Properties\<close>

lemma signed_take_bit_word:
  "uint (signed_take_bit n (w :: word256)) = take_bit 256 (signed_take_bit n (uint w))"
proof -
  have "signed_take_bit n w = word_of_int (signed_take_bit n (uint w))"
    by (rule bit_word_eqI)
      (auto simp: bit_signed_take_bit_iff bit_word_of_int_iff bit_uint_iff possible_bit_word min_def)
  then show ?thesis by (simp add: uint_word_of_int take_bit_eq_mod)
qed

lemma sign_extend_word:
  fixes w :: word256
  shows "sign_extend (uint w) (int b) = uint (signed_take_bit (min 255 (8 * b + 7)) w)"
proof (cases "b < 32")
  case True
  then have "nat (8 * int b + 7) = min 255 (8 * b + 7)" by auto
  with True show ?thesis
    by (simp only: signed_take_bit_word) (simp add: sign_extend_signed_take_bit)
next
  case False
  have "take_bit 256 (signed_take_bit 255 (uint w)) = take_bit 256 (uint w)"
  proof (rule bit_eqI)
    fix n
    show "bit (take_bit 256 (signed_take_bit 255 (uint w))) n = bit (take_bit 256 (uint w)) n"
    proof (cases "n = 255")
      case False
      then show ?thesis by (auto simp: bit_take_bit_iff bit_signed_take_bit_iff min_def)
    qed (simp add: bit_take_bit_iff bit_signed_take_bit_iff)
  qed
  with False show ?thesis
    by (simp only: signed_take_bit_word)
      (simp add: sign_extend_def and_UINT256_MAX take_bit_eq_mod)
qed

text \<open>
  every stack the operations of \<open>EVMStack\<close> can build from a new one, by any sequence of
  pushes, pops, dups, swaps, \<open>pop_n\<close>, \<open>push_n\<close> and clears with any arguments (failing
  calls included), holds only values of 256 bits and at most 1024 of them.
\<close>

lemma stack_invariant:
  assumes "stack_reachable s"
  shows "(\<forall>v \<in> set (items s). 0 \<le> v \<and> v < 2 ^ 256) \<and> length (items s) \<le> 1024"
  using stack_reachable_inv [OF assms] by (auto simp: wf_stack_def is_word_def MAX_STACK_DEPTH_def)

text \<open>
  the conversions of the stack module are those of 256-bit machine words:
  \<open>to_signed\<close> reads the two's complement value, \<open>to_unsigned\<close> is its inverse, and
  \<open>sign_extend(value, b)\<close> copies bit \<open>8 * b + 7\<close> upwards (all bits are kept from byte 31 on).
\<close>

lemma signed_conversions:
  fixes w :: word256
  shows "to_signed (uint w) = sint w \<and> to_unsigned (sint w) = uint w
    \<and> sign_extend (uint w) (int b) = uint (signed_take_bit (min 255 (8 * b + 7)) w)"
proof (intro conjI)
  show "to_signed (uint w) = sint w" by (rule to_signed_sint)
  have "- (2 ^ 256) \<le> sint w"
    using sint_greater_eq [of w] by simp
  then show "to_unsigned (sint w) = uint w"
    by (simp add: to_unsigned_mod uint_sint take_bit_eq_mod)
  show "sign_extend (uint w) (int b) = uint (signed_take_bit (min 255 (8 * b + 7)) w)"
    by (rule sign_extend_word)
qed

end
