(* ===== verification/EvmMemory.thy ===== *)
theory EvmMemory
  imports PyBytes
begin

text \<open>
  \<open>src/xai/core/vm/evm/memory.py\<close>: the byte-addressed memory of a call frame, its growth
  and the gas it costs.

  Offsets and sizes are Python integers; every caller passes stack words, so they are not
  negative, and the model reads them through \<open>nat\<close> where it indexes.
\<close>

unbundle bit_operations_syntax

section \<open>State and operations\<close>

definition WORD_SIZE :: int where "WORD_SIZE = 32"
definition MAX_MEMORY_SIZE :: int where "MAX_MEMORY_SIZE = 32 * 1024 * 1024"

record evm_memory =
  mdata :: "byte list"
  max_size :: int
  highest_accessed :: int

definition new_memory :: evm_memory where
  "new_memory = \<lparr>mdata = [], max_size = MAX_MEMORY_SIZE, highest_accessed = 0\<rparr>"

definition ensure_capacity :: "int \<Rightarrow> (evm_memory, unit) meth" where
  "ensure_capacity required m =
     (if required > max_size m then raise (VMExecutionError MemoryLimit) m
      else (Inr (), if required > highest_accessed m then m\<lparr>highest_accessed := required\<rparr> else m))"

text \<open>\<open>self._data.extend(bytes(end - len(self._data)))\<close> when \<open>end\<close> is past the data.\<close>

definition extend_data :: "int \<Rightarrow> evm_memory \<Rightarrow> evm_memory" where
  "extend_data end m =
     (if end > int (length (mdata m))
      then m\<lparr>mdata := mdata m @ zeros (nat (end - int (length (mdata m))))\<rparr> else m)"

definition mem_load :: "int \<Rightarrow> (evm_memory, int) meth" where
  "mem_load offset =
     and_then (ensure_capacity (offset + WORD_SIZE)) (\<lambda>_. reads (\<lambda>m.
       let word_bytes = slice (nat offset) (nat (offset + WORD_SIZE)) (mdata m) in
       from_bytes (if int (length word_bytes) < WORD_SIZE
                   then word_bytes @ zeros (nat (WORD_SIZE - int (length word_bytes)))
                   else word_bytes)))"

definition mem_load_byte :: "int \<Rightarrow> (evm_memory, int) meth" where
  "mem_load_byte offset =
     and_then (ensure_capacity (offset + 1)) (\<lambda>_. reads (\<lambda>m.
       if offset < int (length (mdata m)) then uint (mdata m ! nat offset) else 0))"

definition mem_store :: "int \<Rightarrow> int \<Rightarrow> (evm_memory, unit) meth" where
  "mem_store offset value =
     and_then (ensure_capacity (offset + WORD_SIZE)) (\<lambda>_.
     and_then (lift_result (to_bytes (nat WORD_SIZE) (value AND (push_bit 256 1 - 1)))) (\<lambda>value_bytes.
     modify (\<lambda>m. let m' = extend_data (offset + WORD_SIZE) m in
       m'\<lparr>mdata := slice_assign (nat offset) (nat (offset + WORD_SIZE)) value_bytes (mdata m')\<rparr>)))"

definition mem_store_byte :: "int \<Rightarrow> int \<Rightarrow> (evm_memory, unit) meth" where
  "mem_store_byte offset value =
     and_then (ensure_capacity (offset + 1)) (\<lambda>_.
     modify (\<lambda>m. let m' = extend_data (offset + 1) m in
       m'\<lparr>mdata := (mdata m')[nat offset := word_of_int (value AND 0xFF)]\<rparr>))"

definition mem_load_range :: "int \<Rightarrow> int \<Rightarrow> (evm_memory, byte list) meth" where
  "mem_load_range offset sz =
     (if sz = 0 then ret []
      else and_then (ensure_capacity (offset + sz)) (\<lambda>_.
           and_then (modify (extend_data (offset + sz))) (\<lambda>_.
           reads (\<lambda>m. slice (nat offset) (nat (offset + sz)) (mdata m)))))"

definition mem_store_range :: "int \<Rightarrow> byte list \<Rightarrow> (evm_memory, unit) meth" where
  "mem_store_range offset data =
     (if data = [] then ret ()
      else let end = offset + int (length data) in
           and_then (ensure_capacity end) (\<lambda>_.
           modify (\<lambda>m. let m' = extend_data end m in
             m'\<lparr>mdata := slice_assign (nat offset) (nat end) data (mdata m')\<rparr>)))"

definition mem_copy :: "int \<Rightarrow> int \<Rightarrow> int \<Rightarrow> (evm_memory, unit) meth" where
  "mem_copy dest_offset src_offset sz =
     (if sz = 0 then ret ()
      else and_then (ensure_capacity (max (dest_offset + sz) (src_offset + sz))) (\<lambda>_.
           and_then (mem_load_range src_offset sz) (\<lambda>src_data.
           mem_store_range dest_offset src_data)))"

definition word_count :: "evm_memory \<Rightarrow> int" where
  "word_count m = (highest_accessed m + WORD_SIZE - 1) div WORD_SIZE"

definition mem_size :: "evm_memory \<Rightarrow> int" where
  "mem_size m = word_count m * WORD_SIZE"

definition active_size :: "evm_memory \<Rightarrow> int" where
  "active_size m = int (length (mdata m))"

definition memory_cost :: "int \<Rightarrow> int" where
  "memory_cost words = words * words div 512 + 3 * words"

definition expansion_cost :: "int \<Rightarrow> int \<Rightarrow> evm_memory \<Rightarrow> int" where
  "expansion_cost offset sz m =
     (if sz = 0 then 0
      else let new_size = offset + sz in
        if new_size \<le> highest_accessed m then 0
        else let current_words = word_count m;
                 new_words = (new_size + WORD_SIZE - 1) div WORD_SIZE
             in memory_cost new_words - memory_cost current_words)"

definition mem_clear :: "(evm_memory, unit) meth" where
  "mem_clear m = (Inr (), m\<lparr>mdata := [], highest_accessed := 0\<rparr>)"

text \<open>\<open>dump(start, length)\<close>; \<open>length\<close> may be None.\<close>

definition mem_dump :: "int \<Rightarrow> int option \<Rightarrow> evm_memory \<Rightarrow> string" where
  "mem_dump start len m =
     (let n = (case len of None \<Rightarrow> active_size m - start | Some k \<Rightarrow> k) in
      if n \<le> 0 then []
      else hex_of_bytes (slice (nat start) (nat (min (start + n) (active_size m))) (mdata m)))"

section \<open>Well-formed memories\<close>

definition wf_memory :: "evm_memory \<Rightarrow> bool" where
  "wf_memory m \<longleftrightarrow> int (length (mdata m)) \<le> highest_accessed m \<and> highest_accessed m \<le> max_size m"

lemma wf_new_memory [simp]: "wf_memory new_memory"
  by (simp add: wf_memory_def new_memory_def MAX_MEMORY_SIZE_def)

lemma wf_memory_nonneg: "wf_memory m \<Longrightarrow> 0 \<le> highest_accessed m"
  by (simp add: wf_memory_def)

lemma highest_extend_data [simp]: "highest_accessed (extend_data e m) = highest_accessed m"
  by (simp add: extend_data_def)

lemma max_size_extend_data [simp]: "max_size (extend_data e m) = max_size m"
  by (simp add: extend_data_def)

lemma length_extend_data: "length (mdata (extend_data e m)) = max (length (mdata m)) (nat e)"
  by (auto simp: extend_data_def)

text \<open>What a byte reads as: past the data the memory is zero.\<close>

definition mem_view :: "evm_memory \<Rightarrow> nat \<Rightarrow> byte" where
  "mem_view m k = (if k < length (mdata m) then mdata m ! k else 0)"

lemma mem_view_extend_data [simp]: "mem_view (extend_data e m) = mem_view m"
  by (rule ext) (auto simp: mem_view_def extend_data_def nth_append zeros_def)

lemma mem_view_highest [simp]: "mem_view (m\<lparr>highest_accessed := h\<rparr>) = mem_view m"
  by (rule ext) (simp add: mem_view_def)

lemma ensure_capacity_cases:
  obtains (limit) "required > max_size m" "ensure_capacity required m = (Inl (VMExecutionError MemoryLimit), m)"
  | (ok) "required \<le> max_size m"
      "ensure_capacity required m = (Inr (), m\<lparr>highest_accessed := max required (highest_accessed m)\<rparr>)"
  by (cases "required > max_size m") (auto simp: ensure_capacity_def raise_def max_def)

section \<open>The specification: an unbounded array of bytes, all zero at first\<close>

definition overwrite :: "nat \<Rightarrow> byte list \<Rightarrow> (nat \<Rightarrow> byte) \<Rightarrow> nat \<Rightarrow> byte" where
  "overwrite i bs v k = (if i \<le> k \<and> k < i + length bs then bs ! (k - i) else v k)"

definition window :: "nat \<Rightarrow> nat \<Rightarrow> (nat \<Rightarrow> byte) \<Rightarrow> byte list" where
  "window i n v = map v [i..<i + n]"

lemma length_window [simp]: "length (window i n v) = n"
  by (simp add: window_def)

lemma window_overwrite: "window i (length bs) (overwrite i bs v) = bs"
  by (rule nth_equalityI) (simp_all add: window_def overwrite_def)

lemma slice_eq_window:
  assumes "j \<le> length (mdata m)"
  shows "slice i j (mdata m) = window i (j - i) (mem_view m)"
  using assms by (intro nth_equalityI) (auto simp: window_def nth_slice mem_view_def)

lemma padded_slice_eq_window:
  "slice i (i + n) (mdata m) @ zeros (n - length (slice i (i + n) (mdata m))) = window i n (mem_view m)"
  (is "?l = _")
proof (rule nth_equalityI)
  show "length ?l = length (window i n (mem_view m))" by simp
  fix k assume "k < length ?l"
  then have "k < n" by simp
  then show "?l ! k = window i n (mem_view m) ! k"
    by (auto simp: window_def nth_append nth_slice mem_view_def zeros_def)
qed

lemma view_slice_assign:
  assumes "i + length bs \<le> length (mdata m)"
  shows "mem_view (m\<lparr>mdata := slice_assign i (i + length bs) bs (mdata m)\<rparr>) = overwrite i bs (mem_view m)"
proof
  fix k
  have "length (slice_assign i (i + length bs) bs (mdata m)) = length (mdata m)"
    using assms by (intro length_slice_assign) simp_all
  then show "mem_view (m\<lparr>mdata := slice_assign i (i + length bs) bs (mdata m)\<rparr>) k = overwrite i bs (mem_view m) k"
    using assms by (auto simp: mem_view_def overwrite_def nth_slice_assign)
qed

text \<open>The growth of the highest accessed byte, as every access does it.\<close>

definition touch :: "int \<Rightarrow> evm_memory \<Rightarrow> evm_memory" where
  "touch e m = m\<lparr>highest_accessed := max e (highest_accessed m)\<rparr>"

lemma ensure_capacity_ok: "e \<le> max_size m \<Longrightarrow> ensure_capacity e m = (Inr (), touch e m)"
  by (simp add: ensure_capacity_def touch_def max_def)

lemma touch_simps [simp]:
  "mdata (touch e m) = mdata m" "max_size (touch e m) = max_size m"
  "highest_accessed (touch e m) = max e (highest_accessed m)" "mem_view (touch e m) = mem_view m"
  by (simp_all add: touch_def)

lemma nat_plus_int: "0 \<le> off \<Longrightarrow> nat (off + int n) = nat off + n"
  by (simp add: nat_add_distrib)

lemma write_view:
  fixes bs :: "byte list" and m :: evm_memory
  assumes "0 \<le> off"
  defines "m' \<equiv> extend_data (off + int (length bs)) m"
  shows "mem_view (m'\<lparr>mdata := slice_assign (nat off) (nat (off + int (length bs))) bs (mdata m')\<rparr>)
    = overwrite (nat off) bs (mem_view m)"
proof -
  have "nat off + length bs \<le> length (mdata m')"
    using assms(1) by (simp add: m'_def length_extend_data nat_plus_int)
  from view_slice_assign [OF this] assms(1) show ?thesis
    by (simp add: nat_plus_int m'_def)
qed

lemma mem_store_range_run:
  assumes "0 \<le> off" and "off + int (length bs) \<le> max_size m" and "bs \<noteq> []"
  obtains m' where "mem_store_range off bs m = (Inr (), m')"
    and "mem_view m' = overwrite (nat off) bs (mem_view m)"
    and "max_size m' = max_size m"
    and "highest_accessed m' = max (off + int (length bs)) (highest_accessed m)"
    and "length (mdata m') = max (length (mdata m)) (nat off + length bs)"
proof -
  let ?e = "extend_data (off + int (length bs)) (touch (off + int (length bs)) m)"
  let ?m' = "?e\<lparr>mdata := slice_assign (nat off) (nat (off + int (length bs))) bs (mdata ?e)\<rparr>"
  have "mem_store_range off bs m = (Inr (), ?m')"
    using assms by (simp add: mem_store_range_def meth_simps ensure_capacity_ok Let_def)
  moreover have "mem_view ?m' = overwrite (nat off) bs (mem_view m)"
    using write_view [OF assms(1), of bs "touch (off + int (length bs)) m"] by simp
  moreover have "length (mdata ?e) = max (length (mdata m)) (nat off + length bs)"
    using assms(1) by (simp add: length_extend_data nat_plus_int)
  then have "length (mdata ?m') = max (length (mdata m)) (nat off + length bs)"
    using assms(1) by (simp add: nat_plus_int length_slice_assign)
  ultimately show thesis by (intro that [of ?m']) simp_all
qed

lemma mem_load_range_run:
  assumes "0 \<le> off" and "0 < n" and "off + n \<le> max_size m"
  obtains m' where "mem_load_range off n m = (Inr (window (nat off) (nat n) (mem_view m)), m')"
    and "mem_view m' = mem_view m" and "max_size m' = max_size m"
    and "highest_accessed m' = max (off + n) (highest_accessed m)"
    and "length (mdata m') = max (length (mdata m)) (nat (off + n))"
proof -
  let ?e = "extend_data (off + n) (touch (off + n) m)"
  have "mem_load_range off n m = (Inr (slice (nat off) (nat (off + n)) (mdata ?e)), ?e)"
    using assms by (simp add: mem_load_range_def meth_simps ensure_capacity_ok)
  moreover have "slice (nat off) (nat (off + n)) (mdata ?e) = window (nat off) (nat n) (mem_view m)"
    using assms by (subst slice_eq_window) (simp_all add: length_extend_data nat_add_distrib)
  ultimately show thesis
    by (intro that [of ?e]) (simp_all add: length_extend_data)
qed

lemma mem_load_run:
  assumes "0 \<le> off" and "off + WORD_SIZE \<le> max_size m"
  shows "mem_load off m = (Inr (from_bytes (window (nat off) 32 (mem_view m))), touch (off + WORD_SIZE) m)"
proof -
  let ?w = "slice (nat off) (nat (off + 32)) (mdata m)"
  have e: "nat (off + 32) = nat off + 32"
    using assms(1) by (simp add: nat_add_distrib)
  have "(if int (length ?w) < 32 then ?w @ zeros (nat (32 - int (length ?w))) else ?w)
     = ?w @ zeros (32 - length ?w)"
    using e by (auto simp: zeros_def nat_diff_distrib)
  also have "\<dots> = window (nat off) 32 (mem_view m)"
    unfolding e by (rule padded_slice_eq_window)
  finally show ?thesis
    using assms(2)
    by (simp only: mem_load_def and_then_def reads_def ensure_capacity_ok WORD_SIZE_def Let_def
        touch_simps prod.case sum.case)
qed

lemma mem_store_run:
  assumes "0 \<le> off" and "off + WORD_SIZE \<le> max_size m"
  obtains m' where "mem_store off v m = (Inr (), m')"
    and "mem_view m' = overwrite (nat off) (be_bytes 32 (v mod 2 ^ 256)) (mem_view m)"
    and "max_size m' = max_size m"
    and "highest_accessed m' = max (off + WORD_SIZE) (highest_accessed m)"
    and "length (mdata m') = max (length (mdata m)) (nat off + 32)"
proof -
  let ?b = "be_bytes 32 (v mod 2 ^ 256)"
  have v: "v AND (push_bit 256 1 - 1) = v mod 2 ^ 256"
    by (simp only: push_bit_of_1 mask_eq_exp_minus_1 [symmetric] take_bit_eq_mask [symmetric] take_bit_eq_mod)
  have tb: "to_bytes 32 (v mod 2 ^ 256) = Inr ?b"
    by (rule to_bytes_in_range) simp_all
  have len: "int (length ?b) = 32" by simp
  have ne: "?b \<noteq> []" by simp
  have "nat (32 :: int) = 32" by simp
  then have "mem_store off v m = mem_store_range off ?b m"
    using assms(2) ne
    by (simp only: mem_store_def mem_store_range_def and_then_def lift_result_def modify_def v tb
        ensure_capacity_ok WORD_SIZE_def len Let_def if_False prod.case sum.case)
  with assms ne that show thesis
    by (elim mem_store_range_run [of off ?b m]) (auto simp: WORD_SIZE_def)
qed

lemma mem_store_byte_run:
  assumes "0 \<le> off" and "off + 1 \<le> max_size m"
  obtains m' where "mem_store_byte off v m = (Inr (), m')"
    and "mem_view m' = overwrite (nat off) [word_of_int v] (mem_view m)"
    and "max_size m' = max_size m"
    and "highest_accessed m' = max (off + 1) (highest_accessed m)"
    and "length (mdata m') = max (length (mdata m)) (nat off + 1)"
proof -
  have "v AND 0xFF = take_bit 8 v"
    by (simp add: take_bit_eq_mask mask_eq_exp_minus_1)
  then have b: "(word_of_int (v AND 0xFF) :: byte) = word_of_int v"
    by (simp add: word_of_int_eq_iff)
  let ?e = "extend_data (off + 1) (touch (off + 1) m)"
  have len: "length (mdata ?e) = max (length (mdata m)) (nat off + 1)"
    using assms(1) by (simp add: length_extend_data nat_add_distrib)
  have "(mdata ?e)[nat off := word_of_int v] = slice_assign (nat off) (nat off + 1) [word_of_int v] (mdata ?e)"
    using len by (simp add: slice_assign_def upd_conv_take_nth_drop max_def)
  then have "mem_store_byte off v m = mem_store_range off [word_of_int v] m"
    using assms
    by (simp add: mem_store_byte_def mem_store_range_def meth_simps ensure_capacity_ok Let_def b
        nat_add_distrib)
  with assms that show thesis
    by (elim mem_store_range_run [of off "[word_of_int v]" m]) auto
qed

lemma mem_copy_run:
  assumes "0 \<le> dest" and "0 \<le> src" and "0 < n" and "dest + n \<le> max_size m" and "src + n \<le> max_size m"
  obtains m' where "mem_copy dest src n m = (Inr (), m')"
    and "mem_view m' = overwrite (nat dest) (window (nat src) (nat n) (mem_view m)) (mem_view m)"
    and "max_size m' = max_size m"
    and "highest_accessed m' = max (max (dest + n) (src + n)) (highest_accessed m)"
    and "length (mdata m') = max (max (length (mdata m)) (nat (src + n))) (nat dest + nat n)"
proof -
  let ?t = "touch (max (dest + n) (src + n)) m"
  obtain m1 where m1: "mem_load_range src n ?t = (Inr (window (nat src) (nat n) (mem_view m)), m1)"
      "mem_view m1 = mem_view m" "max_size m1 = max_size m"
      "highest_accessed m1 = max (max (dest + n) (src + n)) (highest_accessed m)"
      "length (mdata m1) = max (length (mdata m)) (nat (src + n))"
    using mem_load_range_run [of src n ?t] assms by auto
  let ?w = "window (nat src) (nat n) (mem_view m)"
  have w: "int (length ?w) = n" "?w \<noteq> []" "length ?w = nat n" using assms(3) by (simp_all add: window_def)
  have fits: "dest + int (length ?w) \<le> max_size m1" using assms(4) w(1) m1(3) by simp
  obtain m2 where m2: "mem_store_range dest ?w m1 = (Inr (), m2)"
      "mem_view m2 = overwrite (nat dest) ?w (mem_view m1)"
      "max_size m2 = max_size m1"
      "highest_accessed m2 = max (dest + int (length ?w)) (highest_accessed m1)"
      "length (mdata m2) = max (length (mdata m1)) (nat dest + length ?w)"
    by (rule mem_store_range_run [OF assms(1) fits w(2)]) (rule that)
  have "mem_copy dest src n m = (Inr (), m2)"
    using assms(3-5) m1(1) m2(1) by (simp add: mem_copy_def and_then_def ensure_capacity_ok)
  then show thesis
    by (rule that) (simp_all only: m1 m2 w, use assms(3) in \<open>simp_all add: max_def\<close>)
qed

section \<open>Errors and the invariant\<close>

lemma ensure_capacity_limit:
  "e > max_size m \<Longrightarrow> ensure_capacity e m = (Inl (VMExecutionError MemoryLimit), m)"
  by (simp add: ensure_capacity_def raise_def)

lemma mem_load_limit: "off + WORD_SIZE > max_size m \<Longrightarrow> mem_load off m = (Inl (VMExecutionError MemoryLimit), m)"
  by (simp add: mem_load_def and_then_def ensure_capacity_limit)

lemma mem_store_limit: "off + WORD_SIZE > max_size m \<Longrightarrow> mem_store off v m = (Inl (VMExecutionError MemoryLimit), m)"
  by (simp only: mem_store_def and_then_def ensure_capacity_limit prod.case sum.case)

lemma mem_store_byte_limit: "off + 1 > max_size m \<Longrightarrow> mem_store_byte off v m = (Inl (VMExecutionError MemoryLimit), m)"
  by (simp add: mem_store_byte_def and_then_def ensure_capacity_limit)

lemma mem_load_range_limit:
  "n \<noteq> 0 \<Longrightarrow> off + n > max_size m \<Longrightarrow> mem_load_range off n m = (Inl (VMExecutionError MemoryLimit), m)"
  by (simp add: mem_load_range_def and_then_def ensure_capacity_limit)

lemma mem_store_range_limit:
  "bs \<noteq> [] \<Longrightarrow> off + int (length bs) > max_size m \<Longrightarrow>
   mem_store_range off bs m = (Inl (VMExecutionError MemoryLimit), m)"
  by (simp add: mem_store_range_def and_then_def ensure_capacity_limit Let_def)

lemma mem_copy_limit:
  "n \<noteq> 0 \<Longrightarrow> max (dest + n) (src + n) > max_size m \<Longrightarrow>
   mem_copy dest src n m = (Inl (VMExecutionError MemoryLimit), m)"
  by (simp only: mem_copy_def and_then_def ensure_capacity_limit if_False prod.case sum.case)

lemma mem_range_empty [simp]:
  "mem_load_range off 0 m = (Inr [], m)" "mem_store_range off [] m = (Inr (), m)"
  "mem_copy dest src 0 m = (Inr (), m)"
  by (simp_all add: mem_load_range_def mem_store_range_def mem_copy_def ret_def)

lemma wf_memory_grow:
  assumes "wf_memory m" and "max_size m' = max_size m" and "highest_accessed m' = max e (highest_accessed m)"
    and "e \<le> max_size m" and "int (length (mdata m')) \<le> max e (highest_accessed m)"
  shows "wf_memory m'"
  using assms by (simp add: wf_memory_def)

lemma wf_mem_load:
  assumes "wf_memory m" and "0 \<le> off"
  shows "wf_memory (snd (mem_load off m))"
proof (cases "off + WORD_SIZE \<le> max_size m")
  case True
  with assms show ?thesis by (auto simp: mem_load_run wf_memory_def)
next
  case False
  with assms show ?thesis by (simp add: mem_load_limit)
qed

lemma wf_mem_store:
  assumes "wf_memory m" and "0 \<le> off"
  shows "wf_memory (snd (mem_store off v m))"
proof (cases "off + WORD_SIZE \<le> max_size m")
  case True
  obtain m' where "mem_store off v m = (Inr (), m')" "max_size m' = max_size m"
      "highest_accessed m' = max (off + WORD_SIZE) (highest_accessed m)"
      "length (mdata m') = max (length (mdata m)) (nat off + 32)"
    using mem_store_run [OF assms(2) True] by metis
  with assms True show ?thesis by (auto simp: wf_memory_def WORD_SIZE_def)
next
  case False
  with assms show ?thesis by (simp add: mem_store_limit)
qed

lemma wf_mem_store_byte:
  assumes "wf_memory m" and "0 \<le> off"
  shows "wf_memory (snd (mem_store_byte off v m))"
proof (cases "off + 1 \<le> max_size m")
  case True
  obtain m' where "mem_store_byte off v m = (Inr (), m')" "max_size m' = max_size m"
      "highest_accessed m' = max (off + 1) (highest_accessed m)"
      "length (mdata m') = max (length (mdata m)) (nat off + 1)"
    using mem_store_byte_run [OF assms(2) True] by metis
  with assms True show ?thesis by (auto simp: wf_memory_def)
next
  case False
  with assms show ?thesis by (simp add: mem_store_byte_limit)
qed

lemma wf_mem_load_range:
  assumes "wf_memory m" and "0 \<le> off" and "0 \<le> n"
  shows "wf_memory (snd (mem_load_range off n m))"
proof -
  consider "n = 0" | "n \<noteq> 0" "off + n > max_size m" | "0 < n" "off + n \<le> max_size m"
    using assms(3) by linarith
  then show ?thesis
  proof cases
    case 3
    obtain m' r where "mem_load_range off n m = (Inr r, m')" "max_size m' = max_size m"
        "highest_accessed m' = max (off + n) (highest_accessed m)"
        "length (mdata m') = max (length (mdata m)) (nat (off + n))"
      using mem_load_range_run [OF assms(2) 3] by metis
    with assms 3 show ?thesis by (auto simp: wf_memory_def)
  qed (use assms in \<open>simp_all add: mem_load_range_limit\<close>)
qed

lemma wf_mem_store_range:
  assumes "wf_memory m" and "0 \<le> off"
  shows "wf_memory (snd (mem_store_range off bs m))"
proof -
  consider "bs = []" | "bs \<noteq> []" "off + int (length bs) > max_size m"
    | "bs \<noteq> []" "off + int (length bs) \<le> max_size m"
    by linarith
  then show ?thesis
  proof cases
    case 3
    obtain m' where "mem_store_range off bs m = (Inr (), m')" "max_size m' = max_size m"
        "highest_accessed m' = max (off + int (length bs)) (highest_accessed m)"
        "length (mdata m') = max (length (mdata m)) (nat off + length bs)"
      using mem_store_range_run [OF assms(2) 3(2,1)] by metis
    with assms 3 show ?thesis by (auto simp: wf_memory_def)
  qed (use assms in \<open>simp_all add: mem_store_range_limit\<close>)
qed

lemma wf_mem_copy:
  assumes "wf_memory m" and "0 \<le> dest" and "0 \<le> src" and "0 \<le> n"
  shows "wf_memory (snd (mem_copy dest src n m))"
proof -
  consider "n = 0" | "n \<noteq> 0" "max (dest + n) (src + n) > max_size m"
    | "0 < n" "dest + n \<le> max_size m" "src + n \<le> max_size m"
    using assms(4) by linarith
  then show ?thesis
  proof cases
    case 3
    obtain m' where "mem_copy dest src n m = (Inr (), m')" "max_size m' = max_size m"
        "highest_accessed m' = max (max (dest + n) (src + n)) (highest_accessed m)"
        "length (mdata m') = max (max (length (mdata m)) (nat (src + n))) (nat dest + nat n)"
      using mem_copy_run [OF assms(2,3) 3] by metis
    with assms 3 show ?thesis by (auto simp: wf_memory_def of_nat_max)
  qed (use assms in \<open>simp_all add: mem_copy_limit\<close>)
qed

section \<open>The interface the interpreter uses\<close>

text \<open>
  A byte memory: \<open>view\<close> is what its bytes read as, \<open>fits e\<close> says that an access may end
  at \<open>e\<close>, and the two range operations read and write the view.
\<close>

locale byte_memory =
  fixes view :: "'m \<Rightarrow> nat \<Rightarrow> byte"
    and fits :: "int \<Rightarrow> 'm \<Rightarrow> bool"
    and load_range :: "int \<Rightarrow> int \<Rightarrow> ('m, byte list) meth"
    and store_range :: "int \<Rightarrow> byte list \<Rightarrow> ('m, unit) meth"
  assumes load_range:
      "0 \<le> off \<Longrightarrow> 0 < n \<Longrightarrow> fits (off + n) m \<Longrightarrow>
       \<exists>m'. load_range off n m = (Inr (window (nat off) (nat n) (view m)), m')
         \<and> view m' = view m \<and> (\<forall>e. fits e m' = fits e m)"
    and store_range:
      "0 \<le> off \<Longrightarrow> bs \<noteq> [] \<Longrightarrow> fits (off + int (length bs)) m \<Longrightarrow>
       \<exists>m'. store_range off bs m = (Inr (), m')
         \<and> view m' = overwrite (nat off) bs (view m) \<and> (\<forall>e. fits e m' = fits e m)"
begin

lemma store_load_same:
  assumes "0 \<le> off" and "bs \<noteq> []" and "fits (off + int (length bs)) m"
  shows "\<exists>m'. and_then (store_range off bs) (\<lambda>_. load_range off (int (length bs))) m = (Inr bs, m')"
proof -
  from store_range [OF assms] obtain m1 where m1: "store_range off bs m = (Inr (), m1)"
      "view m1 = overwrite (nat off) bs (view m)" "fits (off + int (length bs)) m1"
    using assms(3) by auto
  from load_range [OF assms(1) _ m1(3)] assms(2) m1(2) obtain m2
    where "load_range off (int (length bs)) m1 = (Inr bs, m2)"
    by (auto simp: window_overwrite)
  with m1(1) show ?thesis by (auto simp: and_then_def)
qed

lemma store_load_disjoint:
  assumes "0 \<le> off" and "bs \<noteq> []" and "fits (off + int (length bs)) m"
    and "0 \<le> off2" and "0 < n" and "fits (off2 + n) m"
    and "off2 + n \<le> off \<or> off + int (length bs) \<le> off2"
  shows "fst (and_then (store_range off bs) (\<lambda>_. load_range off2 n) m) = fst (load_range off2 n m)"
proof -
  from store_range [OF assms(1-3)] obtain m1 where m1: "store_range off bs m = (Inr (), m1)"
      "view m1 = overwrite (nat off) bs (view m)" "fits (off2 + n) m1"
    using assms(6) by auto
  have "window (nat off2) (nat n) (view m1) = window (nat off2) (nat n) (view m)"
    using assms(1,4,5,7) by (auto simp: window_def m1(2) overwrite_def)
  with m1(1) load_range [OF assms(4,5) m1(3)] load_range [OF assms(4,5,6)] show ?thesis
    by (auto simp: and_then_def)
qed

end

interpretation mem: byte_memory mem_view "\<lambda>e m. e \<le> max_size m" mem_load_range mem_store_range
proof
  fix off n :: int and m :: evm_memory
  assume "0 \<le> off" and "0 < n" and "off + n \<le> max_size m"
  then obtain m' where "mem_load_range off n m = (Inr (window (nat off) (nat n) (mem_view m)), m')"
      "mem_view m' = mem_view m" "max_size m' = max_size m"
    using mem_load_range_run [of off n m] by metis
  then show "\<exists>m'. mem_load_range off n m = (Inr (window (nat off) (nat n) (mem_view m)), m')
      \<and> mem_view m' = mem_view m \<and> (\<forall>e. (e \<le> max_size m') = (e \<le> max_size m))"
    by simp
next
  fix off :: int and bs :: "byte list" and m :: evm_memory
  assume "0 \<le> off" and "bs \<noteq> []" and "off + int (length bs) \<le> max_size m"
  then obtain m' where "mem_store_range off bs m = (Inr (), m')"
      "mem_view m' = overwrite (nat off) bs (mem_view m)" "max_size m' = max_size m"
    using mem_store_range_run [of off bs m] by metis
  then show "\<exists>m'. mem_store_range off bs m = (Inr (), m')
      \<and> mem_view m' = overwrite (nat off) bs (mem_view m) \<and> (\<forall>e. (e \<le> max_size m') = (e \<le> max_size m))"
    by simp
qed

section \<open>Gas\<close>

lemma memory_cost_mono: "0 \<le> a \<Longrightarrow> a \<le> b \<Longrightarrow> memory_cost a \<le> memory_cost b"
  by (simp add: memory_cost_def add_mono zdiv_mono1 mult_mono)

lemma words_mono: "(a + WORD_SIZE - 1) div WORD_SIZE \<le> (b + WORD_SIZE - 1) div WORD_SIZE" if "a \<le> b"
  using that by (simp add: WORD_SIZE_def zdiv_mono1)

lemma word_count_nonneg: "0 \<le> highest_accessed m \<Longrightarrow> 0 \<le> word_count m"
  by (simp add: word_count_def WORD_SIZE_def)

lemma expansion_cost_nonneg:
  assumes "0 \<le> highest_accessed m"
  shows "0 \<le> expansion_cost off n m"
proof -
  have "memory_cost (word_count m) \<le> memory_cost ((off + n + WORD_SIZE - 1) div WORD_SIZE)"
    if "highest_accessed m \<le> off + n"
    using that assms words_mono [OF that]
    by (intro memory_cost_mono word_count_nonneg) (simp_all add: word_count_def)
  then show ?thesis by (simp add: expansion_cost_def Let_def)
qed

text \<open>The words that are paid for after an access that ends at \<open>e\<close>.\<close>

lemma expansion_cost_touch:
  assumes "n \<noteq> 0"
  shows "expansion_cost off n m = memory_cost (word_count (touch (off + n) m)) - memory_cost (word_count m)"
proof (cases "off + n \<le> highest_accessed m")
  case True
  then have "word_count (touch (off + n) m) = word_count m"
    by (simp add: word_count_def)
  with True assms show ?thesis by (simp add: expansion_cost_def)
next
  case False
  then have "word_count (touch (off + n) m) = (off + n + WORD_SIZE - 1) div WORD_SIZE"
    by (simp add: word_count_def)
  with False assms show ?thesis by (simp add: expansion_cost_def Let_def)
qed

text \<open>
  Accesses \<open>(offset, size)\<close> in a row, each charged with \<open>expansion_cost\<close> and then recorded
  with \<open>ensure_capacity\<close> as the handlers do: the gas charged and the memory left behind.
\<close>

fun charge_accesses :: "(int \<times> int) list \<Rightarrow> evm_memory \<Rightarrow> int \<times> evm_memory" where
  "charge_accesses [] m = (0, m)"
| "charge_accesses ((off, n) # as) m =
     (let m' = (if n = 0 then m else snd (ensure_capacity (off + n) m));
          (g, m'') = charge_accesses as m'
      in (expansion_cost off n m + g, m''))"

lemma charge_accesses_telescope:
  assumes "\<forall>(off, n) \<in> set as. off + n \<le> max_size m" and "charge_accesses as m = (g, m')"
  shows "g = memory_cost (word_count m') - memory_cost (word_count m)"
  using assms
proof (induction as m arbitrary: g rule: charge_accesses.induct)
  case (1 m)
  then show ?case by simp
next
  case (2 off n as m)
  define m1 where "m1 = (if n = 0 then m else snd (ensure_capacity (off + n) m))"
  have m1: "m1 = (if n = 0 then m else touch (off + n) m)"
    using 2(2) by (simp add: m1_def ensure_capacity_ok)
  obtain h where h: "charge_accesses as m1 = (h, m')"
    using 2(3) by (auto simp: Let_def m1_def split: prod.splits)
  have "h = memory_cost (word_count m') - memory_cost (word_count m1)"
    using 2(1) [OF m1_def, of h] 2(2) h m1 by auto
  moreover have "g = expansion_cost off n m + h"
    using 2(3) h by (simp add: Let_def m1_def)
  ultimately show ?case
    using expansion_cost_touch [of n off m] m1 by (auto simp: expansion_cost_def)
qed

section \<open>Properties\<close>

text \<open>
  a memory is an array of bytes that read zero until they are written. Within the limit,
  \<open>MSTORE\<close> then \<open>MLOAD\<close> at the same offset gives the value back modulo \<open>2^256\<close>, writing a range
  of bytes and reading it gives the bytes, a write leaves every byte outside its range as it
  was, and \<open>copy\<close> moves the bytes the source range held before the call even when the two
  ranges overlap.
\<close>

lemma memory_array:
  assumes "0 \<le> off" and "off + 32 \<le> max_size m" and "bs \<noteq> []" and "off + int (length bs) \<le> max_size m"
    and "0 \<le> src" and "0 < n" and "off + n \<le> max_size m" and "src + n \<le> max_size m"
  shows "fst (and_then (mem_store off v) (\<lambda>_. mem_load off) m) = Inr (v mod 2 ^ 256)
    \<and> fst (and_then (mem_store_range off bs) (\<lambda>_. mem_load_range off (int (length bs))) m) = Inr bs
    \<and> mem_view (snd (mem_store_range off bs m)) = overwrite (nat off) bs (mem_view m)
    \<and> mem_view (snd (mem_copy off src n m))
        = overwrite (nat off) (window (nat src) (nat n) (mem_view m)) (mem_view m)"
proof (intro conjI)
  have lim: "off + WORD_SIZE \<le> max_size m"
    using assms(2) by (simp add: WORD_SIZE_def)
  obtain m1 where m1: "mem_store off v m = (Inr (), m1)" "max_size m1 = max_size m"
      "mem_view m1 = overwrite (nat off) (be_bytes 32 (v mod 2 ^ 256)) (mem_view m)"
    using mem_store_run [OF assms(1) lim] by metis
  have "window (nat off) 32 (mem_view m1) = be_bytes 32 (v mod 2 ^ 256)"
    unfolding m1(3) using window_overwrite [of "nat off" "be_bytes 32 (v mod 2 ^ 256)"] by simp
  with mem_load_run [OF assms(1), of m1] lim m1(2)
  have "fst (mem_load off m1) = Inr (v mod 2 ^ 256)"
    by (simp add: from_bytes_be_bytes)
  with m1(1) show "fst (and_then (mem_store off v) (\<lambda>_. mem_load off) m) = Inr (v mod 2 ^ 256)"
    by (simp add: and_then_def)
  from mem.store_load_same [OF assms(1,3,4)]
  show "fst (and_then (mem_store_range off bs) (\<lambda>_. mem_load_range off (int (length bs))) m) = Inr bs"
    by auto
  show "mem_view (snd (mem_store_range off bs m)) = overwrite (nat off) bs (mem_view m)"
    using mem_store_range_run [OF assms(1,4,3)] by (metis snd_conv)
  show "mem_view (snd (mem_copy off src n m))
     = overwrite (nat off) (window (nat src) (nat n) (mem_view m)) (mem_view m)"
    using mem_copy_run [OF assms(1,5,6,7,8)] by (metis snd_conv)
qed

text \<open>
  an access that would end past the limit raises and leaves the memory as it was,
  whichever operation makes it; no operation resizes the limit.
\<close>

lemma memory_limit:
  "(max_size m < off + 32 \<longrightarrow> mem_load off m = (Inl (VMExecutionError MemoryLimit), m)
     \<and> mem_store off v m = (Inl (VMExecutionError MemoryLimit), m))
   \<and> (max_size m < off + 1 \<longrightarrow> mem_load_byte off m = (Inl (VMExecutionError MemoryLimit), m)
     \<and> mem_store_byte off v m = (Inl (VMExecutionError MemoryLimit), m))
   \<and> (n \<noteq> 0 \<and> max_size m < off + n \<longrightarrow>
        mem_load_range off n m = (Inl (VMExecutionError MemoryLimit), m))
   \<and> (bs \<noteq> [] \<and> max_size m < off + int (length bs) \<longrightarrow>
        mem_store_range off bs m = (Inl (VMExecutionError MemoryLimit), m))
   \<and> (n \<noteq> 0 \<and> (max_size m < off + n \<or> max_size m < src + n) \<longrightarrow>
        mem_copy off src n m = (Inl (VMExecutionError MemoryLimit), m))"
  by (auto simp: mem_load_def mem_load_byte_def mem_store_def mem_store_byte_def mem_load_range_def
      mem_store_range_def mem_copy_def Let_def and_then_def ensure_capacity_def raise_def WORD_SIZE_def)

text \<open>
  however a frame splits its accesses, the gas charged for memory adds up to the cost of the
  words it ends with minus the cost of the words it began with, so no order of accesses
  makes the same memory cheaper.
\<close>

lemma memory_gas_total:
  assumes "\<forall>(off, n) \<in> set as. off + n \<le> max_size m" and "charge_accesses as m = (g, m')"
  shows "g = memory_cost (word_count m') - memory_cost (word_count m)"
  by (rule charge_accesses_telescope [OF assms])

end
