(* ===== verification/EvmStorage.thy ===== *)
theory EvmStorage
  imports PyBytes "HOL-Library.AList"
begin

text \<open>
  \<open>src/xai/core/vm/evm/storage.py\<close>: the persistent storage of one contract with its
  net gas metering (\<open>EVMStorage\<close>) and the storage that lives for one transaction
  (\<open>TransientStorage\<close>).

  A Python dict is an association list in insertion order: \<open>AList.update\<close> replaces the
  value of a key in place and appends a new key, as the dict does.
\<close>

unbundle bit_operations_syntax

section \<open>Constants and state\<close>

definition SLOAD_COLD :: int where "SLOAD_COLD = 2100"
definition SLOAD_WARM :: int where "SLOAD_WARM = 100"
definition SSTORE_SET :: int where "SSTORE_SET = 20000"
definition SSTORE_RESET :: int where "SSTORE_RESET = 2900"
definition SSTORE_CLEAR_REFUND :: int where "SSTORE_CLEAR_REFUND = 4800"
definition ACCESS_LIST_STORAGE_KEY :: int where "ACCESS_LIST_STORAGE_KEY = 1900"

lemmas storage_constants = SLOAD_COLD_def SLOAD_WARM_def SSTORE_SET_def SSTORE_RESET_def
  SSTORE_CLEAR_REFUND_def ACCESS_LIST_STORAGE_KEY_def

record storage_slot =
  original :: int
  current :: int
  warm :: bool

record evm_storage =
  st_address :: string
  st_max_size :: int
  slots :: "(int \<times> storage_slot) list"
  accessed_keys :: "int set"
  pending_refund :: int
  size_bytes :: int

definition new_storage :: "string \<Rightarrow> evm_storage" where
  "new_storage a = \<lparr>st_address = a, st_max_size = 10 * 1024 * 1024, slots = [],
     accessed_keys = {}, pending_refund = 0, size_bytes = 0\<rparr>"

section \<open>Operations\<close>

definition st_load :: "int \<Rightarrow> (evm_storage, int \<times> int) meth" where
  "st_load key s =
     (let gas_cost = (if key \<in> accessed_keys s then SLOAD_WARM else SLOAD_COLD);
          s' = s\<lparr>accessed_keys := insert key (accessed_keys s)\<rparr>
      in case map_of (slots s) key of
           None \<Rightarrow> (Inr (0, gas_cost), s')
         | Some slot \<Rightarrow> (Inr (current slot, gas_cost),
             s'\<lparr>slots := AList.update key (slot\<lparr>warm := True\<rparr>) (slots s)\<rparr>))"

definition calculate_sstore_gas :: "int \<Rightarrow> int \<Rightarrow> int \<Rightarrow> bool \<Rightarrow> int \<times> int" where
  "calculate_sstore_gas orig cur new is_cold =
     (let cold_cost = (if is_cold then SLOAD_COLD else 0) in
      if cur = new then (SLOAD_WARM + cold_cost, 0)
      else if orig = cur then
        (if orig = 0 then (SSTORE_SET + cold_cost, 0)
         else (SSTORE_RESET + cold_cost, if new = 0 then SSTORE_CLEAR_REFUND else 0))
      else
        (let gas = SLOAD_WARM + cold_cost;
             refund = (if orig \<noteq> 0
                       then if cur = 0 then - SSTORE_CLEAR_REFUND
                            else if new = 0 then SSTORE_CLEAR_REFUND else 0
                       else 0)
         in (gas, if orig = new
                  then refund + (if orig = 0 then SSTORE_SET - SLOAD_WARM else SSTORE_RESET - SLOAD_WARM)
                  else refund)))"

definition st_store :: "int \<Rightarrow> int \<Rightarrow> (evm_storage, int \<times> int) meth" where
  "st_store key value s =
     (let value = value AND (push_bit 256 1 - 1);
          is_cold = (key \<notin> accessed_keys s);
          s = s\<lparr>accessed_keys := insert key (accessed_keys s)\<rparr>;
          slot = (case map_of (slots s) key of
                    None \<Rightarrow> \<lparr>original = 0, current = 0, warm = True\<rparr>
                  | Some slot \<Rightarrow> slot\<lparr>warm := True\<rparr>);
          (gas_cost, refund) = calculate_sstore_gas (original slot) (current slot) value is_cold;
          s' = s\<lparr>slots := AList.update key (slot\<lparr>current := value\<rparr>) (slots s)\<rparr>
      in if current slot = 0 \<and> value \<noteq> 0 \<and> size_bytes s' + 32 > st_max_size s'
         then raise (VMExecutionError StorageLimit) s'
         else (Inr (gas_cost, refund),
           s'\<lparr>size_bytes :=
                if current slot = 0 \<and> value \<noteq> 0 then size_bytes s' + 32
                else if current slot \<noteq> 0 \<and> value = 0 then max 0 (size_bytes s' - 32)
                else size_bytes s',
              pending_refund := pending_refund s' + refund\<rparr>))"

definition st_commit :: "evm_storage \<Rightarrow> evm_storage" where
  "st_commit s = s\<lparr>slots := map (\<lambda>(k, slot). (k, slot\<lparr>original := current slot, warm := False\<rparr>)) (slots s),
     accessed_keys := {}, pending_refund := 0\<rparr>"

definition st_rollback :: "evm_storage \<Rightarrow> evm_storage" where
  "st_rollback s = s\<lparr>slots := map (\<lambda>(k, slot). (k, slot\<lparr>current := original slot, warm := False\<rparr>)) (slots s),
     accessed_keys := {}, pending_refund := 0\<rparr>"

definition warm_slot :: "int \<Rightarrow> (evm_storage, int) meth" where
  "warm_slot key s =
     (if key \<in> accessed_keys s then (Inr 0, s)
      else (Inr ACCESS_LIST_STORAGE_KEY, s\<lparr>accessed_keys := insert key (accessed_keys s)\<rparr>))"

definition get_refund :: "evm_storage \<Rightarrow> int" where
  "get_refund s = max 0 (pending_refund s)"

definition clear_refund :: "evm_storage \<Rightarrow> evm_storage" where
  "clear_refund s = s\<lparr>pending_refund := 0\<rparr>"

definition slot_count :: "evm_storage \<Rightarrow> int" where
  "slot_count s = int (length (filter (\<lambda>(k, slot). current slot \<noteq> 0) (slots s)))"

definition get_raw :: "evm_storage \<Rightarrow> int \<Rightarrow> int" where
  "get_raw s key = (case map_of (slots s) key of None \<Rightarrow> 0 | Some slot \<Rightarrow> current slot)"

definition set_raw :: "int \<Rightarrow> int \<Rightarrow> evm_storage \<Rightarrow> evm_storage" where
  "set_raw key value s =
     (let value = value AND (push_bit 256 1 - 1) in
      case map_of (slots s) key of
        Some slot \<Rightarrow> s\<lparr>slots := AList.update key (slot\<lparr>current := value, original := value\<rparr>) (slots s)\<rparr>
      | None \<Rightarrow> s\<lparr>slots := AList.update key \<lparr>original = value, current = value, warm = False\<rparr> (slots s)\<rparr>)"

definition to_dict :: "evm_storage \<Rightarrow> (string \<times> int) list" where
  "to_dict s = map (\<lambda>(k, slot). (format_hex 64 k, current slot))
     (filter (\<lambda>(k, slot). current slot \<noteq> 0) (slots s))"

text \<open>
  \<open>from_dict\<close> on the text keys that \<open>to_dict\<close> writes; a key that is no number raises
  ValueError.
\<close>

primrec set_all :: "(string \<times> int) list \<Rightarrow> (evm_storage, unit) meth" where
  "set_all [] = ret ()"
| "set_all (kv # kvs) =
     and_then (lift_result (parse_int 16 (fst kv))) (\<lambda>key.
     and_then (modify (set_raw key (snd kv))) (\<lambda>_. set_all kvs))"

definition from_dict :: "string \<Rightarrow> (string \<times> int) list \<Rightarrow> exn + evm_storage" where
  "from_dict a kvs =
     (case set_all kvs (new_storage a) of (Inl e, s) \<Rightarrow> Inl e | (Inr _, s) \<Rightarrow> Inr s)"

section \<open>Transient storage\<close>

type_synonym transient_storage = "(string \<times> (int \<times> int) list) list"

definition TLOAD_GAS :: int where "TLOAD_GAS = 100"
definition TSTORE_GAS :: int where "TSTORE_GAS = 100"

definition ts_get :: "transient_storage \<Rightarrow> string \<times> int \<Rightarrow> int" where
  "ts_get d ak =
     (let contract_data = (case map_of d (fst ak) of None \<Rightarrow> [] | Some c \<Rightarrow> c)
      in case map_of contract_data (snd ak) of None \<Rightarrow> 0 | Some v \<Rightarrow> v)"

definition ts_load :: "string \<times> int \<Rightarrow> (transient_storage, int \<times> int) meth" where
  "ts_load ak d = (Inr (ts_get d ak, TLOAD_GAS), d)"

definition ts_store :: "string \<times> int \<Rightarrow> int \<Rightarrow> (transient_storage, int) meth" where
  "ts_store ak value d =
     (let d' = (if map_of d (fst ak) = None then AList.update (fst ak) [] d else d);
          contract_data = (case map_of d' (fst ak) of None \<Rightarrow> [] | Some c \<Rightarrow> c)
      in (Inr TSTORE_GAS,
          AList.update (fst ak) (AList.update (snd ak) (value AND (push_bit 256 1 - 1)) contract_data) d'))"

definition ts_clear :: "transient_storage \<Rightarrow> transient_storage" where
  "ts_clear d = []"

definition ts_clear_contract :: "string \<Rightarrow> transient_storage \<Rightarrow> transient_storage" where
  "ts_clear_contract address d = AList.delete address d"

section \<open>The interface: a store of words by key\<close>

text \<open>
  What the machine relies on: a load returns what the store holds and changes no value, a
  store that returns changes the value of its key alone, to the value modulo \<open>2^256\<close>.
\<close>

definition word_update :: "'k \<times> int \<Rightarrow> ('k \<Rightarrow> int) \<Rightarrow> 'k \<Rightarrow> int" where
  "word_update kv g = g(fst kv := snd kv mod 2 ^ 256)"

locale kv_store =
  fixes get :: "'s \<Rightarrow> 'k \<Rightarrow> int"
    and load :: "'k \<Rightarrow> ('s, int \<times> int) meth"
    and store :: "'k \<Rightarrow> int \<Rightarrow> ('s, 'a) meth"
  assumes load: "\<exists>g t. load k s = (Inr (get s k, g), t) \<and> get t = get s"
    and store: "store k v s = (Inr a, t) \<Longrightarrow> get t = word_update (k, v) (get s)"
begin

primrec store_all :: "('k \<times> int) list \<Rightarrow> ('s, unit) meth" where
  "store_all [] = ret ()"
| "store_all (kv # kvs) = and_then (store (fst kv) (snd kv)) (\<lambda>_. store_all kvs)"

lemma store_all: "store_all kvs s = (Inr (), t) \<Longrightarrow> get t = fold word_update kvs (get s)"
proof (induction kvs arbitrary: s)
  case (Cons kv kvs)
  then obtain a u where u: "store (fst kv) (snd kv) s = (Inr a, u)" "store_all kvs u = (Inr (), t)"
    by (auto simp: and_then_def split: prod.splits sum.splits)
  from store [OF u(1)] Cons.IH [OF u(2)] show ?case by simp
qed (simp add: ret_def)

lemma load_after: "store_all kvs s = (Inr (), t) \<Longrightarrow>
    \<exists>g u. load k t = (Inr (fold word_update kvs (get s) k, g), u)"
  using load [of k t] store_all [of kvs s t] by auto

end

lemma and_max: "v AND (push_bit 256 1 - 1) = v mod (2 ^ 256 :: int)"
  by (simp only: push_bit_of_1 mask_eq_exp_minus_1 [symmetric] take_bit_eq_mask [symmetric] take_bit_eq_mod)

lemma get_raw_update: "get_raw (s\<lparr>slots := AList.update k sl xs\<rparr>) = (get_raw (s\<lparr>slots := xs\<rparr>))(k := current sl)"
  by (rule ext) (simp add: get_raw_def update_conv')

lemma get_raw_frame [simp]:
  "get_raw (s\<lparr>accessed_keys := A\<rparr>) = get_raw s" "get_raw (s\<lparr>pending_refund := r\<rparr>) = get_raw s"
  "get_raw (s\<lparr>size_bytes := n\<rparr>) = get_raw s"
  by (rule ext, simp add: get_raw_def)+

lemma get_raw_slots [simp]: "get_raw (s\<lparr>slots := slots s\<rparr>) = get_raw s"
  by simp

lemma st_load_run: "\<exists>g t. st_load k s = (Inr (get_raw s k, g), t) \<and> get_raw t = get_raw s"
proof (cases "map_of (slots s) k")
  case None
  then show ?thesis by (simp add: st_load_def Let_def get_raw_def)
next
  case (Some slot)
  let ?t = "s\<lparr>accessed_keys := insert k (accessed_keys s),
    slots := AList.update k (slot\<lparr>warm := True\<rparr>) (slots s)\<rparr>"
  have "get_raw ?t = get_raw s"
    using Some by (auto simp: get_raw_def update_conv' fun_eq_iff)
  with Some show ?thesis by (simp add: st_load_def Let_def get_raw_def [of s k])
qed

lemma st_store_slots: "slots (snd (st_store k v s)) = AList.update k
    ((case map_of (slots s) k of None \<Rightarrow> \<lparr>original = 0, current = 0, warm = True\<rparr>
      | Some slot \<Rightarrow> slot\<lparr>warm := True\<rparr>)\<lparr>current := v mod 2 ^ 256\<rparr>) (slots s)"
  unfolding st_store_def and_max by (simp add: Let_def raise_def split: prod.splits)

lemma st_store_get: "get_raw (snd (st_store k v s)) = word_update (k, v) (get_raw s)"
  by (rule ext) (simp add: get_raw_def st_store_slots update_conv' word_update_def split: option.splits)

lemma ts_store_get: "ts_get (snd (ts_store ak v d)) = word_update (ak, v) (ts_get d)"
  unfolding ts_store_def and_max
  by (rule ext) (auto simp: ts_get_def Let_def update_conv' word_update_def prod_eq_iff split: option.splits)

interpretation persistent: kv_store get_raw st_load st_store
proof
  show "\<exists>g t. st_load k s = (Inr (get_raw s k, g), t) \<and> get_raw t = get_raw s" for k s
    by (rule st_load_run)
  show "get_raw t = word_update (k, v) (get_raw s)" if "st_store k v s = (Inr a, t)" for k v s a t
    using st_store_get [of k v s] that by simp
qed

interpretation transient: kv_store ts_get ts_load ts_store
proof
  show "\<exists>g t. ts_load k s = (Inr (ts_get s k, g), t) \<and> ts_get t = ts_get s" for k s
    by (simp add: ts_load_def)
  show "ts_get t = word_update (k, v) (ts_get s)" if "ts_store k v s = (Inr a, t)" for k v s a t
    using ts_store_get [of k v s] that by simp
qed

section \<open>What each operation does to a slot\<close>

definition get_original :: "evm_storage \<Rightarrow> int \<Rightarrow> int" where
  "get_original s key = (case map_of (slots s) key of None \<Rightarrow> 0 | Some slot \<Rightarrow> original slot)"

lemma get_original_frame [simp]: "get_original (s\<lparr>accessed_keys := A\<rparr>) = get_original s"
  by (rule ext) (simp add: get_original_def)

lemma map_of_map_slot: "map_of (map (\<lambda>(k, slot). (k, f slot)) xs) k = map_option f (map_of xs k)"
  by (induction xs) auto

lemma commit_get: "get_raw (st_commit s) = get_raw s" "get_original (st_commit s) = get_raw s"
  by (rule ext, simp add: get_raw_def get_original_def st_commit_def map_of_map_slot split: option.splits)+

lemma rollback_get: "get_raw (st_rollback s) = get_original s" "get_original (st_rollback s) = get_original s"
  by (rule ext, simp add: get_raw_def get_original_def st_rollback_def map_of_map_slot split: option.splits)+

lemma st_load_original: "get_original (snd (st_load k s)) = get_original s"
  by (rule ext) (simp add: get_original_def st_load_def Let_def update_conv' split: option.splits)

lemma st_store_original: "get_original (snd (st_store k v s)) = get_original s"
  by (rule ext) (simp add: get_original_def st_store_slots update_conv' split: option.splits)

lemma warm_slot_get: "get_raw (snd (warm_slot k s)) = get_raw s" "get_original (snd (warm_slot k s)) = get_original s"
  by (rule ext, simp add: warm_slot_def get_raw_def get_original_def)+

lemma set_raw_get: "get_raw (set_raw k v s) = word_update (k, v) (get_raw s)"
  "get_original (set_raw k v s) = word_update (k, v) (get_original s)"
  unfolding set_raw_def and_max
  by (rule ext, simp add: get_raw_def get_original_def word_update_def Let_def update_conv' split: option.splits)+

lemma store_all_original: "get_original (snd (persistent.store_all kvs s)) = get_original s"
proof (induction kvs arbitrary: s)
  case (Cons kv kvs)
  show ?case
    using st_store_original [of "fst kv" "snd kv" s] Cons.IH
    by (auto simp: and_then_def split: prod.splits sum.splits)
qed (simp add: ret_def)

lemma store_slot_current:
  "current (case map_of (slots s) k of None \<Rightarrow> \<lparr>original = 0, current = 0, warm = True\<rparr>
     | Some slot \<Rightarrow> slot\<lparr>warm := True\<rparr>) = get_raw s k"
  "original (case map_of (slots s) k of None \<Rightarrow> \<lparr>original = 0, current = 0, warm = True\<rparr>
     | Some slot \<Rightarrow> slot\<lparr>warm := True\<rparr>) = get_original s k"
  by (simp_all add: get_raw_def get_original_def split: option.splits)

lemma st_store_result:
  fixes v :: int
  defines "w \<equiv> v mod 2 ^ 256"
  shows "fst (st_store k v s) =
      (if get_raw s k = 0 \<and> w \<noteq> 0 \<and> size_bytes s + 32 > st_max_size s
       then Inl (VMExecutionError StorageLimit)
       else Inr (calculate_sstore_gas (get_original s k) (get_raw s k) w (k \<notin> accessed_keys s)))"
    and "accessed_keys (snd (st_store k v s)) = insert k (accessed_keys s)"
    and "pending_refund (snd (st_store k v s)) = pending_refund s +
      (if get_raw s k = 0 \<and> w \<noteq> 0 \<and> size_bytes s + 32 > st_max_size s then 0
       else snd (calculate_sstore_gas (get_original s k) (get_raw s k) w (k \<notin> accessed_keys s)))"
    and "size_bytes (snd (st_store k v s)) =
      (if get_raw s k = 0 \<and> w \<noteq> 0
       then if size_bytes s + 32 > st_max_size s then size_bytes s else size_bytes s + 32
       else if get_raw s k \<noteq> 0 \<and> w = 0 then max 0 (size_bytes s - 32) else size_bytes s)"
    and "st_max_size (snd (st_store k v s)) = st_max_size s"
  unfolding st_store_def and_max Let_def w_def store_slot_current
  by (simp_all add: store_slot_current raise_def case_prod_beta)

section \<open>Net gas metering\<close>

text \<open>
  The price of leaving a slot that held \<open>orig\<close> at the start of the transaction at
  \<open>final\<close>, beside the 100 gas of every store and the 2100 gas of a first access.
\<close>

definition net_price :: "int \<Rightarrow> int \<Rightarrow> int" where
  "net_price orig final =
     (if final = orig then 0
      else if orig = 0 then SSTORE_SET - SLOAD_WARM
      else if final = 0 then SSTORE_RESET - SLOAD_WARM - SSTORE_CLEAR_REFUND
      else SSTORE_RESET - SLOAD_WARM)"

lemma sstore_net:
  "calculate_sstore_gas orig cur new cold = (gas, refund) \<Longrightarrow>
   gas - refund = SLOAD_WARM + (if cold then SLOAD_COLD else 0) + net_price orig new - net_price orig cur"
  by (auto simp: calculate_sstore_gas_def net_price_def Let_def storage_constants split: if_splits)

text \<open>Stores in a row: the gas they cost in total.\<close>

primrec store_gas :: "(int \<times> int) list \<Rightarrow> (evm_storage, int) meth" where
  "store_gas [] = ret 0"
| "store_gas (kv # kvs) =
     and_then (st_store (fst kv) (snd kv)) (\<lambda>gr.
     and_then (store_gas kvs) (\<lambda>g. ret (fst gr + g)))"

definition total_price :: "int set \<Rightarrow> evm_storage \<Rightarrow> int" where
  "total_price K s = (\<Sum>k\<in>K. net_price (get_original s k) (get_raw s k))"

lemma total_price_store:
  assumes "finite K" and "k \<in> K"
  shows "total_price K (snd (st_store k v s)) = total_price K s
    + net_price (get_original s k) (v mod 2 ^ 256) - net_price (get_original s k) (get_raw s k)"
proof -
  have "(\<Sum>j\<in>K - {k}. net_price (get_original s j) (word_update (k, v) (get_raw s) j))
      = (\<Sum>j\<in>K - {k}. net_price (get_original s j) (get_raw s j))"
    by (rule sum.cong) (auto simp: word_update_def)
  then show ?thesis
    using assms
    by (simp add: total_price_def st_store_original st_store_get sum.remove [of K k]) (simp add: word_update_def)
qed

lemma store_gas_net:
  assumes "finite K" and "fst ` set kvs \<subseteq> K" and "finite (accessed_keys s)"
    and "store_gas kvs s = (Inr g, t)"
  shows "g - (pending_refund t - pending_refund s) = SLOAD_WARM * int (length kvs)
      + SLOAD_COLD * (int (card (accessed_keys t)) - int (card (accessed_keys s)))
      + total_price K t - total_price K s
    \<and> accessed_keys t = accessed_keys s \<union> fst ` set kvs"
  using assms(2-)
proof (induction kvs arbitrary: s g)
  case Nil
  then show ?case by (simp add: ret_def)
next
  case (Cons kv kvs)
  obtain k v where kv: "kv = (k, v)" by (cases kv)
  obtain gas refund u h where u: "st_store k v s = (Inr (gas, refund), u)" and h: "store_gas kvs u = (Inr h, t)"
      and g: "g = gas + h"
    using Cons.prems(3) kv by (auto simp: and_then_def ret_def split: prod.splits sum.splits)
  note res = st_store_result [of k v s] and pr = total_price_store [OF assms(1), of k v s]
  have calc: "calculate_sstore_gas (get_original s k) (get_raw s k) (v mod 2 ^ 256) (k \<notin> accessed_keys s) = (gas, refund)"
    using res(1) u by (auto split: if_splits)
  have acc: "accessed_keys u = insert k (accessed_keys s)"
    using res(2) u by simp
  have pend: "pending_refund u = pending_refund s + refund"
    using res(1,3) u unfolding calc by (auto split: if_splits)
  have price: "total_price K u = total_price K s
    + net_price (get_original s k) (v mod 2 ^ 256) - net_price (get_original s k) (get_raw s k)"
    using pr Cons.prems(1) kv u by simp
  have card: "int (card (accessed_keys u)) = int (card (accessed_keys s)) + (if k \<notin> accessed_keys s then 1 else 0)"
    using Cons.prems(2) by (simp add: acc card_insert_if)
  have IH: "h - (pending_refund t - pending_refund u) = SLOAD_WARM * int (length kvs)
      + SLOAD_COLD * (int (card (accessed_keys t)) - int (card (accessed_keys u)))
      + total_price K t - total_price K u \<and> accessed_keys t = accessed_keys u \<union> fst ` set kvs"
    by (rule Cons.IH [OF _ _ h]) (use Cons.prems acc kv in auto)
  have len: "int (length (kv # kvs)) = 1 + int (length kvs)"
    by simp
  show ?case
  proof
    show "g - (pending_refund t - pending_refund s) = SLOAD_WARM * int (length (kv # kvs))
        + SLOAD_COLD * (int (card (accessed_keys t)) - int (card (accessed_keys s)))
        + total_price K t - total_price K s"
      using conjunct1 [OF IH] sstore_net [OF calc] card unfolding g pend price len
      by (cases "k \<in> accessed_keys s") (simp_all add: storage_constants)
    show "accessed_keys t = accessed_keys s \<union> fst ` set (kv # kvs)"
      using conjunct2 [OF IH] by (auto simp: acc kv)
  qed
qed

section \<open>Invariants of the storage object\<close>

text \<open>What the operations can build from a new object, failing stores included.\<close>

inductive storage_reachable :: "evm_storage \<Rightarrow> bool" where
  new: "storage_reachable (new_storage a)"
| load: "storage_reachable s \<Longrightarrow> storage_reachable (snd (st_load k s))"
| store: "storage_reachable s \<Longrightarrow> storage_reachable (snd (st_store k v s))"
| warm_slot: "storage_reachable s \<Longrightarrow> storage_reachable (snd (warm_slot k s))"
| set_raw: "storage_reachable s \<Longrightarrow> storage_reachable (set_raw k v s)"
| commit: "storage_reachable s \<Longrightarrow> storage_reachable (st_commit s)"
| rollback: "storage_reachable s \<Longrightarrow> storage_reachable (st_rollback s)"

text \<open>The slots a transaction has cleared and that hold a refund of 4800 gas.\<close>

definition cleared :: "evm_storage \<Rightarrow> int set" where
  "cleared s = {k. get_original s k \<noteq> 0 \<and> get_raw s k = 0}"

definition nonzero :: "evm_storage \<Rightarrow> int set" where
  "nonzero s = {k. get_raw s k \<noteq> 0}"

lemma finite_cleared: "finite (cleared s)"
proof (rule finite_subset)
  show "cleared s \<subseteq> dom (map_of (slots s))"
    by (auto simp: cleared_def get_original_def split: option.splits)
qed (rule finite_dom_map_of)

lemma finite_nonzero: "finite (nonzero s)"
proof (rule finite_subset)
  show "nonzero s \<subseteq> dom (map_of (slots s))"
    by (auto simp: nonzero_def get_raw_def split: option.splits)
qed (rule finite_dom_map_of)

lemma card_change:
  assumes "finite A" and "\<And>j. j \<noteq> k \<Longrightarrow> j \<in> B \<longleftrightarrow> j \<in> A"
  shows "int (card B) = int (card A) + (if k \<in> B then 1 else 0) - (if k \<in> A then 1 else 0)"
proof -
  have eq: "B - {k} = A - {k}" using assms(2) by blast
  then have "finite (B - {k})" using assms(1) by simp
  then have fin: "finite B" by simp
  have "card X = card (X - {k}) + (if k \<in> X then 1 else 0)" if "finite X" for X
    using card_Suc_Diff1 [OF that, of k] by (cases "k \<in> X") simp_all
  from this [OF fin] this [OF assms(1)] obtain c
    where "card B = c + (if k \<in> B then 1 else 0)" and "card A = c + (if k \<in> A then 1 else 0)"
    unfolding eq by blast
  then show ?thesis by simp
qed

lemma sstore_refund_bound:
  "SSTORE_CLEAR_REFUND * ((if orig \<noteq> 0 \<and> new = 0 then 1 else 0) - (if orig \<noteq> 0 \<and> cur = 0 then 1 else 0))
     \<le> snd (calculate_sstore_gas orig cur new cold)"
  by (simp add: calculate_sstore_gas_def Let_def storage_constants)

definition refund_backed :: "evm_storage \<Rightarrow> bool" where
  "refund_backed s \<longleftrightarrow> SSTORE_CLEAR_REFUND * int (card (cleared s)) \<le> pending_refund s"

lemma refund_backed_store:
  assumes "refund_backed s"
  shows "refund_backed (snd (st_store k v s))"
proof -
  let ?t = "snd (st_store k v s)" and ?w = "v mod 2 ^ 256"
  have other: "j \<in> cleared ?t \<longleftrightarrow> j \<in> cleared s" if "j \<noteq> k" for j
    using that by (simp add: cleared_def st_store_original st_store_get) (simp add: word_update_def)
  have at: "k \<in> cleared ?t \<longleftrightarrow> get_original s k \<noteq> 0 \<and> ?w = 0"
    by (simp add: cleared_def st_store_original st_store_get) (simp add: word_update_def)
  have card: "int (card (cleared ?t)) = int (card (cleared s))
      + (if k \<in> cleared ?t then 1 else 0) - (if k \<in> cleared s then 1 else 0)"
    by (rule card_change [OF finite_cleared other])
  note bound = sstore_refund_bound [of "get_original s k" ?w "get_raw s k" "k \<notin> accessed_keys s"]
  have k: "k \<in> cleared s \<longleftrightarrow> get_original s k \<noteq> 0 \<and> get_raw s k = 0"
    by (simp add: cleared_def)
  show ?thesis
  proof (cases "get_raw s k = 0 \<and> ?w \<noteq> 0 \<and> size_bytes s + 32 > st_max_size s")
    case True
    then have "pending_refund ?t = pending_refund s"
      using st_store_result(3) [of k v s] by simp
    moreover have "int (card (cleared ?t)) \<le> int (card (cleared s))"
      using card at True by (simp split: if_splits)
    ultimately show ?thesis
      using assms by (simp add: refund_backed_def storage_constants)
  next
    case False
    then have "pending_refund ?t = pending_refund s
        + snd (calculate_sstore_gas (get_original s k) (get_raw s k) ?w (k \<notin> accessed_keys s))"
      by (simp only: st_store_result(3) False if_False)
    moreover have "SSTORE_CLEAR_REFUND * int (card (cleared ?t)) = SSTORE_CLEAR_REFUND * int (card (cleared s))
      + SSTORE_CLEAR_REFUND * ((if get_original s k \<noteq> 0 \<and> ?w = 0 then 1 else 0)
          - (if get_original s k \<noteq> 0 \<and> get_raw s k = 0 then 1 else 0))"
      using card unfolding at k storage_constants by (simp split: if_split)
    ultimately show ?thesis
      using assms bound unfolding refund_backed_def by linarith
  qed
qed

lemma refund_backed_same:
  "refund_backed s \<Longrightarrow> get_raw t = get_raw s \<Longrightarrow> get_original t = get_original s \<Longrightarrow>
   pending_refund t = pending_refund s \<Longrightarrow> refund_backed t"
  by (simp add: refund_backed_def cleared_def)

lemma refund_backed_fresh: "pending_refund s = 0 \<Longrightarrow> get_raw s = get_original s \<Longrightarrow> refund_backed s"
  by (simp add: refund_backed_def cleared_def)

lemma refund_backed_set_raw:
  assumes "refund_backed s"
  shows "refund_backed (set_raw k v s)"
proof -
  have "cleared (set_raw k v s) \<subseteq> cleared s"
    unfolding cleared_def set_raw_get by (auto simp: word_update_def)
  from card_mono [OF finite_cleared this]
  have "card (cleared (set_raw k v s)) \<le> card (cleared s)" .
  moreover have "pending_refund (set_raw k v s) = pending_refund s"
    by (simp add: set_raw_def Let_def split: option.splits)
  ultimately show ?thesis
    using assms by (simp add: refund_backed_def storage_constants)
qed

definition wf_storage :: "evm_storage \<Rightarrow> bool" where
  "wf_storage s \<longleftrightarrow> distinct (map fst (slots s)) \<and> finite (accessed_keys s)
     \<and> (\<forall>k. 0 \<le> get_raw s k \<and> get_raw s k < 2 ^ 256)
     \<and> (\<forall>k. 0 \<le> get_original s k \<and> get_original s k < 2 ^ 256)"

lemma st_load_get: "get_raw (snd (st_load k s)) = get_raw s"
  using st_load_run [of k s] by auto

lemma st_load_frame:
  "distinct (map fst (slots s)) \<Longrightarrow> distinct (map fst (slots (snd (st_load k s))))"
  "accessed_keys (snd (st_load k s)) = insert k (accessed_keys s)"
  "pending_refund (snd (st_load k s)) = pending_refund s"
  by (simp_all add: st_load_def Let_def distinct_update split: option.splits)

lemma wf_storage_load: "wf_storage s \<Longrightarrow> wf_storage (snd (st_load k s))"
  by (simp only: wf_storage_def st_load_get st_load_original st_load_frame finite_insert simp_thms)

lemma wf_storage_store:
  assumes "wf_storage s"
  shows "wf_storage (snd (st_store k v s))"
  using assms st_store_result(2) [of k v s]
  by (auto simp: wf_storage_def st_store_get st_store_original st_store_slots word_update_def distinct_update)

lemma wf_storage_reset: "wf_storage s \<Longrightarrow> wf_storage (st_commit s) \<and> wf_storage (st_rollback s)"
  unfolding wf_storage_def commit_get rollback_get
  by (simp add: st_commit_def st_rollback_def comp_def case_prod_beta)

lemma wf_storage_set_raw: "wf_storage s \<Longrightarrow> wf_storage (set_raw k v s)"
  unfolding wf_storage_def set_raw_get
  by (simp add: word_update_def)
    (auto simp: set_raw_def Let_def distinct_update split: option.splits)

lemma wf_storage_warm: "wf_storage s \<Longrightarrow> wf_storage (snd (warm_slot k s))"
  unfolding wf_storage_def warm_slot_get by (simp add: warm_slot_def)

lemma wf_new_storage [simp]: "wf_storage (new_storage a)"
  by (simp add: wf_storage_def new_storage_def get_raw_def get_original_def)

lemma warm_slot_refund: "pending_refund (snd (warm_slot k s)) = pending_refund s"
  by (simp add: warm_slot_def)

lemma storage_reachable_inv: "storage_reachable s \<Longrightarrow> wf_storage s \<and> refund_backed s"
proof (induction rule: storage_reachable.induct)
  case (new a)
  show ?case
    by (simp, rule refund_backed_fresh) (simp_all add: new_storage_def get_raw_def get_original_def fun_eq_iff)
next
  case (load s k)
  then show ?case
    using refund_backed_same [OF _ st_load_get st_load_original st_load_frame(3)] wf_storage_load by blast
next
  case (warm_slot s k)
  then show ?case
    using refund_backed_same [OF _ warm_slot_get warm_slot_refund] wf_storage_warm by blast
next
  case (commit s)
  then show ?case
    by (auto simp: wf_storage_reset commit_get intro!: refund_backed_fresh) (simp add: st_commit_def)
next
  case (rollback s)
  then show ?case
    by (auto simp: wf_storage_reset rollback_get intro!: refund_backed_fresh) (simp add: st_rollback_def)
qed (simp_all add: wf_storage_store refund_backed_store wf_storage_set_raw refund_backed_set_raw)

section \<open>The size counter\<close>

lemma slot_count_nonzero:
  assumes "distinct (map fst (slots s))"
  shows "slot_count s = int (card (nonzero s))"
proof -
  let ?f = "filter (\<lambda>(k, slot). current slot \<noteq> 0) (slots s)"
  have "k \<in> nonzero s \<longleftrightarrow> k \<in> set (map fst ?f)" for k
  proof -
    have "k \<in> nonzero s \<longleftrightarrow> (\<exists>slot. map_of (slots s) k = Some slot \<and> current slot \<noteq> 0)"
      by (auto simp: nonzero_def get_raw_def split: option.splits)
    also have "\<dots> \<longleftrightarrow> (\<exists>slot. (k, slot) \<in> set (slots s) \<and> current slot \<noteq> 0)"
      by (simp only: map_of_eq_Some_iff [OF assms])
    finally show ?thesis by force
  qed
  then have "nonzero s = set (map fst ?f)" by blast
  moreover have "distinct (map fst ?f)"
    using assms by (simp add: distinct_map_filter)
  ultimately show ?thesis
    by (metis distinct_card length_map slot_count_def)
qed

definition size_exact :: "evm_storage \<Rightarrow> bool" where
  "size_exact s \<longleftrightarrow> size_bytes s = 32 * int (card (nonzero s)) \<and> size_bytes s \<le> st_max_size s"

lemma size_exact_store:
  assumes "size_exact s" and "st_store k v s = (Inr a, t)"
  shows "size_exact t"
proof -
  let ?w = "v mod 2 ^ 256"
  have t: "t = snd (st_store k v s)" and ok: "\<not> (get_raw s k = 0 \<and> ?w \<noteq> 0 \<and> size_bytes s + 32 > st_max_size s)"
    using assms(2) st_store_result(1) [of k v s] by (auto split: if_splits)
  have other: "j \<in> nonzero t \<longleftrightarrow> j \<in> nonzero s" if "j \<noteq> k" for j
    using that by (simp add: nonzero_def t st_store_get) (simp add: word_update_def)
  have at: "k \<in> nonzero t \<longleftrightarrow> ?w \<noteq> 0"
    by (simp add: nonzero_def t st_store_get) (simp add: word_update_def)
  have k: "k \<in> nonzero s \<longleftrightarrow> get_raw s k \<noteq> 0"
    by (simp add: nonzero_def)
  have card: "int (card (nonzero t)) = int (card (nonzero s))
      + (if ?w \<noteq> 0 then 1 else 0) - (if get_raw s k \<noteq> 0 then 1 else 0)"
    unfolding at [symmetric] k [symmetric] by (rule card_change [OF finite_nonzero other])
  have "k \<in> nonzero s \<Longrightarrow> 0 < card (nonzero s)"
    using finite_nonzero [of s] by (auto simp: card_gt_0_iff)
  with ok card assms(1) k st_store_result(4,5) [of k v s] show ?thesis
    unfolding size_exact_def t by (auto split: if_splits)
qed

lemma size_exact_stores:
  "size_exact s \<Longrightarrow> wf_storage s \<Longrightarrow> persistent.store_all kvs s = (Inr (), t) \<Longrightarrow> size_exact t \<and> wf_storage t"
proof (induction kvs arbitrary: s)
  case (Cons kv kvs)
  then obtain a u where u: "st_store (fst kv) (snd kv) s = (Inr a, u)" "persistent.store_all kvs u = (Inr (), t)"
    by (auto simp: and_then_def split: prod.splits sum.splits)
  have "wf_storage u"
    using wf_storage_store [OF Cons.prems(2), of "fst kv" "snd kv"] u(1) by simp
  with Cons.IH [OF size_exact_store [OF Cons.prems(1) u(1)] _ u(2)] show ?case by simp
qed (simp add: ret_def)

section \<open>Export and import\<close>

lemma set_all_run:
  assumes "\<forall>(k, v) \<in> set kvs. 0 \<le> k"
  shows "set_all (map (\<lambda>(k, v). (format_hex 64 k, v)) kvs) s = (Inr (), fold (\<lambda>(k, v). set_raw k v) kvs s)"
  using assms
  by (induction kvs arbitrary: s) (auto simp: ret_def and_then_def lift_result_def modify_def parse_format_hex)

lemma fold_set_raw_get:
  "distinct (map fst kvs) \<Longrightarrow>
   get_raw (fold (\<lambda>(k, v). set_raw k v) kvs s) key
     = (case map_of kvs key of None \<Rightarrow> get_raw s key | Some v \<Rightarrow> v mod 2 ^ 256)"
proof (induction kvs arbitrary: s)
  case (Cons kv kvs)
  obtain k v where kv: "kv = (k, v)" by (cases kv)
  have "map_of kvs k = None"
    using Cons.prems kv by (simp add: map_of_eq_None_iff)
  with Cons show ?case
    by (simp add: kv set_raw_get word_update_def split: option.splits)
qed simp

lemma store_gas_original: "get_original (snd (store_gas kvs s)) = get_original s"
proof (induction kvs arbitrary: s)
  case (Cons kv kvs)
  show ?case
    using st_store_original [of "fst kv" "snd kv" s] Cons.IH [of "snd (st_store (fst kv) (snd kv) s)"]
    by (auto simp: and_then_def ret_def split: prod.splits sum.splits)
qed (simp add: ret_def)

lemma store_all_max_size: "st_max_size (snd (persistent.store_all kvs s)) = st_max_size s"
proof (induction kvs arbitrary: s)
  case (Cons kv kvs)
  show ?case
    using st_store_result(5) [of "fst kv" "snd kv" s] Cons.IH
    by (auto simp: and_then_def split: prod.splits sum.splits)
qed (simp add: ret_def)

lemma export_lookup:
  assumes "distinct (map fst xs)"
  shows "map_of (map (\<lambda>(k, slot). (k, current slot)) (filter (\<lambda>(k, slot). current slot \<noteq> 0) xs)) k
    = (case map_of xs k of None \<Rightarrow> None | Some slot \<Rightarrow> if current slot \<noteq> 0 then Some (current slot) else None)"
  using assms
proof (induction xs)
  case (Cons x xs)
  obtain j slot where x: "x = (j, slot)" by (cases x)
  have "map_of xs j = None"
    using Cons.prems x by (simp add: map_of_eq_None_iff)
  with Cons x show ?case by auto
qed simp

section \<open>Properties\<close>

text \<open>
  persistent and transient storage are stores of 256-bit words: after any stores in a row
  that return, a load of any key returns the last value stored under it modulo \<open>2^256\<close>, or what
  the key held before; transient storage keeps the keys of different contracts apart.
\<close>

lemma storage_last_write:
  "(persistent.store_all kvs s = (Inr (), t) \<longrightarrow>
      (\<exists>g u. st_load k t = (Inr (fold word_update kvs (get_raw s) k, g), u)))
   \<and> (transient.store_all akvs d = (Inr (), e) \<longrightarrow>
      ts_load ak e = (Inr (fold word_update akvs (ts_get d) ak, 100), e))"
  using persistent.load_after [of kvs s t k] transient.store_all [of akvs d e]
  by (auto simp: ts_load_def TLOAD_GAS_def)

text \<open>
  net gas metering of EIP-2200: after a commit, the gas of any stores in a row less the
  refund they leave is 100 per store, 2100 per key touched and the net price of each key's
  change from its value at the start of the transaction to its last value. What was
  written in between has no influence.
\<close>

lemma net_gas_metering:
  assumes "store_gas kvs (st_commit s) = (Inr g, t)"
  shows "g - pending_refund t = 100 * int (length kvs) + 2100 * int (card (fst ` set kvs))
    + (\<Sum>k\<in>fst ` set kvs. net_price (get_raw s k) (get_raw t k))"
proof -
  have acc: "accessed_keys (st_commit s) = {}" "pending_refund (st_commit s) = 0"
    by (simp_all add: st_commit_def)
  have "finite (accessed_keys (st_commit s))" by (simp add: acc)
  note net = store_gas_net [OF _ subset_refl this assms]
  have "get_original t = get_original (st_commit s)"
    using store_gas_original [of kvs "st_commit s"] assms by simp
  then have "total_price (fst ` set kvs) t = (\<Sum>k\<in>fst ` set kvs. net_price (get_raw s k) (get_raw t k))"
    by (simp add: total_price_def commit_get)
  moreover have "total_price (fst ` set kvs) (st_commit s) = 0"
    by (simp add: total_price_def commit_get net_price_def)
  ultimately show ?thesis
    using net acc by (simp add: SLOAD_WARM_def SLOAD_COLD_def)
qed

text \<open>
  in every storage object the operations can build, failing stores included, the pending
  refund is at least 4800 gas for each slot the transaction has cleared; it is never negative, so
  the clamp of \<open>get_refund\<close> never hides a debt, and every value is a 256-bit word.
\<close>

lemma refund_never_negative:
  assumes "storage_reachable s"
  shows "4800 * int (card (cleared s)) \<le> pending_refund s \<and> get_refund s = pending_refund s
    \<and> (\<forall>k. 0 \<le> get_raw s k \<and> get_raw s k < 2 ^ 256)"
proof -
  from storage_reachable_inv [OF assms] have "refund_backed s" and "wf_storage s" by auto
  then show ?thesis
    by (auto simp: refund_backed_def get_refund_def wf_storage_def SSTORE_CLEAR_REFUND_def)
qed

text \<open>
  \<open>rollback\<close> gives back every value the storage held at the last commit, whatever was
  stored since and also after a store that raised; \<open>commit\<close> keeps the values and makes
  them what a later rollback gives back.
\<close>

lemma rollback_restores:
  assumes "persistent.store_all kvs (st_commit s) = (r, t)"
  shows "get_raw (st_rollback t) = get_raw s \<and> get_raw (st_commit s) = get_raw s
    \<and> get_refund (st_rollback t) = 0"
  using store_all_original [of kvs "st_commit s"] assms
  by (simp add: rollback_get commit_get) (simp add: get_refund_def st_rollback_def)

text \<open>
  a contract's size counter is 32 bytes per non-zero slot and stays within the limit as
  long as its stores return.
\<close>

lemma storage_size_exact:
  assumes "persistent.store_all kvs (new_storage a) = (Inr (), t)"
  shows "size_bytes t = 32 * slot_count t \<and> size_bytes t \<le> 10 * 1024 * 1024"
proof -
  have "size_exact (new_storage a)"
    by (simp add: size_exact_def nonzero_def get_raw_def new_storage_def)
  from size_exact_stores [OF this wf_new_storage assms] have "size_exact t" "wf_storage t" by auto
  moreover have "st_max_size t = 10 * 1024 * 1024"
    using store_all_max_size [of kvs "new_storage a"] assms by (simp add: new_storage_def)
  ultimately show ?thesis
    by (simp add: size_exact_def slot_count_nonzero wf_storage_def)
qed

text \<open>
  a store past the contract's limit raises, but the new value is already in the slot:
  the next load returns it and the counter does not include it. The source checks the
  limit after \<open>slot.current = value\<close>.
\<close>

lemma storage_limit_leaks:
  assumes "get_raw s k = 0" and "v mod 2 ^ 256 \<noteq> 0" and "size_bytes s + 32 > st_max_size s"
  shows "fst (st_store k v s) = Inl (VMExecutionError StorageLimit)
    \<and> get_raw (snd (st_store k v s)) k = v mod 2 ^ 256
    \<and> size_bytes (snd (st_store k v s)) = size_bytes s"
  using assms st_store_result [of k v s]
  by (simp add: st_store_get word_update_def)

text \<open>
  exporting a storage and importing the result gives back every value, for slot numbers
  that are not negative.
\<close>

lemma storage_dict_roundtrip:
  assumes "storage_reachable s" and "\<forall>k \<in> fst ` set (slots s). 0 \<le> k"
  shows "\<exists>t. from_dict a (to_dict s) = Inr t \<and> get_raw t = get_raw s"
proof -
  let ?kvs = "map (\<lambda>(k, slot). (k, current slot)) (filter (\<lambda>(k, slot). current slot \<noteq> 0) (slots s))"
  let ?t = "fold (\<lambda>(k, v). set_raw k v) ?kvs (new_storage a)"
  from storage_reachable_inv [OF assms(1)] have wf: "wf_storage s" by simp
  have "to_dict s = map (\<lambda>(k, v). (format_hex 64 k, v)) ?kvs"
    by (simp add: to_dict_def comp_def case_prod_beta)
  moreover have "\<forall>(k, v) \<in> set ?kvs. 0 \<le> k"
    using assms(2) by force
  ultimately have run: "from_dict a (to_dict s) = Inr ?t"
    by (simp only: from_dict_def set_all_run prod.case sum.case)
  have dist: "distinct (map fst (slots s))"
    using wf by (simp add: wf_storage_def)
  then have "distinct (map fst ?kvs)"
    by (simp add: comp_def case_prod_beta distinct_map_filter)
  note get = fold_set_raw_get [OF this, of "new_storage a"]
  have "get_raw ?t k = get_raw s k" for k
  proof -
    have "get_raw s k mod 2 ^ 256 = get_raw s k"
      using wf by (simp add: wf_storage_def)
    then show ?thesis
      unfolding get export_lookup [OF dist]
      by (simp add: get_raw_def new_storage_def split: option.splits)
  qed
  with run show ?thesis by (intro exI [of _ ?t]) (simp add: fun_eq_iff)
qed

end
