(* ===== verification/NonceTracker.thy ===== *)
theory NonceTracker
  imports Prelude Complex_Main "HOL-Library.AList"
begin

text \<open>
  \<open>src/xai/core/transactions/nonce_tracker.py\<close>: the last confirmed nonce of each
  address, the nonces reserved by the mempool and the batched writes to the nonce file.

  The lock is held for a whole method, so a method is one step. The monotonic clock and the
  disk are outside the source: the state carries what each reading of the clock returns and
  what each write leaves on disk when it fails.
\<close>

section \<open>State\<close>

datatype nonce_disk = NoFile | Saved "(string \<times> int) list" | Corrupt

record nonce_tracker =
  nonces :: "(string \<times> int) list"
  pending_nonces :: "(string \<times> int) list"
  dirty :: bool
  pending_changes :: int
  last_save_time :: rat
  nonce_file :: nonce_disk
  mono_clock :: "nat \<Rightarrow> rat"
  mono_reads :: nat
  write_fault :: "nat \<Rightarrow> nonce_disk option"
  writes :: nat

definition BATCH_SIZE :: int where "BATCH_SIZE = 100"
definition BATCH_TIMEOUT :: rat where "BATCH_TIMEOUT = 1"

definition monotonic :: "(nonce_tracker, rat) meth" where
  "monotonic s = (Inr (mono_clock s (mono_reads s)), s\<lparr>mono_reads := mono_reads s + 1\<rparr>)"

section \<open>Persistence\<close>

definition load_nonces :: "nonce_tracker \<Rightarrow> nonce_tracker" where
  "load_nonces s =
     (case nonce_file s of
        NoFile \<Rightarrow> s
      | Saved m \<Rightarrow> s\<lparr>nonces := m\<rparr>
      | Corrupt \<Rightarrow> s\<lparr>nonces := []\<rparr>)"

definition new_tracker :: "nonce_disk \<Rightarrow> (nat \<Rightarrow> rat) \<Rightarrow> (nat \<Rightarrow> nonce_disk option) \<Rightarrow> nonce_tracker" where
  "new_tracker d clock faults =
     load_nonces \<lparr>nonces = [], pending_nonces = [], dirty = False, pending_changes = 0,
       last_save_time = clock 0, nonce_file = d, mono_clock = clock, mono_reads = 1,
       write_fault = faults, writes = 0\<rparr>"

definition save_nonces :: "bool \<Rightarrow> (nonce_tracker, unit) meth" where
  "save_nonces force s =
     (if \<not> dirty s \<and> \<not> force then ret () s
      else let s' = s\<lparr>writes := writes s + 1\<rparr> in
        case write_fault s (writes s) of
          None \<Rightarrow> and_then monotonic (\<lambda>t. modify (\<lambda>s.
              s\<lparr>dirty := False, pending_changes := 0, last_save_time := t\<rparr>))
            (s'\<lparr>nonce_file := Saved (nonces s)\<rparr>)
        | Some d \<Rightarrow> ret () (s'\<lparr>nonce_file := d\<rparr>))"

definition maybe_save_nonces :: "(nonce_tracker, unit) meth" where
  "maybe_save_nonces =
     and_then (modify (\<lambda>s. s\<lparr>dirty := True, pending_changes := pending_changes s + 1\<rparr>)) (\<lambda>_.
     and_then monotonic (\<lambda>now.
     and_then (reads (\<lambda>s. pending_changes s \<ge> BATCH_SIZE \<or> now - last_save_time s \<ge> BATCH_TIMEOUT)) (\<lambda>full.
     if full then save_nonces True else ret ())))"

definition flush :: "(nonce_tracker, unit) meth" where
  "flush s = (if dirty s then save_nonces True s else ret () s)"

section \<open>Nonces\<close>

definition get_confirmed_nonce :: "string \<Rightarrow> nonce_tracker \<Rightarrow> int" where
  "get_confirmed_nonce address s = (case map_of (nonces s) address of None \<Rightarrow> -1 | Some n \<Rightarrow> n)"

definition get_effective_nonce :: "string \<Rightarrow> nonce_tracker \<Rightarrow> int" where
  "get_effective_nonce address s =
     (let confirmed = get_confirmed_nonce address s in
      case map_of (pending_nonces s) address of
        None \<Rightarrow> confirmed
      | Some pending \<Rightarrow> if pending > confirmed then pending else confirmed)"

definition get_nonce :: "string \<Rightarrow> nonce_tracker \<Rightarrow> int" where
  "get_nonce address s = get_confirmed_nonce address s"

definition get_next_nonce :: "string \<Rightarrow> nonce_tracker \<Rightarrow> int" where
  "get_next_nonce address s = get_effective_nonce address s + 1"

definition validate_nonce :: "string \<Rightarrow> int \<Rightarrow> nonce_tracker \<Rightarrow> bool" where
  "validate_nonce address nonce s \<longleftrightarrow> nonce = get_effective_nonce address s + 1"

definition reserve_nonce :: "string \<Rightarrow> int \<Rightarrow> (nonce_tracker, unit) meth" where
  "reserve_nonce address nonce s =
     (if nonce \<le> get_effective_nonce address s then ret () s
      else ret () (s\<lparr>pending_nonces := AList.update address nonce (pending_nonces s)\<rparr>))"

text \<open>\<open>if pending is not None and pending <= nonce: self.pending_nonces.pop(address)\<close>\<close>

definition drop_pending :: "string \<Rightarrow> int \<Rightarrow> nonce_tracker \<Rightarrow> nonce_tracker" where
  "drop_pending address nonce s =
     (case map_of (pending_nonces s) address of
        Some pending \<Rightarrow> if pending \<le> nonce then s\<lparr>pending_nonces := AList.delete address (pending_nonces s)\<rparr> else s
      | None \<Rightarrow> s)"

definition increment_nonce :: "string \<Rightarrow> int option \<Rightarrow> (nonce_tracker, unit) meth" where
  "increment_nonce address nonce s =
     (let confirmed = get_confirmed_nonce address s;
          asked = (case nonce of Some n \<Rightarrow> n | None \<Rightarrow> confirmed + 1);
          next_nonce = (if asked < confirmed then confirmed else asked)
      in maybe_save_nonces
           (drop_pending address next_nonce (s\<lparr>nonces := AList.update address next_nonce (nonces s)\<rparr>)))"

definition set_nonce :: "string \<Rightarrow> int \<Rightarrow> (nonce_tracker, unit) meth" where
  "set_nonce address nonce s =
     (if nonce < -1 then raise ValueError s
      else maybe_save_nonces
             (drop_pending address nonce (s\<lparr>nonces := AList.update address nonce (nonces s)\<rparr>)))"

definition reset_all :: "(nonce_tracker, unit) meth" where
  "reset_all s = save_nonces True (s\<lparr>nonces := [], pending_nonces := []\<rparr>)"

definition reset_nonce :: "string \<Rightarrow> (nonce_tracker, unit) meth" where
  "reset_nonce address s =
     maybe_save_nonces (s\<lparr>nonces := AList.update address (-1) (nonces s),
       pending_nonces := AList.delete address (pending_nonces s)\<rparr>)"

text \<open>The dict of \<open>get_stats\<close>: addresses, highest nonce, sum of the nonces.\<close>

definition get_stats :: "nonce_tracker \<Rightarrow> int \<times> int \<times> int" where
  "get_stats s =
     (int (length (nonces s)),
      (if nonces s = [] then 0 else Max (set (map snd (nonces s)))),
      sum_list (map snd (nonces s)))"

definition nonce_snapshot :: "nonce_tracker \<Rightarrow> (string \<times> int) list \<times> (string \<times> int) list" where
  "nonce_snapshot s = (nonces s, pending_nonces s)"

definition nonce_restore ::
    "(string \<times> int) list \<times> (string \<times> int) list \<Rightarrow> (nonce_tracker, unit) meth" where
  "nonce_restore snapshot s =
     save_nonces True (s\<lparr>nonces := fst snapshot, pending_nonces := snd snapshot\<rparr>)"

section \<open>Saving touches the nonces of no address\<close>

lemma save_frame:
  "fst (save_nonces f s) = Inr ()"
  "nonces (snd (save_nonces f s)) = nonces s"
  "pending_nonces (snd (save_nonces f s)) = pending_nonces s"
  by (simp_all add: save_nonces_def meth_simps monotonic_def Let_def split: option.splits)

lemma maybe_save_frame:
  "fst (maybe_save_nonces s) = Inr ()"
  "nonces (snd (maybe_save_nonces s)) = nonces s"
  "pending_nonces (snd (maybe_save_nonces s)) = pending_nonces s"
  by (simp_all add: maybe_save_nonces_def meth_simps monotonic_def save_nonces_def Let_def split: option.splits)

lemma confirmed_frame:
  "nonces t = nonces s \<Longrightarrow> get_confirmed_nonce a t = get_confirmed_nonce a s"
  by (simp add: get_confirmed_nonce_def)

lemma effective_frame:
  "nonces t = nonces s \<Longrightarrow> pending_nonces t = pending_nonces s \<Longrightarrow>
   get_effective_nonce a t = get_effective_nonce a s"
  by (simp add: get_effective_nonce_def get_confirmed_nonce_def)

lemma drop_pending_nonces [simp]: "nonces (drop_pending a n s) = nonces s"
  by (simp add: drop_pending_def split: option.splits)

lemma drop_pending_lookup:
  "map_of (pending_nonces (drop_pending a n s)) b =
     (case map_of (pending_nonces s) b of
        Some p \<Rightarrow> if b = a \<and> p \<le> n then None else Some p | None \<Rightarrow> None)"
  by (simp add: drop_pending_def delete_conv' split: option.splits)

lemma confirmed_le_effective: "get_confirmed_nonce a s \<le> get_effective_nonce a s"
  by (simp add: get_effective_nonce_def Let_def split: option.splits)

definition next_confirmed :: "string \<Rightarrow> int option \<Rightarrow> nonce_tracker \<Rightarrow> int" where
  "next_confirmed a n s = max (get_confirmed_nonce a s)
     (case n of Some k \<Rightarrow> k | None \<Rightarrow> get_confirmed_nonce a s + 1)"

lemma increment_state:
  "increment_nonce a n s = maybe_save_nonces (drop_pending a (next_confirmed a n s)
     (s\<lparr>nonces := AList.update a (next_confirmed a n s) (nonces s)\<rparr>))"
proof -
  have "(if k < c then c else k) = max c k" for c k :: int
    by simp
  then show ?thesis
    unfolding increment_nonce_def Let_def next_confirmed_def by presburger
qed

lemma increment_confirmed:
  "get_confirmed_nonce b (snd (increment_nonce a n s)) =
     (if b = a then next_confirmed a n s else get_confirmed_nonce b s)"
  by (simp add: increment_state get_confirmed_nonce_def maybe_save_frame update_conv')

lemma increment_pending:
  "map_of (pending_nonces (snd (increment_nonce a n s))) b =
     (case map_of (pending_nonces s) b of
        Some p \<Rightarrow> if b = a \<and> p \<le> next_confirmed a n s then None else Some p | None \<Rightarrow> None)"
  by (simp add: increment_state maybe_save_frame drop_pending_lookup)

lemma increment_effective:
  "get_effective_nonce b (snd (increment_nonce a n s)) =
     (if b = a then max (get_effective_nonce a s) (next_confirmed a n s) else get_effective_nonce b s)"
proof -
  have "get_confirmed_nonce a s \<le> next_confirmed a n s"
    by (simp add: next_confirmed_def)
  then show ?thesis
    unfolding get_effective_nonce_def Let_def increment_confirmed increment_pending
    by (auto split: option.splits)
qed

lemma reserve_effective:
  "get_effective_nonce b (snd (reserve_nonce a n s)) =
     (if b = a then max (get_effective_nonce a s) n else get_effective_nonce b s)"
  by (auto simp: reserve_nonce_def ret_def get_effective_nonce_def get_confirmed_nonce_def Let_def update_conv'
      split: option.splits)

lemma reserve_confirmed: "get_confirmed_nonce b (snd (reserve_nonce a n s)) = get_confirmed_nonce b s"
  by (simp add: reserve_nonce_def ret_def get_confirmed_nonce_def)

text \<open>What the mempool and block processing do between two resets.\<close>

inductive nonce_step :: "nonce_tracker \<Rightarrow> nonce_tracker \<Rightarrow> bool" where
  reserve: "nonce_step s (snd (reserve_nonce a n s))"
| increment: "nonce_step s (snd (increment_nonce a n s))"
| flush: "nonce_step s (snd (flush s))"

lemma flush_frame: "nonces (snd (flush s)) = nonces s" "pending_nonces (snd (flush s)) = pending_nonces s"
  by (simp_all add: flush_def ret_def save_frame)

lemma nonce_steps_mono: "nonce_step\<^sup>*\<^sup>* s t \<Longrightarrow> get_effective_nonce a s \<le> get_effective_nonce a t"
proof (induction rule: rtranclp_induct)
  case (step t u)
  from step(2) have "get_effective_nonce a t \<le> get_effective_nonce a u"
    by cases (simp_all add: reserve_effective increment_effective effective_frame [OF flush_frame])
  with step(3) show ?case by simp
qed simp

section \<open>Batching\<close>

text \<open>
  At most 99 confirmed changes are not on disk, and when nothing is dirty the file holds the
  nonces (writes that do not fail).
\<close>

definition disk_nonces :: "nonce_disk \<Rightarrow> (string \<times> int) list" where
  "disk_nonces d = (case d of NoFile \<Rightarrow> [] | Saved m \<Rightarrow> m | Corrupt \<Rightarrow> [])"

lemma new_tracker_nonces: "nonces (new_tracker d clock faults) = disk_nonces d"
  by (simp add: new_tracker_def load_nonces_def disk_nonces_def split: nonce_disk.splits)

definition batch_inv :: "nonce_tracker \<Rightarrow> bool" where
  "batch_inv s \<longleftrightarrow> (\<forall>k. write_fault s k = None) \<and> 0 \<le> pending_changes s \<and> pending_changes s < BATCH_SIZE
     \<and> (\<not> dirty s \<longrightarrow> disk_nonces (nonce_file s) = nonces s)"

lemma batch_inv_save:
  "\<forall>k. write_fault s k = None \<Longrightarrow> batch_inv (snd (save_nonces True s)) \<and> \<not> dirty (snd (save_nonces True s))"
  by (simp add: save_nonces_def meth_simps monotonic_def Let_def batch_inv_def BATCH_SIZE_def disk_nonces_def)

lemma batch_inv_maybe_save:
  assumes "\<forall>k. write_fault s k = None" and "0 \<le> pending_changes s" and "pending_changes s < BATCH_SIZE"
  shows "batch_inv (snd (maybe_save_nonces s))"
  using assms
  by (auto simp: maybe_save_nonces_def and_then_def modify_def monotonic_def reads_def ret_def batch_inv_save)
    (simp add: batch_inv_def)

lemma drop_pending_frame:
  "write_fault (drop_pending a n s) = write_fault s" "pending_changes (drop_pending a n s) = pending_changes s"
  by (simp_all add: drop_pending_def split: option.splits)

lemma batch_inv_upd:
  assumes "batch_inv s"
  shows "batch_inv (snd (maybe_save_nonces (drop_pending a n (s\<lparr>nonces := m\<rparr>))))"
    and "batch_inv (snd (maybe_save_nonces (s\<lparr>nonces := m, pending_nonces := p\<rparr>)))"
  by (rule batch_inv_maybe_save; use assms in \<open>simp add: batch_inv_def drop_pending_frame\<close>)+

text \<open>Every tracker the operations can build when no write fails.\<close>

inductive tracker_reachable :: "nonce_tracker \<Rightarrow> bool" where
  new: "\<forall>k. faults k = None \<Longrightarrow> tracker_reachable (new_tracker d clock faults)"
| reserve: "tracker_reachable s \<Longrightarrow> tracker_reachable (snd (reserve_nonce a n s))"
| increment: "tracker_reachable s \<Longrightarrow> tracker_reachable (snd (increment_nonce a k s))"
| set: "tracker_reachable s \<Longrightarrow> tracker_reachable (snd (set_nonce a n s))"
| flush: "tracker_reachable s \<Longrightarrow> tracker_reachable (snd (flush s))"
| reset: "tracker_reachable s \<Longrightarrow> tracker_reachable (snd (reset_all s))"
| reset_nonce: "tracker_reachable s \<Longrightarrow> tracker_reachable (snd (reset_nonce a s))"
| restore: "tracker_reachable s \<Longrightarrow> tracker_reachable (snd (nonce_restore snap s))"

lemma tracker_reachable_inv: "tracker_reachable s \<Longrightarrow> batch_inv s"
proof (induction rule: tracker_reachable.induct)
  case (new faults d clock)
  have "nonce_file (new_tracker d clock faults) = d"
    by (simp add: new_tracker_def load_nonces_def split: nonce_disk.splits)
  moreover have "write_fault (new_tracker d clock faults) = faults \<and> pending_changes (new_tracker d clock faults) = 0"
    by (simp add: new_tracker_def load_nonces_def split: nonce_disk.splits)
  ultimately show ?case using new by (simp add: batch_inv_def BATCH_SIZE_def new_tracker_nonces)
next
  case (reserve s a n)
  then show ?case by (simp add: reserve_nonce_def ret_def batch_inv_def)
next
  case (increment s a k)
  show ?case unfolding increment_state by (rule batch_inv_upd [OF increment.IH])
next
  case (set s a n)
  then show ?case using batch_inv_upd(1) by (simp add: set_nonce_def raise_def)
next
  case (flush s)
  then show ?case using batch_inv_save [of s] by (auto simp: flush_def ret_def batch_inv_def)
next
  case (reset s)
  then show ?case using batch_inv_save [of "s\<lparr>nonces := [], pending_nonces := []\<rparr>"]
    by (auto simp: reset_all_def batch_inv_def)
next
  case (reset_nonce s a)
  show ?case unfolding reset_nonce_def by (rule batch_inv_upd [OF reset_nonce.IH])
next
  case (restore s snap)
  then show ?case
    using batch_inv_save [of "s\<lparr>nonces := fst snap, pending_nonces := snd snap\<rparr>"]
    by (auto simp: nonce_restore_def batch_inv_def)
qed

section \<open>Properties\<close>

text \<open>
  C9: no replay: once a nonce that \<open>validate_nonce\<close> accepted for an address is
  confirmed with \<open>increment_nonce\<close>, it is never accepted for that address again,
  whatever reservations, confirmations (of any address) and flushes follow; and reserving
  an accepted nonce makes the following one the only nonce accepted next.
\<close>

theorem nonce_no_replay:
  assumes "validate_nonce a n s" and "nonce_step\<^sup>*\<^sup>* (snd (increment_nonce a (Some n) s)) u"
  shows "\<not> validate_nonce a n u \<and> n < get_next_nonce a u
    \<and> (\<forall>m. validate_nonce a m (snd (reserve_nonce a n s)) \<longleftrightarrow> m = n + 1)"
proof -
  have "n \<le> get_effective_nonce a (snd (increment_nonce a (Some n) s))"
    by (simp add: increment_effective next_confirmed_def)
  also have "\<dots> \<le> get_effective_nonce a u"
    by (rule nonce_steps_mono [OF assms(2)])
  finally show ?thesis
    using assms(1) by (simp add: validate_nonce_def get_next_nonce_def reserve_effective)
qed

theorem nonce_no_replay_witness:
  "validate_nonce ''a'' 0 (new_tracker NoFile (\<lambda>_. 0) (\<lambda>_. None))
   \<and> \<not> validate_nonce ''a'' 0 (snd (reserve_nonce ''b'' 0
         (snd (increment_nonce ''a'' (Some 0) (new_tracker NoFile (\<lambda>_. 0) (\<lambda>_. None))))))"
proof -
  let ?s = "new_tracker NoFile (\<lambda>_. 0) (\<lambda>_. None)"
  have v: "validate_nonce ''a'' 0 ?s"
    by (simp add: validate_nonce_def get_effective_nonce_def get_confirmed_nonce_def new_tracker_def load_nonces_def)
  moreover have "nonce_step\<^sup>*\<^sup>* (snd (increment_nonce ''a'' (Some 0) ?s))
      (snd (reserve_nonce ''b'' 0 (snd (increment_nonce ''a'' (Some 0) ?s))))"
    by (rule r_into_rtranclp) (rule nonce_step.reserve)
  ultimately show ?thesis using nonce_no_replay [of "''a''" 0 ?s] by blast
qed

text \<open>
  while writes succeed, fewer than 100 confirmed changes are ever missing from the nonce file, and
  after a flush a tracker started from the file has the same confirmed nonces.
\<close>

lemma nonce_restart:
  assumes "tracker_reachable s"
  shows "0 \<le> pending_changes s \<and> pending_changes s < 100
    \<and> nonces (new_tracker (nonce_file (snd (flush s))) clock faults) = nonces s"
proof -
  from tracker_reachable_inv [OF assms] have inv: "batch_inv s" .
  from tracker_reachable_inv [OF tracker_reachable.flush [OF assms]] have "batch_inv (snd (flush s))" .
  moreover have "\<not> dirty (snd (flush s))"
    using inv batch_inv_save [of s] by (auto simp: flush_def ret_def batch_inv_def)
  ultimately have "nonces (new_tracker (nonce_file (snd (flush s))) clock faults) = nonces s"
    by (simp add: new_tracker_nonces batch_inv_def flush_frame)
  with inv show ?thesis by (simp add: batch_inv_def BATCH_SIZE_def)
qed

end
