(* ===== verification/EvmContext.thy ===== *)
theory EvmContext
  imports EvmStack EvmMemory EvmStorage NonceTracker
begin

text \<open>
  \<open>src/xai/core/vm/evm/context.py\<close>: the call frame, the block context and the execution
  context with its balances, code, nonces, warm addresses, snapshots and logs.

  The blockchain behind the context is the record \<open>chain\<close>: its \<open>contracts\<close> dict and
  nonce tracker, which the context writes, and its balance lookup, a function of the
  address (the context never changes it). Python objects that two variables share are
  modelled where they are changed: the log list of a frame is kept in \<open>call_stack\<close>, the
  only place the source appends to it through, and the rest of a frame by the interpreter
  that runs it.
\<close>

section \<open>Call frames\<close>

datatype call_type = CALL | CALLCODE | DELEGATECALL | STATICCALL | CREATE | CREATE2

record evm_log =
  log_address :: string
  log_topics :: "int list"
  log_data :: "byte list"

record call_context =
  call_type :: call_type
  depth :: int
  address :: string
  caller :: string
  origin :: string
  call_value :: int
  gas :: int
  code :: "byte list"
  calldata :: "byte list"
  pc :: int
  stack :: evm_stack
  memory :: evm_memory
  return_data :: "byte list"
  static :: bool
  out_data :: "byte list"
  halted :: bool
  reverted :: bool
  revert_reason :: string

text \<open>The constructor with \<open>__post_init__\<close>, which forces static mode for STATICCALL.\<close>

definition new_call ::
    "call_type \<Rightarrow> int \<Rightarrow> string \<Rightarrow> string \<Rightarrow> string \<Rightarrow> int \<Rightarrow> int \<Rightarrow> byte list \<Rightarrow> byte list \<Rightarrow> bool \<Rightarrow> call_context" where
  "new_call t d a c ori v g cd cdata st =
     \<lparr>call_type = t, depth = d, address = a, caller = c, origin = ori, call_value = v, gas = g,
      code = cd, calldata = cdata, pc = 0, stack = new_stack, memory = new_memory,
      return_data = [], static = (st \<or> t = STATICCALL), out_data = [], halted = False,
      reverted = False, revert_reason = []\<rparr>"

definition use_gas :: "int \<Rightarrow> (call_context, bool) meth" where
  "use_gas amount c =
     (if amount > gas c then (Inr False, c) else (Inr True, c\<lparr>gas := gas c - amount\<rparr>))"

definition refund_gas :: "int \<Rightarrow> call_context \<Rightarrow> call_context" where
  "refund_gas amount c = c\<lparr>gas := gas c + amount\<rparr>"

section \<open>Block and chain\<close>

record block_context =
  block_number :: int
  block_timestamp :: int
  block_gas_limit :: int
  coinbase :: string
  prevrandao :: int
  base_fee :: int
  chain_id :: int
  blob_base_fee :: int

definition get_block_hash :: "int \<Rightarrow> block_context \<Rightarrow> int" where
  "get_block_hash n b = 0"

text \<open>The entry of a contract in \<open>blockchain.contracts\<close>, as far as the context reads it.\<close>

datatype code_field = CodeHex string | CodeBytes "byte list"
datatype storage_key = KeyText string | KeyInt int

text \<open>
  The metadata of a built-in token, of which the fields the token contracts read are kept;
  \<open>m_balances\<close> is a dict where the entry has one.
\<close>

record token_meta =
  m_name :: "string option"
  m_symbol :: "string option"
  m_decimals :: "int option"
  m_owner :: "string option"
  m_max_supply :: "int option"
  m_balances :: "(string \<times> int) list option"
  m_initial_supply :: "int option"
  m_total_supply :: "int option"
  m_initial_holder :: "string option"

record contract_record =
  c_code :: "code_field option"
  c_storage :: "(storage_key \<times> int) list"
  c_type :: "string option"
  c_metadata :: "token_meta option"

record chain =
  contracts :: "(string \<times> contract_record) list"
  chain_balance :: "string \<Rightarrow> int"
  tracker :: nonce_tracker

section \<open>The execution context\<close>

record snapshot =
  sn_balance_changes :: "(string \<times> int) list"
  sn_created_accounts :: "string set"
  sn_destroyed_accounts :: "string set"
  sn_logs_count :: nat
  sn_gas_refund :: int

record execution_context =
  block :: block_context
  tx_origin :: string
  tx_gas_price :: int
  tx_gas_limit :: int
  tx_value :: int
  blockchain :: "chain option"
  call_stack :: "evm_log list list"
  max_call_depth :: int
  storage :: "(string \<times> evm_storage) list"
  transient_store :: transient_storage
  balance_changes :: "(string \<times> int) list"
  created_accounts :: "string set"
  destroyed_accounts :: "string set"
  gas_used :: int
  gas_refund :: int
  logs :: "evm_log list"
  accessed_addresses :: "string set"
  accessed_storage_keys :: "(string \<times> int set) list"
  snapshots :: "snapshot list"

definition new_context :: "block_context \<Rightarrow> string \<Rightarrow> int \<Rightarrow> int \<Rightarrow> int \<Rightarrow> chain option \<Rightarrow> execution_context" where
  "new_context b ori price limit v bc =
     \<lparr>block = b, tx_origin = ori, tx_gas_price = price, tx_gas_limit = limit, tx_value = v,
      blockchain = bc, call_stack = [], max_call_depth = 1024, storage = [], transient_store = [],
      balance_changes = [], created_accounts = {}, destroyed_accounts = {}, gas_used = 0,
      gas_refund = 0, logs = [], accessed_addresses = {}, accessed_storage_keys = [], snapshots = []\<rparr>"

definition call_depth :: "execution_context \<Rightarrow> int" where
  "call_depth x = int (length (call_stack x))"

text \<open>The stack of frames has its top first; a frame is pushed with its log list.\<close>

definition push_call :: "evm_log list \<Rightarrow> (execution_context, bool) meth" where
  "push_call frame_logs x =
     (if int (length (call_stack x)) \<ge> max_call_depth x then (Inr False, x)
      else (Inr True, x\<lparr>call_stack := frame_logs # call_stack x\<rparr>))"

definition pop_call :: "execution_context \<Rightarrow> execution_context" where
  "pop_call x = x\<lparr>call_stack := tl (call_stack x)\<rparr>"

definition contract_data :: "string \<Rightarrow> chain \<Rightarrow> contract_record" where
  "contract_data a bc =
     (case map_of (contracts bc) (to_upper a) of
        Some r \<Rightarrow> r | None \<Rightarrow> \<lparr>c_code = None, c_storage = [], c_type = None, c_metadata = None\<rparr>)"

section \<open>Storage\<close>

text \<open>\<open>int(key, 16) if key.startswith("0x") else int(key)\<close> for a text key.\<close>

definition parse_key :: "storage_key \<Rightarrow> exn + int" where
  "parse_key k =
     (case k of
        KeyText s \<Rightarrow> (if starts_with ''0x'' s then parse_int 16 s else parse_int 10 s)
      | KeyInt n \<Rightarrow> Inr n)"

primrec load_slots :: "(storage_key \<times> int) list \<Rightarrow> (evm_storage, unit) meth" where
  "load_slots [] = ret ()"
| "load_slots (kv # kvs) =
     and_then (lift_result (parse_key (fst kv))) (\<lambda>key.
     and_then (modify (set_raw key (snd kv))) (\<lambda>_. load_slots kvs))"

definition on_storage :: "string \<Rightarrow> (evm_storage, 'a) meth \<Rightarrow> (execution_context, 'a) meth" where
  "on_storage a m x =
     (case m (case map_of (storage x) a of Some s \<Rightarrow> s | None \<Rightarrow> new_storage a) of
        (r, s') \<Rightarrow> (r, x\<lparr>storage := AList.update a s' (storage x)\<rparr>))"

definition load_storage_from_chain :: "string \<Rightarrow> (execution_context, unit) meth" where
  "load_storage_from_chain a x =
     (case blockchain x of
        None \<Rightarrow> ret () x
      | Some bc \<Rightarrow> on_storage a (load_slots (c_storage (contract_data a bc))) x)"

definition get_storage :: "string \<Rightarrow> (execution_context, unit) meth" where
  "get_storage a x =
     (if map_of (storage x) a = None
      then load_storage_from_chain a (x\<lparr>storage := AList.update a (new_storage a) (storage x)\<rparr>)
      else ret () x)"

section \<open>Balances\<close>

definition get_balance :: "string \<Rightarrow> execution_context \<Rightarrow> int" where
  "get_balance a x =
     (case map_of (balance_changes x) a of
        Some b \<Rightarrow> b
      | None \<Rightarrow> (case blockchain x of Some bc \<Rightarrow> chain_balance bc a | None \<Rightarrow> 0))"

definition set_balance :: "string \<Rightarrow> int \<Rightarrow> execution_context \<Rightarrow> execution_context" where
  "set_balance a b x = x\<lparr>balance_changes := AList.update a b (balance_changes x)\<rparr>"

definition transfer :: "string \<Rightarrow> string \<Rightarrow> int \<Rightarrow> (execution_context, bool) meth" where
  "transfer sender recipient amount x =
     (let sender_balance = get_balance sender x in
      if sender_balance < amount then (Inr False, x)
      else let x1 = set_balance sender (sender_balance - amount) x
           in (Inr True, set_balance recipient (get_balance recipient x1 + amount) x1))"

section \<open>Code and nonces\<close>

definition get_code :: "string \<Rightarrow> execution_context \<Rightarrow> exn + byte list" where
  "get_code a x =
     (case blockchain x of
        None \<Rightarrow> Inr []
      | Some bc \<Rightarrow> (case c_code (contract_data a bc) of
            None \<Rightarrow> Inr []
          | Some (CodeHex h) \<Rightarrow> fromhex h
          | Some (CodeBytes bs) \<Rightarrow> Inr bs))"

definition EMPTY_CODE_HASH :: int where
  "EMPTY_CODE_HASH = 0xC5D2460186F7233C927E7DB2DCC703C0E500B653CA82273B7BFAD8045D85A470"

text \<open>The hash function \<open>hashlib.sha3_256\<close> is an argument.\<close>

definition get_code_hash :: "(byte list \<Rightarrow> byte list) \<Rightarrow> string \<Rightarrow> execution_context \<Rightarrow> exn + int" where
  "get_code_hash sha3 a x =
     map_sum id (\<lambda>bs. if bs = [] then EMPTY_CODE_HASH else from_bytes (sha3 bs)) (get_code a x)"

definition set_code :: "string \<Rightarrow> byte list \<Rightarrow> execution_context \<Rightarrow> execution_context" where
  "set_code a bs x =
     (case blockchain x of
        None \<Rightarrow> x
      | Some bc \<Rightarrow>
          let normalized = to_upper a;
              r = contract_data a bc;
              r' = r\<lparr>c_code := Some (CodeHex (if bs \<noteq> [] then hex_of_bytes bs else []))\<rparr>
          in x\<lparr>blockchain := Some (bc\<lparr>contracts := AList.update normalized r' (contracts bc)\<rparr>),
               created_accounts := insert a (created_accounts x)\<rparr>)"

definition ctx_get_nonce :: "string \<Rightarrow> execution_context \<Rightarrow> int" where
  "ctx_get_nonce a x =
     (case blockchain x of Some bc \<Rightarrow> get_nonce a (tracker bc) | None \<Rightarrow> 0)"

definition ctx_increment_nonce :: "string \<Rightarrow> (execution_context, unit) meth" where
  "ctx_increment_nonce a x =
     (case blockchain x of
        None \<Rightarrow> ret () x
      | Some bc \<Rightarrow>
          (case set_nonce a (get_nonce a (tracker bc) + 1) (tracker bc) of
             (r, t) \<Rightarrow> (r, x\<lparr>blockchain := Some (bc\<lparr>tracker := t\<rparr>)\<rparr>)))"

section \<open>Access lists\<close>

definition warm_address :: "string \<Rightarrow> (execution_context, int) meth" where
  "warm_address a x =
     (if a \<in> accessed_addresses x then (Inr 0, x)
      else (Inr 2600, x\<lparr>accessed_addresses := insert a (accessed_addresses x)\<rparr>))"

definition keys_of :: "string \<Rightarrow> execution_context \<Rightarrow> int set" where
  "keys_of a x = (case map_of (accessed_storage_keys x) a of Some ks \<Rightarrow> ks | None \<Rightarrow> {})"

definition warm_storage_key :: "string \<Rightarrow> int \<Rightarrow> (execution_context, int) meth" where
  "warm_storage_key a key x =
     (let x1 = (if map_of (accessed_storage_keys x) a = None
                then x\<lparr>accessed_storage_keys := AList.update a {} (accessed_storage_keys x)\<rparr> else x)
      in if key \<in> keys_of a x1 then (Inr 0, x1)
         else (Inr 2100, x1\<lparr>accessed_storage_keys :=
                 AList.update a (insert key (keys_of a x1)) (accessed_storage_keys x1)\<rparr>))"

definition is_warm_address :: "string \<Rightarrow> execution_context \<Rightarrow> bool" where
  "is_warm_address a x \<longleftrightarrow> a \<in> accessed_addresses x"

definition is_warm_storage :: "string \<Rightarrow> int \<Rightarrow> execution_context \<Rightarrow> bool" where
  "is_warm_storage a key x \<longleftrightarrow> map_of (accessed_storage_keys x) a \<noteq> None \<and> key \<in> keys_of a x"

section \<open>Snapshots, commit and logs\<close>

text \<open>
  \<open>take_snapshot\<close> also copies the slot dicts of the storages; nothing reads that
  copy, and it is left out.
\<close>

definition take_snapshot :: "(execution_context, nat) meth" where
  "take_snapshot x =
     (Inr (length (snapshots x)),
      x\<lparr>snapshots := snapshots x @
        [\<lparr>sn_balance_changes = balance_changes x, sn_created_accounts = created_accounts x,
          sn_destroyed_accounts = destroyed_accounts x, sn_logs_count = length (logs x),
          sn_gas_refund = gas_refund x\<rparr>]\<rparr>)"

definition revert_to_snapshot :: "nat \<Rightarrow> execution_context \<Rightarrow> execution_context" where
  "revert_to_snapshot i x =
     (if i \<ge> length (snapshots x) then x
      else let sn = snapshots x ! i in
        x\<lparr>balance_changes := sn_balance_changes sn, created_accounts := sn_created_accounts sn,
          destroyed_accounts := sn_destroyed_accounts sn, gas_refund := sn_gas_refund sn,
          logs := take (sn_logs_count sn) (logs x), snapshots := take i (snapshots x)\<rparr>)"

definition ctx_commit :: "execution_context \<Rightarrow> execution_context" where
  "ctx_commit x = x\<lparr>storage := map (\<lambda>(a, s). (a, st_commit s)) (storage x),
     transient_store := ts_clear (transient_store x), snapshots := []\<rparr>"

definition add_log :: "evm_log \<Rightarrow> execution_context \<Rightarrow> execution_context" where
  "add_log l x = x\<lparr>logs := logs x @ [l],
     call_stack := (case call_stack x of [] \<Rightarrow> [] | ls # fs \<Rightarrow> (ls @ [l]) # fs)\<rparr>"

end
