(* ===== verification/Precompiles.thy ===== *)
theory Precompiles
  imports PyBytes Complex_Main
begin

text \<open>
  The class \<open>EVMPrecompiles\<close> of \<open>src/xai/core/vm/evm/executor.py\<close>: the native
  contracts at the addresses 1 to 10.

  The hash functions and the elliptic curve library \<open>py_ecc\<close> are not under src/: the
  record \<open>externals\<close> holds them as functions, with the clock. A precompile returns its
  output and the gas it used, or raises.
\<close>

unbundle bit_operations_syntax

section \<open>What is outside the source\<close>

type_synonym bn_point = "int \<times> int \<times> int"
type_synonym bn_g2 = "(int \<times> int) \<times> (int \<times> int)"

text \<open>
  \<open>py_ecc.optimized_bn128\<close>. \<open>bn_FQ\<close> is the reduction of the constructor \<open>FQ\<close>;
  \<open>bn_on_curve_no_b\<close> is \<open>is_on_curve(p, b=None)\<close>, which may raise; elements of FQ12
  are lists of coefficients.
\<close>

record bn128_lib =
  bn_available :: bool
  bn_FQ :: "int \<Rightarrow> int"
  bn_on_curve :: "bn_point \<Rightarrow> bool"
  bn_on_curve_no_b :: "bn_point \<Rightarrow> exn + bool"
  bn_on_curve2 :: "bn_g2 \<Rightarrow> bool"
  bn_add :: "bn_point \<Rightarrow> bn_point \<Rightarrow> bn_point option"
  bn_multiply :: "bn_point \<Rightarrow> int \<Rightarrow> bn_point option"
  bn_order :: int
  bn_pairing :: "bn_g2 \<Rightarrow> bn_point \<Rightarrow> int list"
  bn_times12 :: "int list \<Rightarrow> int list \<Rightarrow> int list"
  bn_one12 :: "int list"

text \<open>\<open>py_ecc.bls\<close> and \<open>py_ecc.optimized_bls12_381\<close>, with points as coordinate lists.\<close>

record kzg_lib =
  kz_available :: bool
  kz_decompress_G1 :: "int \<Rightarrow> exn + int list"
  kz_decompress_G2 :: "int \<times> int \<Rightarrow> exn + int list"
  kz_G1 :: "int list"
  kz_G2 :: "int list"
  kz_add :: "int list \<Rightarrow> int list \<Rightarrow> int list"
  kz_multiply :: "int list \<Rightarrow> int \<Rightarrow> int list"
  kz_neg :: "int list \<Rightarrow> int list"
  kz_order :: int
  kz_pairing :: "int list \<Rightarrow> int list \<Rightarrow> int list"

record externals =
  sha3_256 :: "byte list \<Rightarrow> byte list"
  sha256 :: "byte list \<Rightarrow> byte list"
  ripemd160 :: "byte list \<Rightarrow> byte list"
  clock :: "nat \<Rightarrow> rat"
  bn128 :: bn128_lib
  kzg :: kzg_lib

section \<open>Dispatch on the address\<close>

definition is_precompile :: "string \<Rightarrow> bool" where
  "is_precompile a = (case parse_int 16 a of Inr n \<Rightarrow> 1 \<le> n \<and> n \<le> 10 | Inl e \<Rightarrow> False)"

type_synonym precompile = "byte list \<Rightarrow> int \<Rightarrow> exn + (byte list \<times> int)"

text \<open>\<open>if gas < gas_cost: raise VMExecutionError\<close> before the rest.\<close>

definition with_gas :: "int \<Rightarrow> int \<Rightarrow> exn + (byte list \<times> int) \<Rightarrow> exn + (byte list \<times> int)" where
  "with_gas cost gas rest = (if gas < cost then Inl (VMExecutionError OutOfGas) else rest)"

definition int_len :: "byte list \<Rightarrow> int" where
  "int_len bs = int (length bs)"

text \<open>\<open>data + b"\x00" * (n - len(data))\<close> when the data is shorter than \<open>n\<close>.\<close>

definition pad_right :: "nat \<Rightarrow> byte list \<Rightarrow> byte list" where
  "pad_right n bs = (if length bs < n then bs @ zeros (n - length bs) else bs)"

definition word_at :: "nat \<Rightarrow> byte list \<Rightarrow> int" where
  "word_at i bs = from_bytes (slice i (i + 32) bs)"

section \<open>Hashes, identity and modular exponentiation\<close>

definition pc_ecrecover :: precompile where
  "pc_ecrecover data gas = with_gas 3000 gas (Inr (zeros 32, 3000))"

definition pc_sha256 :: "externals \<Rightarrow> precompile" where
  "pc_sha256 X data gas =
     (let cost = 60 + 12 * ((int_len data + 31) div 32) in with_gas cost gas (Inr (sha256 X data, cost)))"

definition pc_ripemd160 :: "externals \<Rightarrow> precompile" where
  "pc_ripemd160 X data gas =
     (let cost = 600 + 120 * ((int_len data + 31) div 32)
      in with_gas cost gas (Inr (zeros 12 @ ripemd160 X data, cost)))"

definition pc_identity :: precompile where
  "pc_identity data gas =
     (let cost = 15 + 3 * ((int_len data + 31) div 32) in with_gas cost gas (Inr (data, cost)))"

text \<open>\<open>pow(b, e, m)\<close> of non-negative arguments.\<close>

definition pow_mod :: "int \<Rightarrow> int \<Rightarrow> int \<Rightarrow> int" where
  "pow_mod b e m = (b ^ nat e) mod m"

definition pc_modexp :: precompile where
  "pc_modexp data0 gas =
     (let data = pad_right 96 data0;
          base_len = from_bytes (slice 0 32 data);
          exp_len = from_bytes (slice 32 64 data);
          mod_len = from_bytes (slice 64 96 data);
          max_len = max base_len mod_len;
          cost = max 200 (max_len * max_len * max 1 exp_len div 3)
      in with_gas cost gas
        (let base_start = 96;
             exp_start = base_start + base_len;
             mod_start = exp_start + exp_len;
             base = (if base_len > 0 then from_bytes (slice (nat base_start) (nat exp_start) data) else 0);
             ex = (if exp_len > 0 then from_bytes (slice (nat exp_start) (nat mod_start) data) else 0);
             md = (if mod_len > 0 then from_bytes (slice (nat mod_start) (nat (mod_start + mod_len)) data) else 0);
             result = (if md = 0 then 0 else pow_mod base ex md)
         in map_sum id (\<lambda>bs. (bs, cost)) (to_bytes (nat mod_len) result)))"

section \<open>The alt_bn128 curve\<close>

text \<open>A point of the input, None for the point at infinity (0, 0).\<close>

definition bn_decode :: "externals \<Rightarrow> int \<Rightarrow> int \<Rightarrow> bn_point option" where
  "bn_decode X x y = (if x = 0 \<and> y = 0 then None
     else Some (bn_FQ (bn128 X) x, bn_FQ (bn128 X) y, bn_FQ (bn128 X) 1))"

definition off_curve :: "externals \<Rightarrow> bn_point option \<Rightarrow> bool" where
  "off_curve X p = (case p of None \<Rightarrow> False | Some q \<Rightarrow> \<not> bn_on_curve (bn128 X) q)"

text \<open>The source writes the first two coordinates of the library's point as they are.\<close>

definition bn_encode :: "bn_point option \<Rightarrow> int \<Rightarrow> exn + (byte list \<times> int)" where
  "bn_encode p cost =
     (case p of
        None \<Rightarrow> Inr (zeros 64, cost)
      | Some (x, y, z) \<Rightarrow>
          (case (to_bytes 32 x, to_bytes 32 y) of
             (Inr bx, Inr by) \<Rightarrow> Inr (bx @ by, cost)
           | (Inl e, r) \<Rightarrow> Inl e
           | (Inr bx, Inl e) \<Rightarrow> Inl e))"

definition pc_ecadd :: "externals \<Rightarrow> precompile" where
  "pc_ecadd X data0 gas = with_gas 150 gas
     (let data = pad_right 128 data0;
          p1 = bn_decode X (word_at 0 data) (word_at 32 data);
          p2 = bn_decode X (word_at 64 data) (word_at 96 data)
      in if \<not> bn_available (bn128 X) then Inl (VMExecutionError PrecompileDependency)
         else if off_curve X p1 then Inr (zeros 64, 150)
         else if off_curve X p2 then Inr (zeros 64, 150)
         else bn_encode (case p1 of None \<Rightarrow> p2
            | Some a \<Rightarrow> (case p2 of None \<Rightarrow> p1 | Some b \<Rightarrow> bn_add (bn128 X) a b)) 150)"

definition pc_ecmul :: "externals \<Rightarrow> precompile" where
  "pc_ecmul X data0 gas = with_gas 6000 gas
     (let data = pad_right 96 data0;
          p = bn_decode X (word_at 0 data) (word_at 32 data);
          s = word_at 64 data mod bn_order (bn128 X)
      in if \<not> bn_available (bn128 X) then Inl (VMExecutionError PrecompileDependency)
         else if off_curve X p then Inr (zeros 64, 6000)
         else case p of
             None \<Rightarrow> Inr (zeros 64, 6000)
           | Some q \<Rightarrow> if s = 0 then Inr (zeros 64, 6000) else bn_encode (bn_multiply (bn128 X) q s) 6000)"

text \<open>
  One pair of the pairing input at offset \<open>off\<close>: None when a point is off the curve (the
  result is then 32 zero bytes), else the accumulator after the pair.
\<close>

definition bn_pair_step ::
    "externals \<Rightarrow> byte list \<Rightarrow> int list \<Rightarrow> nat \<Rightarrow> exn + int list option" where
  "bn_pair_step X data acc off =
     (let x1 = word_at off data; y1 = word_at (off + 32) data;
          g1 = bn_decode X x1 y1;
          x2_im = word_at (off + 64) data; x2_re = word_at (off + 96) data;
          y2_im = word_at (off + 128) data; y2_re = word_at (off + 160) data;
          g2 = (if x2_im = 0 \<and> x2_re = 0 \<and> y2_im = 0 \<and> y2_re = 0 then None
                else Some ((x2_im, x2_re), (y2_im, y2_re)))
      in case (case g1 of None \<Rightarrow> Inr True | Some p \<Rightarrow> bn_on_curve_no_b (bn128 X) p) of
           Inl e \<Rightarrow> Inl e
         | Inr ok \<Rightarrow>
             if \<not> ok then Inr None
             else if (case g2 of None \<Rightarrow> False | Some q \<Rightarrow> \<not> bn_on_curve2 (bn128 X) q) then Inr None
             else (case (g1, g2) of
                 (Some p, Some q) \<Rightarrow> Inr (Some (bn_times12 (bn128 X) acc (bn_pairing (bn128 X) q p)))
               | _ \<Rightarrow> Inr (Some acc)))"

primrec bn_pairs :: "externals \<Rightarrow> byte list \<Rightarrow> int list \<Rightarrow> nat list \<Rightarrow> exn + int list option" where
  "bn_pairs X data acc [] = Inr (Some acc)"
| "bn_pairs X data acc (i # is) =
     (case bn_pair_step X data acc (i * 192) of
        Inl e \<Rightarrow> Inl e | Inr None \<Rightarrow> Inr None | Inr (Some acc') \<Rightarrow> bn_pairs X data acc' is)"

definition pc_ecpairing :: "externals \<Rightarrow> precompile" where
  "pc_ecpairing X data0 gas =
     (let data = pad_right ((length data0 + 191) div 192 * 192) data0;
          pairs = length data div 192;
          cost = 80000 * max 1 (int pairs)
      in with_gas cost gas
        (if \<not> bn_available (bn128 X) then Inl (VMExecutionError PrecompileDependency)
         else case bn_pairs X data (bn_one12 (bn128 X)) [0..<pairs] of
             Inl e \<Rightarrow> Inl e
           | Inr None \<Rightarrow> Inr (zeros 32, cost)
           | Inr (Some acc) \<Rightarrow> Inr (be_bytes 32 (if acc = bn_one12 (bn128 X) then 1 else 0), cost)))"

section \<open>BLAKE2f\<close>

type_synonym u64 = "64 word"

definition le_int :: "byte list \<Rightarrow> int" where
  "le_int bs = from_bytes (rev bs)"

definition BLAKE_IV :: "u64 list" where
  "BLAKE_IV = [0x6a09e667f3bcc908, 0xbb67ae8584caa73b, 0x3c6ef372fe94f82b, 0xa54ff53a5f1d36f1,
     0x510e527fade682d1, 0x9b05688c2b3e6c1f, 0x1f83d9abfb41bd6b, 0x5be0cd19137e2179]"

definition BLAKE_SIGMA :: "nat list list" where
  "BLAKE_SIGMA =
    [[0, 1, 2, 3, 4, 5, 6, 7, 8, 9, 10, 11, 12, 13, 14, 15],
     [14, 10, 4, 8, 9, 15, 13, 6, 1, 12, 0, 2, 11, 7, 5, 3],
     [11, 8, 12, 0, 5, 2, 15, 13, 10, 14, 3, 6, 7, 1, 9, 4],
     [7, 9, 3, 1, 13, 12, 11, 14, 2, 6, 5, 10, 4, 0, 15, 8],
     [9, 0, 5, 7, 2, 4, 10, 15, 14, 1, 11, 12, 6, 8, 3, 13],
     [2, 12, 6, 10, 0, 11, 8, 3, 4, 13, 7, 5, 15, 14, 1, 9],
     [12, 5, 1, 15, 14, 13, 4, 10, 0, 7, 6, 3, 9, 2, 8, 11],
     [13, 11, 7, 14, 12, 1, 3, 9, 5, 0, 15, 4, 8, 6, 2, 10],
     [6, 15, 14, 9, 11, 3, 0, 8, 12, 2, 13, 7, 1, 4, 10, 5],
     [10, 2, 8, 4, 7, 6, 1, 5, 15, 11, 9, 14, 3, 12, 13, 0],
     [0, 1, 2, 3, 4, 5, 6, 7, 8, 9, 10, 11, 12, 13, 14, 15],
     [14, 10, 4, 8, 9, 15, 13, 6, 1, 12, 0, 2, 11, 7, 5, 3]]"

definition rotr64 :: "u64 \<Rightarrow> nat \<Rightarrow> u64" where
  "rotr64 x n = drop_bit n x OR push_bit (64 - n) x"

definition blake_G :: "nat \<Rightarrow> nat \<Rightarrow> nat \<Rightarrow> nat \<Rightarrow> u64 \<Rightarrow> u64 \<Rightarrow> u64 list \<Rightarrow> u64 list" where
  "blake_G a b c d x y v =
     (let v = v[a := v ! a + v ! b + x];
          v = v[d := rotr64 (v ! d XOR v ! a) 32];
          v = v[c := v ! c + v ! d];
          v = v[b := rotr64 (v ! b XOR v ! c) 24];
          v = v[a := v ! a + v ! b + y];
          v = v[d := rotr64 (v ! d XOR v ! a) 16];
          v = v[c := v ! c + v ! d]
      in v[b := rotr64 (v ! b XOR v ! c) 63])"

definition blake_round :: "nat list \<Rightarrow> u64 list \<Rightarrow> u64 list \<Rightarrow> u64 list" where
  "blake_round s m v =
     (let v = blake_G 0 4 8 12 (m ! (s ! 0)) (m ! (s ! 1)) v;
          v = blake_G 1 5 9 13 (m ! (s ! 2)) (m ! (s ! 3)) v;
          v = blake_G 2 6 10 14 (m ! (s ! 4)) (m ! (s ! 5)) v;
          v = blake_G 3 7 11 15 (m ! (s ! 6)) (m ! (s ! 7)) v;
          v = blake_G 0 5 10 15 (m ! (s ! 8)) (m ! (s ! 9)) v;
          v = blake_G 1 6 11 12 (m ! (s ! 10)) (m ! (s ! 11)) v;
          v = blake_G 2 7 8 13 (m ! (s ! 12)) (m ! (s ! 13)) v
      in blake_G 3 4 9 14 (m ! (s ! 14)) (m ! (s ! 15)) v)"

definition blake_init :: "u64 list \<Rightarrow> u64 \<Rightarrow> u64 \<Rightarrow> bool \<Rightarrow> u64 list" where
  "blake_init h t0 t1 f =
     (let v = h @ BLAKE_IV;
          v = v[12 := v ! 12 XOR t0];
          v = v[13 := v ! 13 XOR t1]
      in if f then v[14 := v ! 14 XOR (-1)] else v)"

definition blake_rounds :: "nat \<Rightarrow> u64 list \<Rightarrow> u64 list \<Rightarrow> u64 list" where
  "blake_rounds n m v = fold (\<lambda>r. blake_round (BLAKE_SIGMA ! (r mod 12)) m) [0..<n] v"

definition pc_blake2f :: precompile where
  "pc_blake2f data gas =
     (if length data \<noteq> 213 then Inl (VMExecutionError PrecompileInput)
      else let rounds = le_int (slice 0 4 data) in
        if rounds \<le> 0 \<or> rounds > 0xFFFFFFFF then Inl (VMExecutionError PrecompileInput)
        else let cost = 10 + 12 * rounds in with_gas cost gas
          (let h = map (\<lambda>i. word_of_int (le_int (slice (4 + i * 8) (12 + i * 8) data))) [0..<8];
               m = map (\<lambda>i. word_of_int (le_int (slice (68 + i * 8) (76 + i * 8) data))) [0..<16];
               t0 = word_of_int (le_int (slice 196 204 data));
               t1 = word_of_int (le_int (slice 204 212 data));
               f = data ! 212
           in if f \<notin> {0, 1} then Inl (VMExecutionError PrecompileInput)
              else let v = blake_rounds (nat rounds) m (blake_init h t0 t1 (f \<noteq> 0));
                       out_h = map (\<lambda>i. h ! i XOR v ! i XOR v ! (i + 8)) [0..<8]
                   in Inr (concat (map (\<lambda>x. rev (be_bytes 8 (uint x))) out_h), cost)))"

section \<open>Point evaluation (EIP-4844)\<close>

definition KZG_BLS_MODULUS :: int where
  "KZG_BLS_MODULUS = 52435875175126190479447740508185965837690552500527637822603658699938581184513"

definition KZG_G2_TAU :: "int \<times> int" where
  "KZG_G2_TAU =
     (0xb5bfd7dd8cdeb128843bc287230af38926187075cbfbefa81009a2ce615ac53d2914e5870cb452d2afaaab24f3499f72,
      0x185cbfee53492714734429b7b38608e23926c911cceceac9a36851477ba4c60b087041de621000edc98edada20c1def2)"

definition kzg_to_versioned_hash :: "externals \<Rightarrow> byte list \<Rightarrow> byte list" where
  "kzg_to_versioned_hash X commitment = 0x01 # drop 1 (sha256 X commitment)"

text \<open>\<open>except ValueError\<close> becomes the machine's own error.\<close>

definition value_error_to_vm :: "exn + 'a \<Rightarrow> exn + 'a" where
  "value_error_to_vm r = (if r = Inl ValueError then Inl (VMExecutionError PrecompileInput) else r)"

definition decode_g1_point :: "externals \<Rightarrow> byte list \<Rightarrow> exn + int list" where
  "decode_g1_point X data =
     (if length data \<noteq> 48 then Inl (VMExecutionError PrecompileInput)
      else value_error_to_vm (kz_decompress_G1 (kzg X) (from_bytes data)))"

definition get_kzg_g2_tau :: "externals \<Rightarrow> exn + int list" where
  "get_kzg_g2_tau X = value_error_to_vm (kz_decompress_G2 (kzg X) KZG_G2_TAU)"

definition pc_point_evaluation :: "externals \<Rightarrow> precompile" where
  "pc_point_evaluation X data gas = with_gas 50000 gas
     (if length data \<noteq> 192 then Inl (VMExecutionError PrecompileInput)
      else let versioned_hash = slice 0 32 data;
               z = from_bytes (slice 32 64 data);
               y = from_bytes (slice 64 96 data);
               commitment_bytes = slice 96 144 data;
               proof_bytes = slice 144 192 data;
               K = kzg X
        in if kzg_to_versioned_hash X commitment_bytes \<noteq> versioned_hash
           then Inl (VMExecutionError PrecompileProof)
           else if z \<ge> KZG_BLS_MODULUS \<or> y \<ge> KZG_BLS_MODULUS
           then Inl (VMExecutionError PrecompileInput)
           else if \<not> kz_available K then Inl (VMExecutionError PrecompileDependency)
           else case decode_g1_point X commitment_bytes of
               Inl e \<Rightarrow> Inl e
             | Inr commitment \<Rightarrow> (case decode_g1_point X proof_bytes of
                 Inl e \<Rightarrow> Inl e
               | Inr proof_pt \<Rightarrow> (case get_kzg_g2_tau X of
                   Inl e \<Rightarrow> Inl e
                 | Inr g2_tau \<Rightarrow>
                     let p_minus_y = kz_add K commitment (kz_neg K (kz_multiply K (kz_G1 K) (y mod kz_order K)));
                         x_minus_z = kz_add K g2_tau (kz_neg K (kz_multiply K (kz_G2 K) (z mod kz_order K)))
                     in if kz_pairing K (kz_G2 K) p_minus_y \<noteq> kz_pairing K x_minus_z proof_pt
                        then Inl (VMExecutionError PrecompileProof)
                        else Inr (be_bytes 32 4096 @ be_bytes 32 KZG_BLS_MODULUS, 50000))))"

section \<open>The dispatcher\<close>

definition execute_precompile :: "externals \<Rightarrow> string \<Rightarrow> precompile" where
  "execute_precompile X a data gas =
     (case parse_int 16 a of
        Inl e \<Rightarrow> Inl e
      | Inr n \<Rightarrow>
          if n = 1 then pc_ecrecover data gas
          else if n = 2 then pc_sha256 X data gas
          else if n = 3 then pc_ripemd160 X data gas
          else if n = 4 then pc_identity data gas
          else if n = 5 then pc_modexp data gas
          else if n = 6 then pc_ecadd X data gas
          else if n = 7 then pc_ecmul X data gas
          else if n = 8 then pc_ecpairing X data gas
          else if n = 9 then pc_blake2f data gas
          else if n = 10 then pc_point_evaluation X data gas
          else Inl (VMExecutionError UnimplementedOpcode))"

section \<open>Gas\<close>

lemma with_gas_ok: "with_gas cost gas r = Inr (d, used) \<Longrightarrow> cost \<le> gas \<and> r = Inr (d, used)"
  by (auto simp: with_gas_def split: if_splits)

lemma bn_encode_cost: "bn_encode p cost = Inr (d, used) \<Longrightarrow> used = cost"
  by (auto simp: bn_encode_def split: option.splits prod.splits sum.splits)

named_theorems gas_bounds "a precompile that returns has used a positive amount within its gas"

lemma pc_simple_gas [gas_bounds]:
  "pc_ecrecover data gas = Inr (d, used) \<Longrightarrow> 0 < used \<and> used \<le> gas"
  "pc_sha256 X data gas = Inr (d, used) \<Longrightarrow> 0 < used \<and> used \<le> gas"
  "pc_ripemd160 X data gas = Inr (d, used) \<Longrightarrow> 0 < used \<and> used \<le> gas"
  "pc_identity data gas = Inr (d, used) \<Longrightarrow> 0 < used \<and> used \<le> gas"
  by (auto simp: pc_ecrecover_def pc_sha256_def pc_ripemd160_def pc_identity_def Let_def int_len_def
      dest!: with_gas_ok intro: add_pos_nonneg)

lemma pc_modexp_gas [gas_bounds]: "pc_modexp data gas = Inr (d, used) \<Longrightarrow> 0 < used \<and> used \<le> gas"
  unfolding pc_modexp_def Let_def by (drule with_gas_ok) (auto simp: map_sum_Inr)

lemma pc_ecadd_gas [gas_bounds]: "pc_ecadd X data gas = Inr (d, used) \<Longrightarrow> 0 < used \<and> used \<le> gas"
  unfolding pc_ecadd_def Let_def
  by (drule with_gas_ok) (auto split: if_splits dest: bn_encode_cost)

lemma pc_ecmul_gas [gas_bounds]: "pc_ecmul X data gas = Inr (d, used) \<Longrightarrow> 0 < used \<and> used \<le> gas"
  unfolding pc_ecmul_def Let_def
  by (drule with_gas_ok) (auto split: if_splits option.splits dest: bn_encode_cost)

lemma pc_ecpairing_gas [gas_bounds]: "pc_ecpairing X data gas = Inr (d, used) \<Longrightarrow> 0 < used \<and> used \<le> gas"
  unfolding pc_ecpairing_def Let_def
  by (drule with_gas_ok) (auto split: if_splits sum.splits option.splits)

lemma pc_blake2f_gas [gas_bounds]: "pc_blake2f data gas = Inr (d, used) \<Longrightarrow> 0 < used \<and> used \<le> gas"
  unfolding pc_blake2f_def Let_def
  by (auto split: if_splits dest!: with_gas_ok)

lemma pc_point_evaluation_gas [gas_bounds]:
  "pc_point_evaluation X data gas = Inr (d, used) \<Longrightarrow> 0 < used \<and> used \<le> gas"
  unfolding pc_point_evaluation_def Let_def
  by (drule with_gas_ok) (auto split: if_splits sum.splits)

section \<open>Properties\<close>

text \<open>
  a precompile that returns was given the gas it reports, and reports a positive amount;
  an address that is no precompile never returns.
\<close>

lemma precompile_gas_bound:
  assumes "execute_precompile X a data gas = Inr (d, used)"
  shows "0 < used \<and> used \<le> gas \<and> is_precompile a"
proof -
  from assms obtain n where n: "parse_int 16 a = Inr n"
    by (auto simp: execute_precompile_def split: sum.splits)
  with assms have "n \<in> {1, 2, 3, 4, 5, 6, 7, 8, 9, 10}"
    by (auto simp: execute_precompile_def split: if_splits)
  with n have "is_precompile a" by (auto simp: is_precompile_def)
  moreover from assms n have "0 < used \<and> used \<le> gas"
    by (simp add: execute_precompile_def split: if_splits) (erule gas_bounds)+
  ultimately show ?thesis by simp
qed

text \<open>
  MODEXP on well-formed input (three 32-byte lengths and operands of those lengths) with
  enough gas returns the modular power, in as many bytes as the modulus.
\<close>

lemma modexp_correct:
  assumes "length b < 2 ^ 256" and "length e < 2 ^ 256" and "length m < 2 ^ 256" and "from_bytes m \<noteq> 0"
    and "max 200 (max (int_len b) (int_len m) * max (int_len b) (int_len m) * max 1 (int_len e) div 3) \<le> gas"
  shows "map_sum id fst (pc_modexp (be_bytes 32 (int_len b) @ be_bytes 32 (int_len e) @ be_bytes 32 (int_len m)
      @ b @ e @ m) gas) = Inr (be_bytes (length m) ((from_bytes b ^ nat (from_bytes e)) mod from_bytes m))"
proof -
  let ?d = "be_bytes 32 (int_len b) @ be_bytes 32 (int_len e) @ be_bytes 32 (int_len m) @ b @ e @ m"
  have pad: "pad_right 96 ?d = ?d"
    by (simp add: pad_right_def)
  have len: "from_bytes (be_bytes 32 (int_len xs)) = int_len xs" if "length xs < 2 ^ 256" for xs
  proof -
    have "int_len xs < 2 ^ 256"
      using that unfolding int_len_def by (metis of_nat_less_iff of_nat_numeral of_nat_power)
    then show ?thesis
      by (simp add: from_bytes_be_bytes int_len_def)
  qed
  have parts: "slice 0 32 ?d = be_bytes 32 (int_len b)" "slice 32 64 ?d = be_bytes 32 (int_len e)"
    "slice 64 96 ?d = be_bytes 32 (int_len m)"
    by (simp_all add: slice_def)
  have b: "(if 0 < int_len b then from_bytes (slice (nat 96) (nat (96 + int_len b)) ?d) else 0) = from_bytes b"
    by (auto simp: slice_def int_len_def nat_add_distrib)
  have e: "(if 0 < int_len e then from_bytes (slice (nat (96 + int_len b)) (nat (96 + int_len b + int_len e)) ?d) else 0)
      = from_bytes e"
    by (auto simp: slice_def int_len_def nat_add_distrib)
  have m: "(if 0 < int_len m then from_bytes (slice (nat (96 + int_len b + int_len e))
        (nat (96 + int_len b + int_len e + int_len m)) ?d) else 0) = from_bytes m"
    by (auto simp: slice_def int_len_def nat_add_distrib)
  have "0 < from_bytes m" "from_bytes m < 256 ^ length m"
    using assms(4) from_bytes_range [of m] by auto
  then have "to_bytes (nat (int_len m)) (pow_mod (from_bytes b) (from_bytes e) (from_bytes m))
      = Inr (be_bytes (length m) ((from_bytes b ^ nat (from_bytes e)) mod from_bytes m))"
    unfolding pow_mod_def int_len_def nat_int
    by (intro to_bytes_in_range) (auto intro: less_trans pos_mod_bound)
  moreover have "\<not> gas < max 200 (max (int_len b) (int_len m) * max (int_len b) (int_len m) * max 1 (int_len e) div 3)"
    using assms(5) by (simp only: not_less)
  ultimately show ?thesis
    using assms(4) unfolding pc_modexp_def Let_def pad parts len [OF assms(1)] len [OF assms(2)] len [OF assms(3)] b e m with_gas_def
    by (simp only: if_False) simp
qed

text \<open>
  BLAKE2f runs the rounds of EIP-152, which takes the rows of SIGMA modulo 10, as long as
  there are at most twelve: the source takes the rows modulo 12, from a table whose last two
  rows repeat the first two. From the thirteenth round on the rows differ.
\<close>

lemma blake2f_schedule:
  assumes "n \<le> 12"
  shows "blake_rounds n m v = fold (\<lambda>r. blake_round (take 10 BLAKE_SIGMA ! (r mod 10)) m) [0..<n] v
    \<and> BLAKE_SIGMA ! (12 mod 12) \<noteq> take 10 BLAKE_SIGMA ! (12 mod 10)"
proof
  have rows: "BLAKE_SIGMA ! 10 = BLAKE_SIGMA ! 0" "BLAKE_SIGMA ! 11 = BLAKE_SIGMA ! 1" "BLAKE_SIGMA ! 0 \<noteq> BLAKE_SIGMA ! 2"
    by (simp_all add: BLAKE_SIGMA_def)
  have row: "BLAKE_SIGMA ! (r mod 12) = take 10 BLAKE_SIGMA ! (r mod 10)" if "r < 12" for r :: nat
  proof -
    from that consider "r < 10" | "r = 10" | "r = 11" by linarith
    then show ?thesis by cases (simp_all add: rows)
  qed
  show "blake_rounds n m v = fold (\<lambda>r. blake_round (take 10 BLAKE_SIGMA ! (r mod 10)) m) [0..<n] v"
    unfolding blake_rounds_def
  proof (rule fold_cong [OF refl refl])
    fix r assume "r \<in> set [0..<n]"
    with assms have "r < 12" by simp
    then show "blake_round (BLAKE_SIGMA ! (r mod 12)) m = blake_round (take 10 BLAKE_SIGMA ! (r mod 10)) m"
      by (simp only: row)
  qed
  show "BLAKE_SIGMA ! (12 mod 12) \<noteq> take 10 BLAKE_SIGMA ! (12 mod 10)"
    using rows(3) by simp
qed

end
