(* ===== verification/Opcodes.thy ===== *)
theory Opcodes
  imports Prelude
begin

text \<open>
  \<open>src/xai/core/vm/evm/opcodes.py\<close>: the opcode numbers, the table of stack effects and
  base gas that the interpreter charges from, and the opcode classes. The description texts
  of the table are left out.
\<close>

section \<open>Tables\<close>

text \<open>The members of the enumeration \<open>Opcode\<close> with their numbers.\<close>

definition Opcode :: "(string \<times> int) list" where
  "Opcode =
    [(''STOP'', 0x00), (''ADD'', 0x01), (''MUL'', 0x02), (''SUB'', 0x03), (''DIV'', 0x04),
     (''SDIV'', 0x05), (''MOD'', 0x06), (''SMOD'', 0x07), (''ADDMOD'', 0x08), (''MULMOD'', 0x09),
     (''EXP'', 0x0A), (''SIGNEXTEND'', 0x0B), (''LT'', 0x10), (''GT'', 0x11), (''SLT'', 0x12),
     (''SGT'', 0x13), (''EQ'', 0x14), (''ISZERO'', 0x15), (''AND'', 0x16), (''OR'', 0x17),
     (''XOR'', 0x18), (''NOT'', 0x19), (''BYTE'', 0x1A), (''SHL'', 0x1B), (''SHR'', 0x1C),
     (''SAR'', 0x1D), (''KECCAK256'', 0x20), (''ADDRESS'', 0x30), (''BALANCE'', 0x31), (''ORIGIN'', 0x32),
     (''CALLER'', 0x33), (''CALLVALUE'', 0x34), (''CALLDATALOAD'', 0x35), (''CALLDATASIZE'', 0x36), (''CALLDATACOPY'', 0x37),
     (''CODESIZE'', 0x38), (''CODECOPY'', 0x39), (''GASPRICE'', 0x3A), (''EXTCODESIZE'', 0x3B), (''EXTCODECOPY'', 0x3C),
     (''RETURNDATASIZE'', 0x3D), (''RETURNDATACOPY'', 0x3E), (''EXTCODEHASH'', 0x3F), (''BLOCKHASH'', 0x40), (''COINBASE'', 0x41),
     (''TIMESTAMP'', 0x42), (''NUMBER'', 0x43), (''PREVRANDAO'', 0x44), (''GASLIMIT'', 0x45), (''CHAINID'', 0x46),
     (''SELFBALANCE'', 0x47), (''BASEFEE'', 0x48), (''BLOBHASH'', 0x49), (''BLOBBASEFEE'', 0x4A), (''POP'', 0x50),
     (''MLOAD'', 0x51), (''MSTORE'', 0x52), (''MSTORE8'', 0x53), (''SLOAD'', 0x54), (''SSTORE'', 0x55),
     (''JUMP'', 0x56), (''JUMPI'', 0x57), (''PC'', 0x58), (''MSIZE'', 0x59), (''GAS'', 0x5A),
     (''JUMPDEST'', 0x5B), (''TLOAD'', 0x5C), (''TSTORE'', 0x5D), (''MCOPY'', 0x5E), (''PUSH0'', 0x5F),
     (''PUSH1'', 0x60), (''PUSH2'', 0x61), (''PUSH3'', 0x62), (''PUSH4'', 0x63), (''PUSH5'', 0x64),
     (''PUSH6'', 0x65), (''PUSH7'', 0x66), (''PUSH8'', 0x67), (''PUSH9'', 0x68), (''PUSH10'', 0x69),
     (''PUSH11'', 0x6A), (''PUSH12'', 0x6B), (''PUSH13'', 0x6C), (''PUSH14'', 0x6D), (''PUSH15'', 0x6E),
     (''PUSH16'', 0x6F), (''PUSH17'', 0x70), (''PUSH18'', 0x71), (''PUSH19'', 0x72), (''PUSH20'', 0x73),
     (''PUSH21'', 0x74), (''PUSH22'', 0x75), (''PUSH23'', 0x76), (''PUSH24'', 0x77), (''PUSH25'', 0x78),
     (''PUSH26'', 0x79), (''PUSH27'', 0x7A), (''PUSH28'', 0x7B), (''PUSH29'', 0x7C), (''PUSH30'', 0x7D),
     (''PUSH31'', 0x7E), (''PUSH32'', 0x7F), (''DUP1'', 0x80), (''DUP2'', 0x81), (''DUP3'', 0x82),
     (''DUP4'', 0x83), (''DUP5'', 0x84), (''DUP6'', 0x85), (''DUP7'', 0x86), (''DUP8'', 0x87),
     (''DUP9'', 0x88), (''DUP10'', 0x89), (''DUP11'', 0x8A), (''DUP12'', 0x8B), (''DUP13'', 0x8C),
     (''DUP14'', 0x8D), (''DUP15'', 0x8E), (''DUP16'', 0x8F), (''SWAP1'', 0x90), (''SWAP2'', 0x91),
     (''SWAP3'', 0x92), (''SWAP4'', 0x93), (''SWAP5'', 0x94), (''SWAP6'', 0x95), (''SWAP7'', 0x96),
     (''SWAP8'', 0x97), (''SWAP9'', 0x98), (''SWAP10'', 0x99), (''SWAP11'', 0x9A), (''SWAP12'', 0x9B),
     (''SWAP13'', 0x9C), (''SWAP14'', 0x9D), (''SWAP15'', 0x9E), (''SWAP16'', 0x9F), (''LOG0'', 0xA0),
     (''LOG1'', 0xA1), (''LOG2'', 0xA2), (''LOG3'', 0xA3), (''LOG4'', 0xA4), (''CREATE'', 0xF0),
     (''CALL'', 0xF1), (''CALLCODE'', 0xF2), (''RETURN'', 0xF3), (''DELEGATECALL'', 0xF4), (''CREATE2'', 0xF5),
     (''STATICCALL'', 0xFA), (''REVERT'', 0xFD), (''INVALID'', 0xFE), (''SELFDESTRUCT'', 0xFF)]"

record opcode_info =
  opcode :: int
  op_name :: string
  stack_input :: nat
  stack_output :: nat
  gas_cost :: int

definition stack_delta :: "opcode_info \<Rightarrow> int" where
  "stack_delta i = int (stack_output i) - int (stack_input i)"

text \<open>Decimal digits, as the source's \<open>f"PUSH{i}"\<close> writes them.\<close>

fun nat_str :: "nat \<Rightarrow> string" where
  "nat_str n = (if n < 10 then [char_of (48 + n)] else nat_str (n div 10) @ [char_of (48 + n mod 10)])"

declare nat_str.simps [simp del]

definition base_info :: "(int \<times> opcode_info) list" where
  "base_info =
    [(0x00, \<lparr>opcode = 0x00, op_name = ''STOP'', stack_input = 0, stack_output = 0, gas_cost = 0\<rparr>),
     (0x01, \<lparr>opcode = 0x01, op_name = ''ADD'', stack_input = 2, stack_output = 1, gas_cost = 3\<rparr>),
     (0x02, \<lparr>opcode = 0x02, op_name = ''MUL'', stack_input = 2, stack_output = 1, gas_cost = 5\<rparr>),
     (0x03, \<lparr>opcode = 0x03, op_name = ''SUB'', stack_input = 2, stack_output = 1, gas_cost = 3\<rparr>),
     (0x04, \<lparr>opcode = 0x04, op_name = ''DIV'', stack_input = 2, stack_output = 1, gas_cost = 5\<rparr>),
     (0x05, \<lparr>opcode = 0x05, op_name = ''SDIV'', stack_input = 2, stack_output = 1, gas_cost = 5\<rparr>),
     (0x06, \<lparr>opcode = 0x06, op_name = ''MOD'', stack_input = 2, stack_output = 1, gas_cost = 5\<rparr>),
     (0x07, \<lparr>opcode = 0x07, op_name = ''SMOD'', stack_input = 2, stack_output = 1, gas_cost = 5\<rparr>),
     (0x08, \<lparr>opcode = 0x08, op_name = ''ADDMOD'', stack_input = 3, stack_output = 1, gas_cost = 8\<rparr>),
     (0x09, \<lparr>opcode = 0x09, op_name = ''MULMOD'', stack_input = 3, stack_output = 1, gas_cost = 8\<rparr>),
     (0x0A, \<lparr>opcode = 0x0A, op_name = ''EXP'', stack_input = 2, stack_output = 1, gas_cost = 10\<rparr>),
     (0x0B, \<lparr>opcode = 0x0B, op_name = ''SIGNEXTEND'', stack_input = 2, stack_output = 1, gas_cost = 5\<rparr>),
     (0x10, \<lparr>opcode = 0x10, op_name = ''LT'', stack_input = 2, stack_output = 1, gas_cost = 3\<rparr>),
     (0x11, \<lparr>opcode = 0x11, op_name = ''GT'', stack_input = 2, stack_output = 1, gas_cost = 3\<rparr>),
     (0x12, \<lparr>opcode = 0x12, op_name = ''SLT'', stack_input = 2, stack_output = 1, gas_cost = 3\<rparr>),
     (0x13, \<lparr>opcode = 0x13, op_name = ''SGT'', stack_input = 2, stack_output = 1, gas_cost = 3\<rparr>),
     (0x14, \<lparr>opcode = 0x14, op_name = ''EQ'', stack_input = 2, stack_output = 1, gas_cost = 3\<rparr>),
     (0x15, \<lparr>opcode = 0x15, op_name = ''ISZERO'', stack_input = 1, stack_output = 1, gas_cost = 3\<rparr>),
     (0x16, \<lparr>opcode = 0x16, op_name = ''AND'', stack_input = 2, stack_output = 1, gas_cost = 3\<rparr>),
     (0x17, \<lparr>opcode = 0x17, op_name = ''OR'', stack_input = 2, stack_output = 1, gas_cost = 3\<rparr>),
     (0x18, \<lparr>opcode = 0x18, op_name = ''XOR'', stack_input = 2, stack_output = 1, gas_cost = 3\<rparr>),
     (0x19, \<lparr>opcode = 0x19, op_name = ''NOT'', stack_input = 1, stack_output = 1, gas_cost = 3\<rparr>),
     (0x1A, \<lparr>opcode = 0x1A, op_name = ''BYTE'', stack_input = 2, stack_output = 1, gas_cost = 3\<rparr>),
     (0x1B, \<lparr>opcode = 0x1B, op_name = ''SHL'', stack_input = 2, stack_output = 1, gas_cost = 3\<rparr>),
     (0x1C, \<lparr>opcode = 0x1C, op_name = ''SHR'', stack_input = 2, stack_output = 1, gas_cost = 3\<rparr>),
     (0x1D, \<lparr>opcode = 0x1D, op_name = ''SAR'', stack_input = 2, stack_output = 1, gas_cost = 3\<rparr>),
     (0x20, \<lparr>opcode = 0x20, op_name = ''KECCAK256'', stack_input = 2, stack_output = 1, gas_cost = 30\<rparr>),
     (0x30, \<lparr>opcode = 0x30, op_name = ''ADDRESS'', stack_input = 0, stack_output = 1, gas_cost = 2\<rparr>),
     (0x31, \<lparr>opcode = 0x31, op_name = ''BALANCE'', stack_input = 1, stack_output = 1, gas_cost = 100\<rparr>),
     (0x32, \<lparr>opcode = 0x32, op_name = ''ORIGIN'', stack_input = 0, stack_output = 1, gas_cost = 2\<rparr>),
     (0x33, \<lparr>opcode = 0x33, op_name = ''CALLER'', stack_input = 0, stack_output = 1, gas_cost = 2\<rparr>),
     (0x34, \<lparr>opcode = 0x34, op_name = ''CALLVALUE'', stack_input = 0, stack_output = 1, gas_cost = 2\<rparr>),
     (0x35, \<lparr>opcode = 0x35, op_name = ''CALLDATALOAD'', stack_input = 1, stack_output = 1, gas_cost = 3\<rparr>),
     (0x36, \<lparr>opcode = 0x36, op_name = ''CALLDATASIZE'', stack_input = 0, stack_output = 1, gas_cost = 2\<rparr>),
     (0x37, \<lparr>opcode = 0x37, op_name = ''CALLDATACOPY'', stack_input = 3, stack_output = 0, gas_cost = 3\<rparr>),
     (0x38, \<lparr>opcode = 0x38, op_name = ''CODESIZE'', stack_input = 0, stack_output = 1, gas_cost = 2\<rparr>),
     (0x39, \<lparr>opcode = 0x39, op_name = ''CODECOPY'', stack_input = 3, stack_output = 0, gas_cost = 3\<rparr>),
     (0x3A, \<lparr>opcode = 0x3A, op_name = ''GASPRICE'', stack_input = 0, stack_output = 1, gas_cost = 2\<rparr>),
     (0x3B, \<lparr>opcode = 0x3B, op_name = ''EXTCODESIZE'', stack_input = 1, stack_output = 1, gas_cost = 100\<rparr>),
     (0x3C, \<lparr>opcode = 0x3C, op_name = ''EXTCODECOPY'', stack_input = 4, stack_output = 0, gas_cost = 100\<rparr>),
     (0x3D, \<lparr>opcode = 0x3D, op_name = ''RETURNDATASIZE'', stack_input = 0, stack_output = 1, gas_cost = 2\<rparr>),
     (0x3E, \<lparr>opcode = 0x3E, op_name = ''RETURNDATACOPY'', stack_input = 3, stack_output = 0, gas_cost = 3\<rparr>),
     (0x3F, \<lparr>opcode = 0x3F, op_name = ''EXTCODEHASH'', stack_input = 1, stack_output = 1, gas_cost = 100\<rparr>),
     (0x40, \<lparr>opcode = 0x40, op_name = ''BLOCKHASH'', stack_input = 1, stack_output = 1, gas_cost = 20\<rparr>),
     (0x41, \<lparr>opcode = 0x41, op_name = ''COINBASE'', stack_input = 0, stack_output = 1, gas_cost = 2\<rparr>),
     (0x42, \<lparr>opcode = 0x42, op_name = ''TIMESTAMP'', stack_input = 0, stack_output = 1, gas_cost = 2\<rparr>),
     (0x43, \<lparr>opcode = 0x43, op_name = ''NUMBER'', stack_input = 0, stack_output = 1, gas_cost = 2\<rparr>),
     (0x44, \<lparr>opcode = 0x44, op_name = ''PREVRANDAO'', stack_input = 0, stack_output = 1, gas_cost = 2\<rparr>),
     (0x45, \<lparr>opcode = 0x45, op_name = ''GASLIMIT'', stack_input = 0, stack_output = 1, gas_cost = 2\<rparr>),
     (0x46, \<lparr>opcode = 0x46, op_name = ''CHAINID'', stack_input = 0, stack_output = 1, gas_cost = 2\<rparr>),
     (0x47, \<lparr>opcode = 0x47, op_name = ''SELFBALANCE'', stack_input = 0, stack_output = 1, gas_cost = 5\<rparr>),
     (0x48, \<lparr>opcode = 0x48, op_name = ''BASEFEE'', stack_input = 0, stack_output = 1, gas_cost = 2\<rparr>),
     (0x49, \<lparr>opcode = 0x49, op_name = ''BLOBHASH'', stack_input = 1, stack_output = 1, gas_cost = 3\<rparr>),
     (0x4A, \<lparr>opcode = 0x4A, op_name = ''BLOBBASEFEE'', stack_input = 0, stack_output = 1, gas_cost = 2\<rparr>),
     (0x50, \<lparr>opcode = 0x50, op_name = ''POP'', stack_input = 1, stack_output = 0, gas_cost = 2\<rparr>),
     (0x51, \<lparr>opcode = 0x51, op_name = ''MLOAD'', stack_input = 1, stack_output = 1, gas_cost = 3\<rparr>),
     (0x52, \<lparr>opcode = 0x52, op_name = ''MSTORE'', stack_input = 2, stack_output = 0, gas_cost = 3\<rparr>),
     (0x53, \<lparr>opcode = 0x53, op_name = ''MSTORE8'', stack_input = 2, stack_output = 0, gas_cost = 3\<rparr>),
     (0x54, \<lparr>opcode = 0x54, op_name = ''SLOAD'', stack_input = 1, stack_output = 1, gas_cost = 100\<rparr>),
     (0x55, \<lparr>opcode = 0x55, op_name = ''SSTORE'', stack_input = 2, stack_output = 0, gas_cost = 100\<rparr>),
     (0x56, \<lparr>opcode = 0x56, op_name = ''JUMP'', stack_input = 1, stack_output = 0, gas_cost = 8\<rparr>),
     (0x57, \<lparr>opcode = 0x57, op_name = ''JUMPI'', stack_input = 2, stack_output = 0, gas_cost = 10\<rparr>),
     (0x58, \<lparr>opcode = 0x58, op_name = ''PC'', stack_input = 0, stack_output = 1, gas_cost = 2\<rparr>),
     (0x59, \<lparr>opcode = 0x59, op_name = ''MSIZE'', stack_input = 0, stack_output = 1, gas_cost = 2\<rparr>),
     (0x5A, \<lparr>opcode = 0x5A, op_name = ''GAS'', stack_input = 0, stack_output = 1, gas_cost = 2\<rparr>),
     (0x5B, \<lparr>opcode = 0x5B, op_name = ''JUMPDEST'', stack_input = 0, stack_output = 0, gas_cost = 1\<rparr>),
     (0x5C, \<lparr>opcode = 0x5C, op_name = ''TLOAD'', stack_input = 1, stack_output = 1, gas_cost = 100\<rparr>),
     (0x5D, \<lparr>opcode = 0x5D, op_name = ''TSTORE'', stack_input = 2, stack_output = 0, gas_cost = 100\<rparr>),
     (0x5E, \<lparr>opcode = 0x5E, op_name = ''MCOPY'', stack_input = 3, stack_output = 0, gas_cost = 3\<rparr>),
     (0x5F, \<lparr>opcode = 0x5F, op_name = ''PUSH0'', stack_input = 0, stack_output = 1, gas_cost = 2\<rparr>),
     (0xA0, \<lparr>opcode = 0xA0, op_name = ''LOG0'', stack_input = 2, stack_output = 0, gas_cost = 375\<rparr>),
     (0xA1, \<lparr>opcode = 0xA1, op_name = ''LOG1'', stack_input = 3, stack_output = 0, gas_cost = 750\<rparr>),
     (0xA2, \<lparr>opcode = 0xA2, op_name = ''LOG2'', stack_input = 4, stack_output = 0, gas_cost = 1125\<rparr>),
     (0xA3, \<lparr>opcode = 0xA3, op_name = ''LOG3'', stack_input = 5, stack_output = 0, gas_cost = 1500\<rparr>),
     (0xA4, \<lparr>opcode = 0xA4, op_name = ''LOG4'', stack_input = 6, stack_output = 0, gas_cost = 1875\<rparr>),
     (0xF0, \<lparr>opcode = 0xF0, op_name = ''CREATE'', stack_input = 3, stack_output = 1, gas_cost = 32000\<rparr>),
     (0xF1, \<lparr>opcode = 0xF1, op_name = ''CALL'', stack_input = 7, stack_output = 1, gas_cost = 100\<rparr>),
     (0xF2, \<lparr>opcode = 0xF2, op_name = ''CALLCODE'', stack_input = 7, stack_output = 1, gas_cost = 100\<rparr>),
     (0xF3, \<lparr>opcode = 0xF3, op_name = ''RETURN'', stack_input = 2, stack_output = 0, gas_cost = 0\<rparr>),
     (0xF4, \<lparr>opcode = 0xF4, op_name = ''DELEGATECALL'', stack_input = 6, stack_output = 1, gas_cost = 100\<rparr>),
     (0xF5, \<lparr>opcode = 0xF5, op_name = ''CREATE2'', stack_input = 4, stack_output = 1, gas_cost = 32000\<rparr>),
     (0xFA, \<lparr>opcode = 0xFA, op_name = ''STATICCALL'', stack_input = 6, stack_output = 1, gas_cost = 100\<rparr>),
     (0xFD, \<lparr>opcode = 0xFD, op_name = ''REVERT'', stack_input = 2, stack_output = 0, gas_cost = 0\<rparr>),
     (0xFE, \<lparr>opcode = 0xFE, op_name = ''INVALID'', stack_input = 0, stack_output = 0, gas_cost = 0\<rparr>),
     (0xFF, \<lparr>opcode = 0xFF, op_name = ''SELFDESTRUCT'', stack_input = 1, stack_output = 0, gas_cost = 5000\<rparr>)]"

definition push_info :: "(int \<times> opcode_info) list" where
  "push_info = map (\<lambda>i. (0x5F + int i, \<lparr>opcode = 0x5F + int i, op_name = ''PUSH'' @ nat_str i,
     stack_input = 0, stack_output = 1, gas_cost = 3\<rparr>)) [1..<33]"

definition dup_info :: "(int \<times> opcode_info) list" where
  "dup_info = map (\<lambda>i. (0x7F + int i, \<lparr>opcode = 0x7F + int i, op_name = ''DUP'' @ nat_str i,
     stack_input = i, stack_output = i + 1, gas_cost = 3\<rparr>)) [1..<17]"

definition swap_info :: "(int \<times> opcode_info) list" where
  "swap_info = map (\<lambda>i. (0x8F + int i, \<lparr>opcode = 0x8F + int i, op_name = ''SWAP'' @ nat_str i,
     stack_input = i + 1, stack_output = i + 1, gas_cost = 3\<rparr>)) [1..<17]"

definition OPCODE_INFO :: "(int \<times> opcode_info) list" where
  "OPCODE_INFO = base_info @ push_info @ dup_info @ swap_info"

definition info_of :: "int \<Rightarrow> opcode_info option" where
  "info_of op = map_of OPCODE_INFO op"

section \<open>Classes\<close>

definition get_push_size :: "int \<Rightarrow> int" where
  "get_push_size op = (if 0x60 \<le> op \<and> op \<le> 0x7F then op - 0x5F else 0)"

definition is_push :: "int \<Rightarrow> bool" where
  "is_push op \<longleftrightarrow> 0x5F \<le> op \<and> op \<le> 0x7F"

definition is_dup :: "int \<Rightarrow> bool" where
  "is_dup op \<longleftrightarrow> 0x80 \<le> op \<and> op \<le> 0x8F"

definition is_swap :: "int \<Rightarrow> bool" where
  "is_swap op \<longleftrightarrow> 0x90 \<le> op \<and> op \<le> 0x9F"

definition is_log :: "int \<Rightarrow> bool" where
  "is_log op \<longleftrightarrow> 0xA0 \<le> op \<and> op \<le> 0xA4"

definition get_log_topic_count :: "int \<Rightarrow> int" where
  "get_log_topic_count op = (if 0xA0 \<le> op \<and> op \<le> 0xA4 then op - 0xA0 else 0)"

definition is_jump :: "int \<Rightarrow> bool" where
  "is_jump op \<longleftrightarrow> op \<in> {0x56, 0x57}"

definition is_terminating :: "int \<Rightarrow> bool" where
  "is_terminating op \<longleftrightarrow> op \<in> {0x00, 0xF3, 0xFD, 0xFE, 0xFF}"

section \<open>Facts about the table\<close>

lemma map_of_all: "map_of xs k = Some v \<Longrightarrow> list_all P xs \<Longrightarrow> P (k, v)"
  by (metis list_all_iff map_of_SomeD)

definition row_ok :: "int \<times> opcode_info \<Rightarrow> bool" where
  "row_ok r \<longleftrightarrow> (case r of (op, i) \<Rightarrow> opcode i = op \<and> 0 \<le> op \<and> op \<le> 255 \<and> 0 \<le> gas_cost i
     \<and> (gas_cost i = 0 \<longrightarrow> op \<in> {0x00, 0xF3, 0xFD, 0xFE})
     \<and> (is_push op \<longrightarrow> stack_input i = 0 \<and> stack_output i = 1)
     \<and> (is_dup op \<longrightarrow> int (stack_input i) = op - 0x7F \<and> stack_output i = stack_input i + 1)
     \<and> (is_swap op \<longrightarrow> int (stack_input i) = op - 0x8E \<and> stack_output i = stack_input i))"

lemma base_rows: "list_all row_ok base_info"
  unfolding base_info_def row_ok_def is_push_def is_dup_def is_swap_def
  by (simp only: list.pred_inject prod.case opcode_info.simps) simp

lemma loop_rows: "list_all row_ok push_info" "list_all row_ok dup_info" "list_all row_ok swap_info"
  by (auto simp: list_all_iff push_info_def dup_info_def swap_info_def row_ok_def
      is_push_def is_dup_def is_swap_def)

lemma all_rows: "list_all row_ok OPCODE_INFO"
  using base_rows loop_rows by (simp add: OPCODE_INFO_def)

lemma info_row: "info_of op = Some i \<Longrightarrow> row_ok (op, i)"
  unfolding info_of_def by (rule map_of_all [OF _ all_rows])

lemma info_gas_nonneg: "info_of op = Some i \<Longrightarrow> 0 \<le> gas_cost i"
  using info_row by (simp add: row_ok_def)

lemma info_gas_pos: "info_of op = Some i \<Longrightarrow> op \<notin> {0x00, 0xF3, 0xFD, 0xFE} \<Longrightarrow> 0 < gas_cost i"
  using info_row [of op i] by (auto simp: row_ok_def)

text \<open>The gas column of the table, for evaluation.\<close>

definition gas_of :: "int \<Rightarrow> int option" where
  "gas_of op = map_option gas_cost (info_of op)"

lemma gas_rows: "map (\<lambda>r. (fst r, gas_cost (snd r))) OPCODE_INFO =
    [(0x00, 0), (0x01, 3), (0x02, 5), (0x03, 3), (0x04, 5), (0x05, 5), (0x06, 5), (0x07, 5), (0x08, 8),
     (0x09, 8), (0x0A, 10), (0x0B, 5), (0x10, 3), (0x11, 3), (0x12, 3), (0x13, 3), (0x14, 3), (0x15, 3),
     (0x16, 3), (0x17, 3), (0x18, 3), (0x19, 3), (0x1A, 3), (0x1B, 3), (0x1C, 3), (0x1D, 3), (0x20, 30),
     (0x30, 2), (0x31, 100), (0x32, 2), (0x33, 2), (0x34, 2), (0x35, 3), (0x36, 2), (0x37, 3), (0x38, 2),
     (0x39, 3), (0x3A, 2), (0x3B, 100), (0x3C, 100), (0x3D, 2), (0x3E, 3), (0x3F, 100), (0x40, 20),
     (0x41, 2), (0x42, 2), (0x43, 2), (0x44, 2), (0x45, 2), (0x46, 2), (0x47, 5), (0x48, 2), (0x49, 3),
     (0x4A, 2), (0x50, 2), (0x51, 3), (0x52, 3), (0x53, 3), (0x54, 100), (0x55, 100), (0x56, 8), (0x57, 10),
     (0x58, 2), (0x59, 2), (0x5A, 2), (0x5B, 1), (0x5C, 100), (0x5D, 100), (0x5E, 3), (0x5F, 2), (0xA0, 375),
     (0xA1, 750), (0xA2, 1125), (0xA3, 1500), (0xA4, 1875), (0xF0, 32000), (0xF1, 100), (0xF2, 100),
     (0xF3, 0), (0xF4, 100), (0xF5, 32000), (0xFA, 100), (0xFD, 0), (0xFE, 0), (0xFF, 5000), (0x60, 3),
     (0x61, 3), (0x62, 3), (0x63, 3), (0x64, 3), (0x65, 3), (0x66, 3), (0x67, 3), (0x68, 3), (0x69, 3),
     (0x6A, 3), (0x6B, 3), (0x6C, 3), (0x6D, 3), (0x6E, 3), (0x6F, 3), (0x70, 3), (0x71, 3), (0x72, 3),
     (0x73, 3), (0x74, 3), (0x75, 3), (0x76, 3), (0x77, 3), (0x78, 3), (0x79, 3), (0x7A, 3), (0x7B, 3),
     (0x7C, 3), (0x7D, 3), (0x7E, 3), (0x7F, 3), (0x80, 3), (0x81, 3), (0x82, 3), (0x83, 3), (0x84, 3),
     (0x85, 3), (0x86, 3), (0x87, 3), (0x88, 3), (0x89, 3), (0x8A, 3), (0x8B, 3), (0x8C, 3), (0x8D, 3),
     (0x8E, 3), (0x8F, 3), (0x90, 3), (0x91, 3), (0x92, 3), (0x93, 3), (0x94, 3), (0x95, 3), (0x96, 3),
     (0x97, 3), (0x98, 3), (0x99, 3), (0x9A, 3), (0x9B, 3), (0x9C, 3), (0x9D, 3), (0x9E, 3), (0x9F, 3)]"
  unfolding OPCODE_INFO_def base_info_def push_info_def dup_info_def swap_info_def
  by (simp add: upt_rec)

lemma map_of_gas: "map_option gas_cost (map_of xs k) = map_of (map (\<lambda>r. (fst r, gas_cost (snd r))) xs) k"
  by (induction xs) auto

lemmas gas_of_code [code] = gas_of_def [unfolded info_of_def map_of_gas gas_rows]

section \<open>Properties\<close>

definition table_name :: "int \<times> opcode_info \<Rightarrow> string \<times> int" where
  "table_name r = (op_name (snd r), fst r)"

lemma base_names: "map table_name base_info = take 70 Opcode @ drop 134 Opcode"
  unfolding base_info_def Opcode_def table_name_def by simp

lemma nat_str_small: "n < 10 \<Longrightarrow> nat_str n = [char_of (48 + n)]"
  "10 \<le> n \<Longrightarrow> n < 100 \<Longrightarrow> nat_str n = [char_of (48 + n div 10), char_of (48 + n mod 10)]"
  by (simp add: nat_str.simps) (simp add: nat_str.simps [of n] nat_str.simps [of "n div 10"] less_mult_imp_div_less)

lemma loop_names:
  "map table_name push_info @ map table_name dup_info @ map table_name swap_info = take 64 (drop 70 Opcode)"
  unfolding push_info_def dup_info_def swap_info_def Opcode_def table_name_def
  by (simp add: upt_rec nat_str_small char_of_def bit_0)

lemma rotate_middle:
  "set (take a xs @ drop (a + n) xs @ take n (drop a xs)) = set xs"
  "length (take a xs @ drop (a + n) xs @ take n (drop a xs)) = length xs"
proof -
  define ys zs ws where "ys = take a xs" and "zs = take n (drop a xs)" and "ws = drop (a + n) xs"
  have "ys @ zs @ ws = xs"
    unfolding ys_def zs_def ws_def by (metis append_take_drop_id drop_drop add.commute)
  then have "set xs = set (ys @ zs @ ws)" and "length xs = length (ys @ zs @ ws)" by simp_all
  then show "set (take a xs @ drop (a + n) xs @ take n (drop a xs)) = set xs"
    and "length (take a xs @ drop (a + n) xs @ take n (drop a xs)) = length xs"
    unfolding ys_def [symmetric] zs_def [symmetric] ws_def [symmetric] by auto
qed

text \<open>
  the opcode table and the enumeration agree: the table has exactly one row per member, under
  the member's number and name. Every row but STOP, RETURN, REVERT and INVALID costs gas, and the
  generated PUSH, DUP and SWAP rows have the stack effects of their positions.
\<close>

lemma opcode_table_consistent:
  "set (map table_name OPCODE_INFO) = set Opcode \<and> length OPCODE_INFO = length Opcode
   \<and> list_all row_ok OPCODE_INFO"
proof -
  have names: "map table_name OPCODE_INFO
      = take 70 Opcode @ drop (70 + 64) Opcode @ take 64 (drop 70 Opcode)"
    using base_names loop_names by (simp add: OPCODE_INFO_def)
  have "set (map table_name OPCODE_INFO) = set Opcode"
    unfolding names by (rule rotate_middle)
  moreover have "length (map table_name OPCODE_INFO) = length Opcode"
    unfolding names by (rule rotate_middle)
  ultimately show ?thesis using all_rows by simp
qed

end
