(* ===== verification/EvmMachine.thy ===== *)
theory EvmMachine
  imports EvmContext Precompiles Opcodes
begin

text \<open>
  The state of \<open>EVMInterpreter\<close> (\<open>src/xai/core/vm/evm/interpreter.py\<close>): the frame that
  runs, the execution context, the counters of the running \<open>execute\<close>, and the class-level
  cache of jump destinations. The section on jump destinations models
  \<open>_compute_jump_destinations\<close> and its cache, with the proof that the cache is transparent.

  \<open>call\<close> is the frame of the handler that runs. A handler that runs another frame swaps it
  (\<open>with_frame\<close>), as the source passes another \<open>CallContext\<close> object to \<open>execute\<close>.
  The clock is read through \<open>time_reads\<close>: the \<open>n\<close>-th reading is \<open>clock X n\<close>, an exact
  number where the source has a float.
\<close>

section \<open>State\<close>

record machine =
  call :: call_context
  ctx :: execution_context
  instruction_count :: int
  start_time :: rat
  time_reads :: nat
  jump_dest_cache :: "(string \<times> int set) list"
  cache_hits :: int
  cache_misses :: int

type_synonym 'a vm = "(machine, 'a) meth"

definition UINT256_CEILING :: int where "UINT256_CEILING = 2 ^ 256"
definition JUMP_DEST_CACHE_SIZE :: nat where "JUMP_DEST_CACHE_SIZE = 256"
definition JUMP_DEST_CACHE_EVICTION_SIZE :: nat where "JUMP_DEST_CACHE_EVICTION_SIZE = 128"
definition MAX_EXECUTION_TIME :: rat where "MAX_EXECUTION_TIME = 10"
definition MAX_INSTRUCTIONS :: int where "MAX_INSTRUCTIONS = 10000000"

definition new_machine :: "call_context \<Rightarrow> execution_context \<Rightarrow> machine" where
  "new_machine c x = \<lparr>call = c, ctx = x, instruction_count = 0, start_time = 0, time_reads = 0,
     jump_dest_cache = [], cache_hits = 0, cache_misses = 0\<rparr>"

section \<open>Access to the parts\<close>

definition on_call :: "(call_context, 'a) meth \<Rightarrow> 'a vm" where
  "on_call m = zoom call call_update m"

definition on_ctx :: "(execution_context, 'a) meth \<Rightarrow> 'a vm" where
  "on_ctx m = zoom ctx ctx_update m"

definition on_stack :: "(evm_stack, 'a) meth \<Rightarrow> 'a vm" where
  "on_stack m = on_call (zoom stack stack_update m)"

definition on_memory :: "(evm_memory, 'a) meth \<Rightarrow> 'a vm" where
  "on_memory m = on_call (zoom memory memory_update m)"

definition get_call :: "(call_context \<Rightarrow> 'a) \<Rightarrow> 'a vm" where
  "get_call f = reads (\<lambda>s. f (call s))"

definition get_ctx :: "(execution_context \<Rightarrow> 'a) \<Rightarrow> 'a vm" where
  "get_ctx f = reads (\<lambda>s. f (ctx s))"

definition set_call :: "(call_context \<Rightarrow> call_context) \<Rightarrow> unit vm" where
  "set_call f = modify (call_update f)"

definition set_ctx :: "(execution_context \<Rightarrow> execution_context) \<Rightarrow> unit vm" where
  "set_ctx f = modify (ctx_update f)"

text \<open>\<open>time.time()\<close>\<close>

definition read_clock :: "externals \<Rightarrow> rat vm" where
  "read_clock X s = (Inr (clock X (time_reads s)), s\<lparr>time_reads := time_reads s + 1\<rparr>)"

definition pop :: "int vm" where "pop = on_stack stack_pop"
definition push :: "int \<Rightarrow> unit vm" where "push v = on_stack (stack_push v)"

text \<open>\<open>if not call.use_gas(amount): raise VMExecutionError\<close>\<close>

definition charge :: "int \<Rightarrow> unit vm" where
  "charge amount = and_then (on_call (use_gas amount)) (\<lambda>ok.
     if ok then ret () else raise (VMExecutionError OutOfGas))"

text \<open>
  Runs \<open>m\<close> with the frame \<open>c\<close> and gives back that frame as \<open>m\<close> leaves it; the frame
  that was running is in place again afterwards, also when \<open>m\<close> raises.
\<close>

definition with_frame :: "call_context \<Rightarrow> unit vm \<Rightarrow> call_context vm" where
  "with_frame c m s =
     (case m (s\<lparr>call := c\<rparr>) of (r, t) \<Rightarrow> (map_sum id (\<lambda>_. call t) r, t\<lparr>call := call s\<rparr>))"

text \<open>Pops in the order the source evaluates them.\<close>

definition pop2 :: "(int \<Rightarrow> int \<Rightarrow> 'a vm) \<Rightarrow> 'a vm" where
  "pop2 k = and_then pop (\<lambda>a. and_then pop (\<lambda>b. k a b))"

definition pop3 :: "(int \<Rightarrow> int \<Rightarrow> int \<Rightarrow> 'a vm) \<Rightarrow> 'a vm" where
  "pop3 k = and_then pop (\<lambda>a. pop2 (k a))"

definition pop4 :: "(int \<Rightarrow> int \<Rightarrow> int \<Rightarrow> int \<Rightarrow> 'a vm) \<Rightarrow> 'a vm" where
  "pop4 k = and_then pop (\<lambda>a. pop3 (k a))"

definition pop6 :: "(int \<Rightarrow> int \<Rightarrow> int \<Rightarrow> int \<Rightarrow> int \<Rightarrow> int \<Rightarrow> 'a vm) \<Rightarrow> 'a vm" where
  "pop6 k = pop2 (\<lambda>a b. pop4 (k a b))"

definition pop7 :: "(int \<Rightarrow> int \<Rightarrow> int \<Rightarrow> int \<Rightarrow> int \<Rightarrow> int \<Rightarrow> int \<Rightarrow> 'a vm) \<Rightarrow> 'a vm" where
  "pop7 k = and_then pop (\<lambda>a. pop6 (k a))"

primrec pop_list :: "nat \<Rightarrow> int list vm" where
  "pop_list 0 = ret []"
| "pop_list (Suc n) = and_then pop (\<lambda>a. and_then (pop_list n) (\<lambda>as. ret (a # as)))"

lemmas pops = pop2_def pop3_def pop4_def pop6_def pop7_def

text \<open>A slice of a byte string padded with zeros to \<open>sz\<close> bytes, as the copy opcodes take it.\<close>

definition padded_slice :: "byte list \<Rightarrow> int \<Rightarrow> int \<Rightarrow> byte list" where
  "padded_slice bs off sz =
     (if off \<ge> int (length bs) then zeros (nat sz)
      else let end = min (off + sz) (int (length bs));
               data = slice (nat off) (nat end) bs
           in data @ zeros (nat (sz - int (length data))))"

section \<open>Jump destinations\<close>

text \<open>
  The scan of \<open>_compute_jump_destinations\<close> from index \<open>i\<close>; the fuel is the number of
  bytes left, and every turn moves on by one byte at least.
\<close>

fun scan_jump_dests :: "nat \<Rightarrow> byte list \<Rightarrow> nat \<Rightarrow> int set" where
  "scan_jump_dests 0 bs i = {}"
| "scan_jump_dests (Suc n) bs i =
     (if i < length bs then
        (let op = uint (bs ! i);
             rest = scan_jump_dests n bs (if is_push op then i + nat (get_push_size op) + 1 else i + 1)
         in if op = 0x5B then insert (int i) rest else rest)
      else {})"

definition find_jump_dests :: "byte list \<Rightarrow> int set" where
  "find_jump_dests bs = scan_jump_dests (length bs) bs 0"

definition code_hash :: "externals \<Rightarrow> byte list \<Rightarrow> string" where
  "code_hash X bs = hex_of_bytes (sha256 X bs)"

definition evict :: "(string \<times> int set) list \<Rightarrow> (string \<times> int set) list" where
  "evict cache = (if length cache \<ge> JUMP_DEST_CACHE_SIZE
     then drop JUMP_DEST_CACHE_EVICTION_SIZE cache else cache)"

definition compute_jump_destinations :: "externals \<Rightarrow> byte list \<Rightarrow> int set vm" where
  "compute_jump_destinations X bs s =
     (if bs = [] then ret {} s
      else let h = code_hash X bs in
        case map_of (jump_dest_cache s) h of
          Some ds \<Rightarrow> ret ds (s\<lparr>cache_hits := cache_hits s + 1\<rparr>)
        | None \<Rightarrow>
            let ds = find_jump_dests bs
            in ret ds (s\<lparr>cache_misses := cache_misses s + 1,
                 jump_dest_cache := AList.update h ds (evict (jump_dest_cache s))\<rparr>))"

text \<open>\<open>get_cache_stats\<close> without the hit rate, which is a float of the first two.\<close>

definition get_cache_stats :: "machine \<Rightarrow> int \<times> int \<times> int" where
  "get_cache_stats s = (cache_hits s, cache_misses s, int (length (jump_dest_cache s)))"

definition clear_cache :: "machine \<Rightarrow> machine" where
  "clear_cache s = s\<lparr>jump_dest_cache := [], cache_hits := 0, cache_misses := 0\<rparr>"

section \<open>The specification of jump destinations\<close>

text \<open>Where instructions begin, and the JUMPDEST bytes among those places.\<close>

inductive instr_start :: "byte list \<Rightarrow> nat \<Rightarrow> bool" for bs where
  zero: "instr_start bs 0"
| step: "instr_start bs i \<Longrightarrow> i < length bs \<Longrightarrow> instr_start bs (i + nat (get_push_size (uint (bs ! i))) + 1)"

definition valid_dest :: "byte list \<Rightarrow> int \<Rightarrow> bool" where
  "valid_dest bs d \<longleftrightarrow> (\<exists>i < length bs. d = int i \<and> instr_start bs i \<and> uint (bs ! i) = 0x5B)"

text \<open>The starts at or after \<open>i\<close>, when \<open>i\<close> is one.\<close>

inductive start_from :: "byte list \<Rightarrow> nat \<Rightarrow> nat \<Rightarrow> bool" for bs where
  here: "start_from bs i i"
| later: "i < length bs \<Longrightarrow> start_from bs (i + nat (get_push_size (uint (bs ! i))) + 1) j \<Longrightarrow> start_from bs i j"

lemma start_from_trans_step:
  "start_from bs i j \<Longrightarrow> j < length bs \<Longrightarrow> start_from bs i (j + nat (get_push_size (uint (bs ! j))) + 1)"
  by (induction rule: start_from.induct) (blast intro: start_from.intros)+

lemma instr_start_from: "instr_start bs j \<longleftrightarrow> start_from bs 0 j"
proof
  show "instr_start bs j \<Longrightarrow> start_from bs 0 j"
    by (induction rule: instr_start.induct) (blast intro: start_from.here start_from_trans_step)+
  have "start_from bs i j \<Longrightarrow> instr_start bs i \<Longrightarrow> instr_start bs j" for i
    by (induction rule: start_from.induct) (blast intro: instr_start.step)+
  then show "start_from bs 0 j \<Longrightarrow> instr_start bs j"
    using instr_start.zero by blast
qed

lemma next_start: "(if is_push op then i + nat (get_push_size op) + 1 else i + 1) = i + nat (get_push_size op) + 1"
  by (auto simp: is_push_def get_push_size_def)

lemma scan_correct:
  "length bs \<le> n + i \<Longrightarrow> scan_jump_dests n bs i =
     {int j | j. j < length bs \<and> start_from bs i j \<and> uint (bs ! j) = 0x5B}"
proof (induction n arbitrary: i)
  case 0
  have "i \<le> j" if "start_from bs i j" for j
    using that by (induction rule: start_from.induct) auto
  with 0 show ?case by fastforce
next
  case (Suc n)
  show ?case
  proof (cases "i < length bs")
    case True
    let ?i' = "i + nat (get_push_size (uint (bs ! i))) + 1"
    have "start_from bs i j \<longleftrightarrow> j = i \<or> start_from bs ?i' j" for j
      using True by (subst start_from.simps) auto
    with Suc.IH [of ?i'] Suc.prems True show ?thesis
      unfolding scan_jump_dests.simps Let_def next_start by auto
  next
    case False
    have "j = i" if "start_from bs i j" for j
      using that False by (cases rule: start_from.cases) auto
    with False show ?thesis by auto
  qed
qed

lemma find_jump_dests_iff: "d \<in> find_jump_dests bs \<longleftrightarrow> valid_dest bs d"
  by (auto simp: find_jump_dests_def scan_correct valid_dest_def instr_start_from)

section \<open>The cache\<close>

definition cache_entry :: "externals \<Rightarrow> string \<times> int set \<Rightarrow> bool" where
  "cache_entry X e \<longleftrightarrow> (\<exists>bs. fst e = code_hash X bs \<and> snd e = find_jump_dests bs)"

definition wf_cache :: "externals \<Rightarrow> machine \<Rightarrow> bool" where
  "wf_cache X s \<longleftrightarrow> distinct (map fst (jump_dest_cache s)) \<and> length (jump_dest_cache s) \<le> JUMP_DEST_CACHE_SIZE
     \<and> (\<forall>e \<in> set (jump_dest_cache s). cache_entry X e)"

lemma length_update: "length (AList.update k v xs) = (if k \<in> fst ` set xs then length xs else length xs + 1)"
  by (induction xs) auto

lemma set_update_subset: "set (AList.update k v xs) \<subseteq> insert (k, v) (set xs)"
  by (induction xs) auto

lemma evict_facts: "set (evict c) \<subseteq> set c" "distinct (map fst c) \<Longrightarrow> distinct (map fst (evict c))"
  "length c \<le> JUMP_DEST_CACHE_SIZE \<Longrightarrow> length (evict c) < JUMP_DEST_CACHE_SIZE"
  by (auto simp: evict_def drop_map [symmetric] JUMP_DEST_CACHE_SIZE_def JUMP_DEST_CACHE_EVICTION_SIZE_def
      dest: in_set_dropD)

lemma wf_cache_compute:
  assumes "wf_cache X s"
  shows "wf_cache X (snd (compute_jump_destinations X bs s))"
proof (cases "bs = [] \<or> map_of (jump_dest_cache s) (code_hash X bs) \<noteq> None")
  case True
  with assms show ?thesis
    by (auto simp: compute_jump_destinations_def ret_def Let_def wf_cache_def)
next
  case False
  let ?c = "AList.update (code_hash X bs) (find_jump_dests bs) (evict (jump_dest_cache s))"
  have s': "jump_dest_cache (snd (compute_jump_destinations X bs s)) = ?c"
    using False by (simp add: compute_jump_destinations_def ret_def Let_def)
  have "distinct (map fst ?c)"
    using assms by (intro distinct_update evict_facts) (simp add: wf_cache_def)
  moreover have "length ?c \<le> JUMP_DEST_CACHE_SIZE"
    using evict_facts(3) [of "jump_dest_cache s"] assms by (auto simp: wf_cache_def length_update)
  moreover have "cache_entry X e" if "e \<in> set ?c" for e
  proof -
    from that consider "e = (code_hash X bs, find_jump_dests bs)" | "e \<in> set (jump_dest_cache s)"
      using set_update_subset [of "code_hash X bs" "find_jump_dests bs" "evict (jump_dest_cache s)"]
        evict_facts(1) [of "jump_dest_cache s"] by blast
    then show ?thesis
    proof cases
      case 1
      then show ?thesis unfolding cache_entry_def by (intro exI [of _ bs]) simp
    next
      case 2
      with assms show ?thesis by (simp add: wf_cache_def)
    qed
  qed
  ultimately show ?thesis by (simp add: wf_cache_def s')
qed

lemma compute_frame:
  "call (snd (compute_jump_destinations X bs s)) = call s"
  "ctx (snd (compute_jump_destinations X bs s)) = ctx s"
  "instruction_count (snd (compute_jump_destinations X bs s)) = instruction_count s"
  "start_time (snd (compute_jump_destinations X bs s)) = start_time s"
  "time_reads (snd (compute_jump_destinations X bs s)) = time_reads s"
  by (simp_all add: compute_jump_destinations_def ret_def Let_def split: option.splits)

text \<open>
  the jump destinations a frame gets, from the cache or computed, are exactly the JUMPDEST
  bytes at the beginning of an instruction (not inside PUSH data), provided no other
  bytecode with different destinations has the same SHA-256 hash; the cache keeps that meaning and
  never grows beyond 256 entries.
\<close>

lemma jump_destinations_correct:
  assumes "wf_cache X s" and "\<forall>c. code_hash X c = code_hash X bs \<longrightarrow> find_jump_dests c = find_jump_dests bs"
  shows "\<exists>t. compute_jump_destinations X bs s = (Inr {d. valid_dest bs d}, t) \<and> wf_cache X t
    \<and> length (jump_dest_cache t) \<le> 256"
proof -
  have "fst (compute_jump_destinations X bs s) = Inr (find_jump_dests bs)"
  proof (cases "bs = []")
    case True
    then show ?thesis by (simp add: compute_jump_destinations_def ret_def find_jump_dests_def)
  next
    case False
    show ?thesis
    proof (cases "map_of (jump_dest_cache s) (code_hash X bs)")
      case None
      with False show ?thesis by (simp add: compute_jump_destinations_def ret_def Let_def)
    next
      case (Some ds)
      from map_of_SomeD [OF Some] assms(1) have "cache_entry X (code_hash X bs, ds)"
        by (simp add: wf_cache_def)
      with assms(2) have "ds = find_jump_dests bs"
        unfolding cache_entry_def by (metis fst_conv snd_conv)
      with Some False show ?thesis by (simp add: compute_jump_destinations_def ret_def Let_def)
    qed
  qed
  moreover have "find_jump_dests bs = {d. valid_dest bs d}"
    using find_jump_dests_iff by blast
  ultimately have "compute_jump_destinations X bs s
      = (Inr {d. valid_dest bs d}, snd (compute_jump_destinations X bs s))"
    by (metis prod.collapse)
  moreover note wf = wf_cache_compute [OF assms(1), of bs]
  moreover from wf have "length (jump_dest_cache (snd (compute_jump_destinations X bs s))) \<le> 256"
    by (simp add: wf_cache_def JUMP_DEST_CACHE_SIZE_def)
  ultimately show ?thesis by blast
qed

lemma hex_of_bytes_inj: "hex_of_bytes a = hex_of_bytes b \<Longrightarrow> a = b"
  by (metis fromhex_hex_of_bytes sum.inject(2))

end
