(* ===== verification/EvmOps.thy ===== *)
theory EvmOps
  imports EvmMachine
begin

text \<open>
  The opcode handlers of \<open>src/xai/core/vm/evm/interpreter.py\<close> that run no other frame:
  arithmetic, comparison, bitwise, hashing, environment, block, stack, memory, storage,
  jumps, logs, RETURN, REVERT, INVALID and SELFDESTRUCT. One definition per handler, with its
  statements in the order of the source: an operand is popped even when the handler then
  runs out of gas, and storage is written before its gas is charged.
\<close>

unbundle bit_operations_syntax

type_synonym handler = "unit vm"

section \<open>Push, dup and swap\<close>

definition handle_push :: "int \<Rightarrow> handler" where
  "handle_push op =
     and_then (get_call (\<lambda>c.
       let start = pc c + 1;
           end = start + get_push_size op
       in (end,
           if end \<le> int (length (code c)) then slice (nat start) (nat end) (code c)
           else drop (nat start) (code c) @ zeros (nat (end - int (length (code c))))))) (\<lambda>(end, value_bytes).
     and_then (push (from_bytes value_bytes)) (\<lambda>_.
     set_call (pc_update (\<lambda>_. end))))"

section \<open>Arithmetic\<close>

definition op_stop :: handler where
  "op_stop = set_call (halted_update (\<lambda>_. True))"

definition op_add :: handler where
  "op_add = pop2 (\<lambda>a b. push ((a + b) mod UINT256_CEILING))"

definition op_mul :: handler where
  "op_mul = pop2 (\<lambda>a b. push ((a * b) mod UINT256_CEILING))"

definition op_sub :: handler where
  "op_sub = pop2 (\<lambda>a b. push ((a - b) mod UINT256_CEILING))"

definition op_div :: handler where
  "op_div = pop2 (\<lambda>a b. push (if b \<noteq> 0 then a div b else 0))"

definition op_sdiv :: handler where
  "op_sdiv = pop2 (\<lambda>a' b'.
     let a = to_signed a'; b = to_signed b' in
     if b = 0 then push 0
     else let sign = (if (a < 0) \<noteq> (b < 0) then -1 else 1) in push (to_unsigned (sign * (\<bar>a\<bar> div \<bar>b\<bar>))))"

definition op_mod :: handler where
  "op_mod = pop2 (\<lambda>a b. push (if b \<noteq> 0 then a mod b else 0))"

definition op_smod :: handler where
  "op_smod = pop2 (\<lambda>a' b'.
     let a = to_signed a'; b = to_signed b' in
     if b = 0 then push 0
     else let sign = (if a < 0 then -1 else 1) in push (to_unsigned (sign * (\<bar>a\<bar> mod \<bar>b\<bar>))))"

definition op_addmod :: handler where
  "op_addmod = pop3 (\<lambda>a b n. push (if n \<noteq> 0 then (a + b) mod n else 0))"

definition op_mulmod :: handler where
  "op_mulmod = pop3 (\<lambda>a b n. push (if n \<noteq> 0 then (a * b) mod n else 0))"

text \<open>
  \<open>len(exp.to_bytes(32, "big").lstrip(b"\x00"))\<close>
\<close>

definition exp_bytes :: "int \<Rightarrow> int" where
  "exp_bytes e = (if e = 0 then 0 else int (length (dropWhile (\<lambda>b. b = 0) (be_bytes 32 e))))"

definition op_exp :: handler where
  "op_exp = pop2 (\<lambda>base e.
     let dynamic_gas = 50 * exp_bytes e in
     and_then (if dynamic_gas \<noteq> 0 then charge dynamic_gas else ret ()) (\<lambda>_.
     push (pow_mod base e UINT256_CEILING)))"

definition op_signextend :: handler where
  "op_signextend = pop2 (\<lambda>byte_size v. push (sign_extend v byte_size))"

section \<open>Comparison and bitwise operations\<close>

definition op_lt :: handler where "op_lt = pop2 (\<lambda>a b. push (if a < b then 1 else 0))"
definition op_gt :: handler where "op_gt = pop2 (\<lambda>a b. push (if a > b then 1 else 0))"

definition op_slt :: handler where
  "op_slt = pop2 (\<lambda>a b. push (if to_signed a < to_signed b then 1 else 0))"

definition op_sgt :: handler where
  "op_sgt = pop2 (\<lambda>a b. push (if to_signed a > to_signed b then 1 else 0))"

definition op_eq :: handler where "op_eq = pop2 (\<lambda>a b. push (if a = b then 1 else 0))"
definition op_iszero :: handler where "op_iszero = and_then pop (\<lambda>a. push (if a = 0 then 1 else 0))"
definition op_and :: handler where "op_and = pop2 (\<lambda>a b. push (a AND b))"
definition op_or :: handler where "op_or = pop2 (\<lambda>a b. push (a OR b))"
definition op_xor :: handler where "op_xor = pop2 (\<lambda>a b. push (a XOR b))"
definition op_not :: handler where "op_not = and_then pop (\<lambda>a. push (UINT256_MAX XOR a))"

definition op_byte :: handler where
  "op_byte = pop2 (\<lambda>i x. if i \<ge> 32 then push 0 else push (drop_bit (nat (248 - i * 8)) x AND 0xFF))"

definition op_shl :: handler where
  "op_shl = pop2 (\<lambda>shift v. if shift \<ge> 256 then push 0 else push (push_bit (nat shift) v mod UINT256_CEILING))"

definition op_shr :: handler where
  "op_shr = pop2 (\<lambda>shift v. if shift \<ge> 256 then push 0 else push (drop_bit (nat shift) v))"

definition op_sar :: handler where
  "op_sar = pop2 (\<lambda>shift v.
     let signed_value = to_signed v in
     if shift \<ge> 256 then push (to_unsigned (if signed_value < 0 then -1 else 0))
     else push (to_unsigned (drop_bit (nat shift) signed_value)))"

section \<open>Hash\<close>

definition op_keccak256 :: "externals \<Rightarrow> handler" where
  "op_keccak256 X = pop2 (\<lambda>offset sz.
     and_then (get_call (\<lambda>c. expansion_cost offset sz (memory c))) (\<lambda>expansion.
     and_then (charge (expansion + 6 * ((sz + 31) div 32))) (\<lambda>_.
     and_then (on_memory (mem_load_range offset sz)) (\<lambda>data.
     push (from_bytes (sha3_256 X data))))))"

section \<open>Environment\<close>

text \<open>\<open>f"0x{addr_int:040x}"\<close>\<close>

definition addr_of :: "int \<Rightarrow> string" where
  "addr_of n = format_hex 40 n"

text \<open>\<open>int(text, 16)\<close>, pushed.\<close>

definition push_hex :: "string \<Rightarrow> handler" where
  "push_hex a = and_then (lift_result (parse_int 16 a)) push"

definition op_address :: handler where
  "op_address = and_then (get_call address) push_hex"

definition op_balance :: handler where
  "op_balance = and_then pop (\<lambda>addr_int.
     let a = addr_of addr_int in
     and_then (on_ctx (warm_address a)) (\<lambda>g.
     and_then (charge g) (\<lambda>_.
     and_then (get_ctx (get_balance a)) push)))"

definition op_origin :: handler where
  "op_origin = and_then (get_ctx tx_origin) push_hex"

definition op_caller :: handler where
  "op_caller = and_then (get_call caller) push_hex"

definition op_callvalue :: handler where
  "op_callvalue = and_then (get_call call_value) push"

definition op_calldataload :: handler where
  "op_calldataload = and_then pop (\<lambda>offset.
     and_then (get_call calldata) (\<lambda>cd.
     if offset \<ge> int (length cd) then push 0 else push (from_bytes (padded_slice cd offset 32))))"

definition op_calldatasize :: handler where
  "op_calldatasize = and_then (get_call (\<lambda>c. int (length (calldata c)))) push"

text \<open>The gas of a copy opcode: memory expansion and three gas per word.\<close>

definition copy_gas :: "int \<Rightarrow> int \<Rightarrow> call_context \<Rightarrow> int" where
  "copy_gas dest sz c = expansion_cost dest sz (memory c) + 3 * ((sz + 31) div 32)"

definition op_calldatacopy :: handler where
  "op_calldatacopy = pop3 (\<lambda>dest_offset data_offset sz.
     and_then (get_call (copy_gas dest_offset sz)) (\<lambda>g.
     and_then (charge g) (\<lambda>_.
     and_then (get_call calldata) (\<lambda>cd.
     on_memory (mem_store_range dest_offset (padded_slice cd data_offset sz))))))"

definition op_codesize :: handler where
  "op_codesize = and_then (get_call (\<lambda>c. int (length (code c)))) push"

definition op_codecopy :: handler where
  "op_codecopy = pop3 (\<lambda>dest_offset code_offset sz.
     and_then (get_call (copy_gas dest_offset sz)) (\<lambda>g.
     and_then (charge g) (\<lambda>_.
     and_then (get_call code) (\<lambda>bs.
     on_memory (mem_store_range dest_offset (padded_slice bs code_offset sz))))))"

definition op_gasprice :: handler where
  "op_gasprice = and_then (get_ctx tx_gas_price) push"

text \<open>\<open>self.context.get_code(address)\<close>, which may raise.\<close>

definition read_code :: "string \<Rightarrow> byte list vm" where
  "read_code a = and_then (get_ctx (get_code a)) lift_result"

definition op_extcodesize :: handler where
  "op_extcodesize = and_then pop (\<lambda>addr_int.
     let a = addr_of addr_int in
     and_then (on_ctx (warm_address a)) (\<lambda>g.
     and_then (charge g) (\<lambda>_.
     and_then (read_code a) (\<lambda>bs. push (int (length bs))))))"

definition op_extcodecopy :: handler where
  "op_extcodecopy = pop4 (\<lambda>addr_int dest_offset code_offset sz.
     let a = addr_of addr_int in
     and_then (on_ctx (warm_address a)) (\<lambda>warm_gas.
     and_then (get_call (copy_gas dest_offset sz)) (\<lambda>g.
     and_then (charge (warm_gas + g)) (\<lambda>_.
     and_then (read_code a) (\<lambda>bs.
     on_memory (mem_store_range dest_offset (padded_slice bs code_offset sz)))))))"

definition op_returndatasize :: handler where
  "op_returndatasize = and_then (get_call (\<lambda>c. int (length (return_data c)))) push"

definition op_returndatacopy :: handler where
  "op_returndatacopy = pop3 (\<lambda>dest_offset data_offset sz.
     and_then (get_call return_data) (\<lambda>rd.
     if data_offset + sz > int (length rd) then raise (VMExecutionError ReturnDataBounds)
     else and_then (get_call (copy_gas dest_offset sz)) (\<lambda>g.
          and_then (charge g) (\<lambda>_.
          on_memory (mem_store_range dest_offset (slice (nat data_offset) (nat (data_offset + sz)) rd))))))"

definition op_extcodehash :: "externals \<Rightarrow> handler" where
  "op_extcodehash X = and_then pop (\<lambda>addr_int.
     let a = addr_of addr_int in
     and_then (on_ctx (warm_address a)) (\<lambda>g.
     and_then (charge g) (\<lambda>_.
     and_then (get_ctx (get_code_hash (sha3_256 X) a)) (\<lambda>r.
     and_then (lift_result r) push))))"

section \<open>Block\<close>

definition op_blockhash :: handler where
  "op_blockhash = and_then pop (\<lambda>block_num.
     and_then (get_ctx block) (\<lambda>b.
     if block_num \<ge> block_number b \<or> block_number b - block_num > 256 then push 0
     else push (get_block_hash block_num b)))"

definition op_coinbase :: handler where
  "op_coinbase = and_then (get_ctx (\<lambda>x. coinbase (block x))) (\<lambda>cb.
     if starts_with ''0x'' cb then push_hex cb else push 0)"

definition op_timestamp :: handler where
  "op_timestamp = and_then (get_ctx (\<lambda>x. block_timestamp (block x))) push"

definition op_number :: handler where
  "op_number = and_then (get_ctx (\<lambda>x. block_number (block x))) push"

definition op_prevrandao :: handler where
  "op_prevrandao = and_then (get_ctx (\<lambda>x. prevrandao (block x))) push"

definition op_gaslimit :: handler where
  "op_gaslimit = and_then (get_ctx (\<lambda>x. block_gas_limit (block x))) push"

definition op_chainid :: handler where
  "op_chainid = and_then (get_ctx (\<lambda>x. chain_id (block x))) push"

definition op_selfbalance :: handler where
  "op_selfbalance = and_then (get_call address) (\<lambda>a. and_then (get_ctx (get_balance a)) push)"

definition op_basefee :: handler where
  "op_basefee = and_then (get_ctx (\<lambda>x. base_fee (block x))) push"

section \<open>Stack, memory, storage and flow\<close>

definition op_pop :: handler where
  "op_pop = and_then pop (\<lambda>_. ret ())"

definition op_mload :: handler where
  "op_mload = and_then pop (\<lambda>offset.
     and_then (get_call (\<lambda>c. expansion_cost offset 32 (memory c))) (\<lambda>g.
     and_then (charge g) (\<lambda>_.
     and_then (on_memory (mem_load offset)) push)))"

definition op_mstore :: handler where
  "op_mstore = pop2 (\<lambda>offset v.
     and_then (get_call (\<lambda>c. expansion_cost offset 32 (memory c))) (\<lambda>g.
     and_then (charge g) (\<lambda>_.
     on_memory (mem_store offset v))))"

definition op_mstore8 :: handler where
  "op_mstore8 = pop2 (\<lambda>offset v.
     and_then (get_call (\<lambda>c. expansion_cost offset 1 (memory c))) (\<lambda>g.
     and_then (charge g) (\<lambda>_.
     on_memory (mem_store_byte offset (v AND 0xFF)))))"

text \<open>\<open>storage = self.context.get_storage(call.address)\<close> and a method call on it.\<close>

definition own_storage :: "(evm_storage, 'a) meth \<Rightarrow> 'a vm" where
  "own_storage m = and_then (get_call address) (\<lambda>a.
     and_then (on_ctx (get_storage a)) (\<lambda>_. on_ctx (on_storage a m)))"

definition op_sload :: handler where
  "op_sload = and_then pop (\<lambda>key.
     and_then (own_storage (st_load key)) (\<lambda>(v, gas_cost).
     let additional = gas_cost - 100 in
     and_then (if additional > 0 then charge additional else ret ()) (\<lambda>_.
     push v)))"

definition op_sstore :: handler where
  "op_sstore = and_then (get_call static) (\<lambda>st.
     if st then raise (VMExecutionError StaticViolation)
     else pop2 (\<lambda>key v.
       and_then (own_storage (st_store key v)) (\<lambda>(gas_cost, refund).
       let additional = gas_cost - 100 in
       and_then (if additional > 0 then charge additional else ret ()) (\<lambda>_.
       set_ctx (gas_refund_update (\<lambda>r. r + refund))))))"

definition op_jump :: handler where
  "op_jump = and_then pop (\<lambda>dest. set_call (pc_update (\<lambda>_. dest)))"

definition op_jumpi :: handler where
  "op_jumpi = pop2 (\<lambda>dest condition.
     if condition \<noteq> 0 then set_call (pc_update (\<lambda>_. dest)) else set_call (pc_update (\<lambda>p. p + 1)))"

definition op_pc :: handler where
  "op_pc = and_then (get_call pc) push"

definition op_msize :: handler where
  "op_msize = and_then (get_call (\<lambda>c. mem_size (memory c))) push"

definition op_gas :: handler where
  "op_gas = and_then (get_call gas) push"

definition op_jumpdest :: handler where
  "op_jumpdest = ret ()"

definition op_tload :: handler where
  "op_tload = and_then pop (\<lambda>key.
     and_then (get_call address) (\<lambda>a.
     and_then (on_ctx (zoom transient_store transient_store_update (ts_load (a, key)))) (\<lambda>(v, g). push v)))"

definition op_tstore :: handler where
  "op_tstore = and_then (get_call static) (\<lambda>st.
     if st then raise (VMExecutionError StaticViolation)
     else pop2 (\<lambda>key v.
       and_then (get_call address) (\<lambda>a.
       and_then (on_ctx (zoom transient_store transient_store_update (ts_store (a, key) v))) (\<lambda>_. ret ()))))"

definition op_mcopy :: handler where
  "op_mcopy = pop3 (\<lambda>dest src sz.
     and_then (get_call (copy_gas (max dest src) sz)) (\<lambda>g.
     and_then (charge g) (\<lambda>_.
     on_memory (mem_copy dest src sz))))"

definition op_push0 :: handler where
  "op_push0 = push 0"

section \<open>Logs\<close>

definition op_log :: handler where
  "op_log = and_then (get_call static) (\<lambda>st.
     if st then raise (VMExecutionError StaticViolation)
     else and_then (get_call (\<lambda>c. uint (code c ! nat (pc c)))) (\<lambda>op.
       pop2 (\<lambda>offset sz.
       and_then (pop_list (nat (get_log_topic_count op))) (\<lambda>topics.
       and_then (get_call (\<lambda>c. expansion_cost offset sz (memory c))) (\<lambda>expansion.
       and_then (charge (expansion + 8 * sz)) (\<lambda>_.
       and_then (on_memory (mem_load_range offset sz)) (\<lambda>data.
       and_then (get_call address) (\<lambda>a.
       set_ctx (add_log \<lparr>log_address = a, log_topics = topics, log_data = data\<rparr>)))))))))"

section \<open>Halting\<close>

definition op_return :: handler where
  "op_return = pop2 (\<lambda>offset sz.
     and_then (get_call (\<lambda>c. expansion_cost offset sz (memory c))) (\<lambda>g.
     and_then (charge g) (\<lambda>_.
     and_then (on_memory (mem_load_range offset sz)) (\<lambda>data.
     set_call (\<lambda>c. c\<lparr>out_data := data, halted := True\<rparr>)))))"

definition op_revert :: handler where
  "op_revert = pop2 (\<lambda>offset sz.
     and_then (get_call (\<lambda>c. expansion_cost offset sz (memory c))) (\<lambda>g.
     and_then (charge g) (\<lambda>_.
     and_then (on_memory (mem_load_range offset sz)) (\<lambda>data.
     and_then (set_call (\<lambda>c. c\<lparr>out_data := data, halted := True, reverted := True\<rparr>)) (\<lambda>_.
     if length data \<ge> 4 then set_call (revert_reason_update (\<lambda>_. hex_of_bytes data)) else ret ())))))"

definition op_invalid :: handler where
  "op_invalid = raise (VMExecutionError InvalidOpcode)"

definition op_selfdestruct :: handler where
  "op_selfdestruct = and_then (get_call static) (\<lambda>st.
     if st then raise (VMExecutionError StaticViolation)
     else and_then pop (\<lambda>addr_int.
       let recipient = addr_of addr_int in
       and_then (on_ctx (warm_address recipient)) (\<lambda>warm_gas.
       and_then (charge warm_gas) (\<lambda>_.
       and_then (get_call address) (\<lambda>a.
       and_then (get_ctx (get_balance a)) (\<lambda>bal.
       and_then (if bal > 0 then and_then (on_ctx (transfer a recipient bal)) (\<lambda>_. ret ()) else ret ()) (\<lambda>_.
       and_then (set_ctx (destroyed_accounts_update (insert a))) (\<lambda>_.
       set_call (halted_update (\<lambda>_. True))))))))))"

end
