(* ===== verification/EvmHelpers.thy ===== *)
theory EvmHelpers
  imports PyBytes
begin

text \<open>
  The address computations of \<open>src/xai/core/vm/evm/interpreter_helpers.py\<close>: the RLP
  encoding of a sender and a nonce, and the addresses of CREATE and CREATE2. The hash
  function is an argument.
\<close>

section \<open>Definitions\<close>

definition CODE_DEPOSIT_GAS :: int where "CODE_DEPOSIT_GAS = 200"

text \<open>\<open>bytes([v])\<close> raises ValueError unless \<open>v\<close> is a byte.\<close>

definition byte_list :: "int \<Rightarrow> exn + byte list" where
  "byte_list v = (if 0 \<le> v \<and> v < 256 then Inr [word_of_int v] else Inl ValueError)"

text \<open>\<open>int.bit_length()\<close> of a number that is not negative.\<close>

fun bit_len :: "nat \<Rightarrow> nat" where
  "bit_len n = (if n = 0 then 0 else bit_len (n div 2) + 1)"

declare bit_len.simps [simp del]

text \<open>\<open>n.to_bytes((n.bit_length() + 7) // 8, "big")\<close>\<close>

definition minimal_bytes :: "int \<Rightarrow> exn + byte list" where
  "minimal_bytes n = to_bytes ((bit_len (nat n) + 7) div 8) n"

definition bind_result :: "'e + 'a \<Rightarrow> ('a \<Rightarrow> 'e + 'b) \<Rightarrow> 'e + 'b" where
  "bind_result r f = (case r of Inl e \<Rightarrow> Inl e | Inr a \<Rightarrow> f a)"

definition strip_0x :: "string \<Rightarrow> string" where
  "strip_0x a = (if starts_with ''0x'' a then drop 2 a else a)"

definition rlp_address :: "byte list \<Rightarrow> exn + byte list" where
  "rlp_address addr_bytes =
     (if length addr_bytes = 20 then Inr (0x94 # addr_bytes)
      else bind_result (byte_list (0x80 + int (length addr_bytes))) (\<lambda>p. Inr (p @ addr_bytes)))"

definition rlp_nonce :: "int \<Rightarrow> exn + byte list" where
  "rlp_nonce nonce =
     (if nonce = 0 then Inr [0x80]
      else if nonce < 0x80 then byte_list nonce
      else bind_result (minimal_bytes nonce) (\<lambda>nonce_bytes.
           bind_result (byte_list (0x80 + int (length nonce_bytes))) (\<lambda>p. Inr (p @ nonce_bytes))))"

definition rlp_encode_address_nonce :: "string \<Rightarrow> int \<Rightarrow> exn + byte list" where
  "rlp_encode_address_nonce a nonce =
     bind_result (fromhex (strip_0x a)) (\<lambda>addr_bytes.
     bind_result (rlp_address addr_bytes) (\<lambda>addr_rlp.
     bind_result (rlp_nonce nonce) (\<lambda>nonce_rlp.
     let payload = addr_rlp @ nonce_rlp in
     bind_result (byte_list (0xC0 + int (length payload))) (\<lambda>list_prefix.
     Inr (list_prefix @ payload)))))"

text \<open>\<open>f"0x{h[-20:].hex()}"\<close>\<close>

definition hash_address :: "byte list \<Rightarrow> string" where
  "hash_address h = ''0x'' @ hex_of_bytes (drop (length h - 20) h)"

definition compute_create_address :: "(byte list \<Rightarrow> byte list) \<Rightarrow> string \<Rightarrow> int \<Rightarrow> exn + string" where
  "compute_create_address sha3 sender nonce =
     bind_result (rlp_encode_address_nonce sender nonce) (\<lambda>rlp. Inr (hash_address (sha3 rlp)))"

definition compute_create2_address ::
    "(byte list \<Rightarrow> byte list) \<Rightarrow> string \<Rightarrow> int \<Rightarrow> byte list \<Rightarrow> exn + string" where
  "compute_create2_address sha3 sender salt init_code_hash =
     bind_result (fromhex (zfill 40 (strip_0x sender))) (\<lambda>sender_bytes.
     bind_result (to_bytes 32 salt) (\<lambda>salt_bytes.
     Inr (hash_address (sha3 ([0xFF] @ sender_bytes @ salt_bytes @ init_code_hash)))))"

section \<open>Decoding: the specification of the encoding\<close>

text \<open>RLP items as far as an encoded address and nonce have them: short strings.\<close>

definition rlp_item :: "byte list \<Rightarrow> (byte list \<times> byte list) option" where
  "rlp_item bs =
     (case bs of
        [] \<Rightarrow> None
      | b # rest \<Rightarrow>
          if uint b < 0x80 then Some ([b], rest)
          else let n = unat b - 0x80 in
            if uint b < 0xB8 \<and> n \<le> length rest then Some (take n rest, drop n rest) else None)"

text \<open>A list of two strings, read as an address and a big-endian number.\<close>

definition rlp_decode_pair :: "byte list \<Rightarrow> (byte list \<times> int) option" where
  "rlp_decode_pair bs =
     (case bs of
        [] \<Rightarrow> None
      | p # payload \<Rightarrow>
          if 0xC0 \<le> uint p \<and> uint p < 0xF8 \<and> unat p - 0xC0 = length payload then
            (case rlp_item payload of
               None \<Rightarrow> None
             | Some (a, rest) \<Rightarrow> (case rlp_item rest of
                   None \<Rightarrow> None
                 | Some (n, rest') \<Rightarrow> if rest' = [] then Some (a, from_bytes n) else None))
          else None)"

lemma bit_len_bound: "n < 2 ^ k \<Longrightarrow> bit_len n \<le> k"
proof (induction n arbitrary: k rule: bit_len.induct)
  case (1 n)
  show ?case
  proof (cases "n = 0")
    case True
    then show ?thesis by (simp add: bit_len.simps)
  next
    case False
    with 1(2) obtain j where k: "k = Suc j" by (cases k) auto
    with 1(2) have "n div 2 < 2 ^ j" by simp
    with 1(1) False k show ?thesis by (simp add: bit_len.simps [of n])
  qed
qed

lemma bit_len_upper: "n < 2 ^ bit_len n"
proof (induction n rule: bit_len.induct)
  case (1 n)
  show ?case
  proof (cases "n = 0")
    case False
    with 1 have "n div 2 < 2 ^ bit_len (n div 2)" by simp
    then have "n < 2 * 2 ^ bit_len (n div 2)" by linarith
    with False show ?thesis by (simp add: bit_len.simps [of n])
  qed (simp add: bit_len.simps)
qed

lemma minimal_bytes_run:
  assumes "0 \<le> n" and "n < 256 ^ k"
  obtains bs where "minimal_bytes n = Inr bs" and "from_bytes bs = n" and "length bs \<le> k"
proof -
  let ?w = "(bit_len (nat n) + 7) div 8"
  have "nat n < 2 ^ (8 * k)"
    using assms by (simp add: nat_less_iff power_mult)
  from bit_len_bound [OF this] have w: "?w \<le> k" by simp
  have "nat n < 2 ^ (8 * ?w)"
    using bit_len_upper [of "nat n"] by (rule less_le_trans) (simp add: power_increasing)
  then have "n < 256 ^ ?w"
    using assms(1) by (simp add: nat_less_iff power_mult)
  with assms(1) have "minimal_bytes n = Inr (be_bytes ?w n)" and "from_bytes (be_bytes ?w n) = n"
    unfolding minimal_bytes_def by (simp_all add: to_bytes_in_range from_bytes_be_bytes)
  with w show thesis by (intro that) auto
qed

lemma byte_list_run: "0 \<le> v \<Longrightarrow> v < 256 \<Longrightarrow> byte_list v = Inr [word_of_int v]"
  by (simp add: byte_list_def)

lemma uint_byte: "0 \<le> v \<Longrightarrow> v < 256 \<Longrightarrow> uint (word_of_int v :: byte) = v"
  by (simp add: uint_word_of_int)

lemma rlp_nonce_run:
  assumes "0 \<le> n" and "n < 2 ^ 64"
  obtains r where "rlp_nonce n = Inr r" and "length r \<le> 9"
    and "\<exists>b. rlp_item r = Some (b, []) \<and> from_bytes b = n"
proof -
  consider "n = 0" | "0 < n" "n < 0x80" | "0x80 \<le> n" using assms(1) by linarith
  then show thesis
  proof cases
    case 1
    then show ?thesis
      by (intro that [of "[0x80]"]) (simp_all add: rlp_nonce_def rlp_item_def Let_def)
  next
    case 2
    then show ?thesis
      by (intro that [of "[word_of_int n]"])
        (simp_all add: rlp_nonce_def rlp_item_def byte_list_run uint_byte from_bytes_def)
  next
    case 3
    have "n < 256 ^ 8" using assms(2) by simp
    from minimal_bytes_run [OF assms(1) this] obtain bs
      where bs: "minimal_bytes n = Inr bs" "from_bytes bs = n" "length bs \<le> 8" by blast
    let ?p = "word_of_int (0x80 + int (length bs)) :: byte"
    have u: "uint ?p = 0x80 + int (length bs)"
      using bs(3) by (intro uint_byte) simp_all
    then have un: "unat ?p = 0x80 + length bs"
      by (simp add: unat_eq_nat_uint nat_add_distrib)
    have "rlp_nonce n = Inr (?p # bs)"
      using 3 bs by (simp add: rlp_nonce_def bind_result_def byte_list_run)
    moreover have "rlp_item (?p # bs) = Some (bs, [])"
      using bs(3) u un by (simp add: rlp_item_def Let_def)
    ultimately show ?thesis using bs by (intro that [of "?p # bs"]) auto
  qed
qed

text \<open>
  for a 20-byte hexadecimal address and a nonce below \<open>2^64\<close> the encoding succeeds, and
  an RLP decoder reads the address and the nonce back; so different senders or nonces
  never hash the same bytes.
\<close>

lemma rlp_roundtrip:
  assumes "length a = 20" and "0 \<le> n" and "n < 2 ^ 64"
  shows "\<exists>r. rlp_encode_address_nonce (''0x'' @ hex_of_bytes a) n = Inr r \<and> rlp_decode_pair r = Some (a, n)"
proof -
  from rlp_nonce_run [OF assms(2,3)] obtain rn b
    where rn: "rlp_nonce n = Inr rn" "length rn \<le> 9" "rlp_item rn = Some (b, [])" "from_bytes b = n" by blast
  let ?payload = "0x94 # a @ rn" and ?p = "word_of_int (0xC0 + int (21 + length rn)) :: byte"
  have hex: "fromhex (strip_0x (''0x'' @ hex_of_bytes a)) = Inr a"
    by (simp add: strip_0x_def starts_with_def fromhex_hex_of_bytes)
  have u: "uint ?p = 0xC0 + int (21 + length rn)"
    using rn(2) by (intro uint_byte) simp_all
  then have un: "unat ?p = 0xC0 + (21 + length rn)"
    by (simp add: unat_eq_nat_uint nat_add_distrib)
  have enc: "rlp_encode_address_nonce (''0x'' @ hex_of_bytes a) n = Inr (?p # ?payload)"
    unfolding rlp_encode_address_nonce_def hex
    using rn(1,2) assms(1) by (simp add: bind_result_def rlp_address_def byte_list_run algebra_simps)
  have "rlp_item ?payload = Some (a, rn)"
    using assms(1) by (simp add: rlp_item_def Let_def)
  with rn u un assms(1) have "rlp_decode_pair (?p # ?payload) = Some (a, n)"
    unfolding rlp_decode_pair_def by (simp split: option.splits)
  with enc show ?thesis by blast
qed

text \<open>
  the nonce of an address the tracker does not know is \<open>-1\<close>; encoding it raises
  ValueError, which is not the error the machine catches.
\<close>

lemma create_needs_known_nonce:
  assumes "fromhex (strip_0x sender) = Inr a" and "length a = 20"
  shows "compute_create_address sha3 sender (-1) = Inl ValueError"
  using assms by (simp add: compute_create_address_def rlp_encode_address_nonce_def rlp_address_def
      rlp_nonce_def byte_list_def bind_result_def)

end
