(* ===== verification/EvmCalls.thy ===== *)
theory EvmCalls
  imports EvmOps EvmHelpers
begin

text \<open>
  The rest of \<open>src/xai/core/vm/evm/interpreter.py\<close> and of \<open>interpreter_helpers.py\<close>:
  the calls and creations that run another frame, the table of handlers, one turn of the
  main loop, and \<open>execute\<close>.

  \<open>execute\<close> calls itself through the handlers. The model gives each turn of the loop and each
  nested run a smaller fuel; a run whose fuel ends has the result \<open>OutOfFuel\<close>, which no
  \<open>except\<close> of the model catches. A handler takes as \<open>E\<close> what runs a nested frame.
\<close>

section \<open>Gas of calls\<close>

definition calldata_copy_cost :: "int \<Rightarrow> int" where
  "calldata_copy_cost sz = (if sz \<le> 0 then 0 else 3 * ((sz + 31) div 32))"

definition call_gas_to_forward :: "int \<Rightarrow> call_context \<Rightarrow> int" where
  "call_gas_to_forward requested c =
     (if requested \<le> 0 \<or> gas c \<le> 0 then 0
      else let max_forwardable = gas c - gas c div 64
           in if max_forwardable \<le> 0 then 0 else min requested max_forwardable)"

text \<open>The larger expansion cost of the argument and the return region.\<close>

definition call_expansion :: "int \<Rightarrow> int \<Rightarrow> int \<Rightarrow> int \<Rightarrow> call_context \<Rightarrow> int" where
  "call_expansion args_offset args_size ret_offset ret_size c =
     max (if args_size > 0 then expansion_cost args_offset args_size (memory c) else 0)
         (if ret_size > 0 then expansion_cost ret_offset ret_size (memory c) else 0)"

definition account_exists :: "string \<Rightarrow> bool vm" where
  "account_exists a =
     and_then (read_code a) (\<lambda>bs.
     if bs \<noteq> [] then ret True
     else get_ctx (\<lambda>x. get_balance a x > 0 \<or> ctx_get_nonce a x > 0 \<or> a \<in> created_accounts x))"

section \<open>Subcalls\<close>

definition moves_value :: "call_type \<Rightarrow> int \<Rightarrow> bool" where
  "moves_value t v \<longleftrightarrow> v > 0 \<and> (t = CALL \<or> t = CALLCODE)"

text \<open>\<open>if value > 0 and call_type in (CALL, CALLCODE): transfer\<close>\<close>

definition move_value :: "call_type \<Rightarrow> string \<Rightarrow> string \<Rightarrow> int \<Rightarrow> bool vm" where
  "move_value t sender recipient v =
     (if moves_value t v then on_ctx (transfer sender recipient v) else ret True)"

text \<open>
  Runs a child frame after its snapshot: the result is None when it raised a
  VMExecutionError (the state is then reverted and the frame popped), else the frame.
\<close>

definition run_child :: "unit vm \<Rightarrow> nat \<Rightarrow> call_context \<Rightarrow> call_context option vm" where
  "run_child E snapshot_id child =
     catch_vm
       (and_then (with_frame child E) (\<lambda>fin. ret (Some fin)))
       (and_then (set_ctx (revert_to_snapshot snapshot_id)) (\<lambda>_.
        and_then (set_ctx pop_call) (\<lambda>_. ret None)))"

definition execute_subcall ::
    "externals \<Rightarrow> unit vm \<Rightarrow> call_type \<Rightarrow> string \<Rightarrow> string \<Rightarrow> int \<Rightarrow> byte list \<Rightarrow> int \<Rightarrow> int \<Rightarrow> bool \<Rightarrow>
     string option \<Rightarrow> (bool \<times> byte list) vm" where
  "execute_subcall X E t sender a v cdata g d st code_address =
     (let code_addr = (case code_address of Some ca \<Rightarrow> if ca \<noteq> [] then ca else a | None \<Rightarrow> a) in
      and_then (read_code code_addr) (\<lambda>bs.
      if bs = [] then and_then (move_value t sender a v) (\<lambda>ok. ret (ok, []))
      else if is_precompile code_addr then
        (case execute_precompile X code_addr cdata g of
           Inr (data, used) \<Rightarrow> ret (True, data)
         | Inl (VMExecutionError c) \<Rightarrow> ret (False, [])
         | Inl e \<Rightarrow> raise e)
      else
        and_then (move_value t sender a v) (\<lambda>ok.
        if \<not> ok then ret (False, [])
        else
          and_then (on_ctx take_snapshot) (\<lambda>snapshot_id.
          and_then (get_ctx tx_origin) (\<lambda>ori.
          and_then (on_ctx (push_call [])) (\<lambda>pushed.
          if \<not> pushed then ret (False, [])
          else
            and_then (run_child E snapshot_id (new_call t d a sender ori v g bs cdata st)) (\<lambda>ended.
            case ended of
              None \<Rightarrow> ret (False, [])
            | Some fin \<Rightarrow>
                and_then (set_ctx pop_call) (\<lambda>_.
                if reverted fin
                then and_then (set_ctx (revert_to_snapshot snapshot_id)) (\<lambda>_. ret (False, out_data fin))
                else ret (True, out_data fin)))))))))"

text \<open>The end of a call opcode: return data to memory and buffer, success to the stack.\<close>

definition finish_call :: "int \<Rightarrow> int \<Rightarrow> bool \<times> byte list \<Rightarrow> unit vm" where
  "finish_call ret_offset ret_size res =
     (case res of (success, data) \<Rightarrow>
        and_then (if data \<noteq> []
                  then on_memory (mem_store_range ret_offset (take (nat (min (int (length data)) ret_size)) data))
                  else ret ()) (\<lambda>_.
        and_then (set_call (return_data_update (\<lambda>_. data))) (\<lambda>_.
        push (if success then 1 else 0))))"

text \<open>A call that fails before it runs anything: \<open>push(0)\<close>, empty return data.\<close>

definition fail_call :: "unit vm" where
  "fail_call = and_then (push 0) (\<lambda>_. set_call (return_data_update (\<lambda>_. [])))"

definition at_max_depth :: "bool vm" where
  "at_max_depth = reads (\<lambda>s. depth (call s) \<ge> max_call_depth (ctx s))"

definition op_call :: "externals \<Rightarrow> unit vm \<Rightarrow> handler" where
  "op_call X E = pop7 (\<lambda>gas_arg addr_int v args_offset args_size ret_offset ret_size.
     and_then (get_call (\<lambda>c. c)) (\<lambda>c.
     if static c \<and> v \<noteq> 0 then raise (VMExecutionError StaticViolation)
     else let a = addr_of addr_int in
     and_then at_max_depth (\<lambda>deep.
     if deep then fail_call
     else
       and_then (on_ctx (warm_address a)) (\<lambda>warm_gas.
       let total0 = warm_gas + call_expansion args_offset args_size ret_offset ret_size c
                    + calldata_copy_cost args_size + calldata_copy_cost ret_size in
       and_then (if v \<noteq> 0
                 then and_then (account_exists a) (\<lambda>ex. ret (total0 + 9000 + (if ex then 0 else 25000)))
                 else ret total0) (\<lambda>total_gas.
       and_then (charge total_gas) (\<lambda>_.
       and_then (on_memory (mem_load_range args_offset args_size)) (\<lambda>cdata.
       and_then (get_call (call_gas_to_forward gas_arg)) (\<lambda>forward0.
       and_then (reads (\<lambda>s. v \<noteq> 0 \<and> get_balance (address (call s)) (ctx s) < v)) (\<lambda>poor.
       if poor then fail_call
       else
         and_then (get_call (\<lambda>c. if v \<noteq> 0 then min (forward0 + 2300) (gas c) else forward0)) (\<lambda>forward.
         and_then (execute_subcall X E CALL (address c) a v cdata forward (depth c + 1) (static c) None) (\<lambda>res.
         finish_call ret_offset ret_size res))))))))))) "

definition op_callcode :: "externals \<Rightarrow> unit vm \<Rightarrow> handler" where
  "op_callcode X E = pop7 (\<lambda>gas_arg addr_int v args_offset args_size ret_offset ret_size.
     and_then (get_call (\<lambda>c. c)) (\<lambda>c.
     if static c \<and> v \<noteq> 0 then raise (VMExecutionError StaticViolation)
     else let a = addr_of addr_int in
     and_then at_max_depth (\<lambda>deep.
     if deep then fail_call
     else
       and_then (on_ctx (warm_address a)) (\<lambda>warm_gas.
       and_then (charge (warm_gas + call_expansion args_offset args_size ret_offset ret_size c
                    + calldata_copy_cost args_size + calldata_copy_cost ret_size
                    + (if v \<noteq> 0 then 9000 else 0))) (\<lambda>_.
       and_then (on_memory (mem_load_range args_offset args_size)) (\<lambda>cdata.
       and_then (get_call (call_gas_to_forward gas_arg)) (\<lambda>forward0.
       and_then (reads (\<lambda>s. v \<noteq> 0 \<and> get_balance (address (call s)) (ctx s) < v)) (\<lambda>poor.
       if poor then fail_call
       else
         and_then (get_call (\<lambda>c. if v \<noteq> 0 then min (forward0 + 2300) (gas c) else forward0)) (\<lambda>forward.
         and_then (execute_subcall X E CALLCODE (address c) (address c) v cdata forward (depth c + 1)
                     (static c) (Some a)) (\<lambda>res.
         finish_call ret_offset ret_size res))))))))))"

definition op_delegatecall :: "externals \<Rightarrow> unit vm \<Rightarrow> handler" where
  "op_delegatecall X E = pop6 (\<lambda>gas_arg addr_int args_offset args_size ret_offset ret_size.
     and_then (get_call (\<lambda>c. c)) (\<lambda>c.
     let a = addr_of addr_int in
     and_then at_max_depth (\<lambda>deep.
     if deep then fail_call
     else
       and_then (on_ctx (warm_address a)) (\<lambda>warm_gas.
       and_then (charge (warm_gas + call_expansion args_offset args_size ret_offset ret_size c
                    + (calldata_copy_cost args_size + calldata_copy_cost ret_size))) (\<lambda>_.
       and_then (on_memory (mem_load_range args_offset args_size)) (\<lambda>cdata.
       and_then (get_call (call_gas_to_forward gas_arg)) (\<lambda>forward.
       and_then (execute_subcall X E DELEGATECALL (caller c) (address c) (call_value c) cdata forward
                   (depth c + 1) (static c) (Some a)) (\<lambda>res.
       finish_call ret_offset ret_size res))))))))"

definition op_staticcall :: "externals \<Rightarrow> unit vm \<Rightarrow> handler" where
  "op_staticcall X E = pop6 (\<lambda>gas_arg addr_int args_offset args_size ret_offset ret_size.
     and_then (get_call (\<lambda>c. c)) (\<lambda>c.
     let a = addr_of addr_int in
     and_then at_max_depth (\<lambda>deep.
     if deep then fail_call
     else
       and_then (on_ctx (warm_address a)) (\<lambda>warm_gas.
       and_then (charge (warm_gas + call_expansion args_offset args_size ret_offset ret_size c
                    + (calldata_copy_cost args_size + calldata_copy_cost ret_size))) (\<lambda>_.
       and_then (on_memory (mem_load_range args_offset args_size)) (\<lambda>cdata.
       and_then (get_call (call_gas_to_forward gas_arg)) (\<lambda>forward.
       and_then (execute_subcall X E STATICCALL (address c) a 0 cdata forward (depth c + 1) True None) (\<lambda>res.
       finish_call ret_offset ret_size res))))))))"

section \<open>Creation\<close>

definition MAX_CODE_SIZE :: int where "MAX_CODE_SIZE = 24576"

text \<open>The address of the new contract; CREATE also moves the nonce of the creator on.\<close>

definition new_address :: "externals \<Rightarrow> byte list \<Rightarrow> int option \<Rightarrow> string vm" where
  "new_address X init_code salt =
     and_then (get_call address) (\<lambda>me.
     case salt of
       None \<Rightarrow>
         and_then (get_ctx (ctx_get_nonce me)) (\<lambda>nonce.
         and_then (on_ctx (ctx_increment_nonce me)) (\<lambda>_.
         lift_result (compute_create_address (sha3_256 X) me nonce)))
     | Some sa \<Rightarrow> lift_result (compute_create2_address (sha3_256 X) me sa (sha3_256 X init_code)))"

text \<open>The statements inside the \<open>try\<close>: run the init code, check and store what it returns.\<close>

definition deploy :: "unit vm \<Rightarrow> nat \<Rightarrow> string \<Rightarrow> call_context \<Rightarrow> int vm" where
  "deploy E snapshot_id a init_call =
     and_then (with_frame init_call E) (\<lambda>fin.
     if reverted fin then and_then (set_ctx (revert_to_snapshot snapshot_id)) (\<lambda>_. ret 0)
     else let deployed_code = out_data fin in
       if int (length deployed_code) > MAX_CODE_SIZE
       then and_then (set_ctx (revert_to_snapshot snapshot_id)) (\<lambda>_. ret 0)
       else let code_deposit_cost = int (length deployed_code) * CODE_DEPOSIT_GAS in
         and_then (if code_deposit_cost \<noteq> 0 then on_call (use_gas code_deposit_cost) else ret True) (\<lambda>paid.
         if \<not> paid then and_then (set_ctx (revert_to_snapshot snapshot_id)) (\<lambda>_. ret 0)
         else
           and_then (set_ctx (set_code a deployed_code)) (\<lambda>_.
           and_then (set_call (gas_update (\<lambda>g. g + gas fin))) (\<lambda>_.
           lift_result (parse_int 16 (drop 2 a))))))"

definition execute_create :: "externals \<Rightarrow> unit vm \<Rightarrow> int \<Rightarrow> byte list \<Rightarrow> int option \<Rightarrow> int vm" where
  "execute_create X E v init_code salt =
     and_then at_max_depth (\<lambda>deep.
     if deep then ret 0
     else
       and_then (new_address X init_code salt) (\<lambda>a.
       and_then (read_code a) (\<lambda>existing.
       if existing \<noteq> [] then ret 0
       else
         and_then (get_call (\<lambda>c. c)) (\<lambda>c.
         and_then (if v > 0 then on_ctx (transfer (address c) a v) else ret True) (\<lambda>ok.
         if \<not> ok then ret 0
         else
           let init_call = new_call (if salt = None then CREATE else CREATE2) (depth c + 1) a (address c)
                 (origin c) v (gas c * 63 div 64) init_code [] False in
           and_then (on_ctx take_snapshot) (\<lambda>snapshot_id.
           catch_vm (deploy E snapshot_id a init_call)
             (and_then (set_ctx (revert_to_snapshot snapshot_id)) (\<lambda>_. ret 0))))))))"

definition op_create :: "externals \<Rightarrow> unit vm \<Rightarrow> handler" where
  "op_create X E = and_then (get_call static) (\<lambda>st.
     if st then raise (VMExecutionError StaticViolation)
     else pop3 (\<lambda>v offset sz.
       and_then (get_call (\<lambda>c. expansion_cost offset sz (memory c))) (\<lambda>expansion.
       and_then (charge expansion) (\<lambda>_.
       and_then (on_memory (mem_load_range offset sz)) (\<lambda>init_code.
       and_then (execute_create X E v init_code None) push)))))"

definition op_create2 :: "externals \<Rightarrow> unit vm \<Rightarrow> handler" where
  "op_create2 X E = and_then (get_call static) (\<lambda>st.
     if st then raise (VMExecutionError StaticViolation)
     else pop4 (\<lambda>v offset sz salt.
       and_then (get_call (\<lambda>c. expansion_cost offset sz (memory c))) (\<lambda>expansion.
       and_then (charge (expansion + 6 * ((sz + 31) div 32))) (\<lambda>_.
       and_then (on_memory (mem_load_range offset sz)) (\<lambda>init_code.
       and_then (execute_create X E v init_code (Some salt)) push)))))"

section \<open>The table of handlers\<close>

definition handlers :: "externals \<Rightarrow> unit vm \<Rightarrow> (int \<times> handler) list" where
  "handlers X E =
    [(0x00, op_stop), (0x01, op_add), (0x02, op_mul), (0x03, op_sub), (0x04, op_div),
     (0x05, op_sdiv), (0x06, op_mod), (0x07, op_smod), (0x08, op_addmod), (0x09, op_mulmod),
     (0x0A, op_exp), (0x0B, op_signextend),
     (0x10, op_lt), (0x11, op_gt), (0x12, op_slt), (0x13, op_sgt), (0x14, op_eq), (0x15, op_iszero),
     (0x16, op_and), (0x17, op_or), (0x18, op_xor), (0x19, op_not), (0x1A, op_byte),
     (0x1B, op_shl), (0x1C, op_shr), (0x1D, op_sar),
     (0x20, op_keccak256 X),
     (0x30, op_address), (0x31, op_balance), (0x32, op_origin), (0x33, op_caller),
     (0x34, op_callvalue), (0x35, op_calldataload), (0x36, op_calldatasize), (0x37, op_calldatacopy),
     (0x38, op_codesize), (0x39, op_codecopy), (0x3A, op_gasprice), (0x3B, op_extcodesize),
     (0x3C, op_extcodecopy), (0x3D, op_returndatasize), (0x3E, op_returndatacopy), (0x3F, op_extcodehash X),
     (0x40, op_blockhash), (0x41, op_coinbase), (0x42, op_timestamp), (0x43, op_number),
     (0x44, op_prevrandao), (0x45, op_gaslimit), (0x46, op_chainid), (0x47, op_selfbalance), (0x48, op_basefee),
     (0x50, op_pop), (0x51, op_mload), (0x52, op_mstore), (0x53, op_mstore8), (0x54, op_sload),
     (0x55, op_sstore), (0x56, op_jump), (0x57, op_jumpi), (0x58, op_pc), (0x59, op_msize), (0x5A, op_gas),
     (0x5B, op_jumpdest), (0x5C, op_tload), (0x5D, op_tstore), (0x5E, op_mcopy), (0x5F, op_push0),
     (0xA0, op_log), (0xA1, op_log), (0xA2, op_log), (0xA3, op_log), (0xA4, op_log),
     (0xF0, op_create X E), (0xF1, op_call X E), (0xF2, op_callcode X E), (0xF3, op_return),
     (0xF4, op_delegatecall X E), (0xF5, op_create2 X E), (0xFA, op_staticcall X E), (0xFD, op_revert),
     (0xFE, op_invalid), (0xFF, op_selfdestruct)]"

section \<open>The main loop\<close>

definition check_limits :: "externals \<Rightarrow> unit vm" where
  "check_limits X =
     and_then (read_clock X) (\<lambda>now.
     and_then (reads (\<lambda>s. now - start_time s > MAX_EXECUTION_TIME)) (\<lambda>late.
     if late then raise (VMExecutionError ExecutionTimeout)
     else and_then (reads (\<lambda>s. instruction_count s > MAX_INSTRUCTIONS)) (\<lambda>many.
       if many then raise (VMExecutionError InstructionLimit) else ret ())))"

definition advance :: "int \<Rightarrow> unit vm" where
  "advance n = set_call (pc_update (\<lambda>p. p + n))"

definition validate_jump :: "int set \<Rightarrow> int \<Rightarrow> unit vm" where
  "validate_jump dests op =
     (if op = 0x56 \<or> op = 0x57
      then and_then (on_stack (stack_peek 0)) (\<lambda>dest.
           if dest \<notin> dests then raise (VMExecutionError InvalidJump) else ret ())
      else ret ())"

text \<open>What follows the base gas: PUSH, DUP and SWAP first, then the table.\<close>

definition dispatch :: "externals \<Rightarrow> unit vm \<Rightarrow> int set \<Rightarrow> int \<Rightarrow> unit vm" where
  "dispatch X E dests op =
     (if is_push op then handle_push op
      else if is_dup op then and_then (on_stack (stack_dup (op - 0x7F))) (\<lambda>_. advance 1)
      else if is_swap op then and_then (on_stack (stack_swap (op - 0x8F))) (\<lambda>_. advance 1)
      else case map_of (handlers X E) op of
        None \<Rightarrow> raise (VMExecutionError UnimplementedOpcode)
      | Some h \<Rightarrow>
          and_then (validate_jump dests op) (\<lambda>_.
          and_then h (\<lambda>_.
          if op \<in> {0x56, 0x57, 0x00, 0xF3, 0xFD, 0xFF, 0xFE} then ret () else advance 1)))"

definition fetch :: "machine \<Rightarrow> int" where
  "fetch s = uint (code (call s) ! nat (pc (call s)))"

definition step :: "externals \<Rightarrow> unit vm \<Rightarrow> int set \<Rightarrow> unit vm" where
  "step X E dests =
     and_then (check_limits X) (\<lambda>_.
     and_then (reads fetch) (\<lambda>op.
     and_then (modify (instruction_count_update (\<lambda>n. n + 1))) (\<lambda>_.
     case info_of op of
       None \<Rightarrow> raise (VMExecutionError InvalidOpcode)
     | Some info \<Rightarrow>
         and_then (charge (gas_cost info)) (\<lambda>_. dispatch X E dests op))))"

lemma case_gas:
  "(case gas_of op of None \<Rightarrow> a | Some g \<Rightarrow> f g) = (case info_of op of None \<Rightarrow> a | Some i \<Rightarrow> f (gas_cost i))"
  by (simp add: gas_of_def split: option.splits)

text \<open>For evaluation: a turn reads the gas column of the table only.\<close>

lemma step_code [code]:
  "step X E dests =
     and_then (check_limits X) (\<lambda>_.
     and_then (reads fetch) (\<lambda>op.
     and_then (modify (instruction_count_update (\<lambda>n. n + 1))) (\<lambda>_.
     case gas_of op of
       None \<Rightarrow> raise (VMExecutionError InvalidOpcode)
     | Some g \<Rightarrow> and_then (charge g) (\<lambda>_. dispatch X E dests op))))"
  unfolding step_def case_gas ..

definition finished :: "machine \<Rightarrow> bool" where
  "finished s \<longleftrightarrow> halted (call s) \<or> int (length (code (call s))) \<le> pc (call s)"

text \<open>The statements of \<open>execute\<close> before the loop.\<close>

definition enter :: "externals \<Rightarrow> int set vm" where
  "enter X =
     and_then (read_clock X) (\<lambda>now.
     and_then (modify (\<lambda>s. s\<lparr>start_time := now, instruction_count := 0\<rparr>)) (\<lambda>_.
     and_then (get_call code) (compute_jump_destinations X)))"

primrec loop :: "externals \<Rightarrow> nat \<Rightarrow> int set \<Rightarrow> unit vm" where
  "loop X 0 = (\<lambda>dests. raise OutOfFuel)"
| "loop X (Suc n) = (\<lambda>dests.
     and_then (reads finished) (\<lambda>done.
     if done then ret ()
     else and_then (step X (and_then (enter X) (loop X n)) dests) (\<lambda>_. loop X n dests)))"

definition execute :: "externals \<Rightarrow> nat \<Rightarrow> unit vm" where
  "execute X n = and_then (enter X) (loop X n)"

lemma loop_Suc:
  "loop X (Suc n) dests = and_then (reads finished) (\<lambda>done.
     if done then ret () else and_then (step X (execute X n) dests) (\<lambda>_. loop X n dests))"
  unfolding loop.simps execute_def ..

end
