(* ===== verification/EvmInvariants.thy ===== *)
theory EvmInvariants
  imports EvmCalls
begin

text \<open>
  The invariant proof of the whole machine, done once. The locale \<open>evm_inv\<close> states what an
  invariant of frames (\<open>FI\<close>) and of execution contexts (\<open>CI\<close>), with a relation between the
  contexts before and after (\<open>CR\<close>), has to satisfy for the elementary changes; from that,
  every handler, every turn of the loop and every run of \<open>execute\<close> keep it. The theories
  that follow interpret it for well-formed machines, for static calls and for fuel.
\<close>

section \<open>Frames\<close>

definition frame_ok :: "call_context \<Rightarrow> bool" where
  "frame_ok c \<longleftrightarrow> wf_stack (stack c) \<and> max_depth (stack c) = MAX_STACK_DEPTH
     \<and> wf_memory (memory c) \<and> max_size (memory c) = MAX_MEMORY_SIZE \<and> 0 \<le> gas c \<and> 0 \<le> pc c"

text \<open>What a running frame never changes of itself.\<close>

definition same_frame :: "call_context \<Rightarrow> call_context \<Rightarrow> bool" where
  "same_frame c d \<longleftrightarrow> call_type d = call_type c \<and> depth d = depth c \<and> address d = address c
     \<and> caller d = caller c \<and> origin d = origin c \<and> call_value d = call_value c \<and> code d = code c
     \<and> calldata d = calldata c \<and> static d = static c"

lemma same_frame_refl [simp]: "same_frame c c"
  by (simp add: same_frame_def)

lemma same_frame_trans: "same_frame a b \<Longrightarrow> same_frame b c \<Longrightarrow> same_frame a c"
  by (simp add: same_frame_def)

lemma frame_ok_new_call: "0 \<le> g \<Longrightarrow> frame_ok (new_call t d a s ori v g bs cd st)"
  by (simp add: frame_ok_def new_call_def) (simp add: new_stack_def new_memory_def)

section \<open>What the stack and memory operations raise\<close>

lemma stack_raises:
  "fst (stack_push v st) \<noteq> Inl OutOfFuel" "fst (stack_pop st) \<noteq> Inl OutOfFuel"
  "fst (stack_peek k st) \<noteq> Inl OutOfFuel" "fst (stack_dup p st) \<noteq> Inl OutOfFuel"
  "fst (stack_swap p st) \<noteq> Inl OutOfFuel"
  by (simp_all add: stack_defs raise_def split: list.splits)

lemma ensure_capacity_raises: "fst (ensure_capacity e m) \<noteq> Inl OutOfFuel"
  by (simp add: ensure_capacity_def raise_def)

lemma to_bytes_raises: "to_bytes n v \<noteq> Inl OutOfFuel"
  by (simp add: to_bytes_def)

lemma and_then_raises: "fst (m s) \<noteq> Inl e \<Longrightarrow> (\<And>a t. fst (k a t) \<noteq> Inl e) \<Longrightarrow> fst (and_then m k s) \<noteq> Inl e"
  by (auto simp: and_then_def split: prod.splits sum.splits)

lemma mem_raises:
  "fst (mem_load off m) \<noteq> Inl OutOfFuel" "fst (mem_store off v m) \<noteq> Inl OutOfFuel"
  "fst (mem_store_byte off v m) \<noteq> Inl OutOfFuel" "fst (mem_load_range off n m) \<noteq> Inl OutOfFuel"
  "fst (mem_store_range off bs m) \<noteq> Inl OutOfFuel" "fst (mem_copy off src n m) \<noteq> Inl OutOfFuel"
proof -
  show "fst (mem_load off m) \<noteq> Inl OutOfFuel"
    unfolding mem_load_def by (intro and_then_raises ensure_capacity_raises) (simp add: reads_def)
  show "fst (mem_store off v m) \<noteq> Inl OutOfFuel"
    unfolding mem_store_def
    by (intro and_then_raises ensure_capacity_raises) (simp_all add: lift_result_def modify_def to_bytes_raises)
  show "fst (mem_store_byte off v m) \<noteq> Inl OutOfFuel"
    unfolding mem_store_byte_def by (intro and_then_raises ensure_capacity_raises) (simp add: modify_def)
  have load: "fst (mem_load_range off n m) \<noteq> Inl OutOfFuel" for off n m
    unfolding mem_load_range_def
    by (simp add: ret_def, intro impI and_then_raises ensure_capacity_raises) (simp_all add: reads_def modify_def)
  show "fst (mem_load_range off n m) \<noteq> Inl OutOfFuel" by (rule load)
  have store: "fst (mem_store_range off bs m) \<noteq> Inl OutOfFuel" for off bs m
    unfolding mem_store_range_def Let_def
    by (simp add: ret_def, intro impI and_then_raises ensure_capacity_raises) (simp add: modify_def)
  show "fst (mem_store_range off bs m) \<noteq> Inl OutOfFuel" by (rule store)
  show "fst (mem_copy off src n m) \<noteq> Inl OutOfFuel"
    unfolding mem_copy_def
    by (simp add: ret_def, intro impI and_then_raises ensure_capacity_raises load store)
qed

lemma and_then_max_size:
  "max_size (snd (m s)) = max_size s \<Longrightarrow> (\<And>a t. max_size (snd (k a t)) = max_size t) \<Longrightarrow>
   max_size (snd (and_then m k s)) = max_size s"
  by (auto simp: and_then_def split: prod.splits sum.splits)

lemma ensure_capacity_max_size: "max_size (snd (ensure_capacity e m)) = max_size m"
  by (simp add: ensure_capacity_def raise_def)

lemma mem_max_size:
  "max_size (snd (mem_load off m)) = max_size m" "max_size (snd (mem_store off v m)) = max_size m"
  "max_size (snd (mem_store_byte off v m)) = max_size m" "max_size (snd (mem_load_range off n m)) = max_size m"
  "max_size (snd (mem_store_range off bs m)) = max_size m" "max_size (snd (mem_copy off src n m)) = max_size m"
proof -
  show "max_size (snd (mem_load off m)) = max_size m"
    unfolding mem_load_def by (intro and_then_max_size ensure_capacity_max_size) (simp add: reads_def)
  show "max_size (snd (mem_store off v m)) = max_size m"
    unfolding mem_store_def
    by (intro and_then_max_size ensure_capacity_max_size) (simp_all add: lift_result_def modify_def Let_def)
  show "max_size (snd (mem_store_byte off v m)) = max_size m"
    unfolding mem_store_byte_def
    by (intro and_then_max_size ensure_capacity_max_size) (simp add: modify_def Let_def)
  have load: "max_size (snd (mem_load_range off n m)) = max_size m" for off n m
    unfolding mem_load_range_def
    by (simp add: ret_def, intro impI and_then_max_size ensure_capacity_max_size) (simp_all add: reads_def modify_def)
  show "max_size (snd (mem_load_range off n m)) = max_size m" by (rule load)
  have store: "max_size (snd (mem_store_range off bs m)) = max_size m" for off bs m
    unfolding mem_store_range_def Let_def
    by (simp add: ret_def, intro impI and_then_max_size ensure_capacity_max_size) (simp add: modify_def)
  show "max_size (snd (mem_store_range off bs m)) = max_size m" by (rule store)
  show "max_size (snd (mem_copy off src n m)) = max_size m"
    unfolding mem_copy_def
    by (simp add: ret_def, intro impI and_then_max_size ensure_capacity_max_size load store)
qed

section \<open>What the other parts raise\<close>

lemma map_sum_Inl: "map_sum id f r = Inl e \<longleftrightarrow> r = Inl e"
  by (cases r) auto

lemma fromhex_raises: "fromhex s \<noteq> Inl OutOfFuel"
  by (induction s rule: fromhex.induct) (auto simp: map_sum_Inl split: option.splits)

lemma parse_digits_raises: "parse_digits b ok acc s \<noteq> Inl OutOfFuel"
  by (induction b ok acc s rule: parse_digits.induct) (simp_all split: option.splits)

lemma parse_int_raises: "parse_int b s \<noteq> Inl OutOfFuel"
  by (simp add: parse_int_def parse_unsigned_def Let_def map_sum_Inl parse_digits_raises)

lemma get_code_raises: "get_code a x \<noteq> Inl OutOfFuel"
  by (simp add: get_code_def fromhex_raises split: option.splits code_field.splits)

lemma storage_raises:
  "fst (st_load k s) \<noteq> Inl OutOfFuel" "fst (st_store k v s) \<noteq> Inl OutOfFuel"
  by (simp_all add: st_load_def st_store_def raise_def Let_def split: option.splits prod.splits)

lemma load_slots_raises: "fst (load_slots kvs s) \<noteq> Inl OutOfFuel"
proof (induction kvs arbitrary: s)
  case (Cons kv kvs)
  have "parse_key (fst kv) \<noteq> Inl OutOfFuel"
    by (simp add: parse_key_def parse_int_raises split: storage_key.splits)
  then show ?case
    unfolding load_slots.simps
    by (intro and_then_raises Cons.IH) (simp_all add: lift_result_def modify_def)
qed (simp add: ret_def)

lemma get_storage_raises: "fst (get_storage a x) \<noteq> Inl OutOfFuel"
  by (simp add: get_storage_def load_storage_from_chain_def on_storage_def ret_def case_prod_beta
      load_slots_raises split: option.splits)

lemma get_storage_loaded: "a \<in> dom (map_of (storage (snd (get_storage a x))))"
  by (auto simp: get_storage_def load_storage_from_chain_def on_storage_def ret_def case_prod_beta update_conv'
      split: option.splits)

lemma and_then_on_ctx: "and_then (on_ctx m) (\<lambda>a. on_ctx (k a)) = on_ctx (and_then m k)"
  by (rule ext) (simp add: and_then_def on_ctx_def zoom_def case_prod_beta comp_def split: prod.splits sum.splits)

section \<open>What the precompiles raise\<close>

text \<open>The library functions outside the source never give the model's fuel value.\<close>

definition externals_ok :: "externals \<Rightarrow> bool" where
  "externals_ok X \<longleftrightarrow> (\<forall>p. bn_on_curve_no_b (bn128 X) p \<noteq> Inl OutOfFuel)
     \<and> (\<forall>n. kz_decompress_G1 (kzg X) n \<noteq> Inl OutOfFuel) \<and> (\<forall>q. kz_decompress_G2 (kzg X) q \<noteq> Inl OutOfFuel)"

lemma with_gas_raises: "r \<noteq> Inl OutOfFuel \<Longrightarrow> with_gas cost g r \<noteq> Inl OutOfFuel"
  by (simp add: with_gas_def)

lemma bn_encode_raises: "bn_encode p cost \<noteq> Inl OutOfFuel"
  by (simp add: bn_encode_def to_bytes_def split: option.splits prod.splits sum.splits)

lemma bn_pairs_raises:
  assumes "externals_ok X"
  shows "bn_pairs X data acc is \<noteq> Inl OutOfFuel"
proof (induction "is" arbitrary: acc)
  case (Cons i "is")
  have "bn_pair_step X data acc (i * 192) \<noteq> Inl OutOfFuel"
    using assms unfolding bn_pair_step_def Let_def externals_ok_def
    by (auto split: option.splits sum.splits)
  with Cons.IH show ?case by (auto split: sum.splits option.splits)
qed simp

lemma value_error_raises: "r \<noteq> Inl OutOfFuel \<Longrightarrow> value_error_to_vm r \<noteq> Inl OutOfFuel"
  by (simp add: value_error_to_vm_def)

lemma pc_raises:
  assumes "externals_ok X"
  shows "pc_ecrecover data g \<noteq> Inl OutOfFuel" "pc_sha256 X data g \<noteq> Inl OutOfFuel"
    "pc_ripemd160 X data g \<noteq> Inl OutOfFuel" "pc_identity data g \<noteq> Inl OutOfFuel"
    "pc_modexp data g \<noteq> Inl OutOfFuel" "pc_ecadd X data g \<noteq> Inl OutOfFuel"
    "pc_ecmul X data g \<noteq> Inl OutOfFuel" "pc_ecpairing X data g \<noteq> Inl OutOfFuel"
    "pc_blake2f data g \<noteq> Inl OutOfFuel" "pc_point_evaluation X data g \<noteq> Inl OutOfFuel"
proof -
  show "pc_ecrecover data g \<noteq> Inl OutOfFuel" "pc_sha256 X data g \<noteq> Inl OutOfFuel"
    "pc_ripemd160 X data g \<noteq> Inl OutOfFuel" "pc_identity data g \<noteq> Inl OutOfFuel"
    unfolding pc_ecrecover_def pc_sha256_def pc_ripemd160_def pc_identity_def Let_def
    by (rule with_gas_raises, simp)+
  show "pc_modexp data g \<noteq> Inl OutOfFuel"
    unfolding pc_modexp_def Let_def by (rule with_gas_raises) (simp add: map_sum_Inl to_bytes_raises)
  show "pc_ecadd X data g \<noteq> Inl OutOfFuel" "pc_ecmul X data g \<noteq> Inl OutOfFuel"
    unfolding pc_ecadd_def pc_ecmul_def Let_def
    by (rule with_gas_raises, simp add: bn_encode_raises split: option.splits)+
  show "pc_ecpairing X data g \<noteq> Inl OutOfFuel"
    unfolding pc_ecpairing_def Let_def
    by (rule with_gas_raises) (use bn_pairs_raises [OF assms] in \<open>auto split: sum.splits option.splits\<close>)
  show "pc_blake2f data g \<noteq> Inl OutOfFuel"
    unfolding pc_blake2f_def Let_def by (simp add: with_gas_raises)
  have "decode_g1_point X bs \<noteq> Inl OutOfFuel" for bs
    using assms by (simp add: decode_g1_point_def value_error_raises externals_ok_def)
  moreover have "get_kzg_g2_tau X \<noteq> Inl OutOfFuel"
    unfolding get_kzg_g2_tau_def
    by (rule value_error_raises) (use assms in \<open>unfold externals_ok_def, blast\<close>)
  ultimately show "pc_point_evaluation X data g \<noteq> Inl OutOfFuel"
    unfolding pc_point_evaluation_def Let_def
    by (intro with_gas_raises) (auto split: sum.splits)
qed

lemma precompile_raises:
  assumes "externals_ok X"
  shows "execute_precompile X a data g \<noteq> Inl OutOfFuel"
proof -
  have "parse_int 16 a \<noteq> Inl OutOfFuel" by (rule parse_int_raises)
  then show ?thesis
    by (cases "parse_int 16 a") (simp_all add: execute_precompile_def pc_raises [OF assms])
qed

section \<open>The locale\<close>

definition inv_of ::
    "externals \<Rightarrow> (call_context \<Rightarrow> bool) \<Rightarrow> (execution_context \<Rightarrow> bool) \<Rightarrow> machine \<Rightarrow> bool" where
  "inv_of X FI CI s \<longleftrightarrow> FI (call s) \<and> CI (ctx s) \<and> wf_cache X s"

definition rel_of :: "(execution_context \<Rightarrow> execution_context \<Rightarrow> bool) \<Rightarrow> machine \<Rightarrow> machine \<Rightarrow> bool" where
  "rel_of CR s t \<longleftrightarrow> CR (ctx s) (ctx t) \<and> same_frame (call s) (call t)"

text \<open>
  \<open>ro\<close> says that every frame of the invariant is static, \<open>mk\<close> that creations may happen
  (the gas of a frame can then grow).
\<close>

locale evm_inv =
  fixes X :: externals
    and FI :: "call_context \<Rightarrow> bool"
    and CI :: "execution_context \<Rightarrow> bool"
    and CR :: "execution_context \<Rightarrow> execution_context \<Rightarrow> bool"
    and A :: "exn \<Rightarrow> bool"
    and ro mk :: bool
  assumes library: "A OutOfFuel \<or> externals_ok X"
    and raises: "e \<noteq> OutOfFuel \<Longrightarrow> A e"
    and FI_ok: "FI c \<Longrightarrow> frame_ok c"
    and FI_step: "FI c \<Longrightarrow> frame_ok d \<Longrightarrow> gas d \<le> gas c \<Longrightarrow> same_frame c d \<Longrightarrow> FI d"
    and FI_child: "FI c \<Longrightarrow> 0 \<le> g \<Longrightarrow> g \<le> gas c \<Longrightarrow> CI x \<Longrightarrow> get_code ca x = Inr bs \<Longrightarrow> (ro \<longrightarrow> st) \<Longrightarrow>
          FI (new_call t dep a sender ori v g bs cd st)"
    and FI_create: "mk \<Longrightarrow> FI c \<Longrightarrow> 0 \<le> g \<Longrightarrow> g \<le> gas c \<Longrightarrow> FI (new_call t dep a sender ori v g bs [] False)"
    and FI_mint: "mk \<Longrightarrow> FI c \<Longrightarrow> 0 \<le> g \<Longrightarrow> FI (c\<lparr>gas := gas c + g\<rparr>)"
    and FI_ro: "ro \<Longrightarrow> FI c \<Longrightarrow> static c"
    and mk_rw: "mk \<Longrightarrow> \<not> ro"
    and CR_refl: "CI x \<Longrightarrow> CR x x"
    and CR_trans: "CR x y \<Longrightarrow> CR y z \<Longrightarrow> CR x z"
    and ctx_warm: "CI x \<Longrightarrow> CI (x\<lparr>accessed_addresses := W\<rparr>) \<and> CR x (x\<lparr>accessed_addresses := W\<rparr>)"
    and ctx_frames: "CI x \<Longrightarrow> CI (x\<lparr>call_stack := fs\<rparr>) \<and> CR x (x\<lparr>call_stack := fs\<rparr>)"
    and ctx_snapshot: "CI x \<Longrightarrow> CI (snd (take_snapshot x)) \<and> CR x (snd (take_snapshot x))"
    and ctx_revert: "CI x \<Longrightarrow> CI y \<Longrightarrow> CR (snd (take_snapshot x)) y \<Longrightarrow>
          CI (revert_to_snapshot (length (snapshots x)) y) \<and> CR x (revert_to_snapshot (length (snapshots x)) y)"
    and ctx_get_storage: "CI x \<Longrightarrow> CI (snd (get_storage a x)) \<and> CR x (snd (get_storage a x))"
    and ctx_sload: "CI x \<Longrightarrow> a \<in> dom (map_of (storage x)) \<Longrightarrow>
          CI (snd (on_storage a (st_load k) x)) \<and> CR x (snd (on_storage a (st_load k) x))"
    and ctx_sstore: "\<not> ro \<Longrightarrow> CI x \<Longrightarrow> a \<in> dom (map_of (storage x)) \<Longrightarrow>
          CI (snd (on_storage a (st_store k v) x)) \<and> CR x (snd (on_storage a (st_store k v) x))"
    and ctx_refund: "\<not> ro \<Longrightarrow> CI x \<Longrightarrow> CI (x\<lparr>gas_refund := r\<rparr>) \<and> CR x (x\<lparr>gas_refund := r\<rparr>)"
    and ctx_transient: "\<not> ro \<Longrightarrow> CI x \<Longrightarrow> CI (x\<lparr>transient_store := ts\<rparr>) \<and> CR x (x\<lparr>transient_store := ts\<rparr>)"
    and ctx_log: "\<not> ro \<Longrightarrow> CI x \<Longrightarrow> CI (add_log l x) \<and> CR x (add_log l x)"
    and ctx_destroy: "\<not> ro \<Longrightarrow> CI x \<Longrightarrow> CI (x\<lparr>destroyed_accounts := D\<rparr>) \<and> CR x (x\<lparr>destroyed_accounts := D\<rparr>)"
    and ctx_transfer: "\<not> ro \<Longrightarrow> CI x \<Longrightarrow> 0 \<le> v \<Longrightarrow> CI (snd (transfer a b v x)) \<and> CR x (snd (transfer a b v x))"
    and ctx_nonce: "mk \<Longrightarrow> CI x \<Longrightarrow> CI (snd (ctx_increment_nonce a x)) \<and> CR x (snd (ctx_increment_nonce a x))"
    and ctx_code: "mk \<Longrightarrow> CI x \<Longrightarrow> CI (set_code a bs x) \<and> CR x (set_code a bs x)"
begin

abbreviation keeps :: "'a vm \<Rightarrow> ('a \<Rightarrow> bool) \<Rightarrow> bool" where
  "keeps \<equiv> safe (inv_of X FI CI) (rel_of CR) A"

lemma rel_refl: "inv_of X FI CI s \<Longrightarrow> rel_of CR s s"
  by (simp add: inv_of_def rel_of_def CR_refl)

lemma rel_trans: "rel_of CR s t \<Longrightarrow> rel_of CR t u \<Longrightarrow> rel_of CR s u"
  unfolding rel_of_def by (blast intro: CR_trans same_frame_trans)

sublocale safety "inv_of X FI CI" "rel_of CR" A
  by unfold_locales (rule rel_refl, assumption, rule rel_trans)

subsection \<open>Elementary changes\<close>

lemma keeps_on_call:
  assumes "\<And>c r d. FI c \<Longrightarrow> m c = (r, d) \<Longrightarrow>
     frame_ok d \<and> gas d \<le> gas c \<and> same_frame c d \<and> (case r of Inl e \<Rightarrow> e \<noteq> OutOfFuel | Inr v \<Rightarrow> V v)"
  shows "keeps (on_call m) V"
proof (rule safeI)
  fix s r t
  assume s: "inv_of X FI CI s" and run: "on_call m s = (r, t)"
  obtain d where d: "m (call s) = (r, d)" and t: "t = s\<lparr>call := d\<rparr>"
    using run by (auto simp: on_call_def zoom_def split: prod.splits)
  have FI: "FI (call s)" and CI: "CI (ctx s)" and cache: "wf_cache X s"
    using s by (simp_all add: inv_of_def)
  note a = assms [OF FI d]
  then have "FI d"
    using FI_step [OF FI] by blast
  with CI cache a show "inv_of X FI CI t \<and> rel_of CR s t \<and> (case r of Inl e \<Rightarrow> A e | Inr v \<Rightarrow> V v)"
    by (auto simp: inv_of_def rel_of_def t wf_cache_def CR_refl intro: raises split: sum.splits)
qed

lemma keeps_on_ctx:
  assumes "\<And>x r y. CI x \<Longrightarrow> m x = (r, y) \<Longrightarrow>
     CI y \<and> CR x y \<and> (case r of Inl e \<Rightarrow> e \<noteq> OutOfFuel | Inr v \<Rightarrow> V v)"
  shows "keeps (on_ctx m) V"
proof (rule safeI)
  fix s r t
  assume s: "inv_of X FI CI s" and run: "on_ctx m s = (r, t)"
  obtain y where y: "m (ctx s) = (r, y)" and t: "t = s\<lparr>ctx := y\<rparr>"
    using run by (auto simp: on_ctx_def zoom_def split: prod.splits)
  have "CI (ctx s)"
    using s by (simp add: inv_of_def)
  from assms [OF this y] s show "inv_of X FI CI t \<and> rel_of CR s t \<and> (case r of Inl e \<Rightarrow> A e | Inr v \<Rightarrow> V v)"
    by (auto simp: inv_of_def rel_of_def t wf_cache_def intro: raises split: sum.splits)
qed

lemma keeps_on_ctx_any:
  assumes "\<And>x. CI x \<Longrightarrow> CI (snd (m x)) \<and> CR x (snd (m x))" and "\<And>x. fst (m x) \<noteq> Inl OutOfFuel"
  shows "keeps (on_ctx m) (\<lambda>_. True)"
proof (rule keeps_on_ctx)
  fix x r y
  assume "CI x" and "m x = (r, y)"
  with assms [of x] show "CI y \<and> CR x y \<and> (case r of Inl e \<Rightarrow> e \<noteq> OutOfFuel | Inr v \<Rightarrow> True)"
    by (auto split: sum.splits)
qed

lemma keeps_on_stack:
  assumes "\<And>u. wf_stack u \<Longrightarrow> wf_stack (snd (m u))" and "\<And>u. max_depth (snd (m u)) = max_depth u"
    and "\<And>u. fst (m u) \<noteq> Inl OutOfFuel" and "\<And>u v w. wf_stack u \<Longrightarrow> m u = (Inr v, w) \<Longrightarrow> V v"
  shows "keeps (on_stack m) V"
  unfolding on_stack_def
proof (rule keeps_on_call)
  fix c r d
  assume c: "FI c" and run: "zoom stack stack_update m c = (r, d)"
  obtain w where w: "m (stack c) = (r, w)" and d: "d = c\<lparr>stack := w\<rparr>"
    using run by (auto simp: zoom_def split: prod.splits)
  have ok: "frame_ok c" by (rule FI_ok [OF c])
  then have "wf_stack (stack c)" by (simp add: frame_ok_def)
  with assms(1,2,3) [of "stack c"] assms(4) [of "stack c"] w ok
  show "frame_ok d \<and> gas d \<le> gas c \<and> same_frame c d \<and> (case r of Inl e \<Rightarrow> e \<noteq> OutOfFuel | Inr v \<Rightarrow> V v)"
    by (auto simp: d frame_ok_def same_frame_def split: sum.splits)
qed

lemma keeps_on_memory:
  assumes "\<And>u. wf_memory u \<Longrightarrow> wf_memory (snd (m u))" and "\<And>u. max_size (snd (m u)) = max_size u"
    and "\<And>u. fst (m u) \<noteq> Inl OutOfFuel"
  shows "keeps (on_memory m) (\<lambda>_. True)"
  unfolding on_memory_def
proof (rule keeps_on_call)
  fix c r d
  assume c: "FI c" and run: "zoom memory memory_update m c = (r, d)"
  obtain w where w: "m (memory c) = (r, w)" and d: "d = c\<lparr>memory := w\<rparr>"
    using run by (auto simp: zoom_def split: prod.splits)
  have ok: "frame_ok c" by (rule FI_ok [OF c])
  then have "wf_memory (memory c)" by (simp add: frame_ok_def)
  with assms [of "memory c"] w ok
  show "frame_ok d \<and> gas d \<le> gas c \<and> same_frame c d \<and> (case r of Inl e \<Rightarrow> e \<noteq> OutOfFuel | Inr v \<Rightarrow> True)"
    by (auto simp: d frame_ok_def same_frame_def split: sum.splits)
qed

lemma keeps_pop: "keeps pop is_word"
  unfolding pop_def
  by (rule keeps_on_stack; (rule stack_max_depth_frame stack_raises | erule wf_stack_pop | erule (1) wf_stack_pop_value))

lemma keeps_push: "keeps (push v) (\<lambda>_. True)"
  unfolding push_def
  by (rule keeps_on_stack; (rule stack_max_depth_frame stack_raises TrueI | erule wf_stack_push))

lemma keeps_dup: "keeps (on_stack (stack_dup p)) (\<lambda>_. True)"
  by (rule keeps_on_stack; (rule stack_max_depth_frame stack_raises TrueI | erule wf_stack_dup))

lemma keeps_swap: "keeps (on_stack (stack_swap p)) (\<lambda>_. True)"
  by (rule keeps_on_stack; (rule stack_max_depth_frame stack_raises TrueI | erule wf_stack_swap))

lemma keeps_peek: "keeps (on_stack (stack_peek k)) (\<lambda>_. True)"
  by (rule keeps_on_stack) (simp_all add: stack_peek_def raise_def)

lemma keeps_memory:
  "0 \<le> off \<Longrightarrow> keeps (on_memory (mem_load off)) (\<lambda>_. True)"
  "0 \<le> off \<Longrightarrow> keeps (on_memory (mem_store off v)) (\<lambda>_. True)"
  "0 \<le> off \<Longrightarrow> keeps (on_memory (mem_store_byte off v)) (\<lambda>_. True)"
  "0 \<le> off \<Longrightarrow> 0 \<le> n \<Longrightarrow> keeps (on_memory (mem_load_range off n)) (\<lambda>_. True)"
  "0 \<le> off \<Longrightarrow> keeps (on_memory (mem_store_range off bs)) (\<lambda>_. True)"
  "0 \<le> off \<Longrightarrow> 0 \<le> src \<Longrightarrow> 0 \<le> n \<Longrightarrow> keeps (on_memory (mem_copy off src n)) (\<lambda>_. True)"
  by (intro keeps_on_memory mem_max_size mem_raises wf_mem_load wf_mem_store wf_mem_store_byte
      wf_mem_load_range wf_mem_store_range wf_mem_copy; assumption)+

lemma keeps_use_gas: "0 \<le> n \<Longrightarrow> keeps (on_call (use_gas n)) (\<lambda>_. True)"
  by (rule keeps_on_call) (auto simp: use_gas_def frame_ok_def same_frame_def split: if_splits dest: FI_ok)

lemma keeps_charge: "0 \<le> n \<Longrightarrow> keeps (charge n) (\<lambda>_. True)"
  unfolding charge_def
  by (intro safe_and_then_any [OF keeps_use_gas] safe_if safe_ret safe_raise raises) simp_all

lemma keeps_set_call:
  assumes "\<And>c. frame_ok c \<Longrightarrow> frame_ok (f c) \<and> gas (f c) \<le> gas c \<and> same_frame c (f c)"
  shows "keeps (set_call f) (\<lambda>_. True)"
proof -
  have "keeps (on_call (modify f)) (\<lambda>_. True)"
    by (rule keeps_on_call) (use assms FI_ok in \<open>auto simp: modify_def\<close>)
  moreover have "on_call (modify f) = set_call f"
    by (rule ext) (simp add: on_call_def set_call_def zoom_def modify_def)
  ultimately show ?thesis by simp
qed

lemma keeps_set_ctx:
  assumes "\<And>x. CI x \<Longrightarrow> CI (f x) \<and> CR x (f x)"
  shows "keeps (set_ctx f) (\<lambda>_. True)"
proof -
  have "keeps (on_ctx (modify f)) (\<lambda>_. True)"
    by (rule keeps_on_ctx) (use assms in \<open>auto simp: modify_def\<close>)
  moreover have "on_ctx (modify f) = set_ctx f"
    by (rule ext) (simp add: on_ctx_def set_ctx_def zoom_def modify_def)
  ultimately show ?thesis by simp
qed

lemma keeps_get_call: "(\<And>c. FI c \<Longrightarrow> V (f c)) \<Longrightarrow> keeps (get_call f) V"
  unfolding get_call_def by (rule safe_reads) (simp add: inv_of_def)

lemma keeps_get_ctx: "(\<And>x. CI x \<Longrightarrow> V (f x)) \<Longrightarrow> keeps (get_ctx f) V"
  unfolding get_ctx_def by (rule safe_reads) (simp add: inv_of_def)

lemma keeps_read_code: "keeps (read_code a) (\<lambda>bs. \<exists>x. CI x \<and> get_code a x = Inr bs)"
  unfolding read_code_def
proof (rule safe_and_then)
  show "keeps (get_ctx (get_code a)) (\<lambda>r. \<exists>x. CI x \<and> get_code a x = r)"
    by (rule keeps_get_ctx) blast
  fix r assume "\<exists>x. CI x \<and> get_code a x = r"
  then show "keeps (lift_result r) (\<lambda>bs. \<exists>x. CI x \<and> get_code a x = Inr bs)"
    by (intro safe_lift_result raises) (use get_code_raises in auto)
qed

lemma keeps_parse: "keeps (lift_result (parse_int b a)) (\<lambda>_. True)"
  by (intro safe_lift_result raises) (use parse_int_raises in auto)

lemma keeps_warm: "keeps (on_ctx (warm_address a)) (\<lambda>g. 0 \<le> g)"
  by (rule keeps_on_ctx) (auto simp: warm_address_def CR_refl ctx_warm split: if_splits)

lemma keeps_expansion: "keeps (get_call (\<lambda>c. expansion_cost off n (memory c))) (\<lambda>g. 0 \<le> g)"
  by (rule keeps_get_call, rule expansion_cost_nonneg) (auto simp: frame_ok_def wf_memory_def dest: FI_ok)

lemma keeps_copy_gas: "0 \<le> n \<Longrightarrow> keeps (get_call (copy_gas off n)) (\<lambda>g. 0 \<le> g)"
proof (rule keeps_get_call)
  fix c assume "0 \<le> n" and "FI c"
  then have "0 \<le> expansion_cost off n (memory c)"
    by (intro expansion_cost_nonneg) (auto simp: frame_ok_def wf_memory_def dest: FI_ok)
  with \<open>0 \<le> n\<close> show "0 \<le> copy_gas off n c"
    by (simp add: copy_gas_def)
qed

lemma keeps_static: "keeps (get_call static) (\<lambda>st. ro \<longrightarrow> st)"
  by (rule keeps_get_call) (simp add: FI_ro)

lemma keeps_own_storage:
  assumes m: "\<And>a x. CI x \<Longrightarrow> a \<in> dom (map_of (storage x)) \<Longrightarrow>
      CI (snd (on_storage a m x)) \<and> CR x (snd (on_storage a m x))"
    and raise: "\<And>s. fst (m s) \<noteq> Inl OutOfFuel"
  shows "keeps (own_storage m) (\<lambda>_. True)"
  unfolding own_storage_def and_then_on_ctx
proof (rule safe_and_then_any [OF keeps_get_call [where V = "\<lambda>_. True"]], simp, rule keeps_on_ctx_any)
  fix a x
  let ?y = "snd (get_storage a x)"
  have raise': "fst (on_storage a m y) \<noteq> Inl OutOfFuel" for y
    using raise by (simp add: on_storage_def case_prod_beta)
  show "fst (and_then (get_storage a) (\<lambda>_. on_storage a m) x) \<noteq> Inl OutOfFuel"
    by (rule and_then_raises [OF get_storage_raises raise'])
  assume "CI x"
  from ctx_get_storage [OF this] have y: "CI ?y" "CR x ?y" by auto
  with m [OF y(1) get_storage_loaded] CR_trans
  show "CI (snd (and_then (get_storage a) (\<lambda>_. on_storage a m) x)) \<and>
      CR x (snd (and_then (get_storage a) (\<lambda>_. on_storage a m) x))"
    by (auto simp: and_then_def case_prod_beta split: sum.splits)
qed

lemma keeps_storage:
  "keeps (own_storage (st_load k)) (\<lambda>_. True)"
  "\<not> ro \<Longrightarrow> keeps (own_storage (st_store k v)) (\<lambda>_. True)"
  by (intro keeps_own_storage ctx_sload ctx_sstore; (assumption | rule storage_raises))+

lemma keeps_transfer: "\<not> ro \<Longrightarrow> 0 \<le> v \<Longrightarrow> keeps (on_ctx (transfer a b v)) (\<lambda>_. True)"
proof (rule keeps_on_ctx)
  fix x r y
  assume "\<not> ro" "0 \<le> v" "CI x" "transfer a b v x = (r, y)"
  with ctx_transfer [of x v a b] show "CI y \<and> CR x y \<and> (case r of Inl e \<Rightarrow> e \<noteq> OutOfFuel | Inr v \<Rightarrow> True)"
    by (auto simp: transfer_def Let_def split: if_splits)
qed

lemma keeps_transient:
  "keeps (on_ctx (zoom transient_store transient_store_update (ts_load ak))) (\<lambda>_. True)"
  "\<not> ro \<Longrightarrow> keeps (on_ctx (zoom transient_store transient_store_update (ts_store ak v))) (\<lambda>_. True)"
proof -
  show "keeps (on_ctx (zoom transient_store transient_store_update (ts_load ak))) (\<lambda>_. True)"
    by (rule keeps_on_ctx) (auto simp: zoom_def ts_load_def CR_refl)
  assume rw: "\<not> ro"
  show "keeps (on_ctx (zoom transient_store transient_store_update (ts_store ak v))) (\<lambda>_. True)"
  proof (rule keeps_on_ctx)
    fix x r y
    assume "CI x" and "zoom transient_store transient_store_update (ts_store ak v) x = (r, y)"
    then obtain ts g where "y = x\<lparr>transient_store := ts\<rparr>" "r = Inr g"
      by (auto simp: zoom_def ts_store_def Let_def)
    with ctx_transient [OF rw \<open>CI x\<close>] show "CI y \<and> CR x y \<and> (case r of Inl e \<Rightarrow> e \<noteq> OutOfFuel | Inr v \<Rightarrow> True)"
      by simp
  qed
qed

lemma keeps_writes:
  "\<not> ro \<Longrightarrow> keeps (set_ctx (gas_refund_update (\<lambda>r. r + n))) (\<lambda>_. True)"
  "\<not> ro \<Longrightarrow> keeps (set_ctx (add_log l)) (\<lambda>_. True)"
  "\<not> ro \<Longrightarrow> keeps (set_ctx (destroyed_accounts_update (insert a))) (\<lambda>_. True)"
proof -
  have r: "gas_refund_update (\<lambda>r. r + n) x = x\<lparr>gas_refund := gas_refund x + n\<rparr>" for x by simp
  have d: "destroyed_accounts_update (insert a) x = x\<lparr>destroyed_accounts := insert a (destroyed_accounts x)\<rparr>" for x
    by simp
  assume rw: "\<not> ro"
  show "keeps (set_ctx (gas_refund_update (\<lambda>r. r + n))) (\<lambda>_. True)"
    by (rule keeps_set_ctx) (simp only: r ctx_refund [OF rw])
  show "keeps (set_ctx (add_log l)) (\<lambda>_. True)"
    by (rule keeps_set_ctx) (rule ctx_log [OF rw])
  show "keeps (set_ctx (destroyed_accounts_update (insert a))) (\<lambda>_. True)"
    by (rule keeps_set_ctx) (simp only: d ctx_destroy [OF rw])
qed

lemma keeps_frame_updates:
  "0 \<le> p \<Longrightarrow> keeps (set_call (pc_update (\<lambda>_. p))) (\<lambda>_. True)"
  "0 \<le> p \<Longrightarrow> keeps (set_call (pc_update (\<lambda>q. q + p))) (\<lambda>_. True)"
  "keeps (set_call (halted_update (\<lambda>_. b))) (\<lambda>_. True)"
  "keeps (set_call (return_data_update (\<lambda>_. bs))) (\<lambda>_. True)"
  "keeps (set_call (revert_reason_update (\<lambda>_. str))) (\<lambda>_. True)"
  "keeps (set_call (\<lambda>c. c\<lparr>out_data := bs, halted := b\<rparr>)) (\<lambda>_. True)"
  "keeps (set_call (\<lambda>c. c\<lparr>out_data := bs, halted := b, reverted := b2\<rparr>)) (\<lambda>_. True)"
  by (rule keeps_set_call; simp add: frame_ok_def same_frame_def)+

end

section \<open>The handlers\<close>

lemma is_word_nonneg: "is_word v \<Longrightarrow> 0 \<le> v"
  by (simp add: is_word_def)

lemma words_nonneg: "0 \<le> sz \<Longrightarrow> 0 \<le> (sz + 31) div 32" for sz :: int
  by simp

context evm_inv
begin

subsection \<open>Rules for what comes first\<close>

lemma keeps_then_pop: "(\<And>a. 0 \<le> a \<Longrightarrow> keeps (k a) V) \<Longrightarrow> keeps (and_then pop k) V"
  by (rule safe_and_then [OF keeps_pop]) (simp add: is_word_nonneg)

lemma keeps_pop2: "(\<And>a b. 0 \<le> a \<Longrightarrow> 0 \<le> b \<Longrightarrow> keeps (k a b) V) \<Longrightarrow> keeps (pop2 k) V"
  unfolding pop2_def by (intro keeps_then_pop)

lemma keeps_pop3: "(\<And>a b c. 0 \<le> a \<Longrightarrow> 0 \<le> b \<Longrightarrow> 0 \<le> c \<Longrightarrow> keeps (k a b c) V) \<Longrightarrow> keeps (pop3 k) V"
  unfolding pop3_def by (intro keeps_then_pop keeps_pop2)

lemma keeps_pop4:
  "(\<And>a b c d. 0 \<le> a \<Longrightarrow> 0 \<le> b \<Longrightarrow> 0 \<le> c \<Longrightarrow> 0 \<le> d \<Longrightarrow> keeps (k a b c d) V) \<Longrightarrow> keeps (pop4 k) V"
  unfolding pop4_def by (intro keeps_then_pop keeps_pop3)

lemma keeps_pop6:
  "(\<And>a b c d e f. 0 \<le> a \<Longrightarrow> 0 \<le> b \<Longrightarrow> 0 \<le> c \<Longrightarrow> 0 \<le> d \<Longrightarrow> 0 \<le> e \<Longrightarrow> 0 \<le> f \<Longrightarrow> keeps (k a b c d e f) V) \<Longrightarrow>
   keeps (pop6 k) V"
  unfolding pop6_def by (intro keeps_pop2 keeps_pop4)

lemma keeps_pop7:
  "(\<And>a b c d e f g. 0 \<le> a \<Longrightarrow> 0 \<le> b \<Longrightarrow> 0 \<le> c \<Longrightarrow> 0 \<le> d \<Longrightarrow> 0 \<le> e \<Longrightarrow> 0 \<le> f \<Longrightarrow> 0 \<le> g \<Longrightarrow>
     keeps (k a b c d e f g) V) \<Longrightarrow> keeps (pop7 k) V"
  unfolding pop7_def by (intro keeps_then_pop keeps_pop6)

lemma keeps_pop_list: "keeps (pop_list n) (\<lambda>_. True)"
proof (induction n)
  case 0
  show ?case by (simp add: safe_ret)
next
  case (Suc n)
  show ?case
    unfolding pop_list.simps by (intro keeps_then_pop safe_and_then_any [OF Suc.IH] safe_ret TrueI)
qed

lemma keeps_then_charge: "0 \<le> n \<Longrightarrow> (\<And>u. keeps (k u) V) \<Longrightarrow> keeps (and_then (charge n) k) V"
  by (rule safe_and_then_any [OF keeps_charge])

lemma keeps_then_expansion:
  "(\<And>g. 0 \<le> g \<Longrightarrow> keeps (k g) V) \<Longrightarrow> keeps (and_then (get_call (\<lambda>c. expansion_cost off n (memory c))) k) V"
  by (rule safe_and_then [OF keeps_expansion])

lemma keeps_then_copy_gas:
  "0 \<le> n \<Longrightarrow> (\<And>g. 0 \<le> g \<Longrightarrow> keeps (k g) V) \<Longrightarrow> keeps (and_then (get_call (copy_gas off n)) k) V"
  by (rule safe_and_then [OF keeps_copy_gas])

lemma keeps_then_warm:
  "(\<And>g. 0 \<le> g \<Longrightarrow> keeps (k g) V) \<Longrightarrow> keeps (and_then (on_ctx (warm_address a)) k) V"
  by (rule safe_and_then [OF keeps_warm])

lemma keeps_static_guard:
  "(\<not> ro \<Longrightarrow> keeps m V) \<Longrightarrow>
   keeps (and_then (get_call static) (\<lambda>st. if st then raise (VMExecutionError StaticViolation) else m)) V"
  by (rule safe_and_then [OF keeps_static]) (auto intro: safe_raise raises)

lemma keeps_get_call_any: "keeps (get_call f) (\<lambda>_. True)"
  by (rule keeps_get_call) simp

lemma keeps_get_ctx_any: "keeps (get_ctx f) (\<lambda>_. True)"
  by (rule keeps_get_ctx) simp

lemma keeps_ret_any: "keeps (ret a) (\<lambda>_. True)"
  by (rule safe_ret) simp

lemma keeps_raise_vm: "keeps (raise (VMExecutionError c)) V"
  by (rule safe_raise [OF raises]) simp

lemma keeps_case_prod:
  "(\<And>a b. p = (a, b) \<Longrightarrow> keeps (f a b) V) \<Longrightarrow> keeps (case p of (a, b) \<Rightarrow> f a b) V"
  by (cases p) simp

lemma keeps_read_code_any: "keeps (read_code a) (\<lambda>_. True)"
  by (rule safe_weaken [OF keeps_read_code]) simp

lemmas keeps_rules =
  keeps_push keeps_dup keeps_swap keeps_peek keeps_ret_any keeps_raise_vm
  keeps_get_call_any keeps_get_ctx_any keeps_pop_list keeps_parse keeps_read_code_any
  keeps_frame_updates keeps_memory keeps_storage keeps_transient keeps_writes keeps_transfer
  keeps_pop2 keeps_pop3 keeps_pop4 keeps_static_guard
  keeps_then_pop keeps_then_charge keeps_then_expansion keeps_then_copy_gas keeps_then_warm
  keeps_charge keeps_case_prod safe_if safe_and_then_any

subsection \<open>Arithmetic, comparison and bitwise operations\<close>

lemma keeps_arithmetic:
  "keeps op_add (\<lambda>_. True)" "keeps op_mul (\<lambda>_. True)" "keeps op_sub (\<lambda>_. True)"
  "keeps op_div (\<lambda>_. True)" "keeps op_sdiv (\<lambda>_. True)" "keeps op_mod (\<lambda>_. True)"
  "keeps op_smod (\<lambda>_. True)" "keeps op_addmod (\<lambda>_. True)" "keeps op_mulmod (\<lambda>_. True)"
  "keeps op_signextend (\<lambda>_. True)"
  unfolding op_add_def op_mul_def op_sub_def op_div_def op_sdiv_def op_mod_def op_smod_def
    op_addmod_def op_mulmod_def op_signextend_def Let_def
  by (rule keeps_rules)+

lemma keeps_exp: "keeps op_exp (\<lambda>_. True)"
  unfolding op_exp_def Let_def
  by (rule keeps_rules | simp add: exp_bytes_def)+

lemma keeps_comparison:
  "keeps op_lt (\<lambda>_. True)" "keeps op_gt (\<lambda>_. True)" "keeps op_slt (\<lambda>_. True)" "keeps op_sgt (\<lambda>_. True)"
  "keeps op_eq (\<lambda>_. True)" "keeps op_iszero (\<lambda>_. True)" "keeps op_and (\<lambda>_. True)" "keeps op_or (\<lambda>_. True)"
  "keeps op_xor (\<lambda>_. True)" "keeps op_not (\<lambda>_. True)" "keeps op_byte (\<lambda>_. True)" "keeps op_shl (\<lambda>_. True)"
  "keeps op_shr (\<lambda>_. True)" "keeps op_sar (\<lambda>_. True)"
  unfolding op_lt_def op_gt_def op_slt_def op_sgt_def op_eq_def op_iszero_def op_and_def op_or_def
    op_xor_def op_not_def op_byte_def op_shl_def op_shr_def op_sar_def Let_def
  by (rule keeps_rules)+

subsection \<open>Environment and block\<close>

lemma keeps_keccak: "keeps (op_keccak256 X) (\<lambda>_. True)"
  unfolding op_keccak256_def by (rule keeps_rules | simp)+

lemma keeps_push_hex: "keeps (push_hex a) (\<lambda>_. True)"
  unfolding push_hex_def by (rule keeps_rules)+

lemma keeps_environment:
  "keeps op_address (\<lambda>_. True)" "keeps op_balance (\<lambda>_. True)" "keeps op_origin (\<lambda>_. True)"
  "keeps op_caller (\<lambda>_. True)" "keeps op_callvalue (\<lambda>_. True)" "keeps op_calldataload (\<lambda>_. True)"
  "keeps op_calldatasize (\<lambda>_. True)" "keeps op_calldatacopy (\<lambda>_. True)" "keeps op_codesize (\<lambda>_. True)"
  "keeps op_codecopy (\<lambda>_. True)" "keeps op_gasprice (\<lambda>_. True)" "keeps op_extcodesize (\<lambda>_. True)"
  "keeps op_extcodecopy (\<lambda>_. True)" "keeps op_returndatasize (\<lambda>_. True)" "keeps op_returndatacopy (\<lambda>_. True)"
  unfolding op_address_def op_balance_def op_origin_def op_caller_def op_callvalue_def op_calldataload_def
    op_calldatasize_def op_calldatacopy_def op_codesize_def op_codecopy_def op_gasprice_def
    op_extcodesize_def op_extcodecopy_def op_returndatasize_def op_returndatacopy_def Let_def
  by (rule keeps_push_hex keeps_rules | simp)+

lemma get_code_hash_raises: "get_code_hash f a x \<noteq> Inl OutOfFuel"
  by (simp add: get_code_hash_def map_sum_Inl get_code_raises)

lemma keeps_extcodehash: "keeps (op_extcodehash X) (\<lambda>_. True)"
proof -
  have "keeps (and_then (get_ctx (get_code_hash (sha3_256 X) a)) (\<lambda>r. and_then (lift_result r) push)) (\<lambda>_. True)" for a
  proof (rule safe_and_then)
    show "keeps (get_ctx (get_code_hash (sha3_256 X) a)) (\<lambda>r. r \<noteq> Inl OutOfFuel)"
      by (rule keeps_get_ctx) (rule get_code_hash_raises)
    fix r :: "exn + int"
    assume "r \<noteq> Inl OutOfFuel"
    then show "keeps (and_then (lift_result r) push) (\<lambda>_. True)"
      by (intro safe_and_then_any keeps_push safe_lift_result raises) auto
  qed
  then show ?thesis
    unfolding op_extcodehash_def Let_def by (intro keeps_then_pop keeps_then_warm keeps_then_charge)
qed

lemma keeps_block:
  "keeps op_blockhash (\<lambda>_. True)" "keeps op_coinbase (\<lambda>_. True)" "keeps op_timestamp (\<lambda>_. True)"
  "keeps op_number (\<lambda>_. True)" "keeps op_prevrandao (\<lambda>_. True)" "keeps op_gaslimit (\<lambda>_. True)"
  "keeps op_chainid (\<lambda>_. True)" "keeps op_selfbalance (\<lambda>_. True)" "keeps op_basefee (\<lambda>_. True)"
  unfolding op_blockhash_def op_coinbase_def op_timestamp_def op_number_def op_prevrandao_def
    op_gaslimit_def op_chainid_def op_selfbalance_def op_basefee_def
  by (rule keeps_push_hex keeps_rules)+

subsection \<open>Stack, memory, storage and flow\<close>

lemma keeps_memory_ops:
  "keeps op_pop (\<lambda>_. True)" "keeps op_mload (\<lambda>_. True)" "keeps op_mstore (\<lambda>_. True)"
  "keeps op_mstore8 (\<lambda>_. True)" "keeps op_mcopy (\<lambda>_. True)" "keeps op_msize (\<lambda>_. True)"
  unfolding op_pop_def op_mload_def op_mstore_def op_mstore8_def op_mcopy_def op_msize_def
  by (rule keeps_rules | simp)+

lemma keeps_storage_ops:
  "keeps op_sload (\<lambda>_. True)" "keeps op_sstore (\<lambda>_. True)"
  "keeps op_tload (\<lambda>_. True)" "keeps op_tstore (\<lambda>_. True)"
  unfolding op_sload_def op_sstore_def op_tload_def op_tstore_def Let_def
  by (rule keeps_rules | assumption | simp)+

lemma keeps_flow:
  "keeps op_jump (\<lambda>_. True)" "keeps op_jumpi (\<lambda>_. True)" "keeps op_pc (\<lambda>_. True)" "keeps op_gas (\<lambda>_. True)"
  "keeps op_jumpdest (\<lambda>_. True)" "keeps op_push0 (\<lambda>_. True)" "keeps op_stop (\<lambda>_. True)" "keeps op_invalid (\<lambda>_. True)"
  unfolding op_jump_def op_jumpi_def op_pc_def op_gas_def op_jumpdest_def op_push0_def op_stop_def op_invalid_def
  by (rule keeps_rules | simp)+

lemma keeps_log: "keeps op_log (\<lambda>_. True)"
  unfolding op_log_def by (rule keeps_rules | assumption | simp)+

lemma keeps_halting:
  "keeps op_return (\<lambda>_. True)" "keeps op_revert (\<lambda>_. True)" "keeps op_selfdestruct (\<lambda>_. True)"
  unfolding op_return_def op_revert_def op_selfdestruct_def Let_def
  by (rule keeps_rules | assumption | simp)+

lemma keeps_handle_push: "keeps (handle_push op) (\<lambda>_. True)"
  unfolding handle_push_def
proof (rule safe_and_then)
  show "keeps (get_call (\<lambda>c. let start = pc c + 1; end = start + get_push_size op
      in (end, if end \<le> int (length (code c)) then slice (nat start) (nat end) (code c)
               else drop (nat start) (code c) @ zeros (nat (end - int (length (code c))))))) (\<lambda>p. 0 \<le> fst p)"
    by (rule keeps_get_call) (auto simp: Let_def frame_ok_def get_push_size_def dest: FI_ok)
  fix p :: "int \<times> byte list"
  assume "0 \<le> fst p"
  then show "keeps (case p of (end, value_bytes) \<Rightarrow>
      and_then (push (from_bytes value_bytes)) (\<lambda>_. set_call (pc_update (\<lambda>_. end)))) (\<lambda>_. True)"
    by (cases p) (simp, (rule keeps_rules | simp)+)
qed

end

section \<open>Calls and creations\<close>

lemma run_child_eval:
  "run_child E i c s =
     (case E (s\<lparr>call := c\<rparr>) of
        (Inr u, t) \<Rightarrow> (Inr (Some (call t)), t\<lparr>call := call s\<rparr>)
      | (Inl e, t) \<Rightarrow>
          (case e of
             VMExecutionError k \<Rightarrow> (Inr None, t\<lparr>call := call s, ctx := pop_call (revert_to_snapshot i (ctx t))\<rparr>)
           | f \<Rightarrow> (Inl e, t\<lparr>call := call s\<rparr>)))"
  by (simp add: run_child_def catch_vm_def and_then_def with_frame_def set_ctx_def modify_def ret_def
      split: prod.splits sum.splits exn.splits)

context evm_inv
begin

lemma keeps_with_frame:
  assumes E: "keeps E (\<lambda>_. True)" and c: "FI c"
  shows "keeps (with_frame c E) FI"
proof (rule safeI)
  fix s r t
  assume s: "inv_of X FI CI s" and run: "with_frame c E s = (r, t)"
  obtain q u where q: "E (s\<lparr>call := c\<rparr>) = (q, u)" by fastforce
  have "inv_of X FI CI (s\<lparr>call := c\<rparr>)"
    using s c by (simp add: inv_of_def wf_cache_def)
  note D = safeD [OF E this q]
  have t: "r = map_sum id (\<lambda>_. call u) q" "t = u\<lparr>call := call s\<rparr>"
    using run q by (simp_all add: with_frame_def)
  have "inv_of X FI CI t" "rel_of CR s t"
    using D(1,2) s by (simp_all add: t inv_of_def rel_of_def wf_cache_def)
  moreover have "case r of Inl e \<Rightarrow> A e | Inr v \<Rightarrow> FI v"
    using D(1,3) by (cases q) (simp_all add: t inv_of_def)
  ultimately show "inv_of X FI CI t \<and> rel_of CR s t \<and> (case r of Inl e \<Rightarrow> A e | Inr v \<Rightarrow> FI v)" by blast
qed

lemma pop_call_keeps: "CI x \<Longrightarrow> CI (pop_call x) \<and> CR x (pop_call x)"
  unfolding pop_call_def by (rule ctx_frames)

text \<open>
  Between \<open>take_snapshot\<close> in context \<open>x\<close> and the end of the subcall: when the child failed the
  context is already back to one that \<open>x\<close> is related to; when it ended the snapshot is
  still there to go back to.
\<close>

definition after_child :: "execution_context \<Rightarrow> exn + call_context option \<Rightarrow> execution_context \<Rightarrow> bool" where
  "after_child x r y \<longleftrightarrow>
     (case r of
        Inl e \<Rightarrow> A e \<and> CR x y
      | Inr None \<Rightarrow> CR x y
      | Inr (Some fin) \<Rightarrow> CR (snd (take_snapshot x)) y)"

lemma snapshot_rel: "CI x \<Longrightarrow> CR (snd (take_snapshot x)) y \<Longrightarrow> CR x y"
  using ctx_snapshot CR_trans by blast

lemma run_child_keeps:
  assumes E: "keeps E (\<lambda>_. True)" and c: "FI c" and x: "CI x"
    and s: "inv_of X FI CI s" and snap: "CR (snd (take_snapshot x)) (ctx s)"
    and run: "run_child E (length (snapshots x)) c s = (r, t)"
  shows "inv_of X FI CI t \<and> call t = call s \<and> after_child x r (ctx t)"
proof -
  obtain q u where q: "E (s\<lparr>call := c\<rparr>) = (q, u)" by fastforce
  have "inv_of X FI CI (s\<lparr>call := c\<rparr>)"
    using s c by (simp add: inv_of_def wf_cache_def)
  note D = safeD [OF E this q]
  have u: "CI (ctx u)" "wf_cache X u" and call: "FI (call s)"
    using D(1) s by (simp_all add: inv_of_def)
  have R1: "CR (snd (take_snapshot x)) (ctx u)"
    using D(2) CR_trans [OF snap] by (simp add: rel_of_def)
  note R0 = snapshot_rel [OF x R1]
  let ?y = "revert_to_snapshot (length (snapshots x)) (ctx u)"
  from ctx_revert [OF x u(1) R1] have y: "CI ?y" "CR x ?y" by auto
  then have z: "CI (pop_call ?y)" "CR x (pop_call ?y)"
    using pop_call_keeps CR_trans by blast+
  have base: "inv_of X FI CI (u\<lparr>call := call s\<rparr>)"
    using u call by (simp add: inv_of_def wf_cache_def)
  have reverted: "inv_of X FI CI (u\<lparr>call := call s, ctx := pop_call ?y\<rparr>)"
    using u call z by (simp add: inv_of_def wf_cache_def)
  show ?thesis
  proof (cases q)
    case (Inr v)
    with run q have "r = Inr (Some (call u))" "t = u\<lparr>call := call s\<rparr>"
      by (simp_all add: run_child_eval)
    with base R1 show ?thesis by (simp add: after_child_def)
  next
    case (Inl e)
    show ?thesis
    proof (cases "\<exists>k. e = VMExecutionError k")
      case True
      with run q Inl have "r = Inr None" "t = u\<lparr>call := call s, ctx := pop_call ?y\<rparr>"
        by (auto simp: run_child_eval)
      with reverted z show ?thesis by (simp add: after_child_def)
    next
      case False
      with run q Inl have "r = Inl e" "t = u\<lparr>call := call s\<rparr>"
        by (auto simp: run_child_eval split: exn.splits)
      with base R0 D(3) Inl show ?thesis by (simp add: after_child_def)
    qed
  qed
qed

text \<open>The end of a subcall whose child ran: pop its frame, revert if it asked for that.\<close>

lemma after_child_keeps:
  assumes x: "CI x" and s: "inv_of X FI CI s" and after: "after_child x (Inr ended) (ctx s)"
    and run: "(case ended of
        None \<Rightarrow> ret (False, [])
      | Some fin \<Rightarrow> and_then (set_ctx pop_call) (\<lambda>_.
          if reverted fin
          then and_then (set_ctx (revert_to_snapshot (length (snapshots x)))) (\<lambda>_. ret (False, out_data fin))
          else ret (True, out_data fin))) s = (r, t)"
  shows "inv_of X FI CI t \<and> call t = call s \<and> CR x (ctx t) \<and> (\<exists>v. r = Inr v)"
proof (cases ended)
  case None
  with run after s show ?thesis by (auto simp: ret_def after_child_def)
next
  case (Some fin)
  have s': "CI (ctx s)" "wf_cache X s" "FI (call s)" using s by (simp_all add: inv_of_def)
  have R: "CR (snd (take_snapshot x)) (ctx s)"
    using after Some by (simp add: after_child_def)
  have p: "CI (pop_call (ctx s))" "CR (snd (take_snapshot x)) (pop_call (ctx s))"
    using pop_call_keeps [OF s'(1)] CR_trans [OF R] by blast+
  let ?y = "revert_to_snapshot (length (snapshots x)) (pop_call (ctx s))"
  from ctx_revert [OF x p] have y: "CI ?y" "CR x ?y" by auto
  have upd: "ctx_update f s = s\<lparr>ctx := f (ctx s)\<rparr>" for f
    by (cases s) simp
  have out: "(r, t) = (if reverted fin then (Inr (False, out_data fin), s\<lparr>ctx := ?y\<rparr>)
      else (Inr (True, out_data fin), s\<lparr>ctx := pop_call (ctx s)\<rparr>))"
    using run Some by (simp add: and_then_def set_ctx_def modify_def ret_def upd [of pop_call]
          upd [of "revert_to_snapshot (length (snapshots x)) \<circ> pop_call"] comp_def split: if_splits)
  show ?thesis
    using out s' y p snapshot_rel [OF x p(2)]
    by (auto simp: inv_of_def wf_cache_def split: if_splits)
qed

lemma keeps_move_value: "\<not> ro \<or> \<not> moves_value t v \<Longrightarrow> keeps (move_value t a b v) (\<lambda>_. True)"
  unfolding move_value_def
  by (rule safe_if keeps_ret_any keeps_transfer | simp add: moves_value_def | (auto simp: moves_value_def)[1])+

definition child_ok :: "(string \<Rightarrow> call_context) \<Rightarrow> bool" where
  "child_ok child \<longleftrightarrow> (\<forall>ori. FI (child ori))"

lemma keeps_bracket:
  assumes E: "keeps E (\<lambda>_. True)" and child: "child_ok child"
  shows "keeps (and_then (on_ctx take_snapshot) (\<lambda>snapshot_id.
      and_then (get_ctx tx_origin) (\<lambda>ori.
      and_then (on_ctx (push_call [])) (\<lambda>pushed.
      if \<not> pushed then ret (False, [])
      else and_then (run_child E snapshot_id (child ori)) (\<lambda>ended.
        case ended of
          None \<Rightarrow> ret (False, [])
        | Some fin \<Rightarrow> and_then (set_ctx pop_call) (\<lambda>_.
            if reverted fin
            then and_then (set_ctx (revert_to_snapshot snapshot_id)) (\<lambda>_. ret (False, out_data fin))
            else ret (True, out_data fin))))))) (\<lambda>_. True)"
    (is "keeps ?m _")
proof (rule safeI)
  fix s r t
  assume s: "inv_of X FI CI s" and run: "?m s = (r, t)"
  let ?x = "ctx s" and ?i = "length (snapshots (ctx s))" and ?x1 = "snd (take_snapshot (ctx s))"
  have s': "CI ?x" "wf_cache X s" "FI (call s)" using s by (simp_all add: inv_of_def)
  from ctx_snapshot [OF s'(1)] have x1: "CI ?x1" "CR ?x ?x1" by auto
  have c: "FI (child (tx_origin ?x1))"
    using child by (simp add: child_ok_def)
  show "inv_of X FI CI t \<and> rel_of CR s t \<and> (case r of Inl e \<Rightarrow> A e | Inr v \<Rightarrow> True)"
  proof (cases "int (length (call_stack ?x1)) \<ge> max_call_depth ?x1")
    case True
    with run have "r = Inr (False, [])" "t = s\<lparr>ctx := ?x1\<rparr>"
      by (auto simp: and_then_def on_ctx_def zoom_def take_snapshot_def get_ctx_def reads_def push_call_def ret_def)
    with x1 s' show ?thesis by (simp add: inv_of_def rel_of_def wf_cache_def)
  next
    case False
    let ?x2 = "?x1\<lparr>call_stack := [] # call_stack ?x1\<rparr>"
    let ?s2 = "s\<lparr>ctx := ?x2\<rparr>"
    from ctx_frames [OF x1(1)] have x2: "CI ?x2" "CR ?x1 ?x2" by auto
    obtain q u where q: "run_child E ?i (child (tx_origin ?x1)) ?s2 = (q, u)" by fastforce
    have "inv_of X FI CI ?s2" using s' x2 by (simp add: inv_of_def wf_cache_def)
    from run_child_keeps [OF E c s'(1) this _ q] x2(2)
    have u: "inv_of X FI CI u" "call u = call s" "after_child ?x q (ctx u)" by auto
    have run': "(r, t) = (case q of Inl e \<Rightarrow> (Inl e, u) | Inr ended \<Rightarrow>
        (case ended of
          None \<Rightarrow> ret (False, [])
        | Some fin \<Rightarrow> and_then (set_ctx pop_call) (\<lambda>_.
            if reverted fin then and_then (set_ctx (revert_to_snapshot ?i)) (\<lambda>_. ret (False, out_data fin))
            else ret (True, out_data fin))) u)"
      using run False q
      by (simp add: and_then_def on_ctx_def zoom_def take_snapshot_def get_ctx_def reads_def push_call_def
          split: sum.splits)
    show ?thesis
    proof (cases q)
      case (Inl e)
      with run' u show ?thesis by (simp add: rel_of_def after_child_def)
    next
      case (Inr ended)
      with run' have "(case ended of
          None \<Rightarrow> ret (False, [])
        | Some fin \<Rightarrow> and_then (set_ctx pop_call) (\<lambda>_.
            if reverted fin then and_then (set_ctx (revert_to_snapshot ?i)) (\<lambda>_. ret (False, out_data fin))
            else ret (True, out_data fin))) u = (r, t)" by simp
      from after_child_keeps [OF s'(1) u(1) _ this] u Inr show ?thesis
        by (auto simp: rel_of_def)
    qed
  qed
qed

lemma keeps_execute_subcall:
  assumes E: "keeps E (\<lambda>_. True)" and v: "\<not> ro \<or> \<not> moves_value t v"
    and g: "FI c" "0 \<le> g" "g \<le> gas c" and st: "ro \<longrightarrow> st"
  shows "keeps (execute_subcall X E t sender a v cdata g d st ca) (\<lambda>_. True)"
  unfolding execute_subcall_def Let_def
proof (rule safe_and_then [OF keeps_read_code])
  fix bs
  assume "\<exists>x. CI x \<and> get_code (case ca of None \<Rightarrow> a | Some ca \<Rightarrow> if ca \<noteq> [] then ca else a) x = Inr bs"
  then have child: "child_ok (\<lambda>ori. new_call t d a sender ori v g bs cdata st)"
    unfolding child_ok_def using FI_child [OF g _ _ st] by blast
  let ?a = "case ca of None \<Rightarrow> a | Some ca \<Rightarrow> if ca \<noteq> [] then ca else a"
  have err: "A e" if "execute_precompile X a cdata g = Inl e" for a e
    using library raises [of e] precompile_raises [of X a cdata g] that by (cases "e = OutOfFuel") auto
  have pre: "keeps (case execute_precompile X ?a cdata g of
       Inl (VMExecutionError c) \<Rightarrow> ret (False, []) | Inl e \<Rightarrow> raise e | Inr (data, used) \<Rightarrow> ret (True, data)) (\<lambda>_. True)"
    using err by (cases "execute_precompile X ?a cdata g")
      (auto intro!: keeps_ret_any safe_raise split: exn.split prod.split)
  show "keeps (if bs = [] then and_then (move_value t sender a v) (\<lambda>ok. ret (ok, []))
      else if is_precompile ?a then
        case execute_precompile X ?a cdata g of
          Inl (VMExecutionError c) \<Rightarrow> ret (False, []) | Inl e \<Rightarrow> raise e | Inr (data, used) \<Rightarrow> ret (True, data)
      else and_then (move_value t sender a v) (\<lambda>ok.
        if \<not> ok then ret (False, [])
        else and_then (on_ctx take_snapshot) (\<lambda>snapshot_id.
          and_then (get_ctx tx_origin) (\<lambda>ori.
          and_then (on_ctx (push_call [])) (\<lambda>pushed.
          if \<not> pushed then ret (False, [])
          else and_then (run_child E snapshot_id (new_call t d a sender ori v g bs cdata st)) (\<lambda>ended.
            case ended of
              None \<Rightarrow> ret (False, [])
            | Some fin \<Rightarrow> and_then (set_ctx pop_call) (\<lambda>_.
                if reverted fin
                then and_then (set_ctx (revert_to_snapshot snapshot_id)) (\<lambda>_. ret (False, out_data fin))
                else ret (True, out_data fin)))))))) (\<lambda>_. True)"
    by (intro safe_if pre safe_and_then_any [OF keeps_move_value [OF v]] keeps_ret_any keeps_bracket [OF E child])
qed


subsection \<open>The call opcodes\<close>

lemma keeps_finish_call: "0 \<le> ro_off \<Longrightarrow> keeps (finish_call ro_off n res) (\<lambda>_. True)"
  unfolding finish_call_def by (rule keeps_rules | simp)+

lemma keeps_fail_call: "keeps fail_call (\<lambda>_. True)"
  unfolding fail_call_def by (rule keeps_rules)+

lemma keeps_at_max_depth: "keeps at_max_depth (\<lambda>_. True)"
  unfolding at_max_depth_def by (rule safe_reads) simp

lemma keeps_reads_any: "keeps (reads f) (\<lambda>_. True)"
  by (rule safe_reads) simp

lemma keeps_account_exists: "keeps (account_exists a) (\<lambda>_. True)"
  unfolding account_exists_def by (rule keeps_rules)+

lemma call_expansion_nonneg: "FI c \<Longrightarrow> 0 \<le> call_expansion a n r m c"
  using FI_ok [of c] expansion_cost_nonneg [of "memory c" a n]
  by (auto simp: call_expansion_def le_max_iff_disj frame_ok_def wf_memory_def)

lemma copy_cost_nonneg: "0 \<le> calldata_copy_cost n"
  by (simp add: calldata_copy_cost_def)

lemma keeps_this_call: "(\<And>c. FI c \<Longrightarrow> keeps (k c) V) \<Longrightarrow> keeps (and_then (get_call (\<lambda>c. c)) k) V"
  by (rule safe_and_then [OF keeps_get_call]) simp_all

definition affordable :: "int \<Rightarrow> bool" where
  "affordable g \<longleftrightarrow> (\<exists>c. FI c \<and> 0 \<le> g \<and> g \<le> gas c)"

lemma forward_bounds: "0 \<le> gas c \<Longrightarrow> 0 \<le> call_gas_to_forward n c \<and> call_gas_to_forward n c \<le> gas c"
  by (auto simp: call_gas_to_forward_def Let_def min_def)

lemma keeps_forward: "keeps (get_call (call_gas_to_forward n)) affordable"
  by (rule keeps_get_call) (use forward_bounds FI_ok in \<open>auto simp: affordable_def frame_ok_def\<close>)

lemma keeps_stipend:
  "affordable f \<Longrightarrow> keeps (get_call (\<lambda>c. if v \<noteq> 0 then min (f + 2300) (gas c) else f)) affordable"
proof (rule keeps_get_call)
  fix c
  assume f: "affordable f" and c: "FI c"
  then have "0 \<le> gas c" using FI_ok by (simp add: frame_ok_def)
  with f c show "affordable (if v \<noteq> 0 then min (f + 2300) (gas c) else f)"
    by (auto simp: affordable_def min_def)
qed

lemma keeps_subcall:
  assumes E: "keeps E (\<lambda>_. True)" and v: "\<not> ro \<or> \<not> moves_value t v" and g: "affordable g" and st: "ro \<longrightarrow> st"
  shows "keeps (execute_subcall X E t sender a v cdata g d st ca) (\<lambda>_. True)"
  using g unfolding affordable_def by (elim exE conjE) (rule keeps_execute_subcall [OF E v _ _ _ st])

lemma keeps_then_poor:
  "(\<And>poor. keeps (k poor) V) \<Longrightarrow> keeps (and_then (reads f) k) V"
  by (rule safe_and_then_any [OF keeps_reads_any])

lemma keeps_value_subcall:
  assumes "keeps E (\<lambda>_. True)" and "affordable g" and "FI c" and "\<not> (static c \<and> v \<noteq> 0)"
  shows "keeps (execute_subcall X E t sender a v cdata g d (static c) ca) (\<lambda>_. True)"
  using assms FI_ro by (intro keeps_subcall) (auto simp: moves_value_def)

lemma keeps_plain_subcall:
  assumes "keeps E (\<lambda>_. True)" and "affordable g" and "FI c"
  shows "keeps (execute_subcall X E DELEGATECALL sender a v cdata g d (static c) ca) (\<lambda>_. True)"
    and "keeps (execute_subcall X E STATICCALL sender a v cdata g d True ca) (\<lambda>_. True)"
  using assms FI_ro by (auto intro!: keeps_subcall simp: moves_value_def)

lemma keeps_surcharge:
  "0 \<le> w \<Longrightarrow> keeps (if v \<noteq> 0 then and_then (account_exists a) (\<lambda>ex. ret (w + 9000 + (if ex then 0 else 25000)))
      else ret w) (\<lambda>g. 0 \<le> g)" for w :: int
  by (intro safe_if safe_and_then_any [OF keeps_account_exists] safe_ret) auto

lemma keeps_then_args:
  "0 \<le> off \<Longrightarrow> 0 \<le> n \<Longrightarrow> (\<And>bs. keeps (k bs) V) \<Longrightarrow> keeps (and_then (on_memory (mem_load_range off n)) k) V"
  by (rule safe_and_then_any [OF keeps_memory(4)])

lemmas keeps_call_rules =
  keeps_pop7 keeps_pop6 keeps_this_call keeps_raise_vm keeps_fail_call keeps_finish_call
  safe_and_then_any [OF keeps_at_max_depth] keeps_then_warm safe_and_then [OF keeps_surcharge] keeps_then_charge
  keeps_then_args safe_and_then [OF keeps_forward] safe_and_then [OF keeps_stipend]
  safe_and_then_any [OF keeps_value_subcall] safe_and_then_any [OF keeps_plain_subcall(1)]
  safe_and_then_any [OF keeps_plain_subcall(2)] keeps_then_poor safe_if

lemma keeps_calls:
  assumes E: "keeps E (\<lambda>_. True)"
  shows "keeps (op_call X E) (\<lambda>_. True)" "keeps (op_callcode X E) (\<lambda>_. True)"
    "keeps (op_delegatecall X E) (\<lambda>_. True)" "keeps (op_staticcall X E) (\<lambda>_. True)"
  unfolding op_call_def op_callcode_def op_delegatecall_def op_staticcall_def Let_def
  by (rule keeps_call_rules E | assumption | intro add_nonneg_nonneg copy_cost_nonneg call_expansion_nonneg | simp)+

subsection \<open>Creations\<close>

text \<open>
  \<open>leads x m\<close>: run between \<open>take_snapshot\<close> in the context \<open>x\<close> and the end of a creation,
  \<open>m\<close> keeps the invariant; when it returns, \<open>x\<close> is related to what it leaves, and when it
  raises, the snapshot is still there to go back to.
\<close>

definition leads :: "execution_context \<Rightarrow> 'a vm \<Rightarrow> bool" where
  "leads x m \<longleftrightarrow> (\<forall>s r t. inv_of X FI CI s \<longrightarrow> CR (snd (take_snapshot x)) (ctx s) \<longrightarrow> m s = (r, t) \<longrightarrow>
     inv_of X FI CI t \<and> same_frame (call s) (call t) \<and>
     (case r of Inl e \<Rightarrow> A e \<and> CR (snd (take_snapshot x)) (ctx t) | Inr v \<Rightarrow> CR x (ctx t)))"

lemma leadsI:
  assumes "\<And>s r t. inv_of X FI CI s \<Longrightarrow> CR (snd (take_snapshot x)) (ctx s) \<Longrightarrow> m s = (r, t) \<Longrightarrow>
     inv_of X FI CI t \<and> same_frame (call s) (call t) \<and>
     (case r of Inl e \<Rightarrow> A e \<and> CR (snd (take_snapshot x)) (ctx t) | Inr v \<Rightarrow> CR x (ctx t))"
  shows "leads x m"
  using assms unfolding leads_def by blast

lemma leadsD:
  assumes "leads x m" and "inv_of X FI CI s" and "CR (snd (take_snapshot x)) (ctx s)" and "m s = (r, t)"
  shows "inv_of X FI CI t" and "same_frame (call s) (call t)"
    and "r = Inl e \<Longrightarrow> A e \<and> CR (snd (take_snapshot x)) (ctx t)" and "r = Inr v \<Longrightarrow> CR x (ctx t)"
  using assms by (auto simp: leads_def)

lemma leads_and_then:
  assumes m: "keeps m V" and k: "\<And>a. V a \<Longrightarrow> leads x (k a)"
  shows "leads x (and_then m k)"
proof (rule leadsI)
  fix s r t
  assume s: "inv_of X FI CI s" "CR (snd (take_snapshot x)) (ctx s)" and run: "and_then m k s = (r, t)"
  obtain q u where q: "m s = (q, u)" by fastforce
  note D = safeD [OF m s(1) q]
  have R: "CR (snd (take_snapshot x)) (ctx u)" and F: "same_frame (call s) (call u)"
    using D(2) CR_trans [OF s(2)] by (simp_all add: rel_of_def)
  show "inv_of X FI CI t \<and> same_frame (call s) (call t) \<and>
     (case r of Inl e \<Rightarrow> A e \<and> CR (snd (take_snapshot x)) (ctx t) | Inr v \<Rightarrow> CR x (ctx t))"
  proof (cases q)
    case (Inl e)
    with run q D R F show ?thesis by (auto simp: and_then_def)
  next
    case (Inr a)
    with run q have "k a u = (r, t)" by (simp add: and_then_def)
    from leadsD [OF k [OF D(4) [OF Inr]] D(1) R this] F show ?thesis
      by (auto intro: same_frame_trans split: sum.splits)
  qed
qed

lemma leads_ret: "CI x \<Longrightarrow> leads x (ret v)"
  by (rule leadsI) (auto simp: ret_def snapshot_rel)

lemma leads_lift_result:
  "CI x \<Longrightarrow> r \<noteq> Inl OutOfFuel \<Longrightarrow> leads x (lift_result r)"
  by (rule leadsI) (auto simp: lift_result_def snapshot_rel intro: raises split: sum.splits)

lemma leads_revert:
  assumes x: "CI x"
  shows "leads x (and_then (set_ctx (revert_to_snapshot (length (snapshots x)))) (\<lambda>_. ret v))"
proof (rule leadsI)
  fix s r t
  let ?i = "length (snapshots x)"
  assume s: "inv_of X FI CI s" "CR (snd (take_snapshot x)) (ctx s)"
    and run: "and_then (set_ctx (revert_to_snapshot ?i)) (\<lambda>_. ret v) s = (r, t)"
  have "CI (ctx s)" using s by (simp add: inv_of_def)
  note y = ctx_revert [OF x this s(2)]
  have upd: "ctx_update f s = s\<lparr>ctx := f (ctx s)\<rparr>" for f by (cases s) simp
  have "r = Inr v" "t = s\<lparr>ctx := revert_to_snapshot ?i (ctx s)\<rparr>"
    using run by (auto simp: and_then_def set_ctx_def modify_def ret_def upd [of "revert_to_snapshot ?i"])
  with y s show "inv_of X FI CI t \<and> same_frame (call s) (call t) \<and>
     (case r of Inl e \<Rightarrow> A e \<and> CR (snd (take_snapshot x)) (ctx t) | Inr v \<Rightarrow> CR x (ctx t))"
    by (auto simp: inv_of_def wf_cache_def)
qed

lemma leads_if: "(b \<Longrightarrow> leads x m) \<Longrightarrow> (\<not> b \<Longrightarrow> leads x n) \<Longrightarrow> leads x (if b then m else n)"
  by simp

lemma leads_catch:
  assumes m: "leads x m" and h: "leads x h"
  shows "leads x (catch_vm m h)"
proof (rule leadsI)
  fix s r t
  assume s: "inv_of X FI CI s" "CR (snd (take_snapshot x)) (ctx s)" and run: "catch_vm m h s = (r, t)"
  obtain q u where q: "m s = (q, u)" by fastforce
  note D = leadsD [OF m s q]
  show "inv_of X FI CI t \<and> same_frame (call s) (call t) \<and>
     (case r of Inl e \<Rightarrow> A e \<and> CR (snd (take_snapshot x)) (ctx t) | Inr v \<Rightarrow> CR x (ctx t))"
  proof (cases "\<exists>c. q = Inl (VMExecutionError c)")
    case True
    with run q have "h u = (r, t)" by (auto simp: catch_vm_def)
    moreover have "CR (snd (take_snapshot x)) (ctx u)" using True D(3) by blast
    ultimately show ?thesis
      using leadsD [OF h D(1)] D(2) by (auto intro: same_frame_trans split: sum.splits)
  next
    case False
    with run q have "r = q" "t = u"
      by (auto simp: catch_vm_def split: sum.splits exn.splits)
    with D show ?thesis by (auto split: sum.splits)
  qed
qed

lemma keeps_snapshot:
  assumes k: "\<And>x. CI x \<Longrightarrow> leads x (k (length (snapshots x)))"
  shows "keeps (and_then (on_ctx take_snapshot) k) (\<lambda>_. True)"
proof (rule safeI)
  fix s r t
  assume s: "inv_of X FI CI s" and run: "and_then (on_ctx take_snapshot) k s = (r, t)"
  let ?x = "ctx s" and ?s = "s\<lparr>ctx := snd (take_snapshot (ctx s))\<rparr>"
  have x: "CI ?x" using s by (simp add: inv_of_def)
  have run': "k (length (snapshots ?x)) ?s = (r, t)"
    using run by (simp add: and_then_def on_ctx_def zoom_def take_snapshot_def)
  from ctx_snapshot [OF x] s have s': "inv_of X FI CI ?s" "CR (snd (take_snapshot ?x)) (ctx ?s)"
    by (auto simp: inv_of_def wf_cache_def CR_refl)
  note D = leadsD [OF k [OF x] s' run']
  show "inv_of X FI CI t \<and> rel_of CR s t \<and> (case r of Inl e \<Rightarrow> A e | Inr v \<Rightarrow> True)"
    using D snapshot_rel [OF x] by (cases r) (auto simp: rel_of_def)
qed

lemma bind_result_Inl: "bind_result r f = Inl e \<longleftrightarrow> r = Inl e \<or> (\<exists>a. r = Inr a \<and> f a = Inl e)"
  by (cases r) (simp_all add: bind_result_def)

lemma create_address_raises:
  "compute_create_address f a n \<noteq> Inl OutOfFuel" "compute_create2_address f a v h \<noteq> Inl OutOfFuel"
proof -
  have "byte_list v \<noteq> Inl OutOfFuel" for v
    by (simp add: byte_list_def)
  then show "compute_create_address f a n \<noteq> Inl OutOfFuel" "compute_create2_address f a v h \<noteq> Inl OutOfFuel"
    by (simp_all add: compute_create_address_def compute_create2_address_def rlp_encode_address_nonce_def Let_def
        rlp_address_def rlp_nonce_def minimal_bytes_def bind_result_Inl fromhex_raises to_bytes_raises)
qed

lemma save_nonces_raises: "fst (save_nonces b t) \<noteq> Inl OutOfFuel"
  by (simp add: save_nonces_def Let_def meth_simps monotonic_def split: option.splits)

lemma save_raises: "fst (maybe_save_nonces t) \<noteq> Inl OutOfFuel"
  by (simp add: maybe_save_nonces_def meth_simps monotonic_def save_nonces_raises)

lemma ctx_increment_nonce_raises: "fst (ctx_increment_nonce a x) \<noteq> Inl OutOfFuel"
  by (simp add: ctx_increment_nonce_def ret_def set_nonce_def raise_def case_prod_beta save_raises split: option.splits)

lemma keeps_new_address:
  assumes mk
  shows "keeps (new_address X bs salt) (\<lambda>_. True)"
proof -
  have nonce: "keeps (on_ctx (ctx_increment_nonce a)) (\<lambda>_. True)" for a
    by (rule keeps_on_ctx_any, erule ctx_nonce [OF assms], rule ctx_increment_nonce_raises)
  show ?thesis
    unfolding new_address_def
    by (cases salt)
      (auto intro!: safe_and_then_any [OF keeps_get_call_any] safe_and_then_any [OF keeps_get_ctx_any]
        safe_and_then_any [OF nonce] safe_lift_result raises simp: create_address_raises)
qed

lemma keeps_mint:
  assumes mk and "0 \<le> g"
  shows "keeps (set_call (gas_update (\<lambda>n. n + g))) (\<lambda>_. True)"
proof (rule safeI)
  fix s r t
  assume s: "inv_of X FI CI s" and run: "set_call (gas_update (\<lambda>n. n + g)) s = (r, t)"
  have upd: "call_update (gas_update (\<lambda>n. n + g)) s = s\<lparr>call := (call s)\<lparr>gas := gas (call s) + g\<rparr>\<rparr>"
    by (cases s) simp
  from run have "r = Inr ()" "t = s\<lparr>call := (call s)\<lparr>gas := gas (call s) + g\<rparr>\<rparr>"
    by (simp_all add: set_call_def modify_def upd)
  with s FI_mint [OF assms(1) _ assms(2), of "call s"]
  show "inv_of X FI CI t \<and> rel_of CR s t \<and> (case r of Inl e \<Rightarrow> A e | Inr v \<Rightarrow> True)"
    by (auto simp: inv_of_def rel_of_def wf_cache_def CR_refl same_frame_def)
qed

lemma leads_deploy:
  assumes E: "keeps E (\<lambda>_. True)" and mk: mk and x: "CI x" and init: "FI init"
  shows "leads x (deploy E (length (snapshots x)) a init)"
  unfolding deploy_def
proof (rule leads_and_then [OF keeps_with_frame [OF E init]])
  fix fin
  assume "FI fin"
  then have gas: "0 \<le> gas fin" using FI_ok by (simp add: frame_ok_def)
  have code: "keeps (set_ctx (set_code a bs)) (\<lambda>_. True)" for bs
    by (rule keeps_set_ctx) (rule ctx_code [OF mk])
  have paid: "keeps (if n \<noteq> 0 then on_call (use_gas n) else ret True) (\<lambda>_. True)" if "0 \<le> n" for n
    using that by (intro safe_if keeps_use_gas keeps_ret_any)
  let ?data = "out_data fin"
  show "leads x (if reverted fin then and_then (set_ctx (revert_to_snapshot (length (snapshots x)))) (\<lambda>_. ret 0)
      else let deployed_code = ?data in
        if int (length deployed_code) > MAX_CODE_SIZE
        then and_then (set_ctx (revert_to_snapshot (length (snapshots x)))) (\<lambda>_. ret 0)
        else let code_deposit_cost = int (length deployed_code) * CODE_DEPOSIT_GAS in
          and_then (if code_deposit_cost \<noteq> 0 then on_call (use_gas code_deposit_cost) else ret True) (\<lambda>paid.
          if \<not> paid then and_then (set_ctx (revert_to_snapshot (length (snapshots x)))) (\<lambda>_. ret 0)
          else and_then (set_ctx (set_code a deployed_code)) (\<lambda>_.
            and_then (set_call (gas_update (\<lambda>g. g + gas fin))) (\<lambda>_. lift_result (parse_int 16 (drop 2 a))))))"
    unfolding Let_def
    by (intro leads_if leads_revert [OF x] leads_and_then [OF paid] leads_and_then [OF code]
        leads_and_then [OF keeps_mint [OF mk gas]] leads_lift_result [OF x] parse_int_raises)
      (simp add: CODE_DEPOSIT_GAS_def)
qed

lemma keeps_execute_create:
  assumes E: "keeps E (\<lambda>_. True)" and mk: mk and v: "0 \<le> v"
  shows "keeps (execute_create X E v icode salt) (\<lambda>_. True)"
proof -
  have init: "FI (new_call t dep a sender ori v (gas c * 63 div 64) bs [] False)"
    if c: "FI c" for c t dep a sender ori bs
  proof (rule FI_create [OF mk c])
    have "0 \<le> gas c" using FI_ok [OF c] by (simp add: frame_ok_def)
    then show "0 \<le> gas c * 63 div 64" "gas c * 63 div 64 \<le> gas c" by simp_all
  qed
  have bracket: "keeps (and_then (on_ctx take_snapshot) (\<lambda>i. catch_vm (deploy E i a c)
      (and_then (set_ctx (revert_to_snapshot i)) (\<lambda>_. ret 0)))) (\<lambda>_. True)" if "FI c" for a c
    using that by (intro keeps_snapshot leads_catch leads_deploy [OF E mk] leads_revert)
  have move: "keeps (if v > 0 then on_ctx (transfer b a v) else ret True) (\<lambda>_. True)" for a b
    using mk_rw [OF mk] v by (intro safe_if keeps_transfer keeps_ret_any)
  show ?thesis
    unfolding execute_create_def Let_def
    by (intro safe_and_then_any [OF keeps_at_max_depth] safe_if keeps_ret_any keeps_this_call
        safe_and_then_any [OF keeps_new_address [OF mk]] safe_and_then_any [OF keeps_read_code_any]
        safe_and_then_any [OF move] bracket init)
qed

lemma keeps_creates:
  assumes E: "keeps E (\<lambda>_. True)" and mk: "mk \<or> ro"
  shows "keeps (op_create X E) (\<lambda>_. True)" "keeps (op_create2 X E) (\<lambda>_. True)"
  unfolding op_create_def op_create2_def
  by (use mk in \<open>intro keeps_static_guard keeps_pop3 keeps_pop4 keeps_then_expansion keeps_then_charge keeps_then_args
        safe_and_then_any [OF keeps_execute_create [OF E]] keeps_push; simp\<close>)+

end

section \<open>The machine\<close>

context evm_inv
begin

subsection \<open>The table and the dispatch\<close>

lemmas keeps_handlers =
  keeps_arithmetic keeps_exp keeps_comparison keeps_keccak keeps_environment keeps_extcodehash keeps_block
  keeps_memory_ops keeps_storage_ops keeps_flow keeps_log keeps_halting

lemma keeps_table:
  assumes E: "keeps E (\<lambda>_. True)"
  shows "list_all (\<lambda>(op, h). op \<notin> {0xF0, 0xF5} \<or> mk \<or> ro \<longrightarrow> keeps h (\<lambda>_. True)) (handlers X E)"
  unfolding handlers_def list.pred_inject prod.case
  by (intro conjI TrueI impI keeps_handlers keeps_calls [OF E] keeps_creates [OF E]) simp_all

lemma keeps_handler:
  assumes "keeps E (\<lambda>_. True)" and "op \<notin> {0xF0, 0xF5} \<or> mk \<or> ro" and "map_of (handlers X E) op = Some h"
  shows "keeps h (\<lambda>_. True)"
proof -
  have "(op, h) \<in> set (handlers X E)"
    using assms(3) by (rule map_of_SomeD)
  with keeps_table [OF assms(1)] assms(2) show ?thesis
    unfolding list_all_iff by blast
qed

lemma keeps_advance: "0 \<le> n \<Longrightarrow> keeps (advance n) (\<lambda>_. True)"
  unfolding advance_def by (rule keeps_frame_updates)

lemma keeps_validate_jump: "keeps (validate_jump dests op) (\<lambda>_. True)"
  unfolding validate_jump_def by (rule keeps_rules)+

lemma keeps_dispatch:
  assumes E: "keeps E (\<lambda>_. True)" and op: "op \<notin> {0xF0, 0xF5} \<or> mk \<or> ro"
  shows "keeps (dispatch X E dests op) (\<lambda>_. True)"
proof (cases "map_of (handlers X E) op")
  case None
  show ?thesis
    unfolding dispatch_def None option.case
    by (intro safe_if keeps_handle_push safe_and_then_any [OF keeps_dup] safe_and_then_any [OF keeps_swap]
        keeps_advance keeps_raise_vm) simp_all
next
  case (Some h)
  show ?thesis
    unfolding dispatch_def Some option.case
    by (intro safe_if keeps_handle_push safe_and_then_any [OF keeps_dup] safe_and_then_any [OF keeps_swap]
        safe_and_then_any [OF keeps_validate_jump] safe_and_then_any [OF keeps_handler [OF E op Some]]
        keeps_advance keeps_ret_any) simp_all
qed

subsection \<open>The counters\<close>

lemma keeps_counters:
  assumes "\<And>s. call (f s) = call s \<and> ctx (f s) = ctx s \<and> jump_dest_cache (f s) = jump_dest_cache s"
  shows "keeps (modify f) (\<lambda>_. True)"
  by (rule safe_modify) (use assms in \<open>simp add: inv_of_def rel_of_def wf_cache_def CR_refl\<close>)

lemma keeps_read_clock: "keeps (read_clock X) (\<lambda>_. True)"
  by (rule safeI) (auto simp: read_clock_def inv_of_def rel_of_def wf_cache_def CR_refl)

lemma keeps_check_limits: "keeps (check_limits X) (\<lambda>_. True)"
  unfolding check_limits_def
  by (intro safe_and_then_any [OF keeps_read_clock] safe_and_then_any [OF keeps_reads_any] safe_if
      keeps_raise_vm keeps_ret_any)

lemma keeps_jump_destinations: "keeps (compute_jump_destinations X bs) (\<lambda>_. True)"
proof (rule safeI)
  fix s r t
  assume s: "inv_of X FI CI s" and run: "compute_jump_destinations X bs s = (r, t)"
  have "wf_cache X t"
    using wf_cache_compute [of X s bs] s run by (simp add: inv_of_def)
  moreover have "call t = call s" "ctx t = ctx s" "\<exists>ds. r = Inr ds"
    using run by (auto simp: compute_jump_destinations_def ret_def Let_def split: if_splits option.splits)
  ultimately show "inv_of X FI CI t \<and> rel_of CR s t \<and> (case r of Inl e \<Rightarrow> A e | Inr v \<Rightarrow> True)"
    using s by (auto simp: inv_of_def rel_of_def CR_refl)
qed

lemma keeps_enter: "keeps (enter X) (\<lambda>_. True)"
  unfolding enter_def
  by (intro safe_and_then_any [OF keeps_read_clock] safe_and_then_any [OF keeps_counters]
      safe_and_then_any [OF keeps_get_call_any] keeps_jump_destinations) simp

subsection \<open>One turn and a whole run\<close>

lemma keeps_step:
  assumes E: "keeps E (\<lambda>_. True)" and op: "mk \<or> ro"
  shows "keeps (step X E dests) (\<lambda>_. True)"
proof -
  have "keeps (case info_of op of None \<Rightarrow> raise (VMExecutionError InvalidOpcode)
      | Some info \<Rightarrow> and_then (charge (gas_cost info)) (\<lambda>_. dispatch X E dests op)) (\<lambda>_. True)" for op
    using info_gas_nonneg [of op] assms
    by (cases "info_of op") (auto intro!: keeps_raise_vm keeps_then_charge keeps_dispatch)
  then show ?thesis
    unfolding step_def
    by (intro safe_and_then_any [OF keeps_check_limits] safe_and_then_any [OF keeps_reads_any]
        safe_and_then_any [OF keeps_counters]) simp_all
qed

text \<open>With fuel the invariant also needs that running out of it is an accepted outcome.\<close>

lemma keeps_loop:
  assumes op: "mk \<or> ro" and fuel: "A OutOfFuel"
  shows "keeps (loop X n dests) (\<lambda>_. True)"
proof (induction n arbitrary: dests)
  case 0
  show ?case by (simp add: safe_raise fuel)
next
  case (Suc n)
  have "keeps (execute X n) (\<lambda>_. True)"
    unfolding execute_def by (intro safe_and_then_any [OF keeps_enter] Suc.IH)
  then show ?case
    unfolding loop_Suc
    by (intro safe_and_then_any [OF keeps_reads_any] safe_if keeps_ret_any
        safe_and_then_any [OF keeps_step] Suc.IH op)
qed

lemma keeps_execute: "mk \<or> ro \<Longrightarrow> A OutOfFuel \<Longrightarrow> keeps (execute X n) (\<lambda>_. True)"
  unfolding execute_def by (intro safe_and_then_any [OF keeps_enter] keeps_loop)

end

end
