(* ===== verification/EvmSample.thy ===== *)
theory EvmSample
  imports EvmCalls
begin

text \<open>
  A concrete library record, block, chain and machine, on which the theorems of the other
  theories are applied. Every account of the chain has 100; the hash functions are total
  functions without the properties of real hashes, which no theorem uses here.
\<close>

definition sample_lib :: externals where
  "sample_lib = \<lparr>sha3_256 = (\<lambda>bs. zeros 31 @ [1]), sha256 = (\<lambda>bs. bs), ripemd160 = (\<lambda>bs. zeros 20), clock = (\<lambda>n. 0),
    bn128 = \<lparr>bn_available = False, bn_FQ = (\<lambda>v. v), bn_on_curve = (\<lambda>p. False), bn_on_curve_no_b = (\<lambda>p. Inr False),
      bn_on_curve2 = (\<lambda>p. False), bn_add = (\<lambda>p q. None), bn_multiply = (\<lambda>p n. None), bn_order = 1,
      bn_pairing = (\<lambda>q p. []), bn_times12 = (\<lambda>a b. a), bn_one12 = []\<rparr>,
    kzg = \<lparr>kz_available = False, kz_decompress_G1 = (\<lambda>n. Inl ValueError), kz_decompress_G2 = (\<lambda>n. Inl ValueError),
      kz_G1 = [], kz_G2 = [], kz_add = (\<lambda>p q. p), kz_multiply = (\<lambda>p n. p), kz_neg = (\<lambda>p. p), kz_order = 1,
      kz_pairing = (\<lambda>p q. [])\<rparr>\<rparr>"

definition sample_block :: block_context where
  "sample_block = \<lparr>block_number = 1, block_timestamp = 0, block_gas_limit = 30000000, coinbase = ''0x00'',
     prevrandao = 0, base_fee = 0, chain_id = 1, blob_base_fee = 0\<rparr>"

definition sample_chain :: "(string \<times> contract_record) list \<Rightarrow> chain" where
  "sample_chain cs = \<lparr>contracts = cs, chain_balance = (\<lambda>a. 100), tracker = new_tracker NoFile (\<lambda>n. 0) (\<lambda>n. None)\<rparr>"

definition code_entry :: "string \<Rightarrow> byte list \<Rightarrow> string \<times> contract_record" where
  "code_entry a bs = (a, \<lparr>c_code = Some (CodeBytes bs), c_storage = [], c_type = None, c_metadata = None\<rparr>)"

definition sample_call :: "int \<Rightarrow> byte list \<Rightarrow> bool \<Rightarrow> call_context" where
  "sample_call g bs st = new_call CALL 0 ''0xAA'' ''0xBB'' ''0xBB'' 0 g bs [] st"

definition sample_machine :: "call_context \<Rightarrow> (string \<times> contract_record) list \<Rightarrow> machine" where
  "sample_machine c cs = new_machine c (new_context sample_block ''0xBB'' 1 100000 0 (Some (sample_chain cs)))"

end
