(* ===== verification/EvmWorld.thy ===== *)
theory EvmWorld
  imports EvmInvariants EvmSample "HOL-Library.Sublist"
begin

text \<open>
  Well-formed machines and what every run keeps: the frame, the storages and the cache
  stay well formed, no balance becomes negative, value is neither made nor lost, logs and
  snapshots only grow between a snapshot and its revert, and a subcall that fails gives the
  world back. The locale \<open>evm_inv\<close> is interpreted on the code's own definitions.
\<close>

section \<open>Balances\<close>

definition chain_view :: "execution_context \<Rightarrow> string \<Rightarrow> int" where
  "chain_view x a = (case blockchain x of Some bc \<Rightarrow> chain_balance bc a | None \<Rightarrow> 0)"

text \<open>What the changed balances add to the chain's, as a sum.\<close>

definition net_change :: "(string \<Rightarrow> int) \<Rightarrow> (string \<times> int) list \<Rightarrow> int" where
  "net_change bal bs = (\<Sum>(a, b)\<leftarrow>bs. b - bal a)"

definition balances_ok :: "(string \<Rightarrow> int) \<Rightarrow> (string \<times> int) list \<Rightarrow> bool" where
  "balances_ok bal bs \<longleftrightarrow> distinct (map fst bs) \<and> (\<forall>e \<in> set bs. 0 \<le> snd e) \<and> net_change bal bs = 0"

definition read_balance :: "(string \<Rightarrow> int) \<Rightarrow> (string \<times> int) list \<Rightarrow> string \<Rightarrow> int" where
  "read_balance bal bs a = (case map_of bs a of Some b \<Rightarrow> b | None \<Rightarrow> bal a)"

lemma get_balance_read: "get_balance a x = read_balance (chain_view x) (balance_changes x) a"
  by (simp add: get_balance_def read_balance_def chain_view_def split: option.splits)

lemma net_change_update: "net_change bal (AList.update a b bs) = net_change bal bs + (b - read_balance bal bs a)"
  by (induction bs) (auto simp: net_change_def read_balance_def)

lemma read_balance_nonneg: "balances_ok bal bs \<Longrightarrow> 0 \<le> bal a \<Longrightarrow> 0 \<le> read_balance bal bs a"
  by (auto simp: balances_ok_def read_balance_def split: option.splits dest!: map_of_SomeD)

lemma nonneg_update: "\<forall>e \<in> set bs. 0 \<le> snd e \<Longrightarrow> 0 \<le> c \<Longrightarrow> \<forall>e \<in> set (AList.update b c bs). 0 \<le> (snd e :: int)"
  by (induction bs) auto

lemma balances_ok_move:
  assumes ok: "balances_ok bal bs" and bal: "\<And>c. 0 \<le> bal c" and v: "0 \<le> v" "v \<le> read_balance bal bs a"
  defines "bs1 \<equiv> AList.update a (read_balance bal bs a - v) bs"
  shows "balances_ok bal (AList.update b (read_balance bal bs1 b + v) bs1)"
proof -
  have pos1: "\<forall>e \<in> set bs1. 0 \<le> snd e"
    unfolding bs1_def by (rule nonneg_update) (use ok v in \<open>simp_all add: balances_ok_def\<close>)
  then have "0 \<le> read_balance bal bs1 b"
    using bal by (auto simp: read_balance_def split: option.splits dest!: map_of_SomeD)
  then have "\<forall>e \<in> set (AList.update b (read_balance bal bs1 b + v) bs1). 0 \<le> snd e"
    using v by (intro nonneg_update pos1) simp
  with ok show ?thesis
    by (simp add: balances_ok_def bs1_def distinct_update net_change_update)
qed

text \<open>The changes in a sum over all accounts concerned.\<close>

lemma sum_read_balance:
  assumes "distinct (map fst bs)" and "finite S" and "fst ` set bs \<subseteq> S"
  shows "(\<Sum>a\<in>S. read_balance bal bs a) = (\<Sum>a\<in>S. bal a) + net_change bal bs"
  using assms
proof (induction bs)
  case Nil
  show ?case by (simp add: read_balance_def net_change_def)
next
  case (Cons e bs)
  obtain a b where e: "e = (a, b)" by fastforce
  have IH: "(\<Sum>c\<in>S. read_balance bal bs c) = (\<Sum>c\<in>S. bal c) + net_change bal bs"
    using Cons by auto
  have a: "a \<in> S" and fresh: "map_of bs a = None"
    using Cons.prems e by (auto simp: map_of_eq_None_iff)
  have new: "read_balance bal (e # bs) = (read_balance bal bs)(a := b)"
    by (rule ext) (simp add: read_balance_def e)
  have old: "read_balance bal bs a = bal a"
    using fresh by (simp add: read_balance_def)
  have "(\<Sum>c\<in>S. read_balance bal (e # bs) c) = b + (\<Sum>c\<in>S - {a}. read_balance bal bs c)"
    unfolding new using sum.remove [OF Cons.prems(2) a, of "(read_balance bal bs)(a := b)"] by simp
  also have "\<dots> = b - bal a + (\<Sum>c\<in>S. read_balance bal bs c)"
    using sum.remove [OF Cons.prems(2) a, of "read_balance bal bs"] old by simp
  finally show ?case
    by (simp add: IH net_change_def e)
qed

section \<open>Well-formed contexts\<close>

definition wf_context :: "execution_context \<Rightarrow> bool" where
  "wf_context x \<longleftrightarrow> (\<forall>e \<in> set (storage x). wf_storage (snd e)) \<and> (\<forall>a. 0 \<le> chain_view x a)
     \<and> balances_ok (chain_view x) (balance_changes x)
     \<and> (\<forall>sn \<in> set (snapshots x). balances_ok (chain_view x) (sn_balance_changes sn))"

text \<open>\<open>y\<close> comes after \<open>x\<close>: the chain's balances are the same, snapshots and logs are only added.\<close>

definition context_after :: "execution_context \<Rightarrow> execution_context \<Rightarrow> bool" where
  "context_after x y \<longleftrightarrow> chain_view y = chain_view x \<and> prefix (snapshots x) (snapshots y)
     \<and> prefix (logs x) (logs y)"

text \<open>What \<open>take_snapshot\<close> records and \<open>revert_to_snapshot\<close> puts back.\<close>

definition world :: "execution_context \<Rightarrow> (string \<times> int) list \<times> string set \<times> string set \<times> int \<times> evm_log list" where
  "world x = (balance_changes x, created_accounts x, destroyed_accounts x, gas_refund x, logs x)"

lemma context_after_refl [simp]: "context_after x x"
  by (simp add: context_after_def)

lemma context_after_trans: "context_after x y \<Longrightarrow> context_after y z \<Longrightarrow> context_after x z"
  by (auto simp: context_after_def intro: prefix_order.trans)

lemma chain_view_frame [simp]:
  "chain_view (x\<lparr>accessed_addresses := W\<rparr>) = chain_view x" "chain_view (x\<lparr>call_stack := fs\<rparr>) = chain_view x"
  "chain_view (x\<lparr>snapshots := sns\<rparr>) = chain_view x" "chain_view (x\<lparr>storage := ss\<rparr>) = chain_view x"
  "chain_view (x\<lparr>gas_refund := r\<rparr>) = chain_view x" "chain_view (x\<lparr>transient_store := ts\<rparr>) = chain_view x"
  "chain_view (x\<lparr>logs := ls\<rparr>) = chain_view x" "chain_view (x\<lparr>destroyed_accounts := D\<rparr>) = chain_view x"
  "chain_view (x\<lparr>balance_changes := bs\<rparr>) = chain_view x" "chain_view (x\<lparr>created_accounts := C\<rparr>) = chain_view x"
  by (simp_all add: chain_view_def fun_eq_iff)

lemma revert_world:
  assumes "context_after (snd (take_snapshot x)) y"
  shows "world (revert_to_snapshot (length (snapshots x)) y) = world x"
    and "snapshots (revert_to_snapshot (length (snapshots x)) y) = snapshots x"
    and "chain_view (revert_to_snapshot (length (snapshots x)) y) = chain_view x"
    and "storage (revert_to_snapshot (length (snapshots x)) y) = storage y"
proof -
  obtain sns ls where y: "chain_view y = chain_view x" "logs y = logs x @ ls"
    "snapshots y = snapshots x @ [\<lparr>sn_balance_changes = balance_changes x, sn_created_accounts = created_accounts x,
      sn_destroyed_accounts = destroyed_accounts x, sn_logs_count = length (logs x),
      sn_gas_refund = gas_refund x\<rparr>] @ sns"
    using assms by (auto simp: context_after_def take_snapshot_def elim!: prefixE)
  then show "world (revert_to_snapshot (length (snapshots x)) y) = world x"
    and "snapshots (revert_to_snapshot (length (snapshots x)) y) = snapshots x"
    and "chain_view (revert_to_snapshot (length (snapshots x)) y) = chain_view x"
    and "storage (revert_to_snapshot (length (snapshots x)) y) = storage y"
    by (simp_all add: revert_to_snapshot_def Let_def nth_append world_def)
qed

section \<open>The laws of the interface\<close>

lemma wf_contextD:
  assumes "wf_context x"
  shows "e \<in> set (storage x) \<Longrightarrow> wf_storage (snd e)" and "0 \<le> chain_view x a"
    and "balances_ok (chain_view x) (balance_changes x)" and "0 \<le> get_balance a x"
  using assms by (auto simp: wf_context_def get_balance_read intro: read_balance_nonneg)

lemma wf_frame:
  "wf_context x \<Longrightarrow> wf_context (x\<lparr>accessed_addresses := W\<rparr>) \<and> context_after x (x\<lparr>accessed_addresses := W\<rparr>)"
  "wf_context x \<Longrightarrow> wf_context (x\<lparr>call_stack := fs\<rparr>) \<and> context_after x (x\<lparr>call_stack := fs\<rparr>)"
  "wf_context x \<Longrightarrow> wf_context (x\<lparr>gas_refund := r\<rparr>) \<and> context_after x (x\<lparr>gas_refund := r\<rparr>)"
  "wf_context x \<Longrightarrow> wf_context (x\<lparr>transient_store := ts\<rparr>) \<and> context_after x (x\<lparr>transient_store := ts\<rparr>)"
  "wf_context x \<Longrightarrow> wf_context (x\<lparr>destroyed_accounts := D\<rparr>) \<and> context_after x (x\<lparr>destroyed_accounts := D\<rparr>)"
  by (simp_all add: wf_context_def context_after_def)

lemma wf_take_snapshot:
  "wf_context x \<Longrightarrow> wf_context (snd (take_snapshot x)) \<and> context_after x (snd (take_snapshot x))"
  by (simp add: wf_context_def context_after_def take_snapshot_def)

lemma wf_revert:
  assumes x: "wf_context x" and y: "wf_context y" and R: "context_after (snd (take_snapshot x)) y"
  shows "wf_context (revert_to_snapshot (length (snapshots x)) y)
    \<and> context_after x (revert_to_snapshot (length (snapshots x)) y)"
  using x y revert_world [OF R] by (simp add: wf_context_def context_after_def world_def)

lemma wf_update_storage:
  assumes x: "wf_context x" and s: "wf_storage s"
  shows "wf_context (x\<lparr>storage := AList.update a s (storage x)\<rparr>)
    \<and> context_after x (x\<lparr>storage := AList.update a s (storage x)\<rparr>)"
  using assms set_update_subset [of a s "storage x"] by (auto simp: wf_context_def context_after_def)

lemma wf_on_storage:
  assumes x: "wf_context x" and m: "\<And>s. wf_storage s \<Longrightarrow> wf_storage (snd (m s))"
  shows "wf_context (snd (on_storage a m x)) \<and> context_after x (snd (on_storage a m x))"
proof -
  have "wf_storage (case map_of (storage x) a of Some s \<Rightarrow> s | None \<Rightarrow> new_storage a)"
    using x by (auto split: option.splits dest!: map_of_SomeD wf_contextD(1))
  then show ?thesis
    unfolding on_storage_def by (simp add: case_prod_beta wf_update_storage [OF x] m)
qed

lemma wf_load_slots: "wf_storage s \<Longrightarrow> wf_storage (snd (load_slots kvs s))"
proof (induction kvs arbitrary: s)
  case (Cons kv kvs)
  then show ?case
    by (cases "parse_key (fst kv)") (simp_all add: meth_simps wf_storage_set_raw)
qed (simp add: ret_def)

lemma wf_get_storage:
  assumes x: "wf_context x"
  shows "wf_context (snd (get_storage a x)) \<and> context_after x (snd (get_storage a x))"
proof -
  let ?y = "x\<lparr>storage := AList.update a (new_storage a) (storage x)\<rparr>"
  have y: "wf_context ?y" "context_after x ?y"
    using wf_update_storage [OF x wf_new_storage] by auto
  have "wf_context (snd (load_storage_from_chain a ?y)) \<and> context_after ?y (snd (load_storage_from_chain a ?y))"
    using y(1) wf_on_storage [OF y(1) wf_load_slots]
    by (simp add: load_storage_from_chain_def ret_def split: option.splits)
  with y(2) x show ?thesis
    by (auto simp: get_storage_def ret_def intro: context_after_trans)
qed

lemma wf_transfer:
  assumes x: "wf_context x" and v: "0 \<le> v"
  shows "wf_context (snd (transfer a b v x)) \<and> context_after x (snd (transfer a b v x))"
proof (cases "get_balance a x < v")
  case False
  let ?bs1 = "AList.update a (read_balance (chain_view x) (balance_changes x) a - v) (balance_changes x)"
  have "snd (transfer a b v x) = x\<lparr>balance_changes := AList.update b (read_balance (chain_view x) ?bs1 b + v) ?bs1\<rparr>"
    using False by (simp add: transfer_def Let_def set_balance_def get_balance_read)
  moreover have "balances_ok (chain_view x) (AList.update b (read_balance (chain_view x) ?bs1 b + v) ?bs1)"
    using wf_contextD [OF x] v False by (intro balances_ok_move) (simp_all add: get_balance_read)
  ultimately show ?thesis
    using x by (simp add: wf_context_def context_after_def)
qed (simp add: transfer_def x)

lemma wf_add_log: "wf_context x \<Longrightarrow> wf_context (add_log l x) \<and> context_after x (add_log l x)"
  by (simp add: wf_context_def context_after_def add_log_def split: list.splits)

lemma chain_view_creation:
  "chain_view (snd (ctx_increment_nonce a x)) = chain_view x" "chain_view (set_code a bs x) = chain_view x"
  by (auto simp: chain_view_def ctx_increment_nonce_def set_code_def ret_def Let_def fun_eq_iff split: option.splits prod.splits)

lemma creation_frame:
  "storage (snd (ctx_increment_nonce a x)) = storage x" "storage (set_code a bs x) = storage x"
  "balance_changes (snd (ctx_increment_nonce a x)) = balance_changes x" "balance_changes (set_code a bs x) = balance_changes x"
  "snapshots (snd (ctx_increment_nonce a x)) = snapshots x" "snapshots (set_code a bs x) = snapshots x"
  "logs (snd (ctx_increment_nonce a x)) = logs x" "logs (set_code a bs x) = logs x"
  by (auto simp: ctx_increment_nonce_def set_code_def ret_def Let_def split: option.splits prod.splits)

lemma wf_creation:
  "wf_context x \<Longrightarrow> wf_context (snd (ctx_increment_nonce a x)) \<and> context_after x (snd (ctx_increment_nonce a x))"
  "wf_context x \<Longrightarrow> wf_context (set_code a bs x) \<and> context_after x (set_code a bs x)"
  by (simp_all add: wf_context_def context_after_def chain_view_creation creation_frame)

lemma frame_ok_mint: "frame_ok c \<Longrightarrow> 0 \<le> g \<Longrightarrow> frame_ok (c\<lparr>gas := gas c + g\<rparr>)"
  by (simp add: frame_ok_def)

text \<open>The interface on the code's frames and contexts, creations included.\<close>

interpretation wf: evm_inv X frame_ok wf_context context_after "\<lambda>_. True" False True for X
  by unfold_locales
    (auto simp: frame_ok_new_call wf_frame wf_take_snapshot wf_revert wf_get_storage wf_on_storage wf_storage_load
      wf_storage_store wf_transfer wf_add_log wf_creation frame_ok_mint intro: context_after_trans)

section \<open>Machines\<close>

definition machine_ok :: "externals \<Rightarrow> machine \<Rightarrow> bool" where
  "machine_ok X s \<longleftrightarrow> frame_ok (call s) \<and> wf_context (ctx s) \<and> wf_cache X s"

lemma machine_ok_inv: "machine_ok X s \<longleftrightarrow> inv_of X frame_ok wf_context s"
  by (simp add: machine_ok_def inv_of_def)

lemma wf_execute:
  assumes "machine_ok X s" and "execute X n s = (r, t)"
  shows "machine_ok X t" and "context_after (ctx s) (ctx t)" and "same_frame (call s) (call t)"
  using safeD(1,2) [OF wf.keeps_execute [of X n] _ assms(2)] assms(1)
  by (auto simp: machine_ok_inv rel_of_def)

text \<open>The sum of the balances of a set of accounts.\<close>

definition total_balance :: "string set \<Rightarrow> execution_context \<Rightarrow> int" where
  "total_balance S x = (\<Sum>a\<in>S. get_balance a x)"

lemma total_balance_chain:
  assumes "wf_context x" and "finite S" and "fst ` set (balance_changes x) \<subseteq> S"
  shows "total_balance S x = (\<Sum>a\<in>S. chain_view x a)"
  using wf_contextD(3) [OF assms(1)] assms(2,3)
  by (simp add: total_balance_def get_balance_read sum_read_balance balances_ok_def)

section \<open>A subcall that fails\<close>

lemma run_child_world:
  assumes c: "frame_ok c" and s: "machine_ok X s" and x: "wf_context x"
    and snap: "context_after (snd (take_snapshot x)) (ctx s)"
    and run: "run_child (execute X n) (length (snapshots x)) c s = (r, t)"
  shows "r = Inr None \<Longrightarrow> world (ctx t) = world x"
    and "r = Inr (Some fin) \<Longrightarrow> context_after (snd (take_snapshot x)) (ctx t)"
proof -
  have E: "wf.keeps X (execute X n) (\<lambda>_. True)" by (rule wf.keeps_execute) simp_all
  from wf.run_child_keeps [OF E c x _ snap run] s
  show "r = Inr (Some fin) \<Longrightarrow> context_after (snd (take_snapshot x)) (ctx t)"
    by (simp add: machine_ok_inv wf.after_child_def)
  obtain q u where q: "execute X n (s\<lparr>call := c\<rparr>) = (q, u)" by fastforce
  have "machine_ok X (s\<lparr>call := c\<rparr>)"
    using s c by (simp add: machine_ok_def wf_cache_def)
  from wf_execute(2) [OF this q] snap have "context_after (snd (take_snapshot x)) (ctx u)"
    by (auto intro: context_after_trans)
  from revert_world(1) [OF this] have "world (pop_call (revert_to_snapshot (length (snapshots x)) (ctx u))) = world x"
    by (simp add: pop_call_def world_def)
  then show "r = Inr None \<Longrightarrow> world (ctx t) = world x"
    using run q by (auto simp: run_child_eval split: sum.splits exn.splits)
qed

text \<open>The statements of \<open>execute_subcall\<close> from the snapshot on.\<close>

lemma bracket_failure:
  assumes child: "\<And>ori. frame_ok (child ori)" and s: "machine_ok X s"
    and run: "and_then (on_ctx take_snapshot) (\<lambda>snapshot_id.
      and_then (get_ctx tx_origin) (\<lambda>ori.
      and_then (on_ctx (push_call [])) (\<lambda>pushed.
      if \<not> pushed then ret (False, [])
      else and_then (run_child (execute X n) snapshot_id (child ori)) (\<lambda>ended.
        case ended of
          None \<Rightarrow> ret (False, [])
        | Some fin \<Rightarrow> and_then (set_ctx pop_call) (\<lambda>_.
            if reverted fin
            then and_then (set_ctx (revert_to_snapshot snapshot_id)) (\<lambda>_. ret (False, out_data fin))
            else ret (True, out_data fin)))))) s = (Inr (False, data), t)"
  shows "world (ctx t) = world (ctx s)"
proof (cases "int (length (call_stack (ctx s))) \<ge> max_call_depth (ctx s)")
  case True
  with run show ?thesis
    by (auto simp: and_then_def on_ctx_def zoom_def take_snapshot_def get_ctx_def reads_def push_call_def ret_def world_def)
next
  case False
  let ?x = "ctx s" and ?i = "length (snapshots (ctx s))"
  let ?x2 = "(snd (take_snapshot ?x))\<lparr>call_stack := [] # call_stack ?x\<rparr>"
  let ?s2 = "s\<lparr>ctx := ?x2\<rparr>"
  have x: "wf_context ?x" using s by (simp add: machine_ok_def)
  have s2: "machine_ok X ?s2" "context_after (snd (take_snapshot ?x)) (ctx ?s2)"
    using s wf_take_snapshot [OF x] wf_frame(2) [of "snd (take_snapshot ?x)" "[] # call_stack ?x"]
    by (simp_all add: machine_ok_def wf_cache_def)
  obtain q u where q: "run_child (execute X n) ?i (child (tx_origin ?x)) ?s2 = (q, u)" by fastforce
  have upd: "ctx_update f u = u\<lparr>ctx := f (ctx u)\<rparr>" for f by (cases u) simp
  note W = run_child_world [OF child s2(1) x s2(2) q]
  have run': "(case q of Inl e \<Rightarrow> (Inl e, u) | Inr ended \<Rightarrow>
      (case ended of
         None \<Rightarrow> ret (False, [])
       | Some fin \<Rightarrow> and_then (set_ctx pop_call) (\<lambda>_.
           if reverted fin then and_then (set_ctx (revert_to_snapshot ?i)) (\<lambda>_. ret (False, out_data fin))
           else ret (True, out_data fin))) u) = (Inr (False, data), t)"
    using run False q
    by (simp add: and_then_def on_ctx_def zoom_def take_snapshot_def get_ctx_def reads_def push_call_def
        split: sum.splits)
  show ?thesis
  proof (cases q)
    case (Inl e)
    with run' show ?thesis by simp
  next
    case (Inr ended)
    show ?thesis
    proof (cases ended)
      case None
      with run' Inr W(1) show ?thesis by (simp add: ret_def)
    next
      case (Some fin)
      with run' Inr have "reverted fin" and t: "t = u\<lparr>ctx := revert_to_snapshot ?i (pop_call (ctx u))\<rparr>"
        by (simp_all add: and_then_def set_ctx_def modify_def ret_def upd [of pop_call]
            upd [of "revert_to_snapshot ?i \<circ> pop_call"] comp_def split: if_splits)
      have "context_after (snd (take_snapshot ?x)) (pop_call (ctx u))"
        using W(2) Inr Some by (simp add: pop_call_def context_after_def)
      from revert_world(1) [OF this] t show ?thesis by simp
    qed
  qed
qed

lemma read_code_run: "read_code a s = (get_code a (ctx s), s)"
  by (simp add: read_code_def get_ctx_def reads_def and_then_def lift_result_def)

lemma move_value_ok:
  assumes "machine_ok X s" and "move_value t a b v s = (r, u)"
  shows "machine_ok X u" and "\<exists>ok. r = Inr ok"
  using assms wf_transfer [of "ctx s" v a b]
  by (auto simp: move_value_def on_ctx_def zoom_def moves_value_def transfer_def ret_def machine_ok_def wf_cache_def
      Let_def split: if_splits prod.splits)

lemma move_value_none: "\<not> moves_value t v \<Longrightarrow> move_value t a b v = ret True"
  by (simp add: move_value_def)

lemma move_value_False: "move_value t a b v s = (Inr False, u) \<Longrightarrow> u = s"
  by (auto simp: move_value_def on_ctx_def zoom_def transfer_def ret_def Let_def split: if_splits prod.splits)

definition code_source :: "string \<Rightarrow> string option \<Rightarrow> string" where
  "code_source a ca = (case ca of Some c \<Rightarrow> if c \<noteq> [] then c else a | None \<Rightarrow> a)"

text \<open>A callee with code that is no precompile: the world after the failure is the one after the transfer.\<close>

lemma code_failure:
  assumes s: "machine_ok X s" and g: "0 \<le> g"
    and bs: "get_code (code_source a ca) (ctx s) = Inr bs" "bs \<noteq> []" and pre: "\<not> is_precompile (code_source a ca)"
    and run: "execute_subcall X (execute X n) t sender a v cdata g d st ca s = (Inr (False, data), u)"
  shows "world (ctx u) = world (ctx (snd (move_value t sender a v s)))"
proof -
  obtain r w where move: "move_value t sender a v s = (r, w)" by fastforce
  from move_value_ok [OF s move] obtain ok where w: "machine_ok X w" and r: "r = Inr ok" by auto
  note run' = run [unfolded execute_subcall_def Let_def code_source_def [symmetric], unfolded and_then_def [of "read_code _"],
      unfolded read_code_run bs(1) prod.case sum.case]
  show ?thesis
  proof (cases ok)
    case False
    with run' move r bs pre show ?thesis by (auto simp: and_then_def ret_def dest: move_value_False)
  next
    case True
    with run' move r bs pre have "world (ctx u) = world (ctx w)"
      by (intro bracket_failure [OF frame_ok_new_call [OF g] w]) (simp add: and_then_def [of "move_value _ _ _ _"])
    with move show ?thesis by simp
  qed
qed

lemma valueless_failure:
  assumes s: "machine_ok X s" and g: "0 \<le> g" and v: "\<not> moves_value t v"
    and run: "execute_subcall X (execute X n) t sender a v cdata g d st ca s = (Inr (False, data), u)"
  shows "world (ctx u) = world (ctx s)"
proof -
  let ?a = "code_source a ca"
  obtain bs where bs: "get_code ?a (ctx s) = Inr bs"
    using run unfolding execute_subcall_def Let_def code_source_def [symmetric]
    by (cases "get_code ?a (ctx s)") (simp_all add: and_then_def read_code_run)
  note run' = run [unfolded execute_subcall_def Let_def code_source_def [symmetric], unfolded and_then_def [of "read_code _"],
      unfolded read_code_run bs prod.case sum.case]
  consider "bs = []" | "bs \<noteq> []" "is_precompile ?a" | "bs \<noteq> []" "\<not> is_precompile ?a" by blast
  then show ?thesis
  proof cases
    case 1
    with run' show ?thesis by (simp add: move_value_none [OF v] ret_def)
  next
    case 2
    with run' have "u = s"
      by (auto simp: ret_def raise_def split: sum.splits exn.splits prod.splits)
    then show ?thesis by simp
  next
    case 3
    from code_failure [OF s g bs this run] show ?thesis
      by (simp add: move_value_none [OF v] ret_def)
  qed
qed

lemma subcall_chain_view:
  assumes s: "machine_ok X s" and g: "0 \<le> g"
    and run: "execute_subcall X (execute X n) t sender a v cdata g d st ca s = (r, u)"
  shows "chain_view (ctx u) = chain_view (ctx s)"
proof -
  have E: "wf.keeps X (execute X n) (\<lambda>_. True)" by (rule wf.keeps_execute) simp_all
  have "wf.keeps X (execute_subcall X (execute X n) t sender a v cdata g d st ca) (\<lambda>_. True)"
    by (rule wf.keeps_execute_subcall [OF E _ frame_ok_new_call [OF g, of t d a sender sender v "[]" cdata st] g])
      (simp_all add: new_call_def)
  from safeD(2) [OF this _ run] s show ?thesis
    by (simp add: machine_ok_inv rel_of_def context_after_def)
qed

section \<open>Properties\<close>

lemma wf_new_context:
  "(\<And>bc a. chain = Some bc \<Longrightarrow> 0 \<le> chain_balance bc a) \<Longrightarrow> wf_context (new_context blk ori p l v chain)"
  by (simp add: wf_context_def new_context_def chain_view_def balances_ok_def net_change_def split: option.splits)

lemma sample_ok: "0 \<le> g \<Longrightarrow> machine_ok sample_lib (sample_machine (sample_call g bs st) cs)"
  by (auto simp: machine_ok_def sample_machine_def sample_call_def new_machine_def frame_ok_new_call
      sample_chain_def wf_cache_def intro!: wf_new_context)

text \<open>
  C10: Every run of \<open>execute\<close>, whatever the code and however it ends, keeps the machine well
  formed: stack values are words and at most 1024, memory is within its limit, gas and
  program counter are not negative, storage holds words, every cached jump set is right for
  the code of its hash. A run leaves its frame's fixed fields and the chain's balances, and
  adds snapshots and logs only at the end.
\<close>

theorem execute_keeps_machine_ok:
  assumes "machine_ok X s" and "execute X n s = (r, t)"
  shows "machine_ok X t \<and> same_frame (call s) (call t) \<and> context_after (ctx s) (ctx t)"
  using wf_execute [OF assms] by blast

theorem execute_keeps_machine_ok_witness:
  "machine_ok sample_lib (snd (execute sample_lib 4 (sample_machine (sample_call 100 [0x60, 5, 0x00] False) [])))
    \<and> fst (execute sample_lib 4 (sample_machine (sample_call 100 [0x60, 5, 0x00] False) [])) = Inr ()"
proof
  show "machine_ok sample_lib (snd (execute sample_lib 4 (sample_machine (sample_call 100 [0x60, 5, 0x00] False) [])))"
    using execute_keeps_machine_ok [OF sample_ok [of 100] prod.collapse [symmetric]] by simp
  show "fst (execute sample_lib 4 (sample_machine (sample_call 100 [0x60, 5, 0x00] False) [])) = Inr ()"
    by code_simp
qed

text \<open>
  C11: A run neither makes nor loses value: over any finite set of accounts that covers the
  changed balances, the sum of the balances is the same before and after, whatever calls,
  creations, reverts and errors happen in between, and no balance is negative.
\<close>

theorem execute_conserves_value:
  assumes "machine_ok X s" and "execute X n s = (r, t)" and "finite S"
    and "fst ` set (balance_changes (ctx s)) \<subseteq> S" and "fst ` set (balance_changes (ctx t)) \<subseteq> S"
  shows "total_balance S (ctx t) = total_balance S (ctx s) \<and> 0 \<le> get_balance a (ctx t)"
proof -
  have x: "wf_context (ctx s)" and y: "wf_context (ctx t)" and "chain_view (ctx t) = chain_view (ctx s)"
    using assms(1) wf_execute [OF assms(1,2)] by (simp_all add: machine_ok_def context_after_def)
  then show ?thesis
    using total_balance_chain [OF x assms(3,4)] total_balance_chain [OF y assms(3,5)] wf_contextD(4) [OF y]
    by simp
qed

text \<open>
  C12: A subcall without value that fails, by an error or by REVERT, whatever it and the
  subcalls inside it did, leaves balances, created and destroyed accounts, the refund counter
  and the logs as they were.
\<close>

theorem subcall_failure_restores_world:
  assumes "machine_ok X s" and "0 \<le> g" and "\<not> moves_value t v"
    and "execute_subcall X (execute X n) t sender a v cdata g d st ca s = (Inr (False, data), u)"
  shows "world (ctx u) = world (ctx s)"
  by (rule valueless_failure [OF assms])

theorem subcall_failure_restores_world_witness:
  "world (ctx (snd (execute_subcall sample_lib (execute sample_lib 5) STATICCALL ''0xAA'' ''0xCC'' 0 [] 1000 1 True None
     (sample_machine (sample_call 100 [] False) [code_entry ''0XCC'' [0x60, 0, 0xFE]]))))
   = ([], {}, {}, 0, [])"
proof -
  let ?s = "sample_machine (sample_call 100 [] False) [code_entry ''0XCC'' [0x60, 0, 0xFE]]"
  let ?r = "execute_subcall sample_lib (execute sample_lib 5) STATICCALL ''0xAA'' ''0xCC'' 0 [] 1000 1 True None ?s"
  have "fst ?r = Inr (False, [])" by code_simp
  then have "?r = (Inr (False, []), snd ?r)" by (metis prod.collapse)
  from subcall_failure_restores_world [OF sample_ok _ _ this]
  have "world (ctx (snd ?r)) = world (ctx ?s)" by (simp add: moves_value_def)
  then show ?thesis
    by (simp add: world_def sample_machine_def new_machine_def new_context_def)
qed

text \<open>
  The value of a CALL or CALLCODE is moved before the snapshot: when the callee's code
  fails, the subcall reports failure and the callee has the value all the same.
\<close>

lemma subcall_failure_keeps_transfer:
  assumes "machine_ok X s" and "0 \<le> g" and "t = CALL \<or> t = CALLCODE" and "0 < v" and "sender \<noteq> a"
    and "v \<le> get_balance sender (ctx s)" and "get_code (code_source a ca) (ctx s) = Inr bs" and "bs \<noteq> []"
    and "\<not> is_precompile (code_source a ca)"
    and "execute_subcall X (execute X n) t sender a v cdata g d st ca s = (Inr (False, data), u)"
  shows "get_balance a (ctx u) = get_balance a (ctx s) + v \<and>
    get_balance sender (ctx u) = get_balance sender (ctx s) - v"
proof -
  have W: "world (ctx u) = world (ctx (snd (move_value t sender a v s)))"
    by (rule code_failure [OF assms(1,2,7,8,9,10)])
  have "snd (move_value t sender a v s) = s\<lparr>ctx := snd (transfer sender a v (ctx s))\<rparr>"
    using assms(3,4) by (simp add: move_value_def moves_value_def on_ctx_def zoom_def case_prod_beta)
  with W have "balance_changes (ctx u) = balance_changes (snd (transfer sender a v (ctx s)))"
    by (simp add: world_def)
  then have "read_balance (chain_view (ctx s)) (balance_changes (ctx u))
      = (read_balance (chain_view (ctx s)) (balance_changes (ctx s)))
          (sender := get_balance sender (ctx s) - v, a := get_balance a (ctx s) + v)"
    using assms(5,6) by (auto simp: transfer_def Let_def set_balance_def get_balance_read read_balance_def update_conv' fun_eq_iff
        chain_view_def split: option.splits)
  then show ?thesis
    using assms(5) subcall_chain_view [OF assms(1,2,10)] by (simp add: get_balance_read)
qed

text \<open>The failing callee of the example is the single byte INVALID.\<close>

text \<open>A run that sends 7 to the account 0xcc and stops.\<close>

definition paying_code :: "byte list" where
  "paying_code = [0x60, 0, 0x60, 0, 0x60, 0, 0x60, 0, 0x60, 7, 0x60, 0xCC, 0x60, 0, 0xF1, 0x00]"

theorem execute_conserves_value_witness:
  "get_balance (addr_of 0xCC) (ctx (snd (execute sample_lib 12 (sample_machine (sample_call 100000 paying_code False) [])))) = 107
   \<and> total_balance {''0xAA'', addr_of 0xCC}
      (ctx (snd (execute sample_lib 12 (sample_machine (sample_call 100000 paying_code False) [])))) = 200"
proof -
  let ?s = "sample_machine (sample_call 100000 paying_code False) []"
  let ?r = "execute sample_lib 12 ?s"
  have moved: "balance_changes (ctx (snd ?r)) = [(''0xAA'', 93), (addr_of 0xCC, 107)]"
    unfolding paying_code_def by code_simp
  have other: "addr_of 0xCC \<noteq> ''0xAA''" by code_simp
  have none: "balance_changes (ctx ?s) = []" by (simp add: sample_machine_def new_machine_def new_context_def)
  from moved none have "total_balance {''0xAA'', addr_of 0xCC} (ctx (snd ?r)) = total_balance {''0xAA'', addr_of 0xCC} (ctx ?s)"
    using execute_conserves_value [OF sample_ok [of 100000] prod.collapse [symmetric],
        of "{''0xAA'', addr_of 0xCC}" paying_code False "[]" 12] by simp
  also have "\<dots> = 200"
    using other by (simp add: total_balance_def get_balance_def sample_machine_def new_machine_def new_context_def sample_chain_def)
  finally show ?thesis
    using moved other by (simp add: get_balance_def)
qed

end
