(* ===== verification/EvmFuel.thy ===== *)
theory EvmFuel
  imports EvmWorld
begin

text \<open>
  Fuel. More fuel never changes a result that was reached without running out of it; and code
  without CREATE and CREATE2 always reaches one: every turn of the loop that does not end the
  frame costs gas, and no frame gets more gas than its caller has. The interface \<open>evm_inv\<close>
  is instantiated once more, with the gas as the bound.
\<close>

section \<open>More fuel refines\<close>

text \<open>\<open>m'\<close> agrees with \<open>m\<close> wherever \<open>m\<close> has not run out of fuel.\<close>

definition extends :: "'a vm \<Rightarrow> 'a vm \<Rightarrow> bool" where
  "extends m m' \<longleftrightarrow> (\<forall>s. fst (m s) = Inl OutOfFuel \<or> m' s = m s)"

lemma extends_refl: "extends m m"
  by (simp add: extends_def)

lemma extends_raise: "extends (raise OutOfFuel) m"
  by (simp add: extends_def raise_def)

lemma extends_and_then:
  assumes m: "extends m m'" and k: "\<And>a. extends (k a) (k' a)"
  shows "extends (and_then m k) (and_then m' k')"
  unfolding extends_def
proof
  fix s
  obtain r t where r: "m s = (r, t)" by fastforce
  show "fst (and_then m k s) = Inl OutOfFuel \<or> and_then m' k' s = and_then m k s"
  proof (cases "r = Inl OutOfFuel")
    case False
    with m r have "m' s = (r, t)" by (metis extends_def fst_conv)
    with r k show ?thesis by (cases r) (auto simp: and_then_def extends_def)
  qed (simp add: and_then_def r)
qed

lemma extends_with_frame: "extends m m' \<Longrightarrow> extends (with_frame c m) (with_frame c m')"
  unfolding extends_def with_frame_def
  by (auto simp: case_prod_beta map_sum_Inl)

lemma extends_catch:
  assumes "extends m m'"
  shows "extends (catch_vm m h) (catch_vm m' h)"
  unfolding extends_def
proof
  fix s
  obtain r t where r: "m s = (r, t)" by fastforce
  show "fst (catch_vm m h s) = Inl OutOfFuel \<or> catch_vm m' h s = catch_vm m h s"
  proof (cases "r = Inl OutOfFuel")
    case False
    with assms r have "m' s = m s" by (metis extends_def fst_conv)
    then show ?thesis by (simp add: catch_vm_def)
  qed (simp add: catch_vm_def r)
qed

lemma extends_if: "(b \<Longrightarrow> extends m m') \<Longrightarrow> (\<not> b \<Longrightarrow> extends n n') \<Longrightarrow> extends (if b then m else n) (if b then m' else n')"
  by simp

lemma extends_run_child: "extends E E' \<Longrightarrow> extends (run_child E i c) (run_child E' i c)"
  unfolding run_child_def by (intro extends_catch extends_and_then extends_with_frame extends_refl)

lemma extends_subcall:
  "extends E E' \<Longrightarrow> extends (execute_subcall X E t sender a v cdata g d st ca) (execute_subcall X E' t sender a v cdata g d st ca)"
  unfolding execute_subcall_def Let_def
  by (intro extends_and_then extends_refl extends_if extends_run_child)

lemma extends_create:
  "extends E E' \<Longrightarrow> extends (execute_create X E v bs salt) (execute_create X E' v bs salt)"
  unfolding execute_create_def deploy_def Let_def
  by (intro extends_and_then extends_refl extends_if extends_catch extends_with_frame)

lemma extends_pops:
  "(\<And>a b c. extends (k a b c) (k' a b c)) \<Longrightarrow> extends (pop3 k) (pop3 k')"
  "(\<And>a b c d. extends (l a b c d) (l' a b c d)) \<Longrightarrow> extends (pop4 l) (pop4 l')"
  "(\<And>a b c d e f. extends (m a b c d e f) (m' a b c d e f)) \<Longrightarrow> extends (pop6 m) (pop6 m')"
  "(\<And>a b c d e f g. extends (n a b c d e f g) (n' a b c d e f g)) \<Longrightarrow> extends (pop7 n) (pop7 n')"
  unfolding pops by (intro extends_and_then extends_refl; assumption | blast)+

lemma extends_calls:
  assumes E: "extends E E'"
  shows "extends (op_call X E) (op_call X E')" "extends (op_callcode X E) (op_callcode X E')"
    "extends (op_delegatecall X E) (op_delegatecall X E')" "extends (op_staticcall X E) (op_staticcall X E')"
    "extends (op_create X E) (op_create X E')" "extends (op_create2 X E) (op_create2 X E')"
  unfolding op_call_def op_callcode_def op_delegatecall_def op_staticcall_def op_create_def op_create2_def Let_def
  by (intro extends_pops extends_and_then extends_refl extends_if extends_subcall [OF E] extends_create [OF E])+

lemma map_of_rel:
  assumes "list_all2 (\<lambda>(k, v) (k', v'). k = k' \<and> P v v') xs ys"
  shows "rel_option P (map_of xs k) (map_of ys k)"
  using assms by (induction rule: list_all2_induct) auto

lemma extends_handlers:
  assumes "extends E E'"
  shows "rel_option extends (map_of (handlers X E) op) (map_of (handlers X E') op)"
  by (rule map_of_rel) (simp add: handlers_def extends_calls [OF assms] extends_refl)

lemma extends_dispatch:
  assumes "extends E E'"
  shows "extends (dispatch X E dests op) (dispatch X E' dests op)"
proof -
  from extends_handlers [OF assms, of X op]
  consider "map_of (handlers X E) op = None" "map_of (handlers X E') op = None"
    | h h' where "map_of (handlers X E) op = Some h" "map_of (handlers X E') op = Some h'" "extends h h'"
    by (auto elim!: option.rel_cases)
  then show ?thesis
  proof cases
    case 1
    then show ?thesis by (simp add: dispatch_def extends_refl)
  next
    case 2
    then show ?thesis
      unfolding dispatch_def by (simp only: option.case) (intro extends_if extends_and_then extends_refl)
  qed
qed

lemma extends_step:
  assumes "extends E E'"
  shows "extends (step X E dests) (step X E' dests)"
proof -
  have "extends (case info_of op of None \<Rightarrow> raise (VMExecutionError InvalidOpcode)
      | Some info \<Rightarrow> and_then (charge (gas_cost info)) (\<lambda>_. dispatch X E dests op))
    (case info_of op of None \<Rightarrow> raise (VMExecutionError InvalidOpcode)
      | Some info \<Rightarrow> and_then (charge (gas_cost info)) (\<lambda>_. dispatch X E' dests op))" for op
    by (cases "info_of op") (auto intro: extends_refl extends_and_then extends_dispatch [OF assms])
  then show ?thesis
    unfolding step_def by (intro extends_and_then extends_refl)
qed

lemma extends_loop: "extends (loop X n dests) (loop X (Suc n) dests)"
proof (induction n arbitrary: dests)
  case 0
  show ?case by (simp add: extends_raise)
next
  case (Suc n)
  have "extends (execute X n) (execute X (Suc n))"
    unfolding execute_def by (intro extends_and_then extends_refl Suc.IH)
  then show ?case
    by (subst loop_Suc [of X n dests], subst loop_Suc [of X "Suc n" dests])
      (intro extends_and_then extends_refl extends_if extends_step Suc.IH)
qed

lemma execute_more_fuel:
  assumes "fst (execute X n s) \<noteq> Inl OutOfFuel" and "n \<le> m"
  shows "execute X m s = execute X n s"
  using assms(2)
proof (induction rule: dec_induct)
  case (step k)
  have "extends (execute X k) (execute X (Suc k))"
    unfolding execute_def by (intro extends_and_then extends_refl extends_loop)
  with step.IH assms(1) show ?case by (metis extends_def)
qed simp

section \<open>Code without creations terminates\<close>

definition no_create :: "byte list \<Rightarrow> bool" where
  "no_create bs \<longleftrightarrow> (\<forall>b \<in> set bs. uint b \<noteq> 0xF0 \<and> uint b \<noteq> 0xF5)"

definition no_create_chain :: "execution_context \<Rightarrow> bool" where
  "no_create_chain x \<longleftrightarrow> (\<forall>a bs. get_code a x = Inr bs \<longrightarrow> no_create bs)"

definition gas_within :: "int \<Rightarrow> call_context \<Rightarrow> bool" where
  "gas_within g c \<longleftrightarrow> frame_ok c \<and> no_create (code c) \<and> gas c \<le> g"

lemma same_chain: "blockchain y = blockchain x \<Longrightarrow> no_create_chain x \<Longrightarrow> no_create_chain y"
  by (simp add: no_create_chain_def get_code_def)

lemma blockchain_frame:
  "blockchain (snd (take_snapshot x)) = blockchain x" "blockchain (revert_to_snapshot i x) = blockchain x"
  "blockchain (snd (get_storage a x)) = blockchain x" "blockchain (snd (on_storage a m x)) = blockchain x"
  "blockchain (add_log l x) = blockchain x" "blockchain (snd (transfer a b v x)) = blockchain x"
  by (simp_all add: take_snapshot_def revert_to_snapshot_def Let_def get_storage_def load_storage_from_chain_def
      on_storage_def ret_def case_prod_beta add_log_def transfer_def set_balance_def split: option.splits)

definition chain_kept :: "execution_context \<Rightarrow> execution_context \<Rightarrow> bool" where
  "chain_kept x y \<longleftrightarrow> blockchain y = blockchain x"

lemma gas_inv:
  assumes "externals_ok X"
  shows "evm_inv X (gas_within g) no_create_chain chain_kept (\<lambda>e. e \<noteq> OutOfFuel) False False"
proof (unfold_locales, goal_cases)
  case (5 c h x ca bs t dep a sender ori v cd st)
  then show ?case
    by (auto simp: gas_within_def frame_ok_new_call no_create_chain_def) (simp_all add: new_call_def)
qed (use assms in \<open>auto simp: gas_within_def same_frame_def chain_kept_def blockchain_frame intro: same_chain\<close>)

text \<open>The invariant of one level of gas, and methods that keep it without running out of fuel.\<close>

definition gas_inv_of :: "externals \<Rightarrow> int \<Rightarrow> machine \<Rightarrow> bool" where
  "gas_inv_of X g = inv_of X (gas_within g) no_create_chain"

definition fuelled :: "externals \<Rightarrow> int \<Rightarrow> 'a vm \<Rightarrow> bool" where
  "fuelled X g m \<longleftrightarrow> safe (gas_inv_of X g) (rel_of chain_kept) (\<lambda>e. e \<noteq> OutOfFuel) m (\<lambda>_. True)"

lemma gas_inv_mono: "gas_inv_of X g s \<Longrightarrow> g \<le> h \<Longrightarrow> gas_inv_of X h s"
  by (auto simp: gas_inv_of_def inv_of_def gas_within_def)

lemma fuelledD:
  assumes "fuelled X g m" and "gas_inv_of X g s" and "m s = (r, t)"
  shows "gas_inv_of X g t" and "r \<noteq> Inl OutOfFuel" and "rel_of chain_kept s t"
  using safeD [OF assms(1) [unfolded fuelled_def] assms(2,3)] by auto

subsection \<open>The opcodes without gas end the frame\<close>

definition halts :: "'a vm \<Rightarrow> bool" where
  "halts m \<longleftrightarrow> (\<forall>s v t. m s = (Inr v, t) \<longrightarrow> halted (call t))"

lemma halts_and_then: "(\<And>a. halts (k a)) \<Longrightarrow> halts (and_then m k)"
  by (auto simp: halts_def and_then_def split: prod.splits sum.splits)

lemma halts_raise: "halts (raise e)"
  by (simp add: halts_def raise_def)

lemma halts_set_call: "(\<And>c. halted (f c)) \<Longrightarrow> halts (set_call f)"
  by (auto simp: halts_def set_call_def modify_def)

lemma halts_pop2: "(\<And>a b. halts (k a b)) \<Longrightarrow> halts (pop2 k)"
  unfolding pop2_def by (intro halts_and_then)

lemma halts_set_call_then:
  assumes "\<And>c. halted (f c)" and "\<And>c. halted (h c) = halted c"
  shows "halts (and_then (set_call f) (\<lambda>_. if b then set_call h else ret ()))"
  using assms by (simp add: halts_def and_then_def set_call_def modify_def ret_def)

lemma halting_handlers: "halts op_stop" "halts op_return" "halts op_revert" "halts op_invalid"
  unfolding op_stop_def op_return_def op_revert_def op_invalid_def Let_def
  by (rule halts_raise halts_pop2 halts_set_call halts_set_call_then halts_and_then | simp)+

lemma free_opcodes:
  assumes "op \<in> {0x00, 0xF3, 0xFD, 0xFE}"
  shows "dispatch X E dests op = dispatch X E' dests op" and "halts (dispatch X E dests op)"
proof -
  have eq: "dispatch X E dests 0x00 = and_then op_stop (\<lambda>_. ret ())" "dispatch X E dests 0xF3 = and_then op_return (\<lambda>_. ret ())"
    "dispatch X E dests 0xFD = and_then op_revert (\<lambda>_. ret ())" "dispatch X E dests 0xFE = and_then op_invalid (\<lambda>_. ret ())" for E
    by (simp_all add: dispatch_def is_push_def is_dup_def is_swap_def validate_jump_def handlers_def)
  from assms eq show "dispatch X E dests op = dispatch X E' dests op" by auto
  have "and_then m (\<lambda>_. ret ()) = m" for m :: "unit vm"
    by (rule ext) (auto simp: and_then_def ret_def split: prod.splits sum.splits)
  with assms eq halting_handlers show "halts (dispatch X E dests op)" by auto
qed

subsection \<open>Methods that stay within the invariant without running out of fuel\<close>

lemma fuelled_parts:
  assumes "externals_ok X"
  shows "fuelled X g (check_limits X)" "fuelled X g (enter X)"
    "fuelled X g E \<Longrightarrow> op \<notin> {0xF0, 0xF5} \<Longrightarrow> fuelled X g (dispatch X E dests op)"
    "0 \<le> n \<Longrightarrow> fuelled X g (charge n)"
  using evm_inv.keeps_check_limits [OF gas_inv [OF assms]] evm_inv.keeps_enter [OF gas_inv [OF assms]]
    evm_inv.keeps_dispatch [OF gas_inv [OF assms]] evm_inv.keeps_charge [OF gas_inv [OF assms]]
  by (simp_all add: fuelled_def gas_inv_of_def)

text \<open>
  \<open>stays X g c\<close>: a state with at most \<open>g\<close> gas whose frame and blockchain come from the state \<open>c\<close>. \<open>runs X g c P m Q\<close>: from a
  state with \<open>P\<close> the method returns in a state with \<open>Q\<close>, or raises and stays.
\<close>

definition stays :: "externals \<Rightarrow> int \<Rightarrow> machine \<Rightarrow> machine \<Rightarrow> bool" where
  "stays X g c s \<longleftrightarrow> gas_inv_of X g s \<and> rel_of chain_kept c s"

definition runs ::
    "externals \<Rightarrow> int \<Rightarrow> machine \<Rightarrow> (machine \<Rightarrow> bool) \<Rightarrow> 'a vm \<Rightarrow> ('a \<Rightarrow> machine \<Rightarrow> bool) \<Rightarrow> bool" where
  "runs X g c P m Q \<longleftrightarrow> (\<forall>s r t. P s \<longrightarrow> m s = (r, t) \<longrightarrow>
     (case r of Inl e \<Rightarrow> e \<noteq> OutOfFuel \<and> stays X g c t | Inr v \<Rightarrow> Q v t))"

lemma runs_and_then:
  "runs X g c P m Q \<Longrightarrow> (\<And>a. runs X g c (Q a) (k a) R) \<Longrightarrow> runs X g c P (and_then m k) R"
proof -
  assume m: "runs X g c P m Q" and k: "\<And>a. runs X g c (Q a) (k a) R"
  show ?thesis
    unfolding runs_def
  proof (intro allI impI)
    fix s r t
    assume s: "P s" and run: "and_then m k s = (r, t)"
    obtain q u where q: "m s = (q, u)" by fastforce
    show "case r of Inl e \<Rightarrow> e \<noteq> OutOfFuel \<and> stays X g c t | Inr v \<Rightarrow> R v t"
    proof (cases q)
      case (Inl e)
      with m s q run show ?thesis by (auto simp: runs_def and_then_def)
    next
      case (Inr a)
      with m s q have "Q a u" by (fastforce simp: runs_def)
      moreover from run q Inr have "k a u = (r, t)" by (simp add: and_then_def)
      ultimately show ?thesis using k [of a] unfolding runs_def by blast
    qed
  qed
qed

lemma chain_rel_trans: "rel_of chain_kept s t \<Longrightarrow> rel_of chain_kept t u \<Longrightarrow> rel_of chain_kept s u"
  unfolding rel_of_def chain_kept_def using same_frame_trans by auto

lemma runs_fuelled: "fuelled X h m \<Longrightarrow> h \<le> g \<Longrightarrow> runs X g c (stays X h c) m (\<lambda>_. stays X h c)"
  unfolding runs_def stays_def
proof (intro allI impI, elim conjE)
  fix s r t
  assume m: "fuelled X h m" "h \<le> g" and s: "gas_inv_of X h s" "rel_of chain_kept c s" and run: "m s = (r, t)"
  note D = safeD(1,2,3) [OF m(1) [unfolded fuelled_def] s(1) run]
  have "rel_of chain_kept c t"
    by (rule chain_rel_trans [OF s(2) D(2)])
  with D(1,3) gas_inv_mono [OF D(1) m(2)]
  show "case r of Inl e \<Rightarrow> e \<noteq> OutOfFuel \<and> gas_inv_of X g t \<and> rel_of chain_kept c t
      | Inr v \<Rightarrow> gas_inv_of X h t \<and> rel_of chain_kept c t"
    by (cases r) simp_all
qed

lemma fuelledI:
  assumes "\<And>c. runs X g c (stays X g c) m (\<lambda>_. stays X g c)"
  shows "fuelled X g m"
  unfolding fuelled_def
proof (rule safeI)
  fix s r t
  assume s: "gas_inv_of X g s" and run: "m s = (r, t)"
  have "stays X g s s" using s by (simp add: stays_def rel_of_def chain_kept_def)
  with assms [of s] run
  have "case r of Inl e \<Rightarrow> e \<noteq> OutOfFuel \<and> stays X g s t | Inr v \<Rightarrow> stays X g s t"
    unfolding runs_def by blast
  then show "gas_inv_of X g t \<and> rel_of chain_kept s t \<and> (case r of Inl e \<Rightarrow> e \<noteq> OutOfFuel | Inr v \<Rightarrow> True)"
    by (cases r) (simp_all add: stays_def rel_of_def)
qed

lemma fuelled_and_then: "fuelled X g m \<Longrightarrow> (\<And>a. fuelled X g (k a)) \<Longrightarrow> fuelled X g (and_then m k)"
  by (rule fuelledI, rule runs_and_then, erule runs_fuelled [OF _ order_refl]) (rule runs_fuelled [OF _ order_refl])

lemma fuelled_raise: "externals_ok X \<Longrightarrow> fuelled X g (raise ValueError)"
  by (rule fuelledI) (simp add: runs_def raise_def)

lemma runs_halts:
  assumes m: "runs X g c P m (\<lambda>_. S)" and h: "halts m"
  shows "runs X g c P m (\<lambda>_ s. S s \<and> halted (call s) \<or> T s)"
  unfolding runs_def
proof (intro allI impI)
  fix s r t
  assume s: "P s" and run: "m s = (r, t)"
  have "case r of Inl e \<Rightarrow> e \<noteq> OutOfFuel \<and> stays X g c t | Inr v \<Rightarrow> S t"
    using m s run unfolding runs_def by blast
  then show "case r of Inl e \<Rightarrow> e \<noteq> OutOfFuel \<and> stays X g c t | Inr v \<Rightarrow> S t \<and> halted (call t) \<or> T t"
    using h run by (cases r) (auto simp: halts_def)
qed

subsection \<open>The bound\<close>

text \<open>A turn of the loop that has not finished leaves less gas, or a frame that has halted.\<close>

lemma check_limits_frame:
  "call (snd (check_limits X s)) = call s"
  by (simp add: check_limits_def and_then_def read_clock_def reads_def raise_def ret_def)

lemma fetch_safe:
  assumes "stays X g c s" and "\<not> finished s"
  shows "fetch s \<notin> {0xF0, 0xF5}"
proof -
  have "no_create (code (call s))" "0 \<le> pc (call s)"
    using assms(1) by (simp_all add: stays_def gas_inv_of_def inv_of_def gas_within_def frame_ok_def)
  moreover have "nat (pc (call s)) < length (code (call s))"
    using assms(2) calculation(2) by (simp add: finished_def nat_less_iff)
  ultimately show ?thesis
    unfolding no_create_def fetch_def using nth_mem by blast
qed

lemma charge_less:
  assumes "0 < n" and "externals_ok X"
  shows "runs X g c (stays X g c) (charge n) (\<lambda>_ s. 1 \<le> g \<and> stays X (g - 1) c s)"
  unfolding runs_def
proof (intro allI impI)
  fix s r t
  assume s: "stays X g c s" and run: "charge n s = (r, t)"
  then have inv: "gas_inv_of X g s" and call: "rel_of chain_kept c s" by (simp_all add: stays_def)
  have "fuelled X g (charge n)" using fuelled_parts(4) [OF assms(2)] assms(1) by simp
  note D = safeD(1,2,3) [OF this [unfolded fuelled_def] inv run]
  have frame: "rel_of chain_kept c t"
    by (rule chain_rel_trans [OF call D(2)])
  show "case r of Inl e \<Rightarrow> e \<noteq> OutOfFuel \<and> stays X g c t | Inr v \<Rightarrow> 1 \<le> g \<and> stays X (g - 1) c t"
  proof (cases r)
    case (Inl e)
    with D(1,3) frame assms(1) show ?thesis by (simp add: stays_def)
  next
    case (Inr v)
    with run have "n \<le> gas (call s)" and t: "gas (call t) = gas (call s) - n"
      by (auto simp: charge_def and_then_def on_call_def zoom_def use_gas_def ret_def raise_def split: if_splits)
    moreover have "gas (call s) \<le> g"
      using inv by (simp add: gas_inv_of_def inv_of_def gas_within_def)
    ultimately show ?thesis
      using Inr D(1) frame assms(1)
      by (simp add: stays_def gas_inv_of_def inv_of_def gas_within_def frame_ok_def)
  qed
qed

lemma runs_call:
  assumes m: "runs X g c P m (\<lambda>_. P)" and call: "\<And>s. call (snd (m s)) = call s"
    and R: "\<And>s t. call t = call s \<Longrightarrow> R t = R s"
  shows "runs X g c (\<lambda>s. P s \<and> R s) m (\<lambda>_ s. P s \<and> R s)"
  unfolding runs_def
proof (intro allI impI, elim conjE)
  fix s r t
  assume s: "P s" "R s" and run: "m s = (r, t)"
  have "case r of Inl e \<Rightarrow> e \<noteq> OutOfFuel \<and> stays X g c t | Inr v \<Rightarrow> P t"
    using m s(1) run unfolding runs_def by blast
  moreover have "R t"
    using R [of t s] call [of s] run s(2) by simp
  ultimately show "case r of Inl e \<Rightarrow> e \<noteq> OutOfFuel \<and> stays X g c t | Inr v \<Rightarrow> P t \<and> R t"
    by (cases r) simp_all
qed

lemma runs_weaken:
  assumes "runs X g c P m Q" and "\<And>s. P' s \<Longrightarrow> P s" and "\<And>v s. Q v s \<Longrightarrow> Q' v s"
  shows "runs X g c P' m Q'"
  using assms unfolding runs_def by (metis (mono_tags, lifting) old.sum.exhaust sum.case)

lemma runs_or:
  assumes "runs X g c P m Q" and "runs X g c P' m Q"
  shows "runs X g c (\<lambda>s. P s \<or> P' s) m Q"
  using assms unfolding runs_def by blast

lemma runs_pre: "(p \<Longrightarrow> runs X g c P m Q) \<Longrightarrow> runs X g c (\<lambda>s. P s \<and> p) m Q" "(p \<Longrightarrow> runs X g c P m Q) \<Longrightarrow> runs X g c (\<lambda>s. p \<and> P s) m Q"
  unfolding runs_def by blast+

lemma runs_raise: "e \<noteq> OutOfFuel \<Longrightarrow> runs X g c (stays X g c) (raise e) Q"
  by (simp add: runs_def raise_def)

lemma fuelled_loop:
  assumes X: "externals_ok X"
  shows "nat g + 2 \<le> n \<Longrightarrow> fuelled X g (loop X n dests)"
proof (induction n arbitrary: g dests)
  case 0
  then show ?case by simp
next
  case (Suc n)
  show ?case
  proof (rule fuelledI)
    fix c
    let ?P = "\<lambda>s. stays X g c s \<and> \<not> finished s"
    have limits: "runs X g c ?P (check_limits X) (\<lambda>_. ?P)"
      by (rule runs_call [OF runs_fuelled [OF fuelled_parts(1) [OF X] order_refl] check_limits_frame])
        (simp add: finished_def)
    have op: "runs X g c ?P (reads fetch) (\<lambda>op s. stays X g c s \<and> op \<notin> {0xF0, 0xF5})"
      using fetch_safe unfolding runs_def by (auto simp: reads_def)
    have count: "runs X g c (\<lambda>s. stays X g c s \<and> op \<notin> {0xF0, 0xF5}) (modify (instruction_count_update (\<lambda>k. k + 1)))
        (\<lambda>_ s. stays X g c s \<and> op \<notin> {0xF0, 0xF5})" for op
      unfolding runs_def
      by (auto simp: modify_def stays_def gas_inv_of_def inv_of_def wf_cache_def rel_of_def)
    have child: "fuelled X (g - 1) (execute X n)" "fuelled X (g - 1) (loop X n dests)" if "1 \<le> g" for dests
    proof -
      have n: "nat (g - 1) + 2 \<le> n" using that Suc.prems by simp
      show "fuelled X (g - 1) (loop X n dests)" by (rule Suc.IH [OF n])
      show "fuelled X (g - 1) (execute X n)"
        unfolding execute_def by (rule fuelled_and_then [OF fuelled_parts(2) [OF X] Suc.IH [OF n]])
    qed
    let ?Q = "\<lambda>_ s. stays X g c s \<and> halted (call s) \<or> 1 \<le> g \<and> stays X (g - 1) c s"
    have turn: "runs X g c (\<lambda>s. stays X g c s \<and> op \<notin> {0xF0, 0xF5})
        (case info_of op of None \<Rightarrow> raise (VMExecutionError InvalidOpcode)
          | Some info \<Rightarrow> and_then (charge (gas_cost info)) (\<lambda>_. dispatch X (execute X n) dests op)) ?Q" for op
    proof (rule runs_pre(1))
      assume op: "op \<notin> {0xF0, 0xF5}"
      show "runs X g c (stays X g c)
        (case info_of op of None \<Rightarrow> raise (VMExecutionError InvalidOpcode)
          | Some info \<Rightarrow> and_then (charge (gas_cost info)) (\<lambda>_. dispatch X (execute X n) dests op)) ?Q"
      proof (cases "info_of op")
        case None
        then show ?thesis by (simp add: runs_raise)
      next
        case (Some info)
        show ?thesis
        proof (cases "gas_cost info = 0")
          case True
          then have free: "op \<in> {0x00, 0xF3, 0xFD, 0xFE}" using info_gas_pos [OF Some] by auto
          have "fuelled X g (dispatch X (raise ValueError) dests op)"
            by (rule fuelled_parts(3) [OF X _ op]) (simp add: fuelled_raise [OF X])
          then have "fuelled X g (dispatch X (execute X n) dests op)"
            using free_opcodes(1) [OF free] by metis
          then have "runs X g c (stays X g c) (dispatch X (execute X n) dests op) ?Q"
            using free_opcodes(2) [OF free] by (intro runs_halts runs_fuelled) auto
          then show ?thesis
            using Some True runs_fuelled [OF fuelled_parts(4) [OF X, of 0] order_refl]
            by (auto intro: runs_and_then)
        next
          case False
          then have "0 < gas_cost info" using info_gas_nonneg [OF Some] by simp
          note pay = charge_less [OF this X, of g c]
          have "runs X g c (\<lambda>s. 1 \<le> g \<and> stays X (g - 1) c s) (dispatch X (execute X n) dests op) ?Q"
          proof (rule runs_pre(2))
            assume g: "1 \<le> g"
            show "runs X g c (stays X (g - 1) c) (dispatch X (execute X n) dests op) ?Q"
              by (rule runs_weaken [OF runs_fuelled [OF fuelled_parts(3) [OF X child(1) [OF g] op]]]) (use g in auto)
          qed
          with pay Some show ?thesis by (auto intro: runs_and_then)
        qed
      qed
    qed
    have rest: "runs X g c (\<lambda>s. stays X g c s \<and> halted (call s) \<or> 1 \<le> g \<and> stays X (g - 1) c s)
        (loop X n dests) (\<lambda>_. stays X g c)"
    proof (rule runs_or)
      obtain m where "n = Suc m" using Suc.prems by (cases n) auto
      then show "runs X g c (\<lambda>s. stays X g c s \<and> halted (call s)) (loop X n dests) (\<lambda>_. stays X g c)"
        by (simp add: runs_def and_then_def reads_def finished_def ret_def)
      show "runs X g c (\<lambda>s. 1 \<le> g \<and> stays X (g - 1) c s) (loop X n dests) (\<lambda>_. stays X g c)"
      proof (rule runs_pre(2))
        assume g: "1 \<le> g"
        show "runs X g c (stays X (g - 1) c) (loop X n dests) (\<lambda>_. stays X g c)"
          by (rule runs_weaken [OF runs_fuelled [OF child(2) [OF g]]])
            (auto simp: stays_def intro: gas_inv_mono)
      qed
    qed
    have "runs X g c ?P (and_then (step X (execute X n) dests) (\<lambda>_. loop X n dests)) (\<lambda>_. stays X g c)"
      unfolding step_def
      by (intro runs_and_then [OF _ rest] runs_and_then [OF limits] runs_and_then [OF op] runs_and_then [OF count] turn)
    then show "runs X g c (stays X g c) (loop X (Suc n) dests) (\<lambda>_. stays X g c)"
      unfolding loop_Suc by (simp add: runs_def and_then_def reads_def ret_def)
  qed
qed


section \<open>Termination\<close>

lemma fuelled_execute:
  assumes "externals_ok X" and "nat g + 2 \<le> n"
  shows "fuelled X g (execute X n)"
  unfolding execute_def by (intro fuelled_and_then fuelled_parts(2) fuelled_loop assms)

text \<open>
  C15: code without CREATE and CREATE2, run on a chain whose code has none either, ends within
  as many turns per frame as it has gas, plus two, whatever it jumps to and calls; the result is
  the same with any more fuel.
\<close>

theorem execute_terminates:
  assumes "externals_ok X" and "frame_ok (call s)" and "no_create (code (call s))"
    and "no_create_chain (ctx s)" and "wf_cache X s"
  shows "\<exists>r t. r \<noteq> Inl OutOfFuel \<and> (\<forall>n \<ge> nat (gas (call s)) + 2. execute X n s = (r, t))"
proof -
  let ?n = "nat (gas (call s)) + 2"
  obtain r t where run: "execute X ?n s = (r, t)" by fastforce
  have "gas_inv_of X (gas (call s)) s"
    using assms by (simp add: gas_inv_of_def inv_of_def gas_within_def)
  from fuelledD(2) [OF fuelled_execute [OF assms(1) order_refl] this run] have "r \<noteq> Inl OutOfFuel" .
  moreover from this have "\<forall>n \<ge> ?n. execute X n s = (r, t)"
    using execute_more_fuel [of X ?n s] run by simp
  ultimately show ?thesis by blast
qed

text \<open>The example jumps back to its start for ever: JUMPDEST, PUSH1 0, JUMP.\<close>

theorem execute_terminates_witness:
  "\<exists>r t. r \<noteq> Inl OutOfFuel \<and>
     (\<forall>n \<ge> 102. execute sample_lib n (sample_machine (sample_call 100 [0x5B, 0x60, 0x00, 0x56] False) []) = (r, t))"
proof -
  let ?s = "sample_machine (sample_call 100 [0x5B, 0x60, 0x00, 0x56] False) []"
  have "frame_ok (call ?s)" "wf_cache sample_lib ?s"
    by (simp_all add: sample_machine_def sample_call_def frame_ok_new_call new_machine_def wf_cache_def)
  moreover have "no_create (code (call ?s))" "gas (call ?s) = 100"
    by code_simp+
  moreover have "no_create_chain (ctx ?s)"
    by (auto simp: no_create_chain_def get_code_def sample_machine_def new_machine_def new_context_def
        sample_chain_def no_create_def contract_data_def split: option.splits)
  moreover have "externals_ok sample_lib"
    by (simp add: externals_ok_def sample_lib_def)
  ultimately show ?thesis using execute_terminates [of sample_lib ?s] by simp
qed

end
