(* ===== verification/PyDict.thy ===== *)
theory PyDict
  imports PyBytes "HOL-Library.AList"
begin

text \<open>
  Python's \<open>dict\<close> as an association list in insertion order, with the total of a dict of
  numbers, and the UTF-8 encoding of text. A character stands for a code point below 256.
\<close>

section \<open>Reading a dict\<close>

text \<open>\<open>d.get(k, default)\<close>\<close>

definition dict_get :: "('k \<times> 'v) list \<Rightarrow> 'k \<Rightarrow> 'v \<Rightarrow> 'v" where
  "dict_get d k v0 = (case map_of d k of Some v \<Rightarrow> v | None \<Rightarrow> v0)"

lemma dict_get_update [simp]:
  "dict_get (AList.update k v d) j v0 = (if j = k then v else dict_get d j v0)"
  by (simp add: dict_get_def update_conv')

lemma dict_get_Nil [simp]: "dict_get [] k v0 = v0"
  by (simp add: dict_get_def)

section \<open>Totals\<close>

definition dict_total :: "('k \<times> int) list \<Rightarrow> int" where
  "dict_total d = sum_list (map snd d)"

definition wf_dict :: "('k \<times> 'v) list \<Rightarrow> bool" where
  "wf_dict d \<longleftrightarrow> distinct (map fst d)"

lemma wf_dict_update [intro]: "wf_dict d \<Longrightarrow> wf_dict (AList.update k v d)"
  by (simp add: wf_dict_def distinct_update)

lemma dict_total_update:
  "wf_dict d \<Longrightarrow> dict_total (AList.update k v d) = dict_total d - dict_get d k 0 + v"
proof (induction d)
  case (Cons p d)
  then show ?case
    by (cases "fst p = k") (simp_all add: dict_total_def wf_dict_def dict_get_def map_of_eq_None_iff)
qed (simp add: dict_total_def)

text \<open>Entries that are not negative.\<close>

definition non_negative :: "('k \<times> int) list \<Rightarrow> bool" where
  "non_negative d \<longleftrightarrow> (\<forall>k. 0 \<le> dict_get d k 0)"

lemma non_negative_update: "non_negative d \<Longrightarrow> 0 \<le> v \<Longrightarrow> non_negative (AList.update k v d)"
  by (simp add: non_negative_def)

lemma non_negativeD: "non_negative d \<Longrightarrow> 0 \<le> dict_get d k 0"
  by (simp add: non_negative_def)

section \<open>Text\<close>

definition utf8_char :: "char \<Rightarrow> byte list" where
  "utf8_char c = (let n = of_char c :: int in
     if n < 128 then [word_of_int n] else [word_of_int (0xC0 + n div 64), word_of_int (0x80 + n mod 64)])"

definition utf8 :: "string \<Rightarrow> byte list" where
  "utf8 s = concat (map utf8_char s)"

text \<open>\<open>str(n)\<close>\<close>

fun dec_nat :: "nat \<Rightarrow> string" where
  "dec_nat n = (if n < 10 then [hex_digit n] else dec_nat (n div 10) @ [hex_digit (n mod 10)])"

declare dec_nat.simps [simp del]

definition dec_text :: "int \<Rightarrow> string" where
  "dec_text n = (if n < 0 then ''-'' @ dec_nat (nat (- n)) else dec_nat (nat n))"

definition ZERO_ADDRESS :: string where "ZERO_ADDRESS = ''0x'' @ replicate 40 (CHR ''0'')"

lemma to_lower_idem [simp]: "to_lower (to_lower s) = to_lower s"
  by (auto simp: to_lower_def Let_def)

text \<open>Decimal text is different for different numbers and holds no separator.\<close>

lemma dec_nat_plain:
  assumes "c \<in> {CHR '','', CHR ''-'', CHR ''/'', CHR '':''}"
  shows "c \<notin> set (dec_nat n)"
proof (induction n rule: dec_nat.induct)
  case (1 n)
  have "c \<noteq> hex_digit k" if k: "k < 10" for k
  proof -
    have "k < 16" using k by simp
    from hex_digit_neq [OF this, of c] assms show ?thesis
      using of_char_hex_digit [OF \<open>k < 16\<close>] k by (auto simp: eq_commute [of _ "hex_digit k"])
  qed
  from this [of n] this [of "n mod 10"] 1 show ?case by (auto simp: dec_nat.simps [of n])
qed

lemma dec_nat_value: "foldl (\<lambda>v c. 10 * v + nat (the (digit_val c))) 0 (dec_nat n) = n"
proof (induction n rule: dec_nat.induct)
  case (1 n)
  then show ?case by (auto simp: dec_nat.simps [of n] digit_val_hex_digit)
qed

lemma dec_nat_inj: "dec_nat m = dec_nat n \<Longrightarrow> m = n"
  by (metis dec_nat_value)

lemma dec_text_plain: "c \<in> {CHR '','', CHR ''/'', CHR '':''} \<Longrightarrow> c \<notin> set (dec_text n)"
  using dec_nat_plain [of c] by (auto simp: dec_text_def)

lemma dec_text_no_comma: "CHR '','' \<notin> set (dec_text n)"
  by (rule dec_text_plain) simp

lemma dec_text_inj:
  assumes "dec_text m = dec_text n"
  shows "m = n"
proof -
  have "CHR ''-'' \<notin> set (dec_nat a)" for a by (rule dec_nat_plain) simp
  then have "dec_nat a \<noteq> CHR ''-'' # dec_nat b" for a b by (metis list.set_intros(1))
  moreover from this have "CHR ''-'' # dec_nat b \<noteq> dec_nat a" for a b by metis
  ultimately show ?thesis using assms by (auto simp: dec_text_def dest!: dec_nat_inj split: if_splits)
qed

lemma no_char_split:
  assumes "a @ x = b @ y" and "k \<notin> set a" "k \<notin> set b"
    and "x = [] \<or> hd x = k" "y = [] \<or> hd y = k"
  shows "a = b \<and> x = y"
proof -
  have "takeWhile (\<lambda>c. c \<noteq> k) (u @ z) = u" if u: "k \<notin> set u" and z: "z = [] \<or> hd z = k" for u z
  proof -
    have "\<forall>c \<in> set u. c \<noteq> k" using u by metis
    then have "takeWhile (\<lambda>c. c \<noteq> k) (u @ z) = u @ takeWhile (\<lambda>c. c \<noteq> k) z"
      by (simp add: takeWhile_append2)
    also have "takeWhile (\<lambda>c. c \<noteq> k) z = []" using z by (cases z) simp_all
    finally show ?thesis by simp
  qed
  from this [OF assms(2,4)] this [OF assms(3,5)] assms(1) have "a = b" by simp
  with assms(1) show ?thesis by simp
qed

text \<open>\<open>int(str(n))\<close>\<close>

lemma dec_nat_digits: "c \<in> set (dec_nat n) \<Longrightarrow> \<exists>k < 10. c = hex_digit k"
proof (induction n rule: dec_nat.induct)
  case (1 n)
  show ?case
  proof (cases "n < 10")
    case True
    then show ?thesis using 1 by (simp add: dec_nat.simps [of n]) blast
  next
    case False
    then have "c \<in> set (dec_nat (n div 10)) \<or> c = hex_digit (n mod 10)" using 1(2) by (auto simp: dec_nat.simps [of n])
    moreover have "n mod 10 < 10" by simp
    ultimately show ?thesis using 1(1) False by blast
  qed
qed

lemma dec_nat_nonempty: "dec_nat n \<noteq> []"
  by (subst dec_nat.simps) simp

lemma parse_digits_dec_nat: "parse_digits 10 ok 0 (dec_nat n) = Inr (int n)"
proof (induction n arbitrary: ok rule: dec_nat.induct)
  case (1 n)
  show ?case
  proof (cases "n < 10")
    case True
    then show ?thesis using hex_digit_plain [of n] by (auto simp: dec_nat.simps [of n] digit_val_hex_digit)
  next
    case False
    let ?d = "hex_digit (n mod 10)"
    have "n mod 10 < 16" by (rule less_trans [of _ 10]) simp_all
    note d = hex_digit_plain [OF this] digit_val_hex_digit [OF this]
    have "parse_digits 10 ok 0 (dec_nat (n div 10) @ [?d]) = parse_digits 10 True (int (n div 10)) [?d]"
      by (rule parse_digits_append) (use False 1 d dec_nat_nonempty in auto)
    also have "\<dots> = Inr (int (n div 10) * 10 + int (n mod 10))" using d by auto
    also have "int (n div 10) * 10 + int (n mod 10) = int n" by (simp add: zdiv_int zmod_int)
    finally show ?thesis using False by (simp add: dec_nat.simps [of n])
  qed
qed

lemma parse_dec_text: "parse_int 10 (dec_text n) = Inr n"
proof -
  have plain: "\<not> is_text_space c \<and> c \<noteq> CHR ''-'' \<and> c \<noteq> CHR ''+''" if c: "c \<in> set (dec_nat m)" for c m
  proof -
    obtain k where "k < 10" "c = hex_digit k" using dec_nat_digits [OF c] by blast
    then show ?thesis using hex_digit_no_text_space [of k] hex_digit_plain [of k] by simp
  qed
  have h: "hd (dec_nat m) \<in> set (dec_nat m)" "last (dec_nat m) \<in> set (dec_nat m)" for m
    using dec_nat_nonempty [of m] by simp_all
  have minus: "\<not> is_text_space (CHR ''-'')" by code_simp
  have "strip (dec_text n) = dec_text n"
    by (rule strip_plain) (use plain [OF h(1)] plain [OF h(2)] minus dec_nat_nonempty in \<open>auto simp: dec_text_def\<close>)
  moreover have "take 1 (dec_nat m) = [hd (dec_nat m)]" for m using dec_nat_nonempty [of m] by (cases "dec_nat m") simp_all
  ultimately show ?thesis
    using plain [OF h(1)]
    by (auto simp: parse_int_def Let_def starts_with_def dec_text_def parse_unsigned_def parse_digits_dec_nat)
qed

end
