(* ===== verification/Abi.thy ===== *)
theory Abi
  imports PyDict EvmHelpers
begin

text \<open>
  \<open>src/xai/core/vm/evm/abi.py\<close>: the encoding of call data in head and tail, and its
  decoders, with Python's UTF-8 decoding with \<open>errors="replace"\<close>. \<open>keccak256\<close> picks the
  first hash library that is installed; that choice is the argument \<open>K\<close> of the definitions
  that hash.
\<close>

section \<open>Text and padding\<close>

text \<open>
  \<open>bs.decode("utf-8", errors="replace").encode("utf-8")\<close>: every maximal ill-formed prefix
  becomes U+FFFD. Text read from the chain is kept in this encoded form.
\<close>

definition REPLACEMENT :: "byte list" where "REPLACEMENT = [0xEF, 0xBF, 0xBD]"

definition second_ok :: "byte \<Rightarrow> byte \<Rightarrow> bool" where
  "second_ok b c \<longleftrightarrow>
     (if b = 0xE0 then 0xA0 \<le> c \<and> c \<le> 0xBF else if b = 0xED then 0x80 \<le> c \<and> c \<le> 0x9F
      else if b = 0xF0 then 0x90 \<le> c \<and> c \<le> 0xBF else if b = 0xF4 then 0x80 \<le> c \<and> c \<le> 0x8F
      else 0x80 \<le> c \<and> c \<le> 0xBF)"

definition continuation :: "byte \<Rightarrow> bool" where
  "continuation c \<longleftrightarrow> 0x80 \<le> c \<and> c \<le> 0xBF"

definition sequence_length :: "byte \<Rightarrow> nat" where
  "sequence_length b =
     (if b < 0x80 then 1 else if 0xC2 \<le> b \<and> b \<le> 0xDF then 2 else if 0xE0 \<le> b \<and> b \<le> 0xEF then 3
      else if 0xF0 \<le> b \<and> b \<le> 0xF4 then 4 else 0)"

text \<open>The number of bytes after \<open>b\<close> that continue its sequence, at most \<open>n\<close>.\<close>

definition well_formed_tail :: "byte \<Rightarrow> nat \<Rightarrow> byte list \<Rightarrow> nat" where
  "well_formed_tail b n bs =
     (case bs of
        [] \<Rightarrow> 0
      | c # cs \<Rightarrow> if n = 0 \<or> \<not> second_ok b c then 0
                 else 1 + length (takeWhile continuation (take (n - 1) cs)))"

function decode_replace :: "byte list \<Rightarrow> byte list" where
  "decode_replace [] = []"
| "decode_replace (b # bs) =
     (let n = sequence_length b; k = well_formed_tail b (n - 1) bs in
      if n = 0 then REPLACEMENT @ decode_replace bs
      else if k = n - 1 then b # take k bs @ decode_replace (drop k bs)
      else REPLACEMENT @ decode_replace (drop k bs))"
  by pat_completeness auto
termination by (relation "measure length") (auto simp: Let_def)

definition pad_right :: "byte list \<Rightarrow> nat \<Rightarrow> byte list" where
  "pad_right b n = (if length b mod n = 0 then b else b @ zeros (n - length b mod n))"

definition pad_left :: "byte list \<Rightarrow> nat \<Rightarrow> byte list" where
  "pad_left b n = (if length b \<ge> n then drop (length b - n) b else zeros (n - length b) @ b)"

section \<open>Encoders\<close>

definition encode_uint256 :: "int \<Rightarrow> exn + byte list" where
  "encode_uint256 v = (if v < 0 then Inl ValueError else map_sum id (\<lambda>b. pad_left b 32) (to_bytes 32 v))"

definition encode_int256 :: "int \<Rightarrow> exn + byte list" where
  "encode_int256 v =
     (if v \<ge> 0 then map_sum id (\<lambda>b. pad_left b 32) (to_bytes 32 v) else to_bytes 32 (v mod 2 ^ 256))"

definition encode_bool :: "bool \<Rightarrow> exn + byte list" where
  "encode_bool b = encode_uint256 (if b then 1 else 0)"

definition encode_address :: "string \<Rightarrow> exn + byte list" where
  "encode_address addr =
     (let a = strip_0x addr in
      if length a > 40 then Inl ValueError
      else bind_result (fromhex (zfill 40 a)) (\<lambda>raw.
           if length raw \<noteq> 20 then Inl ValueError else Inr (pad_left raw 32)))"

definition encode_bytes32 :: "byte list \<Rightarrow> exn + byte list" where
  "encode_bytes32 b = (if length b \<noteq> 32 then Inl ValueError else Inr b)"

definition encode_bytes :: "byte list \<Rightarrow> exn + byte list" where
  "encode_bytes b = map_sum id (\<lambda>n. n @ pad_right b 32) (encode_uint256 (int (length b)))"

definition encode_string :: "string \<Rightarrow> exn + byte list" where
  "encode_string s = encode_bytes (utf8 s)"

text \<open>
  A value as the callers pass it. Text that was read from the chain comes as its bytes, for a
  parameter of type \<open>string\<close> too. A value of another type than its parameter's is a
  TypeError here, where the source would try to convert it.
\<close>

datatype abi_value = VInt int | VBool bool | VText string | VBytes "byte list"

definition encode_static :: "string \<Rightarrow> abi_value \<Rightarrow> exn + byte list" where
  "encode_static t v =
     (if t = ''uint256'' then case v of VInt n \<Rightarrow> encode_uint256 n | _ \<Rightarrow> Inl TypeError
      else if t = ''int256'' then case v of VInt n \<Rightarrow> encode_int256 n | _ \<Rightarrow> Inl TypeError
      else if t = ''bool'' then case v of VBool b \<Rightarrow> encode_bool b | _ \<Rightarrow> Inl TypeError
      else if t = ''address'' then case v of VText a \<Rightarrow> encode_address a | _ \<Rightarrow> Inl TypeError
      else if t = ''bytes32'' then
        (case v of VBytes b \<Rightarrow> encode_bytes32 b | VText h \<Rightarrow> bind_result (fromhex h) encode_bytes32 | _ \<Rightarrow> Inl TypeError)
      else Inl ValueError)"

definition encode_dynamic :: "abi_value \<Rightarrow> exn + byte list" where
  "encode_dynamic v =
     (case v of VBytes b \<Rightarrow> encode_bytes b | VText s \<Rightarrow> encode_string s | _ \<Rightarrow> Inl TypeError)"

definition is_dynamic :: "string \<Rightarrow> bool" where
  "is_dynamic t \<longleftrightarrow> t = ''bytes'' \<or> t = ''string''"

text \<open>The heads and the tails, the tails starting \<open>off\<close> bytes after the heads.\<close>

fun encode_parts :: "int \<Rightarrow> int \<Rightarrow> (string \<times> abi_value) list \<Rightarrow> exn + (byte list \<times> byte list)" where
  "encode_parts head_size off [] = Inr ([], [])"
| "encode_parts head_size off ((t, v) # rest) =
     (if is_dynamic t then
        bind_result (encode_uint256 (head_size + off)) (\<lambda>h.
        bind_result (encode_dynamic v) (\<lambda>enc.
        bind_result (encode_parts head_size (off + int (length enc)) rest) (\<lambda>(hs, ts).
        Inr (h @ hs, enc @ ts))))
      else
        bind_result (encode_static t v) (\<lambda>h.
        bind_result (encode_parts head_size off rest) (\<lambda>(hs, ts). Inr (h @ hs, ts))))"

definition encode_args :: "string list \<Rightarrow> abi_value list \<Rightarrow> exn + byte list" where
  "encode_args types values =
     (if length types \<noteq> length values then Inl ValueError
      else map_sum id (\<lambda>(hs, ts). hs @ ts) (encode_parts (32 * int (length types)) 0 (zip types values)))"

definition function_selector :: "(byte list \<Rightarrow> byte list) \<Rightarrow> string \<Rightarrow> byte list" where
  "function_selector K signature = take 4 (K (utf8 signature))"

fun split_comma :: "string \<Rightarrow> string list" where
  "split_comma [] = [[]]"
| "split_comma (c # cs) =
     (if c = CHR '','' then [] # split_comma cs
      else case split_comma cs of [] \<Rightarrow> [[c]] | w # ws \<Rightarrow> (c # w) # ws)"

definition encode_call :: "(byte list \<Rightarrow> byte list) \<Rightarrow> string \<Rightarrow> abi_value list \<Rightarrow> exn + byte list" where
  "encode_call K signature args =
     (let rest = drop 1 (dropWhile (\<lambda>c. c \<noteq> CHR ''('') signature) in
      if rest = [] \<or> last rest \<noteq> CHR '')'' then Inl ValueError
      else let types_str = butlast rest;
               types = (if types_str = [] then [] else map strip (split_comma types_str))
           in map_sum id (\<lambda>a. function_selector K signature @ a) (encode_args types args))"

section \<open>Decoders\<close>

definition require_len :: "byte list \<Rightarrow> nat \<Rightarrow> exn + unit" where
  "require_len data n = (if length data < n then Inl ValueError else Inr ())"

definition decode_uint256 :: "byte list \<Rightarrow> nat \<Rightarrow> exn + int \<times> nat" where
  "decode_uint256 data offset =
     bind_result (require_len (drop offset data) 32) (\<lambda>_.
     Inr (from_bytes (slice offset (offset + 32) data), offset + 32))"

definition decode_bool :: "byte list \<Rightarrow> nat \<Rightarrow> exn + bool \<times> nat" where
  "decode_bool data offset =
     bind_result (decode_uint256 data offset) (\<lambda>(v, new_off). Inr (v \<noteq> 0, new_off))"

definition decode_address :: "byte list \<Rightarrow> nat \<Rightarrow> exn + string \<times> nat" where
  "decode_address data offset =
     bind_result (require_len (drop offset data) 32) (\<lambda>_.
     Inr (''0x'' @ hex_of_bytes (slice (offset + 12) (offset + 32) data), offset + 32))"

definition decode_bytes32 :: "byte list \<Rightarrow> nat \<Rightarrow> exn + byte list \<times> nat" where
  "decode_bytes32 data offset =
     bind_result (require_len (drop offset data) 32) (\<lambda>_.
     Inr (slice offset (offset + 32) data, offset + 32))"

definition decode_bytes :: "byte list \<Rightarrow> nat \<Rightarrow> nat \<Rightarrow> exn + byte list \<times> nat" where
  "decode_bytes data base offset =
     bind_result (decode_uint256 data offset) (\<lambda>(ptr, off2).
     bind_result (decode_uint256 data (base + nat ptr)) (\<lambda>(len, _).
     let start = base + nat ptr + 32; finish = start + ((nat len + 31) div 32) * 32 in
     bind_result (require_len data finish) (\<lambda>_.
     Inr (slice start (start + nat len) data, off2))))"

definition decode_string :: "byte list \<Rightarrow> nat \<Rightarrow> nat \<Rightarrow> exn + byte list \<times> nat" where
  "decode_string data base offset =
     bind_result (decode_bytes data base offset) (\<lambda>(b, off). Inr (decode_replace b, off))"


section \<open>Decoding what was encoded\<close>

text \<open>
  The decoder of each type, and the value it gives back: an address comes back as lower-case
  text with 40 digits, text as its bytes; \<open>int256\<close> has no decoder of its own.
\<close>

definition decode_value :: "string \<Rightarrow> byte list \<Rightarrow> nat \<Rightarrow> exn + abi_value \<times> nat" where
  "decode_value t data off =
     (if t = ''bool'' then map_sum id (map_prod VBool id) (decode_bool data off)
      else if t = ''address'' then map_sum id (map_prod VText id) (decode_address data off)
      else if t = ''bytes32'' then map_sum id (map_prod VBytes id) (decode_bytes32 data off)
      else if t = ''bytes'' then map_sum id (map_prod VBytes id) (decode_bytes data 0 off)
      else if t = ''string'' then map_sum id (map_prod VBytes id) (decode_string data 0 off)
      else map_sum id (map_prod VInt id) (decode_uint256 data off))"

definition decoded :: "string \<Rightarrow> abi_value \<Rightarrow> abi_value" where
  "decoded t v =
     (case v of
        VInt n \<Rightarrow> VInt (n mod 2 ^ 256)
      | VText a \<Rightarrow>
          if t = ''address'' then VText (case fromhex (zfill 40 (strip_0x a)) of Inr raw \<Rightarrow> ''0x'' @ hex_of_bytes raw | _ \<Rightarrow> [])
          else VBytes (if t = ''bytes32'' then (case fromhex a of Inr b \<Rightarrow> b | _ \<Rightarrow> []) else utf8 a)
      | VBytes b \<Rightarrow> VBytes (if t = ''string'' then decode_replace b else b)
      | VBool b \<Rightarrow> VBool b)"

lemma bind_result_Inr: "bind_result r f = Inr y \<longleftrightarrow> (\<exists>a. r = Inr a \<and> f a = Inr y)"
  by (cases r) (simp_all add: bind_result_def)

lemma bind_result_ok [simp]: "bind_result (Inr a) f = f a"
  by (simp add: bind_result_def)

lemma encode_uint256_Inr:
  "encode_uint256 n = Inr w \<longleftrightarrow> 0 \<le> n \<and> n < 256 ^ 32 \<and> w = be_bytes 32 n"
  by (auto simp: encode_uint256_def map_sum_Inr to_bytes_def pad_left_def split: if_splits)

text \<open>Words at an offset of the data.\<close>

lemma decode_uint256_at: "length p = off \<Longrightarrow> length w = 32 \<Longrightarrow> decode_uint256 (p @ w @ q) off = Inr (from_bytes w, off + 32)"
  by (simp add: decode_uint256_def require_len_def slice_def)

lemma decode_uint256_be:
  "length p = off \<Longrightarrow> 0 \<le> n \<Longrightarrow> n < 256 ^ 32 \<Longrightarrow> decode_uint256 (p @ be_bytes 32 n @ q) off = Inr (n, off + 32)"
  by (simp add: decode_uint256_at from_bytes_be_bytes)

lemma decode_address_at:
  "length p = off \<Longrightarrow> length raw = 20 \<Longrightarrow> decode_address (p @ pad_left raw 32 @ q) off = Inr (''0x'' @ hex_of_bytes raw, off + 32)"
  by (simp add: decode_address_def require_len_def slice_def pad_left_def zeros_def)

lemma decode_bytes32_at:
  "length p = off \<Longrightarrow> length w = 32 \<Longrightarrow> decode_bytes32 (p @ w @ q) off = Inr (w, off + 32)"
  by (simp add: decode_bytes32_def require_len_def slice_def)

lemma round_up: "(if n mod 32 = 0 then n else n + (32 - n mod 32)) = (n + 31) div 32 * (32 :: nat)"
proof -
  define q r where "q = n div 32" and "r = n mod 32"
  then have n: "n = 32 * q + r" and r: "r < 32" by simp_all
  then have "(n + 31) div 32 = q + (r + 31) div 32" by simp
  moreover have "(r + 31) div 32 = (if r = 0 then 0 else 1)"
    using r by (auto intro: div_nat_eqI)
  ultimately show ?thesis using n r by simp
qed

lemma length_pad_right: "length (pad_right b 32) = (length b + 31) div 32 * 32"
  unfolding round_up [symmetric] by (simp add: pad_right_def)

lemma pad_right_prefix: "\<exists>z. pad_right b n = b @ z"
  by (auto simp: pad_right_def)

lemma encode_bytes_Inr:
  "encode_bytes b = Inr enc \<longleftrightarrow> int (length b) < 256 ^ 32 \<and> enc = be_bytes 32 (int (length b)) @ pad_right b 32"
  by (auto simp: encode_bytes_def map_sum_Inr encode_uint256_Inr)

lemma decode_bytes_at:
  assumes "encode_bytes b = Inr enc" and "length p = off" and "ptr = int (length p + 32 + length q)" and "ptr < 256 ^ 32"
  shows "decode_bytes (p @ be_bytes 32 ptr @ q @ enc @ r) 0 off = Inr (b, off + 32)"
proof -
  let ?data = "p @ be_bytes 32 ptr @ q @ enc @ r"
  have enc: "enc = be_bytes 32 (int (length b)) @ pad_right b 32" and b: "int (length b) < 256 ^ 32"
    using assms(1) by (simp_all add: encode_bytes_Inr)
  have 1: "decode_uint256 ?data off = Inr (ptr, off + 32)"
    using assms(2,3,4) by (intro decode_uint256_be) simp_all
  have "decode_uint256 ((p @ be_bytes 32 ptr @ q) @ be_bytes 32 (int (length b)) @ pad_right b 32 @ r) (0 + nat ptr)
      = Inr (int (length b), 0 + nat ptr + 32)"
    using assms(3) b by (intro decode_uint256_be) simp_all
  then have 2: "decode_uint256 ?data (0 + nat ptr) = Inr (int (length b), 0 + nat ptr + 32)" by (simp add: enc)
  obtain z where z: "pad_right b 32 = b @ z" using pad_right_prefix by blast
  have n: "nat ptr = length p + 32 + length q" using assms(3) by simp
  have "slice (nat ptr + 32) (nat ptr + 32 + length b) ?data = b"
    by (simp add: slice_def n enc z)
  moreover have "nat ptr + 32 + (length b + 31) div 32 * 32 \<le> length ?data"
    by (simp add: n enc length_pad_right)
  ultimately show ?thesis
    using 1 2 by (simp add: decode_bytes_def Let_def require_len_def)
qed

lemma utf8_char_cases:
  "utf8_char c = [word_of_int (of_char c)] \<and> (of_char c :: int) < 128
   \<or> (\<exists>a b. utf8_char c = [a, b] \<and> sequence_length a = 2 \<and> second_ok a b)"
proof (cases "(of_char c :: int) < 128")
  case False
  let ?n = "of_char c :: int"
  have "?n < 256"
    using of_char_mod_256 [of c, where ?'a = int] pos_mod_bound [of 256 ?n] by simp
  with False have n: "128 \<le> ?n" "?n < 256" by simp_all
  let ?a = "word_of_int (0xC0 + ?n div 64) :: byte" and ?b = "word_of_int (0x80 + ?n mod 64) :: byte"
  have "?n div 64 = 2 \<or> ?n div 64 = 3" using n by presburger
  then have "sequence_length ?a = 2" and a: "?a \<noteq> 0xE0" "?a \<noteq> 0xED" "?a \<noteq> 0xF0" "?a \<noteq> 0xF4"
    by (auto simp: sequence_length_def)
  moreover have "uint ?b = 0x80 + ?n mod 64"
    unfolding uint_word_of_int by simp
  then have "0x80 \<le> ?b" "?b \<le> 0xBF"
    by (simp_all add: word_le_def)
  ultimately show ?thesis using False by (auto simp: utf8_char_def Let_def second_ok_def)
qed (auto simp: utf8_char_def)

lemma decode_replace_utf8: "decode_replace (utf8 s) = utf8 s"
proof (induction s)
  case (Cons c s)
  have utf8: "utf8 (c # s) = utf8_char c @ utf8 s" by (simp add: utf8_def)
  from utf8_char_cases [of c] show ?case
  proof (elim disjE exE conjE)
    assume c: "utf8_char c = [word_of_int (of_char c)]" "(of_char c :: int) < 128"
    then have "sequence_length (word_of_int (of_char c)) = 1"
      by (simp add: sequence_length_def word_less_def uint_word_of_int)
    moreover from this have "well_formed_tail (word_of_int (of_char c)) 0 (utf8 s) = 0"
      by (simp add: well_formed_tail_def split: list.split)
    ultimately show ?thesis using c Cons.IH by (simp add: utf8)
  next
    fix a b assume "utf8_char c = [a, b]" "sequence_length a = 2" "second_ok a b"
    with Cons.IH show ?thesis by (simp add: utf8 well_formed_tail_def)
  qed
qed (simp add: utf8_def)


text \<open>A value in the head, at the end of the bytes \<open>p\<close>.\<close>

lemma encode_static_at:
  assumes "encode_static t v = Inr h" and "\<not> is_dynamic t" and "length p = off"
  shows "length h = 32 \<and> decode_value t (p @ h @ q) off = Inr (decoded t v, off + 32)"
proof (cases v)
  case (VInt n)
  with assms consider "t = ''uint256''" "encode_uint256 n = Inr h" | "t = ''int256''" "encode_int256 n = Inr h"
    by (auto simp: encode_static_def split: if_splits)
  then show ?thesis
  proof cases
    case 1
    with VInt assms(3) show ?thesis
      by (simp add: encode_uint256_Inr decode_value_def decoded_def decode_uint256_be)
  next
    case 2
    then have "h = be_bytes 32 (n mod 2 ^ 256)"
      by (auto simp: encode_int256_def map_sum_Inr to_bytes_def pad_left_def split: if_splits)
    with 2 VInt assms(3) show ?thesis
      by (simp add: decode_value_def decoded_def decode_uint256_be)
  qed
next
  case (VBool b)
  with assms have "t = ''bool''" and "encode_uint256 (if b then 1 else 0) = Inr h"
    by (auto simp: encode_static_def encode_bool_def split: if_splits)
  with VBool assms(3) show ?thesis
    by (auto simp: encode_uint256_Inr decode_value_def decoded_def decode_bool_def decode_uint256_be simp del: be_bytes.simps)
next
  case (VText a)
  show ?thesis
  proof (cases "t = ''address''")
    case True
    with VText assms obtain raw where raw: "fromhex (zfill 40 (strip_0x a)) = Inr raw" "length raw = 20" "h = pad_left raw 32"
      by (auto simp: encode_static_def encode_address_def Let_def bind_result_Inr split: if_splits)
    then have "length h = 32" by (simp add: pad_left_def)
    with True VText raw assms(3) decode_address_at [OF assms(3) raw(2), of q] show ?thesis
      by (simp add: decode_value_def decoded_def)
  next
    case False
    with VText assms have "t = ''bytes32''" "fromhex a = Inr h" "length h = 32"
      by (auto simp: encode_static_def encode_bytes32_def bind_result_Inr split: if_splits)
    with VText decode_bytes32_at [OF assms(3)] show ?thesis by (simp add: decode_value_def decoded_def)
  qed
next
  case (VBytes b)
  with assms have "t = ''bytes32''" "h = b" "length h = 32"
    by (auto simp: encode_static_def encode_bytes32_def split: if_splits)
  with VBytes decode_bytes32_at [OF assms(3)] show ?thesis by (simp add: decode_value_def decoded_def)
qed

lemma encode_dynamic_at:
  assumes "encode_dynamic v = Inr enc" and "is_dynamic t" and "length p = off"
    and "ptr = int (length p + 32 + length q)" and "ptr < 256 ^ 32"
  shows "decode_value t (p @ be_bytes 32 ptr @ q @ enc @ r) off = Inr (decoded t v, off + 32)"
proof -
  from assms(1) consider b where "v = VBytes b" "encode_bytes b = Inr enc" | s where "v = VText s" "encode_bytes (utf8 s) = Inr enc"
    by (auto simp: encode_dynamic_def encode_string_def split: abi_value.splits)
  then show ?thesis
  proof cases
    case 1
    from decode_bytes_at [OF 1(2) assms(3,4,5)] 1(1) assms(2) show ?thesis
      by (auto simp: is_dynamic_def decode_value_def decode_string_def decoded_def)
  next
    case 2
    from decode_bytes_at [OF 2(2) assms(3,4,5)] 2(1) assms(2) show ?thesis
      by (auto simp: is_dynamic_def decode_value_def decode_string_def decoded_def decode_replace_utf8)
  qed
qed

lemma encode_parts_length: "encode_parts hs off args = Inr (H, T) \<Longrightarrow> length H = 32 * length args"
proof (induction hs off args arbitrary: H T rule: encode_parts.induct)
  case (2 hs off t v rest)
  show ?case
  proof (cases "is_dynamic t")
    case True
    with 2 show ?thesis by (fastforce simp: bind_result_Inr encode_uint256_Inr)
  next
    case False
    with 2 encode_static_at [OF _ False, of v _ "[]" 0] show ?thesis by (fastforce simp: bind_result_Inr)
  qed
qed simp

lemma encode_parts_decode:
  assumes "encode_parts hs off args = Inr (H, T)" and "length P = n"
    and "hs = int (length P + length H)" and "off = int (length TP)" and "i < length args"
  shows "decode_value (fst (args ! i)) (P @ H @ TP @ T) (n + 32 * i) = Inr (case_prod decoded (args ! i), n + 32 * i + 32)"
  using assms
proof (induction args arbitrary: off H T P TP n i)
  case (Cons tv rest)
  obtain t v where tv: "tv = (t, v)" by fastforce
  show ?case
  proof (cases "is_dynamic t")
    case True
    with Cons.prems(1) tv obtain h enc H' T' where
      h: "encode_uint256 (hs + off) = Inr h" and enc: "encode_dynamic v = Inr enc" and
      rest: "encode_parts hs (off + int (length enc)) rest = Inr (H', T')" and eq: "H = h @ H'" "T = enc @ T'"
      by (auto simp: bind_result_Inr)
    from h have h': "h = be_bytes 32 (hs + off)" "hs + off < 256 ^ 32" and lh: "length h = 32"
      by (simp_all add: encode_uint256_Inr)
    show ?thesis
    proof (cases i)
      case 0
      have "decode_value t (P @ be_bytes 32 (hs + off) @ (H' @ TP) @ enc @ T') n = Inr (decoded t v, n + 32)"
        by (rule encode_dynamic_at [OF enc True Cons.prems(2) _ h'(2)]) (simp add: Cons.prems(3,4) eq lh)
      with 0 tv show ?thesis by (simp add: eq h')
    next
      case (Suc j)
      have "decode_value (fst (rest ! j)) ((P @ h) @ H' @ (TP @ enc) @ T') (n + 32 + 32 * j)
          = Inr (case_prod decoded (rest ! j), n + 32 + 32 * j + 32)"
        by (rule Cons.IH [OF rest]) (use Cons.prems(5) Suc in \<open>simp_all add: Cons.prems(2-4) eq lh\<close>)
      with Suc show ?thesis by (simp add: eq algebra_simps)
    qed
  next
    case False
    with Cons.prems(1) tv obtain h H' where
      h: "encode_static t v = Inr h" and rest: "encode_parts hs off rest = Inr (H', T)" and eq: "H = h @ H'"
      by (auto simp: bind_result_Inr)
    note at = encode_static_at [OF h False Cons.prems(2)]
    show ?thesis
    proof (cases i)
      case 0
      from at [of "H' @ TP @ T"] 0 tv show ?thesis by (simp add: eq)
    next
      case (Suc j)
      have "decode_value (fst (rest ! j)) ((P @ h) @ H' @ TP @ T) (n + 32 + 32 * j)
          = Inr (case_prod decoded (rest ! j), n + 32 + 32 * j + 32)"
        by (rule Cons.IH [OF rest]) (use Cons.prems(5) Suc in \<open>simp_all add: Cons.prems(2-4) eq at\<close>)
      with Suc show ?thesis by (simp add: eq algebra_simps)
    qed
  qed
qed simp

section \<open>Properties\<close>

text \<open>
  arguments that \<open>encode_args\<close> encodes are read back by the decoders of their types, each
  at its place in the head, whatever follows; dynamic values are found through their offsets.
\<close>

lemma abi_roundtrip:
  assumes "encode_args types values = Inr data" and "i < length types"
  shows "decode_value (types ! i) data (32 * i) = Inr (decoded (types ! i) (values ! i), 32 * i + 32)"
proof -
  from assms(1) obtain H T where "length types = length values" and data: "data = H @ T"
    and parts: "encode_parts (32 * int (length types)) 0 (zip types values) = Inr (H, T)"
    by (auto simp: encode_args_def map_sum_Inr split: if_splits)
  with encode_parts_decode [OF parts, of "[]" 0 "[]" i] encode_parts_length [OF parts] assms(2)
  show ?thesis by simp
qed

end
