(* ===== verification/BuiltinTokens.thy ===== *)
theory BuiltinTokens
  imports Abi EvmContext
begin

text \<open>
  The ERC20 part of \<open>src/xai/core/vm/evm/builtin_tokens.py\<close>: tokens whose whole state lies
  in the storage slots of their contract, called with ABI-encoded data. A handler is a method
  on the record \<open>builtin\<close>: the storage, the logs of the call and the world outside of it,
  which only the receive hook changes. Its environment holds the hash, the address of the
  contract, the hook and the clock.
\<close>

section \<open>State and environment\<close>

record token_log =
  tl_address :: string
  tl_topics :: "string list"
  tl_data :: string

record 'w builtin =
  world :: 'w
  token_store :: evm_storage
  token_logs :: "token_log list"

type_synonym ('w, 'a) tok = "('w builtin, 'a) meth"
type_synonym 'w hook = "string \<Rightarrow> string \<Rightarrow> string \<Rightarrow> int \<Rightarrow> byte list \<Rightarrow> ('w, unit) meth"

record 'w token_env =
  env_hash :: "byte list \<Rightarrow> byte list"
  env_address :: string
  env_hook :: "'w hook option"
  env_now :: int

type_synonym 'w token_handler = "byte list \<Rightarrow> string \<Rightarrow> ('w, byte list) tok"

section \<open>Addresses, topics and slots\<close>

definition token_normalize :: "string \<Rightarrow> string" where
  "token_normalize a =
     (if a = [] then ZERO_ADDRESS else if starts_with ''0x'' a then to_lower a else ''0x'' @ to_lower a)"

definition encode_address_topic :: "string \<Rightarrow> exn + string" where
  "encode_address_topic a =
     map_sum id (\<lambda>raw. ''0x'' @ hex_of_bytes (zeros (32 - length raw) @ raw)) (fromhex (drop 2 (token_normalize a)))"

definition address_key :: "string \<Rightarrow> exn + int" where
  "address_key a = parse_int 16 (drop 2 (token_normalize a))"

definition hash_slot :: "(byte list \<Rightarrow> byte list) \<Rightarrow> int \<Rightarrow> int \<Rightarrow> exn + int" where
  "hash_slot K base key =
     bind_result (to_bytes 32 key) (\<lambda>k. bind_result (to_bytes 32 base) (\<lambda>s. Inr (from_bytes (K (k @ s)))))"

definition mapping_slot :: "(byte list \<Rightarrow> byte list) \<Rightarrow> int \<Rightarrow> string \<Rightarrow> exn + int" where
  "mapping_slot K base a = bind_result (address_key a) (hash_slot K base)"

definition double_mapping_slot :: "(byte list \<Rightarrow> byte list) \<Rightarrow> int \<Rightarrow> string \<Rightarrow> string \<Rightarrow> exn + int" where
  "double_mapping_slot K base a b = bind_result (mapping_slot K base a) (\<lambda>first. mapping_slot K first b)"

section \<open>Slots as methods\<close>

definition get_slot :: "int \<Rightarrow> ('w, int) tok" where
  "get_slot k = reads (\<lambda>b. get_raw (token_store b) k)"

definition set_slot :: "int \<Rightarrow> int \<Rightarrow> ('w, unit) tok" where
  "set_slot k v = modify (\<lambda>b. b\<lparr>token_store := set_raw k v (token_store b)\<rparr>)"

definition STRING_CHUNKS :: nat where "STRING_CHUNKS = 3"
definition STRING_MAX_BYTES :: nat where "STRING_MAX_BYTES = 96"

definition pad_chunk :: "byte list \<Rightarrow> byte list" where
  "pad_chunk b = b @ zeros (32 - length b)"

text \<open>Text on its way into the storage is given as its UTF-8 bytes.\<close>

definition write_string :: "int \<Rightarrow> byte list \<Rightarrow> ('w, unit) tok" where
  "write_string base_slot data =
     and_then (raise_if (\<lambda>_. length data > STRING_MAX_BYTES) (VMExecutionError StorageLimit)) (\<lambda>_.
     and_then (set_slot base_slot (int (length data))) (\<lambda>_.
     seq (map (\<lambda>i. set_slot (base_slot + 1 + int i)
       (if i < (length data + 31) div 32 then from_bytes (pad_chunk (slice (i * 32) ((i + 1) * 32) data)) else 0))
       [0..<STRING_CHUNKS])))"

definition read_string :: "int \<Rightarrow> ('w, byte list) tok" where
  "read_string base_slot = reads (\<lambda>b.
     let len = nat (get_raw (token_store b) base_slot); chunks = (len + 31) div 32 in
     if len = 0 then []
     else decode_replace (take len
       (concat (map (\<lambda>i. be_bytes 32 (get_raw (token_store b) (base_slot + 1 + int i))) [0..<min chunks STRING_CHUNKS]))))"

definition write_address :: "int \<Rightarrow> string \<Rightarrow> ('w, unit) tok" where
  "write_address slot a = and_then (lift_result (address_key a)) (set_slot slot)"

text \<open>The last 20 bytes of a word as an address.\<close>

definition word_address :: "int \<Rightarrow> string" where
  "word_address v = ''0x'' @ hex_of_bytes (drop 12 (be_bytes 32 v))"

definition read_address :: "int \<Rightarrow> ('w, string) tok" where
  "read_address slot = and_then (get_slot slot) (\<lambda>v. ret (word_address v))"

section \<open>The storage layout of an ERC20 token\<close>

definition VERSION_SLOT :: int where "VERSION_SLOT = 0"
definition NAME_SLOT :: int where "NAME_SLOT = 1"
definition SYMBOL_SLOT :: int where "SYMBOL_SLOT = 10"
definition DECIMALS_SLOT :: int where "DECIMALS_SLOT = 20"
definition TOTAL_SUPPLY_SLOT :: int where "TOTAL_SUPPLY_SLOT = 21"
definition OWNER_SLOT :: int where "OWNER_SLOT = 22"
definition MAX_SUPPLY_SLOT :: int where "MAX_SUPPLY_SLOT = 23"
definition PAUSED_SLOT :: int where "PAUSED_SLOT = 24"
definition DOMAIN_SEPARATOR_SLOT :: int where "DOMAIN_SEPARATOR_SLOT = 50"
definition BALANCES_BASE :: int where "BALANCES_BASE = 1000"
definition ALLOWANCES_BASE :: int where "ALLOWANCES_BASE = 2000"
definition NONCES_BASE :: int where "NONCES_BASE = 3000"

definition VERSION_VALUE :: int where
  "VERSION_VALUE = from_bytes (zeros 25 @ utf8 ''XAI20V1'')"

lemmas slot_constants = VERSION_SLOT_def NAME_SLOT_def SYMBOL_SLOT_def DECIMALS_SLOT_def TOTAL_SUPPLY_SLOT_def
  OWNER_SLOT_def MAX_SUPPLY_SLOT_def PAUSED_SLOT_def DOMAIN_SEPARATOR_SLOT_def BALANCES_BASE_def
  ALLOWANCES_BASE_def NONCES_BASE_def

definition get_token_balance :: "'w token_env \<Rightarrow> string \<Rightarrow> ('w, int) tok" where
  "get_token_balance env a = and_then (lift_result (mapping_slot (env_hash env) BALANCES_BASE a)) get_slot"

definition set_token_balance :: "'w token_env \<Rightarrow> string \<Rightarrow> int \<Rightarrow> ('w, unit) tok" where
  "set_token_balance env a v =
     and_then (lift_result (mapping_slot (env_hash env) BALANCES_BASE a)) (\<lambda>slot. set_slot slot v)"

definition get_token_allowance :: "'w token_env \<Rightarrow> string \<Rightarrow> string \<Rightarrow> ('w, int) tok" where
  "get_token_allowance env own spender =
     and_then (lift_result (double_mapping_slot (env_hash env) ALLOWANCES_BASE own spender)) get_slot"

definition set_token_allowance :: "'w token_env \<Rightarrow> string \<Rightarrow> string \<Rightarrow> int \<Rightarrow> ('w, unit) tok" where
  "set_token_allowance env own spender v =
     and_then (lift_result (double_mapping_slot (env_hash env) ALLOWANCES_BASE own spender)) (\<lambda>slot. set_slot slot v)"

definition get_token_nonce :: "'w token_env \<Rightarrow> string \<Rightarrow> ('w, int) tok" where
  "get_token_nonce env own = and_then (lift_result (mapping_slot (env_hash env) NONCES_BASE own)) get_slot"

definition increment_token_nonce :: "'w token_env \<Rightarrow> string \<Rightarrow> ('w, int) tok" where
  "increment_token_nonce env own =
     and_then (lift_result (mapping_slot (env_hash env) NONCES_BASE own)) (\<lambda>slot.
     and_then (get_slot slot) (\<lambda>current.
     and_then (set_slot slot (current + 1)) (\<lambda>_. ret current)))"

text \<open>The domain separator hashes the text of the metadata with the owner after it.\<close>

definition initialize_token :: "'w token_env \<Rightarrow> string \<Rightarrow> string \<Rightarrow> int \<Rightarrow> string \<Rightarrow> int \<Rightarrow> ('w, unit) tok" where
  "initialize_token env nm symbol decimals own cap =
     seq [set_slot VERSION_SLOT VERSION_VALUE, write_string NAME_SLOT (utf8 nm), write_string SYMBOL_SLOT (utf8 symbol),
       set_slot DECIMALS_SLOT decimals, set_slot TOTAL_SUPPLY_SLOT 0, set_slot MAX_SUPPLY_SLOT cap,
       set_slot PAUSED_SLOT 0, write_address OWNER_SLOT own,
       set_slot DOMAIN_SEPARATOR_SLOT (from_bytes (env_hash env
         (utf8 (nm @ '':'' @ symbol @ '':'' @ dec_text decimals) @ utf8 own)))]"


section \<open>Construction\<close>

text \<open>The balances an entry comes with, stored one by one; the result is their sum.\<close>

primrec store_balances :: "'w token_env \<Rightarrow> (string \<times> int) list \<Rightarrow> ('w, int) tok" where
  "store_balances env [] = ret 0"
| "store_balances env (kv # kvs) =
     and_then (set_token_balance env (fst kv) (snd kv)) (\<lambda>_.
     and_then (store_balances env kvs) (\<lambda>total. ret (snd kv + total)))"

definition meta_get :: "('m \<Rightarrow> 'a option) \<Rightarrow> 'm \<Rightarrow> 'a \<Rightarrow> 'a" where
  "meta_get f m d = (case f m of Some v \<Rightarrow> v | None \<Rightarrow> d)"

definition distribute_supply :: "'w token_env \<Rightarrow> token_meta \<Rightarrow> ('w, unit) tok" where
  "distribute_supply env m =
     (case m_balances m of
        Some (kv # kvs) \<Rightarrow> and_then (store_balances env (kv # kvs)) (set_slot TOTAL_SUPPLY_SLOT)
      | _ \<Rightarrow>
         (let initial_supply = meta_get m_initial_supply m (meta_get m_total_supply m 0);
              distributor = token_normalize (meta_get m_initial_holder m (meta_get m_owner m ZERO_ADDRESS))
          in if initial_supply > 0 \<and> distributor \<noteq> ZERO_ADDRESS
             then and_then (set_slot TOTAL_SUPPLY_SLOT initial_supply) (\<lambda>_. set_token_balance env distributor initial_supply)
             else ret ()))"

definition construct_token :: "'w token_env \<Rightarrow> token_meta \<Rightarrow> ('w, unit) tok" where
  "construct_token env m =
     and_then (get_slot VERSION_SLOT) (\<lambda>version.
     if version = VERSION_VALUE then ret ()
     else and_then (initialize_token env (meta_get m_name m []) (meta_get m_symbol m []) (meta_get m_decimals m 18)
            (token_normalize (meta_get m_owner m ZERO_ADDRESS)) (meta_get m_max_supply m 0)) (\<lambda>_.
          distribute_supply env m))"

section \<open>Handlers\<close>

definition TRANSFER_TOPIC :: string where
  "TRANSFER_TOPIC = ''0xddf252ad1be2c89b69c2b068fc378daa952ba7f163c4a11628f55a4df523b3ef''"

definition APPROVAL_TOPIC :: string where
  "APPROVAL_TOPIC = ''0x8c5be1e5ebec7d5bd14f714f1fdfcbf8f286d71c2d0d0eebe5d4b59eb93dfff6''"

definition STATEFUL_FUNCTIONS :: "string list" where
  "STATEFUL_FUNCTIONS = [''a9059cbb'', ''095ea7b3'', ''23b872dd'', ''40c10f19'', ''42966c68'', ''79cc6790'',
     ''8456cb59'', ''3f4ba83a'', ''f2fde38b'', ''d505accf'']"

definition append_log :: "'w token_env \<Rightarrow> string \<Rightarrow> string \<Rightarrow> string \<Rightarrow> int \<Rightarrow> ('w, unit) tok" where
  "append_log env topic a b v =
     and_then (lift_result (encode_address_topic a)) (\<lambda>ta.
     and_then (lift_result (encode_address_topic b)) (\<lambda>tb.
     and_then (lift_result (encode_uint256 v)) (\<lambda>d.
     modify (\<lambda>s. s\<lparr>token_logs := token_logs s @
       [\<lparr>tl_address = env_address env, tl_topics = [topic, ta, tb], tl_data = hex_of_bytes d\<rparr>]\<rparr>))))"

definition returns :: "exn + byte list \<Rightarrow> ('w, byte list) tok" where
  "returns r = lift_result r"

text \<open>\<open>try: m except VMExecutionError: cleanup; raise\<close>\<close>

definition on_failure :: "('s, 'a) meth \<Rightarrow> ('s, unit) meth \<Rightarrow> ('s, 'a) meth" where
  "on_failure m cleanup s =
     (case m s of
        (Inl (VMExecutionError c), t) \<Rightarrow> and_then cleanup (\<lambda>_. raise (VMExecutionError c)) t
      | (Inl e, t) \<Rightarrow> (Inl e, t)
      | (Inr a, t) \<Rightarrow> (Inr a, t))"

definition trigger_receive_hook :: "'w token_env \<Rightarrow> string \<Rightarrow> string \<Rightarrow> string \<Rightarrow> int \<Rightarrow> byte list \<Rightarrow> ('w, unit) tok" where
  "trigger_receive_hook env operator from_addr to_addr amount data =
     (case env_hook env of
        None \<Rightarrow> ret ()
      | Some hook \<Rightarrow>
          if amount \<le> 0 \<or> token_normalize to_addr = ZERO_ADDRESS then ret ()
          else zoom world world_update (hook operator from_addr to_addr amount data))"

definition token_require_owner :: "string \<Rightarrow> ('w, unit) tok" where
  "token_require_owner who =
     and_then (read_address OWNER_SLOT) (\<lambda>own.
     raise_if (\<lambda>_. token_normalize who \<noteq> token_normalize own) (VMExecutionError CallerNotOwner))"

definition token_require_not_paused :: "('w, unit) tok" where
  "token_require_not_paused =
     and_then (get_slot PAUSED_SLOT) (\<lambda>p. raise_if (\<lambda>_. p = 1) (VMExecutionError TokenPaused))"

definition handle_name :: "'w token_handler" where
  "handle_name data sender =
     and_then (read_string NAME_SLOT) (\<lambda>n. returns (encode_args [''string''] [VBytes n]))"

definition handle_symbol :: "'w token_handler" where
  "handle_symbol data sender =
     and_then (read_string SYMBOL_SLOT) (\<lambda>n. returns (encode_args [''string''] [VBytes n]))"

definition handle_decimals :: "'w token_handler" where
  "handle_decimals data sender = and_then (get_slot DECIMALS_SLOT) (\<lambda>v. returns (encode_uint256 v))"

definition handle_total_supply :: "'w token_handler" where
  "handle_total_supply data sender = and_then (get_slot TOTAL_SUPPLY_SLOT) (\<lambda>v. returns (encode_uint256 v))"

definition handle_balance_of :: "'w token_env \<Rightarrow> 'w token_handler" where
  "handle_balance_of env data sender =
     and_then (lift_result (decode_address data 0)) (\<lambda>(addr, _).
     and_then (get_token_balance env addr) (\<lambda>balance. returns (encode_uint256 balance)))"

definition handle_allowance :: "'w token_env \<Rightarrow> 'w token_handler" where
  "handle_allowance env data sender =
     and_then (lift_result (decode_address data 0)) (\<lambda>(own, offset).
     and_then (lift_result (decode_address data offset)) (\<lambda>(spender, _).
     and_then (get_token_allowance env own spender) (\<lambda>amount. returns (encode_uint256 amount))))"

text \<open>Both balances are read before the first is written.\<close>

definition handle_transfer :: "'w token_env \<Rightarrow> 'w token_handler" where
  "handle_transfer env data sender =
     and_then token_require_not_paused (\<lambda>_.
     and_then (lift_result (decode_address data 0)) (\<lambda>(to_addr, offset).
     and_then (lift_result (decode_uint256 data offset)) (\<lambda>(amount, _).
     and_then (raise_if (\<lambda>_. amount < 0) (VMExecutionError InvalidAmount)) (\<lambda>_.
     and_then (get_token_balance env sender) (\<lambda>balance.
     and_then (raise_if (\<lambda>_. balance < amount) (VMExecutionError InsufficientBalance)) (\<lambda>_.
     and_then (get_token_balance env to_addr) (\<lambda>dest_balance.
     and_then (set_token_balance env sender (balance - amount)) (\<lambda>_.
     and_then (set_token_balance env to_addr (dest_balance + amount)) (\<lambda>_.
     and_then (on_failure (trigger_receive_hook env (env_address env) sender to_addr amount [])
        (seq [set_token_balance env sender balance, set_token_balance env to_addr dest_balance])) (\<lambda>_.
     and_then (append_log env TRANSFER_TOPIC sender to_addr amount) (\<lambda>_.
     returns (encode_bool True))))))))))))"

definition handle_approve :: "'w token_env \<Rightarrow> 'w token_handler" where
  "handle_approve env data sender =
     and_then (lift_result (decode_address data 0)) (\<lambda>(spender, offset).
     and_then (lift_result (decode_uint256 data offset)) (\<lambda>(amount, _).
     and_then (set_token_allowance env sender spender amount) (\<lambda>_.
     and_then (append_log env APPROVAL_TOPIC sender spender amount) (\<lambda>_.
     returns (encode_bool True)))))"

definition handle_transfer_from :: "'w token_env \<Rightarrow> 'w token_handler" where
  "handle_transfer_from env data sender =
     and_then token_require_not_paused (\<lambda>_.
     and_then (lift_result (decode_address data 0)) (\<lambda>(from_addr, offset).
     and_then (lift_result (decode_address data offset)) (\<lambda>(to_addr, offset).
     and_then (lift_result (decode_uint256 data offset)) (\<lambda>(amount, _).
     and_then (get_token_allowance env from_addr sender) (\<lambda>allowance.
     and_then (raise_if (\<lambda>_. allowance < amount) (VMExecutionError InsufficientAllowance)) (\<lambda>_.
     and_then (get_token_balance env to_addr) (\<lambda>recipient_balance.
     and_then (if allowance \<noteq> 2 ^ 256 - 1 then set_token_allowance env from_addr sender (allowance - amount) else ret ()) (\<lambda>_.
     and_then (get_token_balance env from_addr) (\<lambda>balance.
     and_then (raise_if (\<lambda>_. balance < amount) (VMExecutionError InsufficientBalance)) (\<lambda>_.
     and_then (set_token_balance env from_addr (balance - amount)) (\<lambda>_.
     and_then (set_token_balance env to_addr (recipient_balance + amount)) (\<lambda>_.
     and_then (on_failure (trigger_receive_hook env (env_address env) from_addr to_addr amount [])
        (seq [set_token_balance env from_addr balance, set_token_balance env to_addr recipient_balance,
              set_token_allowance env from_addr sender allowance])) (\<lambda>_.
     and_then (append_log env TRANSFER_TOPIC from_addr to_addr amount) (\<lambda>_.
     returns (encode_bool True)))))))))))))))"

definition handle_mint :: "'w token_env \<Rightarrow> 'w token_handler" where
  "handle_mint env data sender =
     and_then (token_require_owner sender) (\<lambda>_.
     and_then token_require_not_paused (\<lambda>_.
     and_then (lift_result (decode_address data 0)) (\<lambda>(to_addr, offset).
     and_then (lift_result (decode_uint256 data offset)) (\<lambda>(amount, _).
     and_then (raise_if (\<lambda>_. amount \<le> 0) (VMExecutionError InvalidAmount)) (\<lambda>_.
     and_then (get_slot MAX_SUPPLY_SLOT) (\<lambda>max_supply.
     and_then (get_slot TOTAL_SUPPLY_SLOT) (\<lambda>previous_supply.
     let new_total = previous_supply + amount in
     and_then (raise_if (\<lambda>_. max_supply \<noteq> 0 \<and> new_total > max_supply) (VMExecutionError SupplyCapExceeded)) (\<lambda>_.
     and_then (get_token_balance env to_addr) (\<lambda>recipient_balance.
     and_then (set_slot TOTAL_SUPPLY_SLOT new_total) (\<lambda>_.
     and_then (set_token_balance env to_addr (recipient_balance + amount)) (\<lambda>_.
     and_then (on_failure (trigger_receive_hook env (env_address env) ZERO_ADDRESS to_addr amount [])
        (seq [set_slot TOTAL_SUPPLY_SLOT previous_supply, set_token_balance env to_addr recipient_balance])) (\<lambda>_.
     and_then (append_log env TRANSFER_TOPIC ZERO_ADDRESS to_addr amount) (\<lambda>_.
     returns (encode_bool True))))))))))))))"

definition take_from_supply :: "int \<Rightarrow> ('w, unit) tok" where
  "take_from_supply amount = and_then (get_slot TOTAL_SUPPLY_SLOT) (\<lambda>total. set_slot TOTAL_SUPPLY_SLOT (total - amount))"

definition handle_burn :: "'w token_env \<Rightarrow> 'w token_handler" where
  "handle_burn env data sender =
     and_then token_require_not_paused (\<lambda>_.
     and_then (lift_result (decode_uint256 data 0)) (\<lambda>(amount, _).
     and_then (get_token_balance env sender) (\<lambda>balance.
     and_then (raise_if (\<lambda>_. balance < amount) (VMExecutionError InsufficientBalance)) (\<lambda>_.
     and_then (set_token_balance env sender (balance - amount)) (\<lambda>_.
     and_then (take_from_supply amount) (\<lambda>_.
     and_then (append_log env TRANSFER_TOPIC sender ZERO_ADDRESS amount) (\<lambda>_.
     returns (encode_bool True))))))))"

definition handle_burn_from :: "'w token_env \<Rightarrow> 'w token_handler" where
  "handle_burn_from env data sender =
     and_then (lift_result (decode_address data 0)) (\<lambda>(holder, offset).
     and_then (lift_result (decode_uint256 data offset)) (\<lambda>(amount, _).
     and_then (get_token_allowance env holder sender) (\<lambda>allowance.
     and_then (raise_if (\<lambda>_. allowance < amount) (VMExecutionError InsufficientAllowance)) (\<lambda>_.
     and_then (if allowance \<noteq> 2 ^ 256 - 1 then set_token_allowance env holder sender (allowance - amount) else ret ()) (\<lambda>_.
     and_then (get_token_balance env holder) (\<lambda>balance.
     and_then (raise_if (\<lambda>_. balance < amount) (VMExecutionError InsufficientBalance)) (\<lambda>_.
     and_then (set_token_balance env holder (balance - amount)) (\<lambda>_.
     and_then (take_from_supply amount) (\<lambda>_.
     and_then (append_log env TRANSFER_TOPIC holder ZERO_ADDRESS amount) (\<lambda>_.
     returns (encode_bool True)))))))))))"

definition handle_set_paused :: "bool \<Rightarrow> 'w token_handler" where
  "handle_set_paused b data sender =
     and_then (token_require_owner sender) (\<lambda>_.
     and_then (set_slot PAUSED_SLOT (if b then 1 else 0)) (\<lambda>_. returns (encode_bool True)))"

definition handle_transfer_ownership :: "'w token_handler" where
  "handle_transfer_ownership data sender =
     and_then (token_require_owner sender) (\<lambda>_.
     and_then (lift_result (decode_address data 0)) (\<lambda>(new_owner, _).
     and_then (raise_if (\<lambda>_. new_owner = ZERO_ADDRESS) (VMExecutionError ZeroAddress)) (\<lambda>_.
     and_then (write_address OWNER_SLOT new_owner) (\<lambda>_. returns (encode_bool True)))))"

definition handle_nonce :: "'w token_env \<Rightarrow> 'w token_handler" where
  "handle_nonce env data sender =
     and_then (lift_result (decode_address data 0)) (\<lambda>(own, _).
     and_then (get_token_nonce env own) (\<lambda>nonce. returns (encode_uint256 nonce)))"

definition handle_domain_separator :: "'w token_handler" where
  "handle_domain_separator data sender =
     and_then (get_slot DOMAIN_SEPARATOR_SLOT) (\<lambda>v. returns (to_bytes 32 v))"

text \<open>
  The signature \<open>v\<close>, \<open>r\<close>, \<open>s\<close> only must not be empty; \<open>r\<close> and \<open>s\<close> are decoded as
  dynamic bytes.
\<close>

definition handle_permit :: "'w token_env \<Rightarrow> 'w token_handler" where
  "handle_permit env data sender =
     and_then (lift_result (decode_address data 0)) (\<lambda>(own, base).
     and_then (lift_result (decode_address data base)) (\<lambda>(spender, base).
     and_then (lift_result (decode_uint256 data base)) (\<lambda>(value, base).
     and_then (lift_result (decode_uint256 data base)) (\<lambda>(deadline, base).
     and_then (lift_result (decode_uint256 data base)) (\<lambda>(v, base).
     and_then (lift_result (decode_bytes data 0 base)) (\<lambda>(r, base).
     and_then (lift_result (decode_bytes data 0 base)) (\<lambda>(s, _).
     and_then (raise_if (\<lambda>_. deadline < env_now env) (VMExecutionError PermitExpired)) (\<lambda>_.
     and_then (raise_if (\<lambda>_. v = 0 \<and> r = [] \<and> s = []) (VMExecutionError PermitMalformed)) (\<lambda>_.
     and_then (set_token_allowance env own spender value) (\<lambda>_.
     and_then (increment_token_nonce env own) (\<lambda>_.
     and_then (append_log env APPROVAL_TOPIC own spender value) (\<lambda>_.
     returns (encode_bool True)))))))))))))"

section \<open>Dispatch\<close>

definition erc20_handlers :: "'w token_env \<Rightarrow> (string \<times> 'w token_handler) list" where
  "erc20_handlers env =
     [(''06fdde03'', handle_name), (''95d89b41'', handle_symbol), (''313ce567'', handle_decimals),
      (''18160ddd'', handle_total_supply), (''70a08231'', handle_balance_of env), (''a9059cbb'', handle_transfer env),
      (''dd62ed3e'', handle_allowance env), (''095ea7b3'', handle_approve env), (''23b872dd'', handle_transfer_from env),
      (''40c10f19'', handle_mint env), (''42966c68'', handle_burn env), (''79cc6790'', handle_burn_from env),
      (''8456cb59'', handle_set_paused True), (''3f4ba83a'', handle_set_paused False),
      (''f2fde38b'', handle_transfer_ownership), (''d505accf'', handle_permit env), (''7ecebe00'', handle_nonce env),
      (''3644e515'', handle_domain_separator)]"

text \<open>The result is the return data with the gas used; the logs are those of this call.\<close>

definition execute_erc20 ::
    "'w token_env \<Rightarrow> string \<Rightarrow> byte list \<Rightarrow> string \<Rightarrow> int \<Rightarrow> bool \<Rightarrow> ('w, byte list \<times> int) tok" where
  "execute_erc20 env selector cdata sender value st =
     (let sender = token_normalize sender; selector_hex = to_lower selector in
      and_then (raise_if (\<lambda>_. st \<and> selector_hex \<in> set STATEFUL_FUNCTIONS) (VMExecutionError StaticViolation)) (\<lambda>_.
      and_then (raise_if (\<lambda>_. value \<noteq> 0) (VMExecutionError NativeValueRejected)) (\<lambda>_.
      (case map_of (erc20_handlers env) selector_hex of
         None \<Rightarrow> raise (VMExecutionError UnknownSelector)
       | Some handler \<Rightarrow>
           and_then (modify (\<lambda>b. b\<lparr>token_logs := []\<rparr>)) (\<lambda>_.
           and_then (handler cdata sender) (\<lambda>result.
           ret (result, if selector_hex \<in> set STATEFUL_FUNCTIONS then 50000 else 20000)))))))"


section \<open>The supply\<close>

text \<open>
  Accounts whose slots do not collide: the balances' slots are different from each other, from
  the fixed slots and from the slots of the accounts' allowances and nonces.
\<close>

definition the_slot :: "exn + int \<Rightarrow> int" where
  "the_slot r = (case r of Inr k \<Rightarrow> k | Inl _ \<Rightarrow> -1)"

definition balance_slot :: "(byte list \<Rightarrow> byte list) \<Rightarrow> string \<Rightarrow> int" where
  "balance_slot K a = the_slot (mapping_slot K BALANCES_BASE a)"

definition fixed_slots :: "int list" where
  "fixed_slots = [TOTAL_SUPPLY_SLOT, OWNER_SLOT, PAUSED_SLOT]"

definition layout_ok :: "(byte list \<Rightarrow> byte list) \<Rightarrow> string list \<Rightarrow> bool" where
  "layout_ok K accounts \<longleftrightarrow> distinct accounts \<and>
     distinct (fixed_slots @ map (balance_slot K) accounts) \<and>
     list_all (\<lambda>a. the_slot (mapping_slot K NONCES_BASE a) \<notin> set (TOTAL_SUPPLY_SLOT # map (balance_slot K) accounts)
       \<and> list_all (\<lambda>b. the_slot (double_mapping_slot K ALLOWANCES_BASE a b)
            \<notin> set (TOTAL_SUPPLY_SLOT # map (balance_slot K) accounts)) accounts) accounts"

text \<open>The balances of the accounts add up to the total supply, modulo the size of a word.\<close>

definition WORD_LIMIT :: int where "WORD_LIMIT = 2 ^ 256"

definition sum_balances :: "(byte list \<Rightarrow> byte list) \<Rightarrow> string list \<Rightarrow> (int \<Rightarrow> int) \<Rightarrow> int" where
  "sum_balances K accounts g = sum_list (map (\<lambda>a. g (balance_slot K a)) accounts)"

definition supply_ok :: "(byte list \<Rightarrow> byte list) \<Rightarrow> string list \<Rightarrow> (int \<Rightarrow> int) \<Rightarrow> bool" where
  "supply_ok K accounts g \<longleftrightarrow> sum_balances K accounts g mod WORD_LIMIT = g TOTAL_SUPPLY_SLOT mod WORD_LIMIT"

text \<open>The change a store makes to the slots.\<close>

definition put :: "int \<Rightarrow> int \<Rightarrow> (int \<Rightarrow> int) \<Rightarrow> int \<Rightarrow> int" where
  "put k v g = g(k := v mod WORD_LIMIT)"

lemma put_apply [simp]: "put k v g j = (if j = k then v mod WORD_LIMIT else g j)"
  by (simp add: put_def)

lemma sum_update_other:
  "k \<notin> set (map f xs) \<Longrightarrow> sum_list (map (\<lambda>a. (g(k := v)) (f a)) xs) = sum_list (map (\<lambda>a. g (f a)) xs)"
  for g :: "'b \<Rightarrow> int"
  by (induction xs) auto

lemma sum_update_at:
  "distinct (map f xs) \<Longrightarrow> x \<in> set xs \<Longrightarrow>
    sum_list (map (\<lambda>a. (g(f x := v)) (f a)) xs) = sum_list (map (\<lambda>a. g (f a)) xs) - g (f x) + v"
  for g :: "'b \<Rightarrow> int"
proof (induction xs)
  case (Cons y ys)
  show ?case
  proof (cases "x = y")
    case True
    with Cons.prems sum_update_other [of "f x" f ys g v] show ?thesis by auto
  next
    case False
    with Cons have "x \<in> set ys" by simp
    with Cons.prems(1) have "f y \<noteq> f x" by force
    with False Cons show ?thesis by simp
  qed
qed simp

lemma layout_facts:
  assumes "layout_ok K accounts" and "a \<in> set accounts"
  shows "distinct (map (balance_slot K) accounts)" "TOTAL_SUPPLY_SLOT \<notin> set (map (balance_slot K) accounts)"
    "OWNER_SLOT \<notin> set (map (balance_slot K) accounts)" "PAUSED_SLOT \<notin> set (map (balance_slot K) accounts)"
    "the_slot (mapping_slot K NONCES_BASE a) \<notin> set (TOTAL_SUPPLY_SLOT # map (balance_slot K) accounts)"
    "b \<in> set accounts \<Longrightarrow> the_slot (double_mapping_slot K ALLOWANCES_BASE a b)
       \<notin> set (TOTAL_SUPPLY_SLOT # map (balance_slot K) accounts)"
  using assms by (auto simp: layout_ok_def fixed_slots_def list_all_iff)

lemma sum_put_other: "k \<notin> set (map (balance_slot K) accounts) \<Longrightarrow> sum_balances K accounts (put k v g) = sum_balances K accounts g"
  unfolding sum_balances_def put_def by (rule sum_update_other)

lemma sum_put_at:
  "distinct (map (balance_slot K) accounts) \<Longrightarrow> a \<in> set accounts \<Longrightarrow>
    sum_balances K accounts (put (balance_slot K a) v g) = sum_balances K accounts g - g (balance_slot K a) + v mod WORD_LIMIT"
  unfolding sum_balances_def put_def by (rule sum_update_at)

lemma mod_step: "x mod m = y mod m \<Longrightarrow> (x - p + (p + d) mod m) mod m = (y + d) mod (m :: int)"
proof -
  assume "x mod m = y mod m"
  then have "(x + d) mod m = (y + d) mod m" by (metis mod_add_left_eq)
  moreover have "(x - p + (p + d) mod m) mod m = (x + d) mod m"
    by (simp add: mod_add_right_eq)
  ultimately show ?thesis by simp
qed

lemma supply_put_other:
  "k \<notin> set (TOTAL_SUPPLY_SLOT # map (balance_slot K) accounts) \<Longrightarrow> supply_ok K accounts (put k v g) = supply_ok K accounts g"
  by (auto simp: supply_ok_def sum_put_other)

lemma supply_move:
  assumes "layout_ok K accounts" and "a \<in> set accounts" and "b \<in> set accounts" and "a \<noteq> b" and "supply_ok K accounts g"
  shows "supply_ok K accounts (put (balance_slot K b) (g (balance_slot K b) + n)
    (put (balance_slot K a) (g (balance_slot K a) - n) g))"
proof -
  let ?b = "balance_slot K"
  note L = layout_facts [OF assms(1,2)]
  let ?g = "put (?b a) (g (?b a) - n) g"
  have ab: "?b b \<noteq> ?b a" using L(1) assms(2-4) by (metis distinct_map inj_onD)
  have "sum_balances K accounts ?g mod WORD_LIMIT = (g TOTAL_SUPPLY_SLOT - n) mod WORD_LIMIT"
    using mod_step [OF assms(5) [unfolded supply_ok_def], of "g (?b a)" "- n"]
    by (simp add: sum_put_at [OF L(1) assms(2)])
  from mod_step [OF this, of "g (?b b)" n]
  have "sum_balances K accounts (put (?b b) (g (?b b) + n) ?g) mod WORD_LIMIT = g TOTAL_SUPPLY_SLOT mod WORD_LIMIT"
    using ab by (simp add: sum_put_at [OF L(1) assms(3)])
  then show ?thesis using L(2) assms(2,3) by (auto simp: supply_ok_def)
qed

lemma supply_change:
  assumes "layout_ok K accounts" and "a \<in> set accounts" and "supply_ok K accounts g"
  shows "supply_ok K accounts (put TOTAL_SUPPLY_SLOT (g TOTAL_SUPPLY_SLOT + n)
    (put (balance_slot K a) (g (balance_slot K a) + n) g))" (is ?A)
    and "supply_ok K accounts (put (balance_slot K a) (g (balance_slot K a) + n)
    (put TOTAL_SUPPLY_SLOT (g TOTAL_SUPPLY_SLOT + n) g))" (is ?B)
proof -
  let ?b = "balance_slot K"
  note L = layout_facts [OF assms(1,2)]
  have "sum_balances K accounts (put (?b a) (g (?b a) + n) g) mod WORD_LIMIT = (g TOTAL_SUPPLY_SLOT + n) mod WORD_LIMIT"
    using mod_step [OF assms(3) [unfolded supply_ok_def], of "g (?b a)" n]
    by (simp add: sum_put_at [OF L(1) assms(2)])
  then show ?A using L(2) by (simp add: supply_ok_def sum_put_other)
  moreover have "?b a \<noteq> TOTAL_SUPPLY_SLOT" using L(2) assms(2) by force
  then have "put TOTAL_SUPPLY_SLOT v (put (?b a) w g) = put (?b a) w (put TOTAL_SUPPLY_SLOT v g)" for v w
    unfolding put_def by (metis fun_upd_twist)
  ultimately show ?B by simp
qed


subsection \<open>What a returning step leaves in the slots\<close>

definition slots_of :: "'w builtin \<Rightarrow> int \<Rightarrow> int" where
  "slots_of b = get_raw (token_store b)"

lemma and_then_returns: "and_then m k s = (Inr x, t) \<longleftrightarrow> (\<exists>a u. m s = (Inr a, u) \<and> k a u = (Inr x, t))"
  by (auto simp: and_then_def split: prod.splits sum.splits)

lemma lift_result_returns: "lift_result r s = (Inr x, t) \<longleftrightarrow> r = Inr x \<and> t = s"
  by (auto simp: lift_result_def)

lemma raise_if_returns: "raise_if b e s = (Inr x, t) \<longleftrightarrow> \<not> b s \<and> t = s"
  by (auto simp: raise_if_def)

lemma ret_returns: "ret a s = (Inr x, t) \<longleftrightarrow> x = a \<and> t = s"
  by (auto simp: ret_def)

lemma get_slot_returns: "get_slot k s = (Inr v, t) \<longleftrightarrow> v = slots_of s k \<and> t = s"
  by (auto simp: get_slot_def reads_def slots_of_def)

lemma returns_returns: "returns r s = (Inr x, t) \<longleftrightarrow> r = Inr x \<and> t = s"
  by (auto simp: returns_def lift_result_def)

lemmas returning = and_then_returns lift_result_returns raise_if_returns ret_returns get_slot_returns returns_returns

lemma slots_set_slot: "set_slot k v s = (Inr x, t) \<Longrightarrow> slots_of t = put k v (slots_of s)"
  by (auto simp: set_slot_def modify_def slots_of_def set_raw_get word_update_def put_def WORD_LIMIT_def)

lemma get_balance_returns:
  "get_token_balance env a s = (Inr v, t) \<Longrightarrow> v = slots_of s (balance_slot (env_hash env) a) \<and> t = s"
  by (auto simp: get_token_balance_def returning balance_slot_def the_slot_def)

lemma get_allowance_returns: "get_token_allowance env a b s = (Inr v, t) \<Longrightarrow> t = s"
  by (auto simp: get_token_allowance_def returning)

lemma slots_set_balance:
  "set_token_balance env a v s = (Inr x, t) \<Longrightarrow> slots_of t = put (balance_slot (env_hash env) a) v (slots_of s)"
  by (auto simp: set_token_balance_def returning balance_slot_def the_slot_def dest: slots_set_slot)

lemma slots_set_allowance:
  "set_token_allowance env a b v s = (Inr x, t) \<Longrightarrow>
    slots_of t = put (the_slot (double_mapping_slot (env_hash env) ALLOWANCES_BASE a b)) v (slots_of s)"
  by (auto simp: set_token_allowance_def returning the_slot_def dest: slots_set_slot)

lemma slots_spend:
  "(if c then set_token_allowance env a b v else ret ()) s = (Inr x, t) \<Longrightarrow>
    slots_of t = slots_of s \<or> (\<exists>v. slots_of t = put (the_slot (double_mapping_slot (env_hash env) ALLOWANCES_BASE a b)) v (slots_of s))"
  by (cases c) (auto simp: ret_returns dest: slots_set_allowance)

lemma slots_increment_nonce:
  "increment_token_nonce env a s = (Inr x, t) \<Longrightarrow>
    \<exists>v. slots_of t = put (the_slot (mapping_slot (env_hash env) NONCES_BASE a)) v (slots_of s)"
  by (auto simp: increment_token_nonce_def returning the_slot_def dest!: slots_set_slot)

lemma slots_append_log: "append_log env topic a b v s = (Inr x, t) \<Longrightarrow> slots_of t = slots_of s"
  by (auto simp: append_log_def returning modify_def slots_of_def)

lemma slots_hook:
  "on_failure (trigger_receive_hook env op from_addr to_addr amount d) c s = (Inr x, t) \<Longrightarrow> slots_of t = slots_of s"
  by (auto simp: on_failure_def trigger_receive_hook_def zoom_def ret_def slots_of_def and_then_def raise_def
      split: option.splits if_splits prod.splits sum.splits exn.splits)

lemma slots_take_from_supply:
  "take_from_supply n s = (Inr x, t) \<Longrightarrow> slots_of t = put TOTAL_SUPPLY_SLOT (slots_of s TOTAL_SUPPLY_SLOT - n) (slots_of s)"
  by (auto simp: take_from_supply_def returning dest: slots_set_slot)

lemma guards_return:
  "token_require_owner a s = (Inr x, t) \<Longrightarrow> t = s" "token_require_not_paused s = (Inr x, t) \<Longrightarrow> t = s"
  by (auto simp: token_require_owner_def token_require_not_paused_def read_address_def returning)

lemmas slot_changes = slots_set_slot get_balance_returns get_allowance_returns slots_set_balance slots_set_allowance
  slots_append_log slots_hook slots_take_from_supply guards_return


subsection \<open>The handlers\<close>

text \<open>The addresses in the first \<open>n\<close> words of the data, and those a call is about.\<close>

definition addresses :: "nat \<Rightarrow> byte list \<Rightarrow> string list" where
  "addresses n data = concat (map (\<lambda>i. case decode_address data (32 * i) of Inr (a, _) \<Rightarrow> [a] | Inl _ \<Rightarrow> []) [0..<n])"

definition call_accounts :: "string \<Rightarrow> byte list \<Rightarrow> string \<Rightarrow> string list" where
  "call_accounts selector data sender =
     sender # addresses (if selector \<in> {''23b872dd'', ''dd62ed3e'', ''d505accf''} then 2
       else if selector \<in> {''a9059cbb'', ''095ea7b3'', ''40c10f19'', ''79cc6790''} then 1 else 0) data"

text \<open>The two sides of a transfer.\<close>

definition call_parties :: "string \<Rightarrow> byte list \<Rightarrow> string \<Rightarrow> string list" where
  "call_parties selector data sender =
     (if selector = ''a9059cbb'' then sender # addresses 1 data
      else if selector = ''23b872dd'' then addresses 2 data else [])"

lemma decode_offsets:
  "decode_address data n = Inr (a, m) \<Longrightarrow> m = n + 32"
  by (auto simp: decode_address_def bind_result_Inr)

lemma addresses_1: "decode_address data 0 = Inr (a, m) \<Longrightarrow> addresses 1 data = [a]"
  by (simp add: addresses_def)

lemma addresses_2:
  "decode_address data 0 = Inr (a, m) \<Longrightarrow> decode_address data m = Inr (b, k) \<Longrightarrow> addresses 2 data = [a, b]"
  by (frule decode_offsets) (simp add: addresses_def upt_rec)

lemma handle_transfer_keeps:
  assumes L: "layout_ok (env_hash env) accounts" and ok: "supply_ok (env_hash env) accounts (slots_of s)"
    and run: "handle_transfer env data sender s = (Inr x, t)"
    and A: "sender \<in> set accounts" "set (addresses 1 data) \<subseteq> set accounts" "distinct (sender # addresses 1 data)"
  shows "supply_ok (env_hash env) accounts (slots_of t)"
proof -
  let ?b = "balance_slot (env_hash env)" and ?g = "slots_of s"
  from run obtain recipient off n where a: "decode_address data 0 = Inr (recipient, off)" and
    t: "slots_of t = put (?b recipient) (?g (?b recipient) + n) (put (?b sender) (?g (?b sender) - n) ?g)"
    by (auto simp: handle_transfer_def returning split_def dest!: slot_changes)
  show ?thesis
    unfolding t by (rule supply_move [OF L _ _ _ ok]) (use A addresses_1 [OF a] in auto)
qed

lemma handle_transfer_from_keeps:
  assumes L: "layout_ok (env_hash env) accounts" and ok: "supply_ok (env_hash env) accounts (slots_of s)"
    and run: "handle_transfer_from env data sender s = (Inr x, t)"
    and A: "sender \<in> set accounts" "set (addresses 2 data) \<subseteq> set accounts" "distinct (addresses 2 data)"
  shows "supply_ok (env_hash env) accounts (slots_of t)"
proof -
  let ?b = "balance_slot (env_hash env)" and ?g = "slots_of s"
  let ?al = "\<lambda>a. the_slot (double_mapping_slot (env_hash env) ALLOWANCES_BASE a sender)"
  from run obtain a m b k n c v u z where ab: "decode_address data 0 = Inr (a, m)" "decode_address data m = Inr (b, k)" and
    spend: "(if c then set_token_allowance env a sender v else ret ()) s = (Inr z, u)" and
    t: "slots_of t = put (?b b) (?g (?b b) + n) (put (?b a) (slots_of u (?b a) - n) (slots_of u))"
    by (auto simp: handle_transfer_from_def returning split_def dest!: slot_changes simp del: put_apply split del: if_split cong: if_cong)
  have A': "a \<in> set accounts" "b \<in> set accounts" "a \<noteq> b"
    using A addresses_2 [OF ab] by auto
  note al = layout_facts(6) [OF L A'(1) A(1)]
  have "?b b \<in> set (TOTAL_SUPPLY_SLOT # map ?b accounts)" using A'(2) by simp
  with al have "?b b \<noteq> ?al a" by metis
  then have u: "supply_ok (env_hash env) accounts (slots_of u)" "slots_of u (?b b) = ?g (?b b)"
    using slots_spend [OF spend] ok supply_put_other [OF al] by auto
  show ?thesis unfolding t u(2) [symmetric] by (rule supply_move [OF L A' u(1)])
qed

lemma handle_mint_keeps:
  assumes L: "layout_ok (env_hash env) accounts" and ok: "supply_ok (env_hash env) accounts (slots_of s)"
    and run: "handle_mint env data sender s = (Inr x, t)" and A: "set (addresses 1 data) \<subseteq> set accounts"
  shows "supply_ok (env_hash env) accounts (slots_of t)"
proof -
  let ?b = "balance_slot (env_hash env)" and ?g = "slots_of s"
  from run obtain a m n where a: "decode_address data 0 = Inr (a, m)" and
    t: "slots_of t = put (?b a) (?g (?b a) + n) (put TOTAL_SUPPLY_SLOT (?g TOTAL_SUPPLY_SLOT + n) ?g)"
    by (auto simp: handle_mint_def returning split_def Let_def dest!: slot_changes)
  show ?thesis
    unfolding t by (rule supply_change(2) [OF L _ ok]) (use A addresses_1 [OF a] in auto)
qed

lemma supply_burn:
  assumes L: "layout_ok K accounts" and a: "a \<in> set accounts" and ok: "supply_ok K accounts g"
  shows "supply_ok K accounts (put TOTAL_SUPPLY_SLOT (put (balance_slot K a) (g (balance_slot K a) - n) g TOTAL_SUPPLY_SLOT - n)
    (put (balance_slot K a) (g (balance_slot K a) - n) g))"
proof -
  have "put (balance_slot K a) (g (balance_slot K a) - n) g TOTAL_SUPPLY_SLOT = g TOTAL_SUPPLY_SLOT"
    using layout_facts(2) [OF L a] a by auto
  then show ?thesis using supply_change(1) [OF L a ok, of "- n"] by simp
qed

lemma handle_burn_keeps:
  assumes L: "layout_ok (env_hash env) accounts" and ok: "supply_ok (env_hash env) accounts (slots_of s)"
    and run: "handle_burn env data sender s = (Inr x, t)" and A: "sender \<in> set accounts"
  shows "supply_ok (env_hash env) accounts (slots_of t)"
proof -
  let ?b = "balance_slot (env_hash env)" and ?g = "slots_of s"
  from run obtain n where
    t: "slots_of t = put TOTAL_SUPPLY_SLOT (put (?b sender) (?g (?b sender) - n) ?g TOTAL_SUPPLY_SLOT - n)
      (put (?b sender) (?g (?b sender) - n) ?g)"
    by (auto simp: handle_burn_def returning split_def dest!: slot_changes simp del: put_apply)
  show ?thesis unfolding t by (rule supply_burn [OF L A ok])
qed

lemma handle_burn_from_keeps:
  assumes L: "layout_ok (env_hash env) accounts" and ok: "supply_ok (env_hash env) accounts (slots_of s)"
    and run: "handle_burn_from env data sender s = (Inr x, t)"
    and A: "sender \<in> set accounts" "set (addresses 1 data) \<subseteq> set accounts"
  shows "supply_ok (env_hash env) accounts (slots_of t)"
proof -
  let ?b = "balance_slot (env_hash env)"
  from run obtain a m n c v u z where a: "decode_address data 0 = Inr (a, m)" and
    spend: "(if c then set_token_allowance env a sender v else ret ()) s = (Inr z, u)" and
    t: "slots_of t = put TOTAL_SUPPLY_SLOT (put (?b a) (slots_of u (?b a) - n) (slots_of u) TOTAL_SUPPLY_SLOT - n)
      (put (?b a) (slots_of u (?b a) - n) (slots_of u))"
    by (auto simp: handle_burn_from_def returning split_def dest!: slot_changes simp del: put_apply split del: if_split cong: if_cong)
  have a': "a \<in> set accounts" using A addresses_1 [OF a] by auto
  have "supply_ok (env_hash env) accounts (slots_of u)"
    using slots_spend [OF spend] ok supply_put_other [OF layout_facts(6) [OF L a' A(1)]] by auto
  then show ?thesis unfolding t by (rule supply_burn [OF L a'])
qed

lemma handle_approve_keeps:
  assumes L: "layout_ok (env_hash env) accounts" and ok: "supply_ok (env_hash env) accounts (slots_of s)"
    and run: "handle_approve env data sender s = (Inr x, t)"
    and A: "sender \<in> set accounts" "set (addresses 1 data) \<subseteq> set accounts"
  shows "supply_ok (env_hash env) accounts (slots_of t)"
proof -
  let ?al = "\<lambda>a. the_slot (double_mapping_slot (env_hash env) ALLOWANCES_BASE sender a)"
  from run obtain a m v where a: "decode_address data 0 = Inr (a, m)" and t: "slots_of t = put (?al a) v (slots_of s)"
    by (auto simp: handle_approve_def returning split_def dest!: slot_changes)
  have "a \<in> set accounts" using A addresses_1 [OF a] by auto
  from supply_put_other [OF layout_facts(6) [OF L A(1) this]] ok show ?thesis by (simp add: t)
qed

lemma handle_permit_keeps:
  assumes L: "layout_ok (env_hash env) accounts" and ok: "supply_ok (env_hash env) accounts (slots_of s)"
    and run: "handle_permit env data sender s = (Inr x, t)" and A: "set (addresses 2 data) \<subseteq> set accounts"
  shows "supply_ok (env_hash env) accounts (slots_of t)"
proof -
  let ?al = "\<lambda>a b. the_slot (double_mapping_slot (env_hash env) ALLOWANCES_BASE a b)"
  let ?n = "\<lambda>a. the_slot (mapping_slot (env_hash env) NONCES_BASE a)"
  from run obtain a m b k v w where ab: "decode_address data 0 = Inr (a, m)" "decode_address data m = Inr (b, k)" and
    t: "slots_of t = put (?n a) w (put (?al a b) v (slots_of s))"
    by (auto simp: handle_permit_def returning split_def dest!: slot_changes slots_increment_nonce)
  have A': "a \<in> set accounts" "b \<in> set accounts" using A addresses_2 [OF ab] by auto
  show ?thesis
    using supply_put_other [OF layout_facts(6) [OF L A']] supply_put_other [OF layout_facts(5) [OF L A'(1)]] ok
    by (simp add: t)
qed

lemma fixed_slot_keeps:
  assumes "layout_ok K accounts" and "sender \<in> set accounts" and "k \<in> {OWNER_SLOT, PAUSED_SLOT}"
  shows "supply_ok K accounts (put k v g) = supply_ok K accounts g"
  using layout_facts(3,4) [OF assms(1,2)] assms(3) by (intro supply_put_other) (auto simp: slot_constants)

lemma slots_write_address: "write_address k a s = (Inr x, t) \<Longrightarrow> \<exists>v. slots_of t = put k v (slots_of s)"
  by (auto simp: write_address_def returning dest: slots_set_slot)

lemma handle_admin_keeps:
  assumes L: "layout_ok (env_hash env) accounts" and ok: "supply_ok (env_hash env) accounts (slots_of s)"
    and A: "sender \<in> set accounts"
  shows "handle_set_paused b data who s = (Inr x, t) \<Longrightarrow> supply_ok (env_hash env) accounts (slots_of t)"
    and "handle_transfer_ownership data who s = (Inr x, t) \<Longrightarrow> supply_ok (env_hash env) accounts (slots_of t)"
  using fixed_slot_keeps [OF L A] ok
  by (auto simp: handle_set_paused_def handle_transfer_ownership_def returning split_def
      dest!: slot_changes slots_write_address split: if_splits)

lemma handle_views_keep:
  "handle_name data who s = (Inr x, t) \<Longrightarrow> slots_of t = slots_of s"
  "handle_symbol data who s = (Inr x, t) \<Longrightarrow> slots_of t = slots_of s"
  "handle_decimals data who s = (Inr x, t) \<Longrightarrow> slots_of t = slots_of s"
  "handle_total_supply data who s = (Inr x, t) \<Longrightarrow> slots_of t = slots_of s"
  "handle_balance_of env data who s = (Inr x, t) \<Longrightarrow> slots_of t = slots_of s"
  "handle_allowance env data who s = (Inr x, t) \<Longrightarrow> slots_of t = slots_of s"
  "handle_nonce env data who s = (Inr x, t) \<Longrightarrow> slots_of t = slots_of s"
  "handle_domain_separator data who s = (Inr x, t) \<Longrightarrow> slots_of t = slots_of s"
  by (auto simp: handle_name_def handle_symbol_def handle_decimals_def handle_total_supply_def handle_balance_of_def
      handle_allowance_def handle_nonce_def handle_domain_separator_def get_token_nonce_def read_string_def reads_def
      returning split_def dest!: slot_changes)


section \<open>Properties\<close>

lemma erc20_handler_keeps:
  assumes L: "layout_ok (env_hash env) accounts" and ok: "supply_ok (env_hash env) accounts (slots_of s)"
    and h: "map_of (erc20_handlers env) selector = Some h" and run: "h data sender s = (Inr x, t)"
    and A: "set (call_accounts selector data sender) \<subseteq> set accounts" "distinct (call_parties selector data sender)"
  shows "supply_ok (env_hash env) accounts (slots_of t)"
proof -
  have sender: "sender \<in> set accounts" using A(1) by (simp add: call_accounts_def)
  note keeps = handle_transfer_keeps [OF L ok _ sender] handle_transfer_from_keeps [OF L ok _ sender]
    handle_mint_keeps [OF L ok] handle_burn_keeps [OF L ok _ sender] handle_burn_from_keeps [OF L ok _ sender]
    handle_approve_keeps [OF L ok _ sender] handle_permit_keeps [OF L ok] handle_admin_keeps [OF L ok sender]
  have same: "slots_of t = slots_of s \<Longrightarrow> supply_ok (env_hash env) accounts (slots_of t)"
    using ok by simp
  from h run A show ?thesis
    unfolding erc20_handlers_def map_of.simps
    by (auto simp: call_accounts_def call_parties_def intro: keeps handle_views_keep [THEN same]
        split: if_splits simp del: One_nat_def)
qed

text \<open>
  a call that returns keeps the balances of the accounts and the total supply in step
  (modulo the word size), whatever the receive hook does, as long as no transfer goes from an
  account to itself and the slots of the accounts do not collide.
\<close>

lemma builtin_supply:
  assumes "layout_ok (env_hash env) accounts" and "supply_ok (env_hash env) accounts (slots_of s)"
    and "set (call_accounts (to_lower selector) data (token_normalize sender)) \<subseteq> set accounts"
    and "distinct (call_parties (to_lower selector) data (token_normalize sender))"
    and "execute_erc20 env selector data sender value st s = (Inr r, t)"
  shows "supply_ok (env_hash env) accounts (slots_of t)"
proof -
  from assms(5) obtain h x where h: "map_of (erc20_handlers env) (to_lower selector) = Some h"
    and run: "h data (token_normalize sender) (s\<lparr>token_logs := []\<rparr>) = (Inr x, t)"
    by (auto simp: execute_erc20_def Let_def returning modify_def raise_def split: option.splits)
  have "slots_of (s\<lparr>token_logs := []\<rparr>) = slots_of s" by (simp add: slots_of_def)
  with erc20_handler_keeps [OF assms(1) _ h run assms(3,4)] assms(2) show ?thesis by simp
qed

text \<open>A hash for the examples: the key plus a multiple of the base.\<close>

definition sample_hash :: "byte list \<Rightarrow> byte list" where
  "sample_hash bs = be_bytes 32 (from_bytes (take 32 bs) + 65536 * from_bytes (drop 32 bs))"

definition sample_env :: "unit token_env" where
  "sample_env = \<lparr>env_hash = sample_hash, env_address = ''0xcc'', env_hook = None, env_now = 0\<rparr>"

definition account :: "nat \<Rightarrow> string" where
  "account n = ''0x'' @ replicate 38 (CHR ''0'') @ [hex_digit n, hex_digit n]"

definition transfer_data :: "string \<Rightarrow> int \<Rightarrow> byte list" where
  "transfer_data a n = (case encode_args [''address'', ''uint256''] [VText a, VInt n] of Inr d \<Rightarrow> d | Inl _ \<Rightarrow> [])"

text \<open>Two accounts, the first with all 100 tokens.\<close>

definition sample_builtin :: "unit builtin" where
  "sample_builtin = \<lparr>world = (),
     token_store = set_raw (balance_slot sample_hash (account 10)) 100 (set_raw TOTAL_SUPPLY_SLOT 100 (new_storage ''0xcc'')),
     token_logs = []\<rparr>"

lemma sample_hash_slot:
  "0 \<le> k \<Longrightarrow> k < 256 ^ 32 \<Longrightarrow> 0 \<le> b \<Longrightarrow> b < 256 ^ 32 \<Longrightarrow> k + 65536 * b < 256 ^ 32 \<Longrightarrow>
    hash_slot sample_hash b k = Inr (k + 65536 * b)"
  by (simp add: hash_slot_def sample_hash_def to_bytes_in_range from_bytes_be_bytes)

lemma sample_keys: "address_key (account 10) = Inr 170" "address_key (account 11) = Inr 187"
  by code_simp+

lemma sample_slots:
  "address_key a = Inr k \<Longrightarrow> 0 \<le> k \<Longrightarrow> k < 256 \<Longrightarrow> 0 \<le> b \<Longrightarrow> b < 2 ^ 100 \<Longrightarrow>
    mapping_slot sample_hash b a = Inr (k + 65536 * b)"
  by (simp add: mapping_slot_def sample_hash_slot)

lemma sample_double_slots:
  "address_key a = Inr k \<Longrightarrow> 0 \<le> k \<Longrightarrow> k < 256 \<Longrightarrow> address_key c = Inr m \<Longrightarrow> 0 \<le> m \<Longrightarrow> m < 256 \<Longrightarrow>
    double_mapping_slot sample_hash ALLOWANCES_BASE a c = Inr (m + 65536 * (k + 65536 * 2000))"
  by (simp add: double_mapping_slot_def sample_slots ALLOWANCES_BASE_def)

lemma sample_balance_slots:
  "balance_slot sample_hash (account 10) = 65536170" "balance_slot sample_hash (account 11) = 65536187"
  by (simp_all add: balance_slot_def the_slot_def sample_slots [OF sample_keys(1)] sample_slots [OF sample_keys(2)] BALANCES_BASE_def)

lemma sample_layout: "layout_ok sample_hash [account 10, account 11]"
proof -
  have "account 10 \<noteq> account 11" using sample_keys by auto
  then show ?thesis
    by (simp add: layout_ok_def sample_balance_slots fixed_slots_def slot_constants the_slot_def
        sample_slots [OF sample_keys(1)] sample_slots [OF sample_keys(2)]
        sample_double_slots [OF sample_keys(1) _ _ sample_keys(1), unfolded ALLOWANCES_BASE_def]
        sample_double_slots [OF sample_keys(1) _ _ sample_keys(2), unfolded ALLOWANCES_BASE_def]
        sample_double_slots [OF sample_keys(2) _ _ sample_keys(1), unfolded ALLOWANCES_BASE_def]
        sample_double_slots [OF sample_keys(2) _ _ sample_keys(2), unfolded ALLOWANCES_BASE_def])
qed

lemma sample_topics:
  "encode_address_topic (account 10) = Inr (''0x'' @ replicate 62 (CHR ''0'') @ ''aa'')"
  "encode_address_topic (account 11) = Inr (''0x'' @ replicate 62 (CHR ''0'') @ ''bb'')"
  by code_simp+

lemma sample_data:
  "decode_address (transfer_data (account 11) 30) 0 = Inr (account 11, 32)"
  "decode_uint256 (transfer_data (account 11) 30) 32 = Inr (30, 64)"
  "token_normalize (account 10) = account 10" "token_normalize (account 11) = account 11"
  by code_simp+

lemma sample_env_simps: "env_hash sample_env = sample_hash" "env_hook sample_env = None"
  by (simp_all add: sample_env_def)

lemma raw_new_storage: "get_raw (new_storage a) k = 0"
  by (simp add: get_raw_def new_storage_def)

lemma sample_transfer:
  "\<exists>r t. execute_erc20 sample_env ''a9059cbb'' (transfer_data (account 11) 30) (account 10) 0 False sample_builtin = (Inr r, t)
     \<and> slots_of t 65536187 = 30"
proof -
  have slots: "mapping_slot sample_hash BALANCES_BASE (account 10) = Inr 65536170"
    "mapping_slot sample_hash BALANCES_BASE (account 11) = Inr 65536187"
    by (simp_all add: BALANCES_BASE_def sample_slots [OF sample_keys(1)] sample_slots [OF sample_keys(2)])
  have handler: "map_of (erc20_handlers sample_env) ''a9059cbb'' = Some (handle_transfer sample_env)"
    by (simp add: erc20_handlers_def)
  have gets: "get_raw (token_store sample_builtin) 65536170 = 100" "get_raw (token_store sample_builtin) 65536187 = 0"
    "get_raw (token_store sample_builtin) PAUSED_SLOT = 0"
    by (simp_all add: sample_builtin_def set_raw_get word_update_def slot_constants raw_new_storage sample_balance_slots)
  have sel: "to_lower ''a9059cbb'' = ''a9059cbb''" by code_simp
  have one: "\<exists>b. encode_bool True = Inr b" "\<exists>b. encode_uint256 30 = Inr b"
    by (simp_all add: encode_bool_def encode_uint256_Inr)
  show ?thesis
    unfolding execute_erc20_def Let_def sel sample_data
    using one
    by (auto simp: handler handle_transfer_def meth_simps token_require_not_paused_def get_slot_def set_slot_def
        get_token_balance_def set_token_balance_def append_log_def returns_def on_failure_def trigger_receive_hook_def
        sample_data sample_env_simps slots gets sample_topics set_raw_get word_update_def slots_of_def)
qed

section \<open>Findings\<close>

text \<open>
  A transfer to oneself makes tokens: both balances are read before the first is written, so
  the credit overwrites the debit.
\<close>

theorem self_transfer_mints:
  assumes "handle_transfer env data sender s = (Inr x, t)" and "decode_address data 0 = Inr (sender, off)"
    and "decode_uint256 data off = Inr (n, m)"
  shows "slots_of t = put (balance_slot (env_hash env) sender) (slots_of s (balance_slot (env_hash env) sender) + n) (slots_of s)"
  using assms by (auto simp: handle_transfer_def returning split_def put_def dest!: slot_changes)

text \<open>Permit checks no signature: any \<open>v\<close> that is not zero gives anyone any allowance.\<close>

theorem permit_checks_no_signature:
  assumes "decode_address data 0 = Inr (own, 32)" and "decode_address data 32 = Inr (spender, 64)"
    and "decode_uint256 data 64 = Inr (value, 96)" and "decode_uint256 data 96 = Inr (deadline, 128)"
    and "decode_uint256 data 128 = Inr (v, 160)" and "decode_bytes data 0 160 = Inr (r, 192)"
    and "decode_bytes data 0 192 = Inr (s, k)" and "env_now env \<le> deadline" and "v \<noteq> 0"
    and "double_mapping_slot (env_hash env) ALLOWANCES_BASE own spender = Inr slot"
    and "mapping_slot (env_hash env) NONCES_BASE own = Inr nonce_slot" and "nonce_slot \<noteq> slot"
  shows "slots_of (snd (handle_permit env data anyone b)) slot = value mod 2 ^ 256"
  using assms
  by (simp add: handle_permit_def meth_simps set_token_allowance_def increment_token_nonce_def set_slot_def get_slot_def
      append_log_def returns_def slots_of_def set_raw_get word_update_def case_prod_beta split: sum.splits)

end
