(* ===== verification/BuiltinNft.thy ===== *)
theory BuiltinNft
  imports BuiltinTokens
begin

text \<open>
  The ERC721 part of \<open>src/xai/core/vm/evm/builtin_tokens.py\<close> on the same storage methods as
  the ERC20 part, and \<open>execute_builtin_contract\<close>, which loads the storage of a contract
  and dispatches a call to one of the two.
\<close>

section \<open>The storage layout of an ERC721 contract\<close>

definition NFT_OWNER_SLOT :: int where "NFT_OWNER_SLOT = 20"
definition NFT_TOTAL_SUPPLY_SLOT :: int where "NFT_TOTAL_SUPPLY_SLOT = 21"
definition NFT_BALANCES_BASE :: int where "NFT_BALANCES_BASE = 1000"
definition OWNERS_BASE :: int where "OWNERS_BASE = 2000"
definition TOKEN_APPROVAL_BASE :: int where "TOKEN_APPROVAL_BASE = 3000"
definition OPERATOR_APPROVAL_BASE :: int where "OPERATOR_APPROVAL_BASE = 4000"
definition TOKEN_URI_BASE :: int where "TOKEN_URI_BASE = 5000"

definition NFT_VERSION_VALUE :: int where
  "NFT_VERSION_VALUE = from_bytes (zeros 26 @ utf8 ''XAI721'')"

definition at_slot :: "exn + int \<Rightarrow> (int \<Rightarrow> ('w, 'a) tok) \<Rightarrow> ('w, 'a) tok" where
  "at_slot r k = and_then (lift_result r) k"

definition nft_initialize :: "'w token_env \<Rightarrow> string \<Rightarrow> string \<Rightarrow> string \<Rightarrow> ('w, unit) tok" where
  "nft_initialize env nm symbol own =
     seq [set_slot VERSION_SLOT NFT_VERSION_VALUE, write_string NAME_SLOT (utf8 nm), write_string SYMBOL_SLOT (utf8 symbol),
       write_address NFT_OWNER_SLOT own, set_slot NFT_TOTAL_SUPPLY_SLOT 0]"

definition nft_get_balance :: "'w token_env \<Rightarrow> string \<Rightarrow> ('w, int) tok" where
  "nft_get_balance env a = at_slot (mapping_slot (env_hash env) NFT_BALANCES_BASE a) get_slot"

definition nft_set_balance :: "'w token_env \<Rightarrow> string \<Rightarrow> int \<Rightarrow> ('w, unit) tok" where
  "nft_set_balance env a v = at_slot (mapping_slot (env_hash env) NFT_BALANCES_BASE a) (\<lambda>slot. set_slot slot v)"

definition get_token_owner :: "'w token_env \<Rightarrow> int \<Rightarrow> ('w, string) tok" where
  "get_token_owner env token_id =
     at_slot (hash_slot (env_hash env) OWNERS_BASE token_id) (\<lambda>slot.
     and_then (get_slot slot) (\<lambda>raw. ret (if raw = 0 then ZERO_ADDRESS else word_address raw)))"

definition set_token_owner :: "'w token_env \<Rightarrow> int \<Rightarrow> string \<Rightarrow> ('w, unit) tok" where
  "set_token_owner env token_id own =
     at_slot (hash_slot (env_hash env) OWNERS_BASE token_id) (\<lambda>slot.
     and_then (lift_result (address_key own)) (set_slot slot))"

definition get_token_approval :: "'w token_env \<Rightarrow> int \<Rightarrow> ('w, string) tok" where
  "get_token_approval env token_id =
     at_slot (hash_slot (env_hash env) TOKEN_APPROVAL_BASE token_id) (\<lambda>slot.
     and_then (get_slot slot) (\<lambda>raw. ret (word_address raw)))"

definition set_token_approval :: "'w token_env \<Rightarrow> int \<Rightarrow> string \<Rightarrow> ('w, unit) tok" where
  "set_token_approval env token_id operator =
     at_slot (hash_slot (env_hash env) TOKEN_APPROVAL_BASE token_id) (\<lambda>slot.
     and_then (lift_result (address_key operator)) (set_slot slot))"

definition clear_token_approval :: "'w token_env \<Rightarrow> int \<Rightarrow> ('w, unit) tok" where
  "clear_token_approval env token_id = set_token_approval env token_id ZERO_ADDRESS"

definition get_operator_approval :: "'w token_env \<Rightarrow> string \<Rightarrow> string \<Rightarrow> ('w, bool) tok" where
  "get_operator_approval env own operator =
     at_slot (double_mapping_slot (env_hash env) OPERATOR_APPROVAL_BASE own operator) (\<lambda>slot.
     and_then (get_slot slot) (\<lambda>v. ret (v = 1)))"

definition set_operator_approval :: "'w token_env \<Rightarrow> string \<Rightarrow> string \<Rightarrow> bool \<Rightarrow> ('w, unit) tok" where
  "set_operator_approval env own operator b =
     at_slot (double_mapping_slot (env_hash env) OPERATOR_APPROVAL_BASE own operator) (\<lambda>slot. set_slot slot (if b then 1 else 0))"

definition get_token_uri :: "'w token_env \<Rightarrow> int \<Rightarrow> ('w, byte list) tok" where
  "get_token_uri env token_id = at_slot (hash_slot (env_hash env) TOKEN_URI_BASE token_id) read_string"

definition set_token_uri :: "'w token_env \<Rightarrow> int \<Rightarrow> byte list \<Rightarrow> ('w, unit) tok" where
  "set_token_uri env token_id uri =
     at_slot (hash_slot (env_hash env) TOKEN_URI_BASE token_id) (\<lambda>slot. write_string slot uri)"

definition construct_nft :: "'w token_env \<Rightarrow> token_meta \<Rightarrow> ('w, unit) tok" where
  "construct_nft env m =
     and_then (get_slot VERSION_SLOT) (\<lambda>version.
     if version = NFT_VERSION_VALUE then ret ()
     else nft_initialize env (meta_get m_name m []) (meta_get m_symbol m []) (token_normalize (meta_get m_owner m ZERO_ADDRESS)))"

section \<open>Handlers\<close>

definition APPROVAL_FOR_ALL_TOPIC :: string where
  "APPROVAL_FOR_ALL_TOPIC = ''0x17307eab39c368c5e5f1dfad57f82f7aaf2ff9e4f3f9f5a64d5fbd49c3a6f2be''"

definition STATEFUL_SELECTORS :: "string list" where
  "STATEFUL_SELECTORS = [''42842e0e'', ''b88d4fde'', ''23b872dd'', ''095ea7b3'', ''a22cb465'', ''40c10f19'', ''42966c68'', ''f2fde38b'']"

definition nft_require_owner :: "string \<Rightarrow> ('w, unit) tok" where
  "nft_require_owner who =
     and_then (read_address NFT_OWNER_SLOT) (\<lambda>own.
     raise_if (\<lambda>_. token_normalize who \<noteq> token_normalize own) (VMExecutionError CallerNotOwner))"

definition nft_name :: "'w token_handler" where
  "nft_name data sender = and_then (read_string NAME_SLOT) (\<lambda>n. returns (encode_args [''string''] [VBytes n]))"

definition nft_symbol :: "'w token_handler" where
  "nft_symbol data sender = and_then (read_string SYMBOL_SLOT) (\<lambda>n. returns (encode_args [''string''] [VBytes n]))"

definition nft_total_supply :: "'w token_handler" where
  "nft_total_supply data sender = and_then (get_slot NFT_TOTAL_SUPPLY_SLOT) (\<lambda>v. returns (encode_uint256 v))"

definition nft_balance_of :: "'w token_env \<Rightarrow> 'w token_handler" where
  "nft_balance_of env data sender =
     and_then (lift_result (decode_address data 0)) (\<lambda>(own, _).
     and_then (raise_if (\<lambda>_. own = ZERO_ADDRESS) (VMExecutionError ZeroAddress)) (\<lambda>_.
     and_then (nft_get_balance env own) (\<lambda>v. returns (encode_uint256 v))))"

definition nft_owner_of :: "'w token_env \<Rightarrow> 'w token_handler" where
  "nft_owner_of env data sender =
     and_then (lift_result (decode_uint256 data 0)) (\<lambda>(token_id, _).
     and_then (get_token_owner env token_id) (\<lambda>own.
     and_then (raise_if (\<lambda>_. own = ZERO_ADDRESS) (VMExecutionError NonexistentToken)) (\<lambda>_.
     returns (encode_args [''address''] [VText own]))))"

definition is_authorized :: "'w token_env \<Rightarrow> string \<Rightarrow> string \<Rightarrow> int \<Rightarrow> ('w, bool) tok" where
  "is_authorized env who own token_id =
     (if who = own then ret True
      else and_then (get_token_approval env token_id) (\<lambda>approved.
        if approved = who then ret True else get_operator_approval env own who))"

definition nft_transfer :: "'w token_env \<Rightarrow> string \<Rightarrow> string \<Rightarrow> int \<Rightarrow> string \<Rightarrow> ('w, unit) tok" where
  "nft_transfer env from_addr to_addr token_id who =
     and_then (get_token_owner env token_id) (\<lambda>own.
     and_then (raise_if (\<lambda>_. own \<noteq> token_normalize from_addr) (VMExecutionError CallerNotOwner)) (\<lambda>_.
     and_then (is_authorized env (token_normalize who) own token_id) (\<lambda>ok.
     and_then (raise_if (\<lambda>_. \<not> ok) (VMExecutionError NotApproved)) (\<lambda>_.
     and_then (raise_if (\<lambda>_. token_normalize to_addr = ZERO_ADDRESS) (VMExecutionError ZeroAddress)) (\<lambda>_.
     and_then (set_token_owner env token_id to_addr) (\<lambda>_.
     and_then (clear_token_approval env token_id) (\<lambda>_.
     and_then (nft_get_balance env own) (\<lambda>sender_balance.
     and_then (nft_set_balance env own (max 0 (sender_balance - 1))) (\<lambda>_.
     and_then (nft_get_balance env to_addr) (\<lambda>recipient_balance.
     and_then (nft_set_balance env to_addr (recipient_balance + 1)) (\<lambda>_.
     append_log env TRANSFER_TOPIC own to_addr token_id)))))))))))"

definition nft_trigger_hook :: "'w token_env \<Rightarrow> string \<Rightarrow> string \<Rightarrow> string \<Rightarrow> int \<Rightarrow> byte list \<Rightarrow> ('w, unit) tok" where
  "nft_trigger_hook env operator previous_owner to_addr token_id data =
     (case env_hook env of
        None \<Rightarrow> ret ()
      | Some hook \<Rightarrow>
          if token_normalize to_addr = ZERO_ADDRESS then ret ()
          else zoom world world_update (hook operator previous_owner to_addr token_id data))"

definition pop_log :: "('w, unit) tok" where
  "pop_log = modify (\<lambda>s. s\<lparr>token_logs := butlast (token_logs s)\<rparr>)"

definition perform_safe_transfer :: "'w token_env \<Rightarrow> string \<Rightarrow> string \<Rightarrow> int \<Rightarrow> string \<Rightarrow> byte list \<Rightarrow> ('w, unit) tok" where
  "perform_safe_transfer env from_addr to_addr token_id operator data =
     and_then (get_token_owner env token_id) (\<lambda>previous_owner.
     and_then (nft_get_balance env previous_owner) (\<lambda>previous_owner_balance.
     and_then (nft_get_balance env to_addr) (\<lambda>previous_recipient_balance.
     and_then (get_token_approval env token_id) (\<lambda>previous_approval.
     and_then (nft_transfer env from_addr to_addr token_id operator) (\<lambda>_.
     on_failure (nft_trigger_hook env (token_normalize operator) (token_normalize previous_owner)
         (token_normalize to_addr) token_id data)
       (seq [set_token_owner env token_id previous_owner,
             nft_set_balance env previous_owner previous_owner_balance,
             nft_set_balance env to_addr previous_recipient_balance,
             if previous_approval \<noteq> ZERO_ADDRESS then set_token_approval env token_id previous_approval
             else clear_token_approval env token_id,
             pop_log]))))))"

text \<open>The two addresses and the token a transfer is called with.\<close>

definition transfer_args :: "byte list \<Rightarrow> exn + string \<times> string \<times> int \<times> nat" where
  "transfer_args data =
     bind_result (decode_address data 0) (\<lambda>(from_addr, offset).
     bind_result (decode_address data offset) (\<lambda>(to_addr, offset).
     bind_result (decode_uint256 data offset) (\<lambda>(token_id, offset). Inr (from_addr, to_addr, token_id, offset))))"

definition nft_transfer_from :: "'w token_env \<Rightarrow> 'w token_handler" where
  "nft_transfer_from env data sender =
     and_then (lift_result (transfer_args data)) (\<lambda>(from_addr, to_addr, token_id, _).
     and_then (nft_transfer env from_addr to_addr token_id sender) (\<lambda>_. ret []))"

definition nft_safe_transfer_from :: "'w token_env \<Rightarrow> 'w token_handler" where
  "nft_safe_transfer_from env data sender =
     and_then (lift_result (transfer_args data)) (\<lambda>(from_addr, to_addr, token_id, _).
     and_then (perform_safe_transfer env from_addr to_addr token_id sender []) (\<lambda>_. ret []))"

definition nft_safe_transfer_from_data :: "'w token_env \<Rightarrow> 'w token_handler" where
  "nft_safe_transfer_from_data env data sender =
     and_then (lift_result (transfer_args data)) (\<lambda>(from_addr, to_addr, token_id, offset).
     and_then (lift_result (decode_bytes data 0 offset)) (\<lambda>(extra_data, _).
     and_then (perform_safe_transfer env from_addr to_addr token_id sender extra_data) (\<lambda>_. ret [])))"

definition nft_approve :: "'w token_env \<Rightarrow> 'w token_handler" where
  "nft_approve env data sender =
     and_then (lift_result (decode_address data 0)) (\<lambda>(to_addr, offset).
     and_then (lift_result (decode_uint256 data offset)) (\<lambda>(token_id, _).
     and_then (get_token_owner env token_id) (\<lambda>own.
     and_then (raise_if (\<lambda>_. own = ZERO_ADDRESS) (VMExecutionError NonexistentToken)) (\<lambda>_.
     and_then (if own = sender then ret True else get_operator_approval env own sender) (\<lambda>ok.
     and_then (raise_if (\<lambda>_. \<not> ok) (VMExecutionError NotApproved)) (\<lambda>_.
     and_then (set_token_approval env token_id to_addr) (\<lambda>_.
     and_then (append_log env APPROVAL_TOPIC own to_addr token_id) (\<lambda>_. ret []))))))))"

definition nft_get_approved :: "'w token_env \<Rightarrow> 'w token_handler" where
  "nft_get_approved env data sender =
     and_then (lift_result (decode_uint256 data 0)) (\<lambda>(token_id, _).
     and_then (get_token_approval env token_id) (\<lambda>approved. returns (encode_args [''address''] [VText approved])))"

definition nft_set_approval_for_all :: "'w token_env \<Rightarrow> 'w token_handler" where
  "nft_set_approval_for_all env data sender =
     and_then (lift_result (decode_address data 0)) (\<lambda>(operator, offset).
     and_then (lift_result (decode_bool data offset)) (\<lambda>(approved, _).
     and_then (raise_if (\<lambda>_. operator = sender) (VMExecutionError SelfApproval)) (\<lambda>_.
     and_then (set_operator_approval env sender operator approved) (\<lambda>_.
     and_then (append_log env APPROVAL_FOR_ALL_TOPIC sender operator (if approved then 1 else 0)) (\<lambda>_. ret [])))))"

definition nft_is_approved_for_all :: "'w token_env \<Rightarrow> 'w token_handler" where
  "nft_is_approved_for_all env data sender =
     and_then (lift_result (decode_address data 0)) (\<lambda>(own, offset).
     and_then (lift_result (decode_address data offset)) (\<lambda>(operator, _).
     and_then (get_operator_approval env own operator) (\<lambda>approved. returns (encode_bool approved))))"

definition nft_token_uri :: "'w token_env \<Rightarrow> 'w token_handler" where
  "nft_token_uri env data sender =
     and_then (lift_result (decode_uint256 data 0)) (\<lambda>(token_id, _).
     and_then (get_token_uri env token_id) (\<lambda>uri. returns (encode_args [''string''] [VBytes uri])))"

definition nft_mint :: "'w token_env \<Rightarrow> 'w token_handler" where
  "nft_mint env data sender =
     and_then (nft_require_owner sender) (\<lambda>_.
     and_then (lift_result (decode_address data 0)) (\<lambda>(to_addr, offset).
     and_then (lift_result (decode_uint256 data offset)) (\<lambda>(token_id, offset).
     and_then (lift_result (if length data > offset
         then map_sum id (\<lambda>(b, _). decode_replace b) (decode_bytes data 0 offset) else Inr [])) (\<lambda>uri.
     and_then (get_token_owner env token_id) (\<lambda>own.
     and_then (raise_if (\<lambda>_. own \<noteq> ZERO_ADDRESS) (VMExecutionError AlreadyMinted)) (\<lambda>_.
     and_then (set_token_owner env token_id to_addr) (\<lambda>_.
     and_then (nft_get_balance env to_addr) (\<lambda>balance.
     and_then (nft_set_balance env to_addr (balance + 1)) (\<lambda>_.
     and_then (get_slot NFT_TOTAL_SUPPLY_SLOT) (\<lambda>total.
     and_then (set_slot NFT_TOTAL_SUPPLY_SLOT (total + 1)) (\<lambda>_.
     and_then (if uri \<noteq> [] then set_token_uri env token_id uri else ret ()) (\<lambda>_.
     and_then (append_log env TRANSFER_TOPIC ZERO_ADDRESS to_addr token_id) (\<lambda>_. ret [])))))))))))))"

definition nft_burn :: "'w token_env \<Rightarrow> 'w token_handler" where
  "nft_burn env data sender =
     and_then (lift_result (decode_uint256 data 0)) (\<lambda>(token_id, _).
     and_then (get_token_owner env token_id) (\<lambda>own.
     and_then (raise_if (\<lambda>_. own = ZERO_ADDRESS) (VMExecutionError NonexistentToken)) (\<lambda>_.
     and_then (is_authorized env (token_normalize sender) own token_id) (\<lambda>ok.
     and_then (raise_if (\<lambda>_. \<not> ok) (VMExecutionError NotApproved)) (\<lambda>_.
     and_then (set_token_owner env token_id ZERO_ADDRESS) (\<lambda>_.
     and_then (nft_get_balance env own) (\<lambda>balance.
     and_then (nft_set_balance env own (max 0 (balance - 1))) (\<lambda>_.
     and_then (get_slot NFT_TOTAL_SUPPLY_SLOT) (\<lambda>total.
     and_then (set_slot NFT_TOTAL_SUPPLY_SLOT (max 0 (total - 1))) (\<lambda>_.
     and_then (append_log env TRANSFER_TOPIC own ZERO_ADDRESS token_id) (\<lambda>_. ret [])))))))))))"

definition nft_transfer_ownership :: "'w token_handler" where
  "nft_transfer_ownership data sender =
     and_then (nft_require_owner sender) (\<lambda>_.
     and_then (lift_result (decode_address data 0)) (\<lambda>(new_owner, _).
     and_then (raise_if (\<lambda>_. new_owner = ZERO_ADDRESS) (VMExecutionError ZeroAddress)) (\<lambda>_.
     and_then (write_address NFT_OWNER_SLOT new_owner) (\<lambda>_. ret []))))"

section \<open>Dispatch\<close>

definition erc721_handlers :: "'w token_env \<Rightarrow> (string \<times> 'w token_handler) list" where
  "erc721_handlers env =
     [(''06fdde03'', nft_name), (''95d89b41'', nft_symbol), (''18160ddd'', nft_total_supply),
      (''70a08231'', nft_balance_of env), (''6352211e'', nft_owner_of env), (''23b872dd'', nft_transfer_from env),
      (''42842e0e'', nft_safe_transfer_from env), (''b88d4fde'', nft_safe_transfer_from_data env),
      (''095ea7b3'', nft_approve env), (''081812fc'', nft_get_approved env), (''a22cb465'', nft_set_approval_for_all env),
      (''e985e9c5'', nft_is_approved_for_all env), (''c87b56dd'', nft_token_uri env), (''40c10f19'', nft_mint env),
      (''42966c68'', nft_burn env), (''f2fde38b'', nft_transfer_ownership)]"

definition execute_erc721 ::
    "'w token_env \<Rightarrow> string \<Rightarrow> byte list \<Rightarrow> string \<Rightarrow> int \<Rightarrow> bool \<Rightarrow> ('w, byte list \<times> int) tok" where
  "execute_erc721 env selector cdata sender value st =
     (let sender = token_normalize sender; selector_hex = to_lower selector in
      and_then (raise_if (\<lambda>_. value \<noteq> 0) (VMExecutionError NativeValueRejected)) (\<lambda>_.
      and_then (raise_if (\<lambda>_. st \<and> selector_hex \<in> set STATEFUL_SELECTORS) (VMExecutionError StaticViolation)) (\<lambda>_.
      (case map_of (erc721_handlers env) selector_hex of
         None \<Rightarrow> raise (VMExecutionError UnknownSelector)
       | Some handler \<Rightarrow>
           and_then (modify (\<lambda>b. b\<lparr>token_logs := []\<rparr>)) (\<lambda>_.
           and_then (handler cdata sender) (\<lambda>result.
           ret (result, if selector_hex \<in> set STATEFUL_SELECTORS then 90000 else 30000)))))))"

text \<open>
  \<open>execute_builtin_contract\<close>: the storage comes from the dict of the registry entry, whose
  keys may be text or numbers. The world is that of the caller.
\<close>

primrec load_raw :: "(storage_key \<times> int) list \<Rightarrow> (evm_storage, unit) meth" where
  "load_raw [] = ret ()"
| "load_raw (kv # kvs) =
     and_then (lift_result (case fst kv of KeyText k \<Rightarrow> parse_int 16 k | KeyInt n \<Rightarrow> Inr n)) (\<lambda>key.
     and_then (modify (set_raw key (snd kv))) (\<lambda>_. load_raw kvs))"

definition execute_builtin_contract ::
    "string \<Rightarrow> 'w token_env \<Rightarrow> 'w token_env \<Rightarrow> (storage_key \<times> int) list \<Rightarrow> token_meta \<Rightarrow> string \<Rightarrow> byte list \<Rightarrow> string \<Rightarrow>
     int \<Rightarrow> bool \<Rightarrow> ('w, byte list \<times> int \<times> token_log list \<times> evm_storage) meth" where
  "execute_builtin_contract contract_type env20 env721 storage_data m selector cdata sender value st w =
     (case load_raw storage_data (new_storage (env_address env20)) of
        (Inl e, _) \<Rightarrow> (Inl e, w)
      | (Inr _, initial) \<Rightarrow>
          let construct = (if contract_type = ''ERC20'' then construct_token env20 m
                           else if contract_type = ''ERC721'' then construct_nft env721 m
                           else raise (VMExecutionError UnsupportedContract));
              run = (if contract_type = ''ERC20'' then execute_erc20 env20 selector cdata sender value st
                     else execute_erc721 env721 selector cdata sender value st)
          in (case and_then construct (\<lambda>_. run) \<lparr>world = w, token_store = initial, token_logs = []\<rparr> of
                (Inl e, b) \<Rightarrow> (Inl e, world b)
              | (Inr (out, used), b) \<Rightarrow> (Inr (out, used, token_logs b, token_store b), world b)))"


section \<open>Who can move a token\<close>

definition nft_owner :: "(byte list \<Rightarrow> byte list) \<Rightarrow> (int \<Rightarrow> int) \<Rightarrow> int \<Rightarrow> string" where
  "nft_owner K g token_id = (let raw = g (the_slot (hash_slot K OWNERS_BASE token_id))
     in if raw = 0 then ZERO_ADDRESS else word_address raw)"

definition nft_may_move :: "(byte list \<Rightarrow> byte list) \<Rightarrow> (int \<Rightarrow> int) \<Rightarrow> string \<Rightarrow> int \<Rightarrow> bool" where
  "nft_may_move K g who token_id \<longleftrightarrow>
     who = nft_owner K g token_id \<or> word_address (g (the_slot (hash_slot K TOKEN_APPROVAL_BASE token_id))) = who
     \<or> g (the_slot (double_mapping_slot K OPERATOR_APPROVAL_BASE (nft_owner K g token_id) who)) = 1"

text \<open>The owner's slot of a token is none of the slots a transfer of it writes besides.\<close>

definition nft_layout_ok :: "(byte list \<Rightarrow> byte list) \<Rightarrow> int \<Rightarrow> string list \<Rightarrow> bool" where
  "nft_layout_ok K token_id accounts \<longleftrightarrow>
     the_slot (hash_slot K OWNERS_BASE token_id) \<notin> set (the_slot (hash_slot K TOKEN_APPROVAL_BASE token_id)
       # map (\<lambda>a. the_slot (mapping_slot K NFT_BALANCES_BASE a)) accounts)"

lemma nft_reads_return:
  "get_token_owner env i s = (Inr a, t) \<Longrightarrow> a = nft_owner (env_hash env) (slots_of s) i \<and> t = s"
  "get_token_approval env i s = (Inr a, t) \<Longrightarrow> a = word_address (slots_of s (the_slot (hash_slot (env_hash env) TOKEN_APPROVAL_BASE i))) \<and> t = s"
  "get_operator_approval env b c s = (Inr ok, t) \<Longrightarrow>
     ok = (slots_of s (the_slot (double_mapping_slot (env_hash env) OPERATOR_APPROVAL_BASE b c)) = 1) \<and> t = s"
  "nft_get_balance env b s = (Inr n, t) \<Longrightarrow> t = s"
  by (auto simp: get_token_owner_def get_token_approval_def get_operator_approval_def nft_get_balance_def at_slot_def
      returning nft_owner_def the_slot_def)

lemma nft_writes_return:
  "set_token_owner env i a s = (Inr x, t) \<Longrightarrow>
     \<exists>k. address_key a = Inr k \<and> slots_of t = put (the_slot (hash_slot (env_hash env) OWNERS_BASE i)) k (slots_of s)"
  "set_token_approval env i a s = (Inr x, t) \<Longrightarrow>
     \<exists>k. address_key a = Inr k \<and> slots_of t = put (the_slot (hash_slot (env_hash env) TOKEN_APPROVAL_BASE i)) k (slots_of s)"
  "nft_set_balance env a v s = (Inr x, t) \<Longrightarrow>
     slots_of t = put (the_slot (mapping_slot (env_hash env) NFT_BALANCES_BASE a)) v (slots_of s)"
  by (auto simp: set_token_owner_def set_token_approval_def nft_set_balance_def at_slot_def returning the_slot_def
      dest: slots_set_slot)

lemma is_authorized_returns:
  "is_authorized env who (nft_owner (env_hash env) (slots_of s) i) i s = (Inr ok, t) \<Longrightarrow>
    t = s \<and> (ok \<longrightarrow> nft_may_move (env_hash env) (slots_of s) who i)"
  by (auto simp: is_authorized_def returning nft_may_move_def dest!: nft_reads_return split: if_splits)

lemma nft_transfer_returns:
  assumes run: "nft_transfer env a b i who s = (Inr x, t)"
    and layout: "nft_layout_ok (env_hash env) i [token_normalize a, b]"
  shows "nft_owner (env_hash env) (slots_of s) i = token_normalize a \<and>
    nft_may_move (env_hash env) (slots_of s) (token_normalize who) i \<and> token_normalize b \<noteq> ZERO_ADDRESS \<and>
    (\<exists>k. address_key b = Inr k \<and> slots_of t (the_slot (hash_slot (env_hash env) OWNERS_BASE i)) = k mod 2 ^ 256)"
  using run layout
  by (auto simp: nft_transfer_def clear_token_approval_def returning nft_layout_ok_def WORD_LIMIT_def
      dest!: nft_reads_return nft_writes_return is_authorized_returns slots_append_log)

lemma nft_hook_returns:
  "on_failure (nft_trigger_hook env op p b i d) c s = (Inr x, t) \<Longrightarrow> slots_of t = slots_of s"
  by (auto simp: on_failure_def nft_trigger_hook_def zoom_def ret_def slots_of_def and_then_def raise_def
      split: option.splits if_splits prod.splits sum.splits exn.splits)

lemma perform_safe_transfer_returns:
  assumes "perform_safe_transfer env a b i who d s = (Inr x, t)"
  shows "\<exists>u y. nft_transfer env a b i who s = (Inr y, u) \<and> slots_of t = slots_of u"
  using assms unfolding perform_safe_transfer_def returning
  by (auto dest!: nft_reads_return nft_hook_returns)

lemma token_normalize_idem: "token_normalize (token_normalize a) = token_normalize a"
proof -
  have zero: "starts_with ''0x'' ZERO_ADDRESS" "to_lower ZERO_ADDRESS = ZERO_ADDRESS" by code_simp+
  have "starts_with ''0x'' (to_lower a)" if "starts_with ''0x'' a"
    using that by (auto simp: starts_with_def to_lower_def Let_def take_map)
  moreover have "to_lower (''0x'' @ to_lower a) = ''0x'' @ to_lower a"
    using to_lower_idem [of a] by (simp add: to_lower_def)
  moreover have "ZERO_ADDRESS \<noteq> []" by (simp add: ZERO_ADDRESS_def)
  moreover have "to_lower a = [] \<longleftrightarrow> a = []" by (simp add: to_lower_def)
  ultimately show ?thesis
    using zero by (auto simp: token_normalize_def starts_with_def)
qed

text \<open>
  a call of one of the three transfer functions that returns was made by the owner of the
  token, by the account approved for it or by an operator of the owner; the token was the
  sender's of the transfer, the receiver is not the zero address and owns it afterwards.
\<close>

lemma nft_transfer_authorised:
  assumes "execute_erc721 env selector data sender value st s = (Inr r, t)"
    and "to_lower selector \<in> {''23b872dd'', ''42842e0e'', ''b88d4fde''}" and "transfer_args data = Inr (a, b, i, off)"
    and "nft_layout_ok (env_hash env) i [token_normalize a, b]"
  shows "nft_owner (env_hash env) (slots_of s) i = token_normalize a \<and>
    nft_may_move (env_hash env) (slots_of s) (token_normalize sender) i \<and> token_normalize b \<noteq> ZERO_ADDRESS \<and>
    (\<exists>k. address_key b = Inr k \<and> slots_of t (the_slot (hash_slot (env_hash env) OWNERS_BASE i)) = k mod 2 ^ 256)"
proof -
  let ?s = "s\<lparr>token_logs := []\<rparr>" and ?who = "token_normalize sender"
  have slots: "slots_of ?s = slots_of s" by (simp add: slots_of_def)
  from assms(1) obtain h x where h: "map_of (erc721_handlers env) (to_lower selector) = Some h"
    and run: "h data ?who ?s = (Inr x, t)"
    by (auto simp: execute_erc721_def Let_def returning modify_def raise_def split: option.splits)
  from h assms(2) have "h \<in> {nft_transfer_from env, nft_safe_transfer_from env, nft_safe_transfer_from_data env}"
    by (auto simp: erc721_handlers_def)
  with run assms(3) obtain u y where "nft_transfer env a b i ?who ?s = (Inr y, u)" "slots_of t = slots_of u"
    by (auto simp: nft_transfer_from_def nft_safe_transfer_from_def nft_safe_transfer_from_data_def returning
        dest!: perform_safe_transfer_returns)
  from nft_transfer_returns [OF this(1) assms(4)] this(2) show ?thesis by (simp add: slots token_normalize_idem)
qed

text \<open>The example: token 7 of account 10, moved by its owner to account 11.\<close>

definition move_data :: "byte list" where
  "move_data = (case encode_args [''address'', ''address'', ''uint256''] [VText (account 10), VText (account 11), VInt 7]
     of Inr d \<Rightarrow> d | Inl _ \<Rightarrow> [])"

definition sample_nft :: "unit builtin" where
  "sample_nft = \<lparr>world = (), token_store = set_raw 131072007 170 (new_storage ''0xcc''), token_logs = []\<rparr>"

lemma move_args: "transfer_args move_data = Inr (account 10, account 11, 7, 96)"
  by code_simp

lemma sample_nft_slots:
  "hash_slot sample_hash OWNERS_BASE 7 = Inr 131072007" "hash_slot sample_hash TOKEN_APPROVAL_BASE 7 = Inr 196608007"
  "mapping_slot sample_hash NFT_BALANCES_BASE (account 10) = Inr 65536170"
  "mapping_slot sample_hash NFT_BALANCES_BASE (account 11) = Inr 65536187"
  by (simp_all add: sample_hash_slot OWNERS_BASE_def TOKEN_APPROVAL_BASE_def NFT_BALANCES_BASE_def
      sample_slots [OF sample_keys(1)] sample_slots [OF sample_keys(2)])

lemma sample_move: "\<exists>r t. execute_erc721 sample_env ''23b872dd'' move_data (account 10) 0 False sample_nft = (Inr r, t)"
proof -
  have owner: "get_raw (token_store sample_nft) 131072007 = 170"
    by (simp add: sample_nft_def set_raw_get word_update_def)
  have words: "word_address 170 = account 10" "address_key ZERO_ADDRESS = Inr 0" by code_simp+
  have to: "account 11 \<noteq> ZERO_ADDRESS" "to_lower ''23b872dd'' = ''23b872dd''" by code_simp+
  have handler: "map_of (erc721_handlers sample_env) ''23b872dd'' = Some (nft_transfer_from sample_env)"
    by (simp add: erc721_handlers_def)
  have one: "\<exists>b. encode_uint256 7 = Inr b" by (simp add: encode_uint256_Inr)
  show ?thesis
    unfolding execute_erc721_def Let_def to(2) sample_data
    using one to(1)
    by (auto simp: handler nft_transfer_from_def move_args nft_transfer_def meth_simps get_token_owner_def at_slot_def
        sample_nft_slots sample_env_simps get_slot_def set_slot_def owner words sample_data is_authorized_def
        set_token_owner_def clear_token_approval_def set_token_approval_def nft_get_balance_def nft_set_balance_def
        sample_keys append_log_def sample_topics)
qed

end
