(* ===== verification/PyFloat.thy ===== *)
theory PyFloat
  imports Complex_Main Prelude
begin

text \<open>
  Python's \<open>float\<close>, the IEEE 754 double: a finite value is the rational number it stands for,
  and every operation rounds the exact result to the nearest double, ties to even. The sign
  of zero is not kept.
\<close>

section \<open>Rounding\<close>

definition pow2 :: "int \<Rightarrow> rat" where
  "pow2 e = (if 0 \<le> e then 2 ^ nat e else 1 / 2 ^ nat (- e))"

text \<open>The integer nearest to a rational, an even one if two are.\<close>

definition round_even :: "rat \<Rightarrow> int" where
  "round_even x =
     (let f = floor x; d = x - of_int f in
      if d < 1 / 2 then f else if d > 1 / 2 then f + 1 else if even f then f else f + 1)"

text \<open>The exponent of a positive rational: \<open>pow2 e \<le> x < pow2 (e + 1)\<close>.\<close>

function int_bits :: "int \<Rightarrow> int" where
  "int_bits n = (if n \<le> 0 then 0 else int_bits (n div 2) + 1)"
  by pat_completeness auto
termination by (relation "measure nat") auto

declare int_bits.simps [simp del]

definition floor_log2 :: "rat \<Rightarrow> int" where
  "floor_log2 x =
     (case quotient_of x of (n, d) \<Rightarrow>
        let e = int_bits n - int_bits d in if pow2 e \<le> x then e else e - 1)"

text \<open>53 bits of precision, and no exponent below that of the smallest subnormal number.\<close>

definition ulp_exponent :: "rat \<Rightarrow> int" where
  "ulp_exponent x = max (- 1074) (floor_log2 \<bar>x\<bar> - 52)"

definition round_double :: "rat \<Rightarrow> rat" where
  "round_double x =
     (if x = 0 then 0 else of_int (round_even (x / pow2 (ulp_exponent x))) * pow2 (ulp_exponent x))"

section \<open>Values and operations\<close>

datatype pyfloat = Fin rat | PosInf | NegInf | NaN

definition to_float :: "rat \<Rightarrow> pyfloat" where
  "to_float x = (let r = round_double x in
      if r \<noteq> 0 \<and> floor_log2 \<bar>r\<bar> \<ge> 1024 then (if r > 0 then PosInf else NegInf) else Fin r)"

fun float_add :: "pyfloat \<Rightarrow> pyfloat \<Rightarrow> pyfloat" where
  "float_add (Fin x) (Fin y) = to_float (x + y)"
| "float_add NaN y = NaN"
| "float_add x NaN = NaN"
| "float_add PosInf NegInf = NaN"
| "float_add NegInf PosInf = NaN"
| "float_add PosInf y = PosInf"
| "float_add NegInf y = NegInf"
| "float_add x PosInf = PosInf"
| "float_add x NegInf = NegInf"

fun float_neg :: "pyfloat \<Rightarrow> pyfloat" where
  "float_neg (Fin x) = Fin (- x)"
| "float_neg PosInf = NegInf"
| "float_neg NegInf = PosInf"
| "float_neg NaN = NaN"

definition float_sub :: "pyfloat \<Rightarrow> pyfloat \<Rightarrow> pyfloat" where
  "float_sub x y = float_add x (float_neg y)"

fun float_sign :: "pyfloat \<Rightarrow> int" where
  "float_sign (Fin x) = (if x < 0 then -1 else if x > 0 then 1 else 0)"
| "float_sign PosInf = 1"
| "float_sign NegInf = -1"
| "float_sign NaN = 0"

definition float_mul :: "pyfloat \<Rightarrow> pyfloat \<Rightarrow> pyfloat" where
  "float_mul x y =
     (case (x, y) of
        (Fin a, Fin b) \<Rightarrow> to_float (a * b)
      | (NaN, _) \<Rightarrow> NaN
      | (_, NaN) \<Rightarrow> NaN
      | _ \<Rightarrow> if float_sign x * float_sign y = 0 then NaN else if float_sign x * float_sign y > 0 then PosInf else NegInf)"

text \<open>True division; integers are converted first.\<close>

fun float_div :: "pyfloat \<Rightarrow> pyfloat \<Rightarrow> exn + pyfloat" where
  "float_div x (Fin b) =
     (if b = 0 then Inl ZeroDivisionError
      else case x of Fin a \<Rightarrow> Inr (to_float (a / b)) | NaN \<Rightarrow> Inr NaN
           | _ \<Rightarrow> Inr (if b < 0 then float_neg x else x))"
| "float_div (Fin a) y = Inr (if y = NaN then NaN else Fin 0)"
| "float_div x y = Inr NaN"

text \<open>Comparisons: every one with a NaN is false.\<close>

fun float_less :: "pyfloat \<Rightarrow> pyfloat \<Rightarrow> bool" where
  "float_less (Fin x) (Fin y) = (x < y)"
| "float_less NaN y = False"
| "float_less x NaN = False"
| "float_less NegInf y = (y \<noteq> NegInf)"
| "float_less x PosInf = (x \<noteq> PosInf)"
| "float_less PosInf y = False"
| "float_less x NegInf = False"

definition float_eq :: "pyfloat \<Rightarrow> pyfloat \<Rightarrow> bool" where
  "float_eq x y \<longleftrightarrow> x \<noteq> NaN \<and> x = y"

definition float_le :: "pyfloat \<Rightarrow> pyfloat \<Rightarrow> bool" where
  "float_le x y \<longleftrightarrow> float_less x y \<or> float_eq x y"

text \<open>\<open>float(n)\<close> and \<open>int(x)\<close>, which truncates and raises on values that are not finite.\<close>

definition float_of_int :: "int \<Rightarrow> pyfloat" where
  "float_of_int n = to_float (of_int n)"

definition int_of_float :: "pyfloat \<Rightarrow> exn + int" where
  "int_of_float x =
     (case x of Fin r \<Rightarrow> Inr (if r < 0 then - floor (- r) else floor r) | NaN \<Rightarrow> Inl ValueError | _ \<Rightarrow> Inl OverflowError)"

definition float_abs :: "pyfloat \<Rightarrow> pyfloat" where
  "float_abs x = (if float_sign x < 0 then float_neg x else x)"

section \<open>Rounding is to the nearest double\<close>

lemma pow2_pos: "0 < pow2 e"
  by (simp add: pow2_def)

lemma pow2_add: "pow2 (a + b) = pow2 a * pow2 b"
proof -
  have "pow2 e = 2 powi e" for e
    by (simp add: pow2_def power_int_def inverse_eq_divide power_divide)
  then show ?thesis by (simp add: power_int_add)
qed

lemma pow2_code [code]:
  "pow2 e =
     (if e < 0 then 1 / pow2 (- e) else if e = 0 then 1
      else let h = pow2 (e div 2) in if even e then h * h else 2 * h * h)"
proof (cases "0 < e")
  case True
  have "e = e div 2 + e div 2 + (if even e then 0 else 1)" by (auto elim: oddE)
  then have "pow2 e = pow2 (e div 2) * pow2 (e div 2) * pow2 (if even e then 0 else 1)"
    by (metis pow2_add)
  then show ?thesis using True by (simp add: Let_def pow2_def [of 0] pow2_def [of 1])
qed (auto simp: pow2_def)

lemma round_even_near: "\<bar>of_int (round_even x) - x\<bar> \<le> 1 / 2"
proof -
  have "of_int \<lfloor>x\<rfloor> \<le> x" "x < of_int \<lfloor>x\<rfloor> + 1" by linarith+
  then show ?thesis by (auto simp: round_even_def Let_def abs_le_iff)
qed

lemma round_even_of_int [simp]: "round_even (of_int n) = n"
  by (simp add: round_even_def)

lemma round_double_near: "\<bar>round_double x - x\<bar> \<le> pow2 (ulp_exponent x) / 2"
proof (cases "x = 0")
  case False
  let ?u = "pow2 (ulp_exponent x)"
  have u: "0 < ?u" by (rule pow2_pos)
  have "round_double x - x = (of_int (round_even (x / ?u)) - x / ?u) * ?u"
    using False u by (simp add: round_double_def field_simps)
  then have "\<bar>round_double x - x\<bar> = \<bar>of_int (round_even (x / ?u)) - x / ?u\<bar> * ?u"
    using u by (simp add: abs_mult)
  also have "\<dots> \<le> 1 / 2 * ?u"
    using round_even_near u by (intro mult_right_mono) simp_all
  finally show ?thesis by simp
qed (simp add: round_double_def pow2_pos less_imp_le)

text \<open>A value that is a multiple of its unit in the last place is a double and is kept.\<close>

lemma round_double_exact:
  assumes "x = of_int m * pow2 (ulp_exponent x)"
  shows "round_double x = x"
proof (cases "x = 0")
  case False
  have "x / pow2 (ulp_exponent x) = of_int m"
    using assms pow2_pos [of "ulp_exponent x"] by (metis nonzero_mult_div_cancel_right less_irrefl)
  then show ?thesis using False assms by (simp add: round_double_def)
qed (simp add: round_double_def)


section \<open>The relative error of rounding\<close>

lemma pow2_mono: "a \<le> b \<Longrightarrow> pow2 a \<le> pow2 b"
proof -
  assume "a \<le> b"
  then have "1 \<le> pow2 (b - a)" by (simp add: pow2_def)
  moreover have "pow2 b = pow2 a * pow2 (b - a)" using pow2_add [of a "b - a"] by simp
  ultimately show ?thesis using pow2_pos [of a] by simp
qed

lemma pow2_less: "pow2 a < pow2 b \<Longrightarrow> a < b"
  using pow2_mono [of b a] by (meson leD leI)

lemma int_bits_bounds: "0 < n \<Longrightarrow> \<exists>k. int_bits n = int (Suc k) \<and> 2 ^ k \<le> n \<and> n < 2 ^ Suc k"
proof (induction n rule: int_bits.induct)
  case (1 n)
  show ?case
  proof (cases "n = 1")
    case True
    then show ?thesis by (intro exI [of _ 0]) (simp add: int_bits.simps)
  next
    case False
    with 1(2) have half: "\<not> n \<le> 0" "0 < n div 2" by auto
    from 1(1) [OF half] obtain k where k: "int_bits (n div 2) = int (Suc k)" "2 ^ k \<le> n div 2" "n div 2 < 2 ^ Suc k"
      by blast
    have "int_bits n = int (Suc (Suc k))" using 1(2) k(1) by (simp add: int_bits.simps [of n])
    moreover have "2 ^ Suc k \<le> n" "n < 2 ^ Suc (Suc k)" using k(2,3) by simp_all
    ultimately show ?thesis by blast
  qed
qed

lemma pow2_nat: "pow2 (int k) = 2 ^ k"
  by (simp add: pow2_def)

lemma floor_log2_bounds:
  assumes "0 < x"
  shows "pow2 (floor_log2 x) \<le> x \<and> x < pow2 (floor_log2 x + 1)"
proof -
  obtain n d where q: "quotient_of x = (n, d)" by fastforce
  have d: "0 < d" and x: "x = of_int n / of_int d"
    using q quotient_of_denom_pos quotient_of_div by blast+
  have n: "0 < n" using assms d by (simp add: x zero_less_divide_iff)
  obtain a where a: "int_bits n = int (Suc a)" "2 ^ a \<le> n" "n < 2 ^ Suc a" using int_bits_bounds [OF n] by blast
  obtain b where b: "int_bits d = int (Suc b)" "2 ^ b \<le> d" "d < 2 ^ Suc b" using int_bits_bounds [OF d] by blast
  let ?e = "int a - int b"
  have "pow2 (?e + 1) * pow2 (int b) = pow2 (int (Suc a))" "pow2 (?e - 1) * pow2 (int (Suc b)) = pow2 (int a)"
    using pow2_add [of "?e + 1" "int b"] pow2_add [of "?e - 1" "int (Suc b)"] by (simp_all add: add.commute [of 1])
  then have E: "pow2 (?e + 1) * 2 ^ b = 2 ^ Suc a" "pow2 (?e - 1) * 2 ^ Suc b = 2 ^ a"
    by (simp_all only: pow2_nat)
  have "of_int n < (of_int (2 ^ Suc a) :: rat)" "of_int (2 ^ b) \<le> (of_int d :: rat)"
    "of_int (2 ^ a) \<le> (of_int n :: rat)" "of_int d < (of_int (2 ^ Suc b) :: rat)"
    using a(2,3) b(2,3) by (simp_all only: of_int_less_iff of_int_le_iff)
  then have R: "of_int n < (2 :: rat) ^ Suc a" "(2 :: rat) ^ b \<le> of_int d" "(2 :: rat) ^ a \<le> of_int n"
    "of_int d < (2 :: rat) ^ Suc b" by simp_all
  have "x * of_int d = of_int n" using d by (simp add: x)
  have up: "x < pow2 (?e + 1)"
  proof (rule ccontr)
    assume "\<not> ?thesis"
    then have "pow2 (?e + 1) * 2 ^ b \<le> x * of_int d"
      using R(2) pow2_pos [of "?e + 1"] assms by (intro mult_mono) simp_all
    with E(1) R(1) \<open>x * of_int d = of_int n\<close> show False by simp
  qed
  have low: "pow2 (?e - 1) \<le> x"
  proof -
    have "x * of_int d \<le> x * 2 ^ Suc b" using R(4) assms by (intro mult_left_mono) simp_all
    then have "pow2 (?e - 1) * 2 ^ Suc b \<le> x * 2 ^ Suc b" unfolding E(2) \<open>x * of_int d = of_int n\<close> by (rule order_trans [OF R(3)])
    then show ?thesis by simp
  qed
  show ?thesis
    using up low by (simp add: floor_log2_def q Let_def a(1) b(1))
qed


text \<open>From one half up, rounding is off by one part in \<open>2 ^ 53\<close> at most.\<close>

lemma ulp_normal:
  assumes "1 / 2 \<le> x"
  shows "ulp_exponent x = floor_log2 x - 52"
proof -
  have "0 < x" using assms by simp
  note B = floor_log2_bounds [OF this]
  have "pow2 (- 1) < pow2 (floor_log2 x + 1)" using B assms by (simp add: pow2_def [of "- 1"])
  then show ?thesis using pow2_less [of "- 1" "floor_log2 x + 1"] \<open>0 < x\<close> by (simp add: ulp_exponent_def)
qed

lemma round_double_close:
  assumes "1 / 2 \<le> x"
  shows "\<bar>round_double x - x\<bar> \<le> x / 2 ^ 53"
proof -
  have pos: "0 < x" using assms by simp
  have "pow2 (floor_log2 x) = pow2 (ulp_exponent x) * pow2 (int 52)"
    using pow2_add [of "ulp_exponent x" "int 52"] by (simp add: ulp_normal [OF assms])
  then have "pow2 (ulp_exponent x) * 2 ^ 52 \<le> x"
    using floor_log2_bounds [OF pos] unfolding pow2_nat by simp
  moreover have "(2 :: rat) ^ 53 = 2 * 2 ^ 52" by simp
  ultimately have "pow2 (ulp_exponent x) / 2 \<le> x / 2 ^ 53"
    by (simp add: field_simps)
  with round_double_near [of x] show ?thesis by (rule order_trans)
qed

text \<open>Whole numbers below \<open>2 ^ 53\<close> are doubles.\<close>

lemma round_double_int:
  assumes "1 \<le> n" and "n < 2 ^ 53"
  shows "round_double (of_int n) = of_int n"
proof -
  have pos: "0 < (of_int n :: rat)" "1 / 2 \<le> (of_int n :: rat)"
    using assms(1) of_int_le_iff [where ?'a = rat, of 1 n] by (simp_all del: of_int_le_iff)
  note B = floor_log2_bounds [OF pos(1)]
  have "(of_int n :: rat) < pow2 (int 53)"
    unfolding pow2_nat using assms(2) of_int_less_iff [where ?'a = rat, of n "2 ^ 53"] by (simp del: of_int_less_iff)
  with B have "pow2 (floor_log2 (of_int n)) < pow2 (int 53)" by (blast intro: le_less_trans)
  then have "ulp_exponent (of_int n) \<le> 0" using pow2_less ulp_normal [OF pos(2)] by force
  then obtain k where k: "ulp_exponent (of_int n) = - int k" by (metis nonneg_eq_int add.inverse_inverse neg_0_le_iff_le)
  have "pow2 (- int k) * pow2 (int k) = 1" using pow2_add [of "- int k" "int k"] by (simp add: pow2_def [of 0])
  then have "of_int n = of_int (n * 2 ^ k) * pow2 (ulp_exponent (of_int n))"
    by (simp add: k pow2_nat mult.commute)
  then show ?thesis by (rule round_double_exact)
qed

lemma to_float_finite:
  assumes "round_double x \<noteq> 0 \<Longrightarrow> \<bar>round_double x\<bar> < pow2 1024"
  shows "to_float x = Fin (round_double x)"
proof (cases "round_double x = 0")
  case False
  then have "pow2 (floor_log2 \<bar>round_double x\<bar>) < pow2 1024"
    using floor_log2_bounds [of "\<bar>round_double x\<bar>"] assms by (auto intro: le_less_trans)
  then show ?thesis using pow2_less by (fastforce simp: to_float_def Let_def)
qed (simp add: to_float_def Let_def)

section \<open>Rounding is monotone\<close>

lemma round_even_mono: "x \<le> y \<Longrightarrow> round_even x \<le> round_even y"
proof (rule ccontr)
  assume le: "x \<le> y" and "\<not> round_even x \<le> round_even y"
  then have "round_even y + 1 \<le> round_even x" by simp
  then have "(of_int (round_even y) :: rat) + 1 \<le> of_int (round_even x)"
    using of_int_le_iff [where ?'a = rat, of "round_even y + 1" "round_even x"] by simp
  moreover have "\<bar>of_int (round_even x) - x\<bar> \<le> 1 / 2" "\<bar>of_int (round_even y) - y\<bar> \<le> 1 / 2" by (rule round_even_near)+
  ultimately have "x = y" using le by linarith
  then show False using \<open>\<not> round_even x \<le> round_even y\<close> by simp
qed

lemma floor_log2_mono: "0 < x \<Longrightarrow> x \<le> y \<Longrightarrow> floor_log2 x \<le> floor_log2 y"
proof -
  assume x: "0 < x" and y: "x \<le> y"
  then have "pow2 (floor_log2 x) < pow2 (floor_log2 y + 1)"
    using floor_log2_bounds [OF x] floor_log2_bounds [of y] by simp
  then show ?thesis using pow2_less by force
qed

text \<open>A power of two that is a multiple of the unit bounds the rounded value from above and below.\<close>

lemma pow2_units: "k \<le> e \<Longrightarrow> \<exists>n. pow2 e / pow2 k = of_int n"
proof -
  assume "k \<le> e"
  then obtain d where d: "e = k + int d" by (metis zle_iff_zadd)
  have "pow2 e / pow2 k = 2 ^ d" using pow2_add [of k "int d"] pow2_pos [of k] by (simp add: d pow2_nat)
  then show ?thesis by (metis of_int_numeral of_int_power)
qed

lemma round_double_le_pow2:
  assumes "0 < x" and "x \<le> pow2 e" and "ulp_exponent x \<le> e"
  shows "round_double x \<le> pow2 e"
proof -
  let ?u = "pow2 (ulp_exponent x)"
  have u: "0 < ?u" by (rule pow2_pos)
  obtain n where n: "pow2 e / ?u = of_int n" using pow2_units [OF assms(3)] by blast
  have "x / ?u \<le> of_int n" using assms(2) u unfolding n [symmetric] by (intro divide_right_mono) simp_all
  then have "round_even (x / ?u) \<le> n" using round_even_mono [of "x / ?u" "of_int n"] by simp
  then have "(of_int (round_even (x / ?u)) :: rat) \<le> pow2 e / ?u" unfolding n by simp
  then have "of_int (round_even (x / ?u)) * ?u \<le> pow2 e / ?u * ?u" using u by (intro mult_right_mono) simp_all
  then show ?thesis using assms(1) u by (simp add: round_double_def)
qed

lemma round_double_ge_pow2:
  assumes "pow2 e \<le> x" and "ulp_exponent x \<le> e"
  shows "pow2 e \<le> round_double x"
proof -
  let ?u = "pow2 (ulp_exponent x)"
  have u: "0 < ?u" by (rule pow2_pos)
  have x: "0 < x" using assms(1) pow2_pos [of e] by simp
  obtain n where n: "pow2 e / ?u = of_int n" using pow2_units [OF assms(2)] by blast
  have "of_int n \<le> x / ?u" using assms(1) u unfolding n [symmetric] by (intro divide_right_mono) simp_all
  then have "n \<le> round_even (x / ?u)" using round_even_mono [of "of_int n" "x / ?u"] by simp
  then have "pow2 e / ?u \<le> (of_int (round_even (x / ?u)) :: rat)" unfolding n by simp
  then have "pow2 e / ?u * ?u \<le> of_int (round_even (x / ?u)) * ?u" using u by (intro mult_right_mono) simp_all
  then show ?thesis using x u by (simp add: round_double_def)
qed

lemma round_double_mono:
  assumes "0 \<le> x" and "x \<le> y"
  shows "round_double x \<le> round_double y"
proof (cases "x = 0")
  case True
  have "0 \<le> round_double y" if "0 < y"
    using that pow2_pos [of "ulp_exponent y"] round_even_mono [of 0 "y / pow2 (ulp_exponent y)"]
    by (simp add: round_double_def round_even_def [of 0])
  then show ?thesis using True assms(2) by (cases "y = 0") (simp_all add: round_double_def [of 0])
next
  case False
  then have x: "0 < x" and y: "0 < y" using assms by simp_all
  have log: "floor_log2 x \<le> floor_log2 y" by (rule floor_log2_mono [OF x assms(2)])
  show ?thesis
  proof (cases "ulp_exponent x = ulp_exponent y")
    case True
    let ?u = "pow2 (ulp_exponent y)"
    have u: "0 < ?u" by (rule pow2_pos)
    then have "x / ?u \<le> y / ?u" using assms(2) by (intro divide_right_mono) simp_all
    from round_even_mono [OF this] u show ?thesis
      using x y True by (simp add: round_double_def)
  next
    case False
    have ux: "ulp_exponent x = max (- 1074) (floor_log2 x - 52)" and uy: "ulp_exponent y = max (- 1074) (floor_log2 y - 52)"
      using x y by (simp_all add: ulp_exponent_def)
    have e: "ulp_exponent y = floor_log2 y - 52" "ulp_exponent x \<le> floor_log2 y" "floor_log2 x + 1 \<le> floor_log2 y"
      using False log unfolding ux uy by (auto simp: max_def split: if_splits)
    have "x \<le> pow2 (floor_log2 y)" using floor_log2_bounds [OF x] pow2_mono [OF e(3)] by simp
    then have "round_double x \<le> pow2 (floor_log2 y)" by (rule round_double_le_pow2 [OF x _ e(2)])
    also have "\<dots> \<le> round_double y"
      by (rule round_double_ge_pow2) (use floor_log2_bounds [OF y] e(1) in simp_all)
    finally show ?thesis .
  qed
qed

lemma round_double_nonneg: "0 \<le> x \<Longrightarrow> 0 \<le> round_double x"
  using round_double_mono [of 0 x] by (simp add: round_double_def [of 0])

lemma to_float_Fin: "to_float x = Fin a \<Longrightarrow> a = round_double x \<and> (a = 0 \<or> \<bar>a\<bar> < pow2 1024)"
proof -
  assume f: "to_float x = Fin a"
  then have a: "a = round_double x" and "a \<noteq> 0 \<longrightarrow> floor_log2 \<bar>a\<bar> < 1024" by (auto simp: to_float_def Let_def split: if_splits)
  moreover have "\<bar>a\<bar> < pow2 1024" if "a \<noteq> 0" "floor_log2 \<bar>a\<bar> < 1024"
  proof -
    have "\<bar>a\<bar> < pow2 (floor_log2 \<bar>a\<bar> + 1)" using floor_log2_bounds [of "\<bar>a\<bar>"] that by simp
    also have "\<dots> \<le> pow2 1024" using that by (intro pow2_mono) simp
    finally show ?thesis .
  qed
  ultimately show ?thesis by blast
qed

lemma to_float_mono:
  assumes "0 \<le> x" "x \<le> y" and "to_float y = Fin b"
  shows "\<exists>a. to_float x = Fin a \<and> 0 \<le> a \<and> a \<le> b"
proof -
  have b: "b = round_double y" "b = 0 \<or> \<bar>b\<bar> < pow2 1024" using to_float_Fin [OF assms(3)] by auto
  have a: "0 \<le> round_double x" "round_double x \<le> b"
    using round_double_nonneg [OF assms(1)] round_double_mono [OF assms(1,2)] b(1) by simp_all
  then have "to_float x = Fin (round_double x)" using b(2) by (intro to_float_finite) auto
  with a show ?thesis by blast
qed

lemma to_float_nonneg: "0 \<le> x \<Longrightarrow> to_float x = PosInf \<or> (\<exists>a. to_float x = Fin a \<and> 0 \<le> a)"
  using round_double_nonneg [of x] by (auto simp: to_float_def Let_def)

section \<open>Computing a rounded value\<close>

lemma round_even_unique: "\<bar>x - of_int n\<bar> < 1 / 2 \<Longrightarrow> round_even x = n"
proof -
  assume "\<bar>x - of_int n\<bar> < 1 / 2"
  with round_even_near [of x] have "\<bar>of_int (round_even x) - of_int n\<bar> < (1 :: rat)" by linarith
  then have "of_int \<bar>round_even x - n\<bar> < (of_int 1 :: rat)" by simp
  then have "\<bar>round_even x - n\<bar> < 1" by (simp only: of_int_less_iff)
  then show ?thesis by simp
qed

lemma floor_log2_unique: "pow2 e \<le> x \<Longrightarrow> x < pow2 (e + 1) \<Longrightarrow> floor_log2 x = e"
proof -
  assume e: "pow2 e \<le> x" "x < pow2 (e + 1)"
  then have "0 < x" using pow2_pos [of e] by simp
  note B = floor_log2_bounds [OF this]
  have "pow2 e < pow2 (floor_log2 x + 1)" "pow2 (floor_log2 x) < pow2 (e + 1)" using e B by simp_all
  then have "e < floor_log2 x + 1" "floor_log2 x < e + 1" by (simp_all only: pow2_less)
  then show ?thesis by simp
qed

lemma round_double_eqI:
  assumes "pow2 e \<le> x" "x < pow2 (e + 1)" "- 1022 \<le> e" and "\<bar>x - of_int n * pow2 (e - 52)\<bar> < pow2 (e - 52) / 2"
  shows "round_double x = of_int n * pow2 (e - 52)" and "ulp_exponent x = e - 52"
proof -
  let ?u = "pow2 (e - 52)"
  have u: "0 < ?u" by (rule pow2_pos)
  have x: "0 < x" using assms(1) pow2_pos [of e] by simp
  show ulp: "ulp_exponent x = e - 52"
    using x floor_log2_unique [OF assms(1,2)] assms(3) by (simp add: ulp_exponent_def)
  have "x / ?u - of_int n = (x - of_int n * ?u) / ?u" using u by (simp add: field_simps)
  then have "\<bar>x / ?u - of_int n\<bar> = \<bar>x - of_int n * ?u\<bar> / ?u" using u by simp
  also have "\<dots> < ?u / 2 / ?u" using assms(4) u by (intro divide_strict_right_mono)
  finally have "\<bar>x / ?u - of_int n\<bar> < 1 / 2" using u by simp
  then have "round_even (x / ?u) = n" by (rule round_even_unique)
  then show "round_double x = of_int n * ?u" using x ulp by (simp add: round_double_def)
qed

lemma to_float_eqI:
  assumes "pow2 e \<le> x" "x < pow2 (e + 1)" "- 1022 \<le> e" "e < 1023" "\<bar>x - of_int n * pow2 (e - 52)\<bar> < pow2 (e - 52) / 2"
  shows "to_float x = Fin (of_int n * pow2 (e - 52))"
proof -
  have r: "round_double x = of_int n * pow2 (e - 52)" by (rule round_double_eqI [OF assms(1-3,5)])
  have "0 < x" using assms(1) pow2_pos [of e] by simp
  then have nonneg: "0 \<le> round_double x" by (intro round_double_nonneg) simp
  have "round_double x \<le> x + pow2 (e - 52) / 2" using assms(5) unfolding r by linarith
  also have "\<dots> < pow2 (e + 1) + pow2 (e + 1)"
    using assms(2) pow2_mono [of "e - 52" "e + 1"] pow2_pos [of "e - 52"] pow2_pos [of "e + 1"] by linarith
  also have "\<dots> = pow2 (e + 2)" using pow2_add [of "e + 1" 1] by (simp add: pow2_def [of 1] add.commute)
  also have "\<dots> \<le> pow2 1024" using assms(4) by (intro pow2_mono) simp
  finally have "to_float x = Fin (round_double x)" using nonneg by (intro to_float_finite) simp
  then show ?thesis by (simp add: r)
qed

lemma to_float_int: "1 \<le> n \<Longrightarrow> n < 2 ^ 53 \<Longrightarrow> to_float (of_int n) = Fin (of_int n)"
proof -
  assume n: "1 \<le> n" "n < 2 ^ 53"
  have "(of_int n :: rat) < pow2 (int 53)"
    unfolding pow2_nat using n(2) of_int_less_iff [where ?'a = rat, of n "2 ^ 53"] by (simp del: of_int_less_iff)
  also have "\<dots> \<le> pow2 1024" by (rule pow2_mono) simp
  finally have "to_float (of_int n) = Fin (round_double (of_int n))"
    using n(1) by (intro to_float_finite) (simp add: round_double_int [OF n])
  then show ?thesis by (simp add: round_double_int [OF n])
qed

lemma round_double_nonpos: "x \<le> 0 \<Longrightarrow> round_double x \<le> 0"
proof -
  assume x: "x \<le> 0"
  let ?u = "pow2 (ulp_exponent x)"
  have "x / ?u \<le> 0" using x pow2_pos [of "ulp_exponent x"] by (simp add: divide_le_0_iff)
  then have "round_even (x / ?u) \<le> 0" using round_even_mono [of "x / ?u" 0] by (simp add: round_even_def [of 0])
  then have "(of_int (round_even (x / ?u)) :: rat) \<le> 0" by simp
  then show ?thesis using pow2_pos [of "ulp_exponent x"] by (simp add: round_double_def mult_le_0_iff)
qed

text \<open>Only numbers below the smallest subnormal one are rounded to zero.\<close>

lemma round_double_zero:
  assumes "round_double x = 0"
  shows "\<bar>x\<bar> \<le> pow2 (- 1074) / 2"
proof (cases "x = 0")
  case True
  then show ?thesis using pow2_pos [of "- 1074"] by simp
next
  case False
  have near: "\<bar>x\<bar> \<le> pow2 (ulp_exponent x) / 2" using round_double_near [of x] assms by simp
  have "ulp_exponent x = - 1074"
  proof (rule ccontr)
    assume "ulp_exponent x \<noteq> - 1074"
    then have "ulp_exponent x = floor_log2 \<bar>x\<bar> - 52" by (simp add: ulp_exponent_def max_def split: if_splits)
    then have "pow2 (ulp_exponent x) \<le> \<bar>x\<bar>"
      using floor_log2_bounds [of "\<bar>x\<bar>"] pow2_mono [of "ulp_exponent x" "floor_log2 \<bar>x\<bar>"] False by simp
    with near pow2_pos [of "ulp_exponent x"] show False by simp
  qed
  with near show ?thesis by simp
qed

end
