(* ===== verification/EvmExecutor.thy ===== *)
theory EvmExecutor
  imports EvmFuel BuiltinNft PyFloat
begin

text \<open>
  \<open>EVMBytecodeExecutor\<close> of \<open>src/xai/core/vm/evm/executor.py\<close>: the entry points of the
  virtual machine. A message deploys a contract or calls one; a call goes to a built-in token
  or to the bytecode of the contract, which runs in an execution context of its own on the
  shared blockchain. The executor keeps an LRU cache of decoded bytecode; the class-level
  cache of jump destinations and the readings of the clock go from run to run.
\<close>

section \<open>Messages, results and state\<close>

record message =
  msg_sender :: string
  msg_to :: "string option"
  msg_value :: int
  msg_gas_limit :: int
  msg_data :: "byte list"
  msg_nonce :: int

datatype exec_log = FailureLog string | RevertedLog string string | CreatedLog string | EmittedLog token_log

record exec_result =
  success :: bool
  res_gas_used :: int
  res_return :: "byte list"
  res_logs :: "exec_log list"

record executor =
  ex_chain :: chain
  chain_height :: int
  ex_chain_id :: int
  code_cache :: "(string \<times> byte list) list"
  code_hits :: int
  code_misses :: int
  ex_jumps :: "(string \<times> int set) list"
  ex_jump_hits :: int
  ex_jump_misses :: int
  ex_time_reads :: nat

type_synonym 'a exec = "(executor, 'a) meth"

definition XAI_CHAIN_ID :: int where "XAI_CHAIN_ID = 0x584149"
definition DEFAULT_GAS_LIMIT :: int where "DEFAULT_GAS_LIMIT = 15000000"
definition MAX_GAS_LIMIT :: int where "MAX_GAS_LIMIT = 30000000"
definition MAX_DEPLOYED_SIZE :: int where "MAX_DEPLOYED_SIZE = 24576"
definition MAX_INITCODE_SIZE :: int where "MAX_INITCODE_SIZE = 49152"
definition CODE_CACHE_SIZE :: nat where "CODE_CACHE_SIZE = 256"

definition new_executor :: "chain \<Rightarrow> int \<Rightarrow> int option \<Rightarrow> executor" where
  "new_executor bc height chain_id_arg =
     \<lparr>ex_chain = bc, chain_height = height,
      ex_chain_id = (case chain_id_arg of Some c \<Rightarrow> if c = 0 then XAI_CHAIN_ID else c | None \<Rightarrow> XAI_CHAIN_ID),
      code_cache = [], code_hits = 0, code_misses = 0, ex_jumps = [], ex_jump_hits = 0, ex_jump_misses = 0,
      ex_time_reads = 0\<rparr>"

definition read_time :: "externals \<Rightarrow> rat exec" where
  "read_time X e = (Inr (clock X (ex_time_reads e)), e\<lparr>ex_time_reads := ex_time_reads e + 1\<rparr>)"

section \<open>Gas, addresses and the context\<close>

definition intrinsic_gas :: "byte list \<Rightarrow> bool \<Rightarrow> int" where
  "intrinsic_gas data is_create =
     21000 + (if is_create then 32000 else 0)
     + sum_list (map (\<lambda>b. if b = 0 then 4 else 16) data)
     + (if is_create then 2 * ((int (length data) + 31) div 32) else 0)"

definition executor_create_address :: "externals \<Rightarrow> string \<Rightarrow> int \<Rightarrow> exn + string" where
  "executor_create_address X sender nonce =
     bind_result (fromhex (strip_0x sender)) (\<lambda>sender_bytes.
     bind_result (if nonce = 0 then Inr [0x80]
       else if nonce < 128 then byte_list nonce
       else bind_result (minimal_bytes nonce) (\<lambda>nb. bind_result (byte_list (0x80 + int (length nb))) (\<lambda>p. Inr (p @ nb))))
       (\<lambda>nonce_rlp.
     let payload = [0x94] @ sender_bytes @ nonce_rlp in
     bind_result (if length payload < 56 then byte_list (0xC0 + int (length payload))
       else bind_result (minimal_bytes (int (length payload))) (\<lambda>lb.
            bind_result (byte_list (0xF7 + int (length lb))) (\<lambda>p. Inr (p @ lb))))
       (\<lambda>prefix.
     Inr (hash_address (sha3_256 X (prefix @ payload))))))"

definition normalize_address :: "string \<Rightarrow> string" where
  "normalize_address a = (if starts_with ''0x'' a then to_lower a else ''0x'' @ to_lower a)"

definition create_context :: "externals \<Rightarrow> message \<Rightarrow> execution_context exec" where
  "create_context X msg =
     and_then (read_time X) (\<lambda>now.
     reads (\<lambda>e. new_context
       \<lparr>block_number = chain_height e, block_timestamp = floor now, block_gas_limit = DEFAULT_GAS_LIMIT,
        coinbase = ZERO_ADDRESS, prevrandao = 0, base_fee = 0, chain_id = ex_chain_id e, blob_base_fee = 0\<rparr>
       (msg_sender msg) 1 (msg_gas_limit msg) (msg_value msg) (Some (ex_chain e))))"

text \<open>
  \<open>interpreter.execute(call)\<close> in a fresh interpreter: the result, the frame and the context
  it leaves; what the run did to the blockchain and the class-level caches stays.
\<close>

definition run_frame :: "externals \<Rightarrow> nat \<Rightarrow> call_context \<Rightarrow> execution_context \<Rightarrow> executor \<Rightarrow> (exn + unit) \<times> machine" where
  "run_frame X n c x e =
     execute X n \<lparr>call = c, ctx = snd (push_call [] x), instruction_count = 0, start_time = 0,
       time_reads = ex_time_reads e, jump_dest_cache = ex_jumps e, cache_hits = ex_jump_hits e,
       cache_misses = ex_jump_misses e\<rparr>"

definition after_run :: "machine \<Rightarrow> executor \<Rightarrow> executor" where
  "after_run m e = e\<lparr>ex_chain := (case blockchain (ctx m) of Some bc \<Rightarrow> bc | None \<Rightarrow> ex_chain e),
     ex_jumps := jump_dest_cache m, ex_jump_hits := cache_hits m, ex_jump_misses := cache_misses m,
     ex_time_reads := time_reads m\<rparr>"

definition run_code :: "externals \<Rightarrow> nat \<Rightarrow> call_context \<Rightarrow> execution_context \<Rightarrow> ((exn + unit) \<times> machine) exec" where
  "run_code X n c x e = (case run_frame X n c x e of (r, m) \<Rightarrow> (Inr (r, m), after_run m e))"

section \<open>The bytecode cache\<close>

definition get_record :: "string \<Rightarrow> executor \<Rightarrow> contract_record option" where
  "get_record a e = map_of (contracts (ex_chain e)) (to_upper a)"

definition evict_code :: "(string \<times> byte list) list \<Rightarrow> (string \<times> byte list) list" where
  "evict_code c = (if length c > CODE_CACHE_SIZE then tl c else c)"

definition decode_code :: "contract_record option \<Rightarrow> exn + byte list" where
  "decode_code r =
     (case r of
        None \<Rightarrow> Inr []
      | Some r' \<Rightarrow> (case c_code r' of Some (CodeHex h) \<Rightarrow> fromhex h | Some (CodeBytes bs) \<Rightarrow> Inr bs | None \<Rightarrow> Inr []))"

definition get_contract_code :: "string \<Rightarrow> byte list exec" where
  "get_contract_code a e =
     (let key = to_upper a in
      case map_of (code_cache e) key of
        Some bs \<Rightarrow> (Inr bs, e\<lparr>code_hits := code_hits e + 1, code_cache := AList.delete key (code_cache e) @ [(key, bs)]\<rparr>)
      | None \<Rightarrow>
          let e1 = e\<lparr>code_misses := code_misses e + 1\<rparr> in
          (case decode_code (get_record a e) of
             Inl err \<Rightarrow> (Inl err, e1)
           | Inr bs \<Rightarrow> (Inr bs, e1\<lparr>code_cache := evict_code (code_cache e @ [(key, bs)])\<rparr>)))"

definition invalidate_contract_cache :: "string option \<Rightarrow> executor \<Rightarrow> executor" where
  "invalidate_contract_cache a e =
     (case a of
        None \<Rightarrow> e\<lparr>code_cache := [], code_hits := 0, code_misses := 0\<rparr>
      | Some a' \<Rightarrow> e\<lparr>code_cache := AList.delete (to_upper a') (code_cache e)\<rparr>)"

text \<open>The counters of \<open>get_cache_stats\<close>; the hit rate is their quotient.\<close>

definition executor_cache_stats :: "executor \<Rightarrow> int \<times> int \<times> nat \<times> nat" where
  "executor_cache_stats e = (code_hits e, code_misses e, length (code_cache e), CODE_CACHE_SIZE)"

section \<open>Persistence and logs\<close>

definition set_contract :: "string \<Rightarrow> contract_record \<Rightarrow> executor \<Rightarrow> executor" where
  "set_contract key r e = e\<lparr>ex_chain := (ex_chain e)\<lparr>contracts := AList.update key r (contracts (ex_chain e))\<rparr>\<rparr>"

definition text_keys :: "(string \<times> int) list \<Rightarrow> (storage_key \<times> int) list" where
  "text_keys d = map (\<lambda>(k, v). (KeyText k, v)) d"

definition store_contract :: "string \<Rightarrow> byte list \<Rightarrow> evm_storage \<Rightarrow> executor \<Rightarrow> executor" where
  "store_contract a bs st e =
     invalidate_contract_cache (Some a) (set_contract (to_upper a)
       \<lparr>c_code = Some (CodeHex (hex_of_bytes bs)), c_storage = text_keys (to_dict st), c_type = None, c_metadata = None\<rparr> e)"

definition persist_storage :: "string \<Rightarrow> evm_storage \<Rightarrow> executor \<Rightarrow> executor" where
  "persist_storage a st e =
     (case get_record a e of
        None \<Rightarrow> e
      | Some r \<Rightarrow> set_contract (to_upper a) (r\<lparr>c_storage := text_keys (to_dict st)\<rparr>) e)"

definition log_to_dict :: "evm_log \<Rightarrow> token_log" where
  "log_to_dict l = \<lparr>tl_address = log_address l, tl_topics = map (format_hex 64) (log_topics l), tl_data = hex_of_bytes (log_data l)\<rparr>"

definition emitted :: "execution_context \<Rightarrow> exec_log list" where
  "emitted x = map (\<lambda>l. EmittedLog (log_to_dict l)) (logs x)"

text \<open>\<open>context.get_storage(address)\<close> at the end of a run.\<close>

definition final_storage :: "string \<Rightarrow> execution_context \<Rightarrow> exn + evm_storage" where
  "final_storage a x =
     (case get_storage a x of
        (Inl e, _) \<Rightarrow> Inl e
      | (Inr _, y) \<Rightarrow> Inr (case map_of (storage y) a of Some s \<Rightarrow> s | None \<Rightarrow> new_storage a))"


section \<open>Deployment\<close>

definition failure_result :: "message \<Rightarrow> string \<Rightarrow> exec_result" where
  "failure_result msg event =
     \<lparr>success = False, res_gas_used = msg_gas_limit msg, res_return = [], res_logs = [FailureLog event]\<rparr>"

text \<open>
  The end of a deployment whose init code returned: size, deposit, the new entry and the
  result. Running out of fuel is no exception of the source and passes through.
\<close>

definition finish_deployment :: "message \<Rightarrow> string \<Rightarrow> machine \<Rightarrow> exec_result exec" where
  "finish_deployment msg contract_address m =
     (let deployed_code = out_data (call m); deposit = 200 * int (length deployed_code) in
      and_then (raise_if (\<lambda>_. int (length deployed_code) > MAX_DEPLOYED_SIZE) (VMExecutionError CodeTooLarge)) (\<lambda>_.
      and_then (raise_if (\<lambda>_. deposit > gas (call m)) (VMExecutionError CodeDepositGas)) (\<lambda>_.
      and_then (lift_result (final_storage contract_address (ctx m))) (\<lambda>st.
      and_then (modify (store_contract contract_address deployed_code st)) (\<lambda>_.
      ret \<lparr>success = True, res_gas_used = msg_gas_limit msg - gas (call m) + deposit,
           res_return = utf8 contract_address,
           res_logs = CreatedLog contract_address # emitted (ctx m)\<rparr>)))))"

definition deploy_contract :: "externals \<Rightarrow> nat \<Rightarrow> message \<Rightarrow> exec_result exec" where
  "deploy_contract X n msg =
     (let init_code = msg_data msg; intrinsic = intrinsic_gas init_code True in
      and_then (read_time X) (\<lambda>_.
      and_then (raise_if (\<lambda>_. int (length init_code) > MAX_INITCODE_SIZE) (VMExecutionError CodeTooLarge)) (\<lambda>_.
      and_then (raise_if (\<lambda>_. intrinsic > msg_gas_limit msg) (VMExecutionError IntrinsicGas)) (\<lambda>_.
      and_then (lift_result (executor_create_address X (msg_sender msg) (msg_nonce msg))) (\<lambda>contract_address.
      and_then (create_context X msg) (\<lambda>x.
      and_then (run_code X n (new_call CREATE 0 contract_address (msg_sender msg) (msg_sender msg) (msg_value msg)
          (msg_gas_limit msg - intrinsic) init_code [] False) x) (\<lambda>(r, m).
      (case r of
         Inl (VMExecutionError c) \<Rightarrow> ret (failure_result msg ''DeploymentFailed'')
       | Inl e \<Rightarrow> raise e
       | Inr _ \<Rightarrow>
           if reverted (call m)
           then ret \<lparr>success = False, res_gas_used = msg_gas_limit msg - gas (call m), res_return = out_data (call m),
                     res_logs = [RevertedLog ''DeploymentReverted'' (revert_reason (call m))]\<rparr>
           else finish_deployment msg contract_address m))))))))"

section \<open>Calls\<close>

text \<open>At most a fifth of the gas used is refunded.\<close>

definition gas_after_refund :: "int \<Rightarrow> int \<Rightarrow> int" where
  "gas_after_refund used refund = used - min refund (used div 5)"

definition finish_call_contract :: "message \<Rightarrow> string \<Rightarrow> bool \<Rightarrow> machine \<Rightarrow> exec_result exec" where
  "finish_call_contract msg contract_address st m =
     (let used = gas_after_refund (msg_gas_limit msg - gas (call m)) (gas_refund (ctx m)) in
      if reverted (call m)
      then ret \<lparr>success = False, res_gas_used = used, res_return = out_data (call m),
                res_logs = [RevertedLog ''CallReverted'' (revert_reason (call m))]\<rparr>
      else and_then (if st then ret ()
             else and_then (lift_result (final_storage contract_address (ctx_commit (ctx m)))) (\<lambda>s.
                  modify (persist_storage contract_address s))) (\<lambda>_.
           ret \<lparr>success = True, res_gas_used = used, res_return = out_data (call m), res_logs = emitted (ctx m)\<rparr>))"

definition call_code :: "externals \<Rightarrow> nat \<Rightarrow> string \<Rightarrow> byte list \<Rightarrow> message \<Rightarrow> bool \<Rightarrow> exec_result exec" where
  "call_code X n contract_address bs msg st =
     (let intrinsic = intrinsic_gas (msg_data msg) False in
      and_then (raise_if (\<lambda>_. intrinsic > msg_gas_limit msg) (VMExecutionError IntrinsicGas)) (\<lambda>_.
      and_then (create_context X msg) (\<lambda>x.
      and_then (run_code X n (new_call (if st then STATICCALL else CALL) 0 contract_address (msg_sender msg) (msg_sender msg)
          (msg_value msg) (msg_gas_limit msg - intrinsic) bs (msg_data msg) st) x) (\<lambda>(r, m).
      (case r of
         Inl (VMExecutionError c) \<Rightarrow> ret (failure_result msg ''CallFailed'')
       | Inl e \<Rightarrow> raise e
       | Inr _ \<Rightarrow> finish_call_contract msg contract_address st m)))))"

text \<open>
  \<open>_call_contract\<close>, with what it does for a built-in token as an argument. An account
  without code costs the intrinsic gas, which is not compared to the gas limit.
\<close>

definition is_builtin :: "contract_record option \<Rightarrow> bool" where
  "is_builtin r \<longleftrightarrow> (case r of Some r' \<Rightarrow> c_type r' \<in> {Some ''ERC20'', Some ''ERC721''} | None \<Rightarrow> False)"

definition call_contract_with ::
    "(string \<Rightarrow> message \<Rightarrow> bool \<Rightarrow> exec_result exec) \<Rightarrow> externals \<Rightarrow> nat \<Rightarrow> message \<Rightarrow> bool \<Rightarrow> exec_result exec" where
  "call_contract_with builtin X n msg st =
     (case msg_to msg of
        None \<Rightarrow> raise (VMExecutionError MissingAddress)
      | Some to_addr \<Rightarrow>
          if to_addr = [] then raise (VMExecutionError MissingAddress)
          else
            let contract_address = normalize_address to_addr in
            and_then (get_contract_code contract_address) (\<lambda>bs.
            and_then (reads (get_record contract_address)) (\<lambda>r.
            if is_builtin r then builtin contract_address msg st
            else if bs = [] then
              ret \<lparr>success = True, res_gas_used = intrinsic_gas (msg_data msg) False, res_return = [], res_logs = []\<rparr>
            else call_code X n contract_address bs msg st)))"

section \<open>Built-in tokens\<close>

definition ERC20_RECEIVE_SIGNATURE :: string where
  "ERC20_RECEIVE_SIGNATURE = ''onTransferReceived(address,address,uint256,bytes)''"

definition ERC721_RECEIVE_SIGNATURE :: string where
  "ERC721_RECEIVE_SIGNATURE = ''onERC721Received(address,address,uint256,bytes)''"

definition ERC20_RECEIVE_MAGIC :: "(byte list \<Rightarrow> byte list) \<Rightarrow> byte list" where
  "ERC20_RECEIVE_MAGIC K = take 4 (K (utf8 ERC20_RECEIVE_SIGNATURE))"

definition ERC721_RECEIVE_MAGIC :: "byte list" where
  "ERC721_RECEIVE_MAGIC = [0x15, 0x0b, 0x7a, 0x02]"

text \<open>
  \<open>_invoke_receive_hook\<close>; \<open>nft\<close> says which of the two kinds it is. The target is no
  built-in token, so the call it makes never reaches the argument of \<open>call_contract_with\<close>.
\<close>

definition invoke_receive_hook ::
    "externals \<Rightarrow> (byte list \<Rightarrow> byte list) \<Rightarrow> nat \<Rightarrow> bool \<Rightarrow> string \<Rightarrow> executor hook" where
  "invoke_receive_hook X K n nft token_address operator from_addr to_addr amount data =
     (let target = normalize_address to_addr in
      if target = ZERO_ADDRESS then ret ()
      else and_then (reads (get_record target)) (\<lambda>r.
        if r = None \<or> is_builtin r then ret ()
        else and_then (get_contract_code target) (\<lambda>bs.
          if bs = [] \<or> (\<not> nft \<and> amount \<le> 0) then ret ()
          else and_then (lift_result (encode_call K (if nft then ERC721_RECEIVE_SIGNATURE else ERC20_RECEIVE_SIGNATURE)
                 [VText operator, VText from_addr, VInt amount, VBytes data])) (\<lambda>cdata.
            and_then (call_contract_with (\<lambda>_ _ _. raise ValueError) X n
                \<lparr>msg_sender = token_address, msg_to = Some target, msg_value = 0, msg_gas_limit = min 200000 DEFAULT_GAS_LIMIT,
                 msg_data = cdata, msg_nonce = 0\<rparr> False) (\<lambda>res.
            and_then (raise_if (\<lambda>_. \<not> success res) (VMExecutionError HookReverted)) (\<lambda>_.
            raise_if (\<lambda>_. length (res_return res) < 4 \<or> take 4 (res_return res)
                \<noteq> (if nft then ERC721_RECEIVE_MAGIC else ERC20_RECEIVE_MAGIC K)) (VMExecutionError HookRejected)))))))"

definition hook_env :: "externals \<Rightarrow> (byte list \<Rightarrow> byte list) \<Rightarrow> nat \<Rightarrow> bool \<Rightarrow> string \<Rightarrow> executor \<Rightarrow> executor token_env" where
  "hook_env X K n nft contract_address e =
     \<lparr>env_hash = K, env_address = contract_address, env_hook = Some (invoke_receive_hook X K n nft contract_address),
      env_now = floor (clock X (ex_time_reads e))\<rparr>"

definition empty_meta :: token_meta where
  "empty_meta = \<lparr>m_name = None, m_symbol = None, m_decimals = None, m_owner = None, m_max_supply = None,
     m_balances = None, m_initial_supply = None, m_total_supply = None, m_initial_holder = None\<rparr>"

text \<open>
  The entry is the registry's own dict: what the hooks changed of it stays, and its storage is
  replaced at the end. The clock is read in \<open>permit\<close> only; the model reads it beforehand.
\<close>

definition execute_builtin ::
    "externals \<Rightarrow> (byte list \<Rightarrow> byte list) \<Rightarrow> nat \<Rightarrow> string \<Rightarrow> message \<Rightarrow> bool \<Rightarrow> exec_result exec" where
  "execute_builtin X K n contract_address msg st =
     and_then (reads (\<lambda>e. e)) (\<lambda>e.
     let r = (case get_record contract_address e of Some r \<Rightarrow> r
              | None \<Rightarrow> \<lparr>c_code = None, c_storage = [], c_type = None, c_metadata = None\<rparr>);
         run = and_then (execute_builtin_contract (case c_type r of Some t \<Rightarrow> t | None \<Rightarrow> [])
             (hook_env X K n False contract_address e) (hook_env X K n True contract_address e) (c_storage r)
             (case c_metadata r of Some m \<Rightarrow> m | None \<Rightarrow> empty_meta)
             (hex_of_bytes (take 4 (msg_data msg))) (drop 4 (msg_data msg)) (msg_sender msg) (msg_value msg) st)
           (\<lambda>(out, used, ls, st). ret (Some (out, used, ls, st)))
     in and_then (catch_vm run (ret None)) (\<lambda>outcome.
        (case outcome of
           None \<Rightarrow> ret (failure_result msg ''CallFailed'')
         | Some (out, used, ls, st) \<Rightarrow>
             and_then (modify (\<lambda>e. set_contract (to_upper contract_address)
               ((contract_data contract_address (ex_chain e))\<lparr>c_storage := text_keys (to_dict st)\<rparr>) e)) (\<lambda>_.
             ret \<lparr>success = True, res_gas_used = min (msg_gas_limit msg) used, res_return = out,
                  res_logs = map EmittedLog ls\<rparr>))))"

section \<open>Entry points\<close>

definition call_contract :: "externals \<Rightarrow> (byte list \<Rightarrow> byte list) \<Rightarrow> nat \<Rightarrow> message \<Rightarrow> bool \<Rightarrow> exec_result exec" where
  "call_contract X K n = call_contract_with (execute_builtin X K n) X n"

definition execute_message :: "externals \<Rightarrow> (byte list \<Rightarrow> byte list) \<Rightarrow> nat \<Rightarrow> message \<Rightarrow> exec_result exec" where
  "execute_message X K n msg =
     (if msg_to msg = None then deploy_contract X n msg else call_contract X K n msg False)"

definition call_static :: "externals \<Rightarrow> (byte list \<Rightarrow> byte list) \<Rightarrow> nat \<Rightarrow> message \<Rightarrow> exec_result exec" where
  "call_static X K n msg =
     (if msg_to msg = None then raise (VMExecutionError StaticDeployment) else call_contract X K n msg True)"

text \<open>The estimate adds ten per cent in floating point.\<close>

definition estimate_gas :: "externals \<Rightarrow> (byte list \<Rightarrow> byte list) \<Rightarrow> nat \<Rightarrow> message \<Rightarrow> int exec" where
  "estimate_gas X K n msg =
     catch_vm (and_then (execute_message X K n (msg\<lparr>msg_gas_limit := MAX_GAS_LIMIT\<rparr>)) (\<lambda>res.
         lift_result (int_of_float (float_mul (float_of_int (res_gas_used res)) (to_float (11 / 10))))))
       (ret DEFAULT_GAS_LIMIT)"

text \<open>
  \<open>delegatecall\<close>: the implementation's code on the proxy's storage. Here a revert also undoes
  the first snapshot of the context, and the result is not affected by refunds.
\<close>

definition executor_delegatecall :: "externals \<Rightarrow> nat \<Rightarrow> string \<Rightarrow> string \<Rightarrow> string \<Rightarrow> byte list \<Rightarrow> int \<Rightarrow> exec_result exec" where
  "executor_delegatecall X n sender proxy_address implementation_address cdata limit =
     (let msg = \<lparr>msg_sender = sender, msg_to = Some proxy_address, msg_value = 0, msg_gas_limit = limit,
                 msg_data = cdata, msg_nonce = 0\<rparr>;
          proxy = normalize_address proxy_address in
      and_then (create_context X msg) (\<lambda>x.
      and_then (get_contract_code implementation_address) (\<lambda>bs.
      if bs = [] then ret (failure_result msg ''DelegateCallFailed'')
      else and_then (run_code X n (new_call DELEGATECALL 0 proxy sender sender 0 limit bs cdata False) x) (\<lambda>(r, m).
        (case r of
           Inl (VMExecutionError c) \<Rightarrow> ret (failure_result msg ''DelegateCallError'')
         | Inl e \<Rightarrow> raise e
         | Inr _ \<Rightarrow>
             if reverted (call m)
             then ret \<lparr>success = False, res_gas_used = limit - gas (call m), res_return = out_data (call m),
                       res_logs = [RevertedLog ''DelegateCallReverted'' (revert_reason (call m))]\<rparr>
             else and_then (lift_result (final_storage proxy (ctx_commit (ctx m)))) (\<lambda>s.
                  and_then (modify (persist_storage proxy s)) (\<lambda>_.
                  ret \<lparr>success = True, res_gas_used = limit - gas (call m), res_return = out_data (call m),
                       res_logs = emitted (ctx m)\<rparr>)))))))"

end
