(* ===== verification/EvmStatic.thy ===== *)
theory EvmStatic
  imports EvmWorld
begin

text \<open>
  Static calls change nothing. A frame with \<open>is_static\<close> set, and every frame below it,
  leaves balances, accounts, logs, refunds, transient storage, the chain with its code and
  nonces, and every storage slot as they were. The interface \<open>evm_inv\<close> is interpreted a
  second time, with the relation "nothing has changed" between contexts.
\<close>

section \<open>The value of a slot\<close>

text \<open>A storage is loaded from the chain when it is first asked for.\<close>

definition slot_value :: "execution_context \<Rightarrow> string \<Rightarrow> int \<Rightarrow> int" where
  "slot_value x a = (case map_of (storage (snd (get_storage a x))) a of
     Some s \<Rightarrow> get_raw s | None \<Rightarrow> (\<lambda>k. 0))"

definition fresh_storage :: "chain option \<Rightarrow> string \<Rightarrow> evm_storage" where
  "fresh_storage bc a = (case bc of
     None \<Rightarrow> new_storage a
   | Some b \<Rightarrow> snd (load_slots (c_storage (contract_data a b)) (new_storage a)))"

lemma get_storage_result:
  "snd (get_storage a x) = (if a \<in> dom (map_of (storage x)) then x
     else x\<lparr>storage := AList.update a (fresh_storage (blockchain x) a) (storage x)\<rparr>)"
proof (cases "map_of (storage x) a")
  case None
  have "AList.update a s (AList.update a s' xs) = AList.update a s xs" for s s' :: evm_storage and xs
    by (induction xs) auto
  with None show ?thesis
    by (simp add: get_storage_def load_storage_from_chain_def on_storage_def ret_def case_prod_beta update_conv'
        fresh_storage_def domIff split: option.splits)
qed (simp add: get_storage_def ret_def domIff)

lemma slot_value_alt:
  "slot_value x a = get_raw (case map_of (storage x) a of Some s \<Rightarrow> s | None \<Rightarrow> fresh_storage (blockchain x) a)"
  by (auto simp: slot_value_def get_storage_result update_conv' domIff split: option.splits)

section \<open>The relation\<close>

definition unchanged :: "execution_context \<Rightarrow> execution_context \<Rightarrow> bool" where
  "unchanged x y \<longleftrightarrow> context_after x y \<and> world y = world x \<and> blockchain y = blockchain x
     \<and> transient_store y = transient_store x \<and> slot_value y = slot_value x"

lemma unchanged_refl: "unchanged x x"
  by (simp add: unchanged_def)

lemma unchanged_trans: "unchanged x y \<Longrightarrow> unchanged y z \<Longrightarrow> unchanged x z"
  by (auto simp: unchanged_def intro: context_after_trans)

lemma slot_value_frame:
  "storage y = storage x \<Longrightarrow> blockchain y = blockchain x \<Longrightarrow> slot_value y = slot_value x"
  by (simp add: slot_value_alt fun_eq_iff split: option.splits)

lemma unchanged_frame:
  "unchanged x (x\<lparr>accessed_addresses := W\<rparr>)" "unchanged x (x\<lparr>call_stack := fs\<rparr>)"
  "unchanged x (snd (take_snapshot x))"
  by (auto simp: unchanged_def context_after_def world_def take_snapshot_def intro!: slot_value_frame)

lemma unchanged_revert:
  assumes "unchanged (snd (take_snapshot x)) y"
  shows "unchanged x (revert_to_snapshot (length (snapshots x)) y)"
proof -
  let ?z = "revert_to_snapshot (length (snapshots x)) y"
  have R: "context_after (snd (take_snapshot x)) y" and S: "slot_value y = slot_value (snd (take_snapshot x))"
    and rest: "blockchain y = blockchain x" "transient_store y = transient_store x"
    using assms by (simp_all add: unchanged_def) (simp_all add: take_snapshot_def)
  have z: "blockchain ?z = blockchain y" "transient_store ?z = transient_store y"
    by (simp_all add: revert_to_snapshot_def Let_def)
  have "slot_value (snd (take_snapshot x)) = slot_value x"
    using unchanged_frame(3) [of x] by (simp add: unchanged_def)
  moreover have "slot_value ?z = slot_value y"
    by (rule slot_value_frame) (simp_all add: revert_world(4) [OF R] z)
  ultimately show ?thesis
    using revert_world [OF R] rest z S by (simp add: unchanged_def context_after_def world_def)
qed

lemma unchanged_get_storage: "unchanged x (snd (get_storage a x))"
  by (auto simp: unchanged_def context_after_def world_def get_storage_result slot_value_alt fun_eq_iff update_conv'
      domIff split: option.splits)

lemma unchanged_sload:
  assumes "a \<in> dom (map_of (storage x))"
  shows "unchanged x (snd (on_storage a (st_load k) x))"
  using assms st_load_get
  by (auto simp: unchanged_def context_after_def world_def on_storage_def case_prod_beta slot_value_alt fun_eq_iff
      update_conv' split: option.splits)

lemma static_new_call: "static (new_call t d a c ori v g cd cdata st) \<longleftrightarrow> st \<or> t = STATICCALL"
  by (simp add: new_call_def)

interpretation static: evm_inv X "\<lambda>c. frame_ok c \<and> static c" wf_context unchanged "\<lambda>_. True" True False for X
  by unfold_locales
    (auto simp: frame_ok_new_call wf_frame wf_take_snapshot wf_revert wf_get_storage wf_on_storage wf_storage_load
      same_frame_def static_new_call unchanged_refl unchanged_frame unchanged_revert
      unchanged_get_storage unchanged_sload unchanged_def [of "snd (take_snapshot _)"] intro: unchanged_trans)

section \<open>Methods that do not look at the running frame\<close>

definition frame_free :: "'a vm \<Rightarrow> bool" where
  "frame_free m \<longleftrightarrow> (\<forall>s c. m (s\<lparr>call := c\<rparr>) = (fst (m s), (snd (m s))\<lparr>call := c\<rparr>))"

lemma frame_freeD: "frame_free m \<Longrightarrow> m (s\<lparr>call := c\<rparr>) = (fst (m s), (snd (m s))\<lparr>call := c\<rparr>)"
  by (simp add: frame_free_def)

lemma frame_free_basic:
  "frame_free (ret a)" "frame_free (raise e)" "frame_free (lift_result q)" "frame_free (get_ctx f)"
  "frame_free (on_ctx m)" "frame_free (set_ctx h)"
  by (simp_all add: frame_free_def ret_def raise_def lift_result_def get_ctx_def reads_def on_ctx_def zoom_def
      set_ctx_def modify_def case_prod_beta)

lemma frame_free_and_then:
  assumes "frame_free m" and "\<And>a. frame_free (k a)"
  shows "frame_free (and_then m k)"
  using assms by (auto simp: frame_free_def and_then_def case_prod_beta split: sum.splits)

lemma frame_free_if: "frame_free m \<Longrightarrow> frame_free n \<Longrightarrow> frame_free (if b then m else n)"
  by simp

lemma frame_free_with_frame: "frame_free (with_frame c m)"
  by (simp add: frame_free_def with_frame_def case_prod_beta)

lemma frame_free_catch:
  assumes "frame_free m" and "frame_free h"
  shows "frame_free (catch_vm m h)"
  using assms by (auto simp: frame_free_def catch_vm_def case_prod_beta split: sum.splits exn.splits)

lemma frame_free_run_child: "frame_free (run_child E i c)"
  unfolding run_child_def
  by (intro frame_free_catch frame_free_and_then frame_free_with_frame frame_free_basic)

lemma frame_free_subcall: "frame_free (execute_subcall X E t sender a v cdata g d st ca)"
proof -
  have pre: "frame_free (case q of Inr (data, used) \<Rightarrow> ret (True, data)
      | Inl (VMExecutionError c) \<Rightarrow> ret (False, []) | Inl e \<Rightarrow> raise e)" for q :: "exn + byte list \<times> int"
    by (auto simp: frame_free_basic split: sum.split exn.split prod.split)
  have ended: "frame_free (case q of None \<Rightarrow> ret (False, [])
      | Some fin \<Rightarrow> and_then (set_ctx pop_call) (\<lambda>_. if reverted fin
          then and_then (set_ctx (revert_to_snapshot i)) (\<lambda>_. ret (False, out_data fin))
          else ret (True, out_data fin)))" for q i
    by (cases q) (simp_all add: frame_free_basic frame_free_and_then)
  show ?thesis
    unfolding execute_subcall_def Let_def move_value_def read_code_def
    by (intro frame_free_if frame_free_and_then frame_free_basic pre ended frame_free_run_child)
qed

section \<open>Properties\<close>

text \<open>
  C13: A run of a static frame, with everything it calls, leaves balances, created and
  destroyed accounts, refund counter, logs, transient storage, the chain's code and nonces
  and the value of every storage slot of every account as they were, however it ends.
\<close>

theorem static_run_changes_nothing:
  assumes "machine_ok X s" and "static (call s)" and "execute X n s = (r, t)"
  shows "world (ctx t) = world (ctx s) \<and> blockchain (ctx t) = blockchain (ctx s) \<and>
    transient_store (ctx t) = transient_store (ctx s) \<and> slot_value (ctx t) a k = slot_value (ctx s) a k"
proof -
  have "static.keeps X (execute X n) (\<lambda>_. True)" by (rule static.keeps_execute) simp_all
  from safeD(2) [OF this _ assms(3)] assms(1,2) have "unchanged (ctx s) (ctx t)"
    by (simp add: machine_ok_def inv_of_def rel_of_def)
  then show ?thesis by (simp add: unchanged_def)
qed

text \<open>The example tries SSTORE, which raises in a static frame.\<close>

theorem static_run_changes_nothing_witness:
  "slot_value (ctx (snd (execute sample_lib 4 (sample_machine (sample_call 50000 [0x5F, 0x5F, 0x55] True) [])))) ''0xAA'' 0 = 0
   \<and> fst (execute sample_lib 4 (sample_machine (sample_call 50000 [0x5F, 0x5F, 0x55] True) [])) =
     Inl (VMExecutionError StaticViolation)"
proof
  let ?s = "sample_machine (sample_call 50000 [0x5F, 0x5F, 0x55] True) []"
  let ?r = "execute sample_lib 4 ?s"
  have "slot_value (ctx (snd ?r)) ''0xAA'' 0 = slot_value (ctx ?s) ''0xAA'' 0"
    using static_run_changes_nothing [OF sample_ok _ prod.collapse [symmetric], of 50000 "[0x5F, 0x5F, 0x55]" True "[]"]
    by (simp add: sample_machine_def new_machine_def sample_call_def static_new_call)
  also have "\<dots> = 0" by code_simp
  finally show "slot_value (ctx (snd ?r)) ''0xAA'' 0 = 0" .
  show "fst ?r = Inl (VMExecutionError StaticViolation)" by code_simp
qed

text \<open>
  STATICCALL protects its caller from the callee: whether the subcall succeeds or fails,
  the caller's world, the chain and every slot are unchanged after it.
\<close>

lemma staticcall_changes_nothing:
  assumes "machine_ok X s" and "0 \<le> g"
    and "execute_subcall X (execute X n) STATICCALL sender a 0 cdata g d True None s = (r, t)"
  shows "world (ctx t) = world (ctx s) \<and> blockchain (ctx t) = blockchain (ctx s) \<and>
    transient_store (ctx t) = transient_store (ctx s) \<and> slot_value (ctx t) b k = slot_value (ctx s) b k"
proof -
  let ?c = "sample_call g [] True"
  have c: "frame_ok ?c \<and> static ?c" and gas: "g \<le> gas ?c"
    using assms(2) by (simp_all add: sample_call_def frame_ok_new_call static_new_call) (simp add: new_call_def)
  have E: "static.keeps X (execute X n) (\<lambda>_. True)" by (rule static.keeps_execute) simp_all
  have sub: "static.keeps X (execute_subcall X (execute X n) STATICCALL sender a 0 cdata g d True None) (\<lambda>_. True)"
    by (rule static.keeps_execute_subcall [OF E _ c assms(2) gas]) (simp_all add: moves_value_def)
  have "execute_subcall X (execute X n) STATICCALL sender a 0 cdata g d True None (s\<lparr>call := ?c\<rparr>)
      = (r, t\<lparr>call := ?c\<rparr>)"
    using frame_freeD [OF frame_free_subcall] assms(3) by simp
  from safeD(2) [OF sub _ this] assms(1) c have "unchanged (ctx s) (ctx t)"
    by (simp add: machine_ok_def inv_of_def rel_of_def wf_cache_def)
  then show ?thesis by (simp add: unchanged_def)
qed

end
