(* ===== verification/ExecutorCorrect.thy ===== *)
theory ExecutorCorrect
  imports EvmExecutor EvmStatic
begin

text \<open>
  What the executor promises: its bytecode cache answers as the registry of contracts does,
  a call changes the storage of the contract it calls and nothing else of the blockchain, a
  deployment its new entry, a static call nothing, and gas stays between the intrinsic cost
  and the limit. Calls and deployments are those of code without CREATE and CREATE2, which
  ends within gas plus two turns.
\<close>

section \<open>The bytecode cache\<close>

definition registry_code :: "chain \<Rightarrow> string \<Rightarrow> exn + byte list" where
  "registry_code bc key = decode_code (map_of (contracts bc) key)"

definition cache_agrees :: "executor \<Rightarrow> bool" where
  "cache_agrees e \<longleftrightarrow> distinct (map fst (code_cache e)) \<and> length (code_cache e) \<le> CODE_CACHE_SIZE
     \<and> (\<forall>(k, bs) \<in> set (code_cache e). registry_code (ex_chain e) k = Inr bs)"

lemma cache_agrees_frame:
  "code_cache e' = code_cache e \<Longrightarrow> ex_chain e' = ex_chain e \<Longrightarrow> cache_agrees e' \<longleftrightarrow> cache_agrees e"
  by (simp add: cache_agrees_def)

lemma evict_subset: "set (evict_code c) \<subseteq> set c"
  by (cases c) (auto simp: evict_code_def)

lemma evict_length: "length c \<le> Suc CODE_CACHE_SIZE \<Longrightarrow> length (evict_code c) \<le> CODE_CACHE_SIZE"
  by (auto simp: evict_code_def)

lemma evict_distinct: "distinct (map fst c) \<Longrightarrow> distinct (map fst (evict_code c))"
  by (cases c) (auto simp: evict_code_def)

lemma cache_lookup:
  assumes "cache_agrees e"
  shows "fst (get_contract_code a e) = registry_code (ex_chain e) (to_upper a)"
    and "cache_agrees (snd (get_contract_code a e))"
proof -
  let ?k = "to_upper a"
  have "fst (get_contract_code a e) = registry_code (ex_chain e) ?k \<and> cache_agrees (snd (get_contract_code a e))"
  proof (cases "map_of (code_cache e) ?k")
    case None
    show ?thesis
    proof (cases "registry_code (ex_chain e) ?k")
      case (Inl err)
      then show ?thesis
        using None assms by (simp add: get_contract_code_def get_record_def registry_code_def cache_agrees_def Let_def)
    next
      case (Inr bs)
      let ?c = "code_cache e @ [(?k, bs)]"
      have "distinct (map fst ?c)" "length ?c \<le> Suc CODE_CACHE_SIZE"
        "\<forall>(k, bs) \<in> set ?c. registry_code (ex_chain e) k = Inr bs"
        using assms None Inr by (auto simp: cache_agrees_def map_of_eq_None_iff)
      then show ?thesis
        using None Inr evict_subset [of ?c] evict_length [of ?c] evict_distinct [of ?c]
        by (auto simp: get_contract_code_def get_record_def registry_code_def cache_agrees_def Let_def)
    qed
  next
    case (Some bs)
    then have mem: "(?k, bs) \<in> set (code_cache e)" by (rule map_of_SomeD)
    then have "length (AList.delete ?k (code_cache e)) < length (code_cache e)"
      unfolding AList.delete_eq by (intro length_filter_less) auto
    then show ?thesis
      using assms Some mem
      by (auto simp: get_contract_code_def cache_agrees_def Let_def AList.delete_eq distinct_map_filter)
  qed
  then show "fst (get_contract_code a e) = registry_code (ex_chain e) (to_upper a)"
    and "cache_agrees (snd (get_contract_code a e))" by simp_all
qed


lemma lookup_frame:
  "ex_chain (snd (get_contract_code a e)) = ex_chain e" "ex_jumps (snd (get_contract_code a e)) = ex_jumps e"
  by (simp_all add: get_contract_code_def Let_def split: option.splits sum.splits)

lemma cache_agrees_set:
  assumes "cache_agrees e" and "decode_code (Some r) = registry_code (ex_chain e) k"
  shows "cache_agrees (set_contract k r e)"
  using assms by (auto simp: cache_agrees_def set_contract_def registry_code_def update_conv')

lemma cache_agrees_persist: "cache_agrees e \<Longrightarrow> cache_agrees (persist_storage a st e)"
  by (auto simp: persist_storage_def get_record_def registry_code_def decode_code_def intro!: cache_agrees_set
      split: option.splits)

text \<open>A deployment drops the entry of the new contract from the cache.\<close>

lemma cache_agrees_store:
  assumes "cache_agrees e"
  shows "cache_agrees (store_contract a bs st e)"
proof -
  have "distinct (map fst (AList.delete k (code_cache e)))" "length (AList.delete k (code_cache e)) \<le> CODE_CACHE_SIZE" for k
    using assms by (auto simp: cache_agrees_def AList.delete_eq distinct_map_filter intro: order_trans [OF length_filter_le])
  then show ?thesis
    using assms by (auto simp: cache_agrees_def store_contract_def invalidate_contract_cache_def set_contract_def
        registry_code_def update_conv' AList.delete_eq)
qed

section \<open>Running code\<close>

definition no_create_registry :: "chain \<Rightarrow> bool" where
  "no_create_registry bc \<longleftrightarrow> (\<forall>k bs. registry_code bc k = Inr bs \<longrightarrow> no_create bs)"

lemma registry_context:
  assumes "blockchain x = Some bc" and "no_create_registry bc"
  shows "no_create_chain x"
proof -
  have "get_code a x = registry_code bc (to_upper a)" for a
    using assms(1) by (simp add: get_code_def registry_code_def decode_code_def contract_data_def split: option.splits)
  with assms(2) show ?thesis by (simp add: no_create_chain_def no_create_registry_def)
qed

definition jumps_ok :: "externals \<Rightarrow> executor \<Rightarrow> bool" where
  "jumps_ok X e \<longleftrightarrow> distinct (map fst (ex_jumps e)) \<and> length (ex_jumps e) \<le> JUMP_DEST_CACHE_SIZE
     \<and> (\<forall>c \<in> set (ex_jumps e). cache_entry X c)"

definition executor_ok :: "externals \<Rightarrow> executor \<Rightarrow> bool" where
  "executor_ok X e \<longleftrightarrow> cache_agrees e \<and> jumps_ok X e"

lemma executor_ok_frame:
  "code_cache e' = code_cache e \<Longrightarrow> ex_chain e' = ex_chain e \<Longrightarrow> ex_jumps e' = ex_jumps e \<Longrightarrow>
     executor_ok X e' \<longleftrightarrow> executor_ok X e"
  by (simp add: executor_ok_def jumps_ok_def cache_agrees_def)

lemma run_code_kept:
  assumes "externals_ok X" and "executor_ok X e" and "no_create bs" and "no_create_registry (ex_chain e)"
    and "0 \<le> g" and "nat g + 2 \<le> n" and "blockchain x = Some (ex_chain e)"
    and run: "run_code X n (new_call t d a c ori v g bs cd st) x e = (q, e')"
  obtains r m where "q = Inr (r, m)" and "r \<noteq> Inl OutOfFuel" and "ex_chain e' = ex_chain e" and "executor_ok X e'"
    and "0 \<le> gas (call m)" and "gas (call m) \<le> g"
proof -
  let ?c = "new_call t d a c ori v g bs cd st"
  let ?s = "\<lparr>call = ?c, ctx = snd (push_call [] x), instruction_count = 0, start_time = 0, time_reads = ex_time_reads e,
       jump_dest_cache = ex_jumps e, cache_hits = ex_jump_hits e, cache_misses = ex_jump_misses e\<rparr>"
  obtain r m where m: "execute X n ?s = (r, m)" by fastforce
  have x: "blockchain (snd (push_call [] x)) = Some (ex_chain e)"
    using assms(7) by (simp add: push_call_def)
  have "gas_inv_of X g ?s"
    using assms(2,3,5) registry_context [OF x assms(4)] frame_ok_new_call [OF assms(5)]
    by (simp add: gas_inv_of_def inv_of_def gas_within_def wf_cache_def executor_ok_def jumps_ok_def)
      (simp add: new_call_def)
  note D = fuelledD [OF fuelled_execute [OF assms(1,6)] this m]
  have chain: "blockchain (ctx m) = Some (ex_chain e)"
    using D(3) x by (simp add: rel_of_def chain_kept_def)
  have "q = Inr (r, m)" "e' = after_run m e"
    using run m by (simp_all add: run_code_def run_frame_def)
  moreover have "ex_chain (after_run m e) = ex_chain e" "executor_ok X (after_run m e)"
    using chain D(1) assms(2)
    by (auto simp: after_run_def executor_ok_def cache_agrees_def jumps_ok_def gas_inv_of_def inv_of_def wf_cache_def)
  moreover have "0 \<le> gas (call m)" "gas (call m) \<le> g"
    using D(1) by (simp_all add: gas_inv_of_def inv_of_def gas_within_def frame_ok_def)
  ultimately show ?thesis using D(2) that by blast
qed

lemma create_context_run:
  "\<exists>x e'. create_context X msg e = (Inr x, e') \<and> blockchain x = Some (ex_chain e) \<and> ex_chain e' = ex_chain e
     \<and> (executor_ok X e' \<longleftrightarrow> executor_ok X e)"
proof -
  let ?e = "e\<lparr>ex_time_reads := ex_time_reads e + 1\<rparr>"
  have "executor_ok X ?e \<longleftrightarrow> executor_ok X e" by (rule executor_ok_frame) simp_all
  then show ?thesis by (simp add: create_context_def read_time_def meth_simps new_context_def)
qed

lemma final_storage_raises: "final_storage a x \<noteq> Inl OutOfFuel"
  using get_storage_raises [of a x] by (auto simp: final_storage_def split: prod.splits sum.splits)

lemma intrinsic_pos: "21000 \<le> intrinsic_gas data c"
proof -
  have "0 \<le> sum_list (map (\<lambda>b. if b = 0 then 4 else 16 :: int) data)" by (induction data) auto
  moreover have "0 \<le> (int (length data) + 31) div 32" by simp
  ultimately show ?thesis by (simp add: intrinsic_gas_def)
qed


section \<open>What may change\<close>

definition only_storage_of :: "string \<Rightarrow> chain \<Rightarrow> chain \<Rightarrow> bool" where
  "only_storage_of key bc bc' \<longleftrightarrow>
     chain_balance bc' = chain_balance bc \<and> tracker bc' = tracker bc \<and>
     (\<forall>k. k \<noteq> key \<longrightarrow> map_of (contracts bc') k = map_of (contracts bc) k) \<and>
     map_option (c_storage_update (\<lambda>_. [])) (map_of (contracts bc') key) =
       map_option (c_storage_update (\<lambda>_. [])) (map_of (contracts bc) key)"

lemma only_storage_refl [simp]: "only_storage_of key bc bc"
  by (simp add: only_storage_of_def)

lemma persist_frame:
  "only_storage_of (to_upper a) (ex_chain e) (ex_chain (persist_storage a st e))"
  "ex_jumps (persist_storage a st e) = ex_jumps e"
  by (simp_all add: only_storage_of_def persist_storage_def get_record_def set_contract_def update_conv'
      split: option.splits)

lemma persist_ok: "executor_ok X e \<Longrightarrow> executor_ok X (persist_storage a st e)"
  by (simp add: executor_ok_def jumps_ok_def persist_frame cache_agrees_persist)

lemma store_frame:
  "ex_jumps (store_contract a bs st e) = ex_jumps e"
  "chain_balance (ex_chain (store_contract a bs st e)) = chain_balance (ex_chain e)"
  "tracker (ex_chain (store_contract a bs st e)) = tracker (ex_chain e)"
  "map_of (contracts (ex_chain (store_contract a bs st e))) =
     (map_of (contracts (ex_chain e)))(to_upper a \<mapsto>
       \<lparr>c_code = Some (CodeHex (hex_of_bytes bs)), c_storage = text_keys (to_dict st), c_type = None, c_metadata = None\<rparr>)"
  by (simp_all add: store_contract_def invalidate_contract_cache_def set_contract_def update_conv')

lemma store_ok: "executor_ok X e \<Longrightarrow> executor_ok X (store_contract a bs st e)"
  by (simp add: executor_ok_def jumps_ok_def store_frame cache_agrees_store)

text \<open>
  The end of an entry point: an exception or a failure leaves the blockchain, and every result
  has paid four fifths of the intrinsic gas at least.
\<close>

definition settled :: "externals \<Rightarrow> string \<Rightarrow> bool \<Rightarrow> executor \<Rightarrow> exn + exec_result \<Rightarrow> executor \<Rightarrow> bool" where
  "settled X key st e r e' \<longleftrightarrow> executor_ok X e' \<and> only_storage_of key (ex_chain e) (ex_chain e') \<and>
     (case r of
        Inl err \<Rightarrow> err \<noteq> OutOfFuel \<and> ex_chain e' = ex_chain e
      | Inr res \<Rightarrow> (st \<or> \<not> success res \<longrightarrow> ex_chain e' = ex_chain e) \<and> 84000 \<le> 5 * res_gas_used res)"

lemma refund_bound: "21000 \<le> used \<Longrightarrow> 84000 \<le> 5 * gas_after_refund used refund"
  by (simp add: gas_after_refund_def min_def) linarith

lemma finish_call_settled:
  assumes "executor_ok X e1" and "ex_chain e1 = ex_chain e" and "21000 \<le> msg_gas_limit msg - gas (call m)"
    and run: "finish_call_contract msg a st m e1 = (r, e')"
  shows "settled X (to_upper a) st e r e'"
proof -
  note used = refund_bound [OF assms(3)]
  show ?thesis
  proof (cases "reverted (call m) \<or> st")
    case True
    with assms used show ?thesis
      by (auto simp: finish_call_contract_def Let_def meth_simps settled_def split: if_splits)
  next
    case False
    show ?thesis
    proof (cases "final_storage a (ctx_commit (ctx m))")
      case (Inl err)
      with False assms final_storage_raises [of a "ctx_commit (ctx m)"] show ?thesis
        by (auto simp: finish_call_contract_def Let_def meth_simps settled_def)
    next
      case (Inr s)
      with False assms used persist_frame(1) [of a e1 s] persist_ok [OF assms(1)] show ?thesis
        by (auto simp: finish_call_contract_def Let_def meth_simps settled_def)
    qed
  qed
qed

lemma call_code_settled:
  assumes "externals_ok X" and "executor_ok X e" and "no_create bs" and "no_create_registry (ex_chain e)"
    and n: "nat (msg_gas_limit msg) + 2 \<le> n" and run: "call_code X n a bs msg st e = (r, e')"
  shows "settled X (to_upper a) st e r e'"
proof (cases "intrinsic_gas (msg_data msg) False > msg_gas_limit msg")
  case True
  with assms(2) run show ?thesis by (auto simp: call_code_def Let_def meth_simps settled_def)
next
  case False
  let ?g = "msg_gas_limit msg - intrinsic_gas (msg_data msg) False"
  note pos = intrinsic_pos [of "msg_data msg" False]
  obtain x e1 where x: "create_context X msg e = (Inr x, e1)" "blockchain x = Some (ex_chain e1)"
    "ex_chain e1 = ex_chain e" "executor_ok X e1"
    using create_context_run [of X msg e] assms(2) by auto
  obtain q e2 where q: "run_code X n (new_call (if st then STATICCALL else CALL) 0 a (msg_sender msg) (msg_sender msg)
      (msg_value msg) ?g bs (msg_data msg) st) x e1 = (q, e2)" by fastforce
  have g: "0 \<le> ?g" "nat ?g + 2 \<le> n" using False pos n by auto
  have "no_create_registry (ex_chain e1)" using x(3) assms(4) by simp
  from run_code_kept [OF assms(1) x(4) assms(3) this g x(2) q] obtain r1 m where
    k: "q = Inr (r1, m)" "r1 \<noteq> Inl OutOfFuel" "ex_chain e2 = ex_chain e" "executor_ok X e2" "gas (call m) \<le> ?g"
    using x(3) by metis
  have eq: "call_code X n a bs msg st e =
      (case r1 of Inl (VMExecutionError c) \<Rightarrow> ret (failure_result msg ''CallFailed'')
       | Inl err \<Rightarrow> raise err | Inr _ \<Rightarrow> finish_call_contract msg a st m) e2"
    using False x(1) q k(1) by (simp add: call_code_def Let_def and_then_def raise_if_def)
  show ?thesis
  proof (cases r1)
    case (Inl err)
    with run eq k False pos show ?thesis
      by (cases err) (auto simp: settled_def failure_result_def ret_def raise_def)
  next
    case (Inr u)
    have "21000 \<le> msg_gas_limit msg - gas (call m)" using k(5) pos by simp
    from finish_call_settled [OF k(4,3) this] Inr run eq show ?thesis by simp
  qed
qed


lemma finish_deployment_run:
  assumes "executor_ok X e1" and "ex_chain e1 = ex_chain e" and run: "finish_deployment msg a m e1 = (r, e')"
  shows "executor_ok X e' \<and> (case r of
      Inl err \<Rightarrow> err \<noteq> OutOfFuel \<and> ex_chain e' = ex_chain e
    | Inr res \<Rightarrow> success res \<and> int (length (out_data (call m))) \<le> MAX_DEPLOYED_SIZE
        \<and> 200 * int (length (out_data (call m))) \<le> gas (call m)
        \<and> res_gas_used res = msg_gas_limit msg - gas (call m) + 200 * int (length (out_data (call m)))
        \<and> (\<exists>st. e' = store_contract a (out_data (call m)) st e1))"
  using assms final_storage_raises [of a "ctx m"] store_ok [OF assms(1)]
  by (auto simp: finish_deployment_def Let_def meth_simps split: if_splits sum.splits)

text \<open>
  The end of a deployment: a success has one new entry, whose code the cache answers with from
  now on, and has paid for its code within the limit.
\<close>

definition deployed :: "externals \<Rightarrow> message \<Rightarrow> executor \<Rightarrow> exec_result \<Rightarrow> executor \<Rightarrow> bool" where
  "deployed X msg e res e' \<longleftrightarrow> (\<exists>a bs.
     executor_create_address X (msg_sender msg) (msg_nonce msg) = Inr a \<and>
     fst (get_contract_code a e') = Inr bs \<and> int (length bs) \<le> MAX_DEPLOYED_SIZE \<and>
     chain_balance (ex_chain e') = chain_balance (ex_chain e) \<and> tracker (ex_chain e') = tracker (ex_chain e) \<and>
     (\<forall>k. k \<noteq> to_upper a \<longrightarrow> map_of (contracts (ex_chain e')) k = map_of (contracts (ex_chain e)) k) \<and>
     21000 + 200 * int (length bs) \<le> res_gas_used res \<and> res_gas_used res \<le> msg_gas_limit msg)"

lemma deployedI:
  assumes "executor_create_address X (msg_sender msg) (msg_nonce msg) = Inr a" and "executor_ok X e1"
    and "ex_chain e1 = ex_chain e" and "int (length bs) \<le> MAX_DEPLOYED_SIZE"
    and "21000 + 200 * int (length bs) \<le> res_gas_used res" and "res_gas_used res \<le> msg_gas_limit msg"
  shows "deployed X msg e res (store_contract a bs st e1)"
proof -
  have "cache_agrees (store_contract a bs st e1)"
    using store_ok [OF assms(2)] by (simp add: executor_ok_def)
  from cache_lookup(1) [OF this, of a]
  have "fst (get_contract_code a (store_contract a bs st e1)) = Inr bs"
    by (simp add: registry_code_def store_frame decode_code_def fromhex_hex_of_bytes)
  then show ?thesis
    unfolding deployed_def using assms store_frame(2-4) [of a bs st e1] by auto
qed

lemma bind_raises: "bind_result r f = Inl e \<longleftrightarrow> r = Inl e \<or> (\<exists>a. r = Inr a \<and> f a = Inl e)"
  by (cases r) (simp_all add: bind_result_def)

lemma executor_address_raises: "executor_create_address X a k \<noteq> Inl OutOfFuel"
  by (simp add: executor_create_address_def bind_raises Let_def fromhex_raises byte_list_def
      minimal_bytes_def to_bytes_raises split: if_splits)


lemma deploy_run:
  assumes "externals_ok X" and "executor_ok X e" and "no_create (msg_data msg)" and "no_create_registry (ex_chain e)"
    and n: "nat (msg_gas_limit msg) + 2 \<le> n" and run: "deploy_contract X n msg e = (r, e')"
  shows "executor_ok X e' \<and> (case r of
      Inl err \<Rightarrow> err \<noteq> OutOfFuel \<and> ex_chain e' = ex_chain e
    | Inr res \<Rightarrow> if success res then deployed X msg e res e'
        else ex_chain e' = ex_chain e \<and> 21000 \<le> res_gas_used res \<and> res_gas_used res \<le> msg_gas_limit msg)"
proof -
  let ?e0 = "e\<lparr>ex_time_reads := ex_time_reads e + 1\<rparr>"
  let ?g = "msg_gas_limit msg - intrinsic_gas (msg_data msg) True"
  have e0: "executor_ok X ?e0" using assms(2) executor_ok_frame [of ?e0 e X] by simp
  show ?thesis
  proof (cases "int (length (msg_data msg)) > MAX_INITCODE_SIZE \<or> intrinsic_gas (msg_data msg) True > msg_gas_limit msg
      \<or> (\<exists>err. executor_create_address X (msg_sender msg) (msg_nonce msg) = Inl err)")
    case True
    with run e0 executor_address_raises [of X "msg_sender msg" "msg_nonce msg"] show ?thesis
      by (auto simp: deploy_contract_def Let_def meth_simps read_time_def split: if_splits)
  next
    case False
    then obtain a where a: "executor_create_address X (msg_sender msg) (msg_nonce msg) = Inr a"
      and size: "\<not> int (length (msg_data msg)) > MAX_INITCODE_SIZE"
      and gas: "\<not> intrinsic_gas (msg_data msg) True > msg_gas_limit msg"
      by (cases "executor_create_address X (msg_sender msg) (msg_nonce msg)") auto
    note pos = intrinsic_pos [of "msg_data msg" True]
    obtain x e1 where x: "create_context X msg ?e0 = (Inr x, e1)" "blockchain x = Some (ex_chain e1)"
      "ex_chain e1 = ex_chain e" "executor_ok X e1"
      using create_context_run [of X msg ?e0] e0 by auto
    obtain q e2 where q: "run_code X n (new_call CREATE 0 a (msg_sender msg) (msg_sender msg)
        (msg_value msg) ?g (msg_data msg) [] False) x e1 = (q, e2)" by fastforce
    have g: "0 \<le> ?g" "nat ?g + 2 \<le> n" using gas pos n by auto
    have "no_create_registry (ex_chain e1)" using x(3) assms(4) by simp
    from run_code_kept [OF assms(1) x(4) assms(3) this g x(2) q] obtain r1 m where
      k: "q = Inr (r1, m)" "r1 \<noteq> Inl OutOfFuel" "ex_chain e2 = ex_chain e" "executor_ok X e2"
        "0 \<le> gas (call m)" "gas (call m) \<le> ?g"
      using x(3) by metis
    have eq: "deploy_contract X n msg e =
        (case r1 of Inl (VMExecutionError c) \<Rightarrow> ret (failure_result msg ''DeploymentFailed'')
         | Inl err \<Rightarrow> raise err
         | Inr _ \<Rightarrow> if reverted (call m)
             then ret \<lparr>success = False, res_gas_used = msg_gas_limit msg - gas (call m), res_return = out_data (call m),
                       res_logs = [RevertedLog ''DeploymentReverted'' (revert_reason (call m))]\<rparr>
             else finish_deployment msg a m) e2"
      using size gas a x(1) q k(1)
      by (simp add: deploy_contract_def Let_def and_then_def raise_if_def read_time_def lift_result_def)
    show ?thesis
    proof (cases "\<exists>u. r1 = Inr u \<and> \<not> reverted (call m)")
      case False
      with run eq k gas pos show ?thesis
        by (cases r1) (auto simp: failure_result_def ret_def raise_def split: exn.splits if_splits)
    next
      case True
      with run eq have "finish_deployment msg a m e2 = (r, e')" by auto
      from finish_deployment_run [OF k(4,3) this] show ?thesis
        using deployedI [OF a k(4,3)] k pos by (auto split: sum.splits)
    qed
  qed
qed


lemma call_contract_settled:
  assumes "externals_ok X" and "executor_ok X e" and "no_create_registry (ex_chain e)"
    and "nat (msg_gas_limit msg) + 2 \<le> n" and "\<not> is_builtin (get_record (normalize_address a) e)"
    and "msg_to msg = Some a" and run: "call_contract X K n msg st e = (r, e')"
  shows "executor_ok X e' \<and> only_storage_of (to_upper (normalize_address a)) (ex_chain e) (ex_chain e') \<and>
    (case r of
       Inl err \<Rightarrow> err \<noteq> OutOfFuel \<and> ex_chain e' = ex_chain e
     | Inr res \<Rightarrow> (st \<or> \<not> success res \<longrightarrow> ex_chain e' = ex_chain e) \<and> 16800 \<le> res_gas_used res)"
proof -
  let ?a = "normalize_address a"
  obtain c e1 where c: "get_contract_code ?a e = (c, e1)" by fastforce
  have e1: "executor_ok X e1" "ex_chain e1 = ex_chain e"
    using cache_lookup(2) [of e ?a] lookup_frame [of ?a e] assms(2) c
    by (simp_all add: executor_ok_def jumps_ok_def)
  have code: "c = registry_code (ex_chain e) (to_upper ?a)"
    using cache_lookup(1) [of e ?a] assms(2) c by (simp add: executor_ok_def)
  have r1: "\<not> is_builtin (get_record ?a e1)"
    using assms(5) e1(2) by (simp add: get_record_def)
  show ?thesis
  proof (cases c)
    case (Inl err)
    then have "err \<noteq> OutOfFuel"
      using code fromhex_raises by (auto simp: registry_code_def decode_code_def split: option.splits code_field.splits)
    with Inl c e1 assms(2,6) run show ?thesis
      by (auto simp: call_contract_def call_contract_with_def Let_def and_then_def raise_def split: if_splits)
  next
    case (Inr bs)
    then have bs: "no_create bs" "no_create_registry (ex_chain e1)"
      using assms(3) code e1(2) by (auto simp: no_create_registry_def)
    show ?thesis
    proof (cases "a = [] \<or> bs = []")
      case True
      with Inr c e1 r1 assms(2,6) run intrinsic_pos [of "msg_data msg" False] show ?thesis
        by (auto simp: call_contract_def call_contract_with_def Let_def meth_simps split: if_splits)
    next
      case False
      with Inr c r1 assms(6) run have "call_code X n ?a bs msg st e1 = (r, e')"
        by (simp add: call_contract_def call_contract_with_def Let_def and_then_def reads_def)
      from call_code_settled [OF assms(1) e1(1) bs assms(4) this] e1(2) show ?thesis
        by (auto simp: settled_def split: sum.splits)
    qed
  qed
qed

section \<open>Static calls\<close>

lemma static_run_kept:
  assumes "jumps_ok X e" and "0 \<le> g" and "blockchain x = Some (ex_chain e)" and "wf_context x"
    and run: "run_code X n (new_call STATICCALL d a c ori v g bs cd st) x e = (q, e')"
  obtains r m where "q = Inr (r, m)" and "ex_chain e' = ex_chain e"
proof -
  let ?c = "new_call STATICCALL d a c ori v g bs cd st"
  let ?s = "\<lparr>call = ?c, ctx = snd (push_call [] x), instruction_count = 0, start_time = 0, time_reads = ex_time_reads e,
       jump_dest_cache = ex_jumps e, cache_hits = ex_jump_hits e, cache_misses = ex_jump_misses e\<rparr>"
  obtain r m where m: "execute X n ?s = (r, m)" by fastforce
  have ok: "inv_of X (\<lambda>c. frame_ok c \<and> static c) wf_context ?s"
    using assms(1,4) frame_ok_new_call [OF assms(2)]
    by (simp add: inv_of_def wf_cache_def jumps_ok_def wf_frame push_call_def static_new_call)
  have "safe (inv_of X (\<lambda>c. frame_ok c \<and> static c) wf_context) (rel_of unchanged) (\<lambda>_. True) (execute X n) (\<lambda>_. True)"
    by (rule static.keeps_execute) simp_all
  from safeD(2) [OF this ok m] have "blockchain (ctx m) = Some (ex_chain e)"
    using assms(3) by (simp add: rel_of_def unchanged_def push_call_def)
  then show ?thesis
    using that run m by (auto simp: run_code_def run_frame_def after_run_def)
qed


lemma context_wf:
  assumes "\<And>a. 0 \<le> chain_balance (ex_chain e) a" and "create_context X msg e = (Inr x, e1)"
  shows "wf_context x" and "blockchain x = Some (ex_chain e1)" and "ex_chain e1 = ex_chain e" and "ex_jumps e1 = ex_jumps e"
proof -
  have x: "\<exists>blk. x = new_context blk (msg_sender msg) 1 (msg_gas_limit msg) (msg_value msg) (Some (ex_chain e))"
    using assms(2) by (auto simp: create_context_def read_time_def and_then_def reads_def)
  show "ex_chain e1 = ex_chain e" "ex_jumps e1 = ex_jumps e"
    using assms(2) by (auto simp: create_context_def read_time_def and_then_def reads_def)
  with x show "blockchain x = Some (ex_chain e1)" by (auto simp: new_context_def)
  show "wf_context x" using x assms(1) by (auto intro!: wf_new_context)
qed

lemma call_code_static:
  assumes "jumps_ok X e" and "\<And>a. 0 \<le> chain_balance (ex_chain e) a" and run: "call_code X n a bs msg True e = (r, e')"
  shows "ex_chain e' = ex_chain e"
proof (cases "intrinsic_gas (msg_data msg) False > msg_gas_limit msg")
  case True
  with run show ?thesis by (auto simp: call_code_def Let_def meth_simps)
next
  case False
  let ?g = "msg_gas_limit msg - intrinsic_gas (msg_data msg) False"
  obtain x e1 where x: "create_context X msg e = (Inr x, e1)"
    using create_context_run [of X msg e] by auto
  note wf = context_wf [OF assms(2) x]
  obtain q e2 where q: "run_code X n (new_call STATICCALL 0 a (msg_sender msg) (msg_sender msg)
      (msg_value msg) ?g bs (msg_data msg) True) x e1 = (q, e2)" by fastforce
  have "jumps_ok X e1" "0 \<le> ?g" using assms(1) wf(4) False by (simp_all add: jumps_ok_def)
  from static_run_kept [OF this wf(2,1) q] obtain r1 m where "q = Inr (r1, m)" "ex_chain e2 = ex_chain e"
    using wf(3) by metis
  with False x q run show ?thesis
    by (auto simp: call_code_def finish_call_contract_def Let_def meth_simps split: sum.splits exn.splits if_splits)
qed

section \<open>Properties\<close>

text \<open>
  The bytecode cache is transparent: what \<open>_get_contract_code\<close> answers is what the
  registry holds, whatever is cached, and it leaves the cache with at most 256 entries that
  agree with the registry.
\<close>

lemma code_cache_transparent:
  assumes "cache_agrees e"
  shows "fst (get_contract_code a e) = decode_code (get_record a e) \<and> cache_agrees (snd (get_contract_code a e))
    \<and> ex_chain (snd (get_contract_code a e)) = ex_chain e"
  using cache_lookup [OF assms, of a] lookup_frame(1) [of a e] by (simp add: registry_code_def get_record_def)

definition sample_executor :: "(string \<times> contract_record) list \<Rightarrow> executor" where
  "sample_executor cs = new_executor (sample_chain cs) 1 None"

lemma sample_executor_ok: "executor_ok X (sample_executor cs)"
  by (simp add: executor_ok_def cache_agrees_def jumps_ok_def sample_executor_def new_executor_def)

text \<open>
  C18: A call to code without CREATE and CREATE2, on a registry whose code has none either,
  returns a result or an exception of the source within gas limit plus two turns per frame.
  It changes the storage of the called contract and nothing else of the blockchain; if it is
  static, fails, reverts or raises, not even that. Its result has cost four fifths of the
  base fee of 21000 at least, and the caches are right afterwards.
\<close>

theorem call_confined:
  assumes "externals_ok X" and "executor_ok X e" and "no_create_registry (ex_chain e)"
    and "nat (msg_gas_limit msg) + 2 \<le> n" and "\<not> is_builtin (get_record (normalize_address a) e)"
    and "msg_to msg = Some a" and "call_contract X K n msg st e = (r, e')"
  shows "executor_ok X e' \<and> only_storage_of (to_upper (normalize_address a)) (ex_chain e) (ex_chain e') \<and>
    (case r of
       Inl err \<Rightarrow> err \<noteq> OutOfFuel \<and> ex_chain e' = ex_chain e
     | Inr res \<Rightarrow> (st \<or> \<not> success res \<longrightarrow> ex_chain e' = ex_chain e) \<and> 16800 \<le> res_gas_used res)"
  by (rule call_contract_settled [OF assms])

definition sample_message :: "string option \<Rightarrow> byte list \<Rightarrow> int \<Rightarrow> message" where
  "sample_message target data limit = \<lparr>msg_sender = ''0x'' @ hex_of_bytes (zeros 20), msg_to = target, msg_value = 0,
     msg_gas_limit = limit, msg_data = data, msg_nonce = 0\<rparr>"

text \<open>The example calls code that stores 7 in slot 0 and returns.\<close>

theorem call_confined_witness:
  "\<exists>r e'. call_contract sample_lib id 60002 (sample_message (Some ''0xAA'') [] 60000) False
       (sample_executor [code_entry ''0XAA'' [0x60, 7, 0x60, 0, 0x55, 0]]) = (r, e')
     \<and> executor_ok sample_lib e' \<and> r \<noteq> Inl OutOfFuel"
proof -
  let ?e = "sample_executor [code_entry ''0XAA'' [0x60, 7, 0x60, 0, 0x55, 0]]"
  obtain r e' where run: "call_contract sample_lib id 60002 (sample_message (Some ''0xAA'') [] 60000) False ?e = (r, e')"
    by fastforce
  have "no_create_registry (ex_chain ?e)"
    by (auto simp: no_create_registry_def registry_code_def decode_code_def sample_executor_def new_executor_def
        sample_chain_def code_entry_def no_create_def)
  moreover have "\<not> is_builtin (get_record a ?e)" for a
    by (simp add: is_builtin_def get_record_def sample_executor_def new_executor_def sample_chain_def code_entry_def)
  moreover have "externals_ok sample_lib" by (simp add: externals_ok_def sample_lib_def)
  ultimately have "executor_ok sample_lib e' \<and> r \<noteq> Inl OutOfFuel"
    using call_confined [OF _ sample_executor_ok _ _ _ _ run, of "''0xAA''"]
    by (auto simp: sample_message_def)
  with run show ?thesis by blast
qed

text \<open>
  A deployment whose init code has no CREATE, on a registry whose code has none, returns a
  result or an exception of the source within gas limit plus two turns. A success adds one
  entry, of at most 24576 bytes of code, under the address derived from sender and nonce, for
  which the cache answers from now on, and has used the base fee and 200 gas a byte at least
  and the limit at most; everything else leaves the blockchain as it was.
\<close>

lemma deploy_confined:
  assumes "externals_ok X" and "executor_ok X e" and "no_create (msg_data msg)" and "no_create_registry (ex_chain e)"
    and "nat (msg_gas_limit msg) + 2 \<le> n" and "msg_to msg = None" and "execute_message X K n msg e = (r, e')"
  shows "executor_ok X e' \<and> (case r of
      Inl err \<Rightarrow> err \<noteq> OutOfFuel \<and> ex_chain e' = ex_chain e
    | Inr res \<Rightarrow> if success res then deployed X msg e res e'
        else ex_chain e' = ex_chain e \<and> 21000 \<le> res_gas_used res \<and> res_gas_used res \<le> msg_gas_limit msg)"
  using assms(6,7) deploy_run [OF assms(1-5)] by (simp add: execute_message_def)

text \<open>The example runs init code that returns one byte of code.\<close>

text \<open>
  A static call to an account that is no built-in token leaves the blockchain exactly as
  it was, whatever its code does, creations included, and with whatever fuel.
\<close>

lemma call_static_pure:
  assumes "jumps_ok X e" and "\<And>x. 0 \<le> chain_balance (ex_chain e) x" and "msg_to msg = Some a"
    and "\<not> is_builtin (get_record (normalize_address a) e)" and "call_static X K n msg e = (r, e')"
  shows "ex_chain e' = ex_chain e"
proof -
  let ?a = "normalize_address a"
  obtain c e1 where c: "get_contract_code ?a e = (c, e1)" by fastforce
  have e1: "ex_chain e1 = ex_chain e" "jumps_ok X e1"
    using lookup_frame [of ?a e] assms(1) c by (simp_all add: jumps_ok_def)
  have "call_code X n ?a bs msg True e1 = (r', e'') \<Longrightarrow> ex_chain e'' = ex_chain e" for bs r' e''
    using call_code_static [OF e1(2), of n ?a bs msg r' e''] assms(2) e1(1) by simp
  moreover have "is_builtin (get_record ?a e1) = is_builtin (get_record ?a e)"
    using e1(1) by (simp add: get_record_def)
  ultimately show ?thesis
    using assms(3-5) c e1(1)
    by (auto simp: call_static_def call_contract_def call_contract_with_def Let_def meth_simps split: sum.splits if_splits)
qed

text \<open>The example calls code that tries to create a contract.\<close>

text \<open>
  For a sender of 20 bytes and every nonce below 256 to the 33rd, negative ones included,
  the address of a deployment is the one CREATE derives inside the machine, errors included.
\<close>

lemma deployment_address_agrees:
  assumes "fromhex (strip_0x sender) = Inr bs" and "length bs = 20" and "nonce < 256 ^ 33"
  shows "executor_create_address X sender nonce = compute_create_address (sha3_256 X) sender nonce"
proof -
  have short: "length nb \<le> 33" if "minimal_bytes nonce = Inr nb" "0 \<le> nonce" for nb
    using minimal_bytes_run [OF that(2) assms(3)] that(1) by force
  have "length r \<le> 34" if "rlp_nonce nonce = Inr r" for r
    using that short
    by (auto simp: rlp_nonce_def bind_result_def byte_list_def split: if_splits sum.splits)
  then show ?thesis
    using assms(1,2)
    by (cases "rlp_nonce nonce")
      (auto simp: executor_create_address_def compute_create_address_def rlp_encode_address_nonce_def rlp_address_def
        Let_def bind_result_def byte_list_def rlp_nonce_def [symmetric] split: sum.splits)
qed

text \<open>
  \<open>set_code\<close> of the execution context, which CREATE uses, writes the registry without telling
  the executor: an account looked up before it had code keeps its cached empty code.
\<close>

lemma created_code_invisible:
  assumes "cache_agrees e" and "get_record a e = None"
  shows "fst (get_contract_code a (set_contract (to_upper a) r (snd (get_contract_code a e)))) = Inr []"
proof -
  have "map_of (code_cache (snd (get_contract_code a e))) (to_upper a) = Some []"
  proof (cases "map_of (code_cache e) (to_upper a)")
    case None
    then have "map_of (evict_code (code_cache e @ [(to_upper a, [])])) (to_upper a) = Some []"
      by (cases "code_cache e") (auto simp: evict_code_def map_add_def CODE_CACHE_SIZE_def split: if_splits option.splits)
    with None assms(2) show ?thesis by (simp add: get_contract_code_def Let_def decode_code_def)
  next
    case (Some bs)
    then have "bs = []"
      using assms map_of_SomeD [OF Some] by (auto simp: cache_agrees_def registry_code_def decode_code_def get_record_def)
    with Some show ?thesis by (simp add: get_contract_code_def Let_def delete_conv' map_add_def)
  qed
  then show ?thesis by (simp add: get_contract_code_def Let_def set_contract_def)
qed

end
