(* ===== verification/EvmAlu.thy ===== *)
theory EvmAlu
  imports EvmSample "HOL-Library.Signed_Division"
begin

text \<open>
  The arithmetic, comparison and bitwise handlers against 256-bit machine words: each
  handler, written in the source on unbounded integers with masks and signed conversions,
  replaces its operands on the stack by the word operation's result.
\<close>

unbundle bit_operations_syntax

section \<open>The stack of the running frame\<close>

definition stack_of :: "machine \<Rightarrow> int list" where
  "stack_of s = items (stack (call s))"

definition with_stack :: "int list \<Rightarrow> machine \<Rightarrow> machine" where
  "with_stack xs s = s\<lparr>call := (call s)\<lparr>stack := (stack (call s))\<lparr>items := xs\<rparr>\<rparr>\<rparr>"

definition stack_limit :: "machine \<Rightarrow> nat" where
  "stack_limit s = max_depth (stack (call s))"

lemma with_stack_simps [simp]:
  "stack_of (with_stack xs s) = xs" "stack_limit (with_stack xs s) = stack_limit s"
  "with_stack xs (with_stack ys s) = with_stack xs s"
  by (simp_all add: with_stack_def stack_of_def stack_limit_def)

lemma pop_run:
  "stack_of s = [] \<Longrightarrow> pop s = (Inl (VMExecutionError StackUnderflow), s)"
  "stack_of s = a # xs \<Longrightarrow> pop s = (Inr a, with_stack xs s)"
  by (simp_all add: pop_def on_stack_def on_call_def zoom_def stack_pop_def raise_def stack_of_def with_stack_def)

lemma push_run:
  "length (stack_of s) < stack_limit s \<Longrightarrow> push v s = (Inr (), with_stack ((v mod UINT256_CEILING) # stack_of s) s)"
  by (simp add: push_def on_stack_def on_call_def zoom_def stack_push_def stack_of_def stack_limit_def with_stack_def
      and_UINT256_MAX UINT256_CEILING_def)

lemma then_pop_run:
  "stack_of s = [] \<Longrightarrow> fst (and_then pop k s) = Inl (VMExecutionError StackUnderflow)"
  "stack_of s = a # xs \<Longrightarrow> and_then pop k s = k a (with_stack xs s)"
  by (simp_all add: and_then_def pop_run)

section \<open>Handlers that compute a word\<close>

definition underflows :: "handler \<Rightarrow> nat \<Rightarrow> bool" where
  "underflows h n \<longleftrightarrow> (\<forall>s. length (stack_of s) < n \<longrightarrow> fst (h s) = Inl (VMExecutionError StackUnderflow))"

definition computes1 :: "handler \<Rightarrow> (word256 \<Rightarrow> word256) \<Rightarrow> bool" where
  "computes1 h f \<longleftrightarrow> underflows h 1 \<and> (\<forall>s a xs. stack_of s = uint a # xs \<longrightarrow> length xs < stack_limit s \<longrightarrow>
     h s = (Inr (), with_stack (uint (f a) # xs) s))"

definition computes2 :: "handler \<Rightarrow> (word256 \<Rightarrow> word256 \<Rightarrow> word256) \<Rightarrow> bool" where
  "computes2 h f \<longleftrightarrow> underflows h 2 \<and> (\<forall>s a b xs. stack_of s = uint a # uint b # xs \<longrightarrow> length xs < stack_limit s \<longrightarrow>
     h s = (Inr (), with_stack (uint (f a b) # xs) s))"

definition computes3 :: "handler \<Rightarrow> (word256 \<Rightarrow> word256 \<Rightarrow> word256 \<Rightarrow> word256) \<Rightarrow> bool" where
  "computes3 h f \<longleftrightarrow> underflows h 3 \<and> (\<forall>s a b c xs. stack_of s = uint a # uint b # uint c # xs \<longrightarrow>
     length xs < stack_limit s \<longrightarrow> h s = (Inr (), with_stack (uint (f a b c) # xs) s))"

lemma underflows_pop: "underflows (and_then pop k) 1"
  by (simp add: underflows_def then_pop_run)

lemma underflows_pop2: "underflows (pop2 k) 2"
  unfolding underflows_def pop2_def
proof (intro allI impI)
  fix s assume "length (stack_of s) < 2"
  then consider "stack_of s = []" | a where "stack_of s = [a]"
    by (cases "stack_of s") auto
  then show "fst (and_then pop (\<lambda>a. and_then pop (k a)) s) = Inl (VMExecutionError StackUnderflow)"
    by cases (simp_all add: then_pop_run)
qed

lemma underflows_pop3: "underflows (pop3 k) 3"
  unfolding underflows_def pop3_def
proof (intro allI impI)
  fix s assume s: "length (stack_of s) < 3"
  show "fst (and_then pop (\<lambda>a. pop2 (k a)) s) = Inl (VMExecutionError StackUnderflow)"
  proof (cases "stack_of s")
    case (Cons a xs)
    with s underflows_pop2 [of "k a"] show ?thesis by (simp add: then_pop_run underflows_def)
  qed (simp add: then_pop_run)
qed

lemma computes1I:
  assumes "\<And>a :: word256. \<exists>v. k (uint a) = push v \<and> v mod UINT256_CEILING = uint (f a)"
  shows "computes1 (and_then pop k) f"
  unfolding computes1_def
proof (intro conjI allI impI underflows_pop)
  fix s xs and a :: word256
  assume s: "stack_of s = uint a # xs" "length xs < stack_limit s"
  from assms [of a] obtain v where "k (uint a) = push v" "v mod UINT256_CEILING = uint (f a)" by blast
  with s show "and_then pop k s = (Inr (), with_stack (uint (f a) # xs) s)"
    by (simp add: then_pop_run push_run)
qed

lemma computes2I:
  assumes "\<And>a b :: word256. \<exists>v. k (uint a) (uint b) = push v \<and> v mod UINT256_CEILING = uint (f a b)"
  shows "computes2 (pop2 k) f"
  unfolding computes2_def
proof (intro conjI allI impI underflows_pop2)
  fix s xs and a b :: word256
  assume s: "stack_of s = uint a # uint b # xs" "length xs < stack_limit s"
  from assms [of a b] obtain v where "k (uint a) (uint b) = push v" "v mod UINT256_CEILING = uint (f a b)" by blast
  with s show "pop2 k s = (Inr (), with_stack (uint (f a b) # xs) s)"
    by (simp add: pop2_def then_pop_run push_run)
qed

lemma computes3I:
  assumes "\<And>a b c :: word256. \<exists>v. k (uint a) (uint b) (uint c) = push v \<and> v mod UINT256_CEILING = uint (f a b c)"
  shows "computes3 (pop3 k) f"
  unfolding computes3_def
proof (intro conjI allI impI underflows_pop3)
  fix s xs and a b c :: word256
  assume s: "stack_of s = uint a # uint b # uint c # xs" "length xs < stack_limit s"
  from assms [of a b c] obtain v where "k (uint a) (uint b) (uint c) = push v" "v mod UINT256_CEILING = uint (f a b c)" by blast
  with s show "pop3 k s = (Inr (), with_stack (uint (f a b c) # xs) s)"
    by (simp add: pop3_def pop2_def then_pop_run push_run)
qed

section \<open>The word operations\<close>

definition word_flag :: "bool \<Rightarrow> word256" where
  "word_flag b = (if b then 1 else 0)"

definition word_byte :: "word256 \<Rightarrow> word256 \<Rightarrow> word256" where
  "word_byte i x = (if i < 32 then drop_bit (8 * (31 - unat i)) x AND 0xFF else 0)"

definition signed_quot :: "word256 \<Rightarrow> word256 \<Rightarrow> word256" where
  "signed_quot a b = word_of_int (sint a sdiv sint b)"

definition signed_rem :: "word256 \<Rightarrow> word256 \<Rightarrow> word256" where
  "signed_rem a b = (if b = 0 then 0 else word_of_int (sint a smod sint b))"

definition unary_ops :: "(handler \<times> (word256 \<Rightarrow> word256)) list" where
  "unary_ops = [(op_iszero, \<lambda>a. word_flag (a = 0)), (op_not, \<lambda>a. NOT a)]"

definition binary_ops :: "(handler \<times> (word256 \<Rightarrow> word256 \<Rightarrow> word256)) list" where
  "binary_ops =
    [(op_add, (+)), (op_mul, (*)), (op_sub, (-)), (op_div, (div)), (op_sdiv, signed_quot),
     (op_mod, \<lambda>a b. if b = 0 then 0 else a mod b), (op_smod, signed_rem),
     (op_signextend, \<lambda>n v. signed_take_bit (min 255 (8 * unat n + 7)) v),
     (op_lt, \<lambda>a b. word_flag (a < b)), (op_gt, \<lambda>a b. word_flag (b < a)),
     (op_slt, \<lambda>a b. word_flag (a <s b)), (op_sgt, \<lambda>a b. word_flag (b <s a)), (op_eq, \<lambda>a b. word_flag (a = b)),
     (op_and, (AND)), (op_or, (OR)), (op_xor, (XOR)), (op_byte, word_byte),
     (op_shl, \<lambda>n v. push_bit (unat n) v), (op_shr, \<lambda>n v. drop_bit (unat n) v),
     (op_sar, \<lambda>n v. signed_drop_bit (unat n) v)]"

definition ternary_ops :: "(handler \<times> (word256 \<Rightarrow> word256 \<Rightarrow> word256 \<Rightarrow> word256)) list" where
  "ternary_ops =
    [(op_addmod, \<lambda>a b n. if n = 0 then 0 else word_of_int ((uint a + uint b) mod uint n)),
     (op_mulmod, \<lambda>a b n. if n = 0 then 0 else word_of_int ((uint a * uint b) mod uint n))]"

section \<open>Each handler\<close>

lemma uint_wrap: "uint (word_of_int v :: word256) = v mod UINT256_CEILING"
  by (simp add: UINT256_CEILING_def uint_word_of_int)

lemma uint_small [simp]: "uint (a :: word256) mod UINT256_CEILING = uint a"
  using uint_wrap [of "uint a"] by simp

lemma wrap_small: "v = uint (a :: word256) \<Longrightarrow> v mod UINT256_CEILING = uint a"
  by simp

lemma uint_flag: "(if b then 1 else 0) = uint (word_flag b)"
  by (simp add: word_flag_def)

lemma uint_zero [simp]: "uint (a :: word256) = 0 \<longleftrightarrow> a = 0"
  by (simp add: uint_0_iff)

lemma uint_same: "uint (a :: word256) = uint b \<longleftrightarrow> a = b"
  by (metis word_of_int_uint)

lemma uint_arith:
  "uint (a + b :: word256) = (uint a + uint b) mod UINT256_CEILING"
  "uint (a * b :: word256) = (uint a * uint b) mod UINT256_CEILING"
  "uint (a - b :: word256) = (uint a - uint b) mod UINT256_CEILING"
  by (simp_all add: UINT256_CEILING_def uint_word_arith_bintrs take_bit_eq_mod)

named_theorems computes_rules "the word operation each handler computes"

lemma computes_arith [computes_rules]:
  "computes2 op_add (+)" "computes2 op_mul (*)" "computes2 op_sub (-)"
  unfolding op_add_def op_mul_def op_sub_def
  by (rule computes2I, rule exI, rule conjI, rule refl, simp add: uint_arith)+

lemma computes_div [computes_rules]:
  "computes2 op_div (div)" "computes2 op_mod (\<lambda>a b. if b = 0 then 0 else a mod b)"
  unfolding op_div_def op_mod_def
  by (rule computes2I, rule exI, rule conjI, rule refl, rule wrap_small, simp add: uint_div uint_mod)+

lemma computes_flags [computes_rules]:
  "computes2 op_lt (\<lambda>a b. word_flag (a < b))" "computes2 op_gt (\<lambda>a b. word_flag (b < a))"
  "computes2 op_slt (\<lambda>a b. word_flag (a <s b))" "computes2 op_sgt (\<lambda>a b. word_flag (b <s a))"
  "computes2 op_eq (\<lambda>a b. word_flag (a = b))" "computes1 op_iszero (\<lambda>a. word_flag (a = 0))"
  unfolding op_lt_def op_gt_def op_slt_def op_sgt_def op_eq_def op_iszero_def uint_flag
  by ((rule computes1I | rule computes2I), rule exI, rule conjI, rule refl,
      simp add: word_less_def word_sless_alt to_signed_sint uint_same)+

lemma computes_bitwise [computes_rules]:
  "computes2 op_and (AND)" "computes2 op_or (OR)" "computes2 op_xor (XOR)" "computes1 op_not (\<lambda>a. NOT a)"
proof -
  show "computes2 op_and (AND)" "computes2 op_or (OR)" "computes2 op_xor (XOR)"
    unfolding op_and_def op_or_def op_xor_def
    by (rule computes2I, rule exI, rule conjI, rule refl, rule wrap_small, simp add: uint_and uint_or uint_xor)+
  have "UINT256_MAX XOR uint a = uint (NOT a)" for a :: word256
    by (rule bit_eqI) (auto simp: UINT256_MAX_mask bit_xor_iff bit_mask_iff bit_uint_iff bit_simps)
  note word = this
  show "computes1 op_not (\<lambda>a. NOT a)"
    unfolding op_not_def by (rule computes1I, rule exI, rule conjI, rule refl, rule wrap_small, rule word)
qed

lemma computes_modular [computes_rules]:
  "computes3 op_addmod (\<lambda>a b n. if n = 0 then 0 else word_of_int ((uint a + uint b) mod uint n))"
  "computes3 op_mulmod (\<lambda>a b n. if n = 0 then 0 else word_of_int ((uint a * uint b) mod uint n))"
  unfolding op_addmod_def op_mulmod_def
  by (rule computes3I, rule exI, rule conjI, rule refl, simp add: uint_wrap)+

lemma computes_signextend [computes_rules]:
  "computes2 op_signextend (\<lambda>n v. signed_take_bit (min 255 (8 * unat n + 7)) v)"
proof -
  have "sign_extend (uint v) (uint n) = uint (signed_take_bit (min 255 (8 * unat n + 7)) v)" for v n :: word256
    using sign_extend_word [of v "unat n"] by simp
  note word = this
  show ?thesis
    unfolding op_signextend_def by (rule computes2I, rule exI, rule conjI, rule refl, rule wrap_small, rule word)
qed

lemma push_if: "(if c then push a else push b) = push (if c then a else b)"
  by simp

lemma to_unsigned_sint: "to_unsigned (sint (w :: word256)) = uint w"
  using sint_greater_eq [of w] by (simp add: to_unsigned_mod uint_sint take_bit_eq_mod)

lemma to_unsigned_wrap: "- (2 ^ 256) \<le> v \<Longrightarrow> to_unsigned v = uint (word_of_int v :: word256)"
  by (simp add: to_unsigned_mod uint_word_of_int)

lemma uint_drop: "uint (drop_bit n (w :: word256)) = drop_bit n (uint w)"
  by (rule bit_eqI) (simp add: bit_simps)

lemma uint_push: "uint (push_bit n (w :: word256)) = take_bit 256 (push_bit n (uint w))"
  by (rule bit_eqI) (auto simp: bit_simps)

lemma uint_unat: "uint (n :: word256) = int (unat n)"
  by simp

lemma less_word_iff: "uint (n :: word256) < 32 \<longleftrightarrow> n < 32"
  by (simp add: word_less_def)

lemma nat_uint: "nat (uint (n :: word256)) = unat n"
  by (simp only: unat_eq_nat_uint)

lemma to_signed_0: "to_signed 0 = 0"
  by (simp add: to_signed_def INT256_MAX_def)

lemma computes_byte [computes_rules]: "computes2 op_byte word_byte"
proof -
  have word: "(if 32 \<le> uint i then 0 else drop_bit (nat (248 - uint i * 8)) (uint x) AND 0xFF) = uint (word_byte i x)"
    for i x :: word256
  proof (cases "uint i < 32")
    case True
    then have "nat (248 - uint i * 8) = 8 * (31 - unat i)"
      unfolding uint_unat by linarith
    moreover have "i < 32" using True less_word_iff by blast
    ultimately show ?thesis
      using True by (simp add: word_byte_def uint_and uint_drop)
  next
    case False
    then have "\<not> i < 32" using less_word_iff by blast
    with False show ?thesis by (simp add: word_byte_def)
  qed
  show ?thesis
    unfolding op_byte_def push_if
    by (rule computes2I, rule exI, rule conjI, rule refl, rule wrap_small, rule word)
qed

lemma shift_all:
  assumes "256 \<le> n"
  shows "push_bit n (v :: word256) = 0" and "drop_bit n (v :: word256) = 0"
  using assms by (auto intro!: bit_word_eqI simp: bit_simps dest: bit_imp_le_length)

lemma large_uint: "256 \<le> uint (n :: word256) \<longleftrightarrow> 256 \<le> unat n"
  unfolding uint_unat by linarith

lemma computes_shift [computes_rules]:
  "computes2 op_shl (\<lambda>n v. push_bit (unat n) v)" "computes2 op_shr (\<lambda>n v. drop_bit (unat n) v)"
proof -
  have l: "(if 256 \<le> uint n then 0 else push_bit (nat (uint n)) (uint v) mod UINT256_CEILING) = uint (push_bit (unat n) v)"
    for n v :: word256
    unfolding large_uint nat_uint
    by (simp add: shift_all) (simp add: uint_push take_bit_eq_mod UINT256_CEILING_def)
  have r: "(if 256 \<le> uint n then 0 else drop_bit (nat (uint n)) (uint v)) = uint (drop_bit (unat n) v)"
    for n v :: word256
    unfolding large_uint nat_uint by (simp add: shift_all) (simp add: uint_drop)
  show "computes2 op_shl (\<lambda>n v. push_bit (unat n) v)"
    unfolding op_shl_def push_if
    by (rule computes2I, rule exI, rule conjI, rule refl, rule wrap_small, rule l)
  show "computes2 op_shr (\<lambda>n v. drop_bit (unat n) v)"
    unfolding op_shr_def push_if
    by (rule computes2I, rule exI, rule conjI, rule refl, rule wrap_small, rule r)
qed

lemma sint_drop_all: "256 \<le> n \<Longrightarrow> drop_bit n (sint (v :: word256)) = (if sint v < 0 then -1 else 0)"
  by (rule bit_eqI) (auto simp: bit_drop_bit_eq bit_sint_iff bit_last_iff [symmetric] bit_minus_1_iff
      dest: bit_imp_le_length)

lemma computes_sar [computes_rules]: "computes2 op_sar (\<lambda>n v. signed_drop_bit (unat n) v)"
proof -
  have word: "to_unsigned (if 256 \<le> uint n then if to_signed (uint v) < 0 then -1 else 0
      else drop_bit (nat (uint n)) (to_signed (uint v))) = uint (signed_drop_bit (unat n) v)" for n v :: word256
  proof -
    have "(if 256 \<le> uint n then if to_signed (uint v) < 0 then -1 else 0
        else drop_bit (nat (uint n)) (to_signed (uint v))) = sint (signed_drop_bit (unat n) v)"
      unfolding to_signed_sint large_uint nat_uint sint_signed_drop_bit_eq by (simp add: sint_drop_all)
    then show ?thesis by (simp only: to_unsigned_sint)
  qed
  have push: "(if c then push (to_unsigned a) else push (to_unsigned b)) = push (to_unsigned (if c then a else b))"
    for c a b by simp
  show ?thesis
    unfolding op_sar_def Let_def push
    by (rule computes2I, rule exI, rule conjI, rule refl, rule wrap_small, rule word)
qed

lemma sint_bounds: "- (2 ^ 255) \<le> sint (a :: word256) \<and> sint a < 2 ^ 255"
  using sint_greater_eq [of a] sint_less [of a] by simp

lemma sint_zero: "sint (b :: word256) = 0 \<longleftrightarrow> b = 0"
  using signed_word_eqI [of b 0] by auto

lemma abs_sint_le: "\<bar>sint (a :: word256)\<bar> \<le> 2 ^ 255"
  using sint_bounds [of a] by linarith

text \<open>A sign times a magnitude of at most \<open>2^255\<close>, wrapped.\<close>

lemma to_unsigned_sign:
  assumes "0 \<le> q" and "q \<le> 2 ^ 255"
  shows "to_unsigned ((if c then -1 else 1) * q) = uint (word_of_int ((if c then -1 else 1) * q) :: word256)"
  by (rule to_unsigned_wrap) (use assms in auto)

lemma sdiv_sign:
  "(if (a < 0) \<noteq> (b < 0) then -1 else 1) * (\<bar>a\<bar> div \<bar>b\<bar>) = a sdiv b" for a b :: int
  by (auto simp: signed_divide_int_def sgn_if)

lemma smod_sign: "(if a < 0 then -1 else 1) * (\<bar>a\<bar> mod \<bar>b\<bar>) = a smod b" for a b :: int
  by (auto simp: signed_modulo_int_def sgn_if)

lemma push_unsigned_if: "(if c then push 0 else push (to_unsigned b)) = push (if c then 0 else to_unsigned b)"
  by simp

lemma computes_sdiv [computes_rules]: "computes2 op_sdiv signed_quot"
proof -
  have word: "(if to_signed (uint b) = 0 then 0
       else to_unsigned ((if (to_signed (uint a) < 0) \<noteq> (to_signed (uint b) < 0) then -1 else 1)
         * (\<bar>to_signed (uint a)\<bar> div \<bar>to_signed (uint b)\<bar>))) = uint (signed_quot a b)" for a b :: word256
  proof (cases "b = 0")
    case True
    then show ?thesis by (simp add: to_signed_0 signed_quot_def signed_divide_int_def)
  next
    case False
    then have "1 \<le> \<bar>sint b\<bar>" using sint_zero [of b] by linarith
    then have "0 \<le> \<bar>sint a\<bar> div \<bar>sint b\<bar>" "\<bar>sint a\<bar> div \<bar>sint b\<bar> \<le> 2 ^ 255"
      using abs_sint_le [of a] zdiv_mono2 [of "\<bar>sint a\<bar>" 1 "\<bar>sint b\<bar>"]
      by (simp_all add: pos_imp_zdiv_nonneg_iff)
    from to_unsigned_sign [OF this, of "(sint a < 0) \<noteq> (sint b < 0)"] sdiv_sign [of "sint a" "sint b"] False show ?thesis
      by (simp only: to_signed_sint sint_zero signed_quot_def if_False)
  qed
  show ?thesis
    unfolding op_sdiv_def Let_def push_unsigned_if
    by (rule computes2I, rule exI, rule conjI, rule refl, rule wrap_small, rule word)
qed

lemma computes_smod [computes_rules]: "computes2 op_smod signed_rem"
proof -
  have word: "(if to_signed (uint b) = 0 then 0
       else to_unsigned ((if to_signed (uint a) < 0 then -1 else 1)
         * (\<bar>to_signed (uint a)\<bar> mod \<bar>to_signed (uint b)\<bar>))) = uint (signed_rem a b)" for a b :: word256
  proof (cases "b = 0")
    case True
    then show ?thesis by (simp add: to_signed_0 signed_rem_def)
  next
    case False
    have "0 \<le> \<bar>sint a\<bar> mod \<bar>sint b\<bar>" "\<bar>sint a\<bar> mod \<bar>sint b\<bar> \<le> 2 ^ 255"
      using False abs_sint_le [of a] zmod_le_nonneg_dividend [of "\<bar>sint a\<bar>" "\<bar>sint b\<bar>"]
      by (simp_all add: sint_zero)
    from to_unsigned_sign [OF this, of "sint a < 0"] smod_sign [of "sint a" "sint b"] False show ?thesis
      by (simp only: to_signed_sint sint_zero signed_rem_def if_False)
  qed
  show ?thesis
    unfolding op_smod_def Let_def push_unsigned_if
    by (rule computes2I, rule exI, rule conjI, rule refl, rule wrap_small, rule word)
qed

section \<open>Properties\<close>


end
