(* ===== verification/Erc20.thy ===== *)
theory Erc20
  imports PyDict Complex_Main
begin

text \<open>
  \<open>src/xai/core/contracts/erc20.py\<close>: the ERC20 token with its owner, pause, permit and
  serialisation, and the factory that deploys tokens. A method of \<open>ERC20Token\<close> is a method
  on the record \<open>erc20\<close>; an event keeps its kind, its two addresses and its value (the
  time, block and transaction fields are for display). The clock and the hash are arguments.
\<close>

section \<open>State\<close>

datatype event_type = TransferEvent | ApprovalEvent

record token_event =
  ev_type :: event_type
  ev_from :: string
  ev_to :: string
  ev_value :: int

record erc20 =
  tk_name :: string
  tk_symbol :: string
  tk_decimals :: int
  total_supply :: int
  tk_address :: string
  tk_owner :: string
  balances :: "(string \<times> int) list"
  allowances :: "(string \<times> (string \<times> int) list) list"
  tk_nonces :: "(string \<times> int) list"
  events :: "token_event list"
  max_supply :: int
  paused :: bool

definition TOKEN_UINT256_MAX :: int where "TOKEN_UINT256_MAX = 2 ^ 256 - 1"

text \<open>
  The constructor with \<open>__post_init__\<close>: a token without an address gets one from the hash
  of its name, its symbol and the text of the time.
\<close>

definition new_token ::
    "(byte list \<Rightarrow> byte list) \<Rightarrow> string \<Rightarrow> string \<Rightarrow> string \<Rightarrow> int \<Rightarrow> int \<Rightarrow> string \<Rightarrow> string \<Rightarrow> int \<Rightarrow> bool \<Rightarrow> erc20" where
  "new_token sha3 now_text nm symbol decimals supply addr own cap is_paused =
     (let h = sha3 (utf8 (nm @ symbol @ now_text))
      in \<lparr>tk_name = nm, tk_symbol = symbol, tk_decimals = decimals, total_supply = supply,
          tk_address = (if addr = [] then ''0x'' @ hex_of_bytes (drop (length h - 20) h) else addr),
          tk_owner = own, balances = [], allowances = [], tk_nonces = [], events = [],
          max_supply = cap, paused = is_paused\<rparr>)"

section \<open>Helpers and views\<close>

definition normalize_addr :: "string \<Rightarrow> string" where "normalize_addr a = to_lower a"

definition validate_address :: "string \<Rightarrow> (erc20, unit) meth" where
  "validate_address a = raise_if (\<lambda>_. a = ZERO_ADDRESS \<or> a = []) (VMExecutionError ZeroAddress)"

definition validate_amount :: "int \<Rightarrow> (erc20, unit) meth" where
  "validate_amount amount =
     and_then (raise_if (\<lambda>_. amount < 0) (VMExecutionError InvalidAmount)) (\<lambda>_.
     raise_if (\<lambda>_. amount > TOKEN_UINT256_MAX) (VMExecutionError InvalidAmount))"

definition require_owner :: "string \<Rightarrow> (erc20, unit) meth" where
  "require_owner who = raise_if (\<lambda>s. normalize_addr who \<noteq> normalize_addr (tk_owner s)) (VMExecutionError CallerNotOwner)"

definition require_not_paused :: "(erc20, unit) meth" where
  "require_not_paused = raise_if paused (VMExecutionError TokenPaused)"

definition emit_event :: "event_type \<Rightarrow> string \<Rightarrow> string \<Rightarrow> int \<Rightarrow> (erc20, unit) meth" where
  "emit_event kind a b v = modify (\<lambda>s. s\<lparr>events := events s @ [\<lparr>ev_type = kind, ev_from = a, ev_to = b, ev_value = v\<rparr>]\<rparr>)"

definition balance_of :: "string \<Rightarrow> erc20 \<Rightarrow> int" where
  "balance_of account s = dict_get (balances s) (normalize_addr account) 0"

definition allowance :: "string \<Rightarrow> string \<Rightarrow> erc20 \<Rightarrow> int" where
  "allowance own spender s =
     dict_get (dict_get (allowances s) (normalize_addr own) []) (normalize_addr spender) 0"

definition erc20_nonce :: "string \<Rightarrow> erc20 \<Rightarrow> int" where
  "erc20_nonce own s = dict_get (tk_nonces s) (normalize_addr own) 0"

text \<open>The stores on the dicts; the last two differ where the owner has no dict of allowances yet.\<close>

definition put_balance :: "string \<Rightarrow> (erc20 \<Rightarrow> int) \<Rightarrow> (erc20, unit) meth" where
  "put_balance a v = modify (\<lambda>s. s\<lparr>balances := AList.update a (v s) (balances s)\<rparr>)"

definition add_supply :: "int \<Rightarrow> (erc20, unit) meth" where
  "add_supply n = modify (\<lambda>s. s\<lparr>total_supply := total_supply s + n\<rparr>)"

definition put_allowance :: "string \<Rightarrow> string \<Rightarrow> int \<Rightarrow> (erc20, unit) meth" where
  "put_allowance a b v = modify (\<lambda>s. s\<lparr>allowances :=
     AList.update a (AList.update b v (dict_get (allowances s) a [])) (allowances s)\<rparr>)"

definition change_allowance :: "string \<Rightarrow> string \<Rightarrow> int \<Rightarrow> (erc20, unit) meth" where
  "change_allowance a b v =
     and_then (raise_if (\<lambda>s. map_of (allowances s) a = None) KeyError) (\<lambda>_. put_allowance a b v)"

section \<open>Operations\<close>

definition erc20_transfer :: "string \<Rightarrow> string \<Rightarrow> int \<Rightarrow> (erc20, bool) meth" where
  "erc20_transfer sender recipient amount =
     and_then require_not_paused (\<lambda>_.
     let sender_norm = normalize_addr sender; recipient_norm = normalize_addr recipient in
     and_then (validate_address recipient_norm) (\<lambda>_.
     and_then (validate_amount amount) (\<lambda>_.
     and_then (reads (\<lambda>s. dict_get (balances s) sender_norm 0)) (\<lambda>sender_balance.
     and_then (raise_if (\<lambda>_. sender_balance < amount) (VMExecutionError InsufficientBalance)) (\<lambda>_.
     and_then (put_balance sender_norm (\<lambda>_. sender_balance - amount)) (\<lambda>_.
     and_then (put_balance recipient_norm (\<lambda>s. dict_get (balances s) recipient_norm 0 + amount)) (\<lambda>_.
     and_then (emit_event TransferEvent sender_norm recipient_norm amount) (\<lambda>_. ret True))))))))"

definition approve :: "string \<Rightarrow> string \<Rightarrow> int \<Rightarrow> (erc20, bool) meth" where
  "approve own spender amount =
     and_then require_not_paused (\<lambda>_.
     let owner_norm = normalize_addr own; spender_norm = normalize_addr spender in
     and_then (validate_address spender_norm) (\<lambda>_.
     and_then (validate_amount amount) (\<lambda>_.
     and_then (put_allowance owner_norm spender_norm amount) (\<lambda>_.
     and_then (emit_event ApprovalEvent owner_norm spender_norm amount) (\<lambda>_. ret True)))))"

definition spend_allowance :: "string \<Rightarrow> string \<Rightarrow> int \<Rightarrow> int \<Rightarrow> (erc20, unit) meth" where
  "spend_allowance from_norm spender_norm current_allowance amount =
     (if current_allowance \<noteq> TOKEN_UINT256_MAX
      then change_allowance from_norm spender_norm (current_allowance - amount) else ret ())"

definition erc20_transfer_from :: "string \<Rightarrow> string \<Rightarrow> string \<Rightarrow> int \<Rightarrow> (erc20, bool) meth" where
  "erc20_transfer_from spender from_addr to_addr amount =
     and_then require_not_paused (\<lambda>_.
     let spender_norm = normalize_addr spender; from_norm = normalize_addr from_addr; to_norm = normalize_addr to_addr in
     and_then (validate_address to_norm) (\<lambda>_.
     and_then (validate_amount amount) (\<lambda>_.
     and_then (reads (allowance from_norm spender_norm)) (\<lambda>current_allowance.
     and_then (raise_if (\<lambda>_. current_allowance < amount) (VMExecutionError InsufficientAllowance)) (\<lambda>_.
     and_then (reads (\<lambda>s. dict_get (balances s) from_norm 0)) (\<lambda>from_balance.
     and_then (raise_if (\<lambda>_. from_balance < amount) (VMExecutionError InsufficientBalance)) (\<lambda>_.
     and_then (spend_allowance from_norm spender_norm current_allowance amount) (\<lambda>_.
     and_then (put_balance from_norm (\<lambda>_. from_balance - amount)) (\<lambda>_.
     and_then (put_balance to_norm (\<lambda>s. dict_get (balances s) to_norm 0 + amount)) (\<lambda>_.
     and_then (emit_event TransferEvent from_norm to_norm amount) (\<lambda>_. ret True)))))))))))"

definition increase_allowance :: "string \<Rightarrow> string \<Rightarrow> int \<Rightarrow> (erc20, bool) meth" where
  "increase_allowance own spender added_value =
     and_then (reads (allowance own spender)) (\<lambda>current.
     let new_allowance = current + added_value in
     approve own spender (if new_allowance > TOKEN_UINT256_MAX then TOKEN_UINT256_MAX else new_allowance))"

definition decrease_allowance :: "string \<Rightarrow> string \<Rightarrow> int \<Rightarrow> (erc20, bool) meth" where
  "decrease_allowance own spender subtracted_value =
     and_then (reads (allowance own spender)) (\<lambda>current.
     and_then (raise_if (\<lambda>_. subtracted_value > current) (VMExecutionError InsufficientAllowance)) (\<lambda>_.
     approve own spender (current - subtracted_value)))"

definition mint :: "string \<Rightarrow> string \<Rightarrow> int \<Rightarrow> (erc20, bool) meth" where
  "mint minter recipient amount =
     and_then require_not_paused (\<lambda>_.
     and_then (require_owner minter) (\<lambda>_.
     let to_norm = normalize_addr recipient in
     and_then (validate_address to_norm) (\<lambda>_.
     and_then (validate_amount amount) (\<lambda>_.
     and_then (raise_if (\<lambda>s. max_supply s > 0 \<and> total_supply s + amount > max_supply s)
        (VMExecutionError SupplyCapExceeded)) (\<lambda>_.
     and_then (add_supply amount) (\<lambda>_.
     and_then (put_balance to_norm (\<lambda>s. dict_get (balances s) to_norm 0 + amount)) (\<lambda>_.
     and_then (emit_event TransferEvent ZERO_ADDRESS to_norm amount) (\<lambda>_. ret True))))))))"

definition burn :: "string \<Rightarrow> int \<Rightarrow> (erc20, bool) meth" where
  "burn holder amount =
     and_then require_not_paused (\<lambda>_.
     let holder_norm = normalize_addr holder in
     and_then (validate_amount amount) (\<lambda>_.
     and_then (reads (\<lambda>s. dict_get (balances s) holder_norm 0)) (\<lambda>balance.
     and_then (raise_if (\<lambda>_. balance < amount) (VMExecutionError InsufficientBalance)) (\<lambda>_.
     and_then (put_balance holder_norm (\<lambda>_. balance - amount)) (\<lambda>_.
     and_then (add_supply (- amount)) (\<lambda>_.
     and_then (emit_event TransferEvent holder_norm ZERO_ADDRESS amount) (\<lambda>_. ret True)))))))"

text \<open>\<open>burn_from\<close> does not validate the amount.\<close>

definition burn_from :: "string \<Rightarrow> string \<Rightarrow> int \<Rightarrow> (erc20, bool) meth" where
  "burn_from spender from_addr amount =
     and_then require_not_paused (\<lambda>_.
     let spender_norm = normalize_addr spender; from_norm = normalize_addr from_addr in
     and_then (reads (allowance from_norm spender_norm)) (\<lambda>current_allowance.
     and_then (raise_if (\<lambda>_. current_allowance < amount) (VMExecutionError InsufficientAllowance)) (\<lambda>_.
     and_then (spend_allowance from_norm spender_norm current_allowance amount) (\<lambda>_.
     and_then (reads (\<lambda>s. dict_get (balances s) from_norm 0)) (\<lambda>balance.
     and_then (raise_if (\<lambda>_. balance < amount) (VMExecutionError InsufficientBalance)) (\<lambda>_.
     and_then (put_balance from_norm (\<lambda>_. balance - amount)) (\<lambda>_.
     and_then (add_supply (- amount)) (\<lambda>_.
     and_then (emit_event TransferEvent from_norm ZERO_ADDRESS amount) (\<lambda>_. ret True)))))))))"

text \<open>
  The signature is not checked: \<open>v\<close>, \<open>r\<close> and \<open>s\<close> only go into a message hash that
  nothing reads.
\<close>

definition permit :: "rat \<Rightarrow> string \<Rightarrow> string \<Rightarrow> int \<Rightarrow> int \<Rightarrow> (erc20, bool) meth" where
  "permit now own spender value deadline =
     and_then (raise_if (\<lambda>_. of_int deadline < now) (VMExecutionError PermitExpired)) (\<lambda>_.
     let owner_norm = normalize_addr own; spender_norm = normalize_addr spender in
     and_then (reads (\<lambda>s. dict_get (tk_nonces s) owner_norm 0)) (\<lambda>nonce.
     and_then (modify (\<lambda>s. s\<lparr>tk_nonces := AList.update owner_norm (nonce + 1) (tk_nonces s)\<rparr>)) (\<lambda>_.
     and_then (put_allowance owner_norm spender_norm value) (\<lambda>_.
     and_then (emit_event ApprovalEvent owner_norm spender_norm value) (\<lambda>_. ret True)))))"

definition set_paused :: "bool \<Rightarrow> string \<Rightarrow> (erc20, bool) meth" where
  "set_paused b who =
     and_then (require_owner who) (\<lambda>_. and_then (modify (\<lambda>s. s\<lparr>paused := b\<rparr>)) (\<lambda>_. ret True))"

text \<open>The zero address is tested before the address is normalised.\<close>

definition transfer_ownership :: "string \<Rightarrow> string \<Rightarrow> (erc20, bool) meth" where
  "transfer_ownership who new_owner =
     and_then (require_owner who) (\<lambda>_.
     and_then (validate_address new_owner) (\<lambda>_.
     and_then (modify (\<lambda>s. s\<lparr>tk_owner := normalize_addr new_owner\<rparr>)) (\<lambda>_. ret True)))"


section \<open>Serialisation\<close>

text \<open>\<open>erc20_to_dict\<close>: an absent key is \<open>None\<close>; \<open>name\<close> and \<open>symbol\<close> are read without a default.\<close>

record erc20_dict =
  d_name :: "string option"
  d_symbol :: "string option"
  d_decimals :: "int option"
  d_total_supply :: "int option"
  d_address :: "string option"
  d_owner :: "string option"
  d_balances :: "(string \<times> int) list option"
  d_allowances :: "(string \<times> (string \<times> int) list) list option"
  d_nonces :: "(string \<times> int) list option"
  d_max_supply :: "int option"
  d_paused :: "bool option"

definition erc20_to_dict :: "erc20 \<Rightarrow> erc20_dict" where
  "erc20_to_dict s = \<lparr>d_name = Some (tk_name s), d_symbol = Some (tk_symbol s), d_decimals = Some (tk_decimals s),
     d_total_supply = Some (total_supply s), d_address = Some (tk_address s), d_owner = Some (tk_owner s),
     d_balances = Some (balances s), d_allowances = Some (allowances s), d_nonces = Some (tk_nonces s),
     d_max_supply = Some (max_supply s), d_paused = Some (paused s)\<rparr>"

definition get_or :: "'a option \<Rightarrow> 'a \<Rightarrow> 'a" where
  "get_or x d = (case x of None \<Rightarrow> d | Some v \<Rightarrow> v)"

definition erc20_from_dict :: "(byte list \<Rightarrow> byte list) \<Rightarrow> string \<Rightarrow> erc20_dict \<Rightarrow> exn + erc20" where
  "erc20_from_dict sha3 now_text d =
     (case (d_name d, d_symbol d) of
        (Some nm, Some symbol) \<Rightarrow>
          Inr ((new_token sha3 now_text nm symbol (get_or (d_decimals d) 18) (get_or (d_total_supply d) 0)
                 (get_or (d_address d) []) (get_or (d_owner d) []) (get_or (d_max_supply d) 0)
                 (get_or (d_paused d) False))
               \<lparr>balances := get_or (d_balances d) [], allowances := get_or (d_allowances d) [],
                tk_nonces := get_or (d_nonces d) []\<rparr>)
      | _ \<Rightarrow> Inl KeyError)"

section \<open>Factory\<close>

text \<open>
  The registry is \<open>blockchain.contracts\<close> (\<open>None\<close> where the factory has no blockchain), of
  which the factory reads the type and the data of an entry.
\<close>

record token_entry =
  te_type :: string
  te_data :: erc20_dict

record factory =
  deployed_tokens :: "(string \<times> erc20) list"
  registry :: "(string \<times> token_entry) list option"

definition create_token ::
    "(byte list \<Rightarrow> byte list) \<Rightarrow> string \<Rightarrow> string \<Rightarrow> string \<Rightarrow> string \<Rightarrow> int \<Rightarrow> int \<Rightarrow> int \<Rightarrow> string option \<Rightarrow>
     (factory, erc20) meth" where
  "create_token sha3 now_text creator nm symbol decimals initial_supply cap mint_to =
     and_then (raise_if (\<lambda>_. nm = [] \<or> symbol = [] \<or> decimals < 0 \<or> decimals > 18
        \<or> initial_supply < 0 \<or> cap < 0) (VMExecutionError InvalidMetadata)) (\<lambda>_.
     and_then (raise_if (\<lambda>_. cap > 0 \<and> initial_supply > cap) (VMExecutionError SupplyCapExceeded)) (\<lambda>_.
     let token = new_token sha3 now_text nm symbol decimals 0 [] creator cap False;
         recipient = (case mint_to of Some a \<Rightarrow> if a = [] then creator else a | None \<Rightarrow> creator)
     in and_then (lift_result (if initial_supply > 0
          then (case mint creator recipient initial_supply token of (r, t) \<Rightarrow> map_sum id (\<lambda>_. t) r)
          else Inr token)) (\<lambda>token.
        and_then (modify (\<lambda>f. f\<lparr>deployed_tokens := AList.update (tk_address token) token (deployed_tokens f),
          registry := map_option (AList.update (to_upper (tk_address token))
            \<lparr>te_type = ''ERC20'', te_data = erc20_to_dict token\<rparr>) (registry f)\<rparr>)) (\<lambda>_.
        ret token))))"

definition get_token ::
    "(byte list \<Rightarrow> byte list) \<Rightarrow> string \<Rightarrow> string \<Rightarrow> (factory, erc20 option) meth" where
  "get_token sha3 now_text a f =
     (case map_of (deployed_tokens f) (to_lower a) of
        Some t \<Rightarrow> (Inr (Some t), f)
      | None \<Rightarrow>
          (case registry f of
             None \<Rightarrow> (Inr None, f)
           | Some reg \<Rightarrow>
               (case map_of reg (to_upper a) of
                  None \<Rightarrow> (Inr None, f)
                | Some entry \<Rightarrow>
                    if te_type entry = ''ERC20''
                    then (case erc20_from_dict sha3 now_text (te_data entry) of
                            Inl e \<Rightarrow> (Inl e, f)
                          | Inr t \<Rightarrow> (Inr (Some t),
                              f\<lparr>deployed_tokens := AList.update (to_lower a) t (deployed_tokens f)\<rparr>))
                    else (Inr None, f))))"

section \<open>Sequences of operations\<close>

datatype erc20_op =
    Transfer string string int
  | Approve string string int
  | TransferFrom string string string int
  | IncreaseAllowance string string int
  | DecreaseAllowance string string int
  | Mint string string int
  | Burn string int
  | BurnFrom string string int
  | Permit rat string string int int
  | Pause string
  | Unpause string
  | TransferOwnership string string

primrec run_op :: "erc20_op \<Rightarrow> (erc20, bool) meth" where
  "run_op (Transfer a b n) = erc20_transfer a b n"
| "run_op (Approve a b n) = approve a b n"
| "run_op (TransferFrom a b c n) = erc20_transfer_from a b c n"
| "run_op (IncreaseAllowance a b n) = increase_allowance a b n"
| "run_op (DecreaseAllowance a b n) = decrease_allowance a b n"
| "run_op (Mint a b n) = mint a b n"
| "run_op (Burn a n) = burn a n"
| "run_op (BurnFrom a b n) = burn_from a b n"
| "run_op (Permit t a b n d) = permit t a b n d"
| "run_op (Pause a) = set_paused True a"
| "run_op (Unpause a) = set_paused False a"
| "run_op (TransferOwnership a b) = transfer_ownership a b"

text \<open>The token after a list of operations, some of which may raise.\<close>

definition run_ops :: "erc20_op list \<Rightarrow> erc20 \<Rightarrow> erc20" where
  "run_ops ops s = fold (\<lambda>op t. snd (run_op op t)) ops s"

text \<open>The caller's part: no negative amount goes into \<open>burn_from\<close>.\<close>

primrec burns_properly :: "erc20_op \<Rightarrow> bool" where
  "burns_properly (Transfer a b n) = True"
| "burns_properly (Approve a b n) = True"
| "burns_properly (TransferFrom a b c n) = True"
| "burns_properly (IncreaseAllowance a b n) = True"
| "burns_properly (DecreaseAllowance a b n) = True"
| "burns_properly (Mint a b n) = True"
| "burns_properly (Burn a n) = True"
| "burns_properly (BurnFrom a b n) = (0 \<le> n)"
| "burns_properly (Permit t a b n d) = True"
| "burns_properly (Pause a) = True"
| "burns_properly (Unpause a) = True"
| "burns_properly (TransferOwnership a b) = True"

section \<open>The invariant\<close>

definition wf_token :: "erc20 \<Rightarrow> bool" where
  "wf_token s \<longleftrightarrow> wf_dict (balances s) \<and> non_negative (balances s)
     \<and> dict_total (balances s) = total_supply s \<and> (max_supply s > 0 \<longrightarrow> total_supply s \<le> max_supply s)"

lemmas erc20_methods = require_not_paused_def require_owner_def validate_address_def validate_amount_def
  emit_event_def put_balance_def add_supply_def put_allowance_def change_allowance_def spend_allowance_def

text \<open>
  What the operations do when no guard stops them: move an amount between two balances, and
  change one balance and the supply by the same amount.
\<close>

definition add_event :: "event_type \<Rightarrow> string \<Rightarrow> string \<Rightarrow> int \<Rightarrow> erc20 \<Rightarrow> erc20" where
  "add_event kind a b v s = s\<lparr>events := events s @ [\<lparr>ev_type = kind, ev_from = a, ev_to = b, ev_value = v\<rparr>]\<rparr>"

definition add_balance :: "string \<Rightarrow> int \<Rightarrow> erc20 \<Rightarrow> erc20" where
  "add_balance a n s = s\<lparr>balances := AList.update a (dict_get (balances s) a 0 + n) (balances s)\<rparr>"

definition change_supply :: "string \<Rightarrow> int \<Rightarrow> erc20 \<Rightarrow> erc20" where
  "change_supply a n s = (add_balance a n s)\<lparr>total_supply := total_supply s + n\<rparr>"

definition set_allowance :: "string \<Rightarrow> string \<Rightarrow> int \<Rightarrow> erc20 \<Rightarrow> erc20" where
  "set_allowance a b v s =
     s\<lparr>allowances := AList.update a (AList.update b v (dict_get (allowances s) a [])) (allowances s)\<rparr>"

text \<open>The allowance after a spender has used \<open>n\<close> of it; \<open>2 ^ 256 - 1\<close> stands for no limit.\<close>

definition use_allowance :: "string \<Rightarrow> string \<Rightarrow> int \<Rightarrow> erc20 \<Rightarrow> erc20" where
  "use_allowance a b n s =
     (if allowance a b s = TOKEN_UINT256_MAX then s else set_allowance a b (allowance a b s - n) s)"

lemmas erc20_evals = erc20_methods meth_simps Let_def

lemma erc20_transfer_run: "erc20_transfer a b n s =
   (if paused s then (Inl (VMExecutionError TokenPaused), s)
    else if normalize_addr b \<in> {ZERO_ADDRESS, []} then (Inl (VMExecutionError ZeroAddress), s)
    else if n < 0 \<or> n > TOKEN_UINT256_MAX then (Inl (VMExecutionError InvalidAmount), s)
    else if balance_of a s < n then (Inl (VMExecutionError InsufficientBalance), s)
    else (Inr True, add_event TransferEvent (normalize_addr a) (normalize_addr b) n
            (add_balance (normalize_addr b) n (add_balance (normalize_addr a) (- n) s))))"
  by (simp add: erc20_transfer_def erc20_evals add_event_def add_balance_def balance_of_def)

lemma approve_run: "approve a b n s =
   (if paused s then (Inl (VMExecutionError TokenPaused), s)
    else if normalize_addr b \<in> {ZERO_ADDRESS, []} then (Inl (VMExecutionError ZeroAddress), s)
    else if n < 0 \<or> n > TOKEN_UINT256_MAX then (Inl (VMExecutionError InvalidAmount), s)
    else (Inr True, add_event ApprovalEvent (normalize_addr a) (normalize_addr b) n (set_allowance (normalize_addr a) (normalize_addr b) n s)))"
  by (simp add: approve_def erc20_evals add_event_def set_allowance_def)

lemma spend_allowance_run:
  "spend_allowance (normalize_addr a) (normalize_addr b) (allowance a b s) n s =
     (if allowance a b s \<noteq> TOKEN_UINT256_MAX \<and> map_of (allowances s) (normalize_addr a) = None
      then (Inl KeyError, s) else (Inr (), use_allowance (normalize_addr a) (normalize_addr b) n s))"
  by (simp add: spend_allowance_def change_allowance_def put_allowance_def meth_simps use_allowance_def
      set_allowance_def allowance_def normalize_addr_def)

lemma normalize_idem [simp]: "normalize_addr (normalize_addr a) = normalize_addr a"
  by (simp add: normalize_addr_def)

lemma views_normalize [simp]:
  "allowance (normalize_addr a) b s = allowance a b s" "allowance a (normalize_addr b) s = allowance a b s"
  "balance_of (normalize_addr a) s = balance_of a s"
  by (simp_all add: allowance_def balance_of_def)

lemma use_allowance_frame [simp]:
  "balances (use_allowance a b n s) = balances s" "total_supply (use_allowance a b n s) = total_supply s"
  "max_supply (use_allowance a b n s) = max_supply s"
  by (simp_all add: use_allowance_def set_allowance_def)

lemma erc20_transfer_from_run: "erc20_transfer_from a b c n s =
   (if paused s then (Inl (VMExecutionError TokenPaused), s)
    else if normalize_addr c \<in> {ZERO_ADDRESS, []} then (Inl (VMExecutionError ZeroAddress), s)
    else if n < 0 \<or> n > TOKEN_UINT256_MAX then (Inl (VMExecutionError InvalidAmount), s)
    else if allowance b a s < n then (Inl (VMExecutionError InsufficientAllowance), s)
    else if balance_of b s < n then (Inl (VMExecutionError InsufficientBalance), s)
    else if allowance b a s \<noteq> TOKEN_UINT256_MAX \<and> map_of (allowances s) (normalize_addr b) = None then (Inl KeyError, s)
    else (Inr True, add_event TransferEvent (normalize_addr b) (normalize_addr c) n
            (add_balance (normalize_addr c) n (add_balance (normalize_addr b) (- n)
              (use_allowance (normalize_addr b) (normalize_addr a) n s)))))"
  unfolding erc20_transfer_from_def require_not_paused_def validate_address_def validate_amount_def
    put_balance_def emit_event_def Let_def
  by (simp add: meth_simps spend_allowance_run add_event_def add_balance_def balance_of_def)

lemma mint_run: "mint a b n s =
   (if paused s then (Inl (VMExecutionError TokenPaused), s)
    else if normalize_addr a \<noteq> normalize_addr (tk_owner s) then (Inl (VMExecutionError CallerNotOwner), s)
    else if normalize_addr b \<in> {ZERO_ADDRESS, []} then (Inl (VMExecutionError ZeroAddress), s)
    else if n < 0 \<or> n > TOKEN_UINT256_MAX then (Inl (VMExecutionError InvalidAmount), s)
    else if max_supply s > 0 \<and> total_supply s + n > max_supply s then (Inl (VMExecutionError SupplyCapExceeded), s)
    else (Inr True, add_event TransferEvent ZERO_ADDRESS (normalize_addr b) n (change_supply (normalize_addr b) n s)))"
  by (simp add: mint_def erc20_evals add_event_def change_supply_def add_balance_def)

lemma burn_run: "burn a n s =
   (if paused s then (Inl (VMExecutionError TokenPaused), s)
    else if n < 0 \<or> n > TOKEN_UINT256_MAX then (Inl (VMExecutionError InvalidAmount), s)
    else if balance_of a s < n then (Inl (VMExecutionError InsufficientBalance), s)
    else (Inr True, add_event TransferEvent (normalize_addr a) ZERO_ADDRESS n (change_supply (normalize_addr a) (- n) s)))"
  by (simp add: burn_def erc20_evals add_event_def change_supply_def add_balance_def balance_of_def)

lemma burn_from_run: "burn_from a b n s =
   (if paused s then (Inl (VMExecutionError TokenPaused), s)
    else if allowance b a s < n then (Inl (VMExecutionError InsufficientAllowance), s)
    else if allowance b a s \<noteq> TOKEN_UINT256_MAX \<and> map_of (allowances s) (normalize_addr b) = None then (Inl KeyError, s)
    else let t = use_allowance (normalize_addr b) (normalize_addr a) n s in
      if balance_of b s < n then (Inl (VMExecutionError InsufficientBalance), t)
      else (Inr True, add_event TransferEvent (normalize_addr b) ZERO_ADDRESS n (change_supply (normalize_addr b) (- n) t)))"
  unfolding burn_from_def require_not_paused_def put_balance_def add_supply_def emit_event_def
  by (simp add: meth_simps Let_def spend_allowance_run add_event_def change_supply_def add_balance_def balance_of_def)

text \<open>Each of these steps keeps the invariant.\<close>

lemma wf_token_steps:
  "wf_token (add_event k a b v s) = wf_token s" "wf_token (set_allowance a b v s) = wf_token s"
  "wf_token (use_allowance a b v s) = wf_token s" "wf_token (s\<lparr>paused := p\<rparr>) = wf_token s"
  "wf_token (s\<lparr>tk_owner := w\<rparr>) = wf_token s" "wf_token (s\<lparr>tk_nonces := ns\<rparr>) = wf_token s"
  by (simp_all add: wf_token_def add_event_def set_allowance_def use_allowance_def)

lemma wf_change_supply:
  assumes "wf_token s" and "0 \<le> dict_get (balances s) a 0 + n"
    and "max_supply s > 0 \<longrightarrow> total_supply s + n \<le> max_supply s"
  shows "wf_token (change_supply a n s)"
  using assms
  by (auto simp: wf_token_def change_supply_def add_balance_def dict_total_update wf_dict_update
      intro!: non_negative_update)

lemma wf_move:
  assumes "wf_token s" and "0 \<le> n" and "n \<le> dict_get (balances s) a 0"
  shows "wf_token (add_balance b n (add_balance a (- n) s))"
  using assms
  by (auto simp: wf_token_def add_balance_def dict_total_update wf_dict_update
      intro!: non_negative_update add_nonneg_nonneg dest: non_negativeD)

lemma wf_run_op:
  assumes "wf_token s" and "burns_properly op"
  shows "wf_token (snd (run_op op s))"
proof (cases op)
  case (BurnFrom a b n)
  have "max_supply s > 0 \<longrightarrow> total_supply s \<le> max_supply s" using assms(1) by (simp add: wf_token_def)
  with BurnFrom assms show ?thesis
    by (auto simp: burn_from_run Let_def wf_token_steps balance_of_def intro!: wf_change_supply)
next
  case (Burn a n)
  have "max_supply s > 0 \<longrightarrow> total_supply s \<le> max_supply s" using assms(1) by (simp add: wf_token_def)
  with Burn assms show ?thesis by (auto simp: burn_run wf_token_steps balance_of_def intro!: wf_change_supply)
next
  case (Mint a b n)
  have "non_negative (balances s)" using assms(1) by (simp add: wf_token_def)
  from non_negativeD [OF this] Mint assms show ?thesis
    by (auto simp: mint_run wf_token_steps intro!: wf_change_supply)
qed (use assms in \<open>simp_all add: erc20_transfer_run approve_run erc20_transfer_from_run increase_allowance_def decrease_allowance_def
      permit_def put_allowance_def set_paused_def transfer_ownership_def require_owner_def validate_address_def emit_event_def
      meth_simps Let_def wf_token_steps balance_of_def wf_move flip: set_allowance_def add_event_def\<close>)

lemma wf_run_ops: "wf_token s \<Longrightarrow> list_all burns_properly ops \<Longrightarrow> wf_token (run_ops ops s)"
  unfolding run_ops_def by (induction ops arbitrary: s) (simp_all add: wf_run_op)

lemma run_op_cap: "max_supply (snd (run_op op s)) = max_supply s"
  by (cases op) (simp_all add: erc20_transfer_run approve_run erc20_transfer_from_run mint_run burn_run burn_from_run
      increase_allowance_def decrease_allowance_def permit_def put_allowance_def set_paused_def transfer_ownership_def
      require_owner_def validate_address_def emit_event_def meth_simps Let_def change_supply_def add_balance_def
      add_event_def set_allowance_def)

lemma run_ops_cap: "max_supply (run_ops ops s) = max_supply s"
  unfolding run_ops_def by (induction ops arbitrary: s) (simp_all add: run_op_cap)

lemma wf_new_token: "wf_token (new_token sha3 now_text nm symbol decimals 0 [] own cap False)"
  and new_token_cap: "max_supply (new_token sha3 now_text nm symbol decimals supply addr own cap p) = cap"
  by (simp_all add: wf_token_def new_token_def Let_def wf_dict_def non_negative_def dict_total_def)

lemma create_token_wf:
  assumes "create_token sha3 now_text creator nm symbol decimals initial_supply cap mint_to f = (Inr tok, f')"
  shows "wf_token tok \<and> max_supply tok = cap"
proof (cases "initial_supply > 0")
  case True
  let ?new = "new_token sha3 now_text nm symbol decimals 0 [] creator cap False"
  from assms True obtain to r where "mint creator to initial_supply ?new = (Inr r, tok)"
    by (auto simp: create_token_def meth_simps Let_def map_sum_Inr split: if_splits prod.splits sum.splits)
  then have tok: "tok = snd (run_op (Mint creator to initial_supply) ?new)" by simp
  show ?thesis
    unfolding tok by (simp only: run_op_cap new_token_cap) (rule conjI [OF wf_run_op [OF wf_new_token] refl], simp)
next
  case False
  with assms show ?thesis
    by (auto simp: create_token_def meth_simps Let_def wf_new_token new_token_cap split: if_splits)
qed

section \<open>Who can lower a balance\<close>

lemma balance_after:
  "balance_of a (add_event k x y v s) = balance_of a s"
  "balance_of a (set_allowance x y v s) = balance_of a s"
  "balance_of a (use_allowance x y v s) = balance_of a s"
  "balance_of a (add_balance x n s) = balance_of a s + (if normalize_addr a = x then n else 0)"
  "balance_of a (change_supply x n s) = balance_of a s + (if normalize_addr a = x then n else 0)"
  "balance_of a (s\<lparr>paused := p\<rparr>) = balance_of a s" "balance_of a (s\<lparr>tk_owner := w\<rparr>) = balance_of a s"
  "balance_of a (s\<lparr>tk_nonces := ns\<rparr>) = balance_of a s"
  by (auto simp: balance_of_def add_event_def set_allowance_def use_allowance_def add_balance_def change_supply_def)

lemma allowance_after:
  "allowance a b (add_event k x y v s) = allowance a b s"
  "allowance a b (add_balance x n s) = allowance a b s"
  "allowance a b (change_supply x n s) = allowance a b s"
  "allowance a b (use_allowance x y n s) = (if allowance x y s \<noteq> TOKEN_UINT256_MAX \<and> normalize_addr a = x \<and> normalize_addr b = y
     then allowance x y s - n else allowance a b s)"
  by (auto simp: allowance_def add_event_def set_allowance_def use_allowance_def add_balance_def change_supply_def)

definition owner_moves :: "string \<Rightarrow> int \<Rightarrow> erc20_op \<Rightarrow> bool" where
  "owner_moves a n op \<longleftrightarrow> (\<exists>x. normalize_addr x = normalize_addr a \<and> ((\<exists>c. op = Transfer x c n) \<or> op = Burn x n))"

definition spender_moves :: "string \<Rightarrow> string \<Rightarrow> int \<Rightarrow> erc20_op \<Rightarrow> bool" where
  "spender_moves a b n op \<longleftrightarrow>
     (\<exists>x. normalize_addr x = normalize_addr a \<and> ((\<exists>c. op = TransferFrom b x c n) \<or> op = BurnFrom b x n))"


lemma same_account:
  "normalize_addr x = normalize_addr a \<Longrightarrow> balance_of x s = balance_of a s"
  "normalize_addr x = normalize_addr a \<Longrightarrow> allowance x b s = allowance a b s"
  by (simp_all add: balance_of_def allowance_def)

section \<open>Properties\<close>

text \<open>
  C16: from the token the factory creates, whatever operations follow (none passing a negative
  amount to \<open>burn_from\<close>), the balances add up to the total supply, none is negative, and a
  supply cap is kept.
\<close>

theorem token_supply:
  assumes "create_token sha3 now_text creator nm symbol decimals initial_supply cap mint_to f = (Inr tok, f')"
    and "list_all burns_properly ops"
  shows "dict_total (balances (run_ops ops tok)) = total_supply (run_ops ops tok)
    \<and> 0 \<le> balance_of a (run_ops ops tok) \<and> (cap > 0 \<longrightarrow> total_supply (run_ops ops tok) \<le> cap)"
  using wf_run_ops [OF conjunct1 [OF create_token_wf [OF assms(1)]] assms(2)] create_token_wf [OF assms(1)]
  by (simp add: wf_token_def run_ops_cap balance_of_def non_negativeD)

theorem token_supply_witness:
  "let tok = snd (mint ''0xAA'' ''0xAA'' 100 (new_token (\<lambda>_. zeros 32) ''7'' ''Coin'' ''C'' 18 0 [] ''0xAA'' 1000 False));
       t = run_ops [Transfer ''0xAA'' ''0xBB'' 30, Mint ''0xAA'' ''0xBB'' 901, Burn ''0xBB'' 10] tok
   in dict_total (balances t) = 90 \<and> total_supply t = 90"
proof -
  let ?f = "\<lparr>deployed_tokens = [], registry = Some []\<rparr>"
  let ?c = "create_token (\<lambda>_. zeros 32) ''7'' ''0xAA'' ''Coin'' ''C'' 18 100 1000 None ?f"
  let ?tok = "snd (mint ''0xAA'' ''0xAA'' 100 (new_token (\<lambda>_. zeros 32) ''7'' ''Coin'' ''C'' 18 0 [] ''0xAA'' 1000 False))"
  let ?ops = "[Transfer ''0xAA'' ''0xBB'' 30, Mint ''0xAA'' ''0xBB'' 901, Burn ''0xBB'' 10]"
  have "fst ?c = Inr ?tok" by code_simp
  then have "?c = (Inr ?tok, snd ?c)" by (simp only: prod_eq_iff fst_conv snd_conv)
  from token_supply [OF this, of ?ops]
  have "dict_total (balances (run_ops ?ops ?tok)) = total_supply (run_ops ?ops ?tok)" by simp
  moreover have "total_supply (run_ops ?ops ?tok) = 90" by code_simp
  ultimately show ?thesis by (simp only: Let_def)
qed

text \<open>The operations in the name of a holder that set an allowance.\<close>

definition grants :: "string \<Rightarrow> string \<Rightarrow> erc20_op \<Rightarrow> bool" where
  "grants a b op \<longleftrightarrow> (\<exists>x y v. normalize_addr x = normalize_addr a \<and> normalize_addr y = normalize_addr b \<and>
     (op = Approve x y v \<or> op = IncreaseAllowance x y v \<or> op = DecreaseAllowance x y v \<or> (\<exists>now d. op = Permit now x y v d)))"

lemma allowance_set:
  "allowance a b (set_allowance x y v s) = (if normalize_addr a = x \<and> normalize_addr b = y then v else allowance a b s)"
  by (auto simp: allowance_def set_allowance_def)

lemma balance_falls:
  assumes "balance_of a (snd (run_op op s)) < balance_of a s"
  shows "\<exists>n. balance_of a (snd (run_op op s)) = balance_of a s - n \<and> n \<le> balance_of a s \<and>
    (owner_moves a n op \<or>
     (\<exists>b. spender_moves a b n op \<and> n \<le> allowance a b s \<and>
       (allowance a b s \<noteq> TOKEN_UINT256_MAX \<longrightarrow> allowance a b (snd (run_op op s)) = allowance a b s - n)))"
proof (cases op)
  case (Transfer x c n)
  with assms have x: "normalize_addr x = normalize_addr a"
    by (auto simp: erc20_transfer_run balance_after split: if_splits)
  from Transfer assms show ?thesis
    by (intro exI [of _ n] conjI disjI1)
      (auto simp: erc20_transfer_run balance_after owner_moves_def same_account [OF x] x split: if_splits)
next
  case (Burn x n)
  with assms have x: "normalize_addr x = normalize_addr a"
    by (auto simp: burn_run balance_after split: if_splits)
  from Burn assms show ?thesis
    by (intro exI [of _ n] conjI disjI1)
      (auto simp: burn_run balance_after owner_moves_def same_account [OF x] x split: if_splits)
next
  case (TransferFrom b x c n)
  with assms have x: "normalize_addr x = normalize_addr a"
    by (auto simp: erc20_transfer_from_run balance_after split: if_splits)
  from TransferFrom assms show ?thesis
    by (intro exI [of _ n] conjI disjI2 exI [of _ b])
      (auto simp: erc20_transfer_from_run balance_after allowance_after spender_moves_def same_account [OF x] x split: if_splits)
next
  case (BurnFrom b x n)
  with assms have x: "normalize_addr x = normalize_addr a"
    by (auto simp: burn_from_run Let_def balance_after split: if_splits)
  from BurnFrom assms show ?thesis
    by (intro exI [of _ n] conjI disjI2 exI [of _ b])
      (auto simp: burn_from_run Let_def balance_after allowance_after spender_moves_def same_account [OF x] x split: if_splits)
next
  case (Mint x y n)
  with assms show ?thesis by (auto simp: mint_run balance_after split: if_splits)
qed (use assms in \<open>auto simp: approve_run increase_allowance_def decrease_allowance_def
      permit_def put_allowance_def set_paused_def transfer_ownership_def require_owner_def validate_address_def emit_event_def
      meth_simps Let_def balance_after split: if_splits simp flip: set_allowance_def add_event_def\<close>)

lemma allowance_rises:
  assumes "allowance a b s < allowance a b (snd (run_op op s))"
  shows "grants a b op \<or> (\<exists>c x n. op = BurnFrom c x n \<and> n < 0)"
proof (cases op)
  case (Approve x y v)
  with assms have "normalize_addr x = normalize_addr a \<and> normalize_addr y = normalize_addr b"
    by (auto simp: approve_run allowance_after allowance_set split: if_splits)
  then show ?thesis using Approve by (auto simp: grants_def)
next
  case (IncreaseAllowance x y v)
  with assms have "normalize_addr x = normalize_addr a \<and> normalize_addr y = normalize_addr b"
    by (auto simp: increase_allowance_def approve_run allowance_after allowance_set meth_simps Let_def split: if_splits)
  then show ?thesis using IncreaseAllowance by (auto simp: grants_def)
next
  case (DecreaseAllowance x y v)
  with assms have "normalize_addr x = normalize_addr a \<and> normalize_addr y = normalize_addr b"
    by (auto simp: decrease_allowance_def approve_run allowance_after allowance_set meth_simps Let_def split: if_splits)
  then show ?thesis using DecreaseAllowance by (auto simp: grants_def)
next
  case (Permit now x y v d)
  have "normalize_addr x = normalize_addr a \<and> normalize_addr y = normalize_addr b"
  proof (rule ccontr)
    assume "\<not> ?thesis"
    then have "allowance a b (snd (permit now x y v d s)) = allowance a b s"
      by (auto simp: permit_def put_allowance_def emit_event_def meth_simps Let_def allowance_after allowance_set
          simp flip: set_allowance_def add_event_def) (auto simp: allowance_def)
    with assms Permit show False by simp
  qed
  then show ?thesis using Permit by (auto simp: grants_def)
next
  case (TransferFrom c x d n)
  with assms show ?thesis by (auto simp: erc20_transfer_from_run allowance_after split: if_splits) (simp add: allowance_def)
next
  case (BurnFrom c x n)
  with assms show ?thesis by (auto simp: burn_from_run Let_def allowance_after split: if_splits) (simp_all add: allowance_def)
next
  case (Transfer x c n)
  with assms show ?thesis by (auto simp: erc20_transfer_run allowance_after split: if_splits)
next
  case (Mint x y n)
  with assms show ?thesis by (auto simp: mint_run allowance_after split: if_splits)
next
  case (Burn x n)
  with assms show ?thesis by (auto simp: burn_run allowance_after split: if_splits)
qed (use assms in \<open>auto simp: set_paused_def transfer_ownership_def require_owner_def validate_address_def allowance_def
      meth_simps Let_def split: if_splits\<close>)

text \<open>
  C17: One operation lowers a balance only if it is the holder's own transfer or burn of that amount, or a
  spender's within the allowance recorded for it, which falls by the amount unless it is the unlimited one. An
  allowance rises only by an operation in the name of the holder that sets it (among them \<open>permit\<close>, which anyone can call: its
  signature is not checked) or by a \<open>burn_from\<close> of a negative amount.
\<close>

theorem token_authorised:
  "(balance_of a (snd (run_op op s)) < balance_of a s \<longrightarrow>
     (\<exists>n. balance_of a (snd (run_op op s)) = balance_of a s - n \<and> n \<le> balance_of a s \<and>
       (owner_moves a n op \<or>
        (\<exists>b. spender_moves a b n op \<and> n \<le> allowance a b s \<and>
          (allowance a b s \<noteq> TOKEN_UINT256_MAX \<longrightarrow> allowance a b (snd (run_op op s)) = allowance a b s - n))))) \<and>
   (allowance a c s < allowance a c (snd (run_op op s)) \<longrightarrow> grants a c op \<or> (\<exists>d x n. op = BurnFrom d x n \<and> n < 0))"
  using balance_falls allowance_rises by blast

text \<open>The example: an owner with 50 who let a spender have 20, of which the spender takes 5.\<close>

definition sample_token :: erc20 where
  "sample_token = run_ops [Mint ''0xaa'' ''0xaa'' 50, Approve ''0xaa'' ''0xbb'' 20]
     (new_token (\<lambda>_. zeros 32) ''7'' ''Coin'' ''C'' 18 0 [] ''0xaa'' 1000 False)"

theorem token_authorised_witness:
  "\<exists>b. spender_moves ''0xaa'' b 5 (TransferFrom ''0xbb'' ''0xAA'' ''0xcc'' 5) \<and> 5 \<le> allowance ''0xaa'' b sample_token"
proof -
  let ?op = "TransferFrom ''0xbb'' ''0xAA'' ''0xcc'' 5"
  have b: "balance_of ''0xaa'' (snd (run_op ?op sample_token)) = 45" "balance_of ''0xaa'' sample_token = 50"
    by code_simp+
  from token_authorised [of "''0xaa''" ?op sample_token] b obtain n where
    "(n :: int) = 5" "owner_moves ''0xaa'' n ?op \<or>
       (\<exists>b. spender_moves ''0xaa'' b n ?op \<and> n \<le> allowance ''0xaa'' b sample_token)"
    by (auto simp del: run_op.simps)
  then show ?thesis by (auto simp: owner_moves_def)
qed

section \<open>Reloading a token\<close>

lemma from_to_dict:
  "tk_address s \<noteq> [] \<Longrightarrow> erc20_from_dict sha3 now_text (erc20_to_dict s) = Inr (s\<lparr>events := []\<rparr>)"
  by (simp add: erc20_from_dict_def erc20_to_dict_def new_token_def get_or_def Let_def)

lemma run_op_address: "tk_address (snd (run_op op s)) = tk_address s"
  by (cases op) (simp_all add: erc20_transfer_run approve_run erc20_transfer_from_run mint_run burn_run burn_from_run
      increase_allowance_def decrease_allowance_def permit_def put_allowance_def set_paused_def transfer_ownership_def
      require_owner_def validate_address_def emit_event_def meth_simps Let_def change_supply_def add_balance_def
      add_event_def set_allowance_def use_allowance_def)

lemma create_token_entry:
  assumes "create_token sha3 now_text creator nm symbol decimals initial_supply cap mint_to f = (Inr tok, f')"
  shows "tk_address tok \<noteq> [] \<and> registry f' = map_option (AList.update (to_upper (tk_address tok))
    \<lparr>te_type = ''ERC20'', te_data = erc20_to_dict tok\<rparr>) (registry f)"
proof -
  let ?new = "new_token sha3 now_text nm symbol decimals 0 [] creator cap False"
  have new: "tk_address ?new \<noteq> []" by (simp add: new_token_def Let_def)
  have "tk_address (snd (mint creator to initial_supply ?new)) \<noteq> []" for to
    using run_op_address [of "Mint creator to initial_supply" ?new] new by simp
  then have "mint creator to initial_supply ?new = (q, t) \<Longrightarrow> tk_address t \<noteq> []" for to q t
    by (metis snd_conv)
  with assms new show ?thesis
    by (auto simp: create_token_def meth_simps Let_def map_sum_Inr split: if_splits prod.splits sum.splits)
qed

text \<open>
  a token the factory has registered is read back by a factory that starts anew on the same
  blockchain, whatever the case of the address, with everything but its event log.
\<close>

lemma token_reload:
  assumes "create_token sha3 now_text creator nm symbol decimals initial_supply cap mint_to f = (Inr tok, f')"
    and "registry f \<noteq> None" and "to_upper a = to_upper (tk_address tok)"
  shows "fst (get_token sha3 now_text2 a \<lparr>deployed_tokens = [], registry = registry f'\<rparr>)
    = Inr (Some (tok\<lparr>events := []\<rparr>))"
  using create_token_entry [OF assms(1)] assms(2,3)
  by (auto simp: get_token_def update_conv' from_to_dict)

section \<open>Findings\<close>

text \<open>Anyone can make tokens: approve oneself nothing, then burn a negative amount.\<close>

lemma after_set_allowance [simp]:
  "allowance a b (set_allowance (normalize_addr a) (normalize_addr b) v s) = v"
  "map_of (allowances (set_allowance a b v s)) a \<noteq> None"
  by (simp_all add: allowance_def set_allowance_def update_conv')

lemma step_frame [simp]:
  "paused (add_event k a b v s) = paused s" "paused (set_allowance a b v s) = paused s"
  "allowances (add_event k a b v s) = allowances s" "paused (s\<lparr>tk_nonces := ns\<rparr>) = paused s"
  "total_supply (add_event k a b v s) = total_supply s" "total_supply (set_allowance a b v s) = total_supply s"
  "total_supply (change_supply a n s) = total_supply s + n"
  by (simp_all add: add_event_def set_allowance_def change_supply_def)

theorem burn_from_mints:
  assumes "\<not> paused s" and "normalize_addr a \<notin> {ZERO_ADDRESS, []}" and "0 < n" and "0 \<le> balance_of a s"
  shows "balance_of a (run_ops [Approve a a 0, BurnFrom a a (- n)] s) = balance_of a s + n
    \<and> total_supply (run_ops [Approve a a 0, BurnFrom a a (- n)] s) = total_supply s + n"
proof -
  let ?s = "add_event ApprovalEvent (normalize_addr a) (normalize_addr a) 0 (set_allowance (normalize_addr a) (normalize_addr a) 0 s)"
  have "snd (approve a a 0 s) = ?s" using assms by (simp add: approve_run TOKEN_UINT256_MAX_def)
  then have run: "run_ops [Approve a a 0, BurnFrom a a (- n)] s = snd (burn_from a a (- n) ?s)"
    by (simp add: run_ops_def)
  have b: "balance_of a ?s = balance_of a s" by (simp add: balance_after)
  show ?thesis
    unfolding run using assms b by (simp add: burn_from_run Let_def allowance_after balance_after)
qed

text \<open>Anyone can take all of an account: nothing checks the signature of a permit.\<close>

lemma permit_run:
  "\<not> of_int deadline < now \<Longrightarrow> \<exists>ns. snd (permit now own spender v deadline s) =
     add_event ApprovalEvent (normalize_addr own) (normalize_addr spender) v
       (set_allowance (normalize_addr own) (normalize_addr spender) v (s\<lparr>tk_nonces := ns\<rparr>))"
  by (intro exI [of _ "AList.update (normalize_addr own) (dict_get (tk_nonces s) (normalize_addr own) 0 + 1) (tk_nonces s)"])
    (simp add: permit_def erc20_evals add_event_def set_allowance_def)

theorem permit_takes_all:
  assumes "\<not> paused s" and "normalize_addr thief \<notin> {ZERO_ADDRESS, []}" and "normalize_addr thief \<noteq> normalize_addr victim"
    and "0 \<le> balance_of victim s" and "balance_of victim s \<le> TOKEN_UINT256_MAX"
  shows "balance_of victim (run_ops [Permit 0 victim thief (balance_of victim s) 1,
      TransferFrom thief victim thief (balance_of victim s)] s) = 0"
proof -
  let ?v = "balance_of victim s"
  from permit_run [of 1 0 victim thief ?v s] obtain ns where
    p: "snd (permit 0 victim thief ?v 1 s) = add_event ApprovalEvent (normalize_addr victim) (normalize_addr thief) ?v
       (set_allowance (normalize_addr victim) (normalize_addr thief) ?v (s\<lparr>tk_nonces := ns\<rparr>))" (is "_ = ?s") by auto
  then have run: "run_ops [Permit 0 victim thief ?v 1, TransferFrom thief victim thief ?v] s =
      snd (erc20_transfer_from thief victim thief ?v ?s)"
    by (simp add: run_ops_def)
  have "balance_of victim ?s = ?v" "allowance victim thief ?s = ?v" "\<not> paused ?s"
    "map_of (allowances ?s) (normalize_addr victim) \<noteq> None"
    using assms(1) by (simp_all add: balance_after allowance_after)
  then show ?thesis
    unfolding run using assms by (simp add: erc20_transfer_from_run balance_after)
qed

end
