(* ===== verification/Finality.thy ===== *)
theory Finality
  imports PyDict PyFloat
begin

text \<open>
  \<open>consensus/finality.py\<close> with \<open>DoubleSignDetector\<close> of \<open>xai/blockchain/double_sign_detector.py\<close>:
  validators vote for block headers, and a block whose votes reach the quorum of voting power
  gets a certificate. The signature check and the clock are arguments. The certificate file is
  the list of its entries, or None before the first write; writing and reading it is taken to
  succeed. The metadata file, which is only written and compared for log messages, is left out.
\<close>

section \<open>The detector of double votes\<close>

record detector =
  validator_signatures :: "(string \<times> (int \<times> string) list) list"

definition new_detector :: detector where
  "new_detector = \<lparr>validator_signatures = []\<rparr>"

record double_sign_proof =
  ds_validator :: string
  ds_height :: int
  ds_first :: string
  ds_second :: string

definition signed_at :: "string \<Rightarrow> int \<Rightarrow> detector \<Rightarrow> string option" where
  "signed_at v height d = map_of (dict_get (validator_signatures d) v []) height"

definition process_signed_block :: "string \<Rightarrow> int \<Rightarrow> string \<Rightarrow> (detector, double_sign_proof option) meth" where
  "process_signed_block validator_id height signed_hash =
     and_then (raise_if (\<lambda>_. validator_id = [] \<or> height < 0 \<or> signed_hash = []) ValueError) (\<lambda>_.
     and_then (modify (\<lambda>d. if validator_id \<in> fst ` set (validator_signatures d) then d
        else d\<lparr>validator_signatures := validator_signatures d @ [(validator_id, [])]\<rparr>)) (\<lambda>_.
     and_then (reads (signed_at validator_id height)) (\<lambda>existing.
     case existing of
       Some h \<Rightarrow> ret (if h \<noteq> signed_hash
         then Some \<lparr>ds_validator = validator_id, ds_height = height, ds_first = h, ds_second = signed_hash\<rparr> else None)
     | None \<Rightarrow> and_then (modify (\<lambda>d. d\<lparr>validator_signatures := AList.update validator_id
           (AList.update height signed_hash (dict_get (validator_signatures d) validator_id [])) (validator_signatures d)\<rparr>)) (\<lambda>_.
         ret None))))"

section \<open>Validators, certificates and the manager\<close>

record validator =
  v_address :: string
  v_public_key :: string
  voting_power :: int

definition normalized_id :: "validator \<Rightarrow> string" where
  "normalized_id v = to_lower (v_address v)"

record certificate =
  ce_hash :: string
  ce_height :: int
  ce_signatures :: "(string \<times> string) list"
  ce_power :: int
  ce_created :: rat

record finality =
  fm_validators :: "(string \<times> validator) list"
  fm_total_power :: int
  quorum_power :: int
  fm_detector :: detector
  pending_votes :: "(string \<times> (string \<times> string) list) list"
  pending_power :: "(string \<times> int) list"
  certs_by_hash :: "(string \<times> certificate) list"
  certs_by_height :: "(int \<times> certificate) list"
  misbehavior :: "double_sign_proof list"
  certificate_file :: "certificate list option"

text \<open>What \<open>record_vote\<close> reads of a block header.\<close>

record vote_header =
  h_hash :: string
  h_index :: int

text \<open>The loop over the validators: the dict and the total power, or the error.\<close>

primrec add_validators :: "validator list \<Rightarrow> (string \<times> validator) list \<times> int \<Rightarrow> exn + (string \<times> validator) list \<times> int" where
  "add_validators [] acc = Inr acc"
| "add_validators (v # vs) acc =
     (if voting_power v \<le> 0 \<or> normalized_id v \<in> fst ` set (fst acc) then Inl FinalityConfigurationError
      else add_validators vs (fst acc @ [(normalized_id v, v)], snd acc + voting_power v))"

text \<open>\<open>math.ceil\<close>: an infinite value is an OverflowError, a NaN a ValueError.\<close>

definition float_ceil :: "pyfloat \<Rightarrow> exn + int" where
  "float_ceil x = (case x of Fin r \<Rightarrow> Inr (- floor (- r)) | NaN \<Rightarrow> Inl ValueError | _ \<Rightarrow> Inl OverflowError)"

definition add_certificate :: "certificate \<Rightarrow> finality \<Rightarrow> finality" where
  "add_certificate c s = s\<lparr>certs_by_hash := AList.update (ce_hash c) c (certs_by_hash s),
     certs_by_height := AList.update (ce_height c) c (certs_by_height s)\<rparr>"

definition load_certificates :: "finality \<Rightarrow> finality" where
  "load_certificates s = (case certificate_file s of None \<Rightarrow> s | Some cs \<Rightarrow> fold add_certificate cs s)"

definition default_threshold :: pyfloat where
  "default_threshold = to_float (2 / 3)"

definition new_finality :: "validator list \<Rightarrow> pyfloat \<Rightarrow> certificate list option \<Rightarrow> exn + finality" where
  "new_finality vs threshold file =
     (if float_le threshold (Fin 0) \<or> float_less (Fin 1) threshold \<or> vs = [] then Inl FinalityConfigurationError
      else case add_validators vs ([], 0) of
        Inl e \<Rightarrow> Inl e
      | Inr (vals, weight) \<Rightarrow>
          if weight \<le> 0 then Inl FinalityConfigurationError
          else map_sum id (\<lambda>q. load_certificates
            \<lparr>fm_validators = vals, fm_total_power = weight, quorum_power = q, fm_detector = new_detector,
             pending_votes = [], pending_power = [], certs_by_hash = [], certs_by_height = [], misbehavior = [],
             certificate_file = file\<rparr>)
            (float_ceil (float_mul (float_of_int weight) threshold)))"

section \<open>Votes\<close>

definition SIGNING_DOMAIN :: string where "SIGNING_DOMAIN = ''XAI_FINALITY_V1''"

definition build_vote_payload :: "vote_header \<Rightarrow> byte list" where
  "build_vote_payload h = utf8 (SIGNING_DOMAIN @ ''|'' @ h_hash h @ ''|'' @ dec_text (h_index h))"

definition finalize_block :: "certificate \<Rightarrow> finality \<Rightarrow> finality" where
  "finalize_block c s = (add_certificate c s)\<lparr>pending_votes := AList.delete (ce_hash c) (pending_votes s),
     pending_power := AList.delete (ce_hash c) (pending_power s)\<rparr>"

definition persist_certificates :: "finality \<Rightarrow> finality" where
  "persist_certificates s = s\<lparr>certificate_file := Some (map snd (certs_by_hash s))\<rparr>"

definition count_vote :: "rat \<Rightarrow> validator \<Rightarrow> vote_header \<Rightarrow> string \<Rightarrow> (finality, certificate option) meth" where
  "count_vote now v h signature =
     and_then (reads (\<lambda>s. dict_get (pending_votes s) (h_hash h) [])) (\<lambda>votes.
     and_then (modify (\<lambda>s. if h_hash h \<in> fst ` set (pending_votes s) then s
        else s\<lparr>pending_votes := pending_votes s @ [(h_hash h, [])]\<rparr>)) (\<lambda>_.
     and_then (raise_if (\<lambda>_. v_address v \<in> fst ` set votes) FinalityValidationError) (\<lambda>_.
     let votes = AList.update (v_address v) signature votes in
     and_then (modify (\<lambda>s. s\<lparr>pending_votes := AList.update (h_hash h) votes (pending_votes s)\<rparr>)) (\<lambda>_.
     and_then (reads (\<lambda>s. dict_get (pending_power s) (h_hash h) 0 + voting_power v)) (\<lambda>accumulated.
     and_then (modify (\<lambda>s. s\<lparr>pending_power := AList.update (h_hash h) accumulated (pending_power s)\<rparr>)) (\<lambda>_.
     and_then (reads quorum_power) (\<lambda>quorum.
     if accumulated < quorum then ret None
     else let c = \<lparr>ce_hash = h_hash h, ce_height = h_index h, ce_signatures = votes, ce_power = accumulated, ce_created = now\<rparr>
          in and_then (modify (\<lambda>s. persist_certificates (finalize_block c s))) (\<lambda>_. ret (Some c)))))))))"

text \<open>\<open>verify\<close> is \<open>verify_signature_hex\<close>; the callback is called with each proof of a double vote.\<close>

definition record_vote ::
    "(string \<Rightarrow> byte list \<Rightarrow> string \<Rightarrow> bool) \<Rightarrow> rat \<Rightarrow> string \<Rightarrow> vote_header \<Rightarrow> string \<Rightarrow> (finality, certificate option) meth" where
  "record_vote verify now validator_address h signature =
     and_then (reads (\<lambda>s. map_of (fm_validators s) (to_lower validator_address))) (\<lambda>found.
     case found of
       None \<Rightarrow> raise FinalityValidationError
     | Some v \<Rightarrow>
         and_then (raise_if (\<lambda>_. \<not> verify (v_public_key v) (build_vote_payload h) signature) FinalityValidationError) (\<lambda>_.
         and_then (zoom fm_detector fm_detector_update (process_signed_block (v_address v) (h_index h) (h_hash h))) (\<lambda>double.
         case double of
           Some p \<Rightarrow> and_then (modify (\<lambda>s. s\<lparr>misbehavior := misbehavior s @ [p]\<rparr>)) (\<lambda>_. raise FinalityValidationError)
         | None \<Rightarrow>
             and_then (reads (\<lambda>s. map_of (certs_by_hash s) (h_hash h))) (\<lambda>known.
             case known of Some c \<Rightarrow> ret (Some c) | None \<Rightarrow> count_vote now v h signature))))"

section \<open>Queries\<close>

definition is_finalized :: "string option \<Rightarrow> int option \<Rightarrow> finality \<Rightarrow> bool" where
  "is_finalized bh height s \<longleftrightarrow>
     (case bh of Some b \<Rightarrow> b \<in> fst ` set (certs_by_hash s) | None \<Rightarrow> False) \<or>
     (case height of Some k \<Rightarrow> k \<in> fst ` set (certs_by_height s) | None \<Rightarrow> False)"

definition get_highest_finalized_height :: "finality \<Rightarrow> int option" where
  "get_highest_finalized_height s = (if certs_by_height s = [] then None else Some (Max (set (map fst (certs_by_height s)))))"

definition can_reorg_to_height :: "int option \<Rightarrow> finality \<Rightarrow> bool" where
  "can_reorg_to_height fork_point s =
     (case get_highest_finalized_height s of
        None \<Rightarrow> True
      | Some highest \<Rightarrow> (case fork_point of None \<Rightarrow> -1 | Some p \<Rightarrow> p) \<ge> highest)"

section \<open>Snapshots\<close>

text \<open>
  The entries of \<open>certificates_by_hash\<close> in a snapshot have no key \<open>timestamp\<close>, which \<open>restore\<close>
  reads, and the methods it saves with at the end do not exist.
\<close>

record finality_snapshot =
  fs_pending_votes :: "(string \<times> (string \<times> string) list) list"
  fs_pending_power :: "(string \<times> int) list"
  fs_certs :: "(string \<times> certificate) list"
  fs_detector :: detector

definition finality_snapshot_of :: "finality \<Rightarrow> finality_snapshot" where
  "finality_snapshot_of s = \<lparr>fs_pending_votes = pending_votes s, fs_pending_power = pending_power s,
     fs_certs = certs_by_hash s, fs_detector = fm_detector s\<rparr>"

definition finality_restore :: "finality_snapshot \<Rightarrow> (finality, unit) meth" where
  "finality_restore sn =
     and_then (modify (\<lambda>s. s\<lparr>pending_votes := fs_pending_votes sn, pending_power := fs_pending_power sn,
        certs_by_hash := []\<rparr>)) (\<lambda>_.
     and_then (raise_if (\<lambda>_. fs_certs sn \<noteq> []) KeyError) (\<lambda>_.
     and_then (modify (\<lambda>s. s\<lparr>certs_by_height := [], fm_detector := fs_detector sn\<rparr>)) (\<lambda>_.
     raise AttributeError)))"


section \<open>The detector\<close>

lemma signed_at_update:
  "signed_at v k (d\<lparr>validator_signatures := AList.update w m (validator_signatures d)\<rparr>) =
     (if v = w then map_of m k else signed_at v k d)"
  by (simp add: signed_at_def)

lemma signed_at_fresh:
  "signed_at v k (d\<lparr>validator_signatures := validator_signatures d @ [(w, [])]\<rparr>) = signed_at v k d"
  by (simp add: signed_at_def dict_get_def map_add_def split: option.splits)

lemma process_signed_block_run:
  assumes "process_signed_block w k h d = (r, d')"
  shows "case r of
      Inl e \<Rightarrow> signed_at v j d' = signed_at v j d
    | Inr (Some p) \<Rightarrow> signed_at v j d' = signed_at v j d \<and> ds_validator p = w \<and> signed_at w k d = Some (ds_first p) \<and> ds_first p \<noteq> h
    | Inr None \<Rightarrow> signed_at w k d \<in> {None, Some h} \<and>
        signed_at v j d' = (if v = w \<and> j = k then Some h else signed_at v j d)"
proof -
  let ?d = "if w \<in> fst ` set (validator_signatures d) then d
        else d\<lparr>validator_signatures := validator_signatures d @ [(w, [])]\<rparr>"
  have fresh: "signed_at v j ?d = signed_at v j d" for v j
    using signed_at_fresh by simp
  show ?thesis
  proof (cases "w = [] \<or> k < 0 \<or> h = []")
    case True
    with assms show ?thesis by (auto simp: process_signed_block_def meth_simps)
  next
    case False
    then have run: "(r, d') = (case signed_at w k ?d of
       Some x \<Rightarrow> ret (if x \<noteq> h then Some \<lparr>ds_validator = w, ds_height = k, ds_first = x, ds_second = h\<rparr> else None)
     | None \<Rightarrow> and_then (modify (\<lambda>d. d\<lparr>validator_signatures := AList.update w
           (AList.update k h (dict_get (validator_signatures d) w [])) (validator_signatures d)\<rparr>)) (\<lambda>_. ret None)) ?d"
      using assms by (simp add: process_signed_block_def and_then_def raise_if_def modify_def reads_def)
    show ?thesis
    proof (cases "signed_at w k ?d")
      case None
      let ?e = "?d\<lparr>validator_signatures := AList.update w
           (AList.update k h (dict_get (validator_signatures ?d) w [])) (validator_signatures ?d)\<rparr>"
      have "r = Inr None" "d' = ?e"
        using run None by (simp_all add: and_then_def modify_def ret_def)
      moreover have "signed_at v j ?e = (if v = w \<and> j = k then Some h else signed_at v j ?d)"
        unfolding signed_at_update by (simp add: signed_at_def update_conv')
      ultimately show ?thesis using fresh None by simp
    next
      case (Some x)
      with run fresh show ?thesis by (auto simp: ret_def)
    qed
  qed
qed


section \<open>Voting power\<close>

definition known :: "(string \<times> validator) list \<Rightarrow> string \<Rightarrow> bool" where
  "known vs a \<longleftrightarrow> (\<exists>v. map_of vs (to_lower a) = Some v \<and> v_address v = a)"

definition power_at :: "(string \<times> validator) list \<Rightarrow> string \<Rightarrow> int" where
  "power_at vs i = (case map_of vs i of Some v \<Rightarrow> voting_power v | None \<Rightarrow> 0)"

definition vote_power :: "(string \<times> validator) list \<Rightarrow> (string \<times> string) list \<Rightarrow> int" where
  "vote_power vs sigs = sum_list (map (\<lambda>(a, _). power_at vs (to_lower a)) sigs)"

definition roster_ok :: "(string \<times> validator) list \<Rightarrow> int \<Rightarrow> bool" where
  "roster_ok vs weight \<longleftrightarrow> wf_dict vs \<and> (\<forall>(i, v) \<in> set vs. i = normalized_id v \<and> 0 < voting_power v)
     \<and> weight = sum_list (map (\<lambda>(_, v). voting_power v) vs)"

lemma add_validators_roster:
  "add_validators vs acc = Inr (vals, weight) \<Longrightarrow> roster_ok (fst acc) (snd acc) \<Longrightarrow> roster_ok vals weight"
proof (induction vs arbitrary: acc)
  case (Cons v vs)
  from Cons.prems have "roster_ok (fst acc @ [(normalized_id v, v)]) (snd acc + voting_power v)"
    by (auto simp: roster_ok_def wf_dict_def split: if_splits)
  with Cons show ?case by (auto split: if_splits)
qed simp

lemma power_at_nonneg: "roster_ok vs w \<Longrightarrow> 0 \<le> power_at vs i"
  by (auto simp: roster_ok_def power_at_def dest!: map_of_SomeD split: option.splits)

lemma roster_total:
  assumes "roster_ok vs w"
  shows "w = sum (power_at vs) (fst ` set vs)"
proof -
  have d: "distinct (map fst vs)" using assms by (simp add: roster_ok_def wf_dict_def)
  have "sum (power_at vs) (fst ` set vs) = sum_list (map (power_at vs) (map fst vs))"
    using d sum_list_distinct_conv_sum_set [of "map fst vs" "power_at vs"] by simp
  also have "map (power_at vs) (map fst vs) = map (\<lambda>(_, v). voting_power v) vs"
    using d by (auto simp: power_at_def)
  finally show ?thesis using assms by (simp add: roster_ok_def)
qed

lemma vote_power_sum:
  assumes "distinct (map fst sigs)" and "\<forall>a \<in> fst ` set sigs. known vs a"
  shows "vote_power vs sigs = sum (power_at vs) (to_lower ` fst ` set sigs)"
    and "to_lower ` fst ` set sigs \<subseteq> fst ` set vs" and "inj_on to_lower (fst ` set sigs)"
proof -
  show inj: "inj_on to_lower (fst ` set sigs)"
    using assms(2) unfolding known_def inj_on_def by (metis option.inject)
  have "vote_power vs sigs = sum_list (map (\<lambda>a. power_at vs (to_lower a)) (map fst sigs))"
    by (simp add: vote_power_def comp_def split_beta')
  also have "\<dots> = sum (\<lambda>a. power_at vs (to_lower a)) (fst ` set sigs)"
    using assms(1) sum_list_distinct_conv_sum_set [of "map fst sigs" "\<lambda>a. power_at vs (to_lower a)"] by simp
  also have "\<dots> = sum (power_at vs) (to_lower ` fst ` set sigs)"
    using inj by (simp add: sum.reindex)
  finally show "vote_power vs sigs = sum (power_at vs) (to_lower ` fst ` set sigs)" .
  show "to_lower ` fst ` set sigs \<subseteq> fst ` set vs"
    using assms(2) by (force simp: known_def dest: map_of_SomeD)
qed

text \<open>Two sets of signers that outweigh half of the total power each have a validator in common.\<close>

lemma quorums_meet:
  assumes roster: "roster_ok vs w" and q: "w < 2 * q"
    and A: "distinct (map fst A)" "\<forall>a \<in> fst ` set A. known vs a" "q \<le> vote_power vs A"
    and B: "distinct (map fst B)" "\<forall>a \<in> fst ` set B. known vs a" "q \<le> vote_power vs B"
  shows "\<exists>a. a \<in> fst ` set A \<and> a \<in> fst ` set B"
proof (rule ccontr)
  assume no: "\<not> ?thesis"
  let ?A = "to_lower ` fst ` set A" and ?B = "to_lower ` fst ` set B"
  have "?A \<inter> ?B = {}"
    using no A(2) B(2) unfolding known_def by (smt (verit) disjoint_iff imageE option.inject)
  then have "sum (power_at vs) (?A \<union> ?B) = vote_power vs A + vote_power vs B"
    using vote_power_sum(1) [OF A(1,2)] vote_power_sum(1) [OF B(1,2)] by (simp add: sum.union_disjoint)
  moreover have "sum (power_at vs) (?A \<union> ?B) \<le> sum (power_at vs) (fst ` set vs)"
    using vote_power_sum(2) [OF A(1,2)] vote_power_sum(2) [OF B(1,2)] power_at_nonneg [OF roster]
    by (intro sum_mono2) auto
  ultimately show False using roster_total [OF roster] A(3) B(3) q by simp
qed


section \<open>The invariant\<close>

text \<open>
  Signatures of distinct validators that verify for the header and that the detector knows of.
  \<open>idx\<close> gives the height of a block hash.
\<close>

type_synonym verifier = "string \<Rightarrow> byte list \<Rightarrow> string \<Rightarrow> bool"

definition header_of :: "(string \<Rightarrow> int) \<Rightarrow> string \<Rightarrow> vote_header" where
  "header_of idx h = \<lparr>h_hash = h, h_index = idx h\<rparr>"

definition votes_ok ::
    "verifier \<Rightarrow> (string \<Rightarrow> int) \<Rightarrow> (string \<times> validator) list \<Rightarrow> detector \<Rightarrow> string \<Rightarrow> (string \<times> string) list \<Rightarrow> bool" where
  "votes_ok verify idx vs d h sigs \<longleftrightarrow> distinct (map fst sigs) \<and>
     (\<forall>(a, sig) \<in> set sigs. known vs a \<and> signed_at a (idx h) d = Some h \<and>
        verify (v_public_key (the (map_of vs (to_lower a)))) (build_vote_payload (header_of idx h)) sig)"

definition finality_ok :: "verifier \<Rightarrow> (string \<Rightarrow> int) \<Rightarrow> finality \<Rightarrow> bool" where
  "finality_ok verify idx s \<longleftrightarrow>
     roster_ok (fm_validators s) (fm_total_power s) \<and>
     (\<forall>h c. map_of (certs_by_hash s) h = Some c \<longrightarrow> ce_hash c = h \<and> ce_height c = idx h \<and>
        votes_ok verify idx (fm_validators s) (fm_detector s) h (ce_signatures c) \<and>
        ce_power c = vote_power (fm_validators s) (ce_signatures c) \<and> quorum_power s \<le> vote_power (fm_validators s) (ce_signatures c)) \<and>
     (\<forall>k c. map_of (certs_by_height s) k = Some c \<longrightarrow> ce_height c = k \<and> map_of (certs_by_hash s) (ce_hash c) = Some c) \<and>
     (\<forall>h. votes_ok verify idx (fm_validators s) (fm_detector s) h (dict_get (pending_votes s) h []) \<and>
        dict_get (pending_power s) h 0 = vote_power (fm_validators s) (dict_get (pending_votes s) h []))"

lemma finality_okI:
  assumes "roster_ok (fm_validators s) (fm_total_power s)"
    and "\<And>h c. map_of (certs_by_hash s) h = Some c \<Longrightarrow> ce_hash c = h \<and> ce_height c = idx h \<and>
        votes_ok verify idx (fm_validators s) (fm_detector s) h (ce_signatures c) \<and>
        ce_power c = vote_power (fm_validators s) (ce_signatures c) \<and> quorum_power s \<le> vote_power (fm_validators s) (ce_signatures c)"
    and "\<And>k c. map_of (certs_by_height s) k = Some c \<Longrightarrow> ce_height c = k \<and> map_of (certs_by_hash s) (ce_hash c) = Some c"
    and "\<And>h. votes_ok verify idx (fm_validators s) (fm_detector s) h (dict_get (pending_votes s) h []) \<and>
        dict_get (pending_power s) h 0 = vote_power (fm_validators s) (dict_get (pending_votes s) h [])"
  shows "finality_ok verify idx s"
  using assms unfolding finality_ok_def by blast

lemma finality_okD:
  assumes "finality_ok verify idx s"
  shows "roster_ok (fm_validators s) (fm_total_power s)"
    and "map_of (certs_by_hash s) h = Some c \<Longrightarrow> ce_hash c = h \<and> ce_height c = idx h \<and>
        votes_ok verify idx (fm_validators s) (fm_detector s) h (ce_signatures c) \<and>
        ce_power c = vote_power (fm_validators s) (ce_signatures c) \<and> quorum_power s \<le> vote_power (fm_validators s) (ce_signatures c)"
    and "map_of (certs_by_height s) k = Some c \<Longrightarrow> ce_height c = k \<and> map_of (certs_by_hash s) (ce_hash c) = Some c"
    and "votes_ok verify idx (fm_validators s) (fm_detector s) h (dict_get (pending_votes s) h []) \<and>
        dict_get (pending_power s) h 0 = vote_power (fm_validators s) (dict_get (pending_votes s) h [])"
  using assms unfolding finality_ok_def by blast+

lemma finality_ok_detector:
  assumes ok: "finality_ok verify idx s"
    and keep: "\<And>a h. signed_at a (idx h) (fm_detector s) = Some h \<Longrightarrow> signed_at a (idx h) d' = Some h"
  shows "finality_ok verify idx (s\<lparr>fm_detector := d'\<rparr>)"
proof -
  have K: "votes_ok verify idx (fm_validators s) (fm_detector s) h sigs \<Longrightarrow> votes_ok verify idx (fm_validators s) d' h sigs" for h sigs
    using keep by (auto simp: votes_ok_def)
  show ?thesis
    by (rule finality_okI) (use finality_okD [OF ok] K in auto)
qed

lemma vote_power_update:
  "a \<notin> fst ` set sigs \<Longrightarrow> vote_power vs (AList.update a sig sigs) = vote_power vs sigs + power_at vs (to_lower a)"
  by (induction sigs) (auto simp: vote_power_def)

lemma set_update_fresh: "a \<notin> fst ` set d \<Longrightarrow> set (AList.update a x d) = insert (a, x) (set d)"
  by (induction d) auto

lemma votes_ok_update:
  assumes "votes_ok verify idx vs d h sigs" and "a \<notin> fst ` set sigs" and "known vs a" and "signed_at a (idx h) d = Some h"
    and "verify (v_public_key (the (map_of vs (to_lower a)))) (build_vote_payload (header_of idx h)) sig"
  shows "votes_ok verify idx vs d h (AList.update a sig sigs)"
  using assms by (simp add: votes_ok_def distinct_update set_update_fresh)

lemma dict_get_delete: "dict_get (AList.delete k d) j v0 = (if j = k then v0 else dict_get d j v0)"
  by (simp add: dict_get_def delete_conv')

lemma votes_ok_Nil [simp]: "votes_ok verify idx vs d h []" "vote_power vs [] = 0"
  by (simp_all add: votes_ok_def vote_power_def)

lemma finality_ok_pending:
  assumes ok: "finality_ok verify idx s"
    and v: "votes_ok verify idx (fm_validators s) (fm_detector s) h votes" and p: "p = vote_power (fm_validators s) votes"
  shows "finality_ok verify idx (s\<lparr>pending_votes := AList.update h votes (pending_votes s),
    pending_power := AList.update h p (pending_power s)\<rparr>)"
  by (rule finality_okI) (use finality_okD [OF ok] v p in auto)

lemma finality_ok_certificate:
  assumes ok: "finality_ok verify idx s" and h: "ce_height c = idx (ce_hash c)"
    and v: "votes_ok verify idx (fm_validators s) (fm_detector s) (ce_hash c) (ce_signatures c)"
    and p: "ce_power c = vote_power (fm_validators s) (ce_signatures c)" "quorum_power s \<le> vote_power (fm_validators s) (ce_signatures c)"
    and new: "map_of (certs_by_hash s) (ce_hash c) = None"
  shows "finality_ok verify idx (persist_certificates (finalize_block c s))"
proof -
  note D = finality_okD [OF ok]
  have old: "ce_hash c' \<noteq> ce_hash c" if "map_of (certs_by_height s) k = Some c'" for k c'
    using D(3) [OF that] new by auto
  show ?thesis
    by (rule finality_okI)
      (use D old h v p in \<open>auto simp: persist_certificates_def finalize_block_def add_certificate_def update_conv'
        dict_get_delete split: if_splits\<close>)
qed


section \<open>Votes keep the invariant\<close>

lemma update_append_fresh: "k \<notin> fst ` set d \<Longrightarrow> AList.update k v (d @ [(k, w)]) = AList.update k v d"
  by (induction d) auto

definition with_vote :: "validator \<Rightarrow> string \<Rightarrow> string \<Rightarrow> finality \<Rightarrow> finality" where
  "with_vote v h sig s = s\<lparr>pending_votes := AList.update h (AList.update (v_address v) sig (dict_get (pending_votes s) h [])) (pending_votes s),
     pending_power := AList.update h (dict_get (pending_power s) h 0 + voting_power v) (pending_power s)\<rparr>"

definition new_certificate :: "rat \<Rightarrow> vote_header \<Rightarrow> finality \<Rightarrow> certificate" where
  "new_certificate now h s = \<lparr>ce_hash = h_hash h, ce_height = h_index h,
     ce_signatures = dict_get (pending_votes s) (h_hash h) [], ce_power = dict_get (pending_power s) (h_hash h) 0, ce_created = now\<rparr>"

lemma count_vote_run:
  "count_vote now v h sig s =
     (if v_address v \<in> fst ` set (dict_get (pending_votes s) (h_hash h) []) then (Inl FinalityValidationError, s)
      else let t = with_vote v (h_hash h) sig s; c = new_certificate now h t in
        if ce_power c < quorum_power s then (Inr None, t)
        else (Inr (Some c), persist_certificates (finalize_block c t)))"
proof -
  have fresh: "h_hash h \<notin> fst ` set (pending_votes s) \<Longrightarrow> dict_get (pending_votes s) (h_hash h) [] = []"
    by (simp add: dict_get_def map_of_eq_None_iff [symmetric])
  then show ?thesis
    by (auto simp: count_vote_def meth_simps with_vote_def new_certificate_def Let_def update_append_fresh)
qed

definition grows :: "finality \<Rightarrow> finality \<Rightarrow> bool" where
  "grows s t \<longleftrightarrow> fm_validators t = fm_validators s \<and> fm_total_power t = fm_total_power s \<and> quorum_power t = quorum_power s \<and>
     (\<forall>h c. map_of (certs_by_hash s) h = Some c \<longrightarrow> map_of (certs_by_hash t) h = Some c) \<and>
     fst ` set (certs_by_height s) \<subseteq> fst ` set (certs_by_height t)"

lemma grows_refl [simp]: "grows s s"
  by (simp add: grows_def)

lemma grows_trans: "grows s t \<Longrightarrow> grows t u \<Longrightarrow> grows s u"
  unfolding grows_def by (elim conjE, intro conjI) (simp, simp, simp, blast, blast)

lemma keys_update: "fst ` set (AList.update k v d) = insert k (fst ` set d)"
  by (induction d) auto

lemma with_vote_ok:
  assumes ok: "finality_ok verify idx s" and v: "map_of (fm_validators s) i = Some v"
    and signed: "signed_at (v_address v) (idx h) (fm_detector s) = Some h"
    and sig: "verify (v_public_key v) (build_vote_payload (header_of idx h)) sig"
    and new: "v_address v \<notin> fst ` set (dict_get (pending_votes s) h [])"
  shows "finality_ok verify idx (with_vote v h sig s)"
proof -
  have "map_of (fm_validators s) (to_lower (v_address v)) = Some v"
    using finality_okD(1) [OF ok] v map_of_SomeD [OF v] by (auto simp: roster_ok_def normalized_id_def)
  then have k: "known (fm_validators s) (v_address v)" "power_at (fm_validators s) (to_lower (v_address v)) = voting_power v"
    and sig': "verify (v_public_key (the (map_of (fm_validators s) (to_lower (v_address v))))) (build_vote_payload (header_of idx h)) sig"
    using sig by (simp_all add: known_def power_at_def)
  note P = conjunct1 [OF finality_okD(4) [OF ok, of h]] conjunct2 [OF finality_okD(4) [OF ok, of h]]
  show ?thesis
    unfolding with_vote_def
    by (rule finality_ok_pending [OF ok]) (use votes_ok_update [OF P(1) new k(1) signed sig'] vote_power_update [OF new] k(2) P(2) in simp_all)
qed

lemma count_vote_ok:
  assumes ok: "finality_ok verify idx s" and v: "map_of (fm_validators s) i = Some v" and h: "h_index h = idx (h_hash h)"
    and signed: "signed_at (v_address v) (idx (h_hash h)) (fm_detector s) = Some (h_hash h)"
    and sig: "verify (v_public_key v) (build_vote_payload h) sig" and new: "map_of (certs_by_hash s) (h_hash h) = None"
    and run: "count_vote now v h sig s = (r, t)"
  shows "finality_ok verify idx t \<and> grows s t"
proof (cases "v_address v \<in> fst ` set (dict_get (pending_votes s) (h_hash h) [])")
  case True
  with run ok show ?thesis by (simp add: count_vote_run)
next
  case False
  let ?t = "with_vote v (h_hash h) sig s"
  let ?c = "new_certificate now h ?t"
  have "build_vote_payload (header_of idx (h_hash h)) = build_vote_payload h"
    using h by (simp add: build_vote_payload_def header_of_def)
  then have ok': "finality_ok verify idx ?t"
    using with_vote_ok [OF ok v signed _ False] sig by simp
  have same: "quorum_power ?t = quorum_power s" "certs_by_hash ?t = certs_by_hash s" "grows s ?t"
    by (simp_all add: with_vote_def grows_def)
  show ?thesis
  proof (cases "ce_power ?c < quorum_power s")
    case True
    with run False ok' same show ?thesis by (simp add: count_vote_run Let_def)
  next
    case big: False
    note P = finality_okD(4) [OF ok', of "h_hash h"]
    have "finality_ok verify idx (persist_certificates (finalize_block ?c ?t))"
      by (rule finality_ok_certificate [OF ok']) (use P h big same new in \<open>simp_all add: new_certificate_def\<close>)
    moreover have "grows s (persist_certificates (finalize_block ?c ?t))"
      using same new by (auto simp: grows_def persist_certificates_def finalize_block_def add_certificate_def update_conv'
          keys_update new_certificate_def)
    ultimately show ?thesis using run False big by (simp add: count_vote_run Let_def)
  qed
qed


lemma record_vote_ok:
  assumes ok: "finality_ok verify idx s" and h: "h_index h = idx (h_hash h)"
    and run: "record_vote verify now a h sig s = (r, t)"
  shows "finality_ok verify idx t \<and> grows s t"
proof (cases "map_of (fm_validators s) (to_lower a)")
  case None
  with run ok show ?thesis by (simp add: record_vote_def meth_simps)
next
  case (Some v)
  show ?thesis
  proof (cases "verify (v_public_key v) (build_vote_payload h) sig")
    case False
    with Some run ok show ?thesis by (simp add: record_vote_def meth_simps)
  next
    case True
    obtain q d where q: "process_signed_block (v_address v) (h_index h) (h_hash h) (fm_detector s) = (q, d)" by fastforce
    note P = process_signed_block_run [OF q]
    let ?s = "s\<lparr>fm_detector := d\<rparr>"
    have "signed_at w (idx x) (fm_detector s) = Some x \<Longrightarrow> signed_at w (idx x) d = Some x" for w x
      using P [of w "idx x"] h by (auto split: sum.splits option.splits if_splits)
    from finality_ok_detector [OF ok this] have ok': "finality_ok verify idx ?s" .
    have g: "grows s ?s" by (simp add: grows_def)
    consider (raised) e where "q = Inl e" | (double) p where "q = Inr (Some p)" | (fine) "q = Inr None"
      by (metis option.exhaust sum.exhaust)
    then show ?thesis
    proof cases
      case raised
      with Some True q run ok' g show ?thesis by (simp add: record_vote_def meth_simps)
    next
      case double
      with Some True q run have t: "t = ?s\<lparr>misbehavior := misbehavior s @ [p]\<rparr>"
        by (simp add: record_vote_def meth_simps)
      have "finality_ok verify idx t = finality_ok verify idx ?s" by (simp add: t finality_ok_def)
      moreover have "grows ?s t" by (simp add: t grows_def)
      ultimately show ?thesis using ok' g grows_trans by blast
    next
      case fine
      have signed: "signed_at (v_address v) (idx (h_hash h)) (fm_detector ?s) = Some (h_hash h)"
        using P [of "v_address v" "h_index h"] fine h by simp
      have rest: "(case map_of (certs_by_hash s) (h_hash h) of Some c \<Rightarrow> ret (Some c) | None \<Rightarrow> count_vote now v h sig) ?s = (r, t)"
        using run Some True q fine by (simp add: record_vote_def meth_simps)
      show ?thesis
      proof (cases "map_of (certs_by_hash s) (h_hash h)")
        case None
        from None rest have "count_vote now v h sig ?s = (r, t)" by simp
        from count_vote_ok [OF ok' _ h signed True _ this] Some None g grows_trans show ?thesis by fastforce
      next
        case (Some c)
        with rest ok' g show ?thesis by (simp add: ret_def)
      qed
    qed
  qed
qed

text \<open>A run of the manager: votes one after the other, whatever each returns.\<close>

type_synonym vote = "rat \<times> string \<times> vote_header \<times> string"

definition run_votes :: "verifier \<Rightarrow> vote list \<Rightarrow> finality \<Rightarrow> finality" where
  "run_votes verify = fold (\<lambda>(now, a, h, sig) s. snd (record_vote verify now a h sig s))"

definition headers :: "vote list \<Rightarrow> vote_header set" where
  "headers votes = (\<lambda>(now, a, h, sig). h) ` set votes"

lemma run_votes_ok:
  assumes "finality_ok verify idx s" and "\<forall>h \<in> headers votes. h_index h = idx (h_hash h)"
  shows "finality_ok verify idx (run_votes verify votes s) \<and> grows s (run_votes verify votes s)"
  using assms
proof (induction votes arbitrary: s)
  case (Cons v votes)
  obtain now a h sig where v: "v = (now, a, h, sig)" by (cases v)
  let ?t = "snd (record_vote verify now a h sig s)"
  have "h_index h = idx (h_hash h)" using Cons.prems(2) by (auto simp: headers_def v)
  from record_vote_ok [OF Cons.prems(1) this, of now a sig] have t: "finality_ok verify idx ?t" "grows s ?t"
    by (metis surjective_pairing)+
  with Cons.IH [OF t(1)] Cons.prems(2) show ?case
    by (auto simp: run_votes_def v headers_def intro: grows_trans)
qed (simp add: run_votes_def)

lemma new_finality_ok:
  assumes "new_finality vs threshold None = Inr s"
  shows "finality_ok verify idx s"
proof -
  have "roster_ok [] 0" by (simp add: roster_ok_def wf_dict_def)
  with assms show ?thesis
    by (auto simp: new_finality_def load_certificates_def finality_ok_def map_sum_Inr
        dest!: add_validators_roster split: if_splits sum.splits)
qed


section \<open>The default quorum\<close>

lemma default_threshold_near: "\<exists>t. default_threshold = Fin t \<and> 3 / 5 \<le> t \<and> t \<le> 7 / 10"
proof -
  have "\<bar>round_double (2 / 3) - 2 / 3\<bar> \<le> 2 / 3 / 2 ^ 53" by (rule round_double_close) simp
  then have "\<bar>round_double (2 / 3) - 2 / 3\<bar> \<le> 1 / 100" by (rule order_trans) simp
  then have near: "3 / 5 \<le> round_double (2 / 3)" "round_double (2 / 3) \<le> 7 / 10" by linarith+
  have "(1 :: rat) \<le> pow2 1024" using pow2_mono [of 0 1024] by (simp add: pow2_def [of 0])
  with near have "to_float (2 / 3) = Fin (round_double (2 / 3))" by (intro to_float_finite) simp
  with near show ?thesis by (simp add: default_threshold_def)
qed

lemma default_quorum:
  assumes "1 \<le> w" and "w < 2 ^ 50" and "float_ceil (float_mul (float_of_int w) default_threshold) = Inr q"
  shows "w < 2 * q"
proof -
  let ?w = "of_int w :: rat"
  obtain t where t: "default_threshold = Fin t" "3 / 5 \<le> t" "t \<le> 7 / 10" using default_threshold_near by blast
  have w: "1 \<le> ?w" "?w < 2 ^ 50"
    using assms(1,2) of_int_le_iff [where ?'a = rat, of 1 w] of_int_less_iff [where ?'a = rat, of w "2 ^ 50"]
    by (simp_all del: of_int_le_iff of_int_less_iff)
  have big: "(2 :: rat) ^ 50 \<le> pow2 1024" using pow2_mono [of "int 50" 1024] pow2_nat [of 50] by simp
  have "float_of_int w = Fin ?w"
    unfolding float_of_int_def using w big assms(1,2) by (subst to_float_finite) (simp_all add: round_double_int)
  moreover have x: "3 / 5 * ?w \<le> ?w * t" "?w * t \<le> 7 / 10 * ?w" using w(1) t(2,3) by simp_all
  have r: "\<bar>round_double (?w * t) - ?w * t\<bar> \<le> ?w * t / 2 ^ 53"
    using x(1) w(1) by (intro round_double_close) linarith
  have small: "?w * t / 2 ^ 53 \<le> ?w * t / 10" using x(1) w(1) by (intro divide_left_mono) simp_all
  have lo: "?w / 2 < round_double (?w * t)" and hi: "round_double (?w * t) < 2 ^ 50"
    using order_trans [OF r small] x w by linarith+
  have "to_float (?w * t) = Fin (round_double (?w * t))"
    using lo hi big w(1) by (intro to_float_finite) simp
  ultimately have "q = - \<lfloor>- round_double (?w * t)\<rfloor>"
    using assms(3) by (simp add: float_mul_def float_ceil_def t(1))
  then have "round_double (?w * t) \<le> of_int q" by linarith
  with lo have "?w < of_int (2 * q)" by simp
  then show ?thesis by (simp only: of_int_less_iff)
qed


section \<open>Properties\<close>

text \<open>
  C19: In a manager with the default threshold and a total voting power below \<open>2 ^ 50\<close>, whatever
  votes are recorded, each certificate carries valid signatures of distinct validators whose
  power adds up to the certificate's and reaches the quorum, and no two certificates of one
  height are for different blocks, provided a block hash determines the block's height.
\<close>

theorem finality_safe:
  assumes "new_finality vs default_threshold None = Inr s" and "fm_total_power s < 2 ^ 50"
    and "\<forall>h \<in> headers votes. h_index h = idx (h_hash h)"
    and "map_of (certs_by_hash (run_votes verify votes s)) b = Some c"
    and "map_of (certs_by_hash (run_votes verify votes s)) b' = Some c'" and "ce_height c = ce_height c'"
  shows "b = b' \<and> distinct (map fst (ce_signatures c)) \<and> quorum_power s \<le> ce_power c \<and>
    ce_power c = vote_power (fm_validators s) (ce_signatures c) \<and>
    (\<forall>(a, sig) \<in> set (ce_signatures c). \<exists>v. map_of (fm_validators s) (to_lower a) = Some v \<and> v_address v = a \<and>
       verify (v_public_key v) (build_vote_payload \<lparr>h_hash = b, h_index = ce_height c\<rparr>) sig)"
proof -
  let ?t = "run_votes verify votes s"
  have ok: "finality_ok verify idx ?t" and g: "grows s ?t"
    using run_votes_ok [OF new_finality_ok [OF assms(1)] assms(3)] by blast+
  have same: "fm_validators ?t = fm_validators s" "fm_total_power ?t = fm_total_power s" "quorum_power ?t = quorum_power s"
    using g by (simp_all add: grows_def)
  note C = finality_okD(2) [OF ok assms(4)] and C' = finality_okD(2) [OF ok assms(5)]
  have roster: "roster_ok (fm_validators s) (fm_total_power s)" using finality_okD(1) [OF ok] same by simp
  have "1 \<le> fm_total_power s"
    and "float_ceil (float_mul (float_of_int (fm_total_power s)) default_threshold) = Inr (quorum_power s)"
    using assms(1) by (auto simp: new_finality_def load_certificates_def map_sum_Inr split: if_splits sum.splits)
  then have "fm_total_power s < 2 * quorum_power s" using default_quorum assms(2) by blast
  moreover have "\<forall>a \<in> fst ` set (ce_signatures c). known (fm_validators s) a"
    "\<forall>a \<in> fst ` set (ce_signatures c'). known (fm_validators s) a"
    using C C' same by (auto simp: votes_ok_def)
  ultimately obtain a where "a \<in> fst ` set (ce_signatures c)" "a \<in> fst ` set (ce_signatures c')"
    using quorums_meet [OF roster, of "quorum_power s" "ce_signatures c" "ce_signatures c'"] C C' same
    by (auto simp: votes_ok_def)
  then have "signed_at a (idx b) (fm_detector ?t) = Some b" "signed_at a (idx b') (fm_detector ?t) = Some b'"
    using C C' by (auto simp: votes_ok_def)
  then have "b = b'" using C C' assms(6) by simp
  with C same show ?thesis
    by (fastforce simp: votes_ok_def known_def header_of_def)
qed


definition sample_validators :: "validator list" where
  "sample_validators = map (\<lambda>a. \<lparr>v_address = a, v_public_key = a, voting_power = 1\<rparr>) [''0xA'', ''0xB'', ''0xC'']"

definition sample_vote :: "string \<Rightarrow> string \<Rightarrow> vote" where
  "sample_vote a b = (0, a, \<lparr>h_hash = b, h_index = 5\<rparr>, ''sig'')"

definition sample_votes :: "vote list" where
  "sample_votes = [sample_vote ''0xa'' ''x'', sample_vote ''0xB'' ''x'']"

definition all_valid :: verifier where "all_valid k m s = True"

lemma threshold_value: "default_threshold = Fin (6004799503160661 / 9007199254740992)"
proof -
  have "floor_log2 (2 / 3) = -1" by code_simp
  then have u: "ulp_exponent (2 / 3) = -53" by (simp add: ulp_exponent_def)
  have "round_even (2 / 3 / pow2 (- 53)) = 6004799503160661" by code_simp
  then have r: "round_double (2 / 3) = 6004799503160661 / 9007199254740992"
    by (simp add: round_double_def u) (simp add: pow2_def)
  have "floor_log2 (6004799503160661 / 9007199254740992) = -1" by code_simp
  then show ?thesis by (simp add: default_threshold_def to_float_def r)
qed

definition sample_finality :: finality where
  "sample_finality = \<lparr>fm_validators = [(''0xa'', \<lparr>v_address = ''0xA'', v_public_key = ''0xA'', voting_power = 1\<rparr>),
      (''0xb'', \<lparr>v_address = ''0xB'', v_public_key = ''0xB'', voting_power = 1\<rparr>),
      (''0xc'', \<lparr>v_address = ''0xC'', v_public_key = ''0xC'', voting_power = 1\<rparr>)],
    fm_total_power = 3, quorum_power = 2, fm_detector = new_detector, pending_votes = [], pending_power = [],
    certs_by_hash = [], certs_by_height = [], misbehavior = [], certificate_file = None\<rparr>"

lemma sample_new: "new_finality sample_validators default_threshold None = Inr sample_finality"
proof -
  have "add_validators sample_validators ([], 0) = Inr (fm_validators sample_finality, 3)" by code_simp
  moreover have "float_ceil (float_mul (float_of_int 3) (Fin (6004799503160661 / 9007199254740992))) = Inr 2" by code_simp
  ultimately show ?thesis
    by (simp add: new_finality_def threshold_value float_le_def float_eq_def sample_validators_def load_certificates_def sample_finality_def)
qed
lemma sample_run:
  "map_of (certs_by_hash (run_votes all_valid sample_votes sample_finality)) ''x'' \<noteq> None"
  "\<not> can_reorg_to_height (Some 4) (run_votes all_valid sample_votes sample_finality)"
  by code_simp+

lemma sample_headers: "\<forall>h \<in> headers sample_votes. h_index h = (\<lambda>_. 5) (h_hash h)"
  by (simp add: headers_def sample_votes_def sample_vote_def)

theorem finality_safe_witness:
  "\<exists>s c. new_finality sample_validators default_threshold None = Inr s \<and>
     map_of (certs_by_hash (run_votes all_valid sample_votes s)) ''x'' = Some c \<and> quorum_power s \<le> ce_power c"
proof -
  obtain c where c: "map_of (certs_by_hash (run_votes all_valid sample_votes sample_finality)) ''x'' = Some c" using sample_run(1) by blast
  have "fm_total_power sample_finality < 2 ^ 50" by (simp add: sample_finality_def)
  from finality_safe [OF sample_new this sample_headers c c] c show ?thesis using sample_new by auto
qed

text \<open>
  Recording votes never takes finality back: a block or height that is final stays so, and a
  reorganisation that is not allowed is never allowed later.
\<close>

lemma finality_irrevocable:
  assumes "finality_ok verify idx s" and "\<forall>h \<in> headers votes. h_index h = idx (h_hash h)"
  shows "(is_finalized b k s \<longrightarrow> is_finalized b k (run_votes verify votes s)) \<and>
    (\<not> can_reorg_to_height p s \<longrightarrow> \<not> can_reorg_to_height p (run_votes verify votes s))"
proof -
  let ?t = "run_votes verify votes s"
  have g: "grows s ?t" using run_votes_ok [OF assms] by blast
  then have K: "fst ` set (certs_by_height s) \<subseteq> fst ` set (certs_by_height ?t)" by (simp add: grows_def)
  have H: "fst ` set (certs_by_hash s) \<subseteq> fst ` set (certs_by_hash ?t)"
  proof
    fix h
    assume "h \<in> fst ` set (certs_by_hash s)"
    then have "map_of (certs_by_hash s) h \<noteq> None" by (simp add: map_of_eq_None_iff)
    then have "map_of (certs_by_hash ?t) h \<noteq> None" using g by (auto simp: grows_def)
    then show "h \<in> fst ` set (certs_by_hash ?t)" by (simp add: map_of_eq_None_iff)
  qed
  have "is_finalized b k s \<longrightarrow> is_finalized b k ?t"
    unfolding is_finalized_def using subsetD [OF H] subsetD [OF K] by (simp split: option.splits)
  moreover have "\<exists>m'. get_highest_finalized_height ?t = Some m' \<and> m \<le> m'" if "get_highest_finalized_height s = Some m" for m
  proof -
    have ne: "certs_by_height s \<noteq> []" and m: "m = Max (fst ` set (certs_by_height s))"
      using that by (simp_all add: get_highest_finalized_height_def split: if_splits)
    moreover have "certs_by_height ?t \<noteq> []" using K ne by (metis image_is_empty set_empty subset_empty)
    ultimately show ?thesis using Max_mono [OF K] by (simp add: get_highest_finalized_height_def)
  qed
  ultimately show ?thesis
    by (fastforce simp: can_reorg_to_height_def split: option.splits)
qed

text \<open>
  The detector is not part of what is written to disk: after a restart a validator may vote for
  another block of a final height, and that block gets a certificate too.
\<close>

lemma restart_allows_conflict:
  "let s = run_votes all_valid sample_votes sample_finality;
       r = load_certificates (sample_finality\<lparr>certificate_file := certificate_file s\<rparr>);
       t = run_votes all_valid [sample_vote ''0xA'' ''y'', sample_vote ''0xB'' ''y''] r
   in map ce_height (map snd (certs_by_hash t)) = [5, 5] \<and> map fst (certs_by_hash t) = [''x'', ''y'']"
  by code_simp

text \<open>\<open>restore\<close> always raises, and no block is final by its hash afterwards.\<close>

lemma restore_loses_certificates:
  "fst (finality_restore sn s) \<in> {Inl KeyError, Inl AttributeError} \<and> certs_by_hash (snd (finality_restore sn s)) = []"
  by (simp add: finality_restore_def meth_simps)


section \<open>Enough votes make a block final\<close>

definition vote_of :: "vote_header \<Rightarrow> rat \<times> validator \<times> string \<Rightarrow> vote" where
  "vote_of h x = (case x of (now, v, sig) \<Rightarrow> (now, v_address v, h, sig))"

lemma headers_vote_of: "k \<in> headers (map (vote_of h) xs) \<Longrightarrow> k = h"
  by (auto simp: headers_def vote_of_def split: prod.splits)

lemma run_votes_Cons: "run_votes verify (vote_of h (now, v, sig) # vs) s = run_votes verify vs (snd (record_vote verify now (v_address v) h sig s))"
  by (simp add: run_votes_def vote_of_def)

text \<open>A vote by a validator that has not voted at this height yet.\<close>

definition may_vote :: "verifier \<Rightarrow> vote_header \<Rightarrow> finality \<Rightarrow> rat \<times> validator \<times> string \<Rightarrow> bool" where
  "may_vote verify h s x \<longleftrightarrow> (case x of (now, v, sig) \<Rightarrow>
     map_of (fm_validators s) (to_lower (v_address v)) = Some v \<and> v_address v \<noteq> [] \<and>
     verify (v_public_key v) (build_vote_payload h) sig \<and> signed_at (v_address v) (h_index h) (fm_detector s) = None)"

definition short_of_quorum :: "string \<Rightarrow> finality \<Rightarrow> bool" where
  "short_of_quorum b s \<longleftrightarrow> map_of (certs_by_hash s) b \<noteq> None \<or> dict_get (pending_power s) b 0 < quorum_power s"

lemma vote_counts:
  assumes ok: "finality_ok verify idx s" and h: "h_index h = idx (h_hash h)" "0 \<le> h_index h" "h_hash h \<noteq> []"
    and v: "may_vote verify h s (now, v, sig)"
    and run: "record_vote verify now (v_address v) h sig s = (r, t)"
  shows "signed_at w k (fm_detector t) = (if w = v_address v \<and> k = h_index h then Some (h_hash h) else signed_at w k (fm_detector s))"
    and "map_of (certs_by_hash s) (h_hash h) \<noteq> None \<or> map_of (certs_by_hash t) (h_hash h) \<noteq> None \<or>
      dict_get (pending_power t) (h_hash h) 0 = dict_get (pending_power s) (h_hash h) 0 + voting_power v"
    and "short_of_quorum (h_hash h) t"
proof -
  have V: "map_of (fm_validators s) (to_lower (v_address v)) = Some v" "v_address v \<noteq> []"
    "verify (v_public_key v) (build_vote_payload h) sig" "signed_at (v_address v) (h_index h) (fm_detector s) = None"
    using v by (simp_all add: may_vote_def)
  obtain q d where q: "process_signed_block (v_address v) (h_index h) (h_hash h) (fm_detector s) = (q, d)" by fastforce
  note P = process_signed_block_run [OF q]
  have "q = Inr None"
  proof (cases q)
    case (Inl e)
    with q V(2) h(2,3) show ?thesis
      by (auto simp: process_signed_block_def meth_simps split: option.splits if_splits)
  next
    case (Inr x)
    with P V(4) show ?thesis by (cases x) auto
  qed
  with P have d: "signed_at w k d = (if w = v_address v \<and> k = h_index h then Some (h_hash h) else signed_at w k (fm_detector s))" for w k
    by simp
  let ?s = "s\<lparr>fm_detector := d\<rparr>"
  have rest: "(case map_of (certs_by_hash s) (h_hash h) of Some c \<Rightarrow> ret (Some c) | None \<Rightarrow> count_vote now v h sig) ?s = (r, t)"
    using run V(1,3) q \<open>q = Inr None\<close> by (simp add: record_vote_def meth_simps)
  have new: "v_address v \<notin> fst ` set (dict_get (pending_votes s) (h_hash h) [])"
    using finality_okD(4) [OF ok, of "h_hash h"] V(4) h(1) by (auto simp: votes_ok_def)
  have t: "if map_of (certs_by_hash s) (h_hash h) \<noteq> None then t = ?s
    else let u = with_vote v (h_hash h) sig ?s; c = new_certificate now h u in
      t = (if ce_power c < quorum_power s then u else persist_certificates (finalize_block c u))"
    using rest new by (auto simp: count_vote_run ret_def Let_def with_vote_def split: if_splits)
  have "fm_detector t = d"
    using t by (simp add: Let_def with_vote_def persist_certificates_def finalize_block_def add_certificate_def split: if_splits)
  then show "signed_at w k (fm_detector t) = (if w = v_address v \<and> k = h_index h then Some (h_hash h) else signed_at w k (fm_detector s))"
    by (simp only: d)
  show "map_of (certs_by_hash s) (h_hash h) \<noteq> None \<or> map_of (certs_by_hash t) (h_hash h) \<noteq> None \<or>
      dict_get (pending_power t) (h_hash h) 0 = dict_get (pending_power s) (h_hash h) 0 + voting_power v"
    using t by (auto simp: Let_def with_vote_def persist_certificates_def finalize_block_def add_certificate_def new_certificate_def
        update_conv' split: if_splits)
  show "short_of_quorum (h_hash h) t"
    using t by (auto simp: Let_def with_vote_def persist_certificates_def finalize_block_def add_certificate_def new_certificate_def
        update_conv' short_of_quorum_def split: if_splits)
qed

lemma votes_reach_quorum:
  assumes "finality_ok verify idx s" and "h_index h = idx (h_hash h)" "0 \<le> h_index h" "h_hash h \<noteq> []"
    and "\<forall>x \<in> set xs. may_vote verify h s x" and "distinct (map (\<lambda>(now, v, sig). v_address v) xs)"
    and "short_of_quorum (h_hash h) s"
    and "quorum_power s \<le> dict_get (pending_power s) (h_hash h) 0 + sum_list (map (\<lambda>(now, v, sig). voting_power v) xs)
      \<or> map_of (certs_by_hash s) (h_hash h) \<noteq> None"
  shows "map_of (certs_by_hash (run_votes verify (map (vote_of h) xs) s)) (h_hash h) \<noteq> None"
  using assms
proof (induction xs arbitrary: s)
  case Nil
  then show ?case by (auto simp: run_votes_def short_of_quorum_def)
next
  case (Cons x xs)
  obtain now v sig where x: "x = (now, v, sig)" by (cases x)
  obtain r t where run: "record_vote verify now (v_address v) h sig s = (r, t)" by fastforce
  have may: "may_vote verify h s (now, v, sig)" using Cons.prems(5) x by simp
  note R = vote_counts [OF Cons.prems(1-4) may run]
  from record_vote_ok [OF Cons.prems(1,2) run] have t: "finality_ok verify idx t" "grows s t" by blast+
  have "\<forall>y \<in> set xs. may_vote verify h t y"
  proof
    fix y
    assume y: "y \<in> set xs"
    then have "may_vote verify h s y" using Cons.prems(5) by simp
    moreover have "v_address (fst (snd y)) \<in> (\<lambda>(now, v, sig). v_address v) ` set xs"
      using y by (intro image_eqI [of _ _ y]) (auto simp: split_beta)
    moreover have "v_address v \<notin> (\<lambda>(now, v, sig). v_address v) ` set xs" using Cons.prems(6) by (simp add: x)
    ultimately have "may_vote verify h s y" "v_address (fst (snd y)) \<noteq> v_address v" by metis+
    then show "may_vote verify h t y"
      using R(1) t(2) by (auto simp: may_vote_def grows_def split: prod.splits)
  qed
  moreover have "map_of (certs_by_hash s) (h_hash h) \<noteq> None \<Longrightarrow> map_of (certs_by_hash t) (h_hash h) \<noteq> None"
    using t(2) by (auto simp: grows_def)
  then have "quorum_power t \<le> dict_get (pending_power t) (h_hash h) 0 + sum_list (map (\<lambda>(now, v, sig). voting_power v) xs)
      \<or> map_of (certs_by_hash t) (h_hash h) \<noteq> None"
    using R(2) Cons.prems(8) t(2) by (auto simp: x grows_def)
  ultimately have "map_of (certs_by_hash (run_votes verify (map (vote_of h) xs) t)) (h_hash h) \<noteq> None"
    using Cons.IH [OF t(1) Cons.prems(2-4) _ _ R(3)] Cons.prems(6) by (simp add: x)
  then show ?case by (simp add: run_votes_Cons x run)
qed

text \<open>
  C20: Whatever was recorded before, when validators that have not voted at the height of a block
  yet and whose power reaches the quorum all vote for it with valid signatures, the block is final.
\<close>

theorem finality_live:
  assumes "finality_ok verify idx s" and "h_index h = idx (h_hash h)" "0 \<le> h_index h" "h_hash h \<noteq> []"
    and "\<forall>x \<in> set xs. may_vote verify h s x" and "distinct (map (\<lambda>(now, v, sig). v_address v) xs)" and "xs \<noteq> []"
    and "quorum_power s \<le> sum_list (map (\<lambda>(now, v, sig). voting_power v) xs)"
  shows "is_finalized (Some (h_hash h)) None (run_votes verify (map (vote_of h) xs) s)"
proof -
  have "0 \<le> dict_get (pending_power s) (h_hash h) 0"
    using finality_okD(4) [OF assms(1), of "h_hash h"] power_at_nonneg [OF finality_okD(1) [OF assms(1)]]
    by (auto simp: vote_power_def intro!: sum_list_nonneg)
  then have q: "quorum_power s \<le> dict_get (pending_power s) (h_hash h) 0 + sum_list (map (\<lambda>(now, v, sig). voting_power v) xs)"
    using assms(8) by simp
  have "map_of (certs_by_hash (run_votes verify (map (vote_of h) xs) s)) (h_hash h) \<noteq> None"
  proof (cases "short_of_quorum (h_hash h) s")
    case True
    from votes_reach_quorum [OF assms(1-6) True] q show ?thesis by blast
  next
    case False
    obtain now v sig ys where xs: "xs = (now, v, sig) # ys" using assms(7) by (cases xs) auto
    obtain r t where run: "record_vote verify now (v_address v) h sig s = (r, t)" by fastforce
    have may: "may_vote verify h s (now, v, sig)" using assms(5) xs by simp
    note R = vote_counts [OF assms(1-4) may run]
    have t: "finality_ok verify idx t" "grows s t" using record_vote_ok [OF assms(1,2) run] by blast+
    have "0 < voting_power v"
      using may finality_okD(1) [OF assms(1)] by (auto simp: may_vote_def roster_ok_def dest!: map_of_SomeD)
    then have "map_of (certs_by_hash t) (h_hash h) \<noteq> None"
      using False R(2,3) t(2) by (auto simp: short_of_quorum_def grows_def)
    moreover have "\<forall>k \<in> headers (map (vote_of h) ys). h_index k = idx (h_hash k)"
      using assms(2) headers_vote_of by blast
    with run_votes_ok [OF t(1)] have "grows t (run_votes verify (map (vote_of h) ys) t)" by blast
    ultimately show ?thesis by (auto simp: run_votes_Cons xs run grows_def)
  qed
  then show ?thesis by (simp add: is_finalized_def map_of_eq_None_iff)
qed

theorem finality_live_witness:
  "is_finalized (Some ''x'') None (run_votes all_valid (map (vote_of \<lparr>h_hash = ''x'', h_index = 5\<rparr>)
     [(0, \<lparr>v_address = ''0xA'', v_public_key = ''0xA'', voting_power = 1\<rparr>, ''s''),
      (0, \<lparr>v_address = ''0xC'', v_public_key = ''0xC'', voting_power = 1\<rparr>, ''s'')]) sample_finality)"
proof -
  have l: "to_lower ''0xA'' = ''0xa''" "to_lower ''0xC'' = ''0xc''" by code_simp+
  have "signed_at a k new_detector = None" for a k by (simp add: signed_at_def new_detector_def)
  then show ?thesis
    using finality_live [OF new_finality_ok [OF sample_new], of "\<lparr>h_hash = ''x'', h_index = 5\<rparr>" "\<lambda>_. 5"
        "[(0, \<lparr>v_address = ''0xA'', v_public_key = ''0xA'', voting_power = 1\<rparr>, ''s''),
          (0, \<lparr>v_address = ''0xC'', v_public_key = ''0xC'', voting_power = 1\<rparr>, ''s'')]" all_valid]
    by (simp add: may_vote_def all_valid_def sample_finality_def l)
qed

end
