(* ===== verification/Merkle.thy ===== *)
theory Merkle
  imports PyDict
begin

text \<open>
  The Merkle tree over the transactions of a block (\<open>blockchain_components/block.py\<close>): root,
  inclusion proofs and their verification. Hashes are hexadecimal texts; the argument \<open>H\<close>
  stands for \<open>hashlib.sha256(s.encode()).hexdigest()\<close>. A level of odd length repeats its last
  hash.
\<close>

section \<open>The tree\<close>

text \<open>A transaction as the block sees it: its id, if set, and what \<open>calculate_hash\<close> returns.\<close>

record tx =
  txid :: "string option"
  tx_hash :: string

definition pad_level :: "'a list \<Rightarrow> 'a list" where
  "pad_level xs = (if odd (length xs) then xs @ [last xs] else xs)"

fun pair_hashes :: "(string \<Rightarrow> string) \<Rightarrow> string list \<Rightarrow> string list" where
  "pair_hashes H (a # b # xs) = H (a @ b) # pair_hashes H xs"
| "pair_hashes H xs = []"

definition next_level :: "(string \<Rightarrow> string) \<Rightarrow> string list \<Rightarrow> string list" where
  "next_level H xs = pair_hashes H (pad_level xs)"

lemma length_pair_hashes [simp]: "length (pair_hashes H xs) = length xs div 2"
  by (induction H xs rule: pair_hashes.induct) auto

lemma length_pad_level [simp]: "length (pad_level xs) = 2 * ((length xs + 1) div 2)"
  by (auto simp: pad_level_def elim: oddE)

lemma length_next_level [simp]: "length (next_level H xs) = (length xs + 1) div 2"
  by (simp add: next_level_def)

function fold_levels :: "(string \<Rightarrow> string) \<Rightarrow> string list \<Rightarrow> string" where
  "fold_levels H xs = (if length xs > 1 then fold_levels H (next_level H xs) else hd xs)"
  by pat_completeness auto
termination by (relation "measure (\<lambda>(H, xs). length xs)") auto

declare fold_levels.simps [simp del]

text \<open>Reading the ids sets the missing ones.\<close>

definition txid_of :: "tx \<Rightarrow> string" where
  "txid_of t = (case txid t of Some i \<Rightarrow> i | None \<Rightarrow> tx_hash t)"

definition set_txid :: "tx \<Rightarrow> tx" where
  "set_txid t = t\<lparr>txid := Some (txid_of t)\<rparr>"

definition calculate_merkle_root :: "(string \<Rightarrow> string) \<Rightarrow> (tx list, string) meth" where
  "calculate_merkle_root H txs =
     (if txs = [] then (Inr (H []), txs) else (Inr (fold_levels H (map txid_of txs)), map set_txid txs))"

section \<open>Inclusion proofs\<close>

text \<open>The loop over the transactions keeps the last index with the id.\<close>

fun last_index :: "string \<Rightarrow> string list \<Rightarrow> nat \<Rightarrow> nat option \<Rightarrow> nat option" where
  "last_index t [] i found = found"
| "last_index t (x # xs) i found = last_index t xs (i + 1) (if x = t then Some i else found)"

function proof_levels :: "(string \<Rightarrow> string) \<Rightarrow> string list \<Rightarrow> nat \<Rightarrow> (string \<times> bool) list" where
  "proof_levels H xs i =
     (if length xs > 1 then
        let ys = pad_level xs;
            step = (if even i then (ys ! (i + 1), True) else (ys ! (i - 1), False))
        in step # proof_levels H (pair_hashes H ys) (i div 2)
      else [])"
  by pat_completeness auto
termination by (relation "measure (\<lambda>(H, xs, i). length xs)") auto

declare proof_levels.simps [simp del]

definition generate_merkle_proof :: "(string \<Rightarrow> string) \<Rightarrow> string \<Rightarrow> (tx list, (string \<times> bool) list) meth" where
  "generate_merkle_proof H t txs =
     (if txs = [] then (Inl ValueError, txs)
      else let ids = map txid_of txs in
        (case last_index t ids 0 None of
           None \<Rightarrow> Inl ValueError
         | Some i \<Rightarrow> Inr (proof_levels H ids i), map set_txid txs))"

fun combine :: "string \<Rightarrow> string \<times> bool \<Rightarrow> string" where
  "combine current (sibling, is_right) = (if is_right then current @ sibling else sibling @ current)"

definition verify_merkle_proof :: "(string \<Rightarrow> string) \<Rightarrow> string \<Rightarrow> string \<Rightarrow> (string \<times> bool) list \<Rightarrow> bool" where
  "verify_merkle_proof H t merkle_root path = (fold (\<lambda>p current. H (combine current p)) path t = merkle_root)"

section \<open>Proofs verify\<close>

lemma last_index_Some:
  "last_index t xs i found = Some k \<Longrightarrow> found = Some k \<or> (i \<le> k \<and> k < i + length xs \<and> xs ! (k - i) = t)"
proof (induction xs arbitrary: i found)
  case (Cons x xs)
  from Cons.IH [of "i + 1" "if x = t then Some i else found"] Cons.prems
  have "(if x = t then Some i else found) = Some k \<or> (i + 1 \<le> k \<and> k < i + 1 + length xs \<and> xs ! (k - (i + 1)) = t)"
    by simp
  then show ?case by (auto split: if_splits simp: nth_Cons')
qed simp

lemma last_index_None: "last_index t xs i found = None \<longleftrightarrow> found = None \<and> t \<notin> set xs"
  by (induction xs arbitrary: i found) auto

lemma pair_hashes_nth: "i < length xs div 2 \<Longrightarrow> pair_hashes H xs ! i = H (xs ! (2 * i) @ xs ! (2 * i + 1))"
proof (induction H xs arbitrary: i rule: pair_hashes.induct)
  case (1 H a b xs)
  then show ?case by (cases i) simp_all
qed simp_all

lemma pad_level_nth: "i < length xs \<Longrightarrow> pad_level xs ! i = xs ! i"
  by (simp add: pad_level_def nth_append)

lemma proof_levels_verify:
  "i < length xs \<Longrightarrow> fold (\<lambda>p current. H (combine current p)) (proof_levels H xs i) (xs ! i) = fold_levels H xs"
proof (induction H xs i rule: proof_levels.induct)
  case (1 H xs i)
  show ?case
  proof (cases "length xs > 1")
    case True
    let ?ys = "pad_level xs"
    have i2: "i div 2 < length (pair_hashes H ?ys)" using 1(2) by simp
    then have "pair_hashes H ?ys ! (i div 2) = H (?ys ! (2 * (i div 2)) @ ?ys ! (2 * (i div 2) + 1))"
      by (intro pair_hashes_nth) (use 1(2) in simp)
    also have "\<dots> = H (combine (xs ! i) (if even i then (?ys ! (i + 1), True) else (?ys ! (i - 1), False)))"
      using 1(2) by (auto simp: pad_level_nth elim!: evenE oddE)
    finally show ?thesis
      using 1(1) [OF True refl refl i2] True
      by (simp add: proof_levels.simps [of H xs i] fold_levels.simps [of H xs] Let_def next_level_def)
  next
    case False
    with 1(2) show ?thesis
      by (cases xs) (simp_all add: proof_levels.simps fold_levels.simps)
  qed
qed


section \<open>Only members verify\<close>

text \<open>The number of levels above the hashes, and the texts that are hashed on the way to the root.\<close>

function depth :: "nat \<Rightarrow> nat" where
  "depth n = (if n > 1 then depth ((n + 1) div 2) + 1 else 0)"
  by pat_completeness auto
termination by (relation "measure id") auto

declare depth.simps [simp del]

fun pair_inputs :: "string list \<Rightarrow> string list" where
  "pair_inputs (a # b # xs) = (a @ b) # pair_inputs xs"
| "pair_inputs xs = []"

function tree_inputs :: "(string \<Rightarrow> string) \<Rightarrow> string list \<Rightarrow> string list" where
  "tree_inputs H xs = (if length xs > 1 then pair_inputs (pad_level xs) @ tree_inputs H (next_level H xs) else [])"
  by pat_completeness auto
termination by (relation "measure (\<lambda>(H, xs). length xs)") auto

declare tree_inputs.simps [simp del]

fun path_inputs :: "(string \<Rightarrow> string) \<Rightarrow> string \<Rightarrow> (string \<times> bool) list \<Rightarrow> string list" where
  "path_inputs H t [] = []"
| "path_inputs H t (p # ps) = combine t p # path_inputs H (H (combine t p)) ps"

lemma pair_hashes_inputs: "pair_hashes H xs = map H (pair_inputs xs)"
  by (induction H xs rule: pair_hashes.induct) simp_all

lemma pair_inputs_member: "c \<in> set (pair_inputs xs) \<Longrightarrow> \<exists>a \<in> set xs. \<exists>b \<in> set xs. c = a @ b"
  by (induction xs rule: pair_inputs.induct) auto

lemma set_pad_level [simp]: "set (pad_level xs) = set xs"
  by (cases xs rule: rev_cases) (auto simp: pad_level_def)

lemma combine_member:
  assumes "combine t p = a @ b" and "length t = n" "length (fst p) = n" "length a = n" "length b = n"
  shows "t = a \<or> t = b"
  using assms by (cases p) (auto split: if_splits)

lemma path_sound:
  assumes "\<forall>x. length (H x) = n" and "\<forall>x \<in> set xs. length x = n" and "length t = n" and "\<forall>p \<in> set path. length (fst p) = n"
    and "inj_on H (set (tree_inputs H xs) \<union> set (path_inputs H t path))"
    and "length path = depth (length xs)" and "xs \<noteq> []"
    and "fold (\<lambda>p current. H (combine current p)) path t = fold_levels H xs"
  shows "t \<in> set xs"
  using assms
proof (induction H xs arbitrary: t path rule: fold_levels.induct)
  case (1 H xs)
  show ?case
  proof (cases "length xs > 1")
    case True
    then obtain p ps where path: "path = p # ps" using "1.prems"(6) by (cases path) (simp_all add: depth.simps [of "length xs"])
    let ?t = "H (combine t p)"
    have T: "tree_inputs H xs = pair_inputs (pad_level xs) @ tree_inputs H (next_level H xs)"
      using True by (simp add: tree_inputs.simps [of H xs])
    have level: "next_level H xs = map H (pair_inputs (pad_level xs))" by (simp add: next_level_def pair_hashes_inputs)
    have "?t \<in> set (next_level H xs)"
    proof (rule "1.IH" [OF True])
      show "\<forall>x \<in> set (next_level H xs). length x = n" using "1.prems"(1) by (auto simp: level)
      show "inj_on H (set (tree_inputs H (next_level H xs)) \<union> set (path_inputs H ?t ps))"
        using "1.prems"(5) by (rule inj_on_subset) (auto simp: T path)
      show "length ps = depth (length (next_level H xs))"
        using "1.prems"(6) True by (simp add: path depth.simps [of "length xs"])
      have "0 < length (next_level H xs)" using True by simp
      then show "next_level H xs \<noteq> []" by blast
      show "fold (\<lambda>p current. H (combine current p)) ps ?t = fold_levels H (next_level H xs)"
        using "1.prems"(8) True by (simp add: path fold_levels.simps [of H xs])
    qed (use "1.prems" path in auto)
    then obtain c where c: "c \<in> set (pair_inputs (pad_level xs))" "H c = ?t" by (auto simp: level)
    then have "c = combine t p" using "1.prems"(5) by (auto simp: T path inj_on_def)
    moreover obtain a b where "a \<in> set xs" "b \<in> set xs" "c = a @ b" using pair_inputs_member [OF c(1)] by auto
    ultimately show ?thesis using combine_member [of t p a b n] "1.prems"(2,3,4) path by auto
  next
    case False
    then have "length xs = 1" using "1.prems"(7) by (cases xs) auto
    then obtain x where "xs = [x]" by (auto simp: length_Suc_conv)
    with "1.prems"(6,8) show ?thesis by (simp add: depth.simps fold_levels.simps)
  qed
qed

section \<open>Properties\<close>

text \<open>
  C21: A proof exists for every transaction of a block and for no other, and it verifies against
  the block's root.
\<close>

theorem merkle_proof_complete:
  assumes "txs \<noteq> []"
  shows "if t \<in> set (map txid_of txs)
    then \<exists>path merkle_root. fst (generate_merkle_proof H t txs) = Inr path \<and> fst (calculate_merkle_root H txs) = Inr merkle_root \<and>
      length path = depth (length txs) \<and> verify_merkle_proof H t merkle_root path
    else fst (generate_merkle_proof H t txs) = Inl ValueError"
proof (cases "last_index t (map txid_of txs) 0 None")
  case None
  then have "t \<notin> set (map txid_of txs)" by (simp add: last_index_None)
  with None show ?thesis using assms by (simp add: generate_merkle_proof_def Let_def)
next
  case (Some i)
  then have i: "i < length txs" "map txid_of txs ! i = t"
    using last_index_Some [OF Some] by simp_all
  have "length (proof_levels H xs j) = depth (length xs)" for xs j
    by (induction H xs j rule: proof_levels.induct)
      (simp add: proof_levels.simps depth.simps [of "length _"] Let_def)
  then show ?thesis
    using proof_levels_verify [of i "map txid_of txs" H] i assms Some nth_mem [of i "map txid_of txs"]
    by (auto simp: generate_merkle_proof_def calculate_merkle_root_def verify_merkle_proof_def Let_def)
qed


definition sample_hash256 :: "string \<Rightarrow> string" where
  "sample_hash256 s = take 64 (dec_text (int (length s)) @ replicate 64 (CHR ''0''))"

definition sample_txs :: "tx list" where
  "sample_txs = map (\<lambda>i. \<lparr>txid = Some i, tx_hash = []\<rparr>) [''a'', ''b'', ''c'']"

theorem merkle_proof_complete_witness:
  "\<exists>path merkle_root. fst (generate_merkle_proof sample_hash256 ''c'' sample_txs) = Inr path \<and>
     fst (calculate_merkle_root sample_hash256 sample_txs) = Inr merkle_root \<and> length path = 2 \<and>
     verify_merkle_proof sample_hash256 ''c'' merkle_root path"
proof -
  have "depth (length sample_txs) = 2" by code_simp
  moreover have "sample_txs \<noteq> []" "''c'' \<in> set (map txid_of sample_txs)" by (simp_all add: sample_txs_def txid_of_def)
  ultimately show ?thesis using merkle_proof_complete [of sample_txs "''c''" sample_hash256] by auto
qed

text \<open>
  C22: A path as long as the tree is high that leads from an id to the root of a block proves that
  the id is one of the block's, if hashes have 64 characters, as ids and siblings have, and no two
  of the texts hashed in the tree and along the path collide.
\<close>

theorem merkle_proof_sound:
  assumes "fst (calculate_merkle_root H txs) = Inr merkle_root" and "verify_merkle_proof H t merkle_root path"
    and "txs \<noteq> []" and "length path = depth (length txs)"
    and "\<forall>x. length (H x) = 64" and "\<forall>x \<in> set txs. length (txid_of x) = 64" and "length t = 64"
    and "\<forall>p \<in> set path. length (fst p) = 64"
    and "inj_on H (set (tree_inputs H (map txid_of txs)) \<union> set (path_inputs H t path))"
  shows "\<exists>x \<in> set txs. txid_of x = t"
proof -
  have "merkle_root = fold_levels H (map txid_of txs)"
    using assms(1,3) by (simp add: calculate_merkle_root_def)
  with path_sound [OF assms(5) _ assms(7,8,9)] assms show ?thesis
    by (force simp: verify_merkle_proof_def)
qed

text \<open>The hash of the example tells texts apart by their first character.\<close>

definition first_hash :: "string \<Rightarrow> string" where
  "first_hash s = replicate 64 (case s of [] \<Rightarrow> CHR ''0'' | c # cs \<Rightarrow> c)"

theorem merkle_proof_sound_witness:
  "\<exists>x \<in> set (map (\<lambda>c. \<lparr>txid = Some (replicate 64 c), tx_hash = []\<rparr>) ''ab''). txid_of x = replicate 64 (CHR ''b'')"
proof -
  let ?txs = "map (\<lambda>c. \<lparr>txid = Some (replicate 64 c), tx_hash = []\<rparr>) ''ab''"
  let ?a = "replicate 64 (CHR ''a'')" and ?b = "replicate 64 (CHR ''b'')"
  have ids: "map txid_of ?txs = [?a, ?b]" by (simp add: txid_of_def)
  have inputs: "tree_inputs first_hash [?a, ?b] = [?a @ ?b]"
    by (simp only: tree_inputs.simps [of first_hash "[?a, ?b]"])
      (simp add: pad_level_def tree_inputs.simps [of first_hash "next_level first_hash [?a, ?b]"])
  have "fst (calculate_merkle_root first_hash ?txs) = Inr (first_hash (?a @ ?b))"
    unfolding calculate_merkle_root_def ids
    by (simp only: fold_levels.simps [of first_hash "[?a, ?b]"])
      (simp add: next_level_def pad_level_def fold_levels.simps [of first_hash "[first_hash _]"])
  moreover have "verify_merkle_proof first_hash ?b (first_hash (?a @ ?b)) [(?a, False)]"
    by (simp add: verify_merkle_proof_def)
  moreover have "depth 2 = 1" by code_simp
  ultimately show ?thesis
    using merkle_proof_sound [of first_hash ?txs "first_hash (?a @ ?b)" ?b "[(?a, False)]"] inputs
    unfolding ids by (simp add: first_hash_def txid_of_def)
qed

text \<open>
  Two blocks with one root: repeating the last transaction of a block with an odd number of them,
  more than one, does not change the root.
\<close>

lemma duplicate_keeps_root:
  assumes "odd (length txs)" and "1 < length txs"
  shows "fst (calculate_merkle_root H (txs @ [last txs])) = fst (calculate_merkle_root H txs)"
proof -
  let ?ids = "map txid_of txs"
  have "next_level H (?ids @ [last ?ids]) = next_level H ?ids"
    using assms(1) by (simp add: next_level_def pad_level_def)
  moreover have "map txid_of (txs @ [last txs]) = ?ids @ [last ?ids]" using assms(2) by (cases "txs = []") (simp_all add: last_map)
  ultimately show ?thesis
    using assms(2) by (auto simp: calculate_merkle_root_def fold_levels.simps [of H "?ids @ _"] fold_levels.simps [of H ?ids])
qed

text \<open>The length of a path is not checked: the hash of two ids verifies as an id itself.\<close>

lemma inner_hash_verifies:
  "verify_merkle_proof H (H (a @ b)) (fold_levels H [a, b, c, d]) [(H (c @ d), True)]"
  by (simp add: verify_merkle_proof_def fold_levels.simps next_level_def pad_level_def)

end
