(* ===== verification/BlockHeader.thy ===== *)
theory BlockHeader
  imports Merkle PyFloat
begin

text \<open>
  \<open>BlockHeader\<close> of \<open>chain/block_header.py\<close> with its validation and its hash over canonical
  JSON, and the parts of \<open>Block\<close> (\<open>blockchain_components/block.py\<close>) that work on the header:
  setters, signature, miner and the search for a proof of work. \<open>S\<close> stands for
  \<open>hashlib.sha256(s.encode()).hexdigest()\<close> and \<open>F\<close> for the shortest text of a float that reads
  back the same (\<open>float.__repr__\<close>).
\<close>

section \<open>Canonical JSON of a header\<close>

definition json_char :: "char \<Rightarrow> string" where
  "json_char c =
     (let n = of_char c :: nat; b = CHR 0x5C in
      if n = 0x22 then [b, c] else if n = 0x5C then [b, b]
      else if n = 0x0A then [b, CHR ''n''] else if n = 0x0D then [b, CHR ''r''] else if n = 0x09 then [b, CHR ''t'']
      else if n = 0x0C then [b, CHR ''f''] else if n = 0x08 then [b, CHR ''b'']
      else if n < 0x20 \<or> n \<ge> 0x7F then [b, CHR ''u'', CHR ''0'', CHR ''0'', hex_digit (n div 16), hex_digit (n mod 16)]
      else [c])"

definition json_string :: "string \<Rightarrow> string" where
  "json_string s = [CHR 0x22] @ concat (map json_char s) @ [CHR 0x22]"

text \<open>An object: the keys, sorted already, with the texts of their values.\<close>

primrec json_members :: "(string \<times> string) list \<Rightarrow> string" where
  "json_members [] = []"
| "json_members (m # ms) = json_string (fst m) @ '':'' @ snd m @ (if ms = [] then [] else '','' @ json_members ms)"

definition json_object :: "(string \<times> string) list \<Rightarrow> string" where
  "json_object ms = ''{'' @ json_members ms @ ''}''"

section \<open>Headers\<close>

record header =
  hd_index :: int
  hd_previous_hash :: string
  hd_merkle_root :: string
  hd_timestamp :: pyfloat
  hd_difficulty :: int
  hd_nonce :: int
  hd_signature :: "string option"
  hd_miner_pubkey :: "string option"
  hd_version :: int
  hash_includes_version :: bool
  hd_hash :: string

definition header_text :: "(pyfloat \<Rightarrow> string) \<Rightarrow> header \<Rightarrow> string" where
  "header_text F h = json_object
     ([(''difficulty'', dec_text (hd_difficulty h)), (''index'', dec_text (hd_index h)),
       (''merkle_root'', json_string (hd_merkle_root h)), (''nonce'', dec_text (hd_nonce h)),
       (''previous_hash'', json_string (hd_previous_hash h)), (''timestamp'', F (hd_timestamp h))]
      @ (if hash_includes_version h then [(''version'', dec_text (hd_version h))] else []))"

definition header_hash :: "(string \<Rightarrow> string) \<Rightarrow> (pyfloat \<Rightarrow> string) \<Rightarrow> header \<Rightarrow> string" where
  "header_hash S F h = S (header_text F h)"

text \<open>Both hashes must be 64 characters that \<open>int(s, 16)\<close> reads, ASCII and without a null.\<close>

definition check_hash_text :: "string option \<Rightarrow> exn + string" where
  "check_hash_text s =
     (case s of
        None \<Rightarrow> Inl ValueError
      | Some t \<Rightarrow> if length t \<noteq> 64 then Inl ValueError
          else if (case parse_int 16 t of Inl e \<Rightarrow> True | Inr v \<Rightarrow> False) then Inl ValueError
          else if CHR 0x00 \<in> set t \<or> \<not> (\<forall>c \<in> set t. (of_char c :: nat) < 128) then Inl ValueError
          else Inr t)"

definition MAX_SAFE_TIMESTAMP :: rat where "MAX_SAFE_TIMESTAMP = 253402300799"

definition check_timestamp :: "pyfloat option \<Rightarrow> exn + pyfloat" where
  "check_timestamp t =
     (case t of
        None \<Rightarrow> Inl ValueError
      | Some x \<Rightarrow> if x = NaN \<or> x = PosInf \<or> x = NegInf then Inl ValueError
          else if float_less (Fin MAX_SAFE_TIMESTAMP) x then Inl OverflowError else Inr x)"

definition check_count :: "int option \<Rightarrow> exn + int" where
  "check_count n = (case n of None \<Rightarrow> Inl ValueError | Some i \<Rightarrow> if i < 0 then Inl ValueError else Inr i)"

definition bind_check :: "exn + 'a \<Rightarrow> ('a \<Rightarrow> exn + 'b) \<Rightarrow> exn + 'b" where
  "bind_check r f = (case r of Inl e \<Rightarrow> Inl e | Inr a \<Rightarrow> f a)"

text \<open>\<open>BlockHeader(...)\<close>; \<open>default_version\<close> is the configured one.\<close>

definition new_header ::
    "(string \<Rightarrow> string) \<Rightarrow> (pyfloat \<Rightarrow> string) \<Rightarrow> int \<Rightarrow> int option \<Rightarrow> string option \<Rightarrow> string option \<Rightarrow> pyfloat option \<Rightarrow>
     int option \<Rightarrow> int option \<Rightarrow> string option \<Rightarrow> string option \<Rightarrow> int option \<Rightarrow> exn + header" where
  "new_header S F default_version index previous merkle time difficulty nonce sig pubkey version =
     bind_check (check_count index) (\<lambda>i.
     bind_check (check_hash_text previous) (\<lambda>p.
     bind_check (check_hash_text merkle) (\<lambda>m.
     bind_check (check_timestamp time) (\<lambda>t.
     bind_check (check_count difficulty) (\<lambda>d.
     bind_check (check_count nonce) (\<lambda>n.
     let h = \<lparr>hd_index = i, hd_previous_hash = p, hd_merkle_root = m, hd_timestamp = t, hd_difficulty = d, hd_nonce = n,
              hd_signature = sig, hd_miner_pubkey = pubkey,
              hd_version = (case version of None \<Rightarrow> default_version | Some v \<Rightarrow> v),
              hash_includes_version = (version \<noteq> None), hd_hash = []\<rparr>
     in Inr (h\<lparr>hd_hash := header_hash S F h\<rparr>)))))))"

section \<open>Blocks\<close>

record block =
  bl_header :: header
  bl_transactions :: "tx list"
  bl_miner :: "string option"

text \<open>The setters of time, difficulty and nonce hash anew; those of index and previous hash do not.\<close>

definition rehash :: "(string \<Rightarrow> string) \<Rightarrow> (pyfloat \<Rightarrow> string) \<Rightarrow> header \<Rightarrow> header" where
  "rehash S F h = h\<lparr>hd_hash := header_hash S F h\<rparr>"

definition set_timestamp :: "(string \<Rightarrow> string) \<Rightarrow> (pyfloat \<Rightarrow> string) \<Rightarrow> pyfloat \<Rightarrow> block \<Rightarrow> block" where
  "set_timestamp S F x b = b\<lparr>bl_header := rehash S F ((bl_header b)\<lparr>hd_timestamp := x\<rparr>)\<rparr>"

definition set_difficulty :: "(string \<Rightarrow> string) \<Rightarrow> (pyfloat \<Rightarrow> string) \<Rightarrow> int \<Rightarrow> block \<Rightarrow> block" where
  "set_difficulty S F d b = b\<lparr>bl_header := rehash S F ((bl_header b)\<lparr>hd_difficulty := d\<rparr>)\<rparr>"

definition set_block_nonce :: "(string \<Rightarrow> string) \<Rightarrow> (pyfloat \<Rightarrow> string) \<Rightarrow> int \<Rightarrow> block \<Rightarrow> block" where
  "set_block_nonce S F n b = b\<lparr>bl_header := rehash S F ((bl_header b)\<lparr>hd_nonce := n\<rparr>)\<rparr>"

definition set_index :: "int \<Rightarrow> block \<Rightarrow> block" where
  "set_index i b = b\<lparr>bl_header := (bl_header b)\<lparr>hd_index := i\<rparr>\<rparr>"

definition set_previous_hash :: "string \<Rightarrow> block \<Rightarrow> block" where
  "set_previous_hash p b = b\<lparr>bl_header := (bl_header b)\<lparr>hd_previous_hash := p\<rparr>\<rparr>"

text \<open>\<open>sender_recipient\<close> reads sender and recipient of a transaction. An empty text counts as none.\<close>

definition block_miner :: "(tx \<Rightarrow> string \<times> string) \<Rightarrow> block \<Rightarrow> string option" where
  "block_miner sender_recipient b =
     (case bl_miner b of
        Some (c # cs) \<Rightarrow> Some (c # cs)
      | _ \<Rightarrow> (case hd_miner_pubkey (bl_header b) of
          Some (c # cs) \<Rightarrow> Some (c # cs)
        | _ \<Rightarrow> (case bl_transactions b of
            [] \<Rightarrow> None
          | t # ts \<Rightarrow> if fst (sender_recipient t) = ''COINBASE'' then Some (snd (sender_recipient t)) else None)))"

definition sign_block :: "(string \<Rightarrow> byte list \<Rightarrow> string) \<Rightarrow> string \<Rightarrow> block \<Rightarrow> block" where
  "sign_block sign key b = b\<lparr>bl_header := (bl_header b)\<lparr>hd_signature := Some (sign key (utf8 (hd_hash (bl_header b))))\<rparr>\<rparr>"

definition verify_block_signature :: "(string \<Rightarrow> byte list \<Rightarrow> string \<Rightarrow> bool) \<Rightarrow> string \<Rightarrow> block \<Rightarrow> bool" where
  "verify_block_signature verify key b =
     (case (hd_signature (bl_header b), hd_miner_pubkey (bl_header b)) of
        (Some sig, Some p) \<Rightarrow> verify key (utf8 (hd_hash (bl_header b))) sig
      | _ \<Rightarrow> False)"

section \<open>Mining\<close>

partial_function (option) mine_from :: "(string \<Rightarrow> string) \<Rightarrow> (pyfloat \<Rightarrow> string) \<Rightarrow> string \<Rightarrow> header \<Rightarrow> header option" where
  "mine_from S F target h =
     (if starts_with target (hd_hash h) then Some h
      else mine_from S F target (rehash S F (h\<lparr>hd_nonce := hd_nonce h + 1\<rparr>)))"

definition mine_block :: "(string \<Rightarrow> string) \<Rightarrow> (pyfloat \<Rightarrow> string) \<Rightarrow> int option \<Rightarrow> block \<Rightarrow> block option" where
  "mine_block S F difficulty b =
     (let d = (case difficulty of None \<Rightarrow> hd_difficulty (bl_header b) | Some d \<Rightarrow> d) in
      map_option (\<lambda>h. b\<lparr>bl_header := h\<rparr>)
        (mine_from S F (replicate (nat d) (CHR ''0'')) (rehash S F ((bl_header b)\<lparr>hd_nonce := 0\<rparr>))))"


section \<open>The text of a header determines its fields\<close>

lemma hex_digit_inj: "m < 16 \<Longrightarrow> n < 16 \<Longrightarrow> hex_digit m = hex_digit n \<Longrightarrow> m = n"
  by (metis digit_val_hex_digit of_nat_eq_iff option.inject)

lemma nat_of_char_less: "(of_char c :: nat) < 256"
  by (metis of_char_mod_256 mod_less_divisor zero_less_numeral)

lemma nat_of_char_digits: "of_char c div 16 < (16::nat)" "of_char c mod 16 < (16::nat)"
  using nat_of_char_less [of c] by (simp_all add: less_mult_imp_div_less)

text \<open>Reading back the first character.\<close>

fun json_head :: "string \<Rightarrow> char \<times> string" where
  "json_head [] = (CHR 0x00, [])"
| "json_head (a # s) =
     (if a \<noteq> CHR 0x5C then (a, s)
      else if take 1 s = ''n'' then (CHR 0x0A, drop 1 s) else if take 1 s = ''r'' then (CHR 0x0D, drop 1 s)
      else if take 1 s = ''t'' then (CHR 0x09, drop 1 s) else if take 1 s = ''f'' then (CHR 0x0C, drop 1 s)
      else if take 1 s = ''b'' then (CHR 0x08, drop 1 s)
      else if take 1 s = ''u'' then (char_of (nat (16 * the (digit_val (s ! 3)) + the (digit_val (s ! 4)))), drop 5 s)
      else (hd s, drop 1 s))"

lemma json_short_chars:
  assumes "(of_char c :: nat) \<in> {0x22, 0x5C, 0x0A, 0x0D, 0x09, 0x0C, 0x08}"
  shows "c \<in> {CHR 0x22, CHR 0x5C, CHR 0x0A, CHR 0x0D, CHR 0x09, CHR 0x0C, CHR 0x08}"
proof -
  have "c = char_of (of_char c :: nat)" by simp
  also have "\<dots> \<in> char_of ` {0x22, 0x5C, 0x0A, 0x0D, 0x09, 0x0C, 0x08 :: nat}" using assms by (rule imageI)
  finally show ?thesis by (simp add: char_of_def bit_0)
qed

lemma json_head_char: "json_head (json_char c @ x) = (c, x)"
proof (cases "(of_char c :: nat) \<in> {0x22, 0x5C, 0x0A, 0x0D, 0x09, 0x0C, 0x08}")
  case True
  then have "c \<in> {CHR 0x22, CHR 0x5C, CHR 0x0A, CHR 0x0D, CHR 0x09, CHR 0x0C, CHR 0x08}"
    by (rule json_short_chars)
  then show ?thesis by (elim insertE emptyE) (simp_all add: json_char_def Let_def)
next
  case False
  show ?thesis
  proof (cases "(of_char c :: nat) < 0x20 \<or> (of_char c :: nat) \<ge> 0x7F")
    case True
    note d = nat_of_char_digits [of c]
    have "nat (16 * the (digit_val (hex_digit (of_char c div 16))) + the (digit_val (hex_digit (of_char c mod 16))))
        = 16 * (of_char c div 16) + of_char c mod 16"
      by (simp add: digit_val_hex_digit [OF d(1)] digit_val_hex_digit [OF d(2)] nat_add_distrib nat_mult_distrib)
    then have "char_of (nat (16 * the (digit_val (hex_digit (of_char c div 16)))
        + the (digit_val (hex_digit (of_char c mod 16))))) = c"
      by simp
    with False True show ?thesis by (simp add: json_char_def Let_def)
  next
    case False
    then have "json_char c = [c]" "c \<noteq> CHR 0x5C"
      using \<open>of_char c \<notin> _\<close> by (simp_all add: json_char_def Let_def) auto
    then show ?thesis by simp
  qed
qed

lemma json_char_inj: "json_char c @ x = json_char d @ y \<Longrightarrow> c = d \<and> x = y"
  by (metis json_head_char prod.inject)

lemma json_chars_inj: "concat (map json_char s) = concat (map json_char t) \<Longrightarrow> s = t"
proof (induction s arbitrary: t)
  case Nil
  then show ?case by (cases t) (auto simp: json_char_def Let_def split: if_splits)
next
  case (Cons c s)
  show ?case
  proof (cases t)
    case Nil
    with Cons.prems show ?thesis by (auto simp: json_char_def Let_def split: if_splits)
  next
    case t: (Cons d t')
    with Cons.prems json_char_inj [of c "concat (map json_char s)" d "concat (map json_char t')"] Cons.IH
    show ?thesis by auto
  qed
qed

lemma json_string_inj: "json_string s = json_string t \<Longrightarrow> s = t"
  using json_chars_inj by (simp add: json_string_def)

lemma json_members_inj:
  assumes "json_members ms = json_members ms'" and "map fst ms = take (length ms) ks" "map fst ms' = take (length ms') ks"
    and "\<forall>m \<in> set ms \<union> set ms'. CHR '','' \<notin> set (snd m)"
  shows "ms = ms'"
  using assms
proof (induction ms arbitrary: ms' ks)
  case Nil
  then show ?case by (cases ms') (simp_all add: json_string_def)
next
  case (Cons m ms)
  show ?case
  proof (cases ms')
    case Nil
    with Cons.prems(1) show ?thesis by (simp add: json_string_def)
  next
    case (Cons n ns)
    obtain k ks' where ks: "ks = k # ks'" using Cons.prems(2) by (cases ks) auto
    have keys: "fst m = k" "fst n = k" "map fst ms = take (length ms) ks'" "map fst ns = take (length ns) ks'"
      using Cons.prems(2,3) Cons ks by auto
    let ?rest = "\<lambda>ms. if ms = [] then [] else '','' @ json_members ms"
    have "snd m @ ?rest ms = snd n @ ?rest ns" using Cons.prems(1) Cons keys by simp
    then have "snd m = snd n \<and> ?rest ms = ?rest ns"
      by (rule no_char_split [where k = "CHR '',''"]) (use Cons.prems(4) Cons in auto)
    moreover from this have "json_members ms = json_members ns" by (auto split: if_splits)
    ultimately show ?thesis
      using Cons.IH [OF _ keys(3,4)] Cons.prems(4) Cons keys(1,2) by (auto intro: prod_eqI)
  qed
qed

lemma json_char_comma: "CHR '','' \<in> set (json_char c) \<Longrightarrow> c = CHR '',''"
proof -
  assume c: "CHR '','' \<in> set (json_char c)"
  have h: "hex_digit (of_char c div 16) \<noteq> CHR '',''" "hex_digit (of_char c mod 16) \<noteq> CHR '',''"
    by (rule hex_digit_neq [OF nat_of_char_digits(1)], simp, rule hex_digit_neq [OF nat_of_char_digits(2)], simp)
  show "c = CHR '',''"
    using c h [symmetric] by (simp add: json_char_def Let_def split: if_splits)
qed

lemma json_string_no_comma: "CHR '','' \<notin> set s \<Longrightarrow> CHR '','' \<notin> set (json_string s)"
  using json_char_comma by (auto simp: json_string_def)

text \<open>What \<open>int(s, 16)\<close> reads holds no comma.\<close>

lemma parse_digits_no_comma: "parse_digits base ok acc s = Inr v \<Longrightarrow> CHR '','' \<notin> set s"
proof (induction base ok acc s rule: parse_digits.induct)
  case (1 base ok acc)
  then show ?case by simp
next
  case (2 base ok acc c cs)
  have d: "digit_val (CHR '','') = None" by code_simp
  show ?case
  proof (cases "c = CHR ''_''")
    case True
    with 2 show ?thesis by (auto split: if_splits)
  next
    case False
    with 2 d show ?thesis by (auto split: option.splits if_splits)
  qed
qed

lemma no_comma_drop:
  assumes "CHR '','' \<notin> set (drop (length p) s)" and "starts_with p s" and "CHR '','' \<notin> set p"
  shows "CHR '','' \<notin> set s"
proof -
  have "s = p @ drop (length p) s" using assms(2) by (metis append_take_drop_id starts_with_def)
  then show ?thesis using assms by (metis Un_iff set_append)
qed

lemma parse_unsigned_no_comma:
  assumes "parse_unsigned 16 s = Inr v"
  shows "CHR '','' \<notin> set s"
proof (cases "starts_with ''0x'' s \<or> starts_with ''0X'' s")
  case True
  have "CHR '','' \<notin> set (drop 2 s)"
  proof (cases "starts_with ''_'' (drop 2 s)")
    case u: True
    with assms True have "parse_digits 16 False 0 (drop 1 (drop 2 s)) = Inr v" by (simp add: parse_unsigned_def Let_def)
    then have "CHR '','' \<notin> set (drop 1 (drop 2 s))" by (rule parse_digits_no_comma)
    then show ?thesis using no_comma_drop [of "''_''" "drop 2 s"] u by simp
  next
    case False
    with assms True have "parse_digits 16 False 0 (drop 2 s) = Inr v" by (simp add: parse_unsigned_def Let_def)
    then show ?thesis by (rule parse_digits_no_comma)
  qed
  with True show ?thesis using no_comma_drop [of "''0x''" s] no_comma_drop [of "''0X''" s] by (auto simp: numeral_2_eq_2)
next
  case False
  with assms have "parse_digits 16 False 0 s = Inr v" by (simp add: parse_unsigned_def)
  then show ?thesis by (rule parse_digits_no_comma)
qed

lemma strip_no_comma: "CHR '','' \<notin> set (strip s) \<Longrightarrow> CHR '','' \<notin> set s"
proof -
  assume a: "CHR '','' \<notin> set (strip s)"
  have sp: "\<not> is_text_space (CHR '','')" by code_simp
  have keep: "CHR '','' \<in> set t \<Longrightarrow> CHR '','' \<in> set (dropWhile is_text_space t)" for t
    using sp by (metis Un_iff set_append set_takeWhileD takeWhile_dropWhile_id)
  show ?thesis using a keep [of s] keep [of "rev (dropWhile is_text_space s)"] by (auto simp: strip_def)
qed

lemma parse_int_no_comma:
  assumes "parse_int 16 s = Inr v"
  shows "CHR '','' \<notin> set s"
proof (rule strip_no_comma)
  let ?t = "strip s"
  show "CHR '','' \<notin> set ?t"
  proof (cases "starts_with ''-'' ?t \<or> starts_with ''+'' ?t")
    case True
    have "\<exists>v. parse_unsigned 16 (drop 1 ?t) = Inr v"
      using assms True by (cases "parse_unsigned 16 (drop 1 ?t)") (auto simp: parse_int_def Let_def split: if_splits)
    then have "CHR '','' \<notin> set (drop 1 ?t)" using parse_unsigned_no_comma by blast
    with True show ?thesis using no_comma_drop [of "''-''" ?t] no_comma_drop [of "''+''" ?t] by auto
  next
    case False
    with assms have "parse_unsigned 16 ?t = Inr v" by (simp add: parse_int_def Let_def)
    then show ?thesis by (rule parse_unsigned_no_comma)
  qed
qed

lemma check_hash_text_no_comma: "check_hash_text x = Inr t \<Longrightarrow> CHR '','' \<notin> set (json_string t)"
  using parse_int_no_comma
  by (auto simp: check_hash_text_def intro!: json_string_no_comma split: option.splits if_splits sum.splits)

section \<open>A header hash commits to the consensus fields\<close>

text \<open>What is needed of the texts of floats: finite ones differ when the floats do, and hold no comma.\<close>

definition float_repr_ok :: "(pyfloat \<Rightarrow> string) \<Rightarrow> bool" where
  "float_repr_ok F \<longleftrightarrow> inj_on F (range Fin) \<and> (\<forall>q. CHR '','' \<notin> set (F (Fin q)))"

definition header_members :: "(pyfloat \<Rightarrow> string) \<Rightarrow> header \<Rightarrow> (string \<times> string) list" where
  "header_members F h =
     [(''difficulty'', dec_text (hd_difficulty h)), (''index'', dec_text (hd_index h)),
       (''merkle_root'', json_string (hd_merkle_root h)), (''nonce'', dec_text (hd_nonce h)),
       (''previous_hash'', json_string (hd_previous_hash h)), (''timestamp'', F (hd_timestamp h))]
      @ (if hash_includes_version h then [(''version'', dec_text (hd_version h))] else [])"

definition valid_header :: "(string \<Rightarrow> string) \<Rightarrow> (pyfloat \<Rightarrow> string) \<Rightarrow> header \<Rightarrow> bool" where
  "valid_header S F h \<longleftrightarrow>
     CHR '','' \<notin> set (json_string (hd_merkle_root h)) \<and> CHR '','' \<notin> set (json_string (hd_previous_hash h)) \<and>
     hd_timestamp h \<in> range Fin \<and> hd_hash h = S (header_text F h)"

lemma new_header_valid: "new_header S F dv i p m t d n sg pk v = Inr h \<Longrightarrow> valid_header S F h"
  by (auto simp: new_header_def bind_check_def valid_header_def header_hash_def header_text_def Let_def
      check_timestamp_def image_iff check_hash_text_no_comma split: sum.splits option.splits if_splits)
    (metis pyfloat.exhaust)+

lemma header_members_inj:
  assumes "valid_header S F h" "valid_header S F h'" and F: "float_repr_ok F" and "header_text F h = header_text F h'"
  shows "header_members F h = header_members F h'"
proof -
  let ?ks = "[''difficulty'', ''index'', ''merkle_root'', ''nonce'', ''previous_hash'', ''timestamp'', ''version'']"
  have "json_members (header_members F h) = json_members (header_members F h')"
    using assms(4) by (simp add: header_text_def json_object_def header_members_def del: json_members.simps)
  then show ?thesis
  proof (rule json_members_inj)
    show "map fst (header_members F h) = take (length (header_members F h)) ?ks"
      "map fst (header_members F h') = take (length (header_members F h')) ?ks"
      by (simp_all add: header_members_def)
    show "\<forall>m \<in> set (header_members F h) \<union> set (header_members F h'). CHR '','' \<notin> set (snd m)"
      using assms(1-3) by (auto simp: header_members_def valid_header_def float_repr_ok_def dec_text_no_comma)
  qed
qed

text \<open>
  C23: The hash of a header commits to what consensus depends on: two headers that \<open>BlockHeader(...)\<close>
  accepts and whose hashes agree, without a collision of SHA-256 on their two texts, agree in index,
  previous hash, merkle root, timestamp, difficulty, nonce and, when it is hashed, version. The
  validation of the two hash texts is what keeps the canonical JSON unambiguous.
\<close>

theorem header_hash_commits:
  assumes "new_header S F dv i p m t d n sg pk v = Inr h" and "new_header S F dv' i' p' m' t' d' n' sg' pk' v' = Inr h'"
    and "hd_hash h = hd_hash h'" and "float_repr_ok F"
    and "S (header_text F h) = S (header_text F h') \<longrightarrow> header_text F h = header_text F h'"
  shows "hd_index h = hd_index h' \<and> hd_previous_hash h = hd_previous_hash h' \<and> hd_merkle_root h = hd_merkle_root h'
    \<and> hd_timestamp h = hd_timestamp h' \<and> hd_difficulty h = hd_difficulty h' \<and> hd_nonce h = hd_nonce h'
    \<and> hash_includes_version h = hash_includes_version h' \<and> (hash_includes_version h \<longrightarrow> hd_version h = hd_version h')"
proof -
  note ok = new_header_valid [OF assms(1)] new_header_valid [OF assms(2)]
  have "header_text F h = header_text F h'" using ok assms(3,5) by (simp add: valid_header_def)
  then have eq: "header_members F h = header_members F h'" by (rule header_members_inj [OF ok assms(4)])
  have "hd_timestamp h = hd_timestamp h'"
    using eq ok assms(4) by (auto simp: header_members_def valid_header_def float_repr_ok_def dest: inj_onD)
  with eq show ?thesis
    by (auto simp: header_members_def dest!: dec_text_inj json_string_inj split: if_splits)
qed

definition sample_float_text :: "pyfloat \<Rightarrow> string" where
  "sample_float_text x =
     (case x of Fin q \<Rightarrow> dec_text (fst (quotient_of q)) @ ''/'' @ dec_text (snd (quotient_of q))
      | PosInf \<Rightarrow> ''Infinity'' | NegInf \<Rightarrow> ''-Infinity'' | NaN \<Rightarrow> ''NaN'')"

lemma sample_float_text_ok: "float_repr_ok sample_float_text"
proof -
  have slash: "CHR ''/'' \<notin> set (dec_text n)" for n by (rule dec_text_plain) simp
  have "x = y" if "sample_float_text (Fin x) = sample_float_text (Fin y)" for x y
  proof -
    have "dec_text (fst (quotient_of x)) @ ''/'' @ dec_text (snd (quotient_of x)) =
        dec_text (fst (quotient_of y)) @ ''/'' @ dec_text (snd (quotient_of y))"
      using that by (simp add: sample_float_text_def)
    from no_char_split [OF this slash slash]
    have "fst (quotient_of x) = fst (quotient_of y) \<and> snd (quotient_of x) = snd (quotient_of y)"
      by (auto dest: dec_text_inj)
    then show ?thesis by (metis prod.expand quotient_of_inject)
  qed
  then show ?thesis using dec_text_no_comma by (auto simp: float_repr_ok_def sample_float_text_def intro!: inj_onI)
qed

definition zeros64 :: string where "zeros64 = replicate 64 (CHR ''0'')"

definition sample_header :: "string option \<Rightarrow> header" where
  "sample_header sg = rehash (\<lambda>s. s) sample_float_text
     \<lparr>hd_index = 5, hd_previous_hash = zeros64, hd_merkle_root = zeros64, hd_timestamp = Fin 3, hd_difficulty = 4, hd_nonce = 7,
      hd_signature = sg, hd_miner_pubkey = None, hd_version = 2, hash_includes_version = True, hd_hash = []\<rparr>"

lemma check_zeros64: "check_hash_text (Some zeros64) = Inr zeros64"
  by code_simp

lemma sample_header_new:
  "new_header (\<lambda>s. s) sample_float_text 1 (Some 5) (Some zeros64) (Some zeros64) (Some (Fin 3)) (Some 4) (Some 7) sg None (Some 2)
     = Inr (sample_header sg)"
  by (simp add: new_header_def bind_check_def check_zeros64 check_count_def check_timestamp_def MAX_SAFE_TIMESTAMP_def
      sample_header_def rehash_def header_hash_def Let_def)

lemma sample_header_text: "header_text F (sample_header sg) = header_text F (sample_header None)"
  by (simp add: sample_header_def rehash_def header_text_def)

theorem header_hash_commits_witness: "hd_nonce (sample_header (Some ''aa'')) = hd_nonce (sample_header None)"
  using header_hash_commits [OF sample_header_new sample_header_new _ sample_float_text_ok, of "Some ''aa''" None]
  by (simp add: sample_header_text sample_header_def rehash_def header_hash_def header_text_def)

text \<open>The search for a proof of work.\<close>

definition at_nonce :: "(string \<Rightarrow> string) \<Rightarrow> (pyfloat \<Rightarrow> string) \<Rightarrow> header \<Rightarrow> int \<Rightarrow> header" where
  "at_nonce S F h n = rehash S F (h\<lparr>hd_nonce := n\<rparr>)"

lemma at_nonce_step: "rehash S F ((at_nonce S F h n)\<lparr>hd_nonce := hd_nonce (at_nonce S F h n) + 1\<rparr>) = at_nonce S F h (n + 1)"
  by (simp add: at_nonce_def rehash_def header_hash_def header_text_def)

lemma mine_from_finds:
  "starts_with target (hd_hash (at_nonce S F h (n + int k))) \<Longrightarrow>
   \<forall>j < k. \<not> starts_with target (hd_hash (at_nonce S F h (n + int j))) \<Longrightarrow>
   mine_from S F target (at_nonce S F h n) = Some (at_nonce S F h (n + int k))"
proof (induction k arbitrary: n)
  case 0
  then show ?case by (simp add: mine_from.simps)
next
  case (Suc k)
  have "\<not> starts_with target (hd_hash (at_nonce S F h n))" using Suc.prems(2) by force
  moreover have "mine_from S F target (at_nonce S F h (n + 1)) = Some (at_nonce S F h (n + 1 + int k))"
    by (rule Suc.IH) (use Suc.prems in \<open>force simp: algebra_simps\<close>)+
  ultimately show ?case by (subst mine_from.simps) (simp only: at_nonce_step if_False, simp add: algebra_simps)
qed

definition found_at :: "(string \<Rightarrow> string) \<Rightarrow> (pyfloat \<Rightarrow> string) \<Rightarrow> string \<Rightarrow> header \<Rightarrow> int \<Rightarrow> header \<Rightarrow> bool" where
  "found_at S F target h n r \<longleftrightarrow> (\<exists>k. r = at_nonce S F h (n + int k) \<and> starts_with target (hd_hash r) \<and>
     (\<forall>j < k. \<not> starts_with target (hd_hash (at_nonce S F h (n + int j)))))"

lemma found_at_here: "starts_with target (hd_hash (at_nonce S F h n)) \<Longrightarrow> found_at S F target h n (at_nonce S F h n)"
  unfolding found_at_def by (rule exI [of _ 0]) simp

lemma found_at_later:
  assumes "\<not> starts_with target (hd_hash (at_nonce S F h n))" and "found_at S F target h (n + 1) r"
  shows "found_at S F target h n r"
proof -
  obtain k where k: "r = at_nonce S F h (n + 1 + int k)" "starts_with target (hd_hash r)"
    "\<forall>j < k. \<not> starts_with target (hd_hash (at_nonce S F h (n + 1 + int j)))"
    using assms(2) unfolding found_at_def by blast
  have "\<not> starts_with target (hd_hash (at_nonce S F h (n + int j)))" if j: "j < Suc k" for j
  proof (cases j)
    case 0
    then show ?thesis using assms(1) by simp
  next
    case (Suc i)
    then have "n + int j = n + 1 + int i" by simp
    with k(3) j Suc show ?thesis by (metis Suc_less_SucD)
  qed
  moreover have "n + 1 + int k = n + int (Suc k)" by simp
  ultimately show ?thesis using k(1,2) unfolding found_at_def by metis
qed

lemma mine_from_found: "mine_from S F target g = Some r \<Longrightarrow> \<forall>h n. g = at_nonce S F h n \<longrightarrow> found_at S F target h n r"
proof (erule mine_from.raw_induct [rotated])
  fix mine S F target g r
  assume IH: "\<And>S F target g r. mine S F target g = Some r \<Longrightarrow> \<forall>h n. g = at_nonce S F h n \<longrightarrow> found_at S F target h n r"
    and run: "(if starts_with target (hd_hash g) then Some g
      else mine S F target (rehash S F (g\<lparr>hd_nonce := hd_nonce g + 1\<rparr>))) = Some r"
  show "\<forall>h n. g = at_nonce S F h n \<longrightarrow> found_at S F target h n r"
  proof (intro allI impI)
    fix h n assume g: "g = at_nonce S F h n"
    show "found_at S F target h n r"
    proof (cases "starts_with target (hd_hash g)")
      case True
      then have "r = at_nonce S F h n" using run g by simp
      then show ?thesis using True g found_at_here by metis
    next
      case False
      then have "mine S F target (at_nonce S F h (n + 1)) = Some r" using run g at_nonce_step by metis
      then have "found_at S F target h (n + 1) r" using IH by blast
      then show ?thesis using False g found_at_later by blast
    qed
  qed
qed

text \<open>
  C24: \<open>mine_block\<close> searches the nonces from 0 up and returns exactly at the least one whose hash has
  the zeros the difficulty asks for. It returns the block with that nonce and its hash, nothing else
  changed, and when there is no such nonce it does not return.
\<close>

theorem mine_block_spec:
  "mine_block S F difficulty b = Some b' \<longleftrightarrow>
     (\<exists>k. let target = replicate (nat (case difficulty of None \<Rightarrow> hd_difficulty (bl_header b) | Some d \<Rightarrow> d)) (CHR ''0'');
            mined = (\<lambda>j. set_block_nonce S F (int j) b)
        in starts_with target (hd_hash (bl_header (mined k))) \<and>
           \<not> (\<exists>j < k. starts_with target (hd_hash (bl_header (mined j)))) \<and> b' = mined k)"
proof -
  define target where "target = replicate (nat (case difficulty of None \<Rightarrow> hd_difficulty (bl_header b) | Some d \<Rightarrow> d)) (CHR ''0'')"
  let ?h = "bl_header b"
  have nonce: "set_block_nonce S F n b = b\<lparr>bl_header := at_nonce S F ?h n\<rparr>" for n by (simp add: set_block_nonce_def at_nonce_def)
  have run: "mine_block S F difficulty b = map_option (\<lambda>h. b\<lparr>bl_header := h\<rparr>) (mine_from S F target (at_nonce S F ?h 0))"
    by (simp add: mine_block_def target_def at_nonce_def Let_def)
  have "mine_from S F target (at_nonce S F ?h 0) = Some r \<longleftrightarrow> found_at S F target ?h 0 r" for r
    using mine_from_found mine_from_finds unfolding found_at_def by metis
  then show ?thesis
    by (auto simp: run nonce found_at_def target_def Let_def)
qed

end
