(* ===== verification/UtxoStore.thy ===== *)
theory UtxoStore
  imports PyFloat PyDict "HOL-Library.List_Lexorder" "HOL-Library.Char_ord" "HOL-Library.Multiset"
begin

text \<open>
  The storage of unspent outputs (\<open>transactions/utxo_store.py\<close>): outputs and their keys, and the
  interface \<open>UTXOStore\<close>. The methods of a store object are a record of functions, so that the
  manager can be given any store; the locale \<open>utxo_store\<close> states what its clients rely on, and that
  a store behaves like a finite map is proved inside it. Both backends interpret the locale.
\<close>

section \<open>Outputs\<close>

record utxo =
  u_txid :: string
  u_vout :: int
  u_amount :: pyfloat
  u_script :: string
  u_address :: string
  u_spent :: bool

definition new_utxo :: "string \<Rightarrow> string \<Rightarrow> int \<Rightarrow> pyfloat \<Rightarrow> string \<Rightarrow> utxo" where
  "new_utxo address txid vout amount script =
     \<lparr>u_txid = txid, u_vout = vout, u_amount = amount, u_script = script, u_address = address, u_spent = False\<rparr>"

text \<open>\<open>f"{txid}:{vout}"\<close>\<close>

definition utxo_key :: "string \<Rightarrow> int \<Rightarrow> string" where
  "utxo_key txid vout = txid @ '':'' @ dec_text vout"

text \<open>\<open>sum\<close> of floats, from the left (before Python 3.12, which compensates the roundings).\<close>

definition float_sum :: "pyfloat list \<Rightarrow> pyfloat" where
  "float_sum xs = foldl float_add (Fin 0) xs"

text \<open>One entry of \<open>snapshot_digest\<close>; \<open>F\<close> prints a float.\<close>

definition digest_entry :: "(pyfloat \<Rightarrow> string) \<Rightarrow> string \<Rightarrow> utxo \<Rightarrow> string" where
  "digest_entry F address u = address @ '':'' @ u_txid u @ '':'' @ dec_text (u_vout u) @ '':'' @ F (u_amount u) @ '':''
     @ dec_text (if u_spent u then 1 else 0)"

fun join_bar :: "string list \<Rightarrow> string" where
  "join_bar [] = []"
| "join_bar [x] = x"
| "join_bar (x # y # xs) = x @ ''|'' @ join_bar (y # xs)"

section \<open>Keys\<close>

lemma utxo_key_inj: "utxo_key t v = utxo_key t' v' \<longleftrightarrow> t = t' \<and> v = v'"
proof
  assume eq: "utxo_key t v = utxo_key t' v'"
  have c: "CHR '':'' \<notin> set (rev (dec_text n))" for n using dec_text_plain [of "CHR '':''" n] by simp
  have "rev (dec_text v) @ (CHR '':'' # rev t) = rev (dec_text v') @ (CHR '':'' # rev t')"
    using arg_cong [OF eq, of rev] by (simp add: utxo_key_def)
  from no_char_split [OF this c c] show "t = t' \<and> v = v'" by (auto dest: dec_text_inj)
qed simp

text \<open>The key of an output, and the outputs of a store that can be spent.\<close>

definition key_of :: "utxo \<Rightarrow> string \<times> int" where
  "key_of u = (u_txid u, u_vout u)"

definition unspent_keys :: "(string \<Rightarrow> int \<Rightarrow> utxo option) \<Rightarrow> (string \<times> int) set" where
  "unspent_keys g = {k. g (fst k) (snd k) \<noteq> None}"

lemma unspent_keys_insert:
  assumes "\<And>t' v'. g' t' v' = (if t' = t \<and> v' = v then Some u else g t' v')"
  shows "unspent_keys g' = insert (t, v) (unspent_keys g)"
  by (auto simp: unspent_keys_def assms split: if_splits)

lemma unspent_keys_remove:
  assumes "\<And>t' v'. g' t' v' = (if t' = t \<and> v' = v then None else g t' v')"
  shows "unspent_keys g' = unspent_keys g - {(t, v)}"
  by (auto simp: unspent_keys_def assms split: if_splits)

definition counts :: "(string \<Rightarrow> int \<Rightarrow> utxo option) \<Rightarrow> int \<Rightarrow> bool" where
  "counts g n \<longleftrightarrow> finite (unspent_keys g) \<and> n = int (card (unspent_keys g))"

lemma counts_insert:
  assumes "counts g n" and "g t v = None" and "\<And>t' v'. g' t' v' = (if t' = t \<and> v' = v then Some u else g t' v')"
  shows "counts g' (n + 1)"
proof -
  have "(t, v) \<notin> unspent_keys g" using assms(2) by (simp add: unspent_keys_def)
  then show ?thesis using assms(1) unfolding counts_def unspent_keys_insert [of g', OF assms(3)] by simp
qed

lemma counts_remove:
  assumes "counts g n" and "g t v \<noteq> None" and "\<And>t' v'. g' t' v' = (if t' = t \<and> v' = v then None else g t' v')"
  shows "counts g' (max 0 (n - 1))"
proof -
  have "(t, v) \<in> unspent_keys g" using assms(2) by (simp add: unspent_keys_def)
  moreover have "finite (unspent_keys g)" using assms(1) by (simp add: counts_def)
  ultimately have "card (unspent_keys g) = Suc (card (unspent_keys g - {(t, v)}))" by (rule card.remove [rotated])
  then show ?thesis using assms(1) unfolding counts_def unspent_keys_remove [of g', OF assms(3)] by simp
qed

section \<open>Exported sets\<close>

text \<open>The outputs of an exported set in order, and the unspent one under a key.\<close>

definition outputs :: "(string \<times> utxo list) list \<Rightarrow> utxo list" where
  "outputs data = concat (map snd data)"

definition find_unspent :: "utxo list \<Rightarrow> string \<Rightarrow> int \<Rightarrow> utxo option" where
  "find_unspent us t v = find (\<lambda>u. \<not> u_spent u \<and> u_txid u = t \<and> u_vout u = v) us"

definition unique_unspent :: "utxo list \<Rightarrow> bool" where
  "unique_unspent us \<longleftrightarrow> distinct (map key_of (filter (\<lambda>u. \<not> u_spent u) us))"

text \<open>What \<open>UTXOManager.compact_utxo_set\<close> keeps: the unspent outputs, and no empty list.\<close>

definition compacted :: "(string \<times> utxo list) list \<Rightarrow> (string \<times> utxo list) list" where
  "compacted data =
     filter (\<lambda>e. snd e \<noteq> []) (map (\<lambda>e. (fst e, filter (\<lambda>u. \<not> u_spent u) (snd e))) data)"

lemma outputs_compacted: "outputs (compacted data) = filter (\<lambda>u. \<not> u_spent u) (outputs data)"
  by (induction data) (simp_all add: outputs_def compacted_def)

lemma wf_dict_compacted: "wf_dict data \<Longrightarrow> wf_dict (compacted data)"
proof -
  assume "wf_dict data"
  then have "distinct (map fst (map (\<lambda>e. (fst e, filter (\<lambda>u. \<not> u_spent u) (snd e))) data))" by (simp add: wf_dict_def o_def)
  then show ?thesis unfolding wf_dict_def compacted_def by (rule distinct_map_filter)
qed

lemma compacted_entries: "e \<in> set (compacted data) \<Longrightarrow> \<exists>f \<in> set data. fst e = fst f \<and> set (snd e) \<subseteq> set (snd f)"
proof -
  assume "e \<in> set (compacted data)"
  then obtain f where f: "f \<in> set data" "e = (fst f, filter (\<lambda>u. \<not> u_spent u) (snd f))" by (auto simp: compacted_def)
  then show ?thesis by (intro bexI [of _ f]) auto
qed

lemma find_unspent_compacted: "find_unspent (outputs (compacted data)) t v = find_unspent (outputs data) t v"
proof -
  have "find_unspent (filter (\<lambda>u. \<not> u_spent u) us) t v = find_unspent us t v" for us
    by (induction us) (simp_all add: find_unspent_def)
  then show ?thesis by (simp add: outputs_compacted)
qed

lemma find_unspent_Some:
  "find_unspent us t v = Some u \<Longrightarrow> u \<in> set us \<and> \<not> u_spent u \<and> u_txid u = t \<and> u_vout u = v"
  by (auto simp: find_unspent_def find_Some_iff)

lemma find_unspent_member:
  "unique_unspent us \<Longrightarrow> u \<in> set us \<Longrightarrow> \<not> u_spent u \<Longrightarrow> find_unspent us (u_txid u) (u_vout u) = Some u"
proof (induction us)
  case (Cons w us)
  show ?case
  proof (cases "w = u")
    case True
    then show ?thesis using Cons.prems by (simp add: find_unspent_def)
  next
    case False
    then have "u \<in> set us" using Cons.prems by simp
    moreover have "key_of w \<noteq> key_of u" if "\<not> u_spent w"
      using Cons.prems(1,3) that \<open>u \<in> set us\<close> by (auto simp: unique_unspent_def)
    ultimately show ?thesis
      using Cons by (auto simp: find_unspent_def unique_unspent_def key_of_def split: if_splits)
  qed
qed simp

lemma unique_unspent_append:
  "unique_unspent (us @ ws) \<longleftrightarrow> unique_unspent us \<and> unique_unspent ws \<and>
     (\<forall>u \<in> set us. \<forall>w \<in> set ws. \<not> u_spent u \<longrightarrow> \<not> u_spent w \<longrightarrow> key_of u \<noteq> key_of w)"
  by (auto simp: unique_unspent_def) (metis)

lemma find_unspent_append:
  "find_unspent (us @ ws) t v = (case find_unspent us t v of Some u \<Rightarrow> Some u | None \<Rightarrow> find_unspent ws t v)"
  by (induction us) (auto simp: find_unspent_def)

lemma distinct_filter_nth:
  assumes "\<And>i j. i < length xs \<Longrightarrow> j < length xs \<Longrightarrow> P (xs ! i) \<Longrightarrow> P (xs ! j) \<Longrightarrow> f (xs ! i) = f (xs ! j) \<Longrightarrow> i = j"
  shows "distinct (map f (filter P xs))"
  using assms
proof (induction xs)
  case (Cons x xs)
  have "distinct (map f (filter P xs))"
    by (rule Cons.IH) (use Cons.prems [of "Suc _" "Suc _"] in auto)
  moreover have "f x \<notin> f ` set (filter P xs)" if "P x"
  proof
    assume "f x \<in> f ` set (filter P xs)"
    then obtain j where "j < length xs" "P (xs ! j)" "f (xs ! j) = f x" by (auto simp: in_set_conv_nth)
    with Cons.prems [of 0 "Suc j"] that show False by simp
  qed
  ultimately show ?case by simp
qed simp

text \<open>A set of outputs, exported.\<close>

lemma set_outputs: "wf_dict data \<Longrightarrow> u \<in> set (outputs data) \<longleftrightarrow> (\<exists>a. u \<in> set (dict_get data a []))"
proof (induction data)
  case Nil
  then show ?case by (simp add: outputs_def)
next
  case (Cons e data)
  have "dict_get data (fst e) [] = []" using Cons.prems by (simp add: wf_dict_def dict_get_def map_of_eq_None_iff [symmetric])
  moreover have "dict_get (e # data) a [] = (if a = fst e then snd e else dict_get data a [])" for a
    by (cases e) (simp add: dict_get_def)
  ultimately show ?case using Cons by (auto simp: outputs_def wf_dict_def) (metis empty_iff empty_set)
qed

lemma unique_outputs:
  assumes "wf_dict data"
    and "\<And>a b i j. i < length (dict_get data a []) \<Longrightarrow> j < length (dict_get data b []) \<Longrightarrow> \<not> u_spent (dict_get data a [] ! i)
      \<Longrightarrow> \<not> u_spent (dict_get data b [] ! j) \<Longrightarrow> key_of (dict_get data a [] ! i) = key_of (dict_get data b [] ! j) \<Longrightarrow> a = b \<and> i = j"
  shows "unique_unspent (outputs data)"
  using assms
proof (induction data)
  case Nil
  then show ?case by (simp add: outputs_def unique_unspent_def)
next
  case (Cons e data)
  obtain b us where e: "e = (b, us)" by (cases e)
  have wf: "wf_dict data" and none: "dict_get data b [] = []"
    using Cons.prems(1) by (auto simp: e wf_dict_def dict_get_def map_of_eq_None_iff [symmetric])
  have get: "dict_get (e # data) a [] = (if a = b then us else dict_get data a [])" for a by (simp add: e dict_get_def)
  have inj: "a = a' \<and> i = j" if "i < length (dict_get data a [])" "j < length (dict_get data a' [])" "\<not> u_spent (dict_get data a [] ! i)"
    "\<not> u_spent (dict_get data a' [] ! j)" "key_of (dict_get data a [] ! i) = key_of (dict_get data a' [] ! j)" for a a' i j
  proof -
    have "a \<noteq> b" "a' \<noteq> b" using that none by auto
    then show ?thesis using that Cons.prems(2) [of i a j a'] by (simp add: get)
  qed
  have "unique_unspent (outputs data)" by (rule Cons.IH [OF wf inj])
  moreover have "unique_unspent us"
    unfolding unique_unspent_def by (rule distinct_filter_nth) (use Cons.prems(2) [of _ b _ b] in \<open>simp add: get\<close>)
  moreover have "key_of u \<noteq> key_of w" if u: "u \<in> set us" "\<not> u_spent u" and w: "w \<in> set (outputs data)" "\<not> u_spent w" for u w
  proof
    assume eq: "key_of u = key_of w"
    obtain i where i: "i < length us" "u = us ! i" using u(1) by (metis in_set_conv_nth)
    obtain a where "w \<in> set (dict_get data a [])" using w(1) set_outputs [OF wf] by blast
    then obtain j where j: "j < length (dict_get data a [])" "w = dict_get data a [] ! j" by (metis in_set_conv_nth)
    have "a \<noteq> b" using j none by auto
    with Cons.prems(2) [of i b j a] i j u(2) w(2) eq show False by (simp add: get)
  qed
  ultimately show ?case by (simp add: e outputs_def unique_unspent_append)
qed

section \<open>The interface\<close>

text \<open>The methods of a \<open>UTXOStore\<close> object, as its clients call them.\<close>

record 's store_ops =
  op_add :: "string \<Rightarrow> string \<Rightarrow> int \<Rightarrow> pyfloat \<Rightarrow> string \<Rightarrow> 's \<Rightarrow> bool \<times> 's"
  op_mark :: "string \<Rightarrow> int \<Rightarrow> 's \<Rightarrow> bool \<times> 's"
  op_get :: "string \<Rightarrow> int \<Rightarrow> 's \<Rightarrow> utxo option"
  op_utxos_for :: "string \<Rightarrow> 's \<Rightarrow> exn + utxo list"
  op_stats :: "'s \<Rightarrow> int \<times> pyfloat"
  op_to_dict :: "'s \<Rightarrow> (string \<times> utxo list) list"
  op_load :: "(string \<times> utxo list) list \<Rightarrow> 's \<Rightarrow> 's"
  op_clear :: "'s \<Rightarrow> 's"

text \<open>
  What every backend promises: \<open>inv\<close> is its representation invariant, \<open>name_ok\<close> the addresses and
  transaction ids it can store, \<open>data_ok\<close> the exports it can load, and \<open>seen\<close> the keys it may refuse
  to add.
\<close>

locale utxo_store =
  fixes ops :: "'s store_ops"
    and inv :: "'s \<Rightarrow> bool"
    and name_ok :: "string \<Rightarrow> bool"
    and data_ok :: "(string \<times> utxo list) list \<Rightarrow> bool"
    and seen :: "'s \<Rightarrow> (string \<times> int) set"
  assumes get_key: "inv s \<Longrightarrow> op_get ops t v s = Some u \<Longrightarrow> u_txid u = t \<and> u_vout u = v \<and> \<not> u_spent u"
    and add_taken: "inv s \<Longrightarrow> op_get ops t v s \<noteq> None \<Longrightarrow> op_add ops a t v x sc s = (False, s)"
    and add_refused: "op_add ops a t v x sc s = (False, s') \<Longrightarrow> s' = s"
    and get_add: "inv s \<Longrightarrow> name_ok a \<Longrightarrow> name_ok t \<Longrightarrow> op_add ops a t v x sc s = (True, s') \<Longrightarrow>
        op_get ops t' v' s' = (if t' = t \<and> v' = v then Some (new_utxo a t v x sc) else op_get ops t' v' s)"
    and inv_add: "inv s \<Longrightarrow> name_ok a \<Longrightarrow> name_ok t \<Longrightarrow> op_add ops a t v x sc s = (ok, s') \<Longrightarrow> inv s'"
    and mark_missing: "inv s \<Longrightarrow> op_get ops t v s = None \<Longrightarrow> op_mark ops t v s = (False, s)"
    and mark_found: "inv s \<Longrightarrow> op_get ops t v s = Some u \<Longrightarrow> fst (op_mark ops t v s)"
    and get_mark: "inv s \<Longrightarrow> op_mark ops t v s = (True, s') \<Longrightarrow>
        op_get ops t' v' s' = (if t' = t \<and> v' = v then None else op_get ops t' v' s)"
    and inv_mark: "inv s \<Longrightarrow> op_mark ops t v s = (ok, s') \<Longrightarrow> inv s'"
    and utxos_for: "inv s \<Longrightarrow> name_ok a \<Longrightarrow> \<exists>us. op_utxos_for ops a s = Inr us \<and> distinct (map key_of us) \<and>
        (\<forall>u. u \<in> set us \<longleftrightarrow> op_get ops (u_txid u) (u_vout u) s = Some u \<and> u_address u = a)"
    and stats: "inv s \<Longrightarrow> counts (\<lambda>t v. op_get ops t v s) (fst (op_stats ops s))"
    and export: "inv s \<Longrightarrow> data_ok (op_to_dict ops s)"
    and find_export: "inv s \<Longrightarrow> find_unspent (outputs (op_to_dict ops s)) t v = op_get ops t v s"
    and inv_load: "data_ok d \<Longrightarrow> inv (op_load ops d s)"
    and get_load: "data_ok d \<Longrightarrow> op_get ops t v (op_load ops d s) = find_unspent (outputs d) t v"
    and data_ok_compact: "data_ok d \<Longrightarrow> data_ok (compacted d)"
    and inv_clear: "inv (op_clear ops s)"
    and get_clear: "op_get ops t v (op_clear ops s) = None"
    and add_new: "inv s \<Longrightarrow> (t, v) \<notin> seen s \<Longrightarrow> fst (op_add ops a t v x sc s)"
    and seen_add: "op_add ops a t v x sc s = (ok, s') \<Longrightarrow> seen s' \<subseteq> insert (t, v) (seen s)"
    and seen_mark: "op_mark ops t v s = (ok, s') \<Longrightarrow> seen s' \<subseteq> seen s"

section \<open>A store is a finite map\<close>

text \<open>A client's requests and the replies, on a store and on the abstract map from keys to outputs.\<close>

datatype request = Add string string int pyfloat string | Spend string int | Look string int

datatype reply = Done bool | Found "utxo option"

fun serve :: "'s store_ops \<Rightarrow> request \<Rightarrow> 's \<Rightarrow> reply \<times> 's" where
  "serve ops (Add a t v x sc) s = (case op_add ops a t v x sc s of (ok, s') \<Rightarrow> (Done ok, s'))"
| "serve ops (Spend t v) s = (case op_mark ops t v s of (ok, s') \<Rightarrow> (Done ok, s'))"
| "serve ops (Look t v) s = (Found (op_get ops t v s), s)"

fun serve_map :: "request \<Rightarrow> (string \<times> int \<rightharpoonup> utxo) \<Rightarrow> reply \<times> (string \<times> int \<rightharpoonup> utxo)" where
  "serve_map (Add a t v x sc) m =
     (if m (t, v) = None then (Done True, m((t, v) \<mapsto> new_utxo a t v x sc)) else (Done False, m))"
| "serve_map (Spend t v) m = (Done (m (t, v) \<noteq> None), m((t, v) := None))"
| "serve_map (Look t v) m = (Found (m (t, v)), m)"

primrec serve_all :: "('q \<Rightarrow> 's \<Rightarrow> reply \<times> 's) \<Rightarrow> 'q list \<Rightarrow> 's \<Rightarrow> reply list" where
  "serve_all f [] s = []"
| "serve_all f (q # qs) s = (case f q s of (r, s') \<Rightarrow> r # serve_all f qs s')"

text \<open>No key is added after a request to spend it; the first argument holds the keys of such requests.\<close>

fun never_readded :: "(string \<times> int) list \<Rightarrow> request list \<Rightarrow> bool" where
  "never_readded gone [] = True"
| "never_readded gone (Add a t v x sc # qs) \<longleftrightarrow> (t, v) \<notin> set gone \<and> never_readded gone qs"
| "never_readded gone (Spend t v # qs) \<longleftrightarrow> never_readded ((t, v) # gone) qs"
| "never_readded gone (Look t v # qs) \<longleftrightarrow> never_readded gone qs"

definition names_of :: "request list \<Rightarrow> string set" where
  "names_of qs = (\<Union>q \<in> set qs. case q of Add a t v x sc \<Rightarrow> {a, t} | _ \<Rightarrow> {})"

context utxo_store
begin

definition as_map :: "'s \<Rightarrow> (string \<times> int \<rightharpoonup> utxo)" where
  "as_map s = (\<lambda>k. op_get ops (fst k) (snd k) s)"

lemma serve_refines:
  assumes "inv s" and "case q of Add a t v x sc \<Rightarrow> name_ok a \<and> name_ok t \<and> ((t, v) \<notin> seen s \<or> op_get ops t v s \<noteq> None) | _ \<Rightarrow> True"
  shows "inv (snd (serve ops q s)) \<and> serve_map q (as_map s) = (fst (serve ops q s), as_map (snd (serve ops q s)))"
proof (cases q)
  case (Add a t v x sc)
  obtain ok s' where run: "op_add ops a t v x sc s = (ok, s')" by (metis surj_pair)
  show ?thesis
  proof (cases "op_get ops t v s = None")
    case True
    then have "ok" using add_new [OF assms(1), of t v a x sc] assms(2) run by (simp add: Add)
    then show ?thesis
      using True inv_add [OF assms(1) _ _ run] get_add [OF assms(1), of a t v x sc s'] assms(2) run
      by (auto simp: Add as_map_def fun_eq_iff)
  next
    case False
    then show ?thesis using add_taken [OF assms(1) False] assms(1) by (auto simp: Add as_map_def)
  qed
next
  case (Spend t v)
  obtain ok s' where run: "op_mark ops t v s = (ok, s')" by (metis surj_pair)
  show ?thesis
  proof (cases "op_get ops t v s")
    case None
    then show ?thesis using mark_missing [OF assms(1) None] assms(1) by (auto simp: Spend as_map_def fun_eq_iff)
  next
    case (Some u)
    have ok using mark_found [OF assms(1) Some] run by simp
    then show ?thesis
      using Some run inv_mark [OF assms(1) run] get_mark [OF assms(1), of t v s'] by (auto simp: Spend as_map_def fun_eq_iff)
  qed
next
  case (Look t v)
  then show ?thesis using assms(1) by (simp add: as_map_def)
qed

text \<open>What is seen and not unspent was to be spent.\<close>

lemma serve_seen:
  assumes "inv s" and "case q of Add a t v x sc \<Rightarrow> name_ok a \<and> name_ok t | _ \<Rightarrow> True" and "serve ops q s = (r, s')"
    and "seen s \<subseteq> dom (as_map s) \<union> gone"
  shows "seen s' \<subseteq> dom (as_map s') \<union> (case q of Spend t v \<Rightarrow> insert (t, v) gone | _ \<Rightarrow> gone)"
proof (cases q)
  case (Add a t v x sc)
  obtain ok where run: "op_add ops a t v x sc s = (ok, s')" using assms(3) by (auto simp: Add split: prod.splits)
  show ?thesis
  proof (cases ok)
    case True
    have "as_map s' = (as_map s)((t, v) \<mapsto> new_utxo a t v x sc)"
      using get_add [OF assms(1), of a t v x sc s'] run True assms(2) by (auto simp: Add as_map_def fun_eq_iff)
    then show ?thesis using seen_add [OF run] assms(4) by (auto simp: Add)
  next
    case False
    then have "s' = s" using add_refused run by simp
    then show ?thesis using assms(4) by (simp add: Add)
  qed
next
  case (Spend t v)
  obtain ok where run: "op_mark ops t v s = (ok, s')" using assms(3) by (auto simp: Spend split: prod.splits)
  have "dom (as_map s) \<subseteq> insert (t, v) (dom (as_map s'))"
  proof (cases "op_get ops t v s")
    case None
    then show ?thesis using mark_missing [OF assms(1) None] run by auto
  next
    case (Some u)
    then have ok using mark_found [OF assms(1) Some] run by simp
    then show ?thesis using get_mark [OF assms(1), of t v s'] run by (auto simp: as_map_def dom_def)
  qed
  then have "seen s' \<subseteq> dom (as_map s') \<union> insert (t, v) gone" using seen_mark [OF run] assms(4) by blast
  then show ?thesis by (simp add: Spend)
next
  case (Look t v)
  then show ?thesis using assms(3,4) by simp
qed

lemma serve_all_refines:
  assumes "inv s" and "\<forall>n \<in> names_of qs. name_ok n" and "never_readded gone qs" "seen s \<subseteq> dom (as_map s) \<union> set gone"
  shows "serve_all (serve ops) qs s = serve_all serve_map qs (as_map s)"
  using assms
proof (induction qs arbitrary: s gone)
  case (Cons q qs)
  obtain r s' where run: "serve ops q s = (r, s')" by (metis surj_pair)
  have names: "case q of Add a t v x sc \<Rightarrow> name_ok a \<and> name_ok t | _ \<Rightarrow> True"
    using Cons.prems(2) by (auto simp: names_of_def split: request.splits)
  have "case q of Add a t v x sc \<Rightarrow> name_ok a \<and> name_ok t \<and> ((t, v) \<notin> seen s \<or> op_get ops t v s \<noteq> None) | _ \<Rightarrow> True"
    using names Cons.prems(3,4) by (auto simp: as_map_def split: request.splits)
  then have step: "inv s' \<and> serve_map q (as_map s) = (r, as_map s')" using serve_refines [OF Cons.prems(1), of q] run by simp
  define gone' where "gone' = (case q of Spend t v \<Rightarrow> (t, v) # gone | _ \<Rightarrow> gone)"
  have "serve_all (serve ops) qs s' = serve_all serve_map qs (as_map s')"
  proof (rule Cons.IH)
    show "inv s'" using step ..
    show "\<forall>n \<in> names_of qs. name_ok n" using Cons.prems(2) by (auto simp: names_of_def)
    show "never_readded gone' qs" using Cons.prems(3) by (cases q) (simp_all add: gone'_def)
    show "seen s' \<subseteq> dom (as_map s') \<union> set gone'"
      using serve_seen [OF Cons.prems(1) names run Cons.prems(4)] by (cases q) (simp_all add: gone'_def)
  qed
  then show ?case using step by (simp add: run)
qed simp

end

end
