(* ===== verification/MemoryUtxoStore.thy ===== *)
theory MemoryUtxoStore
  imports UtxoStore
begin

text \<open>
  \<open>MemoryUTXOStore\<close>: one list of outputs per address, and an index that holds the same dict
  objects. A cell of the index is modelled as the place of the object in the lists.
\<close>

section \<open>Memory backend\<close>

record mem_utxos =
  utxo_set :: "(string \<times> utxo list) list"
  utxo_index :: "(string \<times> (string \<times> nat)) list"
  total_utxos :: int
  total_value :: pyfloat

definition new_mem_store :: mem_utxos where
  "new_mem_store = \<lparr>utxo_set = [], utxo_index = [], total_utxos = 0, total_value = Fin 0\<rparr>"

text \<open>The object a cell of the index points to.\<close>

definition mem_object :: "mem_utxos \<Rightarrow> string \<times> nat \<Rightarrow> utxo" where
  "mem_object s c = dict_get (utxo_set s) (fst c) [] ! snd c"

definition mem_add :: "string \<Rightarrow> string \<Rightarrow> int \<Rightarrow> pyfloat \<Rightarrow> string \<Rightarrow> mem_utxos \<Rightarrow> bool \<times> mem_utxos" where
  "mem_add address txid vout amount script s =
     (if map_of (utxo_index s) (utxo_key txid vout) \<noteq> None then (False, s)
      else let us = dict_get (utxo_set s) address [] in
        (True, s\<lparr>utxo_set := AList.update address (us @ [new_utxo address txid vout amount script]) (utxo_set s),
                 utxo_index := AList.update (utxo_key txid vout) (address, length us) (utxo_index s),
                 total_utxos := total_utxos s + 1, total_value := float_add (total_value s) amount\<rparr>))"

definition mem_mark_spent :: "string \<Rightarrow> int \<Rightarrow> mem_utxos \<Rightarrow> bool \<times> mem_utxos" where
  "mem_mark_spent txid vout s =
     (case map_of (utxo_index s) (utxo_key txid vout) of
        None \<Rightarrow> (False, s)
      | Some c \<Rightarrow>
          let u = mem_object s c in
          if u_spent u then (False, s)
          else (True, s\<lparr>utxo_set := AList.update (fst c) ((dict_get (utxo_set s) (fst c) [])[snd c := u\<lparr>u_spent := True\<rparr>]) (utxo_set s),
                        total_value := float_sub (total_value s) (u_amount u),
                        total_utxos := max 0 (total_utxos s - 1),
                        utxo_index := AList.delete (utxo_key txid vout) (utxo_index s)\<rparr>))"

definition mem_get :: "string \<Rightarrow> int \<Rightarrow> mem_utxos \<Rightarrow> utxo option" where
  "mem_get txid vout s =
     (case map_of (utxo_index s) (utxo_key txid vout) of
        None \<Rightarrow> None
      | Some c \<Rightarrow> let u = mem_object s c in if \<not> u_spent u then Some u else None)"

definition mem_utxos_for :: "string \<Rightarrow> mem_utxos \<Rightarrow> exn + utxo list" where
  "mem_utxos_for address s = Inr (filter (\<lambda>u. \<not> u_spent u) (dict_get (utxo_set s) address []))"

definition mem_balance :: "string \<Rightarrow> mem_utxos \<Rightarrow> exn + pyfloat" where
  "mem_balance address s =
     Inr (float_sum (map u_amount (filter (\<lambda>u. \<not> u_spent u) (dict_get (utxo_set s) address []))))"

definition mem_stats :: "mem_utxos \<Rightarrow> int \<times> pyfloat" where
  "mem_stats s = (total_utxos s, total_value s)"

definition mem_digest :: "(string \<Rightarrow> string) \<Rightarrow> (pyfloat \<Rightarrow> string) \<Rightarrow> mem_utxos \<Rightarrow> string" where
  "mem_digest S F s =
     S (join_bar (sort (concat (map (\<lambda>(address, us). map (digest_entry F address) us) (utxo_set s)))))"

definition mem_to_dict :: "mem_utxos \<Rightarrow> (string \<times> utxo list) list" where
  "mem_to_dict s = utxo_set s"

definition mem_reset :: "mem_utxos \<Rightarrow> mem_utxos" where
  "mem_reset s = new_mem_store"

definition mem_load_one :: "string \<Rightarrow> utxo \<Rightarrow> mem_utxos \<Rightarrow> mem_utxos" where
  "mem_load_one address u s =
     (let us = dict_get (utxo_set s) address [];
          s1 = s\<lparr>utxo_set := AList.update address (us @ [u]) (utxo_set s)\<rparr>
      in if \<not> u_spent u
         then s1\<lparr>utxo_index := AList.update (utxo_key (u_txid u) (u_vout u)) (address, length us) (utxo_index s),
                 total_utxos := total_utxos s + 1, total_value := float_add (total_value s) (u_amount u)\<rparr>
         else s1)"

definition mem_load_dict :: "(string \<times> utxo list) list \<Rightarrow> mem_utxos \<Rightarrow> mem_utxos" where
  "mem_load_dict data s = fold (\<lambda>(address, us). fold (mem_load_one address) us) data (mem_reset s)"

section \<open>The memory backend keeps its index exact\<close>

definition mem_list :: "mem_utxos \<Rightarrow> string \<Rightarrow> utxo list" where
  "mem_list s a = dict_get (utxo_set s) a []"

text \<open>
  The index holds exactly the cells of the unspent outputs under their keys. That it is a map
  makes these keys unique.
\<close>

definition mem_inv :: "mem_utxos \<Rightarrow> bool" where
  "mem_inv s \<longleftrightarrow>
     (\<forall>k a i. map_of (utxo_index s) k = Some (a, i) \<longleftrightarrow>
        i < length (mem_list s a) \<and> \<not> u_spent (mem_list s a ! i) \<and>
        k = utxo_key (u_txid (mem_list s a ! i)) (u_vout (mem_list s a ! i))) \<and>
     (\<forall>a. \<forall>u \<in> set (mem_list s a). u_address u = a) \<and>
     wf_dict (utxo_index s) \<and> wf_dict (utxo_set s) \<and> counts (\<lambda>t v. mem_get t v s) (total_utxos s)"

lemma mem_inv_index:
  assumes "mem_inv s" and "map_of (utxo_index s) k = Some (a, i)"
  shows "i < length (mem_list s a)" "\<not> u_spent (mem_list s a ! i)" "u_address (mem_list s a ! i) = a"
    "k = utxo_key (u_txid (mem_list s a ! i)) (u_vout (mem_list s a ! i))"
  using assms unfolding mem_inv_def by (metis nth_mem)+

lemma mem_inv_cell:
  assumes "mem_inv s" and "i < length (mem_list s a)" "\<not> u_spent (mem_list s a ! i)"
  shows "map_of (utxo_index s) (utxo_key (u_txid (mem_list s a ! i)) (u_vout (mem_list s a ! i))) = Some (a, i)"
  using assms unfolding mem_inv_def by metis

lemma mem_get_index:
  assumes "mem_inv s"
  shows "mem_get t v s = map_option (\<lambda>(a, i). mem_list s a ! i) (map_of (utxo_index s) (utxo_key t v))"
  using mem_inv_index [OF assms] by (auto simp: mem_get_def mem_object_def mem_list_def Let_def split: option.split)

lemma mem_get_some:
  assumes "mem_inv s" and "mem_get t v s = Some u"
  shows "u_txid u = t \<and> u_vout u = v \<and> \<not> u_spent u \<and> u \<in> set (mem_list s (u_address u))"
proof -
  obtain a i where i: "map_of (utxo_index s) (utxo_key t v) = Some (a, i)" "u = mem_list s a ! i"
    using assms mem_get_index [OF assms(1)] by auto
  from mem_inv_index [OF assms(1) i(1)] i(2) show ?thesis by (simp add: utxo_key_inj)
qed

lemma mem_get_list:
  assumes "mem_inv s" and "u \<in> set (mem_list s a)" "\<not> u_spent u"
  shows "mem_get (u_txid u) (u_vout u) s = Some u"
proof -
  obtain i where "i < length (mem_list s a)" "u = mem_list s a ! i" using assms(2) by (metis in_set_conv_nth)
  with mem_inv_cell [OF assms(1), of i a] assms(3) mem_get_index [OF assms(1)] show ?thesis by simp
qed

lemma mem_inv_new: "mem_inv new_mem_store"
  by (simp add: mem_inv_def new_mem_store_def mem_list_def counts_def unspent_keys_def mem_get_def wf_dict_def)

text \<open>Adding an output and loading one unspent output change the store in the same way.\<close>

lemma mem_add_load:
  "mem_add a t v x sc s =
    (if map_of (utxo_index s) (utxo_key t v) \<noteq> None then (False, s) else (True, mem_load_one a (new_utxo a t v x sc) s))"
  by (simp add: mem_add_def mem_load_one_def Let_def new_utxo_def)

lemma mem_load_one_list: "mem_list (mem_load_one a u s) b = (if b = a then mem_list s a @ [u] else mem_list s b)"
  by (simp add: mem_load_one_def mem_list_def Let_def)

lemma mem_load_one_index:
  "map_of (utxo_index (mem_load_one a u s)) =
    (if u_spent u then map_of (utxo_index s)
     else (map_of (utxo_index s))(utxo_key (u_txid u) (u_vout u) \<mapsto> (a, length (mem_list s a))))"
  by (simp add: mem_load_one_def mem_list_def Let_def update_conv')

lemma mem_load_one_nth:
  "i < length (mem_list s b) \<Longrightarrow> mem_list (mem_load_one a u s) b ! i = mem_list s b ! i"
  by (cases "b = a") (simp_all add: mem_load_one_list nth_append)

lemma mem_get_same:
  assumes inv: "mem_inv s" and "map_of (utxo_index (mem_load_one a u s)) (utxo_key t v) = map_of (utxo_index s) (utxo_key t v)"
  shows "mem_get t v (mem_load_one a u s) = mem_get t v s"
proof (cases "map_of (utxo_index s) (utxo_key t v)")
  case None
  with assms(2) show ?thesis by (simp add: mem_get_def)
next
  case (Some c)
  obtain b i where c: "c = (b, i)" by (cases c)
  from mem_load_one_nth [OF mem_inv_index(1) [OF inv Some [unfolded c]], of a u] Some c assms(2)
  show ?thesis by (simp add: mem_get_def mem_object_def Let_def flip: mem_list_def)
qed

lemma mem_get_load_one:
  assumes inv: "mem_inv s" and fresh: "\<not> u_spent u \<Longrightarrow> mem_get (u_txid u) (u_vout u) s = None"
  shows "mem_get t v (mem_load_one a u s) =
    (if \<not> u_spent u \<and> t = u_txid u \<and> v = u_vout u then Some u else mem_get t v s)"
proof (cases "\<not> u_spent u \<and> t = u_txid u \<and> v = u_vout u")
  case True
  then show ?thesis
    using mem_load_one_index [of a u s] mem_load_one_list [of a u s a]
    by (simp add: mem_get_def mem_object_def Let_def flip: mem_list_def)
next
  case False
  then show ?thesis using mem_get_same [OF inv] by (auto simp: mem_load_one_index utxo_key_inj)
qed

lemma mem_inv_load_one:
  assumes inv: "mem_inv s" and fresh: "\<not> u_spent u \<Longrightarrow> mem_get (u_txid u) (u_vout u) s = None" and own: "u_address u = a"
  shows "mem_inv (mem_load_one a u s)"
  unfolding mem_inv_def
proof (intro conjI allI)
  let ?s = "mem_load_one a u s"
  fix k b i
  let ?w = "mem_list ?s b ! i"
  have none: "map_of (utxo_index s) (utxo_key (u_txid u) (u_vout u)) = None" if "\<not> u_spent u"
    using fresh [OF that] mem_get_index [OF inv] by simp
  have old: "\<not> u_spent u \<Longrightarrow> utxo_key (u_txid u) (u_vout u) \<noteq> utxo_key (u_txid (mem_list s b ! i)) (u_vout (mem_list s b ! i))"
    if "i < length (mem_list s b)" "\<not> u_spent (mem_list s b ! i)"
    using mem_inv_cell [OF inv that] none by auto
  show "map_of (utxo_index ?s) k = Some (b, i) \<longleftrightarrow>
      i < length (mem_list ?s b) \<and> \<not> u_spent ?w \<and> k = utxo_key (u_txid ?w) (u_vout ?w)"
  proof (cases "b = a \<and> i = length (mem_list s a)")
    case True
    have "map_of (utxo_index s) k' \<noteq> Some (a, length (mem_list s a))" for k'
      using mem_inv_index(1) [OF inv] by blast
    with True show ?thesis by (simp add: mem_load_one_index mem_load_one_list)
  next
    case False
    have "i < length (mem_list s b) \<Longrightarrow> ?w = mem_list s b ! i" "i < length (mem_list ?s b) \<longleftrightarrow> i < length (mem_list s b)"
      using False by (simp add: mem_load_one_nth, cases "b = a", auto simp: mem_load_one_list)
    moreover have "map_of (utxo_index s) k = Some (b, i) \<longleftrightarrow> i < length (mem_list s b) \<and> \<not> u_spent (mem_list s b ! i) \<and>
        k = utxo_key (u_txid (mem_list s b ! i)) (u_vout (mem_list s b ! i))"
      using inv unfolding mem_inv_def by blast
    moreover have "map_of (utxo_index ?s) k = Some (b, i) \<longleftrightarrow>
        (u_spent u \<or> k \<noteq> utxo_key (u_txid u) (u_vout u)) \<and> map_of (utxo_index s) k = Some (b, i)"
      using False by (cases "k = utxo_key (u_txid u) (u_vout u)") (auto simp: mem_load_one_index)
    ultimately show ?thesis using old by metis
  qed
next
  fix b
  show "\<forall>w \<in> set (mem_list (mem_load_one a u s) b). u_address w = b"
    using inv own by (auto simp: mem_load_one_list mem_inv_def)
next
  show "wf_dict (utxo_index (mem_load_one a u s))" "wf_dict (utxo_set (mem_load_one a u s))"
    using inv by (auto simp: mem_inv_def mem_load_one_def Let_def)
next
  have c: "counts (\<lambda>t v. mem_get t v s) (total_utxos s)" using inv by (simp add: mem_inv_def)
  show "counts (\<lambda>t v. mem_get t v (mem_load_one a u s)) (total_utxos (mem_load_one a u s))"
  proof (cases "u_spent u")
    case True
    have "total_utxos (mem_load_one a u s) = total_utxos s" using True by (simp add: mem_load_one_def Let_def)
    moreover have "mem_get t v (mem_load_one a u s) = mem_get t v s" for t v
      by (subst mem_get_load_one [OF inv]) (use True fresh in auto)
    ultimately show ?thesis using c by simp
  next
    case False
    have "mem_get t v (mem_load_one a u s) = (if t = u_txid u \<and> v = u_vout u then Some u else mem_get t v s)" for t v
      using False by (simp add: mem_get_load_one [OF inv fresh])
    from counts_insert [OF c fresh [OF False] this] show ?thesis using False by (simp add: mem_load_one_def Let_def)
  qed
qed

lemma mem_add_Some: "mem_inv s \<Longrightarrow> mem_get t v s \<noteq> None \<Longrightarrow> mem_add a t v x sc s = (False, s)"
  by (auto simp: mem_add_load mem_get_index)

lemma mem_add_None:
  assumes inv: "mem_inv s" and get: "mem_get t v s = None"
  shows "\<exists>s'. mem_add a t v x sc s = (True, s') \<and> mem_inv s' \<and>
    (\<forall>t' v'. mem_get t' v' s' = (if t' = t \<and> v' = v then Some (new_utxo a t v x sc) else mem_get t' v' s))"
proof -
  let ?u = "new_utxo a t v x sc"
  have u: "u_txid ?u = t" "u_vout ?u = v" "u_address ?u = a" "\<not> u_spent ?u" by (simp_all add: new_utxo_def)
  have "mem_add a t v x sc s = (True, mem_load_one a ?u s)" using get mem_get_index [OF inv] by (simp add: mem_add_load)
  moreover have "mem_inv (mem_load_one a ?u s)" using mem_inv_load_one [OF inv] get u by simp
  moreover have "mem_get t' v' (mem_load_one a ?u s) = (if t' = t \<and> v' = v then Some ?u else mem_get t' v' s)" for t' v'
    using mem_get_load_one [OF inv, of ?u t' v' a] get u by simp
  ultimately show ?thesis by blast
qed

lemma mem_mark_cases:
  assumes "mem_inv s"
  shows "mem_mark_spent t v s =
    (case map_of (utxo_index s) (utxo_key t v) of
       None \<Rightarrow> (False, s)
     | Some (a, i) \<Rightarrow>
         (True, s\<lparr>utxo_set := AList.update a ((mem_list s a)[i := (mem_list s a ! i)\<lparr>u_spent := True\<rparr>]) (utxo_set s),
                  total_value := float_sub (total_value s) (u_amount (mem_list s a ! i)),
                  total_utxos := max 0 (total_utxos s - 1), utxo_index := AList.delete (utxo_key t v) (utxo_index s)\<rparr>))"
  using mem_inv_index(2) [OF assms]
  by (auto simp: mem_mark_spent_def mem_object_def mem_list_def Let_def split: option.split)

lemma mem_mark_None: "mem_inv s \<Longrightarrow> mem_get t v s = None \<Longrightarrow> mem_mark_spent t v s = (False, s)"
  by (simp add: mem_mark_cases mem_get_index split: option.splits)

lemma mem_mark_Some:
  assumes inv: "mem_inv s" and get: "mem_get t v s = Some u"
  shows "\<exists>s'. mem_mark_spent t v s = (True, s') \<and> mem_inv s' \<and>
    (\<forall>t' v'. mem_get t' v' s' = (if t' = t \<and> v' = v then None else mem_get t' v' s))"
proof -
  obtain a i where ix: "map_of (utxo_index s) (utxo_key t v) = Some (a, i)" and u: "u = mem_list s a ! i"
    using get mem_get_index [OF inv] by auto
  define s' where "s' = s\<lparr>utxo_set := AList.update a ((mem_list s a)[i := u\<lparr>u_spent := True\<rparr>]) (utxo_set s),
                  total_value := float_sub (total_value s) (u_amount u),
                  total_utxos := max 0 (total_utxos s - 1), utxo_index := AList.delete (utxo_key t v) (utxo_index s)\<rparr>"
  have run: "mem_mark_spent t v s = (True, s')" using ix by (simp add: s'_def mem_mark_cases [OF inv] u)
  note i = mem_inv_index [OF inv ix]
  have L: "mem_list s' b = (if b = a then (mem_list s a)[i := u\<lparr>u_spent := True\<rparr>] else mem_list s b)" for b
    by (simp add: s'_def mem_list_def)
  have I: "map_of (utxo_index s') = (map_of (utxo_index s))(utxo_key t v := None)"
    by (rule ext) (simp add: s'_def delete_conv)
  have other: "mem_list s' b ! j = mem_list s b ! j" if "(b, j) \<noteq> (a, i)" for b j using that by (auto simp: L nth_list_update)
  have key: "utxo_key t v = utxo_key (u_txid u) (u_vout u)" using i u by simp
  have get': "mem_get t' v' s' = (if t' = t \<and> v' = v then None else mem_get t' v' s)" for t' v'
  proof (cases "t' = t \<and> v' = v")
    case True
    then show ?thesis by (simp add: mem_get_def I)
  next
    case False
    then have k: "utxo_key t' v' \<noteq> utxo_key t v" by (simp add: utxo_key_inj)
    have "mem_list s' b ! j = mem_list s b ! j" if "map_of (utxo_index s) (utxo_key t' v') = Some (b, j)" for b j
      using other [of b j] mem_inv_index(4) [OF inv that] i(4) k by auto
    with False k show ?thesis
      by (auto simp: mem_get_def mem_object_def Let_def I simp flip: mem_list_def split: option.split)
  qed
  have "mem_inv s'"
    unfolding mem_inv_def
  proof (intro conjI allI)
    fix k b j
    let ?w = "mem_list s' b ! j"
    have old: "map_of (utxo_index s) k = Some (b, j) \<longleftrightarrow> j < length (mem_list s b) \<and> \<not> u_spent (mem_list s b ! j) \<and>
        k = utxo_key (u_txid (mem_list s b ! j)) (u_vout (mem_list s b ! j))"
      using inv unfolding mem_inv_def by blast
    show "map_of (utxo_index s') k = Some (b, j) \<longleftrightarrow>
        j < length (mem_list s' b) \<and> \<not> u_spent ?w \<and> k = utxo_key (u_txid ?w) (u_vout ?w)"
    proof (cases "(b, j) = (a, i)")
      case True
      then show ?thesis using old i u I L [of a] by auto
    next
      case False
      then show ?thesis using old other [OF False] I L [of b] ix by (auto split: if_splits)
    qed
  next
    fix b
    show "\<forall>w \<in> set (mem_list s' b). u_address w = b"
      using inv i(3) u unfolding L mem_inv_def by (auto dest!: set_update_subset_insert [THEN subsetD])
  next
    show "wf_dict (utxo_index s')" "wf_dict (utxo_set s')"
      using inv by (simp_all add: s'_def mem_inv_def wf_dict_def distinct_delete distinct_update)
  next
    have "counts (\<lambda>t v. mem_get t v s) (total_utxos s)" using inv by (simp add: mem_inv_def)
    from counts_remove [OF this _ get'] get
    show "counts (\<lambda>t v. mem_get t v s') (total_utxos s')" by (simp add: s'_def)
  qed
  with run get' show ?thesis by blast
qed

text \<open>The outputs of one address.\<close>

lemma mem_cells_inj:
  assumes "mem_inv s" and "i < length (mem_list s a)" "j < length (mem_list s b)"
    and "\<not> u_spent (mem_list s a ! i)" "\<not> u_spent (mem_list s b ! j)" "key_of (mem_list s a ! i) = key_of (mem_list s b ! j)"
  shows "a = b \<and> i = j"
proof -
  let ?u = "mem_list s a ! i" and ?w = "mem_list s b ! j"
  have "utxo_key (u_txid ?u) (u_vout ?u) = utxo_key (u_txid ?w) (u_vout ?w)"
    using assms(6) by (metis key_of_def prod.inject)
  then have "Some (a, i) = Some (b, j)"
    using mem_inv_cell [OF assms(1,2,4)] mem_inv_cell [OF assms(1,3,5)] by metis
  then show ?thesis by simp
qed

lemma mem_utxos_for_spec:
  assumes "mem_inv s"
  shows "\<exists>us. mem_utxos_for a s = Inr us \<and> distinct (map key_of us) \<and>
    (\<forall>u. u \<in> set us \<longleftrightarrow> mem_get (u_txid u) (u_vout u) s = Some u \<and> u_address u = a)"
proof (intro exI conjI allI)
  let ?us = "filter (\<lambda>u. \<not> u_spent u) (mem_list s a)"
  show "mem_utxos_for a s = Inr ?us" by (simp add: mem_utxos_for_def mem_list_def)
  show "distinct (map key_of ?us)"
    by (rule distinct_filter_nth) (rule mem_cells_inj [OF assms, of _ a _ a, THEN conjunct2])
  fix u
  show "u \<in> set ?us \<longleftrightarrow> mem_get (u_txid u) (u_vout u) s = Some u \<and> u_address u = a"
  proof
    assume "u \<in> set ?us"
    then have u: "u \<in> set (mem_list s a)" "\<not> u_spent u" by simp_all
    then have "u_address u = a" using assms unfolding mem_inv_def by metis
    with mem_get_list [OF assms u] show "mem_get (u_txid u) (u_vout u) s = Some u \<and> u_address u = a" ..
  next
    assume "mem_get (u_txid u) (u_vout u) s = Some u \<and> u_address u = a"
    with mem_get_some [OF assms, of "u_txid u" "u_vout u" u] show "u \<in> set ?us" by simp
  qed
qed

section \<open>Export and import of the memory backend\<close>

definition mem_data_ok :: "(string \<times> utxo list) list \<Rightarrow> bool" where
  "mem_data_ok data \<longleftrightarrow>
     wf_dict data \<and> (\<forall>e \<in> set data. \<forall>u \<in> set (snd e). u_address u = fst e) \<and> unique_unspent (outputs data)"

lemma mem_load_list:
  assumes "mem_inv s" and "unique_unspent us" and "\<forall>u \<in> set us. u_address u = a"
    and "\<forall>u \<in> set us. \<not> u_spent u \<longrightarrow> mem_get (u_txid u) (u_vout u) s = None"
  shows "mem_inv (fold (mem_load_one a) us s) \<and>
    mem_get t v (fold (mem_load_one a) us s) =
      (case find_unspent us t v of Some u \<Rightarrow> Some u | None \<Rightarrow> mem_get t v s)"
  using assms
proof (induction us arbitrary: s)
  case Nil
  then show ?case by (simp add: find_unspent_def)
next
  case (Cons u us)
  have inv: "mem_inv (mem_load_one a u s)" using Cons.prems by (intro mem_inv_load_one) auto
  have get: "mem_get t v (mem_load_one a u s) =
      (if \<not> u_spent u \<and> t = u_txid u \<and> v = u_vout u then Some u else mem_get t v s)" for t v
    using Cons.prems by (intro mem_get_load_one) auto
  have uniq: "unique_unspent us" using Cons.prems(2) by (simp add: unique_unspent_def split: if_splits)
  have fresh: "mem_get (u_txid w) (u_vout w) (mem_load_one a u s) = None" if "w \<in> set us" "\<not> u_spent w" for w
  proof -
    have "\<not> u_spent u \<Longrightarrow> key_of u \<noteq> key_of w" using Cons.prems(2) that by (auto simp: unique_unspent_def)
    then show ?thesis using Cons.prems(4) that by (auto simp: get key_of_def)
  qed
  from Cons.IH [OF inv uniq] Cons.prems(3) fresh
  have "mem_inv (fold (mem_load_one a) us (mem_load_one a u s)) \<and>
    mem_get t v (fold (mem_load_one a) us (mem_load_one a u s)) =
      (case find_unspent us t v of Some u \<Rightarrow> Some u | None \<Rightarrow> mem_get t v (mem_load_one a u s))" by simp
  moreover have "find_unspent us t v = None" if "\<not> u_spent u" "t = u_txid u" "v = u_vout u"
  proof (rule ccontr)
    assume "find_unspent us t v \<noteq> None"
    then obtain w where w: "find_unspent us t v = Some w" by blast
    from find_unspent_Some [OF w] that have "w \<in> set us" "\<not> u_spent w" "key_of u = key_of w" by (simp_all add: key_of_def)
    then show False using Cons.prems(2) that(1) by (simp add: unique_unspent_def)
  qed
  ultimately show ?case by (auto simp: get find_unspent_def split: option.split)
qed

lemma mem_load_data:
  assumes "mem_inv s" and "unique_unspent (outputs data)" and "\<forall>e \<in> set data. \<forall>u \<in> set (snd e). u_address u = fst e"
    and "\<forall>u \<in> set (outputs data). \<not> u_spent u \<longrightarrow> mem_get (u_txid u) (u_vout u) s = None"
  shows "mem_inv (fold (\<lambda>(a, us). fold (mem_load_one a) us) data s) \<and>
    (\<forall>t v. mem_get t v (fold (\<lambda>(a, us). fold (mem_load_one a) us) data s) =
      (case find_unspent (outputs data) t v of Some u \<Rightarrow> Some u | None \<Rightarrow> mem_get t v s))"
  using assms
proof (induction data arbitrary: s)
  case Nil
  then show ?case by (simp add: outputs_def find_unspent_def)
next
  case (Cons e data)
  let ?s = "fold (mem_load_one (fst e)) (snd e) s"
  have outs: "outputs (e # data) = snd e @ outputs data" by (simp add: outputs_def)
  note uniq = Cons.prems(2) [unfolded outs unique_unspent_append]
  have one: "mem_inv ?s \<and> mem_get t v ?s = (case find_unspent (snd e) t v of Some u \<Rightarrow> Some u | None \<Rightarrow> mem_get t v s)" for t v
    using Cons.prems uniq by (intro mem_load_list) (auto simp: outs)
  have fresh: "mem_get (u_txid w) (u_vout w) ?s = None" if w: "w \<in> set (outputs data)" "\<not> u_spent w" for w
  proof -
    have "find_unspent (snd e) (u_txid w) (u_vout w) = None"
    proof (rule ccontr)
      assume "find_unspent (snd e) (u_txid w) (u_vout w) \<noteq> None"
      then obtain u where "find_unspent (snd e) (u_txid w) (u_vout w) = Some u" by blast
      from find_unspent_Some [OF this] uniq w show False by (auto simp: key_of_def)
    qed
    then show ?thesis using one Cons.prems(4) w by (simp add: outs)
  qed
  from Cons.IH [of ?s] one uniq fresh Cons.prems(3)
  have "mem_inv (fold (\<lambda>(a, us). fold (mem_load_one a) us) data ?s) \<and>
    (\<forall>t v. mem_get t v (fold (\<lambda>(a, us). fold (mem_load_one a) us) data ?s) =
      (case find_unspent (outputs data) t v of Some u \<Rightarrow> Some u | None \<Rightarrow> mem_get t v ?s))" by simp
  then show ?case
    using one uniq find_unspent_Some
    by (auto simp: outs find_unspent_append case_prod_unfold split: option.split)
      (metis key_of_def)+
qed

lemma mem_load_ok:
  assumes "mem_data_ok data"
  shows "mem_inv (mem_load_dict data s)" and "mem_get t v (mem_load_dict data s) = find_unspent (outputs data) t v"
proof -
  have none: "mem_get t v new_mem_store = None" for t v by (simp add: mem_get_def new_mem_store_def)
  have "mem_inv (mem_load_dict data s) \<and> (\<forall>t v. mem_get t v (mem_load_dict data s) =
      (case find_unspent (outputs data) t v of Some u \<Rightarrow> Some u | None \<Rightarrow> mem_get t v new_mem_store))"
    unfolding mem_load_dict_def mem_reset_def
    by (rule mem_load_data) (use assms none mem_inv_new in \<open>simp_all add: mem_data_ok_def\<close>)
  then show "mem_inv (mem_load_dict data s)" "mem_get t v (mem_load_dict data s) = find_unspent (outputs data) t v"
    by (auto simp: none split: option.split)
qed

lemma mem_export_ok:
  assumes inv: "mem_inv s"
  shows "mem_data_ok (mem_to_dict s)" and "find_unspent (outputs (mem_to_dict s)) t v = mem_get t v s"
proof -
  have wf: "wf_dict (utxo_set s)" using inv by (simp add: mem_inv_def)
  have uniq: "unique_unspent (outputs (utxo_set s))"
    by (rule unique_outputs [OF wf]) (use mem_cells_inj [OF inv] in \<open>simp add: mem_list_def\<close>)
  have "dict_get (utxo_set s) (fst e) [] = snd e" if "e \<in> set (utxo_set s)" for e
    using wf that by (cases e) (simp add: wf_dict_def dict_get_def)
  then have "\<forall>e \<in> set (utxo_set s). \<forall>u \<in> set (snd e). u_address u = fst e"
    using inv unfolding mem_inv_def mem_list_def by metis
  with wf uniq show "mem_data_ok (mem_to_dict s)" by (simp add: mem_data_ok_def mem_to_dict_def)
  have list: "u \<in> set (outputs (utxo_set s)) \<longleftrightarrow> (\<exists>a. u \<in> set (mem_list s a))" for u
    using set_outputs [OF wf] by (simp add: mem_list_def)
  show "find_unspent (outputs (mem_to_dict s)) t v = mem_get t v s"
  proof (cases "mem_get t v s")
    case None
    have "find_unspent (outputs (utxo_set s)) t v \<noteq> Some u" for u
      using find_unspent_Some [of "outputs (utxo_set s)" t v u] list [of u] mem_get_list [OF inv, of u] None by auto
    then have "find_unspent (outputs (utxo_set s)) t v = None" by (metis not_None_eq)
    then show ?thesis using None by (simp add: mem_to_dict_def)
  next
    case (Some u)
    note u = mem_get_some [OF inv Some]
    then have "find_unspent (outputs (utxo_set s)) (u_txid u) (u_vout u) = Some u"
      by (intro find_unspent_member [OF uniq]) (auto simp: list)
    with u Some show ?thesis by (simp add: mem_to_dict_def)
  qed
qed

definition memory_store :: "mem_utxos store_ops" where
  "memory_store = \<lparr>op_add = mem_add, op_mark = mem_mark_spent, op_get = mem_get, op_utxos_for = mem_utxos_for,
     op_stats = mem_stats, op_to_dict = mem_to_dict, op_load = mem_load_dict, op_clear = mem_reset\<rparr>"

lemma mem_data_ok_compact: "mem_data_ok d \<Longrightarrow> mem_data_ok (compacted d)"
  using wf_dict_compacted compacted_entries
  by (auto simp: mem_data_ok_def unique_unspent_def outputs_compacted) (metis subsetD)

interpretation mem: utxo_store memory_store mem_inv "\<lambda>s. True" mem_data_ok "\<lambda>s. {(t, v). map_of (utxo_index s) (utxo_key t v) \<noteq> None}"
proof (unfold_locales, goal_cases)
  case (1 s t v u)
  then show ?case using mem_get_some by (simp add: memory_store_def)
next
  case (2 s t v a x sc)
  then show ?case by (simp add: memory_store_def mem_add_Some)
next
  case (3 a t v x sc s s')
  then show ?case by (simp add: memory_store_def mem_add_def Let_def split: if_splits)
next
  case (4 s a t v x sc s' t' v')
  then show ?case using mem_add_None [of s t v a x sc] mem_add_Some [of s t v a x sc]
    by (cases "mem_get t v s") (auto simp: memory_store_def)
next
  case (5 s a t v x sc ok s')
  then show ?case using mem_add_None [of s t v a x sc] mem_add_Some [of s t v a x sc]
    by (cases "mem_get t v s") (auto simp: memory_store_def)
next
  case (6 s t v)
  then show ?case by (simp add: memory_store_def mem_mark_None)
next
  case (7 s t v u)
  then show ?case using mem_mark_Some [of s t v u] by (auto simp: memory_store_def)
next
  case (8 s t v s' t' v')
  then show ?case using mem_mark_Some [of s t v] mem_mark_None [of s t v]
    by (cases "mem_get t v s") (auto simp: memory_store_def)
next
  case (9 s t v ok s')
  then show ?case using mem_mark_Some [of s t v] mem_mark_None [of s t v]
    by (cases "mem_get t v s") (auto simp: memory_store_def)
next
  case (10 s a)
  then show ?case using mem_utxos_for_spec by (simp add: memory_store_def)
next
  case (11 s)
  then show ?case by (simp add: memory_store_def mem_stats_def mem_inv_def)
next
  case (12 s)
  then show ?case using mem_export_ok by (simp add: memory_store_def)
next
  case (13 s t v)
  then show ?case using mem_export_ok by (simp add: memory_store_def)
next
  case (14 d s)
  then show ?case using mem_load_ok by (simp add: memory_store_def)
next
  case (15 d t v s)
  then show ?case using mem_load_ok by (simp add: memory_store_def)
next
  case (16 d)
  then show ?case by (rule mem_data_ok_compact)
next
  case (17 s)
  then show ?case by (simp add: memory_store_def mem_reset_def mem_inv_new)
next
  case (18 t v s)
  then show ?case by (simp add: memory_store_def mem_reset_def new_mem_store_def mem_get_def)
next
  case (19 s t v a x sc)
  then show ?case by (simp add: memory_store_def mem_add_def Let_def)
next
  case (20 a t v x sc s ok s')
  then show ?case
    by (auto simp: memory_store_def mem_add_def Let_def update_conv' utxo_key_inj split: if_splits)
next
  case (21 t v s ok s')
  then show ?case
    by (auto simp: memory_store_def mem_mark_spent_def Let_def delete_conv' utxo_key_inj split: option.splits if_splits)
qed

end
