(* ===== verification/LevelDbUtxoStore.thy ===== *)
theory LevelDbUtxoStore
  imports MemoryUtxoStore
begin

text \<open>
  \<open>LevelDBUTXOStore\<close>: one record per output and one key per unspent output and address.
  \<open>plyvel\<close>'s database is the map from keys to values it documents, iterated in key order, and a
  value is what its JSON text stands for. The last section compares the two backends.
\<close>

section \<open>LevelDB backend\<close>

datatype ldb_value = Record utxo | Flag | Count int | Amount pyfloat

record ldb_store =
  db :: "(string \<times> ldb_value) list"
  ldb_total_utxos :: int
  ldb_total_value :: pyfloat

definition ldb_key :: "string \<Rightarrow> int \<Rightarrow> string" where
  "ldb_key txid vout = ''utxo:'' @ utxo_key txid vout"

definition ldb_addr_key :: "string \<Rightarrow> string \<Rightarrow> int \<Rightarrow> string" where
  "ldb_addr_key address txid vout = ''addr:'' @ address @ '':'' @ utxo_key txid vout"

text \<open>\<open>db.iterator(prefix=...)\<close> goes through the keys with the prefix in order.\<close>

definition db_iterator :: "string \<Rightarrow> (string \<times> ldb_value) list \<Rightarrow> (string \<times> ldb_value) list" where
  "db_iterator prefix d = sort_key fst (filter (\<lambda>e. starts_with prefix (fst e)) d)"

text \<open>Opening a database reads the cached totals, 0 when they are missing.\<close>

definition ldb_open :: "(string \<times> ldb_value) list \<Rightarrow> ldb_store" where
  "ldb_open d =
     \<lparr>db = d,
      ldb_total_utxos = (case map_of d ''stats:total_utxos'' of Some (Count n) \<Rightarrow> n | _ \<Rightarrow> 0),
      ldb_total_value = (case map_of d ''stats:total_value'' of Some (Amount x) \<Rightarrow> x | _ \<Rightarrow> Fin 0)\<rparr>"

definition ldb_save_stats :: "ldb_store \<Rightarrow> ldb_store" where
  "ldb_save_stats s = s\<lparr>db := AList.update ''stats:total_value'' (Amount (ldb_total_value s))
     (AList.update ''stats:total_utxos'' (Count (ldb_total_utxos s)) (db s))\<rparr>"

definition ldb_add :: "string \<Rightarrow> string \<Rightarrow> int \<Rightarrow> pyfloat \<Rightarrow> string \<Rightarrow> ldb_store \<Rightarrow> bool \<times> ldb_store" where
  "ldb_add address txid vout amount script s =
     (if map_of (db s) (ldb_key txid vout) \<noteq> None then (False, s)
      else (True, ldb_save_stats
        (s\<lparr>db := AList.update (ldb_addr_key address txid vout) Flag
             (AList.update (ldb_key txid vout) (Record (new_utxo address txid vout amount script)) (db s)),
           ldb_total_utxos := ldb_total_utxos s + 1, ldb_total_value := float_add (ldb_total_value s) amount\<rparr>)))"

definition ldb_mark_spent :: "string \<Rightarrow> int \<Rightarrow> ldb_store \<Rightarrow> bool \<times> ldb_store" where
  "ldb_mark_spent txid vout s =
     (case map_of (db s) (ldb_key txid vout) of
        Some (Record u) \<Rightarrow>
          if u_spent u then (False, s)
          else (True, ldb_save_stats
            (s\<lparr>db := AList.delete (ldb_addr_key (u_address u) txid vout)
                 (AList.update (ldb_key txid vout) (Record (u\<lparr>u_spent := True\<rparr>)) (db s)),
               ldb_total_value := float_sub (ldb_total_value s) (u_amount u),
               ldb_total_utxos := max 0 (ldb_total_utxos s - 1)\<rparr>))
      | _ \<Rightarrow> (False, s))"

definition ldb_get :: "string \<Rightarrow> int \<Rightarrow> ldb_store \<Rightarrow> utxo option" where
  "ldb_get txid vout s =
     (case map_of (db s) (ldb_key txid vout) of
        Some (Record u) \<Rightarrow> if \<not> u_spent u then Some u else None
      | _ \<Rightarrow> None)"

text \<open>\<open>key.split(":")\<close>\<close>

fun split_colon :: "string \<Rightarrow> string list" where
  "split_colon [] = [[]]"
| "split_colon (c # s) =
     (if c = CHR '':'' then [] # split_colon s
      else case split_colon s of [] \<Rightarrow> [[c]] | p # ps \<Rightarrow> (c # p) # ps)"

text \<open>The outputs behind the keys of the address index, in key order.\<close>

primrec ldb_collect :: "ldb_store \<Rightarrow> (string \<times> ldb_value) list \<Rightarrow> exn + utxo list" where
  "ldb_collect s [] = Inr []"
| "ldb_collect s (e # es) =
     (let parts = split_colon (fst e) in
      if length parts \<ge> 4 then
        (case parse_int 10 (parts ! 3) of
           Inl x \<Rightarrow> Inl x
         | Inr vout \<Rightarrow>
             (case ldb_collect s es of
                Inl x \<Rightarrow> Inl x
              | Inr us \<Rightarrow> (case ldb_get (parts ! 2) vout s of None \<Rightarrow> Inr us | Some u \<Rightarrow> Inr (u # us))))
      else ldb_collect s es)"

definition ldb_utxos_for :: "string \<Rightarrow> ldb_store \<Rightarrow> exn + utxo list" where
  "ldb_utxos_for address s = ldb_collect s (db_iterator (''addr:'' @ address @ '':'') (db s))"

definition ldb_balance :: "string \<Rightarrow> ldb_store \<Rightarrow> exn + pyfloat" where
  "ldb_balance address s = map_sum id (\<lambda>us. float_sum (map u_amount us)) (ldb_utxos_for address s)"

definition ldb_stats :: "ldb_store \<Rightarrow> int \<times> pyfloat" where
  "ldb_stats s = (ldb_total_utxos s, ldb_total_value s)"

definition ldb_records :: "ldb_store \<Rightarrow> utxo list" where
  "ldb_records s = concat (map (\<lambda>e. case snd e of Record u \<Rightarrow> [u] | _ \<Rightarrow> []) (db_iterator ''utxo:'' (db s)))"

definition ldb_digest :: "(string \<Rightarrow> string) \<Rightarrow> (pyfloat \<Rightarrow> string) \<Rightarrow> ldb_store \<Rightarrow> string" where
  "ldb_digest S F s = S (join_bar (sort (map (\<lambda>u. digest_entry F (u_address u) u) (ldb_records s))))"

definition ldb_to_dict :: "ldb_store \<Rightarrow> (string \<times> utxo list) list" where
  "ldb_to_dict s = fold (\<lambda>u d. AList.update (u_address u) (dict_get d (u_address u) [] @ [u]) d) (ldb_records s) []"

definition ldb_clear :: "ldb_store \<Rightarrow> ldb_store" where
  "ldb_clear s = ldb_save_stats \<lparr>db = [], ldb_total_utxos = 0, ldb_total_value = Fin 0\<rparr>"

definition ldb_load_one :: "string \<Rightarrow> utxo \<Rightarrow> ldb_store \<Rightarrow> ldb_store" where
  "ldb_load_one address u s =
     (let s1 = s\<lparr>db := AList.update (ldb_key (u_txid u) (u_vout u)) (Record (u\<lparr>u_address := address\<rparr>)) (db s)\<rparr>
      in if \<not> u_spent u
         then s1\<lparr>db := AList.update (ldb_addr_key address (u_txid u) (u_vout u)) Flag (db s1),
                 ldb_total_utxos := ldb_total_utxos s + 1, ldb_total_value := float_add (ldb_total_value s) (u_amount u)\<rparr>
         else s1)"

definition ldb_load :: "(string \<times> utxo list) list \<Rightarrow> ldb_store \<Rightarrow> ldb_store" where
  "ldb_load data s = ldb_save_stats (fold (\<lambda>(address, us). fold (ldb_load_one address) us) data
     \<lparr>db = [], ldb_total_utxos = 0, ldb_total_value = Fin 0\<rparr>)"

section \<open>The LevelDB backend keeps its address index exact\<close>

lemma ldb_key_simps [simp]:
  "ldb_key t v = ldb_key t' v' \<longleftrightarrow> t = t' \<and> v = v'"
  "ldb_key t v \<noteq> ldb_addr_key a t' v'" "ldb_addr_key a t' v' \<noteq> ldb_key t v"
  "ldb_key t v \<noteq> CHR ''s'' # k" "ldb_addr_key a t v \<noteq> CHR ''s'' # k"
  "CHR ''s'' # k \<noteq> ldb_key t v" "CHR ''s'' # k \<noteq> ldb_addr_key a t v"
  by (simp_all add: ldb_key_def ldb_addr_key_def utxo_key_inj)

definition no_colon :: "string \<Rightarrow> bool" where
  "no_colon s \<longleftrightarrow> CHR '':'' \<notin> set s"

lemma ldb_addr_key_inj:
  assumes "ldb_addr_key a t v = ldb_addr_key a' t' v'" and "no_colon a" "no_colon a'"
  shows "a = a' \<and> t = t' \<and> v = v'"
proof -
  have "a @ (CHR '':'' # utxo_key t v) = a' @ (CHR '':'' # utxo_key t' v')"
    using assms(1) by (simp add: ldb_addr_key_def)
  from no_char_split [OF this] assms(2,3) show ?thesis by (simp add: no_colon_def utxo_key_inj)
qed

definition ldb_shape :: "ldb_store \<Rightarrow> bool" where
  "ldb_shape s \<longleftrightarrow> wf_dict (db s) \<and>
     (\<forall>k w. map_of (db s) k = Some w \<longrightarrow> starts_with ''utxo:'' k \<longrightarrow>
        (\<exists>u. w = Record u \<and> k = ldb_key (u_txid u) (u_vout u) \<and> no_colon (u_txid u) \<and> no_colon (u_address u))) \<and>
     (\<forall>k. map_of (db s) k \<noteq> None \<longrightarrow> starts_with ''addr:'' k \<longrightarrow>
        (\<exists>u. ldb_get (u_txid u) (u_vout u) s = Some u \<and> k = ldb_addr_key (u_address u) (u_txid u) (u_vout u))) \<and>
     (\<forall>t v u. ldb_get t v s = Some u \<longrightarrow> map_of (db s) (ldb_addr_key (u_address u) t v) \<noteq> None) \<and>
     counts (\<lambda>t v. ldb_get t v s) (ldb_total_utxos s)"

text \<open>Closing the database and opening it again gives the same store.\<close>

definition ldb_inv :: "ldb_store \<Rightarrow> bool" where
  "ldb_inv s \<longleftrightarrow> ldb_shape s \<and> ldb_open (db s) = s"

lemma starts_ldb [simp]:
  "starts_with ''utxo:'' (ldb_key t v)" "\<not> starts_with ''addr:'' (ldb_key t v)"
  "starts_with ''addr:'' (ldb_addr_key a t v)" "\<not> starts_with ''utxo:'' (ldb_addr_key a t v)"
  "\<not> starts_with ''utxo:'' (CHR ''s'' # k)" "\<not> starts_with ''addr:'' (CHR ''s'' # k)"
  by (simp_all add: starts_with_def ldb_key_def ldb_addr_key_def)

lemma ldb_record:
  assumes "ldb_shape s" and "map_of (db s) (ldb_key t v) = Some w"
  shows "\<exists>u. w = Record u \<and> u_txid u = t \<and> u_vout u = v \<and> no_colon t \<and> no_colon (u_address u)"
  using assms(1) [unfolded ldb_shape_def] assms(2) starts_ldb(1) ldb_key_simps(1) by metis

lemma ldb_get_some:
  assumes "ldb_shape s" and "ldb_get t v s = Some u"
  shows "map_of (db s) (ldb_key t v) = Some (Record u)" "u_txid u = t" "u_vout u = v" "\<not> u_spent u"
    "no_colon t" "no_colon (u_address u)"
  using assms(2) ldb_record [OF assms(1), of t v] by (auto simp: ldb_get_def split: option.splits ldb_value.splits if_splits)

text \<open>Saving the totals touches no output.\<close>

lemma map_of_save_stats:
  "map_of (db (ldb_save_stats s)) =
    (map_of (db s))(''stats:total_utxos'' \<mapsto> Count (ldb_total_utxos s), ''stats:total_value'' \<mapsto> Amount (ldb_total_value s))"
  by (simp add: ldb_save_stats_def update_conv')

lemma ldb_get_save_stats [simp]: "ldb_get t v (ldb_save_stats s) = ldb_get t v s"
  by (simp add: ldb_get_def map_of_save_stats)

lemma ldb_totals_save_stats [simp]:
  "ldb_total_utxos (ldb_save_stats s) = ldb_total_utxos s" "ldb_total_value (ldb_save_stats s) = ldb_total_value s"
  by (simp_all add: ldb_save_stats_def)

lemma ldb_inv_save_stats: "ldb_shape s \<Longrightarrow> ldb_inv (ldb_save_stats s)"
proof -
  assume s: "ldb_shape s"
  have key: "map_of (db (ldb_save_stats s)) k = map_of (db s) k" if "starts_with ''utxo:'' k \<or> starts_with ''addr:'' k" for k
    using that by (auto simp: map_of_save_stats)
  have "wf_dict (db (ldb_save_stats s))" using s by (auto simp: ldb_save_stats_def ldb_shape_def)
  moreover have "\<forall>k w. map_of (db (ldb_save_stats s)) k = Some w \<longrightarrow> starts_with ''utxo:'' k \<longrightarrow>
        (\<exists>u. w = Record u \<and> k = ldb_key (u_txid u) (u_vout u) \<and> no_colon (u_txid u) \<and> no_colon (u_address u))"
    using s key unfolding ldb_shape_def by metis
  moreover have "\<forall>k. map_of (db (ldb_save_stats s)) k \<noteq> None \<longrightarrow> starts_with ''addr:'' k \<longrightarrow>
        (\<exists>u. ldb_get (u_txid u) (u_vout u) s = Some u \<and> k = ldb_addr_key (u_address u) (u_txid u) (u_vout u))"
    using s key unfolding ldb_shape_def by metis
  moreover have "\<forall>t v u. ldb_get t v s = Some u \<longrightarrow> map_of (db (ldb_save_stats s)) (ldb_addr_key (u_address u) t v) \<noteq> None"
    using s key starts_ldb(3) unfolding ldb_shape_def by metis
  ultimately have "ldb_shape (ldb_save_stats s)" using s unfolding ldb_shape_def by simp
  moreover have "ldb_open (db (ldb_save_stats s)) = ldb_save_stats s"
    by (simp add: ldb_open_def map_of_save_stats)
  ultimately show ?thesis by (simp add: ldb_inv_def)
qed

lemma ldb_inv_open_empty: "ldb_inv (ldb_open [])"
  by (simp add: ldb_inv_def ldb_shape_def ldb_open_def wf_dict_def ldb_get_def counts_def unspent_keys_def)

text \<open>A new record.\<close>

lemma ldb_add_load:
  "ldb_add a t v x sc s =
    (if map_of (db s) (ldb_key t v) \<noteq> None then (False, s)
     else (True, ldb_save_stats (ldb_load_one a (new_utxo a t v x sc) s)))"
  by (simp add: ldb_add_def ldb_load_one_def Let_def new_utxo_def)

lemma ldb_load_one_map:
  "map_of (db (ldb_load_one a u s)) =
    (if u_spent u then (map_of (db s))(ldb_key (u_txid u) (u_vout u) \<mapsto> Record (u\<lparr>u_address := a\<rparr>))
     else (map_of (db s))(ldb_key (u_txid u) (u_vout u) \<mapsto> Record (u\<lparr>u_address := a\<rparr>),
       ldb_addr_key a (u_txid u) (u_vout u) \<mapsto> Flag))"
  by (simp add: ldb_load_one_def Let_def update_conv')

lemma ldb_get_load_one:
  assumes "map_of (db s) (ldb_key (u_txid u) (u_vout u)) = None" and "u_address u = a"
  shows "ldb_get t v (ldb_load_one a u s) =
    (if \<not> u_spent u \<and> t = u_txid u \<and> v = u_vout u then Some u else ldb_get t v s)"
  using assms by (auto simp: ldb_get_def ldb_load_one_map)

lemma ldb_shape_load_one:
  assumes s: "ldb_shape s" and fresh: "map_of (db s) (ldb_key (u_txid u) (u_vout u)) = None" and own: "u_address u = a"
    and names: "no_colon a" "no_colon (u_txid u)"
  shows "ldb_shape (ldb_load_one a u s)"
proof -
  let ?s = "ldb_load_one a u s" and ?k = "ldb_key (u_txid u) (u_vout u)" and ?a = "ldb_addr_key a (u_txid u) (u_vout u)"
  note get = ldb_get_load_one [OF fresh own] and M = ldb_load_one_map [of a u s]
  have self: "u\<lparr>u_address := a\<rparr> = u" using own by (cases u) simp
  have old: "ldb_get (u_txid w) (u_vout w) s = Some w \<Longrightarrow> ldb_get (u_txid w) (u_vout w) ?s = Some w" for w
  proof -
    assume w: "ldb_get (u_txid w) (u_vout w) s = Some w"
    then have "\<not> (u_txid w = u_txid u \<and> u_vout w = u_vout u)" using fresh by (auto simp: ldb_get_def)
    then show ?thesis using w get [of "u_txid w" "u_vout w"] by auto
  qed
  have "wf_dict (db ?s)" using s by (auto simp: ldb_load_one_def Let_def ldb_shape_def)
  moreover have "\<exists>u. w = Record u \<and> k = ldb_key (u_txid u) (u_vout u) \<and> no_colon (u_txid u) \<and> no_colon (u_address u)"
    if k: "map_of (db ?s) k = Some w" "starts_with ''utxo:'' k" for k w
  proof (cases "k = ?k")
    case True
    then show ?thesis using k own names by (auto simp: M self split: if_splits)
  next
    case False
    then have "map_of (db s) k = Some w" using k by (auto simp: M split: if_splits)
    with k(2) s show ?thesis unfolding ldb_shape_def by blast
  qed
  moreover have "\<exists>u. ldb_get (u_txid u) (u_vout u) ?s = Some u \<and> k = ldb_addr_key (u_address u) (u_txid u) (u_vout u)"
    if k: "map_of (db ?s) k \<noteq> None" "starts_with ''addr:'' k" for k
  proof (cases "\<not> u_spent u \<and> k = ?a")
    case True
    then show ?thesis using own by (auto simp: get)
  next
    case False
    then have "map_of (db s) k \<noteq> None" using k by (auto simp: M split: if_splits)
    with k(2) s obtain w where "ldb_get (u_txid w) (u_vout w) s = Some w" "k = ldb_addr_key (u_address w) (u_txid w) (u_vout w)"
      unfolding ldb_shape_def by blast
    with old show ?thesis by blast
  qed
  moreover have "map_of (db ?s) (ldb_addr_key (u_address w) t v) \<noteq> None" if "ldb_get t v ?s = Some w" for t v w
  proof (cases "\<not> u_spent u \<and> t = u_txid u \<and> v = u_vout u")
    case True
    then have "w = u" using that by (simp add: get)
    then show ?thesis using True own by (simp add: M)
  next
    case False
    then have "ldb_get t v s = Some w" using that by (simp add: get split: if_splits)
    then have "map_of (db s) (ldb_addr_key (u_address w) t v) \<noteq> None" using s unfolding ldb_shape_def by blast
    then show ?thesis by (simp add: M)
  qed
  moreover have "counts (\<lambda>t v. ldb_get t v ?s) (ldb_total_utxos ?s)"
  proof (cases "u_spent u")
    case True
    then have "ldb_total_utxos ?s = ldb_total_utxos s" "\<And>t v. ldb_get t v ?s = ldb_get t v s"
      by (simp add: ldb_load_one_def Let_def) (simp add: get True)
    then show ?thesis using s by (simp add: ldb_shape_def)
  next
    case False
    have "ldb_get t v ?s = (if t = u_txid u \<and> v = u_vout u then Some u else ldb_get t v s)" for t v using False by (simp add: get)
    moreover have "ldb_get (u_txid u) (u_vout u) s = None" using fresh by (simp add: ldb_get_def)
    moreover have "ldb_total_utxos ?s = ldb_total_utxos s + 1" using False by (simp add: ldb_load_one_def Let_def)
    ultimately show ?thesis using counts_insert [of "\<lambda>t v. ldb_get t v s"] s by (simp add: ldb_shape_def)
  qed
  ultimately show ?thesis unfolding ldb_shape_def by blast
qed

text \<open>Spending.\<close>

lemma ldb_mark_None: "ldb_get t v s = None \<Longrightarrow> ldb_mark_spent t v s = (False, s)"
  by (auto simp: ldb_get_def ldb_mark_spent_def split: option.splits ldb_value.splits if_splits)

lemma ldb_mark_Some:
  assumes inv: "ldb_inv s" and get: "ldb_get t v s = Some u"
  shows "\<exists>s'. ldb_mark_spent t v s = (True, s') \<and> ldb_inv s' \<and>
    (\<forall>t' v'. ldb_get t' v' s' = (if t' = t \<and> v' = v then None else ldb_get t' v' s))"
proof -
  have s: "ldb_shape s" using inv by (simp add: ldb_inv_def)
  note u = ldb_get_some [OF s get]
  define s' where "s' = s\<lparr>db := AList.delete (ldb_addr_key (u_address u) t v) (AList.update (ldb_key t v) (Record (u\<lparr>u_spent := True\<rparr>)) (db s)),
     ldb_total_value := float_sub (ldb_total_value s) (u_amount u), ldb_total_utxos := max 0 (ldb_total_utxos s - 1)\<rparr>"
  have run: "ldb_mark_spent t v s = (True, ldb_save_stats s')" using u by (simp add: ldb_mark_spent_def s'_def)
  have M: "map_of (db s') = (map_of (db s))(ldb_key t v \<mapsto> Record (u\<lparr>u_spent := True\<rparr>), ldb_addr_key (u_address u) t v := None)"
    by (rule ext) (simp add: s'_def delete_conv update_conv')
  have get': "ldb_get t' v' s' = (if t' = t \<and> v' = v then None else ldb_get t' v' s)" for t' v'
    by (auto simp: ldb_get_def M)
  have "wf_dict (db s')" using s by (auto simp: s'_def ldb_shape_def wf_dict_def distinct_update distinct_delete)
  moreover have "\<exists>u. w = Record u \<and> k = ldb_key (u_txid u) (u_vout u) \<and> no_colon (u_txid u) \<and> no_colon (u_address u)"
    if k: "map_of (db s') k = Some w" "starts_with ''utxo:'' k" for k w
  proof (cases "k = ldb_key t v")
    case True
    then show ?thesis using k u by (auto simp: M)
  next
    case False
    then have "map_of (db s) k = Some w" using k by (auto simp: M split: if_splits)
    with k(2) s show ?thesis unfolding ldb_shape_def by blast
  qed
  moreover have "\<exists>u. ldb_get (u_txid u) (u_vout u) s' = Some u \<and> k = ldb_addr_key (u_address u) (u_txid u) (u_vout u)"
    if k: "map_of (db s') k \<noteq> None" "starts_with ''addr:'' k" for k
  proof -
    have "map_of (db s) k \<noteq> None" and ne: "k \<noteq> ldb_addr_key (u_address u) t v" using k by (auto simp: M split: if_splits)
    with k(2) s obtain w where w: "ldb_get (u_txid w) (u_vout w) s = Some w" "k = ldb_addr_key (u_address w) (u_txid w) (u_vout w)"
      unfolding ldb_shape_def by blast
    have "\<not> (u_txid w = t \<and> u_vout w = v)" using w ne get by auto
    then show ?thesis using w by (auto simp: get')
  qed
  moreover have "map_of (db s') (ldb_addr_key (u_address w) t' v') \<noteq> None" if "ldb_get t' v' s' = Some w" for t' v' w
  proof -
    have w: "\<not> (t' = t \<and> v' = v)" "ldb_get t' v' s = Some w" using that by (auto simp: get' split: if_splits)
    have "ldb_addr_key (u_address w) t' v' \<noteq> ldb_addr_key (u_address u) t v"
      using ldb_addr_key_inj [of "u_address w" t' v' "u_address u" t v] ldb_get_some(6) [OF s w(2)] u(6) w(1) by auto
    moreover have "map_of (db s) (ldb_addr_key (u_address w) t' v') \<noteq> None" using s w(2) unfolding ldb_shape_def by blast
    ultimately show ?thesis by (simp add: M)
  qed
  moreover have "counts (\<lambda>t v. ldb_get t v s') (ldb_total_utxos s')"
  proof -
    have "counts (\<lambda>t v. ldb_get t v s) (ldb_total_utxos s)" using s by (simp add: ldb_shape_def)
    from counts_remove [OF this _ get'] get show ?thesis by (simp add: s'_def)
  qed
  ultimately have "ldb_shape s'" unfolding ldb_shape_def by blast
  then have "ldb_inv (ldb_save_stats s')" by (rule ldb_inv_save_stats)
  with run get' show ?thesis by auto
qed

lemma ldb_add_Some: "ldb_get t v s \<noteq> None \<Longrightarrow> ldb_add a t v x sc s = (False, s)"
  by (auto simp: ldb_add_def ldb_get_def split: option.splits)

text \<open>Unlike the memory backend, a record that was spent stays and refuses to be added again.\<close>

lemma ldb_add_None:
  assumes inv: "ldb_inv s" and key: "map_of (db s) (ldb_key t v) = None" and "no_colon a" "no_colon t"
  shows "\<exists>s'. ldb_add a t v x sc s = (True, s') \<and> ldb_inv s' \<and>
    (\<forall>t' v'. ldb_get t' v' s' = (if t' = t \<and> v' = v then Some (new_utxo a t v x sc) else ldb_get t' v' s))"
proof -
  let ?u = "new_utxo a t v x sc"
  have u: "u_txid ?u = t" "u_vout ?u = v" "u_address ?u = a" "\<not> u_spent ?u" by (simp_all add: new_utxo_def)
  have "ldb_shape s" using inv by (simp add: ldb_inv_def)
  then have "ldb_shape (ldb_load_one a ?u s)" using key assms(3,4) u by (intro ldb_shape_load_one) auto
  then have "ldb_inv (ldb_save_stats (ldb_load_one a ?u s))" by (rule ldb_inv_save_stats)
  moreover have "ldb_get t' v' (ldb_load_one a ?u s) = (if t' = t \<and> v' = v then Some ?u else ldb_get t' v' s)" for t' v'
    using ldb_get_load_one [of s ?u a t' v'] key u by simp
  ultimately show ?thesis using key by (simp add: ldb_add_load)
qed

text \<open>The outputs of an address, through the address index.\<close>

lemma split_colon_plain: "no_colon s \<Longrightarrow> split_colon s = [s]"
  by (induction s) (auto simp: no_colon_def)

lemma split_colon_cons: "no_colon s \<Longrightarrow> split_colon (s @ CHR '':'' # r) = s # split_colon r"
  by (induction s) (auto simp: no_colon_def)

lemma split_addr_key:
  "no_colon a \<Longrightarrow> no_colon t \<Longrightarrow> split_colon (ldb_addr_key a t v) = [''addr'', a, t, dec_text v]"
proof -
  assume a: "no_colon a" and t: "no_colon t"
  have d: "no_colon (dec_text v)" "no_colon ''addr''" by (simp_all add: no_colon_def dec_text_plain)
  have "ldb_addr_key a t v = ''addr'' @ CHR '':'' # (a @ CHR '':'' # (t @ CHR '':'' # dec_text v))"
    by (simp add: ldb_addr_key_def utxo_key_def)
  then show ?thesis using split_colon_cons [OF d(2)] split_colon_cons [OF a] split_colon_cons [OF t] split_colon_plain [OF d(1)]
    by simp
qed

lemma ldb_collect_keys:
  assumes "\<forall>e \<in> set es. \<exists>u. ldb_get (u_txid u) (u_vout u) s = Some u \<and> u_address u = a \<and>
      fst e = ldb_addr_key a (u_txid u) (u_vout u) \<and> no_colon (u_txid u)" and "no_colon a"
  shows "\<exists>us. ldb_collect s es = Inr us \<and> map (\<lambda>u. ldb_addr_key a (u_txid u) (u_vout u)) us = map fst es \<and>
    (\<forall>u \<in> set us. ldb_get (u_txid u) (u_vout u) s = Some u \<and> u_address u = a)"
  using assms(1)
proof (induction es)
  case (Cons e es)
  then obtain us where us: "ldb_collect s es = Inr us" "map (\<lambda>u. ldb_addr_key a (u_txid u) (u_vout u)) us = map fst es"
    "\<forall>u \<in> set us. ldb_get (u_txid u) (u_vout u) s = Some u \<and> u_address u = a" by auto
  obtain u where u: "ldb_get (u_txid u) (u_vout u) s = Some u" "u_address u = a" "fst e = ldb_addr_key a (u_txid u) (u_vout u)"
    "no_colon (u_txid u)" using Cons.prems by auto
  have "ldb_collect s (e # es) = Inr (u # us)"
    using us(1) u split_addr_key [OF assms(2) u(4), of "u_vout u"] by (simp add: Let_def parse_dec_text)
  with us u show ?case by simp
qed simp

lemma starts_addr_key:
  assumes "no_colon a" "no_colon b"
  shows "starts_with (''addr:'' @ a @ '':'') (ldb_addr_key b t v) \<longleftrightarrow> b = a"
proof
  assume "starts_with (''addr:'' @ a @ '':'') (ldb_addr_key b t v)"
  then have "take (Suc (length a)) (b @ CHR '':'' # utxo_key t v) = a @ [CHR '':'']"
    by (simp add: starts_with_def ldb_addr_key_def)
  then obtain r where "b @ (CHR '':'' # utxo_key t v) = a @ (CHR '':'' # r)" by (metis append_Cons append_Nil append_assoc append_take_drop_id)
  from no_char_split [OF this] assms show "b = a" by (simp add: no_colon_def)
qed (simp add: starts_with_def ldb_addr_key_def)

lemma starts_with_prefix: "starts_with (p @ q) s \<Longrightarrow> starts_with p s"
proof -
  assume "starts_with (p @ q) s"
  then have "take (length p) (take (length (p @ q)) s) = take (length p) (p @ q)" by (simp add: starts_with_def)
  then show ?thesis by (simp add: starts_with_def min_def)
qed

lemma db_iterator_set: "set (db_iterator p d) = {e \<in> set d. starts_with p (fst e)}"
  by (auto simp: db_iterator_def)

lemma db_iterator_distinct: "wf_dict d \<Longrightarrow> distinct (map fst (db_iterator p d))"
  by (auto simp: wf_dict_def db_iterator_def distinct_map intro: inj_on_subset)

lemma distinct_keys: "distinct (map (\<lambda>u. f (u_txid u) (u_vout u)) us) \<Longrightarrow> distinct (map key_of us)"
  by (auto simp: distinct_map inj_on_def key_of_def)

lemma ldb_utxos_for_spec:
  assumes inv: "ldb_inv s" and a: "no_colon a"
  shows "\<exists>us. ldb_utxos_for a s = Inr us \<and> distinct (map key_of us) \<and>
    (\<forall>u. u \<in> set us \<longleftrightarrow> ldb_get (u_txid u) (u_vout u) s = Some u \<and> u_address u = a)"
proof -
  have s: "ldb_shape s" using inv by (simp add: ldb_inv_def)
  have wf: "wf_dict (db s)" using s by (simp add: ldb_shape_def)
  let ?es = "db_iterator (''addr:'' @ a @ '':'') (db s)"
  have "\<exists>u. ldb_get (u_txid u) (u_vout u) s = Some u \<and> u_address u = a \<and>
      fst e = ldb_addr_key a (u_txid u) (u_vout u) \<and> no_colon (u_txid u)" if "e \<in> set ?es" for e
  proof -
    have e: "e \<in> set (db s)" "starts_with (''addr:'' @ a @ '':'') (fst e)" using that by (auto simp: db_iterator_set)
    have "starts_with ''addr:'' (fst e)" using starts_with_prefix [OF e(2)] .
    moreover have "map_of (db s) (fst e) \<noteq> None" using e(1) by (auto simp: map_of_eq_None_iff)
    ultimately obtain u where u: "ldb_get (u_txid u) (u_vout u) s = Some u" "fst e = ldb_addr_key (u_address u) (u_txid u) (u_vout u)"
      using s unfolding ldb_shape_def by blast
    note n = ldb_get_some(5,6) [OF s u(1)]
    have "u_address u = a" using e(2) u(2) starts_addr_key [OF a n(2)] by simp
    with u n show ?thesis by metis
  qed
  then obtain us where us: "ldb_collect s ?es = Inr us" "map (\<lambda>u. ldb_addr_key a (u_txid u) (u_vout u)) us = map fst ?es"
    "\<forall>u \<in> set us. ldb_get (u_txid u) (u_vout u) s = Some u \<and> u_address u = a"
    using ldb_collect_keys [OF _ a] by blast
  have "distinct (map (\<lambda>u. ldb_addr_key a (u_txid u) (u_vout u)) us)" unfolding us(2) by (rule db_iterator_distinct [OF wf])
  then have "distinct (map key_of us)" by (rule distinct_keys)
  moreover have "u \<in> set us" if u: "ldb_get (u_txid u) (u_vout u) s = Some u" "u_address u = a" for u
  proof -
    have "map_of (db s) (ldb_addr_key a (u_txid u) (u_vout u)) \<noteq> None" using s u unfolding ldb_shape_def by blast
    then have "ldb_addr_key a (u_txid u) (u_vout u) \<in> fst ` set (db s)" by (simp add: map_of_eq_None_iff)
    then have "ldb_addr_key a (u_txid u) (u_vout u) \<in> set (map fst ?es)"
      using starts_addr_key [OF a a] by (force simp: db_iterator_set)
    then obtain w where w: "w \<in> set us" "ldb_addr_key a (u_txid u) (u_vout u) = ldb_addr_key a (u_txid w) (u_vout w)"
      unfolding us(2) [symmetric] by auto
    then have "u_txid w = u_txid u" "u_vout w = u_vout u" using ldb_addr_key_inj [OF w(2) a a] by simp_all
    with us(3) w(1) u(1) show ?thesis by (metis option.inject)
  qed
  ultimately show ?thesis using us(1,3) by (auto simp: ldb_utxos_for_def)
qed

text \<open>Import. A spent record would hide an unspent one with its key, so all keys must differ.\<close>

definition ldb_data_ok :: "(string \<times> utxo list) list \<Rightarrow> bool" where
  "ldb_data_ok data \<longleftrightarrow> wf_dict data \<and>
     (\<forall>e \<in> set data. \<forall>u \<in> set (snd e). u_address u = fst e \<and> no_colon (fst e) \<and> no_colon (u_txid u)) \<and>
     distinct (map key_of (outputs data))"

text \<open>An import loads one output after the other.\<close>

definition loads :: "(string \<times> utxo list) list \<Rightarrow> (string \<times> utxo) list" where
  "loads data = concat (map (\<lambda>e. map (Pair (fst e)) (snd e)) data)"

lemma fold_loads: "fold (\<lambda>(a, us). fold (f a) us) data s = fold (\<lambda>(a, u). f a u) (loads data) s"
proof -
  have "fold (f a) us s = fold (\<lambda>(a, u). f a u) (map (Pair a) us) s" for a us s by (induction us arbitrary: s) simp_all
  then show ?thesis by (induction data arbitrary: s) (simp_all add: loads_def case_prod_unfold)
qed

lemma snd_loads: "map snd (loads data) = outputs data"
  by (induction data) (simp_all add: loads_def outputs_def o_def)

lemma ldb_load_list:
  assumes "ldb_shape s" and "distinct (map (\<lambda>x. key_of (snd x)) xs)"
    and "\<forall>x \<in> set xs. u_address (snd x) = fst x \<and> no_colon (fst x) \<and> no_colon (u_txid (snd x))"
    and "\<forall>x \<in> set xs. map_of (db s) (ldb_key (u_txid (snd x)) (u_vout (snd x))) = None"
  shows "ldb_shape (fold (\<lambda>(a, u). ldb_load_one a u) xs s) \<and>
    (\<forall>t v. ldb_get t v (fold (\<lambda>(a, u). ldb_load_one a u) xs s) =
      (case find_unspent (map snd xs) t v of Some u \<Rightarrow> Some u | None \<Rightarrow> ldb_get t v s))"
  using assms
proof (induction xs arbitrary: s)
  case Nil
  then show ?case by (simp add: find_unspent_def)
next
  case (Cons x xs)
  obtain a u where x: "x = (a, u)" by (cases x)
  let ?s = "ldb_load_one a u s"
  have key: "map_of (db s) (ldb_key (u_txid u) (u_vout u)) = None" "u_address u = a" using Cons.prems(3,4) by (simp_all add: x)
  have shape: "ldb_shape ?s" using Cons.prems by (intro ldb_shape_load_one) (simp_all add: x)
  have ne: "u_txid u \<noteq> u_txid w \<or> u_vout u \<noteq> u_vout w" if "w \<in> snd ` set xs" for w
    using Cons.prems(2) that by (auto simp: x key_of_def)
  have fresh: "\<forall>x \<in> set xs. map_of (db ?s) (ldb_key (u_txid (snd x)) (u_vout (snd x))) = None"
  proof
    fix y assume y: "y \<in> set xs"
    then have "ldb_key (u_txid (snd y)) (u_vout (snd y)) \<noteq> ldb_key (u_txid u) (u_vout u)" using ne [of "snd y"] by auto
    with y Cons.prems(4) show "map_of (db ?s) (ldb_key (u_txid (snd y)) (u_vout (snd y))) = None" by (simp add: ldb_load_one_map)
  qed
  have none: "find_unspent (map snd xs) (u_txid u) (u_vout u) = None"
  proof (rule ccontr)
    assume "find_unspent (map snd xs) (u_txid u) (u_vout u) \<noteq> None"
    then obtain w where "find_unspent (map snd xs) (u_txid u) (u_vout u) = Some w" by blast
    from find_unspent_Some [OF this] ne [of w] show False by simp
  qed
  from Cons.IH [OF shape _ _ fresh] Cons.prems
  have "ldb_shape (fold (\<lambda>(a, u). ldb_load_one a u) xs ?s) \<and>
    (\<forall>t v. ldb_get t v (fold (\<lambda>(a, u). ldb_load_one a u) xs ?s) =
      (case find_unspent (map snd xs) t v of Some u \<Rightarrow> Some u | None \<Rightarrow> ldb_get t v ?s))" by simp
  then show ?case using none by (auto simp: x find_unspent_def ldb_get_load_one [OF key] split: option.split)
qed

lemma ldb_load_ok:
  assumes "ldb_data_ok data"
  shows "ldb_inv (ldb_load data s)" and "ldb_get t v (ldb_load data s) = find_unspent (outputs data) t v"
proof -
  let ?e = "\<lparr>db = [], ldb_total_utxos = 0, ldb_total_value = Fin 0\<rparr>"
  have e: "ldb_shape ?e" using ldb_inv_open_empty by (simp add: ldb_inv_def ldb_open_def)
  have none: "ldb_get t v ?e = None" for t v by (simp add: ldb_get_def)
  have "distinct (map (\<lambda>x. key_of (snd x)) (loads data))"
    using assms snd_loads [of data, symmetric] by (simp add: ldb_data_ok_def o_def)
  moreover have "\<forall>x \<in> set (loads data). u_address (snd x) = fst x \<and> no_colon (fst x) \<and> no_colon (u_txid (snd x))"
    using assms by (auto simp: ldb_data_ok_def loads_def)
  ultimately have *: "ldb_shape (fold (\<lambda>(a, u). ldb_load_one a u) (loads data) ?e) \<and>
    (\<forall>t v. ldb_get t v (fold (\<lambda>(a, u). ldb_load_one a u) (loads data) ?e) =
      (case find_unspent (map snd (loads data)) t v of Some u \<Rightarrow> Some u | None \<Rightarrow> ldb_get t v ?e))"
    by (intro ldb_load_list [OF e]) simp_all
  then show "ldb_inv (ldb_load data s)" unfolding ldb_load_def fold_loads by (intro ldb_inv_save_stats) blast
  show "ldb_get t v (ldb_load data s) = find_unspent (outputs data) t v"
    using * unfolding ldb_load_def fold_loads by (simp add: none snd_loads split: option.split)
qed

text \<open>Export.\<close>

lemma ldb_records_keys:
  assumes s: "ldb_shape s"
  shows "map (\<lambda>u. ldb_key (u_txid u) (u_vout u)) (ldb_records s) = map fst (db_iterator ''utxo:'' (db s))"
    and "u \<in> set (ldb_records s) \<longleftrightarrow> map_of (db s) (ldb_key (u_txid u) (u_vout u)) = Some (Record u)"
proof -
  let ?es = "db_iterator ''utxo:'' (db s)"
  have wf: "distinct (map fst (db s))" using s by (simp add: ldb_shape_def wf_dict_def)
  have rec: "\<exists>u. snd e = Record u \<and> fst e = ldb_key (u_txid u) (u_vout u)" if "e \<in> set ?es" for e
  proof -
    have "map_of (db s) (fst e) = Some (snd e)" "starts_with ''utxo:'' (fst e)"
      using that wf by (auto simp: db_iterator_set)
    with s show ?thesis unfolding ldb_shape_def by blast
  qed
  have "map (\<lambda>u. ldb_key (u_txid u) (u_vout u)) (concat (map (\<lambda>e. case snd e of Record u \<Rightarrow> [u] | _ \<Rightarrow> []) es)) = map fst es"
    if "set es \<subseteq> set ?es" for es using that
  proof (induction es)
    case (Cons e es)
    then obtain u where "snd e = Record u" "fst e = ldb_key (u_txid u) (u_vout u)" using rec [of e] by auto
    with Cons show ?case by simp
  qed simp
  from this [OF subset_refl]
  show "map (\<lambda>u. ldb_key (u_txid u) (u_vout u)) (ldb_records s) = map fst ?es" by (simp add: ldb_records_def)
  show "u \<in> set (ldb_records s) \<longleftrightarrow> map_of (db s) (ldb_key (u_txid u) (u_vout u)) = Some (Record u)"
  proof
    assume "u \<in> set (ldb_records s)"
    then obtain e where e: "e \<in> set ?es" "snd e = Record u" by (auto simp: ldb_records_def split: ldb_value.splits)
    from rec [OF e(1)] e(2) have "fst e = ldb_key (u_txid u) (u_vout u)" by auto
    moreover have "map_of (db s) (fst e) = Some (snd e)" using e(1) wf by (auto simp: db_iterator_set)
    ultimately show "map_of (db s) (ldb_key (u_txid u) (u_vout u)) = Some (Record u)" using e(2) by simp
  next
    assume "map_of (db s) (ldb_key (u_txid u) (u_vout u)) = Some (Record u)"
    then have "(ldb_key (u_txid u) (u_vout u), Record u) \<in> set (db s)" by (rule map_of_SomeD)
    then have "(ldb_key (u_txid u) (u_vout u), Record u) \<in> set ?es" by (simp add: db_iterator_set)
    then show "u \<in> set (ldb_records s)" by (force simp: ldb_records_def)
  qed
qed

lemma mset_outputs_update:
  "wf_dict d \<Longrightarrow> mset (outputs (AList.update a (dict_get d a [] @ [u]) d)) = add_mset u (mset (outputs d))"
proof (induction d)
  case (Cons e d)
  obtain b us where e: "e = (b, us)" by (cases e)
  have wf: "wf_dict d" using Cons.prems by (simp add: e wf_dict_def)
  show ?case
  proof (cases "b = a")
    case True
    then show ?thesis by (simp add: e outputs_def dict_get_def)
  next
    case False
    then show ?thesis using Cons.IH [OF wf] by (simp add: e outputs_def dict_get_def)
  qed
qed (simp add: outputs_def)

definition own_lists :: "(string \<times> utxo list) list \<Rightarrow> bool" where
  "own_lists d \<longleftrightarrow> wf_dict d \<and> (\<forall>e \<in> set d. \<forall>u \<in> set (snd e). u_address u = fst e)"

lemma own_lists_update:
  assumes d: "own_lists d"
  shows "own_lists (AList.update (u_address u) (dict_get d (u_address u) [] @ [u]) d)"
proof -
  let ?d = "AList.update (u_address u) (dict_get d (u_address u) [] @ [u]) d"
  have wf: "wf_dict ?d" using d by (auto simp: own_lists_def)
  moreover have "\<forall>w \<in> set us. u_address w = b" if "(b, us) \<in> set ?d" for b us
  proof -
    have m: "map_of ?d b = Some us" using wf that by (simp add: wf_dict_def)
    have old: "\<forall>w \<in> set ws. u_address w = c" if "map_of d c = Some ws" for c ws
      using d map_of_SomeD [OF that] by (auto simp: own_lists_def)
    show ?thesis
    proof (cases "b = u_address u")
      case True
      then have "us = dict_get d b [] @ [u]" using m by (simp add: update_conv')
      moreover have "\<forall>w \<in> set (dict_get d b []). u_address w = b" using old [of b] by (cases "map_of d b") (simp_all add: dict_get_def)
      ultimately show ?thesis using True by auto
    next
      case False
      then show ?thesis using m old [of b us] by (simp add: update_conv')
    qed
  qed
  ultimately show ?thesis unfolding own_lists_def by (metis prod.collapse)
qed

lemma ldb_group:
  "own_lists d \<Longrightarrow>
    own_lists (fold (\<lambda>u d. AList.update (u_address u) (dict_get d (u_address u) [] @ [u]) d) us d) \<and>
    mset (outputs (fold (\<lambda>u d. AList.update (u_address u) (dict_get d (u_address u) [] @ [u]) d) us d)) = mset us + mset (outputs d)"
proof (induction us arbitrary: d)
  case (Cons u us)
  let ?d = "AList.update (u_address u) (dict_get d (u_address u) [] @ [u]) d"
  have "mset (outputs ?d) = add_mset u (mset (outputs d))"
    using Cons.prems mset_outputs_update by (simp add: own_lists_def)
  with Cons.IH [OF own_lists_update [OF Cons.prems, of u]] show ?case by simp
qed simp

lemma ldb_export_ok:
  assumes inv: "ldb_inv s"
  shows "ldb_data_ok (ldb_to_dict s)" and "find_unspent (outputs (ldb_to_dict s)) t v = ldb_get t v s"
proof -
  have s: "ldb_shape s" using inv by (simp add: ldb_inv_def)
  have wf: "wf_dict (db s)" using s by (simp add: ldb_shape_def)
  have "own_lists (ldb_to_dict s) \<and> mset (outputs (ldb_to_dict s)) = mset (ldb_records s) + mset (outputs [])"
    unfolding ldb_to_dict_def by (rule ldb_group) (simp add: own_lists_def wf_dict_def)
  then have own: "own_lists (ldb_to_dict s)" and mset: "mset (outputs (ldb_to_dict s)) = mset (ldb_records s)"
    by (simp_all add: outputs_def)
  have set: "u \<in> set (outputs (ldb_to_dict s)) \<longleftrightarrow> map_of (db s) (ldb_key (u_txid u) (u_vout u)) = Some (Record u)" for u
    using ldb_records_keys(2) [OF s, of u] mset_eq_setD [OF mset] by simp
  have "distinct (map (\<lambda>u. ldb_key (u_txid u) (u_vout u)) (ldb_records s))"
    unfolding ldb_records_keys(1) [OF s] by (rule db_iterator_distinct [OF wf])
  then have "distinct (map key_of (ldb_records s))" by (rule distinct_keys)
  moreover have "mset (map key_of (ldb_records s)) = mset (map key_of (outputs (ldb_to_dict s)))" using mset by simp
  ultimately have dist: "distinct (map key_of (outputs (ldb_to_dict s)))" by (metis mset_eq_imp_distinct_iff)
  have names: "no_colon (u_txid u) \<and> no_colon (u_address u)" if "u \<in> set (outputs (ldb_to_dict s))" for u
    using ldb_record [OF s] that [unfolded set] by fastforce
  have member: "u \<in> set (outputs (ldb_to_dict s))" if "e \<in> set (ldb_to_dict s)" "u \<in> set (snd e)" for e u
    using that by (auto simp: outputs_def)
  show "ldb_data_ok (ldb_to_dict s)"
    unfolding ldb_data_ok_def
  proof (intro conjI ballI)
    fix e u assume e: "e \<in> set (ldb_to_dict s)" and u: "u \<in> set (snd e)"
    show "u_address u = fst e" using own e u by (auto simp: own_lists_def)
    with names [OF member [OF e u]] show "no_colon (fst e)" "no_colon (u_txid u)" by simp_all
  qed (use own dist in \<open>simp_all add: own_lists_def\<close>)
  have uniq: "unique_unspent (outputs (ldb_to_dict s))"
    using dist unfolding unique_unspent_def by (rule distinct_map_filter)
  show "find_unspent (outputs (ldb_to_dict s)) t v = ldb_get t v s"
  proof (cases "ldb_get t v s")
    case None
    have "find_unspent (outputs (ldb_to_dict s)) t v \<noteq> Some u" for u
    proof
      assume "find_unspent (outputs (ldb_to_dict s)) t v = Some u"
      from find_unspent_Some [OF this] set [of u] None show False by (auto simp: ldb_get_def)
    qed
    then show ?thesis using None by (metis not_None_eq)
  next
    case (Some u)
    note u = ldb_get_some [OF s Some]
    then have "find_unspent (outputs (ldb_to_dict s)) (u_txid u) (u_vout u) = Some u"
      by (intro find_unspent_member [OF uniq]) (simp_all add: set)
    with u Some show ?thesis by simp
  qed
qed

definition leveldb_store :: "ldb_store store_ops" where
  "leveldb_store = \<lparr>op_add = ldb_add, op_mark = ldb_mark_spent, op_get = ldb_get, op_utxos_for = ldb_utxos_for,
     op_stats = ldb_stats, op_to_dict = ldb_to_dict, op_load = ldb_load, op_clear = ldb_clear\<rparr>"

lemma ldb_data_ok_compact: "ldb_data_ok d \<Longrightarrow> ldb_data_ok (compacted d)"
  using wf_dict_compacted compacted_entries
  by (auto simp: ldb_data_ok_def outputs_compacted intro: distinct_map_filter) (metis subsetD)+

interpretation ldb: utxo_store leveldb_store ldb_inv no_colon ldb_data_ok "\<lambda>s. {(t, v). map_of (db s) (ldb_key t v) \<noteq> None}"
proof (unfold_locales, goal_cases)
  case (1 s t v u)
  then show ?case using ldb_get_some [of s t v u] by (simp add: leveldb_store_def ldb_inv_def)
next
  case (2 s t v a x sc)
  then show ?case by (simp add: leveldb_store_def ldb_add_Some)
next
  case (3 a t v x sc s s')
  then show ?case by (simp add: leveldb_store_def ldb_add_def split: if_splits)
next
  case (4 s a t v x sc s' t' v')
  then show ?case using ldb_add_None [of s t v a x sc]
    by (cases "map_of (db s) (ldb_key t v)") (auto simp: leveldb_store_def ldb_add_def)
next
  case (5 s a t v x sc ok s')
  then show ?case using ldb_add_None [of s t v a x sc]
    by (cases "map_of (db s) (ldb_key t v)") (auto simp: leveldb_store_def ldb_add_def)
next
  case (6 s t v)
  then show ?case by (simp add: leveldb_store_def ldb_mark_None)
next
  case (7 s t v u)
  then show ?case using ldb_mark_Some [of s t v u] by (auto simp: leveldb_store_def)
next
  case (8 s t v s' t' v')
  then show ?case using ldb_mark_Some [of s t v] ldb_mark_None [of t v s]
    by (cases "ldb_get t v s") (auto simp: leveldb_store_def)
next
  case (9 s t v ok s')
  then show ?case using ldb_mark_Some [of s t v] ldb_mark_None [of t v s]
    by (cases "ldb_get t v s") (auto simp: leveldb_store_def)
next
  case (10 s a)
  then show ?case using ldb_utxos_for_spec by (simp add: leveldb_store_def)
next
  case (11 s)
  then show ?case by (simp add: leveldb_store_def ldb_stats_def ldb_inv_def ldb_shape_def)
next
  case (12 s)
  then show ?case using ldb_export_ok by (simp add: leveldb_store_def)
next
  case (13 s t v)
  then show ?case using ldb_export_ok by (simp add: leveldb_store_def)
next
  case (14 d s)
  then show ?case using ldb_load_ok by (simp add: leveldb_store_def)
next
  case (15 d t v s)
  then show ?case using ldb_load_ok by (simp add: leveldb_store_def)
next
  case (16 d)
  then show ?case by (rule ldb_data_ok_compact)
next
  case (17 s)
  have "ldb_shape \<lparr>db = [], ldb_total_utxos = 0, ldb_total_value = Fin 0\<rparr>"
    using ldb_inv_open_empty by (simp add: ldb_inv_def ldb_open_def)
  then show ?case by (simp add: leveldb_store_def ldb_clear_def ldb_inv_save_stats)
next
  case (18 t v s)
  then show ?case by (simp add: leveldb_store_def ldb_clear_def) (simp add: ldb_get_def)
next
  case (19 s t v a x sc)
  then show ?case by (simp add: leveldb_store_def ldb_add_def)
next
  case (20 a t v x sc s ok s')
  then show ?case
    by (auto simp: leveldb_store_def ldb_add_load map_of_save_stats ldb_load_one_map new_utxo_def split: if_splits)
next
  case (21 t v s ok s')
  then show ?case
    by (auto simp: leveldb_store_def ldb_mark_spent_def map_of_save_stats delete_conv' update_conv'
        split: option.splits ldb_value.splits if_splits)
qed

section \<open>Both backends are the same finite map\<close>

text \<open>
  C25: The two backends of the unspent output set are interchangeable: started empty and given the same
  requests to add, spend and look up outputs, they give the same replies, those of a finite map from output
  keys, in which an output that is unspent is not added again. No output is added after a request to spend it (there
  they differ) and no address or transaction id holds the separator of LevelDB's keys.
\<close>

theorem backends_agree:
  assumes "never_readded [] qs" and "\<forall>n \<in> names_of qs. no_colon n"
  shows "serve_all (serve memory_store) qs new_mem_store = serve_all serve_map qs (\<lambda>k. None)
    \<and> serve_all (serve leveldb_store) qs (ldb_open []) = serve_all serve_map qs (\<lambda>k. None)"
proof -
  have "mem.as_map new_mem_store = (\<lambda>k. None)" "ldb.as_map (ldb_open []) = (\<lambda>k. None)"
    unfolding mem.as_map_def ldb.as_map_def
    by (simp_all add: memory_store_def leveldb_store_def mem_get_def ldb_get_def new_mem_store_def ldb_open_def)
  then show ?thesis
    using mem.serve_all_refines [OF mem_inv_new _ assms(1)] ldb.serve_all_refines [OF ldb_inv_open_empty assms(2,1)]
    by (simp add: new_mem_store_def ldb_open_def)
qed

definition sample_requests :: "request list" where
  "sample_requests = [Add ''alice'' ''t1'' 0 (Fin 5) ''P2PKH alice'', Add ''bob'' ''t1'' 0 (Fin 9) ''P2PKH bob'',
     Spend ''t1'' 0, Spend ''t1'' 0, Look ''t1'' 0]"

theorem backends_agree_witness:
  "serve_all (serve leveldb_store) sample_requests (ldb_open []) = [Done True, Done False, Done True, Done False, Found None]"
  using backends_agree [of sample_requests]
  by (simp add: sample_requests_def names_of_def no_colon_def)

text \<open>Added again, a spent output comes back in memory and is refused by LevelDB.\<close>

lemma readded_output:
  "serve_all (serve memory_store) [Add a t v x sc, Spend t v, Add a t v x sc] new_mem_store = [Done True, Done True, Done True]"
  "serve_all (serve leveldb_store) [Add a t v x sc, Spend t v, Add a t v x sc] (ldb_open []) = [Done True, Done True, Done False]"
  by (simp_all add: memory_store_def leveldb_store_def mem_add_def mem_mark_spent_def mem_object_def new_mem_store_def Let_def
      dict_get_def new_utxo_def ldb_add_load ldb_mark_spent_def ldb_open_def map_of_save_stats ldb_load_one_map delete_conv' update_conv')

end
