(* ===== verification/UtxoManager.thy ===== *)
theory UtxoManager
  imports LevelDbUtxoStore Merkle
begin

text \<open>
  \<open>UTXOManager\<close> (\<open>transactions/utxo_manager.py\<close>) over any store object, and the validation of
  amounts it uses (\<open>consensus/validation.py\<close>). A method takes the store's functions as its
  first argument. Locks of pending transactions are two dicts from output keys to transaction ids
  and one from transaction ids to keys.
\<close>

section \<open>Decimals\<close>

text \<open>
  \<open>Decimal(str(x))\<close> of a float: \<open>repr\<close> prints the decimal with the fewest significant digits that
  reads back as the same float. Seventeen digits are always enough; the last branch is not reached.
\<close>

definition pow10 :: "int \<Rightarrow> rat" where
  "pow10 e = (if 0 \<le> e then 10 ^ nat e else 1 / 10 ^ nat (- e))"

text \<open>The exponent of the leading digit of a positive rational.\<close>

definition log10_floor :: "rat \<Rightarrow> int" where
  "log10_floor q =
     (if 1 \<le> q then int (length (dec_nat (nat \<lfloor>q\<rfloor>))) - 1
      else let l = int (length (dec_nat (nat \<lfloor>1 / q\<rfloor>))) in if q = pow10 (1 - l) then 1 - l else - l)"

definition round_digits :: "nat \<Rightarrow> rat \<Rightarrow> rat" where
  "round_digits k q =
     (if q = 0 then 0 else let e = log10_floor \<bar>q\<bar> - int k + 1 in of_int (round_even (q / pow10 e)) * pow10 e)"

definition repr_decimal :: "rat \<Rightarrow> rat" where
  "repr_decimal q =
     (case find (\<lambda>k. to_float (round_digits k q) = Fin q) [1..<18] of Some k \<Rightarrow> round_digits k q | None \<Rightarrow> q)"

text \<open>What callers pass as an amount; a \<open>Decimal\<close> stands for its value.\<close>

datatype amount_arg = NoneAmount | OtherAmount | IntAmount int | FloatAmount pyfloat | DecimalAmount rat

section \<open>Validation of amounts\<close>

definition MAX_SUPPLY :: rat where "MAX_SUPPLY = 121000000"

text \<open>The literal \<open>0.000000000000000001\<close>.\<close>

definition MINIMUM_TRANSACTION_AMOUNT :: pyfloat where
  "MINIMUM_TRANSACTION_AMOUNT = to_float (1 / 10 ^ 18)"

definition DECIMAL_PRECISION :: nat where "DECIMAL_PRECISION = 28"

text \<open>\<open>d.quantize(Decimal("1e-18"), rounding=ROUND_DOWN)\<close> cuts digits off, towards zero.\<close>

definition quantize18 :: "rat \<Rightarrow> exn + rat" where
  "quantize18 d = (let c = (if d < 0 then - \<lfloor>- d * 10 ^ 18\<rfloor> else \<lfloor>d * 10 ^ 18\<rfloor>) in
      if \<bar>c\<bar> \<ge> 10 ^ DECIMAL_PRECISION then Inl InvalidOperation else Inr (of_int c / 10 ^ 18))"

definition check_amount :: "bool \<Rightarrow> pyfloat option \<Rightarrow> pyfloat option \<Rightarrow> rat \<Rightarrow> exn + pyfloat" where
  "check_amount allow_zero min_value max_value d =
     (let x = to_float d;
          low = (case min_value of Some m \<Rightarrow> m | None \<Rightarrow> if allow_zero then Fin 0 else MINIMUM_TRANSACTION_AMOUNT);
          high = (case max_value of Some m \<Rightarrow> m | None \<Rightarrow> Fin MAX_SUPPLY)
      in if float_less x (Fin 0) then Inl ValueError
         else if \<not> allow_zero \<and> float_eq x (Fin 0) then Inl ValueError
         else if float_less x low then Inl ValueError
         else if float_less high x then Inl ValueError
         else map_sum id to_float (quantize18 d))"

definition validate_decimal :: "bool \<Rightarrow> pyfloat option \<Rightarrow> pyfloat option \<Rightarrow> amount_arg \<Rightarrow> exn + pyfloat" where
  "validate_decimal allow_zero min_value max_value a =
     (case a of
        NoneAmount \<Rightarrow> Inl ValueError
      | OtherAmount \<Rightarrow> Inl ValueError
      | IntAmount n \<Rightarrow> check_amount allow_zero min_value max_value (of_int n)
      | DecimalAmount d \<Rightarrow> check_amount allow_zero min_value max_value d
      | FloatAmount (Fin q) \<Rightarrow> check_amount allow_zero min_value max_value (repr_decimal q)
      | FloatAmount x \<Rightarrow> Inl ValueError)"

text \<open>\<open>_validate_amount\<close> turns a \<open>ValueError\<close> into a \<open>UTXOValidationError\<close>.\<close>

definition MAX_UTXO_AMOUNT :: pyfloat where "MAX_UTXO_AMOUNT = Fin 121000000"

definition MIN_UTXO_AMOUNT :: pyfloat where "MIN_UTXO_AMOUNT = Fin 0"

definition validate_utxo_amount :: "amount_arg \<Rightarrow> exn + pyfloat" where
  "validate_utxo_amount a =
     (if a = NoneAmount then Inl UTXOValidationError
      else case validate_decimal True (Some MIN_UTXO_AMOUNT) (Some MAX_UTXO_AMOUNT) a of
             Inl ValueError \<Rightarrow> Inl UTXOValidationError
           | r \<Rightarrow> r)"

section \<open>The manager\<close>

type_synonym outpoint = "string \<times> int"

record 's utxo_manager =
  store :: 's
  pending_utxos :: "(outpoint \<times> string) list"
  utxo_to_tx :: "(outpoint \<times> string) list"
  tx_to_utxos :: "(string \<times> outpoint list) list"
  max_pending_txs :: int

definition new_manager :: "'s \<Rightarrow> 's utxo_manager" where
  "new_manager s = \<lparr>store = s, pending_utxos = [], utxo_to_tx = [], tx_to_utxos = [], max_pending_txs = 10000\<rparr>"

text \<open>A transaction, as the manager reads it.\<close>

record spending =
  tr_txid :: string
  tr_sender :: string
  tr_inputs :: "outpoint list"
  tr_outputs :: "(string \<times> amount_arg) list"

definition manager_add_utxo ::
    "'s store_ops \<Rightarrow> string \<Rightarrow> string \<Rightarrow> int \<Rightarrow> amount_arg \<Rightarrow> string \<Rightarrow> ('s utxo_manager, unit) meth" where
  "manager_add_utxo ops address tid vout amount script m =
     (case validate_utxo_amount amount of
        Inl e \<Rightarrow> (Inl e, m)
      | Inr x \<Rightarrow> (Inr (), m\<lparr>store := snd (op_add ops address tid vout x script (store m))\<rparr>))"

definition mark_utxo_spent :: "'s store_ops \<Rightarrow> string \<Rightarrow> string \<Rightarrow> int \<Rightarrow> ('s utxo_manager, bool) meth" where
  "mark_utxo_spent ops address tid vout m =
     (case op_get ops tid vout (store m) of
        None \<Rightarrow> (Inr False, m)
      | Some u \<Rightarrow>
          if u_address u \<noteq> [] \<and> u_address u \<noteq> address then (Inr False, m)
          else (case op_mark ops tid vout (store m) of (marked, s) \<Rightarrow> (Inr marked, m\<lparr>store := s\<rparr>)))"

definition is_pending :: "'s utxo_manager \<Rightarrow> outpoint \<Rightarrow> bool" where
  "is_pending m k \<longleftrightarrow> map_of (pending_utxos m) k \<noteq> None"

definition manager_utxos_for :: "'s store_ops \<Rightarrow> string \<Rightarrow> bool \<Rightarrow> 's utxo_manager \<Rightarrow> exn + utxo list" where
  "manager_utxos_for ops address exclude_pending m =
     map_sum id (\<lambda>us. if exclude_pending then filter (\<lambda>u. \<not> is_pending m (key_of u)) us else us)
       (op_utxos_for ops address (store m))"

definition manager_balance :: "'s store_ops \<Rightarrow> string \<Rightarrow> 's utxo_manager \<Rightarrow> exn + pyfloat" where
  "manager_balance ops address m =
     map_sum id (\<lambda>us. float_sum (map u_amount us)) (manager_utxos_for ops address True m)"

primrec add_outputs :: "'s store_ops \<Rightarrow> string \<Rightarrow> int \<Rightarrow> (string \<times> amount_arg) list \<Rightarrow> ('s utxo_manager, unit) meth" where
  "add_outputs ops tid vout [] = ret ()"
| "add_outputs ops tid vout (x # xs) =
     and_then (manager_add_utxo ops (fst x) tid vout (snd x) (''P2PKH '' @ fst x)) (\<lambda>_. add_outputs ops tid (vout + 1) xs)"

definition process_transaction_outputs :: "'s store_ops \<Rightarrow> spending \<Rightarrow> ('s utxo_manager, unit) meth" where
  "process_transaction_outputs ops t = add_outputs ops (tr_txid t) 0 (tr_outputs t)"

text \<open>Inputs are marked one by one; the first failure ends the loop and keeps what was marked.\<close>

primrec spend_inputs :: "'s store_ops \<Rightarrow> string \<Rightarrow> outpoint list \<Rightarrow> ('s utxo_manager, bool) meth" where
  "spend_inputs ops sender [] = ret True"
| "spend_inputs ops sender (k # ks) =
     and_then (mark_utxo_spent ops sender (fst k) (snd k)) (\<lambda>ok. if ok then spend_inputs ops sender ks else ret False)"

definition process_transaction_inputs :: "'s store_ops \<Rightarrow> spending \<Rightarrow> ('s utxo_manager, bool) meth" where
  "process_transaction_inputs ops t m =
     (if tr_sender t = ''COINBASE'' then (Inr True, m)
      else if \<not> distinct (tr_inputs t) then (Inl UTXOValidationError, m)
      else spend_inputs ops (tr_sender t) (tr_inputs t) m)"

definition get_unspent_output :: "'s store_ops \<Rightarrow> string \<Rightarrow> int \<Rightarrow> bool \<Rightarrow> 's utxo_manager \<Rightarrow> utxo option" where
  "get_unspent_output ops tid vout exclude_pending m =
     (if exclude_pending \<and> is_pending m (tid, vout) then None else op_get ops tid vout (store m))"

text \<open>The loop over the outputs stops when the sum reaches the amount.\<close>

primrec select_utxos :: "pyfloat \<Rightarrow> pyfloat \<Rightarrow> utxo list \<Rightarrow> utxo list \<times> pyfloat" where
  "select_utxos amount acc [] = ([], acc)"
| "select_utxos amount acc (u # us) =
     (let acc' = float_add acc (u_amount u) in
      if float_le amount acc' then ([u], acc')
      else (case select_utxos amount acc' us of (sel, t) \<Rightarrow> (u # sel, t)))"

definition find_spendable_utxos :: "'s store_ops \<Rightarrow> string \<Rightarrow> pyfloat \<Rightarrow> 's utxo_manager \<Rightarrow> exn + utxo list" where
  "find_spendable_utxos ops address amount m =
     map_sum id (\<lambda>us. case select_utxos amount (Fin 0) us of (sel, t) \<Rightarrow> if float_less t amount then [] else sel)
       (manager_utxos_for ops address True m)"

section \<open>Locks\<close>

definition lock_one :: "string \<Rightarrow> outpoint \<Rightarrow> 's utxo_manager \<Rightarrow> 's utxo_manager" where
  "lock_one tx_id k m = m\<lparr>pending_utxos := AList.update k tx_id (pending_utxos m), utxo_to_tx := AList.update k tx_id (utxo_to_tx m)\<rparr>"

definition lock_utxos :: "outpoint list \<Rightarrow> string \<Rightarrow> ('s utxo_manager, bool) meth" where
  "lock_utxos ks tx_id m =
     (if int (length (tx_to_utxos m)) \<ge> max_pending_txs m then (Inr False, m)
      else if \<exists>k \<in> set ks. is_pending m k then (Inr False, m)
      else let m' = fold (lock_one tx_id) ks m in
        (Inr True, if tx_id \<noteq> [] then m'\<lparr>tx_to_utxos := AList.update tx_id ks (tx_to_utxos m')\<rparr> else m'))"

definition unlock_one :: "outpoint \<Rightarrow> 's utxo_manager \<Rightarrow> 's utxo_manager" where
  "unlock_one k m =
     (if is_pending m k then
        let tx_id = map_of (utxo_to_tx m) k;
            m' = m\<lparr>utxo_to_tx := AList.delete k (utxo_to_tx m), pending_utxos := AList.delete k (pending_utxos m)\<rparr>
        in (case tx_id of
              Some (c # cs) \<Rightarrow>
                (case map_of (tx_to_utxos m) (c # cs) of
                   None \<Rightarrow> m'
                 | Some ks \<Rightarrow> let rest = filter (\<lambda>j. j \<noteq> k) ks in
                     if rest = [] then m'\<lparr>tx_to_utxos := AList.delete (c # cs) (tx_to_utxos m)\<rparr>
                     else m'\<lparr>tx_to_utxos := AList.update (c # cs) rest (tx_to_utxos m)\<rparr>)
            | _ \<Rightarrow> m')
      else m)"

text \<open>\<open>unlock_utxos\<close> is the same on the keys of its outputs.\<close>

definition unlock_utxos_by_keys :: "outpoint list \<Rightarrow> 's utxo_manager \<Rightarrow> 's utxo_manager" where
  "unlock_utxos_by_keys ks m = fold unlock_one ks m"

definition unlock_utxos :: "utxo list \<Rightarrow> 's utxo_manager \<Rightarrow> 's utxo_manager" where
  "unlock_utxos us m = fold unlock_one (map key_of us) m"

definition release_one :: "outpoint \<Rightarrow> 's utxo_manager \<times> int \<Rightarrow> 's utxo_manager \<times> int" where
  "release_one k p =
     (case p of (m, n) \<Rightarrow>
        if is_pending m k
        then (m\<lparr>pending_utxos := AList.delete k (pending_utxos m), utxo_to_tx := AList.delete k (utxo_to_tx m)\<rparr>, n + 1)
        else (m, n))"

definition release_utxos_for_tx :: "string \<Rightarrow> ('s utxo_manager, int) meth" where
  "release_utxos_for_tx tx_id m =
     (case map_of (tx_to_utxos m) tx_id of
        None \<Rightarrow> (Inr 0, m)
      | Some ks \<Rightarrow>
          (case fold release_one ks (m\<lparr>tx_to_utxos := AList.delete tx_id (tx_to_utxos m)\<rparr>, 0) of (m', n) \<Rightarrow> (Inr n, m')))"

definition get_pending_utxo_count :: "'s utxo_manager \<Rightarrow> int" where
  "get_pending_utxo_count m = int (length (pending_utxos m))"

definition get_pending_tx_count :: "'s utxo_manager \<Rightarrow> int" where
  "get_pending_tx_count m = int (length (tx_to_utxos m))"

definition get_locking_tx :: "string \<Rightarrow> int \<Rightarrow> 's utxo_manager \<Rightarrow> string option" where
  "get_locking_tx tid vout m = map_of (utxo_to_tx m) (tid, vout)"

section \<open>The whole set\<close>

definition load_utxo_set :: "'s store_ops \<Rightarrow> (string \<times> utxo list) list \<Rightarrow> 's utxo_manager \<Rightarrow> 's utxo_manager" where
  "load_utxo_set ops data m = m\<lparr>store := op_load ops data (store m)\<rparr>"

text \<open>The setter of \<open>utxo_set\<close>; \<open>restore\<close> does the same with the set of a snapshot.\<close>

definition restore_set :: "'s store_ops \<Rightarrow> (string \<times> utxo list) list \<Rightarrow> 's utxo_manager \<Rightarrow> 's utxo_manager" where
  "restore_set ops data m = m\<lparr>store := op_load ops data (op_clear ops (store m))\<rparr>"

record utxo_snapshot =
  snap_utxo_set :: "(string \<times> utxo list) list"
  snap_total_utxos :: int
  snap_total_value :: pyfloat

definition manager_snapshot :: "'s store_ops \<Rightarrow> 's utxo_manager \<Rightarrow> utxo_snapshot" where
  "manager_snapshot ops m =
     (let st = op_stats ops (store m) in
      \<lparr>snap_utxo_set = op_to_dict ops (store m), snap_total_utxos = fst st, snap_total_value = snd st\<rparr>)"

definition manager_restore :: "'s store_ops \<Rightarrow> utxo_snapshot \<Rightarrow> 's utxo_manager \<Rightarrow> 's utxo_manager" where
  "manager_restore ops snap m = restore_set ops (snap_utxo_set snap) m"

definition manager_clear :: "'s store_ops \<Rightarrow> 's utxo_manager \<Rightarrow> 's utxo_manager" where
  "manager_clear ops m = m\<lparr>store := op_clear ops (store m), pending_utxos := [], utxo_to_tx := [], tx_to_utxos := []\<rparr>"

definition get_total_unspent_value :: "'s store_ops \<Rightarrow> 's utxo_manager \<Rightarrow> pyfloat" where
  "get_total_unspent_value ops m = snd (op_stats ops (store m))"

primrec count_funded :: "'s store_ops \<Rightarrow> 's utxo_manager \<Rightarrow> string list \<Rightarrow> exn + int" where
  "count_funded ops m [] = Inr 0"
| "count_funded ops m (a # as) =
     (case manager_balance ops a m of
        Inl e \<Rightarrow> Inl e
      | Inr b \<Rightarrow> map_sum id (\<lambda>n. if float_less (Fin 0) b then n + 1 else n) (count_funded ops m as))"

definition get_unique_addresses_count :: "'s store_ops \<Rightarrow> 's utxo_manager \<Rightarrow> exn + int" where
  "get_unique_addresses_count ops m = count_funded ops m (map fst (op_to_dict ops (store m)))"

definition manager_stats :: "'s store_ops \<Rightarrow> 's utxo_manager \<Rightarrow> int \<times> pyfloat \<times> int" where
  "manager_stats ops m =
     (fst (op_stats ops (store m)), snd (op_stats ops (store m)), int (length (op_to_dict ops (store m))))"

definition compact_utxo_set :: "'s store_ops \<Rightarrow> ('s utxo_manager, int) meth" where
  "compact_utxo_set ops m =
     (let data = op_to_dict ops (store m);
          removed = int (length (filter u_spent (outputs data)))
      in if removed > 0 then (Inr removed, restore_set ops (compacted data) m) else (Inr 0, m))"

text \<open>\<open>S\<close> is the SHA-256 of a text, in hexadecimal.\<close>

definition utxo_merkle_root :: "(string \<Rightarrow> string) \<Rightarrow> (pyfloat \<Rightarrow> string) \<Rightarrow> 's store_ops \<Rightarrow> 's utxo_manager \<Rightarrow> string" where
  "utxo_merkle_root S F ops m =
     (let entries = sort (concat (map (\<lambda>(a, us). map (\<lambda>u. utxo_key (u_txid u) (u_vout u) @ '':'' @ a @ '':'' @ F (u_amount u))
            (filter (\<lambda>u. \<not> u_spent u) us)) (op_to_dict ops (store m))))
      in if entries = [] then S [] else fold_levels S (map S entries))"

record consistency =
  is_consistent :: bool
  total_stored :: int
  total_actual :: int
  value_stored :: pyfloat
  value_actual :: pyfloat
  value_mismatch :: bool
  duplicates_found :: "string list"

fun duplicate_keys :: "string list \<Rightarrow> string list \<Rightarrow> string list" where
  "duplicate_keys known [] = []"
| "duplicate_keys known (k # ks) = (if k \<in> set known then k # duplicate_keys known ks else duplicate_keys (k # known) ks)"

definition verify_utxo_consistency :: "'s store_ops \<Rightarrow> 's utxo_manager \<Rightarrow> consistency" where
  "verify_utxo_consistency ops m =
     (let us = filter (\<lambda>u. \<not> u_spent u) (outputs (op_to_dict ops (store m)));
          actual = foldl float_add (Fin 0) (map u_amount us);
          dups = duplicate_keys [] (map (\<lambda>u. utxo_key (u_txid u) (u_vout u)) us);
          st = op_stats ops (store m);
          mismatch = float_less MINIMUM_TRANSACTION_AMOUNT (float_abs (float_sub (snd st) actual))
      in \<lparr>is_consistent = (fst st = int (length us) \<and> \<not> mismatch \<and> dups = []),
          total_stored = fst st, total_actual = int (length us), value_stored = snd st, value_actual = actual,
          value_mismatch = mismatch, duplicates_found = dups\<rparr>)"

section \<open>Spending\<close>

text \<open>Who may spend an output: its owner, and anyone if it names none.\<close>

definition spendable_by :: "string \<Rightarrow> utxo \<Rightarrow> bool" where
  "spendable_by a u \<longleftrightarrow> u_address u = [] \<or> u_address u = a"

text \<open>The inputs up to the first that its sender cannot spend.\<close>

definition spendable_inputs :: "'s store_ops \<Rightarrow> string \<Rightarrow> outpoint list \<Rightarrow> 's \<Rightarrow> outpoint list" where
  "spendable_inputs ops a ks s =
     takeWhile (\<lambda>k. case op_get ops (fst k) (snd k) s of None \<Rightarrow> False | Some u \<Rightarrow> spendable_by a u) ks"

definition with_store :: "'s utxo_manager \<Rightarrow> 's utxo_manager \<Rightarrow> bool" where
  "with_store m m' \<longleftrightarrow> m' = m\<lparr>store := store m'\<rparr>"

lemma with_store_refl [simp]: "with_store m m"
  by (simp add: with_store_def)

lemma with_store_update [simp]: "with_store m (m\<lparr>store := s\<rparr>)"
  by (simp add: with_store_def)

lemma with_store_trans: "with_store m m' \<Longrightarrow> with_store m' m'' \<Longrightarrow> with_store m m''"
  unfolding with_store_def by (metis utxo_manager.surjective utxo_manager.update_convs(1))

lemma with_store_locks:
  "with_store m m' \<Longrightarrow> pending_utxos m' = pending_utxos m \<and> utxo_to_tx m' = utxo_to_tx m \<and> tx_to_utxos m' = tx_to_utxos m"
  unfolding with_store_def by (metis utxo_manager.ext_inject utxo_manager.surjective utxo_manager.update_convs(1))

context utxo_store
begin

lemma mark_utxo_spent_spec:
  assumes "inv (store m)"
  obtains ok m' where "mark_utxo_spent ops a t v m = (Inr ok, m')"
    and "ok \<longleftrightarrow> (\<exists>u. op_get ops t v (store m) = Some u \<and> spendable_by a u)"
    and "inv (store m')" "with_store m m'"
    and "\<And>t' v'. op_get ops t' v' (store m') = (if ok \<and> t' = t \<and> v' = v then None else op_get ops t' v' (store m))"
proof (cases "op_get ops t v (store m)")
  case None
  then show ?thesis using assms by (intro that [of False m]) (simp_all add: mark_utxo_spent_def)
next
  case (Some u)
  obtain ok s' where run: "op_mark ops t v (store m) = (ok, s')" by (metis surj_pair)
  have ok using mark_found [OF assms Some] run by simp
  show ?thesis
  proof (cases "spendable_by a u")
    case True
    then show ?thesis
      using Some run \<open>ok\<close> inv_mark [OF assms run] get_mark [OF assms, of t v s']
      by (intro that [of True "m\<lparr>store := s'\<rparr>"]) (auto simp: mark_utxo_spent_def spendable_by_def)
  next
    case False
    then show ?thesis using Some assms by (intro that [of False m]) (auto simp: mark_utxo_spent_def spendable_by_def)
  qed
qed

lemma spend_inputs_spec:
  assumes "inv (store m)" and "distinct ks"
  obtains m' where "spend_inputs ops a ks m = (Inr (spendable_inputs ops a ks (store m) = ks), m')"
    and "inv (store m')" "with_store m m'"
    and "\<And>t v. op_get ops t v (store m') =
      (if (t, v) \<in> set (spendable_inputs ops a ks (store m)) then None else op_get ops t v (store m))"
  using assms
proof (induction ks arbitrary: m thesis)
  case Nil
  then show ?case by (simp add: ret_def spendable_inputs_def)
next
  case (Cons k ks)
  let ?P = "\<lambda>s k. case op_get ops (fst k) (snd k) s of None \<Rightarrow> False | Some u \<Rightarrow> spendable_by a u"
  obtain ok m1 where mark: "mark_utxo_spent ops a (fst k) (snd k) m = (Inr ok, m1)"
    and ok: "ok \<longleftrightarrow> (\<exists>u. op_get ops (fst k) (snd k) (store m) = Some u \<and> spendable_by a u)"
    and inv1: "inv (store m1)" and same1: "with_store m m1"
    and get1: "\<And>t' v'. op_get ops t' v' (store m1) = (if ok \<and> t' = fst k \<and> v' = snd k then None else op_get ops t' v' (store m))"
    by (rule mark_utxo_spent_spec [OF Cons.prems(2), where a = a and t = "fst k" and v = "snd k"]) blast
  have head: "?P (store m) k = ok" using ok by (auto split: option.split)
  show ?case
  proof (cases ok)
    case False
    then have "op_get ops t' v' (store m1) = op_get ops t' v' (store m)" for t' v' by (simp add: get1)
    then show ?thesis using False mark head inv1 same1
      by (intro Cons.prems(1) [of m1]) (simp_all add: and_then_def ret_def spendable_inputs_def)
  next
    case True
    obtain m2 where m2: "spend_inputs ops a ks m1 = (Inr (spendable_inputs ops a ks (store m1) = ks), m2)"
      "inv (store m2)" "with_store m1 m2"
      "\<And>t v. op_get ops t v (store m2) =
        (if (t, v) \<in> set (spendable_inputs ops a ks (store m1)) then None else op_get ops t v (store m1))"
      using Cons.IH [OF _ inv1] Cons.prems(3) by auto
    have "?P (store m1) j = ?P (store m) j" if "j \<in> set ks" for j
    proof -
      have "j \<noteq> k" using that Cons.prems(3) by auto
      then have "\<not> (fst j = fst k \<and> snd j = snd k)" by (metis prod_eqI)
      then show ?thesis by (auto simp: get1)
    qed
    then have "spendable_inputs ops a ks (store m1) = spendable_inputs ops a ks (store m)"
      unfolding spendable_inputs_def by (intro takeWhile_cong) simp_all
    moreover have "spendable_inputs ops a (k # ks) (store m) = k # spendable_inputs ops a ks (store m)"
      using head True by (simp add: spendable_inputs_def)
    ultimately have good: "spendable_inputs ops a (k # ks) (store m) = k # spendable_inputs ops a ks (store m1)" by simp
    have run: "spend_inputs ops a (k # ks) m = (Inr (spendable_inputs ops a ks (store m1) = ks), m2)"
      using m2(1) mark True by (simp add: and_then_def)
    have pair: "(t, v) = k \<longleftrightarrow> t = fst k \<and> v = snd k" for t v by (cases k) simp
    show ?thesis
    proof (rule Cons.prems(1))
      show "spend_inputs ops a (k # ks) m = (Inr (spendable_inputs ops a (k # ks) (store m) = k # ks), m2)"
        using run by (simp add: good)
      show "with_store m m2" by (rule with_store_trans [OF same1 m2(3)])
      show "op_get ops t v (store m2) =
          (if (t, v) \<in> set (spendable_inputs ops a (k # ks) (store m)) then None else op_get ops t v (store m))" for t v
        using True by (simp add: good m2(4) get1 pair)
    qed (rule m2(2))
  qed
qed

lemma process_inputs_spec:
  assumes "inv (store m)" and "tr_sender t \<noteq> ''COINBASE''" "distinct (tr_inputs t)"
  obtains m' where
    "process_transaction_inputs ops t m =
      (Inr (spendable_inputs ops (tr_sender t) (tr_inputs t) (store m) = tr_inputs t), m')"
    and "inv (store m')" "with_store m m'"
    and "\<And>i v. op_get ops i v (store m') =
      (if (i, v) \<in> set (spendable_inputs ops (tr_sender t) (tr_inputs t) (store m)) then None else op_get ops i v (store m))"
  by (rule spend_inputs_spec [OF assms(1,3), where a = "tr_sender t"])
    (rule that, auto simp: process_transaction_inputs_def assms(2,3))

lemma process_inputs_keeps:
  assumes "inv (store m)"
  shows "inv (store (snd (process_transaction_inputs ops t m))) \<and> with_store m (snd (process_transaction_inputs ops t m)) \<and>
    (op_get ops i v (store m) = None \<longrightarrow> op_get ops i v (store (snd (process_transaction_inputs ops t m))) = None)"
proof (cases "tr_sender t = ''COINBASE'' \<or> \<not> distinct (tr_inputs t)")
  case True
  then show ?thesis using assms by (auto simp: process_transaction_inputs_def)
next
  case False
  then have "tr_sender t \<noteq> ''COINBASE''" "distinct (tr_inputs t)" by simp_all
  from assms this show ?thesis by (rule process_inputs_spec) simp
qed

lemma add_output_spec:
  assumes "inv (store m)" and "name_ok a" "name_ok i"
  shows "inv (store (snd (manager_add_utxo ops a i v x sc m))) \<and> with_store m (snd (manager_add_utxo ops a i v x sc m)) \<and>
    ((i', v') \<noteq> (i, v) \<longrightarrow> op_get ops i' v' (store (snd (manager_add_utxo ops a i v x sc m))) = op_get ops i' v' (store m))"
proof (cases "validate_utxo_amount x")
  case (Inl e)
  then show ?thesis using assms(1) by (simp add: manager_add_utxo_def)
next
  case (Inr y)
  obtain ok s' where run: "op_add ops a i v y sc (store m) = (ok, s')" by (metis surj_pair)
  show ?thesis
    using Inr run inv_add [OF assms run] get_add [OF assms, of v y sc s'] add_refused [of a i v y sc "store m" s']
    by (cases ok) (auto simp: manager_add_utxo_def)
qed

lemma add_outputs_spec:
  assumes "inv (store m)" and "name_ok i" "\<forall>x \<in> set xs. name_ok (fst x)"
  shows "inv (store (snd (add_outputs ops i v xs m))) \<and> with_store m (snd (add_outputs ops i v xs m)) \<and>
    (i' \<noteq> i \<longrightarrow> op_get ops i' v' (store (snd (add_outputs ops i v xs m))) = op_get ops i' v' (store m))"
  using assms
proof (induction xs arbitrary: m v)
  case Nil
  then show ?case by (simp add: ret_def)
next
  case (Cons x xs)
  obtain r m1 where run: "manager_add_utxo ops (fst x) i v (snd x) (''P2PKH '' @ fst x) m = (r, m1)" by (metis surj_pair)
  have one: "inv (store m1)" "with_store m m1" "i' \<noteq> i \<longrightarrow> op_get ops i' v' (store m1) = op_get ops i' v' (store m)"
    using add_output_spec [OF Cons.prems(1), of "fst x" i v "snd x" "''P2PKH '' @ fst x"] Cons.prems(2,3) run by auto
  have rest: "inv (store (snd (add_outputs ops i (v + 1) xs m1))) \<and> with_store m1 (snd (add_outputs ops i (v + 1) xs m1)) \<and>
    (i' \<noteq> i \<longrightarrow> op_get ops i' v' (store (snd (add_outputs ops i (v + 1) xs m1))) = op_get ops i' v' (store m1))"
    using Cons.prems by (intro Cons.IH [OF one(1)]) simp_all
  show ?case using one rest run with_store_trans [OF one(2)] by (cases r) (auto simp: and_then_def)
qed

end

section \<open>Locks\<close>

definition locked :: "'s utxo_manager \<Rightarrow> outpoint \<Rightarrow> string option" where
  "locked m = map_of (pending_utxos m)"

text \<open>
  The three dicts agree: every lock has its transaction in both dicts, and the keys listed under a
  transaction are locked by it.
\<close>

definition lock_inv :: "'s utxo_manager \<Rightarrow> bool" where
  "lock_inv m \<longleftrightarrow> map_of (utxo_to_tx m) = locked m \<and>
     (\<forall>i ks. map_of (tx_to_utxos m) i = Some ks \<longrightarrow> i \<noteq> [] \<and> (\<forall>k \<in> set ks. locked m k = Some i))"

lemma is_pending_locked: "is_pending m k \<longleftrightarrow> locked m k \<noteq> None"
  by (simp add: is_pending_def locked_def)

lemma locked_tx [simp]: "locked (m\<lparr>tx_to_utxos := y\<rparr>) = locked m"
  by (simp add: locked_def)

lemma fold_lock_one:
  "locked (fold (lock_one i) ks m) = (\<lambda>k. if k \<in> set ks then Some i else locked m k)"
  "map_of (utxo_to_tx (fold (lock_one i) ks m)) = (\<lambda>k. if k \<in> set ks then Some i else map_of (utxo_to_tx m) k)"
  "tx_to_utxos (fold (lock_one i) ks m) = tx_to_utxos m" "store (fold (lock_one i) ks m) = store m"
  "max_pending_txs (fold (lock_one i) ks m) = max_pending_txs m"
  by (induction ks arbitrary: m) (auto simp: lock_one_def locked_def update_conv' fun_eq_iff)

lemma lock_utxos_True:
  assumes "lock_utxos ks i m = (Inr True, m')"
  shows "\<forall>k \<in> set ks. locked m k = None"
    and "locked m' = (\<lambda>k. if k \<in> set ks then Some i else locked m k)" and "store m' = store m"
    and "map_of (utxo_to_tx m') = (\<lambda>k. if k \<in> set ks then Some i else map_of (utxo_to_tx m) k)"
    and "map_of (tx_to_utxos m') = (if i = [] then map_of (tx_to_utxos m) else (map_of (tx_to_utxos m))(i \<mapsto> ks))"
proof -
  let ?n = "fold (lock_one i) ks m"
  have m': "m' = (if i \<noteq> [] then ?n\<lparr>tx_to_utxos := AList.update i ks (tx_to_utxos ?n)\<rparr> else ?n)"
    and free: "\<not> (\<exists>k \<in> set ks. is_pending m k)"
    using assms by (auto simp: lock_utxos_def Let_def split: if_splits)
  show "\<forall>k \<in> set ks. locked m k = None" using free by (simp add: is_pending_locked)
  have "locked m' = locked ?n" "utxo_to_tx m' = utxo_to_tx ?n" "store m' = store ?n" by (simp_all add: m')
  then show "locked m' = (\<lambda>k. if k \<in> set ks then Some i else locked m k)" "store m' = store m"
    "map_of (utxo_to_tx m') = (\<lambda>k. if k \<in> set ks then Some i else map_of (utxo_to_tx m) k)"
    by (simp_all only: fold_lock_one)
  show "map_of (tx_to_utxos m') = (if i = [] then map_of (tx_to_utxos m) else (map_of (tx_to_utxos m))(i \<mapsto> ks))"
    by (simp add: m' fold_lock_one update_conv')
qed

lemma lock_utxos_other: "lock_utxos ks i m = (r, m') \<Longrightarrow> r \<noteq> Inr True \<Longrightarrow> r = Inr False \<and> m' = m"
  by (auto simp: lock_utxos_def Let_def split: if_splits)

lemma lock_inv_lock:
  assumes "lock_inv m" and "lock_utxos ks i m = (r, m')"
  shows "lock_inv m'"
proof (cases "r = Inr True")
  case True
  note l = lock_utxos_True [OF assms(2) [unfolded True]]
  have "j \<noteq> [] \<and> (\<forall>k \<in> set js. locked m' k = Some j)" if "map_of (tx_to_utxos m') j = Some js" for j js
  proof (cases "j = i")
    case True
    with that l(5) show ?thesis using assms(1) l(1) by (auto simp: l(2) lock_inv_def split: if_splits)
  next
    case False
    with that l(5) have "map_of (tx_to_utxos m) j = Some js" by (simp split: if_splits)
    with assms(1) l(1) show ?thesis by (auto simp: l(2) lock_inv_def)
  qed
  then show ?thesis using assms(1) l(2,4) unfolding lock_inv_def by auto
next
  case False
  then show ?thesis using lock_utxos_other [OF assms(2)] assms(1) by simp
qed

lemma unlock_one_locked: "locked (unlock_one k m) = (locked m)(k := None)"
  by (auto simp: unlock_one_def is_pending_locked locked_def delete_conv' Let_def fun_eq_iff split: option.split list.split)

lemma unlock_one_tx: "lock_inv m \<Longrightarrow> map_of (utxo_to_tx (unlock_one k m)) = (locked m)(k := None)"
  by (auto simp: unlock_one_def is_pending_locked lock_inv_def delete_conv' Let_def fun_eq_iff split: option.split list.split)

lemma unlock_one_store [simp]: "store (unlock_one k m) = store m"
  by (simp add: unlock_one_def Let_def split: option.split list.split)

lemma unlock_one_lists:
  assumes "lock_inv m" and "map_of (tx_to_utxos (unlock_one k m)) i = Some ks"
  shows "\<exists>js. map_of (tx_to_utxos m) i = Some js \<and> set ks = set js - (if locked m k = Some i then {k} else {})"
proof (cases "locked m k")
  case None
  then show ?thesis using assms(2) by (simp add: unlock_one_def is_pending_locked)
next
  case (Some j)
  then have "map_of (utxo_to_tx m) k = Some j" using assms(1) by (simp add: lock_inv_def)
  moreover have "i \<noteq> []" if "map_of (tx_to_utxos m) i = Some js" for js using assms(1) that by (simp add: lock_inv_def)
  ultimately show ?thesis
    using assms(2) Some
    by (auto simp: unlock_one_def is_pending_locked Let_def delete_conv' update_conv' split: list.splits option.splits if_splits)
qed

lemma lock_inv_unlock_one:
  assumes "lock_inv m"
  shows "lock_inv (unlock_one k m)"
  unfolding lock_inv_def unlock_one_locked unlock_one_tx [OF assms]
proof (intro conjI allI impI refl)
  fix i ks assume ks: "map_of (tx_to_utxos (unlock_one k m)) i = Some ks"
  obtain js where js: "map_of (tx_to_utxos m) i = Some js" "set ks = set js - (if locked m k = Some i then {k} else {})"
    using unlock_one_lists [OF assms ks] by blast
  then show "i \<noteq> []" "\<forall>k' \<in> set ks. ((locked m)(k := None)) k' = Some i"
    using assms unfolding lock_inv_def by (auto split: if_splits)
qed

lemma unlock_keys:
  "lock_inv m \<Longrightarrow> lock_inv (unlock_utxos_by_keys ks m) \<and> store (unlock_utxos_by_keys ks m) = store m \<and>
    locked (unlock_utxos_by_keys ks m) = (\<lambda>k. if k \<in> set ks then None else locked m k)"
  unfolding unlock_utxos_by_keys_def
  by (induction ks arbitrary: m) (auto simp: lock_inv_unlock_one unlock_one_locked fun_eq_iff)

lemma release_one_simps:
  "locked (fst (release_one k p)) = (locked (fst p))(k := None)"
  "map_of (utxo_to_tx (fst p)) = locked (fst p) \<Longrightarrow> map_of (utxo_to_tx (fst (release_one k p))) = (locked (fst p))(k := None)"
  "tx_to_utxos (fst (release_one k p)) = tx_to_utxos (fst p)" "store (fst (release_one k p)) = store (fst p)"
  "snd (release_one k p) = snd p + (if locked (fst p) k = None then 0 else 1)"
  by (cases p, auto simp: release_one_def is_pending_locked locked_def delete_conv' fun_eq_iff)+

lemma fold_release_locked:
  "locked (fst (fold release_one ks p)) = (\<lambda>k. if k \<in> set ks then None else locked (fst p) k)"
  by (induction ks arbitrary: p) (auto simp: release_one_simps fun_eq_iff)

lemma fold_release_tx:
  "map_of (utxo_to_tx (fst p)) = locked (fst p) \<Longrightarrow>
   map_of (utxo_to_tx (fst (fold release_one ks p))) = locked (fst (fold release_one ks p))"
  by (induction ks arbitrary: p) (simp_all add: release_one_simps)

lemma fold_release_rest:
  "tx_to_utxos (fst (fold release_one ks p)) = tx_to_utxos (fst p)" "store (fst (fold release_one ks p)) = store (fst p)"
  by (induction ks arbitrary: p) (simp_all add: release_one_simps)

lemma fold_release_count:
  "snd (fold release_one ks p) = snd p + int (card {k \<in> set ks. locked (fst p) k \<noteq> None})"
proof (induction ks arbitrary: p)
  case (Cons k ks)
  let ?rest = "{j \<in> set ks. ((locked (fst p))(k := None)) j \<noteq> None}"
  have "{j \<in> set (k # ks). locked (fst p) j \<noteq> None} = (if locked (fst p) k = None then {} else {k}) \<union> ?rest" by auto
  moreover have "k \<notin> ?rest" "finite ?rest" by simp_all
  ultimately have "int (card {j \<in> set (k # ks). locked (fst p) j \<noteq> None}) =
      (if locked (fst p) k = None then 0 else 1) + int (card ?rest)" by simp
  with Cons.IH [of "release_one k p", unfolded release_one_simps] show ?case by simp
qed simp

lemma release_spec:
  assumes "lock_inv m" and "release_utxos_for_tx i m = (r, m')"
  shows "lock_inv m' \<and> store m' = store m \<and>
    locked m' = (\<lambda>k. if k \<in> set (dict_get (tx_to_utxos m) i []) then None else locked m k) \<and>
    map_of (tx_to_utxos m') = (map_of (tx_to_utxos m))(i := None) \<and>
    r = Inr (int (card (set (dict_get (tx_to_utxos m) i []))))"
proof (cases "map_of (tx_to_utxos m) i")
  case None
  then show ?thesis using assms by (auto simp: release_utxos_for_tx_def dict_get_def)
next
  case (Some ks)
  let ?m = "m\<lparr>tx_to_utxos := AList.delete i (tx_to_utxos m)\<rparr>"
  have L: "locked ?m = locked m" by (simp add: locked_def)
  have tx: "map_of (utxo_to_tx ?m) = locked ?m" using assms(1) by (simp add: lock_inv_def L)
  have ks: "\<forall>k \<in> set ks. locked m k = Some i" using assms(1) Some by (simp add: lock_inv_def)
  then have all: "{k \<in> set ks. locked m k \<noteq> None} = set ks" by auto
  obtain n where run: "fold release_one ks (?m, 0) = (m', n)" "r = Inr n"
    using assms(2) Some by (auto simp: release_utxos_for_tx_def split: prod.splits)
  note F = fold_release_locked [of ks "(?m, 0)", unfolded run(1) fst_conv L]
    fold_release_tx [of "(?m, 0)" ks, unfolded run(1) fst_conv, OF tx]
    fold_release_rest [of ks "(?m, 0)", unfolded run(1) fst_conv]
    fold_release_count [of ks "(?m, 0)", unfolded run(1) fst_conv snd_conv L all]
  have m': "locked m' = (\<lambda>k. if k \<in> set ks then None else locked m k)" "map_of (utxo_to_tx m') = locked m'" "store m' = store m"
    "map_of (tx_to_utxos m') = (map_of (tx_to_utxos m))(i := None)" "n = int (card (set ks))"
    using F by (simp_all add: delete_conv')
  have "lock_inv m'"
    unfolding lock_inv_def
  proof (intro conjI allI impI)
    fix j js assume j: "map_of (tx_to_utxos m') j = Some js"
    then have js: "map_of (tx_to_utxos m) j = Some js" "j \<noteq> i" by (auto simp: m'(4) split: if_splits)
    then show "j \<noteq> []" using assms(1) by (simp add: lock_inv_def)
    have "k \<notin> set ks" if "k \<in> set js" for k
      using that js assms(1) ks unfolding lock_inv_def by fastforce
    with js assms(1) show "\<forall>k \<in> set js. locked m' k = Some j" by (simp add: m'(1) lock_inv_def)
  qed (rule m'(2))
  then show ?thesis using m' Some run(2) by (simp add: dict_get_def)
qed

section \<open>Runs of the manager\<close>

text \<open>Every method of the manager that changes its state; \<open>unlock_utxos\<close> is \<open>Unlock\<close> of the keys, \<open>reset\<close> is \<open>clear\<close>, and the setter of \<open>utxo_set\<close> is \<open>restore\<close>.\<close>

datatype manager_step =
    AddOutput string string int amount_arg string | MarkSpent string string int
  | Outputs spending | Inputs spending | Lock "outpoint list" string | Unlock "outpoint list" | Release string | Compact
  | Clear | Load "(string \<times> utxo list) list" | Restore utxo_snapshot

fun manager_do :: "'s store_ops \<Rightarrow> manager_step \<Rightarrow> 's utxo_manager \<Rightarrow> 's utxo_manager" where
  "manager_do ops (AddOutput a i v x sc) m = snd (manager_add_utxo ops a i v x sc m)"
| "manager_do ops (MarkSpent a i v) m = snd (mark_utxo_spent ops a i v m)"
| "manager_do ops (Outputs t) m = snd (process_transaction_outputs ops t m)"
| "manager_do ops (Inputs t) m = snd (process_transaction_inputs ops t m)"
| "manager_do ops (Lock ks i) m = snd (lock_utxos ks i m)"
| "manager_do ops (Unlock ks) m = unlock_utxos_by_keys ks m"
| "manager_do ops (Release i) m = snd (release_utxos_for_tx i m)"
| "manager_do ops Compact m = snd (compact_utxo_set ops m)"
| "manager_do ops Clear m = manager_clear ops m"
| "manager_do ops (Load data) m = load_utxo_set ops data m"
| "manager_do ops (Restore snap) m = manager_restore ops snap m"

definition manager_run :: "'s store_ops \<Rightarrow> manager_step list \<Rightarrow> 's utxo_manager \<Rightarrow> 's utxo_manager" where
  "manager_run ops steps m = fold (manager_do ops) steps m"

text \<open>The set a step brings in, the transaction ids under which it creates outputs, and the names it stores.\<close>

fun step_data :: "manager_step \<Rightarrow> (string \<times> utxo list) list list" where
  "step_data (Load data) = [data]"
| "step_data (Restore snap) = [snap_utxo_set snap]"
| "step_data s = []"

fun creates :: "manager_step \<Rightarrow> string set" where
  "creates (AddOutput a i v x sc) = {i}"
| "creates (Outputs t) = {tr_txid t}"
| "creates s = u_txid ` set (concat (map outputs (step_data s)))"

fun step_names :: "manager_step \<Rightarrow> string set" where
  "step_names (AddOutput a i v x sc) = {a, i}"
| "step_names (Outputs t) = insert (tr_txid t) (fst ` set (tr_outputs t))"
| "step_names s = {}"

lemma lock_inv_with_store: "with_store m m' \<Longrightarrow> lock_inv m \<Longrightarrow> lock_inv m'"
  using with_store_locks [of m m'] by (simp add: lock_inv_def locked_def)

lemma compact_locks: "with_store m (snd (compact_utxo_set ops m))"
  by (simp add: compact_utxo_set_def restore_set_def Let_def)

context utxo_store
begin

lemma compact_keeps:
  assumes "inv (store m)"
  shows "inv (store (snd (compact_utxo_set ops m))) \<and>
    op_get ops t v (store (snd (compact_utxo_set ops m))) = op_get ops t v (store m)"
  using assms inv_load get_load data_ok_compact export find_export
  by (simp add: compact_utxo_set_def restore_set_def Let_def find_unspent_compacted)

lemma restore_gets:
  assumes "inv (store m)"
  shows "inv (store (manager_restore ops (manager_snapshot ops m) m')) \<and>
    op_get ops t v (store (manager_restore ops (manager_snapshot ops m) m')) = op_get ops t v (store m)"
  using assms inv_load get_load export find_export
  by (simp add: manager_restore_def manager_snapshot_def restore_set_def Let_def)

lemma lock_inv_clear: "lock_inv (manager_clear ops m)"
  by (simp add: lock_inv_def locked_def manager_clear_def)

lemma loaded_absent:
  "data_ok d \<Longrightarrow> i \<notin> u_txid ` set (outputs d) \<Longrightarrow> op_get ops i v (op_load ops d s) = None"
  using find_unspent_Some [of "outputs d" i v] by (cases "find_unspent (outputs d) i v") (auto simp: get_load)

lemma step_keeps:
  assumes "inv (store m)" and "\<forall>n \<in> step_names q. name_ok n" and "lock_inv m" and "\<forall>d \<in> set (step_data q). data_ok d"
  shows "inv (store (manager_do ops q m)) \<and> lock_inv (manager_do ops q m) \<and>
    (op_get ops i v (store m) = None \<longrightarrow> i \<notin> creates q \<longrightarrow> op_get ops i v (store (manager_do ops q m)) = None)"
proof (cases q)
  case (AddOutput a j w x sc)
  then have names: "name_ok a" "name_ok j" using assms(2) by auto
  from add_output_spec [OF assms(1) names, of w x sc i v] lock_inv_with_store [OF _ assms(3)] show ?thesis by (auto simp: AddOutput)
next
  case (MarkSpent a j w)
  obtain ok m' where "mark_utxo_spent ops a j w m = (Inr ok, m')" "inv (store m')" "with_store m m'"
    "\<And>t' v'. op_get ops t' v' (store m') = (if ok \<and> t' = j \<and> v' = w then None else op_get ops t' v' (store m))"
    by (rule mark_utxo_spent_spec [OF assms(1), where a = a and t = j and v = w]) blast
  then show ?thesis using lock_inv_with_store [OF _ assms(3)] by (simp add: MarkSpent)
next
  case (Outputs t)
  have names: "name_ok (tr_txid t)" "\<forall>x \<in> set (tr_outputs t). name_ok (fst x)" using assms(2) Outputs by auto
  from add_outputs_spec [OF assms(1) names, of 0 i v] lock_inv_with_store [OF _ assms(3)]
  show ?thesis by (auto simp: Outputs process_transaction_outputs_def)
next
  case (Inputs t)
  from process_inputs_keeps [OF assms(1), of t i v] lock_inv_with_store [OF _ assms(3)] show ?thesis by (simp add: Inputs)
next
  case (Lock ks j)
  obtain r m' where run: "lock_utxos ks j m = (r, m')" by (metis surj_pair)
  have "store m' = store m" using lock_utxos_True(3) [of ks j m m'] lock_utxos_other [OF run] run by (cases "r = Inr True") auto
  then show ?thesis using lock_inv_lock [OF assms(3) run] run assms(1) by (simp add: Lock)
next
  case (Unlock ks)
  then show ?thesis using unlock_keys [OF assms(3), of ks] assms(1) by simp
next
  case (Release j)
  obtain r m' where run: "release_utxos_for_tx j m = (r, m')" by (metis surj_pair)
  then show ?thesis using release_spec [OF assms(3) run] assms(1) by (simp add: Release)
next
  case Compact
  then show ?thesis
    using compact_keeps [OF assms(1)] lock_inv_with_store [OF compact_locks assms(3)] by simp
next
  case Clear
  then show ?thesis using lock_inv_clear inv_clear get_clear by (simp add: manager_clear_def)
next
  case (Load d)
  then show ?thesis using assms(4) inv_load loaded_absent lock_inv_with_store [OF with_store_update assms(3)]
    by (simp add: load_utxo_set_def)
next
  case (Restore snap)
  then show ?thesis using assms(4) inv_load loaded_absent lock_inv_with_store [OF with_store_update assms(3)]
    by (simp add: manager_restore_def restore_set_def)
qed

lemma run_keeps:
  assumes "inv (store m)" and "\<forall>q \<in> set qs. (\<forall>n \<in> step_names q. name_ok n) \<and> (\<forall>d \<in> set (step_data q). data_ok d)" and "lock_inv m"
  shows "inv (store (manager_run ops qs m)) \<and> lock_inv (manager_run ops qs m) \<and>
    (op_get ops i v (store m) = None \<longrightarrow> (\<forall>q \<in> set qs. i \<notin> creates q) \<longrightarrow> op_get ops i v (store (manager_run ops qs m)) = None)"
  using assms
proof (induction qs arbitrary: m)
  case Nil
  then show ?case by (simp add: manager_run_def)
next
  case (Cons q qs)
  have one: "inv (store (manager_do ops q m)) \<and> lock_inv (manager_do ops q m) \<and>
    (op_get ops i v (store m) = None \<longrightarrow> i \<notin> creates q \<longrightarrow> op_get ops i v (store (manager_do ops q m)) = None)"
    using Cons.prems by (intro step_keeps) auto
  moreover have "manager_run ops (q # qs) m = manager_run ops qs (manager_do ops q m)" by (simp add: manager_run_def)
  ultimately show ?case using Cons.IH [of "manager_do ops q m"] Cons.prems(2) by simp
qed

lemma spent_stays_spent:
  assumes "inv (store m)" "lock_inv m" and "tr_sender t \<noteq> ''COINBASE''" "process_transaction_inputs ops t m = (Inr True, m')"
    and "k \<in> set (tr_inputs t)"
    and "\<forall>q \<in> set qs. fst k \<notin> creates q \<and> (\<forall>n \<in> step_names q. name_ok n) \<and> (\<forall>d \<in> set (step_data q). data_ok d)"
    and "tr_sender t' \<noteq> ''COINBASE''" "k \<in> set (tr_inputs t')"
  shows "fst (process_transaction_inputs ops t' (manager_run ops qs m')) \<noteq> Inr True"
proof -
  have dist: "distinct (tr_inputs t)" using assms(3,4) by (auto simp: process_transaction_inputs_def split: if_splits)
  obtain i v where k: "k = (i, v)" by (cases k)
  from assms(1,3) dist obtain m1 where m1: "process_transaction_inputs ops t m =
      (Inr (spendable_inputs ops (tr_sender t) (tr_inputs t) (store m) = tr_inputs t), m1)"
    "inv (store m1)" "with_store m m1" "\<And>i v. op_get ops i v (store m1) =
      (if (i, v) \<in> set (spendable_inputs ops (tr_sender t) (tr_inputs t) (store m)) then None else op_get ops i v (store m))"
    by (rule process_inputs_spec) blast
  have m': "m' = m1" "spendable_inputs ops (tr_sender t) (tr_inputs t) (store m) = tr_inputs t" using m1(1) assms(4) by auto
  have none: "op_get ops i v (store m') = None" using m1(4) [of i v] assms(5) by (simp add: m' k)
  have run: "inv (store (manager_run ops qs m'))" "op_get ops i v (store (manager_run ops qs m')) = None"
    using run_keeps [of m' qs i v] m1(2,3) assms(2,6) none lock_inv_with_store [OF m1(3)] by (auto simp: m' k)
  show ?thesis
  proof (cases "distinct (tr_inputs t')")
    case False
    then show ?thesis using assms(7) by (simp add: process_transaction_inputs_def)
  next
    case True
    have "k \<notin> set (spendable_inputs ops (tr_sender t') (tr_inputs t') (store (manager_run ops qs m')))"
      using run(2) by (auto simp: spendable_inputs_def k dest: set_takeWhileD)
    then have "spendable_inputs ops (tr_sender t') (tr_inputs t') (store (manager_run ops qs m')) \<noteq> tr_inputs t'"
      using assms(8) by auto
    with run(1) assms(7) True show ?thesis by - (rule process_inputs_spec, assumption+, simp)
  qed
qed

lemma find_spendable_members:
  assumes "inv (store m)" "name_ok a" and "manager_utxos_for ops a True m = Inr us"
  shows "distinct (map key_of us)"
    and "u \<in> set us \<longleftrightarrow> op_get ops (u_txid u) (u_vout u) (store m) = Some u \<and> u_address u = a \<and> locked m (key_of u) = None"
proof -
  obtain ws where ws: "op_utxos_for ops a (store m) = Inr ws" "distinct (map key_of ws)"
    "\<And>u. u \<in> set ws \<longleftrightarrow> op_get ops (u_txid u) (u_vout u) (store m) = Some u \<and> u_address u = a"
    using utxos_for [OF assms(1,2)] by blast
  have us: "us = filter (\<lambda>u. \<not> is_pending m (key_of u)) ws" using assms(3) ws(1) by (simp add: manager_utxos_for_def)
  show "distinct (map key_of us)" unfolding us by (rule distinct_map_filter [OF ws(2)])
  show "u \<in> set us \<longleftrightarrow> op_get ops (u_txid u) (u_vout u) (store m) = Some u \<and> u_address u = a \<and> locked m (key_of u) = None"
    unfolding us by (auto simp: ws(3) is_pending_locked)
qed

lemma spendable_total:
  assumes "inv (store m)" "name_ok a"
  shows "\<exists>us. manager_utxos_for ops a True m = Inr us"
  using utxos_for [OF assms] by (auto simp: manager_utxos_for_def)

end

text \<open>Coin selection.\<close>

lemma float_sum_Cons: "foldl float_add x (map u_amount (u # us)) = foldl float_add (float_add x (u_amount u)) (map u_amount us)"
  by simp

lemma select_utxos_spec:
  "select_utxos a x us = (sel, y) \<Longrightarrow>
    sel = take (length sel) us \<and> y = foldl float_add x (map u_amount sel) \<and>
    (float_le a y \<or> sel = us) \<and>
    (\<forall>k. 0 < k \<longrightarrow> k < length sel \<longrightarrow> \<not> float_le a (foldl float_add x (map u_amount (take k sel))))"
proof (induction us arbitrary: x sel y)
  case (Cons u us)
  show ?case
  proof (cases "float_le a (float_add x (u_amount u))")
    case True
    then show ?thesis using Cons.prems by (auto simp: Let_def)
  next
    case False
    then obtain sel' where sel: "select_utxos a (float_add x (u_amount u)) us = (sel', y)" "sel = u # sel'"
      using Cons.prems by (auto simp: Let_def split: prod.splits)
    from Cons.IH [OF sel(1)] have IH: "sel' = take (length sel') us" "y = foldl float_add (float_add x (u_amount u)) (map u_amount sel')"
      "float_le a y \<or> sel' = us"
      "\<forall>k. 0 < k \<longrightarrow> k < length sel' \<longrightarrow> \<not> float_le a (foldl float_add (float_add x (u_amount u)) (map u_amount (take k sel')))" by auto
    have "\<not> float_le a (foldl float_add x (map u_amount (take k sel)))" if "0 < k" "k < length sel" for k
    proof (cases "k = 1")
      case True
      then show ?thesis using False by (simp add: sel)
    next
      case False
      then show ?thesis using IH(4) [rule_format, of "k - 1"] that by (simp add: sel take_Cons')
    qed
    then show ?thesis using IH by (simp add: sel)
  qed
qed simp

end
