(* ===== verification/UtxoSafety.thy ===== *)
theory UtxoSafety
  imports UtxoManager
begin

text \<open>
  What the manager of unspent outputs guarantees: outputs are spent once, locks exclude each other,
  snapshots restore the set, coin selection pays enough, amounts stay in range. The last sections
  show where the totals, the locks and failing transactions fall short of their documentation.
\<close>

section \<open>Spending\<close>

definition manager_ok :: "mem_utxos utxo_manager \<Rightarrow> bool" where
  "manager_ok m \<longleftrightarrow> mem_inv (store m) \<and> lock_inv m"

text \<open>
  C26: Every sequence of operations on a new manager over the memory store, clearing, loading and restoring
  among them, keeps its index exact (it holds exactly the cells of the unspent outputs under their keys, so keys are
  unique), the number of outputs it reports is the number of those that can be spent, and its three dicts of locks agree;
  the sets that are loaded or restored list each output under its address and no unspent one twice, as every set the
  manager exports does.
\<close>

theorem manager_invariant:
  assumes "\<forall>q \<in> set qs. \<forall>d \<in> set (step_data q). mem_data_ok d"
  shows "let m = manager_run memory_store qs (new_manager new_mem_store) in
     manager_ok m \<and> mem_data_ok (snap_utxo_set (manager_snapshot memory_store m)) \<and>
     fst (mem_stats (store m)) = int (card (unspent_keys (\<lambda>t v. mem_get t v (store m))))"
proof -
  have "lock_inv (new_manager new_mem_store)" by (simp add: lock_inv_def locked_def new_manager_def)
  with mem.run_keeps [of "new_manager new_mem_store" qs] mem_inv_new assms
  have ok: "manager_ok (manager_run memory_store qs (new_manager new_mem_store))" by (simp add: manager_ok_def new_manager_def)
  then have "mem_data_ok (snap_utxo_set (manager_snapshot memory_store (manager_run memory_store qs (new_manager new_mem_store))))"
    using mem_export_ok(1) by (simp add: manager_ok_def manager_snapshot_def memory_store_def Let_def)
  with ok show ?thesis by (simp add: Let_def manager_ok_def mem_inv_def counts_def mem_stats_def)
qed

text \<open>A set that is loaded, and its output spent.\<close>

definition alice_export :: "(string \<times> utxo list) list" where
  "alice_export = [(''alice'', [new_utxo ''alice'' ''t1'' 0 (Fin 5) ''P2PKH alice''])]"

theorem manager_invariant_witness:
  "let m = manager_run memory_store [Clear, Load alice_export, MarkSpent ''alice'' ''t1'' 0] (new_manager new_mem_store) in
     manager_ok m \<and> fst (mem_stats (store m)) = int (card (unspent_keys (\<lambda>t v. mem_get t v (store m))))"
proof -
  have "mem_data_ok alice_export"
    by (simp add: mem_data_ok_def alice_export_def wf_dict_def outputs_def unique_unspent_def new_utxo_def)
  with manager_invariant [of "[Clear, Load alice_export, MarkSpent ''alice'' ''t1'' 0]"] show ?thesis by (simp add: Let_def)
qed

text \<open>
  C27: No double spend: after \<open>process_transaction_inputs\<close> has accepted a transaction, no transaction
  with one of its inputs is accepted again, whatever other operations of the manager come in
  between, as long as none creates, loads or restores outputs under the transaction id of that input anew and
  the sets that are loaded or restored are such as the manager exports.
\<close>

theorem no_double_spend:
  assumes "manager_ok m" and "tr_sender t \<noteq> ''COINBASE''" "process_transaction_inputs memory_store t m = (Inr True, m')"
    and "k \<in> set (tr_inputs t)" and "\<forall>q \<in> set qs. fst k \<notin> creates q \<and> (\<forall>d \<in> set (step_data q). mem_data_ok d)"
    and "tr_sender t' \<noteq> ''COINBASE''" "k \<in> set (tr_inputs t')"
  shows "fst (process_transaction_inputs memory_store t' (manager_run memory_store qs m')) \<noteq> Inr True"
  using mem.spent_stays_spent [OF _ _ assms(2-4) _ assms(6,7), of qs] assms(1,5) by (simp add: manager_ok_def)

definition alice_output :: "mem_utxos utxo_manager" where
  "alice_output = (new_manager (mem_load_one ''alice'' (new_utxo ''alice'' ''t1'' 0 (Fin 5) ''P2PKH alice'') new_mem_store))"

definition alice_spends :: "string \<Rightarrow> spending" where
  "alice_spends i = \<lparr>tr_txid = i, tr_sender = ''alice'', tr_inputs = [(''t1'', 0)], tr_outputs = []\<rparr>"

lemma alice_output_ok: "manager_ok alice_output"
proof -
  have "mem_inv (mem_load_one ''alice'' (new_utxo ''alice'' ''t1'' 0 (Fin 5) ''P2PKH alice'') new_mem_store)"
    by (rule mem_inv_load_one [OF mem_inv_new]) (simp_all add: new_utxo_def mem_get_def new_mem_store_def)
  then show ?thesis by (simp add: alice_output_def manager_ok_def new_manager_def lock_inv_def locked_def)
qed

lemma alice_spends_once: "fst (process_transaction_inputs memory_store (alice_spends i) alice_output) = Inr True"
  by (simp add: process_transaction_inputs_def alice_spends_def alice_output_def new_manager_def mark_utxo_spent_def memory_store_def
      mem_get_def mem_mark_spent_def mem_object_def mem_load_one_def new_mem_store_def new_utxo_def and_then_def ret_def Let_def dict_get_def)

theorem no_double_spend_witness:
  "fst (process_transaction_inputs memory_store (alice_spends ''b'')
     (snd (process_transaction_inputs memory_store (alice_spends ''a'') alice_output))) \<noteq> Inr True"
proof -
  have a: "tr_sender (alice_spends i) \<noteq> ''COINBASE''" "(''t1'', 0) \<in> set (tr_inputs (alice_spends i))" for i
    by (simp_all add: alice_spends_def)
  obtain m' where m': "process_transaction_inputs memory_store (alice_spends ''a'') alice_output = (Inr True, m')"
    using alice_spends_once by (metis prod.collapse)
  from no_double_spend [OF alice_output_ok a(1) m' a(2) _ a(1,2), of "[]"] m' show ?thesis by (simp add: manager_run_def)
qed

text \<open>
  \<open>process_transaction_inputs\<close> answers True exactly when its sender can spend every input, and
  then exactly these outputs are spent. When it answers False the inputs before the first that cannot
  be spent stay spent: the failure is not undone.
\<close>

lemma inputs_spent:
  assumes "mem_inv (store m)" and "tr_sender t \<noteq> ''COINBASE''" "distinct (tr_inputs t)"
    and "process_transaction_inputs memory_store t m = (r, m')"
  shows "let good = spendable_inputs memory_store (tr_sender t) (tr_inputs t) (store m) in
    r = Inr (good = tr_inputs t) \<and> mem_inv (store m') \<and> m' = m\<lparr>store := store m'\<rparr> \<and>
    mem_get i v (store m') = (if (i, v) \<in> set good then None else mem_get i v (store m))"
proof -
  obtain m1 where m1: "process_transaction_inputs memory_store t m =
      (Inr (spendable_inputs memory_store (tr_sender t) (tr_inputs t) (store m) = tr_inputs t), m1)"
    "mem_inv (store m1)" "with_store m m1" "\<And>i v. op_get memory_store i v (store m1) =
      (if (i, v) \<in> set (spendable_inputs memory_store (tr_sender t) (tr_inputs t) (store m)) then None
       else op_get memory_store i v (store m))"
    by (rule mem.process_inputs_spec [OF assms(1-3)]) blast
  have "m' = m1" "r = Inr (spendable_inputs memory_store (tr_sender t) (tr_inputs t) (store m) = tr_inputs t)"
    using m1(1) assms(4) by simp_all
  moreover have "op_get memory_store = mem_get" by (simp add: memory_store_def)
  ultimately show ?thesis using m1(2-4) by (simp add: with_store_def Let_def)
qed

section \<open>Locks\<close>

definition keeps_lock :: "outpoint \<Rightarrow> string \<Rightarrow> manager_step \<Rightarrow> bool" where
  "keeps_lock k i q = (case q of Unlock js \<Rightarrow> k \<notin> set js | Release j \<Rightarrow> j \<noteq> i | Clear \<Rightarrow> False | _ \<Rightarrow> \<forall>d \<in> set (step_data q). mem_data_ok d)"

lemma step_keeps_lock:
  assumes ok: "manager_ok m" and k: "locked m k = Some i" and q: "keeps_lock k i q"
  shows "manager_ok (manager_do memory_store q m) \<and> locked (manager_do memory_store q m) k = Some i"
proof -
  have inv: "mem_inv (store m)" "lock_inv m" using ok by (simp_all add: manager_ok_def)
  have "manager_ok (manager_do memory_store q m)" using mem.step_keeps [OF inv(1) _ inv(2), of q] q
    by (cases q) (simp_all add: manager_ok_def keeps_lock_def)
  moreover have same: "locked m' k = Some i" if "with_store m m'" for m'
    using with_store_locks [OF that] k by (simp add: locked_def)
  have "locked (manager_do memory_store q m) k = Some i"
  proof (cases q)
    case (AddOutput a j w x sc)
    then show ?thesis using mem.add_output_spec [OF inv(1)] same by simp
  next
    case (MarkSpent a j w)
    obtain r m' where "mark_utxo_spent memory_store a j w m = (r, m')" "with_store m m'"
      by (rule mem.mark_utxo_spent_spec [OF inv(1), where a = a and t = j and v = w]) blast
    then show ?thesis using same by (simp add: MarkSpent)
  next
    case (Load d)
    then show ?thesis using same by (simp add: load_utxo_set_def)
  next
    case (Restore snap)
    then show ?thesis using same by (simp add: manager_restore_def restore_set_def)
  next
    case Clear
    then show ?thesis using q by (simp add: keeps_lock_def)
  next
    case (Outputs t)
    then show ?thesis using mem.add_outputs_spec [OF inv(1), where xs = "tr_outputs t" and i = "tr_txid t" and v = 0] same
      by (simp add: process_transaction_outputs_def)
  next
    case (Inputs t)
    then show ?thesis using mem.process_inputs_keeps [OF inv(1), of t] same by simp
  next
    case (Lock js j)
    obtain r m' where run: "lock_utxos js j m = (r, m')" by (metis surj_pair)
    show ?thesis
    proof (cases "r = Inr True")
      case True
      with lock_utxos_True(1,2) [of js j m m'] run k show ?thesis by (auto simp: Lock)
    next
      case False
      with lock_utxos_other [OF run] run k show ?thesis by (simp add: Lock)
    qed
  next
    case (Unlock js)
    then show ?thesis using unlock_keys [OF inv(2), of js] k q by (simp add: keeps_lock_def)
  next
    case (Release j)
    obtain r m' where run: "release_utxos_for_tx j m = (r, m')" by (metis surj_pair)
    have "k \<notin> set (dict_get (tx_to_utxos m) j [])"
    proof (cases "map_of (tx_to_utxos m) j")
      case (Some js)
      then have "\<forall>k \<in> set js. locked m k = Some j" using inv(2) by (simp add: lock_inv_def)
      then show ?thesis using Some k q by (auto simp: Release keeps_lock_def dict_get_def)
    qed (simp add: dict_get_def)
    then show ?thesis using release_spec [OF inv(2) run] run k by (simp add: Release)
  next
    case Compact
    then show ?thesis using same [OF compact_locks] by simp
  qed
  with calculation show ?thesis by blast
qed

lemma run_keeps_lock:
  "manager_ok m \<Longrightarrow> locked m k = Some i \<Longrightarrow> \<forall>q \<in> set qs. keeps_lock k i q \<Longrightarrow>
   locked (manager_run memory_store qs m) k = Some i"
proof (induction qs arbitrary: m)
  case (Cons q qs)
  then have "manager_ok (manager_do memory_store q m) \<and> locked (manager_do memory_store q m) k = Some i"
    by (intro step_keeps_lock) simp_all
  with Cons.IH [of "manager_do memory_store q m"] Cons.prems(3) show ?case by (simp add: manager_run_def)
qed (simp add: manager_run_def)

text \<open>
  Locks exclude each other: once \<open>lock_utxos\<close> has locked outputs for a transaction, every later
  attempt to lock one of them fails and changes nothing, and lookups that exclude pending outputs do
  not return it, until its key is unlocked or that transaction's locks are released.
\<close>

lemma locks_exclude:
  assumes "manager_ok m" and "lock_utxos ks i m = (Inr True, m')" and "k \<in> set ks"
    and "\<forall>q \<in> set qs. keeps_lock k i q" and "k \<in> set ks'"
  shows "let n = manager_run memory_store qs m' in
    lock_utxos ks' j n = (Inr False, n) \<and> get_unspent_output memory_store (fst k) (snd k) True n = None"
proof -
  have "manager_ok m'"
    using assms(1) lock_inv_lock [OF _ assms(2)] lock_utxos_True(3) [OF assms(2)] by (simp add: manager_ok_def)
  moreover have "locked m' k = Some i" using lock_utxos_True(2) [OF assms(2)] assms(3) by simp
  ultimately have "locked (manager_run memory_store qs m') k = Some i" using assms(4) by (rule run_keeps_lock)
  then have "is_pending (manager_run memory_store qs m') k" by (simp add: is_pending_locked)
  then show ?thesis using assms(5) by (auto simp: Let_def lock_utxos_def get_unspent_output_def)
qed

lemma alice_locks: "\<exists>m'. lock_utxos [(''t1'', 0)] ''a'' alice_output = (Inr True, m')"
  by (simp add: lock_utxos_def alice_output_def new_manager_def is_pending_def Let_def)

text \<open>
  Releasing undoes locking: a transaction with an id that holds no locks yet locks its outputs, and
  \<open>release_utxos_for_tx\<close> returns their number and leaves the locks as they were before.
\<close>

lemma release_undoes_lock:
  assumes "lock_inv m" and "lock_utxos ks i m = (Inr True, m')" and "i \<noteq> []" "map_of (tx_to_utxos m) i = None"
    and "release_utxos_for_tx i m' = (r, n)"
  shows "r = Inr (int (card (set ks))) \<and> locked n = locked m \<and> map_of (utxo_to_tx n) = map_of (utxo_to_tx m) \<and>
    map_of (tx_to_utxos n) = map_of (tx_to_utxos m) \<and> store n = store m"
proof -
  note l = lock_utxos_True [OF assms(2)]
  note rel = release_spec [OF lock_inv_lock [OF assms(1,2)] assms(5)]
  have ks: "dict_get (tx_to_utxos m') i [] = ks" using l(5) assms(3) by (simp add: dict_get_def)
  have "locked n = locked m" using rel l(1,2) by (auto simp: ks fun_eq_iff)
  moreover have "map_of (tx_to_utxos n) = map_of (tx_to_utxos m)" using rel l(5) assms(3,4) by (auto simp: fun_eq_iff)
  moreover have "map_of (utxo_to_tx n) = locked n" "map_of (utxo_to_tx m) = locked m"
    using rel assms(1) by (simp_all add: lock_inv_def)
  ultimately show ?thesis using rel l(3) by (simp add: ks)
qed

section \<open>Snapshots, selection, amounts\<close>

text \<open>
  A snapshot restores the set: whatever was done to the manager since, restoring a snapshot brings
  back every lookup of the moment it was taken, on both backends, with an exact index. (The locks are
  no part of the snapshot.)
\<close>

lemma snapshot_restores:
  "(mem_inv (store m) \<longrightarrow>
     (let n = manager_restore memory_store (manager_snapshot memory_store m) m' in
        mem_inv (store n) \<and> mem_get i v (store n) = mem_get i v (store m))) \<and>
   (ldb_inv (store l) \<longrightarrow>
     (let n = manager_restore leveldb_store (manager_snapshot leveldb_store l) l' in
        ldb_inv (store n) \<and> ldb_get i v (store n) = ldb_get i v (store l)))"
  using mem.restore_gets [where m = m and m' = m' and t = i and v = v] ldb.restore_gets [where m = l and m' = l' and t = i and v = v] by (simp add: Let_def memory_store_def leveldb_store_def)

definition good_selection :: "string \<Rightarrow> pyfloat \<Rightarrow> mem_utxos utxo_manager \<Rightarrow> utxo list \<Rightarrow> bool" where
  "good_selection a amount m sel \<longleftrightarrow>
     distinct (map key_of sel) \<and>
     (\<forall>u \<in> set sel. mem_get (u_txid u) (u_vout u) (store m) = Some u \<and> u_address u = a \<and> locked m (key_of u) = None) \<and>
     (if sel = []
      then \<exists>us. manager_utxos_for memory_store a True m = Inr us \<and> (us = [] \<or> float_less (float_sum (map u_amount us)) amount)
      else \<not> float_less (float_sum (map u_amount sel)) amount \<and>
        (\<forall>k. 0 < k \<longrightarrow> k < length sel \<longrightarrow> \<not> float_le amount (float_sum (map u_amount (take k sel)))))"

text \<open>
  Coin selection: \<open>find_spendable_utxos\<close> answers with distinct outputs of the address that are
  unspent and not locked. If there are any, their sum as floats covers the amount, and leaving out the
  last ones does not. If there are none, all outputs it could have chosen together do not cover it.
\<close>

lemma selection_covers:
  assumes "mem_inv (store m)" and "find_spendable_utxos memory_store a amount m = Inr sel"
  shows "good_selection a amount m sel"
proof -
  obtain us where us: "manager_utxos_for memory_store a True m = Inr us"
    using mem.spendable_total [OF assms(1)] by blast
  note mem = mem.find_spendable_members [OF assms(1) TrueI us]
  obtain ws y where sel: "select_utxos amount (Fin 0) us = (ws, y)" by (metis surj_pair)
  note S = select_utxos_spec [OF sel]
  have ws: "sel = (if float_less y amount then [] else ws)" using assms(2) us sel by (simp add: find_spendable_utxos_def split: if_splits)
  have sub: "sel = take (length sel) us" using S ws by (auto split: if_splits)
  have "distinct (map key_of sel)" using mem(1) by (subst sub) (simp add: take_map [symmetric])
  moreover have "mem_get (u_txid u) (u_vout u) (store m) = Some u \<and> u_address u = a \<and> locked m (key_of u) = None" if "u \<in> set sel" for u
  proof -
    have "u \<in> set us" using that sub by (metis in_set_takeD)
    then show ?thesis using mem(2) by (simp add: memory_store_def)
  qed
  moreover have "\<not> float_less (float_sum (map u_amount sel)) amount \<and>
      (\<forall>k. 0 < k \<longrightarrow> k < length sel \<longrightarrow> \<not> float_le amount (float_sum (map u_amount (take k sel))))" if "sel \<noteq> []"
    using that ws S by (auto simp: float_sum_def split: if_splits)
  moreover have "\<exists>us. manager_utxos_for memory_store a True m = Inr us \<and> (us = [] \<or> float_less (float_sum (map u_amount us)) amount)"
    if "sel = []"
  proof (cases "float_less y amount")
    case True
    then have "\<not> float_le amount y" by (cases y; cases amount) (auto simp: float_le_def float_eq_def)
    then show ?thesis using us S True by (auto simp: float_sum_def)
  next
    case False
    then have "ws = []" using ws that by simp
    then have "us = []" using sel by (cases us) (auto simp: Let_def split: if_splits prod.splits)
    then show ?thesis using us by blast
  qed
  ultimately show ?thesis unfolding good_selection_def by simp
qed

lemma alice_selection:
  "find_spendable_utxos memory_store ''alice'' (Fin 3) alice_output = Inr [new_utxo ''alice'' ''t1'' 0 (Fin 5) ''P2PKH alice'']"
proof -
  have five: "float_add (Fin 0) (Fin 5) = Fin 5" using to_float_int [of 5] by simp
  have "op_utxos_for memory_store ''alice'' (store alice_output) = Inr [new_utxo ''alice'' ''t1'' 0 (Fin 5) ''P2PKH alice'']"
    by (simp add: memory_store_def mem_utxos_for_def alice_output_def new_manager_def mem_load_one_def new_mem_store_def new_utxo_def
        Let_def dict_get_def)
  then have "manager_utxos_for memory_store ''alice'' True alice_output = Inr [new_utxo ''alice'' ''t1'' 0 (Fin 5) ''P2PKH alice'']"
    by (simp add: manager_utxos_for_def is_pending_def alice_output_def new_manager_def)
  then show ?thesis
    by (simp add: find_spendable_utxos_def new_utxo_def five float_le_def float_eq_def Let_def del: float_add.simps)
qed

text \<open>
  Amounts: what \<open>add_utxo\<close> lets into the set is a finite float between 0 and the supply cap, rounded
  down to 18 decimals first.
\<close>

lemma utxo_amounts_bounded:
  assumes "validate_utxo_amount a = Inr x"
  shows "\<exists>q. x = Fin q \<and> 0 \<le> q \<and> q \<le> 121000000"
proof -
  obtain d where d: "check_amount True (Some MIN_UTXO_AMOUNT) (Some MAX_UTXO_AMOUNT) d = Inr x"
    using assms by (auto simp: validate_utxo_amount_def validate_decimal_def split: if_splits amount_arg.splits pyfloat.splits sum.splits exn.splits)
  obtain c where c: "quantize18 d = Inr c" "x = to_float c" "\<not> float_less (to_float d) (Fin 0)"
      "\<not> float_less (Fin 121000000) (to_float d)"
    using d by (auto simp: check_amount_def Let_def MAX_UTXO_AMOUNT_def split: if_splits sum.splits) (cases "quantize18 d"; auto)+
  have "to_float d \<noteq> NaN" by (simp add: to_float_def Let_def)
  with c(3,4) obtain b where b: "to_float d = Fin b" "0 \<le> b" "b \<le> 121000000"
    by (cases "to_float d") auto
  show ?thesis
  proof (cases "0 \<le> d")
    case True
    then have c': "c = of_int \<lfloor>d * 10 ^ 18\<rfloor> / 10 ^ 18" using c(1) by (auto simp: quantize18_def Let_def split: if_splits)
    have "(0 :: rat) \<le> of_int \<lfloor>d * 10 ^ 18\<rfloor>" "of_int \<lfloor>d * 10 ^ 18\<rfloor> \<le> d * 10 ^ 18" using True by simp_all
    then have "0 \<le> c" "c \<le> d" by (simp_all add: c')
    from to_float_mono [OF this b(1)] b(3) show ?thesis by (auto simp: c(2))
  next
    case False
    have "b = round_double d" using to_float_Fin [OF b(1)] by simp
    then have "round_double d \<le> 0" using False round_double_nonpos [of d] by simp
    then have "round_double d = 0" using \<open>b = round_double d\<close> b(2) by simp
    then have small: "\<bar>d\<bar> \<le> pow2 (- 1074) / 2" by (rule round_double_zero)
    also have "\<dots> < 1 / 10 ^ 18"
    proof -
      have "pow2 (- 1074) \<le> pow2 (- 60)" by (intro pow2_mono) simp
      then show ?thesis by (simp add: pow2_def [of "- 60"])
    qed
    finally have "- d * 10 ^ 18 < 1" using False by (simp add: field_simps)
    then have "\<lfloor>- d * 10 ^ 18\<rfloor> = 0" using False by (simp add: floor_eq_iff)
    then have "c = 0" using c(1) False by (auto simp: quantize18_def Let_def split: if_splits)
    then show ?thesis using c(2) by (simp add: to_float_def round_double_def Let_def)
  qed
qed

section \<open>The check of consistency\<close>

lemma mem_load_list_value:
  "total_value (fold (mem_load_one a) us s) = foldl float_add (total_value s) (map u_amount (filter (\<lambda>u. \<not> u_spent u) us)) \<and>
   total_utxos (fold (mem_load_one a) us s) = total_utxos s + int (length (filter (\<lambda>u. \<not> u_spent u) us))"
  by (induction us arbitrary: s) (simp_all add: mem_load_one_def Let_def)

lemma mem_load_data_value:
  "total_value (fold (\<lambda>(a, us). fold (mem_load_one a) us) data s) =
     foldl float_add (total_value s) (map u_amount (filter (\<lambda>u. \<not> u_spent u) (outputs data))) \<and>
   total_utxos (fold (\<lambda>(a, us). fold (mem_load_one a) us) data s) = total_utxos s + int (length (filter (\<lambda>u. \<not> u_spent u) (outputs data)))"
  by (induction data arbitrary: s) (auto simp: outputs_def mem_load_list_value)

lemma update_last: "a \<notin> fst ` set d \<Longrightarrow> AList.update a x (d @ [(a, y)]) = d @ [(a, x)]"
  by (induction d) auto

lemma mem_load_list_last:
  "a \<notin> fst ` set d \<Longrightarrow> utxo_set s = d @ [(a, ws)] \<Longrightarrow> utxo_set (fold (mem_load_one a) us s) = d @ [(a, ws @ us)]"
proof (induction us arbitrary: s ws)
  case (Cons u us)
  have "map_of d a = None" using Cons.prems(1) by (simp add: map_of_eq_None_iff)
  then have "dict_get (utxo_set s) a [] = ws" by (simp add: Cons.prems(2) dict_get_def map_add_def)
  then have "utxo_set (mem_load_one a u s) = d @ [(a, ws @ [u])]"
    using update_last [OF Cons.prems(1)] by (simp add: mem_load_one_def Let_def Cons.prems(2))
  from Cons.IH [OF Cons.prems(1) this] show ?case by simp
qed simp

lemma mem_load_list_set:
  assumes "a \<notin> fst ` set (utxo_set s)"
  shows "utxo_set (fold (mem_load_one a) us s) = utxo_set s @ (if us = [] then [] else [(a, us)])"
proof (cases us)
  case (Cons u ws)
  have none: "map_of (utxo_set s) a = None" using assms by (simp add: map_of_eq_None_iff)
  have "AList.update a [u] d = d @ [(a, [u])]" if "a \<notin> fst ` set d" for d using that by (induction d) auto
  then have "utxo_set (mem_load_one a u s) = utxo_set s @ [(a, [u])]"
    using assms none by (simp add: mem_load_one_def Let_def dict_get_def)
  from mem_load_list_last [OF assms this, of ws] Cons show ?thesis by simp
qed simp

lemma mem_load_data_outputs:
  "wf_dict data \<Longrightarrow> fst ` set data \<inter> fst ` set (utxo_set s) = {} \<Longrightarrow>
   outputs (utxo_set (fold (\<lambda>(a, us). fold (mem_load_one a) us) data s)) = outputs (utxo_set s) @ outputs data"
proof (induction data arbitrary: s)
  case (Cons e data)
  obtain a us where e: "e = (a, us)" by (cases e)
  have "a \<notin> fst ` set (utxo_set s)" using Cons.prems(2) by (auto simp: e)
  note set = mem_load_list_set [OF this, of us]
  have "a \<notin> fst ` set data" using Cons.prems(1) by (simp add: e wf_dict_def)
  then have disj: "fst ` set data \<inter> fst ` set (utxo_set (fold (mem_load_one a) us s)) = {}"
    using Cons.prems(2) unfolding set by (auto simp: e split: if_splits)
  have wf: "wf_dict data" using Cons.prems(1) by (simp add: e wf_dict_def)
  from Cons.IH [OF wf disj] show ?case by (simp add: e set outputs_def)
qed (simp add: outputs_def)

lemma duplicate_keys_distinct: "distinct ks \<Longrightarrow> set ks \<inter> set known = {} \<Longrightarrow> duplicate_keys known ks = []"
  by (induction ks arbitrary: known) auto

text \<open>
  A set that was just loaded passes \<open>verify_utxo_consistency\<close>: the totals the load accumulates are
  those the check recomputes, so starting a node from a well-formed saved set raises no false alarm.
\<close>

lemma loaded_set_is_consistent:
  assumes "mem_data_ok data"
  shows "is_consistent (verify_utxo_consistency memory_store (load_utxo_set memory_store data m))"
proof -
  let ?s = "mem_load_dict data (store m)" and ?us = "filter (\<lambda>u. \<not> u_spent u) (outputs data)"
  have wf: "wf_dict data" and uniq: "unique_unspent (outputs data)" using assms by (simp_all add: mem_data_ok_def)
  have out: "outputs (utxo_set ?s) = outputs data"
    using mem_load_data_outputs [OF wf, of new_mem_store] by (simp add: mem_load_dict_def mem_reset_def new_mem_store_def outputs_def)
  have totals: "total_utxos ?s = int (length ?us)" "total_value ?s = foldl float_add (Fin 0) (map u_amount ?us)"
    using mem_load_data_value [of data new_mem_store] by (simp_all add: mem_load_dict_def mem_reset_def new_mem_store_def)
  have "distinct (map (\<lambda>u. utxo_key (u_txid u) (u_vout u)) ?us)"
    using uniq by (auto simp: unique_unspent_def distinct_map inj_on_def key_of_def utxo_key_inj)
  then have dups: "duplicate_keys [] (map (\<lambda>u. utxo_key (u_txid u) (u_vout u)) ?us) = []"
    by (intro duplicate_keys_distinct) simp_all
  have "float_sub x x = Fin 0 \<or> float_sub x x = NaN" for x
    by (cases x) (simp_all add: float_sub_def to_float_def round_double_def Let_def)
  then have "float_abs (float_sub x x) \<in> {Fin 0, NaN}" for x
    by (metis float_abs_def float_neg.simps(4) float_sign.simps(1,4) insert_iff less_irrefl)
  moreover have "MINIMUM_TRANSACTION_AMOUNT = PosInf \<or> (\<exists>a. MINIMUM_TRANSACTION_AMOUNT = Fin a \<and> 0 \<le> a)"
    unfolding MINIMUM_TRANSACTION_AMOUNT_def by (rule to_float_nonneg) simp
  ultimately have "\<not> float_less MINIMUM_TRANSACTION_AMOUNT (float_abs (float_sub x x))" for x
    by (metis (no_types, lifting) empty_iff float_less.simps insert_iff linorder_not_less)
  then show ?thesis
    by (simp add: verify_utxo_consistency_def load_utxo_set_def memory_store_def mem_to_dict_def mem_stats_def out totals dups Let_def)
qed

definition one_output_set :: "(string \<times> utxo list) list" where
  "one_output_set = [(''alice'', [new_utxo ''alice'' ''t1'' 0 (Fin 5) ''P2PKH alice''])]"

section \<open>Where the manager falls short\<close>

text \<open>
  The running total is a float, so it forgets small amounts beside large ones: with \<open>10 ^ 8\<close> and
  \<open>10 ^ -9\<close> in the set and the first spent, the total is 0 and the set counts as corrupt.
\<close>

definition tiny :: rat where "tiny = 4835703278458517 / 2 ^ 82"

lemma tiny_value: "tiny = of_int 4835703278458517 * pow2 (- 30 - 52)"
  by (simp add: tiny_def pow2_def)

lemma tiny_bounds: "pow2 (- 30) \<le> tiny" "tiny < pow2 (- 30 + 1)"
  by (simp_all add: tiny_def pow2_def)

lemma to_float_nano: "to_float (1 / 10 ^ 9) = Fin tiny"
  unfolding tiny_value by (rule to_float_eqI) (simp_all add: pow2_def)

lemma to_float_tiny: "to_float tiny = Fin tiny"
  by (subst (2) tiny_value, rule to_float_eqI [OF tiny_bounds]) (simp_all add: tiny_def pow2_def)

lemma hundred_million: "to_float 100000000 = Fin 100000000" "to_float (100000000 + tiny) = Fin 100000000"
proof -
  show "to_float 100000000 = Fin 100000000" using to_float_int [of 100000000] by simp
  have "to_float (100000000 + tiny) = Fin (of_int 6710886400000000 * pow2 (26 - 52))"
    by (rule to_float_eqI) (simp_all add: tiny_def pow2_def)
  then show "to_float (100000000 + tiny) = Fin 100000000" by (simp add: pow2_def)
qed

lemma to_float_minus_tiny: "to_float (- tiny) = Fin (- tiny)"
proof -
  have t: "0 < tiny" by (simp add: tiny_def)
  have "ulp_exponent tiny = - 30 - 52"
    by (rule round_double_eqI(2) [OF tiny_bounds, of 4835703278458517]) (simp_all add: tiny_def pow2_def)
  then have "ulp_exponent (- tiny) = - 30 - 52" by (simp add: ulp_exponent_def)
  then have r: "round_double (- tiny) = - tiny"
    by (intro round_double_exact [of _ "- 4835703278458517"]) (simp add: tiny_value)
  have "tiny < pow2 1024" using tiny_bounds(2) pow2_mono [of "- 30 + 1" 1024] by simp
  then show ?thesis using to_float_finite [of "- tiny"] t by (simp add: r)
qed

definition drift_store :: mem_utxos where
  "drift_store = snd (mem_mark_spent ''t1'' 0 (snd (mem_add ''bob'' ''t2'' 0 (Fin tiny) ''P2PKH bob''
     (snd (mem_add ''alice'' ''t1'' 0 (Fin 100000000) ''P2PKH alice'' new_mem_store)))))"

lemma drift_store_value:
  "drift_store = \<lparr>utxo_set = [(''alice'', [(new_utxo ''alice'' ''t1'' 0 (Fin 100000000) ''P2PKH alice'')\<lparr>u_spent := True\<rparr>]),
       (''bob'', [new_utxo ''bob'' ''t2'' 0 (Fin tiny) ''P2PKH bob''])],
     utxo_index = [(utxo_key ''t2'' 0, (''bob'', 0))], total_utxos = 1, total_value = Fin 0\<rparr>"
proof -
  have keys: "utxo_key ''t1'' 0 \<noteq> utxo_key ''t2'' 0" by (simp add: utxo_key_inj)
  have zero: "to_float 0 = Fin 0" by (simp add: to_float_def round_double_def Let_def)
  show ?thesis
    using keys keys [symmetric]
    by (simp add: drift_store_def mem_add_def mem_mark_spent_def mem_object_def new_mem_store_def new_utxo_def Let_def dict_get_def
        hundred_million float_sub_def zero)
qed

lemma honest_spend_fails_check:
  "\<not> is_consistent (verify_utxo_consistency memory_store (new_manager drift_store))"
proof -
  have min: "\<exists>a. MINIMUM_TRANSACTION_AMOUNT = Fin a \<and> a < tiny"
  proof -
    have "to_float (1 / 10 ^ 18) = Fin (of_int 5192296858534828 * pow2 (- 60 - 52))"
      by (rule to_float_eqI) (simp_all add: pow2_def)
    moreover have "of_int 5192296858534828 * pow2 (- 60 - 52) < tiny" by (simp add: tiny_def pow2_def)
    ultimately show ?thesis unfolding MINIMUM_TRANSACTION_AMOUNT_def by blast
  qed
  have t: "0 < tiny" by (simp add: tiny_def)
  have "float_abs (float_sub (Fin 0) (Fin tiny)) = Fin tiny" using t by (simp add: float_sub_def float_abs_def to_float_minus_tiny)
  moreover have "float_less MINIMUM_TRANSACTION_AMOUNT (Fin tiny)" using min by (metis float_less.simps(1))
  ultimately show ?thesis
    by (simp add: verify_utxo_consistency_def memory_store_def mem_to_dict_def mem_stats_def drift_store_value new_manager_def outputs_def
        new_utxo_def to_float_tiny Let_def)
qed

text \<open>
  Locks taken without a transaction id, as \<open>Blockchain.create_transaction\<close> takes them, are released by
  no call of \<open>release_utxos_for_tx\<close>.
\<close>

lemma anonymous_locks_stay:
  assumes "lock_inv m" and "lock_utxos ks [] m = (Inr True, m')"
  shows "release_utxos_for_tx [] m' = (Inr 0, m')"
proof -
  have "map_of (tx_to_utxos m') [] = None"
    using lock_utxos_True(5) [OF assms(2)] assms(1) by (cases "map_of (tx_to_utxos m) []") (auto simp: lock_inv_def)
  then show ?thesis by (simp add: release_utxos_for_tx_def)
qed

text \<open>
  Unlocking asks for no transaction: when the mempool rejects a transaction it unlocks that transaction's
  inputs, and with them the locks others hold on the same outputs.
\<close>

lemma rejection_breaks_foreign_lock:
  assumes "lock_inv m" and "lock_utxos ks i m = (Inr True, m')" and "k \<in> set ks" "k \<in> set js"
  shows "locked m' k = Some i" and "locked (unlock_utxos_by_keys js m') k = None"
  using lock_utxos_True(2) [OF assms(2)] unlock_keys [OF lock_inv_lock [OF assms(1,2)], of js] assms(3,4) by simp_all

text \<open>A second lock for the same transaction overwrites the list of the first, whose outputs then stay locked.\<close>

lemma relock_loses_first:
  assumes "lock_inv m" and "lock_utxos ks i m = (Inr True, m1)" "lock_utxos js i m1 = (Inr True, m2)" "i \<noteq> []"
    and "release_utxos_for_tx i m2 = (r, m3)" and "k \<in> set ks"
  shows "locked m3 k = Some i"
proof -
  note l = lock_utxos_True [OF assms(2)] and l' = lock_utxos_True [OF assms(3)]
  have inv: "lock_inv m2" using lock_inv_lock [OF lock_inv_lock [OF assms(1,2)] assms(3)] .
  have "dict_get (tx_to_utxos m2) i [] = js" using l'(5) assms(4) by (simp add: dict_get_def)
  moreover have "k \<notin> set js" using l'(1) l(2) assms(6) by auto
  ultimately show ?thesis using release_spec [OF inv assms(5)] l(2) l'(2) assms(6) by simp
qed

text \<open>A failing transaction leaves its first inputs spent.\<close>

lemma failed_inputs_stay_spent:
  "process_transaction_inputs memory_store
     \<lparr>tr_txid = ''a'', tr_sender = ''alice'', tr_inputs = [(''t1'', 0), (''t9'', 0)], tr_outputs = []\<rparr> alice_output
     = (Inr False, snd (process_transaction_inputs memory_store (alice_spends ''a'') alice_output))"
  by (simp add: process_transaction_inputs_def alice_spends_def alice_output_def new_manager_def mark_utxo_spent_def memory_store_def
      mem_get_def mem_mark_spent_def mem_object_def mem_load_one_def new_mem_store_def new_utxo_def and_then_def ret_def Let_def
      dict_get_def delete_conv' utxo_key_inj)

end
