(* ===== verification/Json.thy ===== *)
theory Json
  imports BlockHeader "HOL-Library.List_Lexorder" "HOL-Library.Char_ord"
begin

text \<open>
  JSON values and the canonical text that transactions are hashed over (\<open>canonical_json\<close> of
  \<open>transaction.py\<close>: sorted keys, no blanks, ASCII only). \<open>F\<close> stands for the text of a float. The
  text determines the value, so that a hash of the text commits to every member of an object.
\<close>

section \<open>Values and their text\<close>

datatype json =
  JNull | JBool bool | JInt int | JFloat pyfloat | JStr string | JList "json list" | JObj "(string \<times> json) list"

fun join_comma :: "string list \<Rightarrow> string" where
  "join_comma [] = []"
| "join_comma [x] = x"
| "join_comma (x # xs) = x @ '','' @ join_comma xs"

fun json_text :: "(pyfloat \<Rightarrow> string) \<Rightarrow> json \<Rightarrow> string" where
  "json_text F JNull = ''null''"
| "json_text F (JBool b) = (if b then ''true'' else ''false'')"
| "json_text F (JInt n) = dec_text n"
| "json_text F (JFloat x) = F x"
| "json_text F (JStr s) = json_string s"
| "json_text F (JList xs) = ''['' @ join_comma (map (json_text F) xs) @ '']''"
| "json_text F (JObj ms) = ''{'' @ join_comma (map (\<lambda>m. json_string (fst m) @ '':'' @ json_text F (snd m)) ms) @ ''}''"

fun sort_keys :: "json \<Rightarrow> json" where
  "sort_keys (JList xs) = JList (map sort_keys xs)"
| "sort_keys (JObj ms) = JObj (sort_key fst (map (\<lambda>m. (fst m, sort_keys (snd m))) ms))"
| "sort_keys j = j"

definition canonical_json :: "(pyfloat \<Rightarrow> string) \<Rightarrow> json \<Rightarrow> string" where
  "canonical_json F j = json_text F (sort_keys j)"

section \<open>The text determines the value\<close>

text \<open>
  What is needed of the text of floats: different floats have different texts, which are no
  integers, start like numbers and hold no character that ends a value.
\<close>

definition ends_value :: "char \<Rightarrow> bool" where
  "ends_value c \<longleftrightarrow> c = CHR '','' \<or> c = CHR '']'' \<or> c = CHR ''}''"

definition json_floats_ok :: "(pyfloat \<Rightarrow> string) \<Rightarrow> bool" where
  "json_floats_ok F \<longleftrightarrow> inj F \<and> (\<forall>x n. F x \<noteq> dec_text n) \<and>
     (\<forall>x. F x \<noteq> [] \<and> hd (F x) \<in> set ''0123456789-IN'' \<and> (\<forall>c \<in> set (F x). \<not> ends_value c))"

definition at_end :: "string \<Rightarrow> bool" where
  "at_end s \<longleftrightarrow> s = [] \<or> ends_value (hd s)"

lemma token_split:
  assumes "a @ r = b @ s" and "\<forall>c \<in> set a. \<not> ends_value c" "\<forall>c \<in> set b. \<not> ends_value c" and "at_end r" "at_end s"
  shows "a = b \<and> r = s"
  using assms
proof (induction a arbitrary: b)
  case Nil
  then show ?case by (cases b) (auto simp: at_end_def)
next
  case (Cons c a)
  then show ?case by (cases b) (auto simp: at_end_def)
qed

lemma dec_text_chars: "c \<in> set (dec_text n) \<Longrightarrow> c \<in> set ''0123456789-''"
proof -
  assume c: "c \<in> set (dec_text n)"
  have "d \<in> set ''0123456789''" if "d \<in> set (dec_nat m)" for d m
  proof -
    note d = that
    obtain k where k: "k < 10" "d = hex_digit k" using dec_nat_digits [OF d] by blast
    have "\<forall>k \<in> set [0..<10]. hex_digit k \<in> set ''0123456789''" by code_simp
    with k show ?thesis by auto
  qed
  with c show ?thesis by (auto simp: dec_text_def split: if_splits)
qed

lemma dec_text_nonempty: "dec_text n \<noteq> []"
  by (simp add: dec_text_def dec_nat_nonempty)

lemma dec_text_plain_token: "c \<in> set (dec_text n) \<Longrightarrow> \<not> ends_value c"
  using dec_text_chars by (auto simp: ends_value_def)

text \<open>The first character tells what kind of value follows.\<close>

fun json_kind :: "json \<Rightarrow> nat" where
  "json_kind JNull = 0" | "json_kind (JBool b) = (if b then 1 else 2)" | "json_kind (JInt n) = 3"
| "json_kind (JFloat x) = 3" | "json_kind (JStr s) = 4" | "json_kind (JList xs) = 5" | "json_kind (JObj ms) = 6"

definition char_kind :: "char \<Rightarrow> nat" where
  "char_kind c = (if c = CHR ''n'' then 0 else if c = CHR ''t'' then 1 else if c = CHR ''f'' then 2
     else if c \<in> set ''0123456789-IN'' then 3 else if c = CHR 0x22 then 4 else if c = CHR ''['' then 5
     else if c = CHR ''{'' then 6 else 7)"

lemma char_kind_simps [simp]:
  "char_kind (CHR ''n'') = 0" "char_kind (CHR ''t'') = 1" "char_kind (CHR ''f'') = 2"
  "char_kind (CHR 0x22) = 4" "char_kind (CHR ''['') = 5" "char_kind (CHR ''{'') = 6"
  by (simp_all add: char_kind_def)

lemma number_char: "c \<in> set ''0123456789-IN'' \<Longrightarrow> char_kind c = 3"
  unfolding char_kind_def by auto

lemma json_text_head:
  assumes "json_floats_ok F"
  shows "json_text F j \<noteq> []" "char_kind (hd (json_text F j)) = json_kind j"
proof -
  have int: "hd (dec_text n) \<in> set ''0123456789-IN''" for n
    using dec_text_chars [OF hd_in_set [OF dec_text_nonempty], of n] by auto
  have float: "F x \<noteq> []" "hd (F x) \<in> set ''0123456789-IN''" for x
    using assms by (simp_all add: json_floats_ok_def)
  show "json_text F j \<noteq> []"
    by (cases j) (simp_all add: dec_text_nonempty float(1) json_string_def)
  show "char_kind (hd (json_text F j)) = json_kind j"
    by (cases j) (simp_all add: number_char [OF int] number_char [OF float(2)] json_string_def)
qed

lemma json_head_plain: "json_floats_ok F \<Longrightarrow> \<not> ends_value (hd (json_text F j))"
  using json_text_head(2) [of F j]
  by (cases j) (auto simp: ends_value_def char_kind_def split: if_splits)

lemma json_string_unique: "json_string a @ x = json_string b @ y \<Longrightarrow> a = b \<and> x = y"
proof -
  assume "json_string a @ x = json_string b @ y"
  then have "concat (map json_char a) @ CHR 0x22 # x = concat (map json_char b) @ CHR 0x22 # y"
    by (simp add: json_string_def)
  then show ?thesis
  proof (induction a arbitrary: b)
    case Nil
    then show ?case by (cases b) (auto simp: json_char_def Let_def split: if_splits)
  next
    case (Cons c a)
    show ?case
    proof (cases b)
      case Nil
      with Cons.prems show ?thesis by (auto simp: json_char_def Let_def split: if_splits)
    next
      case b: (Cons d b')
      then have "c = d \<and> concat (map json_char a) @ CHR 0x22 # x = concat (map json_char b') @ CHR 0x22 # y"
        using Cons.prems by (intro json_char_inj) simp
      with Cons.IH [of b'] b show ?thesis by simp
    qed
  qed
qed

lemma join_comma_Cons: "join_comma (x # xs) = x @ (if xs = [] then [] else '','' @ join_comma xs)"
  by (cases xs) simp_all

lemma hd_join_comma: "x \<noteq> [] \<Longrightarrow> hd (join_comma (x # xs) @ r) = hd x"
  by (simp add: join_comma_Cons del: join_comma.simps)

lemma join_comma_unique:
  assumes "\<And>x y r s. x \<in> set xs \<Longrightarrow> f x @ r = f y @ s \<Longrightarrow> at_end r \<Longrightarrow> at_end s \<Longrightarrow> x = y \<and> r = s"
    and "\<And>x. f x \<noteq> [] \<and> \<not> ends_value (hd (f x))"
    and "ends_value c" "c \<noteq> CHR '',''"
    and "join_comma (map f xs) @ c # r = join_comma (map f ys) @ c # s"
  shows "xs = ys \<and> r = s"
  using assms(1,5)
proof (induction xs arbitrary: ys)
  case Nil
  show ?case
  proof (cases ys)
    case (Cons y ys')
    have "hd (c # r) = hd (join_comma (f y # map f ys') @ c # s)" using Nil.prems(2) Cons by simp
    then have "c = hd (f y)" using hd_join_comma [of "f y"] assms(2) [of y] by simp
    with assms(2,3) show ?thesis by simp
  qed (use Nil.prems in simp)
next
  case (Cons x xs)
  let ?tail = "\<lambda>zs. if zs = [] then [] else '','' @ join_comma (map f zs)"
  show ?case
  proof (cases ys)
    case Nil
    then have "hd (c # s) = hd (join_comma (f x # map f xs) @ c # r)" using Cons.prems(2) by simp
    then have "c = hd (f x)" using hd_join_comma [of "f x"] assms(2) [of x] by simp
    with assms(2,3) show ?thesis by simp
  next
    case ys: (Cons y ys')
    have "f x @ (?tail xs @ c # r) = f y @ (?tail ys' @ c # s)"
      using Cons.prems(2) ys by (simp add: join_comma_Cons del: join_comma.simps)
    moreover have "at_end (?tail zs @ c # q)" for zs q using assms(3) by (simp add: at_end_def ends_value_def)
    ultimately have xy: "x = y" and tails: "?tail xs @ c # r = ?tail ys' @ c # s"
      using Cons.prems(1) [of x "?tail xs @ c # r" y "?tail ys' @ c # s"] by simp_all
    show ?thesis
    proof (cases "xs = [] \<or> ys' = []")
      case True
      with tails assms(4) have "xs = [] \<and> ys' = [] \<and> r = s" by (auto split: if_splits)
      with xy ys show ?thesis by simp
    next
      case False
      with tails have "join_comma (map f xs) @ c # r = join_comma (map f ys') @ c # s" by simp
      with Cons.IH [of ys'] Cons.prems(1) xy ys show ?thesis by auto
    qed
  qed
qed

lemma json_kinds_agree:
  assumes "json_floats_ok F" and "json_text F a @ r = json_text F b @ s"
  shows "json_kind a = json_kind b"
proof -
  have "hd (json_text F a) = hd (json_text F b)"
    using assms(2) json_text_head(1) [OF assms(1)] by (metis hd_append2)
  then show ?thesis using json_text_head(2) [OF assms(1)] by metis
qed

lemma json_text_unique:
  assumes F: "json_floats_ok F"
  shows "json_text F a @ r = json_text F b @ s \<Longrightarrow> at_end r \<Longrightarrow> at_end s \<Longrightarrow> a = b \<and> r = s"
proof (induction a arbitrary: b r s)
  case JNull
  with json_kinds_agree [OF F JNull.prems(1)] show ?case by (cases b) (auto split: if_splits)
next
  case (JBool x)
  with json_kinds_agree [OF F JBool.prems(1)] show ?case by (cases b) (auto split: if_splits)
next
  case (JInt n)
  consider m where "b = JInt m" | x where "b = JFloat x"
    using json_kinds_agree [OF F JInt.prems(1)] by (cases b) (auto split: if_splits)
  then show ?case
  proof cases
    case 1
    have "dec_text n = dec_text m \<and> r = s"
      by (rule token_split) (use JInt.prems 1 dec_text_plain_token in auto)
    with 1 dec_text_inj show ?thesis by auto
  next
    case 2
    have "dec_text n = F x \<and> r = s"
      by (rule token_split) (use JInt.prems 2 dec_text_plain_token F in \<open>auto simp: json_floats_ok_def\<close>)
    with F show ?thesis by (simp add: json_floats_ok_def) metis
  qed
next
  case (JFloat x)
  consider m where "b = JInt m" | y where "b = JFloat y"
    using json_kinds_agree [OF F JFloat.prems(1)] by (cases b) (auto split: if_splits)
  then show ?case
  proof cases
    case 1
    have "F x = dec_text m \<and> r = s"
      by (rule token_split) (use JFloat.prems 1 dec_text_plain_token F in \<open>auto simp: json_floats_ok_def\<close>)
    with F show ?thesis by (simp add: json_floats_ok_def)
  next
    case 2
    have "F x = F y \<and> r = s"
      by (rule token_split) (use JFloat.prems 2 F in \<open>auto simp: json_floats_ok_def\<close>)
    with F 2 show ?thesis by (simp add: json_floats_ok_def inj_eq)
  qed
next
  case (JStr x)
  obtain y where b: "b = JStr y"
    using json_kinds_agree [OF F JStr.prems(1)] by (cases b) (auto split: if_splits)
  with JStr.prems json_string_unique [of x r y s] show ?case by simp
next
  case (JList xs)
  obtain ys where b: "b = JList ys"
    using json_kinds_agree [OF F JList.prems(1)] by (cases b) (auto split: if_splits)
  have "xs = ys \<and> r = s"
  proof (rule join_comma_unique [where f = "json_text F" and c = "CHR '']''"])
    show "x = y \<and> r' = s'" if "x \<in> set xs" "json_text F x @ r' = json_text F y @ s'" "at_end r'" "at_end s'" for x y r' s'
      by (rule JList.IH [OF that])
    show "json_text F x \<noteq> [] \<and> \<not> ends_value (hd (json_text F x))" for x
      using json_text_head(1) [OF F] json_head_plain [OF F] by blast
  qed (use JList.prems(1) b in \<open>simp_all add: ends_value_def\<close>)
  with b show ?case by simp
next
  case (JObj ms)
  obtain ns where b: "b = JObj ns"
    using json_kinds_agree [OF F JObj.prems(1)] by (cases b) (auto split: if_splits)
  let ?f = "\<lambda>m. json_string (fst m) @ '':'' @ json_text F (snd m)"
  have "ms = ns \<and> r = s"
  proof (rule join_comma_unique [where f = ?f and c = "CHR ''}''"])
    show "m = n \<and> r' = s'" if m: "m \<in> set ms" and eq: "?f m @ r' = ?f n @ s'" and ends: "at_end r'" "at_end s'" for m n r' s'
    proof -
      have "fst m = fst n \<and> CHR '':'' # json_text F (snd m) @ r' = CHR '':'' # json_text F (snd n) @ s'"
        by (rule json_string_unique) (use eq in simp)
      moreover from this have "snd m = snd n \<and> r' = s'"
        by (intro JObj.IH [OF m _ _ ends]) (simp_all add: snds.simps)
      ultimately show ?thesis by (simp add: prod_eq_iff)
    qed
    show "?f m \<noteq> [] \<and> \<not> ends_value (hd (?f m))" for m
      by (simp add: json_string_def ends_value_def)
  qed (use JObj.prems(1) b in \<open>simp_all add: ends_value_def\<close>)
  with b show ?case by simp
qed

text \<open>So the canonical text of a value with sorted keys is its own.\<close>

lemma canonical_json_unique:
  "json_floats_ok F \<Longrightarrow> canonical_json F a = canonical_json F b \<Longrightarrow> sort_keys a = sort_keys b"
  using json_text_unique [of F "sort_keys a" "[]" "sort_keys b" "[]"] by (simp add: canonical_json_def at_end_def)

end
