(* ===== verification/Transactions.thy ===== *)
theory Transactions
  imports Json UtxoManager
begin

text \<open>
  \<open>Transaction\<close> of \<open>transaction.py\<close>: validation on construction, the id, signing, size and fee
  rate, with the address formats of \<open>consensus/validation.py\<close>. Parameters: \<open>S\<close> is SHA-256 of a
  text as hexadecimal, \<open>F\<close> the text of a float, \<open>normalize_address\<close> and \<open>checksum\<close> are functions of
  \<open>xai.core.wallets.address_checksum\<close>, which the repository does not hold, \<open>sign\<close>, \<open>derive\<close> and
  \<open>verify\<close> those of the elliptic curve library. Amounts of outputs are floats; inputs and outputs
  have the keys the code reads and no others.
\<close>

section \<open>Addresses\<close>

definition SPECIAL_ADDRESSES :: "string list" where
  "SPECIAL_ADDRESSES =
     [''COINBASE'', ''SYSTEM'', ''AIRDROP'', ''XAITRADEFEE'', ''TXAITRADEFEE'',
      ''xaitest1tradefeeaddr00000000000000'', ''xai1tradefeeaddr000000000000000000000000'',
      ''GOVERNANCE'', ''STAKING'', ''TIMECAPSULE'']"

definition MAX_ADDRESS_LENGTH :: nat where "MAX_ADDRESS_LENGTH = 100"

definition BECH32_ALPHABET :: string where "BECH32_ALPHABET = ''abcdefghijklmnopqrstuvwxyz234567''"

definition is_hex_char :: "char \<Rightarrow> bool" where
  "is_hex_char c \<longleftrightarrow> c \<in> set ''0123456789abcdefABCDEF''"

text \<open>The prefixes from the longest to the shortest.\<close>

definition require_prefix :: "string \<Rightarrow> exn + string" where
  "require_prefix address =
     (case find (\<lambda>p. starts_with p address) [''xaitest1'', ''xai1'', ''TXAI'', ''XAI''] of
        Some p \<Rightarrow> Inr p | None \<Rightarrow> Inl ValueError)"

definition is_bech32_prefix :: "string \<Rightarrow> bool" where
  "is_bech32_prefix p \<longleftrightarrow> p = ''xai1'' \<or> p = ''xaitest1''"

text \<open>
  \<open>AddressFormatValidator.validate\<close> with its default settings. \<open>validate_checksum\<close> is the function
  of the checksum module.
\<close>

definition validate_format :: "(string \<Rightarrow> bool \<times> string) \<Rightarrow> bool \<Rightarrow> string \<Rightarrow> exn + string" where
  "validate_format validate_checksum allow_special address =
     (let a = strip address in
      if a = [] then Inl ValueError
      else if allow_special \<and> a \<in> set SPECIAL_ADDRESSES then Inr a
      else case require_prefix a of
        Inl e \<Rightarrow> Inl e
      | Inr p \<Rightarrow> let body = drop (length p) a in
          if body = [] then Inl ValueError
          else if is_bech32_prefix p then
            (if \<not> (\<forall>c \<in> set body. c \<in> set BECH32_ALPHABET) then Inl ValueError
             else if length body \<noteq> (if p = ''xaitest1'' then 32 else 38) then Inl ValueError else Inr a)
          else if \<not> (\<forall>c \<in> set body. is_hex_char c) then Inl ValueError
          else if length body + length p > MAX_ADDRESS_LENGTH then Inl ValueError
          else if 22 \<le> length body \<and> length body \<le> 60 then Inr a
          else if length body = 40 then
            (if body \<noteq> to_lower body \<and> body \<noteq> to_upper body
             then (case validate_checksum a of (ok, result) \<Rightarrow> if ok then Inr result else Inl ValueError)
             else Inr a)
          else Inl ValueError)"

definition validate_xai_address ::
    "(string \<Rightarrow> bool \<times> string) \<Rightarrow> (string \<Rightarrow> exn + string) \<Rightarrow> bool \<Rightarrow> string \<Rightarrow> exn + string" where
  "validate_xai_address validate_checksum normalize_address allow_special address =
     (case validate_format validate_checksum allow_special address of
        Inl e \<Rightarrow> Inl e
      | Inr a \<Rightarrow> if a \<in> set SPECIAL_ADDRESSES then Inr a
          else (case normalize_address a of Inl ValueError \<Rightarrow> Inr a | r \<Rightarrow> r))"

section \<open>Construction\<close>

record transaction =
  t_sender :: string
  t_recipient :: string
  t_amount :: pyfloat
  t_fee :: pyfloat
  t_public_key :: "string option"
  t_type :: string
  t_nonce :: "int option"
  t_inputs :: "outpoint list"
  t_outputs :: "(string \<times> pyfloat) list"
  t_metadata :: "(string \<times> json) list"
  t_timestamp :: pyfloat
  t_signature :: "string option"
  t_txid :: "string option"
  t_rbf_enabled :: bool
  t_replaces :: "string option"
  t_sponsor :: "string option"
  t_sponsor_signature :: "string option"
  t_cached_size :: "nat option"

definition TX_MAX_FEE :: pyfloat where "TX_MAX_FEE = Fin 1000000"
definition MAX_METADATA_SIZE :: nat where "MAX_METADATA_SIZE = 4096"
definition MAX_INPUTS :: nat where "MAX_INPUTS = 1000"
definition MAX_OUTPUTS :: nat where "MAX_OUTPUTS = 1000"

text \<open>A \<open>ValueError\<close> becomes a \<open>TransactionValidationError\<close>; other exceptions pass.\<close>

definition as_tx_error :: "exn + 'a \<Rightarrow> exn + 'a" where
  "as_tx_error r = (case r of Inl ValueError \<Rightarrow> Inl TransactionValidationError | _ \<Rightarrow> r)"

definition tx_amount :: "amount_arg \<Rightarrow> exn + pyfloat" where
  "tx_amount a = as_tx_error (validate_decimal True (Some (Fin 0)) (Some (Fin MAX_SUPPLY)) a)"

definition tx_address :: "(string \<Rightarrow> exn + string) \<Rightarrow> bool \<Rightarrow> string \<Rightarrow> exn + string" where
  "tx_address check allow_empty address =
     (if address = [] then if allow_empty then Inr [] else Inl TransactionValidationError
      else as_tx_error (check address))"

primrec tx_outputs_ok :: "(string \<Rightarrow> exn + string) \<Rightarrow> bool \<Rightarrow> (string \<times> pyfloat) list \<Rightarrow> exn + unit" where
  "tx_outputs_ok check skip [] = Inr ()"
| "tx_outputs_ok check skip (p # ps) =
     (case tx_amount (FloatAmount (snd p)) of
        Inl e \<Rightarrow> Inl e
      | Inr _ \<Rightarrow>
          if skip then tx_outputs_ok check skip ps
          else (case tx_address check True (fst p) of Inl e \<Rightarrow> Inl e | Inr _ \<Rightarrow> tx_outputs_ok check skip ps))"

text \<open>\<open>json.dumps\<close> with its default separators, which hold a blank.\<close>

fun join_blank :: "string list \<Rightarrow> string" where
  "join_blank [] = []"
| "join_blank [x] = x"
| "join_blank (x # xs) = x @ '', '' @ join_blank xs"

fun json_dumps :: "(pyfloat \<Rightarrow> string) \<Rightarrow> json \<Rightarrow> string" where
  "json_dumps F (JList xs) = ''['' @ join_blank (map (json_dumps F) xs) @ '']''"
| "json_dumps F (JObj ms) = ''{'' @ join_blank (map (\<lambda>m. json_string (fst m) @ '': '' @ json_dumps F (snd m)) ms) @ ''}''"
| "json_dumps F j = json_text F j"

text \<open>
  \<open>^[A-Fa-f0-9]+$\<close>: \<open>$\<close> also matches before a newline at the end.
\<close>

definition hex_key :: "string \<Rightarrow> bool" where
  "hex_key k \<longleftrightarrow>
     (let body = (if k \<noteq> [] \<and> last k = CHR 0x0A then butlast k else k) in body \<noteq> [] \<and> (\<forall>c \<in> set body. is_hex_char c))"

text \<open>The arguments of the constructor.\<close>

record tx_args =
  a_sender :: string
  a_recipient :: string
  a_amount :: amount_arg
  a_fee :: amount_arg
  a_public_key :: "string option"
  a_type :: string
  a_nonce :: "int option"
  a_inputs :: "outpoint list"
  a_outputs :: "(string \<times> pyfloat) list"
  a_metadata :: "(string \<times> json) list"
  a_rbf_enabled :: bool
  a_replaces :: "string option"
  a_sponsor :: "string option"

definition with_default_output :: "transaction \<Rightarrow> transaction" where
  "with_default_output t =
     (if t_outputs t = [] \<and> t_recipient t \<noteq> [] \<and> float_less (Fin 0) (t_amount t)
      then t\<lparr>t_outputs := [(t_recipient t, t_amount t)]\<rparr> else t)"

definition new_transaction ::
    "(string \<Rightarrow> exn + string) \<Rightarrow> (pyfloat \<Rightarrow> string) \<Rightarrow> pyfloat \<Rightarrow> tx_args \<Rightarrow> exn + transaction" where
  "new_transaction check F now a =
     (let coinbase = a_sender a = ''COINBASE'' in
      case tx_address check False (a_sender a) of Inl e \<Rightarrow> Inl e | Inr sender \<Rightarrow>
      case (if coinbase then Inr (a_recipient a) else tx_address check True (a_recipient a)) of Inl e \<Rightarrow> Inl e | Inr recipient \<Rightarrow>
      case tx_amount (a_amount a) of Inl e \<Rightarrow> Inl e | Inr amount \<Rightarrow>
      case tx_amount (a_fee a) of Inl e \<Rightarrow> Inl e | Inr fee \<Rightarrow>
      if float_less TX_MAX_FEE fee then Inl TransactionValidationError
      else if (case a_nonce a of None \<Rightarrow> False | Some n \<Rightarrow> n < 0) then Inl TransactionValidationError
      else if (case a_public_key a of None \<Rightarrow> False | Some k \<Rightarrow> k \<noteq> [] \<and> \<not> hex_key k) then Inl TransactionValidationError
      else if length (a_inputs a) > MAX_INPUTS then Inl TransactionValidationError
      else if length (a_outputs a) > MAX_OUTPUTS then Inl TransactionValidationError
      else case tx_outputs_ok check coinbase (a_outputs a) of Inl e \<Rightarrow> Inl e | Inr _ \<Rightarrow>
      if length (json_dumps F (JObj (a_metadata a))) > MAX_METADATA_SIZE then Inl TransactionValidationError
      else Inr (with_default_output
        \<lparr>t_sender = sender, t_recipient = recipient, t_amount = amount, t_fee = fee, t_public_key = a_public_key a,
         t_type = a_type a, t_nonce = a_nonce a, t_inputs = a_inputs a, t_outputs = a_outputs a, t_metadata = a_metadata a,
         t_timestamp = now, t_signature = None, t_txid = None, t_rbf_enabled = a_rbf_enabled a, t_replaces = a_replaces a,
         t_sponsor = a_sponsor a, t_sponsor_signature = None, t_cached_size = None\<rparr>))"

section \<open>The id\<close>

definition opt_json :: "('a \<Rightarrow> json) \<Rightarrow> 'a option \<Rightarrow> json" where
  "opt_json f v = (case v of None \<Rightarrow> JNull | Some x \<Rightarrow> f x)"

definition inputs_json :: "outpoint list \<Rightarrow> json" where
  "inputs_json ks = JList (map (\<lambda>k. JObj [(''txid'', JStr (fst k)), (''vout'', JInt (snd k))]) ks)"

definition outputs_json :: "(string \<times> pyfloat) list \<Rightarrow> json" where
  "outputs_json ps = JList (map (\<lambda>p. JObj [(''address'', JStr (fst p)), (''amount'', JFloat (snd p))]) ps)"

definition tx_data :: "string \<Rightarrow> transaction \<Rightarrow> json" where
  "tx_data context t = JObj
     [(''chain_context'', JStr context), (''sender'', JStr (t_sender t)), (''recipient'', JStr (t_recipient t)),
      (''amount'', JFloat (t_amount t)), (''fee'', JFloat (t_fee t)), (''timestamp'', JFloat (t_timestamp t)),
      (''nonce'', opt_json JInt (t_nonce t)), (''inputs'', inputs_json (t_inputs t)),
      (''outputs'', outputs_json (t_outputs t))]"

text \<open>\<open>context\<close> is the chain id or network type of the configuration.\<close>

definition calculate_hash :: "(string \<Rightarrow> string) \<Rightarrow> (pyfloat \<Rightarrow> string) \<Rightarrow> string \<Rightarrow> transaction \<Rightarrow> string" where
  "calculate_hash S F context t = S (canonical_json F (tx_data context t))"

section \<open>Signatures\<close>

text \<open>
  \<open>derive\<close>, \<open>sign\<close> and \<open>verify\<close> take and give hexadecimal texts. A failure to sign becomes a
  \<open>ValueError\<close>, unless an exception is raised that the source does not catch.
\<close>

record crypto =
  derive_public_key_hex :: "string \<Rightarrow> exn + string"
  sign_message_hex :: "string \<Rightarrow> string \<Rightarrow> exn + string"
  verify_signature_hex :: "string \<Rightarrow> string \<Rightarrow> string \<Rightarrow> bool"
  sha256_hex :: "byte list \<Rightarrow> string"
  to_checksum_address :: "string \<Rightarrow> exn + string"

definition sign_transaction ::
    "crypto \<Rightarrow> (transaction \<Rightarrow> string) \<Rightarrow> string \<Rightarrow> (transaction, unit) meth" where
  "sign_transaction c hash key t =
     (if t_sender t = ''COINBASE'' then (Inr (), t\<lparr>t_txid := Some (hash t)\<rparr>)
      else case (case t_public_key t of
                   Some (k # ks) \<Rightarrow> Inr t
                 | _ \<Rightarrow> map_sum id (\<lambda>k. t\<lparr>t_public_key := Some k\<rparr>) (derive_public_key_hex c key)) of
        Inl e \<Rightarrow> (Inl ValueError, t)
      | Inr t1 \<Rightarrow>
          (case sign_message_hex c key (hash t1) of
             Inl e \<Rightarrow> (Inl ValueError, t1)
           | Inr s \<Rightarrow> (Inr (), t1\<lparr>t_signature := Some s, t_txid := Some (hash t1)\<rparr>)))"

text \<open>The address of a public key, and the check that it is the sender's.\<close>

definition key_address :: "crypto \<Rightarrow> bool \<Rightarrow> string \<Rightarrow> exn + string" where
  "key_address c mainnet k =
     (case fromhex k of
        Inl e \<Rightarrow> Inl e
      | Inr bs \<Rightarrow> to_checksum_address c ((if mainnet then ''XAI'' else ''TXAI'') @ take 40 (sha256_hex c bs)))"

definition tx_verify_signature :: "crypto \<Rightarrow> bool \<Rightarrow> (transaction \<Rightarrow> string) \<Rightarrow> transaction \<Rightarrow> exn + bool" where
  "tx_verify_signature c mainnet hash t =
     (if t_sender t = ''COINBASE'' then Inr True
      else case (t_signature t, t_public_key t) of
        (Some (s # ss), Some (k # ks)) \<Rightarrow>
          (case key_address c mainnet (k # ks) of
             Inr a \<Rightarrow> Inr (a = t_sender t \<and> verify_signature_hex c (k # ks) (hash t) (s # ss))
           | Inl e \<Rightarrow> if e \<in> {ValueError, TypeError, KeyError, AttributeError} then Inr False else Inl e)
      | _ \<Rightarrow> Inr False)"

section \<open>Size and fee rate\<close>

definition tx_to_dict :: "transaction \<Rightarrow> json" where
  "tx_to_dict t = JObj
     ([(''txid'', opt_json JStr (t_txid t)), (''sender'', JStr (t_sender t)), (''recipient'', JStr (t_recipient t)),
       (''amount'', JFloat (t_amount t)), (''fee'', JFloat (t_fee t)), (''timestamp'', JFloat (t_timestamp t)),
       (''signature'', opt_json JStr (t_signature t)), (''public_key'', opt_json JStr (t_public_key t)),
       (''tx_type'', JStr (t_type t)), (''nonce'', opt_json JInt (t_nonce t)), (''metadata'', JObj (t_metadata t)),
       (''inputs'', inputs_json (t_inputs t)), (''outputs'', outputs_json (t_outputs t)),
       (''rbf_enabled'', JBool (t_rbf_enabled t)), (''replaces_txid'', opt_json JStr (t_replaces t))]
      @ (case t_sponsor t of
           Some (c # cs) \<Rightarrow> [(''gas_sponsor'', JStr (c # cs)), (''gas_sponsor_signature'', opt_json JStr (t_sponsor_signature t))]
         | _ \<Rightarrow> []))"

text \<open>The first size computed is kept for the life of the object.\<close>

definition tx_size :: "(pyfloat \<Rightarrow> string) \<Rightarrow> transaction \<Rightarrow> nat" where
  "tx_size F t = (case t_cached_size t of Some n \<Rightarrow> n | None \<Rightarrow> length (canonical_json F (tx_to_dict t)))"

definition get_size :: "(pyfloat \<Rightarrow> string) \<Rightarrow> transaction \<Rightarrow> nat \<times> transaction" where
  "get_size F t = (tx_size F t, t\<lparr>t_cached_size := Some (tx_size F t)\<rparr>)"

definition fee_rate :: "(pyfloat \<Rightarrow> string) \<Rightarrow> transaction \<Rightarrow> pyfloat" where
  "fee_rate F t =
     (if tx_size F t = 0 then Fin 0
      else case float_div (t_fee t) (float_of_int (int (tx_size F t))) of Inr r \<Rightarrow> r | Inl e \<Rightarrow> NaN)"

definition get_fee_rate :: "(pyfloat \<Rightarrow> string) \<Rightarrow> transaction \<Rightarrow> pyfloat \<times> transaction" where
  "get_fee_rate F t = (fee_rate F t, snd (get_size F t))"

section \<open>What the id and the signature commit to\<close>

lemma sort_tx_data: "sort_keys (tx_data context t) = JObj
     [(''amount'', JFloat (t_amount t)), (''chain_context'', JStr context), (''fee'', JFloat (t_fee t)),
      (''inputs'', inputs_json (t_inputs t)), (''nonce'', opt_json JInt (t_nonce t)), (''outputs'', outputs_json (t_outputs t)),
      (''recipient'', JStr (t_recipient t)), (''sender'', JStr (t_sender t)), (''timestamp'', JFloat (t_timestamp t))]"
proof -
  have leaf: "sort_keys (opt_json JInt n) = opt_json JInt n" for n by (cases n) (simp_all add: opt_json_def)
  have ins: "sort_keys (inputs_json ks) = inputs_json ks" for ks by (simp add: inputs_json_def)
  have outs: "sort_keys (outputs_json ps) = outputs_json ps" for ps by (simp add: outputs_json_def)
  show ?thesis by (simp add: tx_data_def leaf ins outs)
qed

lemma opt_json_int_inj: "opt_json JInt m = opt_json JInt n \<Longrightarrow> m = n"
  by (cases m; cases n) (simp_all add: opt_json_def)

lemma inputs_json_inj: "inputs_json ks = inputs_json ks' \<Longrightarrow> ks = ks'"
proof -
  assume "inputs_json ks = inputs_json ks'"
  moreover have "inj (\<lambda>k. JObj [(''txid'', JStr (fst k)), (''vout'', JInt (snd k))])" by (rule injI) (simp add: prod_eq_iff)
  ultimately show ?thesis by (simp add: inputs_json_def inj_map_eq_map)
qed

lemma outputs_json_inj: "outputs_json ps = outputs_json ps' \<Longrightarrow> ps = ps'"
proof -
  assume "outputs_json ps = outputs_json ps'"
  moreover have "inj (\<lambda>p. JObj [(''address'', JStr (fst p)), (''amount'', JFloat (snd p))])" by (rule injI) (simp add: prod_eq_iff)
  ultimately show ?thesis by (simp add: outputs_json_def inj_map_eq_map)
qed

lemma tx_data_unique:
  assumes "sort_keys (tx_data c t) = sort_keys (tx_data c' t')"
  shows "c = c' \<and> tx_data c t = tx_data c' t'"
  using assms unfolding sort_tx_data by (simp add: tx_data_def)

text \<open>
  C28: The id of a transaction commits to what it moves and to the chain: two transactions with the
  same id, without a collision of the hash on their two texts, agree in chain, sender, recipient,
  amount, fee, time, nonce, inputs and outputs.
\<close>

theorem txid_commits:
  assumes "calculate_hash S F c t = calculate_hash S F c' t'" and "json_floats_ok F"
    and "S (canonical_json F (tx_data c t)) = S (canonical_json F (tx_data c' t')) \<longrightarrow>
      canonical_json F (tx_data c t) = canonical_json F (tx_data c' t')"
  shows "c = c' \<and> t_sender t = t_sender t' \<and> t_recipient t = t_recipient t' \<and> t_amount t = t_amount t'
    \<and> t_fee t = t_fee t' \<and> t_timestamp t = t_timestamp t' \<and> t_nonce t = t_nonce t'
    \<and> t_inputs t = t_inputs t' \<and> t_outputs t = t_outputs t'"
proof -
  have "sort_keys (tx_data c t) = sort_keys (tx_data c' t')"
    using assms by (intro canonical_json_unique [OF assms(2)]) (simp add: calculate_hash_def)
  then show ?thesis
    unfolding sort_tx_data by (auto dest!: opt_json_int_inj inputs_json_inj outputs_json_inj)
qed

lemma sample_float_text_slash: "CHR ''/'' \<in> set (sample_float_text (Fin q))"
  by (simp add: sample_float_text_def)

lemma sample_float_text_start:
  "sample_float_text x \<noteq> [] \<and> hd (sample_float_text x) \<in> set ''0123456789-IN''"
proof (cases x)
  case (Fin q)
  let ?d = "dec_text (fst (quotient_of q))"
  have "hd ?d \<in> set ''0123456789-''" by (rule dec_text_chars [OF hd_in_set [OF dec_text_nonempty]])
  moreover have "hd (sample_float_text x) = hd ?d" by (simp add: Fin sample_float_text_def dec_text_nonempty)
  ultimately show ?thesis using Fin by (auto simp: sample_float_text_def)
qed (simp_all add: sample_float_text_def)

lemma sample_float_text_plain: "c \<in> set (sample_float_text x) \<Longrightarrow> \<not> ends_value c"
proof (cases x)
  case (Fin q)
  assume "c \<in> set (sample_float_text x)"
  then have "c = CHR ''/'' \<or> c \<in> set (dec_text (fst (quotient_of q))) \<or> c \<in> set (dec_text (snd (quotient_of q)))"
    by (simp add: Fin sample_float_text_def)
  moreover have "\<not> ends_value (CHR ''/'')" by (simp add: ends_value_def)
  ultimately show ?thesis using dec_text_plain_token by metis
qed (auto simp: sample_float_text_def ends_value_def)

lemma sample_floats_ok: "json_floats_ok sample_float_text"
proof -
  have slash: "CHR ''/'' \<notin> set (dec_text n)" "CHR ''N'' \<notin> set (dec_text n)" "CHR ''y'' \<notin> set (dec_text n)" for n
    using dec_text_chars [of _ n] by fastforce+
  have "x = y" if eq: "sample_float_text x = sample_float_text y" for x y
  proof (cases "x \<in> range Fin \<and> y \<in> range Fin")
    case True
    moreover have "inj_on sample_float_text (range Fin)" using sample_float_text_ok by (simp add: float_repr_ok_def)
    ultimately show ?thesis using eq by (meson inj_onD)
  next
    case False
    have "CHR ''/'' \<notin> set (sample_float_text z)" if "z \<notin> range Fin" for z
      using that by (cases z) (simp_all add: sample_float_text_def)
    then have "CHR ''/'' \<notin> set (sample_float_text x)" using False eq by metis
    then have "x \<notin> range Fin" "y \<notin> range Fin" using sample_float_text_slash eq by (metis rangeE)+
    then show ?thesis using eq by (cases x; cases y) (simp_all add: sample_float_text_def)
  qed
  then have "inj sample_float_text" by (rule injI)
  moreover have "sample_float_text x \<noteq> dec_text n" for x n
  proof (cases x)
    case (Fin q)
    then show ?thesis using sample_float_text_slash [of q] slash(1) [of n] by metis
  next
    case NaN
    then have "CHR ''N'' \<in> set (sample_float_text x)" by (simp add: sample_float_text_def)
    then show ?thesis using slash(2) [of n] by metis
  next
    case PosInf
    then have "CHR ''y'' \<in> set (sample_float_text x)" by (simp add: sample_float_text_def)
    then show ?thesis using slash(3) [of n] by metis
  next
    case NegInf
    then have "CHR ''y'' \<in> set (sample_float_text x)" by (simp add: sample_float_text_def)
    then show ?thesis using slash(3) [of n] by metis
  qed
  ultimately show ?thesis
    using sample_float_text_start sample_float_text_plain unfolding json_floats_ok_def by blast
qed

definition sample_tx :: transaction where
  "sample_tx = \<lparr>t_sender = ''alice'', t_recipient = ''bob'', t_amount = Fin 3, t_fee = Fin 1, t_public_key = Some ''aa'',
     t_type = ''normal'', t_nonce = Some 7, t_inputs = [(''t1'', 0)], t_outputs = [(''bob'', Fin 3)], t_metadata = [],
     t_timestamp = Fin 5, t_signature = Some ''ss'', t_txid = None, t_rbf_enabled = False, t_replaces = None,
     t_sponsor = None, t_sponsor_signature = None, t_cached_size = None\<rparr>"

theorem txid_commits_witness:
  "t_outputs (sample_tx\<lparr>t_type := ''contract_call''\<rparr>) = t_outputs sample_tx"
  using txid_commits [of "\<lambda>s. s" sample_float_text "''main''" "sample_tx\<lparr>t_type := ''contract_call''\<rparr>" "''main''" sample_tx,
      OF _ sample_floats_ok]
  by (simp add: calculate_hash_def tx_data_def)

text \<open>
  The id and the signature leave the rest open: whoever relays a signed transaction can change its
  type, its metadata (the call data of a contract), its replacement target and its sponsor.
\<close>

lemma signature_ignores_payload:
  assumes "t' = t\<lparr>t_type := ty, t_metadata := m, t_rbf_enabled := r, t_replaces := rep, t_sponsor := sp\<rparr>"
  shows "calculate_hash S F c t' = calculate_hash S F c t \<and>
    tx_verify_signature cr mainnet (calculate_hash S F c) t' = tx_verify_signature cr mainnet (calculate_hash S F c) t"
proof -
  have "calculate_hash S F c t' = calculate_hash S F c t"
    by (simp add: assms calculate_hash_def tx_data_def)
  moreover have "t_sender t' = t_sender t" "t_signature t' = t_signature t" "t_public_key t' = t_public_key t"
    by (simp_all add: assms)
  ultimately show ?thesis by (simp only: tx_verify_signature_def simp_thms)
qed

text \<open>
  C29: Signing and verifying fit together: a transaction whose sender is the address of the signing key
  is signed without an exception and then verifies, under its id, when the library's signatures
  verify under the key derived from the signing key.
\<close>

theorem signed_verifies:
  assumes "derive_public_key_hex c key = Inr (k # ks)" and "t_public_key t = None \<or> t_public_key t = Some (k # ks)"
    and "sign_message_hex c key (calculate_hash S F ctx t) = Inr (s # ss)"
    and "verify_signature_hex c (k # ks) (calculate_hash S F ctx t) (s # ss)"
    and "key_address c mainnet (k # ks) = Inr (t_sender t)"
  shows "\<exists>t'. sign_transaction c (calculate_hash S F ctx) key t = (Inr (), t') \<and>
    tx_verify_signature c mainnet (calculate_hash S F ctx) t' = Inr True \<and> t_txid t' = Some (calculate_hash S F ctx t')"
proof -
  have hash: "calculate_hash S F ctx (t\<lparr>t_public_key := pk\<rparr>) = calculate_hash S F ctx t"
      "calculate_hash S F ctx (t\<lparr>t_public_key := pk, t_signature := sg, t_txid := i\<rparr>) = calculate_hash S F ctx t"
      "calculate_hash S F ctx (t\<lparr>t_signature := sg, t_txid := i\<rparr>) = calculate_hash S F ctx t"
      "calculate_hash S F ctx (t\<lparr>t_txid := i\<rparr>) = calculate_hash S F ctx t" for pk sg i
    by (simp_all add: calculate_hash_def tx_data_def)
  show ?thesis
    using assms hash by (auto simp: sign_transaction_def tx_verify_signature_def)
qed

definition sample_crypto :: crypto where
  "sample_crypto = \<lparr>derive_public_key_hex = (\<lambda>k. Inr ''aa''), sign_message_hex = (\<lambda>k m. Inr (CHR ''s'' # m)),
     verify_signature_hex = (\<lambda>k m s. s = CHR ''s'' # m), sha256_hex = (\<lambda>b. zeros64), to_checksum_address = Inr\<rparr>"

theorem signed_verifies_witness:
  "\<exists>t'. sign_transaction sample_crypto (calculate_hash (\<lambda>s. s) sample_float_text ''main'') ''key''
       (sample_tx\<lparr>t_sender := ''TXAI'' @ take 40 zeros64\<rparr>) = (Inr (), t') \<and>
     tx_verify_signature sample_crypto False (calculate_hash (\<lambda>s. s) sample_float_text ''main'') t' = Inr True \<and>
     t_txid t' = Some (calculate_hash (\<lambda>s. s) sample_float_text ''main'' t')"
proof (rule signed_verifies)
  show "derive_public_key_hex sample_crypto ''key'' = Inr (CHR ''a'' # ''a'')" by (simp add: sample_crypto_def)
  have "fromhex ''aa'' = Inr [0xaa]" by code_simp
  then show "key_address sample_crypto False (CHR ''a'' # ''a'') = Inr (t_sender (sample_tx\<lparr>t_sender := ''TXAI'' @ take 40 zeros64\<rparr>))"
    by (simp add: key_address_def sample_crypto_def)
qed (simp_all add: sample_crypto_def sample_tx_def)

text \<open>A size taken before signing is kept after it: the fee rate is then that of the shorter text.\<close>

lemma size_stays_cached:
  "tx_size F ((snd (get_size F t))\<lparr>t_signature := s, t_txid := i, t_inputs := ins, t_outputs := outs\<rparr>) = tx_size F t"
  by (simp add: get_size_def tx_size_def)

end
