(* ===== verification/TxOrder.thy ===== *)
theory TxOrder
  imports Transactions "HOL-Library.Product_Lexorder" "HOL-Library.Multiset"
begin

text \<open>
  The order in which pending transactions enter a block (\<open>_prioritize_transactions\<close> and
  \<open>_topological_sort_transactions\<close> of \<open>blockchain_components/mempool_mixin.py\<close>): by fee rate, cut to
  the size of the block, then sorted so that a transaction follows those it depends on. The
  dependencies are a list of edges; \<open>in_degree\<close> and \<open>children\<close> are dicts filled from them.
\<close>

section \<open>Floats as sort keys\<close>

text \<open>Floats that are numbers are ordered as the code compares them; \<open>NaN\<close> is put last.\<close>

instantiation pyfloat :: linorder
begin

definition less_eq_pyfloat :: "pyfloat \<Rightarrow> pyfloat \<Rightarrow> bool" where
  "less_eq_pyfloat x y \<longleftrightarrow> y = NaN \<or> float_le x y"

definition less_pyfloat :: "pyfloat \<Rightarrow> pyfloat \<Rightarrow> bool" where
  "less_pyfloat x y \<longleftrightarrow> x \<noteq> NaN \<and> (y = NaN \<or> float_less x y)"

instance
proof
  fix x y z :: pyfloat
  show "(x < y) = (x \<le> y \<and> \<not> y \<le> x)"
    by (cases x; cases y) (auto simp: less_pyfloat_def less_eq_pyfloat_def float_le_def float_eq_def)
  show "x \<le> x" by (cases x) (auto simp: less_eq_pyfloat_def float_le_def float_eq_def)
  show "x \<le> y \<Longrightarrow> y \<le> z \<Longrightarrow> x \<le> z"
    by (cases x; cases y; cases z) (auto simp: less_eq_pyfloat_def float_le_def float_eq_def)
  show "x \<le> y \<Longrightarrow> y \<le> x \<Longrightarrow> x = y"
    by (cases x; cases y) (auto simp: less_eq_pyfloat_def float_le_def float_eq_def)
  show "x \<le> y \<or> y \<le> x"
    by (cases x; cases y) (auto simp: less_eq_pyfloat_def float_le_def float_eq_def)
qed

end

lemma less_float_iff: "x \<noteq> NaN \<Longrightarrow> y \<noteq> NaN \<Longrightarrow> (x < y) = float_less x y"
  by (simp add: less_pyfloat_def)

section \<open>Grouping and sorting\<close>

text \<open>A stable sort in descending order.\<close>

definition sort_desc :: "('a \<Rightarrow> 'k::linorder) \<Rightarrow> 'a list \<Rightarrow> 'a list" where
  "sort_desc f xs = rev (sort_key f (rev xs))"

text \<open>A \<open>defaultdict(list)\<close> filled in the order of the list.\<close>

definition append_to :: "'k \<Rightarrow> 'v \<Rightarrow> ('k \<times> 'v list) list \<Rightarrow> ('k \<times> 'v list) list" where
  "append_to k v d = AList.update k (dict_get d k [] @ [v]) d"

definition group_by :: "('a \<Rightarrow> 'k) \<Rightarrow> ('a \<Rightarrow> 'v) \<Rightarrow> 'a list \<Rightarrow> ('k \<times> 'v list) list" where
  "group_by f g xs = fold (\<lambda>x. append_to (f x) (g x)) xs []"

definition nonce_or_zero :: "transaction \<Rightarrow> int" where
  "nonce_or_zero t = (case t_nonce t of Some n \<Rightarrow> n | None \<Rightarrow> 0)"

section \<open>Dependencies\<close>

text \<open>The key of a transaction is its id, which may be missing.\<close>

type_synonym txkey = "string option"

definition utxo_edges :: "transaction list \<Rightarrow> (txkey \<times> txkey) list" where
  "utxo_edges ts = concat (map (\<lambda>t.
     map (\<lambda>k. (Some (fst k), t_txid t)) (filter (\<lambda>k. fst k \<noteq> [] \<and> Some (fst k) \<in> t_txid ` set ts) (t_inputs t))) ts)"

text \<open>
  Each transaction of a sender depends on the one before it in nonce order, unless that one was
  found to depend on it (\<open>prev_txid not in children[curr_txid]\<close>).
\<close>

fun chain_edges :: "txkey list \<Rightarrow> (txkey \<times> txkey) list \<Rightarrow> (txkey \<times> txkey) list" where
  "chain_edges (p # c # ks) es =
     chain_edges (c # ks) (if (c, p) \<in> set es then es else es @ [(p, c)])"
| "chain_edges ks es = es"

definition nonce_groups :: "transaction list \<Rightarrow> (string \<times> (int \<times> txkey) list) list" where
  "nonce_groups ts = group_by t_sender (\<lambda>t. (nonce_or_zero t, t_txid t))
     (filter (\<lambda>t. t_sender t \<noteq> [] \<and> t_sender t \<noteq> ''COINBASE'') ts)"

definition all_edges :: "transaction list \<Rightarrow> (txkey \<times> txkey) list" where
  "all_edges ts = fold (\<lambda>g. chain_edges (map snd (sort_key fst (snd g)))) (nonce_groups ts) (utxo_edges ts)"

text \<open>The two dicts: how many edges lead to a transaction, and where its own edges lead.\<close>

definition in_degrees :: "transaction list \<Rightarrow> (txkey \<times> txkey) list \<Rightarrow> (txkey \<times> int) list" where
  "in_degrees ts es = fold (\<lambda>e d. AList.update (snd e) (dict_get d (snd e) 0 + 1) d) es
     (fold (\<lambda>t. AList.update (t_txid t) 0) ts [])"

definition children_of :: "(txkey \<times> txkey) list \<Rightarrow> txkey \<Rightarrow> txkey list" where
  "children_of es k = map snd (filter (\<lambda>e. fst e = k) es)"

section \<open>Kahn's algorithm\<close>

text \<open>
  \<open>ready\<close> is the heap of positions and keys without open dependencies; the smallest position leaves
  it first.
\<close>

definition release_child :: "(txkey \<Rightarrow> nat) \<Rightarrow> txkey \<Rightarrow> (nat \<times> txkey) list \<times> (txkey \<times> int) list
    \<Rightarrow> (nat \<times> txkey) list \<times> (txkey \<times> int) list" where
  "release_child pos c s =
     (let d = dict_get (snd s) c 0 - 1 in
      (if d = 0 then (pos c, c) # fst s else fst s, AList.update c d (snd s)))"

definition release :: "(txkey \<Rightarrow> nat) \<Rightarrow> txkey list \<Rightarrow> (nat \<times> txkey) list \<times> (txkey \<times> int) list
    \<Rightarrow> (nat \<times> txkey) list \<times> (txkey \<times> int) list" where
  "release pos cs s = fold (release_child pos) cs s"

definition heap_min :: "(nat \<times> txkey) list \<Rightarrow> nat \<times> txkey" where
  "heap_min ready = hd (sort_key fst ready)"

definition open_degrees :: "(txkey \<times> int) list \<Rightarrow> nat" where
  "open_degrees deg = sum_list (map (\<lambda>p. nat (snd p)) deg)"

lemma open_degrees_update:
  "open_degrees (AList.update k v d) + nat (dict_get d k 0) = open_degrees d + nat v"
  by (induction d) (auto simp: open_degrees_def dict_get_def)

lemma release_child_measure:
  "length (fst (release_child pos c s)) + open_degrees (snd (release_child pos c s)) \<le> length (fst s) + open_degrees (snd s)"
  using open_degrees_update [of c "dict_get (snd s) c 0 - 1" "snd s"] by (auto simp: release_child_def Let_def)

lemma release_measure:
  "length (fst (release pos cs s)) + open_degrees (snd (release pos cs s)) \<le> length (fst s) + open_degrees (snd s)"
proof (induction cs arbitrary: s)
  case (Cons c cs)
  show ?case using Cons [of "release_child pos c s"] release_child_measure [of pos c s] by (simp add: release_def)
qed (simp add: release_def)

lemma heap_min_in: "ready \<noteq> [] \<Longrightarrow> heap_min ready \<in> set ready"
  unfolding heap_min_def by (metis hd_in_set set_empty set_sort)

function kahn :: "(txkey \<Rightarrow> nat) \<Rightarrow> (txkey \<times> txkey) list \<Rightarrow> (nat \<times> txkey) list \<Rightarrow> (txkey \<times> int) list \<Rightarrow> txkey list \<Rightarrow> txkey list" where
  "kahn pos es ready deg out =
     (if ready = [] then out
      else let m = heap_min ready;
               s = release pos (children_of es (snd m)) (remove1 m ready, deg)
           in kahn pos es (fst s) (snd s) (out @ [snd m]))"
  by pat_completeness auto
termination
proof (relation "measure (\<lambda>(pos, es, ready, deg, out). length ready + open_degrees deg)", goal_cases)
  case (2 pos es ready deg out m s)
  have "length (remove1 m ready) < length ready"
    using heap_min_in [OF 2(1)] 2(2) length_pos_if_in_set [OF heap_min_in [OF 2(1)]] by (simp add: length_remove1)
  with release_measure [of pos "children_of es (snd m)" "(remove1 m ready, deg)"] 2(3) show ?case by simp
qed simp

declare kahn.simps [simp del]

definition positions :: "transaction list \<Rightarrow> (txkey \<times> nat) list" where
  "positions ts = fold (\<lambda>p. AList.update (t_txid (snd p)) (fst p)) (enumerate 0 ts) []"

definition tx_by_key :: "transaction list \<Rightarrow> (txkey \<times> transaction) list" where
  "tx_by_key ts = fold (\<lambda>t. AList.update (t_txid t) t) ts []"

definition topological_sort :: "transaction list \<Rightarrow> transaction list" where
  "topological_sort ts =
     (if length ts \<le> 1 then ts
      else let es = all_edges ts; deg = in_degrees ts es; pos = (\<lambda>k. dict_get (positions ts) k 0);
               ready = map (\<lambda>p. (pos (fst p), fst p)) (filter (\<lambda>p. snd p = 0) deg);
               ks = kahn pos es ready deg []
           in if length ks \<noteq> length ts then ts else map (\<lambda>k. the (map_of (tx_by_key ts) k)) ks)"

definition prioritize_transactions :: "(pyfloat \<Rightarrow> string) \<Rightarrow> int option \<Rightarrow> transaction list \<Rightarrow> transaction list" where
  "prioritize_transactions F max_count ts =
     (let groups = group_by t_sender (\<lambda>t. t) ts;
          flat = concat (map (\<lambda>g. sort_key (\<lambda>t. (nonce_or_zero t, t_timestamp t)) (snd g)) groups);
          best = sort_desc (fee_rate F) flat;
          cut = (case max_count of None \<Rightarrow> best
                 | Some n \<Rightarrow> if 0 \<le> n then take (nat n) best else take (nat (int (length best) + n)) best)
      in topological_sort cut)"

section \<open>Kahn's algorithm respects every edge\<close>

definition open_edges :: "(txkey \<times> txkey) list \<Rightarrow> txkey set \<Rightarrow> txkey \<Rightarrow> nat" where
  "open_edges es S c = length (filter (\<lambda>e. snd e = c \<and> fst e \<notin> S) es)"

definition ordered :: "(txkey \<times> txkey) list \<Rightarrow> txkey list \<Rightarrow> bool" where
  "ordered es ks \<longleftrightarrow> (\<forall>i < length ks. \<forall>p. (p, ks ! i) \<in> set es \<longrightarrow> p \<in> set (take i ks))"

definition kahn_inv :: "(txkey \<Rightarrow> nat) \<Rightarrow> (txkey \<times> txkey) list \<Rightarrow> txkey set \<Rightarrow> (nat \<times> txkey) list \<Rightarrow> (txkey \<times> int) list \<Rightarrow> txkey list \<Rightarrow> bool" where
  "kahn_inv pos es N ready deg out \<longleftrightarrow>
     distinct (out @ map snd ready) \<and> set out \<union> snd ` set ready \<subseteq> N \<and> (\<forall>p \<in> set ready. fst p = pos (snd p)) \<and>
     (\<forall>c \<in> N. dict_get deg c 0 = int (open_edges es (set out) c)) \<and>
     (\<forall>c \<in> N. open_edges es (set out) c = 0 \<longleftrightarrow> c \<in> set out \<union> snd ` set ready)"

lemma open_edges_insert:
  "k \<notin> S \<Longrightarrow> open_edges es S c = open_edges es (insert k S) c + count_list (children_of es k) c"
  by (induction es) (auto simp: open_edges_def children_of_def)

lemma open_edges_zero: "open_edges es S c = 0 \<longleftrightarrow> (\<forall>p. (p, c) \<in> set es \<longrightarrow> p \<in> S)"
  by (auto simp: open_edges_def filter_empty_conv)

lemma ordered_snoc: "ordered es (ks @ [k]) \<longleftrightarrow> ordered es ks \<and> (\<forall>p. (p, k) \<in> set es \<longrightarrow> p \<in> set ks)"
  by (auto simp: ordered_def nth_append less_Suc_eq)

lemma dict_get_AList_update: "dict_get (AList.update k v d) x e = (if x = k then v else dict_get d x e)"
  by (simp add: dict_get_update)

lemma release_Cons:
  "release pos (a # cs) (r, d) = release pos cs
     (if dict_get d a 0 - 1 = 0 then (pos a, a) # r else r, AList.update a (dict_get d a 0 - 1) d)"
  by (simp add: release_def release_child_def Let_def)

lemma release_Nil [simp]: "release pos [] s = s"
  by (simp add: release_def)

lemma release_get: "dict_get (snd (release pos cs (r, d))) c 0 = dict_get d c 0 - int (count_list cs c)"
  by (induction cs arbitrary: r d) (simp_all add: release_Cons dict_get_AList_update)

lemma release_set:
  assumes "\<forall>c \<in> set cs. int (count_list cs c) \<le> dict_get d c 0"
  shows "set (fst (release pos cs (r, d))) = set r \<union> (\<lambda>c. (pos c, c)) ` {c \<in> set cs. dict_get d c 0 = int (count_list cs c)}"
  using assms
proof (induction cs arbitrary: r d)
  case (Cons a cs)
  let ?n = "dict_get d a 0 - 1"
  let ?d = "AList.update a ?n d"
  have a: "int (count_list cs a) \<le> ?n" using Cons.prems by simp
  have counts: "\<forall>c \<in> set cs. int (count_list cs c) \<le> dict_get ?d c 0"
  proof
    fix c
    assume "c \<in> set cs"
    with Cons.prems a show "int (count_list cs c) \<le> dict_get ?d c 0" by (cases "c = a") (auto simp: dict_get_AList_update)
  qed
  let ?A = "{c \<in> set (a # cs). dict_get d c 0 = int (count_list (a # cs) c)}"
  let ?B = "{c \<in> set cs. dict_get ?d c 0 = int (count_list cs c)}"
  have "c \<in> ?A \<longleftrightarrow> c \<in> ?B \<or> ?n = 0 \<and> c = a" for c
  proof (cases "c = a")
    case True
    have "a \<in> set cs \<or> count_list cs a = 0" using count_notin by metis
    moreover have "count_list cs a = 0" if "?n = 0" using a that by simp
    ultimately show ?thesis using True a by (auto simp: dict_get_AList_update)
  qed (auto simp: dict_get_AList_update)
  then have "?A = ?B \<union> (if ?n = 0 then {a} else {})" by auto
  moreover have "set (fst (release pos (a # cs) (r, d))) = set (if ?n = 0 then (pos a, a) # r else r) \<union> (\<lambda>c. (pos c, c)) ` ?B"
    unfolding release_Cons by (rule Cons.IH [OF counts])
  ultimately show ?case by (simp only: image_Un split: if_splits) auto
qed simp

lemma release_distinct:
  assumes "\<forall>c \<in> set cs. int (count_list cs c) \<le> dict_get d c 0" and "distinct (map snd r)" and "\<forall>c \<in> set cs. c \<notin> snd ` set r"
  shows "distinct (map snd (fst (release pos cs (r, d))))"
  using assms
proof (induction cs arbitrary: r d)
  case (Cons a cs)
  let ?n = "dict_get d a 0 - 1"
  let ?d = "AList.update a ?n d"
  have a: "int (count_list cs a) \<le> ?n" using Cons.prems(1) by simp
  have fresh: "a \<notin> set cs" if "?n = 0"
    using a that by (metis count_list_0_iff le_zero_eq of_nat_0_eq_iff of_nat_le_0_iff)
  have "\<forall>c \<in> set cs. int (count_list cs c) \<le> dict_get ?d c 0"
  proof
    fix c
    assume "c \<in> set cs"
    with Cons.prems(1) a show "int (count_list cs c) \<le> dict_get ?d c 0" by (cases "c = a") (auto simp: dict_get_AList_update)
  qed
  then show ?case
    unfolding release_Cons
  proof (rule Cons.IH)
    show "distinct (map snd (if ?n = 0 then (pos a, a) # r else r))" using Cons.prems(2,3) by simp
    show "\<forall>c \<in> set cs. c \<notin> snd ` set (if ?n = 0 then (pos a, a) # r else r)" using Cons.prems(3) fresh by auto
  qed
qed simp

lemma heap_min_le: "ready \<noteq> [] \<Longrightarrow> p \<in> set ready \<Longrightarrow> fst (heap_min ready) \<le> fst p"
proof -
  assume ready: "ready \<noteq> []" and p: "p \<in> set ready"
  have "sorted (map fst (sort_key fst ready))" by simp
  moreover obtain x xs where x: "sort_key fst ready = x # xs"
    using ready by (metis list.exhaust set_empty set_sort)
  moreover have "p \<in> set (x # xs)" using p x by (metis set_sort)
  ultimately show ?thesis by (auto simp: heap_min_def)
qed

lemma kahn_step:
  assumes inv: "kahn_inv pos es N ready deg out" and ready: "ready \<noteq> []" and es: "set es \<subseteq> N \<times> N"
    and m: "m = heap_min ready" and s: "s = release pos (children_of es (snd m)) (remove1 m ready, deg)"
  shows "kahn_inv pos es N (fst s) (snd s) (out @ [snd m]) \<and> snd m \<in> N - set out \<and> (\<forall>p. (p, snd m) \<in> set es \<longrightarrow> p \<in> set out)"
proof -
  let ?k = "snd m" and ?cs = "children_of es (snd m)"
  have mem: "m \<in> set ready" using heap_min_in [OF ready] m by simp
  have dist: "distinct (out @ map snd ready)" and sub: "set out \<union> snd ` set ready \<subseteq> N"
    and poss: "\<forall>p \<in> set ready. fst p = pos (snd p)"
    and deg: "\<And>c. c \<in> N \<Longrightarrow> dict_get deg c 0 = int (open_edges es (set out) c)"
    and zero: "\<And>c. c \<in> N \<Longrightarrow> open_edges es (set out) c = 0 \<longleftrightarrow> c \<in> set out \<union> snd ` set ready"
    using inv by (simp_all add: kahn_inv_def)
  have k: "?k \<in> N" "?k \<notin> set out" using mem sub dist by auto
  have cs: "c \<in> N" if "c \<in> set ?cs" for c using that es by (auto simp: children_of_def)
  have split: "open_edges es (set out) c = open_edges es (set (out @ [?k])) c + count_list ?cs c" for c
    using open_edges_insert [OF k(2), of es c] by simp
  have rest: "set (remove1 m ready) = set ready - {m}" "distinct (map snd (remove1 m ready))"
    and rest_keys: "snd ` set (remove1 m ready) = snd ` set ready - {?k}"
  proof -
    have d: "distinct ready" "inj_on snd (set ready)" using dist by (simp_all add: distinct_map)
    then show "set (remove1 m ready) = set ready - {m}" by (simp add: set_remove1_eq)
    moreover have "snd ` (set ready - {m}) = snd ` set ready - snd ` {m}"
      by (rule inj_on_image_set_diff [OF d(2)]) (use mem in auto)
    ultimately show "snd ` set (remove1 m ready) = snd ` set ready - {?k}" by simp
    show "distinct (map snd (remove1 m ready))"
      using d by (simp add: distinct_map inj_on_def set_remove1_eq)
  qed
  have open_child: "open_edges es (set out) c \<noteq> 0" if "c \<in> set ?cs" for c
    using split [of c] that by (simp add: count_list_0_iff)
  have pre: "\<forall>c \<in> set ?cs. int (count_list ?cs c) \<le> dict_get deg c 0"
  proof
    fix c
    assume "c \<in> set ?cs"
    with deg [OF cs] split [of c] show "int (count_list ?cs c) \<le> dict_get deg c 0" by simp
  qed
  have unready: "\<forall>c \<in> set ?cs. c \<notin> snd ` set (remove1 m ready)"
  proof
    fix c
    assume c: "c \<in> set ?cs"
    with open_child zero [OF cs] show "c \<notin> snd ` set (remove1 m ready)" unfolding rest_keys by blast
  qed
  have deg': "dict_get (snd s) c 0 = int (open_edges es (set (out @ [?k])) c)" if "c \<in> N" for c
    using deg [OF that] split [of c] by (simp add: s release_get)
  have set_s: "set (fst s) = set (remove1 m ready) \<union> (\<lambda>c. (pos c, c)) ` {c \<in> set ?cs. dict_get deg c 0 = int (count_list ?cs c)}"
    unfolding s by (rule release_set [OF pre])
  have "{c \<in> set ?cs. dict_get deg c 0 = int (count_list ?cs c)} = {c \<in> set ?cs. open_edges es (set (out @ [?k])) c = 0}"
  proof (rule Collect_cong, rule conj_cong [OF refl])
    fix c
    assume "c \<in> set ?cs"
    with deg [OF cs] split [of c] show "(dict_get deg c 0 = int (count_list ?cs c)) = (open_edges es (set (out @ [?k])) c = 0)" by simp
  qed
  then have new: "snd ` set (fst s) = snd ` set ready - {?k} \<union> {c \<in> set ?cs. open_edges es (set (out @ [?k])) c = 0}"
    unfolding set_s image_Un rest_keys by (simp add: image_image)
  have kparents: "open_edges es (set out) ?k = 0" using zero [OF k(1)] mem by auto
  have kself: "?k \<notin> set ?cs" using open_child kparents by blast
  have kr: "?k \<in> snd ` set ready" using mem by blast
  have zero': "open_edges es (set (out @ [?k])) c = 0 \<longleftrightarrow> c \<in> set (out @ [?k]) \<union> snd ` set (fst s)" if "c \<in> N" for c
  proof (cases "c \<in> set ?cs")
    case True
    then have "c \<notin> set out \<union> snd ` set ready" "c \<noteq> ?k" using open_child [OF True] zero [OF that] kself by metis+
    with True show ?thesis unfolding new by simp
  next
    case False
    then have "open_edges es (set (out @ [?k])) c = open_edges es (set out) c" using split [of c] by (simp add: count_list_0_iff)
    moreover have "c \<in> set (out @ [?k]) \<union> snd ` set (fst s) \<longleftrightarrow> c \<in> set out \<union> snd ` set ready"
      unfolding new using False kr by (cases "c = ?k") simp_all
    ultimately show ?thesis using zero [OF that] by simp
  qed
  have "c \<notin> set (out @ [?k])" if "c \<in> snd ` set (fst s)" for c
  proof -
    from that consider "c \<in> snd ` set ready" "c \<noteq> ?k" | "c \<in> set ?cs" unfolding new by blast
    then show ?thesis
    proof cases
      case 1
      then show ?thesis using dist by auto
    next
      case 2
      then have "c \<notin> set out \<union> snd ` set ready" "c \<noteq> ?k" using open_child [OF 2] zero [OF cs [OF 2]] kself by metis+
      then show ?thesis by simp
    qed
  qed
  then have "set (out @ [?k]) \<inter> snd ` set (fst s) = {}" by blast
  moreover have "distinct (map snd (fst s))" unfolding s by (rule release_distinct [OF pre rest(2) unready])
  moreover have "distinct (out @ [?k])" using dist k by simp
  ultimately have "distinct ((out @ [?k]) @ map snd (fst s))" by simp
  moreover have "set (out @ [?k]) \<union> snd ` set (fst s) \<subseteq> N" using sub k(1) cs unfolding new by auto
  moreover have "\<forall>p \<in> set (fst s). fst p = pos (snd p)" using poss rest(1) unfolding set_s by auto
  ultimately have "kahn_inv pos es N (fst s) (snd s) (out @ [?k])"
    unfolding kahn_inv_def by (intro conjI ballI deg' zero') simp_all
  with k kparents show ?thesis by (simp add: open_edges_zero)
qed

lemma kahn_result:
  assumes "kahn_inv pos es N ready deg out" and "set es \<subseteq> N \<times> N" and "ordered es out"
  shows "distinct (kahn pos es ready deg out) \<and> set (kahn pos es ready deg out) \<subseteq> N \<and> ordered es (kahn pos es ready deg out) \<and>
    (\<forall>c \<in> N. (\<forall>p. (p, c) \<in> set es \<longrightarrow> p \<in> set (kahn pos es ready deg out)) \<longrightarrow> c \<in> set (kahn pos es ready deg out))"
  using assms
proof (induction pos es ready deg out rule: kahn.induct)
  case (1 pos es ready deg out)
  show ?case
  proof (cases "ready = []")
    case True
    then have "kahn pos es ready deg out = out" by (simp add: kahn.simps)
    with True 1(2,4) show ?thesis by (auto simp: kahn_inv_def open_edges_zero)
  next
    case False
    define m where "m = heap_min ready"
    define s where "s = release pos (children_of es (snd m)) (remove1 m ready, deg)"
    note step = kahn_step [OF 1(2) False 1(3) m_def s_def]
    have "kahn pos es ready deg out = kahn pos es (fst s) (snd s) (out @ [snd m])"
      using False by (subst kahn.simps) (simp add: m_def s_def Let_def)
    moreover have "ordered es (out @ [snd m])" using 1(4) step by (simp add: ordered_snoc)
    ultimately show ?thesis using 1(1) [OF False m_def s_def] step 1(3) by simp
  qed
qed

text \<open>When no transaction depends on itself, directly or through others, the result holds them all.\<close>

lemma acyclic_closed:
  assumes "finite N" and "acyclic (set es)" and "set es \<subseteq> N \<times> N" and "R \<subseteq> N"
    and closed: "\<And>c. c \<in> N \<Longrightarrow> (\<forall>p. (p, c) \<in> set es \<longrightarrow> p \<in> R) \<Longrightarrow> c \<in> R"
  shows "R = N"
proof (rule ccontr)
  assume "R \<noteq> N"
  then obtain x where x: "x \<in> N - R" using assms(4) by blast
  have "wf (set es)" by (rule finite_acyclic_wf) (simp_all add: assms(2))
  then obtain c where c: "c \<in> N - R" "\<And>p. (p, c) \<in> set es \<Longrightarrow> p \<notin> N - R"
    using x by (metis wfE_min)
  have "p \<in> R" if "(p, c) \<in> set es" for p using c(2) [OF that] that assms(3) by auto
  with closed [of c] c(1) show False by blast
qed

section \<open>The sort\<close>

lemma group_by_get: "dict_get (group_by f g xs) k [] = map g (filter (\<lambda>x. f x = k) xs)"
proof -
  have "dict_get (fold (\<lambda>x. append_to (f x) (g x)) xs d) k [] = dict_get d k [] @ map g (filter (\<lambda>x. f x = k) xs)" for d
    by (induction xs arbitrary: d) (simp_all add: append_to_def dict_get_update)
  from this [of "[]"] show ?thesis by (simp add: group_by_def)
qed

lemma wf_group_by: "wf_dict (group_by f g xs)"
proof -
  have "wf_dict d \<Longrightarrow> wf_dict (fold (\<lambda>x. append_to (f x) (g x)) xs d)" for d
    by (induction xs arbitrary: d) (simp_all add: append_to_def wf_dict_update)
  from this [of "[]"] show ?thesis by (simp add: group_by_def wf_dict_def)
qed

lemma wf_dict_entry: "wf_dict d \<Longrightarrow> (k, v) \<in> set d \<Longrightarrow> dict_get d k e = v"
  by (simp add: wf_dict_def dict_get_def)

lemma group_by_entry: "p \<in> set (group_by f g xs) \<Longrightarrow> snd p = map g (filter (\<lambda>x. f x = fst p) xs)"
  using wf_dict_entry [OF wf_group_by, of "fst p" "snd p" f g xs "[]"] by (simp add: group_by_get)

lemma group_by_mset: "mset (concat (map snd (group_by f (\<lambda>x. x) xs))) = mset xs"
proof -
  have "mset (concat (map snd (append_to k v d))) = mset (concat (map snd d)) + {#v#}" for k v and d :: "('b \<times> 'a list) list"
    by (induction d) (auto simp: append_to_def dict_get_def)
  then have "mset (concat (map snd (fold (\<lambda>x. append_to (f x) x) xs d))) = mset (concat (map snd d)) + mset xs" for d
    by (induction xs arbitrary: d) simp_all
  from this [of "[]"] show ?thesis by (simp add: group_by_def)
qed

lemma chain_edges_range: "set es \<subseteq> N \<times> N \<Longrightarrow> set ks \<subseteq> N \<Longrightarrow> set (chain_edges ks es) \<subseteq> N \<times> N"
  by (induction ks es rule: chain_edges.induct) auto

lemma chain_edges_grow: "set es \<subseteq> set (chain_edges ks es)"
proof (induction ks es rule: chain_edges.induct)
  case (1 p c ks es)
  then show ?case by (auto split: if_splits)
qed auto

lemma utxo_edges_iff:
  "(p, c) \<in> set (utxo_edges ts) \<longleftrightarrow> (\<exists>t \<in> set ts. c = t_txid t \<and> p \<in> t_txid ` set ts \<and> (\<exists>i v. p = Some i \<and> i \<noteq> [] \<and> (i, v) \<in> set (t_inputs t)))"
  by (auto simp: utxo_edges_def image_iff) (metis prod.collapse)+

lemma all_edges_range: "set (all_edges ts) \<subseteq> (t_txid ` set ts) \<times> (t_txid ` set ts)"
proof -
  have "set (map snd (sort_key fst (snd g))) \<subseteq> t_txid ` set ts" if "g \<in> set (nonce_groups ts)" for g
    using group_by_entry [OF that [unfolded nonce_groups_def]] by auto
  then have "set es \<subseteq> (t_txid ` set ts) \<times> (t_txid ` set ts) \<Longrightarrow> set gs \<subseteq> set (nonce_groups ts) \<Longrightarrow>
      set (fold (\<lambda>g. chain_edges (map snd (sort_key fst (snd g)))) gs es) \<subseteq> (t_txid ` set ts) \<times> (t_txid ` set ts)" for gs es
    by (induction gs arbitrary: es) (simp_all add: chain_edges_range)
  moreover have "set (utxo_edges ts) \<subseteq> (t_txid ` set ts) \<times> (t_txid ` set ts)"
    by (auto simp: utxo_edges_iff)
  ultimately show ?thesis by (simp add: all_edges_def)
qed

lemma utxo_edges_kept: "set (utxo_edges ts) \<subseteq> set (all_edges ts)"
proof -
  have "set es \<subseteq> set (fold (\<lambda>g. chain_edges (map snd (sort_key fst (snd g)))) gs es)" for gs es
    by (induction gs arbitrary: es) (use chain_edges_grow in fastforce)+
  then show ?thesis by (simp add: all_edges_def)
qed

lemma in_degrees_get: "dict_get (in_degrees ts es) c 0 = int (open_edges es {} c)"
proof -
  have zero: "(\<forall>k. dict_get d k 0 = 0) \<Longrightarrow> dict_get (fold (\<lambda>t. AList.update (t_txid t) (0::int)) ts d) k 0 = 0" for k d
    by (induction ts arbitrary: d) (simp_all add: dict_get_update)
  have "dict_get (fold (\<lambda>e d. AList.update (snd e) (dict_get d (snd e) 0 + 1) d) es d) c 0
      = dict_get d c 0 + int (open_edges es {} c)" for d :: "(txkey \<times> int) list"
    by (induction es arbitrary: d) (simp_all add: dict_get_update open_edges_def)
  then show ?thesis using zero [of "[]"] by (simp add: in_degrees_def dict_get_def)
qed

lemma wf_in_degrees: "wf_dict (in_degrees ts es)"
proof -
  have "wf_dict d \<Longrightarrow> wf_dict (fold (\<lambda>t. AList.update (t_txid t) (0::int)) ts d)" for d
    by (induction ts arbitrary: d) (simp_all add: wf_dict_update)
  moreover have "wf_dict d \<Longrightarrow> wf_dict (fold (\<lambda>e d. AList.update (snd e) (dict_get d (snd e) 0 + 1) d) es d)" for d :: "(txkey \<times> int) list"
    by (induction es arbitrary: d) (simp_all add: wf_dict_update)
  ultimately show ?thesis by (simp add: in_degrees_def wf_dict_def)
qed

lemma in_degrees_keys:
  assumes "snd ` set es \<subseteq> t_txid ` set ts"
  shows "fst ` set (in_degrees ts es) = t_txid ` set ts"
proof -
  have "fst ` set (fold (\<lambda>t. AList.update (t_txid t) (0::int)) ts d) = fst ` set d \<union> t_txid ` set ts" for d
    by (induction ts arbitrary: d) (auto simp: dom_update)
  moreover have "fst ` set (fold (\<lambda>e d. AList.update (snd e) (dict_get d (snd e) 0 + 1) d) es d) = fst ` set d \<union> snd ` set es"
    for d :: "(txkey \<times> int) list"
    by (induction es arbitrary: d) (auto simp: dom_update)
  ultimately show ?thesis using assms by (auto simp: in_degrees_def)
qed

definition first_ready :: "(txkey \<Rightarrow> nat) \<Rightarrow> (txkey \<times> int) list \<Rightarrow> (nat \<times> txkey) list" where
  "first_ready pos deg = map (\<lambda>p. (pos (fst p), fst p)) (filter (\<lambda>p. snd p = 0) deg)"

lemma kahn_start:
  assumes "snd ` set es \<subseteq> t_txid ` set ts"
  shows "kahn_inv pos es (t_txid ` set ts) (first_ready pos (in_degrees ts es)) (in_degrees ts es) []"
proof -
  let ?d = "in_degrees ts es"
  have keys: "snd ` set (first_ready pos ?d) = {c \<in> t_txid ` set ts. open_edges es {} c = 0}"
  proof -
    have val: "v = int (open_edges es {} c)" if "(c, v) \<in> set ?d" for c v
      using wf_dict_entry [OF wf_in_degrees that, of 0] in_degrees_get [of ts es c] by simp
    have "snd ` set (first_ready pos ?d) = fst ` {p \<in> set ?d. snd p = 0}"
      unfolding first_ready_def by (simp add: image_image)
    also have "\<dots> = {c \<in> fst ` set ?d. open_edges es {} c = 0}"
      using val by force
    finally show ?thesis by (simp only: in_degrees_keys [OF assms])
  qed
  have "distinct (map snd (first_ready pos ?d))"
    using wf_in_degrees [of ts es] by (simp add: first_ready_def wf_dict_def comp_def distinct_map_filter)
  moreover have "\<forall>p \<in> set (first_ready pos ?d). fst p = pos (snd p)" by (auto simp: first_ready_def)
  ultimately show ?thesis
    unfolding kahn_inv_def keys by (simp add: in_degrees_get)
qed

lemma tx_by_key_get:
  assumes "distinct (map t_txid ts)" and "t \<in> set ts"
  shows "map_of (tx_by_key ts) (t_txid t) = Some t"
proof -
  have keep: "k \<notin> t_txid ` set xs \<Longrightarrow> map_of (fold (\<lambda>t. AList.update (t_txid t) t) xs d) k = map_of d k" for k xs d
    by (induction xs arbitrary: d) (simp_all add: update_conv')
  have "distinct (map t_txid xs) \<Longrightarrow> t \<in> set xs \<Longrightarrow> map_of (fold (\<lambda>t. AList.update (t_txid t) t) xs d) (t_txid t) = Some t" for xs d
  proof (induction xs arbitrary: d)
    case (Cons x xs)
    then show ?case by (cases "t = x") (auto simp: keep update_conv')
  qed simp
  from this [OF assms] show ?thesis by (simp add: tx_by_key_def)
qed

lemma sorted_keys:
  assumes "distinct (map t_txid ts)" and "distinct ks" "set ks \<subseteq> t_txid ` set ts" "length ks = length ts"
  shows "mset (map (\<lambda>k. the (map_of (tx_by_key ts) k)) ks) = mset ts \<and>
    map t_txid (map (\<lambda>k. the (map_of (tx_by_key ts) k)) ks) = ks"
proof -
  let ?f = "\<lambda>k. the (map_of (tx_by_key ts) k)"
  have inv: "?f (t_txid t) = t" if "t \<in> set ts" for t using tx_by_key_get [OF assms(1) that] by simp
  have "card (set ks) = card (set (map t_txid ts))"
    unfolding distinct_card [OF assms(1)] distinct_card [OF assms(2)] using assms(4) by simp
  moreover have "set ks \<subseteq> set (map t_txid ts)" using assms(3) by simp
  ultimately have "set ks = set (map t_txid ts)" by (metis card_subset_eq List.finite_set)
  then have "mset ks = mset (map t_txid ts)" by (metis assms(1,2) set_eq_iff_mset_eq_distinct)
  then have "mset (map ?f ks) = mset (map ?f (map t_txid ts))" by (metis mset_map)
  also have "map ?f (map t_txid ts) = ts" unfolding map_map by (rule map_idI) (simp add: inv)
  finally have m: "mset (map ?f ks) = mset ts" .
  have "t_txid (?f k) = k" if k: "k \<in> set ks" for k
  proof -
    obtain t where "t \<in> set ts" "k = t_txid t" using k assms(3) by blast
    with inv show ?thesis by simp
  qed
  then have "map t_txid (map ?f ks) = ks" unfolding map_map by (intro map_idI) simp
  with m show ?thesis by simp
qed

lemma topological_sort_ordered:
  assumes "distinct (map t_txid ts)"
  shows "mset (topological_sort ts) = mset ts \<and>
    (acyclic (set (all_edges ts)) \<longrightarrow> ordered (all_edges ts) (map t_txid (topological_sort ts)))"
proof -
  let ?es = "all_edges ts" and ?out = "topological_sort ts" and ?N = "t_txid ` set ts"
  have range: "set ?es \<subseteq> ?N \<times> ?N" by (rule all_edges_range)
  show "mset ?out = mset ts \<and> (acyclic (set ?es) \<longrightarrow> ordered ?es (map t_txid ?out))"
  proof (cases "length ts \<le> 1")
    case True
    then have out: "?out = ts" by (simp add: topological_sort_def)
    have "ordered ?es (map t_txid ts)" if "acyclic (set ?es)"
    proof -
      have "(p, map t_txid ts ! i) \<notin> set ?es" if "i < length ts" for p i
      proof
        assume e: "(p, map t_txid ts ! i) \<in> set ?es"
        then have "p \<in> ?N" using range by blast
        then have "p = map t_txid ts ! i" using True \<open>i < length ts\<close> by (cases ts) auto
        with e \<open>acyclic (set ?es)\<close> show False by (auto simp: acyclic_def)
      qed
      then show ?thesis by (auto simp: ordered_def)
    qed
    with out show ?thesis by simp
  next
    case False
    define pos where "pos = (\<lambda>k. dict_get (positions ts) k 0)"
    define deg where "deg = in_degrees ts ?es"
    define ks where "ks = kahn pos ?es (first_ready pos deg) deg []"
    have out: "?out = (if length ks \<noteq> length ts then ts else map (\<lambda>k. the (map_of (tx_by_key ts) k)) ks)"
      using False by (simp add: topological_sort_def Let_def ks_def deg_def pos_def first_ready_def)
    have "snd ` set ?es \<subseteq> ?N" using range by auto
    note start = kahn_start [OF this, of pos, folded deg_def]
    have "ordered ?es []" by (simp add: ordered_def)
    note ks = kahn_result [OF start range this, folded ks_def]
    show ?thesis
    proof (cases "length ks = length ts")
      case True
      with sorted_keys [OF assms, of ks] ks show ?thesis unfolding out by simp
    next
      case short: False
      have "\<not> acyclic (set ?es)"
      proof
        assume "acyclic (set ?es)"
        then have "set ks = ?N"
          by (intro acyclic_closed [OF _ _ range]) (use ks in auto)
        then have "length ks = length ts"
          using ks assms by (metis distinct_card length_map set_map)
        with short show False ..
      qed
      with short show ?thesis unfolding out by simp
    qed
  qed
qed

lemma ordered_spender:
  assumes "ordered (all_edges ts) (map t_txid out)" and "mset out = mset ts" and "distinct (map t_txid ts)"
    and ij: "i < length out" "j < length out" and "t_txid (out ! i) = Some k" "k \<noteq> []" "(k, v) \<in> set (t_inputs (out ! j))"
  shows "i < j"
proof -
  have sets: "set out = set ts" by (rule mset_eq_setD) (rule assms(2))
  have mem: "out ! i \<in> set ts" "out ! j \<in> set ts" using ij sets nth_mem by blast+
  have "mset (map t_txid out) = mset (map t_txid ts)" using assms(2) by simp
  then have dist: "distinct (map t_txid out)" using assms(3) by (metis mset_eq_imp_distinct_iff)
  have "Some k \<in> t_txid ` set ts" using mem(1) assms(6) by force
  then have "(Some k, t_txid (out ! j)) \<in> set (utxo_edges ts)"
    unfolding utxo_edges_iff using mem(2) assms(7,8) by blast
  then have "(Some k, map t_txid out ! j) \<in> set (all_edges ts)" using utxo_edges_kept ij(2) by auto
  then have "Some k \<in> set (take j (map t_txid out))" using assms(1) ij(2) unfolding ordered_def by simp
  then obtain l where l: "l < length (take j (map t_txid out))" "take j (map t_txid out) ! l = Some k"
    unfolding in_set_conv_nth by blast
  then have "map t_txid out ! l = map t_txid out ! i" "l < j" "l < length (map t_txid out)"
    using ij assms(6) by simp_all
  then have "l = i" using nth_eq_iff_index_eq [OF dist] ij(1) by simp
  with \<open>l < j\<close> show ?thesis by simp
qed

text \<open>
  C30: The order inside a block: sorting keeps exactly the transactions it is given, and unless they
  depend on each other in a circle each one comes after all it depends on, so a transaction that
  spends an output of another one follows it.
\<close>

theorem topological_sort_correct:
  assumes "distinct (map t_txid ts)"
  shows "mset (topological_sort ts) = mset ts \<and>
    (acyclic (set (all_edges ts)) \<longrightarrow> ordered (all_edges ts) (map t_txid (topological_sort ts)) \<and>
      (\<forall>i j v k. i < length ts \<longrightarrow> j < length ts \<longrightarrow> t_txid (topological_sort ts ! i) = Some k \<longrightarrow> k \<noteq> [] \<longrightarrow>
        (k, v) \<in> set (t_inputs (topological_sort ts ! j)) \<longrightarrow> i < j))"
proof -
  note sorted = topological_sort_ordered [OF assms]
  then have "length (topological_sort ts) = length ts" by (metis size_mset)
  with sorted ordered_spender [OF _ _ assms] show ?thesis by (metis (no_types, lifting))
qed

definition creates_before :: "transaction list" where
  "creates_before =
     [sample_tx\<lparr>t_sender := ''bob'', t_txid := Some ''b'', t_inputs := [(''a'', 0)], t_cached_size := Some 1\<rparr>,
      sample_tx\<lparr>t_txid := Some ''a'', t_cached_size := Some 1\<rparr>]"

lemma creates_before_edges: "all_edges creates_before = [(Some ''a'', Some ''b'')]"
  by code_simp

theorem topological_sort_correct_witness:
  "mset (topological_sort creates_before) = mset creates_before \<and>
   ordered [(Some ''a'', Some ''b'')] (map t_txid (topological_sort creates_before))"
proof -
  have "distinct (map t_txid creates_before)" by (simp add: creates_before_def)
  moreover have "acyclic (set (all_edges creates_before))"
    unfolding creates_before_edges by (auto simp: acyclic_def trancl_insert)
  ultimately show ?thesis
    using topological_sort_correct [of creates_before] unfolding creates_before_edges by blast
qed

section \<open>Which transactions enter\<close>

lemma set_sort_desc [simp]: "mset (sort_desc f xs) = mset xs"
  by (simp add: sort_desc_def)

lemma sorted_sort_desc: "sorted (rev (map f (sort_desc f xs)))"
  by (simp add: sort_desc_def rev_map)

text \<open>
  C31: The fee market: of the pending transactions a block of \<open>n\<close> takes \<open>n\<close>, or all when there are fewer,
  and none that it leaves out pays a higher fee rate than one that it takes.
\<close>

theorem prioritize_best:
  assumes "distinct (map t_txid ts)"
  shows "\<exists>rest. mset ts = mset (prioritize_transactions F (Some (int n)) ts) + mset rest \<and>
    length (prioritize_transactions F (Some (int n)) ts) = min n (length ts) \<and>
    (\<forall>a \<in> set (prioritize_transactions F (Some (int n)) ts). \<forall>b \<in> set rest. fee_rate F b \<le> fee_rate F a)"
proof -
  define flat where "flat = concat (map (\<lambda>g. sort_key (\<lambda>t. (nonce_or_zero t, t_timestamp t)) (snd g)) (group_by t_sender (\<lambda>t. t) ts))"
  define best where "best = sort_desc (fee_rate F) flat"
  have out: "prioritize_transactions F (Some (int n)) ts = topological_sort (take n best)"
    by (simp add: prioritize_transactions_def Let_def best_def flat_def)
  have "mset (concat (map (\<lambda>g. sort_key (\<lambda>t. (nonce_or_zero t, t_timestamp t)) (snd g)) gs)) = mset (concat (map snd gs))"
    for gs :: "(string \<times> transaction list) list"
    by (induction gs) simp_all
  then have "mset flat = mset ts" using group_by_mset [of t_sender ts] by (simp add: flat_def)
  then have best: "mset best = mset ts" by (simp add: best_def)
  then have "mset (map t_txid best) = mset (map t_txid ts)" by simp
  then have "distinct (map t_txid best)" using assms by (metis mset_eq_imp_distinct_iff)
  then have "distinct (map t_txid (take n best))" by (simp add: take_map [symmetric])
  from topological_sort_ordered [OF this]
  have same: "mset (topological_sort (take n best)) = mset (take n best)" by blast
  have "length best = length ts" using best by (metis size_mset)
  then have "length (topological_sort (take n best)) = min n (length ts)" using same by (metis length_take min.commute size_mset)
  moreover have "mset ts = mset (take n best) + mset (drop n best)" using best by (metis append_take_drop_id mset_append)
  moreover have "fee_rate F b \<le> fee_rate F a" if "a \<in> set (take n best)" "b \<in> set (drop n best)" for a b
  proof -
    have "sorted_wrt (\<ge>) (map (fee_rate F) best)"
      using sorted_sort_desc [of "fee_rate F" flat] by (simp add: best_def sorted_wrt_rev)
    then have "sorted_wrt (\<ge>) (map (fee_rate F) (take n best) @ map (fee_rate F) (drop n best))"
      by (metis append_take_drop_id map_append)
    with that show ?thesis by (auto simp: sorted_wrt_append)
  qed
  moreover have "set (topological_sort (take n best)) = set (take n best)" using same by (metis set_mset_mset)
  ultimately show ?thesis unfolding out using same by (intro exI [of _ "drop n best"]) simp
qed

theorem prioritize_best_witness:
  "\<exists>rest. mset creates_before = mset (prioritize_transactions sample_float_text (Some (int 1)) creates_before) + mset rest \<and>
    length (prioritize_transactions sample_float_text (Some (int 1)) creates_before) = min 1 (length creates_before) \<and>
    (\<forall>a \<in> set (prioritize_transactions sample_float_text (Some (int 1)) creates_before). \<forall>b \<in> set rest.
      fee_rate sample_float_text b \<le> fee_rate sample_float_text a)"
  by (rule prioritize_best) (simp add: creates_before_def)

text \<open>
  The cut knows no dependencies: of two transactions of one sender a block with room for one takes
  the later nonce when it pays more, which cannot be executed before the earlier one.
\<close>

definition two_nonces :: "transaction list" where
  "two_nonces =
     [sample_tx\<lparr>t_txid := Some ''a'', t_nonce := Some 1, t_fee := Fin 1, t_cached_size := Some 1\<rparr>,
      sample_tx\<lparr>t_txid := Some ''b'', t_nonce := Some 2, t_fee := Fin 2, t_cached_size := Some 1\<rparr>]"

lemma float_one: "to_float 1 = Fin 1" and float_two: "to_float 2 = Fin 2"
  using to_float_int [of 1] to_float_int [of 2] by simp_all

lemma cut_breaks_nonce_order:
  "map t_nonce (prioritize_transactions F (Some 1) two_nonces) = [Some 2]"
proof -
  have rates: "fee_rate F (two_nonces ! 0) = Fin 1" "fee_rate F (two_nonces ! Suc 0) = Fin 2"
    by (simp_all add: two_nonces_def fee_rate_def tx_size_def float_of_int_def float_one float_two)
  have order: "\<not> Fin 2 \<le> Fin 1" "Fin 1 \<le> Fin 2" "Fin 1 < Fin 2"
    by (simp_all add: less_eq_pyfloat_def less_pyfloat_def float_le_def float_eq_def)
  have two: "two_nonces = [two_nonces ! 0, two_nonces ! Suc 0]" by (simp add: two_nonces_def)
  have "group_by t_sender (\<lambda>t. t) two_nonces = [(''alice'', two_nonces)]"
    by (simp add: group_by_def two_nonces_def append_to_def dict_get_def sample_tx_def)
  moreover have "sort_key (\<lambda>t. (nonce_or_zero t, t_timestamp t)) two_nonces = two_nonces"
    by (simp add: two_nonces_def nonce_or_zero_def)
  moreover have "sort_desc (fee_rate F) two_nonces = [two_nonces ! Suc 0, two_nonces ! 0]"
    by (subst two) (simp add: sort_desc_def rates order)
  ultimately show ?thesis
    by (simp add: prioritize_transactions_def Let_def topological_sort_def) (simp add: two_nonces_def)
qed

end
