(* ===== verification/Difficulty.thy ===== *)
theory Difficulty
  imports BlockHeader
begin

text \<open>
  The difficulty of the next block: \<open>calculate_next_difficulty\<close> and
  \<open>_expected_difficulty_for_block\<close> of \<open>blockchain_components/consensus_mixin.py\<close> with
  \<open>DynamicDifficultyAdjustment\<close> of \<open>consensus/advanced_consensus.py\<close>. Every 144 blocks the adjuster
  compares the time of the last blocks with the target; at other multiples of the adjustment
  interval the mixin has a rule of its own. A chain is the list of its headers; \<open>now\<close> is the clock.
\<close>

section \<open>Numbers\<close>

text \<open>A ratio may be an integer or a float, since \<open>min\<close> and \<open>max\<close> return one of their arguments.\<close>

datatype number = IntNum int | FloatNum pyfloat

fun times_int :: "int \<Rightarrow> number \<Rightarrow> number" where
  "times_int n (IntNum m) = IntNum (n * m)"
| "times_int n (FloatNum x) = FloatNum (float_mul (float_of_int n) x)"

fun int_over :: "int \<Rightarrow> number \<Rightarrow> exn + pyfloat" where
  "int_over n (IntNum m) = float_div (float_of_int n) (float_of_int m)"
| "int_over n (FloatNum x) = float_div (float_of_int n) x"

text \<open>\<open>int(round(x))\<close>: a tie goes to the even neighbour; infinities and NaN raise.\<close>

fun round_number :: "number \<Rightarrow> exn + int" where
  "round_number (IntNum n) = Inr n"
| "round_number (FloatNum (Fin q)) = Inr (round_even q)"
| "round_number (FloatNum NaN) = Inl ValueError"
| "round_number (FloatNum x) = Inl OverflowError"

section \<open>The adjuster\<close>

record adjuster =
  adj_target :: int
  adj_window :: nat
  adj_max_factor :: int
  adj_min :: int
  adj_max :: int
  adj_min_step :: pyfloat

definition new_adjuster :: "int \<Rightarrow> adjuster" where
  "new_adjuster target =
     (let step = float_mul (float_of_int target) (to_float (1 / 100)); floor = to_float (1 / 1000) in
      \<lparr>adj_target = target, adj_window = 144, adj_max_factor = 4, adj_min = 1, adj_max = 10,
       adj_min_step = (if float_less floor step then step else floor)\<rparr>)"

primrec sanitize_timestamps :: "pyfloat \<Rightarrow> pyfloat option \<Rightarrow> pyfloat list \<Rightarrow> pyfloat list" where
  "sanitize_timestamps step last_ts [] = []"
| "sanitize_timestamps step last_ts (t # ts) =
     (let t' = (case last_ts of None \<Rightarrow> t | Some l \<Rightarrow> if float_le t l then float_add l step else t)
      in t' # sanitize_timestamps step (Some t') ts)"

definition should_adjust :: "adjuster \<Rightarrow> header list \<Rightarrow> bool" where
  "should_adjust a chain \<longleftrightarrow> length chain > 1 \<and> (length chain - 1) mod adj_window a = 0"

text \<open>\<open>max(1 / f, min(f, r))\<close>; each function returns its first argument unless the other is beyond it.\<close>

definition limit_ratio :: "int \<Rightarrow> pyfloat \<Rightarrow> number" where
  "limit_ratio f r =
     (let inverse = to_float (1 / of_int f) in
      if float_less r (float_of_int f)
      then (if float_less inverse r then FloatNum r else FloatNum inverse)
      else (if float_less inverse (float_of_int f) then IntNum f else FloatNum inverse))"

text \<open>\<open>difficulty\<close> is that of the object the adjuster is called with.\<close>

definition calculate_new_difficulty :: "adjuster \<Rightarrow> header list \<Rightarrow> int \<Rightarrow> exn + int" where
  "calculate_new_difficulty a chain difficulty =
     (if length chain < 2 then Inr difficulty
      else let window = min (adj_window a) (length chain - 1);
               times = map hd_timestamp (if window = 0 then chain else drop (length chain - window) chain)
      in if float_eq (float_sub (last times) (hd times)) (Fin 0) then Inr difficulty
         else let clean = sanitize_timestamps (adj_min_step a) None times;
                  taken = float_sub (last clean) (hd clean);
                  expected = adj_target a * (int window - 1)
         in if expected = 0 \<or> float_le taken (Fin 0) then Inr difficulty
            else case float_div (float_of_int expected) taken of
              Inl e \<Rightarrow> Inl e
            | Inr r \<Rightarrow> map_sum id (\<lambda>n. max (adj_min a) (min (adj_max a) n))
                (round_number (times_int difficulty (limit_ratio (adj_max_factor a) r))))"

section \<open>The mixin\<close>

record retarget =
  target_block_time :: int
  adjustment_interval :: nat
  max_difficulty_change :: int
  network_type :: string
  fast_mining_enabled :: bool
  max_test_mining_difficulty :: int
  own_difficulty :: int
  own_adjuster :: "adjuster option"

definition new_retarget :: "string \<Rightarrow> int \<Rightarrow> retarget" where
  "new_retarget network difficulty =
     \<lparr>target_block_time = 120, adjustment_interval = 2016, max_difficulty_change = 4, network_type = network,
      fast_mining_enabled = False, max_test_mining_difficulty = 4, own_difficulty = difficulty,
      own_adjuster = Some (new_adjuster 120)\<rparr>"

definition TESTNET_DIFFICULTY_RESET_SECONDS :: int where "TESTNET_DIFFICULTY_RESET_SECONDS = 1200"

definition should_reset_testnet_difficulty :: "pyfloat \<Rightarrow> retarget \<Rightarrow> header list \<Rightarrow> bool" where
  "should_reset_testnet_difficulty now s chain \<longleftrightarrow>
     network_type s \<noteq> ''mainnet'' \<and> chain \<noteq> [] \<and>
     float_le (float_of_int TESTNET_DIFFICULTY_RESET_SECONDS) (float_sub now (hd_timestamp (last chain)))"

text \<open>The adjuster as the call leaves it: its cap grows with the difficulties it has seen.\<close>

definition prepare_adjuster :: "retarget \<Rightarrow> int \<Rightarrow> adjuster" where
  "prepare_adjuster s baseline =
     (let a = (case own_adjuster s of Some a \<Rightarrow> a | None \<Rightarrow> new_adjuster (target_block_time s));
          cap = max (max (max 1 baseline * max 1 (max_difficulty_change s)) (baseline + 1)) (adj_max a)
      in a\<lparr>adj_target := target_block_time s, adj_min := 1, adj_max := max cap 2\<rparr>)"

text \<open>The rule of the mixin at multiples of its own interval.\<close>

definition interval_difficulty :: "retarget \<Rightarrow> header list \<Rightarrow> int \<Rightarrow> exn + int" where
  "interval_difficulty s chain baseline =
     (let first = chain ! (length chain - adjustment_interval s);
          actual = float_sub (hd_timestamp (last chain)) (hd_timestamp first);
          actual = (if float_le actual (Fin 0) then Fin 1 else actual)
      in case float_div (float_of_int (int (adjustment_interval s) * target_block_time s)) actual of
           Inl e \<Rightarrow> Inl e
         | Inr r \<Rightarrow>
             let low = to_float (1 / of_int (max_difficulty_change s));
                 ratio = (if float_less (float_of_int (max_difficulty_change s)) r then IntNum (max_difficulty_change s)
                          else if float_less r low then FloatNum low else FloatNum r)
             in case int_over baseline ratio of
                  Inl e \<Rightarrow> Inl e
                | Inr x \<Rightarrow> map_sum id (max 1) (round_number (FloatNum x)))"

definition baseline_of :: "retarget \<Rightarrow> header list \<Rightarrow> int option \<Rightarrow> int" where
  "baseline_of s chain current =
     max 1 (case current of Some d \<Rightarrow> d
       | None \<Rightarrow> if chain \<noteq> [] then hd_difficulty (last chain) else if own_difficulty s = 0 then 1 else own_difficulty s)"

text \<open>
  \<open>override\<close> is the chain the caller gives, \<open>own\<close> the node's; without overrides the adjuster works on
  the node itself and so with its own difficulty.
\<close>

definition calculate_next_difficulty ::
    "pyfloat \<Rightarrow> header list \<Rightarrow> header list option \<Rightarrow> int option \<Rightarrow> (retarget, int) meth" where
  "calculate_next_difficulty now own override current s =
     (let chain = (case override of Some c \<Rightarrow> c | None \<Rightarrow> own) in
      if should_reset_testnet_difficulty now s chain then (Inr 1, s)
      else let baseline = baseline_of s chain current; a = prepare_adjuster s baseline; s' = s\<lparr>own_adjuster := Some a\<rparr> in
        if should_adjust a chain
        then (calculate_new_difficulty a chain
               (if override \<noteq> None \<or> current \<noteq> None then baseline else own_difficulty s), s')
        else if length chain < adjustment_interval s \<or> length chain mod adjustment_interval s \<noteq> 0 then (Inr baseline, s')
        else (interval_difficulty s chain baseline, s'))"

definition expected_difficulty_for_block :: "pyfloat \<Rightarrow> int \<Rightarrow> header list \<Rightarrow> (retarget, int option) meth" where
  "expected_difficulty_for_block now index history s =
     (if index \<le> 0 \<or> history = [] \<or> int (length history) \<noteq> index \<or> hd_index (last history) \<noteq> index - 1 then (Inr None, s)
      else and_then (calculate_next_difficulty now [] (Some history) (Some (hd_difficulty (last history)))) (\<lambda>expected s'.
        (Inr (Some (if fast_mining_enabled s' then min expected (max_test_mining_difficulty s') else expected)), s')) s)"

section \<open>Scaling by a ratio between a quarter and four\<close>

lemma to_float_dyadic:
  assumes "1 \<le> n" "n < 2 ^ 53" and "- 1022 \<le> k" "k \<le> 970"
  shows "to_float (of_int n * pow2 k) = Fin (of_int n * pow2 k)"
proof -
  let ?q = "of_int n * pow2 k :: rat"
  have pos: "0 < ?q" using assms(1) pow2_pos [of k] by simp
  note B = floor_log2_bounds [OF pos]
  define e where "e = floor_log2 ?q"
  have "pow2 k \<le> ?q" using assms(1) pow2_pos [of k] by simp
  then have "pow2 k < pow2 (e + 1)" using B by (simp add: e_def)
  then have low: "- 1022 \<le> e" using pow2_less assms(3) by force
  have "?q < of_int (2 ^ 53) * pow2 k" using assms(2) pow2_pos [of k] by (simp del: of_int_power)
  also have "of_int (2 ^ 53) * pow2 k = pow2 (53 + k)" using pow2_nat [of 53] by (simp add: pow2_add)
  finally have "pow2 e < pow2 (53 + k)" using B by (simp add: e_def)
  then have high: "e < 53 + k" by (rule pow2_less)
  obtain m where m: "pow2 k / pow2 (e - 52) = of_int m" using pow2_units [of "e - 52" k] high by auto
  have eq: "?q = of_int (n * m) * pow2 (e - 52)"
  proof -
    have "pow2 k = of_int m * pow2 (e - 52)"
      using m pow2_pos [of "e - 52"] by (simp add: divide_eq_eq)
    then show ?thesis by simp
  qed
  then have "?q - of_int (n * m) * pow2 (e - 52) = 0" by (simp only: diff_self)
  then have near: "\<bar>?q - of_int (n * m) * pow2 (e - 52)\<bar> < pow2 (e - 52) / 2"
    by (simp only: abs_zero) (use pow2_pos [of "e - 52"] in simp)
  have "to_float ?q = Fin (of_int (n * m) * pow2 (e - 52))"
    by (rule to_float_eqI [OF _ _ low _ near]) (use B high assms(4) in \<open>simp_all add: e_def\<close>)
  then show ?thesis by (simp only: eq)
qed

lemma to_float_quarters: "1 \<le> n \<Longrightarrow> n < 2 ^ 53 \<Longrightarrow> to_float (of_int n / 4) = Fin (of_int n / 4)"
  using to_float_dyadic [of n "- 2"] by (simp add: pow2_def)

lemma to_float_mono_ge:
  assumes "0 \<le> x" "x \<le> y" and "to_float x = Fin a"
  shows "to_float y = PosInf \<or> (\<exists>b. to_float y = Fin b \<and> a \<le> b)"
  using to_float_nonneg [of y] to_float_mono [OF assms(1,2)] assms by fastforce

text \<open>Rounding twice, to a float and to an integer, keeps a scaled difficulty within the factor.\<close>

lemma round_scaled:
  assumes d: "1 \<le> d" "d \<le> 2 ^ 50" and r: "1 / 4 \<le> r" "r \<le> 4"
  shows "\<exists>n. map_sum id (max 1) (round_number (FloatNum (to_float (of_int d * r)))) = Inr (max 1 n) \<and>
    round_number (FloatNum (to_float (of_int d * r))) = Inr n \<and> n \<le> 4 * d \<and> d \<le> 4 * n + 2 \<and> (1 \<le> r \<longrightarrow> d \<le> n) \<and> (r \<le> 1 \<longrightarrow> n \<le> d)"
proof -
  have four: "to_float (of_int (4 * d)) = Fin (of_int (4 * d))" by (rule to_float_int) (use d in simp_all)
  have one: "to_float (of_int d) = Fin (of_int d)" by (rule to_float_int) (use d in simp_all)
  have quarter: "to_float (of_int d / 4) = Fin (of_int d / 4)" by (rule to_float_quarters) (use d in simp_all)
  have dpos: "0 < (of_int d :: rat)" using d by simp
  have lo: "0 \<le> (of_int d / 4 :: rat)" "of_int d / 4 \<le> of_int d * r" using dpos r(1) by (simp_all add: field_simps)
  have hi: "of_int d * r \<le> of_int (4 * d)" using dpos r(2) by (simp add: field_simps)
  obtain x where x: "to_float (of_int d * r) = Fin x" "x \<le> of_int (4 * d)"
    using to_float_mono [OF _ hi four] lo by auto
  have x_lo: "of_int d / 4 \<le> x" using to_float_mono_ge [OF lo quarter] x by auto
  have up: "of_int d \<le> x" if "1 \<le> r"
  proof -
    have "of_int d \<le> of_int d * r" using that dpos by simp
    from to_float_mono_ge [OF _ this one] x(1) dpos show ?thesis by auto
  qed
  have down: "x \<le> of_int d" if "r \<le> 1"
  proof -
    have "of_int d * r \<le> of_int d" using that dpos by simp
    from to_float_mono [OF _ this one] x(1) lo show ?thesis by auto
  qed
  define n where "n = round_even x"
  have near: "\<bar>of_int n - x\<bar> \<le> 1 / 2" unfolding n_def by (rule round_even_near)
  have "round_even (of_int (4 * d)) = 4 * d" "round_even (of_int d) = d" by (rule round_even_of_int)+
  then have "n \<le> 4 * d" "1 \<le> r \<Longrightarrow> d \<le> n" "r \<le> 1 \<Longrightarrow> n \<le> d"
    using round_even_mono [OF x(2)] round_even_mono [OF up] round_even_mono [OF down] by (simp_all add: n_def)
  moreover have "x - 1 / 2 \<le> of_int n" using near by linarith
  then have "(of_int d :: rat) \<le> of_int (4 * n + 2)" using x_lo by simp
  then have "d \<le> 4 * n + 2" by (simp only: of_int_le_iff)
  ultimately show ?thesis using x(1) by (simp add: n_def)
qed

lemma float_four: "float_of_int 4 = Fin 4" "to_float (1 / 4) = Fin (1 / 4)"
  using to_float_int [of 4] to_float_quarters [of 1] by (simp_all add: float_of_int_def)

lemma limit_ratio_cases:
  "limit_ratio 4 r = IntNum 4 \<and> (\<forall>q. r = Fin q \<longrightarrow> 4 \<le> q) \<and> r \<noteq> NegInf \<or>
   (\<exists>q. limit_ratio 4 r = FloatNum (Fin q) \<and> 1 / 4 \<le> q \<and> q \<le> 4 \<and>
     (\<forall>p. r = Fin p \<longrightarrow> (1 \<le> p \<longrightarrow> 1 \<le> q) \<and> (p \<le> 1 \<longrightarrow> q \<le> 1)) \<and> r \<noteq> PosInf)"
proof (cases r)
  case (Fin p)
  consider "4 \<le> p" | "1 / 4 < p" "p < 4" | "p \<le> 1 / 4" by linarith
  then show ?thesis
  proof cases
    case 3
    with Fin have "limit_ratio 4 r = FloatNum (Fin (1 / 4))" by (simp add: limit_ratio_def Let_def float_four)
    with 3 Fin show ?thesis by (intro disjI2 exI [of _ "1 / 4"]) simp
  qed (use Fin in \<open>simp_all add: limit_ratio_def Let_def float_four\<close>)
next
  case NegInf
  then have "limit_ratio 4 r = FloatNum (Fin (1 / 4))" by (simp add: limit_ratio_def Let_def float_four)
  with NegInf show ?thesis by (intro disjI2 exI [of _ "1 / 4"]) simp
qed (simp_all add: limit_ratio_def Let_def float_four)

lemma times_limit:
  assumes d: "1 \<le> d" "d \<le> 2 ^ 50"
  shows "\<exists>n. round_number (times_int d (limit_ratio 4 r)) = Inr n \<and> n \<le> 4 * d \<and> d \<le> 4 * n + 2 \<and>
    (\<forall>q. r = Fin q \<longrightarrow> (1 \<le> q \<longrightarrow> d \<le> n) \<and> (q \<le> 1 \<longrightarrow> n \<le> d)) \<and> (r = PosInf \<longrightarrow> d \<le> n)"
  using limit_ratio_cases [of r]
proof
  assume "limit_ratio 4 r = IntNum 4 \<and> (\<forall>q. r = Fin q \<longrightarrow> 4 \<le> q) \<and> r \<noteq> NegInf"
  then show ?thesis using d by (intro exI [of _ "4 * d"]) auto
next
  assume "\<exists>q. limit_ratio 4 r = FloatNum (Fin q) \<and> 1 / 4 \<le> q \<and> q \<le> 4 \<and>
     (\<forall>p. r = Fin p \<longrightarrow> (1 \<le> p \<longrightarrow> 1 \<le> q) \<and> (p \<le> 1 \<longrightarrow> q \<le> 1)) \<and> r \<noteq> PosInf"
  then obtain q where q: "limit_ratio 4 r = FloatNum (Fin q)" "1 / 4 \<le> q" "q \<le> 4"
    "\<And>p. r = Fin p \<Longrightarrow> (1 \<le> p \<longrightarrow> 1 \<le> q) \<and> (p \<le> 1 \<longrightarrow> q \<le> 1)" "r \<noteq> PosInf" by blast
  have "float_of_int d = Fin (of_int d)" unfolding float_of_int_def by (rule to_float_int) (use d in simp_all)
  then have "times_int d (limit_ratio 4 r) = FloatNum (to_float (of_int d * q))" by (simp add: q(1) float_mul_def)
  moreover obtain n where "round_number (FloatNum (to_float (of_int d * q))) = Inr n" "n \<le> 4 * d" "d \<le> 4 * n + 2"
    "1 \<le> q \<longrightarrow> d \<le> n" "q \<le> 1 \<longrightarrow> n \<le> d"
    using round_scaled [OF d q(2,3)] by blast
  ultimately show ?thesis using q(4,5) by auto
qed

section \<open>The retarget rules keep the difficulty within a factor of four\<close>

text \<open>One step of either rule, up to rounding.\<close>

definition near_difficulty :: "int \<Rightarrow> int \<Rightarrow> bool" where
  "near_difficulty d n \<longleftrightarrow> 1 \<le> n \<and> n \<le> 4 * d \<and> d \<le> 4 * n + 2"

lemma near_refl: "1 \<le> d \<Longrightarrow> near_difficulty d d"
  by (simp add: near_difficulty_def)

lemma near_clamp:
  assumes "1 \<le> d" "n \<le> 4 * d" "d \<le> 4 * n + 2" and "4 * d \<le> cap"
  shows "near_difficulty d (max 1 (min cap n))"
  using assms by (simp add: near_difficulty_def)

lemma to_float_number [simp]: "to_float x \<noteq> NaN"
  by (simp add: to_float_def Let_def)

lemma float_div_not_zero: "\<not> float_le y (Fin 0) \<Longrightarrow> \<exists>r. float_div x y = Inr r"
  by (cases y; cases x) (auto simp: float_le_def float_eq_def)

lemma adjuster_near:
  assumes d: "1 \<le> d" "d \<le> 2 ^ 50" and "adj_max_factor a = 4" "adj_min a = 1" "4 * d \<le> adj_max a"
  shows "\<exists>n. calculate_new_difficulty a chain d = Inr n \<and> near_difficulty d n"
proof -
  have step: "\<exists>n. map_sum id (\<lambda>n. max (adj_min a) (min (adj_max a) n))
      (round_number (times_int d (limit_ratio (adj_max_factor a) r))) = Inr n \<and> near_difficulty d n" for r
    using times_limit [OF d, of r] near_clamp [OF d(1) _ _ assms(5)] assms(3,4) by auto
  show ?thesis
    using near_refl [OF d(1)] step float_div_not_zero
    by (auto simp: calculate_new_difficulty_def Let_def split: sum.splits) (metis Inr_not_Inl sum.inject(2))+
qed

lemma prepare_adjuster_fields [simp]:
  "adj_min (prepare_adjuster s b) = 1"
  "adj_max_factor (prepare_adjuster s b) = (case own_adjuster s of Some a \<Rightarrow> adj_max_factor a | None \<Rightarrow> 4)"
  by (simp_all add: prepare_adjuster_def Let_def new_adjuster_def split: option.split)

lemma prepare_adjuster_cap:
  "max_difficulty_change s = 4 \<Longrightarrow> 1 \<le> b \<Longrightarrow> 4 * b \<le> adj_max (prepare_adjuster s b)"
  by (auto simp: prepare_adjuster_def Let_def split: option.split)

lemma invert_ratio:
  assumes "1 \<le> d" "d \<le> 2 ^ 50" and "1 / 4 \<le> q" "q \<le> 4"
  shows "\<exists>n. round_number (FloatNum (to_float (of_int d / q))) = Inr n \<and> near_difficulty d (max 1 n) \<and>
    (q \<le> 1 \<longrightarrow> d \<le> n) \<and> (1 \<le> q \<longrightarrow> n \<le> d)"
proof -
  have "1 / 4 \<le> 1 / q" "1 / q \<le> 4" "q \<le> 1 \<longleftrightarrow> 1 \<le> 1 / q" "1 \<le> q \<longleftrightarrow> 1 / q \<le> 1"
    using assms(3,4) by (simp_all add: field_simps)
  with round_scaled [OF assms(1,2), of "1 / q"] assms(1) show ?thesis
    by (auto simp: near_difficulty_def)
qed

lemma interval_near:
  assumes d: "1 \<le> d" "d \<le> 2 ^ 50" and four: "max_difficulty_change s = 4"
    and times: "float_of_int (int (adjustment_interval s) * target_block_time s) = Fin w"
    and finite: "\<forall>h \<in> set chain. \<exists>q. hd_timestamp h = Fin q"
    and chain: "0 < adjustment_interval s" "adjustment_interval s \<le> length chain"
  shows "\<exists>n. interval_difficulty s chain d = Inr n \<and> near_difficulty d n"
proof -
  define first where "first = chain ! (length chain - adjustment_interval s)"
  define actual where "actual = float_sub (hd_timestamp (last chain)) (hd_timestamp first)"
  define actual' where "actual' = (if float_le actual (Fin 0) then Fin 1 else actual)"
  have "first \<in> set chain" "last chain \<in> set chain" using chain by (auto simp: first_def intro!: last_in_set)
  then obtain p q where "hd_timestamp first = Fin p" "hd_timestamp (last chain) = Fin q" using finite by blast
  then have "actual \<noteq> NaN" by (simp add: actual_def float_sub_def)
  then have actual': "actual' \<noteq> NaN" "\<not> float_le actual' (Fin 0)"
    by (cases actual; simp add: actual'_def float_le_def float_eq_def)+
  obtain r where r: "float_div (Fin w) actual' = Inr r" "r \<noteq> NaN"
    using actual' by (cases actual') (auto simp: float_le_def float_eq_def)
  define ratio where "ratio = (if float_less (Fin 4) r then IntNum 4 else if float_less r (Fin (1 / 4)) then FloatNum (Fin (1 / 4)) else FloatNum r)"
  have ratio: "ratio = IntNum 4 \<or> (\<exists>q. ratio = FloatNum (Fin q) \<and> 1 / 4 \<le> q \<and> q \<le> 4)"
  proof -
    consider "ratio = IntNum 4" | "ratio = FloatNum (Fin (1 / 4))" | q where "ratio = FloatNum (Fin q)" "1 / 4 \<le> q" "q \<le> 4"
    proof (cases r)
      case (Fin x)
      consider "4 < x" | "x < 1 / 4" | "1 / 4 \<le> x" "x \<le> 4" by linarith
      then show thesis by cases (use Fin that in \<open>simp_all add: ratio_def\<close>)
    qed (use r(2) that in \<open>simp_all add: ratio_def\<close>)
    then show ?thesis
    proof cases
      case 2
      then show ?thesis by (intro disjI2 exI [of _ "1 / 4"]) simp
    qed auto
  qed
  have dd: "float_of_int d = Fin (of_int d)" unfolding float_of_int_def by (rule to_float_int) (use d in simp_all)
  have "\<exists>q. int_over d ratio = Inr (to_float (of_int d / q)) \<and> 1 / 4 \<le> q \<and> q \<le> 4"
    using ratio by (auto simp: dd float_four)
  then obtain q where q: "int_over d ratio = Inr (to_float (of_int d / q))" "1 / 4 \<le> q" "q \<le> 4" by blast
  obtain n where "round_number (FloatNum (to_float (of_int d / q))) = Inr n" "near_difficulty d (max 1 n)"
    using invert_ratio [OF d q(2,3)] by blast
  have "interval_difficulty s chain d =
      (case float_div (Fin w) actual' of Inl e \<Rightarrow> Inl e
       | Inr r \<Rightarrow> case int_over d (if float_less (Fin 4) r then IntNum 4
             else if float_less r (Fin (1 / 4)) then FloatNum (Fin (1 / 4)) else FloatNum r) of
           Inl e \<Rightarrow> Inl e | Inr x \<Rightarrow> map_sum id (max 1) (round_number (FloatNum x)))"
    by (simp only: interval_difficulty_def Let_def four times float_four of_int_numeral actual'_def actual_def first_def)
  also have "\<dots> = Inr (max 1 n)"
    by (simp only: r(1) sum.case ratio_def [symmetric] q(1) \<open>round_number (FloatNum (to_float (of_int d / q))) = Inr n\<close> map_sum.simps)
  finally have "interval_difficulty s chain d = Inr (max 1 n)" .
  with \<open>near_difficulty d (max 1 n)\<close> show ?thesis by blast
qed

text \<open>
  The settings of the main network: the factor is four, the interval is a whole number of blocks
  whose time is a float without rounding.
\<close>

definition mainnet_retarget :: "retarget \<Rightarrow> bool" where
  "mainnet_retarget s \<longleftrightarrow> network_type s = ''mainnet'' \<and> max_difficulty_change s = 4 \<and> 0 < adjustment_interval s \<and>
     (\<exists>w. float_of_int (int (adjustment_interval s) * target_block_time s) = Fin w) \<and>
     (\<forall>a. own_adjuster s = Some a \<longrightarrow> adj_max_factor a = 4 \<and> adj_window a = 144 \<and> adj_min_step a = adj_min_step (new_adjuster (target_block_time s)))"

lemma mainnet_no_reset: "mainnet_retarget s \<Longrightarrow> \<not> should_reset_testnet_difficulty now s chain"
  by (simp add: mainnet_retarget_def should_reset_testnet_difficulty_def)

lemma next_near:
  assumes m: "mainnet_retarget s" and d: "1 \<le> d" "d \<le> 2 ^ 50"
    and finite: "\<forall>h \<in> set history. \<exists>q. hd_timestamp h = Fin q"
  shows "\<exists>n. calculate_next_difficulty now own (Some history) (Some d) s =
      (Inr n, s\<lparr>own_adjuster := Some (prepare_adjuster s d)\<rparr>) \<and> near_difficulty d n"
proof -
  have four: "max_difficulty_change s = 4" "adj_max_factor (prepare_adjuster s d) = 4"
    using m by (auto simp: mainnet_retarget_def split: option.split)
  note A = adjuster_near [OF d four(2) prepare_adjuster_fields(1) prepare_adjuster_cap [OF four(1) d(1)], of history]
  obtain w where w: "float_of_int (int (adjustment_interval s) * target_block_time s) = Fin w"
    using m by (auto simp: mainnet_retarget_def)
  have I: "\<exists>n. interval_difficulty s history d = Inr n \<and> near_difficulty d n"
    if "adjustment_interval s \<le> length history"
    by (rule interval_near [OF d four(1) w finite _ that]) (use m in \<open>simp add: mainnet_retarget_def\<close>)
  show ?thesis
    using A I near_refl [OF d(1)] mainnet_no_reset [OF m] d(1)
    by (auto simp: calculate_next_difficulty_def Let_def baseline_of_def not_less max_def)
qed

text \<open>
  C32: on the main network, with a positive difficulty up to 2^50 at the tip and finite timestamps,
  the difficulty required of the next block is always defined, at least one, at most four times
  that of its predecessor and at least a quarter of it up to rounding, whatever the timestamps say.
\<close>

theorem difficulty_bounded:
  assumes "mainnet_retarget s" "\<not> fast_mining_enabled s"
    and "history \<noteq> []" "int (length history) = index" "hd_index (last history) = index - 1"
    and "d = hd_difficulty (last history)" "1 \<le> d" "d \<le> 2 ^ 50"
    and "\<forall>h \<in> set history. \<exists>q. hd_timestamp h = Fin q"
  shows "\<exists>n s'. expected_difficulty_for_block now index history s = (Inr (Some n), s') \<and>
    1 \<le> n \<and> n \<le> 4 * d \<and> d \<le> 4 * n + 2 \<and> mainnet_retarget s'"
proof -
  obtain n where n: "calculate_next_difficulty now [] (Some history) (Some d) s =
      (Inr n, s\<lparr>own_adjuster := Some (prepare_adjuster s d)\<rparr>)" "near_difficulty d n"
    using next_near [OF assms(1,7,8,9)] by blast
  have "mainnet_retarget (s\<lparr>own_adjuster := Some (prepare_adjuster s d)\<rparr>)"
    using assms(1) by (auto simp: mainnet_retarget_def prepare_adjuster_def Let_def new_adjuster_def split: option.split)
  moreover have "0 < index" using assms(3,4) by auto
  ultimately show ?thesis
    using n assms(2-6) by (simp add: expected_difficulty_for_block_def and_then_def near_difficulty_def)
qed

lemma fin_word: "float_of_int 241920 = Fin 241920"
  using to_float_int [of 241920] by (simp add: float_of_int_def)

definition tip_header :: "int \<Rightarrow> pyfloat \<Rightarrow> int \<Rightarrow> header" where
  "tip_header i t d =
     \<lparr>hd_index = i, hd_previous_hash = '''', hd_merkle_root = '''', hd_timestamp = t, hd_difficulty = d,
      hd_nonce = 0, hd_signature = None, hd_miner_pubkey = None, hd_version = 1, hash_includes_version = False,
      hd_hash = ''''\<rparr>"

lemma tip_header_fields [simp]:
  "hd_index (tip_header i t d) = i" "hd_timestamp (tip_header i t d) = t" "hd_difficulty (tip_header i t d) = d"
  by (simp_all add: tip_header_def)

lemma new_retarget_mainnet: "mainnet_retarget (new_retarget ''mainnet'' d)"
  by (simp add: mainnet_retarget_def new_retarget_def fin_word new_adjuster_def Let_def)

theorem difficulty_bounded_witness:
  "\<exists>n s'. expected_difficulty_for_block NaN 1 [tip_header 0 (Fin 5) 8] (new_retarget ''mainnet'' 1) = (Inr (Some n), s') \<and>
    1 \<le> n \<and> n \<le> 4 * 8 \<and> 8 \<le> 4 * n + 2 \<and> mainnet_retarget s'"
  by (rule difficulty_bounded [OF new_retarget_mainnet]) (simp_all add: new_retarget_def)

section \<open>Every node computes the same difficulty\<close>

lemma clamp_to_cap:
  assumes "n \<le> 4 * d" "4 * d \<le> adj_max a" "adj_min a = 1"
  shows "max (adj_min a) (min (adj_max a) n) = max 1 n"
  using assms by simp

text \<open>The cap of the adjuster never binds, so the adjusted difficulty does not depend on it.\<close>

lemma adjuster_cap_free:
  assumes d: "1 \<le> d" "d \<le> 2 ^ 50" and "adj_max_factor a = 4" "adj_min a = 1" "4 * d \<le> adj_max a" "4 * d \<le> adj_max b"
    and b: "b = a\<lparr>adj_max := adj_max b\<rparr>"
  shows "calculate_new_difficulty a chain d = calculate_new_difficulty b chain d"
proof -
  have same: "adj_window b = adj_window a" "adj_min_step b = adj_min_step a" "adj_target b = adj_target a"
    "adj_max_factor b = 4" "adj_min b = 1"
    using b assms(3,4) by (metis adjuster.select_convs adjuster.simps adjuster.surjective adjuster.update_convs)+
  have step: "map_sum id (\<lambda>n. max (adj_min a) (min (adj_max a) n)) (round_number (times_int d (limit_ratio 4 r))) =
      map_sum id (\<lambda>n. max 1 (min (adj_max b) n)) (round_number (times_int d (limit_ratio 4 r)))" for r
  proof -
    obtain n where "round_number (times_int d (limit_ratio 4 r)) = Inr n" "n \<le> 4 * d" using times_limit [OF d] by blast
    then show ?thesis using assms(4-6) by simp
  qed
  show ?thesis
    by (simp add: calculate_new_difficulty_def same assms(3) step Let_def cong: sum.case_cong)
qed

lemma prepare_adjuster_same:
  assumes "mainnet_retarget s" "mainnet_retarget t" "target_block_time s = target_block_time t"
  shows "prepare_adjuster t d = (prepare_adjuster s d)\<lparr>adj_max := adj_max (prepare_adjuster t d)\<rparr>"
  using assms
  by (auto simp: mainnet_retarget_def prepare_adjuster_def Let_def new_adjuster_def split: option.split)

text \<open>
  C33: on the main network the difficulty a node requires of the next block is a function of the
  chain below it: two nodes with the same block time and interval agree, whatever their clocks,
  their own chains and difficulties and the caps their adjusters have grown to.
\<close>

theorem expected_difficulty_deterministic:
  assumes "mainnet_retarget s" "mainnet_retarget t"
    and "target_block_time s = target_block_time t" "adjustment_interval s = adjustment_interval t"
    and "\<not> fast_mining_enabled s" "\<not> fast_mining_enabled t"
    and "history \<noteq> [] \<Longrightarrow> 1 \<le> hd_difficulty (last history) \<and> hd_difficulty (last history) \<le> 2 ^ 50"
  shows "fst (expected_difficulty_for_block now index history s) = fst (expected_difficulty_for_block now' index history t)"
proof (cases "history = []")
  case False
  define d where "d = hd_difficulty (last history)"
  have d: "1 \<le> d" "d \<le> 2 ^ 50" using assms(7) False by (simp_all add: d_def)
  have same: "prepare_adjuster t d = (prepare_adjuster s d)\<lparr>adj_max := adj_max (prepare_adjuster t d)\<rparr>"
    by (rule prepare_adjuster_same [OF assms(1-3)])
  have cap: "4 * d \<le> adj_max (prepare_adjuster s d)" "4 * d \<le> adj_max (prepare_adjuster t d)"
    and factor: "adj_max_factor (prepare_adjuster s d) = 4" "max_difficulty_change s = 4" "max_difficulty_change t = 4"
    using assms(1,2) prepare_adjuster_cap [OF _ d(1)] by (auto simp: mainnet_retarget_def split: option.split)
  have A: "calculate_new_difficulty (prepare_adjuster s d) history d = calculate_new_difficulty (prepare_adjuster t d) history d"
    by (rule adjuster_cap_free [OF d factor(1) prepare_adjuster_fields(1) cap same])
  have S: "should_adjust (prepare_adjuster s d) history = should_adjust (prepare_adjuster t d) history"
    using arg_cong [OF same, of adj_window] by (simp add: should_adjust_def)
  have I: "interval_difficulty s history d = interval_difficulty t history d"
    by (simp only: interval_difficulty_def factor(2,3) assms(3,4))
  have "fst (calculate_next_difficulty now [] (Some history) (Some d) s) =
      fst (calculate_next_difficulty now' [] (Some history) (Some d) t)"
    using d(1) by (simp add: calculate_next_difficulty_def Let_def baseline_of_def max_def A S I assms(4)
        mainnet_no_reset [OF assms(1)] mainnet_no_reset [OF assms(2)])
  moreover have "\<not> fast_mining_enabled (snd (calculate_next_difficulty now [] (Some history) (Some d) s))"
    "\<not> fast_mining_enabled (snd (calculate_next_difficulty now' [] (Some history) (Some d) t))"
    using assms(5,6) by (simp_all add: calculate_next_difficulty_def Let_def)
  ultimately obtain x u v where "calculate_next_difficulty now [] (Some history) (Some d) s = (x, u)"
    "calculate_next_difficulty now' [] (Some history) (Some d) t = (x, v)" "\<not> fast_mining_enabled u" "\<not> fast_mining_enabled v"
    by (metis prod.collapse)
  then show ?thesis
    by (cases x) (simp_all add: expected_difficulty_for_block_def and_then_def d_def [symmetric])
qed (simp add: expected_difficulty_for_block_def)

theorem expected_difficulty_deterministic_witness:
  "fst (expected_difficulty_for_block (Fin 7) 1 [tip_header 0 (Fin 5) 8] (new_retarget ''mainnet'' 1)) =
   fst (expected_difficulty_for_block (Fin 900) 1 [tip_header 0 (Fin 5) 8] (new_retarget ''mainnet'' 6))"
  by (rule expected_difficulty_deterministic [OF new_retarget_mainnet new_retarget_mainnet]) (simp_all add: new_retarget_def)

text \<open>
  Elsewhere the difficulty depends on the clock of the node that asks: twenty minutes after the
  last block every block but one of difficulty one is refused, those mined in time included.
\<close>

lemma testnet_difficulty_clock:
  assumes "network_type s = ''testnet''" "hd_timestamp (last history) = Fin t" "history \<noteq> []"
    and "int (length history) = index" "hd_index (last history) = index - 1" "\<not> fast_mining_enabled s"
  shows "float_le (float_of_int 1200) (float_sub now (Fin t)) \<Longrightarrow>
    expected_difficulty_for_block now index history s = (Inr (Some 1), s)"
  using assms
  by (auto simp: expected_difficulty_for_block_def and_then_def calculate_next_difficulty_def should_reset_testnet_difficulty_def
      TESTNET_DIFFICULTY_RESET_SECONDS_def)

section \<open>The direction of the two rules\<close>

lemma sanitize_increasing:
  "sorted_wrt (<) (l # ts) \<Longrightarrow> sanitize_timestamps step (Some (Fin l)) (map Fin ts) = map Fin ts"
  by (induction ts arbitrary: l) (auto simp: float_le_def float_eq_def)

lemma sanitize_sorted: "sorted_wrt (<) ts \<Longrightarrow> sanitize_timestamps step None (map Fin ts) = map Fin ts"
  by (cases ts) (simp_all add: sanitize_increasing)

text \<open>
  when the blocks of the window carry increasing timestamps, the adjuster raises the difficulty
  or keeps it if the window took no longer than its blocks should take, and lowers it or keeps it if
  the window took at least that long: rounding never turns the direction.
\<close>

lemma retarget_direction:
  assumes d: "1 \<le> d" "d \<le> 2 ^ 50" and a: "adj_max_factor a = 4" "adj_min a = 1" "4 * d \<le> adj_max a"
    and w: "2 \<le> adj_window a" "adj_window a < length chain"
    and ts: "map hd_timestamp (drop (length chain - adj_window a) chain) = map Fin ts" "sorted_wrt (<) ts"
    and e: "expected = adj_target a * (int (adj_window a) - 1)" "1 \<le> expected" "expected < 2 ^ 53"
    and span: "1 \<le> last ts - hd ts" "last ts - hd ts \<le> 2 ^ 52"
  shows "\<exists>n. calculate_new_difficulty a chain d = Inr n \<and>
    (last ts - hd ts \<le> of_int expected \<longrightarrow> d \<le> n) \<and> (of_int expected \<le> last ts - hd ts \<longrightarrow> n \<le> d)"
proof -
  have len: "length ts = adj_window a" using arg_cong [OF ts(1), of length] w by simp
  then have ne: "ts \<noteq> []" using w by auto
  have one: "to_float 1 = Fin 1" and big: "to_float (2 ^ 52) = Fin (2 ^ 52)" and ex: "to_float (of_int expected) = Fin (of_int expected)"
    using to_float_int [of 1] to_float_int [of "2 ^ 52"] to_float_int [of expected] e by simp_all
  define x where "x = last ts - hd ts"
  have x: "1 \<le> x" "x \<le> 2 ^ 52" using span by (simp_all add: x_def)
  obtain t where t: "to_float x = Fin t" using to_float_mono [OF _ x(2) big] x(1) by auto
  have t1: "1 \<le> t" using to_float_mono_ge [OF _ x(1) one] t by auto
  have fast: "t \<le> of_int expected" if "x \<le> of_int expected"
    using to_float_mono [OF _ that ex] x(1) t by auto
  have slow: "of_int expected \<le> t" if "of_int expected \<le> x"
    using to_float_mono_ge [OF _ that ex] e(2) t by auto
  define r where "r = to_float (of_int expected / t)"
  have epos: "0 < (of_int expected :: rat)" using e(2) by simp
  obtain n where n: "round_number (times_int d (limit_ratio 4 r)) = Inr n" "n \<le> 4 * d"
    "\<forall>q. r = Fin q \<longrightarrow> (1 \<le> q \<longrightarrow> d \<le> n) \<and> (q \<le> 1 \<longrightarrow> n \<le> d)" "r = PosInf \<longrightarrow> d \<le> n"
    using times_limit [OF d, of r] by blast
  have result: "calculate_new_difficulty a chain d = Inr (max 1 n)"
  proof -
    have times: "float_sub (last (map Fin ts)) (hd (map Fin ts)) = Fin t"
      using ne t by (simp add: last_map hd_map float_sub_def x_def)
    have "min (adj_window a) (length chain - 1) = adj_window a" "adj_window a \<noteq> 0" "\<not> length chain < 2" using w by auto
    moreover have "float_div (float_of_int expected) (Fin t) = Inr r"
      using t1 ex by (simp add: float_of_int_def r_def)
    ultimately show ?thesis
      using t1 e(2) n(1,2) a
      by (simp add: calculate_new_difficulty_def Let_def ts(1) sanitize_sorted [OF ts(2)] times e(1) [symmetric]
          float_eq_def float_le_def clamp_to_cap)
  qed
  have "d \<le> n" if "x \<le> of_int expected"
  proof -
    have "1 \<le> of_int expected / t" using fast [OF that] t1 by simp
    from to_float_mono_ge [OF _ this one] n(3,4) show ?thesis by (auto simp: r_def)
  qed
  moreover have "n \<le> d" if "of_int expected \<le> x"
  proof -
    have "of_int expected / t \<le> 1" using slow [OF that] t1 by simp
    from to_float_mono [OF _ this one] n(3) epos t1 show ?thesis by (auto simp: r_def)
  qed
  ultimately show ?thesis using result d(1) by (auto simp: x_def)
qed

definition sample_adjuster :: adjuster where
  "sample_adjuster = (new_adjuster 120)\<lparr>adj_window := 2, adj_max := 40\<rparr>"

lemma sample_adjuster_fields [simp]:
  "adj_window sample_adjuster = 2" "adj_max sample_adjuster = 40" "adj_min sample_adjuster = 1"
  "adj_max_factor sample_adjuster = 4" "adj_target sample_adjuster = 120"
  by (simp_all add: sample_adjuster_def new_adjuster_def Let_def)

definition sample_window :: "header list" where
  "sample_window = [tip_header 0 (Fin 0) 8, tip_header 1 (Fin 9) 8, tip_header 2 (Fin 20) 8]"

text \<open>
  The rule of the mixin divides by the ratio it should multiply by: two blocks that took a quarter
  of their time quarter the difficulty, and two that took four times as long raise it.
\<close>

lemma interval_retarget_inverted:
  assumes "max_difficulty_change s = 4" "adjustment_interval s = 2" "target_block_time s = 120"
  shows "interval_difficulty s [tip_header 0 (Fin 0) 8, tip_header 1 (Fin 60) 8] 8 = Inr 2"
    and "interval_difficulty s [tip_header 0 (Fin 0) 8, tip_header 1 (Fin 960) 8] 8 = Inr 32"
proof -
  have f: "to_float 240 = Fin 240" "to_float 8 = Fin 8" "to_float 4 = Fin 4" "to_float 60 = Fin 60"
    "to_float 960 = Fin 960" "to_float 2 = Fin 2" "to_float 32 = Fin 32"
    using to_float_int [of 240] to_float_int [of 8] to_float_int [of 4] to_float_int [of 60]
      to_float_int [of 960] to_float_int [of 2] to_float_int [of 32] by simp_all
  have "round_even 2 = 2" "round_even 32 = 32" using round_even_of_int [of 2] round_even_of_int [of 32] by simp_all
  then show "interval_difficulty s [tip_header 0 (Fin 0) 8, tip_header 1 (Fin 60) 8] 8 = Inr 2"
    "interval_difficulty s [tip_header 0 (Fin 0) 8, tip_header 1 (Fin 960) 8] 8 = Inr 32"
    using assms by (simp_all add: interval_difficulty_def Let_def float_sub_def float_of_int_def f float_four float_le_def float_eq_def)
qed

end
