(* ===== verification/TxValidator.thy ===== *)
theory TxValidator
  imports Transactions NonceTracker
begin

text \<open>
  \<open>TransactionValidator\<close> of \<open>consensus/transaction_validator.py\<close> with the checks it uses of
  \<open>SecurityValidator\<close> (\<open>security/security_validation.py\<close>), over the pool of pending transactions
  (\<open>blockchain_components/mempool_mixin.py\<close>), whose record is declared here. An exception of any
  kind makes the answer False. The methods change the transaction alone: its cached size and, for a
  coinbase, its id.
\<close>

section \<open>The pool the validator looks at\<close>

record ban =
  ban_count :: int
  ban_first_seen :: pyfloat
  banned_until :: pyfloat

record ('s, 'p) mempool =
  mp_pending :: "transaction list"
  mp_orphans :: "transaction list"
  mp_seen :: "string set"
  mp_sender_count :: "(string \<times> int) list"
  mp_spent_inputs :: "string set"
  mp_by_txid :: "(string \<times> transaction) list"
  mp_pending_nonces :: "(string \<times> int) set"
  mp_invalid_senders :: "(string \<times> ban) list"
  mp_rejected_invalid :: int
  mp_rejected_banned :: int
  mp_rejected_low_fee :: int
  mp_rejected_sender_cap :: int
  mp_evicted_low_fee :: int
  mp_expired :: int
  mp_max_size :: int
  mp_max_per_sender :: int
  mp_max_age :: int
  mp_invalid_threshold :: int
  mp_ban_seconds :: int
  mp_window_seconds :: int
  mp_utxos :: "'s utxo_manager"
  mp_tracker :: nonce_tracker
  mp_sponsors :: 'p

text \<open>Configuration and the functions the repository does not hold.\<close>

record node_env =
  env_network :: string
  env_min_fee_rate :: pyfloat
  env_max_contract_gas :: int
  env_crypto :: crypto
  env_sha :: "string \<Rightarrow> string"
  env_context :: string
  env_float_text :: "pyfloat \<Rightarrow> string"
  env_checksum :: "string \<Rightarrow> bool \<times> string"

definition env_hash :: "node_env \<Rightarrow> transaction \<Rightarrow> string" where
  "env_hash E t = calculate_hash (env_sha E) (env_float_text E) (env_context E) t"

definition is_mainnet :: "node_env \<Rightarrow> bool" where
  "is_mainnet E \<longleftrightarrow> to_lower (env_network E) = ''mainnet''"

section \<open>Checks of data formats\<close>

definition SECURITY_MAX_FEE :: pyfloat where "SECURITY_MAX_FEE = Fin 1000"

text \<open>\<open>SecurityValidator\<close> turns every \<open>ValueError\<close> into its \<open>ValidationError\<close>.\<close>

definition as_validation_error :: "exn + 'a \<Rightarrow> exn + 'a" where
  "as_validation_error r = (case r of Inl ValueError \<Rightarrow> Inl ValidationError | _ \<Rightarrow> r)"

definition sv_validate_amount :: "pyfloat \<Rightarrow> exn + pyfloat" where
  "sv_validate_amount x = as_validation_error
     (validate_decimal False (Some MINIMUM_TRANSACTION_AMOUNT) (Some (Fin MAX_SUPPLY)) (FloatAmount x))"

definition sv_validate_fee :: "pyfloat \<Rightarrow> exn + pyfloat" where
  "sv_validate_fee x = as_validation_error (validate_decimal True None (Some SECURITY_MAX_FEE) (FloatAmount x))"

text \<open>\<open>re.search\<close> of a pattern that is a predicate on what follows.\<close>

fun search :: "(string \<Rightarrow> bool) \<Rightarrow> string \<Rightarrow> bool" where
  "search P [] \<longleftrightarrow> P []"
| "search P (c # cs) \<longleftrightarrow> P (c # cs) \<or> search P cs"

definition two_hex_after :: "string \<Rightarrow> string \<Rightarrow> bool" where
  "two_hex_after p s \<longleftrightarrow>
     starts_with p s \<and> length s \<ge> length p + 2 \<and> (\<forall>c \<in> set (take 2 (drop (length p) s)). is_hex_char c)"

definition dangerous :: "string \<Rightarrow> bool" where
  "dangerous a \<longleftrightarrow>
     (\<exists>c \<in> set a. c = CHR 0x27 \<or> c \<in> set ''\";<>&|`$(){}'') \<or>
     search (starts_with ''<script'') (to_lower a) \<or>
     search (starts_with ''javascript:'') (to_lower a) \<or>
     search (starts_with ''../'') a \<or>
     search (two_hex_after [CHR 0x5C, CHR ''x'']) (to_lower a) \<or>
     search (two_hex_after ''%'') a"

definition sv_validate_address :: "node_env \<Rightarrow> string \<Rightarrow> exn + string" where
  "sv_validate_address E address =
     (let a = strip address; expected = (if is_mainnet E then ''XAI'' else ''TXAI'') in
      if a = [] then Inl ValidationError
      else if dangerous a then Inl ValidationError
      else as_validation_error
        (if a \<notin> set SPECIAL_ADDRESSES \<and> \<not> isl (require_prefix a) \<and> \<not> starts_with expected a then Inl ValueError
         else validate_format (env_checksum E) True a))"

definition sv_validate_timestamp :: "pyfloat \<Rightarrow> pyfloat \<Rightarrow> exn + pyfloat" where
  "sv_validate_timestamp now t =
     (if float_less t (Fin 946684800) then Inl ValidationError
      else if float_less (Fin 4102444800) t then Inl ValidationError
      else if float_less (float_add now (float_of_int 7200)) t then Inl ValidationError else Inr t)"

definition sv_validate_hex_string :: "nat \<Rightarrow> string \<Rightarrow> exn + string" where
  "sv_validate_hex_string exact value =
     (let v = to_lower (strip value) in
      if v = [] \<or> \<not> (\<forall>c \<in> set v. c \<in> set ''0123456789abcdef'') then Inl ValidationError
      else if length v \<noteq> exact then Inl ValidationError else Inr v)"

section \<open>The checks of the validator\<close>

definition MAX_TRANSACTION_SIZE_BYTES :: nat where "MAX_TRANSACTION_SIZE_BYTES = 100000"
definition MAX_TRANSACTION_AGE_SECONDS :: pyfloat where "MAX_TRANSACTION_AGE_SECONDS = Fin 3600"
definition MAX_TRANSACTION_FUTURE_SECONDS :: pyfloat where "MAX_TRANSACTION_FUTURE_SECONDS = Fin 300"

text \<open>A check of the transaction that leaves it alone.\<close>

definition check_that :: "(transaction \<Rightarrow> exn + 'a) \<Rightarrow> (transaction, 'a) meth" where
  [meth_simps]: "check_that f t = (f t, t)"

definition refuse_if :: "bool \<Rightarrow> exn + unit" where
  "refuse_if b = (if b then Inl ValidationError else Inr ())"

definition validate_size :: "node_env \<Rightarrow> transaction \<Rightarrow> exn + unit" where
  "validate_size E t =
     refuse_if (length (json_dumps (env_float_text E) (tx_to_dict t)) > MAX_TRANSACTION_SIZE_BYTES)"

text \<open>The fee rate fills the cache of the size.\<close>

definition check_fee_rate :: "node_env \<Rightarrow> bool \<Rightarrow> (transaction, unit) meth" where
  "check_fee_rate E is_mempool_check t =
     (if t_type t \<in> {''governance_vote'', ''faucet''} then (Inr (), t)
      else case get_fee_rate (env_float_text E) t of
        (rate, t') \<Rightarrow> (refuse_if (is_mempool_check \<and> float_less rate (env_min_fee_rate E)), t'))"

definition check_timestamp_age :: "pyfloat \<Rightarrow> exn + unit" where
  "check_timestamp_age age =
     (if float_less MAX_TRANSACTION_AGE_SECONDS age then Inl ValidationError
      else refuse_if (float_less age (float_neg MAX_TRANSACTION_FUTURE_SECONDS)))"

definition validate_timestamp_and_fee :: "node_env \<Rightarrow> pyfloat \<Rightarrow> bool \<Rightarrow> (transaction, unit) meth" where
  "validate_timestamp_and_fee E now is_mempool_check t =
     (if t_sender t = ''COINBASE'' then (Inr (), t)
      else and_then (check_fee_rate E is_mempool_check) (\<lambda>_.
        check_that (\<lambda>t'. check_timestamp_age (float_sub now (t_timestamp t')))) t)"

text \<open>The checks of a list of results, the first exception among them.\<close>

primrec first_error :: "(exn + unit) list \<Rightarrow> exn + unit" where
  "first_error [] = Inr ()"
| "first_error (r # rs) = (case r of Inl e \<Rightarrow> Inl e | Inr _ \<Rightarrow> first_error rs)"

definition forget :: "exn + 'a \<Rightarrow> exn + unit" where
  "forget r = map_sum id (\<lambda>_. ()) r"

definition text_of :: "string option \<Rightarrow> string" where
  "text_of s = (case s of Some t \<Rightarrow> t | None \<Rightarrow> [])"

definition validate_data_formats :: "node_env \<Rightarrow> pyfloat \<Rightarrow> transaction \<Rightarrow> exn + unit" where
  "validate_data_formats E now t =
     (let coinbase = (t_sender t = ''COINBASE'') in first_error
      [if coinbase then Inr () else forget (sv_validate_address E (t_sender t)),
       if t_recipient t = [] \<or> coinbase then Inr () else forget (sv_validate_address E (t_recipient t)),
       if t_type t = ''governance_vote'' then Inr () else forget (sv_validate_amount (t_amount t)),
       forget (sv_validate_fee (t_fee t)),
       forget (sv_validate_timestamp now (t_timestamp t)),
       if text_of (t_signature t) = [] \<or> coinbase then Inr () else forget (sv_validate_hex_string 128 (text_of (t_signature t))),
       if text_of (t_txid t) = [] then Inr () else forget (sv_validate_hex_string 64 (text_of (t_txid t)))])"

definition validate_transaction_id :: "node_env \<Rightarrow> (transaction, unit) meth" where
  "validate_transaction_id E t =
     (if Some (env_hash E t) = t_txid t then (Inr (), t)
      else if t_sender t = ''COINBASE'' then (Inr (), t\<lparr>t_txid := Some (env_hash E t)\<rparr>)
      else (Inl ValidationError, t))"

definition is_settlement :: "transaction \<Rightarrow> bool" where
  "is_settlement t \<longleftrightarrow> t_type t = ''trade_settlement''"

definition validate_signature :: "node_env \<Rightarrow> transaction \<Rightarrow> exn + unit" where
  "validate_signature E t =
     (if t_sender t = ''COINBASE'' \<or> is_settlement t then Inr ()
      else if text_of (t_signature t) = [] then Inl ValidationError
      else case tx_verify_signature (env_crypto E) (is_mainnet E) (env_hash E) t of
        Inl e \<Rightarrow> Inl e | Inr ok \<Rightarrow> refuse_if (\<not> ok))"

section \<open>Inputs and outputs\<close>

text \<open>\<open>xs[i]\<close> of a list, where a negative index counts from the end.\<close>

definition py_nth :: "'a list \<Rightarrow> int \<Rightarrow> exn + 'a" where
  "py_nth xs i =
     (if 0 \<le> i \<and> i < int (length xs) then Inr (xs ! nat i)
      else if - int (length xs) \<le> i \<and> i < 0 then Inr (xs ! nat (int (length xs) + i)) else Inl IndexError)"

definition is_pending_output_consumed :: "('s, 'p) mempool \<Rightarrow> outpoint \<Rightarrow> bool" where
  "is_pending_output_consumed M k \<longleftrightarrow> utxo_key (fst k) (snd k) \<in> mp_spent_inputs M"

text \<open>Amount and script of what an input spends.\<close>

primrec find_pending_in :: "('s, 'p) mempool \<Rightarrow> transaction \<Rightarrow> outpoint \<Rightarrow> transaction list \<Rightarrow> exn + (pyfloat \<times> string) option" where
  "find_pending_in M t k [] = Inr None"
| "find_pending_in M t k (p # ps) =
     (if t_outputs p = [] \<or> text_of (t_txid p) = [] then find_pending_in M t k ps
      else if t_txid p = Some (fst k) \<and> snd k < int (length (t_outputs p)) then
        (if is_pending_output_consumed M k then find_pending_in M t k ps
         else map_sum id (\<lambda>q. Some (snd q, ''P2PKH '' @ fst q)) (py_nth (t_outputs p) (snd k)))
      else find_pending_in M t k ps)"

definition find_pending_utxo :: "('s, 'p) mempool \<Rightarrow> transaction \<Rightarrow> outpoint \<Rightarrow> exn + (pyfloat \<times> string) option" where
  "find_pending_utxo M t k = find_pending_in M t k (mp_pending M)"

definition find_utxo :: "'s store_ops \<Rightarrow> ('s, 'p) mempool \<Rightarrow> transaction \<Rightarrow> outpoint \<Rightarrow> exn + (pyfloat \<times> string) option" where
  "find_utxo ops M t k =
     (case get_unspent_output ops (fst k) (snd k) False (mp_utxos M) of
        Some u \<Rightarrow> Inr (Some (u_amount u, u_script u))
      | None \<Rightarrow> find_pending_utxo M t k)"

primrec sum_inputs ::
    "'s store_ops \<Rightarrow> ('s, 'p) mempool \<Rightarrow> transaction \<Rightarrow> outpoint list \<Rightarrow> pyfloat \<Rightarrow> exn + pyfloat" where
  "sum_inputs ops M t [] acc = Inr acc"
| "sum_inputs ops M t (k # ks) acc =
     (case find_utxo ops M t k of
        Inl e \<Rightarrow> Inl e
      | Inr None \<Rightarrow> Inl ValidationError
      | Inr (Some (amount, script)) \<Rightarrow>
          if script \<noteq> ''P2PKH '' @ t_sender t then Inl ValidationError
          else sum_inputs ops M t ks (float_add acc amount))"

definition validate_inputs :: "'s store_ops \<Rightarrow> ('s, 'p) mempool \<Rightarrow> transaction \<Rightarrow> exn + pyfloat" where
  "validate_inputs ops M t = sum_inputs ops M t (t_inputs t) (Fin 0)"

primrec sum_outputs :: "node_env \<Rightarrow> transaction \<Rightarrow> (string \<times> pyfloat) list \<Rightarrow> pyfloat \<Rightarrow> exn + pyfloat" where
  "sum_outputs E t [] acc = Inr acc"
| "sum_outputs E t (p # ps) acc =
     (case sv_validate_address E (fst p) of
        Inl e \<Rightarrow> Inl e
      | Inr _ \<Rightarrow>
          (case (if t_type t = ''governance_vote'' then Inr (snd p) else sv_validate_amount (snd p)) of
             Inl e \<Rightarrow> Inl e
           | Inr _ \<Rightarrow> sum_outputs E t ps (float_add acc (snd p))))"

definition validate_outputs :: "node_env \<Rightarrow> transaction \<Rightarrow> exn + pyfloat" where
  "validate_outputs E t = (if t_outputs t = [] then Inl ValidationError else sum_outputs E t (t_outputs t) (Fin 0))"

text \<open>\<open>MonetaryAmount(f"{x:.18f}")\<close>: the text has the exact value of the float rounded to 18 decimals.\<close>

definition fixed18 :: "rat \<Rightarrow> rat" where
  "fixed18 q = of_int (round_even (q * 10 ^ 18)) / 10 ^ 18"

definition new_monetary :: "rat \<Rightarrow> exn + rat" where
  "new_monetary d =
     (case quantize18 d of
        Inl e \<Rightarrow> Inl ValueError
      | Inr v \<Rightarrow> if v < 0 \<or> MAX_SUPPLY < v then Inl ValueError else Inr v)"

fun monetary_of_float :: "pyfloat \<Rightarrow> exn + rat" where
  "monetary_of_float (Fin q) = new_monetary (fixed18 q)"
| "monetary_of_float NaN = Inl InvalidOperation"
| "monetary_of_float x = Inl ValueError"

definition monetary_add :: "rat \<Rightarrow> rat \<Rightarrow> exn + rat" where
  "monetary_add a b = new_monetary (a + b)"

definition covers_exactly :: "pyfloat \<Rightarrow> pyfloat \<Rightarrow> pyfloat \<Rightarrow> exn + bool" where
  "covers_exactly ins outs fee =
     (case monetary_of_float ins of Inl e \<Rightarrow> Inl e | Inr i \<Rightarrow>
      (case monetary_of_float outs of Inl e \<Rightarrow> Inl e | Inr out \<Rightarrow>
       (case monetary_of_float fee of Inl e \<Rightarrow> Inl e | Inr f \<Rightarrow>
         map_sum id (\<lambda>required. required \<le> i) (monetary_add out f))))"

definition check_funds :: "pyfloat \<Rightarrow> pyfloat \<Rightarrow> pyfloat \<Rightarrow> exn + unit" where
  "check_funds ins outs fee =
     (case covers_exactly ins outs fee of
        Inr ok \<Rightarrow> refuse_if (\<not> ok)
      | Inl e \<Rightarrow> if e \<in> {ValueError, TypeError}
          then refuse_if (float_less (float_add ins MINIMUM_TRANSACTION_AMOUNT) (float_add outs fee)) else Inl e)"

definition validate_utxo :: "'s store_ops \<Rightarrow> node_env \<Rightarrow> ('s, 'p) mempool \<Rightarrow> transaction \<Rightarrow> exn + unit" where
  "validate_utxo ops E M t =
     (if t_type t = ''coinbase'' \<or> t_sender t = ''COINBASE'' \<or> is_settlement t then Inr ()
      else if t_inputs t = [] then Inl ValidationError
      else case validate_inputs ops M t of Inl e \<Rightarrow> Inl e
      | Inr i \<Rightarrow> (case validate_outputs E t of Inl e \<Rightarrow> Inl e | Inr out \<Rightarrow> check_funds i out (t_fee t)))"

section \<open>Nonces\<close>

definition is_first_spend_backward_compatible :: "transaction \<Rightarrow> int \<Rightarrow> int \<Rightarrow> nonce_tracker \<Rightarrow> bool" where
  "is_first_spend_backward_compatible t nonce expected tracker \<longleftrightarrow>
     expected = 1 \<and> nonce = 0 \<and> get_nonce (t_sender t) tracker \<le> 0"

text \<open>Without a sender the pool itself is searched.\<close>

definition has_duplicate_nonce_in_pending :: "('s, 'p) mempool \<Rightarrow> transaction \<Rightarrow> int \<Rightarrow> bool" where
  "has_duplicate_nonce_in_pending M t nonce \<longleftrightarrow>
     (if t_sender t \<noteq> [] then (t_sender t, nonce) \<in> mp_pending_nonces M
      else \<exists>p \<in> set (mp_pending M). t_sender p = t_sender t \<and> t_nonce p = Some nonce)"

definition validate_tx_nonce :: "('s, 'p) mempool \<Rightarrow> transaction \<Rightarrow> exn + unit" where
  "validate_tx_nonce M t =
     (if t_sender t = ''COINBASE'' then Inr ()
      else case t_nonce t of
        None \<Rightarrow> Inl ValidationError
      | Some nonce \<Rightarrow>
          let expected = get_next_nonce (t_sender t) (mp_tracker M) in
          if validate_nonce (t_sender t) nonce (mp_tracker M) then Inr ()
          else if is_first_spend_backward_compatible t nonce expected (mp_tracker M) then Inr ()
          else if has_duplicate_nonce_in_pending M t nonce then Inl ValidationError
          else refuse_if (nonce < 0 \<or> expected < nonce))"

section \<open>Transaction types\<close>

fun json_truthy :: "json \<Rightarrow> bool" where
  "json_truthy JNull = False"
| "json_truthy (JBool b) = b"
| "json_truthy (JInt n) = (n \<noteq> 0)"
| "json_truthy (JFloat x) = (x \<noteq> Fin 0)"
| "json_truthy (JStr s) = (s \<noteq> [])"
| "json_truthy (JList xs) = (xs \<noteq> [])"
| "json_truthy (JObj ms) = (ms \<noteq> [])"

text \<open>A bool is an \<open>int\<close>.\<close>

fun json_int :: "json \<Rightarrow> int option" where
  "json_int (JInt n) = Some n"
| "json_int (JBool b) = Some (if b then 1 else 0)"
| "json_int j = None"

definition json_number :: "json \<Rightarrow> pyfloat option" where
  "json_number j = (case j of JFloat x \<Rightarrow> Some x | _ \<Rightarrow> map_option float_of_int (json_int j))"

definition validate_contract_transaction :: "node_env \<Rightarrow> transaction \<Rightarrow> exn + unit" where
  "validate_contract_transaction E t =
     (case map_of (t_metadata t) ''data'' of
        None \<Rightarrow> Inl ValidationError
      | Some payload \<Rightarrow>
          if \<not> json_truthy payload then Inl ValidationError
          else case (case map_of (t_metadata t) ''gas_limit'' of None \<Rightarrow> None | Some g \<Rightarrow> json_int g) of
            None \<Rightarrow> Inl ValidationError
          | Some gas_limit \<Rightarrow>
              if gas_limit \<le> 0 \<or> env_max_contract_gas E < gas_limit then Inl ValidationError
              else (case payload of JStr s \<Rightarrow> refuse_if (strip s = []) | _ \<Rightarrow> Inr ()))"

definition validate_time_capsule_lock :: "transaction \<Rightarrow> exn + unit" where
  "validate_time_capsule_lock t =
     (case map_of (t_metadata t) ''capsule_id'' of
        None \<Rightarrow> Inl ValidationError
      | Some i \<Rightarrow>
          if \<not> json_truthy i then Inl ValidationError
          else case (case map_of (t_metadata t) ''unlock_time'' of None \<Rightarrow> None | Some u \<Rightarrow> json_number u) of
            None \<Rightarrow> Inl ValidationError
          | Some u \<Rightarrow> refuse_if (float_le u (t_timestamp t)))"

definition validate_governance_vote :: "transaction \<Rightarrow> exn + unit" where
  "validate_governance_vote t =
     (case map_of (t_metadata t) ''proposal_id'' of
        None \<Rightarrow> Inl ValidationError
      | Some i \<Rightarrow>
          if \<not> json_truthy i then Inl ValidationError
          else case map_of (t_metadata t) ''vote'' of
            None \<Rightarrow> Inl ValidationError
          | Some v \<Rightarrow> refuse_if (v \<notin> {JStr ''yes'', JStr ''no'', JStr ''abstain''}))"

definition validate_transaction_type_specific :: "node_env \<Rightarrow> transaction \<Rightarrow> exn + unit" where
  "validate_transaction_type_specific E t =
     (if t_type t \<in> {''contract_call'', ''contract_deploy''} then validate_contract_transaction E t
      else if t_type t = ''time_capsule_lock'' then validate_time_capsule_lock t
      else if t_type t = ''governance_vote'' then validate_governance_vote t
      else Inr ())"

section \<open>The validator\<close>

text \<open>\<open>now\<close> and \<open>now'\<close> are the two readings of the clock.\<close>

definition run_checks ::
    "'s store_ops \<Rightarrow> node_env \<Rightarrow> pyfloat \<Rightarrow> pyfloat \<Rightarrow> bool \<Rightarrow> ('s, 'p) mempool \<Rightarrow> (transaction, unit) meth" where
  "run_checks ops E now now' is_mempool_check M =
     and_then (check_that (validate_size E)) (\<lambda>_.
     and_then (validate_timestamp_and_fee E now is_mempool_check) (\<lambda>_.
     and_then (check_that (validate_data_formats E now')) (\<lambda>_.
     and_then (validate_transaction_id E) (\<lambda>_.
     and_then (check_that (validate_signature E)) (\<lambda>_.
     and_then (check_that (validate_utxo ops E M)) (\<lambda>_.
     and_then (check_that (validate_tx_nonce M)) (\<lambda>_.
     check_that (validate_transaction_type_specific E))))))))"

definition validate_transaction ::
    "'s store_ops \<Rightarrow> node_env \<Rightarrow> pyfloat \<Rightarrow> pyfloat \<Rightarrow> bool \<Rightarrow> ('s, 'p) mempool \<Rightarrow> transaction \<Rightarrow> bool \<times> transaction" where
  "validate_transaction ops E now now' is_mempool_check M t =
     (case run_checks ops E now now' is_mempool_check M t of (Inr _, t') \<Rightarrow> (True, t') | (Inl _, t') \<Rightarrow> (False, t'))"

section \<open>What an accepted transaction has\<close>

lemma env_hash_size [simp]: "env_hash E (t\<lparr>t_cached_size := n\<rparr>) = env_hash E t"
  by (simp add: env_hash_def calculate_hash_def tx_data_def)

lemma find_pending_size [simp]: "find_pending_in M (t\<lparr>t_cached_size := n\<rparr>) k ps = find_pending_in M t k ps"
  by (induction ps) simp_all

lemma find_utxo_size [simp]: "find_utxo ops M (t\<lparr>t_cached_size := n\<rparr>) k = find_utxo ops M t k"
  by (simp add: find_utxo_def find_pending_utxo_def split: option.split)

lemma sum_inputs_size [simp]: "sum_inputs ops M (t\<lparr>t_cached_size := n\<rparr>) ks acc = sum_inputs ops M t ks acc"
  by (induction ks arbitrary: acc) (simp_all split: sum.splits option.splits)

lemma sum_outputs_size [simp]: "sum_outputs E (t\<lparr>t_cached_size := n\<rparr>) ps acc = sum_outputs E t ps acc"
  by (induction ps arbitrary: acc) (simp_all split: sum.splits)

lemma verify_size [simp]: "tx_verify_signature c b (env_hash E) (t\<lparr>t_cached_size := n\<rparr>) = tx_verify_signature c b (env_hash E) t"
  by (simp add: tx_verify_signature_def split: option.split list.split sum.split)

lemma nonce_size [simp]:
  "is_first_spend_backward_compatible (t\<lparr>t_cached_size := n\<rparr>) k e tr = is_first_spend_backward_compatible t k e tr"
  "has_duplicate_nonce_in_pending M (t\<lparr>t_cached_size := n\<rparr>) k = has_duplicate_nonce_in_pending M t k"
  by (simp_all add: is_first_spend_backward_compatible_def has_duplicate_nonce_in_pending_def)

lemma checks_size [simp]:
  "validate_signature E (t\<lparr>t_cached_size := n\<rparr>) = validate_signature E t"
  "validate_utxo ops E M (t\<lparr>t_cached_size := n\<rparr>) = validate_utxo ops E M t"
  "validate_tx_nonce M (t\<lparr>t_cached_size := n\<rparr>) = validate_tx_nonce M t"
  "validate_data_formats E now (t\<lparr>t_cached_size := n\<rparr>) = validate_data_formats E now t"
  by (simp_all add: validate_signature_def validate_utxo_def validate_tx_nonce_def validate_data_formats_def is_settlement_def
      validate_inputs_def validate_outputs_def Let_def split: option.split sum.split)

lemma fee_step: "\<exists>r n. validate_timestamp_and_fee E now b t = (r, t\<lparr>t_cached_size := n\<rparr>)"
proof (cases "t_sender t = ''COINBASE'' \<or> t_type t \<in> {''governance_vote'', ''faucet''}")
  case True
  then have "snd (validate_timestamp_and_fee E now b t) = t\<lparr>t_cached_size := t_cached_size t\<rparr>"
    by (auto simp: validate_timestamp_and_fee_def check_fee_rate_def and_then_def check_that_def)
  then show ?thesis by (metis prod.collapse)
next
  case False
  then have "snd (validate_timestamp_and_fee E now b t) = t\<lparr>t_cached_size := Some (tx_size (env_float_text E) t)\<rparr>"
    by (auto simp: validate_timestamp_and_fee_def check_fee_rate_def get_fee_rate_def get_size_def and_then_def check_that_def
        split: sum.split)
  then show ?thesis by (metis prod.collapse)
qed

text \<open>The checks one by one, for a sender that is not the chain itself.\<close>

lemma accepted_checks:
  assumes "validate_transaction ops E now now' b M t = (True, t')" and "t_sender t \<noteq> ''COINBASE''"
  shows "(\<exists>n. t' = t\<lparr>t_cached_size := n\<rparr>) \<and> validate_data_formats E now' t = Inr () \<and> t_txid t = Some (env_hash E t) \<and>
    validate_signature E t = Inr () \<and> validate_utxo ops E M t = Inr () \<and> validate_tx_nonce M t = Inr () \<and>
    fst (validate_timestamp_and_fee E now b t) = Inr ()"
proof -
  obtain r n where step: "validate_timestamp_and_fee E now b t = (r, t\<lparr>t_cached_size := n\<rparr>)"
    using fee_step by metis
  show ?thesis
    using assms
    by (auto simp: validate_transaction_def run_checks_def and_then_def check_that_def step validate_transaction_id_def
        split: sum.splits if_splits prod.splits)
qed

lemma list_all2_partner: "list_all2 P xs ys \<Longrightarrow> x \<in> set xs \<Longrightarrow> \<exists>y. P x y"
  by (induction xs ys rule: list_all2_induct) auto

lemma sum_inputs_found:
  "sum_inputs ops M t ks acc = Inr r \<Longrightarrow>
     \<exists>as. list_all2 (\<lambda>k a. find_utxo ops M t k = Inr (Some (a, ''P2PKH '' @ t_sender t))) ks as \<and> r = foldl float_add acc as"
proof (induction ks arbitrary: acc)
  case (Cons k ks)
  then obtain a where a: "find_utxo ops M t k = Inr (Some (a, ''P2PKH '' @ t_sender t))"
    "sum_inputs ops M t ks (float_add acc a) = Inr r"
    by (auto split: sum.splits option.splits if_splits)
  obtain as where "list_all2 (\<lambda>k a. find_utxo ops M t k = Inr (Some (a, ''P2PKH '' @ t_sender t))) ks as"
    "r = foldl float_add (float_add acc a) as"
    using Cons.IH [OF a(2)] by blast
  then show ?case using a(1) by (intro exI [of _ "a # as"]) simp
qed simp

lemma sum_outputs_found: "sum_outputs E t ps acc = Inr r \<Longrightarrow> r = foldl float_add acc (map snd ps)"
  by (induction ps arbitrary: acc) (auto split: sum.splits)

text \<open>
  C34: A transaction the validator accepts, unless it is a coinbase or says it is a settlement, carries the
  hash of its contents as its id and a signature of that hash by a key whose address is the sender,
  and each of its inputs names an output that is unspent, or made by a pending transaction, and locked to the sender.
\<close>

theorem validated_authentic:
  assumes "validate_transaction ops E now now' b M t = (True, t')"
    and "t_sender t \<noteq> ''COINBASE''" "t_type t \<noteq> ''coinbase''" "t_type t \<noteq> ''trade_settlement''"
  shows "t_txid t = Some (env_hash E t) \<and> tx_verify_signature (env_crypto E) (is_mainnet E) (env_hash E) t = Inr True \<and>
    t_inputs t \<noteq> [] \<and> (\<forall>k \<in> set (t_inputs t). \<exists>a. find_utxo ops M t k = Inr (Some (a, ''P2PKH '' @ t_sender t)))"
proof -
  from accepted_checks [OF assms(1,2)]
  have sig: "validate_signature E t = Inr ()" and funds: "validate_utxo ops E M t = Inr ()" and tid: "t_txid t = Some (env_hash E t)"
    by blast+
  have verified: "tx_verify_signature (env_crypto E) (is_mainnet E) (env_hash E) t = Inr True"
    using sig assms(2,4) by (simp add: validate_signature_def is_settlement_def refuse_if_def split: if_splits sum.splits)
  obtain i where ins: "t_inputs t \<noteq> []" "validate_inputs ops M t = Inr i"
    using funds assms(2-4) by (simp add: validate_utxo_def is_settlement_def split: if_splits sum.splits)
  obtain as where found: "list_all2 (\<lambda>k a. find_utxo ops M t k = Inr (Some (a, ''P2PKH '' @ t_sender t))) (t_inputs t) as"
    using sum_inputs_found [OF ins(2) [unfolded validate_inputs_def]] by blast
  have "\<forall>k \<in> set (t_inputs t). \<exists>a. find_utxo ops M t k = Inr (Some (a, ''P2PKH '' @ t_sender t))"
    by (rule ballI) (rule list_all2_partner [OF found])
  with tid verified ins(1) show ?thesis by (intro conjI)
qed

section \<open>No value is made\<close>

lemma fixed18_near: "\<bar>fixed18 q - q\<bar> \<le> 1 / (2 * 10 ^ 18)"
proof -
  have "\<bar>of_int (round_even (q * 10 ^ 18)) - q * 10 ^ 18\<bar> \<le> (1 / 2 :: rat)" by (rule round_even_near)
  then show ?thesis by (simp add: fixed18_def field_simps abs_le_iff)
qed

lemma fixed18_mono: "p \<le> q \<Longrightarrow> fixed18 p \<le> fixed18 q"
  by (simp add: fixed18_def divide_right_mono round_even_mono)

lemma fixed18_int [simp]: "fixed18 (of_int n) = of_int n"
proof -
  have "round_even (of_int n * 10 ^ 18) = n * 10 ^ 18" using round_even_of_int [of "n * 10 ^ 18"] by simp
  then show ?thesis by (simp add: fixed18_def)
qed

lemma new_monetary_units:
  assumes "0 \<le> n" "of_int n / 10 ^ 18 \<le> MAX_SUPPLY"
  shows "new_monetary (of_int n / 10 ^ 18) = Inr (of_int n / 10 ^ 18)"
proof -
  have "(of_int n :: rat) \<le> of_int (121000000 * 10 ^ 18)" using assms(2) by (simp add: MAX_SUPPLY_def field_simps)
  then have "n \<le> 121000000 * 10 ^ 18" by (simp only: of_int_le_iff)
  moreover have "\<not> (of_int n / 10 ^ 18 :: rat) < 0" using assms(1) by simp
  ultimately have "quantize18 (of_int n / 10 ^ 18) = Inr (of_int n / 10 ^ 18)"
    using assms(1) by (simp add: quantize18_def DECIMAL_PRECISION_def Let_def)
  then show ?thesis using assms by (simp add: new_monetary_def)
qed

lemma fixed18_units: "\<exists>n. fixed18 q = of_int n / 10 ^ 18 \<and> n = round_even (q * 10 ^ 18)"
  by (simp add: fixed18_def)

lemma monetary_exact:
  assumes "0 \<le> q" "q \<le> MAX_SUPPLY"
  shows "monetary_of_float (Fin q) = Inr (fixed18 q)"
proof -
  have "0 \<le> round_even (q * 10 ^ 18)"
    using round_even_mono [of 0 "q * 10 ^ 18"] round_even_of_int [of 0] assms(1) by simp
  moreover have "fixed18 q \<le> MAX_SUPPLY" using fixed18_mono [OF assms(2)] fixed18_int [of 121000000] by (simp add: MAX_SUPPLY_def)
  ultimately show ?thesis using new_monetary_units by (simp add: fixed18_def)
qed

lemma check_funds_exact:
  assumes "0 \<le> i" "i \<le> MAX_SUPPLY" and "0 \<le> s" "0 \<le> f" "s + f \<le> MAX_SUPPLY - 1"
    and "check_funds (Fin i) (Fin s) (Fin f) = Inr ()"
  shows "s + f \<le> i + 3 / (2 * 10 ^ 18)"
proof -
  have sf: "s \<le> MAX_SUPPLY" "f \<le> MAX_SUPPLY" using assms(3-5) by simp_all
  have near: "\<bar>fixed18 i - i\<bar> \<le> 1 / (2 * 10 ^ 18)" "\<bar>fixed18 s - s\<bar> \<le> 1 / (2 * 10 ^ 18)" "\<bar>fixed18 f - f\<bar> \<le> 1 / (2 * 10 ^ 18)"
    by (rule fixed18_near)+
  have nonneg: "0 \<le> fixed18 s" "0 \<le> fixed18 f"
    using fixed18_mono [OF assms(3)] fixed18_mono [OF assms(4)] fixed18_int [of 0] by simp_all
  define u where "u = (1 / (2 * 10 ^ 18) :: rat)"
  have u: "u + u \<le> 1" "u + u + u = 3 / (2 * 10 ^ 18)" by (simp_all add: u_def)
  note near = near [folded u_def]
  have "fixed18 s + fixed18 f \<le> MAX_SUPPLY" using near(2,3) assms(5) u(1) unfolding abs_le_iff by linarith
  moreover have "fixed18 s + fixed18 f = of_int (round_even (s * 10 ^ 18) + round_even (f * 10 ^ 18)) / 10 ^ 18"
    by (simp add: fixed18_def add_divide_distrib)
  moreover from this have "0 \<le> round_even (s * 10 ^ 18) + round_even (f * 10 ^ 18)"
    using nonneg by (simp add: zero_le_divide_iff add_nonneg_nonneg)
  ultimately have "monetary_add (fixed18 s) (fixed18 f) = Inr (fixed18 s + fixed18 f)"
    using new_monetary_units unfolding monetary_add_def by metis
  then have "fixed18 s + fixed18 f \<le> fixed18 i"
    using assms(6) monetary_exact [OF assms(1,2)] monetary_exact [OF assms(3) sf(1)] monetary_exact [OF assms(4) sf(2)]
    by (simp add: check_funds_def covers_exactly_def refuse_if_def split: if_splits)
  then show ?thesis using near u(2) unfolding abs_le_iff by linarith
qed

text \<open>
  C35: An accepted transfer makes no value: its outputs and its fee together are at most the sum of
  the amounts of the outputs it spends, which all belong to its sender, but for one and a half units of the last
  decimal. So it is for a transfer that names no output twice, as the manager of outputs demands and the validator
  does not, is no coinbase, settlement or vote, and whose amounts are finite and stay below the supply; the sums are those of floats.
\<close>

theorem validated_value:
  assumes "validate_transaction ops E now now' b M t = (True, t')"
    and "t_sender t \<noteq> ''COINBASE''" "t_type t \<notin> {''coinbase'', ''trade_settlement'', ''governance_vote''}"
    and "distinct (t_inputs t)"
    and "float_sum (map snd (t_outputs t)) = Fin s" "t_fee t = Fin f" "0 \<le> s" "0 \<le> f" "s + f \<le> MAX_SUPPLY - 1"
  shows "\<exists>spent. distinct (map fst spent) \<and> fst ` set spent = set (t_inputs t) \<and>
    (\<forall>p \<in> set spent. find_utxo ops M t (fst p) = Inr (Some (snd p, ''P2PKH '' @ t_sender t))) \<and>
    (\<forall>i. float_sum (map snd spent) = Fin i \<longrightarrow> 0 \<le> i \<longrightarrow> i \<le> MAX_SUPPLY \<longrightarrow> s + f \<le> i + 3 / (2 * 10 ^ 18))"
proof -
  from accepted_checks [OF assms(1,2)] have funds: "validate_utxo ops E M t = Inr ()" by blast
  obtain i out where ins: "validate_inputs ops M t = Inr i" "validate_outputs E t = Inr out" "check_funds i out (t_fee t) = Inr ()"
    using funds assms(2,3) by (auto simp: validate_utxo_def is_settlement_def split: if_splits sum.splits)
  have out: "out = Fin s"
    using sum_outputs_found [of E t "t_outputs t" "Fin 0" out] ins(2) assms(5)
    by (simp add: validate_outputs_def float_sum_def split: if_splits)
  obtain as where as: "list_all2 (\<lambda>k a. find_utxo ops M t k = Inr (Some (a, ''P2PKH '' @ t_sender t))) (t_inputs t) as"
    "i = float_sum as"
    using sum_inputs_found [OF ins(1) [unfolded validate_inputs_def]] by (auto simp: float_sum_def)
  have "s + f \<le> j + 3 / (2 * 10 ^ 18)" if "float_sum as = Fin j" "0 \<le> j" "j \<le> MAX_SUPPLY" for j
    using check_funds_exact [OF that(2,3) assms(7-9)] ins(3) out as(2) that(1) assms(6) by simp
  moreover have len: "length (t_inputs t) = length as" by (rule list_all2_lengthD [OF as(1)])
  moreover have "\<forall>p \<in> set (zip (t_inputs t) as). find_utxo ops M t (fst p) = Inr (Some (snd p, ''P2PKH '' @ t_sender t))"
    using as(1) by (auto simp: list_all2_iff)
  moreover have "fst ` set (zip (t_inputs t) as) = set (t_inputs t)" using len by (metis map_fst_zip set_map)
  ultimately show ?thesis using assms(4) by (intro exI [of _ "zip (t_inputs t) as"]) simp
qed

section \<open>A transaction that passes\<close>

definition alice_address :: string where "alice_address = ''TXAI'' @ take 40 zeros64"

definition sample_signature :: string where "sample_signature = zeros64 @ zeros64"

definition sample_env :: node_env where
  "sample_env = \<lparr>env_network = ''testnet'', env_min_fee_rate = Fin 0, env_max_contract_gas = 20000000,
     env_crypto = \<lparr>derive_public_key_hex = (\<lambda>k. Inr ''aa''), sign_message_hex = (\<lambda>k m. Inr sample_signature),
       verify_signature_hex = (\<lambda>k m s. m = zeros64 \<and> s = sample_signature), sha256_hex = (\<lambda>b. zeros64), to_checksum_address = Inr\<rparr>,
     env_sha = (\<lambda>s. zeros64), env_context = ''main'', env_float_text = (\<lambda>x. ''1''), env_checksum = (\<lambda>a. (True, a))\<rparr>"

definition sample_payment :: transaction where
  "sample_payment = \<lparr>t_sender = alice_address, t_recipient = alice_address, t_amount = Fin 5, t_fee = Fin 0,
     t_public_key = Some ''aa'', t_type = ''faucet'', t_nonce = Some 0, t_inputs = [(''t1'', 0)],
     t_outputs = [(alice_address, Fin 5)], t_metadata = [], t_timestamp = Fin 1700000000, t_signature = Some sample_signature,
     t_txid = Some zeros64, t_rbf_enabled = False, t_replaces = None, t_sponsor = None, t_sponsor_signature = None,
     t_cached_size = None\<rparr>"

definition sample_mempool :: "(mem_utxos, unit) mempool" where
  "sample_mempool = \<lparr>mp_pending = [], mp_orphans = [], mp_seen = {}, mp_sender_count = [], mp_spent_inputs = {}, mp_by_txid = [],
     mp_pending_nonces = {}, mp_invalid_senders = [], mp_rejected_invalid = 0, mp_rejected_banned = 0, mp_rejected_low_fee = 0,
     mp_rejected_sender_cap = 0, mp_evicted_low_fee = 0, mp_expired = 0, mp_max_size = 10000, mp_max_per_sender = 100,
     mp_max_age = 86400, mp_invalid_threshold = 3, mp_ban_seconds = 900, mp_window_seconds = 900,
     mp_utxos = new_manager (mem_load_one alice_address (new_utxo alice_address ''t1'' 0 (Fin 5) (''P2PKH '' @ alice_address)) new_mem_store),
     mp_tracker = new_tracker NoFile (\<lambda>n. 0) (\<lambda>n. None), mp_sponsors = ()\<rparr>"

lemma sample_address_ok: "sv_validate_address sample_env alice_address = Inr alice_address"
  by code_simp

lemma sample_hex_ok: "sv_validate_hex_string 128 sample_signature = Inr sample_signature" "sv_validate_hex_string 64 zeros64 = Inr zeros64"
  by code_simp+

lemma sample_five: "repr_decimal 5 = 5" "repr_decimal 0 = 0"
  by code_simp+

lemma sample_floats: "to_float 5 = Fin 5" "to_float 0 = Fin 0" "float_of_int 7200 = Fin 7200"
  "to_float 1700007200 = Fin 1700007200"
proof -
  show "to_float 0 = Fin 0" by code_simp
qed (use to_float_int [of 5] to_float_int [of 7200] to_float_int [of 1700007200] in \<open>simp_all add: float_of_int_def\<close>)

lemma sample_size: "length (json_dumps (\<lambda>x. ''1'') (tx_to_dict sample_payment)) \<le> 1000"
  by code_simp

lemma sample_verifies: "tx_verify_signature (env_crypto sample_env) (is_mainnet sample_env) (env_hash sample_env) sample_payment = Inr True"
  by code_simp

lemma sample_amounts: "sv_validate_amount (Fin 5) = Inr (Fin 5)" "sv_validate_fee (Fin 0) = Inr (Fin 0)"
  by code_simp+

lemma sample_time: "sv_validate_timestamp (Fin 1700000000) (Fin 1700000000) = Inr (Fin 1700000000)"
  by (simp add: sv_validate_timestamp_def sample_floats)

lemma sample_texts: "alice_address \<noteq> []" "alice_address \<noteq> ''COINBASE''" "sample_signature \<noteq> []" "zeros64 \<noteq> []"
  by code_simp+

lemma sample_found:
  "find_utxo memory_store sample_mempool sample_payment (''t1'', 0) = Inr (Some (Fin 5, ''P2PKH '' @ alice_address))"
  by code_simp

lemma sample_funded: "validate_utxo memory_store sample_env sample_mempool sample_payment = Inr ()"
proof -
  have "float_add (Fin 0) (Fin 5) = Fin 5" by (simp add: sample_floats)
  then have "validate_inputs memory_store sample_mempool sample_payment = Inr (Fin 5)"
    "validate_outputs sample_env sample_payment = Inr (Fin 5)"
    using sample_found sample_address_ok sample_amounts
    by (simp_all add: validate_inputs_def validate_outputs_def sample_payment_def)
  moreover have "monetary_of_float (Fin 5) = Inr 5" "monetary_of_float (Fin 0) = Inr 0" "monetary_add 5 0 = Inr 5"
    using monetary_exact [of 5] monetary_exact [of 0] fixed18_int [of 5] fixed18_int [of 0] new_monetary_units [of "5 * 10 ^ 18"]
    by (simp_all add: MAX_SUPPLY_def monetary_add_def)
  ultimately show ?thesis
    by (simp add: validate_utxo_def check_funds_def covers_exactly_def refuse_if_def) (simp add: sample_payment_def refuse_if_def)
qed

lemma sample_accepted:
  "validate_transaction memory_store sample_env (Fin 1700000000) (Fin 1700000000) True sample_mempool sample_payment = (True, sample_payment)"
proof -
  have "validate_size sample_env sample_payment = Inr ()"
    using sample_size by (simp add: validate_size_def refuse_if_def MAX_TRANSACTION_SIZE_BYTES_def sample_env_def)
  moreover have "validate_timestamp_and_fee sample_env (Fin 1700000000) True sample_payment = (Inr (), sample_payment)"
    by (simp add: validate_timestamp_and_fee_def check_fee_rate_def and_then_def check_that_def sample_payment_def sample_texts
        check_timestamp_age_def float_sub_def sample_floats MAX_TRANSACTION_AGE_SECONDS_def MAX_TRANSACTION_FUTURE_SECONDS_def refuse_if_def)
  moreover have "validate_data_formats sample_env (Fin 1700000000) sample_payment = Inr ()"
    by (simp add: validate_data_formats_def sample_payment_def forget_def text_of_def sample_texts sample_address_ok sample_hex_ok
        sample_amounts sample_time)
  moreover have "validate_transaction_id sample_env sample_payment = (Inr (), sample_payment)"
    by (simp add: validate_transaction_id_def env_hash_def calculate_hash_def sample_env_def sample_payment_def)
  moreover have "validate_signature sample_env sample_payment = Inr ()"
    using sample_verifies by (simp add: validate_signature_def refuse_if_def text_of_def sample_texts) (simp add: sample_payment_def sample_texts)
  moreover have "validate_utxo memory_store sample_env sample_mempool sample_payment = Inr ()"
    by (rule sample_funded)
  moreover have "validate_tx_nonce sample_mempool sample_payment = Inr ()"
    by code_simp
  ultimately show ?thesis
    by (simp add: validate_transaction_def run_checks_def and_then_def check_that_def validate_transaction_type_specific_def sample_payment_def)
qed

theorem validated_authentic_witness:
  "t_txid sample_payment = Some (env_hash sample_env sample_payment) \<and>
   tx_verify_signature (env_crypto sample_env) (is_mainnet sample_env) (env_hash sample_env) sample_payment = Inr True \<and>
   (\<exists>a. find_utxo memory_store sample_mempool sample_payment (''t1'', 0) = Inr (Some (a, ''P2PKH '' @ t_sender sample_payment)))"
proof -
  have "t_txid sample_payment = Some (env_hash sample_env sample_payment) \<and>
   tx_verify_signature (env_crypto sample_env) (is_mainnet sample_env) (env_hash sample_env) sample_payment = Inr True \<and>
   t_inputs sample_payment \<noteq> [] \<and> (\<forall>k \<in> set (t_inputs sample_payment).
     \<exists>a. find_utxo memory_store sample_mempool sample_payment k = Inr (Some (a, ''P2PKH '' @ t_sender sample_payment)))"
    by (rule validated_authentic [OF sample_accepted]) (simp_all add: sample_payment_def sample_texts)
  moreover have "(''t1'', 0) \<in> set (t_inputs sample_payment)" by (simp add: sample_payment_def)
  ultimately show ?thesis by blast
qed

theorem validated_value_witness:
  "\<exists>spent. fst ` set spent = {(''t1'', 0)} \<and> list_all (\<lambda>p. find_utxo memory_store sample_mempool sample_payment (fst p) =
       Inr (Some (snd p, ''P2PKH '' @ t_sender sample_payment))) spent"
proof -
  have "\<exists>spent. distinct (map fst spent) \<and> fst ` set spent = set (t_inputs sample_payment) \<and>
    (\<forall>p \<in> set spent. find_utxo memory_store sample_mempool sample_payment (fst p) =
       Inr (Some (snd p, ''P2PKH '' @ t_sender sample_payment))) \<and>
    (\<forall>i. float_sum (map snd spent) = Fin i \<longrightarrow> 0 \<le> i \<longrightarrow> i \<le> MAX_SUPPLY \<longrightarrow> 5 + 0 \<le> i + 3 / (2 * 10 ^ 18))"
    by (rule validated_value [OF sample_accepted])
      (simp_all add: sample_payment_def sample_texts float_sum_def sample_floats MAX_SUPPLY_def)
  then show ?thesis by (auto simp: sample_payment_def list_all_iff)
qed

section \<open>What the validator lets through\<close>

text \<open>Whoever calls a transaction a settlement needs no signature and no funds, a coinbase no funds.\<close>

lemma settlement_unchecked:
  "is_settlement t \<Longrightarrow> validate_signature E t = Inr () \<and> validate_utxo ops E M t = Inr ()"
  by (simp add: validate_signature_def validate_utxo_def)

lemma coinbase_type_unfunded: "t_type t = ''coinbase'' \<Longrightarrow> validate_utxo ops E M t = Inr ()"
  by (simp add: validate_utxo_def)

text \<open>An input named twice is counted twice.\<close>

lemma duplicate_input_counted:
  assumes "find_utxo ops M t k = Inr (Some (a, ''P2PKH '' @ t_sender t))"
  shows "sum_inputs ops M t [k, k] acc = Inr (float_add (float_add acc a) a)"
  using assms by simp

text \<open>
  The last output of a pending transaction has a second name, the index -1, under which it is not
  known as spent when the first is.
\<close>

lemma pending_output_from_end:
  assumes "get_unspent_output ops i (-1) False (mp_utxos M) = None" and "mp_pending M = p # ps" "t_txid p = Some i" "i \<noteq> []"
    and "t_outputs p \<noteq> []" "utxo_key i (-1) \<notin> mp_spent_inputs M"
  shows "find_utxo ops M t (i, -1) = Inr (Some (snd (last (t_outputs p)), ''P2PKH '' @ fst (last (t_outputs p))))"
proof -
  have "py_nth (t_outputs p) (-1) = Inr (last (t_outputs p))"
    using assms(5) by (simp add: py_nth_def last_conv_nth nat_diff_distrib Suc_le_eq)
  then show ?thesis
    using assms by (simp add: find_utxo_def find_pending_utxo_def is_pending_output_consumed_def text_of_def)
qed

text \<open>A nonce already used passes unless a pending transaction carries it, and nonce 0 in any case.\<close>

lemma stale_nonce_accepted:
  assumes "t_sender t \<noteq> []" "t_nonce t = Some n" "0 \<le> n" "n \<le> get_effective_nonce (t_sender t) (mp_tracker M)"
    and "(t_sender t, n) \<notin> mp_pending_nonces M"
  shows "validate_tx_nonce M t = Inr ()"
  using assms by (simp add: validate_tx_nonce_def Let_def has_duplicate_nonce_in_pending_def refuse_if_def get_next_nonce_def)

lemma nonce_zero_again:
  assumes "t_nonce t = Some 0" "get_effective_nonce (t_sender t) (mp_tracker M) = 0" "get_confirmed_nonce (t_sender t) (mp_tracker M) \<le> 0"
  shows "validate_tx_nonce M t = Inr ()"
  using assms by (simp add: validate_tx_nonce_def Let_def is_first_spend_backward_compatible_def get_next_nonce_def get_nonce_def)

text \<open>Addresses of the newer format never have the prefix that is asked for.\<close>

lemma bech32_refused:
  assumes "strip a = a" "starts_with ''xai'' a" "a \<notin> set SPECIAL_ADDRESSES"
  shows "\<exists>e. sv_validate_address E a = Inl e"
proof -
  have "a \<noteq> []" "\<not> starts_with ''XAI'' a" "\<not> starts_with ''TXAI'' a"
    using assms(2) by (cases a; auto simp: starts_with_def)+
  moreover have "require_prefix a = Inl e \<Longrightarrow> e = ValueError" for e
    by (simp add: require_prefix_def split: option.splits)
  ultimately show ?thesis
    using assms by (auto simp: sv_validate_address_def Let_def as_validation_error_def validate_format_def split: sum.splits)
qed

end
