(* ===== verification/ChainRules.thy ===== *)
theory ChainRules
  imports TxOrder Difficulty TxValidator
begin

text \<open>
  The rules a chain of blocks must satisfy, as \<open>Blockchain\<close> (\<open>blockchain.py\<close>) checks them when it
  adds a block or replaces its chain: timestamps, header versions, signatures, sizes, links, proof
  of work and difficulty, and the work by which chains compare (\<open>chain/fork_manager.py\<close>). Indices of
  headers are not negative, as their constructor demands. Every reading of the clock is a step of
  \<open>judge\<close>, which also holds the difficulty adjuster and the cache of block work.
\<close>

section \<open>Blocks and what judges them\<close>

record full_block =
  fb_header :: header
  fb_txs :: "transaction list"
  fb_miner :: "string option"

record rules =
  ru_env :: node_env
  ru_versions :: "int list"
  ru_span :: nat
  ru_future :: int
  ru_relaxed :: bool

record judge =
  jd_clock :: "nat \<Rightarrow> pyfloat"
  jd_reads :: nat
  jd_retarget :: retarget
  jd_work :: "(string \<times> int) list"

definition wall_clock :: "(judge, pyfloat) meth" where
  "wall_clock s = (Inr (jd_clock s (jd_reads s)), s\<lparr>jd_reads := jd_reads s + 1\<rparr>)"

section \<open>Headers\<close>

definition header_hash_in :: "rules \<Rightarrow> header \<Rightarrow> string" where
  "header_hash_in R h = header_hash (env_sha (ru_env R)) (env_float_text (ru_env R)) h"

definition meets_difficulty :: "header \<Rightarrow> bool" where
  "meets_difficulty h \<longleftrightarrow> starts_with (replicate (nat (hd_difficulty h)) (CHR ''0'')) (hd_hash h)"

definition validate_header_version :: "rules \<Rightarrow> header \<Rightarrow> bool" where
  "validate_header_version R h \<longleftrightarrow> hd_version h \<in> set (ru_versions R)"

text \<open>A header without signature and key passes. A malformed one does not verify.\<close>

definition verify_header_signature :: "rules \<Rightarrow> header \<Rightarrow> bool" where
  "verify_header_signature R h \<longleftrightarrow>
     hd_index h = 0 \<or>
     (case (hd_signature h, hd_miner_pubkey h) of
        (None, None) \<Rightarrow> True
      | (Some s, Some k) \<Rightarrow> verify_signature_hex (env_crypto (ru_env R)) k (hd_hash h) s
      | _ \<Rightarrow> False)"

section \<open>Sizes\<close>

definition header_dict :: "header \<Rightarrow> json" where
  "header_dict h = JObj
     ([(''index'', JInt (hd_index h)), (''previous_hash'', JStr (hd_previous_hash h)), (''merkle_root'', JStr (hd_merkle_root h)),
       (''timestamp'', JFloat (hd_timestamp h)), (''difficulty'', JInt (hd_difficulty h)), (''nonce'', JInt (hd_nonce h)),
       (''signature'', opt_json JStr (hd_signature h)), (''miner_pubkey'', opt_json JStr (hd_miner_pubkey h)),
       (''hash'', JStr (hd_hash h))]
      @ (if hash_includes_version h then [(''version'', JInt (hd_version h))] else []))"

definition miner_of :: "full_block \<Rightarrow> string" where
  "miner_of b =
     (if text_of (fb_miner b) \<noteq> [] then text_of (fb_miner b)
      else if text_of (hd_miner_pubkey (fb_header b)) \<noteq> [] then text_of (hd_miner_pubkey (fb_header b))
      else case fb_txs b of [] \<Rightarrow> [] | t # ts \<Rightarrow> if t_sender t = ''COINBASE'' then t_recipient t else [])"

definition estimate_size_bytes :: "rules \<Rightarrow> full_block \<Rightarrow> int" where
  "estimate_size_bytes R b =
     (let F = env_float_text (ru_env R) in
      int (length (canonical_json F (header_dict (fb_header b)))) + sum_list (map (\<lambda>t. int (tx_size F t)) (fb_txs b))
      + int (length (utf8 (miner_of b))) + 8 + int (length (fb_txs b)) * 4)"

definition MAX_BLOCK_SIZE :: int where "MAX_BLOCK_SIZE = 2000000"
definition MAX_TRANSACTIONS_PER_BLOCK :: int where "MAX_TRANSACTIONS_PER_BLOCK = 10000"

definition block_within_size_limits :: "rules \<Rightarrow> full_block \<Rightarrow> bool" where
  "block_within_size_limits R b \<longleftrightarrow>
     int (length (fb_txs b)) \<le> MAX_TRANSACTIONS_PER_BLOCK \<and> estimate_size_bytes R b \<le> MAX_BLOCK_SIZE"

section \<open>Timestamps\<close>

text \<open>\<open>xs[-n:]\<close>, which is the whole list for n = 0.\<close>

definition last_n :: "nat \<Rightarrow> 'a list \<Rightarrow> 'a list" where
  "last_n n xs = (if n = 0 then xs else drop (length xs - n) xs)"

definition half :: "pyfloat \<Rightarrow> pyfloat" where
  "half x = (case float_div x (Fin 2) of Inr y \<Rightarrow> y | Inl e \<Rightarrow> x)"

definition median_of :: "pyfloat list \<Rightarrow> pyfloat option" where
  "median_of xs =
     (if xs = [] then None
      else let ts = sort xs; mid = length ts div 2 in
        Some (if even (length ts) then half (float_add (ts ! (mid - 1)) (ts ! mid)) else ts ! mid))"

definition block_time :: "full_block \<Rightarrow> pyfloat" where
  "block_time b = hd_timestamp (fb_header b)"

definition median_time_from_history :: "rules \<Rightarrow> full_block list \<Rightarrow> pyfloat option" where
  "median_time_from_history R history = median_of (map block_time (last_n (ru_span R) history))"

definition validate_block_timestamp :: "rules \<Rightarrow> header \<Rightarrow> full_block list \<Rightarrow> (judge, bool) meth" where
  "validate_block_timestamp R h history s =
     (if hd_index h = 0 then (Inr True, s)
      else if history \<noteq> [] \<and> float_le (hd_timestamp h) (block_time (last history)) then (Inr False, s)
      else if (case median_time_from_history R history of Some m \<Rightarrow> float_le (hd_timestamp h) m | None \<Rightarrow> False) then (Inr False, s)
      else and_then wall_clock (\<lambda>now. ret (\<not> float_less (float_add now (float_of_int (ru_future R))) (hd_timestamp h))) s)"

section \<open>Difficulty\<close>

text \<open>
  The clock is read here whether the rule needs it or not: a reading is an arbitrary value, and one
  more of them changes nothing.
\<close>

definition difficulty_as_expected :: "rules \<Rightarrow> header \<Rightarrow> full_block list \<Rightarrow> (judge, bool) meth" where
  "difficulty_as_expected R h history =
     (if ru_relaxed R then ret True
      else and_then wall_clock (\<lambda>now.
        and_then (zoom jd_retarget jd_retarget_update (expected_difficulty_for_block now (hd_index h) (map fb_header history)))
          (\<lambda>expected. ret (case expected of None \<Rightarrow> True | Some d \<Rightarrow> hd_difficulty h = d))))"

section \<open>The structure of a chain\<close>

definition both :: "('s, bool) meth \<Rightarrow> ('s, bool) meth \<Rightarrow> ('s, bool) meth" where
  [meth_simps]: "both m k = and_then m (\<lambda>ok. if ok then k else ret False)"

definition validate_next_block :: "rules \<Rightarrow> full_block list \<Rightarrow> full_block \<Rightarrow> (judge, bool) meth" where
  "validate_next_block R history b =
     (let h = fb_header b; p = fb_header (last history) in
      if hd_previous_hash h \<noteq> hd_hash p then ret False
      else if hd_hash h \<noteq> header_hash_in R h then ret False
      else if \<not> meets_difficulty h then ret False
      else if \<not> validate_header_version R h then ret False
      else both (difficulty_as_expected R h history)
          (both (validate_block_timestamp R h history)
             (ret ((0 < hd_index h \<longrightarrow> verify_header_signature R h) \<and> block_within_size_limits R b))))"

primrec validate_blocks :: "rules \<Rightarrow> full_block list \<Rightarrow> full_block list \<Rightarrow> (judge, bool) meth" where
  "validate_blocks R history [] = ret True"
| "validate_blocks R history (b # bs) =
     both (validate_next_block R history b) (validate_blocks R (history @ [b]) bs)"

definition validate_chain_structure :: "rules \<Rightarrow> full_block list \<Rightarrow> (judge, bool) meth" where
  "validate_chain_structure R chain =
     (case chain of
        [] \<Rightarrow> ret False
      | g # bs \<Rightarrow>
          if hd_index (fb_header g) \<noteq> 0 \<or> hd_previous_hash (fb_header g) \<noteq> zeros64 then ret False
          else if \<not> block_within_size_limits R g then ret False
          else validate_blocks R [g] bs)"

section \<open>Work\<close>

definition MAX_POW_TARGET :: int where "MAX_POW_TARGET = 2 ^ 256 - 1"

definition work_of_difficulty :: "int \<Rightarrow> int" where
  "work_of_difficulty d =
     (let shift = min (max 0 d * 4) 256;
          target = (if 256 \<le> shift then 0 else MAX_POW_TARGET div 2 ^ nat shift)
      in MAX_POW_TARGET div max (target + 1) 1)"

definition WORK_CACHE_SIZE :: nat where "WORK_CACHE_SIZE = 10000"

text \<open>An \<open>OrderedDict\<close>: the oldest entry is the first; a known hash moves to the end.\<close>

definition cache_block_work :: "string \<Rightarrow> int \<Rightarrow> (string \<times> int) list \<Rightarrow> (string \<times> int) list" where
  "cache_block_work h w c =
     (if h = [] then c
      else if map_of c h \<noteq> None then AList.delete h c @ [(h, w)]
      else drop (length c - (WORK_CACHE_SIZE - 1)) c @ [(h, w)])"

definition calculate_block_work :: "header \<Rightarrow> judge \<Rightarrow> int \<times> judge" where
  "calculate_block_work h s =
     (case (if hd_hash h = [] then None else map_of (jd_work s) (hd_hash h)) of
        Some w \<Rightarrow> (w, s)
      | None \<Rightarrow> let w = work_of_difficulty (hd_difficulty h) in (w, s\<lparr>jd_work := cache_block_work (hd_hash h) w (jd_work s)\<rparr>))"

primrec calculate_chain_work :: "header list \<Rightarrow> judge \<Rightarrow> int \<times> judge" where
  "calculate_chain_work [] s = (0, s)"
| "calculate_chain_work (h # hs) s =
     (case calculate_block_work h s of (w, s1) \<Rightarrow> (case calculate_chain_work hs s1 of (ws, s2) \<Rightarrow> (w + ws, s2)))"


section \<open>What a valid chain has\<close>

text \<open>What the rules demand of a block beyond the difficulty and the clock.\<close>

definition follows :: "rules \<Rightarrow> full_block \<Rightarrow> full_block \<Rightarrow> bool" where
  "follows R p b \<longleftrightarrow>
     hd_previous_hash (fb_header b) = hd_hash (fb_header p) \<and> hd_hash (fb_header b) = header_hash_in R (fb_header b) \<and>
     meets_difficulty (fb_header b) \<and> validate_header_version R (fb_header b) \<and>
     (0 < hd_index (fb_header b) \<longrightarrow> \<not> float_le (block_time b) (block_time p) \<and> verify_header_signature R (fb_header b)) \<and>
     block_within_size_limits R b"

definition genesis_ok :: "rules \<Rightarrow> full_block \<Rightarrow> bool" where
  "genesis_ok R g \<longleftrightarrow> hd_index (fb_header g) = 0 \<and> hd_previous_hash (fb_header g) = zeros64 \<and> block_within_size_limits R g"

lemma both_True: "both m k s = (Inr True, s') \<longleftrightarrow> (\<exists>t. m s = (Inr True, t) \<and> k t = (Inr True, s'))"
  by (auto simp: both_def and_then_def ret_def split: prod.splits sum.splits if_splits)

lemma timestamp_later:
  assumes "validate_block_timestamp R h history s = (Inr True, s')" and "0 < hd_index h" and "history \<noteq> []"
  shows "\<not> float_le (hd_timestamp h) (block_time (last history))"
  using assms by (auto simp: validate_block_timestamp_def split: if_splits)

lemma next_block_follows:
  assumes "validate_next_block R history b s = (Inr True, s')" and "history \<noteq> []"
  shows "follows R (last history) b"
proof -
  have raw: "hd_previous_hash (fb_header b) = hd_hash (fb_header (last history))"
    "hd_hash (fb_header b) = header_hash_in R (fb_header b)" "meets_difficulty (fb_header b)" "validate_header_version R (fb_header b)"
    and rest: "both (difficulty_as_expected R (fb_header b) history)
          (both (validate_block_timestamp R (fb_header b) history)
             (ret ((0 < hd_index (fb_header b) \<longrightarrow> verify_header_signature R (fb_header b)) \<and> block_within_size_limits R b))) s = (Inr True, s')"
    using assms(1) by (auto simp: validate_next_block_def Let_def ret_def split: if_splits)
  then obtain s1 s2 where "validate_block_timestamp R (fb_header b) history s1 = (Inr True, s2)"
    and "(0 < hd_index (fb_header b) \<longrightarrow> verify_header_signature R (fb_header b)) \<and> block_within_size_limits R b"
    by (auto simp: both_True ret_def)
  then show ?thesis using raw timestamp_later [OF _ _ assms(2)] by (auto simp: follows_def block_time_def)
qed

lemma blocks_follow:
  assumes "validate_blocks R history bs s = (Inr True, s')" and "history \<noteq> []"
  shows "successively (follows R) (last history # bs)"
  using assms
proof (induction bs arbitrary: history s)
  case (Cons b bs)
  then obtain t where "validate_next_block R history b s = (Inr True, t)" "validate_blocks R (history @ [b]) bs t = (Inr True, s')"
    by (auto simp: both_True)
  then have "follows R (last history) b" "successively (follows R) (last (history @ [b]) # bs)"
    using next_block_follows Cons by blast+
  then show ?case by (simp add: successively_Cons)
qed simp

lemma structure_facts:
  assumes "validate_chain_structure R c s = (Inr True, s')"
  shows "c \<noteq> []" "genesis_ok R (hd c)" "successively (follows R) c"
proof -
  obtain g bs where c: "c = g # bs" using assms by (cases c) (auto simp: validate_chain_structure_def ret_def)
  then have "genesis_ok R g" and "validate_blocks R [g] bs s = (Inr True, s')"
    using assms by (auto simp: validate_chain_structure_def genesis_ok_def ret_def split: if_splits)
  then show "c \<noteq> []" "genesis_ok R (hd c)" "successively (follows R) c"
    using blocks_follow [of R "[g]" bs s s'] by (simp_all add: c)
qed

text \<open>Each block was also compared with the difficulty its predecessors demand.\<close>

lemma blocks_difficulty:
  assumes "validate_blocks R history bs s = (Inr True, s')" and "i < length bs"
  shows "\<exists>t t'. difficulty_as_expected R (fb_header (bs ! i)) (history @ take i bs) t = (Inr True, t')"
  using assms
proof (induction bs arbitrary: history s i)
  case (Cons b bs)
  then obtain t where now: "validate_next_block R history b s = (Inr True, t)"
    and later: "validate_blocks R (history @ [b]) bs t = (Inr True, s')" by (auto simp: both_True)
  show ?case
  proof (cases i)
    case 0
    have "\<exists>t'. difficulty_as_expected R (fb_header b) history s = (Inr True, t')"
      using now by (auto simp: validate_next_block_def Let_def ret_def both_True split: if_splits)
    then show ?thesis using 0 by auto
  next
    case (Suc j)
    then show ?thesis using Cons.IH [OF later, of j] Cons.prems(2) by simp
  qed
qed simp

section \<open>Work\<close>

lemma work_closed_form: "work_of_difficulty d = 16 ^ min (nat d) 64 - 1"
proof (cases "64 \<le> d")
  case True
  then have "min (max 0 d * 4) 256 = 256" "min (nat d) 64 = 64" by simp_all
  then show ?thesis by (simp add: work_of_difficulty_def MAX_POW_TARGET_def)
next
  case False
  define n where "n = nat d"
  have n: "n < 64" "max 0 d = int n" using False by (auto simp: n_def)
  have shift: "min (max 0 d * 4) 256 = int (4 * n)" using n by simp
  have split: "(2 :: int) ^ 256 = 2 ^ (256 - 4 * n) * 2 ^ (4 * n)" using n by (simp flip: power_add)
  have pos: "(0 :: int) < 2 ^ (256 - 4 * n)" "(0 :: int) < 2 ^ (4 * n)" by simp_all
  have "(2 ^ 256 - 1) div 2 ^ (4 * n) = (2 :: int) ^ (256 - 4 * n) - 1"
    unfolding split using pos by (intro int_div_pos_eq [where r = "2 ^ (4 * n) - 1"]) (auto simp: algebra_simps)
  then have target: "MAX_POW_TARGET div 2 ^ (4 * n) + 1 = 2 ^ (256 - 4 * n)" by (simp add: MAX_POW_TARGET_def)
  have "(2 ^ 256 - 1) div 2 ^ (256 - 4 * n) = (2 :: int) ^ (4 * n) - 1"
    unfolding split using pos by (intro int_div_pos_eq [where r = "2 ^ (256 - 4 * n) - 1"]) (auto simp: algebra_simps)
  moreover have "(2 :: int) ^ (4 * n) = 16 ^ n" by (simp add: power_mult)
  moreover have "min (nat d) 64 = n" using n by (simp add: n_def)
  moreover have "nat (int (4 * n)) = 4 * n" "\<not> 256 \<le> int (4 * n)" using n by simp_all
  ultimately show ?thesis
    unfolding work_of_difficulty_def shift Let_def using target by (simp add: MAX_POW_TARGET_def)
qed

text \<open>The cache holds the work of the headers at hand, if anything, under their hashes.\<close>

definition cache_true :: "header list \<Rightarrow> judge \<Rightarrow> bool" where
  "cache_true c s \<longleftrightarrow> (\<forall>b \<in> set c. \<forall>w. (hd_hash b, w) \<in> set (jd_work s) \<longrightarrow>
     w = work_of_difficulty (hd_difficulty b))"

text \<open>One hash, one difficulty.\<close>

definition hashes_apart :: "header list \<Rightarrow> bool" where
  "hashes_apart c \<longleftrightarrow> (\<forall>a \<in> set c. \<forall>b \<in> set c. hd_hash a = hd_hash b \<longrightarrow>
     hd_difficulty a = hd_difficulty b)"

lemma set_cache: "e \<in> set (cache_block_work h w c) \<Longrightarrow> e = (h, w) \<or> e \<in> set c"
  by (auto simp: cache_block_work_def AList.delete_eq split: if_splits dest: in_set_dropD)

lemma block_work_true:
  assumes "cache_true c s" and "hashes_apart c" and "b \<in> set c" and "calculate_block_work b s = (w, s')"
  shows "w = work_of_difficulty (hd_difficulty b) \<and> cache_true c s'"
proof (cases "if hd_hash b = [] then None else map_of (jd_work s) (hd_hash b)")
  case None
  then have "w = work_of_difficulty (hd_difficulty b)"
    and s': "s' = s\<lparr>jd_work := cache_block_work (hd_hash b) w (jd_work s)\<rparr>"
    using assms(4) by (auto simp: calculate_block_work_def Let_def)
  moreover have "cache_true c s'" unfolding cache_true_def s'
  proof (intro ballI allI impI)
    fix a v assume a: "a \<in> set c" and "(hd_hash a, v) \<in>
      set (jd_work (s\<lparr>jd_work := cache_block_work (hd_hash b) w (jd_work s)\<rparr>))"
    then have "(hd_hash a, v) = (hd_hash b, w) \<or> (hd_hash a, v) \<in> set (jd_work s)"
      using set_cache by fastforce
    then show "v = work_of_difficulty (hd_difficulty a)"
      using a assms(1-3) \<open>w = _\<close> unfolding cache_true_def hashes_apart_def by fastforce
  qed
  ultimately show ?thesis by simp
next
  case (Some v)
  then have "w = v" "s' = s" using assms(4) by (auto simp: calculate_block_work_def)
  moreover have "(hd_hash b, v) \<in> set (jd_work s)" using Some by (auto split: if_splits dest: map_of_SomeD)
  ultimately show ?thesis using assms(1,3) unfolding cache_true_def by blast
qed

lemma chain_work_true:
  assumes "cache_true c s" and "hashes_apart c" and "set bs \<subseteq> set c" and "calculate_chain_work bs s = (w, s')"
  shows "w = (\<Sum>b\<leftarrow>bs. work_of_difficulty (hd_difficulty b)) \<and> cache_true c s'"
  using assms
proof (induction bs arbitrary: s w)
  case (Cons b bs)
  obtain v s1 where one: "calculate_block_work b s = (v, s1)" by fastforce
  obtain u where rest: "calculate_chain_work bs s1 = (u, s')" "w = v + u"
    using Cons.prems(4) one by (auto split: prod.splits)
  have "v = work_of_difficulty (hd_difficulty b) \<and> cache_true c s1"
    using block_work_true [OF Cons.prems(1,2) _ one] Cons.prems(3) by simp
  then show ?case using Cons.IH [of s1 u] rest Cons.prems(2,3) by simp
qed simp


section \<open>The tip determines the chain\<close>

text \<open>What the hash of a block commits to.\<close>

definition committed :: "rules \<Rightarrow> full_block \<Rightarrow> (string \<times> string) list" where
  "committed R b = header_members (env_float_text (ru_env R)) (fb_header b)"

text \<open>Headers as the constructor makes them.\<close>

definition headers_ok :: "rules \<Rightarrow> full_block set \<Rightarrow> bool" where
  "headers_ok R B \<longleftrightarrow> (\<forall>b \<in> B. valid_header (env_sha (ru_env R)) (env_float_text (ru_env R)) (fb_header b))"

text \<open>SHA-256 has no collision on the headers at hand and hashes none of them to zero.\<close>

definition no_collision :: "rules \<Rightarrow> full_block set \<Rightarrow> bool" where
  "no_collision R B \<longleftrightarrow> inj_on (env_sha (ru_env R)) ((\<lambda>b. header_text (env_float_text (ru_env R)) (fb_header b)) ` B) \<and>
     (\<forall>b \<in> B. hd_hash (fb_header b) \<noteq> zeros64)"

lemma committed_previous: "committed R b = committed R b' \<Longrightarrow> hd_previous_hash (fb_header b) = hd_previous_hash (fb_header b')"
  by (auto simp: committed_def header_members_def dest!: json_string_inj split: if_splits)

lemma same_hash_committed:
  assumes "headers_ok R B" and "no_collision R B" and "float_repr_ok (env_float_text (ru_env R))"
    and "b \<in> B" "b' \<in> B" and "hd_hash (fb_header b) = hd_hash (fb_header b')"
  shows "committed R b = committed R b'"
proof -
  let ?S = "env_sha (ru_env R)" and ?F = "env_float_text (ru_env R)"
  have v: "valid_header ?S ?F (fb_header b)" "valid_header ?S ?F (fb_header b')" using assms(1,4,5) by (auto simp: headers_ok_def)
  then have "?S (header_text ?F (fb_header b)) = ?S (header_text ?F (fb_header b'))" using assms(6) by (simp add: valid_header_def)
  then have "header_text ?F (fb_header b) = header_text ?F (fb_header b')"
    using assms(2,4,5) unfolding no_collision_def by (meson image_eqI inj_onD)
  then show ?thesis unfolding committed_def by (rule header_members_inj [OF v assms(3)])
qed

lemma linked_before:
  assumes "successively (follows R) (xs @ [b])" and "genesis_ok R (hd (xs @ [b]))" and "no_collision R B" and "set xs \<subseteq> B"
  shows "hd_previous_hash (fb_header b) = (if xs = [] then zeros64 else hd_hash (fb_header (last xs)))"
    "xs \<noteq> [] \<Longrightarrow> hd_previous_hash (fb_header b) \<noteq> zeros64"
proof -
  show "hd_previous_hash (fb_header b) = (if xs = [] then zeros64 else hd_hash (fb_header (last xs)))"
  proof (cases "xs = []")
    case True
    then show ?thesis using assms(2) by (simp add: genesis_ok_def)
  next
    case False
    then have "follows R (last xs) b" using assms(1) by (simp add: successively_append_iff)
    then show ?thesis using False by (simp add: follows_def)
  qed
  moreover have "hd_hash (fb_header (last xs)) \<noteq> zeros64" if "xs \<noteq> []"
    using assms(3,4) last_in_set [OF that] unfolding no_collision_def by blast
  ultimately show "xs \<noteq> [] \<Longrightarrow> hd_previous_hash (fb_header b) \<noteq> zeros64" by simp
qed

lemma tip_commits_rules:
  assumes "successively (follows R) c" "successively (follows R) c'" and "c \<noteq> []" "c' \<noteq> []"
    and "genesis_ok R (hd c)" "genesis_ok R (hd c')" and "hd_hash (fb_header (last c)) = hd_hash (fb_header (last c'))"
    and "set c \<union> set c' \<subseteq> B" "headers_ok R B" "no_collision R B" "float_repr_ok (env_float_text (ru_env R))"
  shows "map (committed R) c = map (committed R) c'"
  using assms(1-8)
proof (induction c arbitrary: c' rule: rev_induct)
  case (snoc b xs)
  obtain ys b' where c': "c' = ys @ [b']" using snoc.prems(4) by (cases c' rule: rev_cases) auto
  have sub: "set xs \<subseteq> B" "set ys \<subseteq> B" "b \<in> B" "b' \<in> B" using snoc.prems(8) by (auto simp: c')
  have eq: "committed R b = committed R b'"
    by (rule same_hash_committed [OF assms(9-11) sub(3,4)]) (use snoc.prems(7) in \<open>simp add: c'\<close>)
  note one = linked_before [OF snoc.prems(1,5) assms(10) sub(1)]
  note two = linked_before [OF snoc.prems(2,6) [unfolded c'] assms(10) sub(2)]
  have same: "hd_previous_hash (fb_header b) = hd_previous_hash (fb_header b')" by (rule committed_previous [OF eq])
  show ?case
  proof (cases "xs = []")
    case True
    then have "ys = []" using one(1) two same by auto
    then show ?thesis using True eq by (simp add: c')
  next
    case False
    then have "ys \<noteq> []" using one(2) two(1) same by auto
    then have "map (committed R) xs = map (committed R) ys"
    proof (intro snoc.IH)
      show "successively (follows R) xs" using snoc.prems(1) by (simp add: successively_append_iff)
      show "successively (follows R) ys" using snoc.prems(2) by (simp add: c' successively_append_iff)
      show "genesis_ok R (hd xs)" using snoc.prems(5) False by simp
      show "genesis_ok R (hd ys)" using snoc.prems(6) \<open>ys \<noteq> []\<close> by (simp add: c')
      show "hd_hash (fb_header (last xs)) = hd_hash (fb_header (last ys))"
        using one(1) two(1) same False \<open>ys \<noteq> []\<close> by simp
      show "set xs \<union> set ys \<subseteq> B" using sub by simp
    qed (use False \<open>ys \<noteq> []\<close> in simp_all)
    then show ?thesis using eq by (simp add: c')
  qed
qed simp

text \<open>
  C6: The hash of the tip commits to the whole chain: two chains that pass the structural rules and end
  in blocks of one hash have the same number of blocks and agree in every committed field of every
  header (index, previous hash, Merkle root, timestamp, difficulty, nonce, version), when the hashes
  of their genesis blocks are right, and short of a collision.
\<close>

theorem tip_commits:
  assumes "validate_chain_structure R c s = (Inr True, s')" and "validate_chain_structure R c' t = (Inr True, t')"
    and "hd_hash (fb_header (last c)) = hd_hash (fb_header (last c'))"
    and "headers_ok R (set c \<union> set c')" and "no_collision R (set c \<union> set c')" and "float_repr_ok (env_float_text (ru_env R))"
  shows "map (committed R) c = map (committed R) c'"
  using structure_facts [OF assms(1)] structure_facts [OF assms(2)] assms(3-6)
  by (intro tip_commits_rules [where B = "set c \<union> set c'"]) auto

text \<open>
  C7: A chain that passes the structural rules starts with a block of index zero and no predecessor, and
  every other block names the hash of its predecessor, has the hash of its own content, meets its
  declared difficulty, has an allowed version and size and passed the check against the difficulty its
  predecessors demand, which a relaxed node leaves out. A block whose index is not zero is later than its predecessor, and
  its signature verifies under its key if it has either of them; one with neither passes, and one that says
  its index is zero is exempt from both (see \<open>index_zero_exempt\<close>).
\<close>

theorem structure_sound:
  assumes "validate_chain_structure R c s = (Inr True, s')"
  shows "c \<noteq> [] \<and> genesis_ok R (hd c) \<and> (\<forall>i. Suc i < length c \<longrightarrow> follows R (c ! i) (c ! Suc i) \<and>
       (\<exists>t t'. difficulty_as_expected R (fb_header (c ! Suc i)) (take (Suc i) c) t = (Inr True, t')))"
proof -
  note facts = structure_facts [OF assms]
  obtain g bs where c: "c = g # bs" using facts(1) by (cases c) auto
  then have run: "validate_blocks R [g] bs s = (Inr True, s')"
    using assms by (auto simp: validate_chain_structure_def ret_def split: if_splits)
  have "follows R (c ! i) (c ! Suc i) \<and> (\<exists>t t'. difficulty_as_expected R (fb_header (c ! Suc i)) (take (Suc i) c) t = (Inr True, t'))"
    if i: "Suc i < length c" for i
  proof -
    have "\<exists>t t'. difficulty_as_expected R (fb_header (bs ! i)) ([g] @ take i bs) t = (Inr True, t')"
      using blocks_difficulty [OF run, of i] i by (simp add: c)
    moreover have "follows R (c ! i) (c ! Suc i)" using facts(3) i by (simp add: successively_conv_nth)
    ultimately show ?thesis by (simp add: c)
  qed
  then show ?thesis using facts by simp
qed

section \<open>A chain of two blocks\<close>

definition sample_block :: "(string \<Rightarrow> string) \<Rightarrow> int \<Rightarrow> string \<Rightarrow> int \<Rightarrow> full_block" where
  "sample_block S i previous time =
     \<lparr>fb_header = rehash S sample_float_text
        \<lparr>hd_index = i, hd_previous_hash = previous, hd_merkle_root = zeros64, hd_timestamp = Fin (of_int time), hd_difficulty = 3,
         hd_nonce = 0, hd_signature = None, hd_miner_pubkey = None, hd_version = 1, hash_includes_version = True, hd_hash = []\<rparr>,
      fb_txs = [], fb_miner = None\<rparr>"

definition sample_sha :: "string \<Rightarrow> string" where
  "sample_sha s = take 63 zeros64 @
     (if s = header_text sample_float_text (fb_header (sample_block id 0 zeros64 1000)) then ''a'' else ''b'')"

definition sample_chain :: "full_block list" where
  "sample_chain = [sample_block sample_sha 0 zeros64 1000, sample_block sample_sha 1 (take 63 zeros64 @ ''a'') 2000]"

definition sample_rules :: rules where
  "sample_rules = \<lparr>ru_env = sample_env\<lparr>env_sha := sample_sha, env_float_text := sample_float_text\<rparr>, ru_versions = [1], ru_span = 11,
     ru_future = 7200, ru_relaxed = True\<rparr>"

definition sample_judge :: judge where
  "sample_judge = \<lparr>jd_clock = (\<lambda>n. Fin 2000), jd_reads = 0, jd_retarget = new_retarget ''mainnet'' 3, jd_work = []\<rparr>"


lemma sample_texts_differ:
  "header_text sample_float_text (fb_header (sample_block S 0 zeros64 1000)) = header_text sample_float_text (fb_header (sample_block id 0 zeros64 1000))"
  "header_text sample_float_text (fb_header (sample_block S 1 (take 63 zeros64 @ ''a'') 2000)) \<noteq> header_text sample_float_text (fb_header (sample_block id 0 zeros64 1000))"
proof -
  have plain: "header_text F (rehash T F h) = header_text F h" for F T h by (simp add: header_text_def rehash_def)
  show "header_text sample_float_text (fb_header (sample_block S 0 zeros64 1000)) = header_text sample_float_text (fb_header (sample_block id 0 zeros64 1000))"
    by (simp add: sample_block_def plain)
  have "header_text sample_float_text (fb_header (sample_block id 1 (take 63 zeros64 @ ''a'') 2000)) \<noteq> header_text sample_float_text (fb_header (sample_block id 0 zeros64 1000))"
    by code_simp
  then show "header_text sample_float_text (fb_header (sample_block S 1 (take 63 zeros64 @ ''a'') 2000)) \<noteq> header_text sample_float_text (fb_header (sample_block id 0 zeros64 1000))"
    by (simp add: sample_block_def plain)
qed

lemma sample_hashes:
  "hd_hash (fb_header (sample_block sample_sha 0 zeros64 1000)) = take 63 zeros64 @ ''a''"
  "hd_hash (fb_header (sample_block sample_sha 1 (take 63 zeros64 @ ''a'') 2000)) = take 63 zeros64 @ ''b''"
proof -
  have "hd_hash (fb_header (sample_block S i p t)) = S (header_text sample_float_text (fb_header (sample_block S i p t)))" for S i p t
    by (simp add: sample_block_def rehash_def header_hash_def header_text_def)
  then show "hd_hash (fb_header (sample_block sample_sha 0 zeros64 1000)) = take 63 zeros64 @ ''a''"
    "hd_hash (fb_header (sample_block sample_sha 1 (take 63 zeros64 @ ''a'') 2000)) = take 63 zeros64 @ ''b''"
    using sample_texts_differ [of sample_sha] by (simp_all add: sample_sha_def)
qed

lemma sample_size_ok: "length (fb_txs b) = 0 \<Longrightarrow> fb_miner b = None \<Longrightarrow> hd_miner_pubkey (fb_header b) = None \<Longrightarrow>
    length (canonical_json sample_float_text (header_dict (fb_header b))) \<le> 1000 \<Longrightarrow> block_within_size_limits sample_rules b"
  by (simp add: block_within_size_limits_def estimate_size_bytes_def MAX_BLOCK_SIZE_def MAX_TRANSACTIONS_PER_BLOCK_def
      sample_rules_def miner_of_def text_of_def Let_def utf8_def)


lemma sample_sizes:
  "block_within_size_limits sample_rules (sample_block sample_sha 0 zeros64 1000)"
  "block_within_size_limits sample_rules (sample_block sample_sha 1 (take 63 zeros64 @ ''a'') 2000)"
proof -
  have "length (canonical_json sample_float_text (header_dict (fb_header (sample_block S 0 zeros64 1000)\<lparr>hd_hash := take 63 zeros64 @ ''a''\<rparr>))) \<le> 1000"
    "length (canonical_json sample_float_text (header_dict (fb_header (sample_block S 1 (take 63 zeros64 @ ''a'') 2000)\<lparr>hd_hash := take 63 zeros64 @ ''b''\<rparr>))) \<le> 1000" for S
    unfolding sample_block_def rehash_def full_block.simps header.simps by code_simp+
  moreover have "fb_header (sample_block S i p t)\<lparr>hd_hash := hd_hash (fb_header (sample_block S i p t))\<rparr> = fb_header (sample_block S i p t)" for S i p t
    by simp
  ultimately have len: "length (canonical_json sample_float_text (header_dict (fb_header (sample_block sample_sha 0 zeros64 1000)))) \<le> 1000"
    "length (canonical_json sample_float_text (header_dict (fb_header (sample_block sample_sha 1 (take 63 zeros64 @ ''a'') 2000)))) \<le> 1000"
    using sample_hashes by metis+
  have none: "length (fb_txs (sample_block S i p t)) = 0" "fb_miner (sample_block S i p t) = None"
    "hd_miner_pubkey (fb_header (sample_block S i p t)) = None" for S i p t by (simp_all add: sample_block_def rehash_def)
  show "block_within_size_limits sample_rules (sample_block sample_sha 0 zeros64 1000)" by (rule sample_size_ok [OF none len(1)])
  show "block_within_size_limits sample_rules (sample_block sample_sha 1 (take 63 zeros64 @ ''a'') 2000)" by (rule sample_size_ok [OF none len(2)])
qed

lemma sample_valid: "\<exists>s'. validate_chain_structure sample_rules sample_chain sample_judge = (Inr True, s')"
proof -
  obtain b0 b1 where b0: "sample_block sample_sha 0 zeros64 1000 = b0" and b1: "sample_block sample_sha 1 (take 63 zeros64 @ ''a'') 2000 = b1" by blast
  have f1: "hd_index (fb_header b1) = 1" "hd_previous_hash (fb_header b1) = take 63 zeros64 @ ''a''" "hd_timestamp (fb_header b1) = Fin 2000"
      "hd_difficulty (fb_header b1) = 3" "hd_version (fb_header b1) = 1" "hd_signature (fb_header b1) = None"
      "hd_miner_pubkey (fb_header b1) = None" "hd_hash (fb_header b1) = header_hash_in sample_rules (fb_header b1)"
    unfolding b1 [symmetric] by (simp_all add: sample_block_def rehash_def header_hash_in_def sample_rules_def header_hash_def header_text_def)
  have f0: "hd_index (fb_header b0) = 0" "hd_previous_hash (fb_header b0) = zeros64" "hd_timestamp (fb_header b0) = Fin 1000"
    unfolding b0 [symmetric] by (simp_all add: sample_block_def rehash_def)
  have rules: "ru_versions sample_rules = [1]" "ru_relaxed sample_rules" "ru_future sample_rules = 7200" "ru_span sample_rules = 11"
    by (simp_all add: sample_rules_def)
  note hashes = sample_hashes [unfolded b0 b1] and sizes = sample_sizes [unfolded b0 b1]
  have pow: "meets_difficulty (fb_header b1)" unfolding meets_difficulty_def f1 hashes by code_simp
  have "to_float 2000 = Fin 2000" "to_float 7200 = Fin 7200" "to_float 9200 = Fin 9200"
    using to_float_int [of 2000] to_float_int [of 7200] to_float_int [of 9200] by simp_all
  then have time: "validate_block_timestamp sample_rules (fb_header b1) [b0] sample_judge = (Inr True, sample_judge\<lparr>jd_reads := 1\<rparr>)"
    by (simp add: validate_block_timestamp_def f1 f0 rules median_time_from_history_def median_of_def last_n_def block_time_def
        float_le_def float_eq_def float_of_int_def and_then_def ret_def wall_clock_def sample_judge_def)
  have "validate_next_block sample_rules [b0] b1 sample_judge = (Inr True, sample_judge\<lparr>jd_reads := 1\<rparr>)"
    using pow time sizes f1(8)
    by (simp add: validate_next_block_def Let_def hashes f1(1-7) validate_header_version_def rules difficulty_as_expected_def both_def
        and_then_def ret_def verify_header_signature_def)
  then show ?thesis unfolding sample_chain_def b0 b1
    by (simp add: validate_chain_structure_def f0 sizes both_def and_then_def ret_def)
qed

lemma sample_chain_headers: "headers_ok sample_rules (set sample_chain \<union> set sample_chain)" "no_collision sample_rules (set sample_chain \<union> set sample_chain)"
proof -
  have commas: "CHR '','' \<notin> set (json_string zeros64)" "CHR '','' \<notin> set (json_string (take 63 zeros64 @ ''a''))" by code_simp+
  then show "headers_ok sample_rules (set sample_chain \<union> set sample_chain)"
    by (auto simp: headers_ok_def sample_chain_def valid_header_def sample_rules_def sample_block_def rehash_def header_hash_def header_text_def)
  let ?b0 = "sample_block sample_sha 0 zeros64 1000" and ?b1 = "sample_block sample_sha 1 (take 63 zeros64 @ ''a'') 2000"
  have "take 63 zeros64 @ ''a'' \<noteq> zeros64" "take 63 zeros64 @ ''b'' \<noteq> zeros64" by code_simp+
  moreover have "inj_on sample_sha {header_text sample_float_text (fb_header ?b0), header_text sample_float_text (fb_header ?b1)}"
    using sample_texts_differ [of sample_sha] by (auto simp: inj_on_def sample_sha_def)
  ultimately show "no_collision sample_rules (set sample_chain \<union> set sample_chain)"
    using sample_hashes by (simp add: no_collision_def sample_chain_def sample_rules_def)
qed

theorem tip_commits_witness: "map (committed sample_rules) sample_chain = map (committed sample_rules) sample_chain"
proof -
  obtain s' where ok: "validate_chain_structure sample_rules sample_chain sample_judge = (Inr True, s')" using sample_valid by blast
  have F: "float_repr_ok (env_float_text (ru_env sample_rules))" using sample_float_text_ok by (simp add: sample_rules_def)
  show ?thesis by (rule tip_commits [OF ok ok refl sample_chain_headers F])
qed

theorem structure_sound_witness: "follows sample_rules (sample_chain ! 0) (sample_chain ! 1)"
proof -
  obtain s' where ok: "validate_chain_structure sample_rules sample_chain sample_judge = (Inr True, s')" using sample_valid by blast
  show ?thesis using structure_sound [OF ok] by (simp add: sample_chain_def)
qed


section \<open>What the rules let through\<close>

text \<open>
  A block that says its index is zero is exempt from timestamps, signature and difficulty wherever it
  stands in a chain; with declared difficulty zero it needs no work either.
\<close>

lemma index_zero_exempt:
  assumes "hd_index (fb_header b) = 0" and "hd_difficulty (fb_header b) = 0" and "hd_previous_hash (fb_header b) = hd_hash (fb_header (last history))"
    and "hd_hash (fb_header b) = header_hash_in R (fb_header b)" and "validate_header_version R (fb_header b)" "block_within_size_limits R b"
  shows "\<exists>s'. validate_next_block R history b s = (Inr True, s')"
  using assms
  by (auto simp: validate_next_block_def Let_def meets_difficulty_def starts_with_def both_def and_then_def ret_def wall_clock_def
      difficulty_as_expected_def zoom_def expected_difficulty_for_block_def validate_block_timestamp_def)

text \<open>A header that claims the hash of another fixes the work the other will be credited with.\<close>

lemma work_cache_poisoned:
  assumes "hd_hash g = hd_hash h" "hd_hash h \<noteq> []" and "map_of (jd_work s) (hd_hash h) = None"
  shows "fst (calculate_block_work h (snd (calculate_block_work g s))) = work_of_difficulty (hd_difficulty g)"
proof -
  have "map_of (drop k c) x = None" if "map_of c x = None" for k and c :: "(string \<times> int) list" and x
    using that by (auto simp: map_of_eq_None_iff dest!: in_set_dropD)
  then show ?thesis using assms
    by (auto simp: calculate_block_work_def Let_def cache_block_work_def map_add_def split: option.splits)
qed

end
