(* ===== verification/Mempool.thy ===== *)
theory Mempool
  imports TxValidator
begin

text \<open>
  The pool of pending transactions: \<open>BlockchainMempoolMixin\<close> of
  \<open>blockchain_components/mempool_mixin.py\<close>, with the validator of \<open>TxValidator\<close>. The pool keeps the
  transactions in the order they came and, beside them, the ids seen, the inputs they spend, the
  count per sender and the nonces in use. \<open>clock\<close> gives the readings of the clock in the order a call
  makes them. What the processor of sponsored transactions does is an arbitrary method \<open>sponsor\<close> of
  its own state. The fee rate of a pending transaction fills the cache of its size with the value
  it has anyway, which is left out, and so is the cache of statistics. What the addition of a block takes out of the pool is
  here as \<open>drop_mined\<close>; the promotion of orphans and the revalidation after a reorganisation are in \<open>Chain\<close>.
\<close>

section \<open>What is kept of a list of transactions\<close>

definition counted :: "transaction \<Rightarrow> bool" where
  "counted t \<longleftrightarrow> t_sender t \<noteq> [] \<and> t_sender t \<noteq> ''COINBASE''"

definition input_keys :: "transaction \<Rightarrow> string list" where
  "input_keys t = (if t_type t = ''coinbase'' then [] else map (\<lambda>k. utxo_key (fst k) (snd k)) (t_inputs t))"

definition nonce_keys :: "transaction \<Rightarrow> (string \<times> int) list" where
  "nonce_keys t = (if counted t then (case t_nonce t of Some n \<Rightarrow> [(t_sender t, n)] | None \<Rightarrow> []) else [])"

definition tx_id :: "transaction \<Rightarrow> string" where
  "tx_id t = text_of (t_txid t)"

definition count_sender :: "transaction \<Rightarrow> (string \<times> int) list \<Rightarrow> (string \<times> int) list" where
  "count_sender t d = (if counted t then AList.update (t_sender t) (dict_get d (t_sender t) 0 + 1) d else d)"

section \<open>Expiry\<close>

definition fresh :: "pyfloat \<Rightarrow> ('s, 'p) mempool \<Rightarrow> transaction \<Rightarrow> bool" where
  "fresh now M t \<longleftrightarrow> float_less (float_sub now (t_timestamp t)) (float_of_int (mp_max_age M))"

definition unlock_inputs :: "transaction \<Rightarrow> ('s, 'p) mempool \<Rightarrow> ('s, 'p) mempool" where
  "unlock_inputs t M = M\<lparr>mp_utxos := unlock_utxos_by_keys (t_inputs t) (mp_utxos M)\<rparr>"

definition prune_expired_mempool :: "pyfloat \<Rightarrow> ('s, 'p) mempool \<Rightarrow> int \<times> ('s, 'p) mempool" where
  "prune_expired_mempool now M =
     (let kept = filter (fresh now M) (mp_pending M);
          expired = filter (\<lambda>t. \<not> fresh now M t) (mp_pending M);
          named = filter (\<lambda>t. tx_id t \<noteq> []) kept;
          removed = int (length expired);
          M' = fold unlock_inputs expired M
      in (removed, M'\<lparr>mp_pending := kept, mp_seen := set (map tx_id named),
            mp_sender_count := fold count_sender kept [], mp_spent_inputs := set (concat (map input_keys kept)),
            mp_by_txid := fold (\<lambda>t. AList.update (tx_id t) t) named [],
            mp_pending_nonces := set (concat (map nonce_keys kept)), mp_expired := mp_expired M + removed\<rparr>))"

definition prune_orphan_pool :: "pyfloat \<Rightarrow> ('s, 'p) mempool \<Rightarrow> int \<times> ('s, 'p) mempool" where
  "prune_orphan_pool now M =
     (let kept = filter (fresh now M) (mp_orphans M) in
      (int (length (mp_orphans M)) - int (length kept), M\<lparr>mp_orphans := kept\<rparr>))"

section \<open>Bans\<close>

definition no_ban :: "pyfloat \<Rightarrow> ban" where
  "no_ban now = \<lparr>ban_count = 0, ban_first_seen = now, banned_until = Fin 0\<rparr>"

definition put_ban :: "string \<Rightarrow> ban \<Rightarrow> ('s, 'p) mempool \<Rightarrow> ('s, 'p) mempool" where
  "put_ban sender b M = M\<lparr>mp_invalid_senders := AList.update sender b (mp_invalid_senders M)\<rparr>"

definition is_sender_banned :: "string \<Rightarrow> pyfloat \<Rightarrow> ('s, 'p) mempool \<Rightarrow> bool \<times> ('s, 'p) mempool" where
  "is_sender_banned sender now M =
     (if sender = [] \<or> sender = ''COINBASE'' then (False, M)
      else case map_of (mp_invalid_senders M) sender of
        None \<Rightarrow> (False, M)
      | Some b \<Rightarrow>
          if float_less now (banned_until b) then (True, M)
          else if banned_until b \<noteq> Fin 0 \<and> float_le (banned_until b) now then (False, put_ban sender (no_ban now) M)
          else (False, M))"

definition strike :: "pyfloat \<Rightarrow> ('s, 'p) mempool \<Rightarrow> ban \<Rightarrow> ban" where
  "strike now M b =
     (let b1 = (if float_less (float_of_int (mp_window_seconds M)) (float_sub now (ban_first_seen b))
                then b\<lparr>ban_count := 0, ban_first_seen := now\<rparr> else b);
          b2 = b1\<lparr>ban_count := ban_count b1 + 1\<rparr>
      in if mp_invalid_threshold M \<le> ban_count b2
         then \<lparr>ban_count = 0, ban_first_seen = now, banned_until = float_add now (float_of_int (mp_ban_seconds M))\<rparr>
         else b2)"

definition record_invalid_sender_attempt :: "string \<Rightarrow> pyfloat \<Rightarrow> ('s, 'p) mempool \<Rightarrow> ('s, 'p) mempool" where
  "record_invalid_sender_attempt sender now M =
     (if sender = [] \<or> sender = ''COINBASE'' then M
      else put_ban sender
        (strike now M (case map_of (mp_invalid_senders M) sender of Some b \<Rightarrow> b | None \<Rightarrow> no_ban now)) M)"

definition clear_sender_penalty :: "string \<Rightarrow> pyfloat \<Rightarrow> ('s, 'p) mempool \<Rightarrow> ('s, 'p) mempool" where
  "clear_sender_penalty sender now M =
     (if sender \<noteq> [] \<and> sender \<noteq> ''COINBASE'' \<and> map_of (mp_invalid_senders M) sender \<noteq> None
      then put_ban sender (no_ban now) M else M)"

text \<open>The bans in force, and the tracker without those that have run out.\<close>

definition count_active_bans :: "pyfloat \<Rightarrow> ('s, 'p) mempool \<Rightarrow> int \<times> ('s, 'p) mempool" where
  "count_active_bans now M =
     (int (length (filter (\<lambda>p. float_less now (banned_until (snd p))) (mp_invalid_senders M))),
      M\<lparr>mp_invalid_senders := map (\<lambda>p. if \<not> float_less now (banned_until (snd p)) \<and> banned_until (snd p) \<noteq> Fin 0
            \<and> float_le (banned_until (snd p)) now then (fst p, no_ban now) else p) (mp_invalid_senders M)\<rparr>)"

section \<open>Removal\<close>

text \<open>The parts of a removal that eviction, replacement and removal by id have in common.\<close>

definition forget_tx :: "transaction \<Rightarrow> ('s, 'p) mempool \<Rightarrow> ('s, 'p) mempool" where
  "forget_tx t M = M\<lparr>mp_pending := remove1 t (mp_pending M), mp_seen := mp_seen M - {tx_id t},
     mp_by_txid := AList.delete (tx_id t) (mp_by_txid M), mp_spent_inputs := mp_spent_inputs M - set (input_keys t)\<rparr>"

definition set_count :: "string \<Rightarrow> int \<Rightarrow> ('s, 'p) mempool \<Rightarrow> ('s, 'p) mempool" where
  "set_count sender n M = M\<lparr>mp_sender_count := AList.update sender n (mp_sender_count M)\<rparr>"

definition forget_nonce :: "transaction \<Rightarrow> ('s, 'p) mempool \<Rightarrow> ('s, 'p) mempool" where
  "forget_nonce t M = M\<lparr>mp_pending_nonces := mp_pending_nonces M - set (nonce_keys t)\<rparr>"

definition remove_transaction_from_mempool ::
    "(nat \<Rightarrow> pyfloat) \<Rightarrow> string \<Rightarrow> bool \<Rightarrow> (('s, 'p) mempool, (string \<times> pyfloat \<times> pyfloat) option) meth" where
  "remove_transaction_from_mempool clock wanted ban_sender M =
     (if wanted = [] then (Inl ValueError, M)
      else case find (\<lambda>t. t_txid t = Some wanted) (mp_pending M) of
        None \<Rightarrow> (Inr None, M)
      | Some t \<Rightarrow>
          let M1 = forget_tx t (unlock_inputs t M);
              M2 = (if t_sender t \<noteq> [] \<and> map_of (mp_sender_count M1) (t_sender t) \<noteq> None
                    then set_count (t_sender t) (max 0 (dict_get (mp_sender_count M1) (t_sender t) 0 - 1)) M1 else M1);
              M3 = forget_nonce t M2;
              M4 = (if ban_sender \<and> t_sender t \<noteq> []
                    then put_ban (t_sender t) \<lparr>ban_count = 0, ban_first_seen = clock 1,
                           banned_until = float_add (clock 0) (float_of_int (mp_ban_seconds M3))\<rparr> M3 else M3)
          in (Inr (Some (t_sender t, t_amount t, t_fee t)), M4))"

text \<open>
  The pending transactions a block holds leave; of the indexes only the ids and the counts are made anew
  (\<open>_add_block_to_chain\<close> of \<open>blockchain.py\<close>).
\<close>

definition drop_mined :: "transaction list \<Rightarrow> ('s, 'p) mempool \<Rightarrow> ('s, 'p) mempool" where
  "drop_mined ts M =
     (let ids = tx_id ` {t \<in> set ts. tx_id t \<noteq> []}; ps = filter (\<lambda>t. t_txid t \<notin> Some ` ids) (mp_pending M)
      in M\<lparr>mp_pending := ps, mp_seen := tx_id ` {t \<in> set ps. tx_id t \<noteq> []}, mp_sender_count := fold count_sender ps []\<rparr>)"

section \<open>Admission\<close>

definition check_double_spend :: "transaction \<Rightarrow> ('s, 'p) mempool \<Rightarrow> bool" where
  "check_double_spend t M \<longleftrightarrow>
     (\<exists>k \<in> set (input_keys t). k \<in> mp_spent_inputs M) \<and> text_of (t_replaces t) = []"

text \<open>The inputs and outputs of a transaction without a signature are made up from the sender's own outputs.\<close>

definition auto_populate ::
    "'s store_ops \<Rightarrow> transaction \<Rightarrow> ('s, 'p) mempool \<Rightarrow> exn + transaction option" where
  "auto_populate ops t M =
     (if text_of (t_signature t) = [] \<and> t_inputs t = [] \<and> t_sender t \<noteq> ''COINBASE'' \<and> t_type t \<noteq> ''coinbase'' then
        (case manager_utxos_for ops (t_sender t) True (mp_utxos M) of
           Inl e \<Rightarrow> Inl e
         | Inr us \<Rightarrow>
             let needed = float_add (t_amount t) (t_fee t) in
             case select_utxos needed (Fin 0) us of (chosen, amount) \<Rightarrow>
               if float_less amount needed then Inr None
               else let t1 = t\<lparr>t_inputs := map key_of chosen\<rparr>; change = float_sub amount needed in
                 Inr (Some (if t_outputs t = []
                   then t1\<lparr>t_outputs := (t_recipient t, t_amount t) #
                          (if float_less MINIMUM_TRANSACTION_AMOUNT change then [(t_sender t, change)] else [])\<rparr>
                   else t1)))
      else Inr (Some t))"

definition MAX_ORPHAN_TRANSACTIONS :: nat where "MAX_ORPHAN_TRANSACTIONS = 1000"

definition has_missing_utxos :: "'s store_ops \<Rightarrow> transaction \<Rightarrow> ('s, 'p) mempool \<Rightarrow> bool" where
  "has_missing_utxos ops t M \<longleftrightarrow>
     (\<exists>k \<in> set (t_inputs t). get_unspent_output ops (fst k) (snd k) False (mp_utxos M) = None)"

definition add_orphan :: "transaction \<Rightarrow> ('s, 'p) mempool \<Rightarrow> ('s, 'p) mempool" where
  "add_orphan t M =
     (if length (mp_orphans M) < MAX_ORPHAN_TRANSACTIONS \<and> \<not> (\<exists>p \<in> set (mp_orphans M). t_txid p = t_txid t)
      then M\<lparr>mp_orphans := mp_orphans M @ [t]\<rparr> else M)"

definition reject_invalid :: "transaction \<Rightarrow> pyfloat \<Rightarrow> ('s, 'p) mempool \<Rightarrow> ('s, 'p) mempool" where
  "reject_invalid t now M =
     (let M' = record_invalid_sender_attempt (t_sender t) now M in
      unlock_inputs t (M'\<lparr>mp_rejected_invalid := mp_rejected_invalid M' + 1\<rparr>))"

definition handle_rbf_replacement :: "(pyfloat \<Rightarrow> string) \<Rightarrow> transaction \<Rightarrow> ('s, 'p) mempool \<Rightarrow> bool \<times> ('s, 'p) mempool" where
  "handle_rbf_replacement F t M =
     (case find (\<lambda>p. t_txid p = t_replaces t) (mp_pending M) of
        None \<Rightarrow> (False, M)
      | Some original \<Rightarrow>
          if \<not> t_rbf_enabled original then (False, M)
          else if t_sender original \<noteq> t_sender t then (False, M)
          else if float_le (fee_rate F t) (fee_rate F original) then (False, M)
          else if set (t_inputs original) \<inter> set (t_inputs t) = {} then (False, M)
          else let M1 = forget_tx original M in
            (True, if counted original
               then forget_nonce original
                 (set_count (t_sender original) (dict_get (mp_sender_count M1) (t_sender original) 0 - 1) M1)
               else M1))"

text \<open>\<open>min\<close> keeps the first of equals.\<close>

definition lowest_rate :: "(pyfloat \<Rightarrow> string) \<Rightarrow> transaction list \<Rightarrow> transaction" where
  "lowest_rate F ts = foldl (\<lambda>m t. if float_less (fee_rate F t) (fee_rate F m) then t else m) (hd ts) (tl ts)"

definition evict_low :: "transaction \<Rightarrow> ('s, 'p) mempool \<Rightarrow> ('s, 'p) mempool" where
  "evict_low low M =
     (let M1 = forget_tx low M;
          M2 = (if counted low then set_count (t_sender low) (max 0 (dict_get (mp_sender_count M1) (t_sender low) 0 - 1)) M1
                else M1)
      in M2\<lparr>mp_evicted_low_fee := mp_evicted_low_fee M2 + 1\<rparr>)"

definition make_room :: "(pyfloat \<Rightarrow> string) \<Rightarrow> transaction \<Rightarrow> ('s, 'p) mempool \<Rightarrow> bool \<times> ('s, 'p) mempool" where
  "make_room F t M =
     (if mp_max_size M \<le> int (length (mp_pending M)) \<and> mp_pending M \<noteq> [] then
        let low = lowest_rate F (mp_pending M) in
        if float_less (fee_rate F low) (fee_rate F t) then (True, evict_low low M)
        else (False, M\<lparr>mp_rejected_low_fee := mp_rejected_low_fee M + 1\<rparr>)
      else (True, M))"

definition insert_pending :: "transaction \<Rightarrow> ('s, 'p) mempool \<Rightarrow> ('s, 'p) mempool" where
  "insert_pending t M = M\<lparr>mp_pending := mp_pending M @ [t], mp_seen := insert (tx_id t) (mp_seen M),
     mp_by_txid := AList.update (tx_id t) t (mp_by_txid M), mp_spent_inputs := mp_spent_inputs M \<union> set (input_keys t),
     mp_sender_count := count_sender t (mp_sender_count M)\<rparr>"

text \<open>A nonce is reserved for every sender but the chain itself; to reserve \<open>None\<close> raises.\<close>

definition reserve_pool_nonce :: "transaction \<Rightarrow> (('s, 'p) mempool, unit) meth" where
  "reserve_pool_nonce t M =
     (if counted t then
        (case t_nonce t of
           None \<Rightarrow> (Inl TypeError, M)
         | Some n \<Rightarrow> (case reserve_nonce (t_sender t) n (mp_tracker M) of (r, tr) \<Rightarrow>
             (r, case r of Inl e \<Rightarrow> M\<lparr>mp_tracker := tr\<rparr>
                 | Inr _ \<Rightarrow> M\<lparr>mp_tracker := tr, mp_pending_nonces := insert (t_sender t, n) (mp_pending_nonces M)\<rparr>)))
      else (Inr (), M))"

definition process_sponsor :: "(transaction \<Rightarrow> ('p, unit) meth) \<Rightarrow> transaction \<Rightarrow> (('s, 'p) mempool, unit) meth" where
  "process_sponsor sponsor t M =
     (if text_of (t_sponsor t) = [] then (Inr (), M)
      else case sponsor t (mp_sponsors M) of (r, p) \<Rightarrow> (r, M\<lparr>mp_sponsors := p\<rparr>))"

definition finish :: "(transaction \<Rightarrow> ('p, unit) meth) \<Rightarrow> pyfloat \<Rightarrow> transaction \<Rightarrow> (('s, 'p) mempool, bool) meth" where
  "finish sponsor later t = and_then (reserve_pool_nonce t) (\<lambda>_.
     and_then (modify (clear_sender_penalty (t_sender t) later)) (\<lambda>_. and_then (process_sponsor sponsor t) (\<lambda>_. ret True)))"

text \<open>From the check of the pool on, for a transaction the validator has accepted.\<close>

definition admit ::
    "(pyfloat \<Rightarrow> string) \<Rightarrow> (transaction \<Rightarrow> ('p, unit) meth) \<Rightarrow> pyfloat \<Rightarrow> pyfloat \<Rightarrow> transaction \<Rightarrow> (('s, 'p) mempool, bool) meth" where
  "admit F sponsor now later t M =
     (if check_double_spend t M then (Inr False, reject_invalid t now M)
      else case (if text_of (t_replaces t) \<noteq> [] then handle_rbf_replacement F t M else (True, M)) of
        (False, M1) \<Rightarrow> (Inr False, M1)
      | (True, M1) \<Rightarrow>
          if counted t \<and> mp_max_per_sender M1 \<le> dict_get (mp_sender_count M1) (t_sender t) 0
          then (Inr False, M1\<lparr>mp_rejected_sender_cap := mp_rejected_sender_cap M1 + 1\<rparr>)
          else case make_room F t M1 of
            (False, M2) \<Rightarrow> (Inr False, M2)
          | (True, M2) \<Rightarrow>
              finish sponsor later t (insert_pending t M2))"

definition with_id :: "node_env \<Rightarrow> transaction \<Rightarrow> transaction" where
  "with_id E t = (if tx_id t = [] then t\<lparr>t_txid := Some (env_hash E t)\<rparr> else t)"

definition pruned :: "pyfloat \<Rightarrow> ('s, 'p) mempool \<Rightarrow> ('s, 'p) mempool" where
  "pruned now M = snd (prune_orphan_pool now (snd (prune_expired_mempool now M)))"

text \<open>
  The answer comes with the transaction, whose id, inputs and outputs the call may fill in. The
  clock is read at the start, twice by the validator, and when the penalty is cleared.
\<close>

definition add_transaction ::
    "'s store_ops \<Rightarrow> node_env \<Rightarrow> (transaction \<Rightarrow> ('p, unit) meth) \<Rightarrow> (nat \<Rightarrow> pyfloat) \<Rightarrow> transaction
      \<Rightarrow> (('s, 'p) mempool, bool \<times> transaction) meth" where
  "add_transaction ops E sponsor clock tx M =
     (let now = clock 0; t = with_id E tx; M1 = pruned now M in
      if tx_id t \<in> mp_seen M1 then (Inr (False, t), M1)
      else case is_sender_banned (t_sender t) now M1 of
        (True, M2) \<Rightarrow> (Inr (False, t), M2\<lparr>mp_rejected_banned := mp_rejected_banned M2 + 1\<rparr>)
      | (False, M2) \<Rightarrow>
          (case auto_populate ops t M2 of
             Inl e \<Rightarrow> (Inl e, M2)
           | Inr None \<Rightarrow> (Inr (False, t), M2)
           | Inr (Some t1) \<Rightarrow>
               (case validate_transaction ops E (clock 1) (clock 2) True M2 t1 of
                  (True, t2) \<Rightarrow> and_then (admit (env_float_text E) sponsor now (clock 3) t2) (\<lambda>r. ret (r, t2)) M2
                | (False, t2) \<Rightarrow>
                    if t_type t2 \<noteq> ''coinbase'' \<and> has_missing_utxos ops t2 M2
                    then (Inr (False, t2), unlock_inputs t2 (add_orphan t2 M2))
                    else (Inr (False, t2), reject_invalid t2 now M2))))"

definition get_mempool_size_kb :: "node_env \<Rightarrow> ('s, 'p) mempool \<Rightarrow> exn + pyfloat" where
  "get_mempool_size_kb E M =
     float_div (float_of_int (sum_list (map (\<lambda>t. int (tx_size (env_float_text E) t)) (mp_pending M)))) (Fin 1024)"

text \<open>The pool of a new node, with the default settings.\<close>

definition new_mempool :: "'s utxo_manager \<Rightarrow> nonce_tracker \<Rightarrow> 'p \<Rightarrow> ('s, 'p) mempool" where
  "new_mempool m tr sponsors = \<lparr>mp_pending = [], mp_orphans = [], mp_seen = {}, mp_sender_count = [], mp_spent_inputs = {},
     mp_by_txid = [], mp_pending_nonces = {}, mp_invalid_senders = [], mp_rejected_invalid = 0, mp_rejected_banned = 0,
     mp_rejected_low_fee = 0, mp_rejected_sender_cap = 0, mp_evicted_low_fee = 0, mp_expired = 0, mp_max_size = 10000,
     mp_max_per_sender = 100, mp_max_age = 86400, mp_invalid_threshold = 3, mp_ban_seconds = 900, mp_window_seconds = 900,
     mp_utxos = m, mp_tracker = tr, mp_sponsors = sponsors\<rparr>"

section \<open>The indexes follow the list\<close>

definition index_ok :: "('s, 'p) mempool \<Rightarrow> bool" where
  "index_ok M \<longleftrightarrow> (\<forall>t \<in> set (mp_pending M). tx_id t \<noteq> []) \<and> distinct (map tx_id (mp_pending M)) \<and>
     mp_seen M = tx_id ` set (mp_pending M) \<and>
     (\<forall>t \<in> set (mp_pending M). map_of (mp_by_txid M) (tx_id t) = Some t)"

definition sent_by :: "string \<Rightarrow> transaction list \<Rightarrow> int" where
  "sent_by s ts = int (length (filter (\<lambda>t. t_sender t = s) ts))"

definition account :: "string \<Rightarrow> bool" where
  "account s \<longleftrightarrow> s \<noteq> [] \<and> s \<noteq> ''COINBASE''"

definition counts_ok :: "('s, 'p) mempool \<Rightarrow> bool" where
  "counts_ok M \<longleftrightarrow> (\<forall>s. account s \<longrightarrow> dict_get (mp_sender_count M) s 0 = sent_by s (mp_pending M)) \<and>
     (\<forall>s. \<not> account s \<longrightarrow> map_of (mp_sender_count M) s = None)"

definition limits_ok :: "('s, 'p) mempool \<Rightarrow> bool" where
  "limits_ok M \<longleftrightarrow> int (length (mp_pending M)) \<le> max 1 (mp_max_size M) \<and>
     (\<forall>s. account s \<longrightarrow> sent_by s (mp_pending M) \<le> max 0 (mp_max_per_sender M))"

definition pool_ok :: "('s, 'p) mempool \<Rightarrow> bool" where
  "pool_ok M \<longleftrightarrow> index_ok M \<and> counts_ok M \<and> limits_ok M"

lemma counted_account: "counted t \<longleftrightarrow> account (t_sender t)"
  by (simp add: counted_def account_def)

text \<open>Only the list, its indexes and the limits matter.\<close>

definition same_pool :: "('s, 'p) mempool \<Rightarrow> ('s, 'p) mempool \<Rightarrow> bool" where
  "same_pool M N \<longleftrightarrow> mp_pending N = mp_pending M \<and> mp_seen N = mp_seen M \<and> mp_by_txid N = mp_by_txid M \<and>
     mp_spent_inputs N = mp_spent_inputs M \<and> mp_sender_count N = mp_sender_count M \<and> mp_max_size N = mp_max_size M \<and>
     mp_max_per_sender N = mp_max_per_sender M"

lemma same_pool_ok: "same_pool M N \<Longrightarrow> pool_ok N = pool_ok M"
  by (simp add: same_pool_def pool_ok_def index_ok_def counts_ok_def limits_ok_def)

lemma same_pool_refl [simp]: "same_pool M M"
  by (simp add: same_pool_def)

lemma same_pool_trans: "same_pool M N \<Longrightarrow> same_pool N K \<Longrightarrow> same_pool M K"
  by (simp add: same_pool_def)

lemma same_pool_ban [simp]: "same_pool M (put_ban s b N) = same_pool M N"
  by (simp add: same_pool_def put_ban_def)

lemma same_pool_unlock [simp]: "same_pool M (unlock_inputs t N) = same_pool M N"
  by (simp add: same_pool_def unlock_inputs_def)

lemma same_pool_fields [simp]:
  "same_pool M (N\<lparr>mp_rejected_invalid := n\<rparr>) = same_pool M N" "same_pool M (N\<lparr>mp_rejected_banned := n\<rparr>) = same_pool M N"
  "same_pool M (N\<lparr>mp_rejected_low_fee := n\<rparr>) = same_pool M N" "same_pool M (N\<lparr>mp_rejected_sender_cap := n\<rparr>) = same_pool M N"
  "same_pool M (N\<lparr>mp_orphans := ts\<rparr>) = same_pool M N" "same_pool M (N\<lparr>mp_sponsors := p\<rparr>) = same_pool M N"
  "same_pool M (N\<lparr>mp_tracker := tr\<rparr>) = same_pool M N" "same_pool M (N\<lparr>mp_pending_nonces := ns\<rparr>) = same_pool M N"
  "same_pool M (N\<lparr>mp_invalid_senders := bs\<rparr>) = same_pool M N" "same_pool M (N\<lparr>mp_evicted_low_fee := n\<rparr>) = same_pool M N"
  by (simp_all add: same_pool_def)

lemma same_pool_record [simp]: "same_pool M (record_invalid_sender_attempt s now N) = same_pool M N"
  by (simp add: record_invalid_sender_attempt_def)

lemma same_pool_reject [simp]: "same_pool M (reject_invalid t now N) = same_pool M N"
  by (simp add: reject_invalid_def Let_def)

lemma same_pool_clear [simp]: "same_pool M (clear_sender_penalty s now N) = same_pool M N"
  by (simp add: clear_sender_penalty_def)

lemma same_pool_orphan [simp]: "same_pool M (add_orphan t N) = same_pool M N"
  by (simp add: add_orphan_def)

lemma same_pool_forget_nonce [simp]: "same_pool M (forget_nonce t N) = same_pool M N"
  by (simp add: forget_nonce_def)

lemma same_pool_banned: "is_sender_banned s now M = (b, N) \<Longrightarrow> same_pool M N"
  by (auto simp: is_sender_banned_def split: if_splits option.splits)

lemma same_pool_reserve: "same_pool M (snd (reserve_pool_nonce t M))"
  by (auto simp: reserve_pool_nonce_def split: option.split prod.split sum.split)

lemma same_pool_sponsor: "same_pool M (snd (process_sponsor sponsor t M))"
  by (auto simp: process_sponsor_def split: prod.split)

text \<open>Removal of a transaction is the same as filtering by its id.\<close>

lemma remove1_by_id:
  "distinct (map tx_id ts) \<Longrightarrow> t \<in> set ts \<Longrightarrow> remove1 t ts = filter (\<lambda>p. tx_id p \<noteq> tx_id t) ts"
proof (induction ts)
  case (Cons p ts)
  show ?case
  proof (cases "p = t")
    case True
    then have "tx_id t \<notin> set (map tx_id ts)" using Cons.prems(1) by simp
    then have "filter (\<lambda>p. tx_id p \<noteq> tx_id t) ts = ts" by (intro filter_True ballI) (metis image_eqI set_map)
    with True show ?thesis by simp
  next
    case False
    then have "t \<in> set ts" "tx_id p \<noteq> tx_id t" using Cons.prems by auto
    with False Cons show ?thesis by simp
  qed
qed simp

lemma index_forget:
  assumes "index_ok M" "t \<in> set (mp_pending M)"
  shows "index_ok (forget_tx t M)"
proof -
  have d: "distinct (map tx_id (mp_pending M))" using assms(1) by (simp add: index_ok_def)
  have r: "remove1 t (mp_pending M) = filter (\<lambda>p. tx_id p \<noteq> tx_id t) (mp_pending M)" by (rule remove1_by_id [OF d assms(2)])
  have "distinct (map tx_id (filter (\<lambda>p. tx_id p \<noteq> tx_id t) (mp_pending M)))" using d by (simp add: distinct_map_filter)
  moreover have "tx_id ` set (mp_pending M) - {tx_id t} = tx_id ` {p \<in> set (mp_pending M). tx_id p \<noteq> tx_id t}" by auto
  ultimately show ?thesis using assms by (simp add: index_ok_def forget_tx_def r delete_conv')
qed

lemma sent_by_remove: "t \<in> set ts \<Longrightarrow> sent_by s (remove1 t ts) = sent_by s ts - (if t_sender t = s then 1 else 0)"
  by (induction ts) (auto simp: sent_by_def)

lemma sent_by_append [simp]: "sent_by s (ts @ [t]) = sent_by s ts + (if t_sender t = s then 1 else 0)"
  by (simp add: sent_by_def)

lemma sent_by_pos: "t \<in> set ts \<Longrightarrow> 0 < sent_by (t_sender t) ts"
  by (auto simp: sent_by_def filter_empty_conv)

text \<open>The list after a removal, with the count of its sender put right.\<close>

lemma counts_set:
  assumes "counts_ok M" "t \<in> set (mp_pending M)" "account (t_sender t)"
    and "n = dict_get (mp_sender_count M) (t_sender t) 0 - 1"
  shows "counts_ok (set_count (t_sender t) n (forget_tx t M))"
  using assms by (auto simp: counts_ok_def set_count_def forget_tx_def sent_by_remove update_conv')

lemma counts_forget: "counts_ok M \<Longrightarrow> t \<in> set (mp_pending M) \<Longrightarrow> \<not> account (t_sender t) \<Longrightarrow> counts_ok (forget_tx t M)"
  by (auto simp: counts_ok_def forget_tx_def sent_by_remove)

lemma index_set_count [simp]: "index_ok (set_count s n M) = index_ok M"
  by (simp add: index_ok_def set_count_def)

lemma limits_forget: "limits_ok M \<Longrightarrow> t \<in> set (mp_pending M) \<Longrightarrow> limits_ok (set_count s n (forget_tx t M)) \<and> limits_ok (forget_tx t M)"
  by (auto simp: limits_ok_def forget_tx_def set_count_def sent_by_remove length_remove1)

definition drop_tx :: "transaction \<Rightarrow> ('s, 'p) mempool \<Rightarrow> ('s, 'p) mempool" where
  "drop_tx t M = (if account (t_sender t)
     then set_count (t_sender t) (dict_get (mp_sender_count M) (t_sender t) 0 - 1) (forget_tx t M) else forget_tx t M)"

lemma pool_drop: "pool_ok M \<Longrightarrow> t \<in> set (mp_pending M) \<Longrightarrow> pool_ok (drop_tx t M)"
  by (simp add: pool_ok_def drop_tx_def index_forget counts_set counts_forget limits_forget)

lemma drop_tx_fields [simp]:
  "mp_pending (drop_tx t M) = remove1 t (mp_pending M)" "mp_seen (drop_tx t M) = mp_seen M - {tx_id t}"
  "mp_max_size (drop_tx t M) = mp_max_size M" "mp_max_per_sender (drop_tx t M) = mp_max_per_sender M"
  "mp_spent_inputs (drop_tx t M) = mp_spent_inputs M - set (input_keys t)"
  by (simp_all add: drop_tx_def forget_tx_def set_count_def)

lemma counts_pos:
  assumes "counts_ok M" "t \<in> set (mp_pending M)" "account (t_sender t)"
  shows "0 < dict_get (mp_sender_count M) (t_sender t) 0"
  using assms sent_by_pos [OF assms(2)] by (simp add: counts_ok_def)

lemma forget_count [simp]: "mp_sender_count (forget_tx t M) = mp_sender_count M"
  by (simp add: forget_tx_def)

text \<open>Each way out of the pool is such a removal.\<close>

lemma evict_low_drop:
  assumes "pool_ok M" "t \<in> set (mp_pending M)"
  shows "same_pool (drop_tx t M) (evict_low t M)"
  using counts_pos [of M t] assms by (auto simp: pool_ok_def evict_low_def Let_def drop_tx_def counted_account)

lemma rbf_drop:
  assumes "pool_ok M" "handle_rbf_replacement F t M = (b, N)"
  shows "(\<not> b \<and> N = M) \<or> (b \<and> (\<exists>p \<in> set (mp_pending M). t_txid p = t_replaces t \<and> t_sender p = t_sender t \<and>
     t_rbf_enabled p \<and> \<not> float_le (fee_rate F t) (fee_rate F p) \<and> set (t_inputs p) \<inter> set (t_inputs t) \<noteq> {} \<and>
     same_pool (drop_tx p M) N))"
proof (cases "find (\<lambda>p. t_txid p = t_replaces t) (mp_pending M)")
  case None
  then show ?thesis using assms(2) by (simp add: handle_rbf_replacement_def)
next
  case (Some p)
  then have p: "p \<in> set (mp_pending M)" "t_txid p = t_replaces t" by (auto simp: find_Some_iff)
  let ?ok = "t_rbf_enabled p \<and> t_sender p = t_sender t \<and> \<not> float_le (fee_rate F t) (fee_rate F p) \<and> set (t_inputs p) \<inter> set (t_inputs t) \<noteq> {}"
  show ?thesis
  proof (cases ?ok)
    case True
    have "handle_rbf_replacement F t M = (True, if counted p
        then forget_nonce p (set_count (t_sender p) (dict_get (mp_sender_count (forget_tx p M)) (t_sender p) 0 - 1) (forget_tx p M))
        else forget_tx p M)"
      using True Some by (simp only: handle_rbf_replacement_def option.case Let_def if_False if_True simp_thms)
    then have "b" "N = (if account (t_sender p) then forget_nonce p (drop_tx p M) else drop_tx p M)"
      using assms(2) by (simp_all only: prod.inject drop_tx_def counted_account forget_count) simp_all
    with p True show ?thesis by auto
  next
    case False
    then have "handle_rbf_replacement F t M = (False, M)"
      using Some by (simp only: handle_rbf_replacement_def option.case split: if_split) blast
    then show ?thesis using assms(2) by simp
  qed
qed

lemma foldl_choice: "(\<And>m t. f m t = m \<or> f m t = t) \<Longrightarrow> foldl f a us \<in> insert a (set us)"
proof (induction us arbitrary: a)
  case (Cons u us)
  have "foldl f (f a u) us \<in> insert (f a u) (set us)" by (rule Cons.IH) (rule Cons.prems)
  moreover have "f a u \<in> {a, u}" using Cons.prems [of a u] by blast
  ultimately show ?case by auto
qed simp

lemma lowest_rate_in: "ts \<noteq> [] \<Longrightarrow> lowest_rate F ts \<in> set ts"
  using foldl_choice [of "\<lambda>m t. if float_less (fee_rate F t) (fee_rate F m) then t else m" "hd ts" "tl ts"]
  by (cases ts) (simp_all add: lowest_rate_def)

lemma make_room_drop:
  assumes "pool_ok M" "make_room F t M = (b, N)"
  shows "same_pool M N \<and> (b \<longrightarrow> int (length (mp_pending M)) < max 1 (mp_max_size M)) \<or>
    b \<and> mp_pending M \<noteq> [] \<and> mp_max_size M \<le> int (length (mp_pending M)) \<and> same_pool (drop_tx (lowest_rate F (mp_pending M)) M) N \<and>
      float_less (fee_rate F (lowest_rate F (mp_pending M))) (fee_rate F t)"
proof (cases "mp_max_size M \<le> int (length (mp_pending M)) \<and> mp_pending M \<noteq> []")
  case True
  then show ?thesis
    using assms(2) evict_low_drop [OF assms(1) lowest_rate_in, of F]
    by (auto simp: make_room_def Let_def split: if_splits)
next
  case False
  then show ?thesis using assms(2) by (auto simp: make_room_def)
qed

lemma dict_count_sender: "account s \<Longrightarrow>
    dict_get (count_sender t d) s 0 = dict_get d s 0 + (if t_sender t = s then 1 else 0)"
  by (auto simp: count_sender_def counted_account)

lemma count_sender_none: "\<not> account s \<Longrightarrow> map_of (count_sender t d) s = map_of d s"
  by (auto simp: count_sender_def counted_account update_conv')

lemma pool_insert:
  assumes "pool_ok M" "tx_id t \<noteq> []" "tx_id t \<notin> mp_seen M"
    and "int (length (mp_pending M)) < max 1 (mp_max_size M)"
    and "account (t_sender t) \<Longrightarrow> sent_by (t_sender t) (mp_pending M) < mp_max_per_sender M"
  shows "pool_ok (insert_pending t M)"
proof -
  have i: "index_ok M" and c: "counts_ok M" and l: "limits_ok M" using assms(1) by (simp_all add: pool_ok_def)
  have "tx_id t \<notin> tx_id ` set (mp_pending M)" using i assms(3) by (simp add: index_ok_def)
  then have "index_ok (insert_pending t M)"
    using i assms(2) by (auto simp: index_ok_def insert_pending_def update_conv') (metis image_eqI)
  moreover have "counts_ok (insert_pending t M)"
    using c by (simp add: counts_ok_def insert_pending_def dict_count_sender count_sender_none)
  moreover have "limits_ok (insert_pending t M)"
    using l assms(4,5) by (auto simp: limits_ok_def insert_pending_def)
  ultimately show ?thesis by (simp add: pool_ok_def)
qed

lemma admit_tail:
  "same_pool N (snd (and_then (reserve_pool_nonce t) (\<lambda>_.
     and_then (modify (clear_sender_penalty (t_sender t) later)) (\<lambda>_.
     and_then (process_sponsor sponsor t) (\<lambda>_. ret True))) N))"
proof -
  obtain r N1 where 1: "reserve_pool_nonce t N = (r, N1)" by fastforce
  obtain r' N2 where 2: "process_sponsor sponsor t (clear_sender_penalty (t_sender t) later N1) = (r', N2)" by fastforce
  have "same_pool N N1" using same_pool_reserve [of N t] 1 by simp
  moreover have "same_pool (clear_sender_penalty (t_sender t) later N1) N2"
    using same_pool_sponsor [of "clear_sender_penalty (t_sender t) later N1" sponsor t] 2 by simp
  ultimately show ?thesis
    using same_pool_trans [of N "clear_sender_penalty (t_sender t) later N1" N2]
    by (simp add: and_then_def 1 modify_def 2 ret_def split: sum.splits)
qed

text \<open>The rules of a replacement.\<close>

definition replaces :: "(pyfloat \<Rightarrow> string) \<Rightarrow> transaction \<Rightarrow> transaction \<Rightarrow> bool" where
  "replaces F t p \<longleftrightarrow> text_of (t_replaces t) \<noteq> [] \<and> t_txid p = t_replaces t \<and> t_sender p = t_sender t \<and> t_rbf_enabled p \<and>
     \<not> float_le (fee_rate F t) (fee_rate F p) \<and> set (t_inputs p) \<inter> set (t_inputs t) \<noteq> {}"

text \<open>What \<open>admit\<close> does to the list: nothing, or it takes the transaction in, for one that leaves or for none.\<close>

definition takes_in :: "(pyfloat \<Rightarrow> string) \<Rightarrow> transaction \<Rightarrow> ('s, 'p) mempool \<Rightarrow> ('s, 'p) mempool \<Rightarrow> bool" where
  "takes_in F t M N \<longleftrightarrow>
     (\<exists>M1 M2. (M1 = M \<and> text_of (t_replaces t) = [] \<or> (\<exists>p \<in> set (mp_pending M). replaces F t p \<and> M1 = drop_tx p M)) \<and>
       (M2 = M1 \<and> int (length (mp_pending M1)) < max 1 (mp_max_size M1) \<or>
        mp_pending M1 \<noteq> [] \<and> mp_max_size M1 \<le> int (length (mp_pending M1)) \<and> M2 = drop_tx (lowest_rate F (mp_pending M1)) M1 \<and>
          float_less (fee_rate F (lowest_rate F (mp_pending M1))) (fee_rate F t)) \<and>
       (account (t_sender t) \<longrightarrow> sent_by (t_sender t) (mp_pending M1) < mp_max_per_sender M) \<and>
       same_pool (insert_pending t M2) N)"

lemma takes_inI:
  assumes "M1 = M \<and> text_of (t_replaces t) = [] \<or> (\<exists>p \<in> set (mp_pending M). replaces F t p \<and> M1 = drop_tx p M)"
    and "M2 = M1 \<and> int (length (mp_pending M1)) < max 1 (mp_max_size M1) \<or>
      mp_pending M1 \<noteq> [] \<and> mp_max_size M1 \<le> int (length (mp_pending M1)) \<and> M2 = drop_tx (lowest_rate F (mp_pending M1)) M1 \<and>
        float_less (fee_rate F (lowest_rate F (mp_pending M1))) (fee_rate F t)"
    and "account (t_sender t) \<longrightarrow> sent_by (t_sender t) (mp_pending M1) < mp_max_per_sender M"
    and "same_pool (insert_pending t M2) N"
  shows "takes_in F t M N"
  unfolding takes_in_def by (intro exI conjI) (rule assms)+

lemma same_pool_drop: "same_pool M N \<Longrightarrow> same_pool (drop_tx t M) (drop_tx t N)"
  by (simp add: same_pool_def drop_tx_def forget_tx_def set_count_def)

lemma same_pool_insert: "same_pool M N \<Longrightarrow> same_pool (insert_pending t M) (insert_pending t N)"
  by (simp add: same_pool_def insert_pending_def)

lemma takes_in_ok:
  assumes ok: "pool_ok M" and t: "tx_id t \<noteq> []" "tx_id t \<notin> mp_seen M" and "takes_in F t M N"
  shows "pool_ok N"
proof -
  obtain M1 M2 where M1: "M1 = M \<or> (\<exists>p \<in> set (mp_pending M). M1 = drop_tx p M)"
    and M2: "M2 = M1 \<and> int (length (mp_pending M1)) < max 1 (mp_max_size M1) \<or>
        mp_pending M1 \<noteq> [] \<and> M2 = drop_tx (lowest_rate F (mp_pending M1)) M1"
    and cap: "account (t_sender t) \<longrightarrow> sent_by (t_sender t) (mp_pending M1) < mp_max_per_sender M"
    and N: "same_pool (insert_pending t M2) N"
    using assms(4) unfolding takes_in_def by blast
  have ok1: "pool_ok M1" and seen1: "mp_seen M1 \<subseteq> mp_seen M" and cap1: "mp_max_per_sender M1 = mp_max_per_sender M"
    using M1 ok by (auto simp: pool_drop)
  have "pool_ok M2 \<and> mp_seen M2 \<subseteq> mp_seen M1 \<and> mp_max_per_sender M2 = mp_max_per_sender M1 \<and>
      int (length (mp_pending M2)) < max 1 (mp_max_size M2) \<and>
      sent_by (t_sender t) (mp_pending M2) \<le> sent_by (t_sender t) (mp_pending M1)"
    using M2
  proof
    assume low: "mp_pending M1 \<noteq> [] \<and> M2 = drop_tx (lowest_rate F (mp_pending M1)) M1"
    then have l: "lowest_rate F (mp_pending M1) \<in> set (mp_pending M1)" using lowest_rate_in by blast
    moreover have "int (length (mp_pending M1)) \<le> max 1 (mp_max_size M1)" using ok1 by (simp add: pool_ok_def limits_ok_def)
    moreover have "0 < length (mp_pending M1)" using low by simp
    ultimately show ?thesis using low ok1 by (auto simp: pool_drop sent_by_remove length_remove1)
  qed (use ok1 in auto)
  then have "pool_ok (insert_pending t M2)"
    using t seen1 cap cap1 by (intro pool_insert) auto
  with N same_pool_ok show ?thesis by blast
qed

lemma cap_after_drop:
  assumes "pool_ok M" "p \<in> set (mp_pending M)" "t_sender p = t_sender t" "account (t_sender t)"
  shows "sent_by (t_sender t) (mp_pending (drop_tx p M)) < mp_max_per_sender M"
proof -
  have "sent_by (t_sender t) (mp_pending M) \<le> max 0 (mp_max_per_sender M)"
    using assms(1,4) by (simp add: pool_ok_def limits_ok_def)
  then show ?thesis using sent_by_pos [OF assms(2)] assms(2,3) by (simp add: sent_by_remove)
qed

lemma room_after_drop:
  assumes "pool_ok M" "p \<in> set (mp_pending M)" "same_pool (drop_tx p M) N"
  shows "make_room F t N = (True, N)" "int (length (mp_pending N)) < max 1 (mp_max_size N)"
proof -
  have "int (length (mp_pending M)) \<le> max 1 (mp_max_size M)" using assms(1) by (simp add: pool_ok_def limits_ok_def)
  moreover have len: "length (mp_pending N) = length (mp_pending M) - 1" "0 < length (mp_pending M)" "mp_max_size N = mp_max_size M"
    using assms(2,3) by (auto simp: same_pool_def length_remove1 length_pos_if_in_set)
  ultimately show "int (length (mp_pending N)) < max 1 (mp_max_size N)" by auto
  then have "\<not> (mp_max_size N \<le> int (length (mp_pending N)) \<and> mp_pending N \<noteq> [])"
    by (auto simp: max_def neq_Nil_conv split: if_splits)
  then show "make_room F t N = (True, N)" unfolding make_room_def by (simp only: if_False)
qed

lemma finish_same: "finish sponsor later t N = (r, K) \<Longrightarrow> same_pool N K"
  using admit_tail [of N t later sponsor] by (simp add: finish_def)

lemma finish_result: "finish sponsor later t N = (r, K) \<Longrightarrow> r \<noteq> Inr False"
  by (auto simp: finish_def and_then_def ret_def split: sum.splits prod.splits)

lemma admit_cases:
  assumes ok: "pool_ok M" and "admit F sponsor now later t M = (r, N)"
  shows "r = Inr False \<and> same_pool M N \<or> r \<noteq> Inr False \<and> takes_in F t M N \<and> \<not> check_double_spend t M"
proof (cases "check_double_spend t M")
  case True
  then show ?thesis using assms(2) by (auto simp: admit_def)
next
  case False
  obtain b M1 where M1: "(if text_of (t_replaces t) \<noteq> [] then handle_rbf_replacement F t M else (True, M)) = (b, M1)" by fastforce
  have adm: "admit F sponsor now later t M =
      (case (b, M1) of (False, M1) \<Rightarrow> (Inr False, M1)
      | (True, M1) \<Rightarrow>
          if counted t \<and> mp_max_per_sender M1 \<le> dict_get (mp_sender_count M1) (t_sender t) 0
          then (Inr False, M1\<lparr>mp_rejected_sender_cap := mp_rejected_sender_cap M1 + 1\<rparr>)
          else case make_room F t M1 of (False, M2) \<Rightarrow> (Inr False, M2) | (True, M2) \<Rightarrow> finish sponsor later t (insert_pending t M2))"
    using False by (simp add: admit_def M1)
  have count: "dict_get (mp_sender_count K) s 0 = sent_by s (mp_pending K)" if "pool_ok K" "account s" for K :: "('a, 'b) mempool" and s
    using that by (simp add: pool_ok_def counts_ok_def)
  show ?thesis
  proof (cases "text_of (t_replaces t) = []")
    case True
    then have b: "b" "M1 = M" using M1 by simp_all
    obtain c M2 where M2: "make_room F t M = (c, M2)" by fastforce
    note room = make_room_drop [OF ok M2]
    consider "counted t" "mp_max_per_sender M \<le> dict_get (mp_sender_count M) (t_sender t) 0"
      | "\<not> (counted t \<and> mp_max_per_sender M \<le> dict_get (mp_sender_count M) (t_sender t) 0)" "\<not> c"
      | "\<not> (counted t \<and> mp_max_per_sender M \<le> dict_get (mp_sender_count M) (t_sender t) 0)" "c" by blast
    then show ?thesis
    proof cases
      case 1
      then show ?thesis using assms(2) adm b by auto
    next
      case 2
      then have "same_pool M M2" using room by blast
      then show ?thesis using 2 assms(2) adm b M2 by auto
    next
      case 3
      then have "admit F sponsor now later t M = finish sponsor later t (insert_pending t M2)"
        using adm b M2 by (simp only: prod.case bool.case if_False)
      then have fin: "finish sponsor later t (insert_pending t M2) = (r, N)" using assms(2) by simp
      have same: "same_pool (insert_pending t M2) N" by (rule finish_same [OF fin])
      have cap: "account (t_sender t) \<longrightarrow> sent_by (t_sender t) (mp_pending M) < mp_max_per_sender M"
        using 3(1) count [OF ok] by (auto simp: counted_account)
      from room have "takes_in F t M N"
      proof
        assume "same_pool M M2 \<and> (c \<longrightarrow> int (length (mp_pending M)) < max 1 (mp_max_size M))"
        then have room: "int (length (mp_pending M)) < max 1 (mp_max_size M)" "same_pool (insert_pending t M) N"
          using 3(2) same_pool_trans [OF same_pool_insert same] by auto
        show ?thesis by (rule takes_inI [of M M _ _ M]) (use room cap True in simp_all)
      next
        assume low: "c \<and> mp_pending M \<noteq> [] \<and> mp_max_size M \<le> int (length (mp_pending M)) \<and> same_pool (drop_tx (lowest_rate F (mp_pending M)) M) M2 \<and>
          float_less (fee_rate F (lowest_rate F (mp_pending M))) (fee_rate F t)"
        then have "same_pool (insert_pending t (drop_tx (lowest_rate F (mp_pending M)) M)) N"
          using same_pool_trans [OF same_pool_insert same] by auto
        then show ?thesis using low cap True by (intro takes_inI [of M M _ _ "drop_tx (lowest_rate F (mp_pending M)) M"]) simp_all
      qed
      with finish_result [OF fin] False show ?thesis by blast
    qed
  next
    case repl: False
    then have M1': "handle_rbf_replacement F t M = (b, M1)" using M1 by simp
    show ?thesis
    proof (cases b)
      case True
      then obtain p where p: "p \<in> set (mp_pending M)" "t_txid p = t_replaces t" "t_sender p = t_sender t" "t_rbf_enabled p"
          "\<not> float_le (fee_rate F t) (fee_rate F p)" "set (t_inputs p) \<inter> set (t_inputs t) \<noteq> {}" "same_pool (drop_tx p M) M1"
        using rbf_drop [OF ok M1'] True by blast
      have ok1: "pool_ok M1" using pool_drop [OF ok p(1)] same_pool_ok [OF p(7)] by blast
      have pend: "mp_pending M1 = mp_pending (drop_tx p M)" "mp_max_per_sender M1 = mp_max_per_sender M"
        using p(7) by (simp_all add: same_pool_def)
      have cap: "account (t_sender t) \<Longrightarrow> sent_by (t_sender t) (mp_pending (drop_tx p M)) < mp_max_per_sender M"
        by (rule cap_after_drop [OF ok p(1,3)])
      have "\<not> (counted t \<and> mp_max_per_sender M1 \<le> dict_get (mp_sender_count M1) (t_sender t) 0)"
        using cap count [OF ok1] pend by (auto simp: counted_account)
      then have "admit F sponsor now later t M = finish sponsor later t (insert_pending t M1)"
        using adm True room_after_drop(1) [OF ok p(1,7), of F t] by (simp only: prod.case bool.case if_False)
      then have fin: "finish sponsor later t (insert_pending t M1) = (r, N)" using assms(2) by simp
      have "same_pool (insert_pending t (drop_tx p M)) N"
        by (rule same_pool_trans [OF same_pool_insert [OF p(7)] finish_same [OF fin]])
      moreover have "int (length (mp_pending (drop_tx p M))) < max 1 (mp_max_size (drop_tx p M))"
        by (rule room_after_drop(2) [OF ok p(1) same_pool_refl])
      ultimately have "takes_in F t M N"
        using p(1-6) repl cap by (intro takes_inI [of "drop_tx p M" M _ _ "drop_tx p M"]) (auto simp: replaces_def)
      with finish_result [OF fin] False show ?thesis by blast
    next
      case False
      then have "M1 = M" using rbf_drop [OF ok M1'] by blast
      with False show ?thesis using assms(2) adm by auto
    qed
  qed
qed

section \<open>Operations from outside\<close>

lemma fold_unlock: "fold unlock_inputs ts M = M\<lparr>mp_utxos := mp_utxos (fold unlock_inputs ts M)\<rparr>"
proof (induction ts arbitrary: M)
  case (Cons t ts)
  show ?case using Cons [of "unlock_inputs t M"] by (simp add: unlock_inputs_def)
qed simp

lemma map_of_rebuilt:
  "distinct (map tx_id ts) \<Longrightarrow> map_of (fold (\<lambda>t. AList.update (tx_id t) t) ts d) i =
     (case map_of (map (\<lambda>t. (tx_id t, t)) ts) i of Some t \<Rightarrow> Some t | None \<Rightarrow> map_of d i)"
proof (induction ts arbitrary: d)
  case (Cons a ts)
  have "map_of (map (\<lambda>t. (tx_id t, t)) ts) (tx_id a) = None" using Cons.prems by (auto simp: map_of_eq_None_iff)
  then show ?case using Cons by (auto simp: update_conv' split: option.split)
qed simp

lemma counts_rebuilt: "account s \<Longrightarrow> dict_get (fold count_sender ts d) s 0 = dict_get d s 0 + sent_by s ts"
proof (induction ts arbitrary: d)
  case (Cons t ts)
  then show ?case by (auto simp: dict_count_sender sent_by_def)
qed (simp add: sent_by_def)

lemma sent_by_filter: "sent_by s (filter P ts) \<le> sent_by s ts"
  by (simp add: sent_by_def) (metis (no_types, lifting) filter_filter length_filter_le filter_cong conj_commute)

lemma counts_rebuilt_none: "\<not> account s \<Longrightarrow> map_of (fold count_sender ts d) s = map_of d s"
  by (induction ts arbitrary: d) (simp_all add: count_sender_none)

text \<open>Expiry rebuilds what was kept step by step; in a pool that is well formed both agree.\<close>

lemma pruned_fields:
  assumes "\<forall>t \<in> set (mp_pending M). tx_id t \<noteq> []"
  shows "mp_pending (pruned now M) = filter (fresh now M) (mp_pending M)"
    "mp_seen (pruned now M) = tx_id ` set (filter (fresh now M) (mp_pending M))"
    "mp_sender_count (pruned now M) = fold count_sender (filter (fresh now M) (mp_pending M)) []"
    "mp_spent_inputs (pruned now M) = (\<Union>t \<in> set (filter (fresh now M) (mp_pending M)). set (input_keys t))"
    "mp_by_txid (pruned now M) = fold (\<lambda>t. AList.update (tx_id t) t) (filter (fresh now M) (mp_pending M)) []"
    "mp_max_size (pruned now M) = mp_max_size M" "mp_max_per_sender (pruned now M) = mp_max_per_sender M"
proof -
  have "filter (\<lambda>t. tx_id t \<noteq> []) (filter (fresh now M) (mp_pending M)) = filter (fresh now M) (mp_pending M)"
    using assms by (intro filter_True) simp
  moreover have "{t \<in> set (mp_pending M). fresh now M t \<and> tx_id t \<noteq> []} = {t \<in> set (mp_pending M). fresh now M t}"
    using assms by auto
  ultimately show "mp_pending (pruned now M) = filter (fresh now M) (mp_pending M)"
    "mp_seen (pruned now M) = tx_id ` set (filter (fresh now M) (mp_pending M))"
    "mp_sender_count (pruned now M) = fold count_sender (filter (fresh now M) (mp_pending M)) []"
    "mp_spent_inputs (pruned now M) = (\<Union>t \<in> set (filter (fresh now M) (mp_pending M)). set (input_keys t))"
    "mp_by_txid (pruned now M) = fold (\<lambda>t. AList.update (tx_id t) t) (filter (fresh now M) (mp_pending M)) []"
    "mp_max_size (pruned now M) = mp_max_size M" "mp_max_per_sender (pruned now M) = mp_max_per_sender M"
    using arg_cong [OF fold_unlock, of mp_max_size "filter (\<lambda>t. \<not> fresh now M t) (mp_pending M)" M]
      arg_cong [OF fold_unlock, of mp_max_per_sender "filter (\<lambda>t. \<not> fresh now M t) (mp_pending M)" M]
    by (simp_all add: pruned_def prune_expired_mempool_def prune_orphan_pool_def Let_def)
qed

lemma pool_pruned:
  assumes "pool_ok M"
  shows "pool_ok (pruned now M)"
proof -
  have i: "index_ok M" and l: "limits_ok M" using assms by (simp_all add: pool_ok_def)
  have ids: "\<forall>t \<in> set (mp_pending M). tx_id t \<noteq> []" using i by (simp add: index_ok_def)
  note F = pruned_fields [OF ids, of now]
  let ?kept = "filter (fresh now M) (mp_pending M)"
  have d: "distinct (map tx_id ?kept)" using i by (simp add: index_ok_def distinct_map_filter)
  have "map_of (map (\<lambda>t. (tx_id t, t)) ?kept) (tx_id t) = Some t" if "t \<in> set ?kept" for t
    by (rule map_of_is_SomeI) (use d that in \<open>auto simp: comp_def\<close>)
  then have "index_ok (pruned now M)" using ids d by (simp add: index_ok_def F map_of_rebuilt [OF d])
  moreover have "counts_ok (pruned now M)" by (simp add: counts_ok_def F counts_rebuilt counts_rebuilt_none)
  moreover have "int (length ?kept) \<le> max 1 (mp_max_size M)"
    using l length_filter_le [of "fresh now M" "mp_pending M"] unfolding limits_ok_def by linarith
  moreover have "account s \<longrightarrow> sent_by s ?kept \<le> max 0 (mp_max_per_sender M)" for s
    using l sent_by_filter [of s "fresh now M" "mp_pending M"] unfolding limits_ok_def by (meson order_trans)
  ultimately show ?thesis by (simp add: pool_ok_def limits_ok_def F)
qed

lemma env_hash_txid [simp]: "env_hash E (t\<lparr>t_txid := i\<rparr>) = env_hash E t"
  by (simp add: env_hash_def calculate_hash_def tx_data_def)

lemma validated_same:
  assumes "validate_transaction ops E now now' b M t = (True, t')"
  shows "\<exists>n. t' = t\<lparr>t_cached_size := n, t_txid := Some (env_hash E t)\<rparr> \<and>
    (t_txid t = Some (env_hash E t) \<or> t_sender t = ''COINBASE'')"
proof -
  obtain r n where step: "validate_timestamp_and_fee E now b t = (r, t\<lparr>t_cached_size := n\<rparr>)"
    using fee_step by metis
  obtain s u where check: "validate_transaction_id E (t\<lparr>t_cached_size := n\<rparr>) = (s, u)" by fastforce
  have run: "t' = u" "s = Inr ()"
    using assms by (auto simp: validate_transaction_def run_checks_def and_then_def check_that_def step check
        split: sum.splits prod.splits)
  have "u = t\<lparr>t_cached_size := n, t_txid := Some (env_hash E t)\<rparr> \<and> (t_txid t = Some (env_hash E t) \<or> t_sender t = ''COINBASE'')"
  proof (cases "t_txid t = Some (env_hash E t)")
    case True
    then have "u = t\<lparr>t_cached_size := n\<rparr>" using check by (simp add: validate_transaction_id_def)
    moreover have "t\<lparr>t_cached_size := n\<rparr> = t\<lparr>t_cached_size := n, t_txid := t_txid t\<rparr>" by simp
    ultimately show ?thesis using True by simp
  next
    case False
    then have "t_sender t = ''COINBASE''" "u = t\<lparr>t_cached_size := n, t_txid := Some (env_hash E t)\<rparr>"
      using check run(2) by (auto simp: validate_transaction_id_def split: if_splits)
    then show ?thesis by simp
  qed
  with run show ?thesis by blast
qed

text \<open>
  A coinbase that does not carry the hash of its contents gets a new id after the pool was searched
  for the old one; such a transaction is left out below.
\<close>

definition id_fixed :: "node_env \<Rightarrow> transaction \<Rightarrow> bool" where
  "id_fixed E t \<longleftrightarrow> (t_sender t = ''COINBASE'' \<and> tx_id t \<noteq> [] \<longrightarrow> tx_id t = env_hash E t)"

lemma with_id_fixed: "id_fixed E tx \<Longrightarrow> t_sender tx = ''COINBASE'' \<Longrightarrow> t_txid (with_id E tx) = Some (env_hash E tx)"
  by (cases "t_txid tx") (auto simp: id_fixed_def with_id_def tx_id_def text_of_def split: option.splits)

lemma with_id_fields [simp]:
  "t_sender (with_id E t) = t_sender t" "t_replaces (with_id E t) = t_replaces t" "env_hash E (with_id E t) = env_hash E t"
  by (simp_all add: with_id_def)

lemma populate_fields:
  assumes "auto_populate ops t M = Inr (Some t1)"
  shows "t_sender t1 = t_sender t \<and> t_txid t1 = t_txid t \<and> t_replaces t1 = t_replaces t \<and> (t_sender t = ''COINBASE'' \<longrightarrow> t1 = t)"
  using assms by (auto simp: auto_populate_def Let_def split: if_splits sum.splits prod.splits)

lemma add_cases:
  assumes ok: "pool_ok M" and fixed: "id_fixed E tx" and sha: "\<forall>s. env_sha E s \<noteq> []"
    and add: "add_transaction ops E sponsor clock tx M = (r, N)"
  shows "same_pool (pruned (clock 0) M) N \<and> (\<forall>t. r \<noteq> Inr (True, t)) \<or>
    (\<exists>K t. same_pool (pruned (clock 0) M) K \<and> takes_in (env_float_text E) t K N \<and> tx_id t \<noteq> [] \<and> tx_id t \<notin> mp_seen K \<and>
       \<not> check_double_spend t K \<and> t_replaces t = t_replaces tx \<and> (\<forall>b u. r = Inr (b, u) \<longrightarrow> b \<and> u = t))"
proof -
  define M1 where "M1 = pruned (clock 0) M"
  define t where "t = with_id E tx"
  have ok1: "pool_ok M1" unfolding M1_def by (rule pool_pruned [OF ok])
  obtain b M2 where ban: "is_sender_banned (t_sender t) (clock 0) M1 = (b, M2)" by fastforce
  have same2: "same_pool M1 M2" by (rule same_pool_banned [OF ban])
  have ok2: "pool_ok M2" using ok1 same_pool_ok [OF same2] by simp
  consider (seen) "tx_id t \<in> mp_seen M1" | (banned) "tx_id t \<notin> mp_seen M1" "b"
    | (new) "tx_id t \<notin> mp_seen M1" "\<not> b" by blast
  then show ?thesis
  proof cases
    case seen
    then show ?thesis using add by (simp add: add_transaction_def Let_def M1_def [symmetric] t_def [symmetric]) force
  next
    case banned
    then show ?thesis using add ban same2 by (simp add: add_transaction_def Let_def M1_def [symmetric] t_def [symmetric]) force
  next
    case new
    show ?thesis
    proof (cases "auto_populate ops t M2")
      case (Inl e)
      then show ?thesis using new add ban same2 by (simp add: add_transaction_def Let_def M1_def [symmetric] t_def [symmetric]) force
    next
      case (Inr opt)
      show ?thesis
      proof (cases opt)
        case None
        then show ?thesis using Inr new add ban same2 by (simp add: add_transaction_def Let_def M1_def [symmetric] t_def [symmetric]) force
      next
        case (Some t1)
        obtain v t2 where val: "validate_transaction ops E (clock 1) (clock 2) True M2 t1 = (v, t2)" by fastforce
        show ?thesis
        proof (cases v)
          case False
          then show ?thesis using val Inr Some new add ban same2
            by (simp add: add_transaction_def Let_def M1_def [symmetric] t_def [symmetric] split: if_splits) force+
        next
          case True
          obtain n where t2: "t2 = t1\<lparr>t_cached_size := n, t_txid := Some (env_hash E t1)\<rparr>"
              "t_txid t1 = Some (env_hash E t1) \<or> t_sender t1 = ''COINBASE''"
            using validated_same [OF val [unfolded eqTrueI [OF True]]] by blast
          note P = populate_fields [OF Inr [unfolded Some]]
          have "t_txid t2 = t_txid t"
            using t2 P with_id_fixed [OF fixed] by (auto simp: t_def)
          then have ids: "tx_id t2 = tx_id t" by (simp add: tx_id_def)
          have ne: "tx_id t2 \<noteq> []"
            using t2(1) sha by (simp add: tx_id_def text_of_def env_hash_def calculate_hash_def)
          have repl: "t_replaces t2 = t_replaces tx" using t2(1) P by (simp add: t_def)
          obtain a K where adm: "admit (env_float_text E) sponsor (clock 0) (clock 3) t2 M2 = (a, K)" by fastforce
          have rN: "N = K" "r = map_sum id (\<lambda>r. (r, t2)) a"
            using val True Inr Some new add ban adm
            by (simp_all add: add_transaction_def Let_def M1_def [symmetric] t_def [symmetric] and_then_def ret_def split: sum.splits)
          have "tx_id t2 \<notin> mp_seen M2" using new ids same2 by (simp add: same_pool_def)
          from admit_cases [OF ok2 adm] show ?thesis
          proof
            assume "a = Inr False \<and> same_pool M2 K"
            then have "r = Inr (False, t2)" "same_pool M1 N" using rN same_pool_trans [OF same2] by simp_all
            then show ?thesis unfolding M1_def by simp
          next
            assume "a \<noteq> Inr False \<and> takes_in (env_float_text E) t2 M2 K \<and> \<not> check_double_spend t2 M2"
            moreover from this have "\<forall>b u. r = Inr (b, u) \<longrightarrow> b \<and> u = t2" using rN(2) by (cases a) auto
            ultimately show ?thesis using same2 ne repl rN(1) \<open>tx_id t2 \<notin> mp_seen M2\<close> unfolding M1_def by blast
          qed
        qed
      qed
    qed
  qed
qed

section \<open>Every sequence of operations\<close>

datatype pool_step = AddTx "nat \<Rightarrow> pyfloat" transaction | RemoveTx "nat \<Rightarrow> pyfloat" string bool
  | Expire pyfloat | ExpireOrphans pyfloat | CountBans pyfloat | Mined "transaction list"

fun pool_do :: "'s store_ops \<Rightarrow> node_env \<Rightarrow> (transaction \<Rightarrow> ('p, unit) meth) \<Rightarrow> pool_step \<Rightarrow> ('s, 'p) mempool \<Rightarrow> ('s, 'p) mempool" where
  "pool_do ops E sponsor (AddTx clock t) M = snd (add_transaction ops E sponsor clock t M)"
| "pool_do ops E sponsor (RemoveTx clock i ban) M = snd (remove_transaction_from_mempool clock i ban M)"
| "pool_do ops E sponsor (Expire now) M = snd (prune_expired_mempool now M)"
| "pool_do ops E sponsor (ExpireOrphans now) M = snd (prune_orphan_pool now M)"
| "pool_do ops E sponsor (CountBans now) M = snd (count_active_bans now M)"
| "pool_do ops E sponsor (Mined ts) M = drop_mined ts M"

definition pool_run :: "'s store_ops \<Rightarrow> node_env \<Rightarrow> (transaction \<Rightarrow> ('p, unit) meth) \<Rightarrow> pool_step list \<Rightarrow> ('s, 'p) mempool \<Rightarrow> ('s, 'p) mempool" where
  "pool_run ops E sponsor steps M = fold (pool_do ops E sponsor) steps M"

fun step_ok :: "node_env \<Rightarrow> pool_step \<Rightarrow> bool" where
  "step_ok E (AddTx clock t) \<longleftrightarrow> id_fixed E t"
| "step_ok E s \<longleftrightarrow> True"

lemma remove_cases:
  assumes "pool_ok M"
  shows "same_pool M (snd (remove_transaction_from_mempool clock i ban M)) \<or>
    (\<exists>t \<in> set (mp_pending M). tx_id t = i \<and> same_pool (drop_tx t M) (snd (remove_transaction_from_mempool clock i ban M)))"
proof (cases "find (\<lambda>t. t_txid t = Some i) (mp_pending M)")
  case None
  then show ?thesis by (simp add: remove_transaction_from_mempool_def)
next
  case (Some t)
  then have t: "t \<in> set (mp_pending M)" "t_txid t = Some i" by (auto simp: find_Some_iff)
  then have i: "i \<noteq> [] \<Longrightarrow> tx_id t = i" by (simp add: tx_id_def text_of_def)
  show ?thesis
  proof (cases "i = []")
    case False
    define M1 where "M1 = forget_tx t (unlock_inputs t M)"
    define M2 where "M2 = (if t_sender t \<noteq> [] \<and> map_of (mp_sender_count M1) (t_sender t) \<noteq> None
        then set_count (t_sender t) (max 0 (dict_get (mp_sender_count M1) (t_sender t) 0 - 1)) M1 else M1)"
    have counts: "mp_sender_count M1 = mp_sender_count M" by (simp add: M1_def unlock_inputs_def)
    have c: "counts_ok M" using assms by (simp add: pool_ok_def)
    have "same_pool (drop_tx t M) M2"
    proof (cases "account (t_sender t)")
      case True
      have pos: "0 < dict_get (mp_sender_count M) (t_sender t) 0" by (rule counts_pos [OF c t(1) True])
      then have "map_of (mp_sender_count M) (t_sender t) \<noteq> None" by (auto simp: dict_get_def split: option.splits)
      with pos True show ?thesis
        by (simp add: M2_def counts drop_tx_def account_def) (simp add: same_pool_def M1_def set_count_def forget_tx_def unlock_inputs_def)
    next
      case False
      then have "map_of (mp_sender_count M) (t_sender t) = None" using c by (simp add: counts_ok_def)
      with False show ?thesis
        by (simp add: M2_def counts drop_tx_def) (simp add: same_pool_def M1_def forget_tx_def unlock_inputs_def)
    qed
    moreover have "snd (remove_transaction_from_mempool clock i ban M) =
        (if ban \<and> t_sender t \<noteq> [] then put_ban (t_sender t) \<lparr>ban_count = 0, ban_first_seen = clock 1,
           banned_until = float_add (clock 0) (float_of_int (mp_ban_seconds (forget_nonce t M2)))\<rparr> (forget_nonce t M2)
         else forget_nonce t M2)"
      using False Some
      by (simp only: remove_transaction_from_mempool_def if_False option.case Let_def M1_def M2_def snd_conv)
    ultimately have "same_pool (drop_tx t M) (snd (remove_transaction_from_mempool clock i ban M))" by simp
    with t(1) i [OF False] show ?thesis by blast
  qed (simp add: remove_transaction_from_mempool_def)
qed

lemma expire_is_pruned: "same_pool (pruned now M) (snd (prune_expired_mempool now M))"
  by (simp add: pruned_def prune_orphan_pool_def Let_def same_pool_def)

lemma drop_mined_fields:
  assumes "\<forall>t \<in> set (mp_pending M). tx_id t \<noteq> []"
  obtains P where "mp_pending (drop_mined ts M) = filter P (mp_pending M)"
    "mp_seen (drop_mined ts M) = tx_id ` set (filter P (mp_pending M))"
    "mp_sender_count (drop_mined ts M) = fold count_sender (filter P (mp_pending M)) []"
    "mp_by_txid (drop_mined ts M) = mp_by_txid M" "mp_spent_inputs (drop_mined ts M) = mp_spent_inputs M"
    "mp_max_size (drop_mined ts M) = mp_max_size M" "mp_max_per_sender (drop_mined ts M) = mp_max_per_sender M"
proof
  let ?P = "\<lambda>t. t_txid t \<notin> Some ` tx_id ` {t \<in> set ts. tx_id t \<noteq> []}"
  have "{t \<in> set (filter ?P (mp_pending M)). tx_id t \<noteq> []} = set (filter ?P (mp_pending M))" using assms by auto
  then show "mp_seen (drop_mined ts M) = tx_id ` set (filter ?P (mp_pending M))" by (simp only: drop_mined_def Let_def) simp
qed (simp_all add: drop_mined_def Let_def)

lemma pool_drop_mined:
  assumes "pool_ok M"
  shows "pool_ok (drop_mined ts M)"
proof -
  have i: "index_ok M" and l: "limits_ok M" using assms by (simp_all add: pool_ok_def)
  then have ids: "\<forall>t \<in> set (mp_pending M). tx_id t \<noteq> []" by (simp add: index_ok_def)
  obtain P where F: "mp_pending (drop_mined ts M) = filter P (mp_pending M)"
    "mp_seen (drop_mined ts M) = tx_id ` set (filter P (mp_pending M))"
    "mp_sender_count (drop_mined ts M) = fold count_sender (filter P (mp_pending M)) []"
    "mp_by_txid (drop_mined ts M) = mp_by_txid M" "mp_spent_inputs (drop_mined ts M) = mp_spent_inputs M"
    "mp_max_size (drop_mined ts M) = mp_max_size M" "mp_max_per_sender (drop_mined ts M) = mp_max_per_sender M"
    by (rule drop_mined_fields [OF ids, of ts])
  have "index_ok (drop_mined ts M)" using i by (simp add: index_ok_def F distinct_map_filter)
  moreover have "counts_ok (drop_mined ts M)" by (simp add: counts_ok_def F counts_rebuilt counts_rebuilt_none)
  moreover have "int (length (filter P (mp_pending M))) \<le> max 1 (mp_max_size M)"
    using l length_filter_le [of P "mp_pending M"] unfolding limits_ok_def by linarith
  moreover have "account s \<longrightarrow> sent_by s (filter P (mp_pending M)) \<le> max 0 (mp_max_per_sender M)" for s
    using l sent_by_filter [of s P "mp_pending M"] unfolding limits_ok_def by (meson order_trans)
  ultimately show ?thesis by (simp add: pool_ok_def limits_ok_def F)
qed

lemma pool_step_ok:
  assumes "pool_ok M" "step_ok E s" "\<forall>s. env_sha E s \<noteq> []"
  shows "pool_ok (pool_do ops E sponsor s M)"
proof (cases s)
  case (AddTx clock t)
  obtain r N where add: "add_transaction ops E sponsor clock t M = (r, N)" by fastforce
  have fixed: "id_fixed E t" using assms(2) AddTx by simp
  from add_cases [OF assms(1) fixed assms(3) add] have "pool_ok N"
  proof
    assume "same_pool (pruned (clock 0) M) N \<and> (\<forall>t. r \<noteq> Inr (True, t))"
    then show ?thesis using pool_pruned [OF assms(1)] same_pool_ok by blast
  next
    assume "\<exists>K t'. same_pool (pruned (clock 0) M) K \<and> takes_in (env_float_text E) t' K N \<and> tx_id t' \<noteq> [] \<and> tx_id t' \<notin> mp_seen K \<and>
       \<not> check_double_spend t' K \<and> t_replaces t' = t_replaces t \<and> (\<forall>b u. r = Inr (b, u) \<longrightarrow> b \<and> u = t')"
    then obtain K t' where "same_pool (pruned (clock 0) M) K" "takes_in (env_float_text E) t' K N" "tx_id t' \<noteq> []" "tx_id t' \<notin> mp_seen K" by blast
    then show ?thesis using pool_pruned [OF assms(1)] same_pool_ok takes_in_ok by blast
  qed
  then show ?thesis by (simp add: AddTx add)
next
  case (RemoveTx clock i ban)
  then show ?thesis using remove_cases [OF assms(1), of clock i ban] assms(1) same_pool_ok pool_drop by auto
next
  case (Expire now)
  then show ?thesis using pool_pruned [OF assms(1), of now] same_pool_ok [OF expire_is_pruned [of now M]] by simp
next
  case (ExpireOrphans now)
  then show ?thesis using assms(1) same_pool_ok [of M "M\<lparr>mp_orphans := filter (fresh now M) (mp_orphans M)\<rparr>"]
    by (simp add: prune_orphan_pool_def Let_def)
next
  case (CountBans now)
  have "same_pool M (snd (count_active_bans now M))" by (simp add: count_active_bans_def)
  from same_pool_ok [OF this] show ?thesis using assms(1) CountBans by simp
next
  case (Mined ts)
  then show ?thesis using pool_drop_mined [OF assms(1)] by simp
qed

lemma pool_run_ok:
  assumes "pool_ok M" "\<forall>s \<in> set steps. step_ok E s" "\<forall>s. env_sha E s \<noteq> []"
  shows "pool_ok (pool_run ops E sponsor steps M)"
  using assms(1,2) unfolding pool_run_def
  by (induction steps arbitrary: M) (simp_all add: pool_step_ok [OF _ _ assms(3)])

lemma new_mempool_settings [simp]:
  "mp_max_size (new_mempool m tr sponsors) = 10000" "mp_max_per_sender (new_mempool m tr sponsors) = 100"
  by (simp_all add: new_mempool_def)

lemma pool_new: "pool_ok (new_mempool m tr sponsors)"
  by (simp add: pool_ok_def index_ok_def counts_ok_def limits_ok_def new_mempool_def sent_by_def)

lemma takes_in_settings: "takes_in F t M N \<Longrightarrow> mp_max_size N = mp_max_size M \<and> mp_max_per_sender N = mp_max_per_sender M"
  unfolding takes_in_def same_pool_def insert_pending_def by auto

lemma pool_step_settings:
  assumes "pool_ok M" "step_ok E s" "\<forall>s. env_sha E s \<noteq> []"
  shows "mp_max_size (pool_do ops E sponsor s M) = mp_max_size M \<and> mp_max_per_sender (pool_do ops E sponsor s M) = mp_max_per_sender M"
proof -
  have ids: "\<forall>t \<in> set (mp_pending M). tx_id t \<noteq> []" using assms(1) by (simp add: pool_ok_def index_ok_def)
  note P = pruned_fields(6,7) [OF ids]
  show ?thesis
  proof (cases s)
    case (AddTx clock t)
    obtain r N where add: "add_transaction ops E sponsor clock t M = (r, N)" by fastforce
    have fixed: "id_fixed E t" using assms(2) AddTx by simp
    have "mp_max_size N = mp_max_size (pruned (clock 0) M) \<and> mp_max_per_sender N = mp_max_per_sender (pruned (clock 0) M)"
      using add_cases [OF assms(1) fixed assms(3) add] takes_in_settings unfolding same_pool_def by fastforce
    then show ?thesis by (simp add: AddTx add P)
  next
    case (RemoveTx clock i ban)
    then show ?thesis using remove_cases [OF assms(1), of clock i ban] by (auto simp: same_pool_def)
  next
    case (Expire now)
    then show ?thesis using expire_is_pruned [of now M] by (simp add: same_pool_def P)
  qed (simp_all add: prune_orphan_pool_def count_active_bans_def drop_mined_def Let_def)
qed

lemma pool_run_settings:
  assumes "\<forall>s \<in> set steps. step_ok E s" "\<forall>s. env_sha E s \<noteq> []" "pool_ok M"
  shows "mp_max_size (pool_run ops E sponsor steps M) = mp_max_size M \<and>
    mp_max_per_sender (pool_run ops E sponsor steps M) = mp_max_per_sender M"
  using assms(1,3) unfolding pool_run_def
  by (induction steps arbitrary: M) (simp_all add: pool_step_ok [OF _ _ assms(2)] pool_step_settings [OF _ _ assms(2)])

text \<open>
  C36: Whatever its own operations add, replace, evict, remove or expire, and whichever transactions leave
  with a block, the pool of a new node never holds two transactions of one id, the ids it has seen are those of its
  list, every pending transaction is found under its id, its counts per sender are exact, and neither the list nor
  the share of a sender outgrows its limit. Nothing is said of the inputs and nonces it notes as taken, nor of what its
  index of ids keeps beyond the list. A coinbase that brings a wrong id is left out; so are the promotion of
  orphans, the revalidation after a reorganisation and mining, which write the list alone.
\<close>

theorem mempool_invariant:
  assumes "\<forall>s \<in> set steps. step_ok E s" and "\<forall>s. env_sha E s \<noteq> []"
    and "M = pool_run ops E sponsor steps (new_mempool m tr sponsors)"
  shows "distinct (map tx_id (mp_pending M)) \<and> mp_seen M = tx_id ` set (mp_pending M) \<and>
    (\<forall>t \<in> set (mp_pending M). map_of (mp_by_txid M) (tx_id t) = Some t) \<and> length (mp_pending M) \<le> 10000 \<and>
    (\<forall>s. account s \<longrightarrow> dict_get (mp_sender_count M) s 0 = sent_by s (mp_pending M) \<and> sent_by s (mp_pending M) \<le> 100)"
proof -
  have ok: "pool_ok M" unfolding assms(3) by (rule pool_run_ok [OF pool_new assms(1,2)])
  have settings: "mp_max_size M = 10000" "mp_max_per_sender M = 100"
    unfolding assms(3) by (simp_all add: pool_run_settings [OF assms(1,2) pool_new])
  have "map_of (map (\<lambda>t. (tx_id t, t)) (mp_pending M)) (tx_id t) = Some t" if "t \<in> set (mp_pending M)" for t
    by (rule map_of_is_SomeI) (use ok that in \<open>auto simp: pool_ok_def index_ok_def comp_def\<close>)
  then show ?thesis using ok settings by (simp add: pool_ok_def index_ok_def counts_ok_def limits_ok_def)
qed

definition sample_admitted_pool :: "(mem_utxos, unit) mempool" where
  "sample_admitted_pool = pool_run memory_store sample_env (\<lambda>t. ret ()) [AddTx (\<lambda>n. Fin 1700000000) sample_payment]
     (new_mempool (mp_utxos sample_mempool) (mp_tracker sample_mempool) ())"

theorem mempool_invariant_witness:
  "distinct (map tx_id (mp_pending sample_admitted_pool)) \<and> mp_seen sample_admitted_pool = tx_id ` set (mp_pending sample_admitted_pool) \<and>
   length (mp_pending sample_admitted_pool) \<le> 10000"
proof -
  have "\<forall>s \<in> set [AddTx (\<lambda>n. Fin 1700000000) sample_payment]. step_ok sample_env s" "\<forall>s. env_sha sample_env s \<noteq> []"
    by (simp_all add: id_fixed_def sample_env_def sample_payment_def sample_texts)
  from mempool_invariant [OF this sample_admitted_pool_def] show ?thesis by (elim conjE) (intro conjI)
qed

section \<open>No two pending transactions spend one output\<close>

definition disjoint_inputs :: "transaction \<Rightarrow> transaction \<Rightarrow> bool" where
  "disjoint_inputs p q \<longleftrightarrow> set (input_keys p) \<inter> set (input_keys q) = {}"

definition plain_ok :: "('s, 'p) mempool \<Rightarrow> bool" where
  "plain_ok M \<longleftrightarrow> (\<Union>t \<in> set (mp_pending M). set (input_keys t)) \<subseteq> mp_spent_inputs M \<and>
     (\<forall>t \<in> set (mp_pending M). text_of (t_replaces t) = []) \<and> sorted_wrt disjoint_inputs (mp_pending M)"

lemma sorted_wrt_pair:
  "sorted_wrt P xs \<Longrightarrow> x \<in> set xs \<Longrightarrow> y \<in> set xs \<Longrightarrow> x \<noteq> y \<Longrightarrow> P x y \<or> P y x"
  by (induction xs) auto

lemma disjoint_sym: "disjoint_inputs p q \<longleftrightarrow> disjoint_inputs q p"
  by (auto simp: disjoint_inputs_def)

lemma plain_same: "same_pool M N \<Longrightarrow> plain_ok N = plain_ok M"
  by (simp add: same_pool_def plain_ok_def)

lemma plain_drop:
  assumes "plain_ok M" "index_ok M" "t \<in> set (mp_pending M)"
  shows "plain_ok (drop_tx t M)"
proof -
  have d: "distinct (map tx_id (mp_pending M))" using assms(2) by (simp add: index_ok_def)
  have r: "remove1 t (mp_pending M) = filter (\<lambda>p. tx_id p \<noteq> tx_id t) (mp_pending M)" by (rule remove1_by_id [OF d assms(3)])
  have apart: "set (input_keys p) \<inter> set (input_keys t) = {}" if "p \<in> set (mp_pending M)" "p \<noteq> t" for p
    using sorted_wrt_pair [of disjoint_inputs "mp_pending M" p t] assms(1,3) that
    by (auto simp: plain_ok_def disjoint_inputs_def)
  have "set (input_keys p) \<subseteq> mp_spent_inputs M - set (input_keys t)" if "p \<in> set (mp_pending M)" "tx_id p \<noteq> tx_id t" for p
  proof -
    have "p \<noteq> t" using that(2) by blast
    then show ?thesis using apart [OF that(1)] assms(1) that(1) unfolding plain_ok_def by blast
  qed
  then have "(\<Union>p \<in> set (filter (\<lambda>p. tx_id p \<noteq> tx_id t) (mp_pending M)). set (input_keys p)) \<subseteq> mp_spent_inputs M - set (input_keys t)"
    by auto
  then show ?thesis
    using assms(1) unfolding plain_ok_def drop_tx_fields r by (simp add: sorted_wrt_filter)
qed

lemma plain_insert:
  assumes "plain_ok M" "text_of (t_replaces t) = []" "set (input_keys t) \<inter> mp_spent_inputs M = {}"
  shows "plain_ok (insert_pending t M)"
proof -
  have "\<forall>p \<in> set (mp_pending M). disjoint_inputs p t" using assms(1,3) by (auto simp: plain_ok_def disjoint_inputs_def)
  with assms show ?thesis by (auto simp: plain_ok_def insert_pending_def sorted_wrt_append)
qed

lemma plain_pruned:
  assumes "plain_ok M" "pool_ok M"
  shows "plain_ok (pruned now M)"
proof -
  have ids: "\<forall>t \<in> set (mp_pending M). tx_id t \<noteq> []" using assms(2) by (simp add: pool_ok_def index_ok_def)
  show ?thesis using assms(1) by (simp add: plain_ok_def pruned_fields [OF ids] sorted_wrt_filter)
qed

lemma plain_takes_in:
  assumes "plain_ok M" "pool_ok M" "takes_in F t M N" "\<not> check_double_spend t M" "text_of (t_replaces t) = []"
  shows "plain_ok N"
proof -
  obtain M2 where M2: "M2 = M \<or> mp_pending M \<noteq> [] \<and> M2 = drop_tx (lowest_rate F (mp_pending M)) M" "same_pool (insert_pending t M2) N"
    using assms(3,5) by (simp add: takes_in_def replaces_def) blast
  have "plain_ok M2" "mp_spent_inputs M2 \<subseteq> mp_spent_inputs M"
    using M2(1) plain_drop [OF assms(1) _ lowest_rate_in] assms(1,2) by (auto simp: pool_ok_def)
  moreover have "set (input_keys t) \<inter> mp_spent_inputs M = {}" using assms(4,5) by (auto simp: check_double_spend_def)
  ultimately have "plain_ok (insert_pending t M2)" using assms(5) by (intro plain_insert) auto
  then show ?thesis using plain_same [OF M2(2)] by simp
qed

fun plain_step :: "pool_step \<Rightarrow> bool" where
  "plain_step (AddTx clock t) \<longleftrightarrow> text_of (t_replaces t) = []"
| "plain_step s \<longleftrightarrow> True"

lemma plain_drop_mined:
  assumes "plain_ok M" "pool_ok M"
  shows "plain_ok (drop_mined ts M)"
proof -
  have ids: "\<forall>t \<in> set (mp_pending M). tx_id t \<noteq> []" using assms(2) by (simp add: pool_ok_def index_ok_def)
  obtain P where "mp_pending (drop_mined ts M) = filter P (mp_pending M)" "mp_spent_inputs (drop_mined ts M) = mp_spent_inputs M"
    by (rule drop_mined_fields [OF ids, of ts]) (rule that)
  then show ?thesis using assms(1) by (auto simp: plain_ok_def sorted_wrt_filter)
qed

lemma plain_step_ok:
  assumes "plain_ok M" "pool_ok M" "step_ok E s" "plain_step s" "\<forall>s. env_sha E s \<noteq> []"
  shows "plain_ok (pool_do ops E sponsor s M)"
proof (cases s)
  case (AddTx clock t)
  obtain r N where add: "add_transaction ops E sponsor clock t M = (r, N)" by fastforce
  have fixed: "id_fixed E t" using assms(3) AddTx by simp
  have ok: "plain_ok (pruned (clock 0) M)" "pool_ok (pruned (clock 0) M)"
    using plain_pruned [OF assms(1,2)] pool_pruned [OF assms(2)] by blast+
  from add_cases [OF assms(2) fixed assms(5) add] have "plain_ok N"
  proof
    assume "same_pool (pruned (clock 0) M) N \<and> (\<forall>t. r \<noteq> Inr (True, t))"
    then show ?thesis using ok plain_same by blast
  next
    assume "\<exists>K t'. same_pool (pruned (clock 0) M) K \<and> takes_in (env_float_text E) t' K N \<and> tx_id t' \<noteq> [] \<and> tx_id t' \<notin> mp_seen K \<and>
       \<not> check_double_spend t' K \<and> t_replaces t' = t_replaces t \<and> (\<forall>b u. r = Inr (b, u) \<longrightarrow> b \<and> u = t')"
    then obtain K t' where K: "same_pool (pruned (clock 0) M) K" "takes_in (env_float_text E) t' K N"
      "\<not> check_double_spend t' K" "t_replaces t' = t_replaces t" by blast
    have "plain_ok K" using ok(1) plain_same [OF K(1)] by simp
    moreover have "pool_ok K" using ok(2) same_pool_ok [OF K(1)] by simp
    moreover have "text_of (t_replaces t') = []" using K(4) assms(4) AddTx by simp
    ultimately show ?thesis using plain_takes_in K(2,3) by blast
  qed
  then show ?thesis by (simp add: AddTx add)
next
  case (RemoveTx clock i ban)
  then show ?thesis
    using remove_cases [OF assms(2), of clock i ban] assms(1,2) plain_same plain_drop by (auto simp: pool_ok_def)
next
  case (Expire now)
  then show ?thesis using plain_pruned [OF assms(1,2), of now] plain_same [OF expire_is_pruned [of now M]] by simp
next
  case (ExpireOrphans now)
  then show ?thesis using assms(1) by (simp add: prune_orphan_pool_def Let_def plain_ok_def)
next
  case (CountBans now)
  then show ?thesis using assms(1) by (simp add: count_active_bans_def plain_ok_def)
next
  case (Mined ts)
  then show ?thesis using plain_drop_mined [OF assms(1,2)] by simp
qed

lemma plain_run:
  assumes "\<forall>s \<in> set steps. step_ok E s \<and> plain_step s" "\<forall>s. env_sha E s \<noteq> []" "plain_ok M" "pool_ok M"
  shows "plain_ok (pool_run ops E sponsor steps M)"
  using assms(1,3,4) unfolding pool_run_def
  by (induction steps arbitrary: M) (simp_all add: pool_step_ok [OF _ _ assms(2)] plain_step_ok [OF _ _ _ _ assms(2)])

text \<open>
  C37: As long as no transaction asks to replace another, no two pending transactions of the pool
  spend the same output, whatever is evicted, removed, expired or included in a block in between; transactions that call
  themselves coinbase are not counted. The steps are those of \<open>mempool_invariant\<close>.
\<close>

theorem mempool_no_double_spend:
  assumes "\<forall>s \<in> set steps. step_ok E s \<and> plain_step s" and "\<forall>s. env_sha E s \<noteq> []"
    and "M = pool_run ops E sponsor steps (new_mempool m tr sponsors)"
  shows "\<forall>i j. i < j \<and> j < length (mp_pending M) \<and> t_type (mp_pending M ! i) \<noteq> ''coinbase'' \<and> t_type (mp_pending M ! j) \<noteq> ''coinbase'' \<longrightarrow>
    set (t_inputs (mp_pending M ! i)) \<inter> set (t_inputs (mp_pending M ! j)) = {}"
proof (intro allI impI)
  fix i j
  assume ij: "i < j \<and> j < length (mp_pending M) \<and> t_type (mp_pending M ! i) \<noteq> ''coinbase'' \<and> t_type (mp_pending M ! j) \<noteq> ''coinbase''"
  have "plain_ok (new_mempool m tr sponsors)" by (simp add: plain_ok_def new_mempool_def)
  then have "plain_ok M" unfolding assms(3) by (rule plain_run [OF assms(1,2) _ pool_new])
  then have "disjoint_inputs (mp_pending M ! i) (mp_pending M ! j)"
    using ij by (simp add: plain_ok_def sorted_wrt_iff_nth_less)
  then show "set (t_inputs (mp_pending M ! i)) \<inter> set (t_inputs (mp_pending M ! j)) = {}"
    using ij by (auto simp: disjoint_inputs_def input_keys_def disjoint_iff)
qed

definition sample_steps :: "pool_step list" where
  "sample_steps = [AddTx (\<lambda>n. Fin 1700000000) sample_payment, AddTx (\<lambda>n. Fin 1700000000) (sample_payment\<lparr>t_nonce := Some 1\<rparr>)]"

lemma sample_steps_ok: "\<forall>s \<in> set sample_steps. step_ok sample_env s \<and> plain_step s" "\<forall>s. env_sha sample_env s \<noteq> []"
  by (simp_all add: sample_steps_def id_fixed_def sample_payment_def text_of_def sample_texts) (simp add: sample_env_def sample_texts)

definition sample_pool :: "(mem_utxos, unit) mempool" where
  "sample_pool = pool_run memory_store sample_env (\<lambda>t. ret ()) sample_steps
     (new_mempool (mp_utxos sample_mempool) (mp_tracker sample_mempool) ())"

theorem mempool_no_double_spend_witness:
  "\<not> (\<exists>i j. i < j \<and> j < length (mp_pending sample_pool) \<and>
    t_type (mp_pending sample_pool ! i) \<noteq> ''coinbase'' \<and> t_type (mp_pending sample_pool ! j) \<noteq> ''coinbase'' \<and>
    set (t_inputs (mp_pending sample_pool ! i)) \<inter> set (t_inputs (mp_pending sample_pool ! j)) \<noteq> {})"
proof
  assume "\<exists>i j. i < j \<and> j < length (mp_pending sample_pool) \<and>
    t_type (mp_pending sample_pool ! i) \<noteq> ''coinbase'' \<and> t_type (mp_pending sample_pool ! j) \<noteq> ''coinbase'' \<and>
    set (t_inputs (mp_pending sample_pool ! i)) \<inter> set (t_inputs (mp_pending sample_pool ! j)) \<noteq> {}"
  then obtain i j where "i < j \<and> j < length (mp_pending sample_pool) \<and>
      t_type (mp_pending sample_pool ! i) \<noteq> ''coinbase'' \<and> t_type (mp_pending sample_pool ! j) \<noteq> ''coinbase''"
    and "set (t_inputs (mp_pending sample_pool ! i)) \<inter> set (t_inputs (mp_pending sample_pool ! j)) \<noteq> {}" by (elim exE conjE) simp
  then show False using mempool_no_double_spend [OF sample_steps_ok sample_pool_def] by (elim allE [where x = i] allE [where x = j]) simp
qed

section \<open>What a refusal and an admission do to the list\<close>

lemma pruned_list:
  "mp_pending (pruned now M) = filter (fresh now M) (mp_pending M)"
  "mp_seen (pruned now M) = tx_id ` {t \<in> set (mp_pending (pruned now M)). tx_id t \<noteq> []}"
  by (auto simp: pruned_def prune_expired_mempool_def prune_orphan_pool_def Let_def)

text \<open>A transaction that replaces none is refused without any effect on the list.\<close>

lemma plain_refusal:
  assumes "text_of (t_replaces t) = []" and "admit F sponsor now later t M = (Inr False, N)"
  shows "same_pool M N"
proof -
  have "make_room F t M = (False, K) \<Longrightarrow> same_pool M K" for K
    by (auto simp: make_room_def Let_def split: if_splits)
  then show ?thesis using assms finish_result
    by (auto simp: admit_def split: if_splits prod.splits bool.splits) blast+
qed

lemma refusal_cases:
  assumes "add_transaction ops E sponsor clock t M = (Inr (False, t'), N)" and "text_of (t_replaces t) = []"
  shows "same_pool (pruned (clock 0) M) N"
proof -
  define M1 where "M1 = pruned (clock 0) M"
  obtain b M2 where ban: "is_sender_banned (t_sender t) (clock 0) M1 = (b, M2)" by fastforce
  have same2: "same_pool M1 M2" by (rule same_pool_banned [OF ban])
  have adm: "same_pool M1 K" if "auto_populate ops (with_id E t) M2 = Inr (Some t1)"
    "validate_transaction ops E (clock 1) (clock 2) True M2 t1 = (True, t2)"
    "admit (env_float_text E) sponsor (clock 0) (clock 3) t2 M2 = (Inr False, K)" for t1 t2 K
  proof -
    have "t_replaces t2 = t_replaces t" using populate_fields [OF that(1)] validated_same [OF that(2)] by auto
    then show ?thesis using plain_refusal [OF _ that(3)] assms(2) same_pool_trans [OF same2] by simp
  qed
  show ?thesis unfolding M1_def [symmetric]
    using assms(1) same2 adm ban
    by (auto simp: add_transaction_def Let_def M1_def [symmetric] and_then_def ret_def split: if_splits sum.splits option.splits prod.splits bool.splits)
qed

text \<open>
  C38: A transaction that is refused costs no other its place: the list is what expiry leaves of it. So it is
  for every transaction that replaces none; one that asks to replace another must come to a pool whose indexes are
  right and whose limits hold (beyond the limit of a sender the other is lost) and not be a coinbase with a wrong id.
\<close>

theorem refused_keeps_pool:
  assumes "text_of (t_replaces t) = [] \<or> pool_ok M \<and> id_fixed E t \<and> (\<forall>s. env_sha E s \<noteq> [])"
    and "add_transaction ops E sponsor clock t M = (Inr (False, t'), N)"
  shows "mp_pending N = filter (fresh (clock 0) M) (mp_pending M) \<and> mp_seen N = tx_id ` {p \<in> set (mp_pending N). tx_id p \<noteq> []}"
proof -
  have "same_pool (pruned (clock 0) M) N"
    using assms(1) refusal_cases [OF assms(2)] add_cases [OF _ _ _ assms(2)] by blast
  then show ?thesis by (simp add: same_pool_def pruned_list)
qed

text \<open>
  In a pool that holds more of a sender than its limit, which the promotion of orphans does not look at, a
  replacement that is refused takes the transaction it names with it.
\<close>

lemma refused_replacement_loses:
  assumes "handle_rbf_replacement F t M = (True, M1)" and "text_of (t_replaces t) \<noteq> []" "counted t"
    and "mp_max_per_sender M1 \<le> dict_get (mp_sender_count M1) (t_sender t) 0"
  shows "\<exists>p N. admit F sponsor now later t M = (Inr False, N) \<and> p \<in> set (mp_pending M) \<and> mp_pending N = remove1 p (mp_pending M)"
proof -
  obtain p where p: "find (\<lambda>p. t_txid p = t_replaces t) (mp_pending M) = Some p" "mp_pending M1 = remove1 p (mp_pending M)"
    using assms(1) by (auto simp: handle_rbf_replacement_def forget_tx_def forget_nonce_def set_count_def Let_def split: option.splits if_splits)
  moreover have "p \<in> set (mp_pending M)" using p(1) by (auto simp: find_Some_iff)
  moreover have "admit F sponsor now later t M = (Inr False, M1\<lparr>mp_rejected_sender_cap := mp_rejected_sender_cap M1 + 1\<rparr>)"
    using assms by (simp add: admit_def check_double_spend_def)
  ultimately show ?thesis by auto
qed

text \<open>The second half of an admission: a pool with room, of which there is always some for one, or the cheapest leaves.\<close>

lemma room_or_eviction:
  assumes M2: "M2 = M1 \<and> int (length (mp_pending M1)) < max 1 (mp_max_size M1) \<or>
      mp_pending M1 \<noteq> [] \<and> mp_max_size M1 \<le> int (length (mp_pending M1)) \<and> M2 = drop_tx (lowest_rate F (mp_pending M1)) M1 \<and>
      float_less (fee_rate F (lowest_rate F (mp_pending M1))) (fee_rate F t)"
    and N: "same_pool (insert_pending t M2) N"
  shows "if int (length (mp_pending M1)) < max 1 (mp_max_size M1) then mp_pending N = mp_pending M1 @ [t]
    else \<exists>low \<in> set (mp_pending M1). low = lowest_rate F (mp_pending M1) \<and> float_less (fee_rate F low) (fee_rate F t) \<and>
      mp_pending N = remove1 low (mp_pending M1) @ [t]"
  using M2
proof
  have last: "mp_pending N = mp_pending M2 @ [t]" using N by (simp add: same_pool_def insert_pending_def)
  {
    assume "M2 = M1 \<and> int (length (mp_pending M1)) < max 1 (mp_max_size M1)"
    then show ?thesis using last by simp
  next
    assume low: "mp_pending M1 \<noteq> [] \<and> mp_max_size M1 \<le> int (length (mp_pending M1)) \<and> M2 = drop_tx (lowest_rate F (mp_pending M1)) M1 \<and>
        float_less (fee_rate F (lowest_rate F (mp_pending M1))) (fee_rate F t)"
    then have "0 < length (mp_pending M1)" by simp
    then have "\<not> int (length (mp_pending M1)) < max 1 (mp_max_size M1)" using low by (simp add: max_def)
    moreover have "lowest_rate F (mp_pending M1) \<in> set (mp_pending M1)" using low lowest_rate_in by blast
    ultimately show ?thesis using low last by simp
  }
qed

text \<open>
  C39: A transaction, not a coinbase that brings a wrong id, that is taken into a pool whose indexes are right and whose
  limits hold goes to the end of the list, under an id that was not pending. If it asks to replace
  another, one it may replace has left: of the id it names and the same sender, open to replacement, of a lower fee rate and with a
  common input; otherwise none has left for that. Then either the pool had room (for one always) and nothing else left, or it was full
  and the first of those with the lowest fee rate, which is below its own, made place. Before, its sender was below the limit.
\<close>

theorem admission_spec:
  assumes "pool_ok M" "id_fixed E t" "\<forall>s. env_sha E s \<noteq> []"
    and "add_transaction ops E sponsor clock t M = (Inr (True, t'), N)"
  shows "\<exists>kept. (let old = filter (fresh (clock 0) M) (mp_pending M) in
      (if text_of (t_replaces t) = [] then kept = old else \<exists>p \<in> set old. replaces (env_float_text E) t' p \<and> kept = remove1 p old)) \<and>
    (if int (length kept) < max 1 (mp_max_size M) then mp_pending N = kept @ [t']
     else \<exists>low \<in> set kept. low = lowest_rate (env_float_text E) kept \<and>
       float_less (fee_rate (env_float_text E) low) (fee_rate (env_float_text E) t') \<and> mp_pending N = remove1 low kept @ [t']) \<and>
    (account (t_sender t') \<longrightarrow> sent_by (t_sender t') kept < mp_max_per_sender M) \<and> distinct (map tx_id (mp_pending N))"
proof -
  let ?F = "env_float_text E" and ?list = "filter (fresh (clock 0) M) (mp_pending M)"
  have ids: "\<forall>t \<in> set (mp_pending M). tx_id t \<noteq> []" using assms(1) by (simp add: pool_ok_def index_ok_def)
  obtain K where K: "same_pool (pruned (clock 0) M) K" "takes_in ?F t' K N" "tx_id t' \<noteq> []" "tx_id t' \<notin> mp_seen K" "t_replaces t' = t_replaces t"
    using add_cases [OF assms] by blast
  have list: "mp_pending K = ?list" "mp_max_size K = mp_max_size M" "mp_max_per_sender K = mp_max_per_sender M"
    using K(1) by (simp_all add: same_pool_def pruned_fields [OF ids])
  have "pool_ok K" using pool_pruned [OF assms(1)] same_pool_ok [OF K(1)] by blast
  then have N_ok: "distinct (map tx_id (mp_pending N))" using takes_in_ok [OF _ K(3,4,2)] by (simp add: pool_ok_def index_ok_def)
  obtain M1 M2 where M1: "M1 = K \<and> text_of (t_replaces t') = [] \<or> (\<exists>p \<in> set (mp_pending K). replaces ?F t' p \<and> M1 = drop_tx p K)"
    and M2: "M2 = M1 \<and> int (length (mp_pending M1)) < max 1 (mp_max_size M1) \<or>
        mp_pending M1 \<noteq> [] \<and> mp_max_size M1 \<le> int (length (mp_pending M1)) \<and> M2 = drop_tx (lowest_rate ?F (mp_pending M1)) M1 \<and>
        float_less (fee_rate ?F (lowest_rate ?F (mp_pending M1))) (fee_rate ?F t')"
    and cap: "account (t_sender t') \<longrightarrow> sent_by (t_sender t') (mp_pending M1) < mp_max_per_sender K"
    and N: "same_pool (insert_pending t' M2) N"
    using K(2) unfolding takes_in_def by blast
  have "mp_max_size M1 = mp_max_size M" using M1 list(2) by auto
  note second = room_or_eviction [OF M2 N, unfolded this]
  have first: "if text_of (t_replaces t) = [] then mp_pending M1 = ?list
      else \<exists>p \<in> set ?list. replaces ?F t' p \<and> mp_pending M1 = remove1 p ?list"
    using M1 list(1) K(5) by (auto simp: replaces_def)
  show ?thesis unfolding Let_def using first second cap list(3) N_ok by (intro exI [of _ "mp_pending M1"]) auto
qed

section \<open>Bans\<close>

text \<open>Invalid attempts at the given times.\<close>

definition attempts :: "string \<Rightarrow> pyfloat list \<Rightarrow> ('s, 'p) mempool \<Rightarrow> ('s, 'p) mempool" where
  "attempts sender ts M = fold (record_invalid_sender_attempt sender) ts M"

lemma put_ban_fields [simp]:
  "mp_window_seconds (put_ban s b M) = mp_window_seconds M" "mp_invalid_threshold (put_ban s b M) = mp_invalid_threshold M"
  "mp_ban_seconds (put_ban s b M) = mp_ban_seconds M" "map_of (mp_invalid_senders (put_ban s b M)) s = Some b"
  by (simp_all add: put_ban_def update_conv')

lemma strike_put [simp]: "strike now (put_ban s b' M) b = strike now M b"
  by (simp add: strike_def Let_def)

lemma attempts_counted:
  assumes "account s" and "map_of (mp_invalid_senders M) s = Some b" "0 \<le> ban_count b"
    and "\<forall>t \<in> set ts. \<not> float_less (float_of_int (mp_window_seconds M)) (float_sub t (ban_first_seen b))"
    and "ban_count b + int (length ts) < mp_invalid_threshold M"
  shows "map_of (mp_invalid_senders (attempts s ts M)) s = Some (b\<lparr>ban_count := ban_count b + int (length ts)\<rparr>) \<and>
    mp_window_seconds (attempts s ts M) = mp_window_seconds M \<and> mp_invalid_threshold (attempts s ts M) = mp_invalid_threshold M \<and>
    mp_ban_seconds (attempts s ts M) = mp_ban_seconds M"
  using assms(2-5)
proof (induction ts arbitrary: M b)
  case (Cons t ts)
  have s: "s \<noteq> []" "s \<noteq> ''COINBASE''" using assms(1) by (simp_all add: account_def)
  let ?b = "b\<lparr>ban_count := ban_count b + 1\<rparr>"
  have "strike t M b = ?b" using Cons.prems by (simp add: strike_def Let_def)
  then have step: "record_invalid_sender_attempt s t M = put_ban s ?b M"
    using Cons.prems(1) s by (simp add: record_invalid_sender_attempt_def)
  have "map_of (mp_invalid_senders (attempts s ts (put_ban s ?b M))) s = Some (?b\<lparr>ban_count := ban_count ?b + int (length ts)\<rparr>) \<and>
    mp_window_seconds (attempts s ts (put_ban s ?b M)) = mp_window_seconds (put_ban s ?b M) \<and>
    mp_invalid_threshold (attempts s ts (put_ban s ?b M)) = mp_invalid_threshold (put_ban s ?b M) \<and>
    mp_ban_seconds (attempts s ts (put_ban s ?b M)) = mp_ban_seconds (put_ban s ?b M)"
    by (rule Cons.IH) (use Cons.prems in simp_all)
  then show ?case by (simp add: attempts_def step)
qed (simp add: attempts_def)

text \<open>
  A sender without a record whose last of as many invalid attempts as the threshold falls into
  the window that the first one opened is banned from then on: until the ban has run out the sender
  is refused, and no later.
\<close>

lemma bans_hold:
  assumes "account s" and "map_of (mp_invalid_senders M) s = None" and "int (length ts) + 2 = mp_invalid_threshold M"
    and "\<forall>t \<in> set (first # ts @ [final]). \<not> float_less (float_of_int (mp_window_seconds M)) (float_sub t first)"
  shows "fst (is_sender_banned s now (attempts s (first # ts @ [final]) M)) \<longleftrightarrow>
    float_less now (float_add final (float_of_int (mp_ban_seconds M)))"
proof -
  have s: "s \<noteq> []" "s \<noteq> ''COINBASE''" using assms(1) by (simp_all add: account_def)
  let ?b = "\<lparr>ban_count = 1, ban_first_seen = first, banned_until = Fin 0\<rparr>"
  have "strike first M (no_ban first) = ?b"
    using assms(3,4) by (simp add: strike_def no_ban_def Let_def)
  then have one: "record_invalid_sender_attempt s first M = put_ban s ?b M"
    using s assms(2) by (simp add: record_invalid_sender_attempt_def)
  define M1 where "M1 = attempts s ts (put_ban s ?b M)"
  have "map_of (mp_invalid_senders M1) s = Some (?b\<lparr>ban_count := ban_count ?b + int (length ts)\<rparr>) \<and>
    mp_window_seconds M1 = mp_window_seconds (put_ban s ?b M) \<and> mp_invalid_threshold M1 = mp_invalid_threshold (put_ban s ?b M) \<and>
    mp_ban_seconds M1 = mp_ban_seconds (put_ban s ?b M)"
    unfolding M1_def by (rule attempts_counted [OF assms(1)]) (use assms(3,4) in simp_all)
  then have M1: "map_of (mp_invalid_senders M1) s = Some \<lparr>ban_count = 1 + int (length ts), ban_first_seen = first, banned_until = Fin 0\<rparr>"
    "mp_window_seconds M1 = mp_window_seconds M" "mp_invalid_threshold M1 = mp_invalid_threshold M" "mp_ban_seconds M1 = mp_ban_seconds M"
    by simp_all
  let ?ban = "\<lparr>ban_count = 0, ban_first_seen = final, banned_until = float_add final (float_of_int (mp_ban_seconds M))\<rparr>"
  have "strike final M1 \<lparr>ban_count = 1 + int (length ts), ban_first_seen = first, banned_until = Fin 0\<rparr> = ?ban"
    using assms(3,4) M1 by (simp add: strike_def Let_def)
  then have "attempts s (first # ts @ [final]) M = put_ban s ?ban M1"
    using s M1(1) one by (simp add: attempts_def M1_def record_invalid_sender_attempt_def)
  then show ?thesis using s by (simp add: is_sender_banned_def)
qed

section \<open>The sample transaction enters the pool\<close>

lemma sample_mempool_new: "sample_mempool = new_mempool (mp_utxos sample_mempool) (mp_tracker sample_mempool) ()"
  by (simp add: sample_mempool_def new_mempool_def)

lemma sample_pruned: "pruned now sample_mempool = sample_mempool"
  by (simp add: pruned_def prune_expired_mempool_def prune_orphan_pool_def Let_def sample_mempool_def)

lemma sample_admitted:
  "\<exists>N. admit F (\<lambda>t. ret ()) now later sample_payment sample_mempool = (Inr True, N) \<and> mp_pending N = [sample_payment]"
proof -
  have "\<not> check_double_spend sample_payment sample_mempool" by (simp add: check_double_spend_def sample_mempool_def)
  moreover have "\<not> (counted sample_payment \<and> mp_max_per_sender sample_mempool \<le> dict_get (mp_sender_count sample_mempool) (t_sender sample_payment) 0)"
    by (simp add: sample_mempool_def)
  moreover have "make_room F sample_payment sample_mempool = (True, sample_mempool)" by (simp add: make_room_def sample_mempool_def)
  moreover have "text_of (t_replaces sample_payment) = []" by (simp add: sample_payment_def text_of_def)
  ultimately have "admit F (\<lambda>t. ret ()) now later sample_payment sample_mempool = finish (\<lambda>t. ret ()) later sample_payment (insert_pending sample_payment sample_mempool)"
    by (simp only: admit_def if_False simp_thms prod.case bool.case)
  moreover have "mp_pending (insert_pending sample_payment sample_mempool) = [sample_payment]"
    by (simp add: insert_pending_def sample_mempool_def)
  moreover have "\<exists>N. finish (\<lambda>t. ret ()) later sample_payment (insert_pending sample_payment sample_mempool) = (Inr True, N)"
    by (simp add: finish_def and_then_def reserve_pool_nonce_def sample_payment_def counted_def sample_texts reserve_nonce_def ret_def
        modify_def process_sponsor_def text_of_def)
  ultimately show ?thesis using finish_same unfolding same_pool_def by metis
qed

lemma sample_added:
  "\<exists>N. add_transaction memory_store sample_env (\<lambda>t. ret ()) (\<lambda>n. Fin 1700000000) sample_payment sample_mempool = (Inr (True, sample_payment), N) \<and>
    mp_pending N = [sample_payment]"
proof -
  have "with_id sample_env sample_payment = sample_payment" by (simp add: with_id_def tx_id_def text_of_def sample_payment_def sample_texts)
  moreover have "tx_id sample_payment \<notin> mp_seen sample_mempool" by (simp add: sample_mempool_def)
  moreover have "is_sender_banned (t_sender sample_payment) now sample_mempool = (False, sample_mempool)" for now
    by (simp add: is_sender_banned_def sample_mempool_def)
  moreover have "auto_populate memory_store sample_payment sample_mempool = Inr (Some sample_payment)"
    by (simp add: auto_populate_def sample_payment_def)
  ultimately show ?thesis
    using sample_admitted [of "env_float_text sample_env" "Fin 1700000000" "Fin 1700000000"]
    by (auto simp: add_transaction_def Let_def sample_pruned sample_accepted and_then_def ret_def)
qed

lemma sample_pool_ok: "pool_ok sample_mempool" "id_fixed sample_env sample_payment" "\<forall>s. env_sha sample_env s \<noteq> []"
  using pool_new [of "mp_utxos sample_mempool" "mp_tracker sample_mempool" "()"] sample_steps_ok(2)
  by (simp_all add: sample_mempool_new [symmetric] id_fixed_def sample_payment_def sample_texts)

theorem admission_spec_witness:
  "\<exists>N. add_transaction memory_store sample_env (\<lambda>t. ret ()) (\<lambda>n. Fin 1700000000) sample_payment sample_mempool =
    (Inr (True, sample_payment), N) \<and> mp_pending N = [sample_payment]"
proof -
  obtain N where N: "add_transaction memory_store sample_env (\<lambda>t. ret ()) (\<lambda>n. Fin 1700000000) sample_payment sample_mempool = (Inr (True, sample_payment), N)"
    using sample_added by blast
  have empty: "mp_pending sample_mempool = []" by (simp add: sample_mempool_def)
  have plain: "text_of (t_replaces sample_payment) = []" "0 < mp_max_size sample_mempool"
    by (simp_all add: sample_payment_def text_of_def sample_mempool_def)
  show ?thesis using admission_spec [OF sample_pool_ok N] N plain unfolding empty by auto
qed

theorem refused_keeps_pool_witness:
  "\<exists>N. add_transaction memory_store sample_env (\<lambda>t. ret ()) (\<lambda>n. Fin 1700000000) (sample_payment\<lparr>t_nonce := None\<rparr>)
      (sample_mempool\<lparr>mp_invalid_senders := [(alice_address, \<lparr>ban_count = 0, ban_first_seen = Fin 0, banned_until = PosInf\<rparr>)]\<rparr>) =
      (Inr (False, sample_payment\<lparr>t_nonce := None\<rparr>), N) \<and> mp_pending N = [] \<and> mp_seen N = {}"
proof -
  let ?t = "sample_payment\<lparr>t_nonce := None\<rparr>"
  let ?M = "sample_mempool\<lparr>mp_invalid_senders := [(alice_address, \<lparr>ban_count = 0, ban_first_seen = Fin 0, banned_until = PosInf\<rparr>)]\<rparr>"
  have ok: "pool_ok ?M" "id_fixed sample_env ?t"
    using sample_pool_ok same_pool_ok [of sample_mempool ?M] by (simp_all add: id_fixed_def tx_id_def sample_payment_def sample_texts)
  have "with_id sample_env ?t = ?t" by (simp add: with_id_def tx_id_def text_of_def sample_payment_def sample_texts)
  moreover have "pruned (Fin 1700000000) ?M = ?M"
    by (simp add: pruned_def prune_expired_mempool_def prune_orphan_pool_def Let_def sample_mempool_def)
  moreover have "tx_id ?t \<notin> mp_seen ?M" by (simp add: sample_mempool_def)
  moreover have "is_sender_banned (t_sender ?t) (Fin 1700000000) ?M = (True, ?M)"
    by (simp add: is_sender_banned_def sample_payment_def sample_texts)
  ultimately have "\<exists>N. add_transaction memory_store sample_env (\<lambda>t. ret ()) (\<lambda>n. Fin 1700000000) ?t ?M = (Inr (False, ?t), N)"
    by (simp add: add_transaction_def Let_def)
  then obtain N where N: "add_transaction memory_store sample_env (\<lambda>t. ret ()) (\<lambda>n. Fin 1700000000) ?t ?M = (Inr (False, ?t), N)" by blast
  have "mp_pending ?M = []" by (simp add: sample_mempool_def)
  with refused_keeps_pool [OF disjI2 [OF conjI [OF ok(1) conjI [OF ok(2) sample_pool_ok(3)]]] N] N show ?thesis by simp
qed

section \<open>What the pool lets through\<close>

text \<open>A transaction that names another to replace may spend what any third one spends.\<close>

lemma replacement_skips_double_spend: "text_of (t_replaces t) \<noteq> [] \<Longrightarrow> \<not> check_double_spend t M"
  by (simp add: check_double_spend_def)

text \<open>A refusal releases the outputs the transaction names, whoever has locked them.\<close>

lemma rejection_unlocks:
  assumes "k \<in> set (t_inputs t)"
  shows "\<not> is_pending (mp_utxos (reject_invalid t now M)) k"
proof -
  have "map_of (pending_utxos (fold unlock_one ks m)) j = (if j \<in> set ks then None else map_of (pending_utxos m) j)" for ks j and m :: "'a utxo_manager"
  proof (induction ks arbitrary: m)
    case (Cons i ks)
    have "map_of (pending_utxos (unlock_one i m)) j = (if j = i then None else map_of (pending_utxos m) j)"
      using fun_cong [OF unlock_one_locked [of i m], of j] by (simp add: locked_def)
    then show ?case using Cons [of "unlock_one i m"] by (cases "j = i") simp_all
  qed simp
  then show ?thesis using assms by (simp add: reject_invalid_def unlock_inputs_def unlock_utxos_by_keys_def is_pending_def Let_def)
qed

text \<open>Eviction forgets everything about a transaction but its nonce.\<close>

lemma eviction_keeps_nonce: "mp_pending_nonces (evict_low low M) = mp_pending_nonces M"
  by (simp add: evict_low_def Let_def forget_tx_def set_count_def)

text \<open>What is made up for a transaction without a signature is never accepted, unless it is a settlement.\<close>

lemma unsigned_refused:
  assumes "text_of (t_signature t) = []" "t_sender t \<noteq> ''COINBASE''" "\<not> is_settlement t"
  shows "\<not> fst (validate_transaction ops E now now' b M t)"
proof
  assume "fst (validate_transaction ops E now now' b M t)"
  then obtain t' where "validate_transaction ops E now now' b M t = (True, t')" by (metis prod.collapse)
  from accepted_checks [OF this assms(2)] have "validate_signature E t = Inr ()" by blast
  then show False using assms by (simp add: validate_signature_def)
qed

end
