(* ===== verification/Chain.thy ===== *)
theory Chain
  imports ChainRules Mempool Finality
begin

text \<open>
  The chain of a node and how it changes: \<open>add_block\<close>, forks, lineage, orphans and \<open>replace_chain\<close> of
  \<open>Blockchain\<close> (\<open>blockchain.py\<close>). Every block of the chain is held in full; the files of blocks, the
  contract and governance managers and the address index are the state \<open>nd_world\<close>, which the methods
  of \<open>hooks\<close> change in an arbitrary way. The lock is held for a whole call.
\<close>

section \<open>The node\<close>

datatype chain_item = ABlock full_block | AHeader header

record ('s, 'p, 'w) node =
  nd_chain :: "full_block list"
  nd_orphans :: "(int \<times> full_block list) list"
  nd_pool :: "('s, 'p) mempool"
  nd_finality :: "finality option"
  nd_checkpoint :: "int option"
  nd_tx_count :: int
  nd_hash_index :: "(string \<times> int) list"
  nd_judge :: judge
  nd_last_peer_time :: pyfloat
  nd_mining_target :: "int option"
  nd_abort_mining :: bool
  nd_max_depth :: int
  nd_max_orphans :: int
  nd_world :: 'w

text \<open>
  What the node calls and this theory leaves open. \<open>hk_index\<close> and \<open>hk_reindex\<close> include the handlers of
  their own errors, as does \<open>hk_votes\<close>, the callback of the finality vote: it answers with the votes
  it submits to the finality manager, whose signatures \<open>hk_verify\<close> checks.
\<close>

record ('s, 'p, 'w) hooks =
  hk_governance :: "full_block \<Rightarrow> ('w, unit) meth"
  hk_contracts :: "full_block \<Rightarrow> ('w, unit) meth"
  hk_rebuild :: "full_block list \<Rightarrow> ('w, unit) meth"
  hk_index :: "full_block \<Rightarrow> ('w, unit) meth"
  hk_reindex :: "int \<Rightarrow> full_block list \<Rightarrow> ('w, unit) meth"
  hk_save_block :: "full_block \<Rightarrow> ('w, unit) meth"
  hk_load_block :: "int \<Rightarrow> 'w \<Rightarrow> full_block option"
  hk_save_state :: "('s, 'p) mempool \<Rightarrow> ('w, unit) meth"
  hk_votes :: "full_block \<Rightarrow> finality option \<Rightarrow> ('w, vote list) meth"
  hk_verify :: verifier
  hk_rollback :: "'w \<Rightarrow> 'w \<Rightarrow> 'w"

abbreviation on_world :: "('w, 'a) meth \<Rightarrow> (('s, 'p, 'w) node, 'a) meth" where
  "on_world \<equiv> zoom nd_world nd_world_update"

abbreviation on_judge :: "(judge, 'a) meth \<Rightarrow> (('s, 'p, 'w) node, 'a) meth" where
  "on_judge \<equiv> zoom nd_judge nd_judge_update"

abbreviation on_utxos :: "('s utxo_manager, 'a) meth \<Rightarrow> (('s, 'p, 'w) node, 'a) meth" where
  "on_utxos m \<equiv> zoom nd_pool nd_pool_update (zoom mp_utxos mp_utxos_update m)"

abbreviation on_tracker :: "(nonce_tracker, 'a) meth \<Rightarrow> (('s, 'p, 'w) node, 'a) meth" where
  "on_tracker m \<equiv> zoom nd_pool nd_pool_update (zoom mp_tracker mp_tracker_update m)"

text \<open>\<open>for x in xs: m(x)\<close>\<close>

primrec for_each :: "('a \<Rightarrow> ('s, unit) meth) \<Rightarrow> 'a list \<Rightarrow> ('s, unit) meth" where
  "for_each m [] = ret ()"
| "for_each m (x # xs) = and_then (m x) (\<lambda>_. for_each m xs)"

text \<open>Two readings that belong to the judge as pure functions with a state.\<close>

definition work_of_chain :: "header list \<Rightarrow> (judge, int) meth" where
  "work_of_chain c s = (case calculate_chain_work c s of (w, s') \<Rightarrow> (Inr w, s'))"

section \<open>Transactions of a block\<close>

definition spending_of :: "transaction \<Rightarrow> spending" where
  "spending_of t = \<lparr>tr_txid = tx_id t, tr_sender = t_sender t, tr_inputs = t_inputs t,
     tr_outputs = map (\<lambda>p. (fst p, FloatAmount (snd p))) (t_outputs t)\<rparr>"

text \<open>Adding a block: the answer of \<open>process_transaction_inputs\<close> is not looked at.\<close>

definition apply_tx :: "'s store_ops \<Rightarrow> transaction \<Rightarrow> ('s utxo_manager, unit) meth" where
  "apply_tx ops t =
     and_then (if t_sender t \<noteq> ''COINBASE'' then process_transaction_inputs ops (spending_of t) else ret True)
       (\<lambda>_. process_transaction_outputs ops (spending_of t))"

text \<open>Replacing the chain: it is, and a failure raises a plain \<open>Exception\<close>.\<close>

definition apply_tx_strictly :: "'s store_ops \<Rightarrow> transaction \<Rightarrow> ('s utxo_manager, unit) meth" where
  "apply_tx_strictly ops t =
     and_then (if t_sender t \<noteq> ''COINBASE'' then process_transaction_inputs ops (spending_of t) else ret True)
       (\<lambda>ok. if ok then process_transaction_outputs ops (spending_of t) else raise PlainException)"

text \<open>Computing the Merkle root sets the ids that are missing.\<close>

definition with_ids :: "node_env \<Rightarrow> transaction list \<Rightarrow> transaction list" where
  "with_ids E ts = map (\<lambda>t. if t_txid t = None then t\<lparr>t_txid := Some (env_hash E t)\<rparr> else t) ts"

definition merkle_root_of :: "node_env \<Rightarrow> transaction list \<Rightarrow> string" where
  "merkle_root_of E ts = (if ts = [] then env_sha E [] else fold_levels (env_sha E) (map tx_id (with_ids E ts)))"

section \<open>Nonces after a reorganisation\<close>

definition replay_nonce :: "transaction \<Rightarrow> (nonce_tracker, unit) meth" where
  "replay_nonce t s =
     (case t_nonce t of
        Some n \<Rightarrow> if counted t \<and> get_nonce (t_sender t) s \<le> n then set_nonce (t_sender t) (n + 1) s else (Inr (), s)
      | None \<Rightarrow> (Inr (), s))"

definition rebuild_nonce_tracker :: "full_block list \<Rightarrow> (nonce_tracker, unit) meth" where
  "rebuild_nonce_tracker c = and_then reset_all (\<lambda>_. for_each replay_nonce (concat (map fb_txs c)))"

section \<open>Orphans\<close>

definition add_orphan_block :: "full_block \<Rightarrow> (int \<times> full_block list) list \<Rightarrow> (int \<times> full_block list) list" where
  "add_orphan_block b d = AList.update (hd_index (fb_header b)) (dict_get d (hd_index (fb_header b)) [] @ [b]) d"

text \<open>The orphans that continue a chain: at each height the first whose predecessor is the last block.\<close>

function connectors :: "(int \<times> full_block list) list \<Rightarrow> string \<Rightarrow> int \<Rightarrow> full_block list" where
  "connectors d h i =
     (case map_of d i of
        None \<Rightarrow> []
      | Some bs \<Rightarrow>
          (case find (\<lambda>b. hd_previous_hash (fb_header b) = h) bs of
             None \<Rightarrow> []
           | Some b \<Rightarrow> b # connectors d (hd_hash (fb_header b)) (i + 1)))"
  by pat_completeness auto
termination
proof (relation "measure (\<lambda>(d, h, i). length (filter (\<lambda>k. i \<le> k) (map fst d)))")
  fix d :: "(int \<times> full_block list) list" and h :: string and i :: int and bs b
  assume "map_of d i = Some bs"
  then have "i \<in> set (map fst d)" by (force dest: map_of_SomeD)
  then have "length (filter (\<lambda>k. i + 1 \<le> k) (map fst d)) < length (filter (\<lambda>k. i \<le> k) (map fst d))"
  proof -
    let ?ks = "map fst d"
    have "filter (\<lambda>k. i + 1 \<le> k) ?ks = filter (\<lambda>k. i + 1 \<le> k) (filter (\<lambda>k. i \<le> k) ?ks)"
      unfolding filter_filter by (intro filter_cong) auto
    moreover have "i \<in> set (filter (\<lambda>k. i \<le> k) ?ks)" using \<open>i \<in> set (map fst d)\<close> by simp
    ultimately show ?thesis using length_filter_less [of i "filter (\<lambda>k. i \<le> k) ?ks" "\<lambda>k. i + 1 \<le> k"] by simp
  qed
  then show "((d, hd_hash (fb_header b), i + 1), (d, h, i)) \<in> measure (\<lambda>(d, h, i). length (filter (\<lambda>k. i \<le> k) (map fst d)))"
    by simp
qed simp

declare connectors.simps [simp del]

text \<open>The lowest heights go first, whole, until the orphans fit.\<close>

fun prune_heights :: "int \<Rightarrow> int \<Rightarrow> int list \<Rightarrow> (int \<times> full_block list) list \<Rightarrow> (int \<times> full_block list) list" where
  "prune_heights limit held [] d = d"
| "prune_heights limit held (h # hs) d =
     (if limit < held then prune_heights limit (held - int (length (dict_get d h []))) hs (AList.delete h d) else d)"

definition orphan_count :: "(int \<times> full_block list) list \<Rightarrow> int" where
  "orphan_count d = sum_list (map (\<lambda>p. int (length (snd p))) d)"

definition prune_orphans :: "('s, 'p, 'w) node \<Rightarrow> ('s, 'p, 'w) node" where
  "prune_orphans n =
     (if orphan_count (nd_orphans n) \<le> nd_max_orphans n then n
      else n\<lparr>nd_orphans := prune_heights (nd_max_orphans n) (orphan_count (nd_orphans n))
               (sort (map fst (nd_orphans n))) (nd_orphans n)\<rparr>)"

section \<open>Replacing the chain\<close>

definition item_header :: "chain_item \<Rightarrow> header" where
  "item_header x = (case x of ABlock b \<Rightarrow> fb_header b | AHeader h \<Rightarrow> h)"

fun fork_from :: "int \<Rightarrow> string list \<Rightarrow> string list \<Rightarrow> int" where
  "fork_from i (x # xs) (y # ys) = (if x \<noteq> y then i - 1 else fork_from (i + 1) xs ys)"
| "fork_from i xs ys = i - 1"

definition find_fork_point :: "full_block list \<Rightarrow> chain_item list \<Rightarrow> int" where
  "find_fork_point c new = fork_from 0 (map (\<lambda>b. hd_hash (fb_header b)) c) (map (\<lambda>x. hd_hash (item_header x)) new)"

text \<open>The depth is bounded here only if there is a checkpoint.\<close>

definition reorg_allowed :: "int option \<Rightarrow> ('s, 'p, 'w) node \<Rightarrow> bool" where
  "reorg_allowed fork n \<longleftrightarrow>
     (case (fork, nd_checkpoint n) of
        (Some p, Some k) \<Rightarrow> k \<le> p \<and> int (length (nd_chain n)) - p - 1 \<le> nd_max_depth n
      | _ \<Rightarrow> True) \<and>
     (case nd_finality n of Some f \<Rightarrow> can_reorg_to_height fork f | None \<Rightarrow> True)"

text \<open>Headers are loaded from the files by their index; a missing block ends the call.\<close>

primrec materialize :: "('s, 'p, 'w) hooks \<Rightarrow> 'w \<Rightarrow> chain_item list \<Rightarrow> full_block list option" where
  "materialize H w [] = Some []"
| "materialize H w (x # xs) =
     (case (case x of ABlock b \<Rightarrow> Some b | AHeader h \<Rightarrow> hk_load_block H (hd_index h) w) of
        None \<Rightarrow> None
      | Some b \<Rightarrow> map_option ((#) b) (materialize H w xs))"

definition tx_total :: "full_block list \<Rightarrow> int" where
  "tx_total c = sum_list (map (\<lambda>b. int (length (fb_txs b))) c)"

text \<open>Between chains of one length: more work, then more transactions, then the earlier tip.\<close>

definition prefer_new :: "full_block list \<Rightarrow> (('s, 'p, 'w) node, bool) meth" where
  "prefer_new new n =
     and_then (on_judge (work_of_chain (map fb_header (nd_chain n)))) (\<lambda>current_work.
     and_then (on_judge (work_of_chain (map fb_header new))) (\<lambda>new_work.
       if current_work < new_work then ret True
       else if new_work < current_work then ret False
       else if nd_tx_count n < tx_total new then ret True
       else if tx_total new < nd_tx_count n then ret False
       else if new = [] then raise IndexError
       else ret (float_less (block_time (last new)) (block_time (last (nd_chain n)))))) n"

definition accept_candidate :: "rules \<Rightarrow> full_block list \<Rightarrow> (('s, 'p, 'w) node, bool) meth" where
  "accept_candidate R new n =
     (if length new < length (nd_chain n) then ret False
      else both (if length new = length (nd_chain n) then prefer_new new else ret True)
             (on_judge (validate_chain_structure R new))) n"

text \<open>The pending transactions that are still valid; the other indexes of the pool are not touched.\<close>

primrec revalidate ::
    "'s store_ops \<Rightarrow> rules \<Rightarrow> transaction list \<Rightarrow> transaction list \<Rightarrow> transaction list \<Rightarrow> (('s, 'p, 'w) node, transaction list) meth" where
  "revalidate ops R seen valid [] = ret valid"
| "revalidate ops R seen valid (t # ts) =
     and_then (on_judge wall_clock) (\<lambda>now. and_then (on_judge wall_clock) (\<lambda>now'. \<lambda>n.
       case validate_transaction ops (ru_env R) now now' True ((nd_pool n)\<lparr>mp_pending := seen @ t # ts\<rparr>) t of
         (ok, t') \<Rightarrow> revalidate ops R (seen @ [t']) (if ok then valid @ [t'] else valid) ts n))"

definition set_pending :: "transaction list \<Rightarrow> ('s, 'p, 'w) node \<Rightarrow> ('s, 'p, 'w) node" where
  "set_pending ts n = n\<lparr>nd_pool := (nd_pool n)\<lparr>mp_pending := ts\<rparr>\<rparr>"

definition revalidate_pool :: "'s store_ops \<Rightarrow> rules \<Rightarrow> (('s, 'p, 'w) node, unit) meth" where
  "revalidate_pool ops R n = and_then (revalidate ops R [] [] (mp_pending (nd_pool n))) (\<lambda>ts. modify (set_pending ts)) n"

definition save_state :: "('s, 'p, 'w) hooks \<Rightarrow> (('s, 'p, 'w) node, unit) meth" where
  "save_state H n = on_world (hk_save_state H (nd_pool n)) n"

definition block_txs :: "full_block list \<Rightarrow> transaction list" where
  "block_txs c = concat (map fb_txs c)"

definition perform_reorg ::
    "'s store_ops \<Rightarrow> rules \<Rightarrow> ('s, 'p, 'w) hooks \<Rightarrow> int option \<Rightarrow> full_block list \<Rightarrow> (('s, 'p, 'w) node, unit) meth" where
  "perform_reorg ops R H fork new = seq
     [on_utxos (modify (manager_clear ops)),
      for_each (\<lambda>t. on_utxos (apply_tx_strictly ops t)) (block_txs new),
      modify (\<lambda>n. n\<lparr>nd_chain := new, nd_tx_count := tx_total new\<rparr>),
      on_world (hk_rebuild H new),
      on_tracker (rebuild_nonce_tracker new),
      on_world (hk_reindex H (case fork of Some p \<Rightarrow> p + 1 | None \<Rightarrow> 0) new),
      revalidate_pool ops R,
      for_each (\<lambda>b. on_world (hk_save_block H b)) new,
      save_state H]"

text \<open>The classes the handlers name, with their subclasses.\<close>

definition handled :: "exn \<Rightarrow> bool" where
  "handled e \<longleftrightarrow> e \<in> {ChainReorgError, ChainValidationError, StorageError, RuntimeError,
     ValueError, UTXOValidationError, TransactionValidationError}"

text \<open>What both handlers put back of the state \<open>old\<close>.\<close>

definition restore_ledger :: "'s store_ops \<Rightarrow> ('s, 'p, 'w) node \<Rightarrow> (('s, 'p, 'w) node, unit) meth" where
  "restore_ledger ops old = seq
     [modify (\<lambda>n. n\<lparr>nd_chain := nd_chain old\<rparr>),
      on_utxos (modify (manager_restore ops (manager_snapshot ops (mp_utxos (nd_pool old))))),
      on_tracker (nonce_restore (nonce_snapshot (mp_tracker (nd_pool old))))]"

definition restore_finality :: "('s, 'p, 'w) node \<Rightarrow> (('s, 'p, 'w) node, unit) meth" where
  "restore_finality old n =
     (case (nd_finality old, nd_finality n) of
        (Some f0, Some f) \<Rightarrow> (case finality_restore (finality_snapshot_of f0) f of (r, f') \<Rightarrow> (r, n\<lparr>nd_finality := Some f'\<rparr>))
      | _ \<Rightarrow> (Inr (), n))"

definition roll_back :: "'s store_ops \<Rightarrow> ('s, 'p, 'w) hooks \<Rightarrow> ('s, 'p, 'w) node \<Rightarrow> (('s, 'p, 'w) node, bool) meth" where
  "roll_back ops H old = and_then (seq
     [restore_ledger ops old,
      modify (\<lambda>n. n\<lparr>nd_world := hk_rollback H (nd_world old) (nd_world n)\<rparr>),
      restore_finality old,
      modify (set_pending (mp_pending (nd_pool old)))]) (\<lambda>_. ret False)"

definition commit_chain ::
    "'s store_ops \<Rightarrow> rules \<Rightarrow> ('s, 'p, 'w) hooks \<Rightarrow> int option \<Rightarrow> full_block list \<Rightarrow> (('s, 'p, 'w) node, bool) meth" where
  "commit_chain ops R H fork new n =
     (case perform_reorg ops R H fork new n of
        (Inr _, m) \<Rightarrow> (Inr True, m)
      | (Inl e, m) \<Rightarrow> if handled e then roll_back ops H n m else (Inl e, m))"

definition replace_chain ::
    "'s store_ops \<Rightarrow> rules \<Rightarrow> ('s, 'p, 'w) hooks \<Rightarrow> chain_item list \<Rightarrow> (('s, 'p, 'w) node, bool) meth" where
  "replace_chain ops R H items n =
     (let fork = (if items = [] then None else Some (find_fork_point (nd_chain n) items)) in
      if \<not> reorg_allowed fork n then (Inr False, n)
      else case materialize H (nd_world n) items of
        None \<Rightarrow> (Inr False, n)
      | Some new \<Rightarrow> both (accept_candidate R new) (commit_chain ops R H fork new) n)"

section \<open>Reorganising to orphans\<close>

definition item_work :: "chain_item list \<Rightarrow> (judge, int) meth" where
  "item_work xs = work_of_chain (map item_header xs)"

text \<open>Every orphan that continues a block of the chain, with the orphans that continue it.\<close>

definition orphan_candidates :: "('s, 'p, 'w) node \<Rightarrow> full_block list list" where
  "orphan_candidates n = concat (map (\<lambda>i. map
       (\<lambda>b. take (i + 1) (nd_chain n) @ [b] @ connectors (nd_orphans n) (hd_hash (fb_header b)) (int i + 2))
       (filter (\<lambda>b. hd_previous_hash (fb_header b) = hd_hash (fb_header (nd_chain n ! i)))
         (dict_get (nd_orphans n) (int i + 1) []))) [0..<length (nd_chain n)])"

primrec best_candidate :: "rules \<Rightarrow> full_block list list \<Rightarrow> full_block list option \<Rightarrow> int \<Rightarrow> (judge, full_block list option) meth" where
  "best_candidate R [] best best_work = ret best"
| "best_candidate R (c # cs) best best_work =
     and_then (work_of_chain (map fb_header c)) (\<lambda>w.
       if best_work < w
       then and_then (validate_chain_structure R c) (\<lambda>ok. if ok then best_candidate R cs (Some c) w else best_candidate R cs best best_work)
       else best_candidate R cs best best_work)"

definition check_orphan_chains_for_reorg ::
    "'s store_ops \<Rightarrow> rules \<Rightarrow> ('s, 'p, 'w) hooks \<Rightarrow> (('s, 'p, 'w) node, bool) meth" where
  "check_orphan_chains_for_reorg ops R H n =
     (if nd_orphans n = [] then (Inr False, n)
      else and_then (on_judge (work_of_chain (map fb_header (nd_chain n)))) (\<lambda>work.
        and_then (on_judge (best_candidate R (orphan_candidates n) None work)) (\<lambda>best.
          case best of None \<Rightarrow> ret False | Some c \<Rightarrow> replace_chain ops R H (map ABlock c))) n)"

definition drop_orphans :: "nat \<Rightarrow> ('s, 'p, 'w) node \<Rightarrow> ('s, 'p, 'w) node" where
  "drop_orphans k n = n\<lparr>nd_orphans := filter (\<lambda>p. \<not> fst p < int k) (nd_orphans n)\<rparr>"

text \<open>The block is kept once per hash, at the end of its height.\<close>

definition track_fork :: "full_block \<Rightarrow> ('s, 'p, 'w) node \<Rightarrow> ('s, 'p, 'w) node" where
  "track_fork b n =
     (let bs = dict_get (nd_orphans n) (hd_index (fb_header b)) [] in
      n\<lparr>nd_orphans := AList.update (hd_index (fb_header b))
          (if \<exists>o' \<in> set bs. hd_hash (fb_header o') = hd_hash (fb_header b) then bs else bs @ [b]) (nd_orphans n)\<rparr>)"

definition fork_candidate :: "full_block \<Rightarrow> ('s, 'p, 'w) node \<Rightarrow> chain_item list" where
  "fork_candidate b n = map ABlock (take (nat (hd_index (fb_header b))) (nd_chain n)) @
     map (\<lambda>x. AHeader (fb_header x)) (b # connectors (nd_orphans n) (hd_hash (fb_header b)) (hd_index (fb_header b) + 1))"

definition try_candidate :: "'s store_ops \<Rightarrow> rules \<Rightarrow> ('s, 'p, 'w) hooks \<Rightarrow> chain_item list \<Rightarrow> (('s, 'p, 'w) node, bool) meth" where
  "try_candidate ops R H c = and_then (replace_chain ops R H c) (\<lambda>replaced.
     if replaced then and_then (modify (drop_orphans (length c))) (\<lambda>_. ret True) else ret False)"

definition handle_fork :: "'s store_ops \<Rightarrow> rules \<Rightarrow> ('s, 'p, 'w) hooks \<Rightarrow> full_block \<Rightarrow> (('s, 'p, 'w) node, bool) meth" where
  "handle_fork ops R H b n =
     (let n1 = track_fork b n; i = hd_index (fb_header b); c = fork_candidate b n1 in
      if 0 \<le> i \<and> i < int (length (nd_chain n1)) \<and> nd_max_depth n1 < int (length (nd_chain n1)) - i - 1
      then (Inr False, prune_orphans n1)
      else and_then (for_each (\<lambda>x. on_world (hk_save_block H x))
               (b # connectors (nd_orphans n1) (hd_hash (fb_header b)) (i + 1))) (\<lambda>_.
        and_then (if length (nd_chain n1) \<le> length c then ret True
            else and_then (on_judge (item_work c)) (\<lambda>new_work.
              and_then (on_judge (work_of_chain (map fb_header (nd_chain n1)))) (\<lambda>work. ret (work < new_work)))) (\<lambda>worth.
          if worth then try_candidate ops R H c
          else and_then (check_orphan_chains_for_reorg ops R H) (\<lambda>_. and_then (modify prune_orphans) (\<lambda>_. ret False)))) n1)"

definition linked :: "full_block list \<Rightarrow> bool" where
  "linked c = successively (\<lambda>p b. hd_previous_hash (fb_header b) = hd_hash (fb_header p)) c"

text \<open>\<open>lineage\<close> are the ancestors a peer sent with the block.\<close>

definition attempt_lineage_sync ::
    "'s store_ops \<Rightarrow> rules \<Rightarrow> ('s, 'p, 'w) hooks \<Rightarrow> full_block \<Rightarrow> chain_item list \<Rightarrow> (('s, 'p, 'w) node, bool) meth" where
  "attempt_lineage_sync ops R H b lineage n =
     (if lineage = [] then (Inr False, n)
      else case materialize H (nd_world n) lineage of
        None \<Rightarrow> (Inr False, n)
      | Some ancestors \<Rightarrow>
          let i = nat (hd_index (fb_header b));
              c = take i ancestors @ b # connectors (nd_orphans n) (hd_hash (fb_header b)) (hd_index (fb_header b) + 1)
          in if \<not> linked ancestors \<or> length ancestors < i \<or> length c \<le> length (nd_chain n) then (Inr False, n)
             else try_candidate ops R H (map ABlock c) n)"

section \<open>Adding a block\<close>

definition normalize_hash :: "string \<Rightarrow> string" where
  "normalize_hash h = (let l = to_lower h in if starts_with ''0x'' l then drop 2 l else l)"

definition update_block_hash_index :: "full_block \<Rightarrow> int \<Rightarrow> ('s, 'p, 'w) node \<Rightarrow> ('s, 'p, 'w) node" where
  "update_block_hash_index b i n =
     (if normalize_hash (hd_hash (fb_header b)) = [] then n
      else n\<lparr>nd_hash_index := AList.update (normalize_hash (hd_hash (fb_header b))) i (nd_hash_index n)\<rparr>)"

text \<open>What adding a block and attaching an orphan have in common.\<close>

definition append_block :: "full_block \<Rightarrow> ('s, 'p, 'w) node \<Rightarrow> ('s, 'p, 'w) node" where
  "append_block b n = n\<lparr>nd_chain := nd_chain n @ [b], nd_tx_count := nd_tx_count n + int (length (fb_txs b))\<rparr>"

definition apply_block :: "'s store_ops \<Rightarrow> full_block \<Rightarrow> (('s, 'p, 'w) node, unit) meth" where
  "apply_block ops b = for_each (\<lambda>t. on_utxos (apply_tx ops t)) (fb_txs b)"

definition record_block :: "('s, 'p, 'w) hooks \<Rightarrow> full_block \<Rightarrow> (('s, 'p, 'w) node, unit) meth" where
  "record_block H b = seq [on_world (hk_index H b), on_world (hk_save_block H b), save_state H]"

definition cast_vote :: "('s, 'p, 'w) hooks \<Rightarrow> full_block \<Rightarrow> (('s, 'p, 'w) node, unit) meth" where
  "cast_vote H b n =
     (case hk_votes H b (nd_finality n) (nd_world n) of
        (Inl e, w) \<Rightarrow> (Inl e, n\<lparr>nd_world := w\<rparr>)
      | (Inr votes, w) \<Rightarrow> (Inr (), n\<lparr>nd_world := w,
          nd_finality := map_option (run_votes (hk_verify H) votes) (nd_finality n)\<rparr>))"

text \<open>The last block is gone from its height, and the height with it.\<close>

definition remove_orphan_block :: "full_block \<Rightarrow> int \<Rightarrow> ('s, 'p, 'w) node \<Rightarrow> ('s, 'p, 'w) node" where
  "remove_orphan_block b i n =
     (let bs = remove1 b (dict_get (nd_orphans n) i []) in
      n\<lparr>nd_orphans := (if bs = [] then AList.delete i (nd_orphans n) else AList.update i bs (nd_orphans n))\<rparr>)"

definition attach_orphan :: "'s store_ops \<Rightarrow> ('s, 'p, 'w) hooks \<Rightarrow> full_block \<Rightarrow> (('s, 'p, 'w) node, unit) meth" where
  "attach_orphan ops H b n = seq
     [modify (append_block b), on_world (hk_governance H b), apply_block ops b, record_block H b, cast_vote H b,
      modify (remove_orphan_block b (int (length (nd_chain n))))] n"

definition process_orphan_blocks :: "'s store_ops \<Rightarrow> ('s, 'p, 'w) hooks \<Rightarrow> (('s, 'p, 'w) node, unit) meth" where
  "process_orphan_blocks ops H n = for_each (attach_orphan ops H)
     (connectors (nd_orphans n) (hd_hash (fb_header (last (nd_chain n)))) (int (length (nd_chain n)))) n"

definition spends_pending :: "transaction \<Rightarrow> transaction list \<Rightarrow> bool" where
  "spends_pending t ps \<longleftrightarrow> (\<exists>k \<in> set (t_inputs t). \<exists>p \<in> set ps. utxo_key (fst k) (snd k) \<in> (\<lambda>j. utxo_key (fst j) (snd j)) ` set (t_inputs p))"

text \<open>The answer are the orphans that stay.\<close>

primrec retry_orphans :: "'s store_ops \<Rightarrow> rules \<Rightarrow> transaction list \<Rightarrow> transaction list \<Rightarrow> (('s, 'p, 'w) node, transaction list) meth" where
  "retry_orphans ops R kept [] = ret kept"
| "retry_orphans ops R kept (t # ts) =
     and_then (on_judge wall_clock) (\<lambda>now. and_then (on_judge wall_clock) (\<lambda>now'. \<lambda>n.
       case validate_transaction ops (ru_env R) now now' True (nd_pool n) t of
         (ok, t') \<Rightarrow> if ok \<and> \<not> spends_pending t' (mp_pending (nd_pool n))
           then retry_orphans ops R kept ts (set_pending (mp_pending (nd_pool n) @ [t']) n)
           else retry_orphans ops R (kept @ [t']) ts n))"

definition MAX_ORPHAN_AGE :: pyfloat where "MAX_ORPHAN_AGE = Fin 86400"

definition process_orphan_transactions :: "'s store_ops \<Rightarrow> rules \<Rightarrow> (('s, 'p, 'w) node, unit) meth" where
  "process_orphan_transactions ops R n =
     (if mp_orphans (nd_pool n) = [] then (Inr (), n)
      else and_then (retry_orphans ops R [] (mp_orphans (nd_pool n))) (\<lambda>kept.
        and_then (on_judge wall_clock) (\<lambda>now. modify (\<lambda>n. n\<lparr>nd_pool := (nd_pool n)\<lparr>mp_orphans :=
          filter (\<lambda>t. float_less (float_sub now (t_timestamp t)) MAX_ORPHAN_AGE) kept\<rparr>\<rparr>))) n)"

definition drop_included :: "full_block \<Rightarrow> ('s, 'p, 'w) node \<Rightarrow> ('s, 'p, 'w) node" where
  "drop_included b n = n\<lparr>nd_pool := drop_mined (fb_txs b) (nd_pool n)\<rparr>"

definition note_peer_block :: "full_block \<Rightarrow> (('s, 'p, 'w) node, unit) meth" where
  "note_peer_block b = and_then (on_judge wall_clock) (\<lambda>now. modify (\<lambda>n. n\<lparr>nd_last_peer_time := now,
     nd_abort_mining := (nd_abort_mining n \<or> nd_mining_target n = Some (hd_index (fb_header b)))\<rparr>))"

definition add_block_to_chain :: "'s store_ops \<Rightarrow> rules \<Rightarrow> ('s, 'p, 'w) hooks \<Rightarrow> full_block \<Rightarrow> (('s, 'p, 'w) node, bool) meth" where
  "add_block_to_chain ops R H b = and_then (seq
     [modify (\<lambda>n. update_block_hash_index b (int (length (nd_chain n))) (append_block b n)),
      note_peer_block b, on_world (hk_governance H b), on_world (hk_contracts H b), apply_block ops b, record_block H b,
      modify (drop_included b), process_orphan_blocks ops H, process_orphan_transactions ops R, cast_vote H b])
     (\<lambda>_. ret True)"

text \<open>The checks a block passes before its place in the chain is looked at.\<close>

definition block_intact :: "rules \<Rightarrow> full_block \<Rightarrow> bool" where
  "block_intact R b \<longleftrightarrow>
     (let h = fb_header b in
      meets_difficulty h \<and> hd_hash h = header_hash_in R h \<and> hd_merkle_root h = merkle_root_of (ru_env R) (fb_txs b) \<and>
      verify_header_signature R h \<and> validate_header_version R h \<and>
      block_within_size_limits R (b\<lparr>fb_txs := with_ids (ru_env R) (fb_txs b)\<rparr>))"

definition parent_known :: "header \<Rightarrow> full_block list \<Rightarrow> bool" where
  "parent_known h c \<longleftrightarrow> 0 < hd_index h \<and> hd_index h \<le> int (length c) \<and>
     hd_hash (fb_header (c ! nat (hd_index h - 1))) = hd_previous_hash h"

text \<open>The time is checked for a first block and when the parent is in place, the difficulty when it is.\<close>

definition block_in_time :: "rules \<Rightarrow> header \<Rightarrow> full_block list \<Rightarrow> (judge, bool) meth" where
  "block_in_time R h c =
     both (if hd_index h = 0 \<or> parent_known h c
           then validate_block_timestamp R h (take (nat (hd_index h)) c) else ret True)
          (if parent_known h c then difficulty_as_expected R h (take (nat (hd_index h)) c) else ret True)"

definition keep_orphan :: "full_block \<Rightarrow> ('s, 'p, 'w) node \<Rightarrow> ('s, 'p, 'w) node" where
  "keep_orphan b n = n\<lparr>nd_orphans := add_orphan_block b (nd_orphans n)\<rparr>"

definition store_orphan :: "'s store_ops \<Rightarrow> rules \<Rightarrow> ('s, 'p, 'w) hooks \<Rightarrow> full_block \<Rightarrow> (('s, 'p, 'w) node, bool) meth" where
  "store_orphan ops R H b = and_then (modify (keep_orphan b)) (\<lambda>_.
     and_then (check_orphan_chains_for_reorg ops R H) (\<lambda>_. ret False))"

definition sync_or_store :: "'s store_ops \<Rightarrow> rules \<Rightarrow> ('s, 'p, 'w) hooks \<Rightarrow> full_block \<Rightarrow> chain_item list \<Rightarrow> (('s, 'p, 'w) node, bool) meth" where
  "sync_or_store ops R H b lineage = and_then (attempt_lineage_sync ops R H b lineage) (\<lambda>synced.
     if synced then ret True else store_orphan ops R H b)"

text \<open>None if a transaction is refused.\<close>

primrec validate_block_txs ::
    "'s store_ops \<Rightarrow> rules \<Rightarrow> transaction list \<Rightarrow> transaction list \<Rightarrow> (('s, 'p, 'w) node, transaction list option) meth" where
  "validate_block_txs ops R seen [] = ret (Some seen)"
| "validate_block_txs ops R seen (t # ts) =
     (if t_sender t \<in> {''COINBASE'', ''SYSTEM'', ''AIRDROP''} then validate_block_txs ops R (seen @ [t]) ts
      else and_then (on_judge wall_clock) (\<lambda>now. and_then (on_judge wall_clock) (\<lambda>now'. \<lambda>n.
        case validate_transaction ops (ru_env R) now now' False (nd_pool n) t of
          (ok, t') \<Rightarrow> if ok then validate_block_txs ops R (seen @ [t']) ts n else (Inr None, n))))"

definition extend_tip :: "'s store_ops \<Rightarrow> rules \<Rightarrow> ('s, 'p, 'w) hooks \<Rightarrow> full_block \<Rightarrow> (('s, 'p, 'w) node, bool) meth" where
  "extend_tip ops R H b = and_then (validate_block_txs ops R [] (fb_txs b)) (\<lambda>checked.
     case checked of None \<Rightarrow> ret False | Some ts \<Rightarrow> add_block_to_chain ops R H (b\<lparr>fb_txs := ts\<rparr>))"

text \<open>A block in the place of another.\<close>

definition compete :: "'s store_ops \<Rightarrow> rules \<Rightarrow> ('s, 'p, 'w) hooks \<Rightarrow> full_block \<Rightarrow> chain_item list \<Rightarrow> (('s, 'p, 'w) node, bool) meth" where
  "compete ops R H b lineage n =
     (case and_then (attempt_lineage_sync ops R H b lineage) (\<lambda>synced m.
             if synced then (Inr True, m)
             else if parent_known (fb_header b) (nd_chain m) then
               and_then (handle_fork ops R H b) (\<lambda>ok. if ok then ret True else and_then (restore_ledger ops n) (\<lambda>_. ret False)) m
             else store_orphan ops R H b m) n of
        (Inr r, m) \<Rightarrow> (Inr r, m)
      | (Inl e, m) \<Rightarrow> if handled e then and_then (restore_ledger ops n) (\<lambda>_. ret False) m else (Inl e, m))"

definition place_block :: "'s store_ops \<Rightarrow> rules \<Rightarrow> ('s, 'p, 'w) hooks \<Rightarrow> full_block \<Rightarrow> chain_item list \<Rightarrow> (('s, 'p, 'w) node, bool) meth" where
  "place_block ops R H b lineage n =
     (let h = fb_header b; c = nd_chain n in
      if hd_index h = int (length c) then
        (if c \<noteq> [] \<and> hd_previous_hash h \<noteq> hd_hash (fb_header (last c)) then sync_or_store ops R H b lineage n
         else extend_tip ops R H b n)
      else if int (length c) < hd_index h then sync_or_store ops R H b lineage n
      else compete ops R H b lineage n)"

definition add_full_block :: "'s store_ops \<Rightarrow> rules \<Rightarrow> ('s, 'p, 'w) hooks \<Rightarrow> full_block \<Rightarrow> chain_item list \<Rightarrow> (('s, 'p, 'w) node, bool) meth" where
  "add_full_block ops R H b lineage n =
     (let h = fb_header b; c = nd_chain n; b1 = b\<lparr>fb_txs := with_ids (ru_env R) (fb_txs b)\<rparr> in
      if hd_index h < int (length c) \<and> hd_hash (fb_header (c ! nat (hd_index h))) = hd_hash h then (Inr True, n)
      else if \<not> block_intact R b then (Inr False, n)
      else both (on_judge (block_in_time R h c)) (place_block ops R H b1 lineage) n)"

definition add_block :: "'s store_ops \<Rightarrow> rules \<Rightarrow> ('s, 'p, 'w) hooks \<Rightarrow> chain_item \<Rightarrow> chain_item list \<Rightarrow> (('s, 'p, 'w) node, bool) meth" where
  "add_block ops R H x lineage n =
     (case x of
        ABlock b \<Rightarrow> add_full_block ops R H b lineage n
      | AHeader h \<Rightarrow> (case hk_load_block H (hd_index h) (nd_world n) of
          None \<Rightarrow> (Inr False, n)
        | Some b \<Rightarrow> add_full_block ops R H b [] n))"

section \<open>Looking blocks up\<close>

definition get_block_by_hash :: "string \<Rightarrow> ('s, 'p, 'w) node \<Rightarrow> full_block option \<times> ('s, 'p, 'w) node" where
  "get_block_by_hash h n =
     (let key = normalize_hash h; c = nd_chain n; named = (\<lambda>b. normalize_hash (hd_hash (fb_header b)) = key) in
      if h = [] \<or> key = [] then (None, n)
      else case (case map_of (nd_hash_index n) key of Some i \<Rightarrow> if 0 \<le> i \<and> i < int (length c) \<and> named (c ! nat i) then Some (nat i) else None | None \<Rightarrow> None) of
        Some i \<Rightarrow> (Some (c ! i), n)
      | None \<Rightarrow>
          (case find (\<lambda>i. named (c ! i)) [0..<length c] of
             None \<Rightarrow> (None, n)
           | Some i \<Rightarrow> (Some (c ! i), n\<lparr>nd_hash_index := AList.update key (int i) (nd_hash_index n)\<rparr>)))"

end
