(* ===== verification/ChainSafety.thy ===== *)
theory ChainSafety
  imports Chain
begin

text \<open>
  What \<open>add_block\<close> keeps, whatever blocks, lineages and headers peers send and whatever exceptions end
  the call: the chain is linked by hashes that are right and meet their declared difficulty, and no
  block at or below the highest finalized height changes.
\<close>

section \<open>A judgement for methods that may give up a guard\<close>

text \<open>
  From a state with \<open>P\<close> and \<open>G\<close> the method ends in one with \<open>Q\<close>; \<open>G\<close> still holds unless it raised an
  exception that no handler of the chain catches.
\<close>

definition goes_on :: "exn + 'a \<Rightarrow> bool" where
  "goes_on r \<longleftrightarrow> (case r of Inl e \<Rightarrow> handled e | Inr a \<Rightarrow> True)"

lemma goes_on_simps [simp]: "goes_on (Inr a)" "goes_on (Inl e) = handled e"
  by (simp_all add: goes_on_def)

definition steady :: "('n \<Rightarrow> bool) \<Rightarrow> ('n \<Rightarrow> bool) \<Rightarrow> ('n, 'a) meth \<Rightarrow> ('n \<Rightarrow> bool) \<Rightarrow> bool" where
  "steady P G m Q \<longleftrightarrow> (\<forall>n r n'. P n \<longrightarrow> G n \<longrightarrow> m n = (r, n') \<longrightarrow> Q n' \<and> (goes_on r \<longrightarrow> G n'))"

lemma steadyI: "(\<And>n r n'. P n \<Longrightarrow> G n \<Longrightarrow> m n = (r, n') \<Longrightarrow> Q n' \<and> (goes_on r \<longrightarrow> G n')) \<Longrightarrow> steady P G m Q"
  by (simp add: steady_def)

lemma steadyD: "steady P G m Q \<Longrightarrow> P n \<Longrightarrow> G n \<Longrightarrow> m n = (r, n') \<Longrightarrow> Q n' \<and> (goes_on r \<longrightarrow> G n')"
  by (simp add: steady_def)

lemma steady_then:
  assumes m: "steady P G m M" and k: "\<And>a. steady M G (k a) Q" and ex: "\<And>n. M n \<Longrightarrow> Q n"
  shows "steady P G (and_then m k) Q"
proof (rule steadyI)
  fix n r n' assume n: "P n" "G n" and run: "and_then m k n = (r, n')"
  obtain q t where q: "m n = (q, t)" by fastforce
  note t = steadyD [OF m n q]
  show "Q n' \<and> (goes_on r \<longrightarrow> G n')"
  proof (cases q)
    case (Inl e)
    then show ?thesis using run q t ex by (auto simp: and_then_def)
  next
    case (Inr a)
    then have "k a t = (r, n')" using run q by (simp add: and_then_def)
    then show ?thesis using steadyD [OF k] t Inr by fastforce
  qed
qed

lemma steady_ret: "(\<And>n. P n \<Longrightarrow> Q n) \<Longrightarrow> steady P G (ret a) Q"
  by (auto simp: steady_def ret_def)

lemma steady_modify: "(\<And>n. P n \<Longrightarrow> G n \<Longrightarrow> Q (f n) \<and> G (f n)) \<Longrightarrow> steady P G (modify f) Q"
  by (auto simp: steady_def modify_def)

lemma steady_weaken: "steady P G m Q \<Longrightarrow> (\<And>n. Q n \<Longrightarrow> Q' n) \<Longrightarrow> steady P G m Q'"
  by (auto simp: steady_def)

lemma steady_from: "steady P G m Q \<Longrightarrow> (\<And>n. P' n \<Longrightarrow> P n) \<Longrightarrow> steady P' G m Q"
  by (auto simp: steady_def)

lemma steady_seq:
  assumes "\<forall>m \<in> set ms. steady P G m P"
  shows "steady P G (seq ms) P"
  using assms by (induction ms) (auto intro: steady_ret steady_then)

lemma steady_for_each: "(\<And>x. x \<in> set xs \<Longrightarrow> steady P G (m x) P) \<Longrightarrow> steady P G (for_each m xs) P"
  by (induction xs) (auto intro: steady_ret steady_then)

lemma steady_both: "steady P G m M \<Longrightarrow> steady M G k Q \<Longrightarrow> (\<And>n. M n \<Longrightarrow> Q n) \<Longrightarrow> steady P G (both m k) Q"
  unfolding both_def by (rule steady_then [where M = M]) (auto intro: steady_ret)

section \<open>What is kept\<close>

definition sealed :: "rules \<Rightarrow> full_block \<Rightarrow> bool" where
  "sealed R b \<longleftrightarrow> hd_hash (fb_header b) = header_hash_in R (fb_header b) \<and> meets_difficulty (fb_header b) \<and>
     validate_header_version R (fb_header b) \<and> (0 < hd_index (fb_header b) \<longrightarrow> verify_header_signature R (fb_header b))"

text \<open>Every block but the first names its predecessor and is sealed.\<close>

definition continues :: "rules \<Rightarrow> full_block \<Rightarrow> full_block \<Rightarrow> bool" where
  "continues R p b \<longleftrightarrow> hd_previous_hash (fb_header b) = hd_hash (fb_header p) \<and> sealed R b"

definition chain_sound :: "rules \<Rightarrow> full_block list \<Rightarrow> bool" where
  "chain_sound R c \<longleftrightarrow> successively (continues R) c"

definition orphans_sealed :: "rules \<Rightarrow> (int \<times> full_block list) list \<Rightarrow> bool" where
  "orphans_sealed R d \<longleftrightarrow> (\<forall>p \<in> set d. \<forall>b \<in> set (snd p). sealed R b)"

text \<open>The hashes up to height k, and a finality manager that guards them.\<close>

definition hashes_to :: "int \<Rightarrow> full_block list \<Rightarrow> string list" where
  "hashes_to k c = map (\<lambda>b. hd_hash (fb_header b)) (take (nat (k + 1)) c)"

definition sound_list :: "rules \<Rightarrow> int \<Rightarrow> string list \<Rightarrow> full_block list \<Rightarrow> bool" where
  "sound_list R k hs c \<longleftrightarrow> chain_sound R c \<and> hashes_to k c = hs \<and> nat (k + 1) \<le> length c"

definition sound_node :: "rules \<Rightarrow> int \<Rightarrow> string list \<Rightarrow> ('s, 'p, 'w) node \<Rightarrow> bool" where
  "sound_node R k hs n \<longleftrightarrow> sound_list R k hs (nd_chain n) \<and> orphans_sealed R (nd_orphans n)"

definition guarded :: "int \<Rightarrow> ('s, 'p, 'w) node \<Rightarrow> bool" where
  "guarded k n \<longleftrightarrow> 0 \<le> k \<longrightarrow> (\<exists>f h. nd_finality n = Some f \<and> get_highest_finalized_height f = Some h \<and> k \<le> h)"

text \<open>The same with the chain itself.\<close>

definition at_chain :: "rules \<Rightarrow> full_block list \<Rightarrow> ('s, 'p, 'w) node \<Rightarrow> bool" where
  "at_chain R c n \<longleftrightarrow> nd_chain n = c \<and> orphans_sealed R (nd_orphans n)"

lemma at_chain_sound: "at_chain R c n \<Longrightarrow> sound_list R k hs c \<Longrightarrow> sound_node R k hs n"
  by (simp add: at_chain_def sound_node_def)

lemma sound_at_chain: "sound_node R k hs n \<Longrightarrow> at_chain R (nd_chain n) n \<and> sound_list R k hs (nd_chain n)"
  by (simp add: at_chain_def sound_node_def)

section \<open>Steps that leave the chain alone\<close>

definition same_ledger :: "('s, 'p, 'w) node \<Rightarrow> ('s, 'p, 'w) node \<Rightarrow> bool" where
  "same_ledger n n' \<longleftrightarrow> nd_chain n' = nd_chain n \<and> nd_orphans n' = nd_orphans n \<and> nd_finality n' = nd_finality n"

named_theorems leaves "methods that leave chain, orphans and finality alone"

definition aside :: "(('s, 'p, 'w) node, 'a) meth \<Rightarrow> bool" where
  "aside m \<longleftrightarrow> (\<forall>n r n'. m n = (r, n') \<longrightarrow> same_ledger n n')"

lemma asideD: "aside m \<Longrightarrow> m n = (r, n') \<Longrightarrow> same_ledger n n'"
  by (simp add: aside_def)

lemma same_ledger_refl [simp]: "same_ledger n n"
  by (simp add: same_ledger_def)

lemma same_ledger_trans: "same_ledger n t \<Longrightarrow> same_ledger t u \<Longrightarrow> same_ledger n u"
  by (simp add: same_ledger_def)

lemma aside_ret [leaves]: "aside (ret a)"
  by (simp add: aside_def ret_def)

lemma aside_then [leaves]: "aside m \<Longrightarrow> (\<And>a. aside (k a)) \<Longrightarrow> aside (and_then m k)"
  unfolding aside_def and_then_def by (fastforce split: prod.splits sum.splits intro: same_ledger_trans)

lemma aside_both [leaves]: "aside m \<Longrightarrow> aside k \<Longrightarrow> aside (both m k)"
  unfolding both_def by (intro aside_then) (simp_all add: aside_ret)

lemma aside_zooms [leaves]: "aside (on_world mw)" "aside (on_judge mj)" "aside (on_utxos mu)" "aside (on_tracker mt)"
  by (auto simp: aside_def zoom_def same_ledger_def split: prod.splits)

lemma aside_modify [leaves]: "(\<And>n. same_ledger n (f n)) \<Longrightarrow> aside (modify f)"
  by (simp add: aside_def modify_def)

lemma aside_if [leaves]: "(b \<Longrightarrow> aside m) \<Longrightarrow> (\<not> b \<Longrightarrow> aside k) \<Longrightarrow> aside (if b then m else k)"
  by simp

lemma aside_for_each [leaves]: "(\<And>x. aside (m x)) \<Longrightarrow> aside (for_each m xs)"
  by (induction xs) (simp_all add: leaves)

lemma aside_seq: "\<forall>m \<in> set ms. aside m \<Longrightarrow> aside (seq ms)"
  by (induction ms) (auto intro: leaves)

lemma aside_steady: "aside m \<Longrightarrow> steady (at_chain R c) (guarded k) m (at_chain R c)"
  by (rule steadyI) (auto dest!: asideD simp: same_ledger_def at_chain_def guarded_def)

lemma aside_kept: "aside m \<Longrightarrow> steady (sound_node R k hs) (guarded k) m (sound_node R k hs)"
  by (rule steadyI) (auto dest!: asideD simp: same_ledger_def sound_node_def guarded_def)

lemma aside_save_state [leaves]: "aside (save_state H)"
  unfolding aside_def save_state_def using asideD [OF aside_zooms(1)] by blast

lemma aside_record_block [leaves]: "aside (record_block H b)"
  unfolding record_block_def by (rule aside_seq) (simp add: leaves)

lemma aside_apply_block [leaves]: "aside (apply_block ops b)"
  unfolding apply_block_def by (intro leaves)

lemma same_ledger_set_pending [simp]: "same_ledger n (set_pending ts m) = same_ledger n m"
  by (simp add: same_ledger_def set_pending_def)

text \<open>A method that reads the state it runs in.\<close>

lemma aside_read: "(\<And>t. aside (m t)) \<Longrightarrow> (\<And>n. x n = m n n) \<Longrightarrow> aside x"
  by (simp add: aside_def)

lemma aside_revalidate [leaves]: "aside (revalidate ops R seen valid ts :: (('s, 'p, 'w) node, transaction list) meth)"
proof (induction ts arbitrary: seen valid)
  case (Cons t ts)
  have "aside (\<lambda>n :: ('s, 'p, 'w) node. case validate_transaction ops (ru_env R) now now' True ((nd_pool n)\<lparr>mp_pending := seen @ t # ts\<rparr>) t of
      (ok, t') \<Rightarrow> revalidate ops R (seen @ [t']) (if ok then valid @ [t'] else valid) ts n)" for now now'
    by (rule aside_read [where m = "\<lambda>n. case validate_transaction ops (ru_env R) now now' True ((nd_pool n)\<lparr>mp_pending := seen @ t # ts\<rparr>) t of
      (ok, t') \<Rightarrow> revalidate ops R (seen @ [t']) (if ok then valid @ [t'] else valid) ts"])
      (auto simp: Cons.IH split: prod.split)
  then show ?case by (simp add: leaves)
qed (simp add: leaves)

lemma aside_revalidate_pool [leaves]: "aside (revalidate_pool ops R)"
  by (rule aside_read [where m = "\<lambda>n. and_then (revalidate ops R [] [] (mp_pending (nd_pool n))) (\<lambda>ts. modify (set_pending ts))"])
    (auto simp: revalidate_pool_def intro!: leaves)

lemma aside_raise [leaves]: "aside (raise e)"
  by (simp add: aside_def raise_def)

lemma aside_prefer_new [leaves]: "aside (prefer_new new)"
  by (rule aside_read [OF _ prefer_new_def]) (intro leaves)

lemma aside_accept [leaves]: "aside (accept_candidate R new)"
  by (rule aside_read [OF _ accept_candidate_def]) (intro leaves)

lemma aside_validate_block_txs [leaves]: "aside (validate_block_txs ops R seen ts :: (('s, 'p, 'w) node, transaction list option) meth)"
proof (induction ts arbitrary: seen)
  case (Cons t ts)
  have "aside (\<lambda>n :: ('s, 'p, 'w) node. case validate_transaction ops (ru_env R) now now' False (nd_pool n) t of
      (ok, t') \<Rightarrow> if ok then validate_block_txs ops R (seen @ [t']) ts n else (Inr None, n))" for now now'
    by (rule aside_read [where m = "\<lambda>n. case validate_transaction ops (ru_env R) now now' False (nd_pool n) t of
      (ok, t') \<Rightarrow> if ok then validate_block_txs ops R (seen @ [t']) ts else ret None"])
      (auto simp: Cons.IH ret_def aside_ret split: prod.split)
  then show ?case using Cons.IH by (simp add: leaves)
qed (simp add: leaves)

lemma aside_after: "aside m \<Longrightarrow> (\<And>n. same_ledger n (f n)) \<Longrightarrow> aside (\<lambda>n. m (f n))"
  unfolding aside_def by (meson same_ledger_trans)

lemma aside_retry_orphans [leaves]: "aside (retry_orphans ops R kept ts :: (('s, 'p, 'w) node, transaction list) meth)"
proof (induction ts arbitrary: kept)
  case (Cons t ts)
  have "aside (\<lambda>n :: ('s, 'p, 'w) node. case validate_transaction ops (ru_env R) now now' True (nd_pool n) t of
      (ok, t') \<Rightarrow> if ok \<and> \<not> spends_pending t' (mp_pending (nd_pool n))
           then retry_orphans ops R kept ts (set_pending (mp_pending (nd_pool n) @ [t']) n)
           else retry_orphans ops R (kept @ [t']) ts n)" for now now'
    by (rule aside_read [where m = "\<lambda>n. case validate_transaction ops (ru_env R) now now' True (nd_pool n) t of
      (ok, t') \<Rightarrow> if ok \<and> \<not> spends_pending t' (mp_pending (nd_pool n))
           then (\<lambda>k. retry_orphans ops R kept ts (set_pending (mp_pending (nd_pool n) @ [t']) k))
           else retry_orphans ops R (kept @ [t']) ts"])
      (auto simp: Cons.IH intro: aside_after split: prod.split)
  then show ?case by (simp add: leaves)
qed (simp add: leaves)

lemma aside_orphan_transactions [leaves]: "aside (process_orphan_transactions ops R)"
  by (rule aside_read [where m = "\<lambda>n. if mp_orphans (nd_pool n) = [] then ret () else
      and_then (retry_orphans ops R [] (mp_orphans (nd_pool n))) (\<lambda>kept.
        and_then (on_judge wall_clock) (\<lambda>now. modify (\<lambda>n. n\<lparr>nd_pool := (nd_pool n)\<lparr>mp_orphans :=
          filter (\<lambda>t. float_less (float_sub now (t_timestamp t)) MAX_ORPHAN_AGE) kept\<rparr>\<rparr>)))"])
    (auto simp: process_orphan_transactions_def ret_def same_ledger_def intro!: leaves)

lemma aside_note_peer [leaves]: "aside (note_peer_block b)"
  unfolding note_peer_block_def by (simp add: leaves same_ledger_def)

lemma aside_drop_included [leaves]: "aside (modify (drop_included b))"
  by (simp add: leaves drop_included_def same_ledger_def Let_def)


section \<open>What replacing the chain keeps\<close>

abbreviation kept :: "rules \<Rightarrow> int \<Rightarrow> string list \<Rightarrow> (('s, 'p, 'w) node, 'a) meth \<Rightarrow> bool" where
  "kept R k hs m \<equiv> steady (sound_node R k hs) (guarded k) m (sound_node R k hs)"

text \<open>A candidate shares its blocks, not only their headers, with the chain up to the fork.\<close>

definition settled :: "full_block list \<Rightarrow> chain_item list \<Rightarrow> bool" where
  "settled c xs \<longleftrightarrow> (\<forall>i < length xs. int i \<le> find_fork_point c xs \<longrightarrow> (\<exists>b. xs ! i = ABlock b))"

lemma settled_blocks [simp]: "settled c (map ABlock bs)"
  by (simp add: settled_def)

lemma fork_from_agrees:
  "\<exists>k. fork_from i xs ys = i + int k - 1 \<and> k \<le> length xs \<and> k \<le> length ys \<and> take k xs = take k ys \<and>
     (k < length xs \<longrightarrow> k < length ys \<longrightarrow> xs ! k \<noteq> ys ! k)"
proof (induction i xs ys rule: fork_from.induct)
  case (1 i x xs y ys)
  show ?case
  proof (cases "x = y")
    case True
    with 1 obtain k where "fork_from (i + 1) xs ys = i + 1 + int k - 1" "k \<le> length xs" "k \<le> length ys" "take k xs = take k ys"
      "k < length xs \<longrightarrow> k < length ys \<longrightarrow> xs ! k \<noteq> ys ! k" by auto
    then show ?thesis using True by (intro exI [of _ "Suc k"]) auto
  next
    case False
    then show ?thesis by (intro exI [of _ 0]) simp
  qed
qed (auto intro: exI [of _ 0])

lemma materialize_blocks:
  assumes "materialize H w xs = Some bs"
  shows "length bs = length xs \<and> (\<forall>i b. i < length xs \<longrightarrow> xs ! i = ABlock b \<longrightarrow> bs ! i = b)"
  using assms
proof (induction xs arbitrary: bs)
  case (Cons x xs)
  then obtain b cs where b: "(case x of ABlock b \<Rightarrow> Some b | AHeader h \<Rightarrow> hk_load_block H (hd_index h) w) = Some b"
    and cs: "materialize H w xs = Some cs" "bs = b # cs" by (auto split: option.splits)
  then show ?case using Cons.IH [OF cs(1)] b by (auto simp: nth_Cons split: nat.split)
qed simp

lemma guarded_fork:
  assumes "guarded k n" and "reorg_allowed (Some p) n" and "0 \<le> k"
  shows "k \<le> p"
  using assms by (auto simp: guarded_def reorg_allowed_def can_reorg_to_height_def)

lemma candidate_sound:
  assumes n: "sound_node R k hs n" "guarded k n" and ok: "reorg_allowed (Some (find_fork_point (nd_chain n) xs)) n"
    and new: "materialize H w xs = Some new" and "settled (nd_chain n) xs"
    and valid: "validate_chain_structure R new s = (Inr True, s')"
  shows "sound_list R k hs new"
proof -
  let ?h = "\<lambda>b. hd_hash (fb_header b)" and ?c = "nd_chain n" and ?m = "nat (k + 1)"
  have "successively (follows R) new" using structure_facts [OF valid] by blast
  then have S: "chain_sound R new" unfolding chain_sound_def
    by (rule successively_mono) (auto simp: follows_def continues_def sealed_def)
  obtain j where j: "find_fork_point ?c xs = int j - 1" "j \<le> length ?c" "j \<le> length xs"
    "take j (map ?h ?c) = take j (map (\<lambda>x. hd_hash (item_header x)) xs)"
    using fork_from_agrees [of 0 "map ?h ?c" "map (\<lambda>x. hd_hash (item_header x)) xs"] by (auto simp: find_fork_point_def)
  have M: "?m \<le> j" using guarded_fork [OF n(2) ok] j(1) by (cases "0 \<le> k") auto
  note bs = materialize_blocks [OF new]
  have "take j (map ?h new) = take j (map ?h ?c)"
  proof (rule nth_equalityI)
    fix i assume "i < length (take j (map ?h new))"
    then have i: "i < j" by simp
    then obtain b where "xs ! i = ABlock b" using assms(5) j by (force simp: settled_def)
    then have "?h (new ! i) = hd_hash (item_header (xs ! i))" using bs i j(3) by (simp add: item_header_def)
    also have "\<dots> = ?h (?c ! i)" using arg_cong [OF j(4), of "\<lambda>l. l ! i"] i j(2,3) by simp
    finally show "take j (map ?h new) ! i = take j (map ?h ?c) ! i" using i j(2,3) conjunct1 [OF bs] by simp
  qed (use j(2,3) conjunct1 [OF bs] in simp)
  then have "take ?m (map ?h new) = take ?m (map ?h ?c)" using arg_cong [of "take j (map ?h new)" _ "take ?m"] M
    by (metis (no_types) min_absorb1 take_take)
  moreover have "?m \<le> length new" using M conjunct1 [OF bs] j(3) by simp
  moreover have "map ?h (take ?m ?c) = hs" using n(1) by (simp add: sound_node_def sound_list_def hashes_to_def)
  ultimately show ?thesis using S by (simp add: sound_list_def hashes_to_def flip: take_map)
qed

named_theorems keeps "methods that keep the chain sound and its final blocks"

lemma kept_aside: "aside m \<Longrightarrow> kept R k hs m"
  by (rule aside_kept)

lemma kept_then [keeps]: "kept R k hs m \<Longrightarrow> (\<And>a. kept R k hs (f a)) \<Longrightarrow> kept R k hs (and_then m f)"
  by (rule steady_then)

lemma kept_both [keeps]: "kept R k hs m \<Longrightarrow> kept R k hs m' \<Longrightarrow> kept R k hs (both m m')"
  by (rule steady_both)

lemma kept_if [keeps]: "(b \<Longrightarrow> kept R k hs m) \<Longrightarrow> (\<not> b \<Longrightarrow> kept R k hs m') \<Longrightarrow> kept R k hs (if b then m else m')"
  by simp

lemma kept_ret [keeps]: "kept R k hs (ret a)"
  by (rule steady_ret)

lemma kept_read:
  assumes m: "\<And>t. sound_node R k hs t \<Longrightarrow> guarded k t \<Longrightarrow> kept R k hs (m t)" and x: "\<And>n. x n = m n n"
  shows "kept R k hs x"
proof (rule steadyI)
  fix n r n' assume n: "sound_node R k hs n" "guarded k n" and "x n = (r, n')"
  then show "sound_node R k hs n' \<and> (goes_on r \<longrightarrow> guarded k n')" using steadyD [OF m [OF n] n] x by metis
qed

lemma kept_chain: "sound_list R k hs c \<Longrightarrow> kept R k hs (modify (\<lambda>n. n\<lparr>nd_chain := c, nd_tx_count := t\<rparr>))"
    "sound_list R k hs c \<Longrightarrow> kept R k hs (modify (\<lambda>n. n\<lparr>nd_chain := c\<rparr>))"
  by (auto intro!: steady_modify simp: sound_node_def guarded_def)

lemma kept_orphans:
  "(\<And>n. nd_chain (f n) = nd_chain n \<and> nd_finality (f n) = nd_finality n) \<Longrightarrow>
   (\<And>n. orphans_sealed R (nd_orphans n) \<Longrightarrow> orphans_sealed R (nd_orphans (f n))) \<Longrightarrow> kept R k hs (modify f)"
  by (auto intro!: steady_modify simp: sound_node_def guarded_def)

lemma kept_perform_reorg: "sound_list R k hs new \<Longrightarrow> kept R k hs (perform_reorg ops R H fork new)"
  unfolding perform_reorg_def by (rule steady_seq) (simp add: kept_chain kept_aside leaves)

lemma kept_restore_ledger [keeps]: "sound_list R k hs (nd_chain old) \<Longrightarrow> kept R k hs (restore_ledger ops old)"
  unfolding restore_ledger_def by (rule steady_seq) (simp add: kept_chain kept_aside leaves)

text \<open>Finality never comes back: its \<open>restore\<close> ends in an exception that no handler catches.\<close>

lemma kept_restore_finality [keeps]: "kept R k hs (restore_finality old)"
proof (rule steadyI)
  fix n :: "('a, 'b, 'c) node" and r n'
  assume n: "sound_node R k hs n" "guarded k n" and run: "restore_finality old n = (r, n')"
  show "sound_node R k hs n' \<and> (goes_on r \<longrightarrow> guarded k n')"
  proof (cases "nd_finality old = None \<or> nd_finality n = None")
    case True
    then show ?thesis using n run by (auto simp: restore_finality_def split: option.splits)
  next
    case False
    then obtain f0 f where f: "nd_finality old = Some f0" "nd_finality n = Some f" by auto
    obtain q g where q: "finality_restore (finality_snapshot_of f0) f = (q, g)" by fastforce
    then have "q \<in> {Inl KeyError, Inl AttributeError}" using restore_loses_certificates [of "finality_snapshot_of f0" f] by simp
    moreover have "r = q" "n' = n\<lparr>nd_finality := Some g\<rparr>" using run f q by (auto simp: restore_finality_def)
    ultimately show ?thesis using n by (auto simp: handled_def sound_node_def)
  qed
qed

lemma kept_roll_back: "sound_list R k hs (nd_chain old) \<Longrightarrow> kept R k hs (roll_back ops H old)"
  unfolding roll_back_def
  by (intro keeps steady_seq) (auto intro!: kept_restore_ledger kept_restore_finality kept_aside [OF aside_modify] simp: same_ledger_def set_pending_def)

lemma kept_commit_chain:
  assumes new: "sound_list R k hs new"
  shows "kept R k hs (commit_chain ops R H fork new)"
proof (rule steadyI)
  fix n :: "('a, 'b, 'c) node" and r n'
  assume n: "sound_node R k hs n" "guarded k n" and run: "commit_chain ops R H fork new n = (r, n')"
  obtain q m where q: "perform_reorg ops R H fork new n = (q, m)" by fastforce
  have m: "sound_node R k hs m" "goes_on q \<Longrightarrow> guarded k m"
    using steadyD [OF kept_perform_reorg [OF new] n q] by auto
  show "sound_node R k hs n' \<and> (goes_on r \<longrightarrow> guarded k n')"
  proof (cases q)
    case (Inr u)
    then show ?thesis using m run q by (simp add: commit_chain_def)
  next
    case (Inl e)
    show ?thesis
    proof (cases "handled e")
      case True
      have "sound_list R k hs (nd_chain n)" using n(1) by (simp add: sound_node_def)
      moreover have "roll_back ops H n m = (r, n')" using run q Inl True by (simp add: commit_chain_def)
      ultimately show ?thesis using steadyD [OF kept_roll_back m] True Inl by fastforce
    next
      case False
      then show ?thesis using m run q Inl by (auto simp: commit_chain_def)
    qed
  qed
qed

text \<open>What \<open>accept_candidate\<close> says yes to is valid, and saying so changes nothing but the judge.\<close>

lemma accept_valid:
  assumes "accept_candidate R new n = (Inr True, t)"
  shows "\<exists>s s'. validate_chain_structure R new s = (Inr True, s')"
proof -
  obtain t' where "on_judge (validate_chain_structure R new) t' = (Inr True, t)"
    using assms by (auto simp: accept_candidate_def both_True ret_def split: if_splits)
  then show ?thesis by (cases "validate_chain_structure R new (nd_judge t')") (auto simp: zoom_def)
qed

lemma kept_replace_chain:
  assumes n: "sound_node R k hs n" "guarded k n" and settled: "settled (nd_chain n) xs"
    and run: "replace_chain ops R H xs n = (r, n')"
  shows "sound_node R k hs n' \<and> (goes_on r \<longrightarrow> guarded k n')"
proof (cases "reorg_allowed (if xs = [] then None else Some (find_fork_point (nd_chain n) xs)) n \<and> materialize H (nd_world n) xs \<noteq> None")
  case False
  then show ?thesis using n run by (auto simp: replace_chain_def Let_def split: option.splits if_splits)
next
  case True
  define fork where "fork = (if xs = [] then None else Some (find_fork_point (nd_chain n) xs))"
  from True obtain new where new: "materialize H (nd_world n) xs = Some new" by auto
  then have run': "both (accept_candidate R new) (commit_chain ops R H fork new) n = (r, n')"
    using run True by (simp add: replace_chain_def fork_def)
  obtain q t where q: "accept_candidate R new n = (q, t)" by fastforce
  have t: "sound_node R k hs t" "goes_on q \<Longrightarrow> guarded k t"
    using steadyD [OF kept_aside [OF aside_accept] n q] by auto
  show ?thesis
  proof (cases "q = Inr True")
    case False
    then show ?thesis using run' q t by (auto simp: both_def and_then_def ret_def split: sum.splits if_splits)
  next
    case yes: True
    then obtain s s' where v: "validate_chain_structure R new s = (Inr True, s')" using accept_valid q by blast
    then have "new \<noteq> []" using structure_facts by blast
    then have "xs \<noteq> []" using new by auto
    then have "sound_list R k hs new" using candidate_sound [OF n _ new settled v] True by simp
    moreover have "commit_chain ops R H fork new t = (r, n')" using run' q yes by (simp add: both_def and_then_def)
    ultimately show ?thesis using steadyD [OF kept_commit_chain t(1)] t(2) yes by simp
  qed
qed

section \<open>Orphans and forks\<close>

lemma kept_replace_blocks [keeps]: "kept R k hs (replace_chain ops R H (map ABlock bs))"
  by (rule steadyI) (metis kept_replace_chain settled_blocks)

lemma kept_judge [keeps]: "kept R k hs (on_judge m)"
  by (intro kept_aside leaves)

lemma kept_world [keeps]: "kept R k hs (on_world m)"
  by (intro kept_aside leaves)

lemma kept_option [keeps]: "kept R k hs m \<Longrightarrow> (\<And>a. kept R k hs (f a)) \<Longrightarrow> kept R k hs (case x of None \<Rightarrow> m | Some a \<Rightarrow> f a)"
  by (simp split: option.split)

lemma kept_for_each [keeps]: "(\<And>x. kept R k hs (m x)) \<Longrightarrow> kept R k hs (for_each m xs)"
  by (rule steady_for_each)

lemma kept_check_orphans [keeps]: "kept R k hs (check_orphan_chains_for_reorg ops R H)"
  by (rule kept_read [where m = "\<lambda>n. if nd_orphans n = [] then ret False
      else and_then (on_judge (work_of_chain (map fb_header (nd_chain n)))) (\<lambda>work.
        and_then (on_judge (best_candidate R (orphan_candidates n) None work)) (\<lambda>best.
          case best of None \<Rightarrow> ret False | Some c \<Rightarrow> replace_chain ops R H (map ABlock c)))"], intro keeps)
    (simp add: check_orphan_chains_for_reorg_def ret_def)

lemma kept_drop_orphans [keeps]: "kept R k hs (modify (drop_orphans j))"
  by (rule kept_orphans) (auto simp: drop_orphans_def orphans_sealed_def)

lemma sealed_delete: "orphans_sealed R d \<Longrightarrow> orphans_sealed R (AList.delete i d)"
  by (auto simp: orphans_sealed_def AList.delete_eq)

lemma sealed_prune: "orphans_sealed R d \<Longrightarrow> orphans_sealed R (prune_heights l c hs d)"
  by (induction l c hs d rule: prune_heights.induct) (simp_all add: sealed_delete)

lemma kept_prune_orphans [keeps]: "kept R k hs (modify prune_orphans)"
  by (rule kept_orphans) (auto simp: prune_orphans_def intro: sealed_prune)

lemma sealed_get: "orphans_sealed R d \<Longrightarrow> b \<in> set (dict_get d i []) \<Longrightarrow> sealed R b"
  by (cases "map_of d i") (auto simp: orphans_sealed_def dict_get_def dest!: map_of_SomeD)

lemma set_update: "p \<in> set (AList.update i bs d) \<Longrightarrow> p = (i, bs) \<or> p \<in> set d"
  by (induction d) (auto split: if_splits)

lemma sealed_update: "orphans_sealed R d \<Longrightarrow> (\<And>b. b \<in> set bs \<Longrightarrow> sealed R b) \<Longrightarrow> orphans_sealed R (AList.update i bs d)"
  unfolding orphans_sealed_def by (auto dest!: set_update)

lemma sealed_add: "orphans_sealed R d \<Longrightarrow> sealed R b \<Longrightarrow> orphans_sealed R (add_orphan_block b d)"
  unfolding add_orphan_block_def by (rule sealed_update) (auto dest: sealed_get)

lemma kept_keep_orphan: "sealed R b \<Longrightarrow> kept R k hs (modify (keep_orphan b))"
  by (rule kept_orphans) (auto simp: keep_orphan_def intro: sealed_add)

lemma kept_store_orphan: "sealed R b \<Longrightarrow> kept R k hs (store_orphan ops R H b)"
  unfolding store_orphan_def by (intro keeps kept_keep_orphan)

lemma kept_lineage [keeps]: "kept R k hs (attempt_lineage_sync ops R H b lineage)"
proof -
  have trial: "kept R k hs (try_candidate ops R H (map ABlock bs))" for bs
    unfolding try_candidate_def by (intro keeps)
  show ?thesis
    by (rule kept_read [where m = "\<lambda>n. if lineage = [] then ret False
        else case materialize H (nd_world n) lineage of None \<Rightarrow> ret False
        | Some ancestors \<Rightarrow> if \<not> linked ancestors \<or> length ancestors < nat (hd_index (fb_header b)) \<or>
            length (take (nat (hd_index (fb_header b))) ancestors @ b # connectors (nd_orphans n) (hd_hash (fb_header b)) (hd_index (fb_header b) + 1)) \<le> length (nd_chain n)
            then ret False
            else try_candidate ops R H (map ABlock (take (nat (hd_index (fb_header b))) ancestors @ b # connectors (nd_orphans n) (hd_hash (fb_header b)) (hd_index (fb_header b) + 1)))"],
        intro keeps trial)
      (auto simp: attempt_lineage_sync_def ret_def Let_def min_def split: option.split)
qed

lemma sealed_track_fork: "sealed R b \<Longrightarrow> orphans_sealed R (nd_orphans n) \<Longrightarrow> orphans_sealed R (nd_orphans (track_fork b n))"
  by (auto simp: track_fork_def Let_def intro!: sealed_update dest: sealed_get)

lemma track_fork_same [simp]: "nd_chain (track_fork b n) = nd_chain n" "nd_finality (track_fork b n) = nd_finality n"
  by (simp_all add: track_fork_def Let_def)

text \<open>A fork block differs from the block in its place, so the fork lies below it.\<close>

lemma fork_candidate_settled:
  assumes i: "0 < hd_index (fb_header b)" "hd_index (fb_header b) < int (length (nd_chain n))"
    and new: "hd_hash (fb_header (nd_chain n ! nat (hd_index (fb_header b)))) \<noteq> hd_hash (fb_header b)"
  shows "settled (nd_chain n) (fork_candidate b n)"
proof -
  let ?i = "nat (hd_index (fb_header b))" and ?c = "nd_chain n" and ?xs = "fork_candidate b n"
  have len: "?i < length ?c" "?i < length ?xs" using i by (simp_all add: fork_candidate_def)
  have at: "?xs ! ?i = AHeader (fb_header b)" using len by (simp add: fork_candidate_def nth_append)
  have below: "\<exists>a. ?xs ! j = ABlock a" if "j < ?i" for j using that len by (simp add: fork_candidate_def nth_append)
  let ?hs = "map (\<lambda>b. hd_hash (fb_header b)) ?c" and ?ys = "map (\<lambda>x. hd_hash (item_header x)) ?xs"
  obtain p where p: "find_fork_point ?c ?xs = int p - 1" "take p ?hs = take p ?ys"
    using fork_from_agrees [of 0 ?hs ?ys] by (auto simp: find_fork_point_def)
  have "p \<le> ?i"
  proof (rule ccontr)
    assume "\<not> p \<le> ?i"
    then have "?hs ! ?i = ?ys ! ?i" using arg_cong [OF p(2), of "\<lambda>l. l ! ?i"] by simp
    then show False using new len at by (simp add: item_header_def)
  qed
  then show ?thesis using below p(1) by (auto simp: settled_def)
qed

lemma kept_handle_fork:
  assumes b: "sealed R b" and n: "sound_node R k hs n" "guarded k n"
    and i: "0 < hd_index (fb_header b)" "hd_index (fb_header b) < int (length (nd_chain n))"
    and new: "hd_hash (fb_header (nd_chain n ! nat (hd_index (fb_header b)))) \<noteq> hd_hash (fb_header b)"
    and run: "handle_fork ops R H b n = (r, n')"
  shows "sound_node R k hs n' \<and> (goes_on r \<longrightarrow> guarded k n')"
proof -
  let ?n = "track_fork b n"
  define c where "c = fork_candidate b ?n"
  have c: "settled (nd_chain ?n) c" unfolding c_def by (rule fork_candidate_settled) (use i new in simp_all)
  let ?P = "\<lambda>t. sound_node R k hs t \<and> nd_chain t = nd_chain ?n"
  have n1: "?P ?n" "guarded k ?n"
    using n sealed_track_fork [OF b] by (auto simp: sound_node_def guarded_def)
  have aside: "steady ?P (guarded k) m ?P" if "aside m" for m :: "(('a, 'b, 'c) node, 'd) meth"
    using that by (auto simp: steady_def same_ledger_def sound_node_def guarded_def dest!: asideD)
  have trial: "steady ?P (guarded k) (try_candidate ops R H c) (sound_node R k hs)"
    unfolding try_candidate_def
  proof (rule steady_then [where M = "sound_node R k hs"])
    show "steady ?P (guarded k) (replace_chain ops R H c) (sound_node R k hs)"
      by (rule steadyI, rule kept_replace_chain [where xs = c]) (use c in simp_all)
  qed (intro keeps, simp)
  have rest: "steady ?P (guarded k) (and_then (check_orphan_chains_for_reorg ops R H) (\<lambda>_. and_then (modify prune_orphans) (\<lambda>_. ret False)))
      (sound_node R k hs)"
    by (rule steady_from [where P = "sound_node R k hs"]) (intro keeps, simp)
  have worth: "aside (if length (nd_chain ?n) \<le> length c then ret True
            else and_then (on_judge (item_work c)) (\<lambda>new_work.
              and_then (on_judge (work_of_chain (map fb_header (nd_chain ?n)))) (\<lambda>work. ret (work < new_work))))"
    by (intro leaves)
  have saves: "aside (for_each (\<lambda>x. on_world (hk_save_block H x)) xs :: (('a, 'b, 'c) node, unit) meth)" for xs
    by (intro leaves)
  have choose: "steady ?P (guarded k) (if w then try_candidate ops R H c
      else and_then (check_orphan_chains_for_reorg ops R H) (\<lambda>_. and_then (modify prune_orphans) (\<lambda>_. ret False))) (sound_node R k hs)" for w
    using trial rest by simp
  have body: "steady ?P (guarded k) (and_then (for_each (\<lambda>x. on_world (hk_save_block H x)) xs) (\<lambda>_.
        and_then (if length (nd_chain ?n) \<le> length c then ret True
            else and_then (on_judge (item_work c)) (\<lambda>new_work.
              and_then (on_judge (work_of_chain (map fb_header (nd_chain ?n)))) (\<lambda>work. ret (work < new_work)))) (\<lambda>worth.
          if worth then try_candidate ops R H c
          else and_then (check_orphan_chains_for_reorg ops R H) (\<lambda>_. and_then (modify prune_orphans) (\<lambda>_. ret False)))))
      (sound_node R k hs)" for xs
    by (rule steady_then [OF aside [OF saves]], rule steady_then [OF aside [OF worth] choose]) simp_all
  show ?thesis
  proof (cases "0 \<le> hd_index (fb_header b) \<and> hd_index (fb_header b) < int (length (nd_chain ?n)) \<and>
      nd_max_depth ?n < int (length (nd_chain ?n)) - hd_index (fb_header b) - 1")
    case True
    then have "modify prune_orphans ?n = (Inr (), n')" "r = Inr False" using run by (simp_all add: handle_fork_def Let_def modify_def)
    then show ?thesis using steadyD [OF kept_prune_orphans, of R k hs ?n] n1 by simp
  next
    case False
    then have "and_then (for_each (\<lambda>x. on_world (hk_save_block H x))
               (b # connectors (nd_orphans ?n) (hd_hash (fb_header b)) (hd_index (fb_header b) + 1))) (\<lambda>_.
        and_then (if length (nd_chain ?n) \<le> length c then ret True
            else and_then (on_judge (item_work c)) (\<lambda>new_work.
              and_then (on_judge (work_of_chain (map fb_header (nd_chain ?n)))) (\<lambda>work. ret (work < new_work)))) (\<lambda>worth.
          if worth then try_candidate ops R H c
          else and_then (check_orphan_chains_for_reorg ops R H) (\<lambda>_. and_then (modify prune_orphans) (\<lambda>_. ret False)))) ?n = (r, n')"
      using run unfolding handle_fork_def Let_def c_def by (simp only: if_False)
    then show ?thesis
      by (rule steadyD [OF body n1])
  qed
qed

section \<open>Attaching blocks\<close>

text \<open>Votes never take finality back, with or without the invariant of the finality manager.\<close>

definition final_heights :: "finality \<Rightarrow> int set" where
  "final_heights f = fst ` set (certs_by_height f)"

lemma final_heights_simps [simp]:
  "final_heights (with_vote v x sig f) = final_heights f"
  "final_heights (persist_certificates (finalize_block c f)) = insert (ce_height c) (final_heights f)"
  "final_heights (f\<lparr>fm_detector := d\<rparr>) = final_heights f"
  "final_heights (f\<lparr>misbehavior := m\<rparr>) = final_heights f"
  by (simp_all add: final_heights_def with_vote_def persist_certificates_def finalize_block_def add_certificate_def keys_update)

lemma count_vote_heights: "count_vote now v h sig f = (r, g) \<Longrightarrow> final_heights f \<subseteq> final_heights g"
  by (auto simp: count_vote_run Let_def split: if_splits)

lemma record_vote_heights: "record_vote verify now a h sig f = (r, g) \<Longrightarrow> final_heights f \<subseteq> final_heights g"
  by (auto simp: record_vote_def meth_simps split: option.splits prod.splits sum.splits if_splits dest!: count_vote_heights)

lemma run_votes_heights: "final_heights f \<subseteq> final_heights (run_votes verify votes f)"
proof (induction votes arbitrary: f)
  case (Cons v votes)
  obtain now a h sig where v: "v = (now, a, h, sig)" by (cases v)
  have "final_heights f \<subseteq> final_heights (snd (record_vote verify now a h sig f))"
    by (rule record_vote_heights [of verify now a h sig f "fst (record_vote verify now a h sig f)"]) simp
  then show ?case using Cons.IH [of "snd (record_vote verify now a h sig f)"] by (auto simp: run_votes_def v)
qed (simp add: run_votes_def)

lemma highest_mono:
  assumes "get_highest_finalized_height f = Some h" and "final_heights f \<subseteq> final_heights g"
  shows "\<exists>h'. get_highest_finalized_height g = Some h' \<and> h \<le> h'"
proof -
  have f: "certs_by_height f \<noteq> []" "h = Max (final_heights f)"
    using assms(1) by (simp_all add: get_highest_finalized_height_def final_heights_def split: if_splits)
  moreover have "certs_by_height g \<noteq> []" using f(1) assms(2) by (auto simp: final_heights_def)
  moreover have "Max (final_heights f) \<le> Max (final_heights g)"
    by (rule Max_mono [OF assms(2)]) (use f in \<open>simp_all add: final_heights_def\<close>)
  ultimately show ?thesis by (simp add: get_highest_finalized_height_def final_heights_def)
qed

lemma guarded_vote: "guarded k n \<Longrightarrow> cast_vote H b n = (r, n') \<Longrightarrow> guarded k n'"
  unfolding guarded_def cast_vote_def
  using highest_mono [OF _ run_votes_heights] by (fastforce split: prod.splits sum.splits)

definition on_chain :: "rules \<Rightarrow> int \<Rightarrow> string list \<Rightarrow> full_block list \<Rightarrow> ('s, 'p, 'w) node \<Rightarrow> bool" where
  "on_chain R k hs c n \<longleftrightarrow> sound_node R k hs n \<and> nd_chain n = c"

lemma on_chain_aside: "aside m \<Longrightarrow> steady (on_chain R k hs c) (guarded k) m (on_chain R k hs c)"
  by (rule steadyI) (auto dest!: asideD simp: on_chain_def same_ledger_def sound_node_def guarded_def)

lemma on_chain_vote: "steady (on_chain R k hs c) (guarded k) (cast_vote H b) (on_chain R k hs c)"
proof (rule steadyI)
  fix n r n' assume "on_chain R k hs c n" "guarded k n" and run: "cast_vote H b n = (r, n')"
  moreover have "nd_chain n' = nd_chain n" "nd_orphans n' = nd_orphans n"
    using run by (auto simp: cast_vote_def split: prod.splits sum.splits)
  ultimately show "on_chain R k hs c n' \<and> (goes_on r \<longrightarrow> guarded k n')"
    using guarded_vote [OF _ run] by (auto simp: on_chain_def sound_node_def)
qed

lemma kept_vote [keeps]: "kept R k hs (cast_vote H b)"
proof (rule steadyI)
  fix n r n' assume n: "sound_node R k hs n" "guarded k n" and run: "cast_vote H b n = (r, n')"
  have "on_chain R k hs (nd_chain n) n" using n by (simp add: on_chain_def)
  from steadyD [OF on_chain_vote this n(2) run] show "sound_node R k hs n' \<and> (goes_on r \<longrightarrow> guarded k n')"
    by (simp add: on_chain_def)
qed

lemma sealed_remove: "orphans_sealed R (nd_orphans n) \<Longrightarrow> orphans_sealed R (nd_orphans (remove_orphan_block b i n))"
  by (auto simp: remove_orphan_block_def Let_def intro!: sealed_update sealed_delete
      dest: subsetD [OF set_remove1_subset] sealed_get)

lemma remove_orphan_same [simp]: "nd_chain (remove_orphan_block b i n) = nd_chain n" "nd_finality (remove_orphan_block b i n) = nd_finality n"
  by (simp_all add: remove_orphan_block_def Let_def)

lemma on_chain_remove: "steady (on_chain R k hs c) (guarded k) (modify (remove_orphan_block b i)) (on_chain R k hs c)"
  by (rule steady_modify) (auto simp: on_chain_def sound_node_def guarded_def sealed_remove)

text \<open>A block that continues the chain may be appended.\<close>

definition may_append :: "rules \<Rightarrow> full_block list \<Rightarrow> full_block list \<Rightarrow> bool" where
  "may_append R c bs \<longleftrightarrow> successively (continues R) bs \<and> (c \<noteq> [] \<longrightarrow> bs \<noteq> [] \<longrightarrow> continues R (last c) (hd bs))"

lemma append_sound: "sound_list R k hs c \<Longrightarrow> may_append R c [b] \<Longrightarrow> sound_list R k hs (c @ [b])"
  by (auto simp: sound_list_def chain_sound_def may_append_def hashes_to_def successively_append_iff)

lemma on_chain_append:
  assumes "on_chain R k hs c n" and "may_append R c [b]"
  shows "on_chain R k hs (c @ [b]) (append_block b n)"
  using assms append_sound by (auto simp: on_chain_def sound_node_def append_block_def)

lemma attach_orphan_kept:
  assumes b: "may_append R c [b]"
  shows "steady (on_chain R k hs c) (guarded k) (attach_orphan ops H b) (on_chain R k hs (c @ [b]))"
proof (rule steadyI)
  fix n :: "('a, 'b, 'c) node" and r n'
  assume n: "on_chain R k hs c n" "guarded k n" and run: "attach_orphan ops H b n = (r, n')"
  have m: "on_chain R k hs (c @ [b]) (append_block b n)" "guarded k (append_block b n)"
    using on_chain_append [OF n(1) b] n(2) by (simp_all add: guarded_def append_block_def)
  have "steady (on_chain R k hs (c @ [b])) (guarded k) (seq
     [on_world (hk_governance H b), apply_block ops b, record_block H b, cast_vote H b,
      modify (remove_orphan_block b (int (length (nd_chain n))))]) (on_chain R k hs (c @ [b]))"
    by (rule steady_seq) (simp add: on_chain_aside leaves on_chain_vote on_chain_remove)
  from steadyD [OF this m, of r n'] run show "on_chain R k hs (c @ [b]) n' \<and> (goes_on r \<longrightarrow> guarded k n')"
    by (simp add: attach_orphan_def and_then_def modify_def)
qed

lemma attach_all_kept:
  assumes "may_append R c bs"
  shows "steady (on_chain R k hs c) (guarded k) (for_each (attach_orphan ops H) bs) (sound_node R k hs)"
  using assms
proof (induction bs arbitrary: c)
  case Nil
  show ?case by (simp, rule steady_ret) (simp add: on_chain_def)
next
  case (Cons b bs)
  then have "may_append R c [b]" "may_append R (c @ [b]) bs" by (auto simp: may_append_def successively_Cons)
  then show ?case
    unfolding for_each.simps by - (rule steady_then [OF attach_orphan_kept Cons.IH]; simp add: on_chain_def)
qed

lemma connectors_path:
  assumes "orphans_sealed R d"
  shows "(\<forall>b \<in> set (connectors d h i). sealed R b) \<and> successively (continues R) (connectors d h i) \<and>
    (connectors d h i \<noteq> [] \<longrightarrow> hd_previous_hash (fb_header (hd (connectors d h i))) = h)"
  using assms
proof (induction d h i rule: connectors.induct)
  case (1 d h i)
  show ?case
  proof (cases "\<exists>bs b. map_of d i = Some bs \<and> find (\<lambda>b. hd_previous_hash (fb_header b) = h) bs = Some b")
    case False
    then have "connectors d h i = []" by (subst connectors.simps) (auto split: option.split)
    then show ?thesis by simp
  next
    case True
    then obtain bs b where bs: "map_of d i = Some bs" "find (\<lambda>b. hd_previous_hash (fb_header b) = h) bs = Some b" by blast
    then have eq: "connectors d h i = b # connectors d (hd_hash (fb_header b)) (i + 1)" by (subst connectors.simps) simp
    have b: "b \<in> set bs" "hd_previous_hash (fb_header b) = h" using bs(2) by (auto simp: find_Some_iff)
    then have "sealed R b" using map_of_SomeD [OF bs(1)] 1(2) by (force simp: orphans_sealed_def)
    then show ?thesis using 1(1) [OF bs 1(2)] b(2) by (auto simp: eq successively_Cons continues_def)
  qed
qed

lemma kept_process_orphans [keeps]: "kept R k hs (process_orphan_blocks ops H)"
proof (rule steadyI)
  fix n :: "('a, 'b, 'c) node" and r n'
  assume n: "sound_node R k hs n" "guarded k n" and run: "process_orphan_blocks ops H n = (r, n')"
  let ?c = "nd_chain n"
  let ?bs = "connectors (nd_orphans n) (hd_hash (fb_header (last ?c))) (int (length ?c))"
  have "orphans_sealed R (nd_orphans n)" using n by (simp add: sound_node_def)
  from connectors_path [OF this, of "hd_hash (fb_header (last ?c))" "int (length ?c)"]
  have bs: "\<forall>b \<in> set ?bs. sealed R b" "successively (continues R) ?bs"
    "?bs \<noteq> [] \<Longrightarrow> hd_previous_hash (fb_header (hd ?bs)) = hd_hash (fb_header (last ?c))" by blast+
  then have "?bs \<noteq> [] \<Longrightarrow> continues R (last ?c) (hd ?bs)" using hd_in_set [of ?bs] by (simp add: continues_def)
  then have "may_append R ?c ?bs" using bs(2) by (simp add: may_append_def)
  moreover have "on_chain R k hs ?c n" using n by (simp add: on_chain_def)
  ultimately show "sound_node R k hs n' \<and> (goes_on r \<longrightarrow> guarded k n')"
    using run n(2) by (intro steadyD [OF attach_all_kept]) (simp_all add: process_orphan_blocks_def)
qed

section \<open>A refused replacement\<close>

lemma and_then_modify: "and_then (modify f) k n = k () (f n)"
  by (simp add: and_then_def modify_def)

lemma restore_ledger_chain: "restore_ledger ops old n = (r, m) \<Longrightarrow> nd_chain m = nd_chain old"
proof -
  assume run: "restore_ledger ops old n = (r, m)"
  have "aside (seq [on_utxos (modify (manager_restore ops (manager_snapshot ops (mp_utxos (nd_pool old))))),
      on_tracker (nonce_restore (nonce_snapshot (mp_tracker (nd_pool old))))])"
    by (rule aside_seq) (simp add: leaves)
  from asideD [OF this] run show ?thesis by (fastforce simp: restore_ledger_def and_then_modify same_ledger_def)
qed

lemma restore_finality_chain: "restore_finality old n = (r, m) \<Longrightarrow> nd_chain m = nd_chain n"
  by (auto simp: restore_finality_def split: option.splits prod.splits)

lemma roll_back_chain: "roll_back ops H old n = (r, m) \<Longrightarrow> nd_chain m = nd_chain old"
  using restore_ledger_chain [of ops old n] restore_finality_chain [of old]
  by (fastforce simp: roll_back_def and_then_def modify_def ret_def set_pending_def split: prod.splits sum.splits)

lemma replace_chain_False:
  assumes "replace_chain ops R H xs n = (Inr False, m)"
  shows "nd_chain m = nd_chain n"
proof (cases "m = n")
  case False
  then obtain new fork where "both (accept_candidate R new) (commit_chain ops R H fork new) n = (Inr False, m)"
    using assms by (auto simp: replace_chain_def Let_def split: if_splits option.splits)
  moreover obtain q t where q: "accept_candidate R new n = (q, t)" by fastforce
  then have "nd_chain t = nd_chain n" using asideD [OF aside_accept q] by (simp add: same_ledger_def)
  ultimately show ?thesis
    using roll_back_chain [of ops H t _ "Inr False"] q
    by (auto simp: both_def and_then_def commit_chain_def ret_def split: sum.splits if_splits prod.splits)
qed simp

lemma lineage_False:
  assumes "attempt_lineage_sync ops R H b lineage n = (Inr False, m)"
  shows "nd_chain m = nd_chain n"
  using assms replace_chain_False
  by (fastforce simp: attempt_lineage_sync_def Let_def try_candidate_def and_then_def modify_def ret_def
      split: if_splits option.splits prod.splits sum.splits)

section \<open>Adding a block\<close>

lemma kept_compete:
  assumes b: "sealed R b" and n: "sound_node R k hs n" "guarded k n" and i: "hd_index (fb_header b) < int (length (nd_chain n))"
    and new: "hd_hash (fb_header (nd_chain n ! nat (hd_index (fb_header b)))) \<noteq> hd_hash (fb_header b)"
    and run: "compete ops R H b lineage n = (r, n')"
  shows "sound_node R k hs n' \<and> (goes_on r \<longrightarrow> guarded k n')"
proof -
  have old: "sound_list R k hs (nd_chain n)" using n by (simp add: sound_node_def)
  note restored = kept_restore_ledger [OF old, of ops]
  define fork where "fork = and_then (handle_fork ops R H b) (\<lambda>ok. if ok then ret True else and_then (restore_ledger ops n) (\<lambda>_. ret False))"
  define body where "body = and_then (attempt_lineage_sync ops R H b lineage) (\<lambda>synced m.
     if synced then (Inr True, m) else if parent_known (fb_header b) (nd_chain m) then fork m else store_orphan ops R H b m)"
  obtain q m where q: "body n = (q, m)" by fastforce
  have m: "sound_node R k hs m \<and> (goes_on q \<longrightarrow> guarded k m)"
  proof -
    obtain u t where u: "attempt_lineage_sync ops R H b lineage n = (u, t)" by fastforce
    note t = steadyD [OF kept_lineage n u]
    consider "u \<noteq> Inr False" | "u = Inr False" "parent_known (fb_header b) (nd_chain t)" | "u = Inr False" "\<not> parent_known (fb_header b) (nd_chain t)"
      by blast
    then show ?thesis
    proof cases
      case 1
      then show ?thesis using q u t by (cases u) (auto simp: body_def and_then_def)
    next
      case 3
      then have "store_orphan ops R H b t = (q, m)" using q u by (simp add: body_def and_then_def)
      moreover have "guarded k t" using t 3(1) by simp
      ultimately show ?thesis using steadyD [OF kept_store_orphan [OF b]] t by blast
    next
      case 2
      have c: "nd_chain t = nd_chain n" using lineage_False u 2 by blast
      have "0 < hd_index (fb_header b)" using 2 by (simp add: parent_known_def)
      obtain v w where v: "handle_fork ops R H b t = (v, w)" by fastforce
      have w: "sound_node R k hs w \<and> (goes_on v \<longrightarrow> guarded k w)"
        by (rule kept_handle_fork [OF b _ _ _ _ _ v]) (use t 2 c i new \<open>0 < hd_index (fb_header b)\<close> in simp_all)
      have f: "fork t = (q, m)" using q u 2 by (simp add: body_def and_then_def)
      show ?thesis
      proof (cases "v = Inr False")
        case False
        then show ?thesis using f v w by (cases v) (auto simp: fork_def and_then_def ret_def)
      next
        case True
        then have "and_then (restore_ledger ops n) (\<lambda>_. ret False) w = (q, m)" using f v by (simp add: fork_def and_then_def)
        from steadyD [OF kept_then [OF restored kept_ret] _ _ this] w True show ?thesis by simp
      qed
    qed
  qed
  have run': "(case body n of (Inr r, m) \<Rightarrow> (Inr r, m)
      | (Inl e, m) \<Rightarrow> if handled e then and_then (restore_ledger ops n) (\<lambda>_. ret False) m else (Inl e, m)) = (r, n')"
    using run unfolding compete_def body_def fork_def .
  show ?thesis
  proof (cases "\<exists>e. q = Inl e \<and> handled e")
    case True
    then have "and_then (restore_ledger ops n) (\<lambda>_. ret False) m = (r, n')" using run' q by auto
    from steadyD [OF kept_then [OF restored kept_ret] _ _ this] m True show ?thesis by auto
  next
    case False
    then have "r = q" "n' = m" using run' q by (auto split: sum.splits)
    then show ?thesis using m by simp
  qed
qed

lemma kept_sync_or_store: "sealed R b \<Longrightarrow> kept R k hs (sync_or_store ops R H b lineage)"
  unfolding sync_or_store_def by (intro keeps kept_store_orphan)

lemma sealed_with_txs [simp]: "sealed R (b\<lparr>fb_txs := ts\<rparr>) = sealed R b" "continues R p (b\<lparr>fb_txs := ts\<rparr>) = continues R p b"
  by (simp_all add: sealed_def continues_def)

lemma may_append_with_txs [simp]: "may_append R c [b\<lparr>fb_txs := ts\<rparr>] = may_append R c [b]"
  by (simp add: may_append_def)

lemma add_to_chain_kept:
  assumes b: "may_append R c [b]"
  shows "steady (on_chain R k hs c) (guarded k) (add_block_to_chain ops R H b) (sound_node R k hs)"
proof (rule steadyI)
  fix n :: "('a, 'b, 'c) node" and r n'
  assume n: "on_chain R k hs c n" "guarded k n" and run: "add_block_to_chain ops R H b n = (r, n')"
  let ?m = "update_block_hash_index b (int (length (nd_chain n))) (append_block b n)"
  have m: "sound_node R k hs ?m" "guarded k ?m"
    using on_chain_append [OF n(1) b] n(2)
    by (auto simp: on_chain_def sound_node_def guarded_def append_block_def update_block_hash_index_def)
  have rest: "kept R k hs (and_then (seq
     [note_peer_block b, on_world (hk_governance H b), on_world (hk_contracts H b), apply_block ops b, record_block H b,
      modify (drop_included b), process_orphan_blocks ops H, process_orphan_transactions ops R, cast_vote H b]) (\<lambda>_. ret True))"
    by (intro keeps steady_seq) (auto intro!: keeps kept_aside leaves)
  have "and_then (seq
     [note_peer_block b, on_world (hk_governance H b), on_world (hk_contracts H b), apply_block ops b, record_block H b,
      modify (drop_included b), process_orphan_blocks ops H, process_orphan_transactions ops R, cast_vote H b]) (\<lambda>_. ret True) ?m = (r, n')"
    using run by (simp only: add_block_to_chain_def seq.simps and_then_assoc and_then_modify)
  then show "sound_node R k hs n' \<and> (goes_on r \<longrightarrow> guarded k n')"
    by (rule steadyD [OF rest m])
qed

lemma extend_tip_kept:
  assumes b: "may_append R c [b]"
  shows "steady (on_chain R k hs c) (guarded k) (extend_tip ops R H b) (sound_node R k hs)"
  unfolding extend_tip_def
proof (rule steady_then [OF on_chain_aside [OF aside_validate_block_txs]])
  fix checked :: "transaction list option"
  show "steady (on_chain R k hs c) (guarded k) (case checked of None \<Rightarrow> ret False
      | Some ts \<Rightarrow> add_block_to_chain ops R H (b\<lparr>fb_txs := ts\<rparr>)) (sound_node R k hs)"
  proof (cases checked)
    case None
    then show ?thesis by (simp, intro steady_ret) (simp add: on_chain_def)
  next
    case (Some ts)
    have "may_append R c [b\<lparr>fb_txs := ts\<rparr>]" using b by simp
    from add_to_chain_kept [OF this] show ?thesis by (simp add: Some)
  qed
qed (simp add: on_chain_def)

lemma kept_place_block:
  assumes b: "sealed R b" and n: "sound_node R k hs n" "guarded k n"
    and new: "hd_index (fb_header b) < int (length (nd_chain n)) \<Longrightarrow>
      hd_hash (fb_header (nd_chain n ! nat (hd_index (fb_header b)))) \<noteq> hd_hash (fb_header b)"
    and run: "place_block ops R H b lineage n = (r, n')"
  shows "sound_node R k hs n' \<and> (goes_on r \<longrightarrow> guarded k n')"
proof -
  let ?i = "hd_index (fb_header b)" and ?c = "nd_chain n"
  consider (orphan) "?i = int (length ?c)" "?c \<noteq> []" "hd_previous_hash (fb_header b) \<noteq> hd_hash (fb_header (last ?c))"
    | (tip) "?i = int (length ?c)" "?c \<noteq> [] \<longrightarrow> hd_previous_hash (fb_header b) = hd_hash (fb_header (last ?c))"
    | (ahead) "int (length ?c) < ?i" | (behind) "?i < int (length ?c)" by force
  then show ?thesis
  proof cases
    case orphan
    then show ?thesis using run steadyD [OF kept_sync_or_store [OF b] n] by (simp add: place_block_def Let_def)
  next
    case tip
    then have "may_append R ?c [b]" using b by (auto simp: may_append_def continues_def)
    moreover have "extend_tip ops R H b n = (r, n')" using run tip by (simp add: place_block_def Let_def split: if_splits)
    ultimately show ?thesis using steadyD [OF extend_tip_kept] n by (simp add: on_chain_def)
  next
    case ahead
    then show ?thesis using run steadyD [OF kept_sync_or_store [OF b] n] by (simp add: place_block_def Let_def)
  next
    case behind
    then have "compete ops R H b lineage n = (r, n')" using run by (simp add: place_block_def Let_def)
    then show ?thesis by (rule kept_compete [OF b n behind new [OF behind]])
  qed
qed

lemma intact_sealed: "block_intact R b \<Longrightarrow> sealed R b"
  by (auto simp: block_intact_def sealed_def Let_def)

lemma kept_add_full_block: "kept R k hs (add_full_block ops R H b lineage)"
proof (rule steadyI)
  fix n :: "('a, 'b, 'c) node" and r n'
  assume n: "sound_node R k hs n" "guarded k n" and run: "add_full_block ops R H b lineage n = (r, n')"
  let ?h = "fb_header b" and ?c = "nd_chain n" and ?b = "b\<lparr>fb_txs := with_ids (ru_env R) (fb_txs b)\<rparr>"
  show "sound_node R k hs n' \<and> (goes_on r \<longrightarrow> guarded k n')"
  proof (cases "(hd_index ?h < int (length ?c) \<and> hd_hash (fb_header (?c ! nat (hd_index ?h))) = hd_hash ?h) \<or> \<not> block_intact R b")
    case True
    then show ?thesis using run n by (auto simp: add_full_block_def Let_def split: if_splits)
  next
    case False
    then have both: "both (on_judge (block_in_time R ?h ?c)) (place_block ops R H ?b lineage) n = (r, n')"
      using run unfolding add_full_block_def Let_def by (auto split: if_splits)
    obtain q t where q: "on_judge (block_in_time R ?h ?c) n = (q, t)" by fastforce
    have t: "sound_node R k hs t" "goes_on q \<Longrightarrow> guarded k t" "nd_chain t = ?c"
      using steadyD [OF kept_judge n q] asideD [OF aside_zooms(2) q] by (simp_all add: same_ledger_def)
    show ?thesis
    proof (cases "q = Inr True")
      case True
      then have "place_block ops R H ?b lineage t = (r, n')" using both q by (simp add: both_def and_then_def)
      then show ?thesis
        by (rule kept_place_block [rotated -1]) (use t True False intact_sealed [of R b] in auto)
    next
      case no: False
      then show ?thesis using both q t by (cases q) (auto simp: both_def and_then_def ret_def)
    qed
  qed
qed

lemma kept_add_block: "kept R k hs (add_block ops R H x lineage)"
proof (cases x)
  case (ABlock b)
  then have "add_block ops R H x lineage = add_full_block ops R H b lineage" by (simp add: add_block_def fun_eq_iff)
  then show ?thesis by (simp add: kept_add_full_block)
next
  case (AHeader h)
  show ?thesis
    by (rule kept_read [where m = "\<lambda>n. case hk_load_block H (hd_index h) (nd_world n) of None \<Rightarrow> ret False
        | Some b \<Rightarrow> add_full_block ops R H b []"])
      (auto simp: AHeader add_block_def ret_def intro: steady_ret kept_add_full_block split: option.split)
qed

section \<open>Sequences of blocks\<close>

text \<open>Blocks from peers one after the other, whatever each call returns or raises.\<close>

definition add_blocks ::
    "'s store_ops \<Rightarrow> rules \<Rightarrow> ('s, 'p, 'w) hooks \<Rightarrow> (chain_item \<times> chain_item list) list \<Rightarrow> ('s, 'p, 'w) node \<Rightarrow> ('s, 'p, 'w) node" where
  "add_blocks ops R H = fold (\<lambda>(x, lineage) n. snd (add_block ops R H x lineage n))"

lemma sound_start: "chain_sound R (nd_chain n) \<Longrightarrow> orphans_sealed R (nd_orphans n) \<Longrightarrow> sound_node R (-1) [] n"
  by (simp add: sound_node_def sound_list_def hashes_to_def)

lemma add_blocks_sound:
  assumes "sound_node R (-1) [] n"
  shows "sound_node R (-1) [] (add_blocks ops R H calls n)"
  using assms
proof (induction calls arbitrary: n)
  case (Cons c calls)
  obtain x lineage where c: "c = (x, lineage)" by (cases c)
  obtain r m where e: "add_block ops R H x lineage n = (r, m)" by fastforce
  have "guarded (-1) n" by (simp add: guarded_def)
  from steadyD [OF kept_add_block Cons.prems this e] have "sound_node R (-1) [] (snd (add_block ops R H x lineage n))"
    by (simp add: e)
  then show ?case using Cons.IH by (simp add: add_blocks_def c)
qed (simp add: add_blocks_def)

text \<open>
  C1: Whatever blocks, lineages and headers peers send, in whatever order, and whether calls return or raise:
  every block of the chain but the first names the hash of the block before it, and its own hash is that of
  its header, begins with as many zeros as it declares, and carries an accepted version and signature. The
  orphans kept for later are as well formed.
\<close>

theorem chain_stays_sound:
  assumes "chain_sound R (nd_chain n)" and "orphans_sealed R (nd_orphans n)"
  shows "chain_sound R (nd_chain (add_blocks ops R H calls n)) \<and> orphans_sealed R (nd_orphans (add_blocks ops R H calls n))"
  using add_blocks_sound [OF sound_start [OF assms]] by (simp add: sound_node_def sound_list_def)

text \<open>
  C2: A finalized block is never reorganised away: when a height is finalized, adding any block, with any
  lineage, changes no hash at that height or below, even if the call raises; if it returns, the height is
  still finalized.
\<close>

theorem finalized_blocks_stay:
  assumes "chain_sound R (nd_chain n)" and "orphans_sealed R (nd_orphans n)" and "nd_finality n = Some f"
    and "get_highest_finalized_height f = Some h" and "0 \<le> h" and "h < int (length (nd_chain n))"
    and "add_block ops R H x lineage n = (r, n')"
  shows "h < int (length (nd_chain n')) \<and> hashes_to h (nd_chain n') = hashes_to h (nd_chain n) \<and>
    (\<forall>a. r = Inr a \<longrightarrow> (\<exists>f' h'. nd_finality n' = Some f' \<and> get_highest_finalized_height f' = Some h' \<and> h \<le> h'))"
proof -
  have "sound_node R h (hashes_to h (nd_chain n)) n" "guarded h n"
    using assms by (simp_all add: sound_node_def sound_list_def guarded_def nat_le_iff)
  from steadyD [OF kept_add_block this assms(7)] show ?thesis
    using assms(5) by (auto simp: sound_node_def sound_list_def guarded_def)
qed

section \<open>A node with two blocks\<close>

definition sample_hooks :: "(mem_utxos, unit, unit) hooks" where
  "sample_hooks = \<lparr>hk_governance = (\<lambda>b. ret ()), hk_contracts = (\<lambda>b. ret ()), hk_rebuild = (\<lambda>c. ret ()), hk_index = (\<lambda>b. ret ()),
     hk_reindex = (\<lambda>i c. ret ()), hk_save_block = (\<lambda>b. ret ()), hk_load_block = (\<lambda>i w. None), hk_save_state = (\<lambda>m. ret ()),
     hk_votes = (\<lambda>b f. ret []), hk_verify = all_valid, hk_rollback = (\<lambda>old now. old)\<rparr>"

definition sample_node :: "(mem_utxos, unit, unit) node" where
  "sample_node = \<lparr>nd_chain = [hd sample_chain], nd_orphans = [], nd_pool = sample_mempool, nd_finality = None, nd_checkpoint = None,
     nd_tx_count = 0, nd_hash_index = [], nd_judge = sample_judge, nd_last_peer_time = Fin 0, nd_mining_target = None,
     nd_abort_mining = False, nd_max_depth = 100, nd_max_orphans = 200, nd_world = ()\<rparr>"

definition sample_final_node :: "(mem_utxos, unit, unit) node" where
  "sample_final_node = sample_node\<lparr>nd_chain := sample_chain, nd_finality := Some (sample_finality\<lparr>certs_by_height :=
     [(1, \<lparr>ce_hash = take 63 zeros64 @ ''b'', ce_height = 1, ce_signatures = [], ce_power = 2, ce_created = 0\<rparr>)]\<rparr>)\<rparr>"

lemma sample_chain_sound: "chain_sound sample_rules sample_chain"
proof -
  obtain s' where "validate_chain_structure sample_rules sample_chain sample_judge = (Inr True, s')" using sample_valid by blast
  then have "successively (follows sample_rules) sample_chain" by (rule structure_facts(3))
  then show ?thesis unfolding chain_sound_def by (rule successively_mono) (auto simp: follows_def continues_def sealed_def)
qed

theorem chain_stays_sound_witness:
  "chain_sound sample_rules (nd_chain (add_blocks memory_store sample_rules sample_hooks [(ABlock (last sample_chain), [])] sample_node))"
  using chain_stays_sound [of sample_rules sample_node memory_store sample_hooks "[(ABlock (last sample_chain), [])]"]
  by (simp add: sample_node_def chain_sound_def orphans_sealed_def)

theorem finalized_blocks_stay_witness:
  "hashes_to 1 (nd_chain (snd (add_block memory_store sample_rules sample_hooks (ABlock (hd sample_chain)) [] sample_final_node))) =
     [take 63 zeros64 @ ''a'', take 63 zeros64 @ ''b'']"
proof -
  have f: "chain_sound sample_rules (nd_chain sample_final_node)" "orphans_sealed sample_rules (nd_orphans sample_final_node)"
    "nd_finality sample_final_node = Some (sample_finality\<lparr>certs_by_height :=
     [(1, \<lparr>ce_hash = take 63 zeros64 @ ''b'', ce_height = 1, ce_signatures = [], ce_power = 2, ce_created = 0\<rparr>)]\<rparr>)"
    using sample_chain_sound by (simp_all add: sample_final_node_def sample_node_def orphans_sealed_def)
  have h: "get_highest_finalized_height (sample_finality\<lparr>certs_by_height :=
     [(1, \<lparr>ce_hash = take 63 zeros64 @ ''b'', ce_height = 1, ce_signatures = [], ce_power = 2, ce_created = 0\<rparr>)]\<rparr>) = Some 1"
    by (simp add: get_highest_finalized_height_def)
  have c: "nd_chain sample_final_node = sample_chain" by (simp add: sample_final_node_def)
  have len: "(1 :: int) < int (length (nd_chain sample_final_node))" by (simp add: c sample_chain_def)
  have "hashes_to 1 (nd_chain sample_final_node) = [take 63 zeros64 @ ''a'', take 63 zeros64 @ ''b'']"
    using sample_hashes by (simp add: c hashes_to_def sample_chain_def)
  with finalized_blocks_stay [OF f h _ len surjective_pairing, of memory_store sample_hooks "ABlock (hd sample_chain)" "[]"]
  show ?thesis by simp
qed

end
