(* ===== verification/Replay.thy ===== *)
theory Replay
  imports Chain UtxoSafety
begin

text \<open>
  The unspent outputs a list of transactions leaves, stated of the transactions alone: an output is unspent
  if one of them makes it and none names it as an input. Replaying the list strictly on an empty set, as
  \<open>replace_chain\<close> does, gives these outputs and succeeds only if every input was made by an earlier
  transaction for the one that spends it, and no output is spent twice.
\<close>

section \<open>What transactions make and spend\<close>

text \<open>The output j of a transaction as the manager stores it.\<close>

definition makes :: "transaction \<Rightarrow> utxo \<Rightarrow> bool" where
  "makes t u \<longleftrightarrow> (\<exists>j < length (t_outputs t). \<exists>y. validate_utxo_amount (FloatAmount (snd (t_outputs t ! j))) = Inr y \<and>
     u = new_utxo (fst (t_outputs t ! j)) (tx_id t) (int j) y (''P2PKH '' @ fst (t_outputs t ! j)))"

definition spends :: "transaction \<Rightarrow> outpoint list" where
  "spends t = (if t_sender t = ''COINBASE'' then [] else t_inputs t)"

definition all_spent :: "transaction list \<Rightarrow> outpoint list" where
  "all_spent ts = concat (map spends ts)"

text \<open>An output that a list of transactions leaves unspent.\<close>

definition leaves_unspent :: "transaction list \<Rightarrow> utxo \<Rightarrow> bool" where
  "leaves_unspent ts u \<longleftrightarrow> (\<exists>t \<in> set ts. makes t u) \<and> key_of u \<notin> set (all_spent ts)"

text \<open>Every input was made by an earlier transaction, for the sender.\<close>

definition well_funded :: "transaction list \<Rightarrow> bool" where
  "well_funded ts \<longleftrightarrow> (\<forall>j < length ts. \<forall>k \<in> set (spends (ts ! j)).
     \<exists>p \<in> set (take j ts). \<exists>u. makes p u \<and> key_of u = k \<and> spendable_by (t_sender (ts ! j)) u)"

lemma makes_key: "makes t u \<Longrightarrow> u_txid u = tx_id t \<and> \<not> u_spent u \<and> fst (key_of u) = tx_id t"
  by (auto simp: makes_def new_utxo_def key_of_def)

lemma makes_unique: "makes t u \<Longrightarrow> makes t w \<Longrightarrow> key_of u = key_of w \<Longrightarrow> u = w"
  by (auto simp: makes_def new_utxo_def key_of_def)

lemma all_spent_append [simp]: "all_spent (ts @ [t]) = all_spent ts @ spends t" "all_spent [] = []"
  by (simp_all add: all_spent_def)

lemma well_funded_append:
  "well_funded ts \<Longrightarrow> \<forall>k \<in> set (spends t). \<exists>p \<in> set ts. \<exists>u. makes p u \<and> key_of u = k \<and> spendable_by (t_sender t) u \<Longrightarrow>
   well_funded (ts @ [t])"
  by (auto simp: well_funded_def nth_append less_Suc_eq)

section \<open>The outputs of a transaction on a set\<close>

text \<open>The manager's lookups are those of the store.\<close>

definition looks :: "mem_utxos utxo_manager \<Rightarrow> outpoint \<Rightarrow> utxo option" where
  "looks m k = mem_get (fst k) (snd k) (store m)"

lemma outputs_make:
  assumes "mem_inv (store m)" and "add_outputs memory_store i v ps m = (Inr (), m')"
    and "\<forall>j < length ps. looks m (i, v + int j) = None"
  shows "mem_inv (store m') \<and> (\<forall>j < length ps. \<exists>y. validate_utxo_amount (snd (ps ! j)) = Inr y \<and>
      looks m' (i, v + int j) = Some (new_utxo (fst (ps ! j)) i (v + int j) y (''P2PKH '' @ fst (ps ! j)))) \<and>
    (\<forall>k. (\<forall>j < length ps. k \<noteq> (i, v + int j)) \<longrightarrow> looks m' k = looks m k)"
  using assms
proof (induction ps arbitrary: v m)
  case Nil
  then show ?case by (simp add: ret_def)
next
  case (Cons p ps)
  obtain y where y: "validate_utxo_amount (snd p) = Inr y"
    and rest: "add_outputs memory_store i (v + 1) ps (m\<lparr>store := snd (mem_add (fst p) i v y (''P2PKH '' @ fst p) (store m))\<rparr>) = (Inr (), m')"
    using Cons.prems(2) by (auto simp: and_then_def manager_add_utxo_def memory_store_def split: sum.splits)
  let ?u = "new_utxo (fst p) i v y (''P2PKH '' @ fst p)"
  let ?m = "m\<lparr>store := snd (mem_add (fst p) i v y (''P2PKH '' @ fst p) (store m))\<rparr>"
  have "mem_get i v (store m) = None" using Cons.prems(3) by (force simp: looks_def)
  from mem_add_None [OF Cons.prems(1) this, of "fst p" y "''P2PKH '' @ fst p"]
  have inv: "mem_inv (store ?m)" and get: "looks ?m k = (if k = (i, v) then Some ?u else looks m k)" for k
    by (auto simp: looks_def prod_eq_iff)
  have "looks ?m (i, v + 1 + int j) = None" if "j < length ps" for j
    unfolding get using Cons.prems(3) [rule_format, of "Suc j"] that by (simp add: algebra_simps)
  from Cons.IH [OF inv rest] this
  have IH: "mem_inv (store m')" "\<forall>j < length ps. \<exists>y. validate_utxo_amount (snd (ps ! j)) = Inr y \<and>
      looks m' (i, v + 1 + int j) = Some (new_utxo (fst (ps ! j)) i (v + 1 + int j) y (''P2PKH '' @ fst (ps ! j)))"
    "\<forall>k. (\<forall>j < length ps. k \<noteq> (i, v + 1 + int j)) \<longrightarrow> looks m' k = looks ?m k" by blast+
  have "looks m' (i, v) = looks ?m (i, v)" using IH(3) [rule_format, of "(i, v)"] by simp
  then have head: "looks m' (i, v) = Some ?u" unfolding get by simp
  show ?case
  proof (intro conjI allI impI)
    fix j assume "j < length (p # ps)"
    then show "\<exists>y. validate_utxo_amount (snd ((p # ps) ! j)) = Inr y \<and> looks m' (i, v + int j) =
        Some (new_utxo (fst ((p # ps) ! j)) i (v + int j) y (''P2PKH '' @ fst ((p # ps) ! j)))"
      using y head IH(2) by (cases j) (simp_all add: algebra_simps)
  next
    fix k assume k: "\<forall>j < length (p # ps). k \<noteq> (i, v + int j)"
    then have "\<forall>j < length ps. k \<noteq> (i, v + 1 + int j)" by (auto simp: algebra_simps dest: spec [of _ "Suc _"])
    moreover have "k \<noteq> (i, v)" using k [rule_format, of 0] by simp
    ultimately show "looks m' k = looks m k" using IH(3) get [of k] by metis
  qed (rule IH(1))
qed

section \<open>Replaying a list\<close>

definition replayed :: "transaction list \<Rightarrow> mem_utxos utxo_manager \<Rightarrow> bool" where
  "replayed ts m \<longleftrightarrow> mem_inv (store m) \<and> (\<forall>u. looks m (key_of u) = Some u \<longleftrightarrow> leaves_unspent ts u) \<and>
     (\<forall>k u. looks m k = Some u \<longrightarrow> key_of u = k) \<and> distinct (all_spent ts) \<and> well_funded ts \<and>
     (\<forall>k \<in> set (all_spent ts). \<exists>p \<in> set ts. \<exists>u. makes p u \<and> key_of u = k)"

text \<open>The inputs of a strictly applied transaction are unspent outputs its sender may spend.\<close>

lemma strict_inputs:
  assumes inv: "mem_inv (store m)" and run: "apply_tx_strictly memory_store t m = (Inr (), m')"
  obtains m1 where "\<forall>k \<in> set (spends t). \<exists>u. looks m k = Some u \<and> spendable_by (t_sender t) u" "distinct (spends t)"
    and "mem_inv (store m1)" "\<And>k. looks m1 k = (if k \<in> set (spends t) then None else looks m k)"
    and "process_transaction_outputs memory_store (spending_of t) m1 = (Inr (), m')"
proof (cases "t_sender t = ''COINBASE''")
  case True
  then have "process_transaction_outputs memory_store (spending_of t) m = (Inr (), m')"
    using run by (simp add: apply_tx_strictly_def and_then_def ret_def)
  then show thesis using True inv by (intro that [of m]) (simp_all add: spends_def)
next
  case False
  obtain b m1 where p: "process_transaction_inputs memory_store (spending_of t) m = (Inr b, m1)"
    using run False by (auto simp: apply_tx_strictly_def and_then_def split: prod.splits sum.splits)
  have b: b using run False p by (cases b) (auto simp: apply_tx_strictly_def and_then_def raise_def)
  have d: "distinct (tr_inputs (spending_of t))" using p b False
    by (auto simp: process_transaction_inputs_def spending_of_def split: if_splits)
  let ?good = "spendable_inputs memory_store (t_sender t) (t_inputs t) (store m)"
  have spec: "let good = spendable_inputs memory_store (tr_sender (spending_of t)) (tr_inputs (spending_of t)) (store m) in
    Inr b = Inr (good = tr_inputs (spending_of t)) \<and> mem_inv (store m1) \<and> m1 = m\<lparr>store := store m1\<rparr> \<and>
    mem_get i v (store m1) = (if (i, v) \<in> set good then None else mem_get i v (store m))" for i v
    using inputs_spent [OF inv _ d p] False by (simp add: spending_of_def)
  then have good: "?good = t_inputs t" "mem_inv (store m1)"
    "\<And>i v. mem_get i v (store m1) = (if (i, v) \<in> set ?good then None else mem_get i v (store m))"
    using b by (simp_all add: spending_of_def Let_def)
  have "\<forall>k \<in> set ?good. \<exists>u. looks m k = Some u \<and> spendable_by (t_sender t) u"
    by (auto simp: spendable_inputs_def looks_def memory_store_def dest!: set_takeWhileD split: option.splits)
  moreover have "process_transaction_outputs memory_store (spending_of t) m1 = (Inr (), m')"
    using run False p b by (simp add: apply_tx_strictly_def and_then_def)
  ultimately show thesis using good False d by (intro that [of m1]) (simp_all add: spends_def looks_def spending_of_def)
qed

lemma replayed_tx:
  assumes old: "replayed ts m" and run: "apply_tx_strictly memory_store t m = (Inr (), m')" and id: "tx_id t \<notin> tx_id ` set ts"
  shows "replayed (ts @ [t]) m'"
proof -
  have inv: "mem_inv (store m)" and look: "\<And>u. looks m (key_of u) = Some u \<longleftrightarrow> leaves_unspent ts u"
    and key: "\<And>k u. looks m k = Some u \<Longrightarrow> key_of u = k" and dist: "distinct (all_spent ts)" and fund: "well_funded ts"
    and made: "\<And>k. k \<in> set (all_spent ts) \<Longrightarrow> \<exists>p \<in> set ts. \<exists>u. makes p u \<and> key_of u = k"
    using old by (auto simp: replayed_def)
  obtain m1 where ins: "\<forall>k \<in> set (spends t). \<exists>u. looks m k = Some u \<and> spendable_by (t_sender t) u" "distinct (spends t)"
    and m1: "mem_inv (store m1)" "\<And>k. looks m1 k = (if k \<in> set (spends t) then None else looks m k)"
    and outs: "process_transaction_outputs memory_store (spending_of t) m1 = (Inr (), m')"
    by (rule strict_inputs [OF inv run]) (rule that; assumption)
  have fresh: "looks m1 (tx_id t, v) = None" for v
  proof (cases "looks m1 (tx_id t, v)")
    case (Some u)
    then have u: "looks m (tx_id t, v) = Some u" using m1(2) [of "(tx_id t, v)"] by (simp split: if_splits)
    then have k: "key_of u = (tx_id t, v)" by (rule key)
    then have "leaves_unspent ts u" using u look [of u] by simp
    then obtain p where "p \<in> set ts" "makes p u" by (auto simp: leaves_unspent_def)
    then have "tx_id t \<in> tx_id ` set ts" using makes_key [of p u] k by force
    then show ?thesis using id by simp
  qed simp
  let ?n = "length (t_outputs t)"
  have tr: "tr_txid (spending_of t) = tx_id t" "length (tr_outputs (spending_of t)) = ?n"
    "\<And>j. j < ?n \<Longrightarrow> tr_outputs (spending_of t) ! j = (fst (t_outputs t ! j), FloatAmount (snd (t_outputs t ! j)))"
    by (simp_all add: spending_of_def)
  have run': "add_outputs memory_store (tx_id t) 0 (tr_outputs (spending_of t)) m1 = (Inr (), m')"
    using outs by (simp add: process_transaction_outputs_def tr)
  have "\<forall>j < length (tr_outputs (spending_of t)). looks m1 (tx_id t, 0 + int j) = None" using fresh by simp
  note made_outputs = outputs_make [OF m1(1) run' this]
  have post: "mem_inv (store m')" "\<forall>j < ?n. \<exists>y. validate_utxo_amount (FloatAmount (snd (t_outputs t ! j))) = Inr y \<and>
      looks m' (tx_id t, int j) = Some (new_utxo (fst (t_outputs t ! j)) (tx_id t) (int j) y (''P2PKH '' @ fst (t_outputs t ! j)))"
    using made_outputs by (simp_all add: tr)
  have apart: "looks m' k = looks m1 k" if "\<forall>j < ?n. k \<noteq> (tx_id t, int j)" for k
    using made_outputs [THEN conjunct2, THEN conjunct2, rule_format, of k] that by (simp add: tr)
  have new: "looks m' (key_of u) = Some u" if mk: "makes t u" for u
  proof -
    obtain j y where j: "j < ?n" "validate_utxo_amount (FloatAmount (snd (t_outputs t ! j))) = Inr y"
      "u = new_utxo (fst (t_outputs t ! j)) (tx_id t) (int j) y (''P2PKH '' @ fst (t_outputs t ! j))" using mk unfolding makes_def by blast
    have "looks m' (tx_id t, int j) = Some u" using post(2) [rule_format, OF j(1)] j(2) unfolding j(3) by (elim exE) simp
    moreover have "key_of u = (tx_id t, int j)" by (simp add: j(3) key_of_def new_utxo_def)
    ultimately show ?thesis by simp
  qed
  have other: "looks m' k = (if k \<in> set (spends t) then None else looks m k)" if "fst k \<noteq> tx_id t" for k
  proof -
    have "looks m' k = looks m1 k" by (rule apart) (use that in auto)
    then show ?thesis by (simp add: m1(2))
  qed
  have own: "looks m' k = Some u \<Longrightarrow> makes t u \<and> key_of u = k" if "fst k = tx_id t" for k u
  proof (cases "\<exists>j < ?n. k = (tx_id t, int j)")
    case True
    then obtain j where j: "j < ?n" "k = (tx_id t, int j)" by blast
    obtain y where y: "validate_utxo_amount (FloatAmount (snd (t_outputs t ! j))) = Inr y"
      "looks m' k = Some (new_utxo (fst (t_outputs t ! j)) (tx_id t) (int j) y (''P2PKH '' @ fst (t_outputs t ! j)))"
      using post(2) [rule_format, OF j(1)] unfolding j(2) by blast
    assume "looks m' k = Some u"
    then have u: "u = new_utxo (fst (t_outputs t ! j)) (tx_id t) (int j) y (''P2PKH '' @ fst (t_outputs t ! j))" using y(2) by simp
    have "makes t u" unfolding makes_def using j(1) y(1) u by blast
    moreover have "key_of u = k" by (simp add: u j(2) key_of_def new_utxo_def)
    ultimately show "makes t u \<and> key_of u = k" by (rule conjI)
  next
    case False
    then have "looks m' k = looks m1 k" by (intro apart) blast
    then show "looks m' k = Some u \<Longrightarrow> makes t u \<and> key_of u = k" using fresh [of "snd k"] that by (cases k) simp
  qed
  have spent_made: "\<exists>p \<in> set ts. \<exists>u. makes p u \<and> key_of u = k \<and> spendable_by (t_sender t) u \<and> k \<notin> set (all_spent ts)" if sp: "k \<in> set (spends t)" for k
  proof -
    obtain u where u: "looks m k = Some u" "spendable_by (t_sender t) u" using ins(1) sp by blast
    have k: "key_of u = k" by (rule key [OF u(1)])
    then have "leaves_unspent ts u" using look [of u] u(1) by simp
    then show ?thesis using u(2) k by (auto simp: leaves_unspent_def)
  qed
  have spent_id: "fst k \<noteq> tx_id t" if sp: "k \<in> set (all_spent ts) \<or> k \<in> set (spends t)" for k
  proof -
    obtain p u where p: "p \<in> set ts" "makes p u" "key_of u = k" using made [of k] spent_made [of k] sp by blast
    then have "fst k = tx_id p" using makes_key [of p u] by simp
    then show ?thesis using id p(1) by force
  qed
  have "looks m' (key_of u) = Some u \<longleftrightarrow> leaves_unspent (ts @ [t]) u" for u
  proof (cases "fst (key_of u) = tx_id t")
    case True
    have "\<not> (\<exists>p \<in> set ts. makes p u)" 
    proof
      assume "\<exists>p \<in> set ts. makes p u"
      then obtain p where "p \<in> set ts" "tx_id t = tx_id p" using makes_key True by metis
      then show False using id by blast
    qed
    moreover have "key_of u \<notin> set (all_spent ts)" "key_of u \<notin> set (spends t)" using spent_id True by blast+
    ultimately have "leaves_unspent (ts @ [t]) u \<longleftrightarrow> makes t u" by (auto simp: leaves_unspent_def)
    then show ?thesis using own [OF True] new by blast
  next
    case False
    then have "\<not> makes t u" using makes_key by metis
    then have "leaves_unspent (ts @ [t]) u \<longleftrightarrow> leaves_unspent ts u \<and> key_of u \<notin> set (spends t)" by (auto simp: leaves_unspent_def)
    then show ?thesis using other [OF False] look [of u] by simp
  qed
  moreover have "key_of u = k" if "looks m' k = Some u" for k u
  proof (cases "fst k = tx_id t")
    case True
    then show ?thesis using own that by blast
  next
    case False
    then have "looks m k = Some u" using other [OF False] that by (simp split: if_splits)
    then show ?thesis by (rule key)
  qed
  moreover have "distinct (all_spent (ts @ [t]))" using dist ins(2) spent_made by (simp add: disjoint_iff) blast
  moreover have "well_funded (ts @ [t])" using spent_made by (intro well_funded_append [OF fund]) blast
  moreover have "\<exists>p \<in> set (ts @ [t]). \<exists>u. makes p u \<and> key_of u = k" if "k \<in> set (all_spent (ts @ [t]))" for k
    using that made [of k] spent_made [of k] by (simp del: ex_simps) blast
  ultimately show ?thesis unfolding replayed_def using post(1) by (intro conjI allI ballI impI) simp_all
qed

lemma replay_list:
  assumes "replayed past m" and "for_each (apply_tx_strictly memory_store) ts m = (Inr (), m')" and "distinct (map tx_id (past @ ts))"
  shows "replayed (past @ ts) m'"
  using assms
proof (induction ts arbitrary: past m)
  case Nil
  then show ?case by (simp add: ret_def)
next
  case (Cons t ts)
  obtain m1 where m1: "apply_tx_strictly memory_store t m = (Inr (), m1)" "for_each (apply_tx_strictly memory_store) ts m1 = (Inr (), m')"
    using Cons.prems(2) by (auto simp: and_then_def split: prod.splits sum.splits)
  have "replayed (past @ [t]) m1" by (rule replayed_tx [OF Cons.prems(1) m1(1)]) (use Cons.prems(3) in auto)
  from Cons.IH [OF this m1(2)] Cons.prems(3) show ?case by simp
qed

text \<open>From a cleared set.\<close>

lemma replay_from_empty:
  assumes "for_each (apply_tx_strictly memory_store) ts (manager_clear memory_store m) = (Inr (), m')" and "distinct (map tx_id ts)"
  shows "replayed ts m'"
proof -
  have "replayed [] (manager_clear memory_store m)"
    using mem.inv_clear [of "store m"] mem.get_clear [of _ _ "store m"]
    by (simp add: replayed_def manager_clear_def looks_def leaves_unspent_def well_funded_def memory_store_def)
  from replay_list [OF this assms(1)] assms(2) show ?thesis by simp
qed

lemma replayed_get: "replayed ts m \<Longrightarrow> mem_get i v (store m) = Some u \<longleftrightarrow> leaves_unspent ts u \<and> key_of u = (i, v)"
  unfolding replayed_def looks_def by (metis fst_conv snd_conv)

end
