(* ===== verification/ChainReorg.thy ===== *)
theory ChainReorg
  imports ChainSafety Replay
begin

text \<open>
  What \<open>replace_chain\<close> demands of a chain before it takes it, what it makes of the unspent outputs,
  the nonces and the pending transactions when it does, and what is left when it does not.
\<close>

section \<open>Methods that touch the judge only\<close>

definition judging :: "(('s, 'p, 'w) node, 'a) meth \<Rightarrow> bool" where
  "judging m \<longleftrightarrow> (\<forall>n r n'. m n = (r, n') \<longrightarrow> (\<exists>j. n' = n\<lparr>nd_judge := j\<rparr>))"

named_theorems judges "methods that touch the judge only"

lemma judgingD: "judging m \<Longrightarrow> m n = (r, n') \<Longrightarrow> \<exists>j. n' = n\<lparr>nd_judge := j\<rparr>"
  by (simp add: judging_def)

lemma same_judge: "\<exists>j. n = n\<lparr>nd_judge := j\<rparr>" for n :: "('s, 'p, 'w) node"
  by (rule exI [of _ "nd_judge n"]) simp

lemma judging_ret [judges]: "judging (ret a)"
  using same_judge by (auto simp: judging_def ret_def)

lemma judging_raise [judges]: "judging (raise e)"
  using same_judge by (auto simp: judging_def raise_def)

lemma judging_zoom [judges]: "judging (on_judge m)"
  by (auto simp: judging_def zoom_def split: prod.splits)

lemma judging_then [judges]: "judging m \<Longrightarrow> (\<And>a. judging (k a)) \<Longrightarrow> judging (and_then m k)"
  unfolding judging_def and_then_def by (fastforce split: prod.splits sum.splits)

lemma judging_if [judges]: "(b \<Longrightarrow> judging m) \<Longrightarrow> (\<not> b \<Longrightarrow> judging k) \<Longrightarrow> judging (if b then m else k)"
  by simp

lemma judging_both [judges]: "judging m \<Longrightarrow> judging k \<Longrightarrow> judging (both m k)"
  unfolding both_def by (intro judges)

lemma judging_read: "(\<And>t. judging (m t)) \<Longrightarrow> (\<And>n. x n = m n n) \<Longrightarrow> judging x"
  by (simp add: judging_def)

lemma judging_accept [judges]: "judging (accept_candidate R new)"
proof -
  have "judging (prefer_new new)" by (rule judging_read [OF _ prefer_new_def]) (intro judges)
  then show ?thesis by (intro judging_read [OF _ accept_candidate_def] judges)
qed

section \<open>When the chain is replaced\<close>

text \<open>The work of both chains as the node reckons it, its cache included, the present chain first.\<close>

definition works :: "full_block list \<Rightarrow> ('s, 'p, 'w) node \<Rightarrow> int \<times> int" where
  "works new n = (case calculate_chain_work (map fb_header (nd_chain n)) (nd_judge n) of
     (w, s) \<Rightarrow> (w, fst (calculate_chain_work (map fb_header new) s)))"

definition beats :: "full_block list \<Rightarrow> ('s, 'p, 'w) node \<Rightarrow> bool" where
  "beats new n \<longleftrightarrow> fst (works new n) < snd (works new n) \<or> fst (works new n) = snd (works new n) \<and>
     (nd_tx_count n < tx_total new \<or> nd_tx_count n = tx_total new \<and>
        float_less (block_time (last new)) (block_time (last (nd_chain n))))"

lemma prefer_new_True: "prefer_new new n = (Inr True, t) \<Longrightarrow> beats new n"
  by (auto simp: prefer_new_def beats_def works_def zoom_def work_of_chain_def and_then_def ret_def raise_def
      split: prod.splits if_splits)

lemma accept_True:
  assumes "accept_candidate R new n = (Inr True, t)"
  shows "length (nd_chain n) \<le> length new" and "length new = length (nd_chain n) \<Longrightarrow> beats new n"
    and "\<exists>s s'. validate_chain_structure R new s = (Inr True, s')"
  using assms accept_valid [OF assms] prefer_new_True [of new n]
  by (auto simp: accept_candidate_def both_True ret_def split: if_splits)

lemma replace_True:
  assumes "replace_chain ops R H xs n = (Inr True, n')"
  obtains new t where "materialize H (nd_world n) xs = Some new" and "reorg_allowed (if xs = [] then None else Some (find_fork_point (nd_chain n) xs)) n"
    and "accept_candidate R new n = (Inr True, t)"
    and "perform_reorg ops R H (if xs = [] then None else Some (find_fork_point (nd_chain n) xs)) new t = (Inr (), n')"
proof -
  define fork where "fork = (if xs = [] then None else Some (find_fork_point (nd_chain n) xs))"
  have no: "roll_back ops H old m \<noteq> (Inr True, m')" for old m m' :: "('a, 'b, 'c) node"
    by (auto simp: roll_back_def and_then_def ret_def split: prod.splits sum.splits)
  obtain new where new: "materialize H (nd_world n) xs = Some new" "reorg_allowed fork n"
    and run: "both (accept_candidate R new) (commit_chain ops R H fork new) n = (Inr True, n')"
    using assms by (auto simp: replace_chain_def Let_def fork_def split: if_splits option.splits)
  obtain t where "accept_candidate R new n = (Inr True, t)" "commit_chain ops R H fork new t = (Inr True, n')"
    using run by (auto simp: both_True)
  then show thesis
    using that [OF new(1)] new(2) no by (auto simp: fork_def commit_chain_def split: prod.splits sum.splits if_splits)
qed

section \<open>What a reorganisation makes\<close>

lemma and_then_Inr_iff: "and_then m k n = (Inr a, n') \<longleftrightarrow> (\<exists>b t. m n = (Inr b, t) \<and> k b t = (Inr a, n'))"
  by (auto simp: and_then_def split: prod.splits sum.splits)

lemma zoom_Inr_iff: "zoom get upd m n = (Inr a, t) \<longleftrightarrow> (\<exists>c. m (get n) = (Inr a, c) \<and> t = upd (\<lambda>_. c) n)"
  by (auto simp: zoom_def split: prod.splits)

lemma modify_Inr_iff: "modify f n = (Inr a, t) \<longleftrightarrow> t = f n"
  by (auto simp: modify_def)

lemma for_each_on_utxos: "for_each (\<lambda>x. on_utxos (m x)) xs = (on_utxos (for_each m xs) :: (('s, 'p, 'w) node, unit) meth)"
proof (induction xs)
  case Nil
  show ?case by (simp add: fun_eq_iff ret_def zoom_def)
next
  case (Cons x xs)
  then show ?case by (auto simp: fun_eq_iff and_then_def zoom_def split: prod.splits sum.splits)
qed

lemma saves_frame:
  "for_each (\<lambda>x. on_world (m x)) xs n = (Inr a, n') \<Longrightarrow> \<exists>w. n' = n\<lparr>nd_world := w\<rparr>" for n :: "('s, 'p, 'w) node"
proof (induction xs arbitrary: n)
  case Nil
  then show ?case by (auto simp: ret_def intro: exI [of _ "nd_world n"])
next
  case (Cons x xs)
  then obtain w where "for_each (\<lambda>x. on_world (m x)) xs (n\<lparr>nd_world := w\<rparr>) = (Inr a, n')"
    by (auto simp: and_then_Inr_iff zoom_Inr_iff)
  then show ?case using Cons.IH by fastforce
qed

text \<open>A pending transaction that validates against the outputs and nonces of a node.\<close>

definition still_valid :: "'s store_ops \<Rightarrow> rules \<Rightarrow> ('s, 'p, 'w) node \<Rightarrow> transaction list \<Rightarrow> transaction \<Rightarrow> bool" where
  "still_valid ops R n ts t' \<longleftrightarrow> (\<exists>t \<in> set ts. \<exists>now now'. \<exists>M :: ('s, 'p) mempool. validate_transaction ops (ru_env R) now now' True M t = (True, t') \<and>
     mp_utxos M = mp_utxos (nd_pool n) \<and> mp_tracker M = mp_tracker (nd_pool n))"

lemma revalidate_result:
  assumes "revalidate ops R seen valid ts n = (Inr vs, n')"
  shows "(\<exists>j. n' = n\<lparr>nd_judge := j\<rparr>) \<and> (\<exists>us. vs = valid @ us \<and> (\<forall>t' \<in> set us. still_valid ops R n ts t'))"
  using assms
proof (induction ts arbitrary: seen valid n)
  case Nil
  then show ?case using same_judge by (auto simp: ret_def)
next
  case (Cons t ts)
  obtain now now' j where run: "(case validate_transaction ops (ru_env R) now now' True ((nd_pool n)\<lparr>mp_pending := seen @ t # ts\<rparr>) t of
      (ok, t') \<Rightarrow> revalidate ops R (seen @ [t']) (if ok then valid @ [t'] else valid) ts (n\<lparr>nd_judge := j\<rparr>)) = (Inr vs, n')"
    using Cons.prems by (auto simp: and_then_Inr_iff zoom_Inr_iff)
  obtain ok t' where v: "validate_transaction ops (ru_env R) now now' True ((nd_pool n)\<lparr>mp_pending := seen @ t # ts\<rparr>) t = (ok, t')"
    by fastforce
  have later: "still_valid ops R n (t # ts) x" if "still_valid ops R (n\<lparr>nd_judge := j\<rparr>) ts x" for x
    using that by (auto simp: still_valid_def)
  have now: "still_valid ops R n (t # ts) t'" if ok using v that by (auto simp: still_valid_def intro!: exI)
  from Cons.IH [of "seen @ [t']" "if ok then valid @ [t'] else valid" "n\<lparr>nd_judge := j\<rparr>"] run v
  obtain i us where "n' = n\<lparr>nd_judge := i\<rparr>" "vs = (if ok then valid @ [t'] else valid) @ us"
    "\<forall>x \<in> set us. still_valid ops R (n\<lparr>nd_judge := j\<rparr>) ts x" by auto
  then show ?case using now later by (cases ok) auto
qed

text \<open>The steps of the rebuilding, for the proofs.\<close>

definition ledger_of :: "'s store_ops \<Rightarrow> full_block list \<Rightarrow> ('s, 'p) mempool \<Rightarrow> ('s, 'p) mempool \<Rightarrow> bool" where
  "ledger_of ops c M M' \<longleftrightarrow>
     for_each (apply_tx_strictly ops) (block_txs c) (manager_clear ops (mp_utxos M)) = (Inr (), mp_utxos M') \<and>
     rebuild_nonce_tracker c (mp_tracker M) = (Inr (), mp_tracker M')"

lemma reorg_result:
  assumes "perform_reorg ops R H fork new n = (Inr (), n')"
  shows "nd_chain n' = new" and "nd_tx_count n' = tx_total new" and "ledger_of ops new (nd_pool n) (nd_pool n')"
    and "\<forall>t \<in> set (mp_pending (nd_pool n')). still_valid ops R n' (mp_pending (nd_pool n)) t"
proof -
  let ?k = "\<lambda>u tr w2. n\<lparr>nd_chain := new, nd_tx_count := tx_total new, nd_pool := (nd_pool n)\<lparr>mp_utxos := u, mp_tracker := tr\<rparr>, nd_world := w2\<rparr>"
  have "\<exists>u tr w2 m l. for_each (apply_tx_strictly ops) (block_txs new) (manager_clear ops (mp_utxos (nd_pool n))) = (Inr (), u) \<and>
      rebuild_nonce_tracker new (mp_tracker (nd_pool n)) = (Inr (), tr) \<and> revalidate_pool ops R (?k u tr w2) = (Inr (), m) \<and>
      for_each (\<lambda>b. on_world (hk_save_block H b)) new m = (Inr (), l) \<and> save_state H l = (Inr (), n')"
    using assms unfolding perform_reorg_def seq.simps for_each_on_utxos
    by (clarsimp simp: and_then_Inr_iff zoom_Inr_iff modify_Inr_iff ret_def) blast
  then obtain u tr w2 m l where u: "for_each (apply_tx_strictly ops) (block_txs new) (manager_clear ops (mp_utxos (nd_pool n))) = (Inr (), u)"
    and tr: "rebuild_nonce_tracker new (mp_tracker (nd_pool n)) = (Inr (), tr)" and m: "revalidate_pool ops R (?k u tr w2) = (Inr (), m)"
    and l: "for_each (\<lambda>b. on_world (hk_save_block H b)) new m = (Inr (), l)" "save_state H l = (Inr (), n')" by blast
  obtain w where n': "n' = m\<lparr>nd_world := w\<rparr>"
    using saves_frame [OF l(1)] l(2) by (auto simp: save_state_def zoom_Inr_iff)
  obtain vs j where "m = set_pending vs ((?k u tr w2)\<lparr>nd_judge := j\<rparr>)" and vs: "\<forall>t \<in> set vs. still_valid ops R (?k u tr w2) (mp_pending (nd_pool n)) t"
    using m by (auto simp: revalidate_pool_def and_then_Inr_iff modify_Inr_iff dest!: revalidate_result)
  then have "n' = (set_pending vs ((?k u tr w2)\<lparr>nd_judge := j\<rparr>))\<lparr>nd_world := w\<rparr>" using n' by simp
  then show "nd_chain n' = new" "nd_tx_count n' = tx_total new" "ledger_of ops new (nd_pool n) (nd_pool n')"
    "\<forall>t \<in> set (mp_pending (nd_pool n')). still_valid ops R n' (mp_pending (nd_pool n)) t"
    using u tr vs by (simp_all add: ledger_of_def set_pending_def still_valid_def)
qed

text \<open>
  C3: A chain that replaces the present one was read in full, is not shorter, has a valid structure and
  forks from it no lower than checkpoint, depth and finality allow; if it is just as long it has more
  work, or as much work and more transactions, or as much of both and an earlier last block.
\<close>

theorem replacement_justified:
  assumes "replace_chain ops R H xs n = (Inr True, n')"
  shows "materialize H (nd_world n) xs = Some (nd_chain n') \<and> (\<exists>s s'. validate_chain_structure R (nd_chain n') s = (Inr True, s')) \<and>
    reorg_allowed (Some (find_fork_point (nd_chain n) xs)) n \<and> length (nd_chain n) \<le> length (nd_chain n') \<and>
    (length (nd_chain n') = length (nd_chain n) \<longrightarrow> beats (nd_chain n') n)"
proof -
  obtain new t where new: "materialize H (nd_world n) xs = Some new"
    "reorg_allowed (if xs = [] then None else Some (find_fork_point (nd_chain n) xs)) n" "accept_candidate R new n = (Inr True, t)"
    and run: "perform_reorg ops R H (if xs = [] then None else Some (find_fork_point (nd_chain n) xs)) new t = (Inr (), n')"
    using assms by (rule replace_True)
  have c: "nd_chain n' = new" using reorg_result(1) [OF run] .
  obtain s s' where v: "validate_chain_structure R new s = (Inr True, s')" using accept_True(3) [OF new(3)] by blast
  then have "new \<noteq> []" using structure_facts(1) by blast
  then have "xs \<noteq> []" using new(1) by auto
  then show ?thesis using new v accept_True(1,2) [OF new(3)] by (auto simp: c)
qed

lemma count_of_txs: "tx_total c = int (length (block_txs c))"
  by (induction c) (simp_all add: tx_total_def block_txs_def)

text \<open>
  C4: After a reorganisation the unspent outputs are those the transactions of the new chain make and none of
  them spends; every input was made by an earlier transaction, for its sender or for nobody, and no output is spent twice; the
  count of transactions is that of the chain, and every transaction left in the pool is one that was there and is valid
  against the outputs and the nonces the node now records. No two transactions of the chain share an id. (The
  nonces themselves are rebuilt one too high, see \<open>rebuilt_nonce_skips\<close>.)
\<close>

theorem reorganisation_rebuilds:
  assumes "replace_chain memory_store R H xs n = (Inr True, n')" and "distinct (map tx_id (block_txs (nd_chain n')))"
  shows "(mem_get i v (store (mp_utxos (nd_pool n'))) = Some u \<longleftrightarrow> leaves_unspent (block_txs (nd_chain n')) u \<and> key_of u = (i, v)) \<and>
    well_funded (block_txs (nd_chain n')) \<and> distinct (all_spent (block_txs (nd_chain n'))) \<and>
    nd_tx_count n' = int (length (block_txs (nd_chain n'))) \<and>
    (\<forall>t \<in> set (mp_pending (nd_pool n')). still_valid memory_store R n' (mp_pending (nd_pool n)) t)"
proof -
  obtain new t where t: "accept_candidate R new n = (Inr True, t)"
    and run: "perform_reorg memory_store R H (if xs = [] then None else Some (find_fork_point (nd_chain n) xs)) new t = (Inr (), n')"
    using assms(1) by (rule replace_True)
  have pool: "nd_pool t = nd_pool n" using judgingD [OF judging_accept t] by auto
  note result = reorg_result [OF run]
  have "replayed (block_txs new) (mp_utxos (nd_pool n'))"
    using result(3) assms(2) by (intro replay_from_empty [of _ "mp_utxos (nd_pool t)"]) (simp_all add: ledger_of_def result(1))
  then have "mem_get i v (store (mp_utxos (nd_pool n'))) = Some u \<longleftrightarrow> leaves_unspent (block_txs new) u \<and> key_of u = (i, v)"
    and "well_funded (block_txs new)" "distinct (all_spent (block_txs new))"
    using replayed_get by (auto simp: replayed_def)
  then show ?thesis using result pool by (simp add: count_of_txs)
qed

section \<open>When the chain is not replaced\<close>

lemma reorg_keeps_finality:
  assumes run: "perform_reorg ops R H fork new n = (r, n')"
  shows "nd_finality n' = nd_finality n"
proof -
  have aside: "steady (\<lambda>k. nd_finality k = f) (\<lambda>_. True) m (\<lambda>k. nd_finality k = f)" if "aside m" for m :: "(('a, 'b, 'c) node, unit) meth" and f
    using that by (auto simp: steady_def same_ledger_def dest!: asideD)
  have "steady (\<lambda>k. nd_finality k = nd_finality n) (\<lambda>_. True) (perform_reorg ops R H fork new) (\<lambda>k. nd_finality k = nd_finality n)"
    unfolding perform_reorg_def by (rule steady_seq) (simp add: aside leaves, auto simp: steady_def modify_def)
  from steadyD [OF this _ _ run] show ?thesis by simp
qed

lemma nonce_restore_frame:
  assumes "nonce_restore sn s = (r, t)"
  shows "r = Inr () \<and> nonces t = fst sn \<and> pending_nonces t = snd sn"
  using assms save_frame(1-3) [of True "s\<lparr>nonces := fst sn, pending_nonces := snd sn\<rparr>"] by (simp add: nonce_restore_def)

text \<open>What the restoring half of a reorganisation leaves, when it comes to its end.\<close>

lemma roll_back_result:
  assumes "roll_back ops H old m = (Inr a, n')" and "nd_finality m = nd_finality old"
  shows "nd_chain n' = nd_chain old \<and> nd_finality n' = nd_finality old \<and> mp_pending (nd_pool n') = mp_pending (nd_pool old) \<and>
    nonces (mp_tracker (nd_pool n')) = nonces (mp_tracker (nd_pool old)) \<and>
    pending_nonces (mp_tracker (nd_pool n')) = pending_nonces (mp_tracker (nd_pool old)) \<and>
    mp_utxos (nd_pool n') = manager_restore ops (manager_snapshot ops (mp_utxos (nd_pool old))) (mp_utxos (nd_pool m))"
proof -
  have none: "k' = k" if "restore_finality old k = (Inr (), k')" for k k' :: "('a, 'b, 'c) node"
    using that restore_loses_certificates
    by (auto simp: restore_finality_def split: option.splits prod.splits) (metis fst_conv insertE sum.distinct(1) singletonD)
  let ?u = "manager_restore ops (manager_snapshot ops (mp_utxos (nd_pool old))) (mp_utxos (nd_pool m))"
  have "\<exists>tr. nonce_restore (nonce_snapshot (mp_tracker (nd_pool old))) (mp_tracker (nd_pool m)) = (Inr (), tr) \<and>
     n' = set_pending (mp_pending (nd_pool old)) (m\<lparr>nd_chain := nd_chain old, nd_pool := (nd_pool m)\<lparr>mp_utxos := ?u, mp_tracker := tr\<rparr>,
        nd_world := hk_rollback H (nd_world old) (nd_world m)\<rparr>)"
    using assms(1) unfolding roll_back_def restore_ledger_def seq.simps
    by (clarsimp simp: and_then_Inr_iff zoom_Inr_iff modify_Inr_iff ret_def dest!: none)
  then obtain tr where tr: "nonce_restore (nonce_snapshot (mp_tracker (nd_pool old))) (mp_tracker (nd_pool m)) = (Inr (), tr)"
    and n': "n' = set_pending (mp_pending (nd_pool old)) (m\<lparr>nd_chain := nd_chain old, nd_pool := (nd_pool m)\<lparr>mp_utxos := ?u, mp_tracker := tr\<rparr>,
        nd_world := hk_rollback H (nd_world old) (nd_world m)\<rparr>)" by blast
  show ?thesis using nonce_restore_frame [OF tr] assms(2) by (simp add: n' set_pending_def nonce_snapshot_def)
qed

text \<open>
  C5: If \<open>replace_chain\<close> answers no, for whatever reason and however far it had come, the chain, finality,
  the pending transactions, the nonces and every unspent output are what they were. (It may raise instead.)
\<close>

theorem refusal_restores:
  assumes "replace_chain memory_store R H xs n = (Inr False, n')" and "mem_inv (store (mp_utxos (nd_pool n)))"
  shows "nd_chain n' = nd_chain n \<and> nd_finality n' = nd_finality n \<and> mp_pending (nd_pool n') = mp_pending (nd_pool n) \<and>
    nonces (mp_tracker (nd_pool n')) = nonces (mp_tracker (nd_pool n)) \<and>
    pending_nonces (mp_tracker (nd_pool n')) = pending_nonces (mp_tracker (nd_pool n)) \<and>
    mem_get i v (store (mp_utxos (nd_pool n'))) = mem_get i v (store (mp_utxos (nd_pool n)))"
proof (cases "\<exists>j. n' = n\<lparr>nd_judge := j\<rparr>")
  case True
  then show ?thesis by auto
next
  case False
  then have "n' \<noteq> n" using same_judge by metis
  then obtain new fork where run: "both (accept_candidate R new) (commit_chain memory_store R H fork new) n = (Inr False, n')"
    using assms(1) by (auto simp: replace_chain_def Let_def split: if_splits option.splits)
  obtain q t where q: "accept_candidate R new n = (q, t)" by fastforce
  then obtain j where t: "t = n\<lparr>nd_judge := j\<rparr>" using judgingD [OF judging_accept] by blast
  then have "n' \<noteq> t" using False by blast
  then have "commit_chain memory_store R H fork new t = (Inr False, n')"
    using run q by (auto simp: both_def and_then_def ret_def split: sum.splits if_splits)
  then obtain e m where m: "perform_reorg memory_store R H fork new t = (Inl e, m)" "roll_back memory_store H t m = (Inr False, n')"
    by (auto simp: commit_chain_def split: prod.splits sum.splits if_splits)
  from roll_back_result [OF m(2) reorg_keeps_finality [OF m(1)]] snapshot_restores [of "mp_utxos (nd_pool t)" "mp_utxos (nd_pool m)" i v] assms(2)
  show ?thesis by (simp add: t Let_def)
qed

text \<open>
  \<open>get_block_by_hash\<close> finds a block of the chain if the chain has one of that hash, up to case and the
  prefix \<open>0x\<close>, and only then, however stale the index it remembers is.
\<close>

lemma lookup_by_hash:
  "(case fst (get_block_by_hash h n) of
      Some b \<Rightarrow> b \<in> set (nd_chain n) \<and> normalize_hash (hd_hash (fb_header b)) = normalize_hash h
    | None \<Rightarrow> normalize_hash h = [] \<or> (\<forall>b \<in> set (nd_chain n). normalize_hash (hd_hash (fb_header b)) \<noteq> normalize_hash h)) \<and>
   nd_chain (snd (get_block_by_hash h n)) = nd_chain n"
proof -
  let ?k = "normalize_hash h" and ?c = "nd_chain n"
  let ?named = "\<lambda>b. normalize_hash (hd_hash (fb_header b)) = ?k"
  define found where "found = (case map_of (nd_hash_index n) ?k of
      Some i \<Rightarrow> if 0 \<le> i \<and> i < int (length ?c) \<and> ?named (?c ! nat i) then Some (nat i) else None | None \<Rightarrow> None)"
  define scan where "scan = find (\<lambda>i. ?named (?c ! i)) [0..<length ?c]"
  have run: "get_block_by_hash h n = (if h = [] \<or> ?k = [] then (None, n) else case found of Some i \<Rightarrow> (Some (?c ! i), n)
      | None \<Rightarrow> (case scan of None \<Rightarrow> (None, n)
        | Some i \<Rightarrow> (Some (?c ! i), n\<lparr>nd_hash_index := AList.update ?k (int i) (nd_hash_index n)\<rparr>)))"
    by (simp only: get_block_by_hash_def Let_def found_def scan_def)
  have found: "i < length ?c \<and> ?named (?c ! i)" if "found = Some i" for i
    using that by (auto simp: found_def split: option.splits if_splits)
  have blank: "?k = []" if "h = []" using that by (simp add: normalize_hash_def to_lower_def starts_with_def)
  show ?thesis
  proof (cases "h = [] \<or> ?k = []")
    case True
    then show ?thesis using blank by (auto simp: run)
  next
    case False
    then show ?thesis
    proof (cases found)
      case (Some i)
      then show ?thesis using False found [OF Some] by (simp add: run)
    next
      case None
      note unknown = None
      show ?thesis
      proof (cases scan)
        case None
        then have "\<forall>b \<in> set ?c. \<not> ?named b" by (auto simp: scan_def find_None_iff in_set_conv_nth)
        then show ?thesis using False unknown None by (simp add: run)
      next
        case (Some i)
        then have "i < length ?c \<and> ?named (?c ! i)" by (auto simp: scan_def find_Some_iff)
        then show ?thesis using False unknown Some by (simp add: run)
      qed
    qed
  qed
qed

section \<open>The sample node reorganises\<close>

text \<open>No rule of the structure of a chain looks at the transactions of a block but the one on its size.\<close>

lemma structure_ignores_transactions:
  "block_within_size_limits R (b\<lparr>fb_txs := ts\<rparr>) = block_within_size_limits R b \<Longrightarrow>
   validate_next_block R history (b\<lparr>fb_txs := ts\<rparr>) = validate_next_block R history b"
  by (rule ext) (simp add: validate_next_block_def Let_def)

lemma materialize_all [simp]: "materialize H w (map ABlock bs) = Some bs"
  by (induction bs) simp_all

text \<open>The two blocks of the sample, the second with a coinbase that pays five coins.\<close>

definition sample_coinbase :: transaction where
  "sample_coinbase = sample_payment\<lparr>t_sender := ''COINBASE'', t_type := ''coinbase'', t_inputs := [], t_nonce := None,
     t_txid := Some ''cc'', t_cached_size := Some 300\<rparr>"

definition paid_chain :: "full_block list" where
  "paid_chain = [hd sample_chain, (last sample_chain)\<lparr>fb_txs := [sample_coinbase]\<rparr>]"

lemma five_coins: "validate_utxo_amount (FloatAmount (Fin 5)) = Inr (Fin 5)"
  by code_simp

lemma sample_header_size:
  "length (canonical_json sample_float_text (header_dict (fb_header (sample_block sample_sha 1 (take 63 zeros64 @ ''a'') 2000)))) \<le> 1000"
proof -
  have len: "length (canonical_json sample_float_text (header_dict (fb_header (sample_block S 1 (take 63 zeros64 @ ''a'') 2000)\<lparr>hd_hash := take 63 zeros64 @ ''b''\<rparr>))) \<le> 1000" for S
    unfolding sample_block_def rehash_def full_block.simps header.simps by code_simp
  have "fb_header (sample_block S i p t)\<lparr>hd_hash := hd_hash (fb_header (sample_block S i p t))\<rparr> = fb_header (sample_block S i p t)" for S i p t
    by simp
  then show ?thesis using sample_hashes len by metis
qed

lemma paid_chain_valid: "\<exists>s. validate_chain_structure sample_rules paid_chain sample_judge = (Inr True, s)"
proof -
  obtain g b where c: "sample_chain = [g, b]" by (simp add: sample_chain_def)
  obtain s where s: "validate_chain_structure sample_rules [g, b] sample_judge = (Inr True, s)" using sample_valid c by auto
  have b: "b = sample_block sample_sha 1 (take 63 zeros64 @ ''a'') 2000" using c by (simp add: sample_chain_def)
  have "length (fb_txs b) = 0" "fb_miner b = None" "hd_miner_pubkey (fb_header b) = None"
    unfolding b by (simp_all add: sample_block_def rehash_def)
  moreover have "length (canonical_json sample_float_text (header_dict (fb_header b))) \<le> 1000"
    unfolding b by (rule sample_header_size)
  moreover have len: "length (utf8 alice_address) \<le> 100" "length (utf8 []) = 0" by code_simp+
  ultimately have size: "block_within_size_limits sample_rules (b\<lparr>fb_txs := [sample_coinbase]\<rparr>)"
    "block_within_size_limits sample_rules b"
    using len by (simp_all add: block_within_size_limits_def estimate_size_bytes_def MAX_BLOCK_SIZE_def MAX_TRANSACTIONS_PER_BLOCK_def
        sample_rules_def miner_of_def text_of_def Let_def tx_size_def sample_coinbase_def sample_payment_def)
  then have "validate_next_block sample_rules [g] (b\<lparr>fb_txs := [sample_coinbase]\<rparr>) = validate_next_block sample_rules [g] b"
    by (intro structure_ignores_transactions) simp
  then have "validate_chain_structure sample_rules [g, b\<lparr>fb_txs := [sample_coinbase]\<rparr>] = validate_chain_structure sample_rules [g, b]"
    by (simp add: validate_chain_structure_def both_def)
  then show ?thesis using s by (simp add: paid_chain_def c)
qed

text \<open>A chain longer than that of a node without pending transactions or orphans.\<close>

lemma sample_accepts:
  "\<exists>j. replace_chain memory_store sample_rules H (map ABlock paid_chain) sample_node =
     commit_chain memory_store sample_rules H (Some 0) paid_chain (sample_node\<lparr>nd_judge := j\<rparr>)"
proof -
  obtain g b where c: "sample_chain = [g, b]" by (simp add: sample_chain_def)
  obtain j where j: "validate_chain_structure sample_rules paid_chain sample_judge = (Inr True, j)" using paid_chain_valid by blast
  have "find_fork_point (nd_chain sample_node) (map ABlock paid_chain) = 0"
    by (simp add: find_fork_point_def sample_node_def paid_chain_def c item_header_def)
  moreover have "reorg_allowed (Some 0) sample_node" by (simp add: reorg_allowed_def sample_node_def)
  moreover have "accept_candidate sample_rules paid_chain sample_node = (Inr True, sample_node\<lparr>nd_judge := j\<rparr>)"
    using j by (simp add: accept_candidate_def sample_node_def paid_chain_def c both_def zoom_def)
  moreover have "paid_chain \<noteq> []" by (simp add: paid_chain_def)
  ultimately show ?thesis by (intro exI [of _ j]) (simp add: replace_chain_def both_def and_then_def)
qed

lemma zoom_ret [simp]: "on_world (ret ()) = ret ()"
  by (simp add: fun_eq_iff zoom_def ret_def)

lemma for_each_ret [simp]: "for_each (\<lambda>x. ret ()) xs = ret ()"
  by (induction xs) simp_all

lemma paid_txs: "block_txs paid_chain = [sample_coinbase]" "tx_total paid_chain = 1"
  by (simp_all add: block_txs_def paid_chain_def sample_chain_def sample_block_def tx_total_def)

text \<open>What replaying it does to outputs and nonces.\<close>

lemma paid_outputs: "\<exists>u. apply_tx_strictly memory_store sample_coinbase (manager_clear memory_store m) = (Inr (), u)"
proof -
  have "tr_outputs (spending_of sample_coinbase) = [(alice_address, FloatAmount (Fin 5))]" "t_sender sample_coinbase = ''COINBASE''"
    by (simp_all add: spending_of_def sample_coinbase_def sample_payment_def)
  then show ?thesis
    by (simp add: apply_tx_strictly_def and_then_def ret_def process_transaction_outputs_def manager_add_utxo_def five_coins)
qed

lemma paid_nonces: "\<exists>s. rebuild_nonce_tracker paid_chain t = (Inr (), s)"
proof -
  obtain s where s: "save_nonces True (t\<lparr>nonces := [], pending_nonces := []\<rparr>) = (Inr (), s)"
    using save_frame(1) [of True "t\<lparr>nonces := [], pending_nonces := []\<rparr>"] by (metis prod.collapse)
  have "t_nonce sample_coinbase = None" by (simp add: sample_coinbase_def)
  then have "replay_nonce sample_coinbase s = (Inr (), s)" by (simp add: replay_nonce_def ret_def)
  then show ?thesis
    by (simp add: rebuild_nonce_tracker_def reset_all_def s and_then_def ret_def paid_txs(1) [unfolded block_txs_def])
qed

lemma sample_replaced:
  "\<exists>n'. replace_chain memory_store sample_rules sample_hooks (map ABlock paid_chain) sample_node = (Inr True, n')"
proof -
  obtain j where "replace_chain memory_store sample_rules sample_hooks (map ABlock paid_chain) sample_node =
     commit_chain memory_store sample_rules sample_hooks (Some 0) paid_chain (sample_node\<lparr>nd_judge := j\<rparr>)" using sample_accepts by blast
  moreover define g where "g t = snd (rebuild_nonce_tracker paid_chain t)" for t
  have "rebuild_nonce_tracker paid_chain t = (Inr (), g t)" for t
    unfolding g_def using paid_nonces [of t] by auto
  moreover define f where "f m = snd (apply_tx_strictly memory_store sample_coinbase (manager_clear memory_store m))" for m
  have "apply_tx_strictly memory_store sample_coinbase (manager_clear memory_store m) = (Inr (), f m)" for m
    unfolding f_def using paid_outputs [of m] by auto
  moreover have "mp_pending (nd_pool sample_node) = []" by (simp add: sample_node_def sample_mempool_def)
  ultimately show ?thesis
    by (simp add: commit_chain_def perform_reorg_def paid_txs sample_hooks_def meth_simps revalidate_pool_def save_state_def
        for_each_ret zoom_ret)
qed

theorem replacement_justified_witness:
  "nd_chain (snd (replace_chain memory_store sample_rules sample_hooks (map ABlock paid_chain) sample_node)) = paid_chain"
proof -
  obtain n' where n': "replace_chain memory_store sample_rules sample_hooks (map ABlock paid_chain) sample_node = (Inr True, n')"
    using sample_replaced by blast
  from replacement_justified [OF n'] show ?thesis by (simp add: n')
qed

theorem reorganisation_rebuilds_witness:
  "mem_get ''cc'' 0 (store (mp_utxos (nd_pool
     (snd (replace_chain memory_store sample_rules sample_hooks (map ABlock paid_chain) sample_node))))) =
   Some (new_utxo alice_address ''cc'' 0 (Fin 5) (''P2PKH '' @ alice_address))"
proof -
  obtain n' where n': "replace_chain memory_store sample_rules sample_hooks (map ABlock paid_chain) sample_node = (Inr True, n')"
    using sample_replaced by blast
  obtain new t where "materialize sample_hooks (nd_world sample_node) (map ABlock paid_chain) = Some new"
    and "perform_reorg memory_store sample_rules sample_hooks
      (if map ABlock paid_chain = [] then None else Some (find_fork_point (nd_chain sample_node) (map ABlock paid_chain))) new t = (Inr (), n')"
    using n' by (rule replace_True)
  then have c: "nd_chain n' = paid_chain" using reorg_result(1) by simp
  let ?u = "new_utxo alice_address ''cc'' 0 (Fin 5) (''P2PKH '' @ alice_address)"
  have "makes sample_coinbase ?u"
    by (simp add: makes_def sample_coinbase_def sample_payment_def five_coins tx_id_def text_of_def)
  then have "leaves_unspent (block_txs (nd_chain n')) ?u"
    by (simp add: leaves_unspent_def c paid_txs all_spent_def spends_def sample_coinbase_def)
  moreover have "distinct (map tx_id (block_txs (nd_chain n')))" by (simp add: c paid_txs)
  ultimately have "mem_get ''cc'' 0 (store (mp_utxos (nd_pool n'))) = Some ?u"
    using reorganisation_rebuilds [OF n', of "''cc''" 0 ?u] by (simp add: key_of_def new_utxo_def)
  then show ?thesis by (simp add: n')
qed

text \<open>The governance of this node fails when it is rebuilt, and the reorganisation is undone.\<close>

definition failing_hooks :: "(mem_utxos, unit, unit) hooks" where
  "failing_hooks = sample_hooks\<lparr>hk_rebuild := (\<lambda>c. raise RuntimeError)\<rparr>"

lemma sample_refused:
  "\<exists>n'. replace_chain memory_store sample_rules failing_hooks (map ABlock paid_chain) sample_node = (Inr False, n')"
proof -
  obtain j where run: "replace_chain memory_store sample_rules failing_hooks (map ABlock paid_chain) sample_node =
     commit_chain memory_store sample_rules failing_hooks (Some 0) paid_chain (sample_node\<lparr>nd_judge := j\<rparr>)" using sample_accepts by blast
  let ?n = "sample_node\<lparr>nd_judge := j\<rparr>"
  define f where "f m = snd (apply_tx_strictly memory_store sample_coinbase (manager_clear memory_store m))" for m
  have "apply_tx_strictly memory_store sample_coinbase (manager_clear memory_store m) = (Inr (), f m)" for m
    unfolding f_def using paid_outputs [of m] by auto
  then have "\<exists>m. perform_reorg memory_store sample_rules failing_hooks (Some 0) paid_chain ?n = (Inl RuntimeError, m) \<and> nd_finality m = None"
    by (simp add: perform_reorg_def paid_txs failing_hooks_def sample_hooks_def and_then_def zoom_def modify_def raise_def ret_def)
      (simp add: sample_node_def)
  then obtain m where m: "perform_reorg memory_store sample_rules failing_hooks (Some 0) paid_chain ?n = (Inl RuntimeError, m)"
    and f: "nd_finality m = None" by blast
  obtain r c where "nonce_restore (nonce_snapshot (mp_tracker (nd_pool ?n))) (mp_tracker (nd_pool m)) = (r, c)" by fastforce
  then have c: "nonce_restore (nonce_snapshot (mp_tracker (nd_pool ?n))) (mp_tracker (nd_pool m)) = (Inr (), c)"
    using nonce_restore_frame by blast
  have "\<exists>n'. roll_back memory_store failing_hooks ?n m = (Inr False, n')"
    using c f by (simp add: roll_back_def restore_ledger_def restore_finality_def and_then_def zoom_def modify_def ret_def split: option.split)
  then show ?thesis using run m by (simp add: commit_chain_def handled_def)
qed

theorem refusal_restores_witness:
  "mem_get ''t1'' 0 (store (mp_utxos (nd_pool (snd (replace_chain memory_store sample_rules failing_hooks (map ABlock paid_chain) sample_node))))) =
     mem_get ''t1'' 0 (store (mp_utxos sample_mempool))"
proof -
  obtain n' where n': "replace_chain memory_store sample_rules failing_hooks (map ABlock paid_chain) sample_node = (Inr False, n')"
    using sample_refused by blast
  have pool: "nd_pool sample_node = sample_mempool" by (simp add: sample_node_def)
  have "mem_inv (store (mp_utxos sample_mempool))"
    by (simp add: sample_mempool_def new_manager_def) (rule mem_inv_load_one [OF mem_inv_new], simp_all add: new_utxo_def mem_get_def new_mem_store_def)
  from refusal_restores [OF n', unfolded pool, OF this] show ?thesis by (simp add: n')
qed

section \<open>What goes wrong\<close>

text \<open>
  A reorganisation to a chain whose first payment spends an unknown output ends in an exception that
  nobody handles: the old chain stays, with an empty set of unspent outputs.
\<close>

lemma failed_input_escapes:
  assumes "block_txs new = t # ts" and "t_sender t \<noteq> ''COINBASE''"
    and "process_transaction_inputs ops (spending_of t) (manager_clear ops (mp_utxos (nd_pool n))) = (Inr False, u)"
  shows "commit_chain ops R H fork new n = (Inl PlainException, n\<lparr>nd_pool := (nd_pool n)\<lparr>mp_utxos := u\<rparr>\<rparr>)"
  using assms by (simp add: commit_chain_def perform_reorg_def and_then_def zoom_def modify_def apply_tx_strictly_def raise_def handled_def)

text \<open>
  Undoing a reorganisation of a node with a finality manager raises in its turn: the certificates are
  gone and the pending transactions are not put back.
\<close>

lemma restore_ledger_result:
  "\<exists>tr u. restore_ledger ops old n = (Inr (), n\<lparr>nd_chain := nd_chain old, nd_pool := (nd_pool n)\<lparr>mp_utxos := u, mp_tracker := tr\<rparr>\<rparr>)"
proof -
  obtain r c where rc: "nonce_restore (nonce_snapshot (mp_tracker (nd_pool old))) (mp_tracker (nd_pool n)) = (r, c)" by fastforce
  then have "r = Inr ()" using nonce_restore_frame by blast
  then show ?thesis using rc by (auto simp: restore_ledger_def and_then_def zoom_def modify_def ret_def)
qed

lemma roll_back_loses_finality:
  assumes "nd_finality old = Some f0" and "nd_finality n = Some f" and "roll_back ops H old n = (r, n')"
  shows "r \<in> {Inl KeyError, Inl AttributeError} \<and> mp_pending (nd_pool n') = mp_pending (nd_pool n) \<and>
    (\<exists>g. nd_finality n' = Some g \<and> certs_by_hash g = [])"
proof -
  obtain tr u where l: "restore_ledger ops old n = (Inr (), n\<lparr>nd_chain := nd_chain old, nd_pool := (nd_pool n)\<lparr>mp_utxos := u, mp_tracker := tr\<rparr>\<rparr>)"
    using restore_ledger_result by blast
  obtain q g where q: "finality_restore (finality_snapshot_of f0) f = (q, g)" by fastforce
  then have "q \<in> {Inl KeyError, Inl AttributeError}" "certs_by_hash g = []"
    using restore_loses_certificates [of "finality_snapshot_of f0" f] by simp_all
  then show ?thesis using assms l q by (auto simp: roll_back_def and_then_def modify_def ret_def restore_finality_def)
qed

text \<open>The count of transactions, which decides between chains of equal work, is not put back either.\<close>

lemma roll_back_count:
  assumes "roll_back ops H old n = (r, n')"
  shows "nd_tx_count n' = nd_tx_count n"
proof -
  obtain tr u where l: "restore_ledger ops old n = (Inr (), n\<lparr>nd_chain := nd_chain old, nd_pool := (nd_pool n)\<lparr>mp_utxos := u, mp_tracker := tr\<rparr>\<rparr>)"
    using restore_ledger_result by blast
  let ?k = "n\<lparr>nd_chain := nd_chain old, nd_pool := (nd_pool n)\<lparr>mp_utxos := u, mp_tracker := tr\<rparr>,
      nd_world := hk_rollback H (nd_world old) (nd_world n)\<rparr>"
  obtain q k where q: "restore_finality old ?k = (q, k)" by fastforce
  then have "nd_tx_count k = nd_tx_count n" by (auto simp: restore_finality_def split: option.splits prod.splits)
  moreover have "nd_tx_count n' = nd_tx_count k" using assms l q
    by (cases q) (auto simp: roll_back_def and_then_def modify_def ret_def set_pending_def)
  ultimately show ?thesis by simp
qed

text \<open>A rebuilt tracker holds the nonce after the last one used, so the next one is refused.\<close>

lemma rebuilt_nonce_skips:
  assumes "t_nonce t = Some 0" and "counted t"
  shows "\<not> validate_nonce (t_sender t) 1 (snd (replay_nonce t (snd (reset_all s)))) \<and>
    validate_nonce (t_sender t) 2 (snd (replay_nonce t (snd (reset_all s))))"
proof -
  define s1 where "s1 = snd (reset_all s)"
  have s1: "nonces s1 = []" "pending_nonces s1 = []" by (simp_all add: s1_def reset_all_def save_frame)
  then have "nonces (snd (replay_nonce t s1)) = [(t_sender t, 1)]" "pending_nonces (snd (replay_nonce t s1)) = []"
    using assms by (simp_all add: replay_nonce_def get_nonce_def get_confirmed_nonce_def set_nonce_def maybe_save_frame drop_pending_def)
  then show ?thesis unfolding s1_def [symmetric]
    by (simp add: validate_nonce_def get_effective_nonce_def get_confirmed_nonce_def Let_def)
qed

text \<open>Adding a block credits the outputs of a transaction whose inputs could not be spent.\<close>

lemma unspent_inputs_ignored:
  assumes "process_transaction_inputs ops (spending_of t) u = (Inr ok, u')"
  shows "t_sender t \<noteq> ''COINBASE'' \<Longrightarrow> apply_tx ops t u = process_transaction_outputs ops (spending_of t) u'"
  using assms by (simp add: apply_tx_def and_then_def)

text \<open>Transactions of these senders enter a block without a look at them.\<close>

lemma system_senders_unchecked:
  "\<forall>t \<in> set ts. t_sender t \<in> {''COINBASE'', ''SYSTEM'', ''AIRDROP''} \<Longrightarrow> validate_block_txs ops R seen ts n = (Inr (Some (seen @ ts)), n)"
  by (induction ts arbitrary: seen) (auto simp: ret_def)

text \<open>A longer chain wins whatever its work.\<close>

lemma longer_chain_wins:
  "length (nd_chain n) < length new \<Longrightarrow> accept_candidate R new n = on_judge (validate_chain_structure R new) n"
  by (simp add: accept_candidate_def both_def)

end
