(* ===== verification/Rewards.thy ===== *)
theory Rewards
  imports Transactions Difficulty
begin

text \<open>
  Block rewards and the check of the coinbase: \<open>get_block_reward\<close> and \<open>validate_coinbase_reward\<close> of
  \<open>blockchain_components/consensus_mixin.py\<close>. \<open>held\<close> is the circulating supply of the node, the sum
  of its unspent outputs.
\<close>

section \<open>The schedule\<close>

record emission =
  initial_block_reward :: pyfloat
  halving_interval :: int
  max_supply :: pyfloat
  max_streak_bonus :: pyfloat

definition default_emission :: emission where
  "default_emission = \<lparr>initial_block_reward = Fin 12, halving_interval = 262800, max_supply = Fin 121000000,
     max_streak_bonus = to_float (1 / 5)\<rparr>"

text \<open>\<open>x / 2 ** k\<close>: an integer that does not fit a float for positive k, a float for negative k.\<close>

definition over_power :: "pyfloat \<Rightarrow> int \<Rightarrow> exn + pyfloat" where
  "over_power x k =
     (if k < 0 then float_div x (to_float (pow2 k))
      else case float_of_int (2 ^ nat k) of Fin p \<Rightarrow> float_div x (Fin p) | _ \<Rightarrow> Inl OverflowError)"

definition get_block_reward :: "emission \<Rightarrow> pyfloat \<Rightarrow> int \<Rightarrow> exn + pyfloat" where
  "get_block_reward c held height =
     (let remaining = float_sub (max_supply c) held in
      if float_le remaining (Fin 0) then Inr (Fin 0)
      else case over_power (initial_block_reward c) (height div halving_interval c) of
        Inl e \<Rightarrow> Inl e
      | Inr reward \<Rightarrow> if float_less reward MINIMUM_TRANSACTION_AMOUNT then Inr (Fin 0)
          else if float_less remaining reward then Inr remaining else Inr reward)"

section \<open>The coinbase of a block\<close>

definition is_coinbase :: "transaction \<Rightarrow> bool" where
  "is_coinbase t \<longleftrightarrow> t_sender t = ''COINBASE'' \<or> t_type t = ''coinbase''"

definition pays_fee :: "transaction \<Rightarrow> bool" where
  "pays_fee t \<longleftrightarrow> t_sender t \<notin> {''COINBASE'', ''SYSTEM'', ''AIRDROP''} \<and> t_type t \<noteq> ''coinbase''"

definition max_coinbase :: "emission \<Rightarrow> pyfloat \<Rightarrow> transaction list \<Rightarrow> pyfloat" where
  "max_coinbase c reward ts =
     float_add (float_mul reward (float_add (Fin 1) (max_streak_bonus c))) (float_sum (map t_fee (filter pays_fee ts)))"

definition validate_coinbase_reward :: "emission \<Rightarrow> pyfloat \<Rightarrow> int \<Rightarrow> transaction list \<Rightarrow> exn + bool" where
  "validate_coinbase_reward c held height ts =
     (case find is_coinbase ts of
        None \<Rightarrow> Inr False
      | Some t \<Rightarrow>
          (case get_block_reward c held height of
             Inl e \<Rightarrow> Inl e
           | Inr reward \<Rightarrow>
               Inr (\<not> float_less (float_add (max_coinbase c reward ts) MINIMUM_TRANSACTION_AMOUNT) (t_amount t))))"


section \<open>The schedule is exact and bounded\<close>

lemma min_amount_above: "MINIMUM_TRANSACTION_AMOUNT = PosInf \<or> (\<exists>m. MINIMUM_TRANSACTION_AMOUNT = Fin m \<and> 15 / 2 ^ 64 \<le> m)"
proof -
  have "to_float (of_int 15 * pow2 (- 64)) = Fin (of_int 15 * pow2 (- 64))" by (rule to_float_dyadic) simp_all
  then have "to_float (15 / 2 ^ 64) = Fin (15 / 2 ^ 64)" by (simp add: pow2_def)
  moreover have "(15 / 2 ^ 64 :: rat) \<le> 1 / 10 ^ 18" by simp
  ultimately show ?thesis unfolding MINIMUM_TRANSACTION_AMOUNT_def by (intro to_float_mono_ge) simp_all
qed

lemma min_amount_below: "12 / 2 ^ 63 \<le> q \<Longrightarrow> \<not> float_less (Fin q) MINIMUM_TRANSACTION_AMOUNT"
proof -
  assume q: "12 / 2 ^ 63 \<le> q"
  have "to_float (of_int 12 * pow2 (- 63)) = Fin (of_int 12 * pow2 (- 63))" by (rule to_float_dyadic) simp_all
  then have "to_float (12 / 2 ^ 63) = Fin (12 / 2 ^ 63)" by (simp add: pow2_def)
  moreover have "(1 / 10 ^ 18 :: rat) \<le> 12 / 2 ^ 63" by simp
  ultimately obtain a where "to_float (1 / 10 ^ 18) = Fin a" "a \<le> 12 / 2 ^ 63"
    using to_float_mono [of "1 / 10 ^ 18" "12 / 2 ^ 63"] by fastforce
  then show ?thesis using q by (simp add: MINIMUM_TRANSACTION_AMOUNT_def)
qed

lemma over_power_early: "0 \<le> k \<Longrightarrow> k < 64 \<Longrightarrow> over_power (Fin 12) k = Inr (Fin (12 / 2 ^ nat k))"
proof -
  assume k: "0 \<le> k" "k < 64"
  have "to_float (of_int 1 * pow2 k) = Fin (of_int 1 * pow2 k)" by (rule to_float_dyadic) (use k in simp_all)
  moreover have "to_float (of_int 12 * pow2 (- k)) = Fin (of_int 12 * pow2 (- k))" by (rule to_float_dyadic) (use k in simp_all)
  moreover have "pow2 k = 2 ^ nat k" "pow2 (- k) = 1 / 2 ^ nat k" using k by (auto simp: pow2_def)
  ultimately show ?thesis using k by (simp add: over_power_def float_of_int_def)
qed

lemma over_power_late: "64 \<le> k \<Longrightarrow> over_power (Fin 12) k = Inr x \<Longrightarrow> float_less x MINIMUM_TRANSACTION_AMOUNT"
proof -
  assume k: "64 \<le> k" and x: "over_power (Fin 12) k = Inr x"
  then obtain p where p: "float_of_int (2 ^ nat k) = Fin p" and xp: "float_div (Fin 12) (Fin p) = Inr x"
    by (auto simp: over_power_def split: pyfloat.splits)
  have "to_float (of_int 1 * pow2 64) = Fin (of_int 1 * pow2 64)" by (rule to_float_dyadic) simp_all
  then have "to_float (2 ^ 64) = Fin (2 ^ 64)" by (simp add: pow2_def)
  moreover have "(2 ^ 64 :: rat) \<le> 2 ^ nat k" using k by (intro power_increasing) auto
  ultimately have low: "2 ^ 64 \<le> p" using to_float_mono_ge [of "2 ^ 64" "2 ^ nat k"] p by (auto simp: float_of_int_def)
  then have "0 < p" by (rule less_le_trans [rotated]) simp
  then have nonneg: "0 \<le> 12 / p" by simp
  have small: "12 / p \<le> 12 / 2 ^ 64" using low \<open>0 < p\<close> by (intro divide_left_mono) auto
  have "to_float (of_int 12 * pow2 (- 64)) = Fin (of_int 12 * pow2 (- 64))" by (rule to_float_dyadic) simp_all
  then have "to_float (12 / 2 ^ 64) = Fin (12 / 2 ^ 64)" by (simp add: pow2_def)
  then obtain a where a: "to_float (12 / p) = Fin a" "a \<le> 12 / 2 ^ 64" using to_float_mono [OF nonneg small] by blast
  have "x = Fin a" using xp a(1) \<open>0 < p\<close> by simp
  from min_amount_above show ?thesis
  proof
    assume "\<exists>m. MINIMUM_TRANSACTION_AMOUNT = Fin m \<and> 15 / 2 ^ 64 \<le> m"
    then obtain m where m: "MINIMUM_TRANSACTION_AMOUNT = Fin m" "15 / 2 ^ 64 \<le> m" by blast
    have "a < m" using a(2) m(2) by simp
    then show ?thesis by (simp add: m(1) \<open>x = Fin a\<close>)
  qed (simp add: \<open>x = Fin a\<close>)
qed

lemma over_power_overflow: "1024 \<le> k \<Longrightarrow> over_power x k = Inl OverflowError"
proof -
  assume k: "1024 \<le> k"
  have log: "floor_log2 (pow2 1024) = 1024" by (rule floor_log2_unique) (auto simp: pow2_def)
  then have "ulp_exponent (pow2 1024) \<le> 1024" using pow2_pos [of 1024] by (simp add: ulp_exponent_def)
  then have "pow2 1024 \<le> round_double (pow2 1024)" by (intro round_double_ge_pow2) auto
  also have "\<dots> \<le> round_double (pow2 k)" using pow2_pos [of 1024] pow2_mono [OF k] by (intro round_double_mono) auto
  finally have big: "pow2 1024 \<le> round_double (pow2 k)" .
  then have pos: "0 < round_double (pow2 k)" using pow2_pos [of 1024] by linarith
  have "1024 \<le> floor_log2 (round_double (pow2 k))" using floor_log2_mono [OF pow2_pos big] log by simp
  then have "to_float (pow2 k) = PosInf" using pos by (simp add: to_float_def)
  then show ?thesis using k by (simp add: over_power_def float_of_int_def pow2_def)
qed

lemma reward_bounds:
  assumes "get_block_reward default_emission held height = Inr x" and "0 \<le> height"
  shows "\<exists>r. x = Fin r \<and> 0 \<le> r \<and> r \<le> 12 / 2 ^ nat (height div 262800)"
proof -
  let ?k = "height div 262800" and ?rem = "float_sub (Fin 121000000) held"
  have k: "0 \<le> ?k" using assms(2) by simp
  show ?thesis
  proof (cases "float_le ?rem (Fin 0)")
    case True
    then show ?thesis using assms(1) by (auto simp: get_block_reward_def default_emission_def)
  next
    case False
    then obtain y where y: "over_power (Fin 12) ?k = Inr y"
      and x: "x = (if float_less y MINIMUM_TRANSACTION_AMOUNT then Fin 0 else if float_less ?rem y then ?rem else y)"
      using assms(1) by (cases "over_power (Fin 12) ?k") (auto simp: get_block_reward_def default_emission_def Let_def split: if_split_asm)
    show ?thesis
    proof (cases "?k < 64")
      case True
      then have "y = Fin (12 / 2 ^ nat ?k)" using y over_power_early [OF k] by simp
      then show ?thesis using x False by (cases ?rem) (auto simp: float_le_def float_eq_def)
    next
      case f: False
      then show ?thesis using x over_power_late [OF _ y] by simp
    qed
  qed
qed

lemma over_power_defined: "0 \<le> k \<Longrightarrow> k < 1024 \<Longrightarrow> \<exists>x. over_power (Fin 12) k = Inr x"
proof -
  assume k: "0 \<le> k" "k < 1024"
  let ?x = "pow2 k"
  have log: "floor_log2 ?x = k" using k by (intro floor_log2_unique) (auto simp: pow2_def nat_add_distrib)
  then have "ulp_exponent ?x \<le> 1023" using k pow2_pos [of k] by (simp add: ulp_exponent_def)
  moreover have "?x \<le> pow2 1023" using k by (intro pow2_mono) simp
  ultimately have high: "round_double ?x \<le> pow2 1023" using pow2_pos [of k] by (intro round_double_le_pow2)
  have "ulp_exponent ?x \<le> k" if "- 1074 \<le> k" using that log pow2_pos [of k] by (simp add: ulp_exponent_def)
  then have "?x \<le> round_double ?x" using k by (intro round_double_ge_pow2) auto
  then have pos: "0 < round_double ?x" using pow2_pos [of k] by linarith
  have "pow2 1023 < pow2 1024" by (simp add: pow2_def)
  then have "to_float ?x = Fin (round_double ?x)" using high pos by (intro to_float_finite) simp
  then show ?thesis using k pos by (auto simp: over_power_def float_of_int_def pow2_def)
qed

text \<open>While a million coins are left the reward follows the schedule to the last bit, is nothing after 64 halvings and raises after 1024.\<close>

lemma reward_schedule:
  assumes "0 \<le> height" and "0 \<le> s" "s \<le> 120000000" and k: "k = height div 262800"
  shows "get_block_reward default_emission (Fin s) height =
    (if k < 64 then Inr (Fin (12 / 2 ^ nat k)) else if k < 1024 then Inr (Fin 0) else Inl OverflowError)"
proof -
  have "0 \<le> k" using assms by simp
  have "to_float 1000000 = Fin 1000000" using to_float_int [of 1000000] by simp
  then have rem: "to_float (121000000 - s) = PosInf \<or> (\<exists>b. to_float (121000000 - s) = Fin b \<and> 1000000 \<le> b)"
    using assms by (intro to_float_mono_ge) auto
  then have some: "\<not> float_le (to_float (121000000 - s)) (Fin 0)" by (auto simp: float_le_def float_eq_def)
  consider "k < 64" | "64 \<le> k" "k < 1024" | "1024 \<le> k" by linarith
  then show ?thesis
  proof cases
    case 1
    have le: "(12 / 2 ^ nat k :: rat) \<le> 12" by (simp add: field_simps)
    then have "\<not> float_less (to_float (121000000 - s)) (Fin (12 / 2 ^ nat k))" using rem by auto
    moreover have "12 / 2 ^ 63 \<le> (12 / 2 ^ nat k :: rat)" using 1 by (intro divide_left_mono power_increasing) auto
    then have "\<not> float_less (Fin (12 / 2 ^ nat k)) MINIMUM_TRANSACTION_AMOUNT" by (rule min_amount_below)
    ultimately show ?thesis using some 1 over_power_early [OF \<open>0 \<le> k\<close>]
      by (simp add: get_block_reward_def default_emission_def float_sub_def Let_def k [symmetric])
  next
    case 2
    then obtain x where x: "over_power (Fin 12) k = Inr x" using over_power_defined [OF \<open>0 \<le> k\<close>] by blast
    show ?thesis using some 2 x over_power_late [OF _ x]
      by (simp add: get_block_reward_def default_emission_def float_sub_def Let_def k [symmetric])
  next
    case 3
    then show ?thesis using some over_power_overflow
      by (simp add: get_block_reward_def default_emission_def float_sub_def Let_def k [symmetric])
  qed
qed

text \<open>
  C40: However the supply of the node moves while blocks are mined, all rewards of the default
  schedule from the first block on come to 6307200 coins at most, about a twentieth of the cap.
\<close>
theorem emission_bounded:
  assumes "\<And>h. h < n \<Longrightarrow> get_block_reward default_emission (held h) (int h) = Inr (Fin (r h))"
  shows "0 \<le> (\<Sum>h<n. r h) \<and> (\<Sum>h<n. r h) \<le> 6307200"
proof -
  let ?f = "\<lambda>h. 12 / 2 ^ (h div 262800) :: rat" and ?m = "n div 262800 + 1"
  have r: "0 \<le> r h \<and> r h \<le> ?f h" if "h < n" for h
  proof -
    have "int h div 262800 = int (h div 262800)" by (simp add: zdiv_int)
    then show ?thesis using reward_bounds [OF assms [OF that]] by auto
  qed
  have "n < ?m * 262800" using dividend_less_div_times [of 262800 n] by (simp add: algebra_simps)
  then have "(\<Sum>h<n. r h) \<le> (\<Sum>h<?m * 262800. ?f h)"
    using r by (intro order_trans [OF sum_mono sum_mono2]) auto
  also have "\<dots> = (\<Sum>k<?m. \<Sum>h=k * 262800..<k * 262800 + 262800. ?f h)" by (rule sum.nat_group [symmetric])
  also have "\<dots> = (\<Sum>k<?m. 262800 * (12 / 2 ^ k))"
  proof (rule sum.cong [OF refl])
    fix k
    have "(\<Sum>h=k * 262800..<k * 262800 + 262800. ?f h) = (\<Sum>h=k * 262800..<k * 262800 + 262800. 12 / 2 ^ k)"
    proof (rule sum.cong [OF refl])
      fix h :: nat assume "h \<in> {k * 262800..<k * 262800 + 262800}"
      then have "h div 262800 = k" by (intro div_nat_eqI) auto
      then show "?f h = 12 / 2 ^ k" by simp
    qed
    then show "(\<Sum>h=k * 262800..<k * 262800 + 262800. ?f h) = 262800 * (12 / 2 ^ k)" by simp
  qed
  also have "\<dots> \<le> 6307200"
  proof -
    have step: "6307200 * (1 - 1 / 2 ^ m) + 262800 * (12 / 2 ^ m) = (6307200 * (1 - 1 / 2 ^ Suc m) :: rat)" for m
      by (simp add: field_simps)
    have "(\<Sum>k<m. 262800 * (12 / 2 ^ k :: rat)) = 6307200 * (1 - 1 / 2 ^ m)" for m
    proof (induction m)
      case (Suc m)
      then show ?case by (simp only: sum.lessThan_Suc step)
    qed simp
    then have "(\<Sum>k<?m. 262800 * (12 / 2 ^ k :: rat)) = 6307200 * (1 - 1 / 2 ^ ?m)" .
    also have "\<dots> \<le> 6307200" by simp
    finally show ?thesis .
  qed
  finally show ?thesis using r by (auto intro: sum_nonneg)
qed

theorem emission_bounded_witness: "0 \<le> (\<Sum>h<3::nat. 12 :: rat) \<and> (\<Sum>h<3::nat. 12 :: rat) \<le> 6307200"
proof (rule emission_bounded [where held = "\<lambda>h. Fin (12 * of_nat h)"])
  fix h :: nat assume "h < 3"
  then show "get_block_reward default_emission (Fin (12 * of_nat h)) (int h) = Inr (Fin 12)"
    by (subst reward_schedule [OF _ _ _ refl]) simp_all
qed

text \<open>The check of a block reads the amount of its first coinbase alone: what its outputs pay and what later ones claim is free.\<close>

lemma coinbase_outputs_unchecked:
  assumes "is_coinbase t" and "is_coinbase u"
  shows "validate_coinbase_reward c held height (t\<lparr>t_outputs := outs\<rparr> # ts @ [u]) = validate_coinbase_reward c held height (t # ts)"
  using assms by (auto simp: validate_coinbase_reward_def max_coinbase_def is_coinbase_def pays_fee_def split: sum.split)

text \<open>The reward of a height depends on the outputs the node has now: near the cap an old block is judged by the supply of today.\<close>

lemma reward_depends_on_supply:
  "get_block_reward default_emission (Fin 0) 0 = Inr (Fin 12)" "get_block_reward default_emission (Fin 121000000) 0 = Inr (Fin 0)"
proof -
  have "to_float 0 = Fin 0" by code_simp
  then show "get_block_reward default_emission (Fin 0) 0 = Inr (Fin 12)"
    "get_block_reward default_emission (Fin 121000000) 0 = Inr (Fin 0)"
    using reward_schedule [of 0 0 0]
    by (simp_all add: get_block_reward_def default_emission_def float_sub_def float_le_def float_eq_def)
qed

end
