(* ===== verification/Spec2Isabelle.thy ===== *)
theory Spec2Isabelle
  imports ExecutorCorrect EvmAlu Erc20 NonceTracker Finality BlockHeader UtxoSafety ChainReorg Rewards
begin

text \<open>
  A model of two parts of the XAI blockchain node (\<open>src/src/xai/core\<close>): the chain of blocks with
  the transactions, pools and unspent outputs on which consensus rests, and the smart contract layer from the stack of its
  virtual machine to the executor that deploys and calls contracts, with the token contracts
  built into it and written beside it.

  How the parts interact. A block (\<open>blockchain_components/block.py\<close>) holds transactions under a
  Merkle root and a header (\<open>chain/block_header.py\<close>) whose hash commits to it and is mined.
  Validators vote for headers in the finality gadget (\<open>consensus/finality.py\<close>), which forbids
  reorganisations below a certified block. The outputs that transactions of blocks create and
  spend are kept by \<open>UTXOManager\<close> (\<open>transactions/utxo_manager.py\<close>) in a store
  (\<open>transactions/utxo_store.py\<close>); outputs that pending transactions are about to spend are
  locked there. A transaction (\<open>transaction.py\<close>) enters the pool of the node
  (\<open>blockchain_components/mempool_mixin.py\<close>) when the validator
  (\<open>consensus/transaction_validator.py\<close>) accepts it against the outputs, the nonces and the pool
  itself; a miner takes transactions from the pool by fee rate and orders them by dependency, at
  the difficulty the consensus rules demand. A block that arrives extends the chain of the node
  (\<open>blockchain.py\<close>), is kept as an orphan, or starts a fork; a chain that is preferred to the
  present one replaces it, and outputs, nonces and pool are rebuilt. The nonce tracker (\<open>transactions/nonce_tracker.py\<close>) numbers the transactions of
  an account, and CREATE derives addresses from it. \<open>EVMBytecodeExecutor\<close>
  (\<open>vm/evm/executor.py\<close>) receives a message, looks its target up in the blockchain's registry
  of contracts (through a cache of decoded bytecode), and either hands the call to a built-in
  token (\<open>vm/evm/builtin_tokens.py\<close>) or runs the code in an \<open>EVMInterpreter\<close>
  (\<open>vm/evm/interpreter.py\<close>) on a fresh \<open>ExecutionContext\<close> (\<open>vm/evm/context.py\<close>), which holds
  the storage of the accounts it has touched, pending balance changes, logs, snapshots and the
  refund counter. The interpreter runs one frame (\<open>CallContext\<close>: stack, memory, gas, program
  counter) and calls itself for the frames of calls and creations. Built-in tokens call back into
  the executor to tell the receiver of a transfer.

  Methods. A Python method that changes its object is a function from the state to a result
  and a state (\<open>meth\<close> in \<open>Prelude\<close>); an exception is a left value beside the state reached when
  it was raised, so the mutations made before it stay. \<open>safe\<close> is the judgement with which
  invariants of composed methods are proved, one rule per combinator (locale \<open>safety\<close>). Dicts are
  association lists in insertion order, since some code depends on that order; objects that are
  shared and mutated (outputs of the memory store) are cells of the list that owns them.

  Theories, in the order of the code:
  \<^item> \<open>PyBytes\<close>, \<open>PyDict\<close>, \<open>PyFloat\<close>: Python's bytes, hexadecimal and decimal texts, dicts, and
    IEEE doubles as rationals with rounding to nearest even; rounding is monotone and exact on
    representable numbers.
  \<^item> \<open>Merkle\<close>: the Merkle root of a block, proofs and their verification. Proofs exist for exactly
    the transactions of the block and verify; paths of full height prove membership short of
    a collision.
  \<^item> \<open>BlockHeader\<close>: header validation, canonical JSON and hash, setters, signing and mining. Equal
    hashes mean equal headers short of a collision; mining finds the least nonce.
  \<^item> \<open>Json\<close>, \<open>Transactions\<close>: canonical JSON texts; construction of transactions with their checks,
    address formats, ids, signing and verification, size and fee rate. Equal ids mean equal
    contents short of a collision; a signed transaction verifies.
  \<^item> \<open>TxOrder\<close>: the order of transactions in a block, by fee rate and then by dependencies. The sort
    is a permutation that respects every dependency; none left out pays more than one taken.
  \<^item> \<open>TxValidator\<close>: what a node checks of a transaction. An accepted payment is signed by its
    sender, carries the id of its content, spends outputs of its sender and covers outputs and fee.
  \<^item> \<open>Mempool\<close>: the pool of pending transactions (\<open>add_transaction\<close>, removal, replacement,
    eviction, expiry, orphans, bans, what leaves with a block). Its indexes follow its list under every sequence of these
    steps; no two pending transactions spend one output unless one replaces another; what exactly is
    admitted; a banned sender is kept out. Promoted orphans and the pool after a reorganisation, which \<open>Chain\<close> writes,
    bypass the indexes and the limits and are not among the steps.
  \<^item> \<open>Difficulty\<close>: the difficulty required of the next block. It stays within a factor of four, is
    the same for every node of the main network and follows the speed of the window.
  \<^item> \<open>Rewards\<close>: the halving schedule and the check of the coinbase. The schedule is exact; all
    rewards together stay below 6.31 million coins.
  \<^item> \<open>ChainRules\<close>: the rules of a chain (links, hashes, proof of work, difficulty, times, versions,
    signatures, sizes) and its work. The last hash commits to the whole of a valid chain; the work
    is the sum of 16 to the difficulty, less one.
  \<^item> \<open>Chain\<close>: \<open>add_block\<close> with forks, lineage and orphans, \<open>replace_chain\<close> with its rollback, the
    lookup by hash. \<open>ChainSafety\<close>: the chain stays sound whatever peers send, and finalized blocks
    stay in it. \<open>Replay\<close>: the unspent outputs a list of transactions leaves, stated of the list alone, and that
    replaying it gives them. \<open>ChainReorg\<close>: when a chain is replaced, what is rebuilt then, what is restored when
    it is not, and where both fail.
  \<^item> \<open>Finality\<close>: votes, double-sign detection, certificates, persistence and the reorganisation
    guard. No two certificates of one height conflict, finality is never taken back, and enough
    honest votes make a block final.
  \<^item> \<open>UtxoStore\<close>, \<open>MemoryUtxoStore\<close>, \<open>LevelDbUtxoStore\<close>: the interface of a store (record
    \<open>store_ops\<close>, locale \<open>utxo_store\<close> with the laws of a finite map from output keys) and its two
    backends, each an interpretation.
  \<^item> \<open>UtxoManager\<close>, \<open>UtxoSafety\<close>: the manager over any store, with every method that changes it as a step; its
    index stays exact, outputs are spent once, locks exclude each other, snapshots restore, coin selection covers what it
    is asked for.
  \<^item> \<open>EvmStack\<close>, \<open>EvmMemory\<close>, \<open>EvmStorage\<close>: the data structures of a frame. Stacks hold at
    most 1024 words; memory is an array of bytes, zero until written; storage returns the last
    word written and its gas is net of refunds.
  \<^item> \<open>Opcodes\<close>: the enumeration and its table of gas and stack effects.
  \<^item> \<open>NonceTracker\<close>: confirmed and reserved nonces with their batched writes to disk. A confirmed
    nonce is never accepted again.
  \<^item> \<open>EvmContext\<close>, \<open>Precompiles\<close>, \<open>EvmMachine\<close>, \<open>EvmHelpers\<close>: the execution context with
    snapshots, the precompiled contracts, the machine with its cache of jump destinations, the
    addresses of created contracts.
  \<^item> \<open>EvmOps\<close>, \<open>EvmCalls\<close>: one definition per opcode handler; calls and creations, the handler
    table, \<open>step\<close>, \<open>loop\<close> and \<open>execute\<close>.
  \<^item> \<open>EvmAlu\<close>: the arithmetic opcodes are the operations of 256-bit machine words.
  \<^item> \<open>EvmInvariants\<close>: the locale \<open>evm_inv\<close>, an invariant of frames and contexts with a relation
    between contexts before and after; it proves once that every handler, the loop and \<open>execute\<close>
    keep them. \<open>EvmWorld\<close>, \<open>EvmStatic\<close> and \<open>EvmFuel\<close> interpret it: runs keep the machine well
    formed and conserve value, failed calls restore the world, static frames change nothing,
    code without creations ends.
  \<^item> \<open>EvmSample\<close>: a concrete machine for the examples.
  \<^item> \<open>Erc20\<close>: \<open>contracts/erc20.py\<close>, the token and the factory with its registry.
  \<^item> \<open>Abi\<close>, \<open>BuiltinTokens\<close>, \<open>BuiltinNft\<close>: the encoding of call data, and the built-in ERC20 and
    ERC721 contracts on their storage slots.
  \<^item> \<open>EvmExecutor\<close>, \<open>ExecutorCorrect\<close>: the entry points and the bytecode cache; what a call, a
    static call and a deployment may change.

  Fuel. \<open>execute\<close> takes a number of turns, spent per frame level: a subcall runs with one turn
  less than its caller. \<open>OutOfFuel\<close> is the outcome of a run without turns left and no exception
  of the source; nothing catches it. Gas plus two turns are enough for code without CREATE and
  CREATE2 (\<open>execute_terminates\<close>): every other opcode either costs gas or ends its frame, and a
  callee gets less gas than its caller has. CREATE returns gas it never took, so gas bounds
  nothing there; invariants hold for runs with creations whatever the fuel.

  Parameters. Hash functions, the clock and the optional elliptic curve and KZG libraries are
  arguments (\<open>externals\<close>); no theorem of the virtual machine uses a property of a hash beyond its
  32 bytes (\<open>externals_ok\<close>) except where slots of different accounts must not collide
  (\<open>layout_ok\<close>). The receive hook of a built-in token is an arbitrary method of the world around
  it. In the chain layer \<open>S\<close> and \<open>H\<close> stand for SHA-256 as hexadecimal text, \<open>F\<close> for the shortest
  text of a float, \<open>verify\<close> for the signature check; the record \<open>node_env\<close> holds the settings of a
  node with its keys and signatures, the hash and the checksum of addresses (their modules are not
  in the repository); the processor of sponsored transactions is an arbitrary method, and a clock
  is the list of its readings. What the chain calls outside these parts (files of blocks, contract
  and governance managers, the address index, the callback that votes) are the fields of \<open>hooks\<close>,
  arbitrary methods on a state of their own; the setting of a node and its versions are \<open>rules\<close>, and
  clock, difficulty adjuster and work cache are the state \<open>judge\<close>. What a theorem needs of them (no collision on
  the texts at hand, an injective \<open>F\<close>) is a hypothesis of its statement. Texts are lists of
  Latin-1 characters. The sum of a list of floats goes from left to right, as \<open>sum\<close> does before
  Python 3.12.

  Not modelled: the node around these parts (peer-to-peer network, HTTP interface, wallets,
  command line, the files of blocks with loading and pruning, the creation of checkpoints, the
  write-ahead log and the full revalidation of a loaded chain), and the DeFi, governance and artificial intelligence
  modules, and every log message and metric.
\<close>

end
